(* ===== verification/Kinds.thy ===== *)
theory Kinds
  imports "HOL-Library.Word"
begin

text \<open>
  The token kinds of \<^verbatim>\<open>ast/kind_generated.go\<close> (a 16-bit integer type whose constants are numbered by
  \<open>iota\<close>, here up to \<open>KindLastToken\<close>), the token flags of \<^verbatim>\<open>ast/tokenflags.go\<close> (bits of a
  32-bit integer) and the language variant and target options the scanner reads.
\<close>

datatype Kind = Kind (kind_ord: nat)

instantiation Kind :: linorder
begin

definition less_eq_Kind :: "Kind \<Rightarrow> Kind \<Rightarrow> bool" where
  "less_eq_Kind a b \<longleftrightarrow> kind_ord a \<le> kind_ord b"

definition less_Kind :: "Kind \<Rightarrow> Kind \<Rightarrow> bool" where
  "less_Kind a b \<longleftrightarrow> kind_ord a < kind_ord b"

instance
  by standard (auto simp: less_eq_Kind_def less_Kind_def intro: Kind.expand)

end

lemma Kind_le [simp]: "Kind a \<le> Kind b \<longleftrightarrow> a \<le> b"
  by (simp add: less_eq_Kind_def)

lemma Kind_less [simp]: "Kind a < Kind b \<longleftrightarrow> a < b"
  by (simp add: less_Kind_def)

abbreviation (input) KindUnknown :: Kind where "KindUnknown \<equiv> Kind 0"
abbreviation (input) KindEndOfFile :: Kind where "KindEndOfFile \<equiv> Kind 1"
abbreviation (input) KindSingleLineCommentTrivia :: Kind where "KindSingleLineCommentTrivia \<equiv> Kind 2"
abbreviation (input) KindMultiLineCommentTrivia :: Kind where "KindMultiLineCommentTrivia \<equiv> Kind 3"
abbreviation (input) KindNewLineTrivia :: Kind where "KindNewLineTrivia \<equiv> Kind 4"
abbreviation (input) KindWhitespaceTrivia :: Kind where "KindWhitespaceTrivia \<equiv> Kind 5"
abbreviation (input) KindConflictMarkerTrivia :: Kind where "KindConflictMarkerTrivia \<equiv> Kind 6"
abbreviation (input) KindNonTextFileMarkerTrivia :: Kind where "KindNonTextFileMarkerTrivia \<equiv> Kind 7"
abbreviation (input) KindNumericLiteral :: Kind where "KindNumericLiteral \<equiv> Kind 8"
abbreviation (input) KindBigIntLiteral :: Kind where "KindBigIntLiteral \<equiv> Kind 9"
abbreviation (input) KindStringLiteral :: Kind where "KindStringLiteral \<equiv> Kind 10"
abbreviation (input) KindJsxText :: Kind where "KindJsxText \<equiv> Kind 11"
abbreviation (input) KindJsxTextAllWhiteSpaces :: Kind where "KindJsxTextAllWhiteSpaces \<equiv> Kind 12"
abbreviation (input) KindRegularExpressionLiteral :: Kind where "KindRegularExpressionLiteral \<equiv> Kind 13"
abbreviation (input) KindNoSubstitutionTemplateLiteral :: Kind where "KindNoSubstitutionTemplateLiteral \<equiv> Kind 14"
abbreviation (input) KindTemplateHead :: Kind where "KindTemplateHead \<equiv> Kind 15"
abbreviation (input) KindTemplateMiddle :: Kind where "KindTemplateMiddle \<equiv> Kind 16"
abbreviation (input) KindTemplateTail :: Kind where "KindTemplateTail \<equiv> Kind 17"
abbreviation (input) KindOpenBraceToken :: Kind where "KindOpenBraceToken \<equiv> Kind 18"
abbreviation (input) KindCloseBraceToken :: Kind where "KindCloseBraceToken \<equiv> Kind 19"
abbreviation (input) KindOpenParenToken :: Kind where "KindOpenParenToken \<equiv> Kind 20"
abbreviation (input) KindCloseParenToken :: Kind where "KindCloseParenToken \<equiv> Kind 21"
abbreviation (input) KindOpenBracketToken :: Kind where "KindOpenBracketToken \<equiv> Kind 22"
abbreviation (input) KindCloseBracketToken :: Kind where "KindCloseBracketToken \<equiv> Kind 23"
abbreviation (input) KindDotToken :: Kind where "KindDotToken \<equiv> Kind 24"
abbreviation (input) KindDotDotDotToken :: Kind where "KindDotDotDotToken \<equiv> Kind 25"
abbreviation (input) KindSemicolonToken :: Kind where "KindSemicolonToken \<equiv> Kind 26"
abbreviation (input) KindCommaToken :: Kind where "KindCommaToken \<equiv> Kind 27"
abbreviation (input) KindQuestionDotToken :: Kind where "KindQuestionDotToken \<equiv> Kind 28"
abbreviation (input) KindLessThanToken :: Kind where "KindLessThanToken \<equiv> Kind 29"
abbreviation (input) KindLessThanSlashToken :: Kind where "KindLessThanSlashToken \<equiv> Kind 30"
abbreviation (input) KindGreaterThanToken :: Kind where "KindGreaterThanToken \<equiv> Kind 31"
abbreviation (input) KindLessThanEqualsToken :: Kind where "KindLessThanEqualsToken \<equiv> Kind 32"
abbreviation (input) KindGreaterThanEqualsToken :: Kind where "KindGreaterThanEqualsToken \<equiv> Kind 33"
abbreviation (input) KindEqualsEqualsToken :: Kind where "KindEqualsEqualsToken \<equiv> Kind 34"
abbreviation (input) KindExclamationEqualsToken :: Kind where "KindExclamationEqualsToken \<equiv> Kind 35"
abbreviation (input) KindEqualsEqualsEqualsToken :: Kind where "KindEqualsEqualsEqualsToken \<equiv> Kind 36"
abbreviation (input) KindExclamationEqualsEqualsToken :: Kind where "KindExclamationEqualsEqualsToken \<equiv> Kind 37"
abbreviation (input) KindEqualsGreaterThanToken :: Kind where "KindEqualsGreaterThanToken \<equiv> Kind 38"
abbreviation (input) KindPlusToken :: Kind where "KindPlusToken \<equiv> Kind 39"
abbreviation (input) KindMinusToken :: Kind where "KindMinusToken \<equiv> Kind 40"
abbreviation (input) KindAsteriskToken :: Kind where "KindAsteriskToken \<equiv> Kind 41"
abbreviation (input) KindAsteriskAsteriskToken :: Kind where "KindAsteriskAsteriskToken \<equiv> Kind 42"
abbreviation (input) KindSlashToken :: Kind where "KindSlashToken \<equiv> Kind 43"
abbreviation (input) KindPercentToken :: Kind where "KindPercentToken \<equiv> Kind 44"
abbreviation (input) KindPlusPlusToken :: Kind where "KindPlusPlusToken \<equiv> Kind 45"
abbreviation (input) KindMinusMinusToken :: Kind where "KindMinusMinusToken \<equiv> Kind 46"
abbreviation (input) KindLessThanLessThanToken :: Kind where "KindLessThanLessThanToken \<equiv> Kind 47"
abbreviation (input) KindGreaterThanGreaterThanToken :: Kind where "KindGreaterThanGreaterThanToken \<equiv> Kind 48"
abbreviation (input) KindGreaterThanGreaterThanGreaterThanToken :: Kind where "KindGreaterThanGreaterThanGreaterThanToken \<equiv> Kind 49"
abbreviation (input) KindAmpersandToken :: Kind where "KindAmpersandToken \<equiv> Kind 50"
abbreviation (input) KindBarToken :: Kind where "KindBarToken \<equiv> Kind 51"
abbreviation (input) KindCaretToken :: Kind where "KindCaretToken \<equiv> Kind 52"
abbreviation (input) KindExclamationToken :: Kind where "KindExclamationToken \<equiv> Kind 53"
abbreviation (input) KindTildeToken :: Kind where "KindTildeToken \<equiv> Kind 54"
abbreviation (input) KindAmpersandAmpersandToken :: Kind where "KindAmpersandAmpersandToken \<equiv> Kind 55"
abbreviation (input) KindBarBarToken :: Kind where "KindBarBarToken \<equiv> Kind 56"
abbreviation (input) KindQuestionToken :: Kind where "KindQuestionToken \<equiv> Kind 57"
abbreviation (input) KindColonToken :: Kind where "KindColonToken \<equiv> Kind 58"
abbreviation (input) KindAtToken :: Kind where "KindAtToken \<equiv> Kind 59"
abbreviation (input) KindQuestionQuestionToken :: Kind where "KindQuestionQuestionToken \<equiv> Kind 60"
abbreviation (input) KindBacktickToken :: Kind where "KindBacktickToken \<equiv> Kind 61"
abbreviation (input) KindHashToken :: Kind where "KindHashToken \<equiv> Kind 62"
abbreviation (input) KindEqualsToken :: Kind where "KindEqualsToken \<equiv> Kind 63"
abbreviation (input) KindPlusEqualsToken :: Kind where "KindPlusEqualsToken \<equiv> Kind 64"
abbreviation (input) KindMinusEqualsToken :: Kind where "KindMinusEqualsToken \<equiv> Kind 65"
abbreviation (input) KindAsteriskEqualsToken :: Kind where "KindAsteriskEqualsToken \<equiv> Kind 66"
abbreviation (input) KindAsteriskAsteriskEqualsToken :: Kind where "KindAsteriskAsteriskEqualsToken \<equiv> Kind 67"
abbreviation (input) KindSlashEqualsToken :: Kind where "KindSlashEqualsToken \<equiv> Kind 68"
abbreviation (input) KindPercentEqualsToken :: Kind where "KindPercentEqualsToken \<equiv> Kind 69"
abbreviation (input) KindLessThanLessThanEqualsToken :: Kind where "KindLessThanLessThanEqualsToken \<equiv> Kind 70"
abbreviation (input) KindGreaterThanGreaterThanEqualsToken :: Kind where "KindGreaterThanGreaterThanEqualsToken \<equiv> Kind 71"
abbreviation (input) KindGreaterThanGreaterThanGreaterThanEqualsToken :: Kind where "KindGreaterThanGreaterThanGreaterThanEqualsToken \<equiv> Kind 72"
abbreviation (input) KindAmpersandEqualsToken :: Kind where "KindAmpersandEqualsToken \<equiv> Kind 73"
abbreviation (input) KindBarEqualsToken :: Kind where "KindBarEqualsToken \<equiv> Kind 74"
abbreviation (input) KindBarBarEqualsToken :: Kind where "KindBarBarEqualsToken \<equiv> Kind 75"
abbreviation (input) KindAmpersandAmpersandEqualsToken :: Kind where "KindAmpersandAmpersandEqualsToken \<equiv> Kind 76"
abbreviation (input) KindQuestionQuestionEqualsToken :: Kind where "KindQuestionQuestionEqualsToken \<equiv> Kind 77"
abbreviation (input) KindCaretEqualsToken :: Kind where "KindCaretEqualsToken \<equiv> Kind 78"
abbreviation (input) KindIdentifier :: Kind where "KindIdentifier \<equiv> Kind 79"
abbreviation (input) KindPrivateIdentifier :: Kind where "KindPrivateIdentifier \<equiv> Kind 80"
abbreviation (input) KindJSDocCommentTextToken :: Kind where "KindJSDocCommentTextToken \<equiv> Kind 81"
abbreviation (input) KindBreakKeyword :: Kind where "KindBreakKeyword \<equiv> Kind 82"
abbreviation (input) KindCaseKeyword :: Kind where "KindCaseKeyword \<equiv> Kind 83"
abbreviation (input) KindCatchKeyword :: Kind where "KindCatchKeyword \<equiv> Kind 84"
abbreviation (input) KindClassKeyword :: Kind where "KindClassKeyword \<equiv> Kind 85"
abbreviation (input) KindConstKeyword :: Kind where "KindConstKeyword \<equiv> Kind 86"
abbreviation (input) KindContinueKeyword :: Kind where "KindContinueKeyword \<equiv> Kind 87"
abbreviation (input) KindDebuggerKeyword :: Kind where "KindDebuggerKeyword \<equiv> Kind 88"
abbreviation (input) KindDefaultKeyword :: Kind where "KindDefaultKeyword \<equiv> Kind 89"
abbreviation (input) KindDeleteKeyword :: Kind where "KindDeleteKeyword \<equiv> Kind 90"
abbreviation (input) KindDoKeyword :: Kind where "KindDoKeyword \<equiv> Kind 91"
abbreviation (input) KindElseKeyword :: Kind where "KindElseKeyword \<equiv> Kind 92"
abbreviation (input) KindEnumKeyword :: Kind where "KindEnumKeyword \<equiv> Kind 93"
abbreviation (input) KindExportKeyword :: Kind where "KindExportKeyword \<equiv> Kind 94"
abbreviation (input) KindExtendsKeyword :: Kind where "KindExtendsKeyword \<equiv> Kind 95"
abbreviation (input) KindFalseKeyword :: Kind where "KindFalseKeyword \<equiv> Kind 96"
abbreviation (input) KindFinallyKeyword :: Kind where "KindFinallyKeyword \<equiv> Kind 97"
abbreviation (input) KindForKeyword :: Kind where "KindForKeyword \<equiv> Kind 98"
abbreviation (input) KindFunctionKeyword :: Kind where "KindFunctionKeyword \<equiv> Kind 99"
abbreviation (input) KindIfKeyword :: Kind where "KindIfKeyword \<equiv> Kind 100"
abbreviation (input) KindImportKeyword :: Kind where "KindImportKeyword \<equiv> Kind 101"
abbreviation (input) KindInKeyword :: Kind where "KindInKeyword \<equiv> Kind 102"
abbreviation (input) KindInstanceOfKeyword :: Kind where "KindInstanceOfKeyword \<equiv> Kind 103"
abbreviation (input) KindNewKeyword :: Kind where "KindNewKeyword \<equiv> Kind 104"
abbreviation (input) KindNullKeyword :: Kind where "KindNullKeyword \<equiv> Kind 105"
abbreviation (input) KindReturnKeyword :: Kind where "KindReturnKeyword \<equiv> Kind 106"
abbreviation (input) KindSuperKeyword :: Kind where "KindSuperKeyword \<equiv> Kind 107"
abbreviation (input) KindSwitchKeyword :: Kind where "KindSwitchKeyword \<equiv> Kind 108"
abbreviation (input) KindThisKeyword :: Kind where "KindThisKeyword \<equiv> Kind 109"
abbreviation (input) KindThrowKeyword :: Kind where "KindThrowKeyword \<equiv> Kind 110"
abbreviation (input) KindTrueKeyword :: Kind where "KindTrueKeyword \<equiv> Kind 111"
abbreviation (input) KindTryKeyword :: Kind where "KindTryKeyword \<equiv> Kind 112"
abbreviation (input) KindTypeOfKeyword :: Kind where "KindTypeOfKeyword \<equiv> Kind 113"
abbreviation (input) KindVarKeyword :: Kind where "KindVarKeyword \<equiv> Kind 114"
abbreviation (input) KindVoidKeyword :: Kind where "KindVoidKeyword \<equiv> Kind 115"
abbreviation (input) KindWhileKeyword :: Kind where "KindWhileKeyword \<equiv> Kind 116"
abbreviation (input) KindWithKeyword :: Kind where "KindWithKeyword \<equiv> Kind 117"
abbreviation (input) KindImplementsKeyword :: Kind where "KindImplementsKeyword \<equiv> Kind 118"
abbreviation (input) KindInterfaceKeyword :: Kind where "KindInterfaceKeyword \<equiv> Kind 119"
abbreviation (input) KindLetKeyword :: Kind where "KindLetKeyword \<equiv> Kind 120"
abbreviation (input) KindPackageKeyword :: Kind where "KindPackageKeyword \<equiv> Kind 121"
abbreviation (input) KindPrivateKeyword :: Kind where "KindPrivateKeyword \<equiv> Kind 122"
abbreviation (input) KindProtectedKeyword :: Kind where "KindProtectedKeyword \<equiv> Kind 123"
abbreviation (input) KindPublicKeyword :: Kind where "KindPublicKeyword \<equiv> Kind 124"
abbreviation (input) KindStaticKeyword :: Kind where "KindStaticKeyword \<equiv> Kind 125"
abbreviation (input) KindYieldKeyword :: Kind where "KindYieldKeyword \<equiv> Kind 126"
abbreviation (input) KindAbstractKeyword :: Kind where "KindAbstractKeyword \<equiv> Kind 127"
abbreviation (input) KindAccessorKeyword :: Kind where "KindAccessorKeyword \<equiv> Kind 128"
abbreviation (input) KindAsKeyword :: Kind where "KindAsKeyword \<equiv> Kind 129"
abbreviation (input) KindAssertsKeyword :: Kind where "KindAssertsKeyword \<equiv> Kind 130"
abbreviation (input) KindAssertKeyword :: Kind where "KindAssertKeyword \<equiv> Kind 131"
abbreviation (input) KindAnyKeyword :: Kind where "KindAnyKeyword \<equiv> Kind 132"
abbreviation (input) KindAsyncKeyword :: Kind where "KindAsyncKeyword \<equiv> Kind 133"
abbreviation (input) KindAwaitKeyword :: Kind where "KindAwaitKeyword \<equiv> Kind 134"
abbreviation (input) KindBooleanKeyword :: Kind where "KindBooleanKeyword \<equiv> Kind 135"
abbreviation (input) KindConstructorKeyword :: Kind where "KindConstructorKeyword \<equiv> Kind 136"
abbreviation (input) KindDeclareKeyword :: Kind where "KindDeclareKeyword \<equiv> Kind 137"
abbreviation (input) KindGetKeyword :: Kind where "KindGetKeyword \<equiv> Kind 138"
abbreviation (input) KindImmediateKeyword :: Kind where "KindImmediateKeyword \<equiv> Kind 139"
abbreviation (input) KindInferKeyword :: Kind where "KindInferKeyword \<equiv> Kind 140"
abbreviation (input) KindIntrinsicKeyword :: Kind where "KindIntrinsicKeyword \<equiv> Kind 141"
abbreviation (input) KindIsKeyword :: Kind where "KindIsKeyword \<equiv> Kind 142"
abbreviation (input) KindKeyOfKeyword :: Kind where "KindKeyOfKeyword \<equiv> Kind 143"
abbreviation (input) KindModuleKeyword :: Kind where "KindModuleKeyword \<equiv> Kind 144"
abbreviation (input) KindNamespaceKeyword :: Kind where "KindNamespaceKeyword \<equiv> Kind 145"
abbreviation (input) KindNeverKeyword :: Kind where "KindNeverKeyword \<equiv> Kind 146"
abbreviation (input) KindOutKeyword :: Kind where "KindOutKeyword \<equiv> Kind 147"
abbreviation (input) KindReadonlyKeyword :: Kind where "KindReadonlyKeyword \<equiv> Kind 148"
abbreviation (input) KindRequireKeyword :: Kind where "KindRequireKeyword \<equiv> Kind 149"
abbreviation (input) KindNumberKeyword :: Kind where "KindNumberKeyword \<equiv> Kind 150"
abbreviation (input) KindObjectKeyword :: Kind where "KindObjectKeyword \<equiv> Kind 151"
abbreviation (input) KindSatisfiesKeyword :: Kind where "KindSatisfiesKeyword \<equiv> Kind 152"
abbreviation (input) KindSetKeyword :: Kind where "KindSetKeyword \<equiv> Kind 153"
abbreviation (input) KindStringKeyword :: Kind where "KindStringKeyword \<equiv> Kind 154"
abbreviation (input) KindSymbolKeyword :: Kind where "KindSymbolKeyword \<equiv> Kind 155"
abbreviation (input) KindTypeKeyword :: Kind where "KindTypeKeyword \<equiv> Kind 156"
abbreviation (input) KindUndefinedKeyword :: Kind where "KindUndefinedKeyword \<equiv> Kind 157"
abbreviation (input) KindUniqueKeyword :: Kind where "KindUniqueKeyword \<equiv> Kind 158"
abbreviation (input) KindUnknownKeyword :: Kind where "KindUnknownKeyword \<equiv> Kind 159"
abbreviation (input) KindUsingKeyword :: Kind where "KindUsingKeyword \<equiv> Kind 160"
abbreviation (input) KindFromKeyword :: Kind where "KindFromKeyword \<equiv> Kind 161"
abbreviation (input) KindGlobalKeyword :: Kind where "KindGlobalKeyword \<equiv> Kind 162"
abbreviation (input) KindBigIntKeyword :: Kind where "KindBigIntKeyword \<equiv> Kind 163"
abbreviation (input) KindOverrideKeyword :: Kind where "KindOverrideKeyword \<equiv> Kind 164"
abbreviation (input) KindOfKeyword :: Kind where "KindOfKeyword \<equiv> Kind 165"
abbreviation (input) KindDeferKeyword :: Kind where "KindDeferKeyword \<equiv> Kind 166"
abbreviation (input) KindSourceKeyword :: Kind where "KindSourceKeyword \<equiv> Kind 167"

abbreviation (input) KindLastToken :: Kind where "KindLastToken \<equiv> KindSourceKeyword"

text \<open>\<open>tokenIsIdentifierOrKeyword\<close> of \<^verbatim>\<open>scanner/utilities.go\<close> compares positions in this order.\<close>

section \<open>Token flags\<close>

type_synonym TokenFlags = "32 word"

abbreviation (input) TokenFlagsNone :: TokenFlags where "TokenFlagsNone \<equiv> 0"
abbreviation (input) TokenFlagsPrecedingLineBreak :: TokenFlags where "TokenFlagsPrecedingLineBreak \<equiv> 1"
abbreviation (input) TokenFlagsPrecedingJSDocComment :: TokenFlags where "TokenFlagsPrecedingJSDocComment \<equiv> 2"
abbreviation (input) TokenFlagsUnterminated :: TokenFlags where "TokenFlagsUnterminated \<equiv> 4"
abbreviation (input) TokenFlagsExtendedUnicodeEscape :: TokenFlags where "TokenFlagsExtendedUnicodeEscape \<equiv> 8"
abbreviation (input) TokenFlagsScientific :: TokenFlags where "TokenFlagsScientific \<equiv> 16"
abbreviation (input) TokenFlagsOctal :: TokenFlags where "TokenFlagsOctal \<equiv> 32"
abbreviation (input) TokenFlagsHexSpecifier :: TokenFlags where "TokenFlagsHexSpecifier \<equiv> 64"
abbreviation (input) TokenFlagsBinarySpecifier :: TokenFlags where "TokenFlagsBinarySpecifier \<equiv> 128"
abbreviation (input) TokenFlagsOctalSpecifier :: TokenFlags where "TokenFlagsOctalSpecifier \<equiv> 256"
abbreviation (input) TokenFlagsContainsSeparator :: TokenFlags where "TokenFlagsContainsSeparator \<equiv> 512"
abbreviation (input) TokenFlagsUnicodeEscape :: TokenFlags where "TokenFlagsUnicodeEscape \<equiv> 1024"
abbreviation (input) TokenFlagsContainsInvalidEscape :: TokenFlags where "TokenFlagsContainsInvalidEscape \<equiv> 2048"
abbreviation (input) TokenFlagsHexEscape :: TokenFlags where "TokenFlagsHexEscape \<equiv> 4096"
abbreviation (input) TokenFlagsContainsLeadingZero :: TokenFlags where "TokenFlagsContainsLeadingZero \<equiv> 8192"
abbreviation (input) TokenFlagsContainsInvalidSeparator :: TokenFlags where "TokenFlagsContainsInvalidSeparator \<equiv> 16384"
abbreviation (input) TokenFlagsPrecedingJSDocLeadingAsterisks :: TokenFlags where "TokenFlagsPrecedingJSDocLeadingAsterisks \<equiv> 32768"
abbreviation (input) TokenFlagsSingleQuote :: TokenFlags where "TokenFlagsSingleQuote \<equiv> 65536"
abbreviation (input) TokenFlagsPrecedingJSDocWithDeprecated :: TokenFlags where "TokenFlagsPrecedingJSDocWithDeprecated \<equiv> 131072"
abbreviation (input) TokenFlagsPrecedingJSDocWithSeeOrLink :: TokenFlags where "TokenFlagsPrecedingJSDocWithSeeOrLink \<equiv> 262144"
abbreviation (input) TokenFlagsBinaryOrOctalSpecifier :: TokenFlags where "TokenFlagsBinaryOrOctalSpecifier \<equiv> 384"

section \<open>Options\<close>

datatype LanguageVariant = LanguageVariantStandard | LanguageVariantJSX

end
