(* ===== verification/Prelude.thy ===== *)
theory Prelude
  imports Main "HOL-Library.Sublist"
begin

text \<open>
  Shared vocabulary of the development: sub-slices of lists as Go writes them
  (\<open>xs[i:j]\<close>), results of operations that may fail, and the generic facts on lists that
  the component theories use.
\<close>

named_theorems slc_simps \<open>rewriting of sub-slices\<close>

section \<open>Slices\<close>

text \<open>
  \<open>slc xs i j\<close> is Go's \<open>xs[i:j]\<close>. Go panics unless \<open>i \<le> j \<le> len(xs)\<close>; the components
  prove that bound where they use it.
\<close>

definition slc :: "'a list \<Rightarrow> nat \<Rightarrow> nat \<Rightarrow> 'a list" where
  "slc xs i j = take (j - i) (drop i xs)"

lemma length_slc [simp]: "length (slc xs i j) = min (j - i) (length xs - i)"
  by (simp add: slc_def min.commute)

lemma slc_same [simp, slc_simps]: "slc xs i i = []"
  by (simp add: slc_def)

lemma slc_full [simp, slc_simps]: "slc xs 0 (length xs) = xs"
  by (simp add: slc_def)

lemma slc_to_end [slc_simps]: "length xs \<le> j \<Longrightarrow> slc xs i j = drop i xs"
  by (simp add: slc_def)

lemma slc_from_start [slc_simps]: "slc xs 0 j = take j xs"
  by (simp add: slc_def)

lemma slc_append [slc_simps]:
  "i \<le> j \<Longrightarrow> j \<le> k \<Longrightarrow> slc xs i j @ slc xs j k = slc xs i k"
proof -
  assume a: "i \<le> j" "j \<le> k"
  have "drop j xs = drop (j - i) (drop i xs)" using a by simp
  moreover have "k - i = (j - i) + (k - j)" using a by simp
  ultimately show ?thesis unfolding slc_def by (simp only: take_add)
qed

lemma nth_slc [simp]:
  "n < j - i \<Longrightarrow> i + n < length xs \<Longrightarrow> slc xs i j ! n = xs ! (i + n)"
  by (simp add: slc_def)

lemma slc_Suc: "i < length xs \<Longrightarrow> slc xs i (Suc i) = [xs ! i]"
  by (simp add: slc_def take_Suc_conv_app_nth)

lemma slc_append_left: "j \<le> length xs \<Longrightarrow> slc (xs @ ys) i j = slc xs i j"
  by (cases "i \<le> j") (simp_all add: slc_def)

lemma slc_prepend:
  "slc (xs @ ys) (length xs + i) (length xs + j) = slc ys i j"
  by (simp add: slc_def)

section \<open>Runs of elements with a property\<close>

definition run_length :: "('a \<Rightarrow> bool) \<Rightarrow> 'a list \<Rightarrow> nat" where
  "run_length p xs = length (takeWhile p xs)"

lemma run_length_le [simp]: "run_length p xs \<le> length xs"
  by (simp add: run_length_def length_takeWhile_le)

lemma run_length_simps [simp]:
  "run_length p [] = 0"
  "run_length p (x # xs) = (if p x then Suc (run_length p xs) else 0)"
  by (simp_all add: run_length_def)

lemma run_length_stop:
  "run_length p xs < length xs \<Longrightarrow> \<not> p (xs ! run_length p xs)"
  unfolding run_length_def by (rule nth_length_takeWhile)

lemma run_length_prefix:
  "n < run_length p xs \<Longrightarrow> p (xs ! n)"
  unfolding run_length_def by (metis nth_mem set_takeWhileD takeWhile_nth)

lemma run_length_cong:
  "(\<And>x. x \<in> set xs \<Longrightarrow> p x = q x) \<Longrightarrow> run_length p xs = run_length q xs"
  unfolding run_length_def by (metis takeWhile_cong)

section \<open>Characters\<close>

lemma of_char_nonneg_int [simp]: "0 \<le> (of_char c :: int)"
  by (metis of_nat_0_le_iff of_nat_of_char)

lemma of_char_less_256_int [simp]: "(of_char c :: int) < 256"
  by (metis nat_of_char_less_256 of_nat_less_numeral_iff of_nat_of_char)

lemma of_char_ge_neg1 [simp]: "- 1 < (of_char c :: int)" "(of_char c :: int) \<noteq> - 1"
  using of_char_nonneg_int [of c] by linarith+

end
