(* ===== verification/GoStrings.thy ===== *)
theory GoStrings
  imports Prelude
begin

text \<open>
  The part of Go's run-time library that the modelled packages use: strings as byte
  sequences (a \<open>char\<close> is one byte), runes as integers, \<open>unicode/utf8\<close>,
  \<open>unicode/utf16\<close> and \<open>strings\<close>. Nothing here models a file of the repository; the
  definitions follow the documentation of Go's standard library.
\<close>

type_synonym rune = int

section \<open>unicode/utf8\<close>

abbreviation (input) RuneSelf :: rune where "RuneSelf \<equiv> 0x80"
abbreviation (input) RuneError :: rune where "RuneError \<equiv> 0xFFFD"

abbreviation (input) rune_of :: "char \<Rightarrow> rune" where "rune_of c \<equiv> of_char c"

definition byte_in :: "rune \<Rightarrow> rune \<Rightarrow> char \<Rightarrow> bool" where
  "byte_in lo hi c \<longleftrightarrow> lo \<le> rune_of c \<and> rune_of c \<le> hi"

abbreviation (input) utf8_cont :: "char \<Rightarrow> bool" where "utf8_cont c \<equiv> byte_in 0x80 0xBF c"

definition decode2 :: "rune \<Rightarrow> string \<Rightarrow> rune \<times> nat" where
  "decode2 b0 r =
     (case r of
        c1 # _ \<Rightarrow> if utf8_cont c1 then ((b0 - 0xC0) * 64 + (of_char c1 - 0x80), 2) else (RuneError, 1)
      | [] \<Rightarrow> (RuneError, 1))"

definition decode3 :: "rune \<Rightarrow> rune \<Rightarrow> rune \<Rightarrow> string \<Rightarrow> rune \<times> nat" where
  "decode3 lo hi b0 r =
     (case r of
        c1 # c2 # _ \<Rightarrow>
          if byte_in lo hi c1 \<and> utf8_cont c2
          then ((b0 - 0xE0) * 4096 + (of_char c1 - 0x80) * 64 + (of_char c2 - 0x80), 3)
          else (RuneError, 1)
      | _ \<Rightarrow> (RuneError, 1))"

definition decode4 :: "rune \<Rightarrow> rune \<Rightarrow> rune \<Rightarrow> string \<Rightarrow> rune \<times> nat" where
  "decode4 lo hi b0 r =
     (case r of
        c1 # c2 # c3 # _ \<Rightarrow>
          if byte_in lo hi c1 \<and> utf8_cont c2 \<and> utf8_cont c3
          then ((b0 - 0xF0) * 262144 + (of_char c1 - 0x80) * 4096
                + (of_char c2 - 0x80) * 64 + (of_char c3 - 0x80), 4)
          else (RuneError, 1)
      | _ \<Rightarrow> (RuneError, 1))"

definition DecodeRune :: "string \<Rightarrow> rune \<times> nat" where
  "DecodeRune s =
     (case s of
        [] \<Rightarrow> (RuneError, 0)
      | c0 # r \<Rightarrow>
          (let b0 = rune_of c0 in
           if b0 < 0x80 then (b0, 1)
           else if b0 < 0xC2 then (RuneError, 1)
           else if b0 < 0xE0 then decode2 b0 r
           else if b0 = 0xE0 then decode3 0xA0 0xBF b0 r
           else if b0 = 0xED then decode3 0x80 0x9F b0 r
           else if b0 < 0xF0 then decode3 0x80 0xBF b0 r
           else if b0 = 0xF0 then decode4 0x90 0xBF b0 r
           else if b0 < 0xF4 then decode4 0x80 0xBF b0 r
           else if b0 = 0xF4 then decode4 0x80 0x8F b0 r
           else (RuneError, 1)))"

definition ValidRune :: "rune \<Rightarrow> bool" where
  "ValidRune r \<longleftrightarrow> 0 \<le> r \<and> r < 0xD800 \<or> 0xDFFF < r \<and> r \<le> 0x10FFFF"

definition byte_of :: "rune \<Rightarrow> char" where
  "byte_of n = char_of n"

text \<open>\<open>string(r)\<close> for a rune \<open>r\<close>, and \<open>utf8.AppendRune\<close>.\<close>

definition EncodeRune :: "rune \<Rightarrow> string" where
  "EncodeRune r =
     (if \<not> ValidRune r then [byte_of 0xEF, byte_of 0xBF, byte_of 0xBD]
      else if r < 0x80 then [byte_of r]
      else if r < 0x800 then [byte_of (0xC0 + r div 64), byte_of (0x80 + r mod 64)]
      else if r < 0x10000 then
        [byte_of (0xE0 + r div 4096), byte_of (0x80 + r div 64 mod 64), byte_of (0x80 + r mod 64)]
      else
        [byte_of (0xF0 + r div 262144), byte_of (0x80 + r div 4096 mod 64),
         byte_of (0x80 + r div 64 mod 64), byte_of (0x80 + r mod 64)])"

definition RuneStart :: "char \<Rightarrow> bool" where
  "RuneStart c \<longleftrightarrow> \<not> utf8_cont c"

text \<open>\<open>utf8.DecodeLastRuneInString\<close>: look back at most three bytes for the start of a rune.\<close>

definition last_rune_start :: "string \<Rightarrow> nat" where
  "last_rune_start s =
     (let n = length s in
      if 2 \<le> n \<and> RuneStart (s ! (n - 2)) then n - 2
      else if 3 \<le> n \<and> RuneStart (s ! (n - 3)) then n - 3
      else if 4 \<le> n \<and> RuneStart (s ! (n - 4)) then n - 4
      else n - 5)"

definition DecodeLastRune :: "string \<Rightarrow> rune \<times> nat" where
  "DecodeLastRune s =
     (let n = length s in
      if n = 0 then (RuneError, 0)
      else if rune_of (s ! (n - 1)) < RuneSelf then (rune_of (s ! (n - 1)), 1)
      else
        let start = last_rune_start s;
            d = DecodeRune (drop start s)
        in if start + snd d \<noteq> n then (RuneError, 1) else d)"

section \<open>unicode/utf16\<close>

definition utf16_IsSurrogate :: "rune \<Rightarrow> bool" where
  "utf16_IsSurrogate r \<longleftrightarrow> 0xD800 \<le> r \<and> r < 0xE000"

definition utf16_DecodeRune :: "rune \<Rightarrow> rune \<Rightarrow> rune" where
  "utf16_DecodeRune r1 r2 =
     (if 0xD800 \<le> r1 \<and> r1 < 0xDC00 \<and> 0xDC00 \<le> r2 \<and> r2 < 0xE000
      then (r1 - 0xD800) * 1024 + (r2 - 0xDC00) + 0x10000 else RuneError)"

definition utf16_EncodeRune :: "rune \<Rightarrow> rune \<times> rune" where
  "utf16_EncodeRune r =
     (if r < 0x10000 \<or> 0x10FFFF < r then (RuneError, RuneError)
      else (0xD800 + (r - 0x10000) div 1024 mod 1024, 0xDC00 + (r - 0x10000) mod 1024))"

definition utf16_RuneLen :: "rune \<Rightarrow> int" where
  "utf16_RuneLen r =
     (if 0 \<le> r \<and> r < 0xD800 \<or> 0xE000 \<le> r \<and> r < 0x10000 then 1
      else if 0x10000 \<le> r \<and> r \<le> 0x10FFFF then 2 else -1)"

section \<open>strings\<close>

definition HasPrefix :: "string \<Rightarrow> string \<Rightarrow> bool" where
  "HasPrefix s p \<longleftrightarrow> take (length p) s = p"

definition HasSuffix :: "string \<Rightarrow> string \<Rightarrow> bool" where
  "HasSuffix s p \<longleftrightarrow> length p \<le> length s \<and> drop (length s - length p) s = p"

text \<open>The index functions return \<open>None\<close> where Go returns \<open>-1\<close>.\<close>

fun IndexByte :: "string \<Rightarrow> char \<Rightarrow> nat option" where
  "IndexByte [] c = None"
| "IndexByte (x # xs) c = (if x = c then Some 0 else map_option Suc (IndexByte xs c))"

fun strIndex :: "string \<Rightarrow> string \<Rightarrow> nat option" where
  "strIndex [] p = (if p = [] then Some 0 else None)"
| "strIndex (x # xs) p =
     (if HasPrefix (x # xs) p then Some 0 else map_option Suc (strIndex xs p))"

fun LastIndexByte :: "string \<Rightarrow> char \<Rightarrow> nat option" where
  "LastIndexByte [] c = None"
| "LastIndexByte (x # xs) c =
     (case LastIndexByte xs c of
        Some i \<Rightarrow> Some (Suc i)
      | None \<Rightarrow> if x = c then Some 0 else None)"

fun splitByte :: "char \<Rightarrow> string \<Rightarrow> string list" where
  "splitByte c [] = [[]]"
| "splitByte c (x # xs) =
     (if x = c then [] # splitByte c xs
      else (case splitByte c xs of [] \<Rightarrow> [[x]] | y # ys \<Rightarrow> (x # y) # ys))"

fun strJoin :: "string list \<Rightarrow> string \<Rightarrow> string" where
  "strJoin [] sep = []"
| "strJoin [x] sep = x"
| "strJoin (x # y # ys) sep = x @ sep @ strJoin (y # ys) sep"

definition replaceByte :: "string \<Rightarrow> char \<Rightarrow> char \<Rightarrow> string" where
  "replaceByte s a b = map (\<lambda>c. if c = a then b else c) s"

text \<open>\<open>strings.ReplaceAll\<close> for a non-empty \<open>old\<close>; \<open>n\<close> bytes of a match are still to be dropped.\<close>

fun replace_from :: "nat \<Rightarrow> string \<Rightarrow> string \<Rightarrow> string \<Rightarrow> string" where
  "replace_from n old new [] = []"
| "replace_from (Suc n) old new (c # s) = replace_from n old new s"
| "replace_from 0 old new (c # s) =
     (if HasPrefix (c # s) old then new @ replace_from (length old - 1) old new s
      else c # replace_from 0 old new s)"

definition strReplaceAll :: "string \<Rightarrow> string \<Rightarrow> string \<Rightarrow> string" where
  "strReplaceAll s old new = replace_from 0 old new s"

definition TrimPrefix :: "string \<Rightarrow> string \<Rightarrow> string" where
  "TrimPrefix s p = (if HasPrefix s p then drop (length p) s else s)"

definition TrimSuffix :: "string \<Rightarrow> string \<Rightarrow> string" where
  "TrimSuffix s p = (if HasSuffix s p then take (length s - length p) s else s)"

definition ascii_lower :: "char \<Rightarrow> char" where
  "ascii_lower c =
     (if 65 \<le> rune_of c \<and> rune_of c \<le> 90 then byte_of (rune_of c + 32) else c)"

text \<open>\<open>strings.ToLower\<close> of an ASCII string.\<close>

definition ToLowerAscii :: "string \<Rightarrow> string" where
  "ToLowerAscii s = map ascii_lower s"

text \<open>\<open>strings.Compare\<close> (and the order of Go's string operators): bytewise.\<close>

fun strCompare :: "string \<Rightarrow> string \<Rightarrow> int" where
  "strCompare [] [] = 0"
| "strCompare [] (y # ys) = -1"
| "strCompare (x # xs) [] = 1"
| "strCompare (x # xs) (y # ys) =
     (if rune_of x < rune_of y then -1 else if rune_of y < rune_of x then 1 else strCompare xs ys)"

text \<open>\<open>cmp.Compare\<close> on integers.\<close>

definition cmpCompare :: "int \<Rightarrow> int \<Rightarrow> int" where
  "cmpCompare a b = (if a < b then -1 else if b < a then 1 else 0)"

section \<open>Facts about runes\<close>

lemmas decode_defs = DecodeRune_def decode2_def decode3_def decode4_def byte_in_def Let_def

lemma DecodeRune_Nil [simp]: "DecodeRune [] = (RuneError, 0)"
  by (simp add: DecodeRune_def)

lemma DecodeRune_size_le [simp]: "snd (DecodeRune s) \<le> length s"
  by (auto simp: decode_defs split: list.split)

lemma DecodeRune_size_pos: "s \<noteq> [] \<Longrightarrow> 0 < snd (DecodeRune s)"
  by (auto simp: decode_defs split: list.split)

lemma DecodeRune_size_0 [simp]: "snd (DecodeRune s) = 0 \<longleftrightarrow> s = []"
  using DecodeRune_size_pos by fastforce

lemma DecodeRune_size_le_4: "snd (DecodeRune s) \<le> 4"
  by (auto simp: decode_defs split: list.split)

lemma DecodeRune_ascii [simp]:
  "of_char c < (0x80::int) \<Longrightarrow> DecodeRune (c # s) = (of_char c, 1)"
  by (simp add: DecodeRune_def)

lemma DecodeRune_high: "0x80 \<le> (of_char c :: int) \<Longrightarrow> 0x80 \<le> fst (DecodeRune (c # s))"
  by (auto simp: decode_defs split: list.split)

lemma DecodeRune_nonneg [simp]: "0 \<le> fst (DecodeRune s)"
proof (cases s)
  case (Cons c r)
  then show ?thesis
    using DecodeRune_high [of c r] by (cases "of_char c < (0x80::int)") auto
qed simp

lemma DecodeRune_is_ascii:
  assumes "fst (DecodeRune s) < 0x80"
  obtains c r where "s = c # r" "of_char c = fst (DecodeRune s)" "snd (DecodeRune s) = 1"
proof (cases s)
  case Nil
  with assms show ?thesis by simp
next
  case (Cons c r)
  then have "\<not> 0x80 \<le> (of_char c :: int)"
    using assms DecodeRune_high [of c r] by fastforce
  then show ?thesis using that [of c r] Cons by simp
qed

lemma DecodeRune_max: "fst (DecodeRune s) \<le> 0x10FFFF"
  by (auto simp: decode_defs split: list.split)

lemma byte_of_of_char [simp]: "byte_of (of_char c) = c"
  by (simp add: byte_of_def)

lemma of_char_byte_of [simp]: "0 \<le> n \<Longrightarrow> n < 256 \<Longrightarrow> of_char (byte_of n) = n"
  by (simp add: byte_of_def)

lemma byte_of_eq_iff: "of_char c = n \<Longrightarrow> byte_of n = c"
  by auto

lemma EncodeRune_nonempty [simp]: "EncodeRune r \<noteq> []"
  by (simp add: EncodeRune_def)

lemma EncodeRune_ascii: "0 \<le> r \<Longrightarrow> r < 0x80 \<Longrightarrow> EncodeRune r = [byte_of r]"
  by (simp add: EncodeRune_def ValidRune_def)

lemma decode_encode2:
  assumes "0x80 \<le> r" "r < 0x800"
  shows "DecodeRune (EncodeRune r @ s) = (r, 2)"
proof -
  let ?a = "0xC0 + r div 64" and ?b = "0x80 + r mod 64"
  have "2 \<le> r div 64" "r div 64 < 32" using assms by auto
  moreover have "0 \<le> r mod 64" "r mod 64 < 64" by auto
  moreover have "EncodeRune r = [byte_of ?a, byte_of ?b]"
    using assms by (simp add: EncodeRune_def ValidRune_def)
  moreover have "r div 64 * 64 + r mod 64 = r" by simp
  ultimately show ?thesis by (simp add: DecodeRune_def decode2_def byte_in_def)
qed

lemma base64_3: "r div 4096 * 4096 + r div 64 mod 64 * 64 + r mod 64 = (r::int)"
proof -
  have "r div 4096 = r div 64 div 64" by (simp flip: zdiv_zmult2_eq)
  moreover have "r div 64 div 64 * 64 + r div 64 mod 64 = r div 64" by simp
  moreover have "r div 64 * 64 + r mod 64 = r" by simp
  ultimately show ?thesis by linarith
qed

lemma base64_4:
  "r div 262144 * 262144 + r div 4096 mod 64 * 4096 + r div 64 mod 64 * 64 + r mod 64 = (r::int)"
proof -
  have "r div 262144 = r div 4096 div 64" by (simp flip: zdiv_zmult2_eq)
  moreover have "r div 4096 div 64 * 64 + r div 4096 mod 64 = r div 4096" by simp
  ultimately show ?thesis using base64_3 [of r] by linarith
qed

lemma decode3_bytes:
  assumes "0 \<le> x" "x < 16" "0 \<le> y" "y < 64" "0 \<le> z" "z < 64"
    and "x = 0 \<Longrightarrow> 32 \<le> y" and "x = 13 \<Longrightarrow> y < 32"
  shows "DecodeRune ([byte_of (0xE0 + x), byte_of (0x80 + y), byte_of (0x80 + z)] @ s)
         = (x * 4096 + y * 64 + z, 3)"
proof -
  have "of_char (byte_of (0xE0 + x)) = 0xE0 + x" "of_char (byte_of (0x80 + y)) = 0x80 + y"
    "of_char (byte_of (0x80 + z)) = 0x80 + z" using assms by (simp_all del: byte_of_of_char)
  moreover consider "x = 0" | "x = 13" | "x \<noteq> 0" "x \<noteq> 13" by blast
  then have "DecodeRune (byte_of (0xE0 + x) # byte_of (0x80 + y) # byte_of (0x80 + z) # s)
    = decode3 0x80 0xBF (0xE0 + x) (byte_of (0x80 + y) # byte_of (0x80 + z) # s)"
    by cases (use assms in \<open>auto simp: DecodeRune_def decode3_def byte_in_def\<close>)
  ultimately show ?thesis using assms by (simp add: decode3_def byte_in_def)
qed

lemma decode4_bytes:
  assumes "0 \<le> x" "x \<le> 4" "0 \<le> y" "y < 64" "0 \<le> z" "z < 64" "0 \<le> w" "w < 64"
    and "x = 0 \<Longrightarrow> 16 \<le> y" and "x = 4 \<Longrightarrow> y < 16"
  shows "DecodeRune ([byte_of (0xF0 + x), byte_of (0x80 + y), byte_of (0x80 + z), byte_of (0x80 + w)] @ s)
         = (x * 262144 + y * 4096 + z * 64 + w, 4)"
proof -
  have *: "of_char (byte_of (0xF0 + x)) = 0xF0 + x" "of_char (byte_of (0x80 + y)) = 0x80 + y"
    "of_char (byte_of (0x80 + z)) = 0x80 + z" "of_char (byte_of (0x80 + w)) = 0x80 + w"
    using assms by (simp_all del: byte_of_of_char)
  moreover consider "x = 0" | "x = 4" | "0 < x" "x < 4" using assms by linarith
  then have "DecodeRune (byte_of (0xF0 + x) # byte_of (0x80 + y) # byte_of (0x80 + z) # byte_of (0x80 + w) # s)
    = decode4 0x80 0xBF (0xF0 + x) (byte_of (0x80 + y) # byte_of (0x80 + z) # byte_of (0x80 + w) # s)"
    by cases (use assms in \<open>auto simp: DecodeRune_def decode4_def byte_in_def\<close>)
  ultimately show ?thesis using assms by (simp add: decode4_def byte_in_def)
qed

lemma decode_encode3:
  assumes "0x800 \<le> r" "r < 0x10000" "ValidRune r"
  shows "DecodeRune (EncodeRune r @ s) = (r, 3)"
proof -
  have *: "0 \<le> r div 4096" "r div 4096 < 16" "0 \<le> r mod 64" "r mod 64 < 64"
    "0 \<le> r div 64 mod 64" "r div 64 mod 64 < 64" using assms by auto
  have enc: "EncodeRune r = [byte_of (0xE0 + r div 4096), byte_of (0x80 + r div 64 mod 64), byte_of (0x80 + r mod 64)]"
    using assms by (simp add: EncodeRune_def)
  note eq = base64_3 [of r]
  have "32 \<le> r div 64 mod 64" if "r div 4096 = 0" using that eq * assms by linarith
  moreover have "r div 64 mod 64 < 32" if "r div 4096 = 13"
    using that eq * assms unfolding ValidRune_def by linarith
  ultimately show ?thesis
    using decode3_bytes [of "r div 4096" "r div 64 mod 64" "r mod 64" s] * unfolding enc eq by blast
qed

lemma decode_encode4:
  assumes "0x10000 \<le> r" "r \<le> 0x10FFFF"
  shows "DecodeRune (EncodeRune r @ s) = (r, 4)"
proof -
  have *: "0 \<le> r div 262144" "r div 262144 \<le> 4" "0 \<le> r div 4096 mod 64" "r div 4096 mod 64 < 64"
     "0 \<le> r mod 64" "r mod 64 < 64" "0 \<le> r div 64 mod 64" "r div 64 mod 64 < 64" using assms by auto
  have enc: "EncodeRune r = [byte_of (0xF0 + r div 262144), byte_of (0x80 + r div 4096 mod 64),
      byte_of (0x80 + r div 64 mod 64), byte_of (0x80 + r mod 64)]"
    using assms by (simp add: EncodeRune_def ValidRune_def)
  note eq = base64_4 [of r]
  have "16 \<le> r div 4096 mod 64" if "r div 262144 = 0" using that eq * assms by linarith
  moreover have "r div 4096 mod 64 < 16" if "r div 262144 = 4" using that eq * assms by linarith
  ultimately show ?thesis
    using decode4_bytes [of "r div 262144" "r div 4096 mod 64" "r div 64 mod 64" "r mod 64" s] *
    unfolding enc eq by blast
qed

lemma DecodeRune_EncodeRune:
  assumes "ValidRune r"
  shows "DecodeRune (EncodeRune r @ s) = (r, length (EncodeRune r))"
proof -
  consider "0 \<le> r" "r < 0x80" | "0x80 \<le> r" "r < 0x800" | "0x800 \<le> r" "r < 0x10000" | "0x10000 \<le> r" "r \<le> 0x10FFFF"
    using assms unfolding ValidRune_def by linarith
  then show ?thesis
  proof cases
    case 1 then show ?thesis by (simp add: EncodeRune_ascii)
  next
    case 2 then show ?thesis by (simp add: decode_encode2) (simp add: EncodeRune_def ValidRune_def)
  next
    case 3 then show ?thesis using assms by (simp add: decode_encode3) (simp add: EncodeRune_def)
  next
    case 4 then show ?thesis by (simp add: decode_encode4) (simp add: EncodeRune_def ValidRune_def)
  qed
qed
end
