(* ===== verification/UnicodeTables.thy ===== *)
theory UnicodeTables
  imports GoStrings
begin

text \<open>
  The identifier tables of \<^verbatim>\<open>stringutil/identifier_parts_generated.go\<close> (Unicode 15.1.0), as the
  lists of inclusive ranges with their strides, and \<open>unicode.Is\<close> on them.
\<close>

type_synonym range_table = "(rune \<times> rune \<times> rune) list"

definition unicode_Is :: "range_table \<Rightarrow> rune \<Rightarrow> bool" where
  "unicode_Is tab r \<longleftrightarrow> list_ex (\<lambda>(lo, hi, stride). lo \<le> r \<and> r \<le> hi \<and> (r - lo) mod stride = 0) tab"

definition unicodeESNextIdentifierStart_R16 :: range_table where
  "unicodeESNextIdentifierStart_R16 =
    [(0x41, 0x5A, 1), (0x61, 0x7A, 1), (0xAA, 0xB5, 11), (0xBA, 0xC0, 6), (0xC1, 0xD6, 1),
     (0xD8, 0xF6, 1), (0xF8, 0x2C1, 1), (0x2C6, 0x2D1, 1), (0x2E0, 0x2E4, 1), (0x2EC, 0x2EE, 2),
     (0x370, 0x374, 1), (0x376, 0x377, 1), (0x37A, 0x37D, 1), (0x37F, 0x386, 7), (0x388, 0x38A, 1),
     (0x38C, 0x38E, 2), (0x38F, 0x3A1, 1), (0x3A3, 0x3F5, 1), (0x3F7, 0x481, 1), (0x48A, 0x52F, 1),
     (0x531, 0x556, 1), (0x559, 0x560, 7), (0x561, 0x588, 1), (0x5D0, 0x5EA, 1), (0x5EF, 0x5F2, 1),
     (0x620, 0x64A, 1), (0x66E, 0x66F, 1), (0x671, 0x6D3, 1), (0x6D5, 0x6E5, 16), (0x6E6, 0x6EE, 8),
     (0x6EF, 0x6FA, 11), (0x6FB, 0x6FC, 1), (0x6FF, 0x710, 17), (0x712, 0x72F, 1), (0x74D, 0x7A5, 1),
     (0x7B1, 0x7CA, 25), (0x7CB, 0x7EA, 1), (0x7F4, 0x7F5, 1), (0x7FA, 0x800, 6), (0x801, 0x815, 1),
     (0x81A, 0x824, 10), (0x828, 0x840, 24), (0x841, 0x858, 1), (0x860, 0x86A, 1), (0x870, 0x887, 1),
     (0x889, 0x88E, 1), (0x8A0, 0x8C9, 1), (0x904, 0x939, 1), (0x93D, 0x950, 19), (0x958, 0x961, 1),
     (0x971, 0x980, 1), (0x985, 0x98C, 1), (0x98F, 0x990, 1), (0x993, 0x9A8, 1), (0x9AA, 0x9B0, 1),
     (0x9B2, 0x9B6, 4), (0x9B7, 0x9B9, 1), (0x9BD, 0x9CE, 17), (0x9DC, 0x9DD, 1), (0x9DF, 0x9E1, 1),
     (0x9F0, 0x9F1, 1), (0x9FC, 0xA05, 9), (0xA06, 0xA0A, 1), (0xA0F, 0xA10, 1), (0xA13, 0xA28, 1),
     (0xA2A, 0xA30, 1), (0xA32, 0xA33, 1), (0xA35, 0xA36, 1), (0xA38, 0xA39, 1), (0xA59, 0xA5C, 1),
     (0xA5E, 0xA72, 20), (0xA73, 0xA74, 1), (0xA85, 0xA8D, 1), (0xA8F, 0xA91, 1), (0xA93, 0xAA8, 1),
     (0xAAA, 0xAB0, 1), (0xAB2, 0xAB3, 1), (0xAB5, 0xAB9, 1), (0xABD, 0xAD0, 19), (0xAE0, 0xAE1, 1),
     (0xAF9, 0xB05, 12), (0xB06, 0xB0C, 1), (0xB0F, 0xB10, 1), (0xB13, 0xB28, 1), (0xB2A, 0xB30, 1),
     (0xB32, 0xB33, 1), (0xB35, 0xB39, 1), (0xB3D, 0xB5C, 31), (0xB5D, 0xB5F, 2), (0xB60, 0xB61, 1),
     (0xB71, 0xB83, 18), (0xB85, 0xB8A, 1), (0xB8E, 0xB90, 1), (0xB92, 0xB95, 1), (0xB99, 0xB9A, 1),
     (0xB9C, 0xB9E, 2), (0xB9F, 0xBA3, 4), (0xBA4, 0xBA8, 4), (0xBA9, 0xBAA, 1), (0xBAE, 0xBB9, 1),
     (0xBD0, 0xC05, 53), (0xC06, 0xC0C, 1), (0xC0E, 0xC10, 1), (0xC12, 0xC28, 1), (0xC2A, 0xC39, 1),
     (0xC3D, 0xC58, 27), (0xC59, 0xC5A, 1), (0xC5D, 0xC60, 3), (0xC61, 0xC80, 31), (0xC85, 0xC8C, 1),
     (0xC8E, 0xC90, 1), (0xC92, 0xCA8, 1), (0xCAA, 0xCB3, 1), (0xCB5, 0xCB9, 1), (0xCBD, 0xCDD, 32),
     (0xCDE, 0xCE0, 2), (0xCE1, 0xCF1, 16), (0xCF2, 0xD04, 18), (0xD05, 0xD0C, 1), (0xD0E, 0xD10, 1),
     (0xD12, 0xD3A, 1), (0xD3D, 0xD4E, 17), (0xD54, 0xD56, 1), (0xD5F, 0xD61, 1), (0xD7A, 0xD7F, 1),
     (0xD85, 0xD96, 1), (0xD9A, 0xDB1, 1), (0xDB3, 0xDBB, 1), (0xDBD, 0xDC0, 3), (0xDC1, 0xDC6, 1),
     (0xE01, 0xE30, 1), (0xE32, 0xE33, 1), (0xE40, 0xE46, 1), (0xE81, 0xE82, 1), (0xE84, 0xE86, 2),
     (0xE87, 0xE8A, 1), (0xE8C, 0xEA3, 1), (0xEA5, 0xEA7, 2), (0xEA8, 0xEB0, 1), (0xEB2, 0xEB3, 1),
     (0xEBD, 0xEC0, 3), (0xEC1, 0xEC4, 1), (0xEC6, 0xEDC, 22), (0xEDD, 0xEDF, 1), (0xF00, 0xF40, 64),
     (0xF41, 0xF47, 1), (0xF49, 0xF6C, 1), (0xF88, 0xF8C, 1), (0x1000, 0x102A, 1), (0x103F, 0x1050, 17),
     (0x1051, 0x1055, 1), (0x105A, 0x105D, 1), (0x1061, 0x1065, 4), (0x1066, 0x106E, 8), (0x106F, 0x1070, 1),
     (0x1075, 0x1081, 1), (0x108E, 0x10A0, 18), (0x10A1, 0x10C5, 1), (0x10C7, 0x10CD, 6), (0x10D0, 0x10FA, 1),
     (0x10FC, 0x1248, 1), (0x124A, 0x124D, 1), (0x1250, 0x1256, 1), (0x1258, 0x125A, 2), (0x125B, 0x125D, 1),
     (0x1260, 0x1288, 1), (0x128A, 0x128D, 1), (0x1290, 0x12B0, 1), (0x12B2, 0x12B5, 1), (0x12B8, 0x12BE, 1),
     (0x12C0, 0x12C2, 2), (0x12C3, 0x12C5, 1), (0x12C8, 0x12D6, 1), (0x12D8, 0x1310, 1), (0x1312, 0x1315, 1),
     (0x1318, 0x135A, 1), (0x1380, 0x138F, 1), (0x13A0, 0x13F5, 1), (0x13F8, 0x13FD, 1), (0x1401, 0x166C, 1),
     (0x166F, 0x167F, 1), (0x1681, 0x169A, 1), (0x16A0, 0x16EA, 1), (0x16EE, 0x16F8, 1), (0x1700, 0x1711, 1),
     (0x171F, 0x1731, 1), (0x1740, 0x1751, 1), (0x1760, 0x176C, 1), (0x176E, 0x1770, 1), (0x1780, 0x17B3, 1),
     (0x17D7, 0x17DC, 5), (0x1820, 0x1878, 1), (0x1880, 0x18A8, 1), (0x18AA, 0x18B0, 6), (0x18B1, 0x18F5, 1),
     (0x1900, 0x191E, 1), (0x1950, 0x196D, 1), (0x1970, 0x1974, 1), (0x1980, 0x19AB, 1), (0x19B0, 0x19C9, 1),
     (0x1A00, 0x1A16, 1), (0x1A20, 0x1A54, 1), (0x1AA7, 0x1B05, 94), (0x1B06, 0x1B33, 1), (0x1B45, 0x1B4C, 1),
     (0x1B83, 0x1BA0, 1), (0x1BAE, 0x1BAF, 1), (0x1BBA, 0x1BE5, 1), (0x1C00, 0x1C23, 1), (0x1C4D, 0x1C4F, 1),
     (0x1C5A, 0x1C7D, 1), (0x1C80, 0x1C88, 1), (0x1C90, 0x1CBA, 1), (0x1CBD, 0x1CBF, 1), (0x1CE9, 0x1CEC, 1),
     (0x1CEE, 0x1CF3, 1), (0x1CF5, 0x1CF6, 1), (0x1CFA, 0x1D00, 6), (0x1D01, 0x1DBF, 1), (0x1E00, 0x1F15, 1),
     (0x1F18, 0x1F1D, 1), (0x1F20, 0x1F45, 1), (0x1F48, 0x1F4D, 1), (0x1F50, 0x1F57, 1), (0x1F59, 0x1F5F, 2),
     (0x1F60, 0x1F7D, 1), (0x1F80, 0x1FB4, 1), (0x1FB6, 0x1FBC, 1), (0x1FBE, 0x1FC2, 4), (0x1FC3, 0x1FC4, 1),
     (0x1FC6, 0x1FCC, 1), (0x1FD0, 0x1FD3, 1), (0x1FD6, 0x1FDB, 1), (0x1FE0, 0x1FEC, 1), (0x1FF2, 0x1FF4, 1),
     (0x1FF6, 0x1FFC, 1), (0x2071, 0x207F, 14), (0x2090, 0x209C, 1), (0x2102, 0x2107, 5), (0x210A, 0x2113, 1),
     (0x2115, 0x2118, 3), (0x2119, 0x211D, 1), (0x2124, 0x212A, 2), (0x212B, 0x2139, 1), (0x213C, 0x213F, 1),
     (0x2145, 0x2149, 1), (0x214E, 0x2160, 18), (0x2161, 0x2188, 1), (0x2C00, 0x2CE4, 1), (0x2CEB, 0x2CEE, 1),
     (0x2CF2, 0x2CF3, 1), (0x2D00, 0x2D25, 1), (0x2D27, 0x2D2D, 6), (0x2D30, 0x2D67, 1), (0x2D6F, 0x2D80, 17),
     (0x2D81, 0x2D96, 1), (0x2DA0, 0x2DA6, 1), (0x2DA8, 0x2DAE, 1), (0x2DB0, 0x2DB6, 1), (0x2DB8, 0x2DBE, 1),
     (0x2DC0, 0x2DC6, 1), (0x2DC8, 0x2DCE, 1), (0x2DD0, 0x2DD6, 1), (0x2DD8, 0x2DDE, 1), (0x3005, 0x3007, 1),
     (0x3021, 0x3029, 1), (0x3031, 0x3035, 1), (0x3038, 0x303C, 1), (0x3041, 0x3096, 1), (0x309B, 0x309F, 1),
     (0x30A1, 0x30FA, 1), (0x30FC, 0x30FF, 1), (0x3105, 0x312F, 1), (0x3131, 0x318E, 1), (0x31A0, 0x31BF, 1),
     (0x31F0, 0x31FF, 1), (0x3400, 0x4DBF, 1), (0x4E00, 0xA48C, 1), (0xA4D0, 0xA4FD, 1), (0xA500, 0xA60C, 1),
     (0xA610, 0xA61F, 1), (0xA62A, 0xA62B, 1), (0xA640, 0xA66E, 1), (0xA67F, 0xA69D, 1), (0xA6A0, 0xA6EF, 1),
     (0xA717, 0xA71F, 1), (0xA722, 0xA788, 1), (0xA78B, 0xA7CA, 1), (0xA7D0, 0xA7D1, 1), (0xA7D3, 0xA7D5, 2),
     (0xA7D6, 0xA7D9, 1), (0xA7F2, 0xA801, 1), (0xA803, 0xA805, 1), (0xA807, 0xA80A, 1), (0xA80C, 0xA822, 1),
     (0xA840, 0xA873, 1), (0xA882, 0xA8B3, 1), (0xA8F2, 0xA8F7, 1), (0xA8FB, 0xA8FD, 2), (0xA8FE, 0xA90A, 12),
     (0xA90B, 0xA925, 1), (0xA930, 0xA946, 1), (0xA960, 0xA97C, 1), (0xA984, 0xA9B2, 1), (0xA9CF, 0xA9E0, 17),
     (0xA9E1, 0xA9E4, 1), (0xA9E6, 0xA9EF, 1), (0xA9FA, 0xA9FE, 1), (0xAA00, 0xAA28, 1), (0xAA40, 0xAA42, 1),
     (0xAA44, 0xAA4B, 1), (0xAA60, 0xAA76, 1), (0xAA7A, 0xAA7E, 4), (0xAA7F, 0xAAAF, 1), (0xAAB1, 0xAAB5, 4),
     (0xAAB6, 0xAAB9, 3), (0xAABA, 0xAABD, 1), (0xAAC0, 0xAAC2, 2), (0xAADB, 0xAADD, 1), (0xAAE0, 0xAAEA, 1),
     (0xAAF2, 0xAAF4, 1), (0xAB01, 0xAB06, 1), (0xAB09, 0xAB0E, 1), (0xAB11, 0xAB16, 1), (0xAB20, 0xAB26, 1),
     (0xAB28, 0xAB2E, 1), (0xAB30, 0xAB5A, 1), (0xAB5C, 0xAB69, 1), (0xAB70, 0xABE2, 1), (0xAC00, 0xD7A3, 1),
     (0xD7B0, 0xD7C6, 1), (0xD7CB, 0xD7FB, 1), (0xF900, 0xFA6D, 1), (0xFA70, 0xFAD9, 1), (0xFB00, 0xFB06, 1),
     (0xFB13, 0xFB17, 1), (0xFB1D, 0xFB1F, 2), (0xFB20, 0xFB28, 1), (0xFB2A, 0xFB36, 1), (0xFB38, 0xFB3C, 1),
     (0xFB3E, 0xFB40, 2), (0xFB41, 0xFB43, 2), (0xFB44, 0xFB46, 2), (0xFB47, 0xFBB1, 1), (0xFBD3, 0xFD3D, 1),
     (0xFD50, 0xFD8F, 1), (0xFD92, 0xFDC7, 1), (0xFDF0, 0xFDFB, 1), (0xFE70, 0xFE74, 1), (0xFE76, 0xFEFC, 1),
     (0xFF21, 0xFF3A, 1), (0xFF41, 0xFF5A, 1), (0xFF66, 0xFFBE, 1), (0xFFC2, 0xFFC7, 1), (0xFFCA, 0xFFCF, 1),
     (0xFFD2, 0xFFD7, 1), (0xFFDA, 0xFFDC, 1)]"

definition unicodeESNextIdentifierStart_R32 :: range_table where
  "unicodeESNextIdentifierStart_R32 =
    [(0x10000, 0x1000B, 1), (0x1000D, 0x10026, 1), (0x10028, 0x1003A, 1), (0x1003C, 0x1003D, 1), (0x1003F, 0x1004D, 1),
     (0x10050, 0x1005D, 1), (0x10080, 0x100FA, 1), (0x10140, 0x10174, 1), (0x10280, 0x1029C, 1), (0x102A0, 0x102D0, 1),
     (0x10300, 0x1031F, 1), (0x1032D, 0x1034A, 1), (0x10350, 0x10375, 1), (0x10380, 0x1039D, 1), (0x103A0, 0x103C3, 1),
     (0x103C8, 0x103CF, 1), (0x103D1, 0x103D5, 1), (0x10400, 0x1049D, 1), (0x104B0, 0x104D3, 1), (0x104D8, 0x104FB, 1),
     (0x10500, 0x10527, 1), (0x10530, 0x10563, 1), (0x10570, 0x1057A, 1), (0x1057C, 0x1058A, 1), (0x1058C, 0x10592, 1),
     (0x10594, 0x10595, 1), (0x10597, 0x105A1, 1), (0x105A3, 0x105B1, 1), (0x105B3, 0x105B9, 1), (0x105BB, 0x105BC, 1),
     (0x10600, 0x10736, 1), (0x10740, 0x10755, 1), (0x10760, 0x10767, 1), (0x10780, 0x10785, 1), (0x10787, 0x107B0, 1),
     (0x107B2, 0x107BA, 1), (0x10800, 0x10805, 1), (0x10808, 0x1080A, 2), (0x1080B, 0x10835, 1), (0x10837, 0x10838, 1),
     (0x1083C, 0x1083F, 3), (0x10840, 0x10855, 1), (0x10860, 0x10876, 1), (0x10880, 0x1089E, 1), (0x108E0, 0x108F2, 1),
     (0x108F4, 0x108F5, 1), (0x10900, 0x10915, 1), (0x10920, 0x10939, 1), (0x10980, 0x109B7, 1), (0x109BE, 0x109BF, 1),
     (0x10A00, 0x10A10, 16), (0x10A11, 0x10A13, 1), (0x10A15, 0x10A17, 1), (0x10A19, 0x10A35, 1), (0x10A60, 0x10A7C, 1),
     (0x10A80, 0x10A9C, 1), (0x10AC0, 0x10AC7, 1), (0x10AC9, 0x10AE4, 1), (0x10B00, 0x10B35, 1), (0x10B40, 0x10B55, 1),
     (0x10B60, 0x10B72, 1), (0x10B80, 0x10B91, 1), (0x10C00, 0x10C48, 1), (0x10C80, 0x10CB2, 1), (0x10CC0, 0x10CF2, 1),
     (0x10D00, 0x10D23, 1), (0x10E80, 0x10EA9, 1), (0x10EB0, 0x10EB1, 1), (0x10F00, 0x10F1C, 1), (0x10F27, 0x10F30, 9),
     (0x10F31, 0x10F45, 1), (0x10F70, 0x10F81, 1), (0x10FB0, 0x10FC4, 1), (0x10FE0, 0x10FF6, 1), (0x11003, 0x11037, 1),
     (0x11071, 0x11072, 1), (0x11075, 0x11083, 14), (0x11084, 0x110AF, 1), (0x110D0, 0x110E8, 1), (0x11103, 0x11126, 1),
     (0x11144, 0x11147, 3), (0x11150, 0x11172, 1), (0x11176, 0x11183, 13), (0x11184, 0x111B2, 1), (0x111C1, 0x111C4, 1),
     (0x111DA, 0x111DC, 2), (0x11200, 0x11211, 1), (0x11213, 0x1122B, 1), (0x1123F, 0x11240, 1), (0x11280, 0x11286, 1),
     (0x11288, 0x1128A, 2), (0x1128B, 0x1128D, 1), (0x1128F, 0x1129D, 1), (0x1129F, 0x112A8, 1), (0x112B0, 0x112DE, 1),
     (0x11305, 0x1130C, 1), (0x1130F, 0x11310, 1), (0x11313, 0x11328, 1), (0x1132A, 0x11330, 1), (0x11332, 0x11333, 1),
     (0x11335, 0x11339, 1), (0x1133D, 0x11350, 19), (0x1135D, 0x11361, 1), (0x11400, 0x11434, 1), (0x11447, 0x1144A, 1),
     (0x1145F, 0x11461, 1), (0x11480, 0x114AF, 1), (0x114C4, 0x114C5, 1), (0x114C7, 0x11580, 185), (0x11581, 0x115AE, 1),
     (0x115D8, 0x115DB, 1), (0x11600, 0x1162F, 1), (0x11644, 0x11680, 60), (0x11681, 0x116AA, 1), (0x116B8, 0x11700, 72),
     (0x11701, 0x1171A, 1), (0x11740, 0x11746, 1), (0x11800, 0x1182B, 1), (0x118A0, 0x118DF, 1), (0x118FF, 0x11906, 1),
     (0x11909, 0x1190C, 3), (0x1190D, 0x11913, 1), (0x11915, 0x11916, 1), (0x11918, 0x1192F, 1), (0x1193F, 0x11941, 2),
     (0x119A0, 0x119A7, 1), (0x119AA, 0x119D0, 1), (0x119E1, 0x119E3, 2), (0x11A00, 0x11A0B, 11), (0x11A0C, 0x11A32, 1),
     (0x11A3A, 0x11A50, 22), (0x11A5C, 0x11A89, 1), (0x11A9D, 0x11AB0, 19), (0x11AB1, 0x11AF8, 1), (0x11C00, 0x11C08, 1),
     (0x11C0A, 0x11C2E, 1), (0x11C40, 0x11C72, 50), (0x11C73, 0x11C8F, 1), (0x11D00, 0x11D06, 1), (0x11D08, 0x11D09, 1),
     (0x11D0B, 0x11D30, 1), (0x11D46, 0x11D60, 26), (0x11D61, 0x11D65, 1), (0x11D67, 0x11D68, 1), (0x11D6A, 0x11D89, 1),
     (0x11D98, 0x11EE0, 328), (0x11EE1, 0x11EF2, 1), (0x11F02, 0x11F04, 2), (0x11F05, 0x11F10, 1), (0x11F12, 0x11F33, 1),
     (0x11FB0, 0x12000, 80), (0x12001, 0x12399, 1), (0x12400, 0x1246E, 1), (0x12480, 0x12543, 1), (0x12F90, 0x12FF0, 1),
     (0x13000, 0x1342F, 1), (0x13441, 0x13446, 1), (0x14400, 0x14646, 1), (0x16800, 0x16A38, 1), (0x16A40, 0x16A5E, 1),
     (0x16A70, 0x16ABE, 1), (0x16AD0, 0x16AED, 1), (0x16B00, 0x16B2F, 1), (0x16B40, 0x16B43, 1), (0x16B63, 0x16B77, 1),
     (0x16B7D, 0x16B8F, 1), (0x16E40, 0x16E7F, 1), (0x16F00, 0x16F4A, 1), (0x16F50, 0x16F93, 67), (0x16F94, 0x16F9F, 1),
     (0x16FE0, 0x16FE1, 1), (0x16FE3, 0x17000, 29), (0x17001, 0x187F7, 1), (0x18800, 0x18CD5, 1), (0x18D00, 0x18D08, 1),
     (0x1AFF0, 0x1AFF3, 1), (0x1AFF5, 0x1AFFB, 1), (0x1AFFD, 0x1AFFE, 1), (0x1B000, 0x1B122, 1), (0x1B132, 0x1B150, 30),
     (0x1B151, 0x1B152, 1), (0x1B155, 0x1B164, 15), (0x1B165, 0x1B167, 1), (0x1B170, 0x1B2FB, 1), (0x1BC00, 0x1BC6A, 1),
     (0x1BC70, 0x1BC7C, 1), (0x1BC80, 0x1BC88, 1), (0x1BC90, 0x1BC99, 1), (0x1D400, 0x1D454, 1), (0x1D456, 0x1D49C, 1),
     (0x1D49E, 0x1D49F, 1), (0x1D4A2, 0x1D4A5, 3), (0x1D4A6, 0x1D4A9, 3), (0x1D4AA, 0x1D4AC, 1), (0x1D4AE, 0x1D4B9, 1),
     (0x1D4BB, 0x1D4BD, 2), (0x1D4BE, 0x1D4C3, 1), (0x1D4C5, 0x1D505, 1), (0x1D507, 0x1D50A, 1), (0x1D50D, 0x1D514, 1),
     (0x1D516, 0x1D51C, 1), (0x1D51E, 0x1D539, 1), (0x1D53B, 0x1D53E, 1), (0x1D540, 0x1D544, 1), (0x1D546, 0x1D54A, 4),
     (0x1D54B, 0x1D550, 1), (0x1D552, 0x1D6A5, 1), (0x1D6A8, 0x1D6C0, 1), (0x1D6C2, 0x1D6DA, 1), (0x1D6DC, 0x1D6FA, 1),
     (0x1D6FC, 0x1D714, 1), (0x1D716, 0x1D734, 1), (0x1D736, 0x1D74E, 1), (0x1D750, 0x1D76E, 1), (0x1D770, 0x1D788, 1),
     (0x1D78A, 0x1D7A8, 1), (0x1D7AA, 0x1D7C2, 1), (0x1D7C4, 0x1D7CB, 1), (0x1DF00, 0x1DF1E, 1), (0x1DF25, 0x1DF2A, 1),
     (0x1E030, 0x1E06D, 1), (0x1E100, 0x1E12C, 1), (0x1E137, 0x1E13D, 1), (0x1E14E, 0x1E290, 322), (0x1E291, 0x1E2AD, 1),
     (0x1E2C0, 0x1E2EB, 1), (0x1E4D0, 0x1E4EB, 1), (0x1E7E0, 0x1E7E6, 1), (0x1E7E8, 0x1E7EB, 1), (0x1E7ED, 0x1E7EE, 1),
     (0x1E7F0, 0x1E7FE, 1), (0x1E800, 0x1E8C4, 1), (0x1E900, 0x1E943, 1), (0x1E94B, 0x1EE00, 1205), (0x1EE01, 0x1EE03, 1),
     (0x1EE05, 0x1EE1F, 1), (0x1EE21, 0x1EE22, 1), (0x1EE24, 0x1EE27, 3), (0x1EE29, 0x1EE32, 1), (0x1EE34, 0x1EE37, 1),
     (0x1EE39, 0x1EE3B, 2), (0x1EE42, 0x1EE47, 5), (0x1EE49, 0x1EE4D, 2), (0x1EE4E, 0x1EE4F, 1), (0x1EE51, 0x1EE52, 1),
     (0x1EE54, 0x1EE57, 3), (0x1EE59, 0x1EE61, 2), (0x1EE62, 0x1EE64, 2), (0x1EE67, 0x1EE6A, 1), (0x1EE6C, 0x1EE72, 1),
     (0x1EE74, 0x1EE77, 1), (0x1EE79, 0x1EE7C, 1), (0x1EE7E, 0x1EE80, 2), (0x1EE81, 0x1EE89, 1), (0x1EE8B, 0x1EE9B, 1),
     (0x1EEA1, 0x1EEA3, 1), (0x1EEA5, 0x1EEA9, 1), (0x1EEAB, 0x1EEBB, 1), (0x20000, 0x2A6DF, 1), (0x2A700, 0x2B739, 1),
     (0x2B740, 0x2B81D, 1), (0x2B820, 0x2CEA1, 1), (0x2CEB0, 0x2EBE0, 1), (0x2EBF0, 0x2EE5D, 1), (0x2F800, 0x2FA1D, 1),
     (0x30000, 0x3134A, 1), (0x31350, 0x323AF, 1)]"

definition unicodeESNextIdentifierPart_R16 :: range_table where
  "unicodeESNextIdentifierPart_R16 =
    [(0x30, 0x39, 1), (0x41, 0x5A, 1), (0x5F, 0x61, 2), (0x62, 0x7A, 1), (0xAA, 0xB5, 11),
     (0xB7, 0xBA, 3), (0xC0, 0xD6, 1), (0xD8, 0xF6, 1), (0xF8, 0x2C1, 1), (0x2C6, 0x2D1, 1),
     (0x2E0, 0x2E4, 1), (0x2EC, 0x2EE, 2), (0x300, 0x374, 1), (0x376, 0x377, 1), (0x37A, 0x37D, 1),
     (0x37F, 0x386, 7), (0x387, 0x38A, 1), (0x38C, 0x38E, 2), (0x38F, 0x3A1, 1), (0x3A3, 0x3F5, 1),
     (0x3F7, 0x481, 1), (0x483, 0x487, 1), (0x48A, 0x52F, 1), (0x531, 0x556, 1), (0x559, 0x560, 7),
     (0x561, 0x588, 1), (0x591, 0x5BD, 1), (0x5BF, 0x5C1, 2), (0x5C2, 0x5C4, 2), (0x5C5, 0x5C7, 2),
     (0x5D0, 0x5EA, 1), (0x5EF, 0x5F2, 1), (0x610, 0x61A, 1), (0x620, 0x669, 1), (0x66E, 0x6D3, 1),
     (0x6D5, 0x6DC, 1), (0x6DF, 0x6E8, 1), (0x6EA, 0x6FC, 1), (0x6FF, 0x710, 17), (0x711, 0x74A, 1),
     (0x74D, 0x7B1, 1), (0x7C0, 0x7F5, 1), (0x7FA, 0x800, 3), (0x801, 0x82D, 1), (0x840, 0x85B, 1),
     (0x860, 0x86A, 1), (0x870, 0x887, 1), (0x889, 0x88E, 1), (0x898, 0x8E1, 1), (0x8E3, 0x963, 1),
     (0x966, 0x96F, 1), (0x971, 0x983, 1), (0x985, 0x98C, 1), (0x98F, 0x990, 1), (0x993, 0x9A8, 1),
     (0x9AA, 0x9B0, 1), (0x9B2, 0x9B6, 4), (0x9B7, 0x9B9, 1), (0x9BC, 0x9C4, 1), (0x9C7, 0x9C8, 1),
     (0x9CB, 0x9CE, 1), (0x9D7, 0x9DC, 5), (0x9DD, 0x9DF, 2), (0x9E0, 0x9E3, 1), (0x9E6, 0x9F1, 1),
     (0x9FC, 0x9FE, 2), (0xA01, 0xA03, 1), (0xA05, 0xA0A, 1), (0xA0F, 0xA10, 1), (0xA13, 0xA28, 1),
     (0xA2A, 0xA30, 1), (0xA32, 0xA33, 1), (0xA35, 0xA36, 1), (0xA38, 0xA39, 1), (0xA3C, 0xA3E, 2),
     (0xA3F, 0xA42, 1), (0xA47, 0xA48, 1), (0xA4B, 0xA4D, 1), (0xA51, 0xA59, 8), (0xA5A, 0xA5C, 1),
     (0xA5E, 0xA66, 8), (0xA67, 0xA75, 1), (0xA81, 0xA83, 1), (0xA85, 0xA8D, 1), (0xA8F, 0xA91, 1),
     (0xA93, 0xAA8, 1), (0xAAA, 0xAB0, 1), (0xAB2, 0xAB3, 1), (0xAB5, 0xAB9, 1), (0xABC, 0xAC5, 1),
     (0xAC7, 0xAC9, 1), (0xACB, 0xACD, 1), (0xAD0, 0xAE0, 16), (0xAE1, 0xAE3, 1), (0xAE6, 0xAEF, 1),
     (0xAF9, 0xAFF, 1), (0xB01, 0xB03, 1), (0xB05, 0xB0C, 1), (0xB0F, 0xB10, 1), (0xB13, 0xB28, 1),
     (0xB2A, 0xB30, 1), (0xB32, 0xB33, 1), (0xB35, 0xB39, 1), (0xB3C, 0xB44, 1), (0xB47, 0xB48, 1),
     (0xB4B, 0xB4D, 1), (0xB55, 0xB57, 1), (0xB5C, 0xB5D, 1), (0xB5F, 0xB63, 1), (0xB66, 0xB6F, 1),
     (0xB71, 0xB82, 17), (0xB83, 0xB85, 2), (0xB86, 0xB8A, 1), (0xB8E, 0xB90, 1), (0xB92, 0xB95, 1),
     (0xB99, 0xB9A, 1), (0xB9C, 0xB9E, 2), (0xB9F, 0xBA3, 4), (0xBA4, 0xBA8, 4), (0xBA9, 0xBAA, 1),
     (0xBAE, 0xBB9, 1), (0xBBE, 0xBC2, 1), (0xBC6, 0xBC8, 1), (0xBCA, 0xBCD, 1), (0xBD0, 0xBD7, 7),
     (0xBE6, 0xBEF, 1), (0xC00, 0xC0C, 1), (0xC0E, 0xC10, 1), (0xC12, 0xC28, 1), (0xC2A, 0xC39, 1),
     (0xC3C, 0xC44, 1), (0xC46, 0xC48, 1), (0xC4A, 0xC4D, 1), (0xC55, 0xC56, 1), (0xC58, 0xC5A, 1),
     (0xC5D, 0xC60, 3), (0xC61, 0xC63, 1), (0xC66, 0xC6F, 1), (0xC80, 0xC83, 1), (0xC85, 0xC8C, 1),
     (0xC8E, 0xC90, 1), (0xC92, 0xCA8, 1), (0xCAA, 0xCB3, 1), (0xCB5, 0xCB9, 1), (0xCBC, 0xCC4, 1),
     (0xCC6, 0xCC8, 1), (0xCCA, 0xCCD, 1), (0xCD5, 0xCD6, 1), (0xCDD, 0xCDE, 1), (0xCE0, 0xCE3, 1),
     (0xCE6, 0xCEF, 1), (0xCF1, 0xCF3, 1), (0xD00, 0xD0C, 1), (0xD0E, 0xD10, 1), (0xD12, 0xD44, 1),
     (0xD46, 0xD48, 1), (0xD4A, 0xD4E, 1), (0xD54, 0xD57, 1), (0xD5F, 0xD63, 1), (0xD66, 0xD6F, 1),
     (0xD7A, 0xD7F, 1), (0xD81, 0xD83, 1), (0xD85, 0xD96, 1), (0xD9A, 0xDB1, 1), (0xDB3, 0xDBB, 1),
     (0xDBD, 0xDC0, 3), (0xDC1, 0xDC6, 1), (0xDCA, 0xDCF, 5), (0xDD0, 0xDD4, 1), (0xDD6, 0xDD8, 2),
     (0xDD9, 0xDDF, 1), (0xDE6, 0xDEF, 1), (0xDF2, 0xDF3, 1), (0xE01, 0xE3A, 1), (0xE40, 0xE4E, 1),
     (0xE50, 0xE59, 1), (0xE81, 0xE82, 1), (0xE84, 0xE86, 2), (0xE87, 0xE8A, 1), (0xE8C, 0xEA3, 1),
     (0xEA5, 0xEA7, 2), (0xEA8, 0xEBD, 1), (0xEC0, 0xEC4, 1), (0xEC6, 0xEC8, 2), (0xEC9, 0xECE, 1),
     (0xED0, 0xED9, 1), (0xEDC, 0xEDF, 1), (0xF00, 0xF18, 24), (0xF19, 0xF20, 7), (0xF21, 0xF29, 1),
     (0xF35, 0xF39, 2), (0xF3E, 0xF47, 1), (0xF49, 0xF6C, 1), (0xF71, 0xF84, 1), (0xF86, 0xF97, 1),
     (0xF99, 0xFBC, 1), (0xFC6, 0x1000, 58), (0x1001, 0x1049, 1), (0x1050, 0x109D, 1), (0x10A0, 0x10C5, 1),
     (0x10C7, 0x10CD, 6), (0x10D0, 0x10FA, 1), (0x10FC, 0x1248, 1), (0x124A, 0x124D, 1), (0x1250, 0x1256, 1),
     (0x1258, 0x125A, 2), (0x125B, 0x125D, 1), (0x1260, 0x1288, 1), (0x128A, 0x128D, 1), (0x1290, 0x12B0, 1),
     (0x12B2, 0x12B5, 1), (0x12B8, 0x12BE, 1), (0x12C0, 0x12C2, 2), (0x12C3, 0x12C5, 1), (0x12C8, 0x12D6, 1),
     (0x12D8, 0x1310, 1), (0x1312, 0x1315, 1), (0x1318, 0x135A, 1), (0x135D, 0x135F, 1), (0x1369, 0x1371, 1),
     (0x1380, 0x138F, 1), (0x13A0, 0x13F5, 1), (0x13F8, 0x13FD, 1), (0x1401, 0x166C, 1), (0x166F, 0x167F, 1),
     (0x1681, 0x169A, 1), (0x16A0, 0x16EA, 1), (0x16EE, 0x16F8, 1), (0x1700, 0x1715, 1), (0x171F, 0x1734, 1),
     (0x1740, 0x1753, 1), (0x1760, 0x176C, 1), (0x176E, 0x1770, 1), (0x1772, 0x1773, 1), (0x1780, 0x17D3, 1),
     (0x17D7, 0x17DC, 5), (0x17DD, 0x17E0, 3), (0x17E1, 0x17E9, 1), (0x180B, 0x180D, 1), (0x180F, 0x1819, 1),
     (0x1820, 0x1878, 1), (0x1880, 0x18AA, 1), (0x18B0, 0x18F5, 1), (0x1900, 0x191E, 1), (0x1920, 0x192B, 1),
     (0x1930, 0x193B, 1), (0x1946, 0x196D, 1), (0x1970, 0x1974, 1), (0x1980, 0x19AB, 1), (0x19B0, 0x19C9, 1),
     (0x19D0, 0x19DA, 1), (0x1A00, 0x1A1B, 1), (0x1A20, 0x1A5E, 1), (0x1A60, 0x1A7C, 1), (0x1A7F, 0x1A89, 1),
     (0x1A90, 0x1A99, 1), (0x1AA7, 0x1AB0, 9), (0x1AB1, 0x1ABD, 1), (0x1ABF, 0x1ACE, 1), (0x1B00, 0x1B4C, 1),
     (0x1B50, 0x1B59, 1), (0x1B6B, 0x1B73, 1), (0x1B80, 0x1BF3, 1), (0x1C00, 0x1C37, 1), (0x1C40, 0x1C49, 1),
     (0x1C4D, 0x1C7D, 1), (0x1C80, 0x1C88, 1), (0x1C90, 0x1CBA, 1), (0x1CBD, 0x1CBF, 1), (0x1CD0, 0x1CD2, 1),
     (0x1CD4, 0x1CFA, 1), (0x1D00, 0x1F15, 1), (0x1F18, 0x1F1D, 1), (0x1F20, 0x1F45, 1), (0x1F48, 0x1F4D, 1),
     (0x1F50, 0x1F57, 1), (0x1F59, 0x1F5F, 2), (0x1F60, 0x1F7D, 1), (0x1F80, 0x1FB4, 1), (0x1FB6, 0x1FBC, 1),
     (0x1FBE, 0x1FC2, 4), (0x1FC3, 0x1FC4, 1), (0x1FC6, 0x1FCC, 1), (0x1FD0, 0x1FD3, 1), (0x1FD6, 0x1FDB, 1),
     (0x1FE0, 0x1FEC, 1), (0x1FF2, 0x1FF4, 1), (0x1FF6, 0x1FFC, 1), (0x200C, 0x200D, 1), (0x203F, 0x2040, 1),
     (0x2054, 0x2071, 29), (0x207F, 0x2090, 17), (0x2091, 0x209C, 1), (0x20D0, 0x20DC, 1), (0x20E1, 0x20E5, 4),
     (0x20E6, 0x20F0, 1), (0x2102, 0x2107, 5), (0x210A, 0x2113, 1), (0x2115, 0x2118, 3), (0x2119, 0x211D, 1),
     (0x2124, 0x212A, 2), (0x212B, 0x2139, 1), (0x213C, 0x213F, 1), (0x2145, 0x2149, 1), (0x214E, 0x2160, 18),
     (0x2161, 0x2188, 1), (0x2C00, 0x2CE4, 1), (0x2CEB, 0x2CF3, 1), (0x2D00, 0x2D25, 1), (0x2D27, 0x2D2D, 6),
     (0x2D30, 0x2D67, 1), (0x2D6F, 0x2D7F, 16), (0x2D80, 0x2D96, 1), (0x2DA0, 0x2DA6, 1), (0x2DA8, 0x2DAE, 1),
     (0x2DB0, 0x2DB6, 1), (0x2DB8, 0x2DBE, 1), (0x2DC0, 0x2DC6, 1), (0x2DC8, 0x2DCE, 1), (0x2DD0, 0x2DD6, 1),
     (0x2DD8, 0x2DDE, 1), (0x2DE0, 0x2DFF, 1), (0x3005, 0x3007, 1), (0x3021, 0x302F, 1), (0x3031, 0x3035, 1),
     (0x3038, 0x303C, 1), (0x3041, 0x3096, 1), (0x3099, 0x309F, 1), (0x30A1, 0x30FF, 1), (0x3105, 0x312F, 1),
     (0x3131, 0x318E, 1), (0x31A0, 0x31BF, 1), (0x31F0, 0x31FF, 1), (0x3400, 0x4DBF, 1), (0x4E00, 0xA48C, 1),
     (0xA4D0, 0xA4FD, 1), (0xA500, 0xA60C, 1), (0xA610, 0xA62B, 1), (0xA640, 0xA66F, 1), (0xA674, 0xA67D, 1),
     (0xA67F, 0xA6F1, 1), (0xA717, 0xA71F, 1), (0xA722, 0xA788, 1), (0xA78B, 0xA7CA, 1), (0xA7D0, 0xA7D1, 1),
     (0xA7D3, 0xA7D5, 2), (0xA7D6, 0xA7D9, 1), (0xA7F2, 0xA827, 1), (0xA82C, 0xA840, 20), (0xA841, 0xA873, 1),
     (0xA880, 0xA8C5, 1), (0xA8D0, 0xA8D9, 1), (0xA8E0, 0xA8F7, 1), (0xA8FB, 0xA8FD, 2), (0xA8FE, 0xA92D, 1),
     (0xA930, 0xA953, 1), (0xA960, 0xA97C, 1), (0xA980, 0xA9C0, 1), (0xA9CF, 0xA9D9, 1), (0xA9E0, 0xA9FE, 1),
     (0xAA00, 0xAA36, 1), (0xAA40, 0xAA4D, 1), (0xAA50, 0xAA59, 1), (0xAA60, 0xAA76, 1), (0xAA7A, 0xAAC2, 1),
     (0xAADB, 0xAADD, 1), (0xAAE0, 0xAAEF, 1), (0xAAF2, 0xAAF6, 1), (0xAB01, 0xAB06, 1), (0xAB09, 0xAB0E, 1),
     (0xAB11, 0xAB16, 1), (0xAB20, 0xAB26, 1), (0xAB28, 0xAB2E, 1), (0xAB30, 0xAB5A, 1), (0xAB5C, 0xAB69, 1),
     (0xAB70, 0xABEA, 1), (0xABEC, 0xABED, 1), (0xABF0, 0xABF9, 1), (0xAC00, 0xD7A3, 1), (0xD7B0, 0xD7C6, 1),
     (0xD7CB, 0xD7FB, 1), (0xF900, 0xFA6D, 1), (0xFA70, 0xFAD9, 1), (0xFB00, 0xFB06, 1), (0xFB13, 0xFB17, 1),
     (0xFB1D, 0xFB28, 1), (0xFB2A, 0xFB36, 1), (0xFB38, 0xFB3C, 1), (0xFB3E, 0xFB40, 2), (0xFB41, 0xFB43, 2),
     (0xFB44, 0xFB46, 2), (0xFB47, 0xFBB1, 1), (0xFBD3, 0xFD3D, 1), (0xFD50, 0xFD8F, 1), (0xFD92, 0xFDC7, 1),
     (0xFDF0, 0xFDFB, 1), (0xFE00, 0xFE0F, 1), (0xFE20, 0xFE2F, 1), (0xFE33, 0xFE34, 1), (0xFE4D, 0xFE4F, 1),
     (0xFE70, 0xFE74, 1), (0xFE76, 0xFEFC, 1), (0xFF10, 0xFF19, 1), (0xFF21, 0xFF3A, 1), (0xFF3F, 0xFF41, 2),
     (0xFF42, 0xFF5A, 1), (0xFF65, 0xFFBE, 1), (0xFFC2, 0xFFC7, 1), (0xFFCA, 0xFFCF, 1), (0xFFD2, 0xFFD7, 1),
     (0xFFDA, 0xFFDC, 1)]"

definition unicodeESNextIdentifierPart_R32 :: range_table where
  "unicodeESNextIdentifierPart_R32 =
    [(0x10000, 0x1000B, 1), (0x1000D, 0x10026, 1), (0x10028, 0x1003A, 1), (0x1003C, 0x1003D, 1), (0x1003F, 0x1004D, 1),
     (0x10050, 0x1005D, 1), (0x10080, 0x100FA, 1), (0x10140, 0x10174, 1), (0x101FD, 0x10280, 131), (0x10281, 0x1029C, 1),
     (0x102A0, 0x102D0, 1), (0x102E0, 0x10300, 32), (0x10301, 0x1031F, 1), (0x1032D, 0x1034A, 1), (0x10350, 0x1037A, 1),
     (0x10380, 0x1039D, 1), (0x103A0, 0x103C3, 1), (0x103C8, 0x103CF, 1), (0x103D1, 0x103D5, 1), (0x10400, 0x1049D, 1),
     (0x104A0, 0x104A9, 1), (0x104B0, 0x104D3, 1), (0x104D8, 0x104FB, 1), (0x10500, 0x10527, 1), (0x10530, 0x10563, 1),
     (0x10570, 0x1057A, 1), (0x1057C, 0x1058A, 1), (0x1058C, 0x10592, 1), (0x10594, 0x10595, 1), (0x10597, 0x105A1, 1),
     (0x105A3, 0x105B1, 1), (0x105B3, 0x105B9, 1), (0x105BB, 0x105BC, 1), (0x10600, 0x10736, 1), (0x10740, 0x10755, 1),
     (0x10760, 0x10767, 1), (0x10780, 0x10785, 1), (0x10787, 0x107B0, 1), (0x107B2, 0x107BA, 1), (0x10800, 0x10805, 1),
     (0x10808, 0x1080A, 2), (0x1080B, 0x10835, 1), (0x10837, 0x10838, 1), (0x1083C, 0x1083F, 3), (0x10840, 0x10855, 1),
     (0x10860, 0x10876, 1), (0x10880, 0x1089E, 1), (0x108E0, 0x108F2, 1), (0x108F4, 0x108F5, 1), (0x10900, 0x10915, 1),
     (0x10920, 0x10939, 1), (0x10980, 0x109B7, 1), (0x109BE, 0x109BF, 1), (0x10A00, 0x10A03, 1), (0x10A05, 0x10A06, 1),
     (0x10A0C, 0x10A13, 1), (0x10A15, 0x10A17, 1), (0x10A19, 0x10A35, 1), (0x10A38, 0x10A3A, 1), (0x10A3F, 0x10A60, 33),
     (0x10A61, 0x10A7C, 1), (0x10A80, 0x10A9C, 1), (0x10AC0, 0x10AC7, 1), (0x10AC9, 0x10AE6, 1), (0x10B00, 0x10B35, 1),
     (0x10B40, 0x10B55, 1), (0x10B60, 0x10B72, 1), (0x10B80, 0x10B91, 1), (0x10C00, 0x10C48, 1), (0x10C80, 0x10CB2, 1),
     (0x10CC0, 0x10CF2, 1), (0x10D00, 0x10D27, 1), (0x10D30, 0x10D39, 1), (0x10E80, 0x10EA9, 1), (0x10EAB, 0x10EAC, 1),
     (0x10EB0, 0x10EB1, 1), (0x10EFD, 0x10F1C, 1), (0x10F27, 0x10F30, 9), (0x10F31, 0x10F50, 1), (0x10F70, 0x10F85, 1),
     (0x10FB0, 0x10FC4, 1), (0x10FE0, 0x10FF6, 1), (0x11000, 0x11046, 1), (0x11066, 0x11075, 1), (0x1107F, 0x110BA, 1),
     (0x110C2, 0x110D0, 14), (0x110D1, 0x110E8, 1), (0x110F0, 0x110F9, 1), (0x11100, 0x11134, 1), (0x11136, 0x1113F, 1),
     (0x11144, 0x11147, 1), (0x11150, 0x11173, 1), (0x11176, 0x11180, 10), (0x11181, 0x111C4, 1), (0x111C9, 0x111CC, 1),
     (0x111CE, 0x111DA, 1), (0x111DC, 0x11200, 36), (0x11201, 0x11211, 1), (0x11213, 0x11237, 1), (0x1123E, 0x11241, 1),
     (0x11280, 0x11286, 1), (0x11288, 0x1128A, 2), (0x1128B, 0x1128D, 1), (0x1128F, 0x1129D, 1), (0x1129F, 0x112A8, 1),
     (0x112B0, 0x112EA, 1), (0x112F0, 0x112F9, 1), (0x11300, 0x11303, 1), (0x11305, 0x1130C, 1), (0x1130F, 0x11310, 1),
     (0x11313, 0x11328, 1), (0x1132A, 0x11330, 1), (0x11332, 0x11333, 1), (0x11335, 0x11339, 1), (0x1133B, 0x11344, 1),
     (0x11347, 0x11348, 1), (0x1134B, 0x1134D, 1), (0x11350, 0x11357, 7), (0x1135D, 0x11363, 1), (0x11366, 0x1136C, 1),
     (0x11370, 0x11374, 1), (0x11400, 0x1144A, 1), (0x11450, 0x11459, 1), (0x1145E, 0x11461, 1), (0x11480, 0x114C5, 1),
     (0x114C7, 0x114D0, 9), (0x114D1, 0x114D9, 1), (0x11580, 0x115B5, 1), (0x115B8, 0x115C0, 1), (0x115D8, 0x115DD, 1),
     (0x11600, 0x11640, 1), (0x11644, 0x11650, 12), (0x11651, 0x11659, 1), (0x11680, 0x116B8, 1), (0x116C0, 0x116C9, 1),
     (0x11700, 0x1171A, 1), (0x1171D, 0x1172B, 1), (0x11730, 0x11739, 1), (0x11740, 0x11746, 1), (0x11800, 0x1183A, 1),
     (0x118A0, 0x118E9, 1), (0x118FF, 0x11906, 1), (0x11909, 0x1190C, 3), (0x1190D, 0x11913, 1), (0x11915, 0x11916, 1),
     (0x11918, 0x11935, 1), (0x11937, 0x11938, 1), (0x1193B, 0x11943, 1), (0x11950, 0x11959, 1), (0x119A0, 0x119A7, 1),
     (0x119AA, 0x119D7, 1), (0x119DA, 0x119E1, 1), (0x119E3, 0x119E4, 1), (0x11A00, 0x11A3E, 1), (0x11A47, 0x11A50, 9),
     (0x11A51, 0x11A99, 1), (0x11A9D, 0x11AB0, 19), (0x11AB1, 0x11AF8, 1), (0x11C00, 0x11C08, 1), (0x11C0A, 0x11C36, 1),
     (0x11C38, 0x11C40, 1), (0x11C50, 0x11C59, 1), (0x11C72, 0x11C8F, 1), (0x11C92, 0x11CA7, 1), (0x11CA9, 0x11CB6, 1),
     (0x11D00, 0x11D06, 1), (0x11D08, 0x11D09, 1), (0x11D0B, 0x11D36, 1), (0x11D3A, 0x11D3C, 2), (0x11D3D, 0x11D3F, 2),
     (0x11D40, 0x11D47, 1), (0x11D50, 0x11D59, 1), (0x11D60, 0x11D65, 1), (0x11D67, 0x11D68, 1), (0x11D6A, 0x11D8E, 1),
     (0x11D90, 0x11D91, 1), (0x11D93, 0x11D98, 1), (0x11DA0, 0x11DA9, 1), (0x11EE0, 0x11EF6, 1), (0x11F00, 0x11F10, 1),
     (0x11F12, 0x11F3A, 1), (0x11F3E, 0x11F42, 1), (0x11F50, 0x11F59, 1), (0x11FB0, 0x12000, 80), (0x12001, 0x12399, 1),
     (0x12400, 0x1246E, 1), (0x12480, 0x12543, 1), (0x12F90, 0x12FF0, 1), (0x13000, 0x1342F, 1), (0x13440, 0x13455, 1),
     (0x14400, 0x14646, 1), (0x16800, 0x16A38, 1), (0x16A40, 0x16A5E, 1), (0x16A60, 0x16A69, 1), (0x16A70, 0x16ABE, 1),
     (0x16AC0, 0x16AC9, 1), (0x16AD0, 0x16AED, 1), (0x16AF0, 0x16AF4, 1), (0x16B00, 0x16B36, 1), (0x16B40, 0x16B43, 1),
     (0x16B50, 0x16B59, 1), (0x16B63, 0x16B77, 1), (0x16B7D, 0x16B8F, 1), (0x16E40, 0x16E7F, 1), (0x16F00, 0x16F4A, 1),
     (0x16F4F, 0x16F87, 1), (0x16F8F, 0x16F9F, 1), (0x16FE0, 0x16FE1, 1), (0x16FE3, 0x16FE4, 1), (0x16FF0, 0x16FF1, 1),
     (0x17000, 0x187F7, 1), (0x18800, 0x18CD5, 1), (0x18D00, 0x18D08, 1), (0x1AFF0, 0x1AFF3, 1), (0x1AFF5, 0x1AFFB, 1),
     (0x1AFFD, 0x1AFFE, 1), (0x1B000, 0x1B122, 1), (0x1B132, 0x1B150, 30), (0x1B151, 0x1B152, 1), (0x1B155, 0x1B164, 15),
     (0x1B165, 0x1B167, 1), (0x1B170, 0x1B2FB, 1), (0x1BC00, 0x1BC6A, 1), (0x1BC70, 0x1BC7C, 1), (0x1BC80, 0x1BC88, 1),
     (0x1BC90, 0x1BC99, 1), (0x1BC9D, 0x1BC9E, 1), (0x1CF00, 0x1CF2D, 1), (0x1CF30, 0x1CF46, 1), (0x1D165, 0x1D169, 1),
     (0x1D16D, 0x1D172, 1), (0x1D17B, 0x1D182, 1), (0x1D185, 0x1D18B, 1), (0x1D1AA, 0x1D1AD, 1), (0x1D242, 0x1D244, 1),
     (0x1D400, 0x1D454, 1), (0x1D456, 0x1D49C, 1), (0x1D49E, 0x1D49F, 1), (0x1D4A2, 0x1D4A5, 3), (0x1D4A6, 0x1D4A9, 3),
     (0x1D4AA, 0x1D4AC, 1), (0x1D4AE, 0x1D4B9, 1), (0x1D4BB, 0x1D4BD, 2), (0x1D4BE, 0x1D4C3, 1), (0x1D4C5, 0x1D505, 1),
     (0x1D507, 0x1D50A, 1), (0x1D50D, 0x1D514, 1), (0x1D516, 0x1D51C, 1), (0x1D51E, 0x1D539, 1), (0x1D53B, 0x1D53E, 1),
     (0x1D540, 0x1D544, 1), (0x1D546, 0x1D54A, 4), (0x1D54B, 0x1D550, 1), (0x1D552, 0x1D6A5, 1), (0x1D6A8, 0x1D6C0, 1),
     (0x1D6C2, 0x1D6DA, 1), (0x1D6DC, 0x1D6FA, 1), (0x1D6FC, 0x1D714, 1), (0x1D716, 0x1D734, 1), (0x1D736, 0x1D74E, 1),
     (0x1D750, 0x1D76E, 1), (0x1D770, 0x1D788, 1), (0x1D78A, 0x1D7A8, 1), (0x1D7AA, 0x1D7C2, 1), (0x1D7C4, 0x1D7CB, 1),
     (0x1D7CE, 0x1D7FF, 1), (0x1DA00, 0x1DA36, 1), (0x1DA3B, 0x1DA6C, 1), (0x1DA75, 0x1DA84, 15), (0x1DA9B, 0x1DA9F, 1),
     (0x1DAA1, 0x1DAAF, 1), (0x1DF00, 0x1DF1E, 1), (0x1DF25, 0x1DF2A, 1), (0x1E000, 0x1E006, 1), (0x1E008, 0x1E018, 1),
     (0x1E01B, 0x1E021, 1), (0x1E023, 0x1E024, 1), (0x1E026, 0x1E02A, 1), (0x1E030, 0x1E06D, 1), (0x1E08F, 0x1E100, 113),
     (0x1E101, 0x1E12C, 1), (0x1E130, 0x1E13D, 1), (0x1E140, 0x1E149, 1), (0x1E14E, 0x1E290, 322), (0x1E291, 0x1E2AE, 1),
     (0x1E2C0, 0x1E2F9, 1), (0x1E4D0, 0x1E4F9, 1), (0x1E7E0, 0x1E7E6, 1), (0x1E7E8, 0x1E7EB, 1), (0x1E7ED, 0x1E7EE, 1),
     (0x1E7F0, 0x1E7FE, 1), (0x1E800, 0x1E8C4, 1), (0x1E8D0, 0x1E8D6, 1), (0x1E900, 0x1E94B, 1), (0x1E950, 0x1E959, 1),
     (0x1EE00, 0x1EE03, 1), (0x1EE05, 0x1EE1F, 1), (0x1EE21, 0x1EE22, 1), (0x1EE24, 0x1EE27, 3), (0x1EE29, 0x1EE32, 1),
     (0x1EE34, 0x1EE37, 1), (0x1EE39, 0x1EE3B, 2), (0x1EE42, 0x1EE47, 5), (0x1EE49, 0x1EE4D, 2), (0x1EE4E, 0x1EE4F, 1),
     (0x1EE51, 0x1EE52, 1), (0x1EE54, 0x1EE57, 3), (0x1EE59, 0x1EE61, 2), (0x1EE62, 0x1EE64, 2), (0x1EE67, 0x1EE6A, 1),
     (0x1EE6C, 0x1EE72, 1), (0x1EE74, 0x1EE77, 1), (0x1EE79, 0x1EE7C, 1), (0x1EE7E, 0x1EE80, 2), (0x1EE81, 0x1EE89, 1),
     (0x1EE8B, 0x1EE9B, 1), (0x1EEA1, 0x1EEA3, 1), (0x1EEA5, 0x1EEA9, 1), (0x1EEAB, 0x1EEBB, 1), (0x1FBF0, 0x1FBF9, 1),
     (0x20000, 0x2A6DF, 1), (0x2A700, 0x2B739, 1), (0x2B740, 0x2B81D, 1), (0x2B820, 0x2CEA1, 1), (0x2CEB0, 0x2EBE0, 1),
     (0x2EBF0, 0x2EE5D, 1), (0x2F800, 0x2FA1D, 1), (0x30000, 0x3134A, 1), (0x31350, 0x323AF, 1), (0xE0100, 0xE01EF, 1)]"

definition unicodeESNextIdentifierStart :: range_table where
  "unicodeESNextIdentifierStart = unicodeESNextIdentifierStart_R16 @ unicodeESNextIdentifierStart_R32"

definition unicodeESNextIdentifierPart :: range_table where
  "unicodeESNextIdentifierPart = unicodeESNextIdentifierPart_R16 @ unicodeESNextIdentifierPart_R32"

definition IsUnicodeIdentifierStart :: "rune \<Rightarrow> bool" where
  "IsUnicodeIdentifierStart ch = unicode_Is unicodeESNextIdentifierStart ch"

definition IsUnicodeIdentifierPart :: "rune \<Rightarrow> bool" where
  "IsUnicodeIdentifierPart ch = unicode_Is unicodeESNextIdentifierPart ch"

lemmas unicode_table_defs =
  unicodeESNextIdentifierStart_def unicodeESNextIdentifierPart_def
  unicodeESNextIdentifierStart_R16_def unicodeESNextIdentifierStart_R32_def
  unicodeESNextIdentifierPart_R16_def unicodeESNextIdentifierPart_R32_def

lemma not_id_RuneError [simp]:
  "\<not> IsUnicodeIdentifierPart 0xFFFD" "\<not> IsUnicodeIdentifierStart 0xFFFD"
  by (simp_all add: IsUnicodeIdentifierPart_def IsUnicodeIdentifierStart_def unicode_Is_def unicode_table_defs)

text \<open>White space and line separators outside ASCII start no identifier.\<close>

lemma white_not_UnicodeIdentifierStart:
  assumes "c \<in> {0x85, 0xA0, 0x1680, 0x2000, 0x2001, 0x2002, 0x2003, 0x2004, 0x2005, 0x2006, 0x2007, 0x2008,
     0x2009, 0x200A, 0x200B, 0x202F, 0x205F, 0x3000, 0xFEFF, 0x2028, 0x2029}"
  shows "\<not> IsUnicodeIdentifierStart c"
  using assms
  by (elim insertE emptyE) (simp_all add: IsUnicodeIdentifierStart_def unicode_Is_def unicode_table_defs)

end
