(* ===== verification/StringUtil.thy ===== *)
theory StringUtil
  imports UnicodeTables "HOL-Library.Word"
begin

text \<open>
  Package \<^verbatim>\<open>stringutil\<close>: character classes, line splitting, byte order marks, quoting, URI
  encoding and the lone-surrogate (WTF-8) representation of JavaScript strings
  (\<^verbatim>\<open>util.go\<close>), and the case-sensitive comparisons of \<^verbatim>\<open>compare.go\<close>. Case folding of
  arbitrary runes is Go's Unicode table and appears as the parameter \<open>toLower\<close>.
\<close>

unbundle bit_operations_syntax

section \<open>Character classes\<close>

definition IsWhiteSpaceSingleLine :: "rune \<Rightarrow> bool" where
  "IsWhiteSpaceSingleLine ch \<longleftrightarrow>
     ch \<in> {0x20, 0x09, 0x0B, 0x0C, 0x85, 0xA0, 0x1680, 0x2000, 0x2001, 0x2002, 0x2003, 0x2004,
           0x2005, 0x2006, 0x2007, 0x2008, 0x2009, 0x200A, 0x200B, 0x202F, 0x205F, 0x3000, 0xFEFF}"

definition IsLineBreak :: "rune \<Rightarrow> bool" where
  "IsLineBreak ch \<longleftrightarrow> ch = 0x0A \<or> ch = 0x0D \<or> ch = 0x2028 \<or> ch = 0x2029"

definition IsWhiteSpaceLike :: "rune \<Rightarrow> bool" where
  "IsWhiteSpaceLike ch \<longleftrightarrow> IsWhiteSpaceSingleLine ch \<or> IsLineBreak ch"

definition IsDigit :: "rune \<Rightarrow> bool" where
  "IsDigit ch \<longleftrightarrow> 0x30 \<le> ch \<and> ch \<le> 0x39"

definition IsOctalDigit :: "rune \<Rightarrow> bool" where
  "IsOctalDigit ch \<longleftrightarrow> 0x30 \<le> ch \<and> ch \<le> 0x37"

definition IsHexDigit :: "rune \<Rightarrow> bool" where
  "IsHexDigit ch \<longleftrightarrow> 0x30 \<le> ch \<and> ch \<le> 0x39 \<or> 0x41 \<le> ch \<and> ch \<le> 0x46 \<or> 0x61 \<le> ch \<and> ch \<le> 0x66"

definition IsASCIILetter :: "rune \<Rightarrow> bool" where
  "IsASCIILetter ch \<longleftrightarrow> 0x41 \<le> ch \<and> ch \<le> 0x5A \<or> 0x61 \<le> ch \<and> ch \<le> 0x7A"

lemma whitespace_RuneError [simp]:
  "\<not> IsWhiteSpaceSingleLine 0xFFFD" "\<not> IsLineBreak 0xFFFD" "\<not> IsWhiteSpaceLike 0xFFFD"
  by (simp_all add: IsWhiteSpaceSingleLine_def IsLineBreak_def IsWhiteSpaceLike_def)

section \<open>Lines\<close>

text \<open>\<open>cur\<close> is \<open>text[start:pos]\<close>, the part of the current line already passed.\<close>

fun SplitLines_from :: "string \<Rightarrow> string \<Rightarrow> string list" where
  "SplitLines_from cur [] = (if cur = [] then [] else [cur])"
| "SplitLines_from cur (c # rest) =
     (if c = CHR 0x0D then
        (case rest of
           d # rest' \<Rightarrow>
             if d = CHR 0x0A then cur # SplitLines_from [] rest'
             else cur # SplitLines_from [] rest
         | [] \<Rightarrow> cur # SplitLines_from [] rest)
      else if c = CHR 0x0A then cur # SplitLines_from [] rest
      else SplitLines_from (cur @ [c]) rest)"

definition SplitLines :: "string \<Rightarrow> string list" where
  "SplitLines text = SplitLines_from [] text"

abbreviation (input) MAX_SMI_X86 :: nat where "MAX_SMI_X86 \<equiv> 0x3fffffff"

function (sequential) line_indent :: "string \<Rightarrow> nat \<Rightarrow> nat \<Rightarrow> nat" where
  "line_indent line indentation i =
     (if i < length line \<and> i < indentation then
        (let d = DecodeRune (drop i line) in
         if IsWhiteSpaceLike (fst d) then line_indent line indentation (i + snd d) else i)
      else i)"
  by pat_completeness auto
termination
  by (relation "measure (\<lambda>(line, indentation, i). length line - i)")
     (auto simp: DecodeRune_size_pos diff_less_mono2)

declare line_indent.simps [simp del]

fun GuessIndentation_from :: "nat \<Rightarrow> string list \<Rightarrow> nat" where
  "GuessIndentation_from indentation [] = (if indentation = MAX_SMI_X86 then 0 else indentation)"
| "GuessIndentation_from indentation (line # lines) =
     (if line = [] then GuessIndentation_from indentation lines
      else
        let i = line_indent line indentation 0;
            indentation' = (if i < indentation then i else indentation)
        in if indentation' = 0 then 0 else GuessIndentation_from indentation' lines)"

definition GuessIndentation :: "string list \<Rightarrow> nat" where
  "GuessIndentation lines = GuessIndentation_from MAX_SMI_X86 lines"

section \<open>URI encoding\<close>

definition upperhex :: string where "upperhex = ''0123456789ABCDEF''"

definition shouldEscapeForEncodeURI :: "char \<Rightarrow> bool" where
  "shouldEscapeForEncodeURI b =
     (if IsASCIILetter (rune_of b) \<or> IsDigit (rune_of b) then False
      else b \<notin> set '';/?:@&=+$,#-_.!~*()'' \<and> b \<noteq> CHR 0x27)"

fun EncodeURI :: "string \<Rightarrow> string" where
  "EncodeURI [] = []"
| "EncodeURI (b # s) =
     (if \<not> shouldEscapeForEncodeURI b then b # EncodeURI s
      else CHR ''%'' # upperhex ! nat (of_char b div 16) # upperhex ! nat (of_char b mod 16)
           # EncodeURI s)"

section \<open>Byte order marks and quotes\<close>

definition getByteOrderMarkLength :: "string \<Rightarrow> nat" where
  "getByteOrderMarkLength text =
     (if 1 \<le> length text then
        (let ch0 = text ! 0 in
         if ch0 = CHR 0xFE then (if 2 \<le> length text \<and> text ! 1 = CHR 0xFF then 2 else 0)
         else if ch0 = CHR 0xFF then (if 2 \<le> length text \<and> text ! 1 = CHR 0xFE then 2 else 0)
         else if ch0 = CHR 0xEF then
           (if 3 \<le> length text \<and> text ! 1 = CHR 0xBB \<and> text ! 2 = CHR 0xBF then 3 else 0)
         else 0)
      else 0)"

definition RemoveByteOrderMark :: "string \<Rightarrow> string" where
  "RemoveByteOrderMark text =
     (let n = getByteOrderMarkLength text in if 0 < n then drop n text else text)"

definition AddUTF8ByteOrderMark :: "string \<Rightarrow> string" where
  "AddUTF8ByteOrderMark text =
     (if getByteOrderMarkLength text = 0 then [CHR 0xEF, CHR 0xBB, CHR 0xBF] @ text else text)"

definition StripQuotes :: "string \<Rightarrow> string" where
  "StripQuotes name =
     (if length name < 2 then name
      else
        let firstChar = fst (DecodeRune name); lastChar = fst (DecodeLastRune name)
        in if firstChar = lastChar \<and> (firstChar = 0x27 \<or> firstChar = 0x22 \<or> firstChar = 0x60)
           then slc name 1 (length name - 1) else name)"

text \<open>
  \<open>matchSlashSomething.ReplaceAllStringFunc(inner, matchSlashReplacer)\<close>: a backslash before any
  rune but a line feed (Go's \<open>.\<close>) is dropped and the rune kept.
\<close>

fun drop_slashes :: "nat \<Rightarrow> string \<Rightarrow> string" where
  "drop_slashes n [] = []"
| "drop_slashes (Suc n) (c # s) = c # drop_slashes n s"
| "drop_slashes 0 (c # s) =
     (if c = CHR 0x5C \<and> s \<noteq> [] \<and> hd s \<noteq> CHR 0x0A
      then drop_slashes (snd (DecodeRune s)) s else c # drop_slashes 0 s)"

definition UnquoteString :: "string \<Rightarrow> string" where
  "UnquoteString str = drop_slashes 0 (StripQuotes str)"

fun truncate_runes :: "nat \<Rightarrow> nat \<Rightarrow> string \<Rightarrow> string" where
  "truncate_runes skip k [] = []"
| "truncate_runes (Suc skip) k (c # s) = c # truncate_runes skip k s"
| "truncate_runes 0 0 (c # s) = []"
| "truncate_runes 0 (Suc k) (c # s) = c # truncate_runes (snd (DecodeRune (c # s)) - 1) k s"

definition TruncateByRunes :: "string \<Rightarrow> int \<Rightarrow> string" where
  "TruncateByRunes str maxLength =
     (if int (length str) < maxLength then str
      else if maxLength \<le> 0 then []
      else truncate_runes 0 (nat maxLength) str)"

section \<open>Surrogates\<close>

abbreviation (input) SurrogateLowStart :: rune where "SurrogateLowStart \<equiv> 0xDC00"

definition IsSurrogate :: "rune \<Rightarrow> bool" where
  "IsSurrogate ch \<longleftrightarrow> utf16_IsSurrogate ch"

definition IsHighSurrogate :: "rune \<Rightarrow> bool" where
  "IsHighSurrogate ch \<longleftrightarrow> utf16_IsSurrogate ch \<and> ch < SurrogateLowStart"

definition IsLowSurrogate :: "rune \<Rightarrow> bool" where
  "IsLowSurrogate ch \<longleftrightarrow> utf16_IsSurrogate ch \<and> SurrogateLowStart \<le> ch"

definition SurrogatePairToCodePoint :: "rune \<Rightarrow> rune \<Rightarrow> rune" where
  "SurrogatePairToCodePoint high low = utf16_DecodeRune high low"

definition CodePointToSurrogatePair :: "rune \<Rightarrow> rune \<times> rune" where
  "CodePointToSurrogatePair ch = utf16_EncodeRune ch"

abbreviation (input) surrogateUTF8Lead :: rune where "surrogateUTF8Lead \<equiv> 0xED"

definition EncodeJSStringRune :: "rune \<Rightarrow> string" where
  "EncodeJSStringRune ch =
     (if IsSurrogate ch then
        [byte_of surrogateUTF8Lead,
         byte_of (0x80 OR (drop_bit 6 ch AND 0x3F)),
         byte_of (0x80 OR (ch AND 0x3F))]
      else EncodeRune ch)"

definition is_surrogate_sentinel :: "string \<Rightarrow> bool" where
  "is_surrogate_sentinel s \<longleftrightarrow>
     3 \<le> length s \<and> rune_of (s ! 0) = surrogateUTF8Lead
     \<and> 0xA0 \<le> rune_of (s ! 1) \<and> rune_of (s ! 1) \<le> 0xBF
     \<and> 0x80 \<le> rune_of (s ! 2) \<and> rune_of (s ! 2) \<le> 0xBF"

definition DecodeJSStringRune :: "string \<Rightarrow> rune \<times> nat" where
  "DecodeJSStringRune s =
     (if is_surrogate_sentinel s
      then (0xD000 OR push_bit 6 (rune_of (s ! 1) AND 0x3F) OR (rune_of (s ! 2) AND 0x3F), 3)
      else DecodeRune s)"

lemma DecodeJSStringRune_size_le [simp]: "snd (DecodeJSStringRune s) \<le> length s"
  by (auto simp: DecodeJSStringRune_def is_surrogate_sentinel_def)

lemma DecodeJSStringRune_size_pos: "s \<noteq> [] \<Longrightarrow> 0 < snd (DecodeJSStringRune s)"
  by (auto simp: DecodeJSStringRune_def DecodeRune_size_pos)

text \<open>The loop of \<open>CombineSurrogatePairs\<close> on the rest \<open>s[i:]\<close> of the string.\<close>

function combine_from :: "string \<Rightarrow> string" where
  "combine_from s =
     (if s = [] then []
      else
        let r = fst (DecodeJSStringRune s); size = snd (DecodeJSStringRune s);
            low = fst (DecodeJSStringRune (drop size s));
            lowSize = snd (DecodeJSStringRune (drop size s))
        in if IsHighSurrogate r \<and> IsLowSurrogate low
           then EncodeRune (SurrogatePairToCodePoint r low) @ combine_from (drop (size + lowSize) s)
           else take size s @ combine_from (drop size s))"
  by pat_completeness auto
termination
  by (relation "measure length") (auto simp: DecodeJSStringRune_size_pos trans_less_add1)

declare combine_from.simps [simp del]

definition CombineSurrogatePairs :: "string \<Rightarrow> string" where
  "CombineSurrogatePairs s =
     (if IndexByte s (byte_of surrogateUTF8Lead) = None then s else combine_from s)"

section \<open>Comparison\<close>

definition EquateStringCaseSensitive :: "string \<Rightarrow> string \<Rightarrow> bool" where
  "EquateStringCaseSensitive a b \<longleftrightarrow> a = b"

definition GetStringEqualityComparer ::
    "(string \<Rightarrow> string \<Rightarrow> bool) \<Rightarrow> bool \<Rightarrow> string \<Rightarrow> string \<Rightarrow> bool" where
  "GetStringEqualityComparer equalFold ignoreCase =
     (if ignoreCase then equalFold else EquateStringCaseSensitive)"

function CompareFolded :: "(rune \<Rightarrow> rune) \<Rightarrow> string \<Rightarrow> string \<Rightarrow> int" where
  "CompareFolded toLower a b =
     (let ca = fst (DecodeRune a); sa = snd (DecodeRune a);
          cb = fst (DecodeRune b); sb = snd (DecodeRune b)
      in if sa = 0 then (if sb = 0 then 0 else -1)
         else if sb = 0 then 1
         else if toLower ca \<noteq> toLower cb then (if toLower ca < toLower cb then -1 else 1)
         else CompareFolded toLower (drop sa a) (drop sb b))"
  by pat_completeness auto
termination
  by (relation "measure (\<lambda>(f, a, b). length a)") (auto simp: DecodeRune_size_pos)

declare CompareFolded.simps [simp del]

definition CompareStringsCaseInsensitive :: "(rune \<Rightarrow> rune) \<Rightarrow> string \<Rightarrow> string \<Rightarrow> int" where
  "CompareStringsCaseInsensitive toLower a b = (if a = b then 0 else CompareFolded toLower a b)"

definition CompareStringsCaseSensitive :: "string \<Rightarrow> string \<Rightarrow> int" where
  "CompareStringsCaseSensitive a b = strCompare a b"

definition GetStringComparer :: "(rune \<Rightarrow> rune) \<Rightarrow> bool \<Rightarrow> string \<Rightarrow> string \<Rightarrow> int" where
  "GetStringComparer toLower ignoreCase =
     (if ignoreCase then CompareStringsCaseInsensitive toLower else CompareStringsCaseSensitive)"

definition CompareStringsCaseInsensitiveThenSensitive ::
    "(rune \<Rightarrow> rune) \<Rightarrow> string \<Rightarrow> string \<Rightarrow> int" where
  "CompareStringsCaseInsensitiveThenSensitive toLower a b =
     (let c = CompareStringsCaseInsensitive toLower a b
      in if c \<noteq> 0 then c else CompareStringsCaseSensitive a b)"

end
