(* ===== verification/ScannerBase.thy ===== *)
theory ScannerBase
  imports Kinds StringUtil
begin

text \<open>
  The state of the scanner (\<^verbatim>\<open>scanner/scanner.go\<close>): the record \<open>Scanner\<close> with the embedded
  \<open>ScannerState\<close>, its accessors and setters, the diagnostics it reports, the keyword and token
  tables with the perfect hash, and the primitives that read the current byte or rune. The error
  callback is modelled by the list of the diagnostics it has received.
\<close>

section \<open>Keyword and token tables\<close>

definition textToKeyword :: "(string \<times> Kind) list" where
  "textToKeyword =
    [(''abstract'', KindAbstractKeyword),
     (''accessor'', KindAccessorKeyword),
     (''any'', KindAnyKeyword),
     (''as'', KindAsKeyword),
     (''asserts'', KindAssertsKeyword),
     (''assert'', KindAssertKeyword),
     (''bigint'', KindBigIntKeyword),
     (''boolean'', KindBooleanKeyword),
     (''break'', KindBreakKeyword),
     (''case'', KindCaseKeyword),
     (''catch'', KindCatchKeyword),
     (''class'', KindClassKeyword),
     (''continue'', KindContinueKeyword),
     (''const'', KindConstKeyword),
     (''constructor'', KindConstructorKeyword),
     (''debugger'', KindDebuggerKeyword),
     (''declare'', KindDeclareKeyword),
     (''default'', KindDefaultKeyword),
     (''defer'', KindDeferKeyword),
     (''delete'', KindDeleteKeyword),
     (''do'', KindDoKeyword),
     (''else'', KindElseKeyword),
     (''enum'', KindEnumKeyword),
     (''export'', KindExportKeyword),
     (''extends'', KindExtendsKeyword),
     (''false'', KindFalseKeyword),
     (''finally'', KindFinallyKeyword),
     (''for'', KindForKeyword),
     (''from'', KindFromKeyword),
     (''function'', KindFunctionKeyword),
     (''get'', KindGetKeyword),
     (''if'', KindIfKeyword),
     (''immediate'', KindImmediateKeyword),
     (''implements'', KindImplementsKeyword),
     (''import'', KindImportKeyword),
     (''in'', KindInKeyword),
     (''infer'', KindInferKeyword),
     (''instanceof'', KindInstanceOfKeyword),
     (''interface'', KindInterfaceKeyword),
     (''intrinsic'', KindIntrinsicKeyword),
     (''is'', KindIsKeyword),
     (''keyof'', KindKeyOfKeyword),
     (''let'', KindLetKeyword),
     (''module'', KindModuleKeyword),
     (''namespace'', KindNamespaceKeyword),
     (''never'', KindNeverKeyword),
     (''new'', KindNewKeyword),
     (''null'', KindNullKeyword),
     (''number'', KindNumberKeyword),
     (''object'', KindObjectKeyword),
     (''package'', KindPackageKeyword),
     (''private'', KindPrivateKeyword),
     (''protected'', KindProtectedKeyword),
     (''public'', KindPublicKeyword),
     (''override'', KindOverrideKeyword),
     (''out'', KindOutKeyword),
     (''readonly'', KindReadonlyKeyword),
     (''require'', KindRequireKeyword),
     (''global'', KindGlobalKeyword),
     (''return'', KindReturnKeyword),
     (''satisfies'', KindSatisfiesKeyword),
     (''set'', KindSetKeyword),
     (''source'', KindSourceKeyword),
     (''static'', KindStaticKeyword),
     (''string'', KindStringKeyword),
     (''super'', KindSuperKeyword),
     (''switch'', KindSwitchKeyword),
     (''symbol'', KindSymbolKeyword),
     (''this'', KindThisKeyword),
     (''throw'', KindThrowKeyword),
     (''true'', KindTrueKeyword),
     (''try'', KindTryKeyword),
     (''type'', KindTypeKeyword),
     (''typeof'', KindTypeOfKeyword),
     (''undefined'', KindUndefinedKeyword),
     (''unique'', KindUniqueKeyword),
     (''unknown'', KindUnknownKeyword),
     (''using'', KindUsingKeyword),
     (''var'', KindVarKeyword),
     (''void'', KindVoidKeyword),
     (''while'', KindWhileKeyword),
     (''with'', KindWithKeyword),
     (''yield'', KindYieldKeyword),
     (''async'', KindAsyncKeyword),
     (''await'', KindAwaitKeyword),
     (''of'', KindOfKeyword)]"

abbreviation (input) minKeywordLength :: nat where "minKeywordLength \<equiv> 2"
abbreviation (input) maxKeywordLength :: nat where "maxKeywordLength \<equiv> 11"

definition keywordHashMultiplier :: "32 word" where
  "keywordHashMultiplier = 0x9E6867BF"

definition keywordHash :: "string \<Rightarrow> 32 word \<Rightarrow> nat" where
  "keywordHash s multiplier =
     (let x = word_of_nat (length s) OR push_bit 8 (word_of_int (rune_of (s ! 0)))
              OR push_bit 16 (word_of_int (rune_of (s ! 1)))
              OR push_bit 24 (word_of_int (rune_of (s ! (length s - 1))))
      in unat (drop_bit 24 (x * multiplier)))"

text \<open>
  One iteration of the initialiser of \<open>keywordTable\<close>; \<open>None\<close> is its panic (a keyword outside the
  bounds, or a collision). A free slot has the empty text.
\<close>

definition keyword_in_bounds :: "string \<Rightarrow> bool" where
  "keyword_in_bounds text \<longleftrightarrow>
     minKeywordLength \<le> length text \<and> length text \<le> maxKeywordLength
     \<and> 0x61 \<le> rune_of (text ! 0) \<and> rune_of (text ! 0) \<le> 0x7A"

fun fill_keywordTable :: "(string \<times> Kind) list \<Rightarrow> (string \<times> Kind) list \<Rightarrow> (string \<times> Kind) list option" where
  "fill_keywordTable table [] = Some table"
| "fill_keywordTable table ((text, kind) # rest) =
     (if \<not> keyword_in_bounds text then None
      else
        let h = keywordHash text keywordHashMultiplier
        in if fst (table ! h) \<noteq> [] then None
           else fill_keywordTable (table[h := (text, kind)]) rest)"

definition keywordTable :: "(string \<times> Kind) list option" where
  "keywordTable = fill_keywordTable (replicate 256 ([], KindUnknown)) textToKeyword"

definition lookupKeyword :: "string \<Rightarrow> Kind" where
  "lookupKeyword str =
     (if keyword_in_bounds str then
        (case keywordTable of
           None \<Rightarrow> KindUnknown
         | Some table \<Rightarrow>
             (let entry = table ! keywordHash str keywordHashMultiplier
              in if fst entry = str then snd entry else KindUnknown))
      else KindUnknown)"

definition punctuation_tokens :: "(string \<times> Kind) list" where
  "punctuation_tokens =
    [(''{'', KindOpenBraceToken),
     (''}'', KindCloseBraceToken),
     (''('', KindOpenParenToken),
     ('')'', KindCloseParenToken),
     (''['', KindOpenBracketToken),
     ('']'', KindCloseBracketToken),
     (''.'', KindDotToken),
     (''...'', KindDotDotDotToken),
     ('';'', KindSemicolonToken),
     ('','', KindCommaToken),
     (''<'', KindLessThanToken),
     (''>'', KindGreaterThanToken),
     (''<='', KindLessThanEqualsToken),
     (''>='', KindGreaterThanEqualsToken),
     (''=='', KindEqualsEqualsToken),
     (''!='', KindExclamationEqualsToken),
     (''==='', KindEqualsEqualsEqualsToken),
     (''!=='', KindExclamationEqualsEqualsToken),
     (''=>'', KindEqualsGreaterThanToken),
     (''+'', KindPlusToken),
     (''-'', KindMinusToken),
     (''**'', KindAsteriskAsteriskToken),
     (''*'', KindAsteriskToken),
     (''/'', KindSlashToken),
     (''%'', KindPercentToken),
     (''++'', KindPlusPlusToken),
     (''--'', KindMinusMinusToken),
     (''<<'', KindLessThanLessThanToken),
     (''</'', KindLessThanSlashToken),
     (''>>'', KindGreaterThanGreaterThanToken),
     (''>>>'', KindGreaterThanGreaterThanGreaterThanToken),
     (''&'', KindAmpersandToken),
     (''|'', KindBarToken),
     (''^'', KindCaretToken),
     (''!'', KindExclamationToken),
     (''~'', KindTildeToken),
     (''&&'', KindAmpersandAmpersandToken),
     (''||'', KindBarBarToken),
     (''?'', KindQuestionToken),
     (''??'', KindQuestionQuestionToken),
     (''?.'', KindQuestionDotToken),
     ('':'', KindColonToken),
     (''='', KindEqualsToken),
     (''+='', KindPlusEqualsToken),
     (''-='', KindMinusEqualsToken),
     (''*='', KindAsteriskEqualsToken),
     (''**='', KindAsteriskAsteriskEqualsToken),
     (''/='', KindSlashEqualsToken),
     (''%='', KindPercentEqualsToken),
     (''<<='', KindLessThanLessThanEqualsToken),
     (''>>='', KindGreaterThanGreaterThanEqualsToken),
     (''>>>='', KindGreaterThanGreaterThanGreaterThanEqualsToken),
     (''&='', KindAmpersandEqualsToken),
     (''|='', KindBarEqualsToken),
     (''^='', KindCaretEqualsToken),
     (''||='', KindBarBarEqualsToken),
     (''&&='', KindAmpersandAmpersandEqualsToken),
     (''??='', KindQuestionQuestionEqualsToken),
     (''@'', KindAtToken),
     (''#'', KindHashToken),
     (''`'', KindBacktickToken)]"

definition textToToken :: "(string \<times> Kind) list" where
  "textToToken = textToKeyword @ punctuation_tokens"

definition tokenToText :: "Kind \<Rightarrow> string" where
  "tokenToText k = (case map_of (map prod.swap textToToken) k of Some t \<Rightarrow> t | None \<Rightarrow> [])"

definition TokenToString :: "Kind \<Rightarrow> string" where
  "TokenToString token = tokenToText token"

definition StringToToken :: "string \<Rightarrow> Kind" where
  "StringToToken s = (case map_of textToToken s of Some k \<Rightarrow> k | None \<Rightarrow> KindUnknown)"

definition GetViableKeywordSuggestions :: "string list" where
  "GetViableKeywordSuggestions = filter (\<lambda>t. 2 < length t) (map fst textToKeyword)"

definition GetIdentifierToken :: "string \<Rightarrow> Kind" where
  "GetIdentifierToken str =
     (let keyword = lookupKeyword str in if keyword \<noteq> KindUnknown then keyword else KindIdentifier)"

section \<open>Identifier characters\<close>

definition isWordCharacter :: "rune \<Rightarrow> bool" where
  "isWordCharacter ch \<longleftrightarrow> IsASCIILetter ch \<or> IsDigit ch \<or> ch = 0x5F"

definition IsIdentifierStart :: "rune \<Rightarrow> bool" where
  "IsIdentifierStart ch \<longleftrightarrow>
     IsASCIILetter ch \<or> ch = 0x5F \<or> ch = 0x24 \<or> (RuneSelf \<le> ch \<and> IsUnicodeIdentifierStart ch)"

definition IsIdentifierPartEx :: "rune \<Rightarrow> LanguageVariant \<Rightarrow> bool" where
  "IsIdentifierPartEx ch languageVariant \<longleftrightarrow>
     isWordCharacter ch \<or> ch = 0x24 \<or> (RuneSelf \<le> ch \<and> IsUnicodeIdentifierPart ch)
     \<or> (languageVariant = LanguageVariantJSX \<and> ch = 0x2D)"

definition IsIdentifierPart :: "rune \<Rightarrow> bool" where
  "IsIdentifierPart ch \<longleftrightarrow> IsIdentifierPartEx ch LanguageVariantStandard"

definition isASCIIIdentifierPart :: "rune \<Rightarrow> bool" where
  "isASCIIIdentifierPart b \<longleftrightarrow>
     0x61 \<le> b \<and> b \<le> 0x7A \<or> 0x41 \<le> b \<and> b \<le> 0x5A \<or> 0x30 \<le> b \<and> b \<le> 0x39 \<or> b = 0x5F \<or> b = 0x24"

definition tokenIsIdentifierOrKeyword :: "Kind \<Rightarrow> bool" where
  "tokenIsIdentifierOrKeyword token \<longleftrightarrow> KindIdentifier \<le> token"

lemma identifier_RuneError [simp]:
  "\<not> IsIdentifierPartEx 0xFFFD v" "\<not> IsIdentifierPart 0xFFFD" "\<not> IsIdentifierStart 0xFFFD"
  by (simp_all add: IsIdentifierPart_def IsIdentifierPartEx_def IsIdentifierStart_def
        isWordCharacter_def IsASCIILetter_def IsDigit_def)

function valid_identifier_rest :: "(rune \<Rightarrow> bool) \<Rightarrow> string \<Rightarrow> bool" where
  "valid_identifier_rest isPart s =
     (if s = [] then True
      else isPart (fst (DecodeRune s)) \<and> valid_identifier_rest isPart (drop (snd (DecodeRune s)) s))"
  by pat_completeness auto
termination
  by (relation "measure (\<lambda>(p, s). length s)") (auto simp: DecodeRune_size_pos)

declare valid_identifier_rest.simps [simp del]

definition IsValidIdentifier :: "string \<Rightarrow> bool" where
  "IsValidIdentifier s =
     (if s = [] then False
      else IsIdentifierStart (fst (DecodeRune s))
           \<and> valid_identifier_rest IsIdentifierPart (drop (snd (DecodeRune s)) s))"

definition IsIdentifierText :: "string \<Rightarrow> LanguageVariant \<Rightarrow> bool" where
  "IsIdentifierText name languageVariant =
     (if \<not> IsIdentifierStart (fst (DecodeRune name)) then False
      else valid_identifier_rest (\<lambda>ch. IsIdentifierPartEx ch languageVariant)
             (drop (snd (DecodeRune name)) name))"

section \<open>Diagnostics\<close>

datatype (plugins only: code size) DiagnosticMessage =
    Unterminated_string_literal
  | Unterminated_template_literal
  | Unterminated_regular_expression_literal
  | Unterminated_Unicode_escape_sequence
  | Unexpected_end_of_text
  | Asterisk_Slash_expected
  | Hexadecimal_digit_expected
  | Binary_digit_expected
  | Octal_digit_expected
  | Digit_expected
  | X_can_only_be_used_at_the_start_of_a_file
  | Invalid_character
  | File_appears_to_be_binary
  | Unknown_regular_expression_flag
  | Duplicate_regular_expression_flag
  | The_Unicode_u_flag_and_the_Unicode_Sets_v_flag_cannot_be_set_simultaneously
  | This_regular_expression_flag_is_only_available_when_targeting_0_or_later
  | Unexpected_token_Did_you_mean_or_gt
  | Unexpected_token_Did_you_mean_or_rbrace
  | Octal_escape_sequences_and_backreferences_are_not_allowed_in_a_character_class
  | Octal_escape_sequences_are_not_allowed_Use_the_syntax_0
  | Decimal_escape_sequences_and_backreferences_are_not_allowed_in_a_character_class
  | Escape_sequence_0_is_not_allowed
  | Unicode_escape_sequences_are_only_available_when_the_Unicode_u_flag_or_the_Unicode_Sets_v_flag_is_set
  | This_character_cannot_be_escaped_in_a_regular_expression
  | An_extended_Unicode_escape_value_must_be_between_0x0_and_0x10FFFF_inclusive
  | Numeric_separators_are_not_allowed_here
  | Multiple_consecutive_numeric_separators_are_not_permitted
  | Octal_literals_are_not_allowed_Use_the_syntax_0
  | Decimals_with_leading_zeros_are_not_allowed
  | A_bigint_literal_cannot_use_exponential_notation
  | A_bigint_literal_must_be_an_integer
  | An_identifier_or_keyword_cannot_immediately_follow_a_numeric_literal
  | Merge_conflict_marker_encountered
  | A_character_class_must_not_contain_a_reserved_double_punctuator_Did_you_mean_to_escape_it_with_backslash
  | A_character_class_range_must_not_be_bounded_by_another_character_class
  | Any_Unicode_property_that_would_possibly_match_more_than_a_single_character_is_only_available_when_the_Unicode_Sets_v_flag_is_set
  | Anything_that_would_possibly_match_more_than_a_single_character_is_invalid_inside_a_negated_character_class
  | Did_you_mean_0
  | Duplicate_named_capturing_groups_are_only_available_when_targeting_0_or_later
  | Expected_a_Unicode_property_name
  | Expected_a_Unicode_property_name_or_value
  | Expected_a_Unicode_property_value
  | Expected_a_capturing_group_name
  | Expected_a_class_set_operand
  | Incomplete_quantifier_Digit_expected
  | Named_capturing_groups_are_only_available_when_targeting_ES2018_or_later
  | Named_capturing_groups_with_the_same_name_must_be_mutually_exclusive_to_each_other
  | Numbers_out_of_order_in_quantifier
  | Operators_must_not_be_mixed_within_a_character_class_Wrap_it_in_a_nested_class_instead
  | Range_out_of_order_in_character_class
  | Regular_expression_pattern_modifiers_are_only_available_when_targeting_0_or_later
  | Subpattern_flags_must_be_present_when_there_is_a_minus_sign
  | There_is_no_capturing_group_named_0_in_this_regular_expression
  | There_is_nothing_available_for_repetition
  | This_backreference_refers_to_a_group_that_does_not_exist_There_are_no_capturing_groups_in_this_regular_expression
  | This_backreference_refers_to_a_group_that_does_not_exist_There_are_only_0_capturing_groups_in_this_regular_expression
  | This_regular_expression_flag_cannot_be_toggled_within_a_subpattern
  | Undetermined_character_escape
  | Unexpected_0_Did_you_mean_to_escape_it_with_backslash
  | Unicode_property_value_expressions_are_only_available_when_the_Unicode_u_flag_or_the_Unicode_Sets_v_flag_is_set
  | Unknown_Unicode_property_name
  | Unknown_Unicode_property_name_or_value
  | Unknown_Unicode_property_value
  | X_0_expected
  | X_0_must_be_followed_by_a_Unicode_property_value_expression_enclosed_in_braces
  | X_c_must_be_followed_by_an_ASCII_letter
  | X_k_must_be_followed_by_a_capturing_group_name_enclosed_in_angle_brackets
  | X_q_is_only_available_inside_character_class
  | X_q_must_be_followed_by_string_alternatives_enclosed_in_braces

record Diag =
  d_message :: DiagnosticMessage
  d_start :: int
  d_length :: int
  d_args :: "string list"

section \<open>The scanner record\<close>

datatype CommentDirectiveKind = CommentDirectiveKindExpectError | CommentDirectiveKindIgnore

record CommentDirective =
  cd_pos :: nat
  cd_end :: nat
  cd_kind :: CommentDirectiveKind

record ScannerState =
  s_pos :: nat
  s_fullStartPos :: nat
  s_tokenStart :: nat
  s_token :: Kind
  s_tokenValue :: string
  s_tokenFlags :: TokenFlags
  s_commentDirectives :: "CommentDirective list"
  s_skipJSDocLeadingAsterisks :: int

type_synonym cache = "(string \<times> string) list"

record Scanner = ScannerState +
  s_text :: string
  s_end :: nat
  s_languageVariant :: LanguageVariant
  s_scriptTarget :: int
  s_onError :: bool
  s_errors :: "Diag list"
  s_skipTrivia :: bool
  s_numberCache :: cache
  s_hexNumberCache :: cache
  s_hexDigitCache :: cache
  s_panicked :: bool

text \<open>
  A Go \<open>panic\<close> is recorded in \<open>s_panicked\<close>; what the state holds besides is then meaningless. The
  theorems show which operations leave the flag clear.
\<close>

definition panic :: "Scanner \<Rightarrow> Scanner" where
  "panic s = s\<lparr>s_panicked := True\<rparr>"

definition zeroScannerState :: ScannerState where
  "zeroScannerState =
     \<lparr>s_pos = 0, s_fullStartPos = 0, s_tokenStart = 0, s_token = KindUnknown, s_tokenValue = [],
      s_tokenFlags = TokenFlagsNone, s_commentDirectives = [], s_skipJSDocLeadingAsterisks = 0\<rparr>"

definition defaultScanner :: Scanner where
  "defaultScanner =
     ScannerState.extend zeroScannerState
       (Scanner.fields [] 0 LanguageVariantStandard 0 False [] True [] [] [] False)"

definition NewScanner :: Scanner where
  "NewScanner = defaultScanner"

text \<open>\<open>Reset\<close> keeps the three maps, emptied, so that their storage is reused.\<close>

definition cleared :: "cache \<Rightarrow> cache" where
  "cleared m = []"

definition Reset :: "Scanner \<Rightarrow> Scanner" where
  "Reset s =
     defaultScanner\<lparr>s_numberCache := cleared (s_numberCache s),
       s_hexNumberCache := cleared (s_hexNumberCache s),
       s_hexDigitCache := cleared (s_hexDigitCache s)\<rparr>"

definition TokenText :: "Scanner \<Rightarrow> string" where
  "TokenText s = slc (s_text s) (s_tokenStart s) (s_pos s)"

definition TokenRange :: "Scanner \<Rightarrow> nat \<times> nat" where
  "TokenRange s = (s_tokenStart s, s_pos s)"

definition Mark :: "Scanner \<Rightarrow> ScannerState" where
  "Mark s = ScannerState.truncate s"

definition Rewind :: "Scanner \<Rightarrow> ScannerState \<Rightarrow> Scanner" where
  "Rewind s state = ScannerState.extend state (ScannerState.more s)"

definition ResetPos :: "int \<Rightarrow> Scanner \<Rightarrow> Scanner" where
  "ResetPos p s =
     (if p < 0 then panic s
      else s\<lparr>s_pos := nat p, s_fullStartPos := nat p, s_tokenStart := nat p\<rparr>)"

definition ResetTokenState :: "int \<Rightarrow> Scanner \<Rightarrow> Scanner" where
  "ResetTokenState p s =
     (ResetPos p s)\<lparr>s_token := KindUnknown, s_tokenValue := [], s_tokenFlags := TokenFlagsNone\<rparr>"

definition SetSkipJSDocLeadingAsterisks :: "Scanner \<Rightarrow> bool \<Rightarrow> Scanner" where
  "SetSkipJSDocLeadingAsterisks s skip =
     (if skip then s\<lparr>s_skipJSDocLeadingAsterisks := s_skipJSDocLeadingAsterisks s + 1\<rparr>
      else s\<lparr>s_skipJSDocLeadingAsterisks := s_skipJSDocLeadingAsterisks s + - 1\<rparr>)"

definition SetSkipTrivia :: "Scanner \<Rightarrow> bool \<Rightarrow> Scanner" where
  "SetSkipTrivia s skip = s\<lparr>s_skipTrivia := skip\<rparr>"

definition hasFlag :: "Scanner \<Rightarrow> TokenFlags \<Rightarrow> bool" where
  "hasFlag s f \<longleftrightarrow> s_tokenFlags s AND f \<noteq> 0"

definition addFlag :: "TokenFlags \<Rightarrow> Scanner \<Rightarrow> Scanner" where
  "addFlag f s = s\<lparr>s_tokenFlags := s_tokenFlags s OR f\<rparr>"

definition HasUnicodeEscape :: "Scanner \<Rightarrow> bool" where
  "HasUnicodeEscape s = hasFlag s TokenFlagsUnicodeEscape"

definition HasExtendedUnicodeEscape :: "Scanner \<Rightarrow> bool" where
  "HasExtendedUnicodeEscape s = hasFlag s TokenFlagsExtendedUnicodeEscape"

definition HasPrecedingLineBreak :: "Scanner \<Rightarrow> bool" where
  "HasPrecedingLineBreak s = hasFlag s TokenFlagsPrecedingLineBreak"

definition HasPrecedingJSDocComment :: "Scanner \<Rightarrow> bool" where
  "HasPrecedingJSDocComment s = hasFlag s TokenFlagsPrecedingJSDocComment"

definition HasPrecedingJSDocLeadingAsterisks :: "Scanner \<Rightarrow> bool" where
  "HasPrecedingJSDocLeadingAsterisks s = hasFlag s TokenFlagsPrecedingJSDocLeadingAsterisks"

definition HasPrecedingJSDocWithDeprecatedTag :: "Scanner \<Rightarrow> bool" where
  "HasPrecedingJSDocWithDeprecatedTag s = hasFlag s TokenFlagsPrecedingJSDocWithDeprecated"

definition HasPrecedingJSDocWithSeeOrLink :: "Scanner \<Rightarrow> bool" where
  "HasPrecedingJSDocWithSeeOrLink s = hasFlag s TokenFlagsPrecedingJSDocWithSeeOrLink"

definition SetText :: "string \<Rightarrow> Scanner \<Rightarrow> Scanner" where
  "SetText text s =
     Rewind (s\<lparr>s_text := text, s_end := length text\<rparr>) zeroScannerState"

definition SetOnError :: "bool \<Rightarrow> Scanner \<Rightarrow> Scanner" where
  "SetOnError registered s = s\<lparr>s_onError := registered\<rparr>"

definition SetLanguageVariant :: "LanguageVariant \<Rightarrow> Scanner \<Rightarrow> Scanner" where
  "SetLanguageVariant v s = s\<lparr>s_languageVariant := v\<rparr>"

definition SetScriptTarget :: "int \<Rightarrow> Scanner \<Rightarrow> Scanner" where
  "SetScriptTarget t s = s\<lparr>s_scriptTarget := t\<rparr>"

text \<open>\<open>ScriptTargetNone\<close> is 0 and \<open>ScriptTargetLatest\<close> is 99.\<close>

definition languageVersion :: "Scanner \<Rightarrow> int" where
  "languageVersion s = (if s_scriptTarget s = 0 then 99 else s_scriptTarget s)"

definition errorAtWith ::
    "DiagnosticMessage \<Rightarrow> int \<Rightarrow> int \<Rightarrow> string list \<Rightarrow> Scanner \<Rightarrow> Scanner" where
  "errorAtWith m p len args s =
     (if s_onError s
      then s\<lparr>s_errors := s_errors s @ [\<lparr>d_message = m, d_start = p, d_length = len, d_args = args\<rparr>]\<rparr>
      else s)"

definition errorAt :: "DiagnosticMessage \<Rightarrow> int \<Rightarrow> int \<Rightarrow> Scanner \<Rightarrow> Scanner" where
  "errorAt m p len s = errorAtWith m p len [] s"

definition s_error :: "DiagnosticMessage \<Rightarrow> Scanner \<Rightarrow> Scanner" where
  "s_error m s = errorAt m (int (s_pos s)) 0 s"

section \<open>Reading the text\<close>

definition charAt :: "Scanner \<Rightarrow> nat \<Rightarrow> rune" where
  "charAt s offset =
     (if s_pos s + offset < s_end s then rune_of (s_text s ! (s_pos s + offset)) else -1)"

definition s_char :: "Scanner \<Rightarrow> rune" where
  "s_char s = (if s_pos s < s_end s then rune_of (s_text s ! s_pos s) else -1)"

definition charAndSize :: "Scanner \<Rightarrow> rune \<times> nat" where
  "charAndSize s =
     (if s_pos s < s_end s \<and> rune_of (s_text s ! s_pos s) < RuneSelf
      then (rune_of (s_text s ! s_pos s), 1)
      else DecodeRune (drop (s_pos s) (s_text s)))"

definition advance :: "nat \<Rightarrow> Scanner \<Rightarrow> Scanner" where
  "advance n s = s\<lparr>s_pos := s_pos s + n\<rparr>"

definition scanASCIIWhile :: "(rune \<Rightarrow> bool) \<Rightarrow> Scanner \<Rightarrow> Scanner" where
  "scanASCIIWhile pred s =
     advance (run_length (\<lambda>b. rune_of b < RuneSelf \<and> pred (rune_of b))
               (slc (s_text s) (s_pos s) (s_end s))) s"

text \<open>
  The loops over runes: \<open>for ch, size := s.charAndSize(); size > 0 && pred(ch); \<dots> { s.pos += size }\<close>.
  Where the source omits \<open>size > 0\<close>, its \<open>pred\<close> is false on \<open>utf8.RuneError\<close>, which is what
  \<open>charAndSize\<close> returns at the end of the text.
\<close>

function runes_end :: "(rune \<Rightarrow> bool) \<Rightarrow> string \<Rightarrow> nat" where
  "runes_end pred t =
     (let d = DecodeRune t in
      if 0 < snd d \<and> pred (fst d) then snd d + runes_end pred (drop (snd d) t) else 0)"
  by pat_completeness auto
termination
  by (relation "measure (\<lambda>(p, t). length t)")
     (auto intro!: diff_less intro: less_le_trans [OF _ DecodeRune_size_le])

declare runes_end.simps [simp del]

definition scanRunesWhile :: "(rune \<Rightarrow> bool) \<Rightarrow> Scanner \<Rightarrow> Scanner" where
  "scanRunesWhile pred s = advance (runes_end pred (drop (s_pos s) (s_text s))) s"

section \<open>Frames: what the sub-scanners leave alone\<close>

text \<open>
  A scanner is well formed when \<open>end\<close> is the length of the text and the position is in it.
  \<open>scan_moves s s'\<close> says that \<open>s'\<close> is reached from \<open>s\<close> by moving forward in the same text, without a
  panic and without touching the token start, the options and the trivia mode; a well-formed
  scanner stays so.
\<close>

definition scan_wf :: "Scanner \<Rightarrow> bool" where
  "scan_wf s \<longleftrightarrow> s_end s = length (s_text s) \<and> s_pos s \<le> s_end s"

definition same_input :: "Scanner \<Rightarrow> Scanner \<Rightarrow> bool" where
  "same_input s s' \<longleftrightarrow>
     s_text s' = s_text s \<and> s_end s' = s_end s \<and> s_fullStartPos s' = s_fullStartPos s
     \<and> s_tokenStart s' = s_tokenStart s \<and> s_skipTrivia s' = s_skipTrivia s
     \<and> s_languageVariant s' = s_languageVariant s \<and> s_onError s' = s_onError s
     \<and> s_skipJSDocLeadingAsterisks s' = s_skipJSDocLeadingAsterisks s
     \<and> s_scriptTarget s' = s_scriptTarget s"

definition scan_moves :: "Scanner \<Rightarrow> Scanner \<Rightarrow> bool" where
  "scan_moves s s' \<longleftrightarrow>
     same_input s s' \<and> s_panicked s' = s_panicked s \<and> s_pos s \<le> s_pos s'
     \<and> (scan_wf s \<longrightarrow> s_pos s' \<le> s_end s)"

named_theorems scan_prims \<open>unfolding of the primitive updates\<close>

lemma errorAtWith_simps [simp]:
  "s_text (errorAtWith m p l a s) = s_text s" "s_end (errorAtWith m p l a s) = s_end s"
  "s_pos (errorAtWith m p l a s) = s_pos s" "s_fullStartPos (errorAtWith m p l a s) = s_fullStartPos s"
  "s_tokenStart (errorAtWith m p l a s) = s_tokenStart s" "s_token (errorAtWith m p l a s) = s_token s"
  "s_tokenValue (errorAtWith m p l a s) = s_tokenValue s"
  "s_tokenFlags (errorAtWith m p l a s) = s_tokenFlags s"
  "s_skipTrivia (errorAtWith m p l a s) = s_skipTrivia s"
  "s_languageVariant (errorAtWith m p l a s) = s_languageVariant s"
  "s_onError (errorAtWith m p l a s) = s_onError s"
  "s_skipJSDocLeadingAsterisks (errorAtWith m p l a s) = s_skipJSDocLeadingAsterisks s"
  "s_scriptTarget (errorAtWith m p l a s) = s_scriptTarget s"
  "s_panicked (errorAtWith m p l a s) = s_panicked s"
  "s_numberCache (errorAtWith m p l a s) = s_numberCache s"
  "s_hexNumberCache (errorAtWith m p l a s) = s_hexNumberCache s"
  "s_hexDigitCache (errorAtWith m p l a s) = s_hexDigitCache s"
  "s_commentDirectives (errorAtWith m p l a s) = s_commentDirectives s"
  by (simp_all add: errorAtWith_def)

declare errorAt_def [simp] s_error_def [simp] addFlag_def [simp] advance_def [simp]

lemma same_input_refl [simp]: "same_input s s"
  by (simp add: same_input_def)

lemma same_input_trans [trans]: "same_input s t \<Longrightarrow> same_input t u \<Longrightarrow> same_input s u"
  by (simp add: same_input_def)

lemma scan_moves_refl [simp]: "scan_moves s s"
  by (simp add: scan_moves_def scan_wf_def)

lemma scan_moves_trans [trans]: "scan_moves s t \<Longrightarrow> scan_moves t u \<Longrightarrow> scan_moves s u"
  unfolding scan_moves_def scan_wf_def same_input_def by simp

lemma scan_moves_wf: "scan_moves s t \<Longrightarrow> scan_wf s \<Longrightarrow> scan_wf t"
  by (simp add: scan_moves_def scan_wf_def same_input_def)

lemma scan_wf_simps [simp]:
  "scan_wf (s\<lparr>s_tokenFlags := f\<rparr>) = scan_wf s" "scan_wf (errorAtWith m p l a s) = scan_wf s"
  "scan_wf (s\<lparr>s_tokenValue := v\<rparr>) = scan_wf s" "scan_wf (s\<lparr>s_token := k\<rparr>) = scan_wf s"
  "scan_wf (s\<lparr>s_hexDigitCache := h\<rparr>) = scan_wf s" "scan_wf (s\<lparr>s_numberCache := h\<rparr>) = scan_wf s"
  "scan_wf (s\<lparr>s_hexNumberCache := h\<rparr>) = scan_wf s"
  "scan_wf (s\<lparr>s_commentDirectives := cs\<rparr>) = scan_wf s"
  "scan_wf (s\<lparr>s_tokenStart := n\<rparr>) = scan_wf s" "scan_wf (s\<lparr>s_fullStartPos := n\<rparr>) = scan_wf s"
  by (simp_all add: scan_wf_def)

lemma scan_wf_pos [simp]: "scan_wf s \<Longrightarrow> scan_wf (s\<lparr>s_pos := q\<rparr>) = (q \<le> s_end s)"
  by (simp add: scan_wf_def)

lemma scan_moves_simps [simp]:
  "scan_moves s (t\<lparr>s_tokenFlags := f\<rparr>) = scan_moves s t"
  "scan_moves s (errorAtWith m p l a t) = scan_moves s t"
  "scan_moves s (t\<lparr>s_tokenValue := v\<rparr>) = scan_moves s t"
  "scan_moves s (t\<lparr>s_token := k\<rparr>) = scan_moves s t"
  "scan_moves s (t\<lparr>s_hexDigitCache := h\<rparr>) = scan_moves s t"
  "scan_moves s (t\<lparr>s_numberCache := h\<rparr>) = scan_moves s t"
  "scan_moves s (t\<lparr>s_hexNumberCache := h\<rparr>) = scan_moves s t"
  "scan_moves s (t\<lparr>s_commentDirectives := cs\<rparr>) = scan_moves s t"
  by (simp_all add: scan_moves_def same_input_def)

lemma same_input_simps [simp]:
  "same_input s (t\<lparr>s_tokenFlags := f\<rparr>) = same_input s t"
  "same_input s (errorAtWith m p l a t) = same_input s t"
  "same_input s (t\<lparr>s_tokenValue := v\<rparr>) = same_input s t"
  "same_input s (t\<lparr>s_token := k\<rparr>) = same_input s t"
  "same_input s (t\<lparr>s_hexDigitCache := h\<rparr>) = same_input s t"
  "same_input s (t\<lparr>s_numberCache := h\<rparr>) = same_input s t"
  "same_input s (t\<lparr>s_hexNumberCache := h\<rparr>) = same_input s t"
  "same_input s (t\<lparr>s_commentDirectives := cs\<rparr>) = same_input s t"
  "same_input s (t\<lparr>s_pos := q\<rparr>) = same_input s t"
  by (simp_all add: same_input_def)

lemma same_input_from_simps [simp]:
  "same_input (s\<lparr>s_pos := q\<rparr>) t = same_input s t"
  "same_input (s\<lparr>s_tokenFlags := f\<rparr>) t = same_input s t"
  "same_input (s\<lparr>s_tokenValue := v\<rparr>) t = same_input s t"
  "same_input (s\<lparr>s_token := k\<rparr>) t = same_input s t"
  "same_input (errorAtWith m p l a s) t = same_input s t"
  by (simp_all add: same_input_def)

lemma scan_moves_from_simps [simp]:
  "scan_moves (s\<lparr>s_tokenFlags := f\<rparr>) t = scan_moves s t"
  "scan_moves (s\<lparr>s_tokenValue := v\<rparr>) t = scan_moves s t"
  "scan_moves (s\<lparr>s_token := k\<rparr>) t = scan_moves s t"
  "scan_moves (errorAtWith m p l a s) t = scan_moves s t"
  by (simp_all add: scan_moves_def)

lemma scan_moves_pos [simp]:
  "scan_moves s (t\<lparr>s_pos := q\<rparr>) \<longleftrightarrow>
     same_input s t \<and> s_panicked t = s_panicked s \<and> s_pos s \<le> q \<and> (scan_wf s \<longrightarrow> q \<le> s_end s)"
  by (simp add: scan_moves_def same_input_def)

text \<open>The way every frame lemma about a loop ends: one step, then the induction hypothesis.\<close>

lemma scan_moves_from: "scan_moves t u \<Longrightarrow> scan_moves s t \<Longrightarrow> scan_moves s u"
  by (rule scan_moves_trans)

lemma scan_moves_same [simp]: "scan_moves s t \<Longrightarrow> same_input s t"
  by (simp add: scan_moves_def)

lemma scan_moves_end: "scan_moves s t \<Longrightarrow> s_end t = s_end s"
  by (simp add: scan_moves_def same_input_def)

lemma scan_moves_text: "scan_moves s t \<Longrightarrow> s_text t = s_text s"
  by (simp add: scan_moves_def same_input_def)

lemma scan_moves_le: "scan_moves s t \<Longrightarrow> s_pos s \<le> s_pos t"
  by (simp add: scan_moves_def)

lemma scan_moves_bound: "scan_moves s t \<Longrightarrow> scan_wf s \<Longrightarrow> s_pos t \<le> s_end s"
  by (simp add: scan_moves_def)

lemma scan_moves_panicked: "scan_moves s t \<Longrightarrow> s_panicked t = s_panicked s"
  by (simp add: scan_moves_def)


lemma s_char_nonneg_iff: "0 \<le> s_char s \<longleftrightarrow> s_pos s < s_end s"
  by (simp add: s_char_def)

lemma s_char_cases: "s_char s = -1 \<or> 0 \<le> s_char s"
  by (simp add: s_char_def)

lemma s_char_eq_imp [dest]: "s_char s = c \<Longrightarrow> 0 \<le> c \<Longrightarrow> s_pos s < s_end s"
  using s_char_nonneg_iff by blast

lemma charAt_nonneg: "0 \<le> charAt s n \<longleftrightarrow> s_pos s + n < s_end s"
  by (simp add: charAt_def)

lemma charAt_0: "charAt s 0 = s_char s"
  by (simp add: charAt_def s_char_def)

lemma charAndSize_decode:
  assumes "scan_wf s"
  shows "charAndSize s = DecodeRune (drop (s_pos s) (s_text s))"
proof (cases "s_pos s < s_end s")
  case True
  then have "drop (s_pos s) (s_text s) = s_text s ! s_pos s # drop (Suc (s_pos s)) (s_text s)"
    using assms by (simp add: scan_wf_def Cons_nth_drop_Suc)
  then show ?thesis by (simp add: charAndSize_def)
qed (simp add: charAndSize_def)

lemma charAndSize_le:
  assumes "scan_wf s"
  shows "s_pos s + snd (charAndSize s) \<le> s_end s"
proof -
  have "snd (charAndSize s) \<le> s_end s - s_pos s"
    using DecodeRune_size_le [of "drop (s_pos s) (s_text s)"] assms
    by (simp add: charAndSize_decode scan_wf_def)
  moreover have "s_pos s \<le> s_end s" using assms by (simp add: scan_wf_def)
  ultimately show ?thesis by arith
qed

lemma charAndSize_0: "scan_wf s \<Longrightarrow> snd (charAndSize s) = 0 \<longleftrightarrow> s_pos s = s_end s"
  by (auto simp: charAndSize_decode scan_wf_def)

lemma charAndSize_at_end: "scan_wf s \<Longrightarrow> s_pos s = s_end s \<Longrightarrow> charAndSize s = (RuneError, 0)"
  by (simp add: charAndSize_decode scan_wf_def)

lemma charAndSize_char:
  assumes "scan_wf s" "fst (charAndSize s) < 0x80"
  shows "s_char s = fst (charAndSize s)" "snd (charAndSize s) = 1" "s_pos s < s_end s"
proof -
  obtain c r where "drop (s_pos s) (s_text s) = c # r" "of_char c = fst (charAndSize s)"
     "snd (charAndSize s) = 1"
    using DecodeRune_is_ascii assms by (metis charAndSize_decode)
  moreover from this have "s_pos s < length (s_text s)" "s_text s ! s_pos s = c"
    by (metis drop_all leI list.distinct(1), metis hd_drop_conv_nth drop_all leI list.distinct(1) list.sel(1))
  ultimately show "s_char s = fst (charAndSize s)" "snd (charAndSize s) = 1" "s_pos s < s_end s"
    using assms(1) by (auto simp: s_char_def scan_wf_def)
qed

lemma runes_end_le: "runes_end p t \<le> length t"
proof (induction p t rule: runes_end.induct)
  case (1 p t)
  show ?case
  proof (cases "0 < snd (DecodeRune t) \<and> p (fst (DecodeRune t))")
    case True
    then have "runes_end p (drop (snd (DecodeRune t)) t) \<le> length t - snd (DecodeRune t)"
      using 1 by (simp add: Let_def)
    moreover have "runes_end p t = snd (DecodeRune t) + runes_end p (drop (snd (DecodeRune t)) t)"
      using True by (subst runes_end.simps) (simp add: Let_def)
    ultimately show ?thesis
      using DecodeRune_size_le [of t] by arith
  next
    case False
    then show ?thesis by (subst runes_end.simps) (auto simp: Let_def)
  qed
qed

lemma runes_end_stop:
  "runes_end p t < length t \<Longrightarrow> \<not> p (fst (DecodeRune (drop (runes_end p t) t)))"
proof (induction p t rule: runes_end.induct)
  case (1 p t)
  show ?case
  proof (cases "0 < snd (DecodeRune t) \<and> p (fst (DecodeRune t))")
    case True
    then show ?thesis
      using 1 runes_end.simps [of p t] by (simp add: Let_def add.commute)
  next
    case False
    then have "runes_end p t = 0" by (subst runes_end.simps) (auto simp: Let_def)
    with False 1 show ?thesis by (auto simp: DecodeRune_size_pos)
  qed
qed

lemma scan_moves_scanRunesWhile [simp]: "scan_moves s (scanRunesWhile p s)"
proof -
  have "scan_wf s \<Longrightarrow> s_pos s + runes_end p (drop (s_pos s) (s_text s)) \<le> s_end s"
  proof -
    assume "scan_wf s"
    then have "s_pos s \<le> s_end s" "s_end s = length (s_text s)" by (simp_all add: scan_wf_def)
    moreover have "runes_end p (drop (s_pos s) (s_text s)) \<le> length (s_text s) - s_pos s"
      using runes_end_le [of p "drop (s_pos s) (s_text s)"] by simp
    ultimately show ?thesis by arith
  qed
  then show ?thesis by (simp add: scanRunesWhile_def)
qed

lemma scan_moves_scanASCIIWhile [simp]: "scan_moves s (scanASCIIWhile p s)"
proof -
  let ?q = "\<lambda>b. rune_of b < RuneSelf \<and> p (rune_of b)"
  have "scan_wf s \<Longrightarrow> s_pos s + run_length ?q (slc (s_text s) (s_pos s) (s_end s)) \<le> s_end s"
  proof -
    assume "scan_wf s"
    then have "s_pos s \<le> s_end s" "s_end s = length (s_text s)" by (simp_all add: scan_wf_def)
    moreover have "run_length ?q (slc (s_text s) (s_pos s) (s_end s)) \<le> s_end s - s_pos s"
      using run_length_le [of ?q "slc (s_text s) (s_pos s) (s_end s)"] by simp
    ultimately show ?thesis by arith
  qed
  then show ?thesis by (simp add: scanASCIIWhile_def)
qed

lemma scan_moves_step:
  "scan_moves s t \<Longrightarrow> s_pos t < s_end t \<Longrightarrow> scan_moves s (advance 1 t)"
  by (simp add: scan_moves_def scan_wf_def same_input_def)

lemma scan_moves_char:
  "scan_moves s t \<Longrightarrow> s_char t = c \<Longrightarrow> 0 \<le> c \<Longrightarrow> scan_moves s (advance 1 t)"
  using scan_moves_step s_char_eq_imp by blast

lemma s_char_pos: "0 \<le> s_char s \<Longrightarrow> s_pos s < s_end s"
  by (simp add: s_char_nonneg_iff)

lemma IsHexDigit_nonneg: "IsHexDigit c \<Longrightarrow> 0 \<le> c"
  by (auto simp: IsHexDigit_def)

lemma IsDigit_nonneg: "IsDigit c \<Longrightarrow> 0 \<le> c"
  by (auto simp: IsDigit_def)

lemma IsOctalDigit_nonneg: "IsOctalDigit c \<Longrightarrow> 0 \<le> c"
  by (auto simp: IsOctalDigit_def)

lemmas char_pos = s_char_pos [OF IsHexDigit_nonneg] s_char_pos [OF IsDigit_nonneg]
  s_char_pos [OF IsOctalDigit_nonneg]

end
