(* ===== verification/BigInt.thy ===== *)
theory BigInt
  imports GoStrings
begin

text \<open>
  \<^verbatim>\<open>jsnum/pseudobigint.go\<close>: JavaScript bigints kept as a sign and a decimal string, their
  comparison, and the parsing of bigint literals. \<open>big.Int\<close>'s \<open>SetString(s, 0)\<close> and
  \<open>String\<close> are modelled on the literals with a base prefix that reach them.
\<close>

section \<open>Digits\<close>

definition digit_val :: "char \<Rightarrow> nat option" where
  "digit_val c =
     (let r = rune_of c in
      if 0x30 \<le> r \<and> r \<le> 0x39 then Some (nat (r - 0x30))
      else if 0x61 \<le> r \<and> r \<le> 0x66 then Some (nat (r - 0x57))
      else if 0x41 \<le> r \<and> r \<le> 0x46 then Some (nat (r - 0x37))
      else None)"

definition is_digit_of :: "nat \<Rightarrow> char \<Rightarrow> bool" where
  "is_digit_of base c \<longleftrightarrow> (case digit_val c of Some d \<Rightarrow> d < base | None \<Rightarrow> False)"

definition val_of :: "char \<Rightarrow> nat" where
  "val_of c = (case digit_val c of Some d \<Rightarrow> d | None \<Rightarrow> 0)"

definition value_in_base :: "nat \<Rightarrow> string \<Rightarrow> nat" where
  "value_in_base base s = foldl (\<lambda>n c. base * n + val_of c) 0 s"

definition dec_digit :: "nat \<Rightarrow> char" where
  "dec_digit d = byte_of (0x30 + int d)"

fun dec_of_nat :: "nat \<Rightarrow> string" where
  "dec_of_nat n = (if n < 10 then [dec_digit n] else dec_of_nat (n div 10) @ [dec_digit (n mod 10)])"

declare dec_of_nat.simps [simp del]

text \<open>
  The digits after the prefix, as Go's integer literals allow them for base 0: at least one digit,
  and an underscore only between the prefix or a digit and a digit.
\<close>

fun go_digits :: "nat \<Rightarrow> bool \<Rightarrow> string \<Rightarrow> bool" where
  "go_digits base sepOk [] \<longleftrightarrow> sepOk"
| "go_digits base sepOk (c # s) \<longleftrightarrow>
     (if c = CHR ''_'' then sepOk \<and> s \<noteq> [] \<and> go_digits base False s
      else is_digit_of base c \<and> go_digits base True s)"

definition prefix_base :: "char \<Rightarrow> nat option" where
  "prefix_base c =
     (if c = CHR ''b'' \<or> c = CHR ''B'' then Some 2
      else if c = CHR ''o'' \<or> c = CHR ''O'' then Some 8
      else if c = CHR ''x'' \<or> c = CHR ''X'' then Some 16
      else None)"

definition bigint_SetString0 :: "string \<Rightarrow> nat option" where
  "bigint_SetString0 s =
     (case s of
        z # p # ds \<Rightarrow>
          (case prefix_base p of
             Some base \<Rightarrow>
               if z = CHR ''0'' \<and> ds \<noteq> [] \<and> go_digits base True ds
               then Some (value_in_base base (filter (\<lambda>c. c \<noteq> CHR ''_'') ds)) else None
           | None \<Rightarrow> None)
      | _ \<Rightarrow> None)"

section \<open>PseudoBigInt\<close>

record PseudoBigInt =
  Negative :: bool
  Base10Value :: string

definition trimZeros :: "string \<Rightarrow> string" where
  "trimZeros s = dropWhile (\<lambda>c. c = CHR ''0'') s"

definition NewPseudoBigInt :: "string \<Rightarrow> bool \<Rightarrow> PseudoBigInt" where
  "NewPseudoBigInt v negative =
     (let v = trimZeros v in \<lparr>Negative = negative \<and> length v \<noteq> 0, Base10Value = v\<rparr>)"

definition PseudoBigInt_String :: "PseudoBigInt \<Rightarrow> string" where
  "PseudoBigInt_String v =
     (if length (Base10Value v) = 0 then ''0''
      else if Negative v then CHR ''-'' # Base10Value v
      else Base10Value v)"

definition Sign :: "PseudoBigInt \<Rightarrow> int" where
  "Sign v = (if length (Base10Value v) = 0 then 0 else if Negative v then -1 else 1)"

definition PseudoBigInt_Compare :: "PseudoBigInt \<Rightarrow> PseudoBigInt \<Rightarrow> int" where
  "PseudoBigInt_Compare v other =
     (let c = cmpCompare (Sign v) (Sign other) in
      if c \<noteq> 0 then c
      else
        let c1 = cmpCompare (int (length (Base10Value v))) (int (length (Base10Value other)));
            c2 = (if c1 = 0 then strCompare (Base10Value v) (Base10Value other) else c1)
        in if Negative v then - c2 else c2)"

text \<open>\<open>None\<close> is the panic on a literal that \<open>big.Int\<close> does not parse.\<close>

definition ParsePseudoBigInt :: "string \<Rightarrow> string option" where
  "ParsePseudoBigInt stringValue0 =
     (let stringValue = TrimSuffix stringValue0 ''n'';
          b1 = (if 1 < length stringValue then Some (stringValue ! 1) else None)
      in if b1 \<noteq> None \<and> prefix_base (the b1) \<noteq> None
         then map_option dec_of_nat (bigint_SetString0 stringValue)
         else
           (let t = trimZeros stringValue in Some (if t = [] then ''0'' else t)))"

definition ParseValidBigInt :: "string \<Rightarrow> PseudoBigInt option" where
  "ParseValidBigInt text =
     (let negative = HasPrefix text ''-''
      in map_option (\<lambda>v. NewPseudoBigInt v negative) (ParsePseudoBigInt (TrimPrefix text ''-'')))"

section \<open>The integer a PseudoBigInt stands for\<close>

abbreviation decimal :: "string \<Rightarrow> bool" where
  "decimal s \<equiv> list_all (is_digit_of 10) s"

definition bigint_value :: "PseudoBigInt \<Rightarrow> int" where
  "bigint_value v =
     (if Negative v then - int (value_in_base 10 (Base10Value v))
      else int (value_in_base 10 (Base10Value v)))"

definition bigint_wf :: "PseudoBigInt \<Rightarrow> bool" where
  "bigint_wf v \<longleftrightarrow>
     decimal (Base10Value v) \<and> (Base10Value v \<noteq> [] \<longrightarrow> hd (Base10Value v) \<noteq> CHR ''0'')
     \<and> (Negative v \<longrightarrow> Base10Value v \<noteq> [])"

section \<open>Decimal strings and their values\<close>

lemma value_foldl: "foldl (\<lambda>n c. b * n + val_of c) a s = a * b ^ length s + value_in_base b s"
  unfolding value_in_base_def
proof (induction s arbitrary: a)
  case (Cons c s)
  show ?case
    using Cons.IH [of "b * a + val_of c"] Cons.IH [of "val_of c"]
    by (simp add: algebra_simps)
qed simp

lemma value_Nil [simp]: "value_in_base b [] = 0"
  by (simp add: value_in_base_def)

lemma value_Cons: "value_in_base b (c # s) = val_of c * b ^ length s + value_in_base b s"
  using value_foldl [of b "val_of c" s] by (simp add: value_in_base_def)

lemma value_append: "value_in_base b (s @ t) = value_in_base b s * b ^ length t + value_in_base b t"
  by (induction s) (simp_all add: value_Cons algebra_simps power_add)

lemma digit10_iff: "is_digit_of 10 c \<longleftrightarrow> 0x30 \<le> (of_char c :: int) \<and> (of_char c :: int) \<le> 0x39"
  by (auto simp: is_digit_of_def digit_val_def Let_def)

lemma val_digit10: "is_digit_of 10 c \<Longrightarrow> int (val_of c) = of_char c - 0x30"
  by (auto simp: digit10_iff val_of_def digit_val_def Let_def)

lemma val_of_lt: "is_digit_of b c \<Longrightarrow> val_of c < b"
  by (auto simp: is_digit_of_def val_of_def split: option.splits)

lemma dec_digit_props [simp]:
  assumes "d < 10"
  shows "is_digit_of 10 (dec_digit d)" "val_of (dec_digit d) = d"
  using assms by (simp_all add: digit10_iff dec_digit_def val_of_def digit_val_def)

lemma digit10_zero: "is_digit_of 10 c \<Longrightarrow> val_of c = 0 \<longleftrightarrow> c = CHR ''0''"
  using val_digit10 [of c] byte_of_eq_iff [of c "0x30"] byte_of_eq_iff [of "CHR ''0''" "0x30"] by auto

lemma trimZeros_value: "value_in_base 10 (trimZeros s) = value_in_base 10 s"
  by (induction s) (auto simp: trimZeros_def value_Cons val_of_def digit_val_def)

lemma trimZeros_hd: "trimZeros s \<noteq> [] \<Longrightarrow> hd (trimZeros s) \<noteq> CHR ''0''"
  unfolding trimZeros_def by (metis (mono_tags, lifting) hd_dropWhile)

lemma trimZeros_decimal: "decimal s \<Longrightarrow> decimal (trimZeros s)"
  unfolding trimZeros_def by (metis list_all_append takeWhile_dropWhile_id)

lemma dec_of_nat_value [simp]: "value_in_base 10 (dec_of_nat n) = n"
proof (induction n rule: dec_of_nat.induct)
  case (1 n)
  then show ?case by (subst dec_of_nat.simps) (auto simp: value_append value_Cons)
qed

lemma dec_of_nat_decimal: "decimal (dec_of_nat n)"
proof (induction n rule: dec_of_nat.induct)
  case (1 n)
  then show ?case by (subst dec_of_nat.simps) auto
qed

lemma dec_of_nat_nonempty [simp]: "dec_of_nat n \<noteq> []"
  by (subst dec_of_nat.simps) simp

lemma value_lt_power: "decimal s \<Longrightarrow> value_in_base 10 s < 10 ^ length s"
proof (induction s)
  case (Cons c s)
  then have "val_of c \<le> 9" using val_of_lt [of 10 c] by simp
  then have "val_of c * 10 ^ length s \<le> 9 * 10 ^ length s" by (rule mult_le_mono1)
  moreover have "value_in_base 10 s < 10 ^ length s" using Cons by simp
  ultimately have "val_of c * 10 ^ length s + value_in_base 10 s < 10 * 10 ^ length s" by linarith
  then show ?case by (simp add: value_Cons)
qed simp

lemma value_ge_power:
  assumes "decimal (c # s)" "c \<noteq> CHR ''0''"
  shows "10 ^ length s \<le> value_in_base 10 (c # s)"
proof -
  have "1 \<le> val_of c" using digit10_zero [of c] assms by simp
  then have "1 * 10 ^ length s \<le> val_of c * 10 ^ length s" by (rule mult_le_mono1)
  then show ?thesis by (simp add: value_Cons trans_le_add1)
qed

lemma value_length_less:
  assumes "decimal a" "decimal b" "b \<noteq> []" "hd b \<noteq> CHR ''0''" "length a < length b"
  shows "value_in_base 10 a < value_in_base 10 b"
proof -
  obtain c t where b: "b = c # t" using assms(3) by (cases b) auto
  have "value_in_base 10 a < 10 ^ length a" using assms(1) by (rule value_lt_power)
  also have "(10::nat) ^ length a \<le> 10 ^ length t" using assms(5) b by (simp add: power_increasing)
  also have "\<dots> \<le> value_in_base 10 b" using assms value_ge_power [of c t] b by simp
  finally show ?thesis .
qed

lemma strCompare_value:
  assumes "decimal a" "decimal b" "length a = length b"
  shows "strCompare a b = cmpCompare (int (value_in_base 10 a)) (int (value_in_base 10 b))"
  using assms
proof (induction a b rule: strCompare.induct)
  case (4 x xs y ys)
  have vx: "int (val_of x) = of_char x - 0x30" and vy: "int (val_of y) = of_char y - 0x30"
    using 4 val_digit10 by auto
  have bx: "value_in_base 10 xs < 10 ^ length xs" using 4 value_lt_power [of xs] by simp
  have by': "value_in_base 10 ys < 10 ^ length xs" using 4 value_lt_power [of ys] by simp
  have less: "val_of u * 10 ^ n + p < val_of v * 10 ^ n + q"
    if "val_of u < val_of v" "p < 10 ^ n" for u v n and p q :: nat
  proof -
    have "val_of u * 10 ^ n + p < (val_of u + 1) * 10 ^ n" using that by simp
    also have "\<dots> \<le> val_of v * 10 ^ n" using that by (intro mult_le_mono1) simp
    finally show ?thesis by simp
  qed
  consider "(of_char x::int) < of_char y" | "(of_char y::int) < of_char x" | "(of_char x::int) = of_char y"
    by linarith
  then show ?case
  proof cases
    case 1
    then have "val_of x < val_of y" using vx vy by linarith
    then have "value_in_base 10 (x # xs) < value_in_base 10 (y # ys)"
      using less [of x y _ "length xs"] bx 4 by (simp add: value_Cons)
    then show ?thesis using 1 by (simp add: cmpCompare_def)
  next
    case 2
    then have "val_of y < val_of x" using vx vy by linarith
    then have "value_in_base 10 (y # ys) < value_in_base 10 (x # xs)"
      using less [of y x _ "length xs"] by' 4 by (simp add: value_Cons)
    then show ?thesis using 2 by (simp add: cmpCompare_def)
  next
    case 3
    then show ?thesis using 4 by (simp add: value_Cons cmpCompare_def)
  qed
qed (simp_all add: cmpCompare_def)

lemma value_zero_iff: "bigint_wf v \<Longrightarrow> value_in_base 10 (Base10Value v) = 0 \<longleftrightarrow> Base10Value v = []"
  by (cases "Base10Value v") (use value_ge_power in \<open>fastforce simp: bigint_wf_def\<close>)+

lemma Sign_value: "bigint_wf v \<Longrightarrow> Sign v = sgn (bigint_value v)"
  using value_zero_iff [of v] by (auto simp: Sign_def bigint_value_def)

lemma cmpCompare_sgn: "cmpCompare a b = sgn (a - b)"
  by (simp add: cmpCompare_def sgn_if)

lemma magnitude_compare:
  assumes "bigint_wf a" "bigint_wf b"
  shows "(let c1 = cmpCompare (int (length (Base10Value a))) (int (length (Base10Value b)))
          in if c1 = 0 then strCompare (Base10Value a) (Base10Value b) else c1)
         = cmpCompare (int (value_in_base 10 (Base10Value a))) (int (value_in_base 10 (Base10Value b)))"
proof -
  let ?a = "Base10Value a" and ?b = "Base10Value b"
  have da: "decimal ?a" and db: "decimal ?b" using assms by (auto simp: bigint_wf_def)
  consider "length ?a < length ?b" | "length ?b < length ?a" | "length ?a = length ?b" by linarith
  then show ?thesis
  proof cases
    case 1
    then have "value_in_base 10 ?a < value_in_base 10 ?b"
      using value_length_less [OF da db] assms by (cases ?b) (simp_all add: bigint_wf_def)
    then show ?thesis using 1 by (simp add: cmpCompare_def)
  next
    case 2
    then have "value_in_base 10 ?b < value_in_base 10 ?a"
      using value_length_less [OF db da] assms by (cases ?a) (simp_all add: bigint_wf_def)
    then show ?thesis using 2 by (simp add: cmpCompare_def)
  next
    case 3
    then show ?thesis using strCompare_value [OF da db] by (simp add: cmpCompare_def)
  qed
qed

lemma Compare_value:
  assumes "bigint_wf a" "bigint_wf b"
  shows "PseudoBigInt_Compare a b = sgn (bigint_value a - bigint_value b)"
proof (cases "Sign a = Sign b")
  case False
  have "cmpCompare (Sign a) (Sign b) \<noteq> 0"
    using False by (simp add: cmpCompare_def)
  then have "PseudoBigInt_Compare a b = sgn (sgn (bigint_value a) - sgn (bigint_value b))"
    using assms by (simp add: PseudoBigInt_Compare_def Let_def cmpCompare_sgn Sign_value)
  moreover have "sgn (bigint_value a) \<noteq> sgn (bigint_value b)" using False assms by (simp add: Sign_value)
  ultimately show ?thesis by (auto simp: sgn_if split: if_splits)
next
  case True
  then have neg: "Negative a = Negative b \<or> (Base10Value a = [] \<and> Base10Value b = [])"
    by (auto simp: Sign_def split: if_splits)
  have eq: "PseudoBigInt_Compare a b =
     (let c = cmpCompare (int (value_in_base 10 (Base10Value a))) (int (value_in_base 10 (Base10Value b)))
      in if Negative a then - c else c)"
    using True magnitude_compare [OF assms]
    by (simp add: PseudoBigInt_Compare_def cmpCompare_def [of "Sign b" "Sign b"] Let_def)
  show ?thesis
  proof (cases "Base10Value a = [] \<and> Base10Value b = []")
    case True
    then show ?thesis unfolding eq by (simp add: cmpCompare_def bigint_value_def)
  next
    case False
    then have "Negative a = Negative b" using neg by blast
    then show ?thesis
      unfolding eq by (auto simp: cmpCompare_def bigint_value_def sgn_if)
  qed
qed

lemma NewPseudoBigInt_wf: "decimal v \<Longrightarrow> bigint_wf (NewPseudoBigInt v n)"
  using trimZeros_hd [of v] trimZeros_decimal [of v]
  by (auto simp: bigint_wf_def NewPseudoBigInt_def Let_def)

lemma ParsePseudoBigInt_prefixed:
  assumes "prefix_base p = Some base" "ds \<noteq> []" "list_all (is_digit_of base) ds"
  shows "ParsePseudoBigInt (CHR ''0'' # p # ds @ ''n'') = Some (dec_of_nat (value_in_base base ds))"
proof -
  have digits: "go_digits base b ds" if "b \<or> ds \<noteq> []" for b
    using assms(3) that
  proof (induction ds arbitrary: b)
    case (Cons c ds)
    have "c \<noteq> CHR ''_''" using Cons.prems by (auto simp: is_digit_of_def digit_val_def Let_def)
    then show ?case using Cons by simp
  qed simp
  have no_sep: "filter (\<lambda>c. c \<noteq> CHR ''_'') ds = ds"
    using assms(3) by (induction ds) (auto simp: is_digit_of_def digit_val_def Let_def)
  have suffix: "TrimSuffix (CHR ''0'' # p # ds @ ''n'') ''n'' = CHR ''0'' # p # ds"
    by (simp add: TrimSuffix_def HasSuffix_def)
  show ?thesis
    using assms digits no_sep by (simp add: ParsePseudoBigInt_def suffix bigint_SetString0_def Let_def)
qed

end
