(* ===== verification/ScannerLex.thy ===== *)
theory ScannerLex
  imports ScannerBase BigInt
begin

text \<open>
  The sub-scanners of \<^verbatim>\<open>scanner/scanner.go\<close>: digits and numbers, escapes, identifiers, strings and
  templates. Every function takes the scanner and returns what the Go method returns together with
  the scanner after the call. \<open>jsnum.FromString(x).String()\<close>, the canonical text of a number, rests
  on floating point and is the parameter \<open>canon\<close>.
\<close>

section \<open>Digits\<close>

text \<open>
  The loop of \<open>scanHexDigits\<close>. The loop variables are \<open>digitCount\<close>, \<open>allowSeparator\<close> and
  \<open>isPreviousTokenSeparator\<close>.
\<close>

function hexDigits_loop ::
    "nat \<Rightarrow> bool \<Rightarrow> bool \<Rightarrow> nat \<Rightarrow> bool \<Rightarrow> bool \<Rightarrow> Scanner \<Rightarrow> nat \<times> bool \<times> Scanner" where
  "hexDigits_loop minCount asMany canSep digitCount allowSep prevSep s =
     (if digitCount < minCount \<or> asMany then
        (let ch = s_char s in
         if IsHexDigit ch then
           hexDigits_loop minCount asMany canSep (digitCount + 1) canSep False (advance 1 s)
         else if canSep \<and> ch = 0x5F then
           (let s = addFlag TokenFlagsContainsSeparator s in
            if allowSep then
              hexDigits_loop minCount asMany canSep digitCount False True (advance 1 s)
            else if prevSep then
              hexDigits_loop minCount asMany canSep digitCount allowSep prevSep
                (advance 1 (errorAt Multiple_consecutive_numeric_separators_are_not_permitted
                              (int (s_pos s)) 1 s))
            else
              hexDigits_loop minCount asMany canSep digitCount allowSep prevSep
                (advance 1 (errorAt Numeric_separators_are_not_allowed_here (int (s_pos s)) 1 s)))
         else (digitCount, prevSep, s))
      else (digitCount, prevSep, s))"
  by pat_completeness auto
termination
  by (relation "measure (\<lambda>(_, _, _, _, _, _, s). s_end s - s_pos s)")
     (auto simp: s_char_def IsHexDigit_def errorAtWith_def
        split: if_splits)

declare hexDigits_loop.simps [simp del]

definition strip_separators :: "string \<Rightarrow> string" where
  "strip_separators s = filter (\<lambda>c. c \<noteq> CHR ''_'') s"

definition scanHexDigits :: "nat \<Rightarrow> bool \<Rightarrow> bool \<Rightarrow> Scanner \<Rightarrow> string \<times> Scanner" where
  "scanHexDigits minCount asMany canSep s0 =
     (case hexDigits_loop minCount asMany canSep 0 False False s0 of
        (digitCount, prevSep, s) \<Rightarrow>
          (let s = (if prevSep then errorAt Numeric_separators_are_not_allowed_here (int (s_pos s) - 1) 1 s
                    else s)
           in if digitCount < minCount then ([], s)
              else
                let digits = slc (s_text s) (s_pos s0) (s_pos s) in
                (case map_of (s_hexDigitCache s) digits of
                   Some cached \<Rightarrow> (cached, s)
                 | None \<Rightarrow>
                     (let stripped = (if hasFlag s TokenFlagsContainsSeparator
                                      then strip_separators digits else digits);
                          lowered = ToLowerAscii stripped
                      in (lowered, s\<lparr>s_hexDigitCache := (digits, lowered) # s_hexDigitCache s\<rparr>)))))"

function binaryOrOctal_loop ::
    "int \<Rightarrow> string \<Rightarrow> bool \<Rightarrow> bool \<Rightarrow> Scanner \<Rightarrow> string \<times> bool \<times> Scanner" where
  "binaryOrOctal_loop base sb allowSep prevSep s =
     (let ch = s_char s in
      if IsDigit ch \<and> ch - 0x30 < base then
        binaryOrOctal_loop base (sb @ [byte_of ch]) True False (advance 1 s)
      else if ch = 0x5F then
        (let s = addFlag TokenFlagsContainsSeparator s in
         if allowSep then binaryOrOctal_loop base sb False True (advance 1 s)
         else if prevSep then
           binaryOrOctal_loop base sb allowSep prevSep
             (advance 1 (errorAt Multiple_consecutive_numeric_separators_are_not_permitted
                           (int (s_pos s)) 1 s))
         else
           binaryOrOctal_loop base sb allowSep prevSep
             (advance 1 (errorAt Numeric_separators_are_not_allowed_here (int (s_pos s)) 1 s)))
      else (sb, prevSep, s))"
  by pat_completeness auto
termination
  by (relation "measure (\<lambda>(_, _, _, _, s). s_end s - s_pos s)")
     (auto simp: s_char_def IsDigit_def errorAtWith_def
        split: if_splits)

declare binaryOrOctal_loop.simps [simp del]

definition scanBinaryOrOctalDigits :: "int \<Rightarrow> Scanner \<Rightarrow> string \<times> Scanner" where
  "scanBinaryOrOctalDigits base s0 =
     (case binaryOrOctal_loop base [] False False s0 of
        (sb, prevSep, s) \<Rightarrow>
          (sb, if prevSep then errorAt Numeric_separators_are_not_allowed_here (int (s_pos s) - 1) 1 s
               else s))"

text \<open>
  The loop of \<open>scanNumberFragment\<close>; \<open>start\<close>, \<open>allowSeparator\<close>, \<open>isPreviousTokenSeparator\<close> and the
  text \<open>result\<close> built so far are its variables.
\<close>

function numberFragment_loop ::
    "nat \<Rightarrow> bool \<Rightarrow> bool \<Rightarrow> string \<Rightarrow> Scanner \<Rightarrow> nat \<times> bool \<times> string \<times> Scanner" where
  "numberFragment_loop start allowSep0 prevSep0 result s0 =
     (let s = scanASCIIWhile IsDigit s0;
          allowSep = (if s_pos s > s_pos s0 then True else allowSep0);
          prevSep = (if s_pos s > s_pos s0 then False else prevSep0)
      in if s_char s = 0x5F then
           (let s = addFlag TokenFlagsContainsSeparator s in
            if allowSep then
              numberFragment_loop (s_pos s + 1) False True
                (result @ slc (s_text s) start (s_pos s)) (advance 1 s)
            else
              (let s = addFlag TokenFlagsContainsInvalidSeparator s;
                   s = (if prevSep then
                          errorAt Multiple_consecutive_numeric_separators_are_not_permitted (int (s_pos s)) 1 s
                        else errorAt Numeric_separators_are_not_allowed_here (int (s_pos s)) 1 s)
               in numberFragment_loop (s_pos s + 1) allowSep prevSep result (advance 1 s)))
         else (start, prevSep, result, s))"
  by pat_completeness auto
termination
  by (relation "measure (\<lambda>(_, _, _, _, s). s_end s - s_pos s)")
     (auto simp: s_char_def scanASCIIWhile_def Let_def errorAtWith_def
        split: if_splits)

declare numberFragment_loop.simps [simp del]

definition scanNumberFragment :: "Scanner \<Rightarrow> string \<times> Scanner" where
  "scanNumberFragment s0 =
     (case numberFragment_loop (s_pos s0) False False [] s0 of
        (start, prevSep, result, s) \<Rightarrow>
          (let s = (if prevSep then
                      errorAt Numeric_separators_are_not_allowed_here (int (s_pos s) - 1) 1
                        (addFlag TokenFlagsContainsInvalidSeparator s)
                    else s);
               rest = slc (s_text s) start (s_pos s)
           in (if result = [] then rest else result @ rest, s)))"

function digits_loop :: "bool \<Rightarrow> Scanner \<Rightarrow> bool \<times> Scanner" where
  "digits_loop isOctal s =
     (if IsDigit (s_char s)
      then digits_loop (if \<not> IsOctalDigit (s_char s) then False else isOctal) (advance 1 s)
      else (isOctal, s))"
  by pat_completeness auto
termination
  by (relation "measure (\<lambda>(_, s). s_end s - s_pos s)")
     (auto simp: s_char_def IsDigit_def split: if_splits)

declare digits_loop.simps [simp del]

definition scanDigits :: "Scanner \<Rightarrow> string \<times> bool \<times> Scanner" where
  "scanDigits s0 =
     (case digits_loop True s0 of
        (isOctal, s) \<Rightarrow> (slc (s_text s) (s_pos s0) (s_pos s), isOctal, s))"

definition scanBigIntSuffix :: "(string \<Rightarrow> string) \<Rightarrow> Scanner \<Rightarrow> Kind \<times> Scanner" where
  "scanBigIntSuffix canon s =
     (if s_char s = 0x6E then
        (let s1 = s\<lparr>s_tokenValue := s_tokenValue s @ ''n''\<rparr>;
             s2 = (if hasFlag s1 TokenFlagsBinaryOrOctalSpecifier then
                     (case ParsePseudoBigInt (s_tokenValue s1) of
                        Some v \<Rightarrow> s1\<lparr>s_tokenValue := v @ ''n''\<rparr>
                      | None \<Rightarrow> panic s1)
                   else s1)
         in (KindBigIntLiteral, advance 1 s2))
      else
        (case map_of (s_numberCache s) (s_tokenValue s) of
           Some cached \<Rightarrow> (KindNumericLiteral, s\<lparr>s_tokenValue := cached\<rparr>)
         | None \<Rightarrow>
             (let v = canon (s_tokenValue s)
              in (KindNumericLiteral,
                  s\<lparr>s_numberCache := (s_tokenValue s, v) # s_numberCache s, s_tokenValue := v\<rparr>))))"

subsection \<open>Frames\<close>

lemma scan_moves_hexDigits_loop:
  "scan_moves s (snd (snd (hexDigits_loop m a c d as ps s)))"
proof (induction m a c d as ps s rule: hexDigits_loop.induct)
  case (1 m a c d as ps s)
  show ?case
  proof (cases "(d < m \<or> a) \<and> (IsHexDigit (s_char s) \<or> c \<and> s_char s = 0x5F)")
    case True
    then have "s_pos s < s_end s" by (auto simp: s_char_def IsHexDigit_def split: if_splits)
    then show ?thesis using 1 True
      by (subst hexDigits_loop.simps) (auto simp: Let_def elim!: scan_moves_from)
  next
    case False
    then show ?thesis using 1
      by (subst hexDigits_loop.simps) (auto simp: Let_def)
  qed
qed

lemma scan_moves_scanHexDigits [simp]:
  "scan_moves s (snd (scanHexDigits m a c s))"
  using scan_moves_hexDigits_loop [of s m a c 0 False False]
  by (auto simp: scanHexDigits_def Let_def split: prod.splits option.splits)

lemma scan_moves_binaryOrOctal_loop:
  "scan_moves s (snd (snd (binaryOrOctal_loop b sb as ps s)))"
proof (induction b sb as ps s rule: binaryOrOctal_loop.induct)
  case (1 b sb as ps s)
  show ?case
  proof (cases "(IsDigit (s_char s) \<and> s_char s - 0x30 < b) \<or> s_char s = 0x5F")
    case True
    then have "s_pos s < s_end s" by (auto simp: s_char_def IsDigit_def split: if_splits)
    note IH = 1(1) [OF refl] 1(2-4) [OF refl _ _ refl]
    show ?thesis using \<open>s_pos s < s_end s\<close> IH True
      by (subst binaryOrOctal_loop.simps) (auto simp: Let_def elim!: scan_moves_from)
  next
    case False
    then show ?thesis using 1
      by (subst binaryOrOctal_loop.simps) (auto simp: Let_def)
  qed
qed

lemma scan_moves_scanBinaryOrOctalDigits [simp]:
  "scan_moves s (snd (scanBinaryOrOctalDigits b s))"
  using scan_moves_binaryOrOctal_loop [of s b "[]" False False]
  by (auto simp: scanBinaryOrOctalDigits_def Let_def split: prod.splits option.splits)

lemma scan_moves_numberFragment_loop:
  "scan_moves s (snd (snd (snd (numberFragment_loop st as ps r s))))"
proof (induction st as ps r s rule: numberFragment_loop.induct)
  case (1 st as ps r s)
  let ?t = "scanASCIIWhile IsDigit s"
  have m: "scan_moves s ?t"
    by simp
  show ?case
  proof (cases "s_char ?t = 0x5F")
    case True
    then have "s_pos ?t < s_end ?t" by (auto simp: s_char_def split: if_splits)
    then have "scan_moves ?t (snd (snd (snd (numberFragment_loop st as ps r s))))"
      using 1(1) [OF refl refl refl True refl] 1(2) [OF refl refl refl True refl _ refl refl] True m
      by (subst numberFragment_loop.simps) (auto simp: Let_def elim!: scan_moves_from)
    with m show ?thesis by (blast intro: scan_moves_trans)
  next
    case False
    then show ?thesis using m
      by (subst numberFragment_loop.simps) (auto simp: Let_def)
  qed
qed

lemma scan_moves_scanNumberFragment [simp]:
  "scan_moves s (snd (scanNumberFragment s))"
  using scan_moves_numberFragment_loop [of s "s_pos s" False False "[]"]
  by (auto simp: scanNumberFragment_def Let_def split: prod.splits option.splits)

lemma scan_moves_digits_loop:
  "scan_moves s (snd (digits_loop oct s))"
proof (induction oct s rule: digits_loop.induct)
  case (1 oct s)
  show ?case
  proof (cases "IsDigit (s_char s)")
    case True
    then have "s_pos s < s_end s" by (auto simp: s_char_def IsDigit_def split: if_splits)
    then show ?thesis using 1 True
      by (subst digits_loop.simps) (auto simp: Let_def elim!: scan_moves_from)
  next
    case False
    then show ?thesis using 1
      by (subst digits_loop.simps) (auto simp: Let_def)
  qed
qed

lemma scan_moves_scanDigits [simp]:
  "scan_moves s (snd (snd (scanDigits s)))"
  using scan_moves_digits_loop [of s True]
  by (auto simp: scanDigits_def Let_def split: prod.splits option.splits)

section \<open>Unicode escapes\<close>

text \<open>
  \<open>strconv.ParseInt(hexDigits, 16, 32)\<close> with the error ignored: out of range it returns the
  largest 32-bit value.
\<close>

definition parseHex32 :: "string \<Rightarrow> int" where
  "parseHex32 ds = min (int (value_in_base 16 ds)) 0x7FFFFFFF"

text \<open>The digits after \<open>\u\<close> or \<open>\u{\<close>, and the check of the value and of the closing brace.\<close>

definition unicodeEscape_digits :: "bool \<Rightarrow> Scanner \<Rightarrow> string \<times> Scanner" where
  "unicodeEscape_digits extended s =
     (if extended then scanHexDigits 1 True False (advance 1 s)
      else scanHexDigits 4 False False (addFlag TokenFlagsUnicodeEscape s))"

definition unicodeEscape_brace :: "bool \<Rightarrow> Scanner \<Rightarrow> bool \<times> Scanner" where
  "unicodeEscape_brace shouldEmit s =
     (if s_end s \<le> s_pos s then
        (True, if shouldEmit then s_error Unexpected_end_of_text s else s)
      else if s_char s = 0x7D then (False, advance 1 s)
      else (True, if shouldEmit then s_error Unterminated_Unicode_escape_sequence s else s))"

definition scanUnicodeEscape :: "bool \<Rightarrow> Scanner \<Rightarrow> rune \<times> Scanner" where
  "scanUnicodeEscape shouldEmit s0 =
     (let s = advance 2 s0;
          start = s_pos s;
          extended = (s_char s = 0x7B);
          r = unicodeEscape_digits extended s;
          hexDigits = fst r; s = snd r
      in if hexDigits = [] then
           (let s = addFlag TokenFlagsContainsInvalidEscape s
            in (-1, if shouldEmit then s_error Hexadecimal_digit_expected s else s))
         else
           let hexValue = parseHex32 hexDigits in
           if extended then
             (let tooBig = (0x10FFFF < hexValue);
                  s = (if tooBig \<and> shouldEmit then
                         errorAt An_extended_Unicode_escape_value_must_be_between_0x0_and_0x10FFFF_inclusive
                           (int start + 1) (int (s_pos s) - int start - 1) s
                       else s);
                  r = unicodeEscape_brace shouldEmit s
              in if tooBig \<or> fst r then (-1, addFlag TokenFlagsContainsInvalidEscape (snd r))
                 else (hexValue, addFlag TokenFlagsExtendedUnicodeEscape (snd r)))
           else (hexValue, s))"

text \<open>Both functions restore position and flags by hand, not the whole state.\<close>

definition restorePos :: "Scanner \<Rightarrow> Scanner \<Rightarrow> Scanner" where
  "restorePos saved s = s\<lparr>s_pos := s_pos saved, s_tokenFlags := s_tokenFlags saved\<rparr>"

definition peekUnicodeEscape :: "Scanner \<Rightarrow> rune \<times> Scanner" where
  "peekUnicodeEscape s =
     (if charAt s 1 = 0x75 then
        (let r = scanUnicodeEscape False s in (fst r, restorePos s (snd r)))
      else (-1, s))"

definition scanLowSurrogateEscape :: "rune \<Rightarrow> Scanner \<Rightarrow> rune option \<times> Scanner" where
  "scanLowSurrogateEscape high s =
     (if s_char s \<noteq> 0x5C \<or> charAt s 1 \<noteq> 0x75 then (None, s)
      else
        let r = scanUnicodeEscape False s in
        if IsLowSurrogate (fst r) then (Some (SurrogatePairToCodePoint high (fst r)), snd r)
        else (None, restorePos s (snd r)))"

section \<open>Identifiers\<close>

datatype identifierVariant =
  identifierVariantStandard | identifierVariantJSX | identifierVariantRegExpGroupName

definition variant_language :: "identifierVariant \<Rightarrow> LanguageVariant" where
  "variant_language variant =
     (if variant = identifierVariantJSX then LanguageVariantJSX else LanguageVariantStandard)"

definition scanIdentifierEscape ::
    "(rune \<Rightarrow> bool) \<Rightarrow> bool \<Rightarrow> Scanner \<Rightarrow> rune option \<times> Scanner" where
  "scanIdentifierEscape isValid allowSurrogatePairEscape s0 =
     (let p = peekUnicodeEscape s0; escaped = fst p; s = snd p in
      if 0 \<le> escaped \<and> isValid escaped then
        (let r = scanUnicodeEscape True s in (Some (fst r), snd r))
      else if allowSurrogatePairEscape \<and> charAt s 2 \<noteq> 0x7B \<and> IsHighSurrogate escaped then
        (let s1 = snd (scanUnicodeEscape False s);
             r = (if charAt s1 2 \<noteq> 0x7B then scanLowSurrogateEscape escaped s1 else (None, s1))
         in case fst r of
              Some codePoint \<Rightarrow>
                if isValid codePoint then (Some codePoint, snd r) else (None, restorePos s (snd r))
            | None \<Rightarrow> (None, restorePos s (snd r)))
      else (None, s))"

subsection \<open>Frames\<close>

lemma scan_moves_unicodeEscape_digits:
  assumes ext: "ext = (s_char s = 0x7B)"
  shows "scan_moves s (snd (unicodeEscape_digits ext s))"
proof (cases ext)
  case True
  then have "scan_moves s (advance 1 s)"
    using ext by (intro scan_moves_char [OF scan_moves_refl]) auto
  then have "scan_moves s (snd (scanHexDigits 1 True False (advance 1 s)))"
    by (rule scan_moves_trans) (rule scan_moves_scanHexDigits)
  with True show ?thesis by (simp add: unicodeEscape_digits_def)
next
  case False
  have "scan_moves s (addFlag TokenFlagsUnicodeEscape s)" by simp
  then have "scan_moves s (snd (scanHexDigits 4 False False (addFlag TokenFlagsUnicodeEscape s)))"
    by (rule scan_moves_trans) (rule scan_moves_scanHexDigits)
  with False show ?thesis by (simp add: unicodeEscape_digits_def)
qed

lemma scan_moves_unicodeEscape_brace [simp]: "scan_moves s (snd (unicodeEscape_brace e s))"
  using scan_moves_char [of s s 125]
  by (simp add: unicodeEscape_brace_def del: advance_def)

lemma scan_moves_scanUnicodeEscape:
  "scan_moves (advance 2 s) (snd (scanUnicodeEscape e s))"
proof -
  define ext where "ext = (s_char (advance 2 s) = 0x7B)"
  define r where "r = unicodeEscape_digits ext (advance 2 s)"
  have m: "scan_moves (advance 2 s) (snd r)"
    unfolding r_def ext_def by (rule scan_moves_unicodeEscape_digits) simp
  have b: "scan_moves (advance 2 s) t \<Longrightarrow> scan_moves (advance 2 s) (snd (unicodeEscape_brace e t))" for t e
    using scan_moves_trans scan_moves_unicodeEscape_brace by blast
  show ?thesis
    using m b unfolding scanUnicodeEscape_def Let_def ext_def [symmetric] r_def [symmetric]
    by (simp del: advance_def)
qed

lemma scan_moves_escape:
  "s_pos s + 2 \<le> s_end s \<Longrightarrow> scan_moves s (snd (scanUnicodeEscape e s))"
  by (rule scan_moves_trans [where t = "advance 2 s"]) (simp_all add: scan_moves_scanUnicodeEscape del: advance_def, simp)

lemma charAt_pos: "charAt s n = c \<Longrightarrow> 0 \<le> c \<Longrightarrow> s_pos s + n < s_end s"
  by (auto simp: charAt_def split: if_splits)

lemma scanUnicodeEscape_pos: "s_pos s + 2 \<le> s_pos (snd (scanUnicodeEscape e s))"
  using scan_moves_le [OF scan_moves_scanUnicodeEscape [of s e]] by simp

lemma same_input_restorePos [simp]: "same_input s t \<Longrightarrow> same_input s (restorePos s t)"
  by (simp add: restorePos_def)

lemma scan_moves_restorePos: "scan_moves s t \<Longrightarrow> scan_moves s (restorePos s t)"
  by (simp add: restorePos_def scan_moves_panicked scan_wf_def)

lemma scan_moves_peekUnicodeEscape [simp]: "scan_moves s (snd (peekUnicodeEscape s))"
  using charAt_pos [of s 1 117]
  by (auto simp: peekUnicodeEscape_def scanUnicodeEscape_pos Let_def
        intro!: scan_moves_restorePos scan_moves_escape)

lemma peekUnicodeEscape_keeps [simp]:
  "s_pos (snd (peekUnicodeEscape s)) = s_pos s"
  "s_tokenFlags (snd (peekUnicodeEscape s)) = s_tokenFlags s"
  by (simp_all add: peekUnicodeEscape_def restorePos_def Let_def)

lemma scan_moves_scanLowSurrogateEscape [simp]: "scan_moves s (snd (scanLowSurrogateEscape h s))"
  using charAt_pos [of s 1 117]
  by (auto simp: scanLowSurrogateEscape_def scanUnicodeEscape_pos Let_def
        intro!: scan_moves_restorePos scan_moves_escape)

lemma s_char_cong: "s_text t = s_text s \<Longrightarrow> s_end t = s_end s \<Longrightarrow> s_pos t = s_pos s \<Longrightarrow> s_char t = s_char s"
  by (simp add: s_char_def)

lemma charAt_cong: "s_text t = s_text s \<Longrightarrow> s_end t = s_end s \<Longrightarrow> s_pos t = s_pos s \<Longrightarrow> charAt t n = charAt s n"
  by (simp add: charAt_def)

lemma peekUnicodeEscape_charAt [simp]: "charAt (snd (peekUnicodeEscape s)) n = charAt s n"
  using scan_moves_peekUnicodeEscape [of s]
  by (intro charAt_cong) (simp_all add: scan_moves_text scan_moves_end)

lemma peekUnicodeEscape_is_u:
  "0 \<le> fst (peekUnicodeEscape s) \<Longrightarrow> charAt s 1 = 0x75"
  by (simp add: peekUnicodeEscape_def split: if_splits)

lemma scan_moves_scanIdentifierEscape [simp]: "scan_moves s (snd (scanIdentifierEscape v a s))"
proof -
  define p where "p = peekUnicodeEscape s"
  have p: "scan_moves s (snd p)" and pos: "s_pos (snd p) = s_pos s" and e: "s_end (snd p) = s_end s"
    unfolding p_def by (simp_all add: scan_moves_end [OF scan_moves_peekUnicodeEscape])
  have u: "scan_moves s (snd (scanUnicodeEscape x (snd p)))" if "0 \<le> fst p" for x
  proof -
    have "s_pos s + 1 < s_end s"
      using that charAt_pos [of s 1 117] peekUnicodeEscape_is_u unfolding p_def by auto
    then have "scan_moves (snd p) (snd (scanUnicodeEscape x (snd p)))"
      by (intro scan_moves_escape) (simp add: pos e)
    with p show ?thesis by (rule scan_moves_trans)
  qed
  have l: "scan_moves s (snd (scanLowSurrogateEscape h t))" if "scan_moves s t" for h t
    using that scan_moves_scanLowSurrogateEscape by (rule scan_moves_trans)
  have r: "scan_moves s (restorePos (snd p) t)" if "scan_moves s t" for t
    using that pos scan_moves_panicked [OF that] by (simp add: restorePos_def scan_wf_def)
  have high: "IsHighSurrogate x \<Longrightarrow> 0 \<le> x" for x by (simp add: IsHighSurrogate_def utf16_IsSurrogate_def)
  show ?thesis
    unfolding scanIdentifierEscape_def Let_def p_def [symmetric]
    by (auto simp: p intro: u l r high split: option.splits)
qed

lemma scanIdentifierEscape_progress:
  assumes "fst (scanIdentifierEscape v a s) = Some c"
  shows "s_pos s < s_pos (snd (scanIdentifierEscape v a s))"
proof -
  define p where "p = peekUnicodeEscape s"
  have pos: "s_pos (snd p) = s_pos s" unfolding p_def by simp
  have u: "s_pos s < s_pos (snd (scanUnicodeEscape x (snd p)))" for x
    using scanUnicodeEscape_pos [of "snd p" x] pos by simp
  have l: "s_pos s < s_pos t \<Longrightarrow> s_pos s < s_pos (snd (scanLowSurrogateEscape h t))" for h t
    using scan_moves_le [OF scan_moves_scanLowSurrogateEscape [of t h]] by simp
  show ?thesis using assms
    unfolding scanIdentifierEscape_def Let_def p_def [symmetric]
    by (auto intro: u l split: option.splits if_splits)
qed

section \<open>Identifier bodies\<close>

text \<open>
  \<open>scanIdentifierParts\<close>: \<open>start\<close> is where the text not yet copied begins. An escape that is accepted
  moves the position, which is why the loop ends.
\<close>

function identifierParts_loop ::
    "identifierVariant \<Rightarrow> nat \<Rightarrow> string \<Rightarrow> Scanner \<Rightarrow> nat \<times> string \<times> Scanner" where
  "identifierParts_loop variant start sb s0 =
     (let isPart = (\<lambda>ch. IsIdentifierPartEx ch (variant_language variant));
          s = scanRunesWhile isPart s0
      in if s_char s = 0x5C then
           (let r = scanIdentifierEscape isPart (variant = identifierVariantRegExpGroupName) s
            in case fst r of
                 Some escaped \<Rightarrow>
                   identifierParts_loop variant (s_pos (snd r))
                     (sb @ slc (s_text s) start (s_pos s) @ EncodeRune escaped) (snd r)
               | None \<Rightarrow> (start, sb, snd r))
         else (start, sb, s))"
  by pat_completeness auto
termination
proof (relation "measure (\<lambda>(_, _, _, s). s_end s - s_pos s)", goal_cases)
  case (2 variant start sb s0 isPart s r escaped)
  have "s_pos s < s_end s" using 2 by auto
  moreover have "s_pos s < s_pos (snd r)"
    using 2 scanIdentifierEscape_progress [of isPart _ s escaped] by simp
  moreover have "s_end (snd r) = s_end s"
    using 2 scan_moves_end [OF scan_moves_scanIdentifierEscape] by simp
  moreover have "s_end s = s_end s0" "s_pos s0 \<le> s_pos s"
    using 2 scan_moves_end [OF scan_moves_scanRunesWhile] scan_moves_le [OF scan_moves_scanRunesWhile]
    by simp_all
  ultimately show ?case by simp
qed simp

declare identifierParts_loop.simps [simp del]

definition scanIdentifierParts :: "identifierVariant \<Rightarrow> Scanner \<Rightarrow> string \<times> Scanner" where
  "scanIdentifierParts variant s0 =
     (case identifierParts_loop variant (s_pos s0) [] s0 of
        (start, sb, s) \<Rightarrow> (sb @ slc (s_text s) start (s_pos s), s))"

text \<open>\<open>scanIdentifier\<close>: the ASCII fast path, then the slow path from \<open>identifierStart\<close>.\<close>

definition scanIdentifier_slow ::
    "nat \<Rightarrow> identifierVariant \<Rightarrow> Scanner \<Rightarrow> bool \<times> Scanner" where
  "scanIdentifier_slow start variant s =
     (let identifierStart = s_pos s;
          ch = fst (charAndSize s); size = snd (charAndSize s)
      in if IsIdentifierStart ch then
           (let s = scanRunesWhile (\<lambda>ch. IsIdentifierPartEx ch (variant_language variant)) (advance size s);
                s = s\<lparr>s_tokenValue := slc (s_text s) start (s_pos s)\<rparr>
            in if fst (charAndSize s) = 0x5C then
                 (let r = scanIdentifierParts variant s
                  in (True, (snd r)\<lparr>s_tokenValue := s_tokenValue s @ fst r\<rparr>))
               else (True, s))
         else if ch = 0x5C then
           (let r = scanIdentifierEscape IsIdentifierStart (variant = identifierVariantRegExpGroupName) s
            in case fst r of
                 Some escaped \<Rightarrow>
                   (let q = scanIdentifierParts variant (snd r)
                    in (True, (snd q)\<lparr>s_tokenValue :=
                           slc (s_text s) start identifierStart @ EncodeRune escaped @ fst q\<rparr>))
               | None \<Rightarrow> (False, snd r))
         else (False, s))"

definition scanIdentifier :: "nat \<Rightarrow> identifierVariant \<Rightarrow> Scanner \<Rightarrow> bool \<times> Scanner" where
  "scanIdentifier prefixLength variant s0 =
     (let start = s_pos s0;
          s = advance prefixLength s0;
          ch = s_char s
      in if variant \<noteq> identifierVariantJSX \<and> (IsASCIILetter ch \<or> ch = 0x5F \<or> ch = 0x24) then
           (let s1 = scanASCIIWhile isASCIIIdentifierPart (advance 1 s)
            in if s_char s1 < RuneSelf \<and> s_char s1 \<noteq> 0x5C then
                 (True, s1\<lparr>s_tokenValue := slc (s_text s1) start (s_pos s1)\<rparr>)
               else scanIdentifier_slow start variant s)
         else scanIdentifier_slow start variant s)"

subsection \<open>Frames\<close>

lemma scan_moves_identifierParts_loop:
  "scan_moves s (snd (snd (identifierParts_loop v st sb s)))"
proof (induction v st sb s rule: identifierParts_loop.induct)
  case (1 v st sb s0)
  define p where "p = (\<lambda>ch. IsIdentifierPartEx ch (variant_language v))"
  define s where "s = scanRunesWhile p s0"
  define r where "r = scanIdentifierEscape p (v = identifierVariantRegExpGroupName) s"
  have m: "scan_moves s0 s" "scan_moves s (snd r)"
    unfolding s_def r_def by simp_all
  then have m2: "scan_moves s0 (snd r)" by (rule scan_moves_trans)
  note IH = 1 [OF p_def s_def _ r_def]
  show ?case
  proof (cases "s_char s = 0x5C")
    case True
    then show ?thesis using m m2 IH
      by (subst identifierParts_loop.simps)
         (auto simp: Let_def p_def [symmetric] s_def [symmetric] r_def [symmetric]
            intro: scan_moves_trans split: option.split)
  next
    case False
    then show ?thesis using m
      by (subst identifierParts_loop.simps) (simp add: Let_def p_def [symmetric] s_def [symmetric])
  qed
qed

lemma scan_moves_scanIdentifierParts [simp]: "scan_moves s (snd (scanIdentifierParts v s))"
  using scan_moves_identifierParts_loop [of s v "s_pos s" "[]"]
  by (auto simp: scanIdentifierParts_def split: prod.splits)

lemma scan_moves_charAndSize: "scan_moves s (advance (snd (charAndSize s)) s)"
  using charAndSize_le by simp

lemma IsIdentifierStart_size:
  "IsIdentifierStart (fst (charAndSize s)) \<Longrightarrow> 0 < snd (charAndSize s)"
  by (cases "drop (s_pos s) (s_text s)")
     (auto simp: charAndSize_def DecodeRune_size_pos split: if_splits)

lemma scan_moves_scanIdentifier_slow [simp]: "scan_moves s (snd (scanIdentifier_slow st v s))"
proof -
  define p where "p = (\<lambda>ch. IsIdentifierPartEx ch (variant_language v))"
  define a where "a = advance (snd (charAndSize s)) s"
  define t where "t = scanRunesWhile p a"
  define e where "e = scanIdentifierEscape IsIdentifierStart (v = identifierVariantRegExpGroupName) s"
  have "scan_moves s a" unfolding a_def by (rule scan_moves_charAndSize)
  also have "scan_moves a t" unfolding t_def by simp
  finally have m: "scan_moves s t" .
  have m1: "scan_moves s (snd e)" unfolding e_def by simp
  have m2: "scan_moves s u \<Longrightarrow> scan_moves s (snd (scanIdentifierParts v u))" for u
    by (rule scan_moves_trans [OF _ scan_moves_scanIdentifierParts])
  show ?thesis using m m1 m2
    unfolding scanIdentifier_slow_def Let_def p_def [symmetric] a_def [symmetric] t_def [symmetric]
      e_def [symmetric]
    by (auto split: option.split)
qed

lemma scan_moves_scanIdentifier:
  "scan_moves (advance n s) (snd (scanIdentifier n v s))"
proof -
  define t where "t = advance n s"
  have "IsASCIILetter (s_char t) \<or> s_char t = 0x5F \<or> s_char t = 0x24 \<Longrightarrow> 0 \<le> s_char t"
    by (auto simp: IsASCIILetter_def)
  then have "IsASCIILetter (s_char t) \<or> s_char t = 0x5F \<or> s_char t = 0x24 \<Longrightarrow>
     scan_moves t (scanASCIIWhile isASCIIIdentifierPart (advance 1 t))"
    by (intro scan_moves_trans [OF scan_moves_char [OF scan_moves_refl refl] scan_moves_scanASCIIWhile])
  then show ?thesis
    unfolding scanIdentifier_def Let_def t_def [symmetric] by auto
qed

lemma scanIdentifier_slow_progress:
  "fst (scanIdentifier_slow st v s) \<Longrightarrow> s_pos s < s_pos (snd (scanIdentifier_slow st v s))"
  "\<not> fst (scanIdentifier_slow st v s) \<Longrightarrow>
     s_pos (snd (scanIdentifier_slow st v s)) = s_pos s"
proof -
  define p where "p = (\<lambda>ch. IsIdentifierPartEx ch (variant_language v))"
  define a where "a = advance (snd (charAndSize s)) s"
  define t where "t = scanRunesWhile p a"
  define e where "e = scanIdentifierEscape IsIdentifierStart (v = identifierVariantRegExpGroupName) s"
  have t: "IsIdentifierStart (fst (charAndSize s)) \<Longrightarrow> s_pos s < s_pos t"
    using IsIdentifierStart_size [of s] scan_moves_le [OF scan_moves_scanRunesWhile, of a p]
    unfolding t_def a_def by simp
  have m2: "s_pos s < s_pos u \<Longrightarrow> s_pos s < s_pos (snd (scanIdentifierParts v u))" for u
    using scan_moves_le [OF scan_moves_scanIdentifierParts, of u v] by simp
  have m3: "fst e = Some c \<Longrightarrow> s_pos s < s_pos (snd e)" for c
    unfolding e_def by (rule scanIdentifierEscape_progress)
  show "fst (scanIdentifier_slow st v s) \<Longrightarrow> s_pos s < s_pos (snd (scanIdentifier_slow st v s))"
    using t m2 m3
    unfolding scanIdentifier_slow_def Let_def p_def [symmetric] a_def [symmetric] t_def [symmetric]
      e_def [symmetric]
    by (auto split: option.splits if_splits)
  have "fst e = None \<Longrightarrow> s_pos (snd e) = s_pos s"
    unfolding e_def scanIdentifierEscape_def Let_def restorePos_def
    by (auto split: option.splits if_splits)
  then show "\<not> fst (scanIdentifier_slow st v s) \<Longrightarrow>
      s_pos (snd (scanIdentifier_slow st v s)) = s_pos s"
    unfolding scanIdentifier_slow_def Let_def p_def [symmetric] a_def [symmetric] t_def [symmetric]
      e_def [symmetric]
    by (auto split: option.splits if_splits)
qed

lemma scanIdentifier_progress:
  "fst (scanIdentifier n v s) \<Longrightarrow> s_pos s + n < s_pos (snd (scanIdentifier n v s))"
  "\<not> fst (scanIdentifier n v s) \<Longrightarrow> s_pos (snd (scanIdentifier n v s)) = s_pos s + n"
proof -
  define t where "t = advance n s"
  have pos: "s_pos t = s_pos s + n" by (simp add: t_def)
  have "s_pos t < s_pos (scanASCIIWhile isASCIIIdentifierPart (advance 1 t))"
    using scan_moves_le [OF scan_moves_scanASCIIWhile, of "advance 1 t" isASCIIIdentifierPart] by simp
  moreover note scanIdentifier_slow_progress [of "s_pos s" v t]
  ultimately show
    "fst (scanIdentifier n v s) \<Longrightarrow> s_pos s + n < s_pos (snd (scanIdentifier n v s))"
    "\<not> fst (scanIdentifier n v s) \<Longrightarrow> s_pos (snd (scanIdentifier n v s)) = s_pos s + n"
    unfolding scanIdentifier_def Let_def t_def [symmetric] pos [symmetric] by (auto split: if_splits)
qed

section \<open>Escape sequences\<close>

type_synonym EscapeSequenceScanningFlags = "32 word"

abbreviation (input) EscapeFlagsString :: EscapeSequenceScanningFlags where "EscapeFlagsString \<equiv> 1"
abbreviation (input) EscapeFlagsReportErrors :: EscapeSequenceScanningFlags where "EscapeFlagsReportErrors \<equiv> 2"
abbreviation (input) EscapeFlagsRegularExpression :: EscapeSequenceScanningFlags where "EscapeFlagsRegularExpression \<equiv> 4"
abbreviation (input) EscapeFlagsAnnexB :: EscapeSequenceScanningFlags where "EscapeFlagsAnnexB \<equiv> 8"
abbreviation (input) EscapeFlagsAnyUnicodeMode :: EscapeSequenceScanningFlags where "EscapeFlagsAnyUnicodeMode \<equiv> 16"
abbreviation (input) EscapeFlagsAtomEscape :: EscapeSequenceScanningFlags where "EscapeFlagsAtomEscape \<equiv> 32"
abbreviation (input) EscapeFlagsReportInvalidEscapeErrors :: EscapeSequenceScanningFlags
  where "EscapeFlagsReportInvalidEscapeErrors \<equiv> 6"
abbreviation (input) EscapeFlagsAllowExtendedUnicodeEscape :: EscapeSequenceScanningFlags
  where "EscapeFlagsAllowExtendedUnicodeEscape \<equiv> 17"

definition hasEsc :: "EscapeSequenceScanningFlags \<Rightarrow> EscapeSequenceScanningFlags \<Rightarrow> bool" where
  "hasEsc flags f \<longleftrightarrow> flags AND f \<noteq> 0"

text \<open>\<open>fmt.Sprintf("\x%02x", code)\<close> for a code below 256.\<close>

definition lowerhex :: "nat \<Rightarrow> char" where
  "lowerhex d = (if d < 10 then char_of (48 + d) else char_of (87 + d))"

definition hex02 :: "int \<Rightarrow> string" where
  "hex02 code = [CHR 0x5C, CHR ''x'', lowerhex (nat (code div 16)), lowerhex (nat (code mod 16))]"

definition skipOctal :: "Scanner \<Rightarrow> Scanner" where
  "skipOctal s = (if IsOctalDigit (s_char s) then advance 1 s else s)"

text \<open>The cases \<open>'0'\<close> to \<open>'7'\<close> after the check for a plain \<open>\0\<close>, with their fallthroughs.\<close>

definition escape_octal ::
    "EscapeSequenceScanningFlags \<Rightarrow> nat \<Rightarrow> rune \<Rightarrow> Scanner \<Rightarrow> string \<times> Scanner" where
  "escape_octal flags start ch s0 =
     (let s1 = (if ch \<le> 0x33 then skipOctal s0 else s0);
          s = addFlag TokenFlagsContainsInvalidEscape (skipOctal s1)
      in if hasEsc flags EscapeFlagsReportInvalidEscapeErrors then
           (let code = int (value_in_base 8 (slc (s_text s) (start + 1) (s_pos s)));
                m = (if hasEsc flags EscapeFlagsRegularExpression
                        \<and> \<not> hasEsc flags EscapeFlagsAtomEscape \<and> ch \<noteq> 0x30
                     then Octal_escape_sequences_and_backreferences_are_not_allowed_in_a_character_class
                     else Octal_escape_sequences_are_not_allowed_Use_the_syntax_0)
            in (EncodeRune code,
                errorAtWith m (int start) (int (s_pos s) - int start) [hex02 code] s))
         else (slc (s_text s) start (s_pos s), s))"

definition escape_decimal ::
    "EscapeSequenceScanningFlags \<Rightarrow> nat \<Rightarrow> rune \<Rightarrow> Scanner \<Rightarrow> string \<times> Scanner" where
  "escape_decimal flags start ch s0 =
     (let s = addFlag TokenFlagsContainsInvalidEscape s0;
          text = slc (s_text s) start (s_pos s);
          len = int (s_pos s) - int start
      in if hasEsc flags EscapeFlagsReportInvalidEscapeErrors then
           (EncodeRune ch,
            if hasEsc flags EscapeFlagsRegularExpression \<and> \<not> hasEsc flags EscapeFlagsAtomEscape
            then errorAt Decimal_escape_sequences_and_backreferences_are_not_allowed_in_a_character_class
                   (int start) len s
            else errorAtWith Escape_sequence_0_is_not_allowed (int start) len [text] s)
         else (text, s))"

text \<open>The end of the case \<open>'u'\<close>: pairing of surrogates, then the encoding of the code point.\<close>

definition escape_combine :: "rune \<Rightarrow> Scanner \<Rightarrow> string \<times> Scanner" where
  "escape_combine codePoint s =
     (let r = scanLowSurrogateEscape codePoint s in
      case fst r of
        Some combined \<Rightarrow> (EncodeRune combined, snd r)
      | None \<Rightarrow> (EncodeJSStringRune codePoint, snd r))"

definition escape_u :: "EscapeSequenceScanningFlags \<Rightarrow> nat \<Rightarrow> Scanner \<Rightarrow> string \<times> Scanner" where
  "escape_u flags start s0 =
     (let extended = (s_char s0 = 0x7B);
          report = hasEsc flags EscapeFlagsReportInvalidEscapeErrors;
          r = scanUnicodeEscape report (s0\<lparr>s_pos := s_pos s0 - 2\<rparr>);
          codePoint = fst r; s = snd r
      in if extended then
           (let s = (if \<not> hasEsc flags EscapeFlagsAllowExtendedUnicodeEscape then
                       (let s = addFlag TokenFlagsContainsInvalidEscape s in
                        if report then
                          errorAt Unicode_escape_sequences_are_only_available_when_the_Unicode_u_flag_or_the_Unicode_Sets_v_flag_is_set
                            (int start) (int (s_pos s) - int start) s
                        else s)
                     else s)
            in if codePoint < 0 then (slc (s_text s) start (s_pos s), s)
               else if \<not> hasEsc flags EscapeFlagsRegularExpression \<and> IsHighSurrogate codePoint
               then escape_combine codePoint s
               else (EncodeJSStringRune codePoint, s))
         else if codePoint < 0 then (slc (s_text s) start (s_pos s), s)
         else if IsHighSurrogate codePoint then
           (if \<not> hasEsc flags EscapeFlagsRegularExpression then escape_combine codePoint s
            else if hasEsc flags EscapeFlagsAnyUnicodeMode
                    \<and> s_char s = 0x5C \<and> charAt s 1 = 0x75 \<and> charAt s 2 \<noteq> 0x7B then
              (let q = scanUnicodeEscape report s in
               if IsLowSurrogate (fst q)
               then (EncodeRune (SurrogatePairToCodePoint codePoint (fst q)), snd q)
               else (EncodeJSStringRune codePoint, (snd q)\<lparr>s_pos := s_pos s\<rparr>))
            else (EncodeJSStringRune codePoint, s))
         else (EncodeJSStringRune codePoint, s))"

fun hexEscape_loop :: "nat \<Rightarrow> Scanner \<Rightarrow> bool \<times> Scanner" where
  "hexEscape_loop 0 s = (True, s)"
| "hexEscape_loop (Suc n) s =
     (if IsHexDigit (s_char s) then hexEscape_loop n (advance 1 s) else (False, s))"

definition escape_x :: "EscapeSequenceScanningFlags \<Rightarrow> nat \<Rightarrow> Scanner \<Rightarrow> string \<times> Scanner" where
  "escape_x flags start s0 =
     (let r = hexEscape_loop (start + 4 - s_pos s0) s0; s = snd r in
      if \<not> fst r then
        (slc (s_text s) start (s_pos s),
         let s = addFlag TokenFlagsContainsInvalidEscape s in
         if hasEsc flags EscapeFlagsReportInvalidEscapeErrors then s_error Hexadecimal_digit_expected s
         else s)
      else
        (EncodeRune (int (value_in_base 16 (slc (s_text s) (start + 2) (s_pos s)))),
         addFlag TokenFlagsHexEscape s))"

definition escape_other ::
    "EscapeSequenceScanningFlags \<Rightarrow> nat \<Rightarrow> rune \<Rightarrow> Scanner \<Rightarrow> string \<times> Scanner" where
  "escape_other flags start ch0 s0 =
     (let d = DecodeRune (drop (s_pos s0 - 1) (s_text s0));
          ch = (if RuneSelf \<le> ch0 then fst d else ch0);
          s = (if RuneSelf \<le> ch0 then s0\<lparr>s_pos := s_pos s0 - 1 + snd d\<rparr> else s0)
      in if ch = 0x2028 \<or> ch = 0x2029 then ([], s)
         else
           (EncodeRune ch,
            if hasEsc flags EscapeFlagsAnyUnicodeMode
               \<or> hasEsc flags EscapeFlagsRegularExpression \<and> \<not> hasEsc flags EscapeFlagsAnnexB
                  \<and> IsIdentifierPart ch
            then errorAt This_character_cannot_be_escaped_in_a_regular_expression (int start)
                   (int (s_pos s) - int start) s
            else s))"

definition scanEscapeSequence :: "EscapeSequenceScanningFlags \<Rightarrow> Scanner \<Rightarrow> string \<times> Scanner" where
  "scanEscapeSequence flags s0 =
     (let start = s_pos s0; s1 = advance 1 s0; ch = s_char s1 in
      if ch < 0 then ([], s_error Unexpected_end_of_text s1)
      else
        let s = advance 1 s1 in
        if ch = 0x30 \<and> \<not> IsDigit (s_char s) then ([CHR 0x00], s)
        else if 0x30 \<le> ch \<and> ch \<le> 0x37 then escape_octal flags start ch s
        else if ch = 0x38 \<or> ch = 0x39 then escape_decimal flags start ch s
        else if ch = 0x62 then ([CHR 0x08], s)
        else if ch = 0x74 then ([CHR 0x09], s)
        else if ch = 0x6E then ([CHR 0x0A], s)
        else if ch = 0x76 then ([CHR 0x0B], s)
        else if ch = 0x66 then ([CHR 0x0C], s)
        else if ch = 0x72 then ([CHR 0x0D], s)
        else if ch = 0x27 then ([CHR 0x27], s)
        else if ch = 0x22 then ([CHR 0x22], s)
        else if ch = 0x75 then escape_u flags start s
        else if ch = 0x78 then escape_x flags start s
        else if ch = 0x0D then ([], if s_char s = 0x0A then advance 1 s else s)
        else if ch = 0x0A then ([], s)
        else escape_other flags start ch s)"

subsection \<open>Frames\<close>

lemma scan_moves_skipOctal [simp]: "scan_moves s (skipOctal s)"
  using scan_moves_char [OF scan_moves_refl refl IsOctalDigit_nonneg]
  by (simp add: skipOctal_def del: advance_def)

lemma scan_moves_escape_octal [simp]: "scan_moves s (snd (escape_octal f st ch s))"
proof -
  define t where "t = skipOctal (if ch \<le> 0x33 then skipOctal s else s)"
  have m: "scan_moves s t"
    unfolding t_def by (simp add: scan_moves_trans [OF scan_moves_skipOctal scan_moves_skipOctal])
  show ?thesis
    unfolding escape_octal_def Let_def t_def [symmetric] using m by simp
qed

lemma scan_moves_escape_decimal [simp]: "scan_moves s (snd (escape_decimal f st ch s))"
  by (simp add: escape_decimal_def Let_def)

lemma scan_moves_escape_combine [simp]: "scan_moves s (snd (escape_combine c s))"
  by (simp add: escape_combine_def Let_def split: option.split)

lemma scan_moves_escape_u:
  assumes "2 \<le> s_pos s0"
  shows "scan_moves s0 (snd (escape_u f st s0))"
proof -
  define report where "report = hasEsc f EscapeFlagsReportInvalidEscapeErrors"
  define r where "r = scanUnicodeEscape report (s0\<lparr>s_pos := s_pos s0 - 2\<rparr>)"
  have "advance 2 (s0\<lparr>s_pos := s_pos s0 - 2\<rparr>) = s0"
    using assms by (simp add: numeral_2_eq_2 Suc_diff_Suc del: One_nat_def)
  then have m: "scan_moves s0 (snd r)"
    using scan_moves_scanUnicodeEscape [of "s0\<lparr>s_pos := s_pos s0 - 2\<rparr>" report]
    unfolding r_def by (simp del: advance_def)
  have c: "scan_moves s0 t \<Longrightarrow> scan_moves s0 (snd (escape_combine x t))" for t x
    using scan_moves_escape_combine by (rule scan_moves_trans [rotated])
  have q: "scan_moves s0 (snd (scanUnicodeEscape report (snd r)))" if "charAt (snd r) 1 = 0x75"
  proof -
    have "scan_moves (snd r) (snd (scanUnicodeEscape report (snd r)))"
      using charAt_pos [OF that] by (intro scan_moves_escape) simp
    with m show ?thesis by (rule scan_moves_trans)
  qed
  have q2: "scan_moves s0 ((snd (scanUnicodeEscape report (snd r)))\<lparr>s_pos := s_pos (snd r)\<rparr>)"
    if "charAt (snd r) 1 = 0x75"
    using q [OF that] scan_moves_le [OF m] scan_moves_bound [OF m] by (simp add: scan_moves_panicked)
  show ?thesis
    unfolding escape_u_def Let_def report_def [symmetric] r_def [symmetric]
    using m by (auto intro!: c q q2 simp del: scan_moves_pos One_nat_def)
qed

lemma scan_moves_hexEscape_loop [simp]: "scan_moves s (snd (hexEscape_loop n s))"
proof (induction n arbitrary: s)
  case (Suc n)
  show ?case
    using scan_moves_trans [OF scan_moves_char [OF scan_moves_refl refl IsHexDigit_nonneg] Suc]
    by (simp del: advance_def)
qed simp

lemma scan_moves_escape_x [simp]: "scan_moves s (snd (escape_x f st s))"
  by (simp add: escape_x_def Let_def)

lemma scan_moves_escape_other:
  assumes "s_pos s < s_end s"
  shows "scan_moves s (snd (escape_other f st ch (advance 1 s)))"
proof -
  have "scan_wf s \<Longrightarrow> s_pos s + snd (DecodeRune (drop (s_pos s) (s_text s))) \<le> s_end s"
    using charAndSize_le by (simp add: charAndSize_decode)
  moreover have "scan_wf s \<Longrightarrow> Suc (s_pos s) \<le> s_end s" using assms by simp
  ultimately show ?thesis
    by (simp add: escape_other_def Let_def)
qed

lemma scan_moves_scanEscapeSequence:
  "scan_moves (advance 1 s) (snd (scanEscapeSequence f s))"
proof (cases "s_char (advance 1 s) < 0")
  case True
  then show ?thesis by (simp add: scanEscapeSequence_def Let_def)
next
  case False
  define t where "t = advance 1 s"
  have lt: "s_pos t < s_end t" using False s_char_pos unfolding t_def by (simp del: advance_def)
  define u where "u = advance 1 t"
  have m: "scan_moves t u" unfolding u_def using lt by simp
  have p2: "2 \<le> s_pos u" by (simp add: u_def t_def)
  note steps = m [THEN scan_moves_trans]
  have nl: "s_char u = 0x0A \<Longrightarrow> scan_moves u (advance 1 u)"
    using scan_moves_char [OF scan_moves_refl, of u 10] by (simp del: advance_def)
  show ?thesis
    unfolding scanEscapeSequence_def Let_def t_def [symmetric] u_def [symmetric]
    using False m p2
    by (auto simp: t_def [symmetric] simp del: advance_def One_nat_def
        intro!: nl steps scan_moves_escape_u scan_moves_escape_other [OF lt, folded u_def])
qed

lemma scanEscapeSequence_pos: "s_pos s < s_pos (snd (scanEscapeSequence f s))"
  using scan_moves_le [OF scan_moves_scanEscapeSequence [of s f]] by simp

lemma scan_moves_escapeSequence:
  "s_pos s < s_end s \<Longrightarrow> scan_moves s (snd (scanEscapeSequence f s))"
  by (rule scan_moves_trans [OF _ scan_moves_scanEscapeSequence]) simp
end
