(* ===== verification/ScannerText.thy ===== *)
theory ScannerText
  imports ScannerLex
begin

text \<open>
  The sub-scanners of \<^verbatim>\<open>scanner/scanner.go\<close> that read whole literals: strings, templates and
  numbers; and what comments leave behind: directives (\<open>// @ts-ignore\<close>) and JSDoc tags.
\<close>

section \<open>Strings\<close>

text \<open>
  The slow loop of \<open>scanString\<close>: \<open>start\<close> is where the text not yet copied to \<open>sb\<close> begins.
\<close>

function string_loop :: "bool \<Rightarrow> rune \<Rightarrow> nat \<Rightarrow> string \<Rightarrow> Scanner \<Rightarrow> string \<times> Scanner" where
  "string_loop jsxAttributeString quote start sb s =
     (let ch = s_char s; here = slc (s_text s) start (s_pos s) in
      if ch < 0 then
        (sb @ here, s_error Unterminated_string_literal (addFlag TokenFlagsUnterminated s))
      else if ch = quote then (sb @ here, advance 1 s)
      else if ch = 0x5C \<and> \<not> jsxAttributeString then
        (let r = scanEscapeSequence (EscapeFlagsString OR EscapeFlagsReportErrors) s in
         string_loop jsxAttributeString quote (s_pos (snd r)) (sb @ here @ fst r) (snd r))
      else if (ch = 0x0A \<or> ch = 0x0D) \<and> \<not> jsxAttributeString then
        (sb @ here, s_error Unterminated_string_literal (addFlag TokenFlagsUnterminated s))
      else string_loop jsxAttributeString quote start sb (advance 1 s))"
  by pat_completeness auto
termination
proof (relation "measure (\<lambda>(_, _, _, _, s). s_end s - s_pos s)", goal_cases)
  case (2 jsx quote start sb s ch here r)
  then have "s_pos s < s_end s" using s_char_nonneg_iff [of s] by simp
  moreover have "s_pos s < s_pos (snd r)" using 2 scanEscapeSequence_pos by simp
  moreover have "s_end (snd r) = s_end s"
    using 2 scan_moves_end [OF scan_moves_escapeSequence] \<open>s_pos s < s_end s\<close> by simp
  ultimately show ?case by simp
next
  case (3 jsx quote start sb s ch here)
  then have "s_pos s < s_end s" using s_char_nonneg_iff [of s] by simp
  then show ?case by simp
qed simp

declare string_loop.simps [simp del]

definition scanString :: "bool \<Rightarrow> Scanner \<Rightarrow> string \<times> Scanner" where
  "scanString jsxAttributeString s0 =
     (let quote = s_char s0;
          s1 = (if quote = 0x27 then addFlag TokenFlagsSingleQuote s0 else s0);
          s = advance 1 s1;
          slow = string_loop jsxAttributeString quote (s_pos s) [] s
      in case IndexByte (drop (s_pos s) (s_text s)) (byte_of quote) of
           None \<Rightarrow> slow
         | Some strLen \<Rightarrow>
             if strLen = 0 then ([], advance 1 s)
             else
               let str = slc (s_text s) (s_pos s) (s_pos s + strLen) in
               if jsxAttributeString
                  \<or> (CHR 0x5C \<notin> set str \<and> CHR 0x0D \<notin> set str \<and> CHR 0x0A \<notin> set str)
               then (str, advance (strLen + 1) s)
               else slow)"

section \<open>Templates\<close>

definition template_stop :: "rune \<Rightarrow> bool" where
  "template_stop b \<longleftrightarrow> b \<noteq> 0x60 \<and> b \<noteq> 0x24 \<and> b \<noteq> 0x5C \<and> b \<noteq> 0x0D"

text \<open>
  The loop of \<open>scanTemplateAndSetTokenValue\<close>; \<open>parts\<close> is the slice of the parts read so far. The
  result is the parts, and whether the template ends (closed or at the end of the text) or a
  substitution begins.
\<close>

function template_loop ::
    "bool \<Rightarrow> nat \<Rightarrow> string list \<Rightarrow> Scanner \<Rightarrow> string list \<times> bool \<times> Scanner" where
  "template_loop report start parts s0 =
     (let s = scanASCIIWhile template_stop s0;
          ch = s_char s;
          here = slc (s_text s) start (s_pos s)
      in if ch < 0 then
           (parts @ [here], True,
            s_error Unterminated_template_literal (addFlag TokenFlagsUnterminated s))
         else if ch = 0x60 then (parts @ [here], True, advance 1 s)
         else if ch = 0x24 \<and> charAt s 1 = 0x7B then (parts @ [here], False, advance 2 s)
         else if ch = 0x5C then
           (let r = scanEscapeSequence
                      (EscapeFlagsString OR (if report then EscapeFlagsReportErrors else 0)) s
            in template_loop report (s_pos (snd r)) (parts @ [here, fst r]) (snd r))
         else if ch = 0x0D then
           (let s1 = advance 1 s;
                s2 = (if s_char s1 = 0x0A then advance 1 s1 else s1)
            in template_loop report (s_pos s2) (parts @ [here, [CHR 0x0A]]) s2)
         else template_loop report start parts (advance 1 s))"
  by pat_completeness auto
termination
proof (relation "measure (\<lambda>(_, _, _, s). s_end s - s_pos s)", goal_cases)
  case (2 report start parts s0 s ch here r)
  then have "s_pos s < s_end s" using s_char_nonneg_iff [of s] by simp
  moreover have "s_pos s < s_pos (snd r)" using 2 scanEscapeSequence_pos by simp
  moreover have "s_end (snd r) = s_end s"
    using 2 scan_moves_end [OF scan_moves_escapeSequence] \<open>s_pos s < s_end s\<close> by simp
  moreover have "s_end s = s_end s0" "s_pos s0 \<le> s_pos s"
    using 2 scan_moves_end [OF scan_moves_scanASCIIWhile] scan_moves_le [OF scan_moves_scanASCIIWhile]
    by simp_all
  ultimately show ?case by simp
next
  case (3 report start parts s0 s ch here s1 s2)
  then have "s_pos s < s_end s" using s_char_nonneg_iff [of s] by simp
  moreover have "s_end s = s_end s0" "s_pos s0 \<le> s_pos s"
    using 3 scan_moves_end [OF scan_moves_scanASCIIWhile] scan_moves_le [OF scan_moves_scanASCIIWhile]
    by simp_all
  moreover have "s_pos s < s_pos s2" "s_end s2 = s_end s" using 3 by (auto split: if_splits)
  ultimately show ?case by simp
next
  case (4 report start parts s0 s ch here)
  then have "s_pos s < s_end s" using s_char_nonneg_iff [of s] by simp
  moreover have "s_end s = s_end s0" "s_pos s0 \<le> s_pos s"
    using 4 scan_moves_end [OF scan_moves_scanASCIIWhile] scan_moves_le [OF scan_moves_scanASCIIWhile]
    by simp_all
  ultimately show ?case by simp
qed simp

declare template_loop.simps [simp del]

definition scanTemplateAndSetTokenValue :: "bool \<Rightarrow> Scanner \<Rightarrow> Kind \<times> Scanner" where
  "scanTemplateAndSetTokenValue shouldEmit s0 =
     (let startedWithBacktick = (s_char s0 = 0x60);
          s = advance 1 s0;
          r = template_loop shouldEmit (s_pos s) [] s;
          parts = fst r; ends = fst (snd r)
      in (if ends then (if startedWithBacktick then KindNoSubstitutionTemplateLiteral else KindTemplateTail)
          else (if startedWithBacktick then KindTemplateHead else KindTemplateMiddle),
          (snd (snd r))\<lparr>s_tokenValue := concat parts\<rparr>))"

section \<open>Numbers\<close>

text \<open>
  \<open>strconv.FormatInt\<close> of a value that is not negative, in base 8 or 10; \<open>strconv.ParseInt(\<dots>, 8, 64)\<close> with its
  error ignored returns the largest 64-bit value when the literal is out of range.
\<close>

fun format_nat :: "nat \<Rightarrow> nat \<Rightarrow> string" where
  "format_nat b n =
     (if n < b \<or> b < 2 then [char_of (48 + n)] else format_nat b (n div b) @ [char_of (48 + n mod b)])"

declare format_nat.simps [simp del]

definition parseOctal64 :: "string \<Rightarrow> nat" where
  "parseOctal64 ds = min (value_in_base 8 ds) 0x7FFFFFFFFFFFFFFF"

text \<open>
  The legacy octal literal: the value is the token value, and the diagnostic (with the preceding
  minus sign, when that was the last token) proposes the modern syntax.
\<close>

definition legacyOctal :: "nat \<Rightarrow> string \<Rightarrow> Scanner \<Rightarrow> Kind \<times> Scanner" where
  "legacyOctal start digits s0 =
     (let val = parseOctal64 digits;
          s = addFlag TokenFlagsOctal (s0\<lparr>s_tokenValue := format_nat 10 val\<rparr>);
          withMinus = (s_token s = KindMinusToken);
          literal = (if withMinus then ''-'' else []) @ ''0o'' @ format_nat 8 val;
          from = (if withMinus then int start - 1 else int start)
      in (KindNumericLiteral,
          errorAtWith Octal_literals_are_not_allowed_Use_the_syntax_0 from (int (s_pos s) - from)
            [literal] s))"

text \<open>The digits before the point; \<open>Inr\<close> is the early return of a legacy octal literal.\<close>

definition number_fixedPart :: "Scanner \<Rightarrow> (string \<times> Scanner) + (Kind \<times> Scanner)" where
  "number_fixedPart s0 =
     (if s_char s0 = 0x30 then
        (let s = advance 1 s0 in
         if s_char s = 0x5F then
           (let s = addFlag (TokenFlagsContainsSeparator OR TokenFlagsContainsInvalidSeparator) s;
                s = errorAt Numeric_separators_are_not_allowed_here (int (s_pos s)) 1 s
            in Inl (scanNumberFragment (s\<lparr>s_pos := s_pos s0\<rparr>)))
         else
           case scanDigits s of
             (digits, isOctal, s) \<Rightarrow>
               if digits = [] then Inl (''0'', s)
               else if \<not> isOctal then Inl (digits, addFlag TokenFlagsContainsLeadingZero s)
               else Inr (legacyOctal (s_pos s0) digits s))
      else Inl (scanNumberFragment s0))"

definition number_fraction :: "Scanner \<Rightarrow> string \<times> Scanner" where
  "number_fraction s =
     (if s_char s = 0x2E then scanNumberFragment (advance 1 s) else ([], s))"

text \<open>The exponent: its preamble, its digits and the end of the number.\<close>

definition number_exponent :: "Scanner \<Rightarrow> string \<times> string \<times> nat \<times> Scanner" where
  "number_exponent s0 =
     (let stop = s_pos s0 in
      if s_char s0 = 0x45 \<or> s_char s0 = 0x65 then
        (let s = addFlag TokenFlagsScientific (advance 1 s0);
             s = (if s_char s = 0x2B \<or> s_char s = 0x2D then advance 1 s else s);
             startNumericPart = s_pos s;
             r = scanNumberFragment s
         in if fst r = [] then ([], [], stop, s_error Digit_expected (snd r))
            else (slc (s_text (snd r)) stop startNumericPart, fst r, s_pos (snd r), snd r))
      else ([], [], stop, s0))"

text \<open>The check for an identifier that follows the number at once.\<close>

definition number_follow :: "nat \<Rightarrow> nat \<Rightarrow> Kind \<Rightarrow> Scanner \<Rightarrow> Kind \<times> Scanner" where
  "number_follow start fixedPartEnd result s0 =
     (if IsIdentifierStart (fst (charAndSize s0)) then
        (let idStart = s_pos s0;
             r = scanIdentifierParts identifierVariantStandard s0;
             s = snd r;
             follow = (errorAt An_identifier_or_keyword_cannot_immediately_follow_a_numeric_literal
                         (int idStart) (int (s_pos s) - int idStart) s)\<lparr>s_pos := idStart\<rparr>
         in if result \<noteq> KindBigIntLiteral \<and> length (fst r) = 1 \<and> s_text s ! idStart = CHR ''n'' then
              if hasFlag s TokenFlagsScientific then
                (result, errorAt A_bigint_literal_cannot_use_exponential_notation (int start)
                           (int (s_pos s) - int start) s)
              else if fixedPartEnd < idStart then
                (result, errorAt A_bigint_literal_must_be_an_integer (int start)
                           (int (s_pos s) - int start) s)
              else (result, follow)
            else (result, follow))
      else (result, s0))"

definition number_value :: "nat \<Rightarrow> string \<Rightarrow> string \<Rightarrow> string \<Rightarrow> string \<Rightarrow> nat \<Rightarrow> Scanner \<Rightarrow> string" where
  "number_value start fixedPart fractionalPart preamble exponentPart stop s =
     (if hasFlag s TokenFlagsContainsSeparator then
        fixedPart @ (if fractionalPart \<noteq> [] then ''.'' @ fractionalPart else [])
        @ (if exponentPart \<noteq> [] then preamble @ exponentPart else [])
      else slc (s_text s) start stop)"

definition scanNumber :: "(string \<Rightarrow> string) \<Rightarrow> Scanner \<Rightarrow> Kind \<times> Scanner" where
  "scanNumber canon s0 =
     (case number_fixedPart s0 of
        Inr r \<Rightarrow> r
      | Inl (fixedPart, s1) \<Rightarrow>
          (case number_fraction s1 of
             (fractionalPart, s2) \<Rightarrow>
               (case number_exponent s2 of
                  (preamble, exponentPart, stop, s3) \<Rightarrow>
                    (let start = s_pos s0;
                         s = s3\<lparr>s_tokenValue :=
                                  number_value start fixedPart fractionalPart preamble exponentPart stop s3\<rparr>
                     in if hasFlag s TokenFlagsContainsLeadingZero then
                          (KindNumericLiteral,
                           (errorAt Decimals_with_leading_zeros_are_not_allowed (int start)
                              (int (s_pos s) - int start) s)\<lparr>s_tokenValue := canon (s_tokenValue s)\<rparr>)
                        else
                          let r = (if s_pos s1 = s_pos s then scanBigIntSuffix canon s
                                   else (KindNumericLiteral, s\<lparr>s_tokenValue := canon (s_tokenValue s)\<rparr>))
                          in number_follow start (s_pos s1) (fst r) (snd r)))))"

definition scanInvalidCharacter :: "Scanner \<Rightarrow> Scanner" where
  "scanInvalidCharacter s =
     (let size = snd (charAndSize s)
      in (advance size (errorAt Invalid_character (int (s_pos s)) (int size) s))\<lparr>s_token := KindUnknown\<rparr>)"

section \<open>What comments leave behind\<close>

definition skip_bytes :: "(char \<Rightarrow> bool) \<Rightarrow> string \<Rightarrow> nat \<Rightarrow> nat \<Rightarrow> nat" where
  "skip_bytes p text i stop = i + run_length p (slc text i stop)"

definition processCommentDirective :: "nat \<Rightarrow> nat \<Rightarrow> bool \<Rightarrow> Scanner \<Rightarrow> Scanner" where
  "processCommentDirective start stop multiline s =
     (let text = s_text s;
          blank = (\<lambda>c. c = CHR '' '' \<or> c = CHR 0x09);
          p = (if multiline then
                 skip_bytes (\<lambda>c. c = CHR ''/'' \<or> c = CHR ''*'') text (skip_bytes blank text start stop) stop
               else skip_bytes (\<lambda>c. c = CHR ''/'') text (start + 2) stop);
          p = skip_bytes blank text p stop;
          record = (\<lambda>k. s\<lparr>s_commentDirectives :=
                          s_commentDirectives s @ [\<lparr>cd_pos = start, cd_end = stop, cd_kind = k\<rparr>]\<rparr>)
      in if \<not> (p < stop \<and> text ! p = CHR ''@'') then s
         else if HasPrefix (drop (p + 1) text) ''ts-expect-error'' then record CommentDirectiveKindExpectError
         else if HasPrefix (drop (p + 1) text) ''ts-ignore'' then record CommentDirectiveKindIgnore
         else s)"

definition tag_terminator :: "char \<Rightarrow> bool" where
  "tag_terminator c \<longleftrightarrow>
     c = CHR '' '' \<or> c = CHR 0x09 \<or> c = CHR 0x0A \<or> c = CHR 0x0D \<or> c = CHR ''}'' \<or> c = CHR ''*''"

fun hasJSDocTag :: "string \<Rightarrow> string list \<Rightarrow> bool" where
  "hasJSDocTag text [] = False"
| "hasJSDocTag text (tag # tags) =
     (if \<not> HasPrefix text tag then hasJSDocTag text tags
      else if length text = length tag then True
      else if tag_terminator (text ! length tag) then True
      else hasJSDocTag text tags)"

text \<open>One iteration at an \<open>@\<close>, on the flags; then the loop over the comment.\<close>

definition jsdoc_tag_step :: "string \<Rightarrow> TokenFlags \<Rightarrow> TokenFlags" where
  "jsdoc_tag_step text flags =
     (let f = (if flags AND TokenFlagsPrecedingJSDocWithDeprecated = 0 \<and> hasJSDocTag text [''deprecated'']
               then flags OR TokenFlagsPrecedingJSDocWithDeprecated else flags)
      in if f AND TokenFlagsPrecedingJSDocWithSeeOrLink = 0
            \<and> hasJSDocTag text [''see'', ''link'', ''linkcode'', ''linkplain'']
         then f OR TokenFlagsPrecedingJSDocWithSeeOrLink else f)"

definition jsdoc_both :: TokenFlags where
  "jsdoc_both = TokenFlagsPrecedingJSDocWithDeprecated OR TokenFlagsPrecedingJSDocWithSeeOrLink"

primrec jsdoc_tag_flags :: "string \<Rightarrow> TokenFlags \<Rightarrow> TokenFlags" where
  "jsdoc_tag_flags [] flags = flags"
| "jsdoc_tag_flags (c # text) flags =
     (if c \<noteq> CHR ''@'' then jsdoc_tag_flags text flags
      else if jsdoc_tag_step text flags AND jsdoc_both = jsdoc_both then jsdoc_tag_step text flags
      else jsdoc_tag_flags text (jsdoc_tag_step text flags))"

definition scanJSDocCommentForTags :: "string \<Rightarrow> Scanner \<Rightarrow> Scanner" where
  "scanJSDocCommentForTags commentText s =
     s\<lparr>s_tokenFlags := jsdoc_tag_flags commentText (s_tokenFlags s)\<rparr>"

section \<open>Frames\<close>

lemma scan_moves_string_loop: "scan_moves s (snd (string_loop j q st sb s))"
proof (induction j q st sb s rule: string_loop.induct)
  case (1 j q st sb s)
  show ?case
  proof (cases "s_char s < 0")
    case True
    then show ?thesis by (subst string_loop.simps) (simp add: Let_def)
  next
    case False
    then have lt: "s_pos s < s_end s" using s_char_nonneg_iff [of s] by simp
    then have a: "scan_moves s (advance 1 s)" by simp
    note e = scan_moves_trans [OF scan_moves_escapeSequence [OF lt] 1(1) [OF refl refl False _ _ refl]]
    note n = scan_moves_trans [OF a 1(2) [OF refl refl False]]
    show ?thesis
      using False a e n by (subst string_loop.simps) (simp add: Let_def del: advance_def)
  qed
qed

lemma IndexByte_bound: "IndexByte xs c = Some n \<Longrightarrow> n < length xs \<and> xs ! n = c \<and> c \<notin> set (take n xs)"
  by (induction xs arbitrary: n) (auto split: if_splits)

lemma scan_moves_scanString: "scan_moves (advance 1 s) (snd (scanString j s))"
proof -
  define q where "q = s_char s"
  define t where "t = advance 1 (if q = 0x27 then addFlag TokenFlagsSingleQuote s else s)"
  have t: "scan_moves (advance 1 s) u = scan_moves t u" for u
    unfolding t_def by (simp add: scan_moves_def same_input_def scan_wf_def)
  have slow: "scan_moves t (snd (string_loop j q (s_pos t) [] t))"
    by (rule scan_moves_string_loop)
  have fast: "scan_moves t (advance (n + 1) t)"
    if "IndexByte (drop (s_pos t) (s_text t)) (byte_of q) = Some n" for n
    using IndexByte_bound [OF that] by (auto simp: scan_wf_def)
  have fast0: "scan_moves t (advance 1 t)"
    if "IndexByte (drop (s_pos t) (s_text t)) (byte_of q) = Some 0"
    using fast [OF that] by simp
  show ?thesis
    unfolding t unfolding scanString_def Let_def q_def [symmetric] t_def [symmetric]
    using slow fast fast0 by (auto simp del: advance_def One_nat_def split: option.split)
qed

lemma scan_moves_template_loop: "scan_moves s (snd (snd (template_loop rep st ps s)))"
proof (induction rep st ps s rule: template_loop.induct)
  case (1 rep st ps s0)
  define s where "s = scanASCIIWhile template_stop s0"
  have m: "scan_moves s0 s" unfolding s_def by simp
  show ?case
  proof (cases "s_char s < 0")
    case True
    then show ?thesis using m
      by (subst template_loop.simps) (simp add: Let_def s_def [symmetric])
  next
    case False
    then have lt: "s_pos s < s_end s" using s_char_nonneg_iff [of s] by simp
    then have a: "scan_moves s0 (advance 1 s)" using m scan_moves_step by blast
    define s2 where "s2 = (if s_char (advance 1 s) = 0x0A then advance 1 (advance 1 s) else advance 1 s)"
    have a2: "scan_moves s0 s2"
      unfolding s2_def using a scan_moves_char [OF a, of 10] by (simp del: advance_def)
    have b: "scan_moves s0 (advance 2 s)" if "charAt s 1 = 0x7B"
      using charAt_pos [OF that] m lt by (simp add: scan_moves_panicked scan_moves_end)
         (use scan_moves_le [OF m] scan_moves_end [OF m] in simp)
    have e: "scan_moves s0 (snd (scanEscapeSequence f s))" for f
      by (rule scan_moves_trans [OF m scan_moves_escapeSequence [OF lt]])
    note IH = 1(1) [OF s_def refl refl False _ _ _ refl] 1(2) [OF s_def refl refl False _ _ _ _ refl s2_def]
       1(3) [OF s_def refl refl False]
    show ?thesis
      using False a b IH(1) [THEN scan_moves_trans [OF e]] IH(2) [THEN scan_moves_trans [OF a2]]
        IH(3) [THEN scan_moves_trans [OF a]]
      by (subst template_loop.simps)
        (simp add: Let_def s_def [symmetric] s2_def [symmetric] del: advance_def One_nat_def)
  qed
qed

lemma scan_moves_scanTemplate:
  "scan_moves (advance 1 s) (snd (scanTemplateAndSetTokenValue e s))"
  unfolding scanTemplateAndSetTokenValue_def Let_def
  using scan_moves_template_loop [of "advance 1 s" e "s_pos (advance 1 s)" "[]"]
  by (simp del: advance_def)
lemma scan_moves_scanInvalidCharacter [simp]: "scan_moves s (scanInvalidCharacter s)"
  using charAndSize_le by (simp add: scanInvalidCharacter_def Let_def)

lemma scan_moves_processCommentDirective [simp]: "scan_moves s (processCommentDirective a b m s)"
  by (simp add: processCommentDirective_def Let_def)

lemma scan_moves_scanJSDocCommentForTags [simp]: "scan_moves s (scanJSDocCommentForTags c s)"
  by (simp add: scanJSDocCommentForTags_def)

text \<open>
  Scanning a number does not touch the flags of the radix prefixes, so a bigint literal reached
  from there is not handed to \<open>ParsePseudoBigInt\<close>.
\<close>

definition keeps_radix :: "Scanner \<Rightarrow> Scanner \<Rightarrow> bool" where
  "keeps_radix s t \<longleftrightarrow>
     s_tokenFlags t AND TokenFlagsBinaryOrOctalSpecifier = s_tokenFlags s AND TokenFlagsBinaryOrOctalSpecifier"

lemma radix_or [simp]:
  "f AND TokenFlagsBinaryOrOctalSpecifier = 0 \<Longrightarrow>
     (g OR f) AND TokenFlagsBinaryOrOctalSpecifier = g AND (TokenFlagsBinaryOrOctalSpecifier :: TokenFlags)"
  by (simp add: bit.conj_disj_distrib2)

lemma keeps_radix_refl [simp]: "keeps_radix s s"
  by (simp add: keeps_radix_def)

lemma keeps_radix_trans [trans]: "keeps_radix s t \<Longrightarrow> keeps_radix t u \<Longrightarrow> keeps_radix s u"
  by (simp add: keeps_radix_def)

lemma keeps_radix_simps [simp]:
  "keeps_radix s (t\<lparr>s_pos := n\<rparr>) = keeps_radix s t"
  "keeps_radix s (t\<lparr>s_tokenValue := v\<rparr>) = keeps_radix s t"
  "keeps_radix s (errorAtWith m p l a t) = keeps_radix s t"
  "f AND 384 = 0 \<Longrightarrow> keeps_radix s (t\<lparr>s_tokenFlags := s_tokenFlags t OR f\<rparr>) = keeps_radix s t"
  by (simp_all add: keeps_radix_def)

lemma keeps_radix_scanASCIIWhile [simp]: "keeps_radix s (scanASCIIWhile p t) = keeps_radix s t"
  by (simp add: scanASCIIWhile_def)

lemma keeps_radix_numberFragment_loop:
  "keeps_radix s (snd (snd (snd (numberFragment_loop st as ps r s))))"
proof (induction st as ps r s rule: numberFragment_loop.induct)
  case (1 st as ps r s0)
  define s where "s = scanASCIIWhile IsDigit s0"
  have m: "keeps_radix s0 s" unfolding s_def by simp
  define f where "f = addFlag TokenFlagsContainsSeparator s"
  define as2 where "as2 = (if s_pos s > s_pos s0 then True else as)"
  define ps2 where "ps2 = (if s_pos s > s_pos s0 then False else ps)"
  define g where "g = addFlag TokenFlagsContainsInvalidSeparator f"
  define h where "h = (if ps2 then
                          errorAt Multiple_consecutive_numeric_separators_are_not_permitted (int (s_pos g)) 1 g
                        else errorAt Numeric_separators_are_not_allowed_here (int (s_pos g)) 1 g)"
  have a: "keeps_radix s0 (advance 1 f)" "keeps_radix s0 (advance 1 h)"
    using m by (simp_all add: f_def g_def h_def keeps_radix_def bit.conj_disj_distrib2)
  note IH = 1(1) [OF s_def as2_def ps2_def _ f_def, THEN keeps_radix_trans [OF a(1)]]
    1(2) [OF s_def as2_def ps2_def _ f_def _ g_def h_def, THEN keeps_radix_trans [OF a(2)]]
  show ?case
  proof (cases "s_char s = 0x5F")
    case True
    then show ?thesis using IH m
      by (subst numberFragment_loop.simps, unfold Let_def, fold s_def, fold as2_def ps2_def f_def, fold g_def, fold h_def)
        (simp del: advance_def addFlag_def)
  next
    case False
    then show ?thesis using m
      by (subst numberFragment_loop.simps) (simp add: Let_def s_def [symmetric])
  qed
qed

lemma keeps_radix_scanNumberFragment [simp]: "keeps_radix s (snd (scanNumberFragment s))"
  using keeps_radix_numberFragment_loop [of s "s_pos s" False False "[]"]
  by (auto simp: scanNumberFragment_def Let_def split: prod.splits)

lemma keeps_radix_digits_loop: "keeps_radix s (snd (digits_loop oct s))"
  by (induction oct s rule: digits_loop.induct)
     (subst digits_loop.simps, auto elim!: keeps_radix_trans [rotated])

lemma keeps_radix_scanDigits [simp]: "keeps_radix s (snd (snd (scanDigits s)))"
  using keeps_radix_digits_loop [of s True] by (auto simp: scanDigits_def split: prod.splits)

lemma number_fixedPart_frame:
  assumes "number_fixedPart s = Inl r"
  shows "scan_moves s (snd r)" "keeps_radix s (snd r)"
proof -
  define t where "t = advance 1 s"
  have t: "scan_moves s t" if "s_char s = 0x30"
    using scan_moves_char [OF scan_moves_refl that] unfolding t_def by simp
  define d where "d = scanDigits t"
  have d: "scan_moves s (snd (snd d))" if "s_char s = 0x30"
    unfolding d_def by (rule scan_moves_trans [OF t [OF that] scan_moves_scanDigits])
  have kd: "keeps_radix s (snd (snd d))"
    using keeps_radix_trans [OF _ keeps_radix_scanDigits [of t], of s] unfolding d_def t_def by simp
  define u where "u = (errorAt Numeric_separators_are_not_allowed_here (int (s_pos t)) 1
     (addFlag (TokenFlagsContainsSeparator OR TokenFlagsContainsInvalidSeparator) t))\<lparr>s_pos := s_pos s\<rparr>"
  have u: "scan_moves s u" "keeps_radix s u"
    unfolding u_def t_def by (auto simp: scan_wf_def keeps_radix_def bit.conj_disj_distrib2)
  have v: "scan_moves s (snd (scanNumberFragment u))" "keeps_radix s (snd (scanNumberFragment u))"
    using u scan_moves_trans [OF _ scan_moves_scanNumberFragment]
      keeps_radix_trans [OF _ keeps_radix_scanNumberFragment] by blast+
  have "scan_moves s (snd r) \<and> keeps_radix s (snd r)"
    using assms d kd v
    unfolding number_fixedPart_def Let_def t_def [symmetric] d_def [symmetric]
    by (auto simp: u_def split: if_splits prod.splits)
  then show "scan_moves s (snd r)" "keeps_radix s (snd r)" by simp_all
qed


lemma number_fixedPart_octal_frame:
  assumes "number_fixedPart s = Inr r"
  shows "scan_moves s (snd r)"
proof -
  have t: "scan_moves s (advance 1 s)" if "s_char s = 0x30"
    using scan_moves_char [OF scan_moves_refl that] by simp
  have d: "scan_moves s (snd (snd (scanDigits (advance 1 s))))" if "s_char s = 0x30"
    by (rule scan_moves_trans [OF t [OF that] scan_moves_scanDigits])
  show ?thesis
    using assms d unfolding number_fixedPart_def
    by (auto simp: Let_def legacyOctal_def simp del: advance_def split: if_splits prod.splits)
qed

lemma number_fraction_frame: "scan_moves s (snd (number_fraction s))" "keeps_radix s (snd (number_fraction s))"
proof -
  have "scan_moves s (advance 1 s)" if "s_char s = 0x2E"
    using scan_moves_char [OF scan_moves_refl that] by simp
  then show "scan_moves s (snd (number_fraction s))"
    using scan_moves_trans [OF _ scan_moves_scanNumberFragment]
    by (simp add: number_fraction_def del: advance_def)
  have "keeps_radix s (advance 1 s)" by simp
  then show "keeps_radix s (snd (number_fraction s))"
    using keeps_radix_trans [OF _ keeps_radix_scanNumberFragment]
    by (simp add: number_fraction_def del: advance_def)
qed

lemma number_exponent_frame:
  "scan_moves s (snd (snd (snd (number_exponent s))))"
  "keeps_radix s (snd (snd (snd (number_exponent s))))"
proof -
  define t where "t = addFlag TokenFlagsScientific (advance 1 s)"
  define u where "u = (if s_char t = 0x2B \<or> s_char t = 0x2D then advance 1 t else t)"
  have t: "scan_moves s t" if "s_char s = 0x45 \<or> s_char s = 0x65"
    using that scan_moves_char [OF scan_moves_refl, of s] unfolding t_def by auto
  have u: "scan_moves s u" if "s_char s = 0x45 \<or> s_char s = 0x65"
    using t [OF that] scan_moves_char [OF t [OF that]] unfolding u_def by (auto simp del: advance_def)
  have k: "keeps_radix s u" by (simp add: u_def t_def keeps_radix_def bit.conj_disj_distrib2)
  have v: "scan_moves s (snd (scanNumberFragment u))" if "s_char s = 0x45 \<or> s_char s = 0x65"
    by (rule scan_moves_trans [OF u [OF that] scan_moves_scanNumberFragment])
  have kv: "keeps_radix s (snd (scanNumberFragment u))"
    by (rule keeps_radix_trans [OF k keeps_radix_scanNumberFragment])
  show "scan_moves s (snd (snd (snd (number_exponent s))))"
    "keeps_radix s (snd (snd (snd (number_exponent s))))"
    unfolding number_exponent_def Let_def t_def [symmetric] u_def [symmetric]
    using v kv by auto
qed

lemma scan_moves_number_follow [simp]: "scan_moves s (snd (number_follow st fe k s))"
proof -
  define r where "r = snd (scanIdentifierParts identifierVariantStandard s)"
  have m: "scan_moves s r" unfolding r_def by simp
  have "scan_wf s \<Longrightarrow> s_pos s \<le> s_end s" by (simp add: scan_wf_def)
  then show ?thesis
    unfolding number_follow_def Let_def r_def [symmetric]
    using m by (simp add: scan_moves_panicked)
qed

text \<open>\<open>scanBigIntSuffix\<close> panics only where \<open>ParsePseudoBigInt\<close> does.\<close>

definition suffix_ok :: "Scanner \<Rightarrow> bool" where
  "suffix_ok s \<longleftrightarrow>
     (hasFlag s TokenFlagsBinaryOrOctalSpecifier \<longrightarrow> ParsePseudoBigInt (s_tokenValue s @ ''n'') \<noteq> None)"

lemma scan_moves_scanBigIntSuffix:
  assumes "suffix_ok s"
  shows "scan_moves s (snd (scanBigIntSuffix canon s))"
  using assms scan_moves_char [OF scan_moves_refl, of s 110]
  by (auto simp: scanBigIntSuffix_def Let_def suffix_ok_def hasFlag_def split: option.split)

lemma scan_moves_after_fraction:
  assumes flags: "\<not> hasFlag s TokenFlagsBinaryOrOctalSpecifier"
    and fixedPart: "number_fixedPart s = Inl r"
  shows "scan_moves (snd (number_fraction (snd r))) (snd (scanNumber canon s))"
proof -
  note f1 = number_fixedPart_frame [OF fixedPart]
  define b where "b = number_fraction (snd r)"
  note f2 = number_fraction_frame [of "snd r", folded b_def]
  define e where "e = number_exponent (snd b)"
  note f3 = number_exponent_frame [of "snd b", folded e_def]
  define x where "x = snd (snd (snd e))"
  have m: "scan_moves (snd b) x" and k: "keeps_radix s x"
    using f1 f2 f3 unfolding x_def by (blast intro: keeps_radix_trans)+
  define v where "v = number_value (s_pos s) (fst r) (fst b) (fst e) (fst (snd e)) (fst (snd (snd e))) x"
  define y where "y = x\<lparr>s_tokenValue := v\<rparr>"
  have y: "scan_moves (snd b) y" "suffix_ok y"
    using m k flags by (simp_all add: y_def suffix_ok_def hasFlag_def keeps_radix_def)
  have z: "scan_moves (snd b) (snd (scanBigIntSuffix canon y))"
    by (rule scan_moves_trans [OF y(1) scan_moves_scanBigIntSuffix [OF y(2)]])
  have "scan_moves (snd b) (y\<lparr>s_tokenValue := w\<rparr>)" for w using y(1) by simp
  note follow = this [THEN scan_moves_trans [OF _ scan_moves_number_follow]]
    z [THEN scan_moves_trans [OF _ scan_moves_number_follow]]
  show ?thesis
    unfolding scanNumber_def fixedPart b_def [symmetric]
    using y follow by (auto simp: Let_def b_def [symmetric] e_def [symmetric] x_def [symmetric]
      v_def [symmetric] y_def [symmetric] case_prod_beta)
qed

lemma scan_moves_scanNumber:
  assumes "\<not> hasFlag s TokenFlagsBinaryOrOctalSpecifier"
  shows "scan_moves s (snd (scanNumber canon s))"
proof (cases "number_fixedPart s")
  case (Inr r)
  then show ?thesis using number_fixedPart_octal_frame by (simp add: scanNumber_def)
next
  case (Inl r)
  have "scan_moves s (snd (number_fraction (snd r)))"
    using number_fixedPart_frame(1) [OF Inl] number_fraction_frame(1) by (rule scan_moves_trans)
  then show ?thesis
    using scan_moves_after_fraction [OF assms Inl] by (rule scan_moves_trans)
qed

text \<open>A number moves on because it begins with a digit or with a point.\<close>

lemma scanASCIIWhile_progress:
  assumes "scan_wf s" "p (s_char s)" "0 \<le> s_char s" "s_char s < RuneSelf"
  shows "s_pos s < s_pos (scanASCIIWhile p s)"
proof -
  have lt: "s_pos s < s_end s" using assms(3) s_char_nonneg_iff by simp
  then have "slc (s_text s) (s_pos s) (s_end s) = s_text s ! s_pos s # slc (s_text s) (Suc (s_pos s)) (s_end s)"
    using assms(1) by (simp add: scan_wf_def slc_def Cons_nth_drop_Suc [symmetric] take_Cons')
  then show ?thesis
    using assms lt by (simp add: scanASCIIWhile_def s_char_def)
qed

lemma numberFragment_after_run:
  "scan_moves (scanASCIIWhile IsDigit s) (snd (snd (snd (numberFragment_loop st as ps r s))))"
proof -
  define t where "t = scanASCIIWhile IsDigit s"
  have "s_char t = 0x5F \<Longrightarrow> scan_moves t (advance 1 t)"
    using scan_moves_char [OF scan_moves_refl, of t 95] by simp
  then show ?thesis
    by (subst numberFragment_loop.simps, unfold Let_def, fold t_def)
       (auto intro: scan_moves_trans [OF _ scan_moves_numberFragment_loop])
qed

lemma scanNumberFragment_pos:
  "s_pos (snd (scanNumberFragment s)) = s_pos (snd (snd (snd (numberFragment_loop (s_pos s) False False [] s))))"
  by (simp add: scanNumberFragment_def Let_def split: prod.split)

lemma scanNumberFragment_digit:
  assumes "IsDigit (s_char s)" "scan_wf s"
  shows "s_pos s < s_pos (snd (scanNumberFragment s))"
proof -
  have "s_pos s < s_pos (scanASCIIWhile IsDigit s)"
    using assms by (intro scanASCIIWhile_progress) (auto simp: IsDigit_def)
  also have "\<dots> \<le> s_pos (snd (scanNumberFragment s))"
    using scan_moves_le [OF numberFragment_after_run] by (simp add: scanNumberFragment_pos)
  finally show ?thesis .
qed

lemma number_fixedPart_digit:
  assumes "IsDigit (s_char s)" "scan_wf s"
  shows "number_fixedPart s = Inl r \<Longrightarrow> s_pos s < s_pos (snd r)"
    and "number_fixedPart s = Inr q \<Longrightarrow> s_pos s < s_pos (snd q)"
proof -
  define t where "t = advance 1 s"
  define u where "u = (errorAt Numeric_separators_are_not_allowed_here (int (s_pos t)) 1
     (addFlag (TokenFlagsContainsSeparator OR TokenFlagsContainsInvalidSeparator) t))\<lparr>s_pos := s_pos s\<rparr>"
  have "s_char u = s_char s" by (rule s_char_cong) (simp_all add: u_def t_def)
  moreover have "scan_wf u" using assms by (simp add: u_def t_def scan_wf_def)
  ultimately have u: "s_pos s < s_pos (snd (scanNumberFragment u))"
    using scanNumberFragment_digit [of u] assms(1) by (simp add: u_def t_def)
  have d: "s_pos s < s_pos (snd (snd (scanDigits t)))"
    using scan_moves_le [OF scan_moves_scanDigits [of t]] by (simp add: t_def)
  note n = scanNumberFragment_digit [OF assms]
  show "number_fixedPart s = Inl r \<Longrightarrow> s_pos s < s_pos (snd r)"
    using u d n unfolding number_fixedPart_def Let_def t_def [symmetric]
    by (auto simp: u_def split: if_splits prod.splits)
  show "number_fixedPart s = Inr q \<Longrightarrow> s_pos s < s_pos (snd q)"
    using d unfolding number_fixedPart_def Let_def t_def [symmetric]
    by (auto simp: legacyOctal_def Let_def split: if_splits prod.splits)
qed

lemma number_fraction_point:
  assumes "s_char s = 0x2E"
  shows "s_pos s < s_pos (snd (number_fraction s))"
  using assms scan_moves_le [OF scan_moves_scanNumberFragment [of "advance 1 s"]]
  by (simp add: number_fraction_def)

lemma scanNumber_progress:
  assumes "\<not> hasFlag s TokenFlagsBinaryOrOctalSpecifier" "scan_wf s"
    "IsDigit (s_char s) \<or> s_char s = 0x2E"
  shows "s_pos s < s_pos (snd (scanNumber canon s))"
proof (cases "number_fixedPart s")
  case (Inr q)
  then have "IsDigit (s_char s)"
    using assms(3) by (auto simp: number_fixedPart_def)
  then show ?thesis
    using number_fixedPart_digit(2) [OF _ assms(2) Inr] Inr by (simp add: scanNumber_def)
next
  case (Inl r)
  have "s_pos s < s_pos (snd (number_fraction (snd r)))"
  proof (cases "IsDigit (s_char s)")
    case True
    then show ?thesis
      using number_fixedPart_digit(1) [OF _ assms(2) Inl] scan_moves_le [OF number_fraction_frame(1) [of "snd r"]]
      by simp
  next
    case False
    then have dot: "s_char s = 0x2E" using assms(3) by simp
    have le: "s_pos s \<le> s_pos (snd r)"
      using scan_moves_le [OF number_fixedPart_frame(1) [OF Inl]] .
    show ?thesis
    proof (cases "s_pos (snd r) = s_pos s")
      case True
      have "s_char (snd r) = s_char s"
        using number_fixedPart_frame(1) [OF Inl] True
        by (intro s_char_cong) (simp_all add: scan_moves_text scan_moves_end)
      then show ?thesis using number_fraction_point [of "snd r"] dot True by simp
    next
      case False
      then show ?thesis
        using le scan_moves_le [OF number_fraction_frame(1) [of "snd r"]] by simp
    qed
  qed
  then show ?thesis
    using scan_moves_le [OF scan_moves_after_fraction [OF assms(1) Inl]] by (rule less_le_trans)
qed

end
