(* ===== verification/ScannerTrivia.thy ===== *)
theory ScannerTrivia
  imports ScannerBase
begin

text \<open>
  Trivia (\<^verbatim>\<open>scanner/scanner.go\<close>): skipping white space, comments, conflict markers and the shebang
  from a position (\<open>SkipTriviaEx\<close>), and listing the comments before or after a position
  (\<open>iterateCommentRanges\<close>). Both are pure functions of the text. A loop of the source that walks over
  runes until a line break is \<open>line_end\<close>.
\<close>

section \<open>Lines and block comments\<close>

definition line_end :: "string \<Rightarrow> nat \<Rightarrow> nat" where
  "line_end text pos = pos + runes_end (\<lambda>ch. \<not> IsLineBreak ch) (drop pos text)"

text \<open>Number of bytes up to and with the closing \<open>*/\<close>, or to the end of the text.\<close>

function block_end :: "string \<Rightarrow> nat" where
  "block_end t =
     (if t = [] then 0
      else if HasPrefix t ''*/'' then 2
      else snd (DecodeRune t) + block_end (drop (snd (DecodeRune t)) t))"
  by pat_completeness auto
termination
  by (relation "measure length") (auto simp: DecodeRune_size_pos)

declare block_end.simps [simp del]

section \<open>Conflict markers and the shebang\<close>

abbreviation (input) mergeConflictMarkerLength :: nat where "mergeConflictMarkerLength \<equiv> 7"
abbreviation (input) maxAsciiCharacter :: int where "maxAsciiCharacter \<equiv> 127"

definition isConflictMarkerTrivia :: "string \<Rightarrow> nat \<Rightarrow> bool" where
  "isConflictMarkerTrivia text pos =
     (if length text \<le> pos + 1 \<or> text ! (pos + 1) \<noteq> text ! pos then False
      else
        let atLineStart = (pos = 0 \<or> IsLineBreak (rune_of (text ! (pos - 1))));
            atLineStart = (if \<not> atLineStart \<and> 2 \<le> pos
                           then IsLineBreak (fst (DecodeLastRune (take (pos - 2) text)))
                           else atLineStart);
            ch = text ! pos
        in if atLineStart \<and> pos + mergeConflictMarkerLength < length text then
             (if \<exists>i<mergeConflictMarkerLength. text ! (pos + i) \<noteq> ch then False
              else ch = CHR ''='' \<or> text ! (pos + mergeConflictMarkerLength) = CHR '' '')
           else False)"

text \<open>The end of a \<open>|||||||\<close> or \<open>=======\<close> section.\<close>

function conflict_section_end :: "string \<Rightarrow> char \<Rightarrow> nat \<Rightarrow> nat" where
  "conflict_section_end text ch pos =
     (if length text \<le> pos then pos
      else if (text ! pos = CHR ''='' \<or> text ! pos = CHR ''>'') \<and> text ! pos \<noteq> ch
              \<and> isConflictMarkerTrivia text pos then pos
      else conflict_section_end text ch (pos + 1))"
  by pat_completeness auto
termination
  by (relation "measure (\<lambda>(text, ch, pos). length text - pos)") auto

declare conflict_section_end.simps [simp del]

text \<open>The position after the marker; \<open>None\<close> is the failed assertion.\<close>

definition scanConflictMarkerTrivia :: "string \<Rightarrow> nat \<Rightarrow> nat option" where
  "scanConflictMarkerTrivia text pos =
     (let ch = fst (DecodeRune (drop pos text)) in
      if ch = 0x3C \<or> ch = 0x3E then Some (line_end text pos)
      else if ch \<noteq> 0x7C \<and> ch \<noteq> 0x3D then None
      else Some (conflict_section_end text (text ! pos) pos))"

definition isShebangTrivia :: "string \<Rightarrow> bool" where
  "isShebangTrivia text \<longleftrightarrow> 2 \<le> length text \<and> text ! 0 = CHR ''#'' \<and> text ! 1 = CHR ''!''"

definition scanShebangTrivia :: "string \<Rightarrow> nat \<Rightarrow> nat" where
  "scanShebangTrivia text pos = line_end text (pos + 2)"

definition GetShebang :: "string \<Rightarrow> string" where
  "GetShebang text =
     (if \<not> isShebangTrivia text then [] else take (scanShebangTrivia text 0) text)"

section \<open>Skipping trivia\<close>

definition couldStartTrivia :: "string \<Rightarrow> nat \<Rightarrow> bool" where
  "couldStartTrivia text pos =
     (let ch = rune_of (text ! pos) in
      if ch \<in> {0x0D, 0x0A, 0x09, 0x0B, 0x0C, 0x20, 0x2F, 0x3C, 0x7C, 0x3D, 0x3E} then True
      else if ch = 0x23 then pos = 0
      else maxAsciiCharacter < ch)"

record SkipTriviaOptions =
  StopAfterLineBreak :: bool
  StopAtComments :: bool
  InJSDoc :: bool

definition defaultSkipTriviaOptions :: SkipTriviaOptions where
  "defaultSkipTriviaOptions = \<lparr>StopAfterLineBreak = False, StopAtComments = False, InJSDoc = False\<rparr>"

text \<open>
  One turn of the loop of \<open>SkipTriviaEx\<close>, at a position inside the text: \<open>Inl\<close> is \<open>continue\<close> with the
  new position and \<open>canConsumeStar\<close>, \<open>Inr\<close> is \<open>return\<close>.
\<close>

definition skipTrivia_line_break ::
    "SkipTriviaOptions \<Rightarrow> nat \<Rightarrow> nat \<times> bool + nat" where
  "skipTrivia_line_break options pos =
     (if StopAfterLineBreak options then Inr pos else Inl (pos, InJSDoc options))"

definition skipTrivia_slash :: "SkipTriviaOptions \<Rightarrow> string \<Rightarrow> nat \<Rightarrow> nat \<times> bool + nat" where
  "skipTrivia_slash options text pos =
     (if StopAtComments options then Inr pos
      else if pos + 1 < length text then
        (if text ! (pos + 1) = CHR ''/'' then Inl (line_end text (pos + 2), False)
         else if text ! (pos + 1) = CHR ''*'' then Inl (pos + 2 + block_end (drop (pos + 2) text), False)
         else Inr pos)
      else Inr pos)"

definition skipTrivia_step :: "SkipTriviaOptions \<Rightarrow> string \<Rightarrow> nat \<Rightarrow> bool \<Rightarrow> nat \<times> bool + nat" where
  "skipTrivia_step options text pos canConsumeStar =
     (let ch = fst (DecodeRune (drop pos text)); size = snd (DecodeRune (drop pos text)) in
      if ch = 0x0D then
        skipTrivia_line_break options
          (if pos + 1 < length text \<and> text ! (pos + 1) = CHR 0x0A then pos + 2 else pos + 1)
      else if ch = 0x0A then skipTrivia_line_break options (pos + 1)
      else if ch = 0x09 \<or> ch = 0x0B \<or> ch = 0x0C \<or> ch = 0x20 then Inl (pos + 1, canConsumeStar)
      else if ch = 0x2F then skipTrivia_slash options text pos
      else if ch = 0x3C \<or> ch = 0x7C \<or> ch = 0x3D \<or> ch = 0x3E then
        (if isConflictMarkerTrivia text pos then
           (case scanConflictMarkerTrivia text pos of Some p \<Rightarrow> Inl (p, False) | None \<Rightarrow> Inr pos)
         else Inr pos)
      else if ch = 0x23 then
        (if pos = 0 \<and> isShebangTrivia text then Inl (scanShebangTrivia text pos, False) else Inr pos)
      else if ch = 0x2A then (if canConsumeStar then Inl (pos + 1, False) else Inr pos)
      else if maxAsciiCharacter < ch \<and> IsWhiteSpaceLike ch then Inl (pos + size, canConsumeStar)
      else Inr pos)"

lemma line_end_ge: "pos \<le> line_end text pos"
  by (simp add: line_end_def)

lemma line_end_le: "pos \<le> length text \<Longrightarrow> line_end text pos \<le> length text"
  using runes_end_le [of "\<lambda>ch. \<not> IsLineBreak ch" "drop pos text"] by (simp add: line_end_def)

lemma HasPrefix_length: "HasPrefix t p \<Longrightarrow> length p \<le> length t"
  unfolding HasPrefix_def by (metis length_take min.cobounded1)

lemma block_end_le: "block_end t \<le> length t"
proof (induction t rule: block_end.induct)
  case (1 t)
  show ?case
  proof (cases "t = [] \<or> HasPrefix t ''*/''")
    case True
    then show ?thesis
      using HasPrefix_length [of t "''*/''"] by (subst block_end.simps) auto
  next
    case False
    then have "block_end (drop (snd (DecodeRune t)) t) \<le> length t - snd (DecodeRune t)"
      using 1 by simp
    moreover have "block_end t = snd (DecodeRune t) + block_end (drop (snd (DecodeRune t)) t)"
      using False by (subst block_end.simps) simp
    ultimately show ?thesis using DecodeRune_size_le [of t] by arith
  qed
qed

lemma conflict_section_end_ge: "pos \<le> conflict_section_end t ch pos"
proof (induction t ch pos rule: conflict_section_end.induct)
  case (1 t ch pos)
  then show ?case by (subst conflict_section_end.simps) auto
qed

lemma conflict_section_end_le: "pos \<le> length t \<Longrightarrow> conflict_section_end t ch pos \<le> length t"
proof (induction t ch pos rule: conflict_section_end.induct)
  case (1 t ch pos)
  then show ?case by (subst conflict_section_end.simps) auto
qed

lemma DecodeRune_at_ascii:
  assumes "fst (DecodeRune (drop p t)) < 0x80"
  shows "p < length t" "rune_of (t ! p) = fst (DecodeRune (drop p t))" "snd (DecodeRune (drop p t)) = 1"
proof -
  obtain c r where cr: "drop p t = c # r" "rune_of c = fst (DecodeRune (drop p t))"
     "snd (DecodeRune (drop p t)) = 1"
    using DecodeRune_is_ascii assms by metis
  then show "p < length t" by (metis drop_all leI list.distinct(1))
  with cr show "rune_of (t ! p) = fst (DecodeRune (drop p t))" "snd (DecodeRune (drop p t)) = 1"
    by (metis hd_drop_conv_nth list.sel(1), simp)
qed

lemma scanConflictMarkerTrivia_bounds:
  assumes "scanConflictMarkerTrivia t pos = Some p" "pos < length t"
  shows "pos < p" "p \<le> length t"
proof -
  define ch where "ch = fst (DecodeRune (drop pos t))"
  define size where "size = snd (DecodeRune (drop pos t))"
  have le: "p \<le> length t"
    using assms line_end_le conflict_section_end_le
    by (auto simp: scanConflictMarkerTrivia_def Let_def split: if_splits)
  have "pos < line_end t pos" if "ch = 0x3C \<or> ch = 0x3E"
  proof -
    have "0 < size" using assms(2) by (simp add: size_def DecodeRune_size_pos)
    then show ?thesis
      using that unfolding ch_def size_def line_end_def
      by (subst runes_end.simps) (auto simp: Let_def IsLineBreak_def)
  qed
  moreover have "pos < conflict_section_end t (t ! pos) pos"
    using conflict_section_end_ge [of "pos + 1" t "t ! pos"] assms(2)
    by (subst conflict_section_end.simps) auto
  ultimately have "pos < p"
    using assms(1) unfolding ch_def by (auto simp: scanConflictMarkerTrivia_def Let_def split: if_splits)
  with le show "pos < p" "p \<le> length t" by simp_all
qed

lemma skipTrivia_step_bounds:
  assumes "pos < length t"
  shows "skipTrivia_step opts t pos star = Inl (p, st) \<Longrightarrow> pos < p \<and> p \<le> length t"
    and "skipTrivia_step opts t pos star = Inr p \<Longrightarrow> pos \<le> p \<and> p \<le> length t"
proof -
  define ch where "ch = fst (DecodeRune (drop pos t))"
  define size where "size = snd (DecodeRune (drop pos t))"
  have size: "0 < size" "pos + size \<le> length t"
    using assms DecodeRune_size_le [of "drop pos t"] by (simp_all add: size_def DecodeRune_size_pos)
  have line: "pos + 1 < length t \<Longrightarrow> pos < line_end t (pos + 2) \<and> line_end t (pos + 2) \<le> length t"
    using line_end_ge [of "pos + 2" t] line_end_le [of "pos + 2" t] by simp
  have block: "pos + 1 < length t \<Longrightarrow> pos + 2 + block_end (drop (pos + 2) t) \<le> length t"
    using block_end_le [of "drop (pos + 2) t"] by simp
  have shebang: "isShebangTrivia t \<Longrightarrow> 0 < scanShebangTrivia t 0 \<and> scanShebangTrivia t 0 \<le> length t"
    using line_end_ge [of 2 t] line_end_le [of 2 t] by (simp add: scanShebangTrivia_def isShebangTrivia_def numeral_2_eq_2)
  note conflict = scanConflictMarkerTrivia_bounds [OF _ assms]
  note defs = skipTrivia_step_def Let_def ch_def [symmetric] size_def [symmetric]
    skipTrivia_line_break_def skipTrivia_slash_def
  show "skipTrivia_step opts t pos star = Inl (p, st) \<Longrightarrow> pos < p \<and> p \<le> length t"
    using assms size line block shebang conflict unfolding defs
    by (auto split: if_splits option.splits)
  show "skipTrivia_step opts t pos star = Inr p \<Longrightarrow> pos \<le> p \<and> p \<le> length t"
    using assms size unfolding defs by (auto split: if_splits option.splits)
qed

function skipTrivia_loop :: "SkipTriviaOptions \<Rightarrow> string \<Rightarrow> nat \<Rightarrow> bool \<Rightarrow> nat" where
  "skipTrivia_loop options text pos canConsumeStar =
     (if length text \<le> pos then pos
      else
        case skipTrivia_step options text pos canConsumeStar of
          Inl r \<Rightarrow> skipTrivia_loop options text (fst r) (snd r)
        | Inr p \<Rightarrow> p)"
  by pat_completeness auto
termination
  by (relation "measure (\<lambda>(_, t, pos, _). length t - pos)")
     (auto dest: skipTrivia_step_bounds(1) [rotated])

declare skipTrivia_loop.simps [simp del]

text \<open>A negative position is synthesized and is returned as it is.\<close>

definition SkipTriviaEx :: "string \<Rightarrow> int \<Rightarrow> SkipTriviaOptions option \<Rightarrow> int" where
  "SkipTriviaEx text pos options =
     (if pos < 0 then pos
      else int (skipTrivia_loop (case options of None \<Rightarrow> defaultSkipTriviaOptions | Some opts \<Rightarrow> opts)
                  text (nat pos) False))"

definition SkipTrivia :: "string \<Rightarrow> int \<Rightarrow> int" where
  "SkipTrivia text pos = SkipTriviaEx text pos None"

section \<open>Facts about skipping\<close>

lemma skipTrivia_loop_bounds:
  "pos \<le> length t \<Longrightarrow> pos \<le> skipTrivia_loop opts t pos star \<and> skipTrivia_loop opts t pos star \<le> length t"
proof (induction opts t pos star rule: skipTrivia_loop.induct)
  case (1 opts t pos star)
  show ?case
  proof (cases "pos < length t")
    case True
    note b = skipTrivia_step_bounds [OF True, of opts star]
    show ?thesis
    proof (cases "skipTrivia_step opts t pos star")
      case (Inl r)
      with b(1) [of "fst r" "snd r"] have "pos < fst r" "fst r \<le> length t" by simp_all
      with 1 Inl True show ?thesis
        by (subst (1 2) skipTrivia_loop.simps) auto
    next
      case (Inr p)
      with b(2) [of p] True show ?thesis by (subst (1 2) skipTrivia_loop.simps) simp
    qed
  next
    case False
    with 1 show ?thesis by (subst (1 2) skipTrivia_loop.simps) simp
  qed
qed

lemma skipTrivia_step_stop:
  assumes "skipTrivia_step opts t pos star = Inr p" "\<not> StopAfterLineBreak opts"
  shows "p = pos" "skipTrivia_step opts t pos False = Inr pos"
proof -
  obtain ch size where d: "DecodeRune (drop pos t) = (ch, size)" by fastforce
  note step = assms(1) [unfolded skipTrivia_step_def Let_def d fst_conv snd_conv]
  show p: "p = pos"
    using step assms(2) unfolding skipTrivia_line_break_def skipTrivia_slash_def
    by (simp split: if_split_asm option.split_asm)
  have "ch \<noteq> 0x09" "ch \<noteq> 0x0B" "ch \<noteq> 0x0C" "ch \<noteq> 0x20"
    by (rule notI, use step in simp)+
  moreover have "ch = 0x2A \<Longrightarrow> star = False"
    using step by (cases star) simp_all
  moreover have "\<not> (maxAsciiCharacter < ch \<and> IsWhiteSpaceLike ch)"
  proof
    assume "maxAsciiCharacter < ch \<and> IsWhiteSpaceLike ch"
    with step show False by (simp split del: if_split)
  qed
  ultimately show "skipTrivia_step opts t pos False = Inr pos"
    using step unfolding p skipTrivia_step_def Let_def d fst_conv snd_conv
    by (cases "maxAsciiCharacter < ch") (simp_all split del: if_split cong: if_cong)
qed

lemma skipTrivia_loop_stops:
  "\<not> StopAfterLineBreak opts \<Longrightarrow>
     skipTrivia_loop opts t (skipTrivia_loop opts t pos star) False = skipTrivia_loop opts t pos star"
proof (induction opts t pos star rule: skipTrivia_loop.induct)
  case (1 opts t pos star)
  show ?case
  proof (cases "pos < length t")
    case True
    show ?thesis
    proof (cases "skipTrivia_step opts t pos star")
      case (Inl r)
      then have "skipTrivia_loop opts t pos star = skipTrivia_loop opts t (fst r) (snd r)"
        using True by (subst skipTrivia_loop.simps) simp
      with 1 Inl True show ?thesis by simp
    next
      case (Inr p)
      then have "skipTrivia_loop opts t pos star = pos"
        using True skipTrivia_step_stop [OF Inr 1(2)] by (subst skipTrivia_loop.simps) simp
      then show ?thesis
        using True skipTrivia_step_stop [OF Inr 1(2)] by (simp, subst skipTrivia_loop.simps) simp
    qed
  next
    case False
    then have "skipTrivia_loop opts t pos star = pos" by (subst skipTrivia_loop.simps) simp
    with False show ?thesis by (simp, subst skipTrivia_loop.simps) simp
  qed
qed

text \<open>\<open>couldStartTrivia\<close> is kept in step with \<open>SkipTriviaEx\<close>: where it says no, nothing is skipped.\<close>

lemma DecodeRune_at_high:
  assumes "p < length t" "\<not> rune_of (t ! p) < 0x80"
  shows "0x80 \<le> fst (DecodeRune (drop p t))"
proof -
  have "drop p t = t ! p # drop (Suc p) t" using assms(1) by (simp add: Cons_nth_drop_Suc)
  then show ?thesis using DecodeRune_at_ascii [of p t] assms by fastforce
qed

lemma skipTrivia_step_sync:
  assumes "pos < length t" "\<not> couldStartTrivia t pos"
  shows "skipTrivia_step opts t pos False = Inr pos"
proof -
  define ch where "ch = fst (DecodeRune (drop pos t))"
  have b: "rune_of (t ! pos) < 0x80"
    using assms by (auto simp: couldStartTrivia_def Let_def split: if_splits)
  have "DecodeRune (drop pos t) = (rune_of (t ! pos), 1)"
    using b assms(1) by (metis Cons_nth_drop_Suc DecodeRune_ascii)
  then show ?thesis
    using assms unfolding skipTrivia_step_def couldStartTrivia_def
    by (auto simp: Let_def skipTrivia_line_break_def skipTrivia_slash_def split: if_splits)
qed

section \<open>Comment ranges\<close>

record CommentRange =
  cr_kind :: Kind
  cr_pos :: nat
  cr_end :: nat
  cr_newline :: bool

text \<open>
  What \<open>case '/'\<close> of \<open>iterateCommentRanges\<close> reads at a comment that starts at \<open>startPos\<close>.
\<close>

definition comment_at :: "string \<Rightarrow> nat \<Rightarrow> CommentRange option" where
  "comment_at text startPos =
     (if startPos + 1 < length text \<and> text ! (startPos + 1) = CHR ''/'' then
        (let e = line_end text (startPos + 2)
         in Some \<lparr>cr_kind = KindSingleLineCommentTrivia, cr_pos = startPos, cr_end = e,
                  cr_newline = e < length text\<rparr>)
      else if startPos + 1 < length text \<and> text ! (startPos + 1) = CHR ''*'' then
        Some \<lparr>cr_kind = KindMultiLineCommentTrivia, cr_pos = startPos,
              cr_end = (case strIndex (drop (startPos + 2) text) ''*/'' of
                          Some i \<Rightarrow> startPos + 2 + i + 2
                        | None \<Rightarrow> length text),
              cr_newline = False\<rparr>
      else None)"

definition pending_newline :: "CommentRange option \<Rightarrow> CommentRange option" where
  "pending_newline pending = map_option (\<lambda>c. c\<lparr>cr_newline := True\<rparr>) pending"

definition pending_list :: "CommentRange option \<Rightarrow> CommentRange list" where
  "pending_list pending = (case pending of None \<Rightarrow> [] | Some c \<Rightarrow> [c])"

text \<open>
  One turn of the loop, at a position inside the text: the ranges yielded, and \<open>None\<close> for
  \<open>break scan\<close> or the new position, \<open>collecting\<close> and the pending range.
\<close>

definition ranges_line_break ::
    "bool \<Rightarrow> nat \<Rightarrow> bool \<Rightarrow> CommentRange option \<Rightarrow> (nat \<times> bool \<times> CommentRange option) option" where
  "ranges_line_break trailing pos collecting pending =
     (if trailing then None else Some (pos, True, pending_newline pending))"

definition ranges_step ::
    "string \<Rightarrow> bool \<Rightarrow> nat \<Rightarrow> bool \<Rightarrow> CommentRange option \<Rightarrow>
     CommentRange list \<times> (nat \<times> bool \<times> CommentRange option) option" where
  "ranges_step text trailing pos collecting pending =
     (let ch = fst (DecodeRune (drop pos text)); size = snd (DecodeRune (drop pos text)) in
      if ch = 0x0D then
        ([], ranges_line_break trailing
               (if pos + 1 < length text \<and> text ! (pos + 1) = CHR 0x0A then pos + 2 else pos + 1)
               collecting pending)
      else if ch = 0x0A then ([], ranges_line_break trailing (pos + 1) collecting pending)
      else if ch = 0x09 \<or> ch = 0x0B \<or> ch = 0x0C \<or> ch = 0x20 then
        ([], Some (pos + 1, collecting, pending))
      else if ch = 0x2F then
        (case comment_at text pos of
           None \<Rightarrow> ([], None)
         | Some c \<Rightarrow>
             if collecting then (pending_list pending, Some (cr_end c, collecting, Some c))
             else ([], Some (cr_end c, collecting, pending)))
      else if 0x7F < ch \<and> IsWhiteSpaceLike ch then
        ([], Some (pos + size, collecting, if IsLineBreak ch then pending_newline pending else pending))
      else ([], None))"

lemma strIndex_bound: "strIndex t p = Some i \<Longrightarrow> i + length p \<le> length t"
proof (induction t arbitrary: i)
  case (Cons x t)
  show ?case
  proof (cases "HasPrefix (x # t) p")
    case True
    with Cons.prems have "i = 0" by simp
    with True show ?thesis using HasPrefix_length by fastforce
  next
    case False
    with Cons show ?thesis by auto
  qed
qed (simp split: if_splits)

lemma comment_at_bounds:
  assumes "comment_at t pos = Some c"
  shows "cr_pos c = pos" "pos + 2 \<le> cr_end c" "cr_end c \<le> length t" "pos + 1 < length t"
proof -
  have "pos + 1 < length t \<Longrightarrow> line_end t (pos + 2) \<le> length t"
    using line_end_le [of "pos + 2" t] by simp
  moreover have "pos + 2 \<le> line_end t (pos + 2)" by (rule line_end_ge)
  moreover have "pos + 1 < length t \<Longrightarrow> strIndex (drop (pos + 2) t) ''*/'' = Some i \<Longrightarrow> pos + 2 + i + 2 \<le> length t" for i
    using strIndex_bound [of "drop (pos + 2) t" "''*/''" i] by simp
  ultimately show "cr_pos c = pos" "pos + 2 \<le> cr_end c" "cr_end c \<le> length t" "pos + 1 < length t"
    using assms unfolding comment_at_def Let_def by (auto split: if_splits option.splits)
qed

lemma ranges_step_bounds:
  assumes "pos < length t" "snd (ranges_step t tr pos col pend) = Some (p, col', pend')"
  shows "pos < p" "p \<le> length t"
proof -
  define ch where "ch = fst (DecodeRune (drop pos t))"
  define size where "size = snd (DecodeRune (drop pos t))"
  have size: "0 < size" "pos + size \<le> length t"
    using assms(1) DecodeRune_size_le [of "drop pos t"] by (simp_all add: size_def DecodeRune_size_pos)
  have com: "pos < cr_end c" "cr_end c \<le> length t" if "comment_at t pos = Some c" for c
    using comment_at_bounds [OF that] by simp_all
  have "pos < p \<and> p \<le> length t"
    using assms size com unfolding ranges_step_def Let_def ch_def [symmetric] size_def [symmetric]
      ranges_line_break_def
    by (auto split: if_splits option.splits)
  then show "pos < p" "p \<le> length t" by simp_all
qed

function ranges_loop ::
    "string \<Rightarrow> bool \<Rightarrow> nat \<Rightarrow> bool \<Rightarrow> CommentRange option \<Rightarrow> CommentRange list" where
  "ranges_loop text trailing pos collecting pending =
     (if pos < length text then
        (case ranges_step text trailing pos collecting pending of
           (out, None) \<Rightarrow> out @ pending_list pending
         | (out, Some (p, c, q)) \<Rightarrow> out @ ranges_loop text trailing p c q)
      else pending_list pending)"
  by pat_completeness auto
termination
proof (relation "measure (\<lambda>(t, _, pos, _, _). length t - pos)", goal_cases)
  case (2 t tr pos col pend out x y p z c q)
  then have "snd (ranges_step t tr pos col pend) = Some (p, c, q)" by (metis snd_conv)
  from ranges_step_bounds(1) [OF 2(1) this] 2(1) show ?case by simp
qed simp

declare ranges_loop.simps [simp del]

text \<open>The ranges that a consumer which asks for all of them receives.\<close>

definition iterateCommentRanges :: "string \<Rightarrow> int \<Rightarrow> bool \<Rightarrow> CommentRange list" where
  "iterateCommentRanges text pos trailing =
     (if pos < 0 then []
      else if pos = 0 then
        ranges_loop text trailing (if isShebangTrivia text then scanShebangTrivia text 0 else 0) True None
      else ranges_loop text trailing (nat pos) trailing None)"

definition GetLeadingCommentRanges :: "string \<Rightarrow> int \<Rightarrow> CommentRange list" where
  "GetLeadingCommentRanges text pos = iterateCommentRanges text pos False"

definition GetTrailingCommentRanges :: "string \<Rightarrow> int \<Rightarrow> CommentRange list" where
  "GetTrailingCommentRanges text pos = iterateCommentRanges text pos True"

section \<open>Comment ranges are comments, in order\<close>

definition is_comment :: "string \<Rightarrow> CommentRange \<Rightarrow> bool" where
  "is_comment text c \<longleftrightarrow>
     cr_pos c + 2 \<le> cr_end c \<and> cr_end c \<le> length text \<and> text ! cr_pos c = CHR ''/''
     \<and> (cr_kind c = KindSingleLineCommentTrivia \<and> text ! (cr_pos c + 1) = CHR ''/''
         \<or> cr_kind c = KindMultiLineCommentTrivia \<and> text ! (cr_pos c + 1) = CHR ''*'')"

fun ordered_comments :: "string \<Rightarrow> nat \<Rightarrow> CommentRange list \<Rightarrow> bool" where
  "ordered_comments text lo [] = True"
| "ordered_comments text lo (c # cs) =
     (lo \<le> cr_pos c \<and> is_comment text c \<and> ordered_comments text (cr_end c) cs)"

lemma ordered_comments_mono: "ordered_comments t lo cs \<Longrightarrow> lo' \<le> lo \<Longrightarrow> ordered_comments t lo' cs"
  by (cases cs) auto

definition pending_ok :: "string \<Rightarrow> nat \<Rightarrow> nat \<Rightarrow> CommentRange option \<Rightarrow> bool" where
  "pending_ok text lo pos pending =
     (case pending of None \<Rightarrow> lo \<le> pos
      | Some c \<Rightarrow> lo \<le> cr_pos c \<and> is_comment text c \<and> cr_end c \<le> pos)"

lemma is_comment_newline [simp]: "is_comment t (c\<lparr>cr_newline := b\<rparr>) = is_comment t c"
  by (simp add: is_comment_def)

lemma pending_ok_newline: "pending_ok t lo pos p \<Longrightarrow> pending_ok t lo pos (pending_newline p)"
  by (simp add: pending_ok_def pending_newline_def split: option.splits)

lemma pending_ok_mono: "pending_ok t lo pos p \<Longrightarrow> pos \<le> pos' \<Longrightarrow> pending_ok t lo pos' p"
  by (auto simp: pending_ok_def split: option.splits)

lemma pending_ok_list: "pending_ok t lo pos p \<Longrightarrow> ordered_comments t lo (pending_list p)"
  by (auto simp: pending_ok_def pending_list_def split: option.splits)

lemma comment_at_is_comment:
  assumes "comment_at t pos = Some c" "t ! pos = CHR ''/''"
  shows "is_comment t c"
proof -
  have "cr_kind c = KindSingleLineCommentTrivia \<and> t ! (pos + 1) = CHR ''/''
      \<or> cr_kind c = KindMultiLineCommentTrivia \<and> t ! (pos + 1) = CHR ''*''"
    using assms(1) by (auto simp: comment_at_def Let_def split: if_splits)
  with comment_at_bounds [OF assms(1)] assms(2) show ?thesis by (simp add: is_comment_def)
qed

lemma of_char_slash: "rune_of c = 0x2F \<Longrightarrow> c = CHR ''/''"
  using of_char_eq_iff [of c "CHR ''/''", where 'a = int] by simp

lemma ordered_comments_pending:
  "pending_ok t lo pos pend \<Longrightarrow> ordered_comments t pos cs \<Longrightarrow>
     ordered_comments t lo (pending_list pend @ cs)"
  by (auto simp: pending_ok_def pending_list_def split: option.splits intro: ordered_comments_mono)

lemma ranges_step_ordered:
  assumes "pos < length t" "pending_ok t lo pos pend"
  shows "snd (ranges_step t tr pos col pend) = None \<Longrightarrow> fst (ranges_step t tr pos col pend) = []"
    and "snd (ranges_step t tr pos col pend) = Some (p, c, q) \<Longrightarrow>
           pos < p \<and> (fst (ranges_step t tr pos col pend) = [] \<and> pending_ok t lo p q
            \<or> fst (ranges_step t tr pos col pend) = pending_list pend \<and> pending_ok t pos p q)"
proof -
  obtain ch size where d: "DecodeRune (drop pos t) = (ch, size)" by fastforce
  note step = ranges_step_def [of t tr pos col pend, unfolded Let_def d fst_conv snd_conv]
  have slash: "ch = 0x2F \<Longrightarrow> t ! pos = CHR ''/''"
    using DecodeRune_at_ascii [of pos t] of_char_slash unfolding d by simp
  have com: "ch = 0x2F \<Longrightarrow> comment_at t pos = Some c \<Longrightarrow> pending_ok t pos (cr_end c) (Some c)" for c
    using comment_at_is_comment [OF _ slash] comment_at_bounds by (simp add: pending_ok_def)
  show "snd (ranges_step t tr pos col pend) = None \<Longrightarrow> fst (ranges_step t tr pos col pend) = []"
    unfolding step by (auto split: if_splits option.splits)
  assume s: "snd (ranges_step t tr pos col pend) = Some (p, c, q)"
  note lt = ranges_step_bounds(1) [OF assms(1) s]
  note keep = pending_ok_mono [OF assms(2)] pending_ok_mono [OF pending_ok_newline [OF assms(2)]]
  show "pos < p \<and> (fst (ranges_step t tr pos col pend) = [] \<and> pending_ok t lo p q
            \<or> fst (ranges_step t tr pos col pend) = pending_list pend \<and> pending_ok t pos p q)"
    using s lt com keep unfolding step ranges_line_break_def
    by (auto split: if_split_asm option.split_asm)
qed

lemma ranges_loop_ordered:
  "pending_ok t lo pos pend \<Longrightarrow> ordered_comments t lo (ranges_loop t tr pos col pend)"
proof (induction t tr pos col pend arbitrary: lo rule: ranges_loop.induct)
  case (1 t tr pos col pend)
  show ?case
  proof (cases "pos < length t")
    case False
    then show ?thesis using pending_ok_list [OF 1(2)] by (subst ranges_loop.simps) simp
  next
    case True
    obtain out r where s: "ranges_step t tr pos col pend = (out, r)" by fastforce
    note step = ranges_step_ordered [OF True 1(2), of tr col, unfolded s fst_conv snd_conv]
    show ?thesis
    proof (cases r)
      case None
      then show ?thesis
        using True s step(1) pending_ok_list [OF 1(2)] by (subst ranges_loop.simps) simp
    next
      case (Some x)
      obtain p c q where x: "x = (p, c, q)" by (cases x)
      have eq: "ranges_loop t tr pos col pend = out @ ranges_loop t tr p c q"
        using True s Some x by (subst ranges_loop.simps) simp
      note IH = 1(1) [OF True s [symmetric] Some x [symmetric] refl]
      show ?thesis
        using step(2) [of p c q] IH Some x ordered_comments_pending [OF 1(2)]
        unfolding eq by (auto intro: ordered_comments_mono)
    qed
  qed
qed


text \<open>A byte inside a rune is a continuation byte, so both ways of finding \<open>*/\<close> agree.\<close>

lemma decode_continuation:
  "i < snd (decode2 b r) \<Longrightarrow> 0 < i \<Longrightarrow> 0x80 \<le> rune_of (r ! (i - 1))"
  "i < snd (decode3 lo hi b r) \<Longrightarrow> 0 < i \<Longrightarrow> 0x80 \<le> lo \<Longrightarrow> 0x80 \<le> rune_of (r ! (i - 1))"
  "i < snd (decode4 lo hi b r) \<Longrightarrow> 0 < i \<Longrightarrow> 0x80 \<le> lo \<Longrightarrow> 0x80 \<le> rune_of (r ! (i - 1))"
  by (auto simp: decode2_def decode3_def decode4_def byte_in_def less_Suc_eq numeral_2_eq_2
        numeral_3_eq_3 eval_nat_numeral(2) split: if_splits list.splits)

lemma DecodeRune_continuation:
  assumes "0 < i" "i < snd (DecodeRune t)"
  shows "0x80 \<le> rune_of (t ! i)"
proof (cases t)
  case (Cons c r)
  then have "t ! i = r ! (i - 1)" using assms(1) by simp
  then show ?thesis
    using assms Cons decode_continuation [where i = i and r = r]
    by (auto simp: DecodeRune_def Let_def simp del: One_nat_def split: if_split_asm)
qed (use assms in simp)

lemma strIndex_skip:
  "n \<le> length t \<Longrightarrow> (\<And>i. i < n \<Longrightarrow> \<not> HasPrefix (drop i t) p) \<Longrightarrow>
     strIndex t p = map_option ((+) n) (strIndex (drop n t) p)"
proof (induction n arbitrary: t)
  case 0
  then show ?case by (cases "strIndex t p") auto
next
  case (Suc n)
  then obtain x u where t: "t = x # u" by (cases t) auto
  have "strIndex u p = map_option ((+) n) (strIndex (drop n u) p)"
    using Suc.prems(1) Suc.prems(2) [of "Suc i" for i] by (intro Suc.IH) (simp_all add: t)
  moreover have "\<not> HasPrefix t p" using Suc.prems(2) [of 0] by simp
  ultimately show ?case by (cases "strIndex (drop n u) p") (simp_all add: t)
qed

lemma HasPrefix_hd: "HasPrefix t (c # p) \<Longrightarrow> t \<noteq> [] \<and> t ! 0 = c"
  by (cases t) (auto simp: HasPrefix_def)

lemma block_end_strIndex:
  "block_end t = (case strIndex t ''*/'' of Some i \<Rightarrow> i + 2 | None \<Rightarrow> length t)"
proof (induction t rule: block_end.induct)
  case (1 t)
  consider "t = []" | "t \<noteq> []" "HasPrefix t ''*/''" | "t \<noteq> []" "\<not> HasPrefix t ''*/''" by blast
  then show ?case
  proof cases
    case 1
    then show ?thesis by (subst block_end.simps) (simp add: HasPrefix_def)
  next
    case 2
    then show ?thesis by (subst block_end.simps, cases t) simp_all
  next
    case 3
    define n where "n = snd (DecodeRune t)"
    have n: "n \<le> length t" unfolding n_def by (rule DecodeRune_size_le)
    have "\<not> HasPrefix (drop i t) ''*/''" if "i < n" for i
    proof (cases "i = 0")
      case False
      then have "0x80 \<le> rune_of (t ! i)" using that DecodeRune_continuation [of i t] by (simp add: n_def)
      then show ?thesis using that n HasPrefix_hd [of "drop i t" "CHR ''*''" "''/''"] by auto
    qed (use 3 in simp)
    then have "strIndex t ''*/'' = map_option ((+) n) (strIndex (drop n t) ''*/'')"
      by (rule strIndex_skip [OF n])
    moreover have "block_end t = n + block_end (drop n t)"
      using 3 by (subst block_end.simps) (simp add: n_def)
    ultimately show ?thesis
      using 1 [OF 3] n by (simp add: n_def [symmetric] split: option.split)
  qed
qed

section \<open>Properties\<close>

text \<open>From a position in the text, \<open>SkipTrivia\<close> returns a position between it and the end of the
  text, and skipping again from there moves no further.\<close>

theorem SkipTrivia_idempotent:
  assumes "0 \<le> pos" "pos \<le> int (length text)"
  shows "pos \<le> SkipTrivia text pos \<and> SkipTrivia text pos \<le> int (length text)
    \<and> SkipTrivia text (SkipTrivia text pos) = SkipTrivia text pos"
  using assms skipTrivia_loop_bounds [of "nat pos" "text" defaultSkipTriviaOptions False]
    skipTrivia_loop_stops [of defaultSkipTriviaOptions "text" "nat pos" False]
  by (simp add: SkipTrivia_def SkipTriviaEx_def defaultSkipTriviaOptions_def nat_le_iff)

lemma SkipTrivia_idempotent_witness:
  "2 \<le> SkipTrivia ''a // b'' 2 \<and> SkipTrivia ''a // b'' 2 \<le> int (length ''a // b'')
    \<and> SkipTrivia ''a // b'' (SkipTrivia ''a // b'' 2) = SkipTrivia ''a // b'' 2"
  by (rule SkipTrivia_idempotent) simp_all

text \<open>\<open>couldStartTrivia\<close> is in sync with \<open>SkipTriviaEx\<close>, as its comment asks: where it answers no,
  no options make \<open>SkipTriviaEx\<close> skip anything.\<close>

theorem couldStartTrivia_sync:
  assumes "pos < length text" "\<not> couldStartTrivia text pos"
  shows "SkipTriviaEx text (int pos) options = int pos"
  using assms skipTrivia_step_sync [OF assms]
  by (simp add: SkipTriviaEx_def skipTrivia_loop.simps [of _ "text" pos False] split: option.split)

lemma couldStartTrivia_sync_witness: "SkipTriviaEx ''ab'' (int 1) None = int 1"
  by (rule couldStartTrivia_sync) (simp_all add: couldStartTrivia_def)

text \<open>The two ways of finding the end of a comment agree: \<open>SkipTrivia\<close> at a comment goes on exactly
  where the range that \<open>iterateCommentRanges\<close> reports for it ends, for line comments and for block
  comments, although one walks over runes and the other searches bytes.\<close>

theorem comment_end_agrees:
  assumes "comment_at text pos = Some c" "text ! pos = CHR ''/''"
  shows "SkipTrivia text (int pos) = SkipTrivia text (int (cr_end c))"
proof -
  note b = comment_at_bounds [OF assms(1)]
  have d: "DecodeRune (drop pos text) = (0x2F, 1)"
    using b(4) assms(2) Cons_nth_drop_Suc [of pos "text"]
      DecodeRune_ascii [of "CHR ''/''" "drop (Suc pos) text"] by simp
  have "skipTrivia_step defaultSkipTriviaOptions text pos False = Inl (cr_end c, False)"
    using assms(1) b(4) block_end_strIndex [of "drop (pos + 2) text"]
    unfolding skipTrivia_step_def d Let_def comment_at_def
    by (simp add: skipTrivia_slash_def defaultSkipTriviaOptions_def split: if_split_asm option.split_asm)
       (auto simp: Let_def split: option.splits)
  then have "skipTrivia_loop defaultSkipTriviaOptions text pos False
      = skipTrivia_loop defaultSkipTriviaOptions text (cr_end c) False"
    using b(4) by (subst skipTrivia_loop.simps) simp
  then show ?thesis by (simp add: SkipTrivia_def SkipTriviaEx_def)
qed

lemma comment_end_agrees_witness:
  "SkipTrivia ''/**/x'' (int 0) = SkipTrivia ''/**/x''
     (int (cr_end \<lparr>cr_kind = KindMultiLineCommentTrivia, cr_pos = 0, cr_end = 4, cr_newline = False\<rparr>))"
  by (rule comment_end_agrees) (simp_all add: comment_at_def HasPrefix_def)

text \<open>C12: \<open>isConflictMarkerTrivia\<close> accepts a marker that is not at the start of a line. It decodes the
  rune that ends two bytes before the position, where the rune that ends at the position is meant,
  so a marker after exactly two bytes of a line is taken for one, and so is everything up to the
  end of that line.\<close>

theorem conflict_marker_mid_line:
  "isConflictMarkerTrivia (pre @ [CHR 0x0A, CHR ''a'', CHR ''b''] @ ''<<<<<<< '' @ rest) (length pre + 3)"
proof -
  define t where "t = pre @ [CHR 0x0A, CHR ''a'', CHR ''b''] @ ''<<<<<<< '' @ rest"
  have nth: "t ! (length pre + 3 + i) = (''<<<<<<< '' @ rest) ! i" for i
    by (simp add: t_def nth_append)
  have at: "t ! (length pre + 3) = CHR ''<''" "t ! (length pre + 3 + 7) = CHR '' ''"
    "\<And>i. i < 7 \<Longrightarrow> t ! (length pre + 3 + i) = CHR ''<''"
    using nth [of 0] nth [of 7] nth by (auto simp: less_Suc_eq numeral_eq_Suc nth_append)
  have prev: "t ! (length pre + 2) = CHR ''b''" by (simp add: t_def nth_append)
  have "take (length pre + 1) t = pre @ [CHR 0x0A]" by (simp add: t_def)
  then have last: "IsLineBreak (fst (DecodeLastRune (take (length pre + 1) t)))"
    by (simp add: DecodeLastRune_def Let_def IsLineBreak_def)
  have len: "length pre + 3 + 7 < length t" by (simp add: t_def)
  have "t ! Suc (length pre + 3) = CHR ''<''" using at(3) [of 1] by simp
  then show ?thesis
    using at prev last len unfolding t_def [symmetric]
    by (simp add: isConflictMarkerTrivia_def Let_def IsLineBreak_def numeral_3_eq_3)
qed

end
