(* ===== verification/ScannerMain.thy ===== *)
theory ScannerMain
  imports ScannerText ScannerTrivia
begin

text \<open>
  The method \<open>Scan\<close> of \<^verbatim>\<open>scanner/scanner.go\<close>. Its loop is \<open>scan_loop\<close>; one turn is \<open>scan_step\<close>, whose
  result says whether the turn ended in \<open>continue\<close>. The cases of the \<open>switch\<close> are the definitions before
  it, in the order of the source. Every turn that continues moves the position, so the loop ends.
\<close>

section \<open>Comments\<close>

function lineComment_loop :: "Scanner \<Rightarrow> Scanner" where
  "lineComment_loop s0 =
     (let s = scanASCIIWhile (\<lambda>b. b \<noteq> 0x0A \<and> b \<noteq> 0x0D) s0;
          ch1 = fst (charAndSize s); size = snd (charAndSize s)
      in if size = 0 \<or> IsLineBreak ch1 then s else lineComment_loop (advance size s))"
  by pat_completeness auto

text \<open>The bound on both loops: a rune of positive size begins before the end of the text.\<close>

definition scan_room :: "Scanner \<Rightarrow> nat" where
  "scan_room s = max (s_end s) (length (s_text s)) - s_pos s"

lemma charAndSize_room:
  "0 < snd (charAndSize s) \<Longrightarrow> s_pos s < max (s_end s) (length (s_text s))"
  by (cases "s_pos s < length (s_text s)") (auto simp: charAndSize_def split: if_splits)

lemma scan_room_ascii_run:
  "0 < snd (charAndSize (scanASCIIWhile p s)) \<Longrightarrow>
     scan_room (advance (snd (charAndSize (scanASCIIWhile p s))) (scanASCIIWhile p s)) < scan_room s"
  using charAndSize_room [of "scanASCIIWhile p s"] scan_moves_le [OF scan_moves_scanASCIIWhile [of s p]]
    scan_moves_end [OF scan_moves_scanASCIIWhile [of s p]] scan_moves_text [OF scan_moves_scanASCIIWhile [of s p]]
  by (simp add: scan_room_def)

termination lineComment_loop
  by (relation "measure scan_room") (simp_all add: scan_room_ascii_run del: advance_def)

declare lineComment_loop.simps [simp del]

text \<open>\<open>Scan\<close>'s loop over a block comment: whether it was closed, and \<open>lastLineStart\<close>.\<close>

function blockComment_loop :: "nat \<Rightarrow> Scanner \<Rightarrow> bool \<times> nat \<times> Scanner" where
  "blockComment_loop lastLineStart s0 =
     (let s = scanASCIIWhile (\<lambda>b. b \<noteq> 0x2A \<and> b \<noteq> 0x0A \<and> b \<noteq> 0x0D) s0;
          ch1 = fst (charAndSize s); size = snd (charAndSize s)
      in if size = 0 then (False, lastLineStart, s)
         else if ch1 = 0x2A \<and> charAt s 1 = 0x2F then (True, lastLineStart, advance 2 s)
         else
           let t = advance size s in
           if IsLineBreak ch1 then blockComment_loop (s_pos t) (addFlag TokenFlagsPrecedingLineBreak t)
           else blockComment_loop lastLineStart t)"
  by pat_completeness auto

lemma scan_room_flags [simp]: "scan_room (s\<lparr>s_tokenFlags := f\<rparr>) = scan_room s"
  by (simp add: scan_room_def)

termination blockComment_loop
  by (relation "measure (\<lambda>(_, s). scan_room s)") (simp_all add: scan_room_ascii_run del: advance_def)

declare blockComment_loop.simps [simp del]

section \<open>The cases of \<open>Scan\<close>\<close>

text \<open>A turn that ends with the token \<open>k\<close> after \<open>n\<close> bytes, and one that continues.\<close>

definition tok :: "nat \<Rightarrow> Kind \<Rightarrow> Scanner \<Rightarrow> bool \<times> Scanner" where
  "tok n k s = (False, (advance n s)\<lparr>s_token := k\<rparr>)"

definition scan_blank :: "Scanner \<Rightarrow> bool \<times> Scanner" where
  "scan_blank s0 =
     (let s = advance 1 s0 in
      if s_skipTrivia s then (True, s)
      else (False, (scanRunesWhile IsWhiteSpaceSingleLine s)\<lparr>s_token := KindWhitespaceTrivia\<rparr>))"

definition scan_newline :: "rune \<Rightarrow> Scanner \<Rightarrow> bool \<times> Scanner" where
  "scan_newline ch s0 =
     (let s = addFlag TokenFlagsPrecedingLineBreak s0 in
      if s_skipTrivia s then
        (True, scanASCIIWhile (\<lambda>b. b = 0x20 \<or> 0x09 \<le> b \<and> b \<le> 0x0D) (advance 1 s))
      else if ch = 0x0D \<and> charAt s 1 = 0x0A then tok 2 KindNewLineTrivia s
      else tok 1 KindNewLineTrivia s)"

definition scan_exclamation :: "Scanner \<Rightarrow> bool \<times> Scanner" where
  "scan_exclamation s =
     (if charAt s 1 = 0x3D then
        (if charAt s 2 = 0x3D then tok 3 KindExclamationEqualsEqualsToken s
         else tok 2 KindExclamationEqualsToken s)
      else tok 1 KindExclamationToken s)"

definition scan_string :: "Scanner \<Rightarrow> bool \<times> Scanner" where
  "scan_string s =
     (let r = scanString False s
      in (False, (snd r)\<lparr>s_tokenValue := fst r, s_token := KindStringLiteral\<rparr>))"

definition scan_template :: "Scanner \<Rightarrow> bool \<times> Scanner" where
  "scan_template s =
     (let r = scanTemplateAndSetTokenValue False s in (False, (snd r)\<lparr>s_token := fst r\<rparr>))"

definition scan_percent :: "Scanner \<Rightarrow> bool \<times> Scanner" where
  "scan_percent s =
     (if charAt s 1 = 0x3D then tok 2 KindPercentEqualsToken s else tok 1 KindPercentToken s)"

definition scan_ampersand :: "Scanner \<Rightarrow> bool \<times> Scanner" where
  "scan_ampersand s =
     (let nxt = charAt s 1 in
      if nxt = 0x26 then
        (if charAt s 2 = 0x3D then tok 3 KindAmpersandAmpersandEqualsToken s
         else tok 2 KindAmpersandAmpersandToken s)
      else if nxt = 0x3D then tok 2 KindAmpersandEqualsToken s
      else tok 1 KindAmpersandToken s)"

definition scan_asterisk :: "Scanner \<Rightarrow> bool \<times> Scanner" where
  "scan_asterisk s =
     (let nxt = charAt s 1 in
      if nxt = 0x3D then tok 2 KindAsteriskEqualsToken s
      else if nxt = 0x2A then
        (if charAt s 2 = 0x3D then tok 3 KindAsteriskAsteriskEqualsToken s
         else tok 2 KindAsteriskAsteriskToken s)
      else if s_skipJSDocLeadingAsterisks s \<noteq> 0
              \<and> \<not> hasFlag s TokenFlagsPrecedingJSDocLeadingAsterisks
              \<and> hasFlag s TokenFlagsPrecedingLineBreak then
        (True, addFlag TokenFlagsPrecedingJSDocLeadingAsterisks (advance 1 s))
      else tok 1 KindAsteriskToken s)"

definition scan_plus :: "Scanner \<Rightarrow> bool \<times> Scanner" where
  "scan_plus s =
     (let nxt = charAt s 1 in
      if nxt = 0x3D then tok 2 KindPlusEqualsToken s
      else if nxt = 0x2B then tok 2 KindPlusPlusToken s
      else tok 1 KindPlusToken s)"

definition scan_minus :: "Scanner \<Rightarrow> bool \<times> Scanner" where
  "scan_minus s =
     (let nxt = charAt s 1 in
      if nxt = 0x3D then tok 2 KindMinusEqualsToken s
      else if nxt = 0x2D then tok 2 KindMinusMinusToken s
      else tok 1 KindMinusToken s)"

definition scan_number :: "(string \<Rightarrow> string) \<Rightarrow> Scanner \<Rightarrow> bool \<times> Scanner" where
  "scan_number canon s =
     (let r = scanNumber canon s in (False, (snd r)\<lparr>s_token := fst r\<rparr>))"

definition scan_dot :: "(string \<Rightarrow> string) \<Rightarrow> Scanner \<Rightarrow> bool \<times> Scanner" where
  "scan_dot canon s =
     (let nxt = charAt s 1 in
      if IsDigit nxt then scan_number canon s
      else if nxt = 0x2E \<and> charAt s 2 = 0x2E then tok 3 KindDotDotDotToken s
      else tok 1 KindDotToken s)"

definition scan_lineComment :: "Scanner \<Rightarrow> bool \<times> Scanner" where
  "scan_lineComment s0 =
     (let s = lineComment_loop (advance 2 s0);
          s = processCommentDirective (s_tokenStart s) (s_pos s) False s
      in if s_skipTrivia s then (True, s)
         else (False, s\<lparr>s_token := KindSingleLineCommentTrivia\<rparr>))"

definition scan_blockComment :: "Scanner \<Rightarrow> bool \<times> Scanner" where
  "scan_blockComment s0 =
     (let s = advance 2 s0;
          isJSDoc = (s_char s = 0x2A \<and> charAt s 1 \<noteq> 0x2F);
          r = blockComment_loop (s_tokenStart s) s;
          commentClosed = fst r; lastLineStart = fst (snd r); s = snd (snd r);
          s = (if isJSDoc then
                 scanJSDocCommentForTags (slc (s_text s) (s_tokenStart s) (s_pos s))
                   (addFlag TokenFlagsPrecedingJSDocComment s)
               else s);
          s = processCommentDirective lastLineStart (s_pos s) True s;
          s = (if \<not> commentClosed then s_error Asterisk_Slash_expected s else s)
      in if s_skipTrivia s then (True, s)
         else
           let s = (if \<not> commentClosed then addFlag TokenFlagsUnterminated s else s)
           in (False, s\<lparr>s_token := KindMultiLineCommentTrivia\<rparr>))"

definition scan_slash :: "Scanner \<Rightarrow> bool \<times> Scanner" where
  "scan_slash s =
     (if charAt s 1 = 0x2F then scan_lineComment s
      else if charAt s 1 = 0x2A then scan_blockComment s
      else if charAt s 1 = 0x3D then tok 2 KindSlashEqualsToken s
      else tok 1 KindSlashToken s)"

text \<open>The radix prefixes of \<open>case '0'\<close>.\<close>

definition scan_suffix :: "(string \<Rightarrow> string) \<Rightarrow> Scanner \<Rightarrow> bool \<times> Scanner" where
  "scan_suffix canon s =
     (let r = scanBigIntSuffix canon s in (False, (snd r)\<lparr>s_token := fst r\<rparr>))"

definition scan_hex :: "(string \<Rightarrow> string) \<Rightarrow> Scanner \<Rightarrow> bool \<times> Scanner" where
  "scan_hex canon s0 =
     (let start = s_pos s0;
          r = scanHexDigits 1 True True (advance 2 s0);
          s = (if fst r = [] then s_error Hexadecimal_digit_expected (snd r) else snd r);
          digits = (if fst r = [] then ''0'' else fst r);
          s = (case map_of (s_hexNumberCache s) digits of
                 Some cachedValue \<Rightarrow> s\<lparr>s_tokenValue := cachedValue\<rparr>
               | None \<Rightarrow>
                   (let rawText = slc (s_text s) start (s_pos s);
                        v = (if HasPrefix rawText ''0x'' \<and> drop 2 rawText = digits then rawText
                             else ''0x'' @ digits)
                    in s\<lparr>s_tokenValue := v, s_hexNumberCache := (digits, v) # s_hexNumberCache s\<rparr>))
      in scan_suffix canon (addFlag TokenFlagsHexSpecifier s))"

definition scan_binary :: "(string \<Rightarrow> string) \<Rightarrow> Scanner \<Rightarrow> bool \<times> Scanner" where
  "scan_binary canon s0 =
     (let r = scanBinaryOrOctalDigits 2 (advance 2 s0);
          s = (if fst r = [] then s_error Binary_digit_expected (snd r) else snd r);
          digits = (if fst r = [] then ''0'' else fst r)
      in scan_suffix canon (addFlag TokenFlagsBinarySpecifier (s\<lparr>s_tokenValue := ''0b'' @ digits\<rparr>)))"

definition scan_octal :: "(string \<Rightarrow> string) \<Rightarrow> Scanner \<Rightarrow> bool \<times> Scanner" where
  "scan_octal canon s0 =
     (let r = scanBinaryOrOctalDigits 8 (advance 2 s0);
          s = (if fst r = [] then s_error Octal_digit_expected (snd r) else snd r);
          digits = (if fst r = [] then ''0'' else fst r)
      in scan_suffix canon (addFlag TokenFlagsOctalSpecifier (s\<lparr>s_tokenValue := ''0o'' @ digits\<rparr>)))"

definition scan_zero :: "(string \<Rightarrow> string) \<Rightarrow> Scanner \<Rightarrow> bool \<times> Scanner" where
  "scan_zero canon s =
     (let nxt = charAt s 1 in
      if nxt = 0x58 \<or> nxt = 0x78 then scan_hex canon s
      else if nxt = 0x42 \<or> nxt = 0x62 then scan_binary canon s
      else if nxt = 0x4F \<or> nxt = 0x6F then scan_octal canon s
      else scan_number canon s)"

definition scan_conflict :: "Scanner \<Rightarrow> bool \<times> Scanner" where
  "scan_conflict s0 =
     (case scanConflictMarkerTrivia (s_text s0) (s_pos s0) of
        None \<Rightarrow> (False, panic s0)
      | Some p \<Rightarrow>
          (let s = (errorAt Merge_conflict_marker_encountered (int (s_pos s0)) 7 s0)\<lparr>s_pos := p\<rparr>
           in if s_skipTrivia s then (True, s)
              else (False, s\<lparr>s_token := KindConflictMarkerTrivia\<rparr>)))"

definition scan_lessThan :: "Scanner \<Rightarrow> bool \<times> Scanner" where
  "scan_lessThan s =
     (if charAt s 1 = 0x3C \<and> isConflictMarkerTrivia (s_text s) (s_pos s) then scan_conflict s
      else if charAt s 1 = 0x3C then
        (if charAt s 2 = 0x3D then tok 3 KindLessThanLessThanEqualsToken s
         else tok 2 KindLessThanLessThanToken s)
      else if charAt s 1 = 0x3D then tok 2 KindLessThanEqualsToken s
      else if s_languageVariant s = LanguageVariantJSX \<and> charAt s 1 = 0x2F \<and> charAt s 2 \<noteq> 0x2A
      then tok 2 KindLessThanSlashToken s
      else tok 1 KindLessThanToken s)"

definition scan_equals :: "Scanner \<Rightarrow> bool \<times> Scanner" where
  "scan_equals s =
     (if charAt s 1 = 0x3D \<and> isConflictMarkerTrivia (s_text s) (s_pos s) then scan_conflict s
      else if charAt s 1 = 0x3D then
        (if charAt s 2 = 0x3D then tok 3 KindEqualsEqualsEqualsToken s
         else tok 2 KindEqualsEqualsToken s)
      else if charAt s 1 = 0x3E then tok 2 KindEqualsGreaterThanToken s
      else tok 1 KindEqualsToken s)"

definition scan_greaterThan :: "Scanner \<Rightarrow> bool \<times> Scanner" where
  "scan_greaterThan s =
     (if charAt s 1 = 0x3E \<and> isConflictMarkerTrivia (s_text s) (s_pos s) then scan_conflict s
      else tok 1 KindGreaterThanToken s)"

definition scan_question :: "Scanner \<Rightarrow> bool \<times> Scanner" where
  "scan_question s =
     (if charAt s 1 = 0x2E \<and> \<not> IsDigit (charAt s 2) then tok 2 KindQuestionDotToken s
      else if charAt s 1 = 0x3F then
        (if charAt s 2 = 0x3D then tok 3 KindQuestionQuestionEqualsToken s
         else tok 2 KindQuestionQuestionToken s)
      else tok 1 KindQuestionToken s)"

definition scan_caret :: "Scanner \<Rightarrow> bool \<times> Scanner" where
  "scan_caret s = (if charAt s 1 = 0x3D then tok 2 KindCaretEqualsToken s else tok 1 KindCaretToken s)"

definition scan_bar :: "Scanner \<Rightarrow> bool \<times> Scanner" where
  "scan_bar s =
     (if charAt s 1 = 0x7C \<and> isConflictMarkerTrivia (s_text s) (s_pos s) then scan_conflict s
      else if charAt s 1 = 0x7C then
        (if charAt s 2 = 0x3D then tok 3 KindBarBarEqualsToken s else tok 2 KindBarBarToken s)
      else if charAt s 1 = 0x3D then tok 2 KindBarEqualsToken s
      else tok 1 KindBarToken s)"

definition scan_backslash :: "Scanner \<Rightarrow> bool \<times> Scanner" where
  "scan_backslash s =
     (let r = scanIdentifier 0 identifierVariantStandard s in
      if fst r then (False, (snd r)\<lparr>s_token := GetIdentifierToken (s_tokenValue (snd r))\<rparr>)
      else (False, scanInvalidCharacter (snd r)))"

definition scan_hash :: "Scanner \<Rightarrow> bool \<times> Scanner" where
  "scan_hash s =
     (if charAt s 1 = 0x21 then
        (if s_pos s = 0 then (True, scanRunesWhile (\<lambda>ch. \<not> IsLineBreak ch) (advance 2 s))
         else tok 2 KindUnknown
                (errorAt X_can_only_be_used_at_the_start_of_a_file (int (s_pos s)) 2 s))
      else
        let r = scanIdentifier 1 identifierVariantStandard s;
            t = (if \<not> fst r then
                   (errorAt Invalid_character (int (s_pos (snd r)) - 1) 1 (snd r))\<lparr>s_tokenValue := ''#''\<rparr>
                 else snd r)
        in (False, t\<lparr>s_token := KindPrivateIdentifier\<rparr>))"

text \<open>\<open>default\<close>: the end of the text, identifiers, and what is not ASCII.\<close>

definition scan_other :: "Scanner \<Rightarrow> bool \<times> Scanner" where
  "scan_other s =
     (let ch = fst (charAndSize s); size = snd (charAndSize s) in
      if ch = RuneError then
        (False, (errorAt File_appears_to_be_binary 0 0 s)
                  \<lparr>s_pos := length (s_text s), s_token := KindNonTextFileMarkerTrivia\<rparr>)
      else if IsWhiteSpaceSingleLine ch then
        (let t = advance size s in
         if ch = 0x85 \<or> s_skipTrivia t then (True, t)
         else (False, (scanRunesWhile IsWhiteSpaceSingleLine t)\<lparr>s_token := KindWhitespaceTrivia\<rparr>))
      else if IsLineBreak ch then (True, advance size (addFlag TokenFlagsPrecedingLineBreak s))
      else (False, scanInvalidCharacter s))"

definition scan_default :: "rune \<Rightarrow> Scanner \<Rightarrow> bool \<times> Scanner" where
  "scan_default ch s =
     (if ch < 0 then tok 0 KindEndOfFile s
      else
        let r = scanIdentifier 0 identifierVariantStandard s in
        if fst r then (False, (snd r)\<lparr>s_token := GetIdentifierToken (s_tokenValue (snd r))\<rparr>)
        else scan_other (snd r))"

section \<open>The loop\<close>

text \<open>The cases that consume one byte and look no further.\<close>

definition single_token :: "rune \<Rightarrow> Kind option" where
  "single_token ch =
     map_of [(0x28, KindOpenParenToken), (0x29, KindCloseParenToken), (0x2C, KindCommaToken),
             (0x3A, KindColonToken), (0x3B, KindSemicolonToken), (0x5B, KindOpenBracketToken),
             (0x5D, KindCloseBracketToken), (0x7B, KindOpenBraceToken), (0x7D, KindCloseBraceToken),
             (0x7E, KindTildeToken), (0x40, KindAtToken)] ch"

definition scan_operator :: "(string \<Rightarrow> string) \<Rightarrow> rune \<Rightarrow> Scanner \<Rightarrow> (bool \<times> Scanner) option" where
  "scan_operator canon ch s =
     (if ch = 0x21 then Some (scan_exclamation s)
      else if ch = 0x25 then Some (scan_percent s)
      else if ch = 0x26 then Some (scan_ampersand s)
      else if ch = 0x2A then Some (scan_asterisk s)
      else if ch = 0x2B then Some (scan_plus s)
      else if ch = 0x2D then Some (scan_minus s)
      else if ch = 0x2E then Some (scan_dot canon s)
      else if ch = 0x2F then Some (scan_slash s)
      else if ch = 0x3C then Some (scan_lessThan s)
      else if ch = 0x3D then Some (scan_equals s)
      else if ch = 0x3E then Some (scan_greaterThan s)
      else if ch = 0x3F then Some (scan_question s)
      else if ch = 0x5E then Some (scan_caret s)
      else if ch = 0x7C then Some (scan_bar s)
      else None)"

definition scan_step :: "(string \<Rightarrow> string) \<Rightarrow> Scanner \<Rightarrow> bool \<times> Scanner" where
  "scan_step canon s0 =
     (let ch = s_char s0; s = s0\<lparr>s_tokenStart := s_pos s0\<rparr> in
      if ch = 0x09 \<or> ch = 0x0B \<or> ch = 0x0C \<or> ch = 0x20 then scan_blank s
      else if ch = 0x0A \<or> ch = 0x0D then scan_newline ch s
      else if ch = 0x22 \<or> ch = 0x27 then scan_string s
      else if ch = 0x60 then scan_template s
      else if ch = 0x30 then scan_zero canon s
      else if 0x31 \<le> ch \<and> ch \<le> 0x39 then scan_number canon s
      else if ch = 0x5C then scan_backslash s
      else if ch = 0x23 then scan_hash s
      else
        case single_token ch of
          Some k \<Rightarrow> tok 1 k s
        | None \<Rightarrow> (case scan_operator canon ch s of Some r \<Rightarrow> r | None \<Rightarrow> scan_default ch s))"

section \<open>Every turn moves forward\<close>

lemma tok_moves [simp]:
  "scan_moves (advance 1 s) (snd (tok 1 k s))"
  "0 \<le> charAt s 1 \<Longrightarrow> scan_moves (advance 1 s) (snd (tok 2 k s))"
  "0 \<le> charAt s 2 \<Longrightarrow> scan_moves (advance 1 s) (snd (tok 3 k s))"
  "\<not> fst (tok n k s)"
  by (simp_all add: tok_def charAt_nonneg scan_wf_def)

lemma charAt_eq_nonneg: "charAt s n = c \<Longrightarrow> 0 \<le> c \<Longrightarrow> 0 \<le> charAt s n"
  by simp

lemma scan_blank_moves: "scan_moves (advance 1 s) (snd (scan_blank s))"
  by (simp add: scan_blank_def Let_def del: advance_def)

lemma scan_newline_moves: "scan_moves (advance 1 s) (snd (scan_newline ch s))"
proof -
  define t where "t = addFlag TokenFlagsPrecedingLineBreak s"
  have t: "scan_moves (advance 1 s) u = scan_moves (advance 1 t) u" for u
    by (simp add: t_def scan_moves_def same_input_def scan_wf_def)
  show ?thesis
    unfolding scan_newline_def Let_def t_def [symmetric] t
    by (simp del: One_nat_def advance_def)
qed

lemmas operator_defs = scan_exclamation_def scan_percent_def scan_ampersand_def scan_asterisk_def
  scan_plus_def scan_minus_def scan_question_def scan_caret_def

lemma operator_moves:
  "scan_moves (advance 1 s) (snd (scan_exclamation s))" "scan_moves (advance 1 s) (snd (scan_percent s))"
  "scan_moves (advance 1 s) (snd (scan_ampersand s))" "scan_moves (advance 1 s) (snd (scan_asterisk s))"
  "scan_moves (advance 1 s) (snd (scan_plus s))" "scan_moves (advance 1 s) (snd (scan_minus s))"
  "scan_moves (advance 1 s) (snd (scan_question s))" "scan_moves (advance 1 s) (snd (scan_caret s))"
  by (simp_all add: operator_defs Let_def del: One_nat_def advance_def)

lemma scan_string_moves: "scan_moves (advance 1 s) (snd (scan_string s))"
  using scan_moves_scanString [of s False] by (simp add: scan_string_def Let_def del: advance_def)

lemma scan_template_moves: "scan_moves (advance 1 s) (snd (scan_template s))"
  using scan_moves_scanTemplate [of s False] by (simp add: scan_template_def Let_def del: advance_def)

lemma scan_number_moves:
  assumes "\<not> hasFlag s TokenFlagsBinaryOrOctalSpecifier" "scan_wf s"
    "IsDigit (s_char s) \<or> s_char s = 0x2E"
  shows "scan_moves (advance 1 s) (snd (scan_number canon s))"
  using scan_moves_scanNumber [OF assms(1), of canon] scanNumber_progress [OF assms, of canon]
    assms(2)
  by (simp add: scan_number_def Let_def scan_moves_def)

lemma lineComment_loop_moves: "scan_moves s (lineComment_loop s)"
proof (induction s rule: lineComment_loop.induct)
  case (1 s0)
  define s where "s = scanASCIIWhile (\<lambda>b. b \<noteq> 0x0A \<and> b \<noteq> 0x0D) s0"
  have m: "scan_moves s0 s" unfolding s_def by simp
  then have a: "scan_moves s0 (advance (snd (charAndSize s)) s)"
    using scan_moves_charAndSize by (rule scan_moves_trans)
  note IH = 1 [OF s_def refl refl, THEN scan_moves_trans [OF a]]
  show ?case using m IH
    by (subst lineComment_loop.simps, unfold Let_def, fold s_def) (simp del: advance_def)
qed

lemma blockComment_loop_moves: "scan_moves s (snd (snd (blockComment_loop n s)))"
proof (induction n s rule: blockComment_loop.induct)
  case (1 n s0)
  define s where "s = scanASCIIWhile (\<lambda>b. b \<noteq> 0x2A \<and> b \<noteq> 0x0A \<and> b \<noteq> 0x0D) s0"
  define t where "t = advance (snd (charAndSize s)) s"
  have m: "scan_moves s0 s" unfolding s_def by simp
  have t: "scan_moves s0 t"
    unfolding t_def using m scan_moves_charAndSize by (rule scan_moves_trans)
  then have f: "scan_moves s0 (addFlag TokenFlagsPrecedingLineBreak t)" by simp
  have c: "scan_moves s (advance 2 s)" if "charAt s 1 = 0x2F"
    using charAt_pos [OF that] by simp
  note IH = 1(1) [OF s_def refl refl _ _ t_def, THEN scan_moves_trans [OF f]]
    1(2) [OF s_def refl refl _ _ t_def, THEN scan_moves_trans [OF t]]
  show ?case using m IH scan_moves_trans [OF m c]
    by (subst blockComment_loop.simps, unfold Let_def, fold s_def, fold t_def)
       (simp del: advance_def addFlag_def One_nat_def)
qed

lemma scan_lineComment_moves:
  assumes "charAt s 1 = 0x2F"
  shows "scan_moves (advance 1 s) (snd (scan_lineComment s))"
proof -
  define t where "t = lineComment_loop (advance 2 s)"
  have "scan_moves (advance 1 s) (advance 2 s)" using charAt_pos [OF assms] by simp
  then have "scan_moves (advance 1 s) t"
    unfolding t_def using lineComment_loop_moves by (rule scan_moves_trans)
  then show ?thesis
    using scan_moves_trans [OF _ scan_moves_processCommentDirective]
    by (simp add: scan_lineComment_def Let_def t_def [symmetric] del: advance_def One_nat_def)
qed

lemma scan_blockComment_moves:
  assumes "charAt s 1 = 0x2A"
  shows "scan_moves (advance 1 s) (snd (scan_blockComment s))"
proof -
  define a where "a = advance 2 s"
  define js where "js = (s_char a = 0x2A \<and> charAt a 1 \<noteq> 0x2F)"
  define r where "r = blockComment_loop (s_tokenStart a) a"
  define t where "t = snd (snd r)"
  define u where "u = (if js then
                 scanJSDocCommentForTags (slc (s_text t) (s_tokenStart t) (s_pos t))
                   (addFlag TokenFlagsPrecedingJSDocComment t)
               else t)"
  have "scan_moves (advance 1 s) a" unfolding a_def using charAt_pos [OF assms] by simp
  then have t: "scan_moves (advance 1 s) t"
    unfolding t_def r_def using blockComment_loop_moves by (rule scan_moves_trans)
  then have "scan_moves (advance 1 s) (addFlag TokenFlagsPrecedingJSDocComment t)" by simp
  then have "scan_moves (advance 1 s) u"
    unfolding u_def using t scan_moves_trans [OF _ scan_moves_scanJSDocCommentForTags] by simp
  then have p: "scan_moves (advance 1 s) (processCommentDirective l e m u)" for l e m
    using scan_moves_processCommentDirective by (rule scan_moves_trans)
  show ?thesis
    unfolding scan_blockComment_def Let_def a_def [symmetric] js_def [symmetric] r_def [symmetric]
      t_def [symmetric] u_def [symmetric]
    using p by (simp del: One_nat_def advance_def)
qed

lemma scan_slash_moves: "scan_moves (advance 1 s) (snd (scan_slash s))"
  using scan_lineComment_moves scan_blockComment_moves
  by (simp add: scan_slash_def del: One_nat_def advance_def)

lemma scan_conflict_moves:
  assumes "isConflictMarkerTrivia (s_text s) (s_pos s)"
    "s_char s = 0x3C \<or> s_char s = 0x3E \<or> s_char s = 0x3D \<or> s_char s = 0x7C"
  shows "scan_moves (advance 1 s) (snd (scan_conflict s))"
proof -
  have lt: "s_pos s < length (s_text s)" "s_pos s < s_end s"
    using assms s_char_nonneg_iff [of s]
    by (auto simp: isConflictMarkerTrivia_def split: if_splits)
  have d: "DecodeRune (drop (s_pos s) (s_text s)) = (s_char s, 1)"
  proof -
    have "drop (s_pos s) (s_text s) = s_text s ! s_pos s # drop (Suc (s_pos s)) (s_text s)"
      using lt by (simp add: Cons_nth_drop_Suc)
    moreover have "rune_of (s_text s ! s_pos s) < 0x80" using assms(2) lt(2) by (auto simp: s_char_def)
    ultimately show ?thesis using lt(2) by (simp add: s_char_def)
  qed
  obtain p where p: "scanConflictMarkerTrivia (s_text s) (s_pos s) = Some p"
    using assms(2) unfolding scanConflictMarkerTrivia_def d Let_def by auto
  show ?thesis
    using scanConflictMarkerTrivia_bounds [OF p lt(1)]
    by (simp add: scan_conflict_def p Let_def scan_wf_def)
qed

lemma scan_marker_moves:
  "s_char s = 0x3C \<Longrightarrow> scan_moves (advance 1 s) (snd (scan_lessThan s))"
  "s_char s = 0x3D \<Longrightarrow> scan_moves (advance 1 s) (snd (scan_equals s))"
  "s_char s = 0x3E \<Longrightarrow> scan_moves (advance 1 s) (snd (scan_greaterThan s))"
  "s_char s = 0x7C \<Longrightarrow> scan_moves (advance 1 s) (snd (scan_bar s))"
  using scan_conflict_moves [of s]
  by (simp_all add: scan_lessThan_def scan_equals_def scan_greaterThan_def scan_bar_def
        del: One_nat_def advance_def)

text \<open>The digits of a binary or octal literal are digits of its base, so the bigint parser accepts them.\<close>

lemma binaryOrOctal_loop_digits:
  "base \<le> 10 \<Longrightarrow> list_all (is_digit_of (nat base)) sb \<Longrightarrow>
     list_all (is_digit_of (nat base)) (fst (binaryOrOctal_loop base sb as ps s))"
proof (induction base sb as ps s rule: binaryOrOctal_loop.induct)
  case (1 base sb as ps s)
  have d: "is_digit_of (nat base) (byte_of (s_char s))" if "IsDigit (s_char s)" "s_char s - 0x30 < base"
    using that by (auto simp: is_digit_of_def digit_val_def Let_def IsDigit_def)
  note IH = 1(1) [OF refl] 1(2-4) [OF refl _ _ refl]
  show ?case using IH d 1(5,6)
    by (subst binaryOrOctal_loop.simps) (auto simp: Let_def)
qed

lemma scan_hash_moves: "scan_moves (advance 1 s) (snd (scan_hash s))"
proof -
  have a: "scan_moves (advance 1 s) (scanRunesWhile p (advance 2 s))" if "charAt s 1 = 0x21" for p
    by (rule scan_moves_trans [OF _ scan_moves_scanRunesWhile]) (use charAt_pos [OF that] in simp)
  have b: "scan_moves (advance 1 s) (snd (tok 2 k (errorAt m p l s)))" if "charAt s 1 = 0x21" for k m p l
    using charAt_pos [OF that] by (simp add: tok_def)
  have e: "scan_moves s (errorAt m p l t) = scan_moves s t" for s m p l t by simp
  show ?thesis
    using scan_moves_scanIdentifier [of 1 s identifierVariantStandard] a b
    by (simp add: e scan_hash_def Let_def del: One_nat_def advance_def errorAt_def)
qed

text \<open>What \<open>scanIdentifier\<close> leaves when it fails: the same position and text.\<close>

lemma scan_moves0: "scan_moves (advance 0 s) t = scan_moves s t"
  by simp

lemma scan_other_moves:
  assumes "s_pos s < s_end s" "scan_wf s"
  shows "scan_moves (advance 1 s) (snd (scan_other s))"
proof -
  define n where "n = snd (charAndSize s)"
  have "0 < n" using assms charAndSize_0 [OF assms(2)] by (simp add: n_def)
  moreover have "s_pos s + n \<le> s_end s" using charAndSize_le [OF assms(2)] by (simp add: n_def)
  ultimately have a: "scan_moves (advance 1 s) (advance n s)" by simp
  then have b: "scan_moves (advance 1 s) (scanRunesWhile p (advance n s))" for p
    using scan_moves_scanRunesWhile by (rule scan_moves_trans)
  have c: "scan_moves (advance 1 s) (scanInvalidCharacter s)"
    using a by (simp add: scanInvalidCharacter_def Let_def n_def)
  have d: "scan_moves (advance 1 s) (advance n (addFlag f s))" for f using a by simp
  have e: "scan_moves (advance 1 s) ((errorAt m p l s)\<lparr>s_pos := length (s_text s), s_token := k\<rparr>)" for m p l k
    using assms by (simp add: scan_wf_def)
  show ?thesis
    unfolding scan_other_def Let_def n_def [symmetric]
    using a b c d e by (simp del: One_nat_def advance_def addFlag_def errorAt_def)
qed

lemma scanIdentifier_fails:
  assumes "\<not> fst (scanIdentifier 0 v s)"
  shows "s_pos (snd (scanIdentifier 0 v s)) = s_pos s" "scan_moves s (snd (scanIdentifier 0 v s))"
  using scanIdentifier_progress(2) [OF assms] scan_moves_scanIdentifier [of 0 s v] by simp_all

lemma scanIdentifier_succeeds:
  assumes "fst (scanIdentifier 0 v s)"
  shows "scan_moves (advance 1 s) (snd (scanIdentifier 0 v s))"
  using scanIdentifier_progress(1) [OF assms] scan_moves_scanIdentifier [of 0 s v]
  by (simp add: scan_moves_def scan_wf_def)

lemma scan_default_moves:
  assumes "s_pos s < s_end s" "scan_wf s"
  shows "scan_moves (advance 1 s) (snd (scan_default (s_char s) s))"
proof -
  define r where "r = scanIdentifier 0 identifierVariantStandard s"
  have f: "scan_moves (advance 1 s) (snd (scan_other (snd r)))" if "\<not> fst r"
  proof -
    note m = scanIdentifier_fails [OF that [unfolded r_def], folded r_def]
    have "scan_moves (advance 1 (snd r)) (snd (scan_other (snd r)))"
      using assms m by (intro scan_other_moves) (simp_all add: scan_moves_end scan_moves_wf [OF m(2)])
    moreover have "scan_moves (advance 1 s) (advance 1 (snd r))"
      using m assms scan_moves_wf [OF m(2) assms(2)] by (simp add: scan_moves_panicked)
    ultimately show ?thesis by (blast intro: scan_moves_trans)
  qed
  have "0 \<le> s_char s" using assms s_char_nonneg_iff by simp
  then show ?thesis
    using f scanIdentifier_succeeds [of identifierVariantStandard s]
    by (simp add: scan_default_def Let_def r_def [symmetric] del: One_nat_def advance_def)
qed

lemma scan_backslash_moves:
  assumes "s_pos s < s_end s" "scan_wf s"
  shows "scan_moves (advance 1 s) (snd (scan_backslash s))"
proof -
  define r where "r = scanIdentifier 0 identifierVariantStandard s"
  have f: "scan_moves (advance 1 s) (scanInvalidCharacter (snd r))" if "\<not> fst r"
  proof -
    note m = scanIdentifier_fails [OF that [unfolded r_def], folded r_def]
    have wf: "scan_wf (snd r)" using scan_moves_wf [OF m(2) assms(2)] .
    have "s_pos (snd r) \<noteq> s_end (snd r)" using m(1) assms(1) scan_moves_end [OF m(2)] by simp
    then have "0 < snd (charAndSize (snd r))" using charAndSize_0 [OF wf] by simp
    then show ?thesis
      using m assms charAndSize_le [OF wf] scan_moves_end [OF m(2)]
      by (simp add: scanInvalidCharacter_def Let_def scan_moves_panicked)
  qed
  then show ?thesis
    using scanIdentifier_succeeds [of identifierVariantStandard s]
    by (simp add: scan_backslash_def Let_def r_def [symmetric] del: One_nat_def advance_def)
qed


section \<open>Radix prefixes\<close>

lemma keeps_radix_hexDigits_loop:
  "keeps_radix s (snd (snd (hexDigits_loop m a c d as ps s)))"
proof (induction m a c d as ps s rule: hexDigits_loop.induct)
  case (1 m a c d as ps s)
  have k: "keeps_radix s (advance 1 s)" by simp
  have f: "keeps_radix s (advance 1 (addFlag TokenFlagsContainsSeparator s))"
    "keeps_radix s (advance 1 (errorAt x y z (addFlag TokenFlagsContainsSeparator s)))" for x y z
    by simp_all
  note IH = 1(1) [OF _ refl] 1(2-4) [OF _ refl _ _ refl]
  note IH' = IH(1) [THEN keeps_radix_trans [OF k]] IH(2) [THEN keeps_radix_trans [OF f(1)]]
    IH(3,4) [THEN keeps_radix_trans [OF f(2)]]
  show ?case
    using IH' by (subst hexDigits_loop.simps, unfold Let_def) (auto simp del: advance_def addFlag_def errorAt_def)
qed

lemma keeps_radix_scanHexDigits: "keeps_radix s (snd (scanHexDigits m a c s))"
  using keeps_radix_hexDigits_loop [of s m a c 0 False False]
  by (auto simp: scanHexDigits_def Let_def keeps_radix_def split: prod.splits option.splits)

lemma scan_suffix_moves: "scan_moves s t \<Longrightarrow> suffix_ok t \<Longrightarrow> scan_moves s (snd (scan_suffix canon t))"
  by (simp add: scan_suffix_def Let_def scan_moves_trans [OF _ scan_moves_scanBigIntSuffix])

lemma scan_hex_moves:
  assumes "charAt s 1 = c" "0 \<le> c" "\<not> hasFlag s TokenFlagsBinaryOrOctalSpecifier"
  shows "scan_moves (advance 1 s) (snd (scan_hex canon s))"
proof -
  define r where "r = scanHexDigits 1 True True (advance 2 s)"
  have "scan_moves (advance 1 s) (advance 2 s)" using charAt_pos [OF assms(1,2)] by simp
  then have m: "scan_moves (advance 1 s) (snd r)"
    unfolding r_def using scan_moves_scanHexDigits by (rule scan_moves_trans)
  have k: "s_tokenFlags (snd r) AND TokenFlagsBinaryOrOctalSpecifier = 0"
    using keeps_radix_scanHexDigits [of "advance 2 s" 1 True True] assms(3)
    by (simp add: r_def keeps_radix_def hasFlag_def)
  show ?thesis
    unfolding scan_hex_def Let_def r_def [symmetric]
    using m k by (intro scan_suffix_moves)
      (auto simp: suffix_ok_def hasFlag_def bit.conj_disj_distrib2 simp del: advance_def split: option.split)
qed

lemma scan_radix_ok:
  assumes "prefix_base p = Some (nat base)" "base \<le> 10" "fst r = fst (binaryOrOctal_loop base [] False False u)"
  shows "ParsePseudoBigInt (CHR ''0'' # p # (if fst r = [] then ''0'' else fst r) @ ''n'') \<noteq> None"
proof -
  have "list_all (is_digit_of (nat base)) (fst r)"
    using binaryOrOctal_loop_digits [OF assms(2), of "[]" False False u] assms(3) by simp
  moreover have "is_digit_of (nat base) CHR ''0''"
    using assms(1) by (auto simp: prefix_base_def is_digit_of_def digit_val_def split: if_splits)
  ultimately show ?thesis using ParsePseudoBigInt_prefixed [OF assms(1)] by simp
qed

lemma scan_binaryOrOctal_moves:
  assumes "charAt s 1 = c" "0 \<le> c"
  shows "scan_moves (advance 1 s) (snd (scan_binary canon s))" "scan_moves (advance 1 s) (snd (scan_octal canon s))"
proof -
  have a: "scan_moves (advance 1 s) (advance 2 s)" using charAt_pos [OF assms] by simp
  have m: "scan_moves (advance 1 s) (snd (scanBinaryOrOctalDigits base (advance 2 s)))" for base
    using a scan_moves_scanBinaryOrOctalDigits by (rule scan_moves_trans)
  have r: "fst (scanBinaryOrOctalDigits base u) = fst (binaryOrOctal_loop base [] False False u)" for base u
    by (simp add: scanBinaryOrOctalDigits_def split: prod.split)
  show "scan_moves (advance 1 s) (snd (scan_binary canon s))"
    unfolding scan_binary_def Let_def
    using m [of 2] scan_radix_ok [of "CHR ''b''" 2, OF _ _ r [of 2 "advance 2 s"]]
    by (intro scan_suffix_moves) (simp_all add: suffix_ok_def prefix_base_def del: advance_def)
  show "scan_moves (advance 1 s) (snd (scan_octal canon s))"
    unfolding scan_octal_def Let_def
    using m [of 8] scan_radix_ok [of "CHR ''o''" 8, OF _ _ r [of 8 "advance 2 s"]]
    by (intro scan_suffix_moves) (simp_all add: suffix_ok_def prefix_base_def del: advance_def)
qed

lemma scan_zero_moves:
  assumes "\<not> hasFlag s TokenFlagsBinaryOrOctalSpecifier" "scan_wf s" "s_char s = 0x30"
  shows "scan_moves (advance 1 s) (snd (scan_zero canon s))"
  using scan_hex_moves [OF refl _ assms(1)] scan_binaryOrOctal_moves [OF refl]
    scan_number_moves [OF assms(1,2)] assms(3)
  by (simp add: scan_zero_def Let_def IsDigit_def del: One_nat_def advance_def)

lemma scan_dot_moves:
  assumes "\<not> hasFlag s TokenFlagsBinaryOrOctalSpecifier" "scan_wf s" "s_char s = 0x2E"
  shows "scan_moves (advance 1 s) (snd (scan_dot canon s))"
  using scan_number_moves [OF assms(1,2)] assms(3)
  by (simp add: scan_dot_def Let_def del: One_nat_def advance_def)

lemma scan_operator_moves:
  assumes "\<not> hasFlag s TokenFlagsBinaryOrOctalSpecifier" "scan_wf s" "s_char s = ch"
    "scan_operator canon ch s = Some r"
  shows "scan_moves (advance 1 s) (snd r)"
proof -
  note moves = operator_moves [of s] scan_slash_moves [of s] scan_marker_moves [of s]
    scan_dot_moves [OF assms(1,2), of canon]
  show ?thesis using assms(3,4) moves unfolding scan_operator_def
    by (auto simp del: One_nat_def advance_def split: if_split_asm)
qed

lemma scan_step_moves:
  assumes "\<not> hasFlag s TokenFlagsBinaryOrOctalSpecifier" "scan_wf s" "s_pos s < s_end s"
  shows "scan_moves (advance 1 (s\<lparr>s_tokenStart := s_pos s\<rparr>)) (snd (scan_step canon s))"
proof -
  define t where "t = s\<lparr>s_tokenStart := s_pos s\<rparr>"
  have t: "\<not> hasFlag t TokenFlagsBinaryOrOctalSpecifier" "scan_wf t" "s_pos t < s_end t"
    "s_char t = s_char s"
    using assms by (simp_all add: t_def hasFlag_def s_char_def)
  define ch where "ch = s_char t"
  note moves = scan_blank_moves [of t] scan_newline_moves [of t ch] scan_string_moves [of t]
    scan_template_moves [of t] scan_zero_moves [OF t(1,2), folded ch_def]
    scan_number_moves [OF t(1,2), folded ch_def] scan_backslash_moves [OF t(3,2)] scan_hash_moves [of t]
    scan_operator_moves [OF t(1,2) refl, folded ch_def] scan_default_moves [OF t(3,2), folded ch_def]
  show ?thesis
    unfolding scan_step_def Let_def t_def [symmetric] t(4) [symmetric] ch_def [symmetric]
    using moves by (simp add: IsDigit_def del: One_nat_def advance_def split: option.split)
qed

section \<open>Turns that continue\<close>

text \<open>
  These are white space, line breaks, comments, markers and the shebang. They move the position
  and set only flags about what precedes the token.
\<close>

definition continues :: "Scanner \<Rightarrow> bool \<times> Scanner \<Rightarrow> bool" where
  "continues s r \<longleftrightarrow> (fst r \<longrightarrow> scan_moves (advance 1 s) (snd r) \<and> keeps_radix s (snd r))"

lemma keeps_radix_scanRunesWhile [simp]: "keeps_radix s (scanRunesWhile p t) = keeps_radix s t"
  by (simp add: scanRunesWhile_def)

lemma continues_tok [simp]: "continues s (tok n k t)"
  by (simp add: continues_def tok_def)

lemma continues_False [simp]: "continues s (False, t)"
  by (simp add: continues_def)

lemma blank_continues: "continues s (scan_blank s)"
  using scan_blank_moves [of s] by (simp add: continues_def scan_blank_def Let_def)

lemma newline_continues: "continues s (scan_newline ch s)"
  using scan_newline_moves [of s ch]
  by (simp add: continues_def scan_newline_def Let_def tok_def)

lemma operator_continues:
  "continues s (scan_exclamation s)" "continues s (scan_percent s)" "continues s (scan_ampersand s)"
  "continues s (scan_plus s)" "continues s (scan_minus s)" "continues s (scan_question s)"
  "continues s (scan_caret s)" "continues s (scan_dot canon s)" "continues s (scan_number canon s)"
  by (simp_all add: operator_defs scan_dot_def scan_number_def Let_def)

lemma asterisk_continues: "continues s (scan_asterisk s)"
  using operator_moves(4) [of s] by (simp add: continues_def scan_asterisk_def Let_def tok_def keeps_radix_def bit.conj_disj_distrib2)

lemma keeps_radix_lineComment_loop: "keeps_radix s (lineComment_loop s)"
proof (induction s rule: lineComment_loop.induct)
  case (1 s0)
  define s where "s = scanASCIIWhile (\<lambda>b. b \<noteq> 0x0A \<and> b \<noteq> 0x0D) s0"
  have m: "keeps_radix s0 s" "keeps_radix s0 (advance (snd (charAndSize s)) s)" unfolding s_def by simp_all
  note IH = 1 [OF s_def refl refl, THEN keeps_radix_trans [OF m(2)]]
  show ?case using m IH
    by (subst lineComment_loop.simps, unfold Let_def, fold s_def) (simp del: advance_def)
qed

lemma keeps_radix_blockComment_loop: "keeps_radix s (snd (snd (blockComment_loop n s)))"
proof (induction n s rule: blockComment_loop.induct)
  case (1 n s0)
  define s where "s = scanASCIIWhile (\<lambda>b. b \<noteq> 0x2A \<and> b \<noteq> 0x0A \<and> b \<noteq> 0x0D) s0"
  define t where "t = advance (snd (charAndSize s)) s"
  have m: "keeps_radix s0 s" "keeps_radix s0 (advance 2 s)" "keeps_radix s0 t"
    "keeps_radix s0 (addFlag TokenFlagsPrecedingLineBreak t)"
    unfolding s_def t_def by (simp_all add: keeps_radix_def bit.conj_disj_distrib2 scanASCIIWhile_def)
  note IH = 1(1) [OF s_def refl refl _ _ t_def, THEN keeps_radix_trans [OF m(4)]]
    1(2) [OF s_def refl refl _ _ t_def, THEN keeps_radix_trans [OF m(3)]]
  show ?case using m IH
    by (subst blockComment_loop.simps, unfold Let_def, fold s_def, fold t_def)
       (simp del: advance_def addFlag_def One_nat_def)
qed

lemma jsdoc_tag_step_radix: "jsdoc_tag_step t f AND 384 = f AND 384"
  by (simp add: jsdoc_tag_step_def Let_def bit.conj_disj_distrib2)

lemma jsdoc_tag_flags_radix: "jsdoc_tag_flags t f AND 384 = f AND 384"
  by (induction t arbitrary: f) (simp_all add: jsdoc_tag_step_radix)

lemma keeps_radix_scanJSDocCommentForTags: "keeps_radix s (scanJSDocCommentForTags c s)"
  by (simp add: keeps_radix_def scanJSDocCommentForTags_def jsdoc_tag_flags_radix)

lemma keeps_radix_processCommentDirective [simp]:
  "keeps_radix s (processCommentDirective a b m t) = keeps_radix s t"
  by (simp add: processCommentDirective_def Let_def keeps_radix_def)

lemma slash_continues: "continues s (scan_slash s)"
proof -
  define l where "l = lineComment_loop (advance 2 s)"
  have l: "keeps_radix s l"
    using keeps_radix_lineComment_loop [of "advance 2 s"] by (simp add: l_def keeps_radix_def)
  define a where "a = advance 2 s"
  define js where "js = (s_char a = 0x2A \<and> charAt a 1 \<noteq> 0x2F)"
  define r where "r = blockComment_loop (s_tokenStart a) a"
  define t where "t = snd (snd r)"
  have t: "keeps_radix s t"
    using keeps_radix_blockComment_loop [of a "s_tokenStart a"]
    by (simp add: t_def r_def a_def keeps_radix_def)
  define u where "u = (if js then
                 scanJSDocCommentForTags (slc (s_text t) (s_tokenStart t) (s_pos t))
                   (addFlag TokenFlagsPrecedingJSDocComment t)
               else t)"
  have "keeps_radix s (addFlag TokenFlagsPrecedingJSDocComment t)" using t by simp
  then have u: "keeps_radix s u"
    unfolding u_def using t keeps_radix_trans [OF _ keeps_radix_scanJSDocCommentForTags] by simp
  have "fst (scan_lineComment s) \<Longrightarrow> keeps_radix s (snd (scan_lineComment s))"
    using l by (simp add: scan_lineComment_def Let_def l_def [symmetric] split: if_splits del: advance_def)
  moreover have "fst (scan_blockComment s) \<Longrightarrow> keeps_radix s (snd (scan_blockComment s))"
    unfolding scan_blockComment_def Let_def a_def [symmetric] js_def [symmetric] r_def [symmetric]
      t_def [symmetric] u_def [symmetric]
    using u by (simp del: One_nat_def advance_def split: if_split_asm)
  ultimately show ?thesis
    using scan_slash_moves [of s] by (simp add: continues_def scan_slash_def del: One_nat_def advance_def)
qed

lemma conflict_continues:
  assumes "isConflictMarkerTrivia (s_text s) (s_pos s)"
    "s_char s = 0x3C \<or> s_char s = 0x3E \<or> s_char s = 0x3D \<or> s_char s = 0x7C"
  shows "continues s (scan_conflict s)"
  using scan_conflict_moves [OF assms]
  by (simp add: continues_def scan_conflict_def Let_def split: option.split)

lemma marker_continues:
  "s_char s = 0x3C \<Longrightarrow> continues s (scan_lessThan s)"
  "s_char s = 0x3D \<Longrightarrow> continues s (scan_equals s)"
  "s_char s = 0x3E \<Longrightarrow> continues s (scan_greaterThan s)"
  "s_char s = 0x7C \<Longrightarrow> continues s (scan_bar s)"
  using conflict_continues [of s]
  by (simp_all add: scan_lessThan_def scan_equals_def scan_greaterThan_def scan_bar_def
        del: One_nat_def advance_def)

lemma hash_continues: "continues s (scan_hash s)"
  using scan_hash_moves [of s] by (simp add: continues_def scan_hash_def Let_def tok_def)

lemma other_continues: "continues s (scan_other s)"
proof -
  define n where "n = snd (charAndSize s)"
  have n: "0 < n" if "fst (charAndSize s) \<noteq> RuneError"
    using that by (cases "drop (s_pos s) (s_text s)")
      (auto simp: n_def charAndSize_def DecodeRune_size_pos split: if_splits)
  have "scan_wf (advance 1 s) \<Longrightarrow> scan_wf s" by (simp add: scan_wf_def)
  then have "scan_wf (advance 1 s) \<Longrightarrow> s_pos s + n \<le> s_end s"
    using charAndSize_le [of s] by (simp add: n_def)
  then have a: "scan_moves (advance 1 s) (advance n s)" if "fst (charAndSize s) \<noteq> RuneError"
    using n [OF that] by simp
  then have d: "scan_moves (advance 1 s) (advance n (addFlag f s))" if "fst (charAndSize s) \<noteq> RuneError" for f
    using a [OF that] by simp
  show ?thesis
    unfolding scan_other_def Let_def n_def [symmetric] continues_def
    using a d by (auto simp: keeps_radix_def bit.conj_disj_distrib2 simp del: One_nat_def split: if_splits)
qed


text \<open>At a byte that is not a backslash, \<open>scanIdentifier\<close> fails without having changed anything.\<close>

lemma charAndSize_backslash: "s_pos s < s_end s \<Longrightarrow> fst (charAndSize s) = 0x5C \<Longrightarrow> s_char s = 0x5C"
  using DecodeRune_at_ascii [of "s_pos s" "s_text s"]
  by (auto simp: charAndSize_def s_char_def split: if_splits)

lemma scanIdentifier_fails_same:
  assumes "s_pos s < s_end s" "s_char s \<noteq> 0x5C" "\<not> fst (scanIdentifier 0 v s)"
  shows "snd (scanIdentifier 0 v s) = s"
proof -
  have ne: "fst (charAndSize s) \<noteq> 0x5C" using charAndSize_backslash assms(1,2) by blast
  have "fst (scanIdentifier_slow st v s) \<or> snd (scanIdentifier_slow st v s) = s" for st
    using ne by (simp add: scanIdentifier_slow_def Let_def)
  then show ?thesis
    using assms(3) by (auto simp: scanIdentifier_def Let_def split: if_splits)
qed

lemma default_continues:
  assumes "s_char s \<noteq> 0x5C"
  shows "continues s (scan_default (s_char s) s)"
proof (cases "s_pos s < s_end s")
  case True
  then show ?thesis
    using scanIdentifier_fails_same [OF True assms] other_continues
    by (simp add: scan_default_def Let_def)
next
  case False
  then show ?thesis by (simp add: scan_default_def s_char_def)
qed

lemma scan_zero_continues: "continues s (scan_zero canon s)"
  by (simp add: scan_zero_def Let_def scan_hex_def scan_binary_def scan_octal_def scan_suffix_def
        operator_continues)

lemma operator_step_continues:
  assumes "s_char s = ch" "scan_operator canon ch s = Some r"
  shows "continues s r"
  using assms operator_continues [of s] asterisk_continues [of s] slash_continues [of s]
    marker_continues [of s] unfolding scan_operator_def by (auto split: if_split_asm)

lemma scan_step_continues: "continues (s\<lparr>s_tokenStart := s_pos s\<rparr>) (scan_step canon s)"
proof -
  define t where "t = s\<lparr>s_tokenStart := s_pos s\<rparr>"
  have t: "s_char t = s_char s" by (simp add: t_def s_char_def)
  define ch where "ch = s_char t"
  have "continues t (scan_string t)" "continues t (scan_template t)" "continues t (scan_backslash t)"
    by (simp_all add: scan_string_def scan_template_def scan_backslash_def Let_def)
  note parts = this blank_continues [of t] newline_continues [of t ch] scan_zero_continues [of t canon]
    operator_continues(9) [of t canon] hash_continues [of t]
    operator_step_continues [OF refl, of canon t, folded ch_def] default_continues [of t, folded ch_def]
  show ?thesis
    unfolding scan_step_def Let_def t_def [symmetric] t [symmetric] ch_def [symmetric]
    using parts by (simp split: option.split)
qed

lemma scan_step_continue_inside: "fst (scan_step canon s) \<Longrightarrow> s_pos s < s_end s"
proof (rule ccontr)
  assume "fst (scan_step canon s)" "\<not> s_pos s < s_end s"
  then show False
    by (simp add: scan_step_def s_char_def single_token_def scan_operator_def scan_default_def tok_def)
qed

function scan_loop :: "(string \<Rightarrow> string) \<Rightarrow> Scanner \<Rightarrow> Scanner" where
  "scan_loop canon s =
     (let r = scan_step canon s in if fst r then scan_loop canon (snd r) else snd r)"
  by pat_completeness auto
termination
proof (relation "measure (\<lambda>(_, s). s_end s - s_pos s)", goal_cases)
  case (2 canon s r)
  then have "scan_moves (advance 1 (s\<lparr>s_tokenStart := s_pos s\<rparr>)) (snd r)"
    using scan_step_continues [of s canon] by (simp add: continues_def)
  from scan_moves_le [OF this] scan_moves_end [OF this]
  have "s_pos s < s_pos (snd r)" "s_end (snd r) = s_end s" by simp_all
  moreover have "s_pos s < s_end s" using 2 scan_step_continue_inside by simp
  ultimately show ?case by simp
qed simp

declare scan_loop.simps [simp del]

definition Scan :: "(string \<Rightarrow> string) \<Rightarrow> Scanner \<Rightarrow> Kind \<times> Scanner" where
  "Scan canon s0 =
     (let s = scan_loop canon (s0\<lparr>s_fullStartPos := s_pos s0, s_tokenFlags := TokenFlagsNone\<rparr>)
      in (s_token s, s))"

end
