(* ===== verification/Keywords.thy ===== *)
theory Keywords
  imports ScannerBase
begin

text \<open>
  The keyword table of \<^verbatim>\<open>scanner/scanner.go\<close>: \<open>keywordTable\<close> is built without a collision, and the
  perfect hash finds what the map \<open>textToKeyword\<close> holds, for every string.
\<close>

section \<open>Filling a table by a hash\<close>

definition keyword_hash :: "string \<Rightarrow> nat" where
  "keyword_hash t = keywordHash t keywordHashMultiplier"

lemma keyword_hash_less: "keyword_hash t < 256"
proof -
  have "unat (drop_bit 24 (w :: 32 word)) < 256" for w
  proof -
    have "unat w < 2 ^ 32" using unsigned_less [of w] by simp
    then have "unat w div 2 ^ 24 < 256" by (simp add: less_mult_imp_div_less)
    then show ?thesis by (simp add: drop_bit_eq_div unat_div)
  qed
  then show ?thesis by (simp add: keyword_hash_def keywordHash_def Let_def)
qed

text \<open>A fill succeeds when the slots it needs are free, and changes only those.\<close>

lemma fill_keywordTable_ok:
  assumes "list_all (\<lambda>p. keyword_in_bounds (fst p)) kws" "distinct (map (keyword_hash \<circ> fst) kws)"
    "length table = 256" "\<forall>p \<in> set kws. fst (table ! keyword_hash (fst p)) = []"
  shows "\<exists>table'. fill_keywordTable table kws = Some table' \<and> length table' = 256
     \<and> (\<forall>p \<in> set kws. table' ! keyword_hash (fst p) = p)
     \<and> (\<forall>i. i \<notin> (keyword_hash \<circ> fst) ` set kws \<longrightarrow> table' ! i = table ! i)"
  using assms
proof (induction kws arbitrary: table)
  case (Cons p kws)
  obtain t k where p: "p = (t, k)" by (cases p)
  define table1 where "table1 = table[keyword_hash t := (t, k)]"
  have free: "\<forall>q \<in> set kws. fst (table1 ! keyword_hash (fst q)) = []"
  proof
    fix q assume q: "q \<in> set kws"
    then have "keyword_hash (fst q) \<noteq> keyword_hash t"
      using Cons.prems(2) p by (auto simp: comp_def) (metis image_eqI)
    then show "fst (table1 ! keyword_hash (fst q)) = []"
      using Cons.prems(4) q by (simp add: table1_def)
  qed
  obtain table' where IH: "fill_keywordTable table1 kws = Some table'" "length table' = 256"
    "\<forall>q \<in> set kws. table' ! keyword_hash (fst q) = q"
    "\<forall>i. i \<notin> (keyword_hash \<circ> fst) ` set kws \<longrightarrow> table' ! i = table1 ! i"
    using Cons.IH [of table1] Cons.prems free by (auto simp: table1_def)
  have "keyword_hash t \<notin> (keyword_hash \<circ> fst) ` set kws"
    using Cons.prems(2) p by (auto simp: comp_def)
  then have "table' ! keyword_hash t = (t, k)"
    using IH(4) Cons.prems(3) keyword_hash_less [of t] by (simp add: table1_def)
  moreover have "fill_keywordTable table (p # kws) = Some table'"
    using Cons.prems IH(1) by (simp add: p Let_def keyword_hash_def table1_def)
  moreover have "table' ! i = table ! i" if "i \<notin> (keyword_hash \<circ> fst) ` set (p # kws)" for i
    using that IH(4) by (auto simp: p table1_def)
  ultimately show ?case using IH(2,3) p by auto
qed simp

section \<open>The table\<close>

lemma keyword_hashes_distinct: "distinct (map (keyword_hash \<circ> fst) textToKeyword)"
  by code_simp

lemma keywords_in_bounds: "list_all (\<lambda>p. keyword_in_bounds (fst p)) textToKeyword"
  by code_simp

lemma keyword_texts_distinct: "distinct (map fst textToKeyword)"
proof -
  have "distinct textToKeyword \<and> inj_on (keyword_hash \<circ> fst) (set textToKeyword)"
    using keyword_hashes_distinct by (simp only: distinct_map)
  then show ?thesis by (auto simp: distinct_map intro: inj_on_imageI2)
qed

lemma keywordTable_built:
  obtains table where "keywordTable = Some table" "length table = 256"
    "\<And>t k. (t, k) \<in> set textToKeyword \<Longrightarrow> table ! keyword_hash t = (t, k)"
    "\<And>i. i < 256 \<Longrightarrow> i \<notin> (keyword_hash \<circ> fst) ` set textToKeyword \<Longrightarrow> table ! i = ([], KindUnknown)"
proof -
  let ?free = "replicate 256 ([], KindUnknown) :: (string \<times> Kind) list"
  have "\<forall>p \<in> set textToKeyword. fst (?free ! keyword_hash (fst p)) = []"
    using keyword_hash_less by simp
  from fill_keywordTable_ok [OF keywords_in_bounds keyword_hashes_distinct _ this]
  obtain table where t: "fill_keywordTable ?free textToKeyword = Some table" "length table = 256"
    "\<forall>p \<in> set textToKeyword. table ! keyword_hash (fst p) = p"
    "\<forall>i. i \<notin> (keyword_hash \<circ> fst) ` set textToKeyword \<longrightarrow> table ! i = ?free ! i"
    by auto
  have "table ! keyword_hash s = (s, k)" if "(s, k) \<in> set textToKeyword" for s k
    using t(3) that by force
  then show ?thesis
    using that [of table] t by (simp add: keywordTable_def)
qed

lemma lookupKeyword_map_of:
  "lookupKeyword s = (case map_of textToKeyword s of Some k \<Rightarrow> k | None \<Rightarrow> KindUnknown)"
proof -
  obtain table where t: "keywordTable = Some table" "length table = 256"
    "\<And>t k. (t, k) \<in> set textToKeyword \<Longrightarrow> table ! keyword_hash t = (t, k)"
    "\<And>i. i < 256 \<Longrightarrow> i \<notin> (keyword_hash \<circ> fst) ` set textToKeyword \<Longrightarrow> table ! i = ([], KindUnknown)"
    using keywordTable_built by blast
  show ?thesis
  proof (cases "map_of textToKeyword s")
    case (Some k)
    then have k: "(s, k) \<in> set textToKeyword" by (rule map_of_SomeD)
    then have "keyword_in_bounds s" using keywords_in_bounds by (auto simp: list_all_iff)
    then show ?thesis using t(3) [OF k] Some
      by (simp add: lookupKeyword_def keyword_hash_def Let_def t(1))
  next
    case None
    then have no: "s \<notin> fst ` set textToKeyword" by (simp add: map_of_eq_None_iff)
    have "fst (table ! keyword_hash s) \<noteq> s \<or> snd (table ! keyword_hash s) = KindUnknown"
    proof (cases "keyword_hash s \<in> (keyword_hash \<circ> fst) ` set textToKeyword")
      case True
      then obtain u k where u: "(u, k) \<in> set textToKeyword" "keyword_hash s = keyword_hash u" by auto
      then have "table ! keyword_hash s = (u, k)" using t(3) by simp
      then show ?thesis using u(1) no by force
    next
      case False
      then show ?thesis using t(4) [OF keyword_hash_less] by simp
    qed
    then show ?thesis using None
      by (auto simp: lookupKeyword_def keyword_hash_def Let_def t(1))
  qed
qed

section \<open>Tokens and texts\<close>

lemma keyword_kinds: "list_all (\<lambda>p. KindIdentifier < snd p) textToKeyword"
  by (simp add: textToKeyword_def)

lemma GetIdentifierToken_ge: "KindIdentifier \<le> GetIdentifierToken s"
  using keyword_kinds
  by (auto simp: GetIdentifierToken_def Let_def lookupKeyword_map_of list_all_iff
      split: option.split dest!: map_of_SomeD)

lemma token_texts_distinct: "distinct (map fst textToToken)"
  by (simp add: textToToken_def textToKeyword_def punctuation_tokens_def)

lemma token_kinds_distinct: "distinct (map snd textToToken)"
  by (simp add: textToToken_def textToKeyword_def punctuation_tokens_def)

lemma token_texts_nonempty: "list_all (\<lambda>p. fst p \<noteq> []) textToToken"
  by (simp add: textToToken_def textToKeyword_def punctuation_tokens_def)

lemma token_kinds_known: "list_all (\<lambda>p. snd p \<noteq> KindUnknown) textToToken"
  by (simp add: textToToken_def textToKeyword_def punctuation_tokens_def)

lemma StringToToken_in: "(t, k) \<in> set textToToken \<Longrightarrow> StringToToken t = k"
  using token_texts_distinct by (simp add: StringToToken_def)

lemma TokenToString_in: "(t, k) \<in> set textToToken \<Longrightarrow> TokenToString k = t"
proof -
  assume "(t, k) \<in> set textToToken"
  then have "(k, t) \<in> set (map prod.swap textToToken)" by force
  moreover have "distinct (map fst (map prod.swap textToToken))"
    using token_kinds_distinct by (simp add: comp_def)
  ultimately show ?thesis by (simp add: TokenToString_def tokenToText_def)
qed

lemma StringToToken_unknown: "StringToToken t \<noteq> KindUnknown \<Longrightarrow> (t, StringToToken t) \<in> set textToToken"
  by (auto simp: StringToToken_def split: option.splits dest: map_of_SomeD)

lemma TokenToString_nonempty: "TokenToString k \<noteq> [] \<Longrightarrow> (TokenToString k, k) \<in> set textToToken"
  by (auto simp: TokenToString_def tokenToText_def split: option.splits dest!: map_of_SomeD)

section \<open>Properties\<close>

text \<open>C10: The initialiser of \<open>keywordTable\<close> does not panic, and the perfect hash is right on every
  string: \<open>lookupKeyword\<close> returns the kind that \<open>textToKeyword\<close> gives the string, and \<open>KindUnknown\<close>
  when it is not a keyword, whatever its bytes and length.\<close>

theorem lookupKeyword_correct:
  "keywordTable \<noteq> None
   \<and> lookupKeyword str = (case map_of textToKeyword str of Some k \<Rightarrow> k | None \<Rightarrow> KindUnknown)"
  using lookupKeyword_map_of keywordTable_built by (metis option.distinct(1))

text \<open>\<open>StringToToken\<close> and \<open>TokenToString\<close> are inverse to each other between the texts of tokens and
  their kinds: no two texts share a kind and no two kinds share a text.\<close>

theorem token_text_roundtrip:
  "StringToToken t = k \<and> k \<noteq> KindUnknown \<longleftrightarrow> TokenToString k = t \<and> t \<noteq> []"
proof
  assume "StringToToken t = k \<and> k \<noteq> KindUnknown"
  then have m: "(t, k) \<in> set textToToken" using StringToToken_unknown by blast
  moreover have "t \<noteq> []" using token_texts_nonempty m by (auto simp: list_all_iff)
  ultimately show "TokenToString k = t \<and> t \<noteq> []" using TokenToString_in by blast
next
  assume "TokenToString k = t \<and> t \<noteq> []"
  then have m: "(t, k) \<in> set textToToken" using TokenToString_nonempty by blast
  moreover have "k \<noteq> KindUnknown" using token_kinds_known m by (auto simp: list_all_iff)
  ultimately show "StringToToken t = k \<and> k \<noteq> KindUnknown" using StringToToken_in by blast
qed

end
