(* ===== verification/ScannerProps.thy ===== *)
theory ScannerProps
  imports ScannerMain Keywords
begin

text \<open>
  What \<open>Scan\<close> guarantees: it stays in the text, does not panic, moves forward unless it reports the
  end of the file, and the tokens of a text tile it.
\<close>

declare One_nat_def [simp del]

section \<open>Only the end of the text gives EndOfFile\<close>

lemma scanTemplate_kind: "fst (scanTemplateAndSetTokenValue e s) \<noteq> KindEndOfFile"
  by (simp add: scanTemplateAndSetTokenValue_def Let_def)

lemma scanBigIntSuffix_kind: "fst (scanBigIntSuffix c s) \<noteq> KindEndOfFile"
  by (simp add: scanBigIntSuffix_def Let_def split: option.split)

lemma number_follow_kind: "fst (number_follow st fe k s) = k"
  by (simp add: number_follow_def Let_def)

lemma number_fixedPart_kind: "number_fixedPart s = Inr r \<Longrightarrow> fst r \<noteq> KindEndOfFile"
  by (auto simp: number_fixedPart_def Let_def legacyOctal_def split: if_splits prod.splits)

lemma scanNumber_kind: "fst (scanNumber c s) \<noteq> KindEndOfFile"
  by (auto simp: scanNumber_def Let_def number_follow_kind scanBigIntSuffix_kind number_fixedPart_kind
      split: sum.split prod.split)

lemma GetIdentifierToken_not_EOF: "GetIdentifierToken t \<noteq> KindEndOfFile"
  using GetIdentifierToken_ge [of t] by (auto simp: less_eq_Kind_def)

lemmas token_defs = scan_blank_def scan_newline_def scan_string_def scan_template_def scan_number_def
  scan_dot_def scan_lineComment_def scan_blockComment_def scan_slash_def scan_suffix_def scan_hex_def
  scan_binary_def scan_octal_def scan_zero_def scan_conflict_def scan_lessThan_def scan_equals_def
  scan_greaterThan_def scan_bar_def scan_backslash_def scan_hash_def tok_def

lemmas kind_facts = scanTemplate_kind scanBigIntSuffix_kind scanNumber_kind GetIdentifierToken_not_EOF

definition no_EOF :: "bool \<times> Scanner \<Rightarrow> bool" where
  "no_EOF r \<longleftrightarrow> (\<not> fst r \<longrightarrow> s_token (snd r) \<noteq> KindEndOfFile)"

lemma no_EOF_simps [simp]: "no_EOF (True, t)" "no_EOF (False, t) \<longleftrightarrow> s_token t \<noteq> KindEndOfFile"
  "no_EOF (tok n k s) \<longleftrightarrow> k \<noteq> KindEndOfFile"
  by (simp_all add: no_EOF_def tok_def)

lemma suffix_no_EOF [simp]: "no_EOF (scan_suffix c s)"
  by (simp add: scan_suffix_def Let_def kind_facts)

lemma number_no_EOF [simp]: "no_EOF (scan_number c s)"
  by (simp add: scan_number_def Let_def kind_facts)

lemma conflict_no_EOF:
  assumes "isConflictMarkerTrivia (s_text s) (s_pos s)" "s_char s = 0x3C \<or> s_char s = 0x3E \<or> s_char s = 0x3D \<or> s_char s = 0x7C"
  shows "no_EOF (scan_conflict s)"
proof (cases "scanConflictMarkerTrivia (s_text s) (s_pos s)")
  case None
  have "fst (DecodeRune (drop (s_pos s) (s_text s))) = s_char s"
  proof -
    have lt: "s_pos s < length (s_text s)" "s_pos s < s_end s"
      using assms s_char_nonneg_iff [of s] by (auto simp: isConflictMarkerTrivia_def split: if_splits)
    then have "drop (s_pos s) (s_text s) = s_text s ! s_pos s # drop (Suc (s_pos s)) (s_text s)"
      by (simp add: Cons_nth_drop_Suc)
    moreover have "rune_of (s_text s ! s_pos s) < 0x80" using assms(2) lt(2) by (auto simp: s_char_def)
    ultimately show ?thesis using lt(2) by (simp add: s_char_def)
  qed
  with None assms(2) show ?thesis by (auto simp: scanConflictMarkerTrivia_def Let_def split: if_splits)
next
  case (Some p)
  then show ?thesis by (simp add: scan_conflict_def Let_def)
qed

lemma scan_parts_no_EOF:
  "no_EOF (scan_blank s)" "no_EOF (scan_newline ch s)" "no_EOF (scan_string s)" "no_EOF (scan_template s)"
  "no_EOF (scan_zero c s)" "no_EOF (scan_backslash s)" "no_EOF (scan_hash s)" "no_EOF (scan_dot c s)"
  "no_EOF (scan_slash s)" "no_EOF (scan_other s)"
  by (simp_all add: scan_blank_def scan_newline_def scan_string_def scan_template_def scan_zero_def
        scan_hex_def scan_binary_def scan_octal_def scan_backslash_def scan_hash_def scan_dot_def scan_slash_def
        scan_lineComment_def scan_blockComment_def scan_other_def scanInvalidCharacter_def Let_def kind_facts)

lemma default_no_EOF:
  assumes "s_pos s < s_end s"
  shows "no_EOF (scan_default (s_char s) s)"
proof -
  have "\<not> s_char s < 0" using assms s_char_nonneg_iff [of s] by simp
  then show ?thesis
    by (simp add: scan_default_def Let_def kind_facts scan_parts_no_EOF)
qed

lemma operator_no_EOF:
  assumes "s_char s = ch" "scan_operator canon ch s = Some r"
  shows "no_EOF r"
proof -
  have "no_EOF (scan_exclamation s)" "no_EOF (scan_percent s)" "no_EOF (scan_ampersand s)"
    "no_EOF (scan_asterisk s)" "no_EOF (scan_plus s)" "no_EOF (scan_minus s)" "no_EOF (scan_question s)"
    "no_EOF (scan_caret s)"
    by (simp_all add: operator_defs Let_def)
  moreover have "s_char s = 0x3C \<Longrightarrow> no_EOF (scan_lessThan s)" "s_char s = 0x3D \<Longrightarrow> no_EOF (scan_equals s)"
    "s_char s = 0x3E \<Longrightarrow> no_EOF (scan_greaterThan s)" "s_char s = 0x7C \<Longrightarrow> no_EOF (scan_bar s)"
    using conflict_no_EOF [of s]
    by (simp_all add: scan_lessThan_def scan_equals_def scan_greaterThan_def scan_bar_def)
  ultimately show ?thesis
    using assms scan_parts_no_EOF(8) [of canon s] scan_parts_no_EOF(9) [of s]
    unfolding scan_operator_def by (auto split: if_split_asm)
qed

lemma scan_step_no_EOF:
  assumes "s_pos s < s_end s"
  shows "no_EOF (scan_step canon s)"
proof -
  define t where "t = s\<lparr>s_tokenStart := s_pos s\<rparr>"
  have t: "s_char t = s_char s" "s_pos t < s_end t" using assms by (simp_all add: t_def s_char_def)
  define ch where "ch = s_char t"
  have single: "single_token ch = Some k \<Longrightarrow> k \<noteq> KindEndOfFile" for k
    by (auto simp: single_token_def split: if_split_asm)
  note parts = scan_parts_no_EOF [where s = t] single operator_no_EOF [OF refl, of canon t, folded ch_def]
    default_no_EOF [OF t(2), folded ch_def]
  show ?thesis
    unfolding scan_step_def Let_def t_def [symmetric] t(1) [symmetric] ch_def [symmetric]
    using parts by (simp split: option.split)
qed

section \<open>The result of a scan\<close>

text \<open>
  \<open>scanned s t\<close>: \<open>t\<close> is what scanning one token from \<open>s\<close> may leave.
\<close>

definition scanned :: "Scanner \<Rightarrow> Scanner \<Rightarrow> bool" where
  "scanned s t \<longleftrightarrow>
     s_text t = s_text s \<and> s_end t = s_end s \<and> s_skipTrivia t = s_skipTrivia s
     \<and> s_languageVariant t = s_languageVariant s \<and> s_scriptTarget t = s_scriptTarget s
     \<and> s_panicked t = s_panicked s
     \<and> s_pos s \<le> s_tokenStart t \<and> s_tokenStart t \<le> s_pos t \<and> s_pos t \<le> s_end s
     \<and> (s_token t = KindEndOfFile \<longleftrightarrow> s_tokenStart t = s_end s)
     \<and> (s_token t \<noteq> KindEndOfFile \<longrightarrow> s_tokenStart t < s_pos t)"

lemma scan_step_at_end:
  assumes "s_end s \<le> s_pos s"
  shows "scan_step canon s = tok 0 KindEndOfFile (s\<lparr>s_tokenStart := s_pos s\<rparr>)"
  using assms
  by (simp add: scan_step_def s_char_def single_token_def scan_operator_def scan_default_def)

lemma scan_step_scanned:
  assumes "\<not> hasFlag s TokenFlagsBinaryOrOctalSpecifier" "scan_wf s" "\<not> fst (scan_step canon s)"
  shows "scanned s (snd (scan_step canon s))"
    "s_fullStartPos (snd (scan_step canon s)) = s_fullStartPos s"
proof -
  define t where "t = snd (scan_step canon s)"
  have "scanned s t \<and> s_fullStartPos t = s_fullStartPos s"
  proof (cases "s_pos s < s_end s")
    case True
    define u where "u = advance 1 (s\<lparr>s_tokenStart := s_pos s\<rparr>)"
    have m: "scan_moves u t"
      unfolding u_def t_def by (rule scan_step_moves [OF assms(1,2) True])
    have wf: "scan_wf u" using True assms(2) by (simp add: u_def scan_wf_def)
    have "s_token t \<noteq> KindEndOfFile"
      using scan_step_no_EOF [OF True, of canon] assms(3) by (simp add: no_EOF_def t_def)
    then show ?thesis
      using m wf True unfolding scan_moves_def same_input_def scanned_def by (simp add: u_def One_nat_def)
  next
    case False
    then show ?thesis
      using assms(2) by (simp add: t_def scan_step_at_end tok_def scanned_def scan_wf_def)
  qed
  then show "scanned s (snd (scan_step canon s))"
    "s_fullStartPos (snd (scan_step canon s)) = s_fullStartPos s" by (simp_all add: t_def)
qed

lemma scan_step_continue_facts:
  assumes "fst (scan_step canon s)" "\<not> hasFlag s TokenFlagsBinaryOrOctalSpecifier" "scan_wf s"
  shows "\<not> hasFlag (snd (scan_step canon s)) TokenFlagsBinaryOrOctalSpecifier"
    "scan_wf (snd (scan_step canon s))" "s_pos s < s_pos (snd (scan_step canon s))"
    "same_input (s\<lparr>s_tokenStart := s_pos s\<rparr>) (snd (scan_step canon s))"
    "s_panicked (snd (scan_step canon s)) = s_panicked s"
proof -
  have lt: "s_pos s < s_end s" by (rule scan_step_continue_inside [OF assms(1)])
  note m = scan_step_moves [OF assms(2,3) lt, of canon]
  have k: "keeps_radix (s\<lparr>s_tokenStart := s_pos s\<rparr>) (snd (scan_step canon s))"
    using scan_step_continues [of s canon] assms(1) by (simp add: continues_def)
  then show "\<not> hasFlag (snd (scan_step canon s)) TokenFlagsBinaryOrOctalSpecifier"
    using assms(2) by (simp add: keeps_radix_def hasFlag_def)
  show "scan_wf (snd (scan_step canon s))"
    using scan_moves_wf [OF m] lt assms(3) by (simp add: scan_wf_def)
  show "s_pos s < s_pos (snd (scan_step canon s))" using scan_moves_le [OF m] by simp
  show "same_input (s\<lparr>s_tokenStart := s_pos s\<rparr>) (snd (scan_step canon s))"
    using scan_moves_same [OF m] by (simp add: One_nat_def)
  show "s_panicked (snd (scan_step canon s)) = s_panicked s"
    using scan_moves_panicked [OF m] by simp
qed

lemma scan_loop_scanned:
  "\<not> hasFlag s TokenFlagsBinaryOrOctalSpecifier \<Longrightarrow> scan_wf s \<Longrightarrow>
     scanned s (scan_loop canon s) \<and> s_fullStartPos (scan_loop canon s) = s_fullStartPos s"
proof (induction canon s rule: scan_loop.induct)
  case (1 canon s)
  define t where "t = snd (scan_step canon s)"
  show ?case
  proof (cases "fst (scan_step canon s)")
    case True
    note f = scan_step_continue_facts [OF True 1(2,3), folded t_def]
    have IH: "scanned t (scan_loop canon t) \<and> s_fullStartPos (scan_loop canon t) = s_fullStartPos t"
      using 1(1) [OF refl True] f unfolding t_def by simp
    have "scan_loop canon s = scan_loop canon t"
      using True by (subst scan_loop.simps) (simp add: t_def)
    then show ?thesis
      using IH f(3-5) by (simp add: scanned_def same_input_def)
  next
    case False
    then have "scan_loop canon s = t" by (subst scan_loop.simps) (simp add: t_def)
    then show ?thesis using scan_step_scanned [OF 1(2,3) False] by (simp add: t_def)
  qed
qed

lemma Scan_scanned:
  assumes "scan_wf s"
  shows "scanned s (snd (Scan canon s))" "s_fullStartPos (snd (Scan canon s)) = s_pos s"
    "fst (Scan canon s) = s_token (snd (Scan canon s))" "scan_wf (snd (Scan canon s))"
proof -
  define t where "t = s\<lparr>s_fullStartPos := s_pos s, s_tokenFlags := TokenFlagsNone\<rparr>"
  have "\<not> hasFlag t TokenFlagsBinaryOrOctalSpecifier" "scan_wf t"
    using assms by (simp_all add: t_def hasFlag_def)
  from scan_loop_scanned [OF this, of canon]
  show "scanned s (snd (Scan canon s))" "s_fullStartPos (snd (Scan canon s)) = s_pos s"
    "fst (Scan canon s) = s_token (snd (Scan canon s))" "scan_wf (snd (Scan canon s))"
    using assms by (simp_all add: Scan_def Let_def t_def [symmetric] scanned_def scan_wf_def) (simp_all add: t_def)
qed


section \<open>Scanning a whole text\<close>

text \<open>
  The states after each call of \<open>Scan\<close>, up to and with the one that reports the end of the file;
  \<open>None\<close> when that takes more than \<open>fuel\<close> calls.
\<close>

fun scan_all :: "nat \<Rightarrow> (string \<Rightarrow> string) \<Rightarrow> Scanner \<Rightarrow> Scanner list option" where
  "scan_all 0 canon s = None"
| "scan_all (Suc fuel) canon s =
     (let t = snd (Scan canon s)
      in if s_token t = KindEndOfFile then Some [t] else map_option ((#) t) (scan_all fuel canon t))"

definition full_text :: "Scanner \<Rightarrow> string" where
  "full_text t = slc (s_text t) (s_fullStartPos t) (s_pos t)"

lemma scan_all_tiles:
  "scan_wf s \<Longrightarrow> s_end s - s_pos s < fuel \<Longrightarrow>
     \<exists>ts. scan_all fuel canon s = Some ts \<and> concat (map full_text ts) = drop (s_pos s) (s_text s)
        \<and> ts \<noteq> [] \<and> s_token (last ts) = KindEndOfFile \<and> s_pos (last ts) = s_end s
        \<and> list_all (\<lambda>t. s_panicked t = s_panicked s \<and> s_text t = s_text s) ts"
proof (induction fuel arbitrary: s)
  case (Suc fuel)
  define t where "t = snd (Scan canon s)"
  note sc = Scan_scanned [OF Suc.prems(1), of canon, folded t_def]
  have full: "full_text t = slc (s_text s) (s_pos s) (s_pos t)"
    using sc(1,2) by (simp add: full_text_def scanned_def)
  have ends: "s_end s = length (s_text s)" using Suc.prems(1) by (simp add: scan_wf_def)
  show ?case
  proof (cases "s_token t = KindEndOfFile")
    case True
    then have e: "s_pos t = s_end s" using sc(1) by (simp add: scanned_def)
    have "scan_all (Suc fuel) canon s = Some [t]" using True by (simp add: Let_def t_def [symmetric])
    moreover have "full_text t = drop (s_pos s) (s_text s)"
      unfolding full e by (rule slc_to_end) (simp add: ends)
    moreover have "s_panicked t = s_panicked s \<and> s_text t = s_text s" using sc(1) by (simp add: scanned_def)
    ultimately show ?thesis using True e by simp
  next
    case False
    then have p: "s_pos s < s_pos t" "s_pos t \<le> s_end s" "s_end t = s_end s" "s_text t = s_text s"
      "s_panicked t = s_panicked s"
      using sc(1) by (simp_all add: scanned_def)
    then have "s_end t - s_pos t < fuel" using Suc.prems(2) by linarith
    from Suc.IH [OF sc(4) this] obtain ts where ts: "scan_all fuel canon t = Some ts"
      "concat (map full_text ts) = drop (s_pos t) (s_text t)" "ts \<noteq> []"
      "s_token (last ts) = KindEndOfFile" "s_pos (last ts) = s_end t"
      "list_all (\<lambda>u. s_panicked u = s_panicked t \<and> s_text u = s_text t) ts" by blast
    have "scan_all (Suc fuel) canon s = Some (t # ts)"
      using False ts(1) by (simp add: Let_def t_def [symmetric])
    moreover have "slc (s_text s) (s_pos s) (s_pos t) @ drop (s_pos t) (s_text s) = drop (s_pos s) (s_text s)"
      using p(1,2) ends slc_append [of "s_pos s" "s_pos t" "length (s_text s)" "s_text s"]
      by (simp add: slc_to_end)
    ultimately show ?thesis using ts p full by simp
  qed
qed simp

lemma SetText_wf [simp]: "scan_wf (SetText t s)"
  by (cases s) (simp add: SetText_def Rewind_def scan_wf_def zeroScannerState_def ScannerState.defs)

lemma SetText_fields:
  "s_pos (SetText t s) = 0" "s_text (SetText t s) = t" "s_end (SetText t s) = length t"
  "s_panicked (SetText t s) = s_panicked s" "s_skipTrivia (SetText t s) = s_skipTrivia s"
  "s_skipJSDocLeadingAsterisks (SetText t s) = 0"
  by (cases s, simp add: SetText_def Rewind_def zeroScannerState_def ScannerState.defs)+

section \<open>Properties\<close>

text \<open>C1: \<open>Scan\<close> is safe: from a position in the text it returns without a panic, leaves the text and the
  options alone, and the token it reports lies between the old position and the end:
  \<open>fullStartPos\<close> is the old position and \<open>fullStartPos \<le> tokenStart \<le> pos \<le> end\<close>, so that \<open>Scan\<close> can be
  called again. (The slices of the source, such as \<open>s.text[s.tokenStart:s.pos]\<close>, are then in range.)\<close>

theorem Scan_safe:
  assumes "scan_wf s" "\<not> s_panicked s" "Scan canon s = (k, t)"
  shows "scan_wf t \<and> \<not> s_panicked t \<and> s_text t = s_text s \<and> k = s_token t
    \<and> s_fullStartPos t = s_pos s \<and> s_fullStartPos t \<le> s_tokenStart t
    \<and> s_tokenStart t \<le> s_pos t \<and> s_pos t \<le> length (s_text s)"
  using Scan_scanned [OF assms(1), of canon] assms by (simp add: scanned_def scan_wf_def)

lemma Scan_safe_witness:
  "scan_wf (snd (Scan id (SetText ''a'' NewScanner)))
    \<and> \<not> s_panicked (snd (Scan id (SetText ''a'' NewScanner)))"
  using Scan_safe [of "SetText ''a'' NewScanner" id "fst (Scan id (SetText ''a'' NewScanner))"
      "snd (Scan id (SetText ''a'' NewScanner))"]
  by (simp add: SetText_fields NewScanner_def defaultScanner_def zeroScannerState_def ScannerState.defs Scanner.defs)

text \<open>\<open>Scan\<close> makes progress: the token is \<open>KindEndOfFile\<close> exactly when it begins at the end of the
  text, and every other token has at least one byte.\<close>

theorem Scan_progress:
  assumes "scan_wf s" "Scan canon s = (k, t)"
  shows "(k = KindEndOfFile \<longleftrightarrow> s_tokenStart t = length (s_text s))
    \<and> (k \<noteq> KindEndOfFile \<longrightarrow> TokenText t \<noteq> [])"
proof -
  have sc: "scanned s t" "k = s_token t" using Scan_scanned [OF assms(1), of canon] assms(2) by simp_all
  then have "s_token t \<noteq> KindEndOfFile \<Longrightarrow> 0 < length (TokenText t)"
    using assms(1) by (simp add: TokenText_def scanned_def scan_wf_def)
  then show ?thesis using sc assms(1) by (auto simp: scanned_def scan_wf_def)
qed

lemma Scan_progress_witness:
  "fst (Scan id (SetText ''a'' NewScanner)) = KindEndOfFile
     \<longleftrightarrow> s_tokenStart (snd (Scan id (SetText ''a'' NewScanner))) = 1"
  using Scan_progress [of "SetText ''a'' NewScanner" id "fst (Scan id (SetText ''a'' NewScanner))"
      "snd (Scan id (SetText ''a'' NewScanner))"]
  by (simp add: SetText_fields One_nat_def)

text \<open>C2: Scanning a text to its end terminates and loses nothing: from \<open>SetText\<close>, the end of the file is
  reported after at most one call of \<open>Scan\<close> more than the text has bytes, without a panic, and the
  texts of the tokens with their leading trivia, put one after the other, are the text.\<close>

theorem scanning_tiles_the_text:
  "\<exists>ts. scan_all (Suc (length text)) canon (SetText text s) = Some ts
     \<and> concat (map full_text ts) = text \<and> s_token (last ts) = KindEndOfFile
     \<and> list_all (\<lambda>t. s_panicked t = s_panicked s) ts"
  using scan_all_tiles [of "SetText text s" "Suc (length text)" canon]
  by (auto simp: SetText_fields list_all_iff)

declare One_nat_def [simp]

end
