(* ===== verification/ScannerSync.thy ===== *)
theory ScannerSync
  imports ScannerProps
begin

text \<open>
  \<open>Scan\<close> and \<open>SkipTrivia\<close> walk over the same trivia with different code: \<open>Scan\<close> skips in its own loop,
  in runs of ASCII bytes; \<open>SkipTrivia\<close> is a pure function used by everything that works on positions.
  Here they are shown to agree on where a token begins.
\<close>

section \<open>ASCII runs\<close>

lemma runes_end_step:
  "t \<noteq> [] \<Longrightarrow> p (fst (DecodeRune t)) \<Longrightarrow>
     runes_end p t = snd (DecodeRune t) + runes_end p (drop (snd (DecodeRune t)) t)"
  by (subst runes_end.simps) (simp add: Let_def DecodeRune_size_pos)

lemma runes_end_halt: "t = [] \<or> \<not> p (fst (DecodeRune t)) \<Longrightarrow> runes_end p t = 0"
  by (subst runes_end.simps) (auto simp: Let_def)

lemma runes_end_ascii_run:
  assumes "\<And>c. rune_of c < 0x80 \<Longrightarrow> q (rune_of c) \<Longrightarrow> p (rune_of c)"
  shows "runes_end p t = run_length (\<lambda>b. rune_of b < RuneSelf \<and> q (rune_of b)) t
     + runes_end p (drop (run_length (\<lambda>b. rune_of b < RuneSelf \<and> q (rune_of b)) t) t)"
proof (induction t)
  case (Cons c t)
  show ?case
  proof (cases "rune_of c < RuneSelf \<and> q (rune_of c)")
    case True
    then have "DecodeRune (c # t) = (rune_of c, 1)" by simp
    with True assms [of c] Cons show ?thesis
      using runes_end_step [of "c # t" p] by simp
  next
    case False
    then have "run_length (\<lambda>b. rune_of b < RuneSelf \<and> q (rune_of b)) (c # t) = 0" by auto
    then show ?thesis by (simp only: drop_0 add_0)
  qed
qed simp

lemma scanASCIIWhile_pos:
  "scan_wf s \<Longrightarrow> s_pos (scanASCIIWhile q s) =
     s_pos s + run_length (\<lambda>b. rune_of b < RuneSelf \<and> q (rune_of b)) (drop (s_pos s) (s_text s))"
  by (simp add: scanASCIIWhile_def scan_wf_def slc_to_end)

lemma runes_end_scanASCIIWhile:
  assumes "scan_wf s" "\<And>c. rune_of c < 0x80 \<Longrightarrow> q (rune_of c) \<Longrightarrow> p (rune_of c)"
  defines "t \<equiv> scanASCIIWhile q s"
  shows "s_pos s + runes_end p (drop (s_pos s) (s_text s)) = s_pos t + runes_end p (drop (s_pos t) (s_text t))"
proof -
  have "s_text t = s_text s" unfolding t_def by (rule scan_moves_text [OF scan_moves_scanASCIIWhile])
  then show ?thesis
    using runes_end_ascii_run [of q p "drop (s_pos s) (s_text s)"] assms(1,2)
    unfolding t_def by (simp add: scanASCIIWhile_pos add.commute)
qed

lemma lineComment_loop_pos:
  "scan_wf s \<Longrightarrow> s_pos (lineComment_loop s) = line_end (s_text s) (s_pos s)"
proof (induction s rule: lineComment_loop.induct)
  case (1 s0)
  define s where "s = scanASCIIWhile (\<lambda>b. b \<noteq> 0x0A \<and> b \<noteq> 0x0D) s0"
  have m: "scan_moves s0 s" unfolding s_def by simp
  have wf: "scan_wf s" using scan_moves_wf [OF m 1(2)] .
  have run: "line_end (s_text s0) (s_pos s0) = line_end (s_text s) (s_pos s)"
    unfolding line_end_def s_def
    by (rule runes_end_scanASCIIWhile [OF 1(2)]) (auto simp: IsLineBreak_def)
  define n where "n = snd (charAndSize s)"
  define ch where "ch = fst (charAndSize s)"
  have d: "DecodeRune (drop (s_pos s) (s_text s)) = (ch, n)"
    using charAndSize_decode [OF wf] by (simp add: n_def ch_def)
  show ?case
  proof (cases "n = 0 \<or> IsLineBreak ch")
    case True
    then have "lineComment_loop s0 = s"
      by (subst lineComment_loop.simps, unfold Let_def, fold s_def, fold n_def ch_def) simp
    moreover have "line_end (s_text s) (s_pos s) = s_pos s"
      using True d DecodeRune_size_pos [of "drop (s_pos s) (s_text s)"]
      unfolding line_end_def by (subst runes_end_halt) auto
    ultimately show ?thesis using run by simp
  next
    case False
    then have eq: "lineComment_loop s0 = lineComment_loop (advance n s)"
      by (subst lineComment_loop.simps, unfold Let_def, fold s_def, fold n_def ch_def) simp
    have wf2: "scan_wf (advance n s)" using scan_moves_wf [OF scan_moves_charAndSize wf] by (simp add: n_def)
    have IH: "s_pos (lineComment_loop (advance n s)) = line_end (s_text s) (s_pos s + n)"
      using 1(1) [OF s_def ch_def n_def _ wf2] False by simp
    have "drop (s_pos s) (s_text s) \<noteq> []" using False d by auto
    then have "line_end (s_text s) (s_pos s) = line_end (s_text s) (s_pos s + n)"
      using runes_end_step [of "drop (s_pos s) (s_text s)" "\<lambda>ch. \<not> IsLineBreak ch"] d False
      by (simp add: line_end_def add.commute add.left_commute)
    then show ?thesis using eq IH run by simp
  qed
qed

lemma block_end_skip:
  "t \<noteq> [] \<Longrightarrow> \<not> HasPrefix t ''*/'' \<Longrightarrow>
     block_end t = snd (DecodeRune t) + block_end (drop (snd (DecodeRune t)) t)"
  by (subst block_end.simps) simp

lemma block_end_ascii_run:
  assumes "\<And>c. q (rune_of c) \<Longrightarrow> rune_of c \<noteq> 0x2A"
  shows "block_end t = run_length (\<lambda>b. rune_of b < RuneSelf \<and> q (rune_of b)) t
     + block_end (drop (run_length (\<lambda>b. rune_of b < RuneSelf \<and> q (rune_of b)) t) t)"
proof (induction t)
  case (Cons c t)
  show ?case
  proof (cases "rune_of c < RuneSelf \<and> q (rune_of c)")
    case True
    have "\<not> HasPrefix (c # t) ''*/''"
      using assms [of c] True by (auto simp: HasPrefix_def)
    moreover have "DecodeRune (c # t) = (rune_of c, 1)" using True by simp
    ultimately show ?thesis using block_end_skip [of "c # t"] Cons True by simp
  next
    case False
    then have "run_length (\<lambda>b. rune_of b < RuneSelf \<and> q (rune_of b)) (c # t) = 0" by auto
    then show ?thesis by (simp only: drop_0 add_0)
  qed
qed simp

lemma HasPrefix2: "HasPrefix t [a, b] \<longleftrightarrow> 1 < length t \<and> t ! 0 = a \<and> t ! 1 = b"
  by (cases t; cases "tl t") (auto simp: HasPrefix_def)

lemma of_char_eq_const: "(of_char c :: int) = of_char d \<longleftrightarrow> c = d"
  by simp

lemma charAt_char:
  "scan_wf s \<Longrightarrow> charAt s n = of_char c \<longleftrightarrow> s_pos s + n < length (s_text s) \<and> s_text s ! (s_pos s + n) = c"
  by (auto simp: charAt_def scan_wf_def of_char_ge_neg1(2) [THEN not_sym])

lemma blockComment_loop_pos:
  "scan_wf s \<Longrightarrow> s_pos (snd (snd (blockComment_loop l s))) = s_pos s + block_end (drop (s_pos s) (s_text s))"
proof (induction l s rule: blockComment_loop.induct)
  case (1 l s0)
  define s where "s = scanASCIIWhile (\<lambda>b. b \<noteq> 0x2A \<and> b \<noteq> 0x0A \<and> b \<noteq> 0x0D) s0"
  have m: "scan_moves s0 s" unfolding s_def by simp
  have wf: "scan_wf s" using scan_moves_wf [OF m 1(3)] .
  have same: "s_text s = s_text s0" by (rule scan_moves_text [OF m])
  have run: "s_pos s0 + block_end (drop (s_pos s0) (s_text s0)) = s_pos s + block_end (drop (s_pos s) (s_text s))"
    using block_end_ascii_run [of "\<lambda>b. b \<noteq> 0x2A \<and> b \<noteq> 0x0A \<and> b \<noteq> 0x0D" "drop (s_pos s0) (s_text s0)"]
    unfolding same unfolding s_def scanASCIIWhile_pos [OF 1(3)] by (simp add: add.commute)
  define n where "n = snd (charAndSize s)"
  define ch where "ch = fst (charAndSize s)"
  define t where "t = advance n s"
  have d: "DecodeRune (drop (s_pos s) (s_text s)) = (ch, n)"
    using charAndSize_decode [OF wf] by (simp add: n_def ch_def)
  have wf2: "scan_wf t" using scan_moves_wf [OF scan_moves_charAndSize wf] by (simp add: n_def t_def)
  have close: "(ch = 0x2A \<and> charAt s 1 = 0x2F) = HasPrefix (drop (s_pos s) (s_text s)) ''*/''"
  proof -
    have "ch = 0x2A \<longleftrightarrow> s_pos s < length (s_text s) \<and> s_text s ! s_pos s = CHR ''*''"
    proof
      assume "ch = 0x2A"
      then have "s_pos s < length (s_text s) \<and> rune_of (s_text s ! s_pos s) = rune_of CHR ''*''"
        using DecodeRune_at_ascii [of "s_pos s" "s_text s"] d by simp
      then show "s_pos s < length (s_text s) \<and> s_text s ! s_pos s = CHR ''*''"
        using of_char_eq_const by blast
    next
      assume *: "s_pos s < length (s_text s) \<and> s_text s ! s_pos s = CHR ''*''"
      then have "drop (s_pos s) (s_text s) = CHR ''*'' # drop (Suc (s_pos s)) (s_text s)"
        by (metis Cons_nth_drop_Suc)
      then show "ch = 0x2A" using d by simp
    qed
    moreover have "charAt s 1 = 0x2F \<longleftrightarrow> s_pos s + 1 < length (s_text s) \<and> s_text s ! (s_pos s + 1) = CHR ''/''"
      using charAt_char [OF wf, of 1 "CHR ''/''"] by simp
    ultimately show ?thesis by (auto simp: HasPrefix2)
  qed
  show ?case
  proof (cases "n = 0")
    case True
    then have "blockComment_loop l s0 = (False, l, s)"
      by (subst blockComment_loop.simps, unfold Let_def, fold s_def, fold n_def ch_def) simp
    moreover have "block_end (drop (s_pos s) (s_text s)) = 0"
      using d True DecodeRune_size_pos [of "drop (s_pos s) (s_text s)"]
      by (cases "drop (s_pos s) (s_text s) = []") (simp_all add: block_end.simps [of "[]"])
    ultimately show ?thesis using run by simp
  next
    case n: False
    then have ne: "drop (s_pos s) (s_text s) \<noteq> []" using d by auto
    show ?thesis
    proof (cases "ch = 0x2A \<and> charAt s 1 = 0x2F")
      case True
      then have "blockComment_loop l s0 = (True, l, advance 2 s)"
        using n by (subst blockComment_loop.simps, unfold Let_def, fold s_def, fold n_def ch_def) simp
      moreover have "block_end (drop (s_pos s) (s_text s)) = 2"
        using ne True close by (subst block_end.simps) simp
      ultimately show ?thesis using run by simp
    next
      case False
      define u where "u = (if IsLineBreak ch then addFlag TokenFlagsPrecedingLineBreak t else t)"
      define l' where "l' = (if IsLineBreak ch then s_pos t else l)"
      have eq: "blockComment_loop l s0 = blockComment_loop l' u"
        using n False
        by (subst blockComment_loop.simps, unfold Let_def, fold s_def, fold n_def ch_def, fold t_def)
           (auto simp: u_def l'_def)
      have "s_pos (snd (snd (blockComment_loop l' u))) = s_pos u + block_end (drop (s_pos u) (s_text u))"
        using 1(1) [OF s_def ch_def n_def n False t_def] 1(2) [OF s_def ch_def n_def n False t_def] wf2
        by (simp add: u_def l'_def)
      moreover have "block_end (drop (s_pos s) (s_text s)) = n + block_end (drop (s_pos s + n) (s_text s))"
      proof -
        have "\<not> HasPrefix (drop (s_pos s) (s_text s)) ''*/''" using False close by blast
        from block_end_skip [OF ne this] d show ?thesis by (simp add: add.commute)
      qed
      ultimately show ?thesis using eq run by (simp add: u_def t_def)
    qed
  qed
qed

section \<open>Skipping by steps\<close>

definition skip_from :: "string \<Rightarrow> nat \<Rightarrow> nat" where
  "skip_from t pos = skipTrivia_loop defaultSkipTriviaOptions t pos False"

lemma default_options [simp]:
  "\<not> StopAfterLineBreak defaultSkipTriviaOptions" "\<not> StopAtComments defaultSkipTriviaOptions"
  "\<not> InJSDoc defaultSkipTriviaOptions"
  by (simp_all add: defaultSkipTriviaOptions_def)

lemma skip_from_end: "length t \<le> pos \<Longrightarrow> skip_from t pos = pos"
  unfolding skip_from_def by (subst skipTrivia_loop.simps) simp

lemma skip_from_stop:
  "pos < length t \<Longrightarrow> skipTrivia_step defaultSkipTriviaOptions t pos False = Inr p \<Longrightarrow> skip_from t pos = p"
  unfolding skip_from_def by (subst skipTrivia_loop.simps) simp

lemma skip_from_move:
  "pos < length t \<Longrightarrow> skipTrivia_step defaultSkipTriviaOptions t pos False = Inl (p, False) \<Longrightarrow>
     skip_from t pos = skip_from t p"
  unfolding skip_from_def by (subst skipTrivia_loop.simps) simp

text \<open>What one step does, by the character at the position.\<close>

lemma ascii_at:
  assumes "pos < length t" "rune_of (t ! pos) = c" "c < 0x80"
  shows "DecodeRune (drop pos t) = (c, 1)"
  using assms by (metis Cons_nth_drop_Suc DecodeRune_ascii)

lemma skip_blank:
  assumes "pos < length t" "rune_of (t ! pos) = c" "c = 0x09 \<or> c = 0x0B \<or> c = 0x0C \<or> c = 0x20"
  shows "skip_from t pos = skip_from t (pos + 1)"
proof (rule skip_from_move [OF assms(1)])
  have "DecodeRune (drop pos t) = (c, 1)" using assms by (intro ascii_at) auto
  then show "skipTrivia_step defaultSkipTriviaOptions t pos False = Inl (pos + 1, False)"
    using assms(3) by (elim disjE) (simp_all add: skipTrivia_step_def Let_def)
qed

lemma skip_newline:
  assumes "pos < length t" "rune_of (t ! pos) = 0x0A"
  shows "skip_from t pos = skip_from t (pos + 1)"
  using assms ascii_at [OF assms]
  by (intro skip_from_move) (auto simp: skipTrivia_step_def Let_def skipTrivia_line_break_def)

lemma skip_return:
  assumes "pos < length t" "rune_of (t ! pos) = 0x0D"
  shows "skip_from t pos = skip_from t (pos + 1)"
proof (cases "pos + 1 < length t \<and> t ! (pos + 1) = CHR 0x0A")
  case True
  then have "skip_from t pos = skip_from t (pos + 2)"
    using assms ascii_at [OF assms]
    by (intro skip_from_move) (auto simp: skipTrivia_step_def Let_def skipTrivia_line_break_def)
  moreover have "skip_from t (pos + 1) = skip_from t (pos + 2)"
    using skip_newline [of "pos + 1" t] True by simp
  ultimately show ?thesis by simp
next
  case False
  then show ?thesis
    using assms ascii_at [OF assms]
    by (intro skip_from_move) (auto simp: skipTrivia_step_def Let_def skipTrivia_line_break_def)
qed

lemma skip_white:
  assumes "pos < length t" "rune_of (t ! pos) = 0x20 \<or> 0x09 \<le> rune_of (t ! pos) \<and> rune_of (t ! pos) \<le> 0x0D"
  shows "skip_from t pos = skip_from t (pos + 1)"
proof -
  have "rune_of (t ! pos) = 0x20 \<or> rune_of (t ! pos) = 0x09 \<or> rune_of (t ! pos) = 0x0A
    \<or> rune_of (t ! pos) = 0x0B \<or> rune_of (t ! pos) = 0x0C \<or> rune_of (t ! pos) = 0x0D"
    using assms(2) by presburger
  then show ?thesis using skip_blank [OF assms(1) refl] skip_newline [OF assms(1)] skip_return [OF assms(1)]
    by blast
qed

lemma skip_white_run:
  assumes "\<And>b. q b \<Longrightarrow> b = 0x20 \<or> 0x09 \<le> b \<and> b \<le> 0x0D"
  shows "n \<le> run_length (\<lambda>b. rune_of b < RuneSelf \<and> q (rune_of b)) (drop pos t) \<Longrightarrow>
     skip_from t pos = skip_from t (pos + n)"
proof (induction n)
  case (Suc n)
  have lt: "n < run_length (\<lambda>b. rune_of b < RuneSelf \<and> q (rune_of b)) (drop pos t)" using Suc by simp
  have "pos + n < length t"
    using lt run_length_le [of "\<lambda>b. rune_of b < RuneSelf \<and> q (rune_of b)" "drop pos t"] by simp
  moreover have "q (rune_of (t ! (pos + n)))" using run_length_prefix [OF lt] calculation by simp
  ultimately have "skip_from t (pos + n) = skip_from t (pos + n + 1)"
    using skip_white [of "pos + n" t] assms by blast
  then show ?case using Suc by simp
qed simp

lemma skip_line_comment:
  assumes "pos + 1 < length t" "rune_of (t ! pos) = 0x2F" "t ! (pos + 1) = CHR ''/''"
  shows "skip_from t pos = skip_from t (line_end t (pos + 2))"
  using assms ascii_at [of pos t]
  by (intro skip_from_move) (auto simp: skipTrivia_step_def Let_def skipTrivia_slash_def)

lemma skip_block_comment:
  assumes "pos + 1 < length t" "rune_of (t ! pos) = 0x2F" "t ! (pos + 1) = CHR ''*''"
  shows "skip_from t pos = skip_from t (pos + 2 + block_end (drop (pos + 2) t))"
  using assms ascii_at [of pos t]
  by (intro skip_from_move) (auto simp: skipTrivia_step_def Let_def skipTrivia_slash_def)

lemma skip_conflict:
  assumes "isConflictMarkerTrivia t pos" "scanConflictMarkerTrivia t pos = Some p" "pos < length t"
    "rune_of (t ! pos) = c" "c = 0x3C \<or> c = 0x7C \<or> c = 0x3D \<or> c = 0x3E"
  shows "skip_from t pos = skip_from t p"
proof (rule skip_from_move [OF assms(3)])
  have "DecodeRune (drop pos t) = (c, 1)" using assms by (intro ascii_at) auto
  then show "skipTrivia_step defaultSkipTriviaOptions t pos False = Inl (p, False)"
    using assms(5) by (elim disjE) (simp_all add: skipTrivia_step_def Let_def assms(1,2))
qed

lemma skip_shebang:
  assumes "isShebangTrivia t"
  shows "skip_from t 0 = skip_from t (line_end t 2)"
proof -
  have "0 < length t" "rune_of (t ! 0) = 0x23"
    using assms by (auto simp: isShebangTrivia_def)
  then show ?thesis
    using assms ascii_at [of 0 t "0x23"]
    by (intro skip_from_move) (auto simp: skipTrivia_step_def Let_def scanShebangTrivia_def numeral_2_eq_2)
qed

lemma skip_high_white:
  assumes "DecodeRune (drop pos t) = (ch, n)" "0x80 \<le> ch" "IsWhiteSpaceLike ch" "pos < length t"
  shows "skip_from t pos = skip_from t (pos + n)"
proof (rule skip_from_move [OF assms(4)])
  have "ch \<noteq> 0x0D" "ch \<noteq> 0x0A" "ch \<noteq> 0x09" "ch \<noteq> 0x0B" "ch \<noteq> 0x0C" "ch \<noteq> 0x20" "ch \<noteq> 0x2F" "ch \<noteq> 0x3C"
    "ch \<noteq> 0x7C" "ch \<noteq> 0x3D" "ch \<noteq> 0x3E" "ch \<noteq> 0x23" "ch \<noteq> 0x2A" "127 < ch"
    using assms(2) by auto
  then show "skipTrivia_step defaultSkipTriviaOptions t pos False = Inl (pos + n, False)"
    using assms(3) by (simp add: skipTrivia_step_def Let_def assms(1) split del: if_split)
qed

text \<open>The steps that stop.\<close>

lemma skip_stop:
  assumes "DecodeRune (drop pos t) = (ch, n)" "pos < length t"
    "ch \<notin> {0x0D, 0x0A, 0x09, 0x0B, 0x0C, 0x20}"
    "ch = 0x2F \<Longrightarrow> \<not> (pos + 1 < length t \<and> (t ! (pos + 1) = CHR ''/'' \<or> t ! (pos + 1) = CHR ''*''))"
    "ch \<in> {0x3C, 0x7C, 0x3D, 0x3E} \<Longrightarrow> \<not> isConflictMarkerTrivia t pos"
    "ch = 0x23 \<Longrightarrow> \<not> (pos = 0 \<and> isShebangTrivia t)"
    "0x80 \<le> ch \<Longrightarrow> \<not> IsWhiteSpaceLike ch"
  shows "skip_from t pos = pos"
proof (rule skip_from_stop [OF assms(2)])
  have ne: "ch \<noteq> 0x0D" "ch \<noteq> 0x0A" "ch \<noteq> 0x09" "ch \<noteq> 0x0B" "ch \<noteq> 0x0C" "ch \<noteq> 0x20"
    using assms(3) by simp_all
  note step = skipTrivia_step_def [of _ t pos False, unfolded assms(1) Let_def fst_conv snd_conv]
  consider "ch = 0x2F" | "ch = 0x3C \<or> ch = 0x7C \<or> ch = 0x3D \<or> ch = 0x3E" | "ch = 0x23" | "ch = 0x2A"
    | "ch \<noteq> 0x2F" "\<not> (ch = 0x3C \<or> ch = 0x7C \<or> ch = 0x3D \<or> ch = 0x3E)" "ch \<noteq> 0x23" "ch \<noteq> 0x2A" by blast
  then show "skipTrivia_step defaultSkipTriviaOptions t pos False = Inr pos"
  proof cases
    case 1
    then show ?thesis using assms(4) by (auto simp: step skipTrivia_slash_def)
  next
    case 2
    then show ?thesis using assms(5) by (elim disjE) (simp_all add: step)
  next
    case 3
    then show ?thesis using assms(6) by (simp add: step)
  next
    case 4
    then show ?thesis by (simp add: step)
  next
    case 5
    have "\<not> (127 < ch \<and> IsWhiteSpaceLike ch)" using assms(7) by auto
    with 5 ne show ?thesis by (simp only: step if_False simp_thms)
  qed
qed

section \<open>The turns of \<open>Scan\<close>\<close>

text \<open>A turn at \<open>s\<close> agrees with \<open>SkipTrivia\<close>: continuing skips what it skips, stopping stops.\<close>

definition agrees :: "Scanner \<Rightarrow> bool \<times> Scanner \<Rightarrow> bool" where
  "agrees s r \<longleftrightarrow>
     skip_from (s_text s) (s_pos s) =
       (if fst r then skip_from (s_text s) (s_pos (snd r)) else s_pos s)"

definition plain :: "Scanner \<Rightarrow> bool" where
  "plain s \<longleftrightarrow> scan_wf s \<and> s_skipTrivia s \<and> s_skipJSDocLeadingAsterisks s = 0"

lemma plain_wf: "plain s \<Longrightarrow> scan_wf s"
  by (simp add: plain_def)

lemma char_at_pos:
  assumes "plain s" "s_char s = c" "0 \<le> c"
  shows "s_pos s < length (s_text s)" "rune_of (s_text s ! s_pos s) = c"
  using assms s_char_nonneg_iff [of s] by (auto simp: s_char_def plain_def scan_wf_def)

lemma char_decode:
  assumes "plain s" "s_char s = c" "0 \<le> c" "c < 0x80"
  shows "DecodeRune (drop (s_pos s) (s_text s)) = (c, 1)"
  using ascii_at char_at_pos [OF assms(1-3)] assms(4) by blast

lemma char_next:
  assumes "plain s"
  shows "charAt s 1 = 0x2F \<longleftrightarrow> s_pos s + 1 < length (s_text s) \<and> s_text s ! (s_pos s + 1) = CHR ''/''"
    "charAt s 1 = 0x2A \<longleftrightarrow> s_pos s + 1 < length (s_text s) \<and> s_text s ! (s_pos s + 1) = CHR ''*''"
    "charAt s 1 = 0x21 \<longleftrightarrow> s_pos s + 1 < length (s_text s) \<and> s_text s ! (s_pos s + 1) = CHR ''!''"
  using charAt_char [OF plain_wf [OF assms], of 1 "CHR ''/''"]
    charAt_char [OF plain_wf [OF assms], of 1 "CHR ''*''"]
    charAt_char [OF plain_wf [OF assms], of 1 "CHR ''!''"] by simp_all

lemma blank_agrees:
  assumes "plain s" "s_char s = 0x09 \<or> s_char s = 0x0B \<or> s_char s = 0x0C \<or> s_char s = 0x20"
  shows "agrees s (scan_blank s)"
proof -
  have "0 \<le> s_char s" using assms(2) by auto
  note c = char_at_pos [OF assms(1) refl this]
  show ?thesis
    using skip_blank [OF c assms(2)] assms(1) by (simp add: agrees_def scan_blank_def Let_def plain_def)
qed

lemma newline_agrees:
  assumes "plain s" "s_char s = 0x0A \<or> s_char s = 0x0D"
  shows "agrees s (scan_newline ch s)"
proof -
  have "0 \<le> s_char s" using assms(2) by auto
  note c = char_at_pos [OF assms(1) refl this]
  define t where "t = advance 1 (addFlag TokenFlagsPrecedingLineBreak s)"
  define q :: "rune \<Rightarrow> bool" where "q = (\<lambda>b. b = 0x20 \<or> 0x09 \<le> b \<and> b \<le> 0x0D)"
  have wf: "scan_wf t" using assms(1) c(1) by (simp add: t_def plain_def scan_wf_def)
  have "skip_from (s_text s) (s_pos s) = skip_from (s_text s) (s_pos t)"
    using skip_white [OF c(1)] c(2) assms(2) by (auto simp: t_def)
  also have "\<dots> = skip_from (s_text s) (s_pos (scanASCIIWhile q t))"
    using skip_white_run [of q "run_length (\<lambda>b. rune_of b < RuneSelf \<and> q (rune_of b)) (drop (s_pos t) (s_text s))"
       "s_pos t" "s_text s"]
    by (simp add: scanASCIIWhile_pos [OF wf]) (simp add: q_def t_def)
  finally show ?thesis
    using assms(1) by (simp add: agrees_def scan_newline_def Let_def plain_def t_def q_def)
qed

lemma processCommentDirective_simps [simp]:
  "s_pos (processCommentDirective a b m s) = s_pos s"
  "s_skipTrivia (processCommentDirective a b m s) = s_skipTrivia s"
  by (simp_all add: processCommentDirective_def Let_def)

lemma scanJSDocCommentForTags_simps [simp]:
  "s_pos (scanJSDocCommentForTags c s) = s_pos s"
  "s_skipTrivia (scanJSDocCommentForTags c s) = s_skipTrivia s"
  by (simp_all add: scanJSDocCommentForTags_def)

lemma scan_blockComment_result:
  assumes "r = blockComment_loop (s_tokenStart s) (advance 2 s)"
  shows "fst (scan_blockComment s) = s_skipTrivia (snd (snd r))"
    "s_pos (snd (scan_blockComment s)) = s_pos (snd (snd r))"
proof -
  define a where "a = advance 2 s"
  have "r = blockComment_loop (s_tokenStart a) a" using assms by (simp add: a_def)
  then show "fst (scan_blockComment s) = s_skipTrivia (snd (snd r))"
    "s_pos (snd (scan_blockComment s)) = s_pos (snd (snd r))"
    unfolding scan_blockComment_def Let_def a_def [symmetric] by simp_all
qed

lemma slash_agrees:
  assumes "plain s" "s_char s = 0x2F"
  shows "agrees s (scan_slash s)"
proof -
  note c = char_at_pos [OF assms(1,2)] and d = char_decode [OF assms(1,2)]
  consider "charAt s 1 = 0x2F" | "charAt s 1 = 0x2A" | "charAt s 1 \<noteq> 0x2F" "charAt s 1 \<noteq> 0x2A" by blast
  then show ?thesis
  proof cases
    case 1
    then have n: "s_pos s + 1 < length (s_text s)" "s_text s ! (s_pos s + 1) = CHR ''/''"
      using char_next(1) [OF assms(1)] by simp_all
    have wf: "scan_wf (advance 2 s)" using n(1) assms(1) by (simp add: plain_def scan_wf_def)
    define l where "l = lineComment_loop (advance 2 s)"
    have "s_pos l = line_end (s_text s) (s_pos s + 2)"
      using lineComment_loop_pos [OF wf] by (simp add: l_def)
    moreover have "s_skipTrivia l"
      using lineComment_loop_moves [of "advance 2 s"] assms(1)
      by (simp add: l_def scan_moves_def same_input_def plain_def)
    ultimately show ?thesis
      using 1 skip_line_comment [OF n(1) _ n(2)] c
      by (simp add: agrees_def scan_slash_def scan_lineComment_def Let_def l_def [symmetric]
          del: advance_def One_nat_def)
  next
    case 2
    then have n: "s_pos s + 1 < length (s_text s)" "s_text s ! (s_pos s + 1) = CHR ''*''"
      using char_next(2) [OF assms(1)] by simp_all
    have wf: "scan_wf (advance 2 s)" using n(1) assms(1) by (simp add: plain_def scan_wf_def)
    define r where "r = blockComment_loop (s_tokenStart s) (advance 2 s)"
    have "s_pos (snd (snd r)) = s_pos s + 2 + block_end (drop (s_pos s + 2) (s_text s))"
      using blockComment_loop_pos [OF wf] by (simp add: r_def)
    moreover have "s_skipTrivia (snd (snd r))"
      using blockComment_loop_moves [of "advance 2 s" "s_tokenStart s"] assms(1)
      by (simp add: r_def scan_moves_def same_input_def plain_def)
    ultimately show ?thesis
      using 2 skip_block_comment [OF n(1) _ n(2)] c scan_blockComment_result [OF r_def]
      by (simp add: agrees_def scan_slash_def del: One_nat_def)
  next
    case 3
    have "skip_from (s_text s) (s_pos s) = s_pos s"
      using 3 c char_next [OF assms(1)] by (intro skip_stop [OF d]) simp_all
    then show ?thesis using 3 by (simp add: agrees_def scan_slash_def tok_def del: One_nat_def)
  qed
qed

text \<open>A turn that ends with a token, at a byte that starts no trivia.\<close>

lemma token_agrees:
  assumes "plain s" "0 \<le> s_char s" "s_char s < 0x80" "\<not> fst r"
    "s_char s \<notin> {0x0D, 0x0A, 0x09, 0x0B, 0x0C, 0x20, 0x2F, 0x3C, 0x7C, 0x3D, 0x3E, 0x23}"
  shows "agrees s r"
proof -
  have "skip_from (s_text s) (s_pos s) = s_pos s"
    using assms(5) char_at_pos [OF assms(1) refl assms(2)] assms(3)
    by (intro skip_stop [OF char_decode [OF assms(1) refl assms(2,3)]]) simp_all
  then show ?thesis using assms(4) by (simp add: agrees_def)
qed

lemma marker_stop:
  assumes "plain s" "s_char s = c" "c = 0x3C \<or> c = 0x7C \<or> c = 0x3D \<or> c = 0x3E"
    "\<not> isConflictMarkerTrivia (s_text s) (s_pos s)" "\<not> fst r"
  shows "agrees s r"
proof -
  have c: "0 \<le> s_char s" "s_char s < 0x80" using assms(2,3) by auto
  have "skip_from (s_text s) (s_pos s) = s_pos s"
    using assms(2-4) char_at_pos [OF assms(1) refl c(1)]
    by (intro skip_stop [OF char_decode [OF assms(1) refl c]]) auto
  then show ?thesis using assms(5) by (simp add: agrees_def)
qed

lemma conflict_agrees:
  assumes "plain s" "s_char s = c" "c = 0x3C \<or> c = 0x7C \<or> c = 0x3D \<or> c = 0x3E"
    "isConflictMarkerTrivia (s_text s) (s_pos s)"
  shows "agrees s (scan_conflict s)" "charAt s 1 = c"
proof -
  have c: "0 \<le> s_char s" "s_char s < 0x80" using assms(2,3) by auto
  note at = char_at_pos [OF assms(1) refl c(1)] and d = char_decode [OF assms(1) refl c]
  obtain p where p: "scanConflictMarkerTrivia (s_text s) (s_pos s) = Some p"
    using assms(2,3) unfolding scanConflictMarkerTrivia_def d Let_def by auto
  have "skip_from (s_text s) (s_pos s) = skip_from (s_text s) p"
    using skip_conflict [OF assms(4) p at] assms(2,3) by auto
  then show "agrees s (scan_conflict s)"
    using assms(1) by (simp add: agrees_def scan_conflict_def p Let_def plain_def)
  have "s_pos s + 1 < length (s_text s)" "s_text s ! (s_pos s + 1) = s_text s ! s_pos s"
    using assms(4) by (simp_all add: isConflictMarkerTrivia_def split: if_split_asm)
  then show "charAt s 1 = c"
    using at assms(1,2) by (simp add: charAt_def plain_def scan_wf_def)
qed

lemma marker_agrees:
  assumes "plain s"
  shows "s_char s = 0x3C \<Longrightarrow> agrees s (scan_lessThan s)" "s_char s = 0x3D \<Longrightarrow> agrees s (scan_equals s)"
    "s_char s = 0x3E \<Longrightarrow> agrees s (scan_greaterThan s)" "s_char s = 0x7C \<Longrightarrow> agrees s (scan_bar s)"
proof -
  show "agrees s (scan_lessThan s)" if "s_char s = 0x3C"
  proof (cases "isConflictMarkerTrivia (s_text s) (s_pos s)")
    case True
    then show ?thesis using conflict_agrees [OF assms that] by (simp add: scan_lessThan_def del: One_nat_def)
  qed (rule marker_stop [OF assms that], simp_all add: scan_lessThan_def tok_def)
  show "agrees s (scan_equals s)" if "s_char s = 0x3D"
  proof (cases "isConflictMarkerTrivia (s_text s) (s_pos s)")
    case True
    then show ?thesis using conflict_agrees [OF assms that] by (simp add: scan_equals_def del: One_nat_def)
  qed (rule marker_stop [OF assms that], simp_all add: scan_equals_def tok_def)
  show "agrees s (scan_greaterThan s)" if "s_char s = 0x3E"
  proof (cases "isConflictMarkerTrivia (s_text s) (s_pos s)")
    case True
    then show ?thesis using conflict_agrees [OF assms that] by (simp add: scan_greaterThan_def del: One_nat_def)
  qed (rule marker_stop [OF assms that], simp_all add: scan_greaterThan_def tok_def)
  show "agrees s (scan_bar s)" if "s_char s = 0x7C"
  proof (cases "isConflictMarkerTrivia (s_text s) (s_pos s)")
    case True
    then show ?thesis using conflict_agrees [OF assms that] by (simp add: scan_bar_def del: One_nat_def)
  qed (rule marker_stop [OF assms that], simp_all add: scan_bar_def tok_def)
qed

lemma hash_agrees:
  assumes "plain s" "s_char s = 0x23"
  shows "agrees s (scan_hash s)"
proof -
  note at = char_at_pos [OF assms] and d = char_decode [OF assms]
  have next_is: "charAt s 1 = 0x21 \<longleftrightarrow> s_pos s + 1 < length (s_text s) \<and> s_text s ! (s_pos s + 1) = CHR ''!''"
    by (rule char_next(3) [OF assms(1)])
  have hash: "s_text s ! s_pos s = CHR ''#''"
    using at of_char_eq_const [of "s_text s ! s_pos s" "CHR ''#''"] by simp
  show ?thesis
  proof (cases "s_pos s = 0 \<and> charAt s 1 = 0x21")
    case True
    then have "isShebangTrivia (s_text s)"
      using hash next_is by (auto simp: isShebangTrivia_def)
    from skip_shebang [OF this] True show ?thesis
      by (simp add: agrees_def scan_hash_def scanRunesWhile_def line_end_def numeral_2_eq_2)
  next
    case False
    have "skip_from (s_text s) (s_pos s) = s_pos s"
      using False next_is at by (intro skip_stop [OF d]) (auto simp: isShebangTrivia_def)
    moreover have "\<not> fst (scan_hash s)" using False by (auto simp: scan_hash_def Let_def tok_def)
    ultimately show ?thesis by (simp add: agrees_def)
  qed
qed

section \<open>Characters that are not ASCII\<close>

lemma white_not_identifier_start:
  assumes "0x80 \<le> ch" "IsWhiteSpaceLike ch"
  shows "\<not> IsIdentifierStart ch"
proof -
  have "ch \<in> {0x85, 0xA0, 0x1680, 0x2000, 0x2001, 0x2002, 0x2003, 0x2004, 0x2005, 0x2006, 0x2007, 0x2008,
     0x2009, 0x200A, 0x200B, 0x202F, 0x205F, 0x3000, 0xFEFF, 0x2028, 0x2029}"
    using assms by (auto simp: IsWhiteSpaceLike_def IsWhiteSpaceSingleLine_def IsLineBreak_def)
  then have "\<not> IsUnicodeIdentifierStart ch" by (rule white_not_UnicodeIdentifierStart)
  then show ?thesis using assms(1) by (simp add: IsIdentifierStart_def IsASCIILetter_def)
qed

lemma high_char:
  assumes "plain s" "s_pos s < s_end s" "\<not> s_char s < 0x80"
  shows "0x80 \<le> fst (charAndSize s)" "s_pos s < length (s_text s)"
    "DecodeRune (drop (s_pos s) (s_text s)) = charAndSize s"
proof -
  have wf: "scan_wf s" by (rule plain_wf [OF assms(1)])
  show lt: "s_pos s < length (s_text s)" using assms(2) wf by (simp add: scan_wf_def)
  show d: "DecodeRune (drop (s_pos s) (s_text s)) = charAndSize s"
    by (simp add: charAndSize_decode [OF wf])
  show "0x80 \<le> fst (charAndSize s)"
    using DecodeRune_at_high [OF lt] assms(2,3) d by (simp add: s_char_def)
qed

lemma scanIdentifier_high:
  assumes "0x80 \<le> s_char s" "0x80 \<le> fst (charAndSize s)" "fst (scanIdentifier 0 v s)"
  shows "IsIdentifierStart (fst (charAndSize s))"
  using assms by (auto simp: scanIdentifier_def scanIdentifier_slow_def Let_def IsASCIILetter_def split: if_splits)

lemma other_agrees:
  assumes "plain s" "s_pos s < s_end s" "\<not> s_char s < 0x80"
  shows "agrees s (scan_other s)"
proof -
  note h = high_char [OF assms]
  obtain ch n where d: "charAndSize s = (ch, n)" by fastforce
  have D: "DecodeRune (drop (s_pos s) (s_text s)) = (ch, n)" using h(3) d by simp
  have ch: "0x80 \<le> ch" using h(1) d by simp
  show ?thesis
  proof (cases "IsWhiteSpaceLike ch")
    case True
    have "ch \<noteq> RuneError" using True by (auto simp: IsWhiteSpaceLike_def IsWhiteSpaceSingleLine_def IsLineBreak_def)
    then show ?thesis
      using True skip_high_white [OF D ch True h(2)] assms(1) d
      by (auto simp: agrees_def scan_other_def Let_def plain_def IsWhiteSpaceLike_def)
  next
    case False
    have "skip_from (s_text s) (s_pos s) = s_pos s"
      using False ch h(2) by (intro skip_stop [OF D]) auto
    moreover have "\<not> fst (scan_other s)"
      using False d by (auto simp: scan_other_def Let_def IsWhiteSpaceLike_def)
    ultimately show ?thesis by (simp add: agrees_def)
  qed
qed

lemma default_agrees:
  assumes "plain s" "s_char s \<noteq> 0x5C"
    "s_char s \<notin> {0x0D, 0x0A, 0x09, 0x0B, 0x0C, 0x20, 0x2F, 0x3C, 0x7C, 0x3D, 0x3E, 0x23}"
  shows "agrees s (scan_default (s_char s) s)"
proof (cases "s_pos s < s_end s")
  case False
  then have "skip_from (s_text s) (s_pos s) = s_pos s"
    using assms(1) by (intro skip_from_end) (simp add: plain_def scan_wf_def)
  with False show ?thesis by (simp add: agrees_def scan_default_def s_char_def tok_def)
next
  case True
  then have nonneg: "0 \<le> s_char s" using s_char_nonneg_iff by simp
  show ?thesis
  proof (cases "s_char s < 0x80")
    case ascii: True
    have "fst (charAndSize s) = s_char s"
      using True ascii by (simp add: charAndSize_def s_char_def)
    then have "\<not> fst (scan_other s)"
      using assms(3) ascii
      by (auto simp: scan_other_def Let_def IsLineBreak_def IsWhiteSpaceSingleLine_def)
    then have "\<not> fst (scan_default (s_char s) s)"
      using nonneg scanIdentifier_fails_same [OF True assms(2)] by (auto simp: scan_default_def Let_def)
    then show ?thesis using token_agrees [OF assms(1) nonneg ascii _ assms(3)] by blast
  next
    case False
    then have high: "0x80 \<le> s_char s" by simp
    note h = high_char [OF assms(1) True False]
    show ?thesis
    proof (cases "fst (scanIdentifier 0 identifierVariantStandard s)")
      case ident: True
      from scanIdentifier_high [OF high h(1) ident] have "\<not> IsWhiteSpaceLike (fst (charAndSize s))"
        using white_not_identifier_start [OF h(1)] by blast
      then have "skip_from (s_text s) (s_pos s) = s_pos s"
        using h by (intro skip_stop [of _ _ "fst (charAndSize s)" "snd (charAndSize s)"]) auto
      then show ?thesis using ident nonneg by (simp add: agrees_def scan_default_def Let_def)
    next
      case no: False
      then show ?thesis
        using nonneg scanIdentifier_fails_same [OF True assms(2) no] other_agrees [OF assms(1) True False]
        by (simp add: scan_default_def Let_def)
    qed
  qed
qed

section \<open>Agreement\<close>

lemma agrees_tokenStart:
  "agrees (s\<lparr>s_tokenStart := n\<rparr>) r = agrees s r" "plain (s\<lparr>s_tokenStart := n\<rparr>) = plain s"
  by (simp_all add: agrees_def plain_def)

lemma operator_agrees:
  assumes "plain s" "s_char s = ch" "scan_operator canon ch s = Some r"
  shows "agrees s r"
proof -
  have "\<not> fst (scan_exclamation s)" "\<not> fst (scan_percent s)" "\<not> fst (scan_ampersand s)"
    "\<not> fst (scan_asterisk s)" "\<not> fst (scan_plus s)" "\<not> fst (scan_minus s)" "\<not> fst (scan_question s)"
    "\<not> fst (scan_caret s)" "\<not> fst (scan_dot canon s)"
    using assms(1) by (simp_all add: operator_defs scan_dot_def scan_number_def Let_def plain_def)
  note toks = this [THEN token_agrees [OF assms(1), rotated 2]]
  show ?thesis
    using assms toks slash_agrees [OF assms(1)] marker_agrees [OF assms(1)]
    unfolding scan_operator_def by (auto split: if_split_asm)
qed

lemma single_agrees:
  assumes "plain s" "single_token (s_char s) = Some k"
  shows "agrees s (tok 1 k s)"
  using assms(2) token_agrees [OF assms(1), of "tok 1 k s"]
  by (auto simp: single_token_def split: if_split_asm)

lemma scan_step_agrees:
  assumes "plain s"
  shows "agrees s (scan_step canon s)"
proof -
  define t where "t = s\<lparr>s_tokenStart := s_pos s\<rparr>"
  have t: "s_char t = s_char s" "plain t" using assms by (simp_all add: t_def s_char_def plain_def)
  define ch where "ch = s_char t"
  have toks: "\<not> fst (scan_string t)" "\<not> fst (scan_template t)" "\<not> fst (scan_zero canon t)"
    "\<not> fst (scan_number canon t)" "\<not> fst (scan_backslash t)"
    by (simp_all add: scan_string_def scan_template_def scan_zero_def scan_hex_def scan_binary_def
          scan_octal_def scan_suffix_def scan_number_def scan_backslash_def Let_def)
  note toks = this [THEN token_agrees [OF t(2), rotated 2], folded ch_def]
  note parts = blank_agrees [OF t(2), folded ch_def] newline_agrees [OF t(2), of ch, folded ch_def]
    hash_agrees [OF t(2), folded ch_def] operator_agrees [OF t(2) refl, of canon, folded ch_def]
    single_agrees [OF t(2), folded ch_def] default_agrees [OF t(2), folded ch_def] toks
  have no_operator: "ch \<notin> {0x2F, 0x3C, 0x7C, 0x3D, 0x3E}" if "scan_operator canon ch t = None"
    using that by (auto simp: scan_operator_def)
  have "agrees t (scan_step canon s)"
    unfolding scan_step_def Let_def t_def [symmetric] t(1) [symmetric] ch_def [symmetric]
    using parts no_operator by (simp split: option.split)
  then show ?thesis by (simp add: t_def agrees_tokenStart)
qed

lemma scan_loop_agrees:
  "plain s \<Longrightarrow> \<not> hasFlag s TokenFlagsBinaryOrOctalSpecifier \<Longrightarrow>
     s_tokenStart (scan_loop canon s) = skip_from (s_text s) (s_pos s)"
proof (induction canon s rule: scan_loop.induct)
  case (1 canon s)
  define t where "t = snd (scan_step canon s)"
  have a: "agrees s (scan_step canon s)" by (rule scan_step_agrees [OF 1(2)])
  show ?case
  proof (cases "fst (scan_step canon s)")
    case True
    note f = scan_step_continue_facts [OF True 1(3) plain_wf [OF 1(2)], folded t_def]
    have "plain t" using 1(2) f by (simp add: plain_def same_input_def)
    then have "s_tokenStart (scan_loop canon t) = skip_from (s_text t) (s_pos t)"
      using 1(1) [OF refl True] f unfolding t_def by blast
    moreover have "scan_loop canon s = scan_loop canon t"
      using True by (subst scan_loop.simps) (simp add: t_def)
    ultimately show ?thesis
      using a True f(4) by (simp add: agrees_def t_def [symmetric] same_input_def)
  next
    case False
    then have eq: "scan_loop canon s = t" by (subst scan_loop.simps) (simp add: t_def)
    have "s_tokenStart t = s_pos s"
    proof (cases "s_pos s < s_end s")
      case True
      from scan_step_moves [OF 1(3) plain_wf [OF 1(2)] True, of canon, folded t_def]
      show ?thesis by (simp add: scan_moves_def same_input_def)
    next
      case False
      then show ?thesis by (simp add: t_def scan_step_at_end tok_def)
    qed
    then show ?thesis using a False eq by (simp add: agrees_def)
  qed
qed

section \<open>Properties\<close>

text \<open>C3: \<open>Scan\<close> and \<open>SkipTrivia\<close> agree. A scanner that skips trivia (and is not inside JSDoc) reports a
  token that starts exactly where \<open>SkipTrivia\<close> from the old position ends: the scanner's loop over
  white space, line breaks, comments, conflict markers and the shebang, with its runs of ASCII
  bytes, skips the same bytes as the function that the rest of the compiler uses.\<close>

theorem Scan_starts_where_SkipTrivia_ends:
  assumes "scan_wf s" "s_skipTrivia s" "s_skipJSDocLeadingAsterisks s = 0"
  shows "int (s_tokenStart (snd (Scan canon s))) = SkipTrivia (s_text s) (int (s_pos s))"
proof -
  define t where "t = s\<lparr>s_fullStartPos := s_pos s, s_tokenFlags := TokenFlagsNone\<rparr>"
  have "plain t" "\<not> hasFlag t TokenFlagsBinaryOrOctalSpecifier"
    using assms by (simp_all add: t_def plain_def hasFlag_def)
  from scan_loop_agrees [OF this, of canon] show ?thesis
    by (simp add: Scan_def Let_def t_def SkipTrivia_def SkipTriviaEx_def skip_from_def)
qed

lemma Scan_starts_where_SkipTrivia_ends_witness:
  "int (s_tokenStart (snd (Scan id (SetText '' /**/a'' NewScanner)))) = SkipTrivia '' /**/a'' 0"
  using Scan_starts_where_SkipTrivia_ends [of "SetText '' /**/a'' NewScanner" id]
  by (simp add: SetText_fields NewScanner_def defaultScanner_def zeroScannerState_def ScannerState.defs Scanner.defs)

end
