(* ===== verification/TsPath.thy ===== *)
theory TsPath
  imports StringUtil
begin

text \<open>
  Package \<^verbatim>\<open>tspath\<close> (\<^verbatim>\<open>path.go\<close>): roots of POSIX, UNC, DOS, URL and untitled paths, path
  components, combination, normalization and relative paths. Paths are byte strings. Where
  the code compares without regard to case it uses \<open>strings.EqualFold\<close> and
  \<open>unicode.ToLower\<close>, whose tables are Go's: they appear as the parameters \<open>equalFold\<close> and
  \<open>toLower\<close>. A slice or index expression is written with \<open>take\<close>, \<open>drop\<close> or \<open>!\<close> in the
  places where the code's own tests keep it in range.
\<close>

section \<open>Roots\<close>

abbreviation (input) slash :: char where "slash \<equiv> CHR ''/''"
abbreviation (input) backslash :: char where "backslash \<equiv> CHR 0x5C"
abbreviation (input) dot :: char where "dot \<equiv> CHR ''.''"

definition isAnyDirectorySeparator :: "char \<Rightarrow> bool" where
  "isAnyDirectorySeparator c \<longleftrightarrow> c = slash \<or> c = backslash"

definition IsVolumeCharacter :: "char \<Rightarrow> bool" where
  "IsVolumeCharacter c \<longleftrightarrow> IsASCIILetter (rune_of c)"

definition HasTrailingDirectorySeparator :: "string \<Rightarrow> bool" where
  "HasTrailingDirectorySeparator path \<longleftrightarrow> path \<noteq> [] \<and> isAnyDirectorySeparator (last path)"

definition NormalizeSlashes :: "string \<Rightarrow> string" where
  "NormalizeSlashes path = replaceByte path backslash slash"

text \<open>\<open>-1\<close> is \<open>None\<close>.\<close>

definition getFileUrlVolumeSeparatorEnd :: "string \<Rightarrow> nat \<Rightarrow> nat option" where
  "getFileUrlVolumeSeparatorEnd url start =
     (if length url \<le> start then None
      else if url ! start = CHR '':'' then Some (start + 1)
      else if url ! start = CHR ''%'' \<and> start + 2 < length url \<and> url ! (start + 1) = CHR ''3''
              \<and> (url ! (start + 2) = CHR ''a'' \<or> url ! (start + 2) = CHR ''A'')
      then Some (start + 3)
      else None)"

definition DynamicURIFileNamePrefix :: string where
  "DynamicURIFileNamePrefix = ''^/~ts-uri~/''"

definition IsEncodedDynamicFileName :: "string \<Rightarrow> bool" where
  "IsEncodedDynamicFileName path \<longleftrightarrow> HasPrefix path DynamicURIFileNamePrefix"

text \<open>
  \<open>GetEncodedRootLength\<close> returns the length of the root, or its bitwise complement for a URL
  (and an unterminated dynamic name); here \<open>bnot n\<close> is that complement, \<open>- n - 1\<close>.
\<close>

definition bnot :: "nat \<Rightarrow> int" where
  "bnot n = - int n - 1"

definition uncRootLength :: "string \<Rightarrow> int" where
  "uncRootLength path =
     (if length path = 1 \<or> path ! 1 \<noteq> path ! 0 then 1
      else (case IndexByte (drop 2 path) (path ! 0) of
              None \<Rightarrow> int (length path)
            | Some p1 \<Rightarrow> int (p1 + 2 + 1)))"

definition dynamicRootLength :: "string \<Rightarrow> int" where
  "dynamicRootLength path =
     (if HasPrefix path DynamicURIFileNamePrefix then
        (case IndexByte (drop (length DynamicURIFileNamePrefix) path) slash of
           Some schemeEnd \<Rightarrow>
             (let authorityStart = length DynamicURIFileNamePrefix + schemeEnd + 1 in
              case IndexByte (drop authorityStart path) slash of
                Some authorityEnd \<Rightarrow> int (authorityStart + authorityEnd + 1)
              | None \<Rightarrow> bnot (length path))
         | None \<Rightarrow> 2)
      else 2)"

definition urlRootLength :: "(string \<Rightarrow> string \<Rightarrow> bool) \<Rightarrow> string \<Rightarrow> int" where
  "urlRootLength equalFold path =
     (case strIndex path ''://'' of
        None \<Rightarrow> 0
      | Some schemeEnd \<Rightarrow>
          (let authorityStart = schemeEnd + 3 in
           case IndexByte (drop authorityStart path) slash of
             None \<Rightarrow> bnot (length path)
           | Some authorityLength \<Rightarrow>
               (let authorityEnd = authorityStart + authorityLength;
                    scheme = take schemeEnd path;
                    authority = slc path authorityStart authorityEnd
                in if equalFold scheme ''file''
                      \<and> (authority = [] \<or> equalFold authority ''localhost'')
                      \<and> authorityEnd + 2 < length path
                      \<and> IsVolumeCharacter (path ! (authorityEnd + 1))
                   then (case getFileUrlVolumeSeparatorEnd path (authorityEnd + 2) of
                           None \<Rightarrow> bnot (authorityEnd + 1)
                         | Some volumeSeparatorEnd \<Rightarrow>
                             if volumeSeparatorEnd = length path then bnot volumeSeparatorEnd
                             else if path ! volumeSeparatorEnd = slash
                             then bnot (volumeSeparatorEnd + 1)
                             else bnot (authorityEnd + 1))
                   else bnot (authorityEnd + 1))))"

definition GetEncodedRootLength :: "(string \<Rightarrow> string \<Rightarrow> bool) \<Rightarrow> string \<Rightarrow> int" where
  "GetEncodedRootLength equalFold path =
     (if path = [] then 0
      else
        let ln = length path; ch0 = path ! 0
        in if isAnyDirectorySeparator ch0 then uncRootLength path
           else if IsVolumeCharacter ch0 \<and> 1 < ln \<and> path ! 1 = CHR '':'' \<and> ln = 2 then 2
           else if IsVolumeCharacter ch0 \<and> 2 < ln \<and> path ! 1 = CHR '':''
                   \<and> isAnyDirectorySeparator (path ! 2) then 3
           else if ch0 = CHR ''^'' \<and> 1 < ln \<and> path ! 1 = slash then dynamicRootLength path
           else urlRootLength equalFold path)"

definition GetRootLength :: "(string \<Rightarrow> string \<Rightarrow> bool) \<Rightarrow> string \<Rightarrow> nat" where
  "GetRootLength equalFold path =
     (let rootLength = GetEncodedRootLength equalFold path
      in nat (if rootLength < 0 then - rootLength - 1 else rootLength))"

definition IsUrl :: "(string \<Rightarrow> string \<Rightarrow> bool) \<Rightarrow> string \<Rightarrow> bool" where
  "IsUrl equalFold path \<longleftrightarrow> GetEncodedRootLength equalFold path < 0"

definition IsRootedDiskPath :: "(string \<Rightarrow> string \<Rightarrow> bool) \<Rightarrow> string \<Rightarrow> bool" where
  "IsRootedDiskPath equalFold path \<longleftrightarrow> 0 < GetEncodedRootLength equalFold path"

definition IsDynamicFileName :: "string \<Rightarrow> bool" where
  "IsDynamicFileName fileName \<longleftrightarrow> HasPrefix fileName ''^/''"

definition PathIsAbsolute :: "(string \<Rightarrow> string \<Rightarrow> bool) \<Rightarrow> string \<Rightarrow> bool" where
  "PathIsAbsolute equalFold path \<longleftrightarrow> GetEncodedRootLength equalFold path \<noteq> 0"

definition PathIsRelative :: "string \<Rightarrow> bool" where
  "PathIsRelative path \<longleftrightarrow>
     path = ''.'' \<or> path = ''..''
     \<or> 2 \<le> length path \<and> path ! 0 = dot \<and> (path ! 1 = slash \<or> path ! 1 = backslash)
     \<or> 3 \<le> length path \<and> path ! 0 = dot \<and> path ! 1 = dot
       \<and> (path ! 2 = slash \<or> path ! 2 = backslash)"

definition EnsurePathIsNonModuleName :: "(string \<Rightarrow> string \<Rightarrow> bool) \<Rightarrow> string \<Rightarrow> string" where
  "EnsurePathIsNonModuleName equalFold path =
     (if \<not> PathIsAbsolute equalFold path \<and> \<not> PathIsRelative path then ''./'' @ path else path)"

definition IsExternalModuleNameRelative :: "(string \<Rightarrow> string \<Rightarrow> bool) \<Rightarrow> string \<Rightarrow> bool" where
  "IsExternalModuleNameRelative equalFold moduleName \<longleftrightarrow>
     PathIsRelative moduleName \<or> IsRootedDiskPath equalFold moduleName"

section \<open>Trailing separators, combination, components\<close>

definition RemoveTrailingDirectorySeparator :: "string \<Rightarrow> string" where
  "RemoveTrailingDirectorySeparator path =
     (if HasTrailingDirectorySeparator path then take (length path - 1) path else path)"

function removeTrailingDirectorySeparators :: "string \<Rightarrow> string" where
  "removeTrailingDirectorySeparators path =
     (if HasTrailingDirectorySeparator path
      then removeTrailingDirectorySeparators (RemoveTrailingDirectorySeparator path) else path)"
  by pat_completeness auto
termination
  by (relation "measure length")
     (auto simp: RemoveTrailingDirectorySeparator_def HasTrailingDirectorySeparator_def)

declare removeTrailingDirectorySeparators.simps [simp del]

definition EnsureTrailingDirectorySeparator :: "string \<Rightarrow> string" where
  "EnsureTrailingDirectorySeparator path =
     (if \<not> HasTrailingDirectorySeparator path then path @ ''/'' else path)"

text \<open>\<open>result\<close> is what the string builder holds from \<open>start\<close> on.\<close>

definition combine_one :: "(string \<Rightarrow> string \<Rightarrow> bool) \<Rightarrow> string \<Rightarrow> string \<Rightarrow> string" where
  "combine_one equalFold result trailing =
     (if trailing = [] then result
      else
        let trailingPath = NormalizeSlashes trailing;
            resultIsEmpty = (result = []);
            trailingPathIsRooted = (\<not> resultIsEmpty \<and> GetRootLength equalFold trailingPath \<noteq> 0)
        in if resultIsEmpty \<or> trailingPathIsRooted then trailingPath
           else (if \<not> HasTrailingDirectorySeparator result then result @ ''/'' else result)
                @ trailingPath)"

definition CombinePaths ::
    "(string \<Rightarrow> string \<Rightarrow> bool) \<Rightarrow> string \<Rightarrow> string list \<Rightarrow> string" where
  "CombinePaths equalFold firstPath paths =
     foldl (combine_one equalFold) (NormalizeSlashes firstPath) paths"

definition pathComponents :: "string \<Rightarrow> nat \<Rightarrow> string list" where
  "pathComponents path rootLength =
     (let root = take rootLength path;
          rest = splitByte slash (drop rootLength path);
          rest' = (if rest \<noteq> [] \<and> last rest = [] then butlast rest else rest)
      in root # rest')"

definition GetPathComponents :: "(string \<Rightarrow> string \<Rightarrow> bool) \<Rightarrow> string \<Rightarrow> string list" where
  "GetPathComponents equalFold path =
     (let path' = NormalizeSlashes path in pathComponents path' (GetRootLength equalFold path'))"

definition resolvePathComponents ::
    "(string \<Rightarrow> string \<Rightarrow> bool) \<Rightarrow> string \<Rightarrow> string \<Rightarrow> string list" where
  "resolvePathComponents equalFold path currentDirectory =
     (let path' = CombinePaths equalFold currentDirectory [path]
      in pathComponents path' (GetRootLength equalFold path'))"

definition GetPathFromPathComponents :: "string list \<Rightarrow> string" where
  "GetPathFromPathComponents components =
     (case components of
        [] \<Rightarrow> []
      | root # rest \<Rightarrow>
          (if root \<noteq> [] then EnsureTrailingDirectorySeparator root else root)
          @ strJoin rest ''/'')"

text \<open>
  One component of \<open>reducePathComponents\<close> and of \<open>getNormalizedPathComponentsFromCombined\<close>: the
  components kept so far are never empty.
\<close>

definition reduce_step :: "string list \<Rightarrow> string \<Rightarrow> string list" where
  "reduce_step reduced component =
     (if component = [] then reduced
      else if component = ''.'' then reduced
      else if component = ''..'' \<and> 1 < length reduced \<and> last reduced \<noteq> ''..''
      then butlast reduced
      else if component = ''..'' \<and> \<not> 1 < length reduced \<and> hd reduced \<noteq> []
      then reduced
      else reduced @ [component])"

definition reducePathComponents :: "string list \<Rightarrow> string list" where
  "reducePathComponents components =
     (case components of [] \<Rightarrow> [] | root # rest \<Rightarrow> foldl reduce_step [root] rest)"

lemma next_component_shorter:
  assumes "dropWhile (\<lambda>c. c = a) xs \<noteq> []"
  shows "length (dropWhile (\<lambda>c. c \<noteq> a) (dropWhile (\<lambda>c. c = a) xs)) < length xs"
proof -
  obtain c r where cr: "dropWhile (\<lambda>c. c = a) xs = c # r" using assms by (meson neq_Nil_conv)
  moreover have "c \<noteq> a" using hd_dropWhile [of "\<lambda>c. c = a" xs] assms cr by simp
  moreover have "length (c # r) \<le> length xs" using length_dropWhile_le [of "\<lambda>c. c = a" xs] cr by simp
  moreover have "length (dropWhile (\<lambda>c. c \<noteq> a) r) \<le> length r" by (rule length_dropWhile_le)
  ultimately show ?thesis by simp
qed

text \<open>The loop of \<open>getNormalizedPathComponentsFromCombined\<close>, on the rest \<open>path[i:]\<close>.\<close>

function normalized_components :: "string list \<Rightarrow> string \<Rightarrow> string list" where
  "normalized_components components rest =
     (let rest' = dropWhile (\<lambda>c. c = slash) rest
      in if rest' = [] then components
         else
           let component = takeWhile (\<lambda>c. c \<noteq> slash) rest'
           in normalized_components (reduce_step components component)
                (dropWhile (\<lambda>c. c \<noteq> slash) rest'))"
  by pat_completeness auto
termination
  by (relation "measure (\<lambda>(_, rest). length rest)") (auto intro: next_component_shorter)

declare normalized_components.simps [simp del]

definition getNormalizedPathComponentsFromCombined ::
    "(string \<Rightarrow> string \<Rightarrow> bool) \<Rightarrow> string \<Rightarrow> string list" where
  "getNormalizedPathComponentsFromCombined equalFold path =
     (let rootLength = GetRootLength equalFold path
      in normalized_components [take rootLength path] (drop rootLength path))"

definition GetNormalizedPathComponents ::
    "(string \<Rightarrow> string \<Rightarrow> bool) \<Rightarrow> string \<Rightarrow> string \<Rightarrow> string list" where
  "GetNormalizedPathComponents equalFold path currentDirectory =
     getNormalizedPathComponentsFromCombined equalFold
       (CombinePaths equalFold currentDirectory [path])"

section \<open>Normalization of absolute paths\<close>

text \<open>
  The scan of \<open>hasRelativePathSegment\<close>: \<open>prevSlash\<close>, the length of the current segment and the
  number of dots it consists of so far, \<open>-1\<close> once it is not only dots.
\<close>

definition relative_segment :: "nat \<Rightarrow> int \<Rightarrow> bool" where
  "relative_segment segLen dotCount \<longleftrightarrow>
     segLen = 1 \<and> dotCount = 1 \<or> segLen = 2 \<and> dotCount = 2"

fun relative_scan :: "bool \<Rightarrow> nat \<Rightarrow> int \<Rightarrow> string \<Rightarrow> bool" where
  "relative_scan prevSlash segLen dotCount [] = relative_segment segLen dotCount"
| "relative_scan prevSlash segLen dotCount (c # p) =
     (if c = slash then
        (if prevSlash then True
         else if relative_segment segLen dotCount then True
         else relative_scan True 0 0 p)
      else
        relative_scan False (segLen + 1)
          (if c = dot then (if 0 \<le> dotCount then dotCount + 1 else dotCount) else -1) p)"

definition hasRelativePathSegment :: "string \<Rightarrow> bool" where
  "hasRelativePathSegment p =
     (let n = length p in
      if n = 0 then False
      else if p = ''.'' \<or> p = ''..'' then True
      else if p ! 0 = dot \<and> 2 \<le> n \<and> p ! 1 = slash then True
      else if p ! 0 = dot \<and> 3 \<le> n \<and> p ! 1 = dot \<and> p ! 2 = slash then True
      else if p ! (n - 1) = dot \<and> 2 \<le> n \<and> p ! (n - 2) = slash then True
      else if p ! (n - 1) = dot \<and> 3 \<le> n \<and> p ! (n - 2) = dot \<and> p ! (n - 3) = slash then True
      else relative_scan False 0 0 p)"

definition simpleNormalizePath :: "string \<Rightarrow> string option" where
  "simpleNormalizePath path =
     (if \<not> hasRelativePathSegment path then Some path
      else
        let simplified = strReplaceAll path ''/./'' ''/'';
            trimmed = TrimPrefix simplified ''./''
        in if trimmed \<noteq> path \<and> \<not> hasRelativePathSegment trimmed
              \<and> \<not> (trimmed \<noteq> simplified \<and> HasPrefix trimmed ''/'')
           then Some trimmed else None)"

text \<open>The variables of the loop in \<open>getNormalizedAbsolutePathFromNormalizedSlashes\<close>.\<close>

record NormState =
  ns_index :: nat
  changed :: bool
  normalized :: string
  normalizedUpTo :: nat
  seenNonDotDotSegment :: bool

definition seen_non_dotdot :: "nat \<Rightarrow> string \<Rightarrow> bool" where
  "seen_non_dotdot rootLength norm \<longleftrightarrow>
     (length norm \<noteq> rootLength \<or> rootLength \<noteq> 0) \<and> norm \<noteq> ''..'' \<and> \<not> HasSuffix norm ''/..''"

definition before_last_slash :: "string \<Rightarrow> nat" where
  "before_last_slash s = (case LastIndexByte s slash of None \<Rightarrow> 0 | Some i \<Rightarrow> i)"

text \<open>A \<open>.\<close> segment, a \<open>..\<close> segment at \<open>index\<close>, any other segment.\<close>

definition norm_dot :: "string \<Rightarrow> NormState \<Rightarrow> NormState" where
  "norm_dot fileName st =
     (if \<not> changed st
      then st\<lparr>normalized := take (normalizedUpTo st) fileName, changed := True\<rparr> else st)"

definition norm_dotdot :: "string \<Rightarrow> nat \<Rightarrow> nat \<Rightarrow> NormState \<Rightarrow> NormState" where
  "norm_dotdot fileName rootLength index st =
     (if \<not> seenNonDotDotSegment st then
        (if changed st then
           (if length (normalized st) = rootLength
            then st\<lparr>normalized := normalized st @ ''..''\<rparr>
            else st\<lparr>normalized := normalized st @ ''/..''\<rparr>)
         else st\<lparr>normalizedUpTo := index + 2\<rparr>)
      else if \<not> changed st then
        (let norm =
           (if 1 \<le> normalizedUpTo st
            then take (max rootLength
                   (before_last_slash (take (normalizedUpTo st - 1) fileName))) fileName
            else take (normalizedUpTo st) fileName)
         in st\<lparr>normalized := norm, changed := True,
               seenNonDotDotSegment := seen_non_dotdot rootLength norm\<rparr>)
      else
        (let norm =
           (case LastIndexByte (normalized st) slash of
              Some lastSlash \<Rightarrow> take (max rootLength lastSlash) (normalized st)
            | None \<Rightarrow> take rootLength fileName)
         in st\<lparr>normalized := norm, seenNonDotDotSegment := seen_non_dotdot rootLength norm\<rparr>))"

definition norm_other :: "string \<Rightarrow> nat \<Rightarrow> nat \<Rightarrow> nat \<Rightarrow> NormState \<Rightarrow> NormState" where
  "norm_other fileName rootLength segmentStart segmentEnd st =
     (if changed st then
        st\<lparr>normalized :=
             (if length (normalized st) \<noteq> rootLength then normalized st @ ''/'' else normalized st)
             @ slc fileName segmentStart segmentEnd,
           seenNonDotDotSegment := True\<rparr>
      else st\<lparr>seenNonDotDotSegment := True, normalizedUpTo := segmentEnd\<rparr>)"

definition segment_end :: "string \<Rightarrow> nat \<Rightarrow> nat" where
  "segment_end fileName index =
     (case IndexByte (drop (index + 1) fileName) slash of
        None \<Rightarrow> length fileName | Some i \<Rightarrow> i + index + 1)"

text \<open>
  One iteration: skip superfluous separators, then one segment. The \<open>break\<close> at the end of the
  text leaves \<open>index\<close> at its length, which also ends the loop.
\<close>

definition norm_step :: "string \<Rightarrow> nat \<Rightarrow> NormState \<Rightarrow> NormState" where
  "norm_step fileName rootLength st =
     (let start = ns_index st;
          index = start + run_length (\<lambda>c. c = slash) (drop start fileName);
          st1 = (if start < index \<and> \<not> changed st
                 then st\<lparr>normalized := take (max rootLength (start - 1)) fileName, changed := True\<rparr>
                 else st)
      in if start < index \<and> index = length fileName then st1\<lparr>ns_index := index\<rparr>
         else
           let segmentEnd = segment_end fileName index;
               segmentLength = segmentEnd - index;
               st2 =
                 (if segmentLength = 1 \<and> fileName ! index = dot then norm_dot fileName st1
                  else if segmentLength = 2 \<and> fileName ! index = dot
                          \<and> fileName ! (index + 1) = dot
                  then norm_dotdot fileName rootLength index st1
                  else norm_other fileName rootLength index segmentEnd st1)
           in st2\<lparr>ns_index := segmentEnd + 1\<rparr>)"

lemma norm_step_index: "ns_index st < length fileName \<Longrightarrow> ns_index st < ns_index (norm_step fileName rootLength st)"
  by (simp add: norm_step_def Let_def segment_end_def split: option.split)

function norm_loop :: "string \<Rightarrow> nat \<Rightarrow> NormState \<Rightarrow> NormState" where
  "norm_loop fileName rootLength st =
     (if ns_index st < length fileName
      then norm_loop fileName rootLength (norm_step fileName rootLength st) else st)"
  by pat_completeness auto
termination
  by (relation "measure (\<lambda>(fileName, _, st). length fileName - ns_index st)")
     (auto simp: norm_step_index diff_less_mono2)

declare norm_loop.simps [simp del]

definition getNormalizedAbsolutePathFromNormalizedSlashes ::
    "(string \<Rightarrow> string \<Rightarrow> bool) \<Rightarrow> string \<Rightarrow> string" where
  "getNormalizedAbsolutePathFromNormalizedSlashes equalFold fileName =
     (let rootLength = GetRootLength equalFold fileName in
      case simpleNormalizePath fileName of
        Some simpleNormalized \<Rightarrow>
          (let len = length simpleNormalized in
           if rootLength < len then RemoveTrailingDirectorySeparator simpleNormalized
           else if len = rootLength \<and> rootLength \<noteq> 0
           then EnsureTrailingDirectorySeparator simpleNormalized
           else simpleNormalized)
      | None \<Rightarrow>
          (let st = norm_loop fileName rootLength
                      \<lparr>ns_index = rootLength, changed = False, normalized = [],
                       normalizedUpTo = rootLength, seenNonDotDotSegment = (rootLength \<noteq> 0)\<rparr>
           in if changed st then normalized st
              else if rootLength < length fileName
              then removeTrailingDirectorySeparators fileName
              else if length fileName = rootLength
              then EnsureTrailingDirectorySeparator fileName
              else fileName))"

definition GetNormalizedAbsolutePath ::
    "(string \<Rightarrow> string \<Rightarrow> bool) \<Rightarrow> string \<Rightarrow> string \<Rightarrow> string" where
  "GetNormalizedAbsolutePath equalFold fileName currentDirectory =
     getNormalizedAbsolutePathFromNormalizedSlashes equalFold
       (if GetRootLength equalFold fileName = 0 \<and> currentDirectory \<noteq> []
        then CombinePaths equalFold currentDirectory [fileName]
        else NormalizeSlashes fileName)"

definition NormalizePath :: "(string \<Rightarrow> string \<Rightarrow> bool) \<Rightarrow> string \<Rightarrow> string" where
  "NormalizePath equalFold path =
     (let path' = NormalizeSlashes path;
          norm = getNormalizedAbsolutePathFromNormalizedSlashes equalFold path'
      in if norm \<noteq> [] \<and> HasTrailingDirectorySeparator path'
         then EnsureTrailingDirectorySeparator norm else norm)"

definition ResolvePath :: "(string \<Rightarrow> string \<Rightarrow> bool) \<Rightarrow> string \<Rightarrow> string list \<Rightarrow> string" where
  "ResolvePath equalFold path paths =
     NormalizePath equalFold
       (if paths \<noteq> [] then CombinePaths equalFold path paths else NormalizeSlashes path)"

definition ResolvePathWithoutTrailingDirectorySeparator ::
    "(string \<Rightarrow> string \<Rightarrow> bool) \<Rightarrow> string \<Rightarrow> string list \<Rightarrow> string" where
  "ResolvePathWithoutTrailingDirectorySeparator equalFold path paths =
     (let resolved = ResolvePath equalFold path paths
      in if GetRootLength equalFold resolved < length resolved
         then RemoveTrailingDirectorySeparator resolved else resolved)"

section \<open>Directories, base names, extensions\<close>

definition getDirectoryPathFromNormalized :: "(string \<Rightarrow> string \<Rightarrow> bool) \<Rightarrow> string \<Rightarrow> string" where
  "getDirectoryPathFromNormalized equalFold path =
     (let rootLength = GetRootLength equalFold path in
      if rootLength = length path then path
      else
        let path' = RemoveTrailingDirectorySeparator path
        in take (max rootLength (before_last_slash path')) path')"

definition GetDirectoryPath :: "(string \<Rightarrow> string \<Rightarrow> bool) \<Rightarrow> string \<Rightarrow> string" where
  "GetDirectoryPath equalFold path = getDirectoryPathFromNormalized equalFold (NormalizeSlashes path)"

definition getBaseFileNameFromNormalized :: "(string \<Rightarrow> string \<Rightarrow> bool) \<Rightarrow> string \<Rightarrow> string" where
  "getBaseFileNameFromNormalized equalFold path =
     (if GetRootLength equalFold path = length path then []
      else
        let path' = RemoveTrailingDirectorySeparator path;
            afterSlash = (case LastIndexByte path' slash of None \<Rightarrow> 0 | Some i \<Rightarrow> i + 1)
        in drop (max (GetRootLength equalFold path') afterSlash) path')"

definition GetBaseFileName :: "(string \<Rightarrow> string \<Rightarrow> bool) \<Rightarrow> string \<Rightarrow> string" where
  "GetBaseFileName equalFold path = getBaseFileNameFromNormalized equalFold (NormalizeSlashes path)"

definition getAnyExtensionFromNormalizedPath :: "(string \<Rightarrow> string \<Rightarrow> bool) \<Rightarrow> string \<Rightarrow> string" where
  "getAnyExtensionFromNormalizedPath equalFold path =
     (let baseFileName = getBaseFileNameFromNormalized equalFold path
      in case LastIndexByte baseFileName dot of
           Some extensionIndex \<Rightarrow> drop extensionIndex baseFileName
         | None \<Rightarrow> [])"

definition tryGetExtensionFromPath ::
    "string \<Rightarrow> string \<Rightarrow> (string \<Rightarrow> string \<Rightarrow> bool) \<Rightarrow> string" where
  "tryGetExtensionFromPath path extension stringEqualityComparer =
     (let ext = (if \<not> HasPrefix extension ''.'' then ''.'' @ extension else extension)
      in if length ext \<le> length path \<and> path ! (length path - length ext) = dot
            \<and> stringEqualityComparer (drop (length path - length ext) path) ext
         then drop (length path - length ext) path else [])"

fun getAnyExtensionFromPathWorker ::
    "string \<Rightarrow> string list \<Rightarrow> (string \<Rightarrow> string \<Rightarrow> bool) \<Rightarrow> string" where
  "getAnyExtensionFromPathWorker path [] eq = []"
| "getAnyExtensionFromPathWorker path (extension # extensions) eq =
     (let result = tryGetExtensionFromPath path extension eq
      in if result \<noteq> [] then result else getAnyExtensionFromPathWorker path extensions eq)"

text \<open>\<open>CaseSensitivity\<close> is a boolean, true for \<open>CaseSensitive\<close>.\<close>

definition getEqualityComparer ::
    "(string \<Rightarrow> string \<Rightarrow> bool) \<Rightarrow> bool \<Rightarrow> string \<Rightarrow> string \<Rightarrow> bool" where
  "getEqualityComparer equalFold caseSensitive =
     GetStringEqualityComparer equalFold (\<not> caseSensitive)"

definition GetAnyExtensionFromPath ::
    "(string \<Rightarrow> string \<Rightarrow> bool) \<Rightarrow> string \<Rightarrow> string list \<Rightarrow> bool \<Rightarrow> string" where
  "GetAnyExtensionFromPath equalFold path extensions caseSensitive =
     (if extensions \<noteq> []
      then getAnyExtensionFromPathWorker (RemoveTrailingDirectorySeparator path) extensions
             (getEqualityComparer equalFold caseSensitive)
      else getAnyExtensionFromNormalizedPath equalFold (NormalizeSlashes path))"

definition HasExtension :: "(string \<Rightarrow> string \<Rightarrow> bool) \<Rightarrow> string \<Rightarrow> bool" where
  "HasExtension equalFold fileName \<longleftrightarrow> dot \<in> set (GetBaseFileName equalFold fileName)"

definition FileExtensionIs :: "string \<Rightarrow> string \<Rightarrow> bool" where
  "FileExtensionIs path extension \<longleftrightarrow> length extension < length path \<and> HasSuffix path extension"

section \<open>Relative paths\<close>

text \<open>The number of leading components that agree, the root without regard to case.\<close>

fun common_after_root ::
    "(string \<Rightarrow> string \<Rightarrow> bool) \<Rightarrow> string list \<Rightarrow> string list \<Rightarrow> nat" where
  "common_after_root eq (x # xs) (y # ys) = (if eq x y then Suc (common_after_root eq xs ys) else 0)"
| "common_after_root eq xs ys = 0"

definition common_components ::
    "(string \<Rightarrow> string \<Rightarrow> bool) \<Rightarrow> string list \<Rightarrow> string list \<Rightarrow> bool \<Rightarrow> nat" where
  "common_components equalFold from to caseSensitive =
     (case (from, to) of
        (x # xs, y # ys) \<Rightarrow>
          if equalFold x y
          then Suc (common_after_root (getEqualityComparer equalFold caseSensitive) xs ys) else 0
      | _ \<Rightarrow> 0)"

definition getPathComponentsRelativeTo ::
    "(string \<Rightarrow> string \<Rightarrow> bool) \<Rightarrow> string list \<Rightarrow> string list \<Rightarrow> bool \<Rightarrow> string list" where
  "getPathComponentsRelativeTo equalFold from to caseSensitive =
     (let start = common_components equalFold from to caseSensitive in
      if start = 0 then to
      else [] # replicate (length from - start) ''..'' @ drop start to)"

definition GetPathComponentsRelativeTo ::
    "(string \<Rightarrow> string \<Rightarrow> bool) \<Rightarrow> string \<Rightarrow> string \<Rightarrow> bool \<Rightarrow> string list" where
  "GetPathComponentsRelativeTo equalFold from to caseSensitive =
     getPathComponentsRelativeTo equalFold
       (reducePathComponents (GetPathComponents equalFold from))
       (reducePathComponents (GetPathComponents equalFold to)) caseSensitive"

definition GetRelativePathFromDirectory ::
    "(string \<Rightarrow> string \<Rightarrow> bool) \<Rightarrow> string \<Rightarrow> string \<Rightarrow> bool \<Rightarrow> string option" where
  "GetRelativePathFromDirectory equalFold fromDirectory to caseSensitive =
     (if (0 < GetRootLength equalFold fromDirectory) \<noteq> (0 < GetRootLength equalFold to) then None
      else Some (GetPathFromPathComponents
                  (GetPathComponentsRelativeTo equalFold fromDirectory to caseSensitive)))"

definition relativeFromComponents ::
    "(string \<Rightarrow> string \<Rightarrow> bool) \<Rightarrow> string list \<Rightarrow> bool \<Rightarrow> string" where
  "relativeFromComponents equalFold components isAbsolutePathAnUrl =
     (let firstComponent = components ! 0 in
      if isAbsolutePathAnUrl \<and> IsRootedDiskPath equalFold firstComponent
      then GetPathFromPathComponents
             (((if firstComponent ! 0 = slash then ''file://'' else ''file:///'') @ firstComponent)
              # tl components)
      else GetPathFromPathComponents components)"

definition GetRelativePathToDirectoryOrUrl ::
    "(string \<Rightarrow> string \<Rightarrow> bool) \<Rightarrow> string \<Rightarrow> string \<Rightarrow> bool \<Rightarrow> bool \<Rightarrow> string" where
  "GetRelativePathToDirectoryOrUrl equalFold directoryPathOrUrl relativeOrAbsolutePath
       isAbsolutePathAnUrl caseSensitive =
     relativeFromComponents equalFold
       (GetPathComponentsRelativeTo equalFold directoryPathOrUrl relativeOrAbsolutePath caseSensitive)
       isAbsolutePathAnUrl"

section \<open>Containment and comparison\<close>

definition ContainsPath ::
    "(string \<Rightarrow> string \<Rightarrow> bool) \<Rightarrow> string \<Rightarrow> string \<Rightarrow> bool \<Rightarrow> bool" where
  "ContainsPath equalFold parent child caseSensitive =
     (let parent' = CombinePaths equalFold [] [parent]; child' = CombinePaths equalFold [] [child] in
      if parent' = [] \<or> child' = [] then False
      else if parent' = child' then True
      else
        let parentComponents = reducePathComponents (GetPathComponents equalFold parent');
            childComponents = reducePathComponents (GetPathComponents equalFold child')
        in if length childComponents < length parentComponents then False
           else common_components equalFold parentComponents childComponents caseSensitive
                = length parentComponents)"

fun compare_components ::
    "(string \<Rightarrow> string \<Rightarrow> int) \<Rightarrow> string list \<Rightarrow> string list \<Rightarrow> int" where
  "compare_components comparer (x # xs) (y # ys) =
     (let result = comparer x y in if result \<noteq> 0 then result else compare_components comparer xs ys)"
| "compare_components comparer xs ys = 0"

definition ComparePaths ::
    "(string \<Rightarrow> string \<Rightarrow> bool) \<Rightarrow> (rune \<Rightarrow> rune) \<Rightarrow> string \<Rightarrow> string \<Rightarrow> bool \<Rightarrow> int" where
  "ComparePaths equalFold toLower p q caseSensitive =
     (let a = CombinePaths equalFold [] [p]; b = CombinePaths equalFold [] [q] in
      if a = b then 0
      else if a = [] then -1
      else if b = [] then 1
      else
        let ra = GetRootLength equalFold a; rb = GetRootLength equalFold b;
            result = CompareStringsCaseInsensitive toLower (take ra a) (take rb b);
            comparer = GetStringComparer toLower (\<not> caseSensitive)
        in if result \<noteq> 0 then result
           else if \<not> hasRelativePathSegment (drop ra a) \<and> \<not> hasRelativePathSegment (drop rb b)
           then comparer (drop ra a) (drop rb b)
           else
             let as = reducePathComponents (GetPathComponents equalFold a);
                 bs = reducePathComponents (GetPathComponents equalFold b);
                 c = compare_components comparer (tl as) (tl bs)
             in if c \<noteq> 0 then c else cmpCompare (int (length as)) (int (length bs)))"

section \<open>Ancestors\<close>

text \<open>
  The parent of a directory is shorter than the directory, or the directory is left with its
  backslashes replaced: the loop over the ancestors ends.
\<close>

definition ancestor_measure :: "string \<Rightarrow> nat" where
  "ancestor_measure d = 2 * length d + (if NormalizeSlashes d = d then 0 else 1)"

lemma NormalizeSlashes_length [simp]: "length (NormalizeSlashes p) = length p"
  by (simp add: NormalizeSlashes_def replaceByte_def)

lemma NormalizeSlashes_idem [simp]: "NormalizeSlashes (NormalizeSlashes p) = NormalizeSlashes p"
  by (auto simp: NormalizeSlashes_def replaceByte_def)

lemma NormalizeSlashes_take: "NormalizeSlashes (take n p) = take n (NormalizeSlashes p)"
  by (simp add: NormalizeSlashes_def replaceByte_def take_map)

lemma LastIndexByte_less: "LastIndexByte s c = Some i \<Longrightarrow> i < length s"
  by (induction s c arbitrary: i rule: LastIndexByte.induct) (auto split: option.splits if_splits)

lemma directory_of_normalized:
  "\<exists>n. getDirectoryPathFromNormalized equalFold p = take n p \<and>
       (GetRootLength equalFold p \<noteq> length p \<longrightarrow> n \<le> max (GetRootLength equalFold p) (length p - 1))"
proof (cases "GetRootLength equalFold p = length p")
  case True
  then have "getDirectoryPathFromNormalized equalFold p = take (length p) p"
    by (simp add: getDirectoryPathFromNormalized_def)
  then show ?thesis using True by blast
next
  case False
  have "RemoveTrailingDirectorySeparator p = take (length p) p
    \<or> RemoveTrailingDirectorySeparator p = take (length p - 1) p"
    by (simp add: RemoveTrailingDirectorySeparator_def)
  then obtain m where m: "RemoveTrailingDirectorySeparator p = take m p" "m \<le> length p" by fastforce
  have "before_last_slash (take m p) \<le> length p - 1"
    using LastIndexByte_less [of "take m p" slash]
    by (fastforce simp: before_last_slash_def split: option.split)
  then show ?thesis
    using False m by (auto simp: getDirectoryPathFromNormalized_def Let_def min_def max_def)
qed

lemma parent_smaller:
  assumes "GetDirectoryPath equalFold d \<noteq> d"
  shows "ancestor_measure (GetDirectoryPath equalFold d) < ancestor_measure d"
proof -
  obtain n where n: "GetDirectoryPath equalFold d = take n (NormalizeSlashes d)"
    using directory_of_normalized unfolding GetDirectoryPath_def by blast
  then have norm: "NormalizeSlashes (GetDirectoryPath equalFold d) = GetDirectoryPath equalFold d"
    by (simp add: NormalizeSlashes_take)
  show ?thesis
  proof (cases "n < length d")
    case True
    then show ?thesis using n norm by (simp add: ancestor_measure_def)
  next
    case False
    then show ?thesis using n norm assms by (simp add: ancestor_measure_def)
  qed
qed

function ForEachAncestorDirectory ::
    "(string \<Rightarrow> string \<Rightarrow> bool) \<Rightarrow> string \<Rightarrow> (string \<Rightarrow> 'r \<times> bool) \<Rightarrow> 'r option" where
  "ForEachAncestorDirectory equalFold directory callback =
     (if snd (callback directory) then Some (fst (callback directory))
      else
        let parentPath = GetDirectoryPath equalFold directory
        in if parentPath = directory then None
           else ForEachAncestorDirectory equalFold parentPath callback)"
  by pat_completeness auto
termination
  by (relation "measure (\<lambda>(_, directory, _). ancestor_measure directory)")
     (auto simp: parent_smaller)

declare ForEachAncestorDirectory.simps [simp del]

end
