(* ===== verification/TsPathProps.thy ===== *)
theory TsPathProps
  imports TsPath
begin

text \<open>
  Facts about \<^verbatim>\<open>tspath/path.go\<close>: the root of a path, the segments between its separators, and
  the equivalence of the in-place normalizer of absolute paths with the path that is put
  together from the normalized components.
\<close>

section \<open>Segments\<close>

text \<open>\<open>split_from u s\<close> are the segments of \<open>u @ s\<close>, where \<open>u\<close> has no separator.\<close>

definition split_from :: "string \<Rightarrow> string \<Rightarrow> string list" where
  "split_from u s = (u @ hd (splitByte slash s)) # tl (splitByte slash s)"

lemma splitByte_not_Nil [simp]: "splitByte c s \<noteq> []"
  by (induction s) (auto split: list.split)

lemma split_from_Nil [simp]: "split_from u [] = [u]"
  by (simp add: split_from_def)

lemma split_from_slash [simp]: "split_from u (slash # s) = u # split_from [] s"
  by (simp add: split_from_def)

lemma split_from_other [simp]: "c \<noteq> slash \<Longrightarrow> split_from u (c # s) = split_from (u @ [c]) s"
  by (auto simp: split_from_def split: list.split)

lemma split_split_from: "splitByte slash s = split_from [] s"
  by (simp add: split_from_def)

lemma split_from_append: "slash \<notin> set v \<Longrightarrow> split_from u (v @ s) = split_from (u @ v) s"
  by (induction v arbitrary: u) auto

lemma split_segment: "slash \<notin> set v \<Longrightarrow> split_from [] (v @ slash # s) = v # split_from [] s"
  by (simp add: split_from_append)

lemma split_last_segment: "slash \<notin> set v \<Longrightarrow> split_from [] v = [v]"
  using split_from_append [of v "[]" "[]"] by simp

lemma segments_no_slash: "slash \<notin> set u \<Longrightarrow> v \<in> set (split_from u s) \<Longrightarrow> slash \<notin> set v"
proof (induction s arbitrary: u)
  case (Cons c s)
  then show ?case using Cons.IH [of "[]"] Cons.IH [of "u @ [c]"] by (cases "c = slash") auto
qed simp

lemma join_split: "strJoin (split_from u s) ''/'' = u @ s"
proof (induction s arbitrary: u)
  case (Cons c s)
  show ?case
  proof (cases "c = slash")
    case True
    obtain x xs where "split_from [] s = x # xs"
      by (metis list.exhaust split_split_from splitByte_not_Nil)
    then show ?thesis using True Cons [of "[]"] by simp
  qed (simp add: Cons)
qed simp

lemma strJoin_snoc: "xs \<noteq> [] \<Longrightarrow> strJoin (xs @ [x]) sep = strJoin xs sep @ sep @ x"
proof (induction xs)
  case (Cons a xs)
  then show ?case by (cases xs) auto
qed simp

lemma strJoin_Cons: "xs \<noteq> [] \<Longrightarrow> strJoin (x # xs) sep = x @ sep @ strJoin xs sep"
  by (cases xs) auto

lemma reduce_step_skip [simp]: "reduce_step cs [] = cs" "reduce_step cs ''.'' = cs"
  by (simp_all add: reduce_step_def)

lemma foldl_reduce_filter:
  "foldl reduce_step cs (filter (\<lambda>v. v \<noteq> [] \<and> v \<noteq> ''.'') ss) = foldl reduce_step cs ss"
  by (induction ss arbitrary: cs) auto

text \<open>The loop over the text visits the segments of the text.\<close>

lemma split_leading_slashes:
  "foldl reduce_step cs (split_from [] (dropWhile (\<lambda>c. c = slash) s)) = foldl reduce_step cs (split_from [] s)"
  by (induction s) auto

lemma normalized_components_eq:
  "normalized_components cs s = foldl reduce_step cs (split_from [] s)"
proof (induction cs s rule: normalized_components.induct)
  case (1 cs s)
  define s' where "s' = dropWhile (\<lambda>c. c = slash) s"
  define v where "v = takeWhile (\<lambda>c. c \<noteq> slash) s'"
  define t where "t = dropWhile (\<lambda>c. c \<noteq> slash) s'"
  have unf: "normalized_components cs s =
      (if s' = [] then cs else normalized_components (reduce_step cs v) t)"
    by (subst normalized_components.simps) (simp add: s'_def v_def t_def Let_def)
  show ?case
  proof (cases "s' = []")
    case True
    then show ?thesis
      using split_leading_slashes [of cs s] unf by (simp only: s'_def split_from_Nil) simp
  next
    case False
    have "slash \<notin> set v" unfolding v_def by (auto dest: set_takeWhileD)
    moreover have "s' = v @ t" by (simp add: v_def t_def)
    ultimately have st: "split_from [] s' = split_from v t" using split_from_append [of v "[]" t] by simp
    have "foldl reduce_step cs (split_from v t) = foldl reduce_step (reduce_step cs v) (split_from [] t)"
    proof (cases t)
      case (Cons c r)
      then have "c = slash" using hd_dropWhile [of "\<lambda>c. c \<noteq> slash" s'] t_def by simp
      then show ?thesis using Cons by simp
    qed simp
    moreover have "normalized_components (reduce_step cs v) t
        = foldl reduce_step (reduce_step cs v) (split_from [] t)"
      unfolding t_def by (rule 1 [OF s'_def False v_def])
    moreover have "foldl reduce_step cs (split_from [] s') = foldl reduce_step cs (split_from [] s)"
      unfolding s'_def by (rule split_leading_slashes)
    ultimately show ?thesis using unf False st by metis
  qed
qed

section \<open>Roots\<close>

lemma IndexByte_Some: "IndexByte s c = Some i \<Longrightarrow> i < length s \<and> s ! i = c \<and> c \<notin> set (take i s)"
  by (induction s c arbitrary: i rule: IndexByte.induct) (auto split: if_splits)

lemma IndexByte_None: "IndexByte s c = None \<longleftrightarrow> c \<notin> set s"
  by (induction s) auto

lemma strIndex_Some: "strIndex s p = Some i \<Longrightarrow> i + length p \<le> length s \<and> take (length p) (drop i s) = p"
proof (induction s p arbitrary: i rule: strIndex.induct)
  case (2 x xs p)
  then show ?case
    by (auto simp: HasPrefix_def split: if_splits)
      (metis length_Cons length_take min.absorb_iff2 min.commute)
qed (auto split: if_splits)

text \<open>A root that is followed by more of the path ends with a separator.\<close>

definition root_ok :: "string \<Rightarrow> nat \<Rightarrow> bool" where
  "root_ok p k \<longleftrightarrow> k \<le> length p \<and> (k = 0 \<or> k = length p \<or> p ! (k - 1) = slash)"

lemma root_ok_unc:
  assumes "p \<noteq> []" "p ! 0 = slash"
  shows "root_ok p (nat (uncRootLength p))" "0 < uncRootLength p"
proof -
  show "root_ok p (nat (uncRootLength p))"
  proof (cases "length p = 1 \<or> p ! 1 \<noteq> p ! 0")
    case True
    then have "uncRootLength p = 1" unfolding uncRootLength_def by auto
    then show ?thesis using assms by (cases p) (simp_all add: root_ok_def)
  next
    case False
    then show ?thesis
      using assms IndexByte_Some [of "drop 2 p" slash]
      by (auto simp: uncRootLength_def root_ok_def nat_add_distrib split: option.split)
  qed
  show "0 < uncRootLength p" using assms by (auto simp: uncRootLength_def split: option.split)
qed

lemma nat_bnot [simp]: "(if bnot n < 0 then - bnot n - 1 else bnot n) = int n" "bnot n < 0"
  by (simp_all add: bnot_def)

lemma GetRootLength_bnot:
  "GetEncodedRootLength equalFold p = bnot n \<Longrightarrow> GetRootLength equalFold p = n"
  by (simp add: GetRootLength_def bnot_def)

lemma GetRootLength_nat:
  "GetEncodedRootLength equalFold p = int n \<Longrightarrow> GetRootLength equalFold p = n"
  by (simp add: GetRootLength_def)

definition encoded_ok :: "string \<Rightarrow> int \<Rightarrow> bool" where
  "encoded_ok p r \<longleftrightarrow> root_ok p (nat (if r < 0 then - r - 1 else r))"

lemma encoded_ok_bnot [simp]: "encoded_ok p (bnot n) = root_ok p n"
  by (simp add: encoded_ok_def bnot_def)

lemma encoded_ok_int [simp]: "encoded_ok p (int n) = root_ok p n"
  by (simp add: encoded_ok_def)

lemma encoded_ok_small: "encoded_ok p 0" "encoded_ok p 2 = root_ok p 2" "encoded_ok p 3 = root_ok p 3"
  by (simp_all add: encoded_ok_def root_ok_def)

lemma root_ok_after_slash:
  "IndexByte (drop n p) slash = Some i \<Longrightarrow> root_ok p (n + i + 1)"
  using IndexByte_Some [of "drop n p" slash i] by (auto simp: root_ok_def)

lemma root_ok_dynamic:
  assumes "1 < length p" "p ! 1 = slash"
  shows "encoded_ok p (dynamicRootLength p)"
proof -
  have two: "root_ok p 2" using assms by (simp add: root_ok_def)
  have all: "root_ok p (length p)" by (simp add: root_ok_def)
  have rest: "encoded_ok p (int (n + i + 1))" if "IndexByte (drop n p) slash = Some i" for n i
    using root_ok_after_slash [OF that] by (simp only: encoded_ok_int)
  show ?thesis
    unfolding dynamicRootLength_def Let_def
    by (auto simp only: two all encoded_ok_small encoded_ok_bnot rest if_split_asm option.case
        split: option.split if_split)
qed

lemma volume_end_bound:
  "getFileUrlVolumeSeparatorEnd p i = Some e \<Longrightarrow> e \<le> length p"
  by (auto simp: getFileUrlVolumeSeparatorEnd_def split: if_splits)

lemma root_ok_url: "encoded_ok p (urlRootLength equalFold p)"
proof -
  have all: "root_ok p (length p)" by (simp add: root_ok_def)
  have "root_ok p (e + 1)" if "getFileUrlVolumeSeparatorEnd p i = Some e" "e \<noteq> length p" "p ! e = slash"
    for i e using that volume_end_bound [of p i e] by (simp add: root_ok_def)
  moreover have "root_ok p (i + 3 + j + 1)" if "IndexByte (drop (i + 3) p) slash = Some j" for i j
    using root_ok_after_slash [OF that] by simp
  ultimately show ?thesis
    unfolding urlRootLength_def Let_def
    by (auto simp: all encoded_ok_small volume_end_bound simp del: of_nat_add split: option.split)
qed

lemma GetEncodedRootLength_ok:
  assumes "backslash \<notin> set p"
  shows "encoded_ok p (GetEncodedRootLength equalFold p)"
proof (cases "p = []")
  case False
  have sep: "isAnyDirectorySeparator (p ! n) \<longleftrightarrow> p ! n = slash" if "n < length p" for n
    using assms that by (auto simp: isAnyDirectorySeparator_def dest: nth_mem)
  have unc: "encoded_ok p (uncRootLength p)" if "p ! 0 = slash"
    using root_ok_unc [OF False that] by (simp add: encoded_ok_def)
  show ?thesis
    unfolding GetEncodedRootLength_def Let_def
    using False
    by (auto simp: sep unc encoded_ok_small root_ok_dynamic root_ok_url root_ok_def [of p 2] root_ok_def [of p 3])
qed (simp add: GetEncodedRootLength_def encoded_ok_small)

lemma GetRootLength_ok: "backslash \<notin> set p \<Longrightarrow> root_ok p (GetRootLength equalFold p)"
  using GetEncodedRootLength_ok [of p equalFold] by (simp add: encoded_ok_def GetRootLength_def Let_def)

section \<open>Relative segments\<close>

text \<open>\<open>hasRelativePathSegment\<close> finds an empty segment between two separators, a \<open>.\<close> or a \<open>..\<close>.\<close>

fun bad_segments :: "bool \<Rightarrow> string list \<Rightarrow> bool" where
  "bad_segments prev [] = False"
| "bad_segments prev [v] = (v = ''.'' \<or> v = ''..'')"
| "bad_segments prev (v # w # ss) =
     (prev \<and> v = [] \<or> v = ''.'' \<or> v = ''..'' \<or> bad_segments True (w # ss))"

definition dots :: "string \<Rightarrow> int" where
  "dots u = (if \<forall>c \<in> set u. c = dot then int (length u) else -1)"

lemma relative_segment_dots: "relative_segment (length u) (dots u) \<longleftrightarrow> u = ''.'' \<or> u = ''..''"
proof -
  consider "u = []" | a where "u = [a]" | a b where "u = [a, b]" | a b c r where "u = a # b # c # r"
    by (metis list.exhaust)
  then show ?thesis by cases (auto simp: relative_segment_def dots_def)
qed

lemma relative_scan_bad:
  "relative_scan (prev \<and> u = []) (length u) (dots u) s = bad_segments prev (split_from u s)"
proof (induction s arbitrary: u prev)
  case Nil
  show ?case by (simp add: relative_segment_dots)
next
  case (Cons c s)
  show ?case
  proof (cases "c = slash")
    case True
    obtain w ss where w: "split_from [] s = w # ss" by (metis list.exhaust split_split_from splitByte_not_Nil)
    have "relative_scan True 0 0 s = bad_segments True (w # ss)"
      using Cons [of True "[]"] w by (simp add: dots_def)
    then show ?thesis using True w by (auto simp: relative_segment_dots)
  next
    case False
    have "(if c = dot then if 0 \<le> dots u then dots u + 1 else dots u else - 1) = dots (u @ [c])"
      by (auto simp: dots_def)
    then show ?thesis using False Cons [of prev "u @ [c]"] by simp
  qed
qed

lemma split_from_Cons_ex: "\<exists>w ss. split_from u s = w # ss"
  by (simp add: split_from_def)

lemma bad_segments_last: "v \<in> {''.'', ''..''} \<Longrightarrow> bad_segments prev (ss @ [v])"
proof (induction ss arbitrary: prev)
  case (Cons a ss)
  then show ?case by (cases ss) auto
qed auto

lemma split_from_append_slash: "split_from u (s @ slash # t) = split_from u s @ split_from [] t"
proof (induction s arbitrary: u)
  case (Cons c s)
  then show ?case by (cases "c = slash") auto
qed simp

lemma first_two: "2 \<le> length p \<Longrightarrow> \<exists>t. p = p ! 0 # p ! 1 # t"
  by (cases p; cases "tl p") auto

lemma first_three: "3 \<le> length p \<Longrightarrow> \<exists>t. p = p ! 0 # p ! 1 # p ! 2 # t"
  by (cases p; cases "tl p"; cases "tl (tl p)") auto

lemma last_two:
  assumes "2 \<le> length p"
  shows "\<exists>t. p = t @ [p ! (length p - 2), p ! (length p - 1)]"
proof -
  obtain q y where q: "p = q @ [y]" using assms by (cases p rule: rev_cases) auto
  obtain t x where "q = t @ [x]" using assms q by (cases q rule: rev_cases) auto
  then show ?thesis using q by (auto simp: nth_append)
qed

lemma last_three:
  assumes "3 \<le> length p"
  shows "\<exists>t. p = t @ [p ! (length p - 3), p ! (length p - 2), p ! (length p - 1)]"
proof -
  obtain q z where q: "p = q @ [z]" using assms by (cases p rule: rev_cases) auto
  obtain r y where r: "q = r @ [y]" using assms q by (cases q rule: rev_cases) auto
  obtain t x where "r = t @ [x]" using assms q r by (cases r rule: rev_cases) auto
  then show ?thesis using q r by (auto simp: nth_append)
qed

text \<open>The tests before the scan are shortcuts: each of them implies that the scan succeeds.\<close>

lemma bad_head: "v \<in> {''.'', ''..''} \<Longrightarrow> bad_segments False (split_from [] (v @ slash # t))"
  using split_from_Cons_ex [of "[]" t] by auto

lemma bad_tail: "v \<in> {''.'', ''..''} \<Longrightarrow> bad_segments False (split_from [] (t @ slash # v))"
  unfolding split_from_append_slash by (rule ssubst [OF split_last_segment]) (auto intro: bad_segments_last)

lemma hasRelativePathSegment_bad:
  "hasRelativePathSegment p = bad_segments False (split_from [] p)"
proof -
  let ?B = "bad_segments False (split_from [] p)"
  have scan: "relative_scan False 0 0 p = ?B"
    using relative_scan_bad [of False "[]" p] by (simp add: dots_def)
  have head1: ?B if "2 \<le> length p" "p ! 0 = dot" "p ! 1 = slash"
    using first_two [OF that(1)] bad_head [of "''.''"] that by auto
  have head2: ?B if "3 \<le> length p" "p ! 0 = dot" "p ! 1 = dot" "p ! 2 = slash"
    using first_three [OF that(1)] bad_head [of "''..''"] that by auto
  have last1: ?B if "2 \<le> length p" "p ! (length p - 1) = dot" "p ! (length p - 2) = slash"
    using last_two [OF that(1)] bad_tail [of "''.''"] that by auto
  have last2: ?B if "3 \<le> length p" "p ! (length p - 1) = dot" "p ! (length p - 2) = dot"
      "p ! (length p - 3) = slash"
    using last_three [OF that(1)] bad_tail [of "''..''"] that by auto
  show ?thesis
    unfolding hasRelativePathSegment_def Let_def
    using head1 head2 last1 last2 scan by (auto simp del: One_nat_def)
qed
section \<open>The in-place normalizer\<close>

text \<open>
  \<open>S\<close> are the components after the root \<open>take k p\<close> that are kept so far; \<open>represents p k S i st\<close>
  says what the loop's variables hold at the beginning of the segment at \<open>i\<close>.
\<close>

definition kept_ok :: "nat \<Rightarrow> string list \<Rightarrow> bool" where
  "kept_ok k S \<longleftrightarrow>
     (\<forall>v \<in> set S. v \<noteq> [] \<and> v \<noteq> ''.'' \<and> slash \<notin> set v) \<and> (k \<noteq> 0 \<longrightarrow> ''..'' \<notin> set S)"

definition can_pop :: "nat \<Rightarrow> string list \<Rightarrow> bool" where
  "can_pop k S \<longleftrightarrow> k \<noteq> 0 \<or> S \<noteq> [] \<and> last S \<noteq> ''..''"

definition kept_path :: "string \<Rightarrow> nat \<Rightarrow> string list \<Rightarrow> string" where
  "kept_path p k S = take k p @ strJoin S ''/''"

definition represents :: "string \<Rightarrow> nat \<Rightarrow> string list \<Rightarrow> nat \<Rightarrow> NormState \<Rightarrow> bool" where
  "represents p k S i st \<longleftrightarrow>
     kept_ok k S \<and> seenNonDotDotSegment st = can_pop k S \<and>
     (if changed st then normalized st = kept_path p k S
      else normalizedUpTo st = length (kept_path p k S) \<and> normalizedUpTo st \<le> length p
        \<and> take (normalizedUpTo st) p = kept_path p k S
        \<and> i = (if S = [] then k else normalizedUpTo st + 1)
        \<and> (S \<noteq> [] \<and> normalizedUpTo st < length p \<longrightarrow> p ! normalizedUpTo st = slash))"

definition after_step :: "nat \<Rightarrow> string list \<Rightarrow> string \<Rightarrow> string list" where
  "after_step k S v =
     (if v = [] \<or> v = ''.'' then S
      else if v = ''..'' \<and> can_pop k S then butlast S else S @ [v])"

lemma reduce_step_after:
  assumes "kept_ok k S" "r = [] \<longleftrightarrow> k = 0"
  shows "reduce_step (r # S) v = r # after_step k S v"
proof -
  have "S \<noteq> [] \<Longrightarrow> k \<noteq> 0 \<Longrightarrow> last S \<noteq> ''..''"
    using assms last_in_set [of S] by (metis kept_ok_def)
  then show ?thesis using assms by (auto simp: reduce_step_def after_step_def can_pop_def)
qed

lemma kept_ok_butlast: "kept_ok k S \<Longrightarrow> kept_ok k (butlast S)"
  by (auto simp: kept_ok_def dest: in_set_butlastD)

lemma strJoin_eq_Nil: "kept_ok k S \<Longrightarrow> strJoin S ''/'' = [] \<longleftrightarrow> S = []"
  by (cases S; cases "tl S") (auto simp: kept_ok_def)

lemma length_kept_path:
  "kept_ok k S \<Longrightarrow> k \<le> length p \<Longrightarrow> length (kept_path p k S) = k \<longleftrightarrow> S = []"
  by (simp add: kept_path_def strJoin_eq_Nil)

lemma kept_path_snoc:
  "kept_path p k (S @ [v]) = kept_path p k S @ (if S = [] then v else slash # v)"
  by (simp add: kept_path_def strJoin_snoc)

lemma LastIndexByte_None: "LastIndexByte s c = None \<longleftrightarrow> c \<notin> set s"
  by (induction s) (auto split: option.split)

lemma LastIndexByte_append: "c \<notin> set y \<Longrightarrow> LastIndexByte (w @ y) c = LastIndexByte w c"
  by (induction w) (auto simp: LastIndexByte_None split: option.split)

lemma LastIndexByte_snoc: "c \<notin> set y \<Longrightarrow> LastIndexByte (w @ c # y) c = Some (length w)"
  by (induction w) (auto simp: LastIndexByte_None split: option.split)

lemma HasSuffix_iff: "HasSuffix s t \<longleftrightarrow> (\<exists>u. s = u @ t)"
  unfolding HasSuffix_def
  by (metis append_eq_conv_conj append_take_drop_id diff_add_inverse2 length_append length_drop
      length_take le_add2)

lemma HasSuffix_dotdot: "slash \<notin> set x \<Longrightarrow> HasSuffix (w @ slash # x) ''/..'' \<longleftrightarrow> x = ''..''"
proof
  assume x: "slash \<notin> set x" and "HasSuffix (w @ slash # x) ''/..''"
  then obtain u where "w @ slash # x = u @ slash # ''..''" unfolding HasSuffix_iff by auto
  moreover have "LastIndexByte (w @ slash # x) slash = Some (length w)"
    using x by (rule LastIndexByte_snoc)
  moreover have "LastIndexByte (u @ slash # ''..'') slash = Some (length u)"
    by (rule LastIndexByte_snoc) simp
  ultimately show "x = ''..''" by simp
qed (auto simp: HasSuffix_iff)

text \<open>The kept path up to its last separator.\<close>

lemma root_ends_slash:
  "k \<noteq> 0 \<Longrightarrow> k = 0 \<or> k \<le> length p \<and> p ! (k - 1) = slash \<Longrightarrow> take k p = take (k - 1) p @ [slash]"
  by (cases k) (auto simp: take_Suc_conv_app_nth)

lemma kept_path_split:
  assumes "k = 0 \<or> k \<le> length p \<and> p ! (k - 1) = slash" "k \<noteq> 0 \<or> S \<noteq> []"
  obtains w where "kept_path p k (S @ [x]) = w @ slash # x" "S \<noteq> [] \<Longrightarrow> w = kept_path p k S"
proof (cases "S = []")
  case True
  then have "take k p = take (k - 1) p @ [slash]" using assms root_ends_slash [of k p] by simp
  then show ?thesis using that [of "take (k - 1) p"] True by (simp add: kept_path_def)
next
  case False
  then show ?thesis using that [of "kept_path p k S"] by (simp add: kept_path_snoc)
qed

lemma seen_non_dotdot_kept:
  assumes "kept_ok k S" "k = 0 \<or> k \<le> length p \<and> p ! (k - 1) = slash" "k \<le> length p"
  shows "seen_non_dotdot k (kept_path p k S) = can_pop k S"
proof (cases S rule: rev_cases)
  case Nil
  have "last (take k p) = slash" if "k \<noteq> 0"
    using root_ends_slash [OF that assms(2)] by simp
  moreover have "take k p \<noteq> ''..'' \<and> \<not> HasSuffix (take k p) ''/..''" if "last (take k p) = slash"
    using that by (auto simp: HasSuffix_iff)
  ultimately show ?thesis using Nil assms by (auto simp: seen_non_dotdot_def kept_path_def can_pop_def)
next
  case (snoc S0 x)
  then have x: "x \<noteq> []" "slash \<notin> set x" "k \<noteq> 0 \<Longrightarrow> x \<noteq> ''..''" using assms by (auto simp: kept_ok_def)
  show ?thesis
  proof (cases "k \<noteq> 0 \<or> S0 \<noteq> []")
    case True
    obtain w where w: "kept_path p k S = w @ slash # x"
      using kept_path_split [OF assms(2) True] snoc by metis
    have "length (kept_path p k S) \<noteq> k" using snoc assms by (simp add: length_kept_path)
    moreover have "w @ slash # x \<noteq> ''..''" by (cases w; cases "tl w") auto
    ultimately show ?thesis
      using w x HasSuffix_dotdot [of x w] snoc by (auto simp: seen_non_dotdot_def can_pop_def)
  next
    case False
    then show ?thesis
      using x snoc by (auto simp: seen_non_dotdot_def can_pop_def kept_path_def HasSuffix_iff)
  qed
qed
text \<open>One lemma per kind of segment.\<close>

lemma represents_dot:
  "represents p k S i st \<Longrightarrow> represents p k S j (norm_dot p st)"
  by (cases "changed st") (auto simp: represents_def norm_dot_def)

text \<open>The text up to the end of a segment that is kept in place.\<close>

lemma represents_extend:
  assumes rep: "represents p k S i st" and "\<not> changed st"
    and v: "i \<le> e" "e \<le> length p" "slc p i e = v" "i < length p" "k \<le> length p"
  shows "take e p = kept_path p k (S @ [v])" "e = length (kept_path p k (S @ [v]))"
proof -
  have cut: "take e p = take i p @ v"
    using v(1,3) by (metis le_add_diff_inverse slc_def take_add)
  have "take i p = kept_path p k S @ (if S = [] then [] else [slash])"
    using rep \<open>\<not> changed st\<close> v by (auto simp: represents_def kept_path_def take_Suc_conv_app_nth)
  then show "take e p = kept_path p k (S @ [v])" using cut by (simp add: kept_path_snoc)
  then show "e = length (kept_path p k (S @ [v]))" using v(2) by (metis length_take min.absorb2)
qed

lemma represents_other:
  assumes rep: "represents p k S i st"
    and v: "i \<le> e" "e \<le> length p" "slc p i e = v" "i < length p" "k \<le> length p"
    and sep: "e < length p \<longrightarrow> p ! e = slash"
    and ok: "v \<noteq> []" "v \<noteq> ''.''" "v \<noteq> ''..''" "slash \<notin> set v"
  shows "represents p k (S @ [v]) (e + 1) (norm_other p k i e st)"
proof -
  have kept: "kept_ok k S" "kept_ok k (S @ [v])" using rep ok by (auto simp: represents_def kept_ok_def)
  have pop: "can_pop k (S @ [v])" using ok by (simp add: can_pop_def)
  show ?thesis
  proof (cases "changed st")
    case True
    then show ?thesis
      using rep kept pop length_kept_path [OF kept(1) v(5)] v(3)
      by (simp add: represents_def norm_other_def kept_path_snoc)
  next
    case False
    then show ?thesis
      using represents_extend [OF rep False v] kept pop sep v(2)
      by (simp add: represents_def norm_other_def)
  qed
qed

lemma pop_unchanged:
  assumes rep: "represents p k S i st" and "\<not> changed st" "can_pop k S"
    and root: "k = 0 \<or> k \<le> length p \<and> p ! (k - 1) = slash"
  shows "1 \<le> normalizedUpTo st \<and>
    take (max k (before_last_slash (take (normalizedUpTo st - 1) p))) p = kept_path p k (butlast S)"
proof -
  let ?u = "normalizedUpTo st"
  have u: "?u = length (kept_path p k S)" "?u \<le> length p" "take ?u p = kept_path p k S" and kept: "kept_ok k S"
    using rep \<open>\<not> changed st\<close> by (auto simp: represents_def)
  have kl: "k \<le> length p" using root by auto
  show ?thesis
  proof (cases S rule: rev_cases)
    case Nil
    then have "k \<noteq> 0" using assms(3) by (simp add: can_pop_def)
    moreover have "before_last_slash (take (k - 1) p) \<le> k"
      using LastIndexByte_less [of "take (k - 1) p" slash]
      by (fastforce simp: before_last_slash_def split: option.split)
    ultimately show ?thesis using Nil u kl by (simp add: kept_path_def max_def)
  next
    case (snoc S0 x)
    then have x: "x \<noteq> []" "slash \<notin> set (butlast x)"
      using kept by (auto simp: kept_ok_def dest: in_set_butlastD)
    have sub: "take (?u - 1) p = kept_path p k S0 @ (if S0 = [] then butlast x else slash # butlast x)"
    proof -
      have "take (?u - 1) p = butlast (take ?u p)" using u(2) by (simp add: butlast_take)
      also have "\<dots> = butlast (kept_path p k S)" using u(3) by simp
      finally show ?thesis using snoc x(1) by (simp add: kept_path_snoc butlast_append)
    qed
    have pos: "1 \<le> ?u" using u(1) snoc x(1) by (simp add: kept_path_snoc Suc_le_eq split: if_splits)
    show ?thesis
    proof (cases "S0 = []")
      case True
      then have "before_last_slash (take (?u - 1) p) \<le> k"
        using sub LastIndexByte_append [OF x(2)] LastIndexByte_less [of "take k p" slash]
        by (fastforce simp: before_last_slash_def kept_path_def split: option.split)
      then show ?thesis using pos True snoc by (simp add: max_def kept_path_def)
    next
      case False
      then have "before_last_slash (take (?u - 1) p) = length (kept_path p k S0)"
        using sub LastIndexByte_snoc [OF x(2)] by (simp add: before_last_slash_def)
      moreover have "take (length (kept_path p k S0)) p = kept_path p k S0"
      proof -
        have "kept_path p k S = kept_path p k S0 @ (slash # x)" using snoc False by (simp add: kept_path_snoc)
        then have "take ?u p = kept_path p k S0 @ (slash # x)" using u(3) by simp
        then have "take (length (kept_path p k S0)) (take ?u p) = kept_path p k S0" by simp
        moreover have "length (kept_path p k S0) \<le> ?u" using u(1) snoc by (simp add: kept_path_snoc)
        ultimately show ?thesis by (simp add: min_absorb1)
      qed
      moreover have "k \<le> length (kept_path p k S0)" using kl by (simp add: kept_path_def)
      ultimately show ?thesis using pos snoc by (simp add: max_absorb2)
    qed
  qed
qed

lemma pop_changed:
  assumes kept: "kept_ok k S" and "can_pop k S" and kl: "k \<le> length p"
  shows "(case LastIndexByte (kept_path p k S) slash of
           Some lastSlash \<Rightarrow> take (max k lastSlash) (kept_path p k S)
         | None \<Rightarrow> take k p) = kept_path p k (butlast S)"
proof (cases S rule: rev_cases)
  case Nil
  then show ?thesis
    using LastIndexByte_less [of "take k p" slash] kl
    by (fastforce simp: kept_path_def max_def split: option.split)
next
  case (snoc S0 x)
  then have x: "slash \<notin> set x" using kept by (simp add: kept_ok_def)
  show ?thesis
  proof (cases "S0 = []")
    case True
    then have "LastIndexByte (kept_path p k S) slash = LastIndexByte (take k p) slash"
      using snoc LastIndexByte_append [OF x] by (simp add: kept_path_def)
    then show ?thesis
      using LastIndexByte_less [of "take k p" slash] kl True snoc
      by (fastforce simp: kept_path_def max_def split: option.split)
  next
    case False
    then have "LastIndexByte (kept_path p k S) slash = Some (length (kept_path p k S0))"
      using snoc LastIndexByte_snoc [OF x] by (simp add: kept_path_snoc)
    moreover have "k \<le> length (kept_path p k S0)" using kl by (simp add: kept_path_def)
    ultimately show ?thesis using snoc by (simp add: max_absorb2 kept_path_snoc)
  qed
qed
lemma represents_dotdot:
  assumes rep: "represents p k S i st"
    and v: "i \<le> e" "e \<le> length p" "slc p i e = ''..''" "i < length p" "k \<le> length p" "e = i + 2"
    and sep: "e < length p \<longrightarrow> p ! e = slash"
    and root: "k = 0 \<or> k \<le> length p \<and> p ! (k - 1) = slash"
  shows "represents p k (after_step k S ''..'') (e + 1) (norm_dotdot p k i st)"
proof -
  have kept: "kept_ok k S" and seen: "seenNonDotDotSegment st = can_pop k S"
    using rep by (auto simp: represents_def)
  show ?thesis
  proof (cases "can_pop k S")
    case False
    then have k0: "k = 0" and after: "after_step k S ''..'' = S @ [''..'']"
      by (auto simp: can_pop_def after_step_def)
    have kept': "kept_ok k (S @ [''..''])" using kept k0 by (auto simp: kept_ok_def)
    have pop': "\<not> can_pop k (S @ [''..''])" using k0 by (simp add: can_pop_def)
    show ?thesis
    proof (cases "changed st")
      case True
      then show ?thesis
        using rep seen False kept' pop' length_kept_path [OF kept v(5)]
        by (simp add: represents_def norm_dotdot_def after kept_path_snoc)
    next
      case unchanged: False
      then show ?thesis
        using represents_extend [OF rep unchanged v(1-5)] seen False kept' pop' sep v(2,6)
        by (simp add: represents_def norm_dotdot_def after)
    qed
  next
    case True
    then have after: "after_step k S ''..'' = butlast S" by (simp add: after_step_def)
    have kept': "kept_ok k (butlast S)" by (rule kept_ok_butlast [OF kept])
    have seen': "seen_non_dotdot k (kept_path p k (butlast S)) = can_pop k (butlast S)"
      by (rule seen_non_dotdot_kept [OF kept' root v(5)])
    show ?thesis
    proof (cases "changed st")
      case changed: True
      then have norm: "normalized st = kept_path p k S" using rep by (simp add: represents_def)
      have "(case LastIndexByte (normalized st) slash of
          Some lastSlash \<Rightarrow> take (max k lastSlash) (normalized st)
        | None \<Rightarrow> take k p) = kept_path p k (butlast S)"
        unfolding norm by (rule pop_changed [OF kept True v(5)])
      then show ?thesis
        using seen True changed kept' seen'
        by (simp add: represents_def norm_dotdot_def after Let_def)
    next
      case unchanged: False
      then show ?thesis
        using pop_unchanged [OF rep unchanged True root] seen True kept' seen'
        by (simp add: represents_def norm_dotdot_def after Let_def)
    qed
  qed
qed

text \<open>Superfluous separators before a segment.\<close>

lemma represents_skip:
  assumes rep: "represents p k S i st" and "i < j" and kl: "k \<le> length p"
  shows "represents p k S j
    (if \<not> changed st then st\<lparr>normalized := take (max k (i - 1)) p, changed := True\<rparr> else st)"
proof (cases "changed st")
  case False
  then have "take (max k (i - 1)) p = kept_path p k S"
    using rep kl by (cases "S = []") (auto simp: represents_def kept_path_def max_def)
  then show ?thesis using rep False by (simp add: represents_def)
qed (use rep in \<open>simp add: represents_def\<close>)

lemma segment_end_props:
  assumes "i < length p" "p ! i \<noteq> slash"
  defines "e \<equiv> segment_end p i"
  shows "i < e" "e \<le> length p" "slash \<notin> set (slc p i e)" "e < length p \<longrightarrow> p ! e = slash"
    "split_from [] (drop i p) = slc p i e # (if e < length p then split_from [] (drop (e + 1) p) else [])"
proof -
  have cons: "drop i p = p ! i # drop (i + 1) p" using assms(1) by (simp add: Cons_nth_drop_Suc)
  have ie: "i < e \<and> e \<le> length p \<and> slash \<notin> set (slc p i e) \<and> (e < length p \<longrightarrow> p ! e = slash)"
  proof (cases "IndexByte (drop (i + 1) p) slash")
    case None
    then have "e = length p" by (simp add: e_def segment_end_def)
    moreover have "slash \<notin> set (drop i p)" using None cons assms(2) by (simp add: IndexByte_None)
    ultimately show ?thesis using assms(1) by (simp add: slc_def)
  next
    case (Some n)
    have n: "n < length p - (i + 1)" "drop (i + 1) p ! n = slash" "slash \<notin> set (take n (drop (i + 1) p))"
      using IndexByte_Some [OF Some] by auto
    have "e = n + i + 1" using Some by (simp add: e_def segment_end_def)
    moreover have "slc p i (n + i + 1) = p ! i # take n (drop (i + 1) p)"
      using cons by (simp add: slc_def)
    ultimately show ?thesis using n assms(2) by (auto simp: add.commute)
  qed
  then show "i < e" "e \<le> length p" "slash \<notin> set (slc p i e)" "e < length p \<longrightarrow> p ! e = slash" by auto
  have "drop i p = slc p i e @ drop e p"
    using ie by (metis append_take_drop_id drop_drop le_add_diff_inverse
        less_imp_le_nat slc_def add.commute)
  moreover have "drop e p = (if e < length p then slash # drop (e + 1) p else [])"
    using ie Cons_nth_drop_Suc [of e p] by auto
  ultimately show "split_from [] (drop i p)
      = slc p i e # (if e < length p then split_from [] (drop (e + 1) p) else [])"
    using ie by (simp add: split_from_append)
qed

text \<open>One iteration of the loop is one step of \<open>reducePathComponents\<close> on what is left of the path.\<close>

definition remaining :: "string \<Rightarrow> nat \<Rightarrow> string list \<Rightarrow> nat \<Rightarrow> string list" where
  "remaining p k S i = foldl reduce_step (take k p # S) (split_from [] (drop i p))"

lemma norm_step_represents:
  assumes rep: "represents p k S (ns_index st) st" and i: "ns_index st < length p" and kl: "k < length p"
    and root: "k = 0 \<or> p ! (k - 1) = slash"
  shows "\<exists>S'. represents p k S' (ns_index (norm_step p k st)) (norm_step p k st)
    \<and> remaining p k S' (ns_index (norm_step p k st)) = remaining p k S (ns_index st)"
proof -
  define i where "i = ns_index st + run_length (\<lambda>c. c = slash) (drop (ns_index st) p)"
  define st1 where "st1 = (if ns_index st < i \<and> \<not> changed st
    then st\<lparr>normalized := take (max k (ns_index st - 1)) p, changed := True\<rparr> else st)"
  have root': "k = 0 \<or> k \<le> length p \<and> p ! (k - 1) = slash" using root kl by auto
  have il: "i \<le> length p" using run_length_le [of "\<lambda>c. c = slash" "drop (ns_index st) p"] assms(2)
    by (simp add: i_def)
  have "drop i p = dropWhile (\<lambda>c. c = slash) (drop (ns_index st) p)"
    by (simp add: i_def run_length_def dropWhile_eq_drop add.commute)
  then have rem: "remaining p k S i = remaining p k S (ns_index st)"
    unfolding remaining_def by (metis split_leading_slashes)
  have rep1: "represents p k S i st1"
  proof (cases "ns_index st < i")
    case True
    then show ?thesis using represents_skip [OF rep True] kl unfolding st1_def by simp
  next
    case False
    then have "i = ns_index st" by (simp add: i_def)
    then show ?thesis using rep by (simp add: st1_def)
  qed
  have unf: "norm_step p k st =
    (if ns_index st < i \<and> i = length p then st1\<lparr>ns_index := i\<rparr>
     else (if segment_end p i - i = 1 \<and> p ! i = dot then norm_dot p st1
           else if segment_end p i - i = 2 \<and> p ! i = dot \<and> p ! (i + 1) = dot
           then norm_dotdot p k i st1
           else norm_other p k i (segment_end p i) st1)\<lparr>ns_index := segment_end p i + 1\<rparr>)"
    unfolding norm_step_def Let_def i_def [symmetric] st1_def [symmetric] by simp
  have idx: "represents p k T j (s\<lparr>ns_index := n\<rparr>) = represents p k T j s" for T j s n
    by (simp add: represents_def)
  show ?thesis
  proof (cases "ns_index st < i \<and> i = length p")
    case True
    then show ?thesis using rep1 rem unf by (intro exI [of _ S]) (simp add: idx)
  next
    case False
    then have ilt: "i < length p" using il i i_def assms(2) by (cases "ns_index st < i") auto
    have "run_length (\<lambda>c. c = slash) (drop (ns_index st) p) < length (drop (ns_index st) p)"
      using ilt by (simp add: i_def)
    from run_length_stop [OF this] have pi: "p ! i \<noteq> slash" using assms(2) by (simp add: i_def)
    define e v where "e = segment_end p i" and "v = slc p i e"
    note ev = segment_end_props [OF ilt pi, folded e_def]
    have lv: "length v = e - i" using ev(2) by (simp add: v_def)
    have v0: "v \<noteq> []" using lv ev(1) by auto
    have vdot: "v = ''.'' \<longleftrightarrow> e - i = 1 \<and> p ! i = dot"
    proof -
      have "v ! 0 = p ! i" using ev(1) ilt by (simp add: v_def)
      then show ?thesis using lv v0 by (cases v) auto
    qed
    have vdotdot: "v = ''..'' \<longleftrightarrow> e - i = 2 \<and> p ! i = dot \<and> p ! (i + 1) = dot"
    proof -
      have "v ! 0 = p ! i" "e - i = 2 \<Longrightarrow> v ! 1 = p ! (i + 1)" using ev(1,2) ilt by (simp_all add: v_def)
      then show ?thesis using lv v0 by (cases v; cases "tl v") auto
    qed
    have kept: "kept_ok k S" using rep by (simp add: represents_def)
    have "remaining p k S i = foldl reduce_step (take k p # after_step k S v)
        (if e < length p then split_from [] (drop (e + 1) p) else [])"
    proof -
      have "take k p = [] \<longleftrightarrow> k = 0" using ilt by auto
      then show ?thesis
        using reduce_step_after [OF kept, of "take k p" v] by (simp add: remaining_def ev(5) v_def)
    qed
    also have "\<dots> = remaining p k (after_step k S v) (e + 1)" by (simp add: remaining_def)
    finally have rem': "remaining p k (after_step k S v) (e + 1) = remaining p k S (ns_index st)"
      using rem by simp
    define st2 where "st2 =
      (if e - i = 1 \<and> p ! i = dot then norm_dot p st1
       else if e - i = 2 \<and> p ! i = dot \<and> p ! (i + 1) = dot then norm_dotdot p k i st1
       else norm_other p k i e st1)"
    have unf': "norm_step p k st = st2\<lparr>ns_index := e + 1\<rparr>"
      using unf False by (simp only: st2_def e_def if_False)
    have "represents p k (after_step k S v) (e + 1) st2"
    proof -
      consider "v = ''.''" | "v = ''..''" | "v \<noteq> ''.''" "v \<noteq> ''..''" by blast
      then show ?thesis
      proof cases
        case 1
        then show ?thesis
          using represents_dot [OF rep1] vdot by (simp add: after_step_def st2_def)
      next
        case 2
        have "e - i = 2" using vdotdot 2 by blast
        then have "e = i + 2" using ev(1) by arith
        then show ?thesis
          using represents_dotdot [OF rep1 _ ev(2) _ ilt _ _ ev(4) root'] 2 vdot vdotdot kl
          by (simp add: v_def st2_def)
      next
        case 3
        have "represents p k (S @ [v]) (e + 1) (norm_other p k i e st1)"
          using represents_other [OF rep1 less_imp_le [OF ev(1)] ev(2) v_def [symmetric] ilt _ ev(4) v0]
            ev(3) kl 3 by (simp add: v_def)
        moreover have "after_step k S v = S @ [v]" using 3 v0 by (simp add: after_step_def)
        moreover have "\<not> (e - i = 1 \<and> p ! i = dot)" using 3 vdot by blast
        moreover have "\<not> (e - i = 2 \<and> p ! i = dot \<and> p ! (i + 1) = dot)" using 3 vdotdot by blast
        ultimately show ?thesis by (simp only: st2_def if_False)
      qed
    qed
    then show ?thesis
      using rem' unf' by (intro exI [of _ "after_step k S v"]) (simp add: idx)
  qed
qed

lemma norm_loop_represents:
  assumes "represents p k S (ns_index st) st" "k < length p" "k = 0 \<or> p ! (k - 1) = slash"
  shows "\<exists>S'. represents p k S' (ns_index (norm_loop p k st)) (norm_loop p k st)
    \<and> length p \<le> ns_index (norm_loop p k st)
    \<and> take k p # S' = remaining p k S (ns_index st)"
  using assms
proof (induction p k st arbitrary: S rule: norm_loop.induct)
  case (1 p k st)
  show ?case
  proof (cases "ns_index st < length p")
    case True
    obtain S' where "represents p k S' (ns_index (norm_step p k st)) (norm_step p k st)"
      "remaining p k S' (ns_index (norm_step p k st)) = remaining p k S (ns_index st)"
      using norm_step_represents [OF 1(2) True 1(3,4)] by auto
    then show ?thesis
      using 1(1) [OF True _ 1(3,4)] True by (metis norm_loop.simps)
  next
    case False
    then show ?thesis using 1(2) by (subst (1 2 3) norm_loop.simps) (auto simp: remaining_def)
  qed
qed
section \<open>The reference path\<close>

definition reference_path :: "(string \<Rightarrow> string \<Rightarrow> bool) \<Rightarrow> string \<Rightarrow> string" where
  "reference_path equalFold p =
     GetPathFromPathComponents (getNormalizedPathComponentsFromCombined equalFold p)"

lemma reference_path_eq:
  "reference_path equalFold p =
   (let k = GetRootLength equalFold p
    in GetPathFromPathComponents (foldl reduce_step [take k p] (split_from [] (drop k p))))"
  by (simp add: reference_path_def getNormalizedPathComponentsFromCombined_def normalized_components_eq
      Let_def)

lemma ensure_root:
  "k \<noteq> 0 \<Longrightarrow> k \<le> length p \<Longrightarrow> p ! (k - 1) = slash \<Longrightarrow>
   EnsureTrailingDirectorySeparator (take k p) = take k p"
  using root_ends_slash [of k p]
  by (simp add: EnsureTrailingDirectorySeparator_def HasTrailingDirectorySeparator_def
      isAnyDirectorySeparator_def)

lemma path_from_kept:
  assumes "k = 0 \<or> k \<le> length p \<and> p ! (k - 1) = slash" "k \<le> length p"
  shows "GetPathFromPathComponents (take k p # S) = kept_path p k S"
  using assms ensure_root [of k p]
  by (cases "k = 0") (auto simp: GetPathFromPathComponents_def kept_path_def)

lemma removeTrailing_none:
  "w = [] \<or> last w \<noteq> slash \<and> last w \<noteq> backslash \<Longrightarrow> removeTrailingDirectorySeparators w = w"
  by (subst removeTrailingDirectorySeparators.simps)
     (auto simp: HasTrailingDirectorySeparator_def isAnyDirectorySeparator_def)

lemma removeTrailing_one:
  "w = [] \<or> last w \<noteq> slash \<and> last w \<noteq> backslash \<Longrightarrow> removeTrailingDirectorySeparators (w @ [slash]) = w"
  by (subst removeTrailingDirectorySeparators.simps)
     (simp add: HasTrailingDirectorySeparator_def isAnyDirectorySeparator_def
       RemoveTrailingDirectorySeparator_def removeTrailing_none)

lemma kept_path_last:
  assumes "kept_ok k S" "S \<noteq> []" "backslash \<notin> set (kept_path p k S)"
  shows "last (kept_path p k S) \<noteq> slash \<and> last (kept_path p k S) \<noteq> backslash"
proof -
  obtain S0 x where S: "S = S0 @ [x]" using assms(2) by (metis append_butlast_last_id)
  then have x: "x \<noteq> []" "slash \<notin> set x" using assms(1) by (auto simp: kept_ok_def)
  then have "last (kept_path p k S) = last x" by (simp add: S kept_path_snoc)
  moreover have "last x \<in> set x" using x by simp
  moreover have "set x \<subseteq> set (kept_path p k S)" by (auto simp: S kept_path_snoc)
  ultimately show ?thesis using assms(3) x by (metis subsetD)
qed

text \<open>What the loop leaves, finished as the code does.\<close>

definition loop_result :: "string \<Rightarrow> nat \<Rightarrow> string" where
  "loop_result p k =
     (let st = norm_loop p k
                 \<lparr>ns_index = k, changed = False, normalized = [],
                  normalizedUpTo = k, seenNonDotDotSegment = (k \<noteq> 0)\<rparr>
      in if changed st then normalized st
         else if k < length p then removeTrailingDirectorySeparators p
         else if length p = k then EnsureTrailingDirectorySeparator p
         else p)"

lemma loop_result_reference:
  assumes bs: "backslash \<notin> set p" and "p \<noteq> []"
  shows "loop_result p (GetRootLength equalFold p) = reference_path equalFold p"
proof -
  define k where "k = GetRootLength equalFold p"
  define st0 where "st0 = \<lparr>ns_index = k, changed = False, normalized = [], normalizedUpTo = k,
     seenNonDotDotSegment = (k \<noteq> 0)\<rparr>"
  define st where "st = norm_loop p k st0"
  have res: "loop_result p k =
     (if changed st then normalized st
      else if k < length p then removeTrailingDirectorySeparators p
      else if length p = k then EnsureTrailingDirectorySeparator p
      else p)"
    unfolding loop_result_def Let_def st_def st0_def by simp
  have ok: "root_ok p k" unfolding k_def by (rule GetRootLength_ok [OF bs])
  have ref: "reference_path equalFold p
      = GetPathFromPathComponents (foldl reduce_step [take k p] (split_from [] (drop k p)))"
    by (simp add: reference_path_eq k_def Let_def)
  show ?thesis
  proof (cases "k < length p")
    case False
    then have "k = length p" using ok by (simp add: root_ok_def)
    moreover from this have "\<not> changed st" by (simp add: st_def st0_def norm_loop.simps)
    ultimately show ?thesis
      using \<open>p \<noteq> []\<close> ref res k_def by (simp add: GetPathFromPathComponents_def)
  next
    case True
    then have root: "k = 0 \<or> p ! (k - 1) = slash" using ok by (auto simp: root_ok_def)
    have init: "represents p k [] (ns_index st0) st0" "ns_index st0 = k"
      using True by (simp_all add: st0_def represents_def kept_ok_def can_pop_def kept_path_def)
    obtain S where S: "represents p k S (ns_index st) st" "length p \<le> ns_index st"
      "take k p # S = remaining p k [] k"
      using norm_loop_represents [OF init(1) True root] init(2) unfolding st_def by auto
    then have ref': "reference_path equalFold p = kept_path p k S"
      using ref path_from_kept [of k p S] root True by (auto simp: remaining_def)
    show ?thesis
    proof (cases "changed st")
      case changed: True
      then show ?thesis
        using S(1) ref' res k_def by (simp add: represents_def)
    next
      case False
      then have u: "normalizedUpTo st \<le> length p" "take (normalizedUpTo st) p = kept_path p k S"
        "ns_index st = (if S = [] then k else normalizedUpTo st + 1)"
        "S \<noteq> [] \<and> normalizedUpTo st < length p \<longrightarrow> p ! normalizedUpTo st = slash" "kept_ok k S"
        using S(1) by (auto simp: represents_def)
      have "S \<noteq> []" using u(3) S(2) True by auto
      have "set (kept_path p k S) \<subseteq> set p" using u(2) by (metis set_take_subset)
      then have last: "last (kept_path p k S) \<noteq> slash \<and> last (kept_path p k S) \<noteq> backslash"
        using kept_path_last [OF u(5) \<open>S \<noteq> []\<close>] bs by blast
      have "p = kept_path p k S \<or> p = kept_path p k S @ [slash]"
      proof (cases "normalizedUpTo st = length p")
        case True
        then show ?thesis using u(2) by simp
      next
        case False
        then have "length p = normalizedUpTo st + 1" using u(1,3) S(2) \<open>S \<noteq> []\<close> by simp
        then have "p = take (normalizedUpTo st) p @ [p ! normalizedUpTo st]"
          by (metis lessI take_Suc_conv_app_nth take_all Suc_eq_plus1 order_refl)
        then show ?thesis using u(2,4) False u(1) \<open>S \<noteq> []\<close> by simp
      qed
      then have "removeTrailingDirectorySeparators p = kept_path p k S"
        using removeTrailing_none [of "kept_path p k S"] removeTrailing_one [of "kept_path p k S"] last
        by metis
      then show ?thesis
        using ref' True False res k_def by simp
    qed
  qed
qed
section \<open>Paths without relative segments\<close>

definition plain_segment :: "string \<Rightarrow> bool" where
  "plain_segment v \<longleftrightarrow> v \<noteq> [] \<and> v \<noteq> ''.'' \<and> v \<noteq> ''..''"

lemma good_segments:
  "\<not> bad_segments prev ss \<Longrightarrow> ss \<noteq> [] \<Longrightarrow> prev \<or> hd ss \<noteq> [] \<or> ss = [[]] \<Longrightarrow>
   \<exists>S. list_all plain_segment S \<and> (ss = S \<or> ss = S @ [[]])"
proof (induction prev ss rule: bad_segments.induct)
  case (2 prev v)
  show ?case
  proof (cases "v = []")
    case True
    then show ?thesis by (intro exI [of _ "[]"]) simp
  next
    case False
    then show ?thesis using 2 by (intro exI [of _ "[v]"]) (simp add: plain_segment_def)
  qed
next
  case (3 prev v w ss)
  then obtain S where "list_all plain_segment S" "w # ss = S \<or> w # ss = S @ [[]]" by auto
  moreover have "plain_segment v" using 3(2,4) by (auto simp: plain_segment_def)
  ultimately show ?case by (intro exI [of _ "v # S"]) auto
qed simp

lemma reduce_plain: "list_all plain_segment S \<Longrightarrow> foldl reduce_step (r # T) S = r # T @ S"
proof (induction S arbitrary: T)
  case (Cons v S)
  then have "reduce_step (r # T) v = r # (T @ [v])" by (simp add: reduce_step_def plain_segment_def)
  then show ?case using Cons by simp
qed simp

lemma plain_last:
  assumes "list_all plain_segment S" "S \<noteq> []" "\<forall>v \<in> set S. slash \<notin> set v \<and> backslash \<notin> set v"
  shows "last (strJoin S ''/'') \<noteq> slash \<and> last (strJoin S ''/'') \<noteq> backslash \<and> strJoin S ''/'' \<noteq> []"
proof -
  obtain S0 x where S: "S = S0 @ [x]" using assms(2) by (metis append_butlast_last_id)
  then have x: "x \<noteq> []" "slash \<notin> set x" "backslash \<notin> set x"
    using assms by (auto simp: plain_segment_def)
  then have "last (strJoin S ''/'') = last x" by (cases "S0 = []") (simp_all add: S strJoin_snoc)
  moreover have "last x \<in> set x" using x by simp
  moreover have "strJoin S ''/'' \<noteq> []" using x by (cases "S0 = []") (simp_all add: S strJoin_snoc)
  ultimately show ?thesis using x by metis
qed

lemma bad_segments_append:
  "bad_segments True ss \<Longrightarrow> ss \<noteq> [] \<Longrightarrow> vs \<noteq> [] \<Longrightarrow> bad_segments prev (vs @ ss)"
  by (induction prev vs rule: bad_segments.induct) (cases ss; auto)+

text \<open>A path \<open>r @ t\<close> without relative segments is its own normal form, up to one last separator.\<close>

lemma no_relative_segments:
  assumes good: "\<not> hasRelativePathSegment (r @ t)" and bs: "backslash \<notin> set (r @ t)"
    and root: "r = [] \<and> (t = [] \<or> hd t \<noteq> slash) \<or> r \<noteq> [] \<and> last r = slash"
  obtains S where "foldl reduce_step [r] (split_from [] t) = r # S" "list_all plain_segment S"
    "t = [] \<Longrightarrow> S = []" "t \<noteq> [] \<Longrightarrow> RemoveTrailingDirectorySeparator (r @ t) = r @ strJoin S ''/''"
proof -
  have "\<exists>prev. \<not> bad_segments prev (split_from [] t) \<and> (prev \<or> hd (split_from [] t) \<noteq> [] \<or> t = [])"
  proof (cases "r = []")
    case True
    then have "t = [] \<or> hd (split_from [] t) \<noteq> []"
      using root by (cases t) (auto simp: split_from_def split: list.split)
    then show ?thesis using good True by (auto simp: hasRelativePathSegment_bad)
  next
    case False
    then obtain u where r: "r = u @ [slash]" using root by (metis append_butlast_last_id)
    have "\<not> bad_segments False (split_from [] u @ split_from [] t)"
      using good r by (simp add: hasRelativePathSegment_bad split_from_append_slash)
    then have "\<not> bad_segments True (split_from [] t)"
      using bad_segments_append split_from_Cons_ex by (metis list.distinct(1))
    then show ?thesis by blast
  qed
  then obtain prev where prev: "\<not> bad_segments prev (split_from [] t)"
    "prev \<or> hd (split_from [] t) \<noteq> [] \<or> t = []" by blast
  then obtain S where S: "list_all plain_segment S" "split_from [] t = S \<or> split_from [] t = S @ [[]]"
  proof -
    have "split_from [] t \<noteq> []" using split_from_Cons_ex [of "[]" t] by auto
    moreover have "prev \<or> hd (split_from [] t) \<noteq> [] \<or> split_from [] t = [[]]" using prev(2) by auto
    ultimately show thesis using that good_segments [OF prev(1)] by blast
  qed
  have t: "strJoin (split_from [] t) ''/'' = t" by (simp add: join_split)
  have fold: "foldl reduce_step [r] (split_from [] t) = r # S"
    using S(2) reduce_plain [OF S(1), of r "[]"] by auto
  have nil: "S = []" if "t = []"
    using S that by (cases S) (auto simp: plain_segment_def)
  have "RemoveTrailingDirectorySeparator (r @ t) = r @ strJoin S ''/''" if "t \<noteq> []"
  proof -
    have sne: "S \<noteq> []" using S(2) t that by auto
    have seg: "\<forall>v \<in> set S. slash \<notin> set v"
      using segments_no_slash [of "[]" _ t] S(2) by fastforce
    have sub: "v \<in> set S \<Longrightarrow> set v \<subseteq> set (strJoin S ''/'')" for v
      by (induction S rule: induct_list012) auto
    have "set (strJoin S ''/'') \<subseteq> set t" using t S(2) sne by (auto simp: strJoin_snoc)
    then have "\<forall>v \<in> set S. slash \<notin> set v \<and> backslash \<notin> set v" using sub seg bs by auto
    note last = plain_last [OF S(1) sne this]
    show ?thesis
      using S(2)
    proof
      assume "split_from [] t = S"
      then have "t = strJoin S ''/''" using t by simp
      then show ?thesis
        using last by (simp add: RemoveTrailingDirectorySeparator_def HasTrailingDirectorySeparator_def
            isAnyDirectorySeparator_def)
    next
      assume "split_from [] t = S @ [[]]"
      then have "t = strJoin S ''/'' @ [slash]" using t sne by (simp add: strJoin_snoc)
      then show ?thesis
        by (simp add: RemoveTrailingDirectorySeparator_def HasTrailingDirectorySeparator_def
            isAnyDirectorySeparator_def)
    qed
  qed
  then show ?thesis using that fold S(1) nil by blast
qed
section \<open>Paths that only need \<open>.\<close> segments removed\<close>

abbreviation (input) squeeze :: "string \<Rightarrow> string" where
  "squeeze s \<equiv> strReplaceAll s ''/./'' ''/''"

lemma replace_from_drop: "replace_from n old new s = replace_from 0 old new (drop n s)"
proof (induction n arbitrary: s)
  case (Suc n)
  then show ?case by (cases s) (simp_all add: Suc)
qed simp

lemma squeeze_Nil [simp]: "squeeze [] = []"
  by (simp add: strReplaceAll_def)

lemma squeeze_dot: "squeeze (slash # dot # slash # t) = slash # squeeze t"
  by (simp add: strReplaceAll_def HasPrefix_def numeral_2_eq_2)

lemma squeeze_other: "take 3 (c # s) \<noteq> ''/./'' \<Longrightarrow> squeeze (c # s) = c # squeeze s"
  by (auto simp: strReplaceAll_def HasPrefix_def numeral_3_eq_3)

lemma squeeze_char: "c \<noteq> slash \<Longrightarrow> squeeze (c # s) = c # squeeze s"
  by (simp add: squeeze_other)

lemma squeeze_cases:
  obtains (Nil) "s = []" | (dot) t where "s = slash # dot # slash # t"
  | (other) c t where "s = c # t" "take 3 (c # t) \<noteq> ''/./''"
proof (cases s)
  case (Cons c t)
  show ?thesis
  proof (cases "take 3 s = ''/./''")
    case True
    then have "s = ''/./'' @ drop 3 s" by (metis append_take_drop_id)
    then show ?thesis using dot by simp
  next
    case False
    then show ?thesis using other Cons by simp
  qed
qed (use Nil in simp)

lemma squeeze_segments:
  "filter (\<lambda>v. v \<noteq> ''.'') (split_from u (squeeze s)) = filter (\<lambda>v. v \<noteq> ''.'') (split_from u s)"
proof (induction "length s" arbitrary: s u rule: less_induct)
  case less
  show ?case
  proof (cases s rule: squeeze_cases)
    case (dot t)
    then show ?thesis using less [of t "[]"] by (simp add: squeeze_dot)
  next
    case (other c t)
    then show ?thesis
      using less [of t "[]"] less [of t "u @ [c]"] by (cases "c = slash") (simp_all add: squeeze_other)
  qed simp
qed

lemma squeeze_slash: "\<exists>t'. squeeze (slash # t) = slash # t'"
  by (cases "slash # t" rule: squeeze_cases) (auto simp: squeeze_dot squeeze_other)

lemma squeeze_hd: "s \<noteq> [] \<Longrightarrow> squeeze s \<noteq> [] \<and> hd (squeeze s) = hd s"
  by (cases s rule: squeeze_cases) (auto simp: squeeze_dot squeeze_other)

lemma squeeze_no_slash: "slash \<notin> set u \<Longrightarrow> squeeze (u @ s) = u @ squeeze s"
  by (induction u) (auto simp: squeeze_char)

text \<open>Two adjacent separators stay.\<close>

lemma squeeze_two_slashes: "\<exists>x y. squeeze (a @ slash # slash # b) = x @ slash # slash # y"
proof (induction "length a" arbitrary: a rule: less_induct)
  case less
  show ?case
  proof (cases a)
    case Nil
    obtain y where "squeeze (slash # b) = slash # y" using squeeze_slash by blast
    then show ?thesis using Nil by (intro exI [of _ "[]"] exI [of _ y]) (simp add: squeeze_other)
  next
    case (Cons c a')
    show ?thesis
    proof (cases "take 3 (a @ slash # slash # b) = ''/./''")
      case False
      obtain x y where "squeeze (a' @ slash # slash # b) = x @ slash # slash # y"
        using less [of a'] Cons by auto
      then show ?thesis
        using False Cons by (intro exI [of _ "c # x"] exI [of _ y]) (simp add: squeeze_other)
    next
      case True
      then consider "a = [slash, dot]" | a2 where "a = slash # dot # slash # a2"
        using Cons by (cases a'; cases "tl a'") (auto simp: numeral_3_eq_3)
      then show ?thesis
      proof cases
        case 1
        obtain y where "squeeze (slash # b) = slash # y" using squeeze_slash by blast
        then show ?thesis using 1 by (intro exI [of _ "[]"] exI [of _ y]) (simp add: squeeze_dot)
      next
        case 2
        obtain x y where "squeeze (a2 @ slash # slash # b) = x @ slash # slash # y"
          using less [of a2] 2 by auto
        then show ?thesis using 2 by (intro exI [of _ "slash # x"] exI [of _ y]) (simp add: squeeze_dot)
      qed
    qed
  qed
qed

lemma two_slashes_relative: "hasRelativePathSegment (a @ slash # slash # b)"
proof -
  have "bad_segments True ([[]] @ split_from [] b)" using split_from_Cons_ex [of "[]" b] by auto
  then have "bad_segments False (split_from [] a @ [[]] @ split_from [] b)"
    using bad_segments_append split_from_Cons_ex by (metis append_is_Nil_conv list.distinct(1))
  then show ?thesis by (simp add: hasRelativePathSegment_bad split_from_append_slash)
qed

text \<open>What \<open>simpleNormalizePath\<close> returns when it trims.\<close>

lemma TrimPrefix_cases:
  obtains "TrimPrefix s ''./'' = s" "\<not> HasPrefix s ''./''"
  | t where "s = dot # slash # t" "TrimPrefix s ''./'' = t"
proof (cases "HasPrefix s ''./''")
  case True
  then have "s = ''./'' @ drop 2 s" unfolding HasPrefix_def by (metis append_take_drop_id length_Cons
        list.size(3) numeral_2_eq_2)
  then show ?thesis using that(2) [of "drop 2 s"] True by (simp add: TrimPrefix_def numeral_2_eq_2)
next
  case False
  then show ?thesis using that(1) by (simp add: TrimPrefix_def)
qed

lemma simple_no_two_slashes:
  assumes "simpleNormalizePath p = Some s" "hasRelativePathSegment p"
  shows "\<nexists>a b. p = a @ slash # slash # b"
proof
  assume "\<exists>a b. p = a @ slash # slash # b"
  then obtain x y where xy: "squeeze p = x @ slash # slash # y" using squeeze_two_slashes by blast
  have s: "s = TrimPrefix (squeeze p) ''./''" "\<not> hasRelativePathSegment s"
    "\<not> (s \<noteq> squeeze p \<and> HasPrefix s ''/'')"
    using assms by (auto simp: simpleNormalizePath_def Let_def split: if_splits)
  show False
  proof (cases "squeeze p" rule: TrimPrefix_cases)
    case 1
    then show ?thesis using s(1,2) xy two_slashes_relative by metis
  next
    case (2 t)
    then have st: "s = t" using s(1) by simp
    consider "x = [dot]" | x' where "x = dot # slash # x'"
      using 2(1) xy by (cases x; cases "tl x") auto
    then show ?thesis
    proof cases
      case 1
      then have "HasPrefix s ''/''" "s \<noteq> squeeze p" using 2 st xy by (auto simp: HasPrefix_def)
      then show ?thesis using s(3) by blast
    next
      case 2
      then have "s = x' @ slash # slash # y" using \<open>squeeze p = dot # slash # t\<close> st xy by simp
      then show ?thesis using s(2) two_slashes_relative by metis
    qed
  qed
qed
text \<open>The roots of paths without two adjacent separators.\<close>

lemma small_root:
  assumes no2: "\<nexists>a b. p = a @ slash # slash # b" and bs: "backslash \<notin> set p" and "p \<noteq> []"
    and dyn: "\<not> HasPrefix p DynamicURIFileNamePrefix"
  obtains (relative) "GetRootLength equalFold p = 0" "hd p \<noteq> slash"
    | (dos) "length p = 2" "p ! 1 = CHR '':''"
    | (rooted) u t where "p = u @ slash # t" "GetRootLength equalFold p = length u + 1"
        "slash \<notin> set u" "u \<noteq> ''.''"
proof -
  obtain c p1 where p: "p = c # p1" using \<open>p \<noteq> []\<close> by (cases p) auto
  have url: "strIndex p ''://'' = None"
  proof (rule ccontr)
    assume "strIndex p ''://'' \<noteq> None"
    then obtain i where "strIndex p ''://'' = Some i" by auto
    then have "take 3 (drop i p) = ''://''"
      using strIndex_Some [of p "''://''" i] by (simp add: numeral_3_eq_3)
    then have "p = take i p @ CHR '':'' # slash # slash # drop 3 (drop i p)"
      by (metis append_Cons append_Nil append_take_drop_id)
    then have "p = (take i p @ [CHR '':'']) @ slash # slash # drop 3 (drop i p)" by simp
    then show False using no2 by blast
  qed
  have sep: "isAnyDirectorySeparator (p ! n) \<longleftrightarrow> p ! n = slash" if "n < length p" for n
    using bs that by (auto simp: isAnyDirectorySeparator_def dest: nth_mem)
  consider (posix) "c = slash" | (dos2) "c \<noteq> slash" "IsVolumeCharacter c" "p1 = '':''"
    | (dos3) t where "c \<noteq> slash" "IsVolumeCharacter c" "p1 = CHR '':'' # slash # t"
    | (untitled) t where "c = CHR ''^''" "p1 = slash # t"
    | (relative) "c \<noteq> slash" "\<not> (IsVolumeCharacter c \<and> 1 < length p \<and> p ! 1 = CHR '':'' \<and> length p = 2)"
      "\<not> (IsVolumeCharacter c \<and> 2 < length p \<and> p ! 1 = CHR '':'' \<and> p ! 2 = slash)"
      "\<not> (c = CHR ''^'' \<and> 1 < length p \<and> p ! 1 = slash)"
    by (cases p1; cases "tl p1") (auto simp: p)
  then show ?thesis
  proof cases
    case posix
    then have "length p = 1 \<or> p ! 1 \<noteq> p ! 0"
    proof (cases p1)
      case (Cons a l)
      have "a \<noteq> slash"
      proof
        assume "a = slash"
        then have "p = [] @ slash # slash # l" using posix p Cons by simp
        then show False using no2 by blast
      qed
      then show ?thesis using posix p Cons by simp
    qed (use p in simp)
    then have "GetRootLength equalFold p = 1"
      using posix by (simp add: GetRootLength_def GetEncodedRootLength_def isAnyDirectorySeparator_def
          uncRootLength_def p split del: if_split cong: if_cong)
    then show ?thesis using posix p that(3) [of "[]" p1] by simp
  next
    case dos2
    then show ?thesis using p that(2) by simp
  next
    case dos3
    then have "GetRootLength equalFold p = 3"
      using sep [of 0] sep [of 2] by (simp add: GetRootLength_def GetEncodedRootLength_def p)
    then show ?thesis using dos3 p that(3) [of "[c, CHR '':'']" t] by simp
  next
    case untitled
    then have "GetRootLength equalFold p = 2"
      using sep [of 0] dyn
      by (simp add: GetRootLength_def GetEncodedRootLength_def p dynamicRootLength_def
          IsVolumeCharacter_def IsASCIILetter_def)
    then show ?thesis using untitled p that(3) [of "''^''" t] by simp
  next
    case relative
    have c: "p ! 0 = c" "\<not> isAnyDirectorySeparator c" using sep [of 0] relative(1) p by auto
    have n2: "\<not> (IsVolumeCharacter c \<and> 1 < length p \<and> p ! 1 = CHR '':'' \<and> length p = 2)"
      using relative(2) .
    have n3: "\<not> (IsVolumeCharacter c \<and> 2 < length p \<and> p ! 1 = CHR '':'' \<and> isAnyDirectorySeparator (p ! 2))"
      using relative(3) sep [of 2] by blast
    have "GetEncodedRootLength equalFold p = urlRootLength equalFold p"
      unfolding GetEncodedRootLength_def Let_def c(1)
      by (simp only: \<open>p \<noteq> []\<close> c(2) n2 n3 relative(4) if_False)
    then have "GetRootLength equalFold p = 0"
      using url by (simp add: urlRootLength_def GetRootLength_def)
    then show ?thesis using relative(1) p that(1) by simp
  qed
qed

lemma simple_route_kept:
  assumes good: "\<not> hasRelativePathSegment s" and bs: "backslash \<notin> set s"
    and s: "s = r @ t" and root: "r = [] \<and> (t = [] \<or> hd t \<noteq> slash) \<or> r \<noteq> [] \<and> last r = slash"
    and same: "foldl reduce_step [r] (split_from [] t) = foldl reduce_step [r] (split_from [] t')"
  shows "(if length r < length s then RemoveTrailingDirectorySeparator s
          else if length s = length r \<and> length r \<noteq> 0 then EnsureTrailingDirectorySeparator s
          else s) = GetPathFromPathComponents (foldl reduce_step [r] (split_from [] t'))"
proof -
  obtain S where S: "foldl reduce_step [r] (split_from [] t) = r # S" "t = [] \<Longrightarrow> S = []"
    "t \<noteq> [] \<Longrightarrow> RemoveTrailingDirectorySeparator (r @ t) = r @ strJoin S ''/''"
    using no_relative_segments [of r t] good bs root unfolding s by blast
  have "(if r \<noteq> [] then EnsureTrailingDirectorySeparator r else r) = r"
    using root by (auto simp: EnsureTrailingDirectorySeparator_def HasTrailingDirectorySeparator_def
        isAnyDirectorySeparator_def)
  then show ?thesis
    using S same s by (cases "t = []") (auto simp: GetPathFromPathComponents_def)
qed

lemma reduce_without_dots:
  "filter (\<lambda>v. v \<noteq> ''.'') ss = filter (\<lambda>v. v \<noteq> ''.'') ss' \<Longrightarrow>
   foldl reduce_step cs ss = foldl reduce_step cs ss'"
proof -
  have "foldl reduce_step cs (filter (\<lambda>v. v \<noteq> ''.'') ss) = foldl reduce_step cs ss" for cs ss
    by (induction ss arbitrary: cs) auto
  then show "filter (\<lambda>v. v \<noteq> ''.'') ss = filter (\<lambda>v. v \<noteq> ''.'') ss' \<Longrightarrow> ?thesis" by metis
qed

lemma squeeze_set: "set (squeeze s) \<subseteq> set s"
proof (induction "length s" arbitrary: s rule: less_induct)
  case less
  show ?case
  proof (cases s rule: squeeze_cases)
    case (dot t)
    then show ?thesis using less [of t] by (auto simp: squeeze_dot)
  next
    case (other c t)
    then show ?thesis using less [of t] by (auto simp: squeeze_other)
  qed simp
qed

lemma rootless_hd:
  assumes "GetRootLength equalFold p = 0" "p \<noteq> []"
  shows "hd p \<noteq> slash"
proof
  assume "hd p = slash"
  then have "p ! 0 = slash" using assms(2) by (simp add: hd_conv_nth)
  then have "GetEncodedRootLength equalFold p = uncRootLength p" "0 < uncRootLength p"
    using root_ok_unc [OF assms(2)] assms(2)
    by (simp_all add: GetEncodedRootLength_def isAnyDirectorySeparator_def)
  then show False using assms(1) by (simp add: GetRootLength_def)
qed

lemma root_nonempty_last: "k \<noteq> 0 \<Longrightarrow> k \<le> length p \<Longrightarrow> p ! (k - 1) = slash \<Longrightarrow> take k p \<noteq> [] \<and> last (take k p) = slash"
  using root_ends_slash [of k p] by simp

text \<open>The two routes of the normalizer, put together.\<close>

definition simple_result :: "nat \<Rightarrow> string \<Rightarrow> string" where
  "simple_result k s =
     (if k < length s then RemoveTrailingDirectorySeparator s
      else if length s = k \<and> k \<noteq> 0 then EnsureTrailingDirectorySeparator s
      else s)"

lemma simple_route_same:
  assumes bs: "backslash \<notin> set p" and good: "\<not> hasRelativePathSegment p"
  shows "simple_result (GetRootLength equalFold p) p = reference_path equalFold p"
proof -
  define k where "k = GetRootLength equalFold p"
  have ok: "root_ok p k" unfolding k_def by (rule GetRootLength_ok [OF bs])
  show ?thesis
  proof (cases "k = length p")
    case True
    then show ?thesis
      unfolding reference_path_eq Let_def k_def [symmetric]
      by (simp add: simple_result_def GetPathFromPathComponents_def)
  next
    case False
    then have kl: "k < length p" "k = 0 \<or> p ! (k - 1) = slash" using ok by (auto simp: root_ok_def)
    have root: "take k p = [] \<and> (drop k p = [] \<or> hd (drop k p) \<noteq> slash) \<or> take k p \<noteq> [] \<and> last (take k p) = slash"
    proof (cases "k = 0")
      case True
      then show ?thesis using rootless_hd [of equalFold p] k_def by (cases "p = []") auto
    next
      case False
      then show ?thesis using root_nonempty_last [of k p] kl by simp
    qed
    have "length (take k p) = k" using kl by simp
    then show ?thesis
      using simple_route_kept [OF good bs append_take_drop_id [symmetric] root refl]
      unfolding reference_path_eq Let_def k_def [symmetric] simple_result_def
      by (simp only: \<open>length (take k p) = k\<close>)
  qed
qed

lemma simple_route_trimmed:
  assumes bs: "backslash \<notin> set p" and dyn: "\<not> HasPrefix p DynamicURIFileNamePrefix"
    and simple: "simpleNormalizePath p = Some s" and rel: "hasRelativePathSegment p"
  shows "simple_result (GetRootLength equalFold p) s = reference_path equalFold p"
proof -
  have s: "s = TrimPrefix (squeeze p) ''./''" "\<not> hasRelativePathSegment s"
    "\<not> (s \<noteq> squeeze p \<and> HasPrefix s ''/'')"
    using simple rel by (auto simp: simpleNormalizePath_def Let_def split: if_splits)
  have no2: "\<nexists>a b. p = a @ slash # slash # b" by (rule simple_no_two_slashes [OF simple rel])
  have pne: "p \<noteq> []" using rel by (auto simp: hasRelativePathSegment_def)
  have bss: "backslash \<notin> set s"
    using s(1) bs squeeze_set [of p] by (cases "squeeze p" rule: TrimPrefix_cases) auto
  show ?thesis
  using no2 bs pne dyn
  proof (cases rule: small_root [where equalFold = equalFold])
    case relative
    have "s = [] \<or> hd s \<noteq> slash"
      "filter (\<lambda>v. v \<noteq> ''.'') (split_from [] s) = filter (\<lambda>v. v \<noteq> ''.'') (split_from [] p)"
    proof -
      show "s = [] \<or> hd s \<noteq> slash"
      proof (cases "squeeze p" rule: TrimPrefix_cases)
        case 1
        then show ?thesis using s(1) squeeze_hd [OF pne] relative(2) by metis
      next
        case (2 t)
        then have "s = t" "s \<noteq> squeeze p" using s(1) by simp_all
        then show ?thesis using s(3) by (cases s) (auto simp: HasPrefix_def)
      qed
      show "filter (\<lambda>v. v \<noteq> ''.'') (split_from [] s) = filter (\<lambda>v. v \<noteq> ''.'') (split_from [] p)"
        using s(1) squeeze_segments [of "[]" p]
        by (cases "squeeze p" rule: TrimPrefix_cases) auto
    qed
    then have hd: "s = [] \<or> hd s \<noteq> slash"
      and same: "foldl reduce_step [[]] (split_from [] s) = foldl reduce_step [[]] (split_from [] p)"
      using reduce_without_dots [of "split_from [] s" "split_from [] p"] by blast+
    show ?thesis
      using simple_route_kept [of s "[]" s p, OF s(2) bss _ _ same] hd relative(1)
      unfolding reference_path_eq Let_def simple_result_def by (simp split: if_split_asm)
  next
    case dos
    then obtain c where "p = [c, CHR '':'']" by (cases p; cases "tl p") auto
    then have "\<not> hasRelativePathSegment p"
      by (cases "c = slash") (simp_all add: hasRelativePathSegment_bad)
    then show ?thesis using rel by blast
  next
    case (rooted u t)
    obtain t' where "squeeze (slash # t) = slash # t'" using squeeze_slash by blast
    then have sq: "squeeze p = u @ slash # t'" using rooted by (simp add: squeeze_no_slash)
    have su: "s = u @ slash # t'"
    proof (cases "squeeze p" rule: TrimPrefix_cases)
      case 1
      then show ?thesis using s(1) sq by simp
    next
      case (2 w)
      then have "u = [dot]" using sq rooted(3) by (cases u; cases "tl u") auto
      then show ?thesis using rooted(4) by simp
    qed
    have "filter (\<lambda>v. v \<noteq> ''.'') (split_from [] t') = filter (\<lambda>v. v \<noteq> ''.'') (split_from [] t)"
      using squeeze_segments [of "[]" p] rooted(3,4)
      unfolding sq unfolding rooted(1) by (simp add: split_segment)
    from reduce_without_dots [OF this]
    have same: "foldl reduce_step [u @ [slash]] (split_from [] t') = foldl reduce_step [u @ [slash]] (split_from [] t)" .
    have "take (length u + 1) p = u @ [slash]" "drop (length u + 1) p = t" using rooted(1) by simp_all
    then show ?thesis
      using simple_route_kept [of s "u @ [slash]" t' t, OF s(2) bss _ _ same] su rooted(2)
      unfolding reference_path_eq Let_def simple_result_def by (simp split: if_split_asm)
  qed
qed

text \<open>C13: the in-place normalizer of \<open>getNormalizedAbsolutePathFromNormalizedSlashes\<close> (its shortcut
  for simple paths and its loop with the lazily copied prefix) computes the path that is put
  together from the components of \<open>getNormalizedPathComponentsFromCombined\<close>, for every path with
  normalized slashes that is not a dynamic URI name.\<close>

theorem normalizer_correct:
  assumes "backslash \<notin> set p" "\<not> HasPrefix p DynamicURIFileNamePrefix"
  shows "getNormalizedAbsolutePathFromNormalizedSlashes equalFold p
         = GetPathFromPathComponents (getNormalizedPathComponentsFromCombined equalFold p)"
proof (cases "simpleNormalizePath p")
  case None
  then have "p \<noteq> []" by (auto simp: simpleNormalizePath_def hasRelativePathSegment_def)
  then show ?thesis
    using None loop_result_reference [OF assms(1), of equalFold]
    by (simp add: getNormalizedAbsolutePathFromNormalizedSlashes_def Let_def loop_result_def
        reference_path_def)
next
  case (Some s)
  then have "simple_result (GetRootLength equalFold p) s = reference_path equalFold p"
    using simple_route_same [OF assms(1)] simple_route_trimmed [OF assms Some]
    by (cases "hasRelativePathSegment p") (auto simp: simpleNormalizePath_def)
  then show ?thesis
    using Some by (simp add: getNormalizedAbsolutePathFromNormalizedSlashes_def Let_def
        simple_result_def reference_path_def)
qed

lemma normalizer_correct_witness:
  "getNormalizedAbsolutePathFromNormalizedSlashes (=) ''/a/./b/../c''
   = GetPathFromPathComponents (getNormalizedPathComponentsFromCombined (=) ''/a/./b/../c'')"
  by (rule normalizer_correct) (simp_all add: HasPrefix_def DynamicURIFileNamePrefix_def)

section \<open>Reduced components and relative paths\<close>

lemma reduce_step_rooted:
  assumes "r \<noteq> []" "list_all plain_segment T"
  shows "\<exists>T'. reduce_step (r # T) v = r # T' \<and> list_all plain_segment T'"
proof (cases "v = ''..'' \<and> T \<noteq> []")
  case True
  then have "last T \<in> set T" by simp
  then have "last T \<noteq> ''..''" using assms(2) by (metis list_all_iff plain_segment_def)
  then have "reduce_step (r # T) v = r # butlast T" using True by (simp add: reduce_step_def)
  then show ?thesis using assms(2) by (auto simp: list_all_iff dest: in_set_butlastD)
next
  case False
  then show ?thesis using assms by (auto simp: reduce_step_def plain_segment_def)
qed

lemma reduce_rooted:
  assumes "r \<noteq> []"
  shows "list_all plain_segment T \<Longrightarrow>
    \<exists>T'. foldl reduce_step (r # T) ss = r # T' \<and> list_all plain_segment T'"
proof (induction ss arbitrary: T)
  case (Cons v ss)
  then show ?case using reduce_step_rooted [OF assms Cons.prems, of v] by auto
qed simp

lemma GetPathComponents_cases: "\<exists>r ss. GetPathComponents equalFold p = r # ss"
  by (simp add: GetPathComponents_def pathComponents_def Let_def)

lemma reduced_components:
  assumes "reducePathComponents (GetPathComponents equalFold p) = cs" "hd cs \<noteq> []"
  obtains T where "cs = hd cs # T" "list_all plain_segment T"
proof -
  obtain r ss where rs: "GetPathComponents equalFold p = r # ss" using GetPathComponents_cases by blast
  have "\<exists>T. reduce_step (r # S) v = r # T" for S v by (auto simp: reduce_step_def)
  then have "\<exists>T. foldl reduce_step (r # S) ss = r # T" for S
    by (induction ss arbitrary: S) (simp, metis foldl_Cons)
  then have "hd cs = r" using assms(1) rs by (metis list.sel(1) list.simps(5) reducePathComponents_def)
  then show ?thesis
    using reduce_rooted [of r "[]" ss] assms rs that by (auto simp: reducePathComponents_def)
qed

lemma pop_all:
  "r \<noteq> [] \<Longrightarrow> list_all plain_segment (T @ S) \<Longrightarrow>
   foldl reduce_step (r # T @ S) (replicate (length S) ''..'') = r # T"
proof (induction S rule: rev_induct)
  case (snoc x S)
  then have "reduce_step (r # T @ S @ [x]) ''..'' = r # T @ S"
    by (simp add: reduce_step_def plain_segment_def butlast_append)
  then show ?case using snoc by simp
qed simp

lemma common_after_root_split:
  "take (common_after_root (=) xs ys) xs = take (common_after_root (=) xs ys) ys"
  "common_after_root (=) xs ys \<le> length xs" "common_after_root (=) xs ys \<le> length ys"
  by (induction "(=) :: string \<Rightarrow> string \<Rightarrow> bool" xs ys rule: common_after_root.induct) auto

text \<open>C14: a relative path leads back: from the directory, its components lead to the components of
  the target, if the two paths have the same kind of root and components are compared with
  regard to case.\<close>

theorem relative_path_leads_to_target:
  assumes "fs = reducePathComponents (GetPathComponents equalFold from)"
    and "ts = reducePathComponents (GetPathComponents equalFold to)"
    and "hd fs \<noteq> []" "hd ts \<noteq> []" "equalFold (hd fs) (hd ts)"
  shows "foldl reduce_step fs (tl (GetPathComponentsRelativeTo equalFold from to True))
         = hd fs # tl ts"
proof -
  obtain F where F: "fs = hd fs # F" "list_all plain_segment F"
    using reduced_components [OF assms(1) [symmetric] assms(3)] by blast
  obtain T where T: "ts = hd ts # T" "list_all plain_segment T"
    using reduced_components [OF assms(2) [symmetric] assms(4)] by blast
  define n where "n = common_after_root (=) F T"
  have n: "take n F = take n T" "n \<le> length F" "n \<le> length T"
    using common_after_root_split [of F T] by (simp_all add: n_def)
  have eq: "getEqualityComparer equalFold True = (=)"
    by (intro ext) (simp add: getEqualityComparer_def GetStringEqualityComparer_def EquateStringCaseSensitive_def)
  have "common_components equalFold (hd fs # F) (hd ts # T) True = Suc n"
    using assms(5) by (simp add: common_components_def n_def eq)
  then have "common_components equalFold fs ts True = Suc n" using F(1) T(1) by simp
  moreover have "length fs - Suc n = length (drop n F)" "drop (Suc n) ts = drop n T"
    by (subst F(1), simp) (subst T(1), simp)
  ultimately have rel: "tl (GetPathComponentsRelativeTo equalFold from to True)
      = replicate (length (drop n F)) ''..'' @ drop n T"
    by (simp add: GetPathComponentsRelativeTo_def assms(1,2) [symmetric] getPathComponentsRelativeTo_def)
  have "list_all plain_segment (take n F @ drop n F)" using F(2) by simp
  from pop_all [OF assms(3) this]
  have "foldl reduce_step (hd fs # F) (replicate (length (drop n F)) ''..'') = hd fs # take n F" by simp
  moreover have "list_all plain_segment (drop n T)"
    using T(2) by (metis append_take_drop_id list_all_append)
  from reduce_plain [OF this, of "hd fs" "take n F"]
  have "foldl reduce_step (hd fs # take n F) (drop n T) = hd fs # T" by (simp add: n(1))
  ultimately have "foldl reduce_step (hd fs # F) (replicate (length (drop n F)) ''..'' @ drop n T) = hd fs # T"
    by simp
  then show ?thesis using rel F(1) T(1) by (metis list.sel(3))
qed

lemma relative_path_leads_to_target_witness:
  "foldl reduce_step (reducePathComponents (GetPathComponents (=) ''/a/b''))
     (tl (GetPathComponentsRelativeTo (=) ''/a/b'' ''/a/c/d'' True)) = ''/'' # [''a'', ''c'', ''d'']"
proof -
  have fs: "reducePathComponents (GetPathComponents (=) ''/a/b'') = [''/'', ''a'', ''b'']"
    and ts: "reducePathComponents (GetPathComponents (=) ''/a/c/d'') = [''/'', ''a'', ''c'', ''d'']"
    by code_simp+
  show ?thesis
    using relative_path_leads_to_target [OF refl refl, of "(=)" "''/a/b''" "''/a/c/d''"]
    unfolding fs ts by simp
qed

end
