(* ===== verification/GoInt.thy ===== *)
theory GoInt
  imports Prelude
begin

text \<open>
  Go's sized integers on HOL's \<open>int\<close>: a value of type \<open>int\<close> (64 bits on every supported
  target) or \<open>int32\<close> is an integer of the type's range, and an operation whose exact result
  leaves the range is followed by \<open>goInt\<close> or \<open>goInt32\<close>, the wrap-around to two's complement.
\<close>

definition goInt :: "int \<Rightarrow> int" where
  "goInt x = signed_take_bit 63 x"

definition goInt32 :: "int \<Rightarrow> int" where
  "goInt32 x = signed_take_bit 31 x"

lemma goInt_id [simp]: "- (2 ^ 63) \<le> x \<Longrightarrow> x < 2 ^ 63 \<Longrightarrow> goInt x = x"
  by (simp add: goInt_def signed_take_bit_int_eq_self)

lemma goInt_bounds: "- (2 ^ 63) \<le> goInt x" "goInt x < 2 ^ 63"
  using signed_take_bit_int_greater_eq_minus_exp [of 63 x] signed_take_bit_int_less_exp [of 63 x]
  by (simp_all only: goInt_def)

lemma goInt_mod: "goInt x mod 2 ^ 64 = x mod 2 ^ 64"
  unfolding goInt_def using take_bit_signed_take_bit [of 64 63 x] by (simp add: take_bit_eq_mod)

lemma goInt_idem [simp]: "goInt (goInt x) = goInt x"
  by (simp add: goInt_def)

lemma goInt32_id [simp]: "- (2 ^ 31) \<le> x \<Longrightarrow> x < 2 ^ 31 \<Longrightarrow> goInt32 x = x"
  by (simp add: goInt32_def signed_take_bit_int_eq_self)

text \<open>The bits of a number below a power of two and a multiple of that power do not meet.\<close>

lemma or_push_bit_add:
  fixes a b :: int
  assumes "0 \<le> a" "a < 2 ^ n"
  shows "or a (push_bit n b) = a + b * 2 ^ n"
proof -
  have "take_bit n a = a" using assms by (simp add: take_bit_int_eq_self)
  then have "and a (push_bit n b) = 0"
    by (intro bit_eqI) (auto simp: bit_and_iff bit_push_bit_iff, metis bit_take_bit_iff linorder_not_le)
  then show ?thesis
    using plus_and_or [of a "push_bit n b"] by (simp add: push_bit_eq_mult)
qed

end
