(* ===== verification/SourceMapVLQ.thy ===== *)
theory SourceMapVLQ
  imports GoInt GoStrings
begin

text \<open>
  The Base64 VLQ numbers of \<^verbatim>\<open>sourcemap/generator.go\<close> and \<^verbatim>\<open>sourcemap/decoder.go\<close>: the digits, the
  encoder \<open>appendBase64VLQ\<close>, the decoder \<open>base64VLQFormatDecode\<close>, and the round trip. Go's \<open>int\<close>
  has 64 bits; an operation that may leave its range is followed by \<open>goInt\<close>.
\<close>

section \<open>Digits\<close>

text \<open>\<open>None\<close> is the panic.\<close>

definition base64FormatEncode :: "int \<Rightarrow> char option" where
  "base64FormatEncode value =
     (if 0 \<le> value \<and> value < 26 then Some (byte_of (65 + value))
      else if 26 \<le> value \<and> value < 52 then Some (byte_of (97 + value - 26))
      else if 52 \<le> value \<and> value < 62 then Some (byte_of (48 + value - 52))
      else if value = 62 then Some CHR ''+''
      else if value = 63 then Some CHR ''/''
      else None)"

definition base64FormatDecode :: "char \<Rightarrow> int" where
  "base64FormatDecode ch =
     (let c = rune_of ch in
      if 65 \<le> c \<and> c \<le> 90 then c - 65
      else if 97 \<le> c \<and> c \<le> 122 then c - 97 + 26
      else if 48 \<le> c \<and> c \<le> 57 then c - 48 + 52
      else if ch = CHR ''+'' then 62
      else if ch = CHR ''/'' then 63
      else -1)"

definition digit :: "int \<Rightarrow> char" where
  "digit value = the (base64FormatEncode value)"

lemma base64_digit:
  assumes "0 \<le> d" "d < 64"
  shows "base64FormatEncode d = Some (digit d)" "base64FormatDecode (digit d) = d"
    "digit d \<noteq> CHR '';''" "digit d \<noteq> CHR '',''"
proof -
  consider "d < 26" | "26 \<le> d" "d < 52" | "52 \<le> d" "d < 62" | "d = 62" | "d = 63"
    using assms by linarith
  then show "base64FormatEncode d = Some (digit d)" "base64FormatDecode (digit d) = d"
    "digit d \<noteq> CHR '';''" "digit d \<noteq> CHR '',''"
    by (cases, use assms in \<open>auto simp: digit_def base64FormatEncode_def base64FormatDecode_def Let_def
      dest: arg_cong [of _ _ "of_char :: char \<Rightarrow> int"]\<close>)+
qed

section \<open>The encoder\<close>

text \<open>The digits of the value with its sign bit, least significant first.\<close>

function vlq_digits :: "int \<Rightarrow> string option" where
  "vlq_digits inValue =
     (let rest = drop_bit 5 inValue;
          currentDigit = (if 0 < rest then or (and inValue 31) 32 else and inValue 31)
      in case base64FormatEncode currentDigit of
           None \<Rightarrow> None
         | Some c \<Rightarrow>
             if rest \<le> 0 then Some [c] else map_option ((#) c) (vlq_digits rest))"
  by pat_completeness auto
termination
  by (relation "measure nat") (auto simp: drop_bit_eq_div)

declare vlq_digits.simps [simp del]

definition vlq_sign :: "int \<Rightarrow> int" where
  "vlq_sign inValue =
     (if inValue < 0 then goInt (goInt (push_bit 1 (goInt (- inValue))) + 1)
      else goInt (push_bit 1 inValue))"

text \<open>What \<open>appendBase64VLQ\<close> writes.\<close>

definition base64VLQ :: "int \<Rightarrow> string option" where
  "base64VLQ inValue = vlq_digits (vlq_sign inValue)"

section \<open>The decoder\<close>

text \<open>
  The loop of \<open>base64VLQFormatDecode\<close>: the value or the error, and \<open>d.pos\<close> when it returns. A
  shift by the width or more gives 0, as in Go.
\<close>

function vlq_loop :: "string \<Rightarrow> nat \<Rightarrow> nat \<Rightarrow> int \<Rightarrow> (string + int) \<times> nat" where
  "vlq_loop mappings pos shiftCount value =
     (if length mappings \<le> pos then
        (Inl ''Error in decoding base64VLQFormatDecode, past the mapping string'', pos)
      else
        let currentByte = base64FormatDecode (mappings ! pos) in
        if currentByte = -1 then (Inl ''Invalid character in VLQ'', pos)
        else
          let moreDigits = (and currentByte 32 \<noteq> 0);
              value' = or value (goInt (push_bit shiftCount (and currentByte 31)))
          in if moreDigits then vlq_loop mappings (pos + 1) (shiftCount + 5) value'
             else (Inr value', pos + 1))"
  by pat_completeness auto
termination
  by (relation "measure (\<lambda>(mappings, pos, _, _). length mappings - pos)") auto

declare vlq_loop.simps [simp del]

definition vlq_value :: "int \<Rightarrow> int" where
  "vlq_value value =
     (if and value 1 = 0 then drop_bit 1 value else goInt (- drop_bit 1 value))"

definition base64VLQFormatDecode :: "string \<Rightarrow> nat \<Rightarrow> (string + int) \<times> nat" where
  "base64VLQFormatDecode mappings pos =
     (case vlq_loop mappings pos 0 0 of
        (Inl e, p) \<Rightarrow> (Inl e, p)
      | (Inr value, p) \<Rightarrow> (Inr (vlq_value value), p))"

text \<open>The decoder consumes at least one character, and stays inside the text.\<close>

lemma vlq_loop_pos:
  "vlq_loop ms pos k v = (r, p) \<Longrightarrow> pos \<le> p \<and> (pos \<le> length ms \<longrightarrow> p \<le> length ms)
     \<and> (\<forall>x. r = Inr x \<longrightarrow> pos < p)"
proof (induction ms pos k v rule: vlq_loop.induct)
  case (1 ms pos k v)
  from 1(2) show ?case
    by (subst (asm) vlq_loop.simps)
       (auto simp: Let_def split: if_splits dest!: 1(1) [rotated 2] simp del: One_nat_def)
qed

section \<open>Round trip\<close>

lemma or_32: "0 \<le> d \<Longrightarrow> d < 32 \<Longrightarrow> or d 32 = d + (32 :: int)"
  using or_push_bit_add [of d 5 1] by (simp add: push_bit_eq_mult)

lemma and_31: "and n 31 = n mod (32 :: int)"
  using take_bit_eq_mod [of 5 n] take_bit_eq_mask [of 5 n] by (simp add: mask_eq_exp_minus_1)

lemma and_32_low: "0 \<le> d \<Longrightarrow> d < 32 \<Longrightarrow> and d 32 = (0 :: int)"
proof -
  assume d: "0 \<le> d" "d < 32"
  have "and d 32 + or d 32 = d + 32" by (rule plus_and_or)
  then show ?thesis using or_32 [OF d] by simp
qed

lemma and_32_high: "0 \<le> d \<Longrightarrow> d < 32 \<Longrightarrow> and (d + 32) 32 = (32 :: int)"
  using or_32 [of d] by (metis and.commute bit.conj_disj_distrib and_32_low and.idem or.left_neutral)

lemma and_31_high: "0 \<le> d \<Longrightarrow> d < 32 \<Longrightarrow> and (d + 32) 31 = (d :: int)"
  by (simp add: and_31)

definition vlq_text :: "string \<Rightarrow> bool" where
  "vlq_text ds \<longleftrightarrow> ds \<noteq> [] \<and> CHR '';'' \<notin> set ds \<and> CHR '','' \<notin> set ds"

lemma vlq_loop_digits:
  "0 \<le> w \<Longrightarrow> \<exists>ds. vlq_digits w = Some ds \<and> vlq_text ds \<and>
     (\<forall>pre post k v. 0 \<le> v \<and> v < 2 ^ k \<and> w * 2 ^ k < 2 ^ 63 \<longrightarrow>
        vlq_loop (pre @ ds @ post) (length pre) k v = (Inr (v + w * 2 ^ k), length pre + length ds))"
proof (induction "nat w" arbitrary: w rule: less_induct)
  case less
  define low rest cur where "low = w mod 32" and "rest = w div 32"
    and "cur = (if 0 < rest then low + 32 else low)"
  have low: "0 \<le> low" "low < 32" by (simp_all add: low_def)
  have w: "w = rest * 32 + low" by (simp add: low_def rest_def)
  have rest0: "0 \<le> rest" using less(2) by (simp add: rest_def pos_imp_zdiv_nonneg_iff)
  have cur: "0 \<le> cur" "cur < 64" using low by (simp_all add: cur_def)
  note d = base64_digit [OF cur]
  have unf: "vlq_digits w = (if rest \<le> 0 then Some [digit cur] else map_option ((#) (digit cur)) (vlq_digits rest))"
    using d(1) or_32 [OF low]
    by (subst vlq_digits.simps)
       (cases "0 < rest", simp_all add: Let_def drop_bit_eq_div rest_def [symmetric] and_31
         low_def [symmetric] cur_def)
  have step: "vlq_loop (pre @ digit cur # post) (length pre) k v =
      (if 0 < rest then vlq_loop (pre @ digit cur # post) (length pre + 1) (k + 5) (v + low * 2 ^ k)
       else (Inr (v + low * 2 ^ k), length pre + 1))"
    if v: "0 \<le> v" "v < 2 ^ k" "w * 2 ^ k < 2 ^ 63" for pre post k v
  proof -
    have "low * 2 ^ k \<le> w * 2 ^ k" using w rest0 by (intro mult_right_mono) auto
    moreover have "0 \<le> low * 2 ^ k" using low by simp
    ultimately have "- (2 ^ 63) \<le> low * 2 ^ k" "low * 2 ^ k < 2 ^ 63" using v(3) by linarith+
    then have "goInt (push_bit k low) = push_bit k low"
      unfolding push_bit_eq_mult by (rule goInt_id)
    then have "or v (goInt (push_bit k low)) = v + low * 2 ^ k" using or_push_bit_add [OF v(1,2)] by simp
    moreover have "and cur 31 = low" using low by (simp add: cur_def and_31_high and_31)
    moreover have "and cur 32 \<noteq> 0 \<longleftrightarrow> 0 < rest" using low by (simp add: cur_def and_32_low and_32_high)
    moreover have "cur \<noteq> -1" using cur by simp
    ultimately show ?thesis by (subst vlq_loop.simps) (simp add: Let_def d(2) del: One_nat_def)
  qed
  show ?case
  proof (cases "rest \<le> 0")
    case True
    then have "w = low" using w rest0 by simp
    then show ?thesis
      using True unf step d(3,4) by (intro exI [of _ "[digit cur]"]) (auto simp: vlq_text_def)
  next
    case False
    have "nat rest < nat w" using False w low by simp
    from less(1) [OF this rest0]
    obtain ds where ds: "vlq_digits rest = Some ds" "vlq_text ds"
      and loop: "\<And>pre post k v. 0 \<le> v \<and> v < 2 ^ k \<and> rest * 2 ^ k < 2 ^ 63 \<Longrightarrow>
        vlq_loop (pre @ ds @ post) (length pre) k v = (Inr (v + rest * 2 ^ k), length pre + length ds)"
      by blast
    have "vlq_loop (pre @ (digit cur # ds) @ post) (length pre) k v
        = (Inr (v + w * 2 ^ k), length pre + length (digit cur # ds))"
      if v: "0 \<le> v" "v < 2 ^ k" "w * 2 ^ k < 2 ^ 63" for pre post k v
    proof -
      have pow: "(2 :: int) ^ (k + 5) = 32 * 2 ^ k" by (simp add: power_add)
      have "low * 2 ^ k \<le> 31 * 2 ^ k" using low by (intro mult_right_mono) auto
      then have "v + low * 2 ^ k < 2 ^ (k + 5)" using v(2) unfolding pow by linarith
      moreover have "rest * 2 ^ (k + 5) \<le> w * 2 ^ k"
        using low unfolding pow w by (simp add: algebra_simps)
      moreover have "0 \<le> v + low * 2 ^ k" using v(1) low by simp
      ultimately have "vlq_loop ((pre @ [digit cur]) @ ds @ post) (length (pre @ [digit cur])) (k + 5)
          (v + low * 2 ^ k)
          = (Inr (v + low * 2 ^ k + rest * 2 ^ (k + 5)), length (pre @ [digit cur]) + length ds)"
        using v(3) by (intro loop) linarith
      moreover have "v + low * 2 ^ k + rest * 2 ^ (k + 5) = v + w * 2 ^ k"
        unfolding pow w by (simp add: algebra_simps)
      ultimately show ?thesis using step [OF v, of pre "ds @ post"] False by simp
    qed
    then show ?thesis
      using unf ds False d(3,4) by (intro exI [of _ "digit cur # ds"]) (simp add: vlq_text_def)
  qed
qed

lemma vlq_sign_nonneg:
  assumes "- (2 ^ 62) < n" "n < 2 ^ 62"
  shows "vlq_sign n = (if n < 0 then 2 * (- n) + 1 else 2 * n)"
  using assms by (auto simp: vlq_sign_def push_bit_eq_mult)

lemma vlq_value_sign:
  assumes "- (2 ^ 62) < n" "n < 2 ^ 62"
  shows "vlq_value (vlq_sign n) = n"
proof -
  have "and m 1 = m mod 2" for m :: int by (simp add: and_one_eq)
  then show ?thesis
    using assms unfolding vlq_sign_nonneg [OF assms] vlq_value_def
    by (auto simp: drop_bit_eq_div)
qed

text \<open>Every number of less than 62 bits is written without a panic and read back, wherever it stands.\<close>

lemma vlq_decode_encode:
  assumes "- (2 ^ 62) < n" "n < 2 ^ 62"
  obtains ds where "base64VLQ n = Some ds" "vlq_text ds"
    "\<And>pre post. base64VLQFormatDecode (pre @ ds @ post) (length pre) = (Inr n, length pre + length ds)"
proof -
  have w: "0 \<le> vlq_sign n" "vlq_sign n < 2 ^ 63" using assms by (auto simp: vlq_sign_nonneg [OF assms])
  obtain ds where "vlq_digits (vlq_sign n) = Some ds" "vlq_text ds"
    and loop: "\<And>pre post k v. 0 \<le> v \<and> v < 2 ^ k \<and> vlq_sign n * 2 ^ k < 2 ^ 63 \<Longrightarrow>
        vlq_loop (pre @ ds @ post) (length pre) k v
        = (Inr (v + vlq_sign n * 2 ^ k), length pre + length ds)"
    using vlq_loop_digits [OF w(1)] by blast
  moreover have "base64VLQFormatDecode (pre @ ds @ post) (length pre) = (Inr n, length pre + length ds)"
    for pre post
    using loop [of 0 0 pre post] w vlq_value_sign [OF assms] by (simp add: base64VLQFormatDecode_def)
  ultimately show ?thesis using that by (simp add: base64VLQ_def)
qed

text \<open>C16: Base64 VLQ round trip: for every number of less than 62 bits \<open>appendBase64VLQ\<close> does not
  panic, and \<open>base64VLQFormatDecode\<close> at the place where its digits stand in a text returns the
  number and the position behind them.\<close>

theorem vlq_roundtrip:
  assumes "- (2 ^ 62) < n" "n < 2 ^ 62"
  shows "\<exists>ds. base64VLQ n = Some ds \<and> ds \<noteq> [] \<and>
    base64VLQFormatDecode (pre @ ds @ post) (length pre) = (Inr n, length (pre @ ds))"
proof -
  obtain ds where "base64VLQ n = Some ds" "vlq_text ds"
    "base64VLQFormatDecode (pre @ ds @ post) (length pre) = (Inr n, length pre + length ds)"
    using vlq_decode_encode [OF assms] by metis
  then show ?thesis by (auto simp: vlq_text_def)
qed

lemma vlq_roundtrip_witness:
  "\<exists>ds. base64VLQ (- 1234) = Some ds \<and> ds \<noteq> [] \<and>
    base64VLQFormatDecode (''AA'' @ ds @ '';'') (length ''AA'') = (Inr (- 1234), length (''AA'' @ ds))"
  by (rule vlq_roundtrip) simp_all

end
