(* ===== verification/SourceMap.thy ===== *)
theory SourceMap
  imports SourceMapVLQ TsPath "HOL-Library.Monad_Syntax"
begin

text \<open>
  Package \<^verbatim>\<open>sourcemap\<close>: the mappings decoder of \<^verbatim>\<open>decoder.go\<close> and the source map generator of
  \<^verbatim>\<open>generator.go\<close>. Both keep a running state of the last position written or read and encode
  the differences. A panic of the generator is \<open>None\<close>; an error result is a value.
\<close>

section \<open>Mappings\<close>

record Mapping =
  GeneratedLine :: int
  GeneratedCharacter :: int
  SourceIndex :: int
  SourceLine :: int
  SourceCharacter :: int
  NameIndex :: int

definition IsSourceMapping :: "Mapping \<Rightarrow> bool" where
  "IsSourceMapping m \<longleftrightarrow> SourceIndex m \<noteq> -1 \<and> SourceLine m \<noteq> -1 \<and> SourceCharacter m \<noteq> -1"

definition Mapping_Equals :: "Mapping \<Rightarrow> Mapping \<Rightarrow> bool" where
  "Mapping_Equals m other \<longleftrightarrow>
     GeneratedLine m = GeneratedLine other \<and> GeneratedCharacter m = GeneratedCharacter other
     \<and> SourceIndex m = SourceIndex other \<and> SourceLine m = SourceLine other
     \<and> SourceCharacter m = SourceCharacter other \<and> NameIndex m = NameIndex other"

section \<open>The decoder\<close>

record MappingsDecoder =
  d_mappings :: string
  d_done :: bool
  d_pos :: nat
  d_generatedLine :: int
  d_generatedCharacter :: int
  d_sourceIndex :: int
  d_sourceLine :: int
  d_sourceCharacter :: int
  d_nameIndex :: int
  d_error :: "string option"

definition DecodeMappings :: "string \<Rightarrow> MappingsDecoder" where
  "DecodeMappings mappings =
     \<lparr>d_mappings = mappings, d_done = False, d_pos = 0, d_generatedLine = 0,
      d_generatedCharacter = 0, d_sourceIndex = 0, d_sourceLine = 0, d_sourceCharacter = 0,
      d_nameIndex = 0, d_error = None\<rparr>"

text \<open>\<open>d.base64VLQFormatDecode()\<close> with its effects on \<open>d\<close>.\<close>

definition decodeVLQ :: "MappingsDecoder \<Rightarrow> int \<times> MappingsDecoder" where
  "decodeVLQ d =
     (case base64VLQFormatDecode (d_mappings d) (d_pos d) of
        (Inl e, p) \<Rightarrow> (-1, d\<lparr>d_pos := p, d_error := Some e\<rparr>)
      | (Inr v, p) \<Rightarrow> (v, d\<lparr>d_pos := p\<rparr>))"

definition captureMapping :: "bool \<Rightarrow> bool \<Rightarrow> MappingsDecoder \<Rightarrow> Mapping" where
  "captureMapping hasSource hasName d =
     \<lparr>GeneratedLine = d_generatedLine d, GeneratedCharacter = d_generatedCharacter d,
      SourceIndex = (if hasSource then d_sourceIndex d else -1),
      SourceLine = (if hasSource then d_sourceLine d else -1),
      SourceCharacter = (if hasSource then d_sourceCharacter d else -1),
      NameIndex = (if hasName then d_nameIndex d else -1)\<rparr>"

text \<open>\<open>State\<close>; a nil mapping, returned when the iteration is done, is \<open>None\<close>.\<close>

definition State :: "MappingsDecoder \<Rightarrow> Mapping" where
  "State d = captureMapping True True d"

definition stopIterating :: "MappingsDecoder \<Rightarrow> Mapping option \<times> MappingsDecoder" where
  "stopIterating d = (None, d\<lparr>d_done := True\<rparr>)"

definition setErrorAndStopIterating :: "string \<Rightarrow> MappingsDecoder \<Rightarrow> Mapping option \<times> MappingsDecoder" where
  "setErrorAndStopIterating e d = stopIterating (d\<lparr>d_error := Some e\<rparr>)"

definition isSourceMappingSegmentEnd :: "MappingsDecoder \<Rightarrow> bool" where
  "isSourceMappingSegmentEnd d \<longleftrightarrow>
     d_pos d = length (d_mappings d)
     \<or> d_mappings d ! d_pos d = CHR '','' \<or> d_mappings d ! d_pos d = CHR '';''"

text \<open>The end of a segment: the optional name.\<close>

definition decode_name :: "MappingsDecoder \<Rightarrow> Mapping option \<times> MappingsDecoder" where
  "decode_name d =
     (if \<not> isSourceMappingSegmentEnd d then
        (let (v, d1) = decodeVLQ d;
             d2 = d1\<lparr>d_nameIndex := goInt (d_nameIndex d1 + v)\<rparr>
         in if d_error d2 \<noteq> None then stopIterating d2
            else if d_nameIndex d2 < 0 then setErrorAndStopIterating ''Invalid nameIndex found'' d2
            else if \<not> isSourceMappingSegmentEnd d2
            then setErrorAndStopIterating ''Unsupported Error Format: Entries after nameIndex'' d2
            else (Some (captureMapping True True d2), d2))
      else (Some (captureMapping True False d), d))"

definition decode_sourceCharacter :: "MappingsDecoder \<Rightarrow> Mapping option \<times> MappingsDecoder" where
  "decode_sourceCharacter d =
     (let (v, d1) = decodeVLQ d;
          d2 = d1\<lparr>d_sourceCharacter := goInt (d_sourceCharacter d1 + v)\<rparr>
      in if d_error d2 \<noteq> None then stopIterating d2
         else if d_sourceCharacter d2 < 0
         then setErrorAndStopIterating ''Invalid sourceCharacter found'' d2
         else decode_name d2)"

definition decode_sourceLine :: "MappingsDecoder \<Rightarrow> Mapping option \<times> MappingsDecoder" where
  "decode_sourceLine d =
     (let (v, d1) = decodeVLQ d;
          d2 = d1\<lparr>d_sourceLine := goInt (d_sourceLine d1 + v)\<rparr>
      in if d_error d2 \<noteq> None then stopIterating d2
         else if d_sourceLine d2 < 0 then setErrorAndStopIterating ''Invalid sourceLine found'' d2
         else if isSourceMappingSegmentEnd d2
         then setErrorAndStopIterating ''Unsupported Format: No entries after sourceLine'' d2
         else decode_sourceCharacter d2)"

definition decode_source :: "MappingsDecoder \<Rightarrow> Mapping option \<times> MappingsDecoder" where
  "decode_source d =
     (let (v, d1) = decodeVLQ d;
          d2 = d1\<lparr>d_sourceIndex := goInt (d_sourceIndex d1 + v)\<rparr>
      in if d_error d2 \<noteq> None then stopIterating d2
         else if d_sourceIndex d2 < 0 then setErrorAndStopIterating ''Invalid sourceIndex found'' d2
         else if isSourceMappingSegmentEnd d2
         then setErrorAndStopIterating ''Unsupported Format: No entries after sourceIndex'' d2
         else decode_sourceLine d2)"

definition decode_segment :: "MappingsDecoder \<Rightarrow> Mapping option \<times> MappingsDecoder" where
  "decode_segment d =
     (let (v, d1) = decodeVLQ d;
          d2 = d1\<lparr>d_generatedCharacter := goInt (d_generatedCharacter d1 + v)\<rparr>
      in if d_error d2 \<noteq> None then stopIterating d2
         else if d_generatedCharacter d2 < 0
         then setErrorAndStopIterating ''Invalid generatedCharacter found'' d2
         else if \<not> isSourceMappingSegmentEnd d2 then decode_source d2
         else (Some (captureMapping False False d2), d2))"

function Next :: "MappingsDecoder \<Rightarrow> Mapping option \<times> MappingsDecoder" where
  "Next d =
     (if \<not> d_done d \<and> d_pos d < length (d_mappings d) then
        (let ch = d_mappings d ! d_pos d in
         if ch = CHR '';'' then
           Next (d\<lparr>d_generatedLine := goInt (d_generatedLine d + 1), d_generatedCharacter := 0,
                   d_pos := d_pos d + 1\<rparr>)
         else if ch = CHR '','' then Next (d\<lparr>d_pos := d_pos d + 1\<rparr>)
         else decode_segment d)
      else stopIterating d)"
  by pat_completeness auto
termination
  by (relation "measure (\<lambda>d. length (d_mappings d) - d_pos d)") auto

declare Next.simps [simp del]

text \<open>A mapping is returned only after at least one character has been read.\<close>

lemma decodeVLQ_pos:
  assumes "decodeVLQ d = (v, d1)"
  shows "d_mappings d1 = d_mappings d" "d_pos d \<le> d_pos d1"
    "d_error d1 = None \<Longrightarrow> d_error d = None \<and> d_pos d < d_pos d1"
    "d_pos d \<le> length (d_mappings d) \<Longrightarrow> d_pos d1 \<le> length (d_mappings d)"
  using assms vlq_loop_pos [of "d_mappings d" "d_pos d" 0 0]
  by (auto simp: decodeVLQ_def base64VLQFormatDecode_def split: prod.splits sum.splits)

definition advanced :: "MappingsDecoder \<Rightarrow> MappingsDecoder \<Rightarrow> bool" where
  "advanced d e \<longleftrightarrow> d_mappings e = d_mappings d \<and> d_pos d < d_pos e"

lemmas stop_defs = stopIterating_def setErrorAndStopIterating_def

lemma decode_name_advanced:
  assumes "decode_name d = (Some m, e)"
  shows "d_mappings e = d_mappings d \<and> d_pos d \<le> d_pos e"
proof -
  obtain v d1 where v: "decodeVLQ d = (v, d1)" by fastforce
  note pos = decodeVLQ_pos [OF v]
  show ?thesis
    using assms pos(1,2)
    by (auto simp: decode_name_def v Let_def stop_defs split: if_split_asm)
qed

lemma decode_sourceCharacter_advanced:
  assumes "decode_sourceCharacter d = (Some m, e)"
  shows "d_mappings e = d_mappings d \<and> d_pos d \<le> d_pos e"
proof -
  obtain v d1 where v: "decodeVLQ d = (v, d1)" by fastforce
  note pos = decodeVLQ_pos [OF v]
  show ?thesis
    using assms pos(1,2)
    by (auto dest!: decode_name_advanced simp: decode_sourceCharacter_def v Let_def stop_defs split: if_split_asm)
qed

lemma decode_sourceLine_advanced:
  assumes "decode_sourceLine d = (Some m, e)"
  shows "d_mappings e = d_mappings d \<and> d_pos d \<le> d_pos e"
proof -
  obtain v d1 where v: "decodeVLQ d = (v, d1)" by fastforce
  note pos = decodeVLQ_pos [OF v]
  show ?thesis
    using assms pos(1,2)
    by (auto dest!: decode_sourceCharacter_advanced simp: decode_sourceLine_def v Let_def stop_defs split: if_split_asm)
qed

lemma decode_source_advanced:
  assumes "decode_source d = (Some m, e)"
  shows "d_mappings e = d_mappings d \<and> d_pos d \<le> d_pos e"
proof -
  obtain v d1 where v: "decodeVLQ d = (v, d1)" by fastforce
  note pos = decodeVLQ_pos [OF v]
  show ?thesis
    using assms pos(1,2)
    by (auto dest!: decode_sourceLine_advanced simp: decode_source_def v Let_def stop_defs split: if_split_asm)
qed

lemma decode_segment_advanced:
  assumes "decode_segment d = (Some m, e)"
  shows "advanced d e"
proof -
  obtain v d1 where v: "decodeVLQ d = (v, d1)" by fastforce
  note pos = decodeVLQ_pos [OF v]
  show ?thesis
    using assms pos(1,3)
    by (auto dest!: decode_source_advanced simp: decode_segment_def v Let_def stop_defs advanced_def split: if_split_asm)
qed

lemma Next_advanced: "Next d = (Some m, e) \<Longrightarrow> advanced d e \<and> d_pos d < length (d_mappings d)"
proof (induction d rule: Next.induct)
  case (1 d)
  show ?case
  proof (cases "\<not> d_done d \<and> d_pos d < length (d_mappings d)")
    case True
    let ?c = "d_mappings d ! d_pos d"
    consider "?c = CHR '';''" | "?c = CHR '',''" | "?c \<noteq> CHR '';''" "?c \<noteq> CHR '',''" by blast
    then show ?thesis
    proof cases
      case 1
      then show ?thesis
        using "1.IH"(1) [OF True refl] "1.prems" True by (subst (asm) Next.simps) (auto simp: advanced_def)
    next
      case 2
      then show ?thesis
        using "1.IH"(2) [OF True refl] "1.prems" True by (subst (asm) Next.simps) (auto simp: advanced_def)
    next
      case 3
      then show ?thesis using "1.prems" True decode_segment_advanced by (subst (asm) Next.simps) auto
    qed
  next
    case False
    then show ?thesis using "1.prems" by (subst (asm) Next.simps) (auto simp: stopIterating_def)
  qed
qed

text \<open>What a consumer of \<open>Values\<close> that never breaks sees, and the decoder it leaves.\<close>

function Values :: "MappingsDecoder \<Rightarrow> Mapping list \<times> MappingsDecoder" where
  "Values d =
     (case Next d of
        (None, e) \<Rightarrow> ([], e)
      | (Some m, e) \<Rightarrow> (let (ms, e') = Values e in (m # ms, e')))"
  by pat_completeness auto
termination
  by (relation "measure (\<lambda>d. length (d_mappings d) - d_pos d)")
     (auto dest!: sym [of _ "Next _"] Next_advanced simp: advanced_def)

declare Values.simps [simp del]

end
