(* ===== verification/SourceMapGen.thy ===== *)
theory SourceMapGen
  imports SourceMap
begin

text \<open>
  The generator of \<^verbatim>\<open>sourcemap/generator.go\<close>: its state, the operations that add sources, names
  and mappings, and \<open>RawSourceMap\<close>. An operation that can fail returns the error, or \<open>None\<close> for
  the nil error, with the generator; the panics of \<open>commitPendingMapping\<close> are \<open>None\<close> of the outer
  option.
\<close>

record Generator =
  g_caseSensitive :: bool
  g_file :: string
  g_sourceRoot :: string
  g_sourcesDirectoryPath :: string
  g_rawSources :: "string list"
  g_sources :: "string list"
  g_sourceToSourceIndexMap :: "string \<rightharpoonup> int"
  g_sourcesContent :: "string option list"
  g_names :: "string list"
  g_nameToNameIndexMap :: "string \<rightharpoonup> int"
  g_mappings :: string
  lastGeneratedLine :: int
  lastGeneratedCharacter :: int
  lastSourceIndex :: int
  lastSourceLine :: int
  lastSourceCharacter :: int
  lastNameIndex :: int
  hasLast :: bool
  pendingGeneratedLine :: int
  pendingGeneratedCharacter :: int
  pendingSourceIndex :: int
  pendingSourceLine :: int
  pendingSourceCharacter :: int
  pendingNameIndex :: int
  hasPending :: bool
  hasPendingSource :: bool
  hasPendingName :: bool

definition NewGenerator :: "string \<Rightarrow> string \<Rightarrow> string \<Rightarrow> bool \<Rightarrow> Generator" where
  "NewGenerator file sourceRoot sourcesDirectoryPath caseSensitive =
     \<lparr>g_caseSensitive = caseSensitive, g_file = file, g_sourceRoot = sourceRoot,
      g_sourcesDirectoryPath = sourcesDirectoryPath, g_rawSources = [], g_sources = [],
      g_sourceToSourceIndexMap = Map.empty, g_sourcesContent = [], g_names = [],
      g_nameToNameIndexMap = Map.empty, g_mappings = [],
      lastGeneratedLine = 0, lastGeneratedCharacter = 0, lastSourceIndex = 0, lastSourceLine = 0,
      lastSourceCharacter = 0, lastNameIndex = 0, hasLast = False,
      pendingGeneratedLine = 0, pendingGeneratedCharacter = 0, pendingSourceIndex = 0,
      pendingSourceLine = 0, pendingSourceCharacter = 0, pendingNameIndex = 0,
      hasPending = False, hasPendingSource = False, hasPendingName = False\<rparr>"

section \<open>Sources and names\<close>

definition AddSource ::
    "(string \<Rightarrow> string \<Rightarrow> bool) \<Rightarrow> Generator \<Rightarrow> string \<Rightarrow> int \<times> Generator" where
  "AddSource equalFold gen fileName =
     (let source = GetRelativePathToDirectoryOrUrl equalFold (g_sourcesDirectoryPath gen) fileName
                     True (g_caseSensitive gen)
      in case g_sourceToSourceIndexMap gen source of
           Some sourceIndex \<Rightarrow> (sourceIndex, gen)
         | None \<Rightarrow>
             (let sourceIndex = int (length (g_sources gen))
              in (sourceIndex,
                  gen\<lparr>g_sources := g_sources gen @ [source],
                      g_rawSources := g_rawSources gen @ [fileName],
                      g_sourceToSourceIndexMap := (g_sourceToSourceIndexMap gen)(source \<mapsto> sourceIndex)\<rparr>)))"

text \<open>The loop appends nil contents up to the index.\<close>

definition SetSourceContent :: "Generator \<Rightarrow> int \<Rightarrow> string \<Rightarrow> string option \<times> Generator" where
  "SetSourceContent gen sourceIndex content =
     (if sourceIndex < 0 \<or> int (length (g_sources gen)) \<le> sourceIndex
      then (Some ''sourceIndex is out of range'', gen)
      else
        let n = nat sourceIndex;
            contents = g_sourcesContent gen @ replicate (n + 1 - length (g_sourcesContent gen)) None
        in (None, gen\<lparr>g_sourcesContent := contents[n := Some content]\<rparr>))"

definition AddName :: "Generator \<Rightarrow> string \<Rightarrow> int \<times> Generator" where
  "AddName gen name =
     (case g_nameToNameIndexMap gen name of
        Some nameIndex \<Rightarrow> (nameIndex, gen)
      | None \<Rightarrow>
          (let nameIndex = int (length (g_names gen))
           in (nameIndex,
               gen\<lparr>g_names := g_names gen @ [name],
                   g_nameToNameIndexMap := (g_nameToNameIndexMap gen)(name \<mapsto> nameIndex)\<rparr>)))"

section \<open>Mappings\<close>

definition isNewGeneratedPosition :: "Generator \<Rightarrow> int \<Rightarrow> int \<Rightarrow> bool" where
  "isNewGeneratedPosition gen generatedLine generatedCharacter \<longleftrightarrow>
     \<not> hasPending gen \<or> pendingGeneratedLine gen \<noteq> generatedLine
     \<or> pendingGeneratedCharacter gen \<noteq> generatedCharacter"

definition isBacktrackingSourcePosition :: "Generator \<Rightarrow> int \<Rightarrow> int \<Rightarrow> int \<Rightarrow> bool" where
  "isBacktrackingSourcePosition gen sourceIndex sourceLine sourceCharacter \<longleftrightarrow>
     sourceIndex \<noteq> -1 \<and> sourceLine \<noteq> -1 \<and> sourceCharacter \<noteq> -1
     \<and> pendingSourceIndex gen = sourceIndex
     \<and> (pendingSourceLine gen > sourceLine
        \<or> pendingSourceLine gen = sourceLine \<and> pendingSourceCharacter gen > sourceCharacter)"

definition shouldCommitMapping :: "Generator \<Rightarrow> bool" where
  "shouldCommitMapping gen \<longleftrightarrow>
     hasPending gen
     \<and> (\<not> hasLast gen
        \<or> lastGeneratedLine gen \<noteq> pendingGeneratedLine gen
        \<or> lastGeneratedCharacter gen \<noteq> pendingGeneratedCharacter gen
        \<or> lastSourceIndex gen \<noteq> pendingSourceIndex gen
        \<or> lastSourceLine gen \<noteq> pendingSourceLine gen
        \<or> lastSourceCharacter gen \<noteq> pendingSourceCharacter gen
        \<or> lastNameIndex gen \<noteq> pendingNameIndex gen)"

definition appendMappingCharCode :: "Generator \<Rightarrow> char \<Rightarrow> Generator" where
  "appendMappingCharCode gen c = gen\<lparr>g_mappings := g_mappings gen @ [c]\<rparr>"

definition appendBase64VLQ :: "Generator \<Rightarrow> int \<Rightarrow> Generator option" where
  "appendBase64VLQ gen inValue =
     map_option (\<lambda>ds. gen\<lparr>g_mappings := g_mappings gen @ ds\<rparr>) (base64VLQ inValue)"

text \<open>The loop that emits the line delimiters.\<close>

function emit_lines :: "Generator \<Rightarrow> Generator" where
  "emit_lines gen =
     (let gen1 = appendMappingCharCode gen CHR '';'';
          gen2 = gen1\<lparr>lastGeneratedLine := lastGeneratedLine gen1 + 1\<rparr>
      in if lastGeneratedLine gen2 \<ge> pendingGeneratedLine gen2 then gen2 else emit_lines gen2)"
  by pat_completeness auto
termination
  by (relation "measure (\<lambda>gen. nat (pendingGeneratedLine gen - lastGeneratedLine gen))")
     (auto simp: appendMappingCharCode_def)

declare emit_lines.simps [simp del]

definition commit_delimiters :: "Generator \<Rightarrow> Generator option" where
  "commit_delimiters gen =
     (if lastGeneratedLine gen < pendingGeneratedLine gen
      then Some ((emit_lines gen)\<lparr>lastGeneratedCharacter := 0\<rparr>)
      else if lastGeneratedLine gen \<noteq> pendingGeneratedLine gen then None
      else if hasLast gen then Some (appendMappingCharCode gen CHR '','')
      else Some gen)"

definition commit_generated :: "Generator \<Rightarrow> Generator option" where
  "commit_generated gen =
     do { gen1 \<leftarrow> appendBase64VLQ gen (goInt (pendingGeneratedCharacter gen - lastGeneratedCharacter gen));
          Some (gen1\<lparr>lastGeneratedCharacter := pendingGeneratedCharacter gen1\<rparr>) }"

definition commit_source :: "Generator \<Rightarrow> Generator option" where
  "commit_source gen =
     do { gen1 \<leftarrow> appendBase64VLQ gen (goInt (pendingSourceIndex gen - lastSourceIndex gen));
          let gen2 = gen1\<lparr>lastSourceIndex := pendingSourceIndex gen1\<rparr>;
          gen3 \<leftarrow> appendBase64VLQ gen2 (goInt (pendingSourceLine gen2 - lastSourceLine gen2));
          let gen4 = gen3\<lparr>lastSourceLine := pendingSourceLine gen3\<rparr>;
          gen5 \<leftarrow> appendBase64VLQ gen4 (goInt (pendingSourceCharacter gen4 - lastSourceCharacter gen4));
          Some (gen5\<lparr>lastSourceCharacter := pendingSourceCharacter gen5\<rparr>) }"

definition commit_name :: "Generator \<Rightarrow> Generator option" where
  "commit_name gen =
     do { gen1 \<leftarrow> appendBase64VLQ gen (goInt (pendingNameIndex gen - lastNameIndex gen));
          Some (gen1\<lparr>lastNameIndex := pendingNameIndex gen1\<rparr>) }"

definition commitPendingMapping :: "Generator \<Rightarrow> Generator option" where
  "commitPendingMapping gen =
     (if \<not> shouldCommitMapping gen then Some gen
      else
        do { gen1 \<leftarrow> commit_delimiters gen;
             gen2 \<leftarrow> commit_generated gen1;
             gen3 \<leftarrow> (if hasPendingSource gen2
                      then do { g \<leftarrow> commit_source gen2;
                                if hasPendingName g then commit_name g else Some g }
                      else Some gen2);
             Some (gen3\<lparr>hasLast := True\<rparr>) })"

text \<open>The part of \<open>addMapping\<close> after the commit, for a new position and for the source.\<close>

definition set_pending_position :: "Generator \<Rightarrow> int \<Rightarrow> int \<Rightarrow> Generator" where
  "set_pending_position gen generatedLine generatedCharacter =
     gen\<lparr>pendingGeneratedLine := generatedLine, pendingGeneratedCharacter := generatedCharacter,
         hasPendingSource := False, hasPendingName := False, hasPending := True\<rparr>"

definition set_pending_source :: "Generator \<Rightarrow> int \<Rightarrow> int \<Rightarrow> int \<Rightarrow> int \<Rightarrow> Generator" where
  "set_pending_source gen sourceIndex sourceLine sourceCharacter nameIndex =
     (if sourceIndex \<noteq> -1 \<and> sourceLine \<noteq> -1 \<and> sourceCharacter \<noteq> -1 then
        (let gen1 = gen\<lparr>pendingSourceIndex := sourceIndex, pendingSourceLine := sourceLine,
                        pendingSourceCharacter := sourceCharacter, hasPendingSource := True\<rparr>
         in if nameIndex \<noteq> -1
            then gen1\<lparr>pendingNameIndex := nameIndex, hasPendingName := True\<rparr> else gen1)
      else gen)"

definition addMapping ::
    "Generator \<Rightarrow> int \<Rightarrow> int \<Rightarrow> int \<Rightarrow> int \<Rightarrow> int \<Rightarrow> int \<Rightarrow> Generator option" where
  "addMapping gen generatedLine generatedCharacter sourceIndex sourceLine sourceCharacter nameIndex =
     do { gen1 \<leftarrow>
            (if isNewGeneratedPosition gen generatedLine generatedCharacter
                \<or> isBacktrackingSourcePosition gen sourceIndex sourceLine sourceCharacter
             then do { g \<leftarrow> commitPendingMapping gen;
                       Some (set_pending_position g generatedLine generatedCharacter) }
             else Some gen);
          Some (set_pending_source gen1 sourceIndex sourceLine sourceCharacter nameIndex) }"

definition AddGeneratedMapping :: "Generator \<Rightarrow> int \<Rightarrow> int \<Rightarrow> (string option \<times> Generator) option" where
  "AddGeneratedMapping gen generatedLine generatedCharacter =
     (if generatedLine < pendingGeneratedLine gen
      then Some (Some ''generatedLine cannot backtrack'', gen)
      else if generatedCharacter < 0
      then Some (Some ''generatedCharacter cannot be negative'', gen)
      else
        do { gen1 \<leftarrow> addMapping gen generatedLine generatedCharacter (-1) (-1) (-1) (-1);
             Some (None, gen1\<lparr>hasPendingSource := False, hasPendingName := False\<rparr>) })"

text \<open>The argument checks that \<open>AddSourceMapping\<close> and \<open>AddNamedSourceMapping\<close> make in turn.\<close>

definition check_source_args :: "Generator \<Rightarrow> int \<Rightarrow> int \<Rightarrow> int \<Rightarrow> int \<Rightarrow> int \<Rightarrow> string option" where
  "check_source_args gen generatedLine generatedCharacter sourceIndex sourceLine sourceCharacter =
     (if generatedLine < pendingGeneratedLine gen then Some ''generatedLine cannot backtrack''
      else if generatedCharacter < 0 then Some ''generatedCharacter cannot be negative''
      else if sourceIndex < 0 \<or> int (length (g_sources gen)) \<le> sourceIndex
      then Some ''sourceIndex is out of range''
      else if sourceLine < 0 then Some ''sourceLine cannot be negative''
      else if sourceCharacter < 0 then Some ''sourceCharacter cannot be negative''
      else None)"

definition AddSourceMapping ::
    "Generator \<Rightarrow> int \<Rightarrow> int \<Rightarrow> int \<Rightarrow> int \<Rightarrow> int \<Rightarrow> (string option \<times> Generator) option" where
  "AddSourceMapping gen generatedLine generatedCharacter sourceIndex sourceLine sourceCharacter =
     (case check_source_args gen generatedLine generatedCharacter sourceIndex sourceLine sourceCharacter of
        Some e \<Rightarrow> Some (Some e, gen)
      | None \<Rightarrow>
          if hasPending gen \<and> \<not> isNewGeneratedPosition gen generatedLine generatedCharacter
             \<and> \<not> hasPendingSource gen
          then Some (None, gen)
          else map_option (Pair None)
                 (addMapping gen generatedLine generatedCharacter sourceIndex sourceLine sourceCharacter (-1)))"

definition AddNamedSourceMapping ::
    "Generator \<Rightarrow> int \<Rightarrow> int \<Rightarrow> int \<Rightarrow> int \<Rightarrow> int \<Rightarrow> int \<Rightarrow> (string option \<times> Generator) option" where
  "AddNamedSourceMapping gen generatedLine generatedCharacter sourceIndex sourceLine sourceCharacter
       nameIndex =
     (case check_source_args gen generatedLine generatedCharacter sourceIndex sourceLine sourceCharacter of
        Some e \<Rightarrow> Some (Some e, gen)
      | None \<Rightarrow>
          if nameIndex < 0 \<or> int (length (g_names gen)) \<le> nameIndex
          then Some (Some ''nameIndex is out of range'', gen)
          else if hasPending gen \<and> \<not> isNewGeneratedPosition gen generatedLine generatedCharacter
             \<and> \<not> hasPendingSource gen
          then Some (None, gen)
          else map_option (Pair None)
                 (addMapping gen generatedLine generatedCharacter sourceIndex sourceLine
                   sourceCharacter nameIndex))"

record RawSourceMap =
  Version :: int
  File :: string
  SourceRoot :: string
  Sources :: "string list"
  Names :: "string list"
  Mappings :: string
  SourcesContent :: "string option list"

text \<open>\<open>gen.RawSourceMap()\<close>, with its effect on the generator.\<close>

definition raw_source_map :: "Generator \<Rightarrow> (RawSourceMap \<times> Generator) option" where
  "raw_source_map gen =
     do { g \<leftarrow> commitPendingMapping gen;
          Some (\<lparr>Version = 3, File = g_file g, SourceRoot = g_sourceRoot g, Sources = g_sources g,
                 Names = g_names g, Mappings = g_mappings g, SourcesContent = g_sourcesContent g\<rparr>, g) }"

end
