(* ===== verification/SourceMapProps.thy ===== *)
theory SourceMapProps
  imports SourceMapGen
begin

text \<open>
  The generator and the decoder together: what the generator has written decodes to the mappings
  it was given, and it never panics. \<open>dec_at g post\<close> is the decoder behind the text that \<open>g\<close> has
  written, with \<open>post\<close> still to be read; the decoder's counters are then the generator's last
  position.
\<close>

section \<open>Reading numbers\<close>

definition ahead :: "MappingsDecoder \<Rightarrow> string \<Rightarrow> bool" where
  "ahead d rest \<longleftrightarrow> d_pos d \<le> length (d_mappings d) \<and> drop (d_pos d) (d_mappings d) = rest"

definition delimited :: "string \<Rightarrow> bool" where
  "delimited post \<longleftrightarrow> post = [] \<or> hd post = CHR '','' \<or> hd post = CHR '';''"

definition vlq_range :: "int \<Rightarrow> bool" where
  "vlq_range n \<longleftrightarrow> 0 \<le> n \<and> n < 2 ^ 62"

definition vlq :: "int \<Rightarrow> string" where
  "vlq n = the (base64VLQ n)"

lemma vlq_range_diff: "vlq_range a \<Longrightarrow> vlq_range b \<Longrightarrow> - (2 ^ 62) < b - a \<and> b - a < 2 ^ 62"
  by (simp add: vlq_range_def)

lemma vlq_diff:
  assumes "vlq_range a" "vlq_range b"
  shows "goInt (b - a) = b - a" "base64VLQ (b - a) = Some (vlq (b - a))" "vlq_text (vlq (b - a))"
    "goInt (a + (b - a)) = b"
proof -
  have r: "- (2 ^ 62) < b - a" "b - a < 2 ^ 62" using vlq_range_diff [OF assms] by auto
  then show "goInt (b - a) = b - a" by (intro goInt_id) simp_all
  obtain ds where "base64VLQ (b - a) = Some ds" "vlq_text ds" using vlq_decode_encode [OF r] by blast
  then show "base64VLQ (b - a) = Some (vlq (b - a))" "vlq_text (vlq (b - a))" by (simp_all add: vlq_def)
  show "goInt (a + (b - a)) = b" using assms by (simp add: vlq_range_def)
qed

lemma ahead_vlq:
  assumes "vlq_range a" "vlq_range b" "ahead d (vlq (b - a) @ rest)"
  shows "decodeVLQ d = (b - a, d\<lparr>d_pos := d_pos d + length (vlq (b - a))\<rparr>)"
proof -
  obtain ds where ds: "base64VLQ (b - a) = Some ds"
    "\<And>pre post. base64VLQFormatDecode (pre @ ds @ post) (length pre) = (Inr (b - a), length pre + length ds)"
    using vlq_decode_encode [of "b - a"] vlq_range_diff [OF assms(1,2)] by blast
  have "d_mappings d = take (d_pos d) (d_mappings d) @ ds @ rest"
    using assms(3) ds(1) unfolding ahead_def vlq_def by (metis append_take_drop_id option.sel)
  moreover have "length (take (d_pos d) (d_mappings d)) = d_pos d" using assms(3) by (simp add: ahead_def)
  ultimately have "base64VLQFormatDecode (d_mappings d) (d_pos d) = (Inr (b - a), d_pos d + length ds)"
    using ds(2) by metis
  then show ?thesis using ds(1) by (simp add: decodeVLQ_def vlq_def)
qed

lemma ahead_skip: "ahead d (s @ rest) \<Longrightarrow> ahead (d\<lparr>d_pos := d_pos d + length s\<rparr>) rest"
  unfolding ahead_def
  by (simp, metis append_eq_conv_conj drop_drop length_append length_drop le_add1 le_add_diff_inverse
      add.commute nat_add_left_cancel_le)

lemma ahead_frame [simp]:
  "ahead (d\<lparr>d_generatedCharacter := x\<rparr>) r = ahead d r" "ahead (d\<lparr>d_sourceIndex := x\<rparr>) r = ahead d r"
  "ahead (d\<lparr>d_sourceLine := x\<rparr>) r = ahead d r" "ahead (d\<lparr>d_sourceCharacter := x\<rparr>) r = ahead d r"
  "ahead (d\<lparr>d_nameIndex := x\<rparr>) r = ahead d r"
  by (simp_all add: ahead_def)

lemma segment_end_ahead:
  assumes "ahead d rest"
  shows "isSourceMappingSegmentEnd d \<longleftrightarrow> delimited rest"
proof (cases rest)
  case Nil
  then have "d_pos d = length (d_mappings d)" using assms by (simp add: ahead_def)
  then show ?thesis using Nil by (simp add: isSourceMappingSegmentEnd_def delimited_def)
next
  case (Cons c r)
  then have "d_pos d < length (d_mappings d)" using assms
    by (metis ahead_def drop_eq_Nil leI list.distinct(1))
  moreover from this have "d_mappings d ! d_pos d = c"
    using assms Cons by (metis ahead_def Cons_nth_drop_Suc list.inject)
  ultimately show ?thesis using Cons by (simp add: isSourceMappingSegmentEnd_def delimited_def)
qed

lemma vlq_not_delimited: "vlq_text v \<Longrightarrow> \<not> delimited (v @ rest)"
  by (cases v) (auto simp: vlq_text_def delimited_def)

section \<open>Reading the fields of a segment\<close>

lemma read_name:
  assumes "ahead d (vlq (b - d_nameIndex d) @ post)" "delimited post"
    and "vlq_range (d_nameIndex d)" "vlq_range b" "d_error d = None"
  defines "d' \<equiv> d\<lparr>d_pos := d_pos d + length (vlq (b - d_nameIndex d)), d_nameIndex := b\<rparr>"
  shows "decode_name d = (Some (captureMapping True True d'), d')"
proof -
  note v = vlq_diff [OF assms(3,4)]
  have "ahead d' post" using ahead_skip [OF assms(1)] by (simp add: d'_def)
  then have "isSourceMappingSegmentEnd d'" using segment_end_ahead assms(2) by blast
  moreover have "\<not> isSourceMappingSegmentEnd d"
    using segment_end_ahead [OF assms(1)] vlq_not_delimited [OF v(3)] by blast
  ultimately show ?thesis
    using assms(4,5) v(4) ahead_vlq [OF assms(3,4,1)]
    by (simp add: decode_name_def d'_def vlq_range_def Let_def)
qed

lemma read_no_name:
  "ahead d post \<Longrightarrow> delimited post \<Longrightarrow> decode_name d = (Some (captureMapping True False d), d)"
  by (simp add: decode_name_def segment_end_ahead)

lemma read_sourceCharacter:
  assumes "ahead d (vlq (b - d_sourceCharacter d) @ rest)"
    and "vlq_range (d_sourceCharacter d)" "vlq_range b" "d_error d = None"
  defines "d' \<equiv> d\<lparr>d_pos := d_pos d + length (vlq (b - d_sourceCharacter d)), d_sourceCharacter := b\<rparr>"
  shows "decode_sourceCharacter d = decode_name d' \<and> ahead d' rest"
  using vlq_diff(4) [OF assms(2,3)] ahead_vlq [OF assms(2,3,1)] ahead_skip [OF assms(1)] assms(3,4)
  by (simp add: decode_sourceCharacter_def d'_def vlq_range_def)

lemma read_sourceLine:
  assumes "ahead d (vlq (b - d_sourceLine d) @ rest)" "\<not> delimited rest"
    and "vlq_range (d_sourceLine d)" "vlq_range b" "d_error d = None"
  defines "d' \<equiv> d\<lparr>d_pos := d_pos d + length (vlq (b - d_sourceLine d)), d_sourceLine := b\<rparr>"
  shows "decode_sourceLine d = decode_sourceCharacter d' \<and> ahead d' rest"
proof -
  have a: "ahead d' rest" using ahead_skip [OF assms(1)] by (simp add: d'_def)
  then have "\<not> isSourceMappingSegmentEnd d'" using segment_end_ahead assms(2) by blast
  then show ?thesis
    using vlq_diff(4) [OF assms(3,4)] ahead_vlq [OF assms(3,4,1)] a assms(4,5)
    by (simp add: decode_sourceLine_def d'_def vlq_range_def)
qed

lemma read_source:
  assumes "ahead d (vlq (b - d_sourceIndex d) @ rest)" "\<not> delimited rest"
    and "vlq_range (d_sourceIndex d)" "vlq_range b" "d_error d = None"
  defines "d' \<equiv> d\<lparr>d_pos := d_pos d + length (vlq (b - d_sourceIndex d)), d_sourceIndex := b\<rparr>"
  shows "decode_source d = decode_sourceLine d' \<and> ahead d' rest"
proof -
  have a: "ahead d' rest" using ahead_skip [OF assms(1)] by (simp add: d'_def)
  then have "\<not> isSourceMappingSegmentEnd d'" using segment_end_ahead assms(2) by blast
  then show ?thesis
    using vlq_diff(4) [OF assms(3,4)] ahead_vlq [OF assms(3,4,1)] a assms(4,5)
    by (simp add: decode_source_def d'_def vlq_range_def)
qed

lemma read_segment:
  assumes "ahead d (vlq (b - d_generatedCharacter d) @ rest)"
    and "vlq_range (d_generatedCharacter d)" "vlq_range b" "d_error d = None"
  defines "d' \<equiv> d\<lparr>d_pos := d_pos d + length (vlq (b - d_generatedCharacter d)), d_generatedCharacter := b\<rparr>"
  shows "ahead d' rest" "decode_segment d
    = (if delimited rest then (Some (captureMapping False False d'), d') else decode_source d')"
proof -
  show a: "ahead d' rest" using ahead_skip [OF assms(1)] by (simp add: d'_def)
  then have "isSourceMappingSegmentEnd d' \<longleftrightarrow> delimited rest" by (rule segment_end_ahead)
  then show "decode_segment d
    = (if delimited rest then (Some (captureMapping False False d'), d') else decode_source d')"
    using vlq_diff(4) [OF assms(2,3)] ahead_vlq [OF assms(2,3,1)] assms(3,4)
    by (simp add: decode_segment_def d'_def vlq_range_def Let_def)
qed

section \<open>Reading the delimiters\<close>

lemma Next_segment:
  "ahead d (v @ rest) \<Longrightarrow> vlq_text v \<Longrightarrow> \<not> d_done d \<Longrightarrow> Next d = decode_segment d"
proof -
  assume a: "ahead d (v @ rest)" "vlq_text v" "\<not> d_done d"
  then obtain c r where v: "v = c # r" "c \<noteq> CHR '';''" "c \<noteq> CHR '',''" by (cases v) (auto simp: vlq_text_def)
  have "d_pos d < length (d_mappings d)" "d_mappings d ! d_pos d = c"
    using a(1) v(1) unfolding ahead_def
    by (metis append_Cons drop_eq_Nil leI list.distinct(1), metis append_Cons Cons_nth_drop_Suc
        drop_eq_Nil leI list.distinct(1) list.inject)
  then show ?thesis using a(3) v by (subst Next.simps) simp
qed

lemma Next_comma:
  "ahead d (CHR '','' # rest) \<Longrightarrow> \<not> d_done d \<Longrightarrow> Next d = Next (d\<lparr>d_pos := d_pos d + 1\<rparr>)"
  unfolding ahead_def
  by (subst Next.simps) (auto simp: hd_drop_conv_nth [symmetric] dest: sym)

lemma Next_lines:
  "ahead d (replicate n CHR '';'' @ rest) \<Longrightarrow> \<not> d_done d \<Longrightarrow> vlq_range (d_generatedLine d) \<Longrightarrow>
   vlq_range (d_generatedLine d + int n) \<Longrightarrow> 0 < n \<Longrightarrow>
   Next d = Next (d\<lparr>d_generatedLine := d_generatedLine d + int n, d_generatedCharacter := 0,
                     d_pos := d_pos d + n\<rparr>)"
proof (induction n arbitrary: d)
  case (Suc n)
  let ?d1 = "d\<lparr>d_generatedLine := d_generatedLine d + 1, d_generatedCharacter := 0, d_pos := d_pos d + 1\<rparr>"
  have a: "ahead d (CHR '';'' # (replicate n CHR '';'' @ rest))" using Suc.prems(1) by simp
  then have pos: "d_pos d < length (d_mappings d)" "d_mappings d ! d_pos d = CHR '';''"
    unfolding ahead_def
    by (metis drop_eq_Nil leI list.distinct(1), metis Cons_nth_drop_Suc drop_eq_Nil leI
        list.distinct(1) list.inject)
  have "goInt (d_generatedLine d + 1) = d_generatedLine d + 1"
    using Suc.prems(3) by (simp add: vlq_range_def)
  then have one: "Next d = Next ?d1" using pos Suc.prems(2) by (subst Next.simps) (simp add: Let_def)
  show ?case
  proof (cases "n = 0")
    case True
    then show ?thesis using one by simp
  next
    case False
    have "ahead ?d1 (replicate n CHR '';'' @ rest)"
      using ahead_skip [of d "'';''" "replicate n CHR '';'' @ rest"] a by (simp add: ahead_def)
    then have "Next ?d1 = Next (?d1\<lparr>d_generatedLine := d_generatedLine ?d1 + int n,
        d_generatedCharacter := 0, d_pos := d_pos ?d1 + n\<rparr>)"
      using Suc.prems False by (intro Suc.IH) (auto simp: vlq_range_def)
    then show ?thesis using one by (simp add: add.assoc)
  qed
qed simp

section \<open>The invariant of the generator\<close>

text \<open>The counters of the decoder are the last position of the generator.\<close>

definition dec_at :: "Generator \<Rightarrow> string \<Rightarrow> MappingsDecoder" where
  "dec_at g post =
     \<lparr>d_mappings = g_mappings g @ post, d_done = False, d_pos = length (g_mappings g),
      d_generatedLine = lastGeneratedLine g, d_generatedCharacter = lastGeneratedCharacter g,
      d_sourceIndex = lastSourceIndex g, d_sourceLine = lastSourceLine g,
      d_sourceCharacter = lastSourceCharacter g, d_nameIndex = lastNameIndex g, d_error = None\<rparr>"

definition pending_mapping :: "Generator \<Rightarrow> Mapping" where
  "pending_mapping g =
     \<lparr>GeneratedLine = pendingGeneratedLine g, GeneratedCharacter = pendingGeneratedCharacter g,
      SourceIndex = (if hasPendingSource g then pendingSourceIndex g else -1),
      SourceLine = (if hasPendingSource g then pendingSourceLine g else -1),
      SourceCharacter = (if hasPendingSource g then pendingSourceCharacter g else -1),
      NameIndex = (if hasPendingName g then pendingNameIndex g else -1)\<rparr>"

definition last_in_range :: "Generator \<Rightarrow> bool" where
  "last_in_range g \<longleftrightarrow>
     vlq_range (lastGeneratedLine g) \<and> vlq_range (lastGeneratedCharacter g)
     \<and> vlq_range (lastSourceIndex g) \<and> vlq_range (lastSourceLine g)
     \<and> vlq_range (lastSourceCharacter g) \<and> vlq_range (lastNameIndex g)"

definition pending_in_range :: "Generator \<Rightarrow> bool" where
  "pending_in_range g \<longleftrightarrow>
     vlq_range (pendingGeneratedLine g) \<and> vlq_range (pendingGeneratedCharacter g)
     \<and> vlq_range (pendingSourceIndex g) \<and> vlq_range (pendingSourceLine g)
     \<and> vlq_range (pendingSourceCharacter g) \<and> vlq_range (pendingNameIndex g)"

definition decodes_to :: "Generator \<Rightarrow> Mapping list \<Rightarrow> bool" where
  "decodes_to g ms \<longleftrightarrow>
     (\<forall>post. delimited post \<or> \<not> hasLast g \<longrightarrow>
        Values (DecodeMappings (g_mappings g @ post))
        = (let (ms', e) = Values (dec_at g post) in (ms @ ms', e)))"

definition gen_inv :: "Generator \<Rightarrow> Mapping list \<Rightarrow> bool" where
  "gen_inv g ms \<longleftrightarrow>
     last_in_range g \<and> pending_in_range g
     \<and> lastGeneratedLine g \<le> pendingGeneratedLine g
     \<and> (hasPendingName g \<longrightarrow> hasPendingSource g)
     \<and> decodes_to g ms"

section \<open>Writing a mapping\<close>

lemma emit_lines_eq:
  "lastGeneratedLine g < pendingGeneratedLine g \<Longrightarrow>
   emit_lines g = g\<lparr>g_mappings := g_mappings g
       @ replicate (nat (pendingGeneratedLine g - lastGeneratedLine g)) CHR '';'',
     lastGeneratedLine := pendingGeneratedLine g\<rparr>"
proof (induction "nat (pendingGeneratedLine g - lastGeneratedLine g)" arbitrary: g)
  case (Suc n)
  let ?g1 = "g\<lparr>g_mappings := g_mappings g @ '';'', lastGeneratedLine := lastGeneratedLine g + 1\<rparr>"
  have unf: "emit_lines g = (if lastGeneratedLine g + 1 \<ge> pendingGeneratedLine g then ?g1 else emit_lines ?g1)"
    by (subst emit_lines.simps) (simp add: appendMappingCharCode_def Let_def)
  have n: "nat (pendingGeneratedLine g - lastGeneratedLine g)
      = Suc (nat (pendingGeneratedLine g - (lastGeneratedLine g + 1)))" using Suc.prems by simp
  show ?case
  proof (cases "lastGeneratedLine g + 1 \<ge> pendingGeneratedLine g")
    case True
    then have "pendingGeneratedLine g = lastGeneratedLine g + 1" using Suc.prems by simp
    then show ?thesis using unf by simp
  next
    case False
    then have "emit_lines ?g1 = ?g1\<lparr>g_mappings := g_mappings ?g1
       @ replicate (nat (pendingGeneratedLine ?g1 - lastGeneratedLine ?g1)) CHR '';'',
     lastGeneratedLine := pendingGeneratedLine ?g1\<rparr>"
      using Suc(2) n by (intro Suc(1)) auto
    then show ?thesis using False unf n by simp
  qed
qed simp

definition line_delims :: "Generator \<Rightarrow> string" where
  "line_delims g =
     (if lastGeneratedLine g < pendingGeneratedLine g
      then replicate (nat (pendingGeneratedLine g - lastGeneratedLine g)) CHR '';''
      else if hasLast g then '','' else [])"

definition char_base :: "Generator \<Rightarrow> int" where
  "char_base g = (if lastGeneratedLine g < pendingGeneratedLine g then 0 else lastGeneratedCharacter g)"

lemma commit_delimiters_eq:
  "lastGeneratedLine g \<le> pendingGeneratedLine g \<Longrightarrow>
   commit_delimiters g = Some (g\<lparr>g_mappings := g_mappings g @ line_delims g,
     lastGeneratedLine := pendingGeneratedLine g, lastGeneratedCharacter := char_base g\<rparr>)"
  by (auto simp: commit_delimiters_def emit_lines_eq line_delims_def char_base_def appendMappingCharCode_def)

definition source_text :: "Generator \<Rightarrow> string" where
  "source_text g =
     vlq (pendingSourceIndex g - lastSourceIndex g)
     @ vlq (pendingSourceLine g - lastSourceLine g)
     @ vlq (pendingSourceCharacter g - lastSourceCharacter g)"

definition segment_text :: "Generator \<Rightarrow> string" where
  "segment_text g =
     vlq (pendingGeneratedCharacter g - char_base g)
     @ (if hasPendingSource g
        then source_text g
             @ (if hasPendingName g then vlq (pendingNameIndex g - lastNameIndex g) else [])
        else [])"

text \<open>The generator after the pending mapping has been written.\<close>

definition committed :: "Generator \<Rightarrow> Generator" where
  "committed g =
     (let g1 = g\<lparr>g_mappings := g_mappings g @ line_delims g @ segment_text g,
                 lastGeneratedLine := pendingGeneratedLine g,
                 lastGeneratedCharacter := pendingGeneratedCharacter g, hasLast := True\<rparr>;
          g2 = (if hasPendingSource g
                then g1\<lparr>lastSourceIndex := pendingSourceIndex g, lastSourceLine := pendingSourceLine g,
                        lastSourceCharacter := pendingSourceCharacter g\<rparr> else g1)
      in if hasPendingSource g \<and> hasPendingName g
         then g2\<lparr>lastNameIndex := pendingNameIndex g\<rparr> else g2)"

lemma char_base_range: "last_in_range g \<Longrightarrow> vlq_range (char_base g)"
  by (simp add: char_base_def last_in_range_def vlq_range_def)

lemma commit_eq:
  assumes r: "last_in_range g" "pending_in_range g" and "lastGeneratedLine g \<le> pendingGeneratedLine g"
    and "shouldCommitMapping g"
  shows "commitPendingMapping g = Some (committed g)"
proof -
  note d = vlq_diff(1,2) [of "char_base g" "pendingGeneratedCharacter g"]
    vlq_diff(1,2) [of "lastSourceIndex g" "pendingSourceIndex g"]
    vlq_diff(1,2) [of "lastSourceLine g" "pendingSourceLine g"]
    vlq_diff(1,2) [of "lastSourceCharacter g" "pendingSourceCharacter g"]
    vlq_diff(1,2) [of "lastNameIndex g" "pendingNameIndex g"]
  show ?thesis
    using assms char_base_range [OF r(1)]
    by (simp add: commitPendingMapping_def commit_delimiters_eq commit_generated_def commit_source_def
        commit_name_def appendBase64VLQ_def d last_in_range_def pending_in_range_def committed_def
        segment_text_def source_text_def Let_def)
qed
end
