(* ===== verification/SourceMapCommit.thy ===== *)
theory SourceMapCommit
  imports SourceMapProps
begin

text \<open>
  What a commit of the generator of \<^verbatim>\<open>generator.go\<close> writes is read back by the decoder of
  \<^verbatim>\<open>decoder.go\<close> as the pending mapping, and the commit keeps the invariant of the generator.
\<close>

section \<open>Reading what a commit writes\<close>

lemma ahead_dec_at: "ahead (dec_at g post) post"
  by (simp add: ahead_def dec_at_def)

lemma read_delims:
  fixes g :: Generator and rest :: string
  assumes r: "last_in_range g" "pending_in_range g" "lastGeneratedLine g \<le> pendingGeneratedLine g"
    and v: "vlq_text v"
  defines "D \<equiv> dec_at g (line_delims g @ v @ rest)"
  defines "D1 \<equiv> D\<lparr>d_generatedLine := pendingGeneratedLine g, d_generatedCharacter := char_base g,
    d_pos := length (g_mappings g) + length (line_delims g)\<rparr>"
  shows "Next D = decode_segment D1" "ahead D1 (v @ rest)"
proof -
  have a: "ahead D (line_delims g @ v @ rest)" by (simp add: D_def ahead_dec_at)
  have dn: "\<not> d_done D" "\<not> d_done D1" by (simp_all add: D1_def D_def dec_at_def)
  from ahead_skip [OF a] show a1: "ahead D1 (v @ rest)" by (simp add: D1_def D_def ahead_def dec_at_def)
  consider (lines) "lastGeneratedLine g < pendingGeneratedLine g"
    | (comma) "lastGeneratedLine g = pendingGeneratedLine g" "hasLast g"
    | (first) "lastGeneratedLine g = pendingGeneratedLine g" "\<not> hasLast g" using r(3) by linarith
  then have "Next D = Next D1"
  proof cases
    case lines
    let ?n = "nat (pendingGeneratedLine g - lastGeneratedLine g)"
    have "Next D = Next (D\<lparr>d_generatedLine := d_generatedLine D + int ?n, d_generatedCharacter := 0,
        d_pos := d_pos D + ?n\<rparr>)"
    proof (rule Next_lines)
      show "ahead D (replicate ?n CHR '';'' @ v @ rest)" using a lines by (simp add: line_delims_def)
    qed (use r lines dn in \<open>auto simp: D_def dec_at_def last_in_range_def pending_in_range_def\<close>)
    moreover have "D\<lparr>d_generatedLine := d_generatedLine D + int ?n, d_generatedCharacter := 0,
        d_pos := d_pos D + ?n\<rparr> = D1"
      using lines by (simp add: D1_def D_def dec_at_def char_base_def line_delims_def)
    ultimately show ?thesis by simp
  next
    case comma
    then have "ahead D (CHR '','' # v @ rest)" using a by (simp add: line_delims_def)
    from Next_comma [OF this dn(1)] show ?thesis
      using comma by (simp add: D1_def D_def dec_at_def char_base_def line_delims_def)
  next
    case first
    then have "D1 = D" by (simp add: D1_def D_def dec_at_def char_base_def line_delims_def)
    then show ?thesis by simp
  qed
  then show "Next D = decode_segment D1" using Next_segment [OF a1 v dn(2)] by simp
qed

lemma commit_read:
  assumes r: "last_in_range g" "pending_in_range g" "lastGeneratedLine g \<le> pendingGeneratedLine g"
    and names: "hasPendingName g \<longrightarrow> hasPendingSource g" and post: "delimited post"
  shows "Next (dec_at g (line_delims g @ segment_text g @ post))
    = (Some (pending_mapping g), dec_at (committed g) post)"
proof -
  define D where "D = dec_at g (line_delims g @ segment_text g @ post)"
  define D1 where "D1 = D\<lparr>d_generatedLine := pendingGeneratedLine g, d_generatedCharacter := char_base g,
    d_pos := length (g_mappings g) + length (line_delims g)\<rparr>"
  define vc vs vl vch vn where "vc = vlq (pendingGeneratedCharacter g - char_base g)"
    and "vs = vlq (pendingSourceIndex g - lastSourceIndex g)"
    and "vl = vlq (pendingSourceLine g - lastSourceLine g)"
    and "vch = vlq (pendingSourceCharacter g - lastSourceCharacter g)"
    and "vn = vlq (pendingNameIndex g - lastNameIndex g)"
  define tail where "tail = (if hasPendingSource g
      then vs @ vl @ vch @ (if hasPendingName g then vn else []) else []) @ post"
  note R = r(1) [unfolded last_in_range_def] r(2) [unfolded pending_in_range_def]
  have base: "vlq_range (char_base g)" by (rule char_base_range [OF r(1)])
  have body: "segment_text g @ post = vc @ tail"
    by (simp add: segment_text_def source_text_def tail_def vc_def vs_def vl_def vch_def vn_def)
  have vtexts: "vlq_text vc" "vlq_text vs" "vlq_text vl" "vlq_text vch" "vlq_text vn"
    unfolding vc_def vs_def vl_def vch_def vn_def using R base by (simp_all add: vlq_diff(3))
  have next1: "Next D = decode_segment D1" and a1: "ahead D1 (vc @ tail)"
    unfolding D_def D1_def body using read_delims [OF r vtexts(1), of tail] by simp_all
  have D1: "d_generatedCharacter D1 = char_base g" "d_error D1 = None" "d_sourceIndex D1 = lastSourceIndex g"
    "d_sourceLine D1 = lastSourceLine g" "d_sourceCharacter D1 = lastSourceCharacter g"
    "d_nameIndex D1 = lastNameIndex g" "d_generatedLine D1 = pendingGeneratedLine g" "\<not> d_done D1"
    "d_mappings D1 = g_mappings g @ line_delims g @ vc @ tail"
    "d_pos D1 = length (g_mappings g) + length (line_delims g)"
    by (simp_all add: D1_def D_def dec_at_def body)
  define D2 where "D2 = D1\<lparr>d_pos := d_pos D1 + length vc, d_generatedCharacter := pendingGeneratedCharacter g\<rparr>"
  have seg: "decode_segment D1 = (if delimited tail then (Some (captureMapping False False D2), D2)
      else decode_source D2)" and a2: "ahead D2 tail"
    using read_segment [of D1 "pendingGeneratedCharacter g" tail] a1 base R D1(1,2)
    by (simp_all add: D2_def vc_def)
  show ?thesis
  proof (cases "hasPendingSource g")
    case False
    then have "\<not> hasPendingName g" "tail = post" using names by (auto simp: tail_def)
    then have "Next D = (Some (captureMapping False False D2), D2)" using next1 seg post by simp
    moreover have "D2 = dec_at (committed g) post"
      using False D1 by (simp add: D2_def dec_at_def committed_def body \<open>tail = post\<close>
          segment_text_def vc_def Let_def)
    moreover have "captureMapping False False D2 = pending_mapping g"
      using False \<open>\<not> hasPendingName g\<close> D1 by (simp add: D2_def captureMapping_def pending_mapping_def)
    ultimately show ?thesis by (simp add: D_def)
  next
    case True
    define tail4 where "tail4 = (if hasPendingName g then vn else []) @ post"
    have tail: "tail = vs @ vl @ vch @ tail4" using True by (simp add: tail_def tail4_def)
    define D3 where "D3 = D2\<lparr>d_pos := d_pos D2 + length vs, d_sourceIndex := pendingSourceIndex g\<rparr>"
    have s3: "decode_source D2 = decode_sourceLine D3 \<and> ahead D3 (vl @ vch @ tail4)"
      using read_source [of D2 "pendingSourceIndex g" "vl @ vch @ tail4"] a2 tail R D1(2,3)
        vlq_not_delimited [OF vtexts(3)]
      by (simp add: D3_def D2_def vs_def)
    define D4 where "D4 = D3\<lparr>d_pos := d_pos D3 + length vl, d_sourceLine := pendingSourceLine g\<rparr>"
    have s4: "decode_sourceLine D3 = decode_sourceCharacter D4 \<and> ahead D4 (vch @ tail4)"
      using read_sourceLine [of D3 "pendingSourceLine g" "vch @ tail4"] s3 R D1(2,4)
        vlq_not_delimited [OF vtexts(4)]
      by (simp add: D4_def D3_def D2_def vl_def)
    define D5 where "D5 = D4\<lparr>d_pos := d_pos D4 + length vch, d_sourceCharacter := pendingSourceCharacter g\<rparr>"
    have s5: "decode_sourceCharacter D4 = decode_name D5 \<and> ahead D5 tail4"
      using read_sourceCharacter [of D4 "pendingSourceCharacter g" tail4] s4 R D1(2,5)
      by (simp add: D5_def D4_def D3_def D2_def vch_def)
    have "\<not> delimited tail" using tail vlq_not_delimited [OF vtexts(2)] by simp
    then have next5: "Next D = decode_name D5" using next1 seg s3 s4 s5 by simp
    have D5: "d_error D5 = None" "d_nameIndex D5 = lastNameIndex g"
      using D1 by (simp_all add: D5_def D4_def D3_def D2_def)
    show ?thesis
    proof (cases "hasPendingName g")
      case noname: False
      then have "tail4 = post" by (simp add: tail4_def)
      then have "Next D = (Some (captureMapping True False D5), D5)"
        using next5 read_no_name [OF _ post] s5 by simp
      moreover have "D5 = dec_at (committed g) post"
        using True noname D1 by (simp add: D5_def D4_def D3_def D2_def dec_at_def committed_def
            segment_text_def source_text_def vc_def vs_def vl_def vch_def tail \<open>tail4 = post\<close> Let_def)
      moreover have "captureMapping True False D5 = pending_mapping g"
        using True noname D1 by (simp add: D5_def D4_def D3_def D2_def captureMapping_def pending_mapping_def)
      ultimately show ?thesis by (simp add: D_def)
    next
      case name: True
      then have t4: "tail4 = vn @ post" by (simp add: tail4_def)
      define D6 where "D6 = D5\<lparr>d_pos := d_pos D5 + length vn, d_nameIndex := pendingNameIndex g\<rparr>"
      have "decode_name D5 = (Some (captureMapping True True D6), D6)"
        using read_name [of D5 "pendingNameIndex g" post] s5 t4 post R D5
        by (simp add: D6_def vn_def)
      moreover have "D6 = dec_at (committed g) post"
        using True name D1 by (simp add: D6_def D5_def D4_def D3_def D2_def dec_at_def committed_def
            segment_text_def source_text_def vc_def vs_def vl_def vch_def vn_def tail t4 Let_def)
      moreover have "captureMapping True True D6 = pending_mapping g"
        using True name D1
        by (simp add: D6_def D5_def D4_def D3_def D2_def captureMapping_def pending_mapping_def)
      ultimately show ?thesis using next5 by (simp add: D_def)
    qed
  qed
qed

section \<open>The commit keeps the invariant\<close>

lemma committed_frame [simp]:
  "pendingGeneratedLine (committed g) = pendingGeneratedLine g"
  "pendingGeneratedCharacter (committed g) = pendingGeneratedCharacter g"
  "pendingSourceIndex (committed g) = pendingSourceIndex g"
  "pendingSourceLine (committed g) = pendingSourceLine g"
  "pendingSourceCharacter (committed g) = pendingSourceCharacter g"
  "pendingNameIndex (committed g) = pendingNameIndex g"
  "hasPending (committed g) = hasPending g" "hasPendingSource (committed g) = hasPendingSource g"
  "hasPendingName (committed g) = hasPendingName g" "g_sources (committed g) = g_sources g"
  "g_names (committed g) = g_names g" "hasLast (committed g)"
  "lastGeneratedLine (committed g) = pendingGeneratedLine g"
  "g_mappings (committed g) = g_mappings g @ line_delims g @ segment_text g"
  by (simp_all add: committed_def Let_def)

lemma decodes_to_committed:
  assumes inv: "gen_inv g ms"
  shows "decodes_to (committed g) (ms @ [pending_mapping g])"
  unfolding decodes_to_def
proof (intro allI impI)
  fix post assume "delimited post \<or> \<not> hasLast (committed g)"
  then have post: "delimited post" by simp
  have r: "last_in_range g" "pending_in_range g" "lastGeneratedLine g \<le> pendingGeneratedLine g"
    "hasPendingName g \<longrightarrow> hasPendingSource g" using inv by (auto simp: gen_inv_def)
  let ?X = "line_delims g @ segment_text g @ post"
  have "delimited ?X \<or> \<not> hasLast g"
    by (cases "nat (pendingGeneratedLine g - lastGeneratedLine g)")
       (auto simp: line_delims_def delimited_def)
  then have "Values (DecodeMappings (g_mappings g @ ?X))
      = (let (ms', e) = Values (dec_at g ?X) in (ms @ ms', e))"
    using inv unfolding gen_inv_def decodes_to_def by blast
  moreover have "Values (dec_at g ?X)
      = (let (ms', e) = Values (dec_at (committed g) post) in (pending_mapping g # ms', e))"
    using commit_read [OF r post] by (subst Values.simps) simp
  ultimately show "Values (DecodeMappings (g_mappings (committed g) @ post))
      = (let (ms', e) = Values (dec_at (committed g) post) in ((ms @ [pending_mapping g]) @ ms', e))"
    by (simp add: Let_def split: prod.split)
qed

lemma gen_inv_committed: "gen_inv g ms \<Longrightarrow> gen_inv (committed g) (ms @ [pending_mapping g])"
  using decodes_to_committed [of g ms]
  by (auto simp: gen_inv_def last_in_range_def pending_in_range_def) (auto simp: committed_def Let_def)

definition commit_if :: "Generator \<Rightarrow> Generator" where
  "commit_if g = (if shouldCommitMapping g then committed g else g)"

lemma commit_if_frame [simp]:
  "g_sources (commit_if g) = g_sources g" "g_names (commit_if g) = g_names g"
  "hasPending (commit_if g) = hasPending g"
  "pendingGeneratedLine (commit_if g) = pendingGeneratedLine g"
  "pending_mapping (commit_if g) = pending_mapping g"
  by (simp_all add: commit_if_def pending_mapping_def)

lemma commit_if:
  assumes "gen_inv g ms"
  shows "commitPendingMapping g = Some (commit_if g)"
    "gen_inv (commit_if g) (if shouldCommitMapping g then ms @ [pending_mapping g] else ms)"
proof -
  show "commitPendingMapping g = Some (commit_if g)"
  proof (cases "shouldCommitMapping g")
    case True
    then show ?thesis using commit_eq [of g] assms by (simp add: gen_inv_def commit_if_def)
  next
    case False
    then show ?thesis by (simp add: commitPendingMapping_def commit_if_def)
  qed
  show "gen_inv (commit_if g) (if shouldCommitMapping g then ms @ [pending_mapping g] else ms)"
    using assms gen_inv_committed by (simp add: commit_if_def)
qed

end
