(* ===== verification/SourceMapSpec.thy ===== *)
theory SourceMapSpec
  imports SourceMapCommit
begin

text \<open>
  An abstract generator of source maps, which keeps a list of mappings and one pending mapping, and
  the proof that the generator of \<^verbatim>\<open>generator.go\<close> refines it: a simulation
  relates the two through every exported operation, and no operation panics.
\<close>

section \<open>The abstract generator\<close>

text \<open>
  It keeps the mappings written so far, the pending one, and the source position and the name that
  were given last. A mapping at a new generated position, or one that moves back in its source,
  writes the pending mapping; a mapping without a source replaces one at the same position; a
  mapping with a source is merged into it. The pending mapping is not written when it repeats the
  last one written: when it is at the same generated position, and the source and the name given
  last are those that were written last. Nothing here refers to the state of the generator of the
  code.
\<close>

record MapSpec =
  spec_written :: "Mapping list"
  spec_pending :: "Mapping option"
  spec_source :: "int \<times> int \<times> int"
  spec_name :: int

definition source_of :: "Mapping \<Rightarrow> int \<times> int \<times> int" where
  "source_of m = (SourceIndex m, SourceLine m, SourceCharacter m)"

definition last_source :: "Mapping list \<Rightarrow> int \<times> int \<times> int" where
  "last_source ms = fold (\<lambda>m s. if SourceIndex m = -1 then s else source_of m) ms (0, 0, 0)"

definition last_name :: "Mapping list \<Rightarrow> int" where
  "last_name ms = fold (\<lambda>m n. if NameIndex m = -1 then n else NameIndex m) ms 0"

lemma last_source_simps [simp]:
  "last_source [] = (0, 0, 0)"
  "last_source (ms @ [m]) = (if SourceIndex m = -1 then last_source ms else source_of m)"
  "last_name [] = 0"
  "last_name (ms @ [m]) = (if NameIndex m = -1 then last_name ms else NameIndex m)"
  by (simp_all add: last_source_def last_name_def)

definition same_position :: "Mapping \<Rightarrow> Mapping \<Rightarrow> bool" where
  "same_position q m \<longleftrightarrow>
     GeneratedLine q = GeneratedLine m \<and> GeneratedCharacter q = GeneratedCharacter m"

definition backtracks :: "Mapping \<Rightarrow> Mapping \<Rightarrow> bool" where
  "backtracks q m \<longleftrightarrow>
     SourceIndex q = SourceIndex m
     \<and> (SourceLine q > SourceLine m
        \<or> SourceLine q = SourceLine m \<and> SourceCharacter q > SourceCharacter m)"

definition merged :: "Mapping \<Rightarrow> Mapping \<Rightarrow> Mapping" where
  "merged q m = (if NameIndex m = -1 then m\<lparr>NameIndex := NameIndex q\<rparr> else m)"

definition spec_repeats :: "MapSpec \<Rightarrow> Mapping \<Rightarrow> bool" where
  "spec_repeats s q \<longleftrightarrow>
     spec_written s \<noteq> [] \<and> same_position (last (spec_written s)) q
     \<and> spec_source s = last_source (spec_written s) \<and> spec_name s = last_name (spec_written s)"

definition spec_flush :: "MapSpec \<Rightarrow> MapSpec" where
  "spec_flush s =
     (case spec_pending s of
        None \<Rightarrow> s
      | Some q \<Rightarrow> if spec_repeats s q then s else s\<lparr>spec_written := spec_written s @ [q]\<rparr>)"

definition spec_take :: "Mapping \<Rightarrow> MapSpec \<Rightarrow> MapSpec" where
  "spec_take m s =
     s\<lparr>spec_pending := Some m,
       spec_source := (if SourceIndex m = -1 then spec_source s else source_of m),
       spec_name := (if NameIndex m = -1 then spec_name s else NameIndex m)\<rparr>"

definition spec_add :: "MapSpec \<Rightarrow> Mapping \<Rightarrow> MapSpec" where
  "spec_add s m =
     (case spec_pending s of
        None \<Rightarrow> spec_take m s
      | Some q \<Rightarrow>
          if \<not> same_position q m then spec_take m (spec_flush s)
          else if SourceIndex m = -1 then spec_take m s
          else if SourceIndex q = -1 then s
          else if backtracks q m then spec_take m (spec_flush s)
          else spec_take (merged q m) s)"

definition spec_new :: MapSpec where
  "spec_new = \<lparr>spec_written = [], spec_pending = None, spec_source = (0, 0, 0), spec_name = 0\<rparr>"

text \<open>What happens to a generator: a mapping is added, or \<open>RawSourceMap\<close> is called.\<close>

datatype map_event = Added Mapping | Raw

primrec spec_step :: "map_event \<Rightarrow> MapSpec \<Rightarrow> MapSpec" where
  "spec_step (Added m) s = spec_add s m"
| "spec_step Raw s = spec_flush s"

definition spec_run :: "map_event list \<Rightarrow> MapSpec" where
  "spec_run evs = fold spec_step evs spec_new"

lemma spec_run_simps [simp]:
  "spec_run [] = spec_new" "spec_run (evs @ [ev]) = spec_step ev (spec_run evs)"
  by (simp_all add: spec_run_def)

text \<open>The calls that add a mapping, and the mapping each of them stands for.\<close>

datatype map_op =
    Generated int int
  | Sourced int int int int int
  | Named int int int int int int

primrec apply_op :: "map_op \<Rightarrow> Generator \<Rightarrow> (string option \<times> Generator) option" where
  "apply_op (Generated l c) g = AddGeneratedMapping g l c"
| "apply_op (Sourced l c si sl sc) g = AddSourceMapping g l c si sl sc"
| "apply_op (Named l c si sl sc ni) g = AddNamedSourceMapping g l c si sl sc ni"

primrec op_mapping :: "map_op \<Rightarrow> Mapping" where
  "op_mapping (Generated l c) =
     \<lparr>GeneratedLine = l, GeneratedCharacter = c, SourceIndex = -1, SourceLine = -1,
      SourceCharacter = -1, NameIndex = -1\<rparr>"
| "op_mapping (Sourced l c si sl sc) =
     \<lparr>GeneratedLine = l, GeneratedCharacter = c, SourceIndex = si, SourceLine = sl,
      SourceCharacter = sc, NameIndex = -1\<rparr>"
| "op_mapping (Named l c si sl sc ni) =
     \<lparr>GeneratedLine = l, GeneratedCharacter = c, SourceIndex = si, SourceLine = sl,
      SourceCharacter = sc, NameIndex = ni\<rparr>"

definition small_mapping :: "Mapping \<Rightarrow> bool" where
  "small_mapping m \<longleftrightarrow>
     GeneratedLine m < 2 ^ 62 \<and> GeneratedCharacter m < 2 ^ 62 \<and> SourceIndex m < 2 ^ 62
     \<and> SourceLine m < 2 ^ 62 \<and> SourceCharacter m < 2 ^ 62 \<and> NameIndex m < 2 ^ 62"

section \<open>The operations refine it\<close>

text \<open>\<open>addMapping\<close> at a new position or going back in the source.\<close>

definition good_mapping :: "Mapping \<Rightarrow> bool" where
  "good_mapping m \<longleftrightarrow>
     small_mapping m \<and> 0 \<le> GeneratedCharacter m
     \<and> (SourceIndex m = -1 \<and> SourceLine m = -1 \<and> SourceCharacter m = -1 \<and> NameIndex m = -1
        \<or> 0 \<le> SourceIndex m \<and> 0 \<le> SourceLine m \<and> 0 \<le> SourceCharacter m \<and> -1 \<le> NameIndex m)"

definition add_mapping :: "Generator \<Rightarrow> Mapping \<Rightarrow> Generator option" where
  "add_mapping g m = addMapping g (GeneratedLine m) (GeneratedCharacter m) (SourceIndex m)
     (SourceLine m) (SourceCharacter m) (NameIndex m)"

lemma gen_inv_pending_frame:
  assumes "gen_inv g ms" "l \<ge> pendingGeneratedLine g" "l < 2 ^ 62" "0 \<le> c" "c < 2 ^ 62"
  shows "gen_inv (set_pending_position g l c) ms"
  using assms
  by (auto simp: gen_inv_def set_pending_position_def last_in_range_def pending_in_range_def
      vlq_range_def decodes_to_def dec_at_def)

lemma gen_inv_set_source:
  assumes "gen_inv g ms" "si = -1 \<or> vlq_range si \<and> vlq_range sl \<and> vlq_range sc" "ni = -1 \<or> vlq_range ni"
  shows "gen_inv (set_pending_source g si sl sc ni) ms"
  using assms
  by (auto simp: gen_inv_def set_pending_source_def last_in_range_def pending_in_range_def
      decodes_to_def dec_at_def Let_def)

text \<open>\<open>AddGeneratedMapping\<close> drops the source of the pending mapping afterwards.\<close>

definition drop_source :: "Mapping \<Rightarrow> Generator \<Rightarrow> Generator" where
  "drop_source m g =
     (if SourceIndex m = -1 then g\<lparr>hasPendingSource := False, hasPendingName := False\<rparr> else g)"

lemma gen_inv_drop_source: "gen_inv g ms \<Longrightarrow> gen_inv (drop_source m g) ms"
  by (auto simp: gen_inv_def drop_source_def last_in_range_def pending_in_range_def decodes_to_def dec_at_def)

definition same_tables :: "Generator \<Rightarrow> Generator \<Rightarrow> bool" where
  "same_tables g g' \<longleftrightarrow> g_sources g' = g_sources g \<and> g_names g' = g_names g"

definition abs_pending :: "Generator \<Rightarrow> Mapping option" where
  "abs_pending g = (if hasPending g then Some (pending_mapping g) else None)"

lemma pending_new:
  assumes "good_mapping m" "g1 = set_pending_position g (GeneratedLine m) (GeneratedCharacter m)"
    and "g2 = drop_source m (set_pending_source g1 (SourceIndex m) (SourceLine m) (SourceCharacter m) (NameIndex m))"
  shows "abs_pending g2 = Some m"
  using assms
  by (cases "SourceIndex m = -1")
     (auto simp: good_mapping_def abs_pending_def pending_mapping_def drop_source_def
       set_pending_source_def set_pending_position_def Let_def)

text \<open>The generator of the code at an abstract one.\<close>

definition registers :: "Generator \<Rightarrow> MapSpec \<Rightarrow> bool" where
  "registers g s \<longleftrightarrow>
     spec_source s = (pendingSourceIndex g, pendingSourceLine g, pendingSourceCharacter g)
     \<and> spec_name s = pendingNameIndex g
     \<and> last_source (spec_written s) = (lastSourceIndex g, lastSourceLine g, lastSourceCharacter g)
     \<and> last_name (spec_written s) = lastNameIndex g
     \<and> hasLast g = (spec_written s \<noteq> [])
     \<and> (spec_written s \<noteq> [] \<longrightarrow>
          GeneratedLine (last (spec_written s)) = lastGeneratedLine g
          \<and> GeneratedCharacter (last (spec_written s)) = lastGeneratedCharacter g)
     \<and> (\<not> hasPending g \<longrightarrow> pendingGeneratedLine g = 0)"

definition sim :: "Generator \<Rightarrow> MapSpec \<Rightarrow> bool" where
  "sim g s \<longleftrightarrow> gen_inv g (spec_written s) \<and> spec_pending s = abs_pending g \<and> registers g s"

lemma sim_should_commit:
  "sim g s \<Longrightarrow> shouldCommitMapping g \<longleftrightarrow>
     hasPending g \<and> \<not> spec_repeats s (pending_mapping g)"
  by (auto simp: sim_def registers_def shouldCommitMapping_def spec_repeats_def same_position_def
      pending_mapping_def)

lemma gen_inv_pending:
  assumes "gen_inv g ms"
  shows "hasPendingName g \<Longrightarrow> hasPendingSource g" "0 \<le> pendingSourceIndex g" "0 \<le> pendingNameIndex g"
  using assms by (auto simp: gen_inv_def pending_in_range_def vlq_range_def)

lemma registers_committed:
  assumes "gen_inv g (spec_written s)" "registers g s" "hasPending g"
  shows "registers (committed g) (s\<lparr>spec_written := spec_written s @ [pending_mapping g]\<rparr>)"
  using assms(2,3) gen_inv_pending [OF assms(1)]
  by (auto simp: registers_def committed_def pending_mapping_def source_of_def Let_def)

lemma sim_commit_if:
  assumes "sim g s"
  shows "sim (commit_if g) (spec_flush s)"
proof -
  have inv: "gen_inv g (spec_written s)" and reg: "registers g s" and p: "spec_pending s = abs_pending g"
    using assms by (simp_all add: sim_def)
  show ?thesis
  proof (cases "shouldCommitMapping g")
    case True
    then have "hasPending g" "\<not> spec_repeats s (pending_mapping g)" using sim_should_commit [OF assms] by simp_all
    then have "spec_flush s = s\<lparr>spec_written := spec_written s @ [pending_mapping g]\<rparr>"
      using p by (auto simp: spec_flush_def abs_pending_def)
    moreover have "abs_pending (commit_if g) = abs_pending g" by (simp add: abs_pending_def)
    ultimately show ?thesis
      using True p gen_inv_committed [OF inv] registers_committed [OF inv reg \<open>hasPending g\<close>]
      by (simp add: sim_def commit_if_def)
  next
    case False
    then have "spec_flush s = s"
      using p sim_should_commit [OF assms] by (auto simp: spec_flush_def abs_pending_def split: if_splits)
    then show ?thesis using False assms by (simp add: commit_if_def)
  qed
qed

text \<open>A mapping at a new position, or one that goes back in the source, becomes the pending one.\<close>

lemma sim_new_pending:
  assumes sim: "sim g s" and m: "good_mapping m" and line: "pendingGeneratedLine g \<le> GeneratedLine m"
    and g2: "g2 = set_pending_source (set_pending_position g (GeneratedLine m) (GeneratedCharacter m))
      (SourceIndex m) (SourceLine m) (SourceCharacter m) (NameIndex m)"
  shows "sim (drop_source m g2) (spec_take m s)"
proof -
  have "gen_inv (drop_source m g2) (spec_written s)"
    unfolding g2 using sim line m
    by (intro gen_inv_drop_source gen_inv_set_source gen_inv_pending_frame)
       (auto simp: sim_def good_mapping_def small_mapping_def vlq_range_def)
  moreover have "abs_pending (drop_source m g2) = Some m"
    by (rule pending_new [OF m refl]) (simp add: g2)
  moreover have "registers (drop_source m g2) (spec_take m s)"
    using sim m unfolding g2
    by (auto simp: sim_def registers_def spec_take_def good_mapping_def drop_source_def
        set_pending_source_def set_pending_position_def source_of_def Let_def)
  ultimately show ?thesis by (simp add: sim_def spec_take_def)
qed

text \<open>A mapping at the position of the pending one replaces it or is merged into it.\<close>

lemma sim_same_position:
  assumes sim: "sim g s" and m: "good_mapping m" and p: "hasPending g"
    and pos: "same_position (pending_mapping g) m" and src: "SourceIndex m = -1 \<or> hasPendingSource g"
    and g2: "g2 = set_pending_source g (SourceIndex m) (SourceLine m) (SourceCharacter m) (NameIndex m)"
  shows "sim (drop_source m g2)
    (spec_take (if SourceIndex m = -1 then m else merged (pending_mapping g) m) s)"
proof -
  let ?m = "if SourceIndex m = -1 then m else merged (pending_mapping g) m"
  have inv: "gen_inv g (spec_written s)" and reg: "registers g s" using sim by (simp_all add: sim_def)
  have "gen_inv (drop_source m g2) (spec_written s)"
    unfolding g2 using inv m
    by (intro gen_inv_drop_source gen_inv_set_source)
       (auto simp: good_mapping_def small_mapping_def vlq_range_def)
  moreover have "abs_pending (drop_source m g2) = Some ?m"
    using p pos src m gen_inv_pending [OF inv]
    by (auto simp: g2 abs_pending_def pending_mapping_def same_position_def merged_def good_mapping_def
        drop_source_def set_pending_source_def Let_def)
  moreover have "registers (drop_source m g2) (spec_take ?m s)"
    using reg m p
    by (auto simp: g2 registers_def spec_take_def good_mapping_def drop_source_def merged_def
        pending_mapping_def set_pending_source_def source_of_def Let_def)
  ultimately show ?thesis by (simp add: sim_def spec_take_def)
qed

lemma is_new_position:
  "isNewGeneratedPosition g (GeneratedLine m) (GeneratedCharacter m)
     \<longleftrightarrow> \<not> (hasPending g \<and> same_position (pending_mapping g) m)"
  by (auto simp: isNewGeneratedPosition_def same_position_def pending_mapping_def)

lemma add_mapping_refines:
  assumes sim: "sim g s" and m: "good_mapping m" and line: "pendingGeneratedLine g \<le> GeneratedLine m"
    and guard: "hasPending g \<and> \<not> isNewGeneratedPosition g (GeneratedLine m) (GeneratedCharacter m)
      \<and> SourceIndex m \<noteq> -1 \<longrightarrow> hasPendingSource g"
  shows "\<exists>g'. add_mapping g m = Some g' \<and> sim (drop_source m g') (spec_add s m) \<and> same_tables g g'"
proof (cases "isNewGeneratedPosition g (GeneratedLine m) (GeneratedCharacter m)
    \<or> isBacktrackingSourcePosition g (SourceIndex m) (SourceLine m) (SourceCharacter m)")
  case True
  have inv: "gen_inv g (spec_written s)" and p: "spec_pending s = abs_pending g" using sim by (simp_all add: sim_def)
  define g2 where "g2 = set_pending_source
      (set_pending_position (commit_if g) (GeneratedLine m) (GeneratedCharacter m))
      (SourceIndex m) (SourceLine m) (SourceCharacter m) (NameIndex m)"
  have "add_mapping g m = Some g2"
    using True commit_if(1) [OF inv] by (simp add: add_mapping_def addMapping_def g2_def)
  moreover have "sim (drop_source m g2) (spec_take m (spec_flush s))"
    using sim_commit_if [OF sim] line by (intro sim_new_pending [OF _ m _ g2_def]) simp_all
  moreover have "spec_add s m = spec_take m (spec_flush s)"
  proof (cases "isNewGeneratedPosition g (GeneratedLine m) (GeneratedCharacter m)")
    case new: True
    then show ?thesis
      using p by (auto simp: spec_add_def is_new_position abs_pending_def spec_flush_def split: if_splits)
  next
    case False
    then have bt: "isBacktrackingSourcePosition g (SourceIndex m) (SourceLine m) (SourceCharacter m)"
      and old: "hasPending g" "same_position (pending_mapping g) m"
      using True by (auto simp: is_new_position)
    then have "hasPendingSource g" using guard False by (simp add: isBacktrackingSourcePosition_def)
    then have "backtracks (pending_mapping g) m" "SourceIndex m \<noteq> -1"
      "SourceIndex (pending_mapping g) \<noteq> -1"
      using bt by (auto simp: backtracks_def isBacktrackingSourcePosition_def pending_mapping_def)
    moreover have "spec_pending s = Some (pending_mapping g)"
      using p old(1) by (simp add: abs_pending_def)
    ultimately show ?thesis using old(2) by (simp add: spec_add_def)
  qed
  moreover have "same_tables g g2"
    by (simp add: same_tables_def g2_def set_pending_source_def set_pending_position_def Let_def)
  ultimately show ?thesis by auto
next
  case False
  define g2 where "g2 = set_pending_source g (SourceIndex m) (SourceLine m) (SourceCharacter m) (NameIndex m)"
  have inv: "gen_inv g (spec_written s)" and p: "spec_pending s = abs_pending g" using sim by (simp_all add: sim_def)
  have old: "hasPending g" "same_position (pending_mapping g) m"
    using False by (simp_all add: is_new_position)
  have src: "SourceIndex m = -1 \<or> hasPendingSource g" using guard False old by blast
  have pend: "spec_pending s = Some (pending_mapping g)" using p old(1) by (simp add: abs_pending_def)
  have "add_mapping g m = Some g2"
    using False by (simp add: add_mapping_def addMapping_def g2_def)
  moreover have "sim (drop_source m g2) (spec_add s m)"
  proof (cases "SourceIndex m = -1")
    case True
    then show ?thesis using sim_same_position [OF sim m old src g2_def] pend old by (simp add: spec_add_def)
  next
    case sourced: False
    then have src: "hasPendingSource g" using src by simp
    have "\<not> backtracks (pending_mapping g) m" "SourceIndex (pending_mapping g) \<noteq> -1"
      using False src sourced m gen_inv_pending [OF inv]
      by (auto simp: backtracks_def isBacktrackingSourcePosition_def pending_mapping_def good_mapping_def)
    then show ?thesis
      using sim_same_position [OF sim m old _ g2_def] src pend old sourced by (simp add: spec_add_def)
  qed
  moreover have "same_tables g g2"
    by (simp add: same_tables_def g2_def set_pending_source_def Let_def)
  ultimately show ?thesis by auto
qed

section \<open>The exported operations\<close>

text \<open>When a call is accepted: the generated line does not go back, and the indices are in range.\<close>

primrec admissible :: "nat \<Rightarrow> nat \<Rightarrow> int \<Rightarrow> map_op \<Rightarrow> bool" where
  "admissible sources names line (Generated l c) \<longleftrightarrow> line \<le> l \<and> 0 \<le> c"
| "admissible sources names line (Sourced l c si sl sc) \<longleftrightarrow>
     line \<le> l \<and> 0 \<le> c \<and> 0 \<le> si \<and> si < int sources \<and> 0 \<le> sl \<and> 0 \<le> sc"
| "admissible sources names line (Named l c si sl sc ni) \<longleftrightarrow>
     line \<le> l \<and> 0 \<le> c \<and> 0 \<le> si \<and> si < int sources \<and> 0 \<le> sl \<and> 0 \<le> sc \<and> 0 \<le> ni \<and> ni < int names"

definition spec_line :: "MapSpec \<Rightarrow> int" where
  "spec_line s = (case spec_pending s of None \<Rightarrow> 0 | Some q \<Rightarrow> GeneratedLine q)"

lemma sim_line: "sim g s \<Longrightarrow> pendingGeneratedLine g = spec_line s"
  by (auto simp: sim_def registers_def abs_pending_def pending_mapping_def spec_line_def split: if_splits)

definition op_result :: "Generator \<Rightarrow> MapSpec \<Rightarrow> map_op \<Rightarrow> string option \<Rightarrow> Generator \<Rightarrow> bool" where
  "op_result g s mop e g' \<longleftrightarrow>
     same_tables g g'
     \<and> (e = None \<longleftrightarrow> admissible (length (g_sources g)) (length (g_names g)) (spec_line s) mop)
     \<and> (if e = None then sim g' (spec_add s (op_mapping mop)) else g' = g)"

lemma same_tables_refl [simp]: "same_tables g g"
  by (simp add: same_tables_def)

lemma check_source_args_None:
  fixes n :: nat
  shows "check_source_args g l c si sl sc = None \<longleftrightarrow>
     admissible (length (g_sources g)) n (pendingGeneratedLine g) (Sourced l c si sl sc)"
  by (auto simp: check_source_args_def)

text \<open>A sourced mapping at the position of a pending one without a source is ignored.\<close>

definition add_sourced :: "Generator \<Rightarrow> Mapping \<Rightarrow> (string option \<times> Generator) option" where
  "add_sourced g m =
     (if hasPending g \<and> \<not> isNewGeneratedPosition g (GeneratedLine m) (GeneratedCharacter m)
         \<and> \<not> hasPendingSource g
      then Some (None, g) else map_option (Pair None) (add_mapping g m))"

lemma sourced_refines:
  assumes sim: "sim g s" and m: "good_mapping m" and line: "pendingGeneratedLine g \<le> GeneratedLine m"
    and si: "SourceIndex m \<noteq> -1"
  shows "\<exists>g'. add_sourced g m = Some (None, g') \<and> sim g' (spec_add s m) \<and> same_tables g g'"
proof (cases "hasPending g \<and> \<not> isNewGeneratedPosition g (GeneratedLine m) (GeneratedCharacter m)
    \<and> \<not> hasPendingSource g")
  case True
  then have "spec_pending s = Some (pending_mapping g)" "same_position (pending_mapping g) m"
    "SourceIndex (pending_mapping g) = -1"
    using sim by (auto simp: sim_def abs_pending_def is_new_position) (simp add: pending_mapping_def)
  then have "spec_add s m = s" using si by (simp add: spec_add_def)
  then show ?thesis using True sim by (simp add: add_sourced_def)
next
  case False
  then obtain g' where "add_mapping g m = Some g'" "sim (drop_source m g') (spec_add s m)" "same_tables g g'"
    using add_mapping_refines [OF sim m line] by blast
  then show ?thesis using False si by (auto simp: add_sourced_def drop_source_def)
qed

lemma apply_op_refines:
  assumes sim: "sim g s" and small: "small_mapping (op_mapping mop)"
  shows "\<exists>e g'. apply_op mop g = Some (e, g') \<and> op_result g s mop e g'"
proof (cases "admissible (length (g_sources g)) (length (g_names g)) (pendingGeneratedLine g) mop")
  case False
  then have "\<exists>e. apply_op mop g = Some (Some e, g)"
    by (cases mop)
       (auto simp: AddGeneratedMapping_def AddSourceMapping_def AddNamedSourceMapping_def
         check_source_args_None [where n = 0] not_le not_less split: option.split)
  then show ?thesis using False sim_line [OF sim] by (auto simp: op_result_def)
next
  case True
  let ?m = "op_mapping mop"
  have m: "good_mapping ?m" "pendingGeneratedLine g \<le> GeneratedLine ?m"
    using True small by (cases mop; auto simp: good_mapping_def)+
  have "\<exists>g'. apply_op mop g = Some (None, g') \<and> sim g' (spec_add s ?m) \<and> same_tables g g'"
  proof (cases "SourceIndex ?m = -1")
    case none: True
    then obtain l c where mop: "mop = Generated l c" using True by (cases mop) auto
    obtain g' where g': "add_mapping g ?m = Some g'" "sim (drop_source ?m g') (spec_add s ?m)" "same_tables g g'"
      using add_mapping_refines [OF sim m] none by auto
    then have "apply_op mop g = Some (None, drop_source ?m g')"
      using True mop by (simp add: AddGeneratedMapping_def add_mapping_def drop_source_def)
    then show ?thesis using g' mop by (auto simp: same_tables_def drop_source_def)
  next
    case False
    then have "apply_op mop g = add_sourced g ?m"
      using True by (cases mop)
        (auto simp: AddSourceMapping_def AddNamedSourceMapping_def add_mapping_def add_sourced_def
          check_source_args_def)
    then show ?thesis using sourced_refines [OF sim m False] by simp
  qed
  then show ?thesis using True sim_line [OF sim] by (auto simp: op_result_def)
qed


section \<open>Generators in use\<close>

text \<open>The generators that calls of the exported operations produce.\<close>

inductive generated_by :: "(string \<Rightarrow> string \<Rightarrow> bool) \<Rightarrow> Generator \<Rightarrow> bool" for equalFold where
  new: "generated_by equalFold (NewGenerator file sourceRoot sourcesDirectoryPath caseSensitive)"
| source: "generated_by equalFold g \<Longrightarrow> generated_by equalFold (snd (AddSource equalFold g fileName))"
| content: "generated_by equalFold g \<Longrightarrow> generated_by equalFold (snd (SetSourceContent g i s))"
| name: "generated_by equalFold g \<Longrightarrow> generated_by equalFold (snd (AddName g n))"
| op: "generated_by equalFold g \<Longrightarrow> small_mapping (op_mapping mop) \<Longrightarrow> apply_op mop g = Some (e, g') \<Longrightarrow>
    generated_by equalFold g'"
| raw: "generated_by equalFold g \<Longrightarrow> raw_source_map g = Some (r, g') \<Longrightarrow> generated_by equalFold g'"

lemma gen_inv_new: "gen_inv (NewGenerator f r d c) []"
  by (simp add: gen_inv_def NewGenerator_def last_in_range_def pending_in_range_def vlq_range_def
      decodes_to_def dec_at_def DecodeMappings_def)

lemma raw_source_map_inv:
  assumes "gen_inv g ms"
  shows "raw_source_map g = Some (\<lparr>Version = 3, File = g_file (commit_if g), SourceRoot = g_sourceRoot (commit_if g),
      Sources = g_sources g, Names = g_names g, Mappings = g_mappings (commit_if g),
      SourcesContent = g_sourcesContent (commit_if g)\<rparr>, commit_if g)"
  using commit_if(1) [OF assms] by (simp add: raw_source_map_def)

text \<open>
  The generators with what has happened to them: the mappings that have been added without an
  error, and the calls of \<open>RawSourceMap\<close>.
\<close>

inductive recorded :: "(string \<Rightarrow> string \<Rightarrow> bool) \<Rightarrow> map_event list \<Rightarrow> Generator \<Rightarrow> bool" for equalFold where
  new: "recorded equalFold [] (NewGenerator file sourceRoot sourcesDirectoryPath caseSensitive)"
| source: "recorded equalFold evs g \<Longrightarrow> recorded equalFold evs (snd (AddSource equalFold g fileName))"
| content: "recorded equalFold evs g \<Longrightarrow> recorded equalFold evs (snd (SetSourceContent g i s))"
| name: "recorded equalFold evs g \<Longrightarrow> recorded equalFold evs (snd (AddName g n))"
| added: "recorded equalFold evs g \<Longrightarrow> small_mapping (op_mapping mop) \<Longrightarrow>
    apply_op mop g = Some (None, g') \<Longrightarrow> recorded equalFold (evs @ [Added (op_mapping mop)]) g'"
| rejected: "recorded equalFold evs g \<Longrightarrow> small_mapping (op_mapping mop) \<Longrightarrow>
    apply_op mop g = Some (Some e, g') \<Longrightarrow> recorded equalFold evs g'"
| raw: "recorded equalFold evs g \<Longrightarrow> raw_source_map g = Some (r, g') \<Longrightarrow>
    recorded equalFold (evs @ [Raw]) g'"

lemma sim_frame [simp]:
  "sim (g\<lparr>g_sources := xs, g_rawSources := ys, g_sourceToSourceIndexMap := ix\<rparr>) s = sim g s"
  "sim (g\<lparr>g_sourcesContent := cs\<rparr>) s = sim g s"
  "sim (g\<lparr>g_names := xs, g_nameToNameIndexMap := ix\<rparr>) s = sim g s"
  by (simp_all add: sim_def registers_def abs_pending_def pending_mapping_def gen_inv_def
      last_in_range_def pending_in_range_def decodes_to_def dec_at_def)

lemma sim_tables:
  assumes "sim g s"
  shows "sim (snd (AddSource equalFold g f)) s" "sim (snd (SetSourceContent g i c)) s"
    "sim (snd (AddName g n)) s"
  using assms by (simp_all add: AddSource_def SetSourceContent_def AddName_def Let_def split: option.split)

lemma sim_new: "sim (NewGenerator f r d c) spec_new"
  using gen_inv_new [of f r d c]
  by (simp add: sim_def registers_def abs_pending_def spec_new_def NewGenerator_def)

lemma raw_sim:
  assumes "sim g s" "raw_source_map g = Some (r, g')"
  shows "sim g' (spec_flush s)"
proof -
  have "g' = commit_if g" using raw_source_map_inv [of g] assms by (auto simp: sim_def)
  then show ?thesis using sim_commit_if [OF assms(1)] by simp
qed

lemma generated_by_sim: "generated_by equalFold g \<Longrightarrow> \<exists>s. sim g s"
proof (induction rule: generated_by.induct)
  case (op g mop e g')
  then obtain s where "sim g s" by blast
  from apply_op_refines [OF this op.hyps(2)] \<open>sim g s\<close> show ?case
    using op.hyps(3) by (cases e) (auto simp: op_result_def)
qed (use sim_new sim_tables raw_sim in blast)+

lemma generated_by_inv: "generated_by equalFold g \<Longrightarrow> \<exists>ms. gen_inv g ms"
  using generated_by_sim by (auto simp: sim_def)

lemma recorded_sim: "recorded equalFold evs g \<Longrightarrow> sim g (spec_run evs)"
proof (induction rule: recorded.induct)
  case (added evs g mop g')
  from apply_op_refines [OF added.IH added.hyps(2)] show ?case
    using added.hyps(3) by (auto simp: op_result_def)
next
  case (rejected evs g mop e g')
  from apply_op_refines [OF rejected.IH rejected.hyps(2)] show ?case
    using rejected.hyps(3) rejected.IH by (auto simp: op_result_def)
qed (simp_all add: sim_new sim_tables raw_sim)

text \<open>The mappings that have been written, as the decoder reads them.\<close>

definition written :: "Generator \<Rightarrow> Mapping list" where
  "written g = fst (Values (DecodeMappings (g_mappings g)))"

lemma gen_inv_written:
  assumes "gen_inv g ms"
  shows "ms = written g" "d_error (snd (Values (DecodeMappings (g_mappings g)))) = None"
proof -
  have "Values (dec_at g []) = ([], (dec_at g [])\<lparr>d_done := True\<rparr>)"
    by (subst Values.simps, subst Next.simps) (simp add: dec_at_def stopIterating_def)
  moreover have "Values (DecodeMappings (g_mappings g @ [])) = (let (ms', e) = Values (dec_at g []) in (ms @ ms', e))"
    using assms unfolding gen_inv_def decodes_to_def by (metis delimited_def)
  ultimately have "Values (DecodeMappings (g_mappings g)) = (ms, (dec_at g [])\<lparr>d_done := True\<rparr>)" by simp
  then show "ms = written g" "d_error (snd (Values (DecodeMappings (g_mappings g)))) = None"
    by (simp_all add: written_def dec_at_def)
qed


lemma sim_written: "sim g s \<Longrightarrow> written g = spec_written s"
  using gen_inv_written(1) [of g "spec_written s"] by (simp add: sim_def)

end
