(* ===== verification/SourceMapTrip.thy ===== *)
theory SourceMapTrip
  imports SourceMapSpec
begin

text \<open>
  The round trip of source maps: the mappings that have been added are read back by the decoder of
  \<^verbatim>\<open>decoder.go\<close>; the tables of sources and names stay consistent; what the decoder
  yields for untrusted mappings is well formed; and further calls of \<open>RawSourceMap\<close> may
  write the pending mapping again.
\<close>

section \<open>Refinement\<close>

text \<open>A generator with a source and a name.\<close>

definition sample_generator :: Generator where
  "sample_generator = snd (AddName (snd (AddSource (=) (NewGenerator ''a.js'' [] ''/'' True) ''/a.ts'')) ''x'')"

lemma recorded_sample: "recorded (=) [] sample_generator"
  unfolding sample_generator_def by (intro recorded.intros)

text \<open>C17: the generator refines the abstract one, which is run on the mappings that have been added and
  the calls of \<open>RawSourceMap\<close> and does not look at the state of the code: the mappings that the
  decoder reads from what has been written, and the pending mapping, are those of the abstract
  generator. A further call that adds a mapping never panics; it fails exactly when its line goes
  back, a number is negative or an index is out of range, and then leaves the generator as it was;
  otherwise it does what the abstract generator does. The numbers are below \<open>2 ^ 62\<close>.\<close>

theorem generator_refines_mappings:
  assumes "recorded equalFold evs g" "small_mapping (op_mapping mop)"
  shows "written g = spec_written (spec_run evs) \<and> abs_pending g = spec_pending (spec_run evs)
    \<and> (\<exists>e g'. apply_op mop g = Some (e, g')
       \<and> (e = None \<longleftrightarrow>
            admissible (length (g_sources g)) (length (g_names g)) (spec_line (spec_run evs)) mop)
       \<and> (if e = None
          then written g' = spec_written (spec_add (spec_run evs) (op_mapping mop))
            \<and> abs_pending g' = spec_pending (spec_add (spec_run evs) (op_mapping mop))
          else g' = g))"
proof -
  have sim: "sim g (spec_run evs)" by (rule recorded_sim [OF assms(1)])
  obtain e g' where r: "apply_op mop g = Some (e, g')" "op_result g (spec_run evs) mop e g'"
    using apply_op_refines [OF sim assms(2)] by blast
  moreover have "abs_pending g = spec_pending (spec_run evs)" using sim by (simp add: sim_def)
  ultimately show ?thesis
    using sim_written [OF sim] sim_written [of g'] by (auto simp: op_result_def sim_def)
qed

lemma generator_refines_mappings_witness:
  "written sample_generator = spec_written (spec_run [])
    \<and> abs_pending sample_generator = spec_pending (spec_run [])
    \<and> (\<exists>e g'. apply_op (Named 2 5 0 3 1 0) sample_generator = Some (e, g')
       \<and> (e = None \<longleftrightarrow>
            admissible (length (g_sources sample_generator)) (length (g_names sample_generator))
              (spec_line (spec_run [])) (Named 2 5 0 3 1 0))
       \<and> (if e = None
          then written g' = spec_written (spec_add (spec_run []) (op_mapping (Named 2 5 0 3 1 0)))
            \<and> abs_pending g' = spec_pending (spec_add (spec_run []) (op_mapping (Named 2 5 0 3 1 0)))
          else g' = sample_generator))"
  by (rule generator_refines_mappings [OF recorded_sample]) (simp add: small_mapping_def)

section \<open>The mappings of a source map\<close>

text \<open>
  What a list of added mappings comes to: neighbours at the same generated position become one
  mapping, unless the later one goes back in its source.
\<close>

function collapse :: "Mapping list \<Rightarrow> Mapping list" where
  "collapse [] = []"
| "collapse [q] = [q]"
| "collapse (q # m # ms) =
     (if \<not> same_position q m then q # collapse (m # ms)
      else if SourceIndex m = -1 then collapse (m # ms)
      else if SourceIndex q = -1 then collapse (q # ms)
      else if backtracks q m then q # collapse (m # ms)
      else collapse (merged q m # ms))"
  by pat_completeness auto
termination by (relation "measure length") auto



lemma source_of_merged [simp]:
  "source_of (merged q m) = source_of m" "SourceIndex (merged q m) = SourceIndex m"
  by (simp_all add: source_of_def merged_def)



lemma spec_take_written [simp]: "spec_written (spec_take m s) = spec_written s"
  by (simp add: spec_take_def)

lemma collapse_not_Nil [simp]: "collapse (q # ms) \<noteq> []"
  by (induction "q # ms" arbitrary: q ms rule: collapse.induct) auto

abbreviation "spec_adds ms s \<equiv> fold (\<lambda>m s. spec_add s m) ms s"




lemma raw_decodes:
  assumes "sim g s"
  shows "\<exists>r g'. raw_source_map g = Some (r, g') \<and> sim g' (spec_flush s)
    \<and> fst (Values (DecodeMappings (Mappings r))) = spec_written (spec_flush s)
    \<and> d_error (snd (Values (DecodeMappings (Mappings r)))) = None"
proof -
  have inv: "gen_inv g (spec_written s)" using assms by (simp add: sim_def)
  have s': "sim (commit_if g) (spec_flush s)" by (rule sim_commit_if [OF assms])
  then have "gen_inv (commit_if g) (spec_written (spec_flush s))" by (simp add: sim_def)
  from gen_inv_written [OF this] show ?thesis
    using raw_source_map_inv [OF inv] s' by (auto simp: written_def)
qed



text \<open>A sequence of calls on a generator.\<close>

definition apply_ops :: "map_op list \<Rightarrow> Generator \<Rightarrow> Generator" where
  "apply_ops mops g = fold (\<lambda>mop g. snd (the (apply_op mop g))) mops g"

lemma recorded_apply_op:
  assumes "recorded equalFold evs g" "small_mapping (op_mapping mop)"
    "map_option fst (apply_op mop g) = Some None"
  shows "recorded equalFold (evs @ [Added (op_mapping mop)]) (apply_ops [mop] g)"
    "apply_op mop g = Some (None, apply_ops [mop] g)"
proof -
  obtain g' where "apply_op mop g = Some (None, g')" using assms(3) by (auto simp: map_option_case split: option.splits)
  then show "recorded equalFold (evs @ [Added (op_mapping mop)]) (apply_ops [mop] g)"
    "apply_op mop g = Some (None, apply_ops [mop] g)"
    using recorded.added [OF assms(1,2)] by (simp_all add: apply_ops_def)
qed



section \<open>The tables of sources and names\<close>

text \<open>A table and its index agree: the index of an entry is its only place in the table.\<close>

definition table_ok :: "string list \<Rightarrow> (string \<rightharpoonup> int) \<Rightarrow> bool" where
  "table_ok xs ix \<longleftrightarrow> distinct xs \<and> (\<forall>x i. ix x = Some i \<longleftrightarrow> 0 \<le> i \<and> i < int (length xs) \<and> xs ! nat i = x)"

lemma table_ok_add:
  assumes "table_ok xs ix" "ix x = None"
  shows "table_ok (xs @ [x]) (ix(x \<mapsto> int (length xs)))"
proof -
  have new: "x \<notin> set xs"
  proof
    assume "x \<in> set xs"
    then obtain n where "n < length xs" "xs ! n = x" by (auto simp: in_set_conv_nth)
    then have "ix x = Some (int n)" using assms(1) by (simp add: table_ok_def)
    then show False using assms(2) by simp
  qed
  have "(ix(x \<mapsto> int (length xs))) y = Some i \<longleftrightarrow>
      0 \<le> i \<and> i < int (length (xs @ [x])) \<and> (xs @ [x]) ! nat i = y" for y i
  proof (cases "i = int (length xs)")
    case True
    then show ?thesis using assms(1) by (auto simp: table_ok_def)
  next
    case False
    then have "(xs @ [x]) ! nat i = xs ! nat i \<and> xs ! nat i \<in> set xs" if "0 \<le> i" "i < int (length (xs @ [x]))"
      using that by (auto simp: nth_append)
    then show ?thesis using assms(1) new False by (auto simp: table_ok_def)
  qed
  then show ?thesis using assms(1) new by (auto simp: table_ok_def)
qed

definition tables_ok :: "Generator \<Rightarrow> bool" where
  "tables_ok g \<longleftrightarrow>
     table_ok (g_sources g) (g_sourceToSourceIndexMap g) \<and> table_ok (g_names g) (g_nameToNameIndexMap g)
     \<and> length (g_rawSources g) = length (g_sources g)
     \<and> length (g_sourcesContent g) \<le> length (g_sources g)"

definition tables :: "Generator \<Rightarrow> string list \<times> (string \<rightharpoonup> int) \<times> string list \<times> (string \<rightharpoonup> int) \<times> string list \<times> string option list" where
  "tables g = (g_sources g, g_sourceToSourceIndexMap g, g_names g, g_nameToNameIndexMap g,
     g_rawSources g, g_sourcesContent g)"

lemma tables_frame: "tables g' = tables g \<Longrightarrow> tables_ok g' = tables_ok g"
  by (simp add: tables_def tables_ok_def)

lemma commit_if_tables: "tables (commit_if g) = tables g"
  by (simp add: commit_if_def committed_def tables_def Let_def)

lemma apply_op_tables:
  assumes "gen_inv g ms" "apply_op mop g = Some (e, g')"
  shows "tables g' = tables g"
proof -
  have "tables g2 = tables g" if "add_mapping g m = Some g2" for m g2
    using that commit_if(1) [OF assms(1)] commit_if_tables [of g]
    by (auto simp: add_mapping_def addMapping_def set_pending_source_def set_pending_position_def
        tables_def Let_def split: if_splits)
  then have add: "addMapping g l c si sl sc ni = Some g2 \<Longrightarrow> tables g2 = tables g" for l c si sl sc ni g2
    by (metis Mapping.select_convs(1-6) add_mapping_def)
  show ?thesis
    using assms(2) add
    by (cases mop)
       (auto simp: AddGeneratedMapping_def AddSourceMapping_def AddNamedSourceMapping_def
         bind_eq_Some_conv tables_def split: if_splits option.splits)
qed

text \<open>C19: the tables of a generator stay consistent under all operations: no source and no name
  stands twice, and the index that the maps hold for an entry is its place in the table.\<close>

theorem generator_tables_invariant:
  assumes "generated_by equalFold g"
  shows "tables_ok g"
  using assms
proof (induction rule: generated_by.induct)
  case new
  show ?case by (simp add: tables_ok_def table_ok_def NewGenerator_def)
next
  case (source g fileName)
  then show ?case
    using table_ok_add by (auto simp: AddSource_def tables_ok_def Let_def split: option.split)
next
  case (content g i s)
  then show ?case by (auto simp: SetSourceContent_def tables_ok_def Let_def)
next
  case (name g n)
  then show ?case
    using table_ok_add by (auto simp: AddName_def tables_ok_def Let_def split: option.split)
next
  case (op g mop e g')
  then show ?case using generated_by_inv apply_op_tables tables_frame by metis
next
  case (raw g r g')
  then obtain ms where "gen_inv g ms" using generated_by_inv by blast
  then have "g' = commit_if g" using raw_source_map_inv raw.hyps(2) by auto
  then show ?case using raw.IH commit_if_tables tables_frame by metis
qed

lemma generator_tables_invariant_witness:
  "tables_ok (snd (AddName (NewGenerator ''a.js'' [] ''/'' True) ''x''))"
  by (rule generator_tables_invariant [where equalFold = "(=)"]) (intro generated_by.new generated_by.name)

section \<open>Untrusted mappings\<close>

definition valid_mapping :: "Mapping \<Rightarrow> bool" where
  "valid_mapping m \<longleftrightarrow>
     0 \<le> GeneratedCharacter m
     \<and> (SourceIndex m = -1 \<and> SourceLine m = -1 \<and> SourceCharacter m = -1 \<and> NameIndex m = -1
        \<or> 0 \<le> SourceIndex m \<and> 0 \<le> SourceLine m \<and> 0 \<le> SourceCharacter m \<and> -1 \<le> NameIndex m)"

lemma decodeVLQ_frame:
  assumes "decodeVLQ d = (v, d1)"
  shows "d_generatedCharacter d1 = d_generatedCharacter d" "d_sourceIndex d1 = d_sourceIndex d"
    "d_sourceLine d1 = d_sourceLine d" "d_sourceCharacter d1 = d_sourceCharacter d"
  using assms by (auto simp: decodeVLQ_def split: prod.splits sum.splits)

lemma decode_name_valid:
  assumes "decode_name d = (Some m, e)" "0 \<le> d_generatedCharacter d" "0 \<le> d_sourceIndex d"
    "0 \<le> d_sourceLine d" "0 \<le> d_sourceCharacter d"
  shows "valid_mapping m"
proof -
  obtain v d1 where v: "decodeVLQ d = (v, d1)" by fastforce
  show ?thesis
    using assms decodeVLQ_frame [OF v]
    by (auto simp: decode_name_def v Let_def stop_defs valid_mapping_def captureMapping_def
        split: if_split_asm)
qed

lemma decode_sourceCharacter_valid:
  assumes "decode_sourceCharacter d = (Some m, e)" "0 \<le> d_generatedCharacter d"
    "0 \<le> d_sourceIndex d" "0 \<le> d_sourceLine d"
  shows "valid_mapping m"
proof -
  obtain v d1 where v: "decodeVLQ d = (v, d1)" by fastforce
  show ?thesis
    using assms decodeVLQ_frame [OF v]
    by (auto simp: decode_sourceCharacter_def v Let_def stop_defs split: if_split_asm
        elim!: decode_name_valid)
qed

lemma decode_sourceLine_valid:
  assumes "decode_sourceLine d = (Some m, e)" "0 \<le> d_generatedCharacter d" "0 \<le> d_sourceIndex d"
  shows "valid_mapping m"
proof -
  obtain v d1 where v: "decodeVLQ d = (v, d1)" by fastforce
  show ?thesis
    using assms decodeVLQ_frame [OF v]
    by (auto simp: decode_sourceLine_def v Let_def stop_defs split: if_split_asm
        elim!: decode_sourceCharacter_valid)
qed

lemma decode_source_valid:
  assumes "decode_source d = (Some m, e)" "0 \<le> d_generatedCharacter d"
  shows "valid_mapping m"
proof -
  obtain v d1 where v: "decodeVLQ d = (v, d1)" by fastforce
  show ?thesis
    using assms decodeVLQ_frame [OF v]
    by (auto simp: decode_source_def v Let_def stop_defs split: if_split_asm
        elim!: decode_sourceLine_valid)
qed

lemma decode_segment_valid:
  assumes "decode_segment d = (Some m, e)"
  shows "valid_mapping m"
proof -
  obtain v d1 where v: "decodeVLQ d = (v, d1)" by fastforce
  show ?thesis
    using assms
    by (auto simp: decode_segment_def v Let_def stop_defs valid_mapping_def captureMapping_def
        split: if_split_asm dest!: decode_source_valid)
qed

lemma Next_valid: "Next d = (Some m, e) \<Longrightarrow> valid_mapping m"
proof (induction d rule: Next.induct)
  case (1 d)
  show ?case
    using 1 decode_segment_valid
    by (subst (asm) (3) Next.simps) (auto simp: stop_defs Let_def split: if_split_asm)
qed

text \<open>C20: whatever string is given to the decoder, it terminates, and every mapping it yields has a
  generated character that is not negative and either no source and no name, or a source index, line
  and character that are not negative.\<close>

theorem decoded_mappings_valid: "list_all valid_mapping (fst (Values d))"
proof (induction d rule: Values.induct)
  case (1 d)
  then show ?case by (subst Values.simps) (auto split: prod.split option.split dest: Next_valid)
qed

section \<open>Further calls of \<open>RawSourceMap\<close>\<close>

text \<open>\<open>RawSourceMap\<close> called \<open>n\<close> times before the call whose result counts.\<close>

primrec raw_again :: "nat \<Rightarrow> Generator \<Rightarrow> (RawSourceMap \<times> Generator) option" where
  "raw_again 0 g = raw_source_map g"
| "raw_again (Suc n) g = do { (_, g1) \<leftarrow> raw_source_map g; raw_again n g1 }"

lemma stale_flush:
  assumes "spec_pending s = Some q" "SourceIndex q = -1" "spec_source s \<noteq> last_source (spec_written s)"
  shows "spec_flush s = s\<lparr>spec_written := spec_written s @ [q]\<rparr>"
    "spec_source (spec_flush s) \<noteq> last_source (spec_written (spec_flush s))"
  using assms by (simp_all add: spec_flush_def spec_repeats_def)

lemma raw_again_stale:
  assumes "sim g s" "spec_pending s = Some q" "SourceIndex q = -1"
    "spec_source s \<noteq> last_source (spec_written s)"
  shows "\<exists>r h. raw_again n g = Some (r, h)
    \<and> fst (Values (DecodeMappings (Mappings r))) = spec_written s @ replicate (Suc n) q"
  using assms
proof (induction n arbitrary: g s)
  case 0
  then show ?case using raw_decodes [OF 0(1)] stale_flush(1) [OF 0(2-4)] by auto
next
  case (Suc n)
  note f = stale_flush [OF Suc.prems(2-4)]
  obtain r g1 where r: "raw_source_map g = Some (r, g1)" "sim g1 (spec_flush s)"
    using raw_decodes [OF Suc.prems(1)] by blast
  have "spec_pending (spec_flush s) = Some q" using f Suc.prems(2) by simp
  from Suc.IH [OF r(2) this Suc.prems(3) f(2)] show ?case using r(1) f(1) by simp
qed

text \<open>C21: the source fields of the pending mapping are not cleared when a mapping without a source
  replaces it, and they take part in the test whether it has been written. So when a mapping with
  a source is added at a new generated position, with another source position than the one written
  last, and a mapping without a source then replaces it, every call of \<open>RawSourceMap\<close> (or
  \<open>String\<close>) writes that mapping once more.\<close>

theorem further_raw_source_maps_differ:
  assumes "recorded equalFold evs g"
    and "abs_pending g = None \<or> \<not> same_position (the (abs_pending g)) (op_mapping (Sourced l c si sl sc))"
    and "apply_op (Sourced l c si sl sc) g = Some (None, g1)" "small_mapping (op_mapping (Sourced l c si sl sc))"
    and "(si, sl, sc) \<noteq> last_source (written g1)"
    and "apply_op (Generated l c) g1 = Some (None, g2)"
  shows "\<exists>r h. raw_again n g2 = Some (r, h)
    \<and> fst (Values (DecodeMappings (Mappings r))) = written g1 @ replicate (Suc n) (op_mapping (Generated l c))"
proof -
  let ?m = "op_mapping (Sourced l c si sl sc)" and ?q = "op_mapping (Generated l c)"
  have small: "small_mapping ?q" using assms(4) by (simp add: small_mapping_def)
  define s where "s = spec_run evs"
  have sim: "sim g s" unfolding s_def by (rule recorded_sim [OF assms(1)])
  have "sim g1 (spec_add s ?m)" and ok: "admissible (length (g_sources g)) (length (g_names g)) (spec_line s) (Sourced l c si sl sc)"
    using apply_op_refines [OF sim assms(4)] assms(3) by (auto simp: op_result_def)
  moreover have "spec_add s ?m = spec_take ?m (spec_flush s)"
    using assms(2) sim by (auto simp: sim_def spec_add_def spec_flush_def split: option.split)
  ultimately have sim1: "sim g1 (spec_take ?m (spec_flush s))" by simp
  moreover have "spec_add (spec_take ?m (spec_flush s)) ?q = spec_take ?q (spec_take ?m (spec_flush s))"
    by (simp add: spec_add_def spec_take_def same_position_def)
  ultimately have "sim g2 (spec_take ?q (spec_take ?m (spec_flush s)))"
    using apply_op_refines [OF sim1 small] assms(6) by (auto simp: op_result_def)
  moreover have "written g1 = spec_written (spec_flush s)" using sim_written [OF sim1] by simp
  ultimately show ?thesis
    using raw_again_stale [of g2 "spec_take ?q (spec_take ?m (spec_flush s))" ?q n] assms(5) ok
    by (simp add: spec_take_def source_of_def)
qed

lemma further_raw_source_maps_differ_witness:
  "\<exists>r h. raw_again 3 (apply_ops [Sourced 0 0 0 1 0, Generated 0 0] sample_generator) = Some (r, h)
    \<and> fst (Values (DecodeMappings (Mappings r)))
        = written (apply_ops [Sourced 0 0 0 1 0] sample_generator)
          @ replicate (Suc 3) (op_mapping (Generated 0 0))"
proof (rule further_raw_source_maps_differ [OF recorded_sample])
  show small: "small_mapping (op_mapping (Sourced 0 0 0 1 0))" by (simp add: small_mapping_def)
  have r1: "map_option fst (apply_op (Sourced 0 0 0 1 0) sample_generator) = Some None" by code_simp
  show "apply_op (Sourced 0 0 0 1 0) sample_generator
      = Some (None, apply_ops [Sourced 0 0 0 1 0] sample_generator)"
    by (rule recorded_apply_op(2) [OF recorded_sample small r1])
  have r2: "map_option fst (apply_op (Generated 0 0) (apply_ops [Sourced 0 0 0 1 0] sample_generator)) = Some None"
    by code_simp
  have "small_mapping (op_mapping (Generated 0 0))" by (simp add: small_mapping_def)
  from recorded_apply_op(2) [OF recorded_apply_op(1) [OF recorded_sample small r1] this r2]
  show "apply_op (Generated 0 0) (apply_ops [Sourced 0 0 0 1 0] sample_generator)
      = Some (None, apply_ops [Sourced 0 0 0 1 0, Generated 0 0] sample_generator)"
    by (simp only: apply_ops_def fold.simps o_def id_def)
qed code_simp+

end
