(* ===== verification/MapInterface.thy ===== *)
theory MapInterface
  imports Main
begin

text \<open>
  The contract of the finite maps and sets that the compiler's packages keep: what a lookup
  returns after every operation. Clients of a map are proved once against the contract; the
  implementations of \<^verbatim>\<open>collections\<close> are interpreted in it where they are modelled.
\<close>

section \<open>Maps\<close>

text \<open>A map that is only read and extended: \<open>look\<close> after \<open>put\<close>.\<close>

locale extensible_map =
  fixes empty :: "'m" and look :: "'m \<Rightarrow> 'k \<Rightarrow> 'v option" and put :: "'k \<Rightarrow> 'v \<Rightarrow> 'm \<Rightarrow> 'm"
    and invar :: "'m \<Rightarrow> bool"
  assumes look_empty: "look empty k = None"
    and look_put: "invar m \<Longrightarrow> look (put k v m) k' = (if k' = k then Some v else look m k')"
    and invar_empty: "invar empty"
    and invar_put: "invar m \<Longrightarrow> invar (put k v m)"
begin

text \<open>A map filled from a list of entries, the later entries winning.\<close>

definition fill :: "('k \<times> 'v) list \<Rightarrow> 'm \<Rightarrow> 'm" where
  "fill entries m = fold (\<lambda>(k, v). put k v) entries m"

lemma invar_fill: "invar m \<Longrightarrow> invar (fill entries m)"
  by (induction entries arbitrary: m) (auto simp: fill_def invar_put)

lemma look_fill:
  "invar m \<Longrightarrow>
   look (fill entries m) k = (case map_of (rev entries) k of Some v \<Rightarrow> Some v | None \<Rightarrow> look m k)"
proof (induction entries arbitrary: m)
  case (Cons e es)
  obtain k' v where e: "e = (k', v)" by fastforce
  have "look (fill (e # es) m) k = look (fill es (put k' v m)) k" by (simp add: fill_def e)
  also have "\<dots> = (case map_of (rev es) k of Some v \<Rightarrow> Some v | None \<Rightarrow> look (put k' v m) k)"
    using Cons by (simp add: invar_put)
  finally show ?case
    using Cons.prems by (auto simp: e look_put map_add_def split: option.split)
qed (simp add: fill_def)

end

text \<open>A map from which entries can be removed.\<close>

locale deletable_map = extensible_map +
  fixes remove :: "'b \<Rightarrow> 'a \<Rightarrow> 'a"
  assumes look_remove: "invar m \<Longrightarrow> look (remove k m) k' = (if k' = k then None else look m k')"
    and invar_remove: "invar m \<Longrightarrow> invar (remove k m)"
begin

lemma remove_put: "invar m \<Longrightarrow> look (remove k (put k v m)) = look (remove k m)"
  by (rule ext) (simp add: look_remove look_put invar_put)

lemma put_remove: "invar m \<Longrightarrow> look (put k v (remove k m)) = look (put k v m)"
  by (rule ext) (simp add: look_remove look_put invar_remove)

lemma remove_absent: "invar m \<Longrightarrow> look m k = None \<Longrightarrow> look (remove k m) = look m"
  by (rule ext) (simp add: look_remove)

end

section \<open>Sets\<close>

locale extensible_set =
  fixes empty :: "'s" and member :: "'s \<Rightarrow> 'a \<Rightarrow> bool" and add :: "'a \<Rightarrow> 's \<Rightarrow> 's" and invar :: "'s \<Rightarrow> bool"
  assumes member_empty: "\<not> member empty x"
    and member_add: "invar s \<Longrightarrow> member (add x s) y \<longleftrightarrow> y = x \<or> member s y"
    and set_invar_empty: "invar empty"
    and set_invar_add: "invar s \<Longrightarrow> invar (add x s)"
begin

lemma member_fold_add: "invar s \<Longrightarrow> member (fold add xs s) y \<longleftrightarrow> y \<in> set xs \<or> member s y"
  by (induction xs arbitrary: s) (auto simp: member_add set_invar_add)

lemma invar_fold_add: "invar s \<Longrightarrow> invar (fold add xs s)"
  by (induction xs arbitrary: s) (auto simp: set_invar_add)

end

text \<open>A map to the unit type is a set.\<close>

sublocale extensible_map \<subseteq> keys: extensible_set empty "\<lambda>m k. look m k \<noteq> None" "\<lambda>k. put k v" invar
  for v
  by unfold_locales (auto simp: look_empty look_put invar_empty invar_put)

end
