(* ===== verification/Collections.thy ===== *)
theory Collections
  imports Prelude MapInterface "HOL-Library.Mapping" "HOL-Library.AList" "HOL-Library.AList_Mapping"
begin

text \<open>
  The ordered collections of \<^verbatim>\<open>internal/collections\<close>: the insertion-ordered map and set
  (\<^verbatim>\<open>ordered_map.go\<close>, \<^verbatim>\<open>ordered_set.go\<close>) and the multimap (\<^verbatim>\<open>multimap.go\<close>). A Go map is a
  \<open>mapping option\<close>, \<open>None\<close> being the nil map: reading and deleting treat it as empty, writing
  needs it allocated. A pointer that may be nil is an option as well. An operation that can
  panic returns an option, \<open>None\<close> being the panic.
\<close>

section \<open>Go maps and slices\<close>

definition go_map :: "('k, 'v) mapping option \<Rightarrow> ('k, 'v) mapping" where
  "go_map m = (case m of None \<Rightarrow> Mapping.empty | Some f \<Rightarrow> f)"

lemma go_map_simps [simp]: "go_map None = Mapping.empty" "go_map (Some f) = f"
  by (simp_all add: go_map_def)

lemma lookup_delete_if: "Mapping.lookup (Mapping.delete k m) k' = (if k' = k then None else Mapping.lookup m k')"
  by simp

lemma lookup_go_map_delete [simp]:
  "Mapping.lookup (go_map (map_option (Mapping.delete k) m)) = (Mapping.lookup (go_map m))(k := None)"
  by (cases m) (auto simp: fun_eq_iff lookup_delete_if)

text \<open>\<open>slices.Index\<close>: the first index of an element, or -1.\<close>

fun slices_Index :: "'a list \<Rightarrow> 'a \<Rightarrow> int" where
  "slices_Index [] x = -1"
| "slices_Index (y # ys) x =
    (if y = x then 0 else (let i = slices_Index ys x in if i < 0 then -1 else i + 1))"

text \<open>\<open>slices.Delete\<close>, which panics when the bounds are not a sub-slice.\<close>

definition slices_Delete :: "'a list \<Rightarrow> int \<Rightarrow> int \<Rightarrow> 'a list option" where
  "slices_Delete xs i j =
    (if 0 \<le> i \<and> i \<le> j \<and> j \<le> int (length xs) then Some (take (nat i) xs @ drop (nat j) xs) else None)"

lemma slices_Index_bounds: "-1 \<le> slices_Index xs x \<and> slices_Index xs x < int (length xs)"
  by (induction xs) (auto simp: Let_def)

lemma slices_Index_split:
  assumes "x \<in> set xs"
  obtains pre post where "xs = pre @ x # post" "x \<notin> set pre" "slices_Index xs x = int (length pre)"
  using assms
proof (induction xs arbitrary: thesis)
  case (Cons y ys)
  show ?case
  proof (cases "y = x")
    case True
    then show ?thesis using Cons.prems(1)[of "[]" ys] by simp
  next
    case False
    then obtain pre post where "ys = pre @ x # post" "x \<notin> set pre"
      "slices_Index ys x = int (length pre)" using Cons by auto
    then show ?thesis using False Cons.prems(1)[of "y # pre" post] by simp
  qed
qed simp

lemma slices_Index_absent: "x \<notin> set xs \<Longrightarrow> slices_Index xs x = -1"
  by (induction xs) auto

section \<open>OrderedMap\<close>

record ('k, 'v) OrderedMap =
  om_keys :: "'k list"
  om_mp :: "('k, 'v) mapping option"

abbreviation om_lookup :: "('k, 'v) OrderedMap \<Rightarrow> 'k \<Rightarrow> 'v option" where
  "om_lookup m \<equiv> Mapping.lookup (go_map (om_mp m))"

definition OrderedMap_zero :: "('k, 'v) OrderedMap" where
  "OrderedMap_zero = \<lparr>om_keys = [], om_mp = None\<rparr>"

definition newMapWithSizeHint :: "('k, 'v) OrderedMap" where
  "newMapWithSizeHint = \<lparr>om_keys = [], om_mp = Some Mapping.empty\<rparr>"

definition OrderedMap_Set :: "'k \<Rightarrow> 'v \<Rightarrow> ('k, 'v) OrderedMap \<Rightarrow> ('k, 'v) OrderedMap" where
  "OrderedMap_Set key v m =
    (let mp = (case om_mp m of None \<Rightarrow> Mapping.empty | Some f \<Rightarrow> f);
         keys' = (if Mapping.lookup mp key = None then om_keys m @ [key] else om_keys m)
     in m\<lparr>om_keys := keys', om_mp := Some (Mapping.update key v mp)\<rparr>)"

definition NewOrderedMapFromList :: "('k \<times> 'v) list \<Rightarrow> ('k, 'v) OrderedMap" where
  "NewOrderedMapFromList items = fold (\<lambda>(k, v). OrderedMap_Set k v) items newMapWithSizeHint"

definition OrderedMap_Get :: "'v \<Rightarrow> ('k, 'v) OrderedMap \<Rightarrow> 'k \<Rightarrow> 'v \<times> bool" where
  "OrderedMap_Get zero m key =
    (case om_lookup m key of Some v \<Rightarrow> (v, True) | None \<Rightarrow> (zero, False))"

definition OrderedMap_GetOrZero :: "'v \<Rightarrow> ('k, 'v) OrderedMap \<Rightarrow> 'k \<Rightarrow> 'v" where
  "OrderedMap_GetOrZero zero m key = (case om_lookup m key of Some v \<Rightarrow> v | None \<Rightarrow> zero)"

definition OrderedMap_EntryAt ::
    "'k \<Rightarrow> 'v \<Rightarrow> ('k, 'v) OrderedMap \<Rightarrow> int \<Rightarrow> 'k \<times> 'v \<times> bool" where
  "OrderedMap_EntryAt zeroK zeroV m index =
    (if index < 0 \<or> index \<ge> int (length (om_keys m)) then (zeroK, zeroV, False)
     else let key = om_keys m ! nat index in (key, OrderedMap_GetOrZero zeroV m key, True))"

definition OrderedMap_Has :: "('k, 'v) OrderedMap \<Rightarrow> 'k \<Rightarrow> bool" where
  "OrderedMap_Has m key = (om_lookup m key \<noteq> None)"

text \<open>The three ways in which \<open>Delete\<close> shortens the key slice; \<open>None\<close> is an index panic.\<close>

definition delete_key_at :: "int \<Rightarrow> 'k list \<Rightarrow> 'k list option" where
  "delete_key_at i ks =
    (if i = 0 then (if ks = [] then None else Some (drop 1 ks))
     else let e = int (length ks) - 1 in
       if i = e then (if e < 0 then None else Some (take (nat e) ks))
       else slices_Delete ks i (i + 1))"

definition OrderedMap_Delete ::
    "'v \<Rightarrow> 'k \<Rightarrow> ('k, 'v) OrderedMap \<Rightarrow> (('v \<times> bool) \<times> ('k, 'v) OrderedMap) option" where
  "OrderedMap_Delete zero key m =
    (case om_lookup m key of
       None \<Rightarrow> Some ((zero, False), m)
     | Some v \<Rightarrow>
         let mp = map_option (Mapping.delete key) (om_mp m);
             i = slices_Index (om_keys m) key
         in map_option (\<lambda>ks. ((v, True), m\<lparr>om_keys := ks, om_mp := mp\<rparr>))
              (delete_key_at i (om_keys m)))"

text \<open>
  The iterators \<open>Keys\<close>, \<open>Values\<close> and \<open>Entries\<close> call a function that may stop them and may
  change the map meanwhile; \<open>s\<close> is whatever else that function changes. The loop re-reads
  \<open>len(m.keys)\<close>, so it may run forever: \<open>None\<close> is then its value.
\<close>

type_synonym ('k, 'v, 's) body = "'k \<Rightarrow> ('k, 'v) OrderedMap \<Rightarrow> 's \<Rightarrow> bool \<times> ('k, 'v) OrderedMap \<times> 's"

partial_function (option) keys_from ::
    "('k, 'v, 's) body \<Rightarrow> nat \<Rightarrow> ('k, 'v) OrderedMap \<Rightarrow> 's \<Rightarrow> (('k, 'v) OrderedMap \<times> 's) option" where
  "keys_from yield i m s =
    (if i < length (om_keys m)
     then let r = yield (om_keys m ! i) m s
       in if fst r then keys_from yield (Suc i) (fst (snd r)) (snd (snd r))
          else Some (snd r)
     else Some (m, s))"

definition OrderedMap_Keys ::
    "('k, 'v, 's) body \<Rightarrow> ('k, 'v) OrderedMap option \<Rightarrow> 's \<Rightarrow> (('k, 'v) OrderedMap option \<times> 's) option" where
  "OrderedMap_Keys yield m s =
    (case m of None \<Rightarrow> Some (None, s)
     | Some m \<Rightarrow> map_option (map_prod Some id) (keys_from yield 0 m s))"

definition OrderedMap_Values ::
    "'v \<Rightarrow> ('v \<Rightarrow> ('k, 'v) OrderedMap \<Rightarrow> 's \<Rightarrow> bool \<times> ('k, 'v) OrderedMap \<times> 's) \<Rightarrow>
     ('k, 'v) OrderedMap option \<Rightarrow> 's \<Rightarrow> (('k, 'v) OrderedMap option \<times> 's) option" where
  "OrderedMap_Values zero yield m s =
    OrderedMap_Keys (\<lambda>k m s. yield (OrderedMap_GetOrZero zero m k) m s) m s"

definition OrderedMap_Entries ::
    "'v \<Rightarrow> ('k \<Rightarrow> 'v \<Rightarrow> ('k, 'v) OrderedMap \<Rightarrow> 's \<Rightarrow> bool \<times> ('k, 'v) OrderedMap \<times> 's) \<Rightarrow>
     ('k, 'v) OrderedMap option \<Rightarrow> 's \<Rightarrow> (('k, 'v) OrderedMap option \<times> 's) option" where
  "OrderedMap_Entries zero yield m s =
    OrderedMap_Keys (\<lambda>k m s. yield k (OrderedMap_GetOrZero zero m k) m s) m s"

text \<open>The entries that a caller which changes nothing sees.\<close>

definition om_entries :: "'v \<Rightarrow> ('k, 'v) OrderedMap \<Rightarrow> ('k \<times> 'v) list" where
  "om_entries zero m = map (\<lambda>k. (k, OrderedMap_GetOrZero zero m k)) (om_keys m)"

definition OrderedMap_Clear :: "('k, 'v) OrderedMap \<Rightarrow> ('k, 'v) OrderedMap" where
  "OrderedMap_Clear m = m\<lparr>om_keys := [], om_mp := map_option (\<lambda>_. Mapping.empty) (om_mp m)\<rparr>"

definition OrderedMap_Size :: "('k, 'v) OrderedMap option \<Rightarrow> nat" where
  "OrderedMap_Size m = (case m of None \<Rightarrow> 0 | Some m \<Rightarrow> length (om_keys m))"

definition OrderedMap_Clone :: "('k, 'v) OrderedMap option \<Rightarrow> ('k, 'v) OrderedMap option" where
  "OrderedMap_Clone m =
    (case m of None \<Rightarrow> None | Some m \<Rightarrow> Some \<lparr>om_keys = om_keys m, om_mp = om_mp m\<rparr>)"

text \<open>\<open>maps.EqualFunc\<close>.\<close>

definition maps_EqualFunc :: "('v \<Rightarrow> 'v \<Rightarrow> bool) \<Rightarrow> ('k, 'v) mapping \<Rightarrow> ('k, 'v) mapping \<Rightarrow> bool" where
  "maps_EqualFunc eq a b \<longleftrightarrow>
    Mapping.size a = Mapping.size b \<and>
    (\<forall>k \<in> Mapping.keys a. case (Mapping.lookup a k, Mapping.lookup b k) of
        (Some v1, Some v2) \<Rightarrow> eq v1 v2 | _ \<Rightarrow> False)"

text \<open>The first argument says whether the two pointers are the same.\<close>

definition OrderedMap_EqualFunc ::
    "bool \<Rightarrow> ('k, 'v) OrderedMap option \<Rightarrow> ('k, 'v) OrderedMap option \<Rightarrow> ('v \<Rightarrow> 'v \<Rightarrow> bool) \<Rightarrow> bool" where
  "OrderedMap_EqualFunc same_pointer m other eq =
    (if same_pointer then True
     else case (m, other) of
       (Some a, Some b) \<Rightarrow>
         om_keys a = om_keys b \<and> maps_EqualFunc eq (go_map (om_mp a)) (go_map (om_mp b))
     | _ \<Rightarrow> False)"

text \<open>The callbacks of the diff, as the sequence of their calls.\<close>

datatype ('k, 'v) diff_event = Added 'k 'v | Removed 'k 'v | Modified 'k 'v 'v

definition DiffOrderedMapsFunc ::
    "'v \<Rightarrow> ('k, 'v) OrderedMap \<Rightarrow> ('k, 'v) OrderedMap \<Rightarrow> ('v \<Rightarrow> 'v \<Rightarrow> bool) \<Rightarrow> ('k, 'v) diff_event list" where
  "DiffOrderedMapsFunc zero m1 m2 equalValues =
    concat (map (\<lambda>(k, v2). if snd (OrderedMap_Get zero m1 k) then [] else [Added k v2])
      (om_entries zero m2)) @
    concat (map (\<lambda>(k, v1). case OrderedMap_Get zero m2 k of (v2, ok) \<Rightarrow>
        if ok then (if equalValues v1 v2 then [] else [Modified k v1 v2]) else [Removed k v1])
      (om_entries zero m1))"

definition DiffOrderedMaps ::
    "'v \<Rightarrow> ('k, 'v) OrderedMap \<Rightarrow> ('k, 'v) OrderedMap \<Rightarrow> ('k, 'v) diff_event list" where
  "DiffOrderedMaps zero m1 m2 = DiffOrderedMapsFunc zero m1 m2 (=)"

section \<open>OrderedSet\<close>

record 'k OrderedSet = os_m :: "('k, unit) OrderedMap"

definition NewOrderedSetWithSizeHint :: "'k OrderedSet" where
  "NewOrderedSetWithSizeHint = \<lparr>os_m = newMapWithSizeHint\<rparr>"

definition OrderedSet_Add :: "'k \<Rightarrow> 'k OrderedSet \<Rightarrow> 'k OrderedSet" where
  "OrderedSet_Add v s = s\<lparr>os_m := OrderedMap_Set v () (os_m s)\<rparr>"

definition OrderedSet_Has :: "'k OrderedSet \<Rightarrow> 'k \<Rightarrow> bool" where
  "OrderedSet_Has s v = OrderedMap_Has (os_m s) v"

definition OrderedSet_Delete :: "'k \<Rightarrow> 'k OrderedSet \<Rightarrow> (bool \<times> 'k OrderedSet) option" where
  "OrderedSet_Delete v s =
    map_option (\<lambda>((_, ok), m). (ok, s\<lparr>os_m := m\<rparr>)) (OrderedMap_Delete () v (os_m s))"

definition OrderedSet_Clear :: "'k OrderedSet \<Rightarrow> 'k OrderedSet" where
  "OrderedSet_Clear s = s\<lparr>os_m := OrderedMap_Clear (os_m s)\<rparr>"

definition OrderedSet_Size :: "'k OrderedSet \<Rightarrow> nat" where
  "OrderedSet_Size s = OrderedMap_Size (Some (os_m s))"

section \<open>MultiMap\<close>

record ('k, 'v) MultiMap = mm_M :: "('k, 'v list) mapping option"

definition MultiMap_Get :: "('k, 'v) MultiMap \<Rightarrow> 'k \<Rightarrow> 'v list" where
  "MultiMap_Get s key = (case Mapping.lookup (go_map (mm_M s)) key of Some vs \<Rightarrow> vs | None \<Rightarrow> [])"

definition MultiMap_Has :: "('k, 'v) MultiMap \<Rightarrow> 'k \<Rightarrow> bool" where
  "MultiMap_Has s key = (Mapping.lookup (go_map (mm_M s)) key \<noteq> None)"

definition MultiMap_Add :: "'k \<Rightarrow> 'v \<Rightarrow> ('k, 'v) MultiMap \<Rightarrow> ('k, 'v) MultiMap" where
  "MultiMap_Add key v s =
    (let mp = (case mm_M s of None \<Rightarrow> Mapping.empty | Some f \<Rightarrow> f)
     in s\<lparr>mm_M := Some (Mapping.update key
          ((case Mapping.lookup mp key of Some vs \<Rightarrow> vs | None \<Rightarrow> []) @ [v]) mp)\<rparr>)"

definition GroupBy :: "'v list \<Rightarrow> ('v \<Rightarrow> 'k) \<Rightarrow> ('k, 'v) MultiMap" where
  "GroupBy items groupId = fold (\<lambda>item. MultiMap_Add (groupId item) item) items \<lparr>mm_M = None\<rparr>"

definition MultiMap_Remove :: "'k \<Rightarrow> 'v \<Rightarrow> ('k, 'v) MultiMap \<Rightarrow> ('k, 'v) MultiMap" where
  "MultiMap_Remove key v s =
    (case Mapping.lookup (go_map (mm_M s)) key of
       None \<Rightarrow> s
     | Some values \<Rightarrow>
         let i = slices_Index values v
         in if i \<ge> 0
            then if length values = 1
              then s\<lparr>mm_M := map_option (Mapping.delete key) (mm_M s)\<rparr>
              else s\<lparr>mm_M := map_option (Mapping.update key
                     (take (nat i) values @ drop (nat (i + 1)) values)) (mm_M s)\<rparr>
            else s)"

definition MultiMap_RemoveAll :: "'k \<Rightarrow> ('k, 'v) MultiMap \<Rightarrow> ('k, 'v) MultiMap" where
  "MultiMap_RemoveAll key s = s\<lparr>mm_M := map_option (Mapping.delete key) (mm_M s)\<rparr>"

definition MultiMap_Len :: "('k, 'v) MultiMap \<Rightarrow> nat" where
  "MultiMap_Len s = Mapping.size (go_map (mm_M s))"

definition MultiMap_Clear :: "('k, 'v) MultiMap \<Rightarrow> ('k, 'v) MultiMap" where
  "MultiMap_Clear s = s\<lparr>mm_M := map_option (\<lambda>_. Mapping.empty) (mm_M s)\<rparr>"

end
