(* ===== verification/CollectionsProps.thy ===== *)
theory CollectionsProps
  imports Collections
begin

text \<open>
  Correctness of the ordered collections: the invariant that ties the key slice of an
  ordered map to its Go map, the refinement of association lists, the patch that a diff
  describes, the iteration that sees keys added meanwhile, and the multimap's grouping.
\<close>

section \<open>The invariant\<close>

definition om_ok :: "('k, 'v) OrderedMap \<Rightarrow> bool" where
  "om_ok m \<longleftrightarrow> distinct (om_keys m) \<and> Mapping.keys (go_map (om_mp m)) = set (om_keys m)"

lemma keys_iff_lookup: "k \<in> Mapping.keys m \<longleftrightarrow> Mapping.lookup m k \<noteq> None"
  by (auto simp: keys_dom_lookup)

lemma om_mem: "om_ok m \<Longrightarrow> k \<in> set (om_keys m) \<longleftrightarrow> om_lookup m k \<noteq> None"
  by (metis om_ok_def keys_iff_lookup)

lemma om_ok_distinct: "om_ok m \<Longrightarrow> distinct (om_keys m)"
  by (simp add: om_ok_def)

lemma om_okI:
  assumes "distinct (om_keys m)" "\<And>k. om_lookup m k \<noteq> None \<longleftrightarrow> k \<in> set (om_keys m)"
  shows "om_ok m"
  using assms by (auto simp: om_ok_def keys_iff_lookup)

lemma om_ok_new [simp, intro]: "om_ok newMapWithSizeHint" "om_ok OrderedMap_zero"
  by (auto intro!: om_okI simp: newMapWithSizeHint_def OrderedMap_zero_def)

lemma Set_lookup: "om_lookup (OrderedMap_Set k v m) k' = (if k' = k then Some v else om_lookup m k')"
  by (simp add: OrderedMap_Set_def Let_def go_map_def lookup_update' split: option.split)

lemma Set_keys:
  "om_keys (OrderedMap_Set k v m) = (if om_lookup m k = None then om_keys m @ [k] else om_keys m)"
  by (simp add: OrderedMap_Set_def Let_def go_map_def split: option.split)

lemma Set_ok: "om_ok m \<Longrightarrow> om_ok (OrderedMap_Set k v m)"
  by (rule om_okI) (auto simp: Set_keys Set_lookup om_mem om_ok_distinct)

lemma delete_key_at_split:
  "x \<notin> set pre \<Longrightarrow> delete_key_at (int (length pre)) (pre @ x # post) = Some (pre @ post)"
  by (auto simp: delete_key_at_def slices_Delete_def Let_def nat_add_distrib)

lemma delete_key_at_Index:
  assumes "x \<in> set ks" "distinct ks"
  shows "delete_key_at (slices_Index ks x) ks = Some (filter (\<lambda>y. y \<noteq> x) ks)"
proof -
  obtain pre post where s: "ks = pre @ x # post" "x \<notin> set pre"
    and i: "slices_Index ks x = int (length pre)"
    using assms(1) by (rule slices_Index_split)
  have "filter (\<lambda>y. y \<noteq> x) ks = pre @ post"
    using s assms(2) by (auto intro!: arg_cong2[where f = append] filter_True)
  then show ?thesis unfolding i using s by (simp add: delete_key_at_split)
qed

text \<open>\<open>Delete\<close> on a well-formed map, in one step.\<close>

lemma Delete_eq:
  assumes "om_ok m"
  shows "OrderedMap_Delete zero k m =
    (case om_lookup m k of
       None \<Rightarrow> Some ((zero, False), m)
     | Some v \<Rightarrow> Some ((v, True), m\<lparr>om_keys := filter (\<lambda>y. y \<noteq> k) (om_keys m),
                              om_mp := map_option (Mapping.delete k) (om_mp m)\<rparr>))"
proof (cases "om_lookup m k")
  case (Some v)
  then have "k \<in> set (om_keys m)" using om_mem[OF assms] by fastforce
  then show ?thesis using Some delete_key_at_Index[OF _ om_ok_distinct[OF assms]]
    by (simp add: OrderedMap_Delete_def Let_def)
qed (simp add: OrderedMap_Delete_def)

text \<open>The map after \<open>Delete\<close>.\<close>

definition om_remove :: "'v \<Rightarrow> 'k \<Rightarrow> ('k, 'v) OrderedMap \<Rightarrow> ('k, 'v) OrderedMap" where
  "om_remove zero k m = (case OrderedMap_Delete zero k m of Some (_, m') \<Rightarrow> m' | None \<Rightarrow> m)"

lemma Delete_remove:
  "om_ok m \<Longrightarrow> OrderedMap_Delete zero k m = Some (OrderedMap_Get zero m k, om_remove zero k m)"
  by (simp add: Delete_eq om_remove_def OrderedMap_Get_def split: option.split)

lemma remove_lookup:
  "om_ok m \<Longrightarrow> om_lookup (om_remove zero k m) k' = (if k' = k then None else om_lookup m k')"
  by (simp add: om_remove_def Delete_eq split: option.split)

lemma remove_keys:
  "om_ok m \<Longrightarrow> om_keys (om_remove zero k m) = filter (\<lambda>y. y \<noteq> k) (om_keys m)"
  by (auto simp: om_remove_def Delete_eq om_mem intro!: filter_True[symmetric] split: option.split)

lemma remove_ok: "om_ok m \<Longrightarrow> om_ok (om_remove zero k m)"
  by (rule om_okI) (auto simp: remove_keys remove_lookup om_mem om_ok_distinct)

lemma Clear_ok: "om_ok (OrderedMap_Clear m)"
  by (rule om_okI) (auto simp: OrderedMap_Clear_def go_map_def split: option.splits)

interpretation om: deletable_map OrderedMap_zero om_lookup OrderedMap_Set om_ok "om_remove zero"
  for zero
  by unfold_locales
    (simp_all add: Set_lookup Set_ok remove_lookup remove_ok, simp add: OrderedMap_zero_def)

lemma NewOrderedMapFromList_fill: "NewOrderedMapFromList items = om.fill items newMapWithSizeHint"
  by (simp add: NewOrderedMapFromList_def om.fill_def)

section \<open>Ordered maps refine association lists\<close>

text \<open>The sequences of operations, for the statements about every reachable map.\<close>

datatype ('k, 'v) om_op = OpSet 'k 'v | OpDelete 'k | OpClear

fun om_run :: "'v \<Rightarrow> ('k, 'v) om_op list \<Rightarrow> ('k, 'v) OrderedMap \<Rightarrow> ('k, 'v) OrderedMap option" where
  "om_run zero [] m = Some m"
| "om_run zero (OpSet k v # ops) m = om_run zero ops (OrderedMap_Set k v m)"
| "om_run zero (OpDelete k # ops) m =
    (case OrderedMap_Delete zero k m of None \<Rightarrow> None | Some (_, m') \<Rightarrow> om_run zero ops m')"
| "om_run zero (OpClear # ops) m = om_run zero ops (OrderedMap_Clear m)"

fun al_step :: "('k, 'v) om_op \<Rightarrow> ('k \<times> 'v) list \<Rightarrow> ('k \<times> 'v) list" where
  "al_step (OpSet k v) al = AList.update k v al"
| "al_step (OpDelete k) al = AList.delete k al"
| "al_step OpClear al = []"

lemma om_entries_keys [simp]: "map fst (om_entries zero m) = om_keys m"
  by (simp add: om_entries_def comp_def)

lemma AList_update_append: "k \<notin> fst ` set al \<Longrightarrow> AList.update k v al = al @ [(k, v)]"
  by (induction al) auto

lemma AList_update_map:
  "k \<in> set ks \<Longrightarrow> distinct ks \<Longrightarrow>
   AList.update k v (map (\<lambda>k. (k, f k)) ks) = map (\<lambda>k'. (k', if k' = k then v else f k')) ks"
  by (induction ks) (auto simp: map_idI)

lemma om_entries_Set:
  assumes "om_ok m"
  shows "om_entries zero (OrderedMap_Set k v m) = AList.update k v (om_entries zero m)"
proof (cases "k \<in> set (om_keys m)")
  case True
  then have "om_keys (OrderedMap_Set k v m) = om_keys m"
    using om_mem[OF assms, of k] by (simp add: Set_keys)
  then show ?thesis unfolding om_entries_def AList_update_map[OF True om_ok_distinct[OF assms]]
    by (auto simp: Set_lookup OrderedMap_GetOrZero_def)
next
  case False
  then have n: "om_lookup m k = None" using om_mem[OF assms, of k] by simp
  have "AList.update k v (om_entries zero m) = om_entries zero m @ [(k, v)]"
    using False by (intro AList_update_append) (auto simp: om_entries_def)
  also have "\<dots> = om_entries zero (OrderedMap_Set k v m)"
    using False n by (auto simp: om_entries_def Set_keys Set_lookup OrderedMap_GetOrZero_def)
  finally show ?thesis ..
qed

lemma om_entries_remove:
  assumes "om_ok m"
  shows "om_entries zero (om_remove zero k m) = AList.delete k (om_entries zero m)"
proof -
  have "AList.delete k (map (\<lambda>k. (k, f k)) ks) = map (\<lambda>k. (k, f k)) (filter (\<lambda>y. y \<noteq> k) ks)"
    for f :: "'a \<Rightarrow> 'b" and ks
    by (induction ks) auto
  then show ?thesis
    by (auto simp: om_entries_def remove_keys[OF assms] remove_lookup[OF assms]
        OrderedMap_GetOrZero_def)
qed

lemma om_entries_Clear: "om_entries zero (OrderedMap_Clear m) = []"
  by (simp add: om_entries_def OrderedMap_Clear_def)

lemma om_lookup_entries:
  assumes "om_ok m" shows "om_lookup m k = map_of (om_entries zero m) k"
proof -
  have "map_of (map (\<lambda>k. (k, f k)) ks) k = (if k \<in> set ks then Some (f k) else None)"
    for f :: "'a \<Rightarrow> 'b" and ks
    by (induction ks) auto
  then show ?thesis using om_mem[OF assms, of k]
    by (auto simp: om_entries_def OrderedMap_GetOrZero_def)
qed

lemma om_run_refines:
  assumes "om_ok m"
  obtains m' where "om_run zero ops m = Some m'" "om_ok m'"
    "om_entries zero m' = fold al_step ops (om_entries zero m)"
  using assms
proof (induction ops arbitrary: m thesis)
  case (Cons op ops)
  obtain m1 where "om_run zero (op # ops) m = om_run zero ops m1" "om_ok m1"
    and "om_entries zero m1 = al_step op (om_entries zero m)"
    using Cons.prems(2)
    by (cases op) (auto simp: Set_ok Clear_ok Delete_remove remove_ok om_entries_Set om_entries_remove
        om_entries_Clear)
  then show ?case using Cons.IH[of m1] Cons.prems(1) by (metis fold_simps(2))
qed simp

text \<open>Every observer answers from the entries.\<close>

lemma om_Get_entries:
  "om_ok m \<Longrightarrow> OrderedMap_Get zero m k =
    (case map_of (om_entries zero m) k of Some v \<Rightarrow> (v, True) | None \<Rightarrow> (zero, False))"
  by (simp add: OrderedMap_Get_def om_lookup_entries[symmetric])

lemma om_Has_entries: "om_ok m \<Longrightarrow> OrderedMap_Has m k \<longleftrightarrow> k \<in> fst ` set (om_entries zero m)"
  using om_mem[of m k] by (simp add: OrderedMap_Has_def om_entries_def image_image)

lemma om_Size_entries: "OrderedMap_Size (Some m) = length (om_entries zero m)"
  by (simp add: OrderedMap_Size_def om_entries_def)

lemma om_EntryAt_entries:
  "OrderedMap_EntryAt zeroK zero m i =
    (let al = om_entries zero m in
      if 0 \<le> i \<and> i < int (length al) then (fst (al ! nat i), snd (al ! nat i), True)
      else (zeroK, zero, False))"
  by (cases "0 \<le> i \<and> i < int (length (om_keys m))")
    (auto simp: OrderedMap_EntryAt_def om_entries_def Let_def)

text \<open>C22: An ordered map refines an association list. Whatever sequence of \<open>Set\<close>, \<open>Delete\<close>
  and \<open>Clear\<close> is run on the zero value, nothing panics, the key slice has no duplicates and
  is the domain of the Go map, the entries in order are the association list that the same
  sequence of updates and deletions gives, and every observer answers from that list.\<close>

theorem ordered_map_refines_alist:
  "\<exists>m. om_run zero ops OrderedMap_zero = Some m \<and> om_ok m \<and>
    (let al = fold al_step ops [] in
      om_entries zero m = al \<and>
      OrderedMap_Get zero m k = (case map_of al k of Some v \<Rightarrow> (v, True) | None \<Rightarrow> (zero, False)) \<and>
      (OrderedMap_Has m k \<longleftrightarrow> k \<in> fst ` set al) \<and>
      OrderedMap_Size (Some m) = length al \<and>
      OrderedMap_EntryAt zeroK zero m i =
        (if 0 \<le> i \<and> i < int (length al) then (fst (al ! nat i), snd (al ! nat i), True)
         else (zeroK, zero, False)))"
proof -
  obtain m where m: "om_run zero ops OrderedMap_zero = Some m" "om_ok m"
    and e: "om_entries zero m = fold al_step ops (om_entries zero OrderedMap_zero)"
    by (rule om_run_refines[OF om_ok_new(2)])
  have al: "fold al_step ops [] = om_entries zero m"
    by (simp add: e) (simp add: om_entries_def OrderedMap_zero_def)
  show ?thesis unfolding Let_def al
    by (rule exI[of _ m], rule conjI, rule m(1), rule conjI, rule m(2), rule conjI, rule refl,
        rule conjI, rule om_Get_entries[OF m(2)], rule conjI, rule om_Has_entries[OF m(2)],
        rule conjI, rule om_Size_entries, rule om_EntryAt_entries[unfolded Let_def])
qed

section \<open>The diff is a patch\<close>

fun event_key :: "('k, 'v) diff_event \<Rightarrow> 'k" where
  "event_key (Added k v) = k" | "event_key (Removed k v) = k" | "event_key (Modified k v w) = k"

fun event_old :: "('k, 'v) diff_event \<Rightarrow> 'v option" where
  "event_old (Added k v) = None" | "event_old (Removed k v) = Some v" | "event_old (Modified k v w) = Some v"

fun event_new :: "('k, 'v) diff_event \<Rightarrow> 'v option" where
  "event_new (Added k v) = Some v" | "event_new (Removed k v) = None" | "event_new (Modified k v w) = Some w"

text \<open>Applying an event fails when the map does not hold the old value it names.\<close>

fun patch :: "('k, 'v) diff_event list \<Rightarrow> ('k \<rightharpoonup> 'v) \<Rightarrow> ('k \<rightharpoonup> 'v) option" where
  "patch [] m = Some m"
| "patch (e # es) m =
    (if m (event_key e) = event_old e then patch es (m(event_key e := event_new e)) else None)"

definition event_between :: "('k \<rightharpoonup> 'v) \<Rightarrow> ('k \<rightharpoonup> 'v) \<Rightarrow> 'k \<Rightarrow> ('k, 'v) diff_event" where
  "event_between l1 l2 k = (case (l1 k, l2 k) of
      (None, Some w) \<Rightarrow> Added k w
    | (Some v, Some w) \<Rightarrow> Modified k v w
    | (Some v, None) \<Rightarrow> Removed k v)"

lemma patch_between:
  "distinct ks \<Longrightarrow> (\<And>k. k \<in> set ks \<Longrightarrow> m k = l1 k \<and> l1 k \<noteq> l2 k) \<Longrightarrow>
   patch (map (event_between l1 l2) ks) m = Some (\<lambda>k. if k \<in> set ks then l2 k else m k)"
proof (induction ks arbitrary: m)
  case (Cons k ks)
  have ne: "l1 k \<noteq> l2 k" and m: "m k = l1 k" using Cons.prems(2) by auto
  have e: "event_key (event_between l1 l2 k) = k \<and> event_old (event_between l1 l2 k) = l1 k
      \<and> event_new (event_between l1 l2 k) = l2 k"
    using ne by (auto simp: event_between_def split: option.splits)
  have "patch (map (event_between l1 l2) ks) (m(k := l2 k))
      = Some (\<lambda>j. if j \<in> set ks then l2 j else (m(k := l2 k)) j)"
    using Cons.prems by (intro Cons.IH) auto
  then show ?case using Cons.prems(1) m e by (auto simp: fun_eq_iff)
qed simp

lemma concat_map_filter:
  "(\<And>x. x \<in> set xs \<Longrightarrow> f x = (if P x then [g x] else [])) \<Longrightarrow> concat (map f xs) = map g (filter P xs)"
  by (induction xs) auto

lemma Nil_iff_no_member: "xs = [] \<longleftrightarrow> (\<forall>x. x \<notin> set xs)"
  by (cases xs) auto

lemma DiffOrderedMaps_eq:
  assumes "om_ok m1" "om_ok m2"
  shows "DiffOrderedMaps zero m1 m2 =
    map (event_between (om_lookup m1) (om_lookup m2))
      (filter (\<lambda>k. om_lookup m1 k \<noteq> om_lookup m2 k)
        (filter (\<lambda>k. om_lookup m1 k = None) (om_keys m2) @ om_keys m1))"
proof -
  let ?E = "event_between (om_lookup m1) (om_lookup m2)"
  have a: "concat (map (\<lambda>k. if snd (OrderedMap_Get zero m1 k) then []
        else [Added k (OrderedMap_GetOrZero zero m2 k)]) (om_keys m2))
     = map ?E (filter (\<lambda>k. om_lookup m1 k \<noteq> om_lookup m2 k \<and> om_lookup m1 k = None) (om_keys m2))"
    using om_mem[OF assms(2)]
    by (intro concat_map_filter)
      (auto simp: OrderedMap_Get_def OrderedMap_GetOrZero_def event_between_def split: option.splits)
  have b: "concat (map (\<lambda>k. case OrderedMap_Get zero m2 k of (v2, ok) \<Rightarrow>
        if ok then (if OrderedMap_GetOrZero zero m1 k = v2 then []
          else [Modified k (OrderedMap_GetOrZero zero m1 k) v2])
        else [Removed k (OrderedMap_GetOrZero zero m1 k)]) (om_keys m1))
     = map ?E (filter (\<lambda>k. om_lookup m1 k \<noteq> om_lookup m2 k) (om_keys m1))"
    using om_mem[OF assms(1)]
    by (intro concat_map_filter)
      (auto simp: OrderedMap_Get_def OrderedMap_GetOrZero_def event_between_def split: option.splits)
  show ?thesis using a b
    by (simp add: DiffOrderedMaps_def DiffOrderedMapsFunc_def om_entries_def comp_def conj_commute)
qed

text \<open>The callbacks of \<open>DiffOrderedMaps\<close> describe a patch: each names the value the key
  really had, no key is reported twice, applying them in order turns the first map into the
  second, and there is none exactly when the maps hold the same entries.\<close>

theorem diff_is_a_patch:
  assumes "om_ok m1" "om_ok m2"
  shows "patch (DiffOrderedMaps zero m1 m2) (om_lookup m1) = Some (om_lookup m2)
    \<and> distinct (map event_key (DiffOrderedMaps zero m1 m2))
    \<and> (DiffOrderedMaps zero m1 m2 = [] \<longleftrightarrow> om_lookup m1 = om_lookup m2)"
proof -
  let ?ks = "filter (\<lambda>k. om_lookup m1 k \<noteq> om_lookup m2 k)
        (filter (\<lambda>k. om_lookup m1 k = None) (om_keys m2) @ om_keys m1)"
  have mem: "k \<in> set ?ks \<longleftrightarrow> om_lookup m1 k \<noteq> om_lookup m2 k" for k
    using om_mem[OF assms(1), of k] om_mem[OF assms(2), of k] by auto
  have d: "distinct ?ks"
    using assms om_mem[OF assms(1)] by (auto simp: om_ok_distinct)
  have "map event_key (map (event_between (om_lookup m1) (om_lookup m2)) ?ks) = map id ?ks"
    unfolding map_map by (rule map_cong) (auto simp: event_between_def split: option.splits)
  moreover have "patch (map (event_between (om_lookup m1) (om_lookup m2)) ?ks) (om_lookup m1)
      = Some (om_lookup m2)"
    using patch_between[OF d, of "om_lookup m1" "om_lookup m1" "om_lookup m2"] mem
    by (simp add: fun_eq_iff)
  moreover have "?ks = [] \<longleftrightarrow> om_lookup m1 = om_lookup m2"
  proof -
    have "?ks = [] \<longleftrightarrow> (\<forall>k. k \<notin> set ?ks)" by (rule Nil_iff_no_member)
    also have "\<dots> \<longleftrightarrow> om_lookup m1 = om_lookup m2" unfolding mem by (simp add: fun_eq_iff)
    finally show ?thesis .
  qed
  ultimately show ?thesis using d unfolding DiffOrderedMaps_eq[OF assms] by simp
qed

lemma diff_is_a_patch_witness:
  "patch (DiffOrderedMaps (0::int)
      (NewOrderedMapFromList [(''a'', 1), (''b'', 2)]) (NewOrderedMapFromList [(''b'', 3), (''c'', 4)]))
      (om_lookup (NewOrderedMapFromList [(''a'', 1), (''b'', 2)]))
    = Some (om_lookup (NewOrderedMapFromList [(''b'', 3), (''c'', 4)]))"
proof -
  have "om_ok (NewOrderedMapFromList es)" for es :: "(string \<times> int) list"
    unfolding NewOrderedMapFromList_fill by (rule om.invar_fill) simp
  then show ?thesis by (blast intro: diff_is_a_patch[THEN conjunct1])
qed

section \<open>Iterating over a map that grows\<close>

lemma fold_Set_keys:
  assumes "om_ok m"
  shows "\<exists>ext. om_keys (om.fill items m) = om_keys m @ ext
    \<and> set ext \<union> set (om_keys m) = set (om_keys m) \<union> fst ` set items"
  using assms
proof (induction items arbitrary: m)
  case (Cons e items)
  obtain k v where e: "e = (k, v)" by fastforce
  have f: "om.fill (e # items) m = om.fill items (OrderedMap_Set k v m)" by (simp add: om.fill_def e)
  obtain ext where "om_keys (om.fill items (OrderedMap_Set k v m)) = om_keys (OrderedMap_Set k v m) @ ext"
    "set ext \<union> set (om_keys (OrderedMap_Set k v m))
       = set (om_keys (OrderedMap_Set k v m)) \<union> fst ` set items"
    using Cons.IH[OF Set_ok[OF Cons.prems]] by blast
  then show ?case unfolding f using om_mem[OF Cons.prems, of k]
    by (auto simp: Set_keys e)
qed (simp add: om.fill_def)

text \<open>
  The body of a worklist loop: processing a key inserts the entries \<open>adds\<close> gives for it, and
  the key is recorded.
\<close>

definition visit_body :: "('k \<Rightarrow> ('k \<times> 'v) list) \<Rightarrow> ('k, 'v, 'k list) body" where
  "visit_body adds k m seen = (True, fold (\<lambda>(k', v). OrderedMap_Set k' v) (adds k) m, seen @ [k])"

definition adds_edge :: "('k \<Rightarrow> ('k \<times> 'v) list) \<Rightarrow> ('k \<times> 'k) set" where
  "adds_edge adds = {(k, k'). k' \<in> fst ` set (adds k)}"

lemma visit_loop:
  assumes "finite U" "\<And>k. k \<in> U \<Longrightarrow> fst ` set (adds k) \<subseteq> U"
    and "om_ok m" "set (om_keys m) \<subseteq> U" "i \<le> length (om_keys m)" "seen = take i (om_keys m)"
    and "K \<subseteq> set (om_keys m)" "set (om_keys m) \<subseteq> (adds_edge adds)\<^sup>* `` K"
    and "\<And>k k'. k \<in> set seen \<Longrightarrow> (k, k') \<in> adds_edge adds \<Longrightarrow> k' \<in> set (om_keys m)"
  shows "\<exists>m'. keys_from (visit_body adds) i m seen = Some (m', om_keys m') \<and> om_ok m'
    \<and> set (om_keys m') = (adds_edge adds)\<^sup>* `` K"
  using assms(3-)
proof (induction "card U - i" arbitrary: i m seen)
  case 0
  have "length (om_keys m) \<le> card U"
    using card_mono[OF assms(1) 0(3)] om_ok_distinct[OF 0(2)] by (simp add: distinct_card)
  then have i: "i = length (om_keys m)" using 0(1,4) by simp
  have "y \<in> set (om_keys m)" if "(x, y) \<in> (adds_edge adds)\<^sup>*" "x \<in> K" for x y
    using that by (induction rule: rtrancl_induct) (use 0 i in auto)
  moreover have "keys_from (visit_body adds) i m seen = Some (m, om_keys m)"
    by (subst keys_from.simps) (simp add: 0(5) i)
  ultimately show ?case using 0 by blast
next
  case (Suc n)
  show ?case
  proof (cases "i < length (om_keys m)")
    case False
    then have i: "i = length (om_keys m)" using Suc.prems by simp
    have "y \<in> set (om_keys m)" if "(x, y) \<in> (adds_edge adds)\<^sup>*" "x \<in> K" for x y
      using that by (induction rule: rtrancl_induct) (use Suc.prems i in auto)
    moreover have "keys_from (visit_body adds) i m seen = Some (m, om_keys m)"
      by (subst keys_from.simps) (simp add: Suc.prems(4) i)
    ultimately show ?thesis using Suc.prems by blast
  next
    case True
    define k where "k = om_keys m ! i"
    define m1 where "m1 = om.fill (adds k) m"
    have k: "k \<in> set (om_keys m)" using True by (simp add: k_def)
    obtain ext where ks: "om_keys m1 = om_keys m @ ext"
      and ext: "set ext \<union> set (om_keys m) = set (om_keys m) \<union> fst ` set (adds k)"
      using fold_Set_keys[OF Suc.prems(1)] unfolding m1_def by blast
    have new: "set (om_keys m1) = set (om_keys m) \<union> fst ` set (adds k)"
      using ks ext by auto
    have seen1: "seen @ [k] = take (Suc i) (om_keys m1)"
      using True Suc.prems(4) by (simp add: ks k_def take_Suc_conv_app_nth nth_append)
    have step: "keys_from (visit_body adds) i m seen = keys_from (visit_body adds) (Suc i) m1 (seen @ [k])"
      using True by (simp add: keys_from.simps[of _ i] visit_body_def Let_def k_def m1_def om.fill_def)
    have reach: "fst ` set (adds k) \<subseteq> (adds_edge adds)\<^sup>* `` K"
    proof
      fix y assume "y \<in> fst ` set (adds k)"
      then have "(k, y) \<in> adds_edge adds" by (simp add: adds_edge_def)
      moreover obtain x where "x \<in> K" "(x, k) \<in> (adds_edge adds)\<^sup>*"
        using Suc.prems(6) k by blast
      ultimately show "y \<in> (adds_edge adds)\<^sup>* `` K" by (auto intro: rtrancl_into_rtrancl)
    qed
    show ?thesis unfolding step
    proof (rule Suc.hyps(1)[OF _ _ _ _ seen1])
      show "om_ok m1" unfolding m1_def by (rule om.invar_fill[OF Suc.prems(1)])
      show "set (om_keys m1) \<subseteq> U" using new Suc.prems(2) assms(2)[of k] k by blast
      show "Suc i \<le> length (om_keys m1)" using True ks by simp
      show "K \<subseteq> set (om_keys m1)" using Suc.prems(5) new by blast
      show "set (om_keys m1) \<subseteq> (adds_edge adds)\<^sup>* `` K" using new reach Suc.prems(6) by blast
      show "k'' \<in> set (om_keys m1)" if "k' \<in> set (seen @ [k])" "(k', k'') \<in> adds_edge adds" for k' k''
        using that Suc.prems(7)[of k' k''] new by (auto simp: adds_edge_def)
    qed (use Suc.hyps(2) in simp)
  qed
qed

text \<open>C23: Iterating over the keys while the loop body inserts new entries ends whenever the
  inserted keys come from a finite universe, and then every key of the final map has been
  visited, once and in order; these are exactly the keys reachable from the initial ones.\<close>

theorem keys_iteration_visits_closure:
  assumes "finite U" "om_ok m" "set (om_keys m) \<subseteq> U" "\<forall>k\<in>U. fst ` set (adds k) \<subseteq> U"
  shows "\<exists>m'. OrderedMap_Keys (visit_body adds) (Some m) [] = Some (Some m', om_keys m')
    \<and> distinct (om_keys m') \<and> set (om_keys m') = (adds_edge adds)\<^sup>* `` set (om_keys m)"
proof -
  obtain m' where "keys_from (visit_body adds) 0 m [] = Some (m', om_keys m')" "om_ok m'"
    "set (om_keys m') = (adds_edge adds)\<^sup>* `` set (om_keys m)"
    using visit_loop[of U adds m 0 "[]" "set (om_keys m)"] assms by auto
  then show ?thesis by (auto simp: OrderedMap_Keys_def om_ok_distinct)
qed

lemma keys_iteration_visits_closure_witness:
  "\<exists>m'. OrderedMap_Keys (visit_body (\<lambda>k. if k < (3::nat) then [(Suc k, ())] else []))
      (Some (NewOrderedMapFromList [(0, ())])) [] = Some (Some m', om_keys m')"
proof -
  have "om_ok (NewOrderedMapFromList [(0::nat, ())])"
    unfolding NewOrderedMapFromList_fill by (rule om.invar_fill) simp
  moreover have "om_keys (NewOrderedMapFromList [(0::nat, ())]) = [0]"
    by (simp add: NewOrderedMapFromList_def Set_keys newMapWithSizeHint_def)
  ultimately show ?thesis
    using keys_iteration_visits_closure[of "{0..3}" "NewOrderedMapFromList [(0, ())]"
      "\<lambda>k. if k < 3 then [(Suc k, ())] else []"] by (auto simp: image_subset_iff)
qed

section \<open>Ordered sets\<close>

interpretation os: extensible_set NewOrderedSetWithSizeHint OrderedSet_Has OrderedSet_Add
    "\<lambda>s. om_ok (os_m s)"
  by unfold_locales
    (auto simp: NewOrderedSetWithSizeHint_def OrderedSet_Has_def OrderedSet_Add_def OrderedMap_Has_def
      Set_lookup Set_ok, simp_all add: newMapWithSizeHint_def)

section \<open>Multimaps\<close>

datatype ('k, 'v) mm_op = MAdd 'k 'v | MRemove 'k 'v | MRemoveAll 'k | MClear

fun mm_step :: "('k, 'v) mm_op \<Rightarrow> ('k, 'v) MultiMap \<Rightarrow> ('k, 'v) MultiMap" where
  "mm_step (MAdd k v) s = MultiMap_Add k v s"
| "mm_step (MRemove k v) s = MultiMap_Remove k v s"
| "mm_step (MRemoveAll k) s = MultiMap_RemoveAll k s"
| "mm_step MClear s = MultiMap_Clear s"

fun mm_spec :: "('k, 'v) mm_op \<Rightarrow> ('k \<Rightarrow> 'v list) \<Rightarrow> ('k \<Rightarrow> 'v list)" where
  "mm_spec (MAdd k v) g = g(k := g k @ [v])"
| "mm_spec (MRemove k v) g = g(k := remove1 v (g k))"
| "mm_spec (MRemoveAll k) g = g(k := [])"
| "mm_spec MClear g = (\<lambda>_. [])"

abbreviation mm_lookup :: "('k, 'v) MultiMap \<Rightarrow> 'k \<Rightarrow> 'v list option" where
  "mm_lookup s \<equiv> Mapping.lookup (go_map (mm_M s))"

definition mm_ok :: "('k, 'v) MultiMap \<Rightarrow> bool" where
  "mm_ok s \<longleftrightarrow> (\<forall>k. mm_lookup s k \<noteq> Some [])"

lemma Index_remove1:
  "x \<in> set xs \<Longrightarrow> take (nat (slices_Index xs x)) xs @ drop (nat (slices_Index xs x + 1)) xs = remove1 x xs"
  by (erule slices_Index_split) (simp add: nat_add_distrib remove1_append)

lemma slices_Index_nonneg: "0 \<le> slices_Index xs x \<longleftrightarrow> x \<in> set xs"
  by (metis slices_Index_absent slices_Index_split of_nat_0_le_iff neg_0_le_iff_le not_one_le_zero)

lemma MultiMap_Remove_lookup:
  "mm_lookup (MultiMap_Remove k v s) =
    (case mm_lookup s k of
       None \<Rightarrow> mm_lookup s
     | Some vs \<Rightarrow> if v \<in> set vs
         then (mm_lookup s)(k := if length vs = 1 then None else Some (remove1 v vs)) else mm_lookup s)"
  by (cases "mm_M s")
    (auto simp: MultiMap_Remove_def Let_def slices_Index_nonneg Index_remove1 fun_eq_iff lookup_update'
      split: option.split)

lemma mm_step_ok: "mm_ok s \<Longrightarrow> mm_ok (mm_step op s)"
proof (cases op)
  case (MRemove k v)
  have "remove1 v vs \<noteq> []" if "v \<in> set vs" "length vs \<noteq> 1" for vs
    using that length_remove1[of v vs] by (cases vs) auto
  then show "mm_ok s \<Longrightarrow> mm_ok (mm_step op s)"
    unfolding MRemove mm_ok_def by (auto simp: MultiMap_Remove_lookup split: option.splits if_splits)
qed (auto simp: mm_ok_def MultiMap_Add_def MultiMap_RemoveAll_def MultiMap_Clear_def Let_def go_map_def
    lookup_update' lookup_delete_if simp del: lookup_delete split: option.splits if_split_asm)

lemma mm_step_get: "mm_ok s \<Longrightarrow> MultiMap_Get (mm_step op s) = mm_spec op (MultiMap_Get s)"
proof (cases op)
  case (MRemove k v)
  show "mm_ok s \<Longrightarrow> MultiMap_Get (mm_step op s) = mm_spec op (MultiMap_Get s)"
    unfolding MRemove
    by (auto simp: MultiMap_Get_def MultiMap_Remove_lookup fun_eq_iff remove1_idem length_Suc_conv
        split: option.splits)
qed (auto simp: fun_eq_iff MultiMap_Get_def MultiMap_Add_def MultiMap_RemoveAll_def MultiMap_Clear_def
    Let_def go_map_def lookup_update' split: option.splits)

text \<open>A multimap is a function from keys to lists. After any sequence of \<open>Add\<close>, \<open>Remove\<close>,
  \<open>RemoveAll\<close> and \<open>Clear\<close> on the zero value, the list of a key is the one the same appends and
  removals of single occurrences give, and \<open>Has\<close> is true exactly of the keys whose list is
  not empty: no key with an empty list is ever kept.\<close>

theorem multimap_refines_lists:
  "let s = fold mm_step ops \<lparr>mm_M = None\<rparr>; g = fold mm_spec ops (\<lambda>_. []) in
     MultiMap_Get s = g \<and> (MultiMap_Has s k \<longleftrightarrow> g k \<noteq> [])"
proof -
  have run: "mm_ok (fold mm_step ops s) \<and> MultiMap_Get (fold mm_step ops s) = fold mm_spec ops (MultiMap_Get s)"
    if "mm_ok s" for s :: "('a, 'b) MultiMap"
    using that by (induction ops arbitrary: s) (simp_all add: mm_step_ok mm_step_get)
  have z: "mm_ok \<lparr>mm_M = None\<rparr>" "MultiMap_Get \<lparr>mm_M = None\<rparr> = (\<lambda>_. [])"
    by (auto simp: mm_ok_def MultiMap_Get_def fun_eq_iff)
  have has: "MultiMap_Has s k \<longleftrightarrow> MultiMap_Get s k \<noteq> []" if "mm_ok s" for s :: "('a, 'b) MultiMap"
    using that by (auto simp: mm_ok_def MultiMap_Has_def MultiMap_Get_def split: option.split)
  show ?thesis unfolding Let_def using run[OF z(1)] has unfolding z(2) by simp
qed

text \<open>\<open>GroupBy\<close> gives every key the items of its group in their original order.\<close>

theorem GroupBy_groups: "MultiMap_Get (GroupBy items g) k = filter (\<lambda>x. g x = k) items"
proof -
  have "MultiMap_Get (fold (\<lambda>item. MultiMap_Add (g item) item) items s) k
      = MultiMap_Get s k @ filter (\<lambda>x. g x = k) items" for s
  proof (induction items arbitrary: s)
    case (Cons x xs)
    have "MultiMap_Get (MultiMap_Add (g x) x s) k = MultiMap_Get s k @ (if g x = k then [x] else [])"
      by (auto simp: MultiMap_Get_def MultiMap_Add_def Let_def go_map_def lookup_update' split: option.split)
    then show ?case using Cons.IH by simp
  qed simp
  then show ?thesis by (simp add: GroupBy_def MultiMap_Get_def)
qed

end
