(* ===== verification/CollSets.thy ===== *)
theory CollSets
  imports Collections
begin

text \<open>
  The unordered set (\<^verbatim>\<open>collections/set.go\<close>) and the copy-on-write map and set
  (\<^verbatim>\<open>collections/cow.go\<close>). A set pointer and the Go map inside it may each be nil, which are
  two layers of options; \<open>None\<close> as the result of an operation that returns an option is a
  panic. The copy-on-write map shares its Go map between scopes, so the Go maps live in an
  explicit store and the struct holds an address.
\<close>

section \<open>Set\<close>

record 'a GoSet = gs_M :: "'a set option"

definition gs_elems :: "'a GoSet \<Rightarrow> 'a set" where
  "gs_elems s = (case gs_M s of None \<Rightarrow> {} | Some M \<Rightarrow> M)"

definition NewSetWithSizeHint :: "'a GoSet" where
  "NewSetWithSizeHint = \<lparr>gs_M = Some {}\<rparr>"

definition Set_Has :: "'a GoSet option \<Rightarrow> 'a \<Rightarrow> bool" where
  "Set_Has s key = (case s of None \<Rightarrow> False | Some s \<Rightarrow> key \<in> gs_elems s)"

definition Set_Add :: "'a \<Rightarrow> 'a GoSet \<Rightarrow> 'a GoSet" where
  "Set_Add key s =
    (let M = (case gs_M s of None \<Rightarrow> {} | Some M \<Rightarrow> M) in s\<lparr>gs_M := Some (insert key M)\<rparr>)"

definition Set_Delete :: "'a \<Rightarrow> 'a GoSet \<Rightarrow> 'a GoSet" where
  "Set_Delete key s = s\<lparr>gs_M := map_option (\<lambda>M. M - {key}) (gs_M s)\<rparr>"

definition Set_Len :: "'a GoSet option \<Rightarrow> nat" where
  "Set_Len s = (case s of None \<Rightarrow> 0 | Some s \<Rightarrow> card (gs_elems s))"

definition Set_Clear :: "'a GoSet option \<Rightarrow> 'a GoSet option" where
  "Set_Clear s = (case s of None \<Rightarrow> None | Some s \<Rightarrow> Some (s\<lparr>gs_M := map_option (\<lambda>_. {}) (gs_M s)\<rparr>))"

text \<open>\<open>AddIfAbsent\<close> reads a nil set as empty and panics when it then writes to it.\<close>

definition Set_AddIfAbsent :: "'a \<Rightarrow> 'a GoSet option \<Rightarrow> (bool \<times> 'a GoSet option) option" where
  "Set_AddIfAbsent key s =
    (if Set_Has s key then Some (False, s)
     else case s of None \<Rightarrow> None | Some s' \<Rightarrow> Some (True, Some (Set_Add key s')))"

definition Set_Clone :: "'a GoSet option \<Rightarrow> 'a GoSet option" where
  "Set_Clone s = (case s of None \<Rightarrow> None | Some s \<Rightarrow> Some \<lparr>gs_M = gs_M s\<rparr>)"

text \<open>\<open>Union\<close> changes its receiver; it reads \<open>other.M\<close> through a pointer that may be nil.\<close>

definition Set_Union :: "'a GoSet option \<Rightarrow> 'a GoSet option \<Rightarrow> 'a GoSet option option" where
  "Set_Union s other =
    (if Set_Len s = 0 \<and> Set_Len other = 0 then Some s
     else case s of None \<Rightarrow> None
     | Some s' \<Rightarrow> (case other of None \<Rightarrow> None
        | Some o' \<Rightarrow> (case gs_M s' of
            None \<Rightarrow> Some (Some (s'\<lparr>gs_M := gs_M o'\<rparr>))
          | Some M \<Rightarrow> Some (Some (s'\<lparr>gs_M := Some (M \<union> gs_elems o')\<rparr>)))))"

definition Set_UnionedWith :: "'a GoSet option \<Rightarrow> 'a GoSet option \<Rightarrow> 'a GoSet option" where
  "Set_UnionedWith s other =
    (case (s, other) of
       (None, None) \<Rightarrow> None
     | _ \<Rightarrow> let result = Set_Clone s in
        (case other of None \<Rightarrow> result
         | Some o' \<Rightarrow>
            let r = (case result of None \<Rightarrow> \<lparr>gs_M = None\<rparr> | Some r \<Rightarrow> r);
                M = (case gs_M r of None \<Rightarrow> {} | Some M \<Rightarrow> M)
            in Some (r\<lparr>gs_M := Some (M \<union> gs_elems o')\<rparr>)))"

definition Set_Equals :: "bool \<Rightarrow> 'a GoSet option \<Rightarrow> 'a GoSet option \<Rightarrow> bool" where
  "Set_Equals same_pointer s other =
    (if same_pointer then True
     else case (s, other) of (Some a, Some b) \<Rightarrow> gs_elems a = gs_elems b | _ \<Rightarrow> False)"

definition Set_IsSubsetOf :: "'a GoSet option \<Rightarrow> 'a GoSet option \<Rightarrow> bool" where
  "Set_IsSubsetOf s other =
    (case s of None \<Rightarrow> True | Some s \<Rightarrow> (\<forall>key \<in> gs_elems s. Set_Has other key))"

definition Set_Intersects :: "'a GoSet option \<Rightarrow> 'a GoSet option \<Rightarrow> bool" where
  "Set_Intersects s other =
    (case (s, other) of (Some a, Some b) \<Rightarrow> (\<exists>key \<in> gs_elems a. Set_Has other key) | _ \<Rightarrow> False)"

definition NewSetFromItems :: "'a list \<Rightarrow> 'a GoSet" where
  "NewSetFromItems items = fold Set_Add items \<lparr>gs_M = None\<rparr>"

text \<open>The elements of a set that may be nil.\<close>

definition elems :: "'a GoSet option \<Rightarrow> 'a set" where
  "elems s = (case s of None \<Rightarrow> {} | Some s \<Rightarrow> gs_elems s)"

lemma Set_Has_elems: "Set_Has s x \<longleftrightarrow> x \<in> elems s"
  by (simp add: Set_Has_def elems_def split: option.split)

lemma gs_elems_Add [simp]: "gs_elems (Set_Add x s) = insert x (gs_elems s)"
  by (simp add: Set_Add_def gs_elems_def Let_def)

lemma gs_elems_Delete [simp]: "gs_elems (Set_Delete x s) = gs_elems s - {x}"
  by (simp add: Set_Delete_def gs_elems_def split: option.split)

interpretation goset: extensible_set "\<lparr>gs_M = None\<rparr>" "\<lambda>s. Set_Has (Some s)" Set_Add "\<lambda>_. True"
  by unfold_locales (auto simp: Set_Has_elems elems_def gs_elems_def[of "\<lparr>gs_M = None\<rparr>"])

lemma NewSetFromItems_elems: "gs_elems (NewSetFromItems items) = set items"
  using goset.member_fold_add[of items "\<lparr>gs_M = None\<rparr>"]
  by (auto simp: NewSetFromItems_def Set_Has_elems elems_def gs_elems_def[of "\<lparr>gs_M = None\<rparr>"])

lemma Set_Len_elems: "Set_Len s = card (elems s)"
  by (simp add: Set_Len_def elems_def split: option.split)

lemma elems_UnionedWith: "elems (Set_UnionedWith s other) = elems s \<union> elems other"
  by (auto simp: Set_UnionedWith_def Set_Clone_def elems_def gs_elems_def Let_def split: option.splits)

lemma elems_Union:
  assumes "finite (elems s)" "finite (elems other)"
  shows "Set_Union s other = Some s' \<Longrightarrow> elems s' = elems s \<union> elems other"
  using assms by (auto simp: Set_Union_def Set_Len_elems elems_def gs_elems_def split: option.splits if_split_asm)

lemma Set_Union_panics:
  assumes "finite (elems s)" "finite (elems other)"
  shows "Set_Union s other = None \<longleftrightarrow>
    (elems s \<noteq> {} \<and> other = None) \<or> (s = None \<and> elems other \<noteq> {})"
  using assms by (cases s; cases other)
    (auto simp: Set_Union_def Set_Len_elems elems_def gs_elems_def split: option.splits)

text \<open>The in-place \<open>Union\<close> and the copying \<open>UnionedWith\<close> compute the same set wherever
  \<open>Union\<close> returns; \<open>Union\<close> panics exactly when it would have to change a nil set, or when the
  receiver is not empty and the argument is a nil pointer, while \<open>UnionedWith\<close> never does.\<close>

theorem Union_panics_exactly:
  assumes "finite (elems s)" "finite (elems other)"
  shows "(case Set_Union s other of
            None \<Rightarrow> (elems s \<noteq> {} \<and> other = None) \<or> (s = None \<and> elems other \<noteq> {})
          | Some s' \<Rightarrow> \<not> (elems s \<noteq> {} \<and> other = None) \<and> \<not> (s = None \<and> elems other \<noteq> {})
              \<and> elems s' = elems s \<union> elems other)
    \<and> elems (Set_UnionedWith s other) = elems s \<union> elems other"
  using Set_Union_panics[OF assms] elems_Union[OF assms]
  by (auto simp: elems_UnionedWith split: option.split)

lemma Union_panics_exactly_witness:
  "Set_Union (Some \<lparr>gs_M = Some {1::nat}\<rparr>) None = None"
  using Union_panics_exactly[of "Some \<lparr>gs_M = Some {1::nat}\<rparr>" None]
  by (auto simp: elems_def gs_elems_def split: option.splits)

section \<open>CopyOnWriteMap\<close>

record CopyOnWriteMap =
  cow_m :: "nat option"
  cow_owned :: bool

type_synonym ('k, 'v) heap = "('k, 'v) mapping list"

definition cow_zero :: CopyOnWriteMap where
  "cow_zero = \<lparr>cow_m = None, cow_owned = False\<rparr>"

text \<open>The Go map that a struct points to.\<close>

definition cow_read :: "('k, 'v) heap \<Rightarrow> CopyOnWriteMap \<Rightarrow> ('k, 'v) mapping" where
  "cow_read h c = (case cow_m c of None \<Rightarrow> Mapping.empty | Some a \<Rightarrow> h ! a)"

definition cow_Get :: "'v \<Rightarrow> 'k \<Rightarrow> ('k, 'v) heap \<times> CopyOnWriteMap \<Rightarrow> 'v \<times> bool" where
  "cow_Get zero k hc =
    (case Mapping.lookup (cow_read (fst hc) (snd hc)) k of Some v \<Rightarrow> (v, True) | None \<Rightarrow> (zero, False))"

definition cow_Has :: "'k \<Rightarrow> ('k, 'v) heap \<times> CopyOnWriteMap \<Rightarrow> bool" where
  "cow_Has k hc = (Mapping.lookup (cow_read (fst hc) (snd hc)) k \<noteq> None)"

definition ensureOwned :: "('k, 'v) heap \<times> CopyOnWriteMap \<Rightarrow> ('k, 'v) heap \<times> CopyOnWriteMap" where
  "ensureOwned hc =
    (let h = fst hc; c = snd hc in
     if cow_owned c then (h, c)
     else let copy = (case cow_m c of None \<Rightarrow> Mapping.empty | Some a \<Rightarrow> h ! a)
       in (h @ [copy], c\<lparr>cow_m := Some (length h), cow_owned := True\<rparr>))"

text \<open>Writing through the address; a nil map would be a panic, which \<open>ensureOwned\<close> excludes.\<close>

definition cow_Set :: "'k \<Rightarrow> 'v \<Rightarrow> ('k, 'v) heap \<times> CopyOnWriteMap \<Rightarrow> (('k, 'v) heap \<times> CopyOnWriteMap) option" where
  "cow_Set k v hc =
    (let h = fst (ensureOwned hc); c = snd (ensureOwned hc) in
     case cow_m c of None \<Rightarrow> None
     | Some a \<Rightarrow> if a < length h then Some (h[a := Mapping.update k v (h ! a)], c) else None)"

text \<open>\<open>EnterScope\<close> returns the struct that the restoring function writes back.\<close>

definition EnterScope :: "CopyOnWriteMap \<Rightarrow> CopyOnWriteMap \<times> CopyOnWriteMap" where
  "EnterScope c = (c, c\<lparr>cow_owned := False\<rparr>)"

section \<open>Scopes see a copy\<close>

text \<open>A run of a client: sets, and scopes that are entered and left like brackets.\<close>

datatype ('k, 'v) cow_op = CowSet 'k 'v | CowEnter | CowLeave

fun cow_run :: "('k, 'v) cow_op list \<Rightarrow> ('k, 'v) heap \<times> CopyOnWriteMap \<Rightarrow> CopyOnWriteMap list \<Rightarrow>
    (('k, 'v) heap \<times> CopyOnWriteMap \<times> CopyOnWriteMap list) option" where
  "cow_run [] hc saved = Some (fst hc, snd hc, saved)"
| "cow_run (CowSet k v # ops) hc saved =
    (case cow_Set k v hc of None \<Rightarrow> None | Some hc' \<Rightarrow> cow_run ops hc' saved)"
| "cow_run (CowEnter # ops) hc saved =
    (let (s, c) = EnterScope (snd hc) in cow_run ops (fst hc, c) (s # saved))"
| "cow_run (CowLeave # ops) hc saved =
    (case saved of [] \<Rightarrow> cow_run ops hc saved | s # saved' \<Rightarrow> cow_run ops (fst hc, s) saved')"

text \<open>The specification: a stack of independent maps.\<close>

fun scope_run :: "('k, 'v) cow_op list \<Rightarrow> ('k \<rightharpoonup> 'v) \<Rightarrow> ('k \<rightharpoonup> 'v) list \<Rightarrow> ('k \<rightharpoonup> 'v) \<times> ('k \<rightharpoonup> 'v) list" where
  "scope_run [] m outer = (m, outer)"
| "scope_run (CowSet k v # ops) m outer = scope_run ops (m(k \<mapsto> v)) outer"
| "scope_run (CowEnter # ops) m outer = scope_run ops m (m # outer)"
| "scope_run (CowLeave # ops) m outer =
    (case outer of [] \<Rightarrow> scope_run ops m outer | m' # outer' \<Rightarrow> scope_run ops m' outer')"

text \<open>The invariant: addresses are allocated, and a frame that owns its map shares it with no
  frame below.\<close>

definition cow_allocated :: "('k, 'v) heap \<Rightarrow> CopyOnWriteMap \<Rightarrow> bool" where
  "cow_allocated h c \<longleftrightarrow> (case cow_m c of None \<Rightarrow> \<not> cow_owned c | Some a \<Rightarrow> a < length h)"

fun cow_frames_ok :: "('k, 'v) heap \<Rightarrow> CopyOnWriteMap list \<Rightarrow> bool" where
  "cow_frames_ok h [] \<longleftrightarrow> True"
| "cow_frames_ok h (c # saved) \<longleftrightarrow>
    cow_allocated h c \<and> (cow_owned c \<longrightarrow> cow_m c \<notin> cow_m ` set saved) \<and> cow_frames_ok h saved"

definition cow_look :: "('k, 'v) heap \<times> CopyOnWriteMap \<Rightarrow> 'k \<Rightarrow> 'v option" where
  "cow_look hc = Mapping.lookup (cow_read (fst hc) (snd hc))"

lemma cow_frames_allocated: "cow_frames_ok h frames \<Longrightarrow> c \<in> set frames \<Longrightarrow> cow_allocated h c"
  by (induction frames) auto

lemma cow_frames_ok_mono:
  "cow_frames_ok h frames \<Longrightarrow> length h \<le> length h' \<Longrightarrow> cow_frames_ok h' frames"
  by (induction frames) (auto simp: cow_allocated_def split: option.splits)

text \<open>One \<open>Set\<close>: it returns, the current frame sees the update and the others see no change.\<close>

lemma cow_Set_effect:
  assumes ok: "cow_frames_ok h (c # saved)"
  obtains h' c' where "cow_Set k v (h, c) = Some (h', c')" "cow_frames_ok h' (c' # saved)"
    "cow_look (h', c') = (cow_look (h, c))(k \<mapsto> v)"
    "\<And>s. s \<in> set saved \<Longrightarrow> cow_look (h', s) = cow_look (h, s)"
proof (cases "cow_owned c")
  case True
  then obtain a where a: "cow_m c = Some a" "a < length h"
    using ok by (auto simp: cow_allocated_def split: option.splits)
  let ?h' = "h[a := Mapping.update k v (h ! a)]"
  have frames: "cow_look (?h', s) = cow_look (h, s)" if "s \<in> set saved" for s
  proof -
    have "cow_m s \<noteq> Some a" using ok True a that by force
    then show ?thesis by (auto simp: cow_look_def cow_read_def split: option.split)
  qed
  show ?thesis
    by (rule that[of ?h' c])
      (use a True ok frames in \<open>auto simp: cow_Set_def ensureOwned_def Let_def cow_look_def cow_read_def
        fun_eq_iff lookup_update' cow_allocated_def intro: cow_frames_ok_mono\<close>)
next
  case False
  let ?m = "cow_read h c"
  let ?h' = "h @ [Mapping.update k v ?m]" and ?c' = "c\<lparr>cow_m := Some (length h), cow_owned := True\<rparr>"
  have al: "cow_allocated h s" if "s \<in> set saved" for s
    using cow_frames_allocated[of h "c # saved" s] ok that by simp
  have fresh: "Some (length h) \<notin> cow_m ` set saved"
  proof
    assume "Some (length h) \<in> cow_m ` set saved"
    then obtain s where "s \<in> set saved" "cow_m s = Some (length h)" by auto
    then show False using al[of s] by (simp add: cow_allocated_def)
  qed
  have "cow_Set k v (h, c) = Some (?h', ?c')"
    using False by (simp add: cow_Set_def ensureOwned_def Let_def cow_read_def)
  moreover have "cow_frames_ok ?h' (?c' # saved)"
    using ok fresh by (auto simp: cow_allocated_def intro: cow_frames_ok_mono)
  moreover have "cow_look (?h', ?c') = (cow_look (h, c))(k \<mapsto> v)"
    by (auto simp: cow_look_def cow_read_def lookup_update')
  moreover have "cow_look (?h', s) = cow_look (h, s)" if "s \<in> set saved" for s
    using al[OF that] by (auto simp: cow_look_def cow_read_def nth_append cow_allocated_def split: option.splits)
  ultimately show ?thesis by (rule that)
qed

lemma cow_run_refines:
  assumes "cow_frames_ok h (c # saved)"
  obtains h' c' saved' where "cow_run ops (h, c) saved = Some (h', c', saved')"
    "cow_frames_ok h' (c' # saved')"
    "scope_run ops (cow_look (h, c)) (map (\<lambda>s. cow_look (h, s)) saved)
       = (cow_look (h', c'), map (\<lambda>s. cow_look (h', s)) saved')"
  using assms
proof (induction ops arbitrary: h c saved thesis)
  case (Cons op ops)
  show ?case
  proof (cases op)
    case (CowSet k v)
    obtain h1 c1 where s: "cow_Set k v (h, c) = Some (h1, c1)" "cow_frames_ok h1 (c1 # saved)"
      and l: "cow_look (h1, c1) = (cow_look (h, c))(k \<mapsto> v)"
      and fr: "\<And>s. s \<in> set saved \<Longrightarrow> cow_look (h1, s) = cow_look (h, s)"
      by (rule cow_Set_effect[OF Cons.prems(2), of k v], rule that)
    have m: "map (\<lambda>s. cow_look (h1, s)) saved = map (\<lambda>s. cow_look (h, s)) saved" using fr by simp
    show ?thesis
      by (rule Cons.IH[OF _ s(2)], rule Cons.prems(1)) (use s l m CowSet in \<open>auto simp: fun_upd_def\<close>)
  next
    case CowEnter
    have ok: "cow_frames_ok h (c\<lparr>cow_owned := False\<rparr> # c # saved)"
      using Cons.prems(2) by (auto simp: cow_allocated_def split: option.splits)
    have l: "cow_look (h, c\<lparr>cow_owned := False\<rparr>) = cow_look (h, c)"
      by (simp add: cow_look_def cow_read_def)
    show ?thesis
      by (rule Cons.IH[OF _ ok], rule Cons.prems(1)) (use l CowEnter in \<open>auto simp: EnterScope_def\<close>)
  next
    case CowLeave
    show ?thesis
    proof (cases saved)
      case Nil
      show ?thesis by (rule Cons.IH[OF _ Cons.prems(2)], rule Cons.prems(1)) (use CowLeave Nil in auto)
    next
      case (Cons s rest)
      have ok: "cow_frames_ok h (s # rest)" using Cons.prems(2) Cons by simp
      show ?thesis by (rule Cons.IH[OF _ ok], rule Cons.prems(1)) (use CowLeave Cons in auto)
    qed
  qed
qed (auto intro: that)

text \<open>C24: Copying on write is transparent. For every sequence of sets and of scopes entered and
  left, no write panics, and the current map and the map of every enclosing scope are those of
  a stack of independent copies: what a scope writes is invisible after it is left.\<close>

theorem cow_scopes_are_copies:
  "\<exists>h c saved. cow_run ops ([], cow_zero) [] = Some (h, c, saved) \<and>
    (let (m, outer) = scope_run ops (\<lambda>_. None) [] in
      cow_look (h, c) = m \<and> map (\<lambda>s. cow_look (h, s)) saved = outer \<and>
      cow_Get zero k (h, c) = (case m k of Some v \<Rightarrow> (v, True) | None \<Rightarrow> (zero, False)))"
proof -
  have ok: "cow_frames_ok [] [cow_zero]" by (simp add: cow_zero_def cow_allocated_def)
  have z: "cow_look ([], cow_zero) = (\<lambda>_. None)"
    by (simp add: cow_look_def cow_read_def cow_zero_def fun_eq_iff)
  obtain h c saved where run: "cow_run ops ([], cow_zero) [] = Some (h, c, saved)"
    and spec: "scope_run ops (cow_look ([], cow_zero)) (map (\<lambda>s. cow_look ([], s)) [])
      = (cow_look (h, c), map (\<lambda>s. cow_look (h, s)) saved)"
    by (rule cow_run_refines[OF ok, of ops])
  have "cow_Get zero k (h, c) = (case cow_look (h, c) k of Some v \<Rightarrow> (v, True) | None \<Rightarrow> (zero, False))"
    by (simp add: cow_Get_def cow_look_def)
  then show ?thesis using run spec by (simp add: z)
qed

text \<open>As a map, with the struct and the store together.\<close>

definition cow_put :: "'k \<Rightarrow> 'v \<Rightarrow> ('k, 'v) heap \<times> CopyOnWriteMap \<Rightarrow> ('k, 'v) heap \<times> CopyOnWriteMap" where
  "cow_put k v hc = (case cow_Set k v hc of Some hc' \<Rightarrow> hc' | None \<Rightarrow> hc)"

interpretation cow: extensible_map "([], cow_zero)" cow_look cow_put "\<lambda>hc. cow_frames_ok (fst hc) [snd hc]"
proof unfold_locales
  fix m :: "('a, 'b) heap \<times> CopyOnWriteMap" and k :: 'a and v :: 'b and k' :: 'a
  assume ok: "cow_frames_ok (fst m) [snd m]"
  obtain h c where "cow_Set k v m = Some (h, c)" "cow_frames_ok h [c]" "cow_look (h, c) = (cow_look m)(k \<mapsto> v)"
    using cow_Set_effect[OF ok, of k v] by (metis prod.collapse)
  then show "cow_look (cow_put k v m) k' = (if k' = k then Some v else cow_look m k')"
    "cow_frames_ok (fst (cow_put k v m)) [snd (cow_put k v m)]"
    by (simp_all add: cow_put_def)
qed (simp_all add: cow_look_def cow_read_def cow_zero_def cow_allocated_def)

end
