(* ===== verification/ScannerLines.thy ===== *)
theory ScannerLines
  imports StringUtil
begin

text \<open>
  Lines and offsets: the line map of a text (\<^verbatim>\<open>core/core.go\<close>), the conversions between byte
  positions, lines, byte offsets and UTF-16 offsets (\<^verbatim>\<open>core/core.go\<close>, \<^verbatim>\<open>scanner/scanner.go\<close>), the
  bidirectional map between UTF-8 and UTF-16 offsets (\<^verbatim>\<open>ast/positionmap.go\<close>) and the line view
  that source maps use (\<^verbatim>\<open>sourcemap/lineinfo.go\<close>, \<^verbatim>\<open>sourcemap/util.go\<close>). Positions are \<open>nat\<close>
  where the code only forms them from text offsets, \<open>int\<close> where a caller passes them;
  \<open>TextPos\<close> is 32 bits wide and texts are shorter than that. \<open>None\<close> is a panic.
\<close>

section \<open>The line map\<close>

text \<open>The sequence that \<open>ComputeECMALineStartsSeq\<close> yields to a caller that never stops it.\<close>

function (sequential) lineStarts_from :: "string \<Rightarrow> nat \<Rightarrow> nat \<Rightarrow> nat list" where
  "lineStarts_from text' pos lineStart =
    (if pos < length text' then
       (let b = text' ! pos in
        if rune_of b < RuneSelf then
          (if b = CHR 0x0D then
             (let pos' = (if Suc pos < length text' \<and> text' ! Suc pos = CHR 0x0A then pos + 2 else pos + 1)
              in lineStart # lineStarts_from text' pos' pos')
           else if b = CHR 0x0A then lineStart # lineStarts_from text' (pos + 1) (pos + 1)
           else lineStarts_from text' (pos + 1) lineStart)
        else
          (let d = DecodeRune (drop pos text'); pos' = pos + snd d
           in if IsLineBreak (fst d) then lineStart # lineStarts_from text' pos' pos'
              else lineStarts_from text' pos' lineStart))
     else [lineStart])"
  by pat_completeness auto
termination
  by (relation "measure (\<lambda>(t, pos, _). length t - pos)")
    (auto simp: DecodeRune_size_pos intro!: diff_less_mono2)

declare lineStarts_from.simps [simp del]

definition ComputeECMALineStartsSeq :: "string \<Rightarrow> nat list" where
  "ComputeECMALineStartsSeq text' = lineStarts_from text' 0 0"

definition ComputeECMALineStarts :: "string \<Rightarrow> nat list" where
  "ComputeECMALineStarts text' = ComputeECMALineStartsSeq text'"

text \<open>\<open>sort.Search\<close>: the loop halves \<open>[i, j)\<close> keeping \<open>p\<close> false before \<open>i\<close> and true from \<open>j\<close> on.\<close>

function (sequential) search_loop :: "(nat \<Rightarrow> bool) \<Rightarrow> nat \<Rightarrow> nat \<Rightarrow> nat" where
  "search_loop p i j =
    (if i < j then
       (let h = i + (j - i) div 2
        in if \<not> p h then search_loop p (h + 1) j else search_loop p i h)
     else i)"
  by pat_completeness auto
termination
  by (relation "measure (\<lambda>(p, i, j). j - i)") auto

declare search_loop.simps [simp del]

definition sort_Search :: "nat \<Rightarrow> (nat \<Rightarrow> bool) \<Rightarrow> nat" where
  "sort_Search n p = search_loop p 0 n"

definition PositionToLineAndByteOffset :: "int \<Rightarrow> nat list \<Rightarrow> (nat \<times> int) option" where
  "PositionToLineAndByteOffset position lineStarts =
    (let line = sort_Search (length lineStarts) (\<lambda>i. int (lineStarts ! i) > position) - 1
     in if line < length lineStarts then Some (line, position - int (lineStarts ! line)) else None)"

section \<open>Lines of positions\<close>

function (sequential) lineOfPosition_loop :: "nat list \<Rightarrow> int \<Rightarrow> int \<Rightarrow> int \<Rightarrow> int" where
  "lineOfPosition_loop lineStarts pos low high =
    (if 0 \<le> low \<and> low \<le> high then
       (let middle = low + (high - low) div 2; value = int (lineStarts ! nat middle)
        in if value < pos then lineOfPosition_loop lineStarts pos (middle + 1) high
           else if value > pos then lineOfPosition_loop lineStarts pos low (middle - 1)
           else middle)
     else low - 1)"
  by pat_completeness auto
termination
  by (relation "measure (\<lambda>(_, _, low, high). nat (high + 1 - low))") auto

declare lineOfPosition_loop.simps [simp del]

definition ComputeLineOfPosition :: "nat list \<Rightarrow> int \<Rightarrow> int" where
  "ComputeLineOfPosition lineStarts pos =
    lineOfPosition_loop lineStarts pos 0 (int (length lineStarts) - 1)"

text \<open>The UTF-16 length: the loop over the runes, and the ASCII fast path before it.\<close>

function (sequential) utf16_units :: "string \<Rightarrow> int" where
  "utf16_units s =
    (if s = [] then 0
     else utf16_RuneLen (fst (DecodeRune s)) + utf16_units (drop (snd (DecodeRune s)) s))"
  by pat_completeness auto
termination
  by (relation "measure length") (auto simp: DecodeRune_size_pos)

declare utf16_units.simps [simp del]

definition UTF16Len :: "string \<Rightarrow> int" where
  "UTF16Len s =
    (let i = run_length (\<lambda>c. rune_of c < RuneSelf) s
     in if i < length s then int i + utf16_units (drop i s) else int (length s))"

text \<open>The slice expressions panic on a line or position outside the text.\<close>

definition GetECMALineAndUTF16CharacterOfPosition ::
    "string \<Rightarrow> nat list \<Rightarrow> int \<Rightarrow> (int \<times> int) option" where
  "GetECMALineAndUTF16CharacterOfPosition text' lineMap pos =
    (let line = ComputeLineOfPosition lineMap pos
     in if 0 \<le> line \<and> line < int (length lineMap)
          \<and> int (lineMap ! nat line) \<le> pos \<and> pos \<le> int (length text')
        then Some (line, UTF16Len (slc text' (lineMap ! nat line) (nat pos)))
        else None)"

definition GetECMALineAndByteOffsetOfPosition :: "nat list \<Rightarrow> int \<Rightarrow> (int \<times> int) option" where
  "GetECMALineAndByteOffsetOfPosition lineMap pos =
    (let line = ComputeLineOfPosition lineMap pos
     in if 0 \<le> line \<and> line < int (length lineMap) then Some (line, pos - int (lineMap ! nat line)) else None)"

function (sequential) endLine_loop :: "string \<Rightarrow> nat \<Rightarrow> int" where
  "endLine_loop text' pos =
    (let d = DecodeRune (drop pos text')
     in if snd d = 0 \<or> IsLineBreak (fst d) then int pos - 1 else endLine_loop text' (pos + snd d))"
  by pat_completeness auto
termination
  by (relation "measure (\<lambda>(t, pos). length t - pos)") (auto simp: DecodeRune_size_pos intro!: diff_less_mono2)

declare endLine_loop.simps [simp del]

definition GetECMAEndLinePosition :: "string \<Rightarrow> nat list \<Rightarrow> int \<Rightarrow> int option" where
  "GetECMAEndLinePosition text' lineMap line =
    (if 0 \<le> line \<and> line < int (length lineMap) \<and> lineMap ! nat line \<le> length text'
     then Some (endLine_loop text' (lineMap ! nat line)) else None)"

section \<open>Positions of lines\<close>

definition ComputePositionOfLineAndByteOffset :: "nat list \<Rightarrow> int \<Rightarrow> int \<Rightarrow> int option" where
  "ComputePositionOfLineAndByteOffset lineStarts line byteOffset =
    (if line < 0 \<or> line \<ge> int (length lineStarts) then None
     else Some (int (lineStarts ! nat line) + byteOffset))"

lemma decode_valid:
  "0xC2 \<le> b0 \<Longrightarrow> b0 < 0xE0 \<Longrightarrow> ValidRune (fst (decode2 b0 r))"
  "b0 = 0xE0 \<Longrightarrow> ValidRune (fst (decode3 0xA0 0xBF b0 r))"
  "b0 = 0xED \<Longrightarrow> ValidRune (fst (decode3 0x80 0x9F b0 r))"
  "0xE1 \<le> b0 \<Longrightarrow> b0 < 0xF0 \<Longrightarrow> b0 \<noteq> 0xED \<Longrightarrow> ValidRune (fst (decode3 0x80 0xBF b0 r))"
  "b0 = 0xF0 \<Longrightarrow> ValidRune (fst (decode4 0x90 0xBF b0 r))"
  "0xF1 \<le> b0 \<Longrightarrow> b0 < 0xF4 \<Longrightarrow> ValidRune (fst (decode4 0x80 0xBF b0 r))"
  "b0 = 0xF4 \<Longrightarrow> ValidRune (fst (decode4 0x80 0x8F b0 r))"
  by (auto simp: decode2_def decode3_def decode4_def byte_in_def ValidRune_def split: list.split)

lemma DecodeRune_valid: "ValidRune (fst (DecodeRune s))"
proof (cases s)
  case (Cons c r)
  have "0 \<le> rune_of c" by simp
  moreover have "ValidRune RuneError" by (simp add: ValidRune_def)
  moreover have "0 \<le> b \<Longrightarrow> b < 0x80 \<Longrightarrow> ValidRune b" for b by (simp add: ValidRune_def)
  ultimately show ?thesis unfolding Cons DecodeRune_def Let_def
    by (auto simp del: of_char_of intro!: decode_valid)
qed (simp add: ValidRune_def)

lemma RuneLen_decoded: "1 \<le> utf16_RuneLen (fst (DecodeRune s))"
  using DecodeRune_valid[of s] by (auto simp: ValidRune_def utf16_RuneLen_def)

text \<open>
  The scan of a line for a UTF-16 offset: the position and the count where it stops. At the
  end of the text the decoder reports size 0 and the count still grows.
\<close>

function (sequential) utf16_scan :: "string \<Rightarrow> nat \<Rightarrow> int \<Rightarrow> nat \<Rightarrow> int \<Rightarrow> (nat \<times> int) option" where
  "utf16_scan text' lineEnd character pos utf16Count =
    (if pos < lineEnd \<and> utf16Count < character then
       (if pos > length text' then None
        else let d = DecodeRune (drop pos text')
          in utf16_scan text' lineEnd character (pos + snd d) (utf16Count + utf16_RuneLen (fst d)))
     else Some (pos, utf16Count))"
  by pat_completeness auto
termination
proof (relation "measure (\<lambda>(_, _, ch, _, n). nat (ch - n))")
  fix text' :: string and lineEnd pos :: nat and character utf16Count :: int and d :: "rune \<times> nat"
  assume a: "pos < lineEnd \<and> utf16Count < character" and d: "d = DecodeRune (drop pos text')"
  show "((text', lineEnd, character, pos + snd d, utf16Count + utf16_RuneLen (fst d)),
         text', lineEnd, character, pos, utf16Count) \<in> measure (\<lambda>(_, _, ch, _, n). nat (ch - n))"
    using a RuneLen_decoded[of "drop pos text'"] unfolding d by simp
qed simp

declare utf16_scan.simps [simp del]

definition ComputePositionOfLineAndUTF16Character ::
    "nat list \<Rightarrow> int \<Rightarrow> int \<Rightarrow> string \<Rightarrow> bool \<Rightarrow> int option" where
  "ComputePositionOfLineAndUTF16Character lineStarts line0 character text' allowEdits =
    (if (line0 < 0 \<or> line0 \<ge> int (length lineStarts)) \<and> \<not> allowEdits then None
     else
       let line = (if line0 < 0 then 0
                   else if line0 \<ge> int (length lineStarts) then int (length lineStarts) - 1 else line0)
       in if line < 0 \<or> line \<ge> int (length lineStarts) then None
       else let lineStart = lineStarts ! nat line
       in if character > 0 then
            let lineEnd = (if line + 1 < int (length lineStarts) then lineStarts ! nat (line + 1)
                           else length text')
            in case utf16_scan text' lineEnd character lineStart 0 of
                 None \<Rightarrow> None
               | Some (pos, utf16Count) \<Rightarrow>
                   if \<not> allowEdits then
                     (if pos = lineEnd \<and> utf16Count < character then None
                      else if pos \<le> length text' then Some (int pos) else None)
                   else if pos > length text' then Some (int (length text')) else Some (int pos)
          else if allowEdits then
            (if lineStart > length text' then Some (int (length text')) else Some (int lineStart))
          else if lineStart \<le> length text' then Some (int lineStart) else None)"

definition GetECMAPositionOfLineAndUTF16Character :: "string \<Rightarrow> nat list \<Rightarrow> int \<Rightarrow> int \<Rightarrow> int option" where
  "GetECMAPositionOfLineAndUTF16Character text' lineStarts line character =
    ComputePositionOfLineAndUTF16Character lineStarts line character text' False"

definition GetECMAPositionOfLineAndByteOffset :: "nat list \<Rightarrow> int \<Rightarrow> int \<Rightarrow> int option" where
  "GetECMAPositionOfLineAndByteOffset lineStarts line byteOffset =
    ComputePositionOfLineAndByteOffset lineStarts line byteOffset"

section \<open>Position maps\<close>

record positionMapEntry =
  utf8Pos :: nat
  delta :: int

record PositionMap =
  asciiOnly :: bool
  pm_entries :: "positionMapEntry list"

function (sequential) positionMap_from :: "string \<Rightarrow> nat \<Rightarrow> int \<Rightarrow> positionMapEntry list" where
  "positionMap_from text' i dl =
    (if i < length text' then
       (if rune_of (text' ! i) < RuneSelf then positionMap_from text' (i + 1) dl
        else let d = DecodeJSStringRune (drop i text');
                 utf16Size = (if fst d \<ge> 0x10000 then 2 else 1);
                 dl' = dl + (int (snd d) - utf16Size)
          in \<lparr>utf8Pos = i + snd d, delta = dl'\<rparr> # positionMap_from text' (i + snd d) dl')
     else [])"
  by pat_completeness auto
termination
  by (relation "measure (\<lambda>(t, i, _). length t - i)")
    (auto simp: DecodeJSStringRune_size_pos intro!: diff_less_mono2)

declare positionMap_from.simps [simp del]

definition ComputePositionMap :: "string \<Rightarrow> PositionMap" where
  "ComputePositionMap text' =
    (let entries = positionMap_from text' 0 0 in \<lparr>asciiOnly = (entries = []), pm_entries = entries\<rparr>)"

text \<open>Both conversions search the first entry that lies beyond the offset.\<close>

definition UTF8ToUTF16 :: "PositionMap \<Rightarrow> int \<Rightarrow> int" where
  "UTF8ToUTF16 pm utf8Offset =
    (if asciiOnly pm then utf8Offset
     else let es = pm_entries pm;
              lo = search_loop (\<lambda>mid. \<not> int (utf8Pos (es ! mid)) \<le> utf8Offset) 0 (length es)
       in if lo = 0 then utf8Offset else utf8Offset - delta (es ! (lo - 1)))"

definition UTF16ToUTF8 :: "PositionMap \<Rightarrow> int \<Rightarrow> int" where
  "UTF16ToUTF8 pm utf16Offset =
    (if asciiOnly pm then utf16Offset
     else let es = pm_entries pm;
              lo = search_loop (\<lambda>mid. \<not> int (utf8Pos (es ! mid)) - delta (es ! mid) \<le> utf16Offset) 0 (length es)
       in if lo = 0 then utf16Offset else utf16Offset + delta (es ! (lo - 1)))"

section \<open>Line views of source maps\<close>

record ECMALineInfo =
  li_text :: string
  li_lineStarts :: "nat list"

definition CreateECMALineInfo :: "string \<Rightarrow> nat list \<Rightarrow> ECMALineInfo" where
  "CreateECMALineInfo text' lineStarts = \<lparr>li_text = text', li_lineStarts = lineStarts\<rparr>"

definition LineCount :: "ECMALineInfo \<Rightarrow> nat" where
  "LineCount li = length (li_lineStarts li)"

definition LineText :: "ECMALineInfo \<Rightarrow> nat \<Rightarrow> string option" where
  "LineText li line =
    (if line < length (li_lineStarts li) then
       let pos = li_lineStarts li ! line;
           e = (if line + 1 < length (li_lineStarts li) then li_lineStarts li ! (line + 1)
                else length (li_text li))
       in if pos \<le> e \<and> e \<le> length (li_text li) then Some (slc (li_text li) pos e) else None
     else None)"

end
