(* ===== verification/ScannerLinesProps.thy ===== *)
theory ScannerLinesProps
  imports ScannerLines
begin

text \<open>
  Correctness of lines and offsets: the line map is the set of positions after a line
  terminator, the binary searches find the line of a position, and the conversions to byte
  and UTF-16 offsets and back are inverse.
\<close>

section \<open>Facts on decoded runes\<close>

lemma decode_cont:
  "i < snd (decode2 b0 r) \<Longrightarrow> 0 < i \<Longrightarrow> utf8_cont (r ! (i - Suc 0))"
  "i < snd (decode3 lo hi b0 r) \<Longrightarrow> 0 < i \<Longrightarrow> 0x80 \<le> lo \<Longrightarrow> hi \<le> 0xBF \<Longrightarrow> utf8_cont (r ! (i - Suc 0))"
  "i < snd (decode4 lo hi b0 r) \<Longrightarrow> 0 < i \<Longrightarrow> 0x80 \<le> lo \<Longrightarrow> hi \<le> 0xBF \<Longrightarrow> utf8_cont (r ! (i - Suc 0))"
  by (auto simp: decode2_def decode3_def decode4_def byte_in_def less_Suc_eq numeral_eq_Suc
      split: list.splits if_split_asm)

lemma nth_drop_head: "p \<le> q \<Longrightarrow> q \<le> length t \<Longrightarrow> drop p t ! (q - p) = drop q t ! 0"
  by simp

lemma DecodeRune_cont:
  assumes "i < snd (DecodeRune s)" "0 < i"
  shows "utf8_cont (s ! i)"
proof (cases s)
  case (Cons c r)
  have "utf8_cont (r ! (i - Suc 0))"
    using assms unfolding Cons DecodeRune_def Let_def
    by (auto split: if_split_asm intro: decode_cont)
  then show ?thesis using assms(2) Cons by (simp add: nth_Cons')
qed (use assms in simp)

text \<open>Line and paragraph separator in UTF-8.\<close>

definition separator_bytes :: "string \<Rightarrow> bool" where
  "separator_bytes s \<longleftrightarrow> 3 \<le> length s \<and> rune_of (s ! 0) = 0xE2 \<and> rune_of (s ! 1) = 0x80
    \<and> (rune_of (s ! 2) = 0xA8 \<or> rune_of (s ! 2) = 0xA9)"

lemma separator_decodes:
  assumes "separator_bytes s"
  shows "IsLineBreak (fst (DecodeRune s))" "snd (DecodeRune s) = 3"
proof -
  obtain c0 c1 c2 r where s: "s = c0 # c1 # c2 # r"
    using assms unfolding separator_bytes_def by (metis Suc_le_length_iff numeral_3_eq_3)
  have c: "rune_of c0 = 0xE2" "rune_of c1 = 0x80" "rune_of c2 = 0xA8 \<or> rune_of c2 = 0xA9"
    using assms unfolding separator_bytes_def s by (simp_all add: numeral_2_eq_2)
  have "DecodeRune s = (0x2000 + (rune_of c2 - 0x80), 3)"
    using c unfolding s DecodeRune_def decode3_def by (auto simp: byte_in_def)
  then show "IsLineBreak (fst (DecodeRune s))" "snd (DecodeRune s) = 3"
    using c(3) by (auto simp: IsLineBreak_def)
qed

lemma decode2_small: "0xC2 \<le> b0 \<Longrightarrow> b0 < 0xE0 \<Longrightarrow> fst (decode2 b0 r) < 0x800 \<or> fst (decode2 b0 r) = RuneError"
  by (auto simp: decode2_def byte_in_def split: list.split)

lemma decode4_large: "0xF0 \<le> b0 \<Longrightarrow> (b0 = 0xF0 \<longrightarrow> 0x90 \<le> lo) \<Longrightarrow> 0x80 \<le> lo \<Longrightarrow>
   0x10000 \<le> fst (decode4 lo hi b0 r) \<or> fst (decode4 lo hi b0 r) = RuneError"
  by (auto simp: decode4_def byte_in_def split: list.split)

lemma separator_arith:
  fixes b0 x y :: int
  assumes "0x2028 \<le> (b0 - 0xE0) * 4096 + (x - 0x80) * 64 + (y - 0x80)"
    and "(b0 - 0xE0) * 4096 + (x - 0x80) * 64 + (y - 0x80) \<le> 0x2029"
    and "0x80 \<le> x" "x \<le> 0xBF" "0x80 \<le> y" "y \<le> 0xBF"
  shows "b0 = 0xE2" "x = 0x80" "y = 0xA8 \<or> y = 0xA9"
proof -
  have "b0 < 0xE3" using assms by simp
  moreover have "0xE1 < b0" using assms by simp
  ultimately show b0: "b0 = 0xE2" by simp
  have "x < 0x81" using assms unfolding b0 by simp
  then show x: "x = 0x80" using assms by simp
  show "y = 0xA8 \<or> y = 0xA9" using assms unfolding b0 x by auto
qed

lemma decode3_separator:
  assumes "IsLineBreak (fst (decode3 lo hi b0 r))" "0xE0 \<le> b0" "0x80 \<le> lo" "hi \<le> 0xBF"
    and "b0 = 0xE0 \<Longrightarrow> 0xA0 \<le> lo"
  shows "b0 = 0xE2 \<and> 2 \<le> length r \<and> rune_of (r ! 0) = 0x80 \<and> (rune_of (r ! 1) = 0xA8 \<or> rune_of (r ! 1) = 0xA9)"
proof -
  obtain c1 c2 r' where r: "r = c1 # c2 # r'" and b: "byte_in lo hi c1" "utf8_cont c2"
    using assms(1) by (auto simp: decode3_def IsLineBreak_def split: list.splits if_split_asm)
  define v where "v = (b0 - 0xE0) * 4096 + (rune_of c1 - 0x80) * 64 + (rune_of c2 - 0x80)"
  have v: "IsLineBreak v" using assms(1) b by (simp add: r decode3_def v_def)
  have bd: "lo \<le> rune_of c1" "rune_of c1 \<le> hi" "0x80 \<le> rune_of c2" "rune_of c2 \<le> 0xBF"
    using b by (auto simp: byte_in_def)
  have big: "v \<ge> 0x800" if "b0 = 0xE0" using bd assms(5)[OF that] that by (simp add: v_def)
  have "v = 0x2028 \<or> v = 0x2029"
  proof (cases "b0 = 0xE0")
    case True then show ?thesis using v big by (auto simp: IsLineBreak_def)
  next
    case False
    then have "v \<ge> 4096" using bd assms(2,3) by (simp add: v_def)
    then show ?thesis using v by (auto simp: IsLineBreak_def)
  qed
  then have v2: "0x2028 \<le> v" "v \<le> 0x2029" by auto
  have "128 \<le> rune_of c1" "rune_of c1 \<le> 191" using bd assms(3,4) by auto
  note this = separator_arith[OF v2[unfolded v_def] this bd(3,4)]
  then have "b0 = 0xE2 \<and> rune_of c1 = 0x80 \<and> (rune_of c2 = 0xA8 \<or> rune_of c2 = 0xA9)"
    by blast
  then show ?thesis by (simp add: r)
qed

lemma break_is_separator:
  assumes "IsLineBreak (fst (DecodeRune s))" "s \<noteq> []" "\<not> rune_of (s ! 0) < 0x80"
  shows "separator_bytes s"
proof -
  obtain c r where s: "s = c # r" using assms(2) by (cases s) auto
  have c: "\<not> rune_of c < 0x80" using assms(3) by (simp add: s)
  have no: "\<not> IsLineBreak x" if "x < 0x800 \<and> 0x80 \<le> x \<or> 0x10000 \<le> x \<or> x = RuneError" for x
    using that by (auto simp: IsLineBreak_def)
  have ge: "0x80 \<le> fst (DecodeRune s)" using DecodeRune_high[of c r] c by (simp add: s)
  have "rune_of c = 0xE2 \<and> 2 \<le> length r \<and> rune_of (r ! 0) = 0x80 \<and> (rune_of (r ! 1) = 0xA8 \<or> rune_of (r ! 1) = 0xA9)"
  proof -
    consider "rune_of c < 0xC2" | "0xC2 \<le> rune_of c" "rune_of c < 0xE0" | "rune_of c = 0xE0"
      | "rune_of c = 0xED" | "0xE1 \<le> rune_of c" "rune_of c < 0xF0" "rune_of c \<noteq> 0xED"
      | "rune_of c = 0xF0" | "0xF1 \<le> rune_of c" "rune_of c < 0xF4" | "rune_of c = 0xF4" | "0xF4 < rune_of c"
      by linarith
    then show ?thesis
    proof cases
      case 2
      then have "DecodeRune s = decode2 (rune_of c) r" by (simp add: s DecodeRune_def)
      then show ?thesis using decode2_small[OF 2, of r] ge assms(1) no by metis
    next
      case 3
      then have "DecodeRune s = decode3 0xA0 0xBF (rune_of c) r" by (simp add: s DecodeRune_def)
      then show ?thesis using assms(1) 3 by (intro decode3_separator[of "0xA0" "0xBF"]) auto
    next
      case 4
      then have "DecodeRune s = decode3 0x80 0x9F (rune_of c) r" by (simp add: s DecodeRune_def)
      then show ?thesis using assms(1) 4 by (intro decode3_separator[of "0x80" "0x9F"]) auto
    next
      case 5
      then have "DecodeRune s = decode3 0x80 0xBF (rune_of c) r" by (simp add: s DecodeRune_def)
      then show ?thesis using assms(1) 5 by (intro decode3_separator[of "0x80" "0xBF"]) auto
    next
      case 6
      then have "DecodeRune s = decode4 0x90 0xBF (rune_of c) r" by (simp add: s DecodeRune_def)
      then show ?thesis using decode4_large[of "rune_of c" "0x90" "0xBF" r] 6 assms(1) no by auto
    next
      case 7
      then have "DecodeRune s = decode4 0x80 0xBF (rune_of c) r" by (simp add: s DecodeRune_def)
      then show ?thesis using decode4_large[of "rune_of c" "0x80" "0xBF" r] 7 assms(1) no by auto
    next
      case 8
      then have "DecodeRune s = decode4 0x80 0x8F (rune_of c) r" by (simp add: s DecodeRune_def)
      then show ?thesis using decode4_large[of "rune_of c" "0x80" "0x8F" r] 8 assms(1) no by auto
    qed (use c assms(1) no in \<open>auto simp: s DecodeRune_def\<close>)
  qed
  then show ?thesis by (auto simp: s separator_bytes_def nth_Cons' numeral_eq_Suc)
qed

section \<open>The line map\<close>

text \<open>A line starts at the beginning and after each terminator; CR LF is one terminator.\<close>

definition starts_line :: "string \<Rightarrow> nat \<Rightarrow> bool" where
  "starts_line t p \<longleftrightarrow> p = 0
    \<or> t ! (p - 1) = CHR 0x0A
    \<or> (t ! (p - 1) = CHR 0x0D \<and> \<not> (p < length t \<and> t ! p = CHR 0x0A))
    \<or> (3 \<le> p \<and> separator_bytes (drop (p - 3) t))"

text \<open>No separator begins before a rune boundary and ends after it.\<close>

definition no_straddle :: "string \<Rightarrow> nat \<Rightarrow> bool" where
  "no_straddle t p \<longleftrightarrow> (\<forall>q < p. p < q + 3 \<longrightarrow> \<not> separator_bytes (drop q t))"

lemma no_straddle_step:
  assumes "no_straddle t p" "p < length t"
  shows "no_straddle t (p + snd (DecodeRune (drop p t)))"
  unfolding no_straddle_def
proof (intro allI impI notI)
  fix q assume q: "q < p + snd (DecodeRune (drop p t))" "p + snd (DecodeRune (drop p t)) < q + 3"
    and sep: "separator_bytes (drop q t)"
  have pos: "0 < snd (DecodeRune (drop p t))" using assms(2) by (simp add: DecodeRune_size_pos)
  consider "q < p" | "q = p" | "p < q" by linarith
  then show False
  proof cases
    case 1 then show False using assms(1) q pos sep by (auto simp: no_straddle_def)
  next
    case 2 then show False using separator_decodes(2)[OF sep] q by simp
  next
    case 3
    then have "utf8_cont (drop p t ! (q - p))" using q by (intro DecodeRune_cont) auto
    moreover have "drop p t ! (q - p) = drop q t ! 0"
      using 3 sep by (intro nth_drop_head) (auto simp: separator_bytes_def)
    ultimately show False using sep by (simp add: separator_bytes_def byte_in_def)
  qed
qed

text \<open>The positions inside and at the end of a rune that is not ASCII.\<close>

lemma starts_line_rune:
  assumes ns: "no_straddle t p" and p: "p < length t" "\<not> rune_of (t ! p) < 0x80"
    and n: "n = snd (DecodeRune (drop p t))" and q: "p < q" "q \<le> p + n"
  shows "starts_line t q \<longleftrightarrow> q = p + n \<and> IsLineBreak (fst (DecodeRune (drop p t)))"
proof -
  have high: "\<not> rune_of (t ! (q - 1)) < 0x80"
  proof (cases "q - 1 = p")
    case False
    then have "utf8_cont (drop p t ! (q - 1 - p))" using q n by (intro DecodeRune_cont) auto
    moreover have "drop p t ! (q - 1 - p) = t ! (q - 1)" using q p by (simp add: add.commute)
    ultimately show ?thesis by (simp add: byte_in_def)
  qed (use p in simp)
  then have ascii: "t ! (q - 1) \<noteq> CHR 0x0A" "t ! (q - 1) \<noteq> CHR 0x0D" by auto
  have "3 \<le> q \<and> separator_bytes (drop (q - 3) t) \<longleftrightarrow> q = p + n \<and> IsLineBreak (fst (DecodeRune (drop p t)))"
  proof
    assume a: "3 \<le> q \<and> separator_bytes (drop (q - 3) t)"
    have "\<not> q - 3 < p" using ns a q by (auto simp: no_straddle_def)
    moreover have "\<not> p < q - 3"
    proof
      assume "p < q - 3"
      then have "utf8_cont (drop p t ! (q - 3 - p))" using q n by (intro DecodeRune_cont) auto
      moreover have "drop p t ! (q - 3 - p) = drop (q - 3) t ! 0"
        using a \<open>p < q - 3\<close> by (intro nth_drop_head) (auto simp: separator_bytes_def)
      ultimately show False using a by (simp add: separator_bytes_def byte_in_def)
    qed
    ultimately have "q - 3 = p" by simp
    then show "q = p + n \<and> IsLineBreak (fst (DecodeRune (drop p t)))"
      using a separator_decodes[of "drop p t"] n by auto
  next
    assume a: "q = p + n \<and> IsLineBreak (fst (DecodeRune (drop p t)))"
    then have "separator_bytes (drop p t)" using p by (intro break_is_separator) auto
    then show "3 \<le> q \<and> separator_bytes (drop (q - 3) t)" using a separator_decodes(2) n by simp
  qed
  then show ?thesis using ascii q by (simp add: starts_line_def)
qed

lemma no_separator_after_ascii:
  "p < length t \<Longrightarrow> rune_of (t ! p) < 0x80 \<Longrightarrow> \<not> (3 \<le> Suc p \<and> separator_bytes (drop (Suc p - 3) t))"
proof
  assume p: "p < length t" "rune_of (t ! p) < 0x80" and a: "3 \<le> Suc p \<and> separator_bytes (drop (Suc p - 3) t)"
  then obtain k where "p = k + 2" by (metis add.commute le_Suc_ex numeral_2_eq_2 numeral_3_eq_3 Suc_le_mono)
  then have "drop (Suc p - 3) t ! 2 = t ! p" using p(1) by simp
  then show False using p a by (auto simp: separator_bytes_def)
qed

lemma no_straddle_ascii:
  assumes "no_straddle t p" "p < length t" "rune_of (t ! p) < 0x80"
  shows "no_straddle t (Suc p)"
proof -
  have "drop p t = t ! p # drop (Suc p) t" using assms(2) by (simp add: Cons_nth_drop_Suc)
  then have "snd (DecodeRune (drop p t)) = 1" using assms(3) by simp
  then show ?thesis using no_straddle_step[OF assms(1,2)] by simp
qed

lemma filter_upt_step:
  assumes "p < q" "q \<le> n" "\<And>i. p < i \<Longrightarrow> i < q \<Longrightarrow> \<not> P i"
  shows "filter P [Suc p..<Suc n] = (if P q then [q] else []) @ filter P [Suc q..<Suc n]"
proof -
  have "[Suc p..<Suc n] = [Suc p..<q] @ q # [Suc q..<Suc n]"
    using assms(1,2) upt_add_eq_append[of "Suc p" q "Suc n - q"] upt_conv_Cons[of q "Suc n"] by simp
  moreover have "filter P [Suc p..<q] = []" using assms(3) by (auto simp: filter_empty_conv)
  ultimately show ?thesis by simp
qed

lemma lineStarts_from_spec:
  "no_straddle t pos \<Longrightarrow> pos \<le> length t \<Longrightarrow>
   lineStarts_from t pos ls = ls # filter (starts_line t) [Suc pos..<Suc (length t)]"
proof (induction t pos ls rule: lineStarts_from.induct)
  case (1 t pos ls)
  note IH = 1(1-5) and ns = 1(6) and le = 1(7)
  show ?case
  proof (cases "pos < length t")
    case False
    then show ?thesis using le by (subst lineStarts_from.simps) simp
  next
    case lt: True
    note step = lineStarts_from.simps[of t pos ls, unfolded Let_def]
    show ?thesis
    proof (cases "rune_of (t ! pos) < 0x80")
      case ascii: True
      have ns1: "no_straddle t (Suc pos)" by (rule no_straddle_ascii[OF ns lt ascii])
      have nosep: "starts_line t (Suc pos) \<longleftrightarrow> t ! pos = CHR 0x0A
          \<or> t ! pos = CHR 0x0D \<and> \<not> (Suc pos < length t \<and> t ! Suc pos = CHR 0x0A)"
        using no_separator_after_ascii[OF lt ascii] by (auto simp: starts_line_def)
      have one: "filter (starts_line t) [Suc pos..<Suc (length t)]
          = (if starts_line t (Suc pos) then [Suc pos] else []) @ filter (starts_line t) [Suc (Suc pos)..<Suc (length t)]"
        using lt by (intro filter_upt_step) auto
      show ?thesis
      proof (cases "t ! pos = CHR 0x0D \<and> Suc pos < length t \<and> t ! Suc pos = CHR 0x0A")
        case crlf: True
        have ns2: "no_straddle t (Suc (Suc pos))" using crlf by (intro no_straddle_ascii[OF ns1]) auto
        have "starts_line t (Suc (Suc pos))" using crlf by (simp add: starts_line_def)
        moreover have "\<not> starts_line t (Suc pos)" using nosep crlf by auto
        ultimately have "filter (starts_line t) [Suc pos..<Suc (length t)]
            = Suc (Suc pos) # filter (starts_line t) [Suc (Suc (Suc pos))..<Suc (length t)]"
          using crlf filter_upt_step[of pos "Suc (Suc pos)" "length t" "starts_line t"]
          by (auto simp: less_Suc_eq)
        then show ?thesis
          using crlf lt ascii IH(1)[OF lt refl _ _ refl] ns2 by (simp add: step)
      next
        case False
        then show ?thesis
          using lt ascii IH(1)[OF lt refl _ _ refl] IH(2)[OF lt refl] IH(3)[OF lt refl] ns1 nosep one
          by (auto simp: step)
      qed
    next
      case high: False
      define n where "n = snd (DecodeRune (drop pos t))"
      have n: "0 < n" "pos + n \<le> length t"
        using lt DecodeRune_size_pos[of "drop pos t"] DecodeRune_size_le[of "drop pos t"] by (auto simp: n_def)
      have ns': "no_straddle t (pos + n)" unfolding n_def by (rule no_straddle_step[OF ns lt])
      have sl: "starts_line t q \<longleftrightarrow> q = pos + n \<and> IsLineBreak (fst (DecodeRune (drop pos t)))"
        if "pos < q" "q \<le> pos + n" for q
        using starts_line_rune[OF ns lt high n_def that] .
      have f: "filter (starts_line t) [Suc pos..<Suc (length t)]
          = (if IsLineBreak (fst (DecodeRune (drop pos t))) then [pos + n] else [])
            @ filter (starts_line t) [Suc (pos + n)..<Suc (length t)]"
        using filter_upt_step[of pos "pos + n" "length t" "starts_line t"] n sl by auto
      show ?thesis
        using lt high IH(4)[OF lt refl high refl refl] IH(5)[OF lt refl high refl refl] n ns' f
        by (auto simp: step n_def[symmetric])
    qed
  qed
qed

text \<open>C25: The line map that the single pass over the runes of a text computes is the list, in
  order, of the positions at which a line starts: position 0, and the positions just after a
  line feed, a carriage return that no line feed follows, or the three bytes of U+2028 or
  U+2029. This holds of any byte string, also one that is not valid UTF-8.\<close>

theorem ECMA_line_starts_reference:
  "ComputeECMALineStarts t = filter (starts_line t) [0..<Suc (length t)]"
proof -
  have "no_straddle t 0" by (simp add: no_straddle_def)
  then have "ComputeECMALineStarts t = 0 # filter (starts_line t) [Suc 0..<Suc (length t)]"
    unfolding ComputeECMALineStarts_def ComputeECMALineStartsSeq_def by (rule lineStarts_from_spec) simp
  moreover have "starts_line t 0" by (simp add: starts_line_def)
  ultimately show ?thesis using upt_conv_Cons[of 0 "Suc (length t)"] by (simp del: upt_Suc)
qed

section \<open>Binary searches\<close>

lemma search_loop_spec:
  assumes "\<And>a b. a \<le> b \<Longrightarrow> b < n \<Longrightarrow> p a \<Longrightarrow> p b" "i \<le> j" "j \<le> n"
    and "\<And>a. a < i \<Longrightarrow> \<not> p a" "\<And>a. j \<le> a \<Longrightarrow> a < n \<Longrightarrow> p a"
  shows "search_loop p i j \<le> n \<and> (\<forall>a < n. p a \<longleftrightarrow> search_loop p i j \<le> a)"
  using assms(2-)
proof (induction "j - i" arbitrary: i j rule: less_induct)
  case less
  show ?case
  proof (cases "i < j")
    case False
    then have "search_loop p i j = i" "j = i" using less.prems(1) by (subst search_loop.simps, auto)
    then show ?thesis using less.prems by (metis not_le_imp_less)
  next
    case True
    define h where "h = i + (j - i) div 2"
    have h: "i \<le> h" "h < j" using True by (auto simp: h_def)
    have eq: "search_loop p i j = (if \<not> p h then search_loop p (h + 1) j else search_loop p i h)"
      using True by (subst search_loop.simps) (simp add: h_def)
    show ?thesis
    proof (cases "p h")
      case True
      have "p a" if "h \<le> a" "a < n" for a using assms(1)[OF that True] .
      then have "search_loop p i h \<le> n \<and> (\<forall>a < n. p a \<longleftrightarrow> search_loop p i h \<le> a)"
        using less.prems h by (intro less.hyps) auto
      then show ?thesis using eq True by simp
    next
      case False
      have "\<not> p a" if "a < h + 1" for a using assms(1)[of a h] False that h less.prems(2) by auto
      then have "search_loop p (h + 1) j \<le> n \<and> (\<forall>a < n. p a \<longleftrightarrow> search_loop p (h + 1) j \<le> a)"
        using less.prems h by (intro less.hyps) auto
      then show ?thesis using eq False by simp
    qed
  qed
qed

text \<open>A threshold on the indexes of a list counts the elements that pass.\<close>

lemma threshold_count:
  assumes "r \<le> length xs" "\<And>a. a < length xs \<Longrightarrow> P (xs ! a) \<longleftrightarrow> a < r"
  shows "length (filter P xs) = r" "filter P xs = take r xs"
proof -
  have "filter P (take r xs) = take r xs" "filter P (drop r xs) = []"
    using assms by (auto simp: filter_id_conv filter_empty_conv in_set_conv_nth)
  then show "filter P xs = take r xs"
    by (metis append_take_drop_id filter_append append_Nil2)
  then show "length (filter P xs) = r" using assms(1) by simp
qed

lemma search_counts:
  assumes "sorted_wrt (\<lambda>x y. P y \<longrightarrow> P x) xs"
  shows "search_loop (\<lambda>m. \<not> P (xs ! m)) 0 (length xs) = length (filter P xs)"
proof -
  have m: "\<not> P (xs ! b)" if "a \<le> b" "b < length xs" "\<not> P (xs ! a)" for a b
    using that assms unfolding sorted_wrt_iff_nth_less by (metis le_neq_implies_less)
  have "search_loop (\<lambda>m. \<not> P (xs ! m)) 0 (length xs) \<le> length xs
    \<and> (\<forall>a < length xs. \<not> P (xs ! a) \<longleftrightarrow> search_loop (\<lambda>m. \<not> P (xs ! m)) 0 (length xs) \<le> a)"
    by (rule search_loop_spec) (use m in auto)
  then have "length (filter P xs) = search_loop (\<lambda>m. \<not> P (xs ! m)) 0 (length xs)"
    by (intro threshold_count(1)) auto
  then show ?thesis by simp
qed

lemma lineOfPosition_spec:
  assumes "sorted_wrt (<) L" "0 \<le> low" "low \<le> high + 1" "high < int (length L)"
    and "\<And>a. a < length L \<Longrightarrow> int a < low \<Longrightarrow> int (L ! a) < pos"
    and "\<And>a. a < length L \<Longrightarrow> high < int a \<Longrightarrow> pos < int (L ! a)"
  shows "lineOfPosition_loop L pos low high < int (length L)
    \<and> (\<forall>a < length L. int (L ! a) \<le> pos \<longleftrightarrow> int a \<le> lineOfPosition_loop L pos low high)
    \<and> - 1 \<le> lineOfPosition_loop L pos low high"
  using assms(2-)
proof (induction "nat (high + 1 - low)" arbitrary: low high rule: less_induct)
  case less
  have mono: "L ! a < L ! b" if "a < b" "b < length L" for a b
    using that assms(1) by (simp add: sorted_wrt_iff_nth_less)
  show ?case
  proof (cases "low \<le> high")
    case False
    then have h: "high = low - 1" using less.prems by simp
    have "lineOfPosition_loop L pos low high = low - 1" using False by (subst lineOfPosition_loop.simps) simp
    then show ?thesis using less.prems(1,3) less.prems(4,5) unfolding h by (force simp: not_less)
  next
    case True
    define m where "m = low + (high - low) div 2"
    have m: "low \<le> m" "m \<le> high" using True by (auto simp: m_def)
    have ml: "nat m < length L" using m less.prems by linarith
    define v where "v = int (L ! nat m)"
    have eq: "lineOfPosition_loop L pos low high =
        (if v < pos then lineOfPosition_loop L pos (m + 1) high
         else if v > pos then lineOfPosition_loop L pos low (m - 1) else m)"
      using True less.prems(1) by (subst lineOfPosition_loop.simps) (simp add: m_def v_def Let_def)
    have below: "int (L ! a) < v" if "int a < m" "a < length L" for a
      using mono[of a "nat m"] that ml unfolding v_def by auto
    have above: "v < int (L ! a)" if "m < int a" "a < length L" for a
      using mono[of "nat m" a] that m less.prems(1) unfolding v_def by auto
    consider "v < pos" | "v > pos" | "v = pos" by linarith
    then show ?thesis
    proof cases
      case 1
      have "int (L ! a) < pos" if "a < length L" "int a < m + 1" for a
        using below[of a] that 1 v_def by (cases "int a = m") auto
      then show ?thesis using 1 eq m less.prems less.hyps[of high "m + 1"] by auto
    next
      case 2
      have "pos < int (L ! a)" if "a < length L" "m - 1 < int a" for a
        using above[of a] that 2 v_def by (cases "int a = m") auto
      then show ?thesis using 2 eq m less.prems less.hyps[of "m - 1" low] by auto
    next
      case 3
      have "int (L ! a) \<le> pos \<longleftrightarrow> int a \<le> m" if "a < length L" for a
        using above[of a] below[of a] that 3 v_def by (cases "int a = m"; cases "int a < m") auto
      then show ?thesis using 3 eq m less.prems by simp
    qed
  qed
qed

lemma sorted_filter_upt: "sorted_wrt (<) (filter P [a..<b])"
  by (intro sorted_wrt_filter) simp

lemma line_starts_sorted: "sorted_wrt (<) (ComputeECMALineStarts t)"
  unfolding ECMA_line_starts_reference by (rule sorted_filter_upt)

end
