(* ===== verification/ScannerOffsets.thy ===== *)
theory ScannerOffsets
  imports ScannerLinesProps
begin

text \<open>
  Offsets within lines: a position counts the UTF-16 units before it along the runes of the
  text. The laws of a decoder that this needs are a locale; Go's UTF-8 decoder and the decoder
  of JavaScript strings, which keeps lone surrogates, are its two instances. With them the
  conversions between byte and UTF-16 offsets are inverse on rune boundaries.
\<close>

section \<open>Paths of runes\<close>

text \<open>\<open>unit_path dec t a n b\<close>: decoding from \<open>a\<close> reaches \<open>b\<close> after \<open>n\<close> UTF-16 units; \<open>dec\<close> gives
  the size and the units of the first rune.\<close>

inductive unit_path :: "(string \<Rightarrow> nat \<times> int) \<Rightarrow> string \<Rightarrow> nat \<Rightarrow> int \<Rightarrow> nat \<Rightarrow> bool" for dec t where
  here: "a \<le> length t \<Longrightarrow> unit_path dec t a 0 a"
| step: "a < length t \<Longrightarrow> unit_path dec t (a + fst (dec (drop a t))) n b \<Longrightarrow>
    unit_path dec t a (snd (dec (drop a t)) + n) b"

inductive_cases unit_pathE: "unit_path dec t a n b"

locale rune_decoder =
  fixes dec :: "string \<Rightarrow> nat \<times> int"
  assumes size_pos: "s \<noteq> [] \<Longrightarrow> 0 < fst (dec s)"
    and size_le: "fst (dec s) \<le> length s"
    and units_pos: "s \<noteq> [] \<Longrightarrow> 1 \<le> snd (dec s)"
begin

lemma path_bounds: "unit_path dec t a n b \<Longrightarrow> a \<le> b \<and> b \<le> length t \<and> 0 \<le> n \<and> (n = 0 \<longleftrightarrow> a = b)"
proof (induction rule: unit_path.induct)
  case (step a n b)
  have "drop a t \<noteq> []" using step.hyps(1) by simp
  then show ?case using step.IH size_pos[of "drop a t"] units_pos[of "drop a t"] by auto
qed simp

lemma path_split:
  "unit_path dec t a n b \<Longrightarrow> unit_path dec t a m c \<Longrightarrow> b \<le> c \<Longrightarrow> unit_path dec t b (m - n) c"
proof (induction arbitrary: m rule: unit_path.induct)
  case (step a n b)
  have d: "drop a t \<noteq> []" using step.hyps(1) by simp
  have "a < b" using path_bounds[OF step.hyps(2)] size_pos[OF d] by simp
  from step.prems(1) show ?case
  proof (cases rule: unit_pathE[consumes 1, case_names here next'])
    case here then show ?thesis using \<open>a < b\<close> step.prems(2) by simp
  next
    case (next' m')
    then show ?thesis using step.IH[of m'] step.prems(2) by simp
  qed
qed simp

lemma path_mono:
  assumes "unit_path dec t a n b" "unit_path dec t a m c" shows "n \<le> m \<longleftrightarrow> b \<le> c"
proof (cases "b \<le> c")
  case True
  then show ?thesis using path_bounds[OF path_split[OF assms True]] by simp
next
  case False
  then have cb: "c \<le> b" "c \<noteq> b" by auto
  then show ?thesis using path_bounds[OF path_split[OF assms(2,1) cb(1)]] by auto
qed

lemma path_append:
  "unit_path dec t a n b \<Longrightarrow> unit_path dec t b m c \<Longrightarrow> unit_path dec t a (n + m) c"
proof (induction rule: unit_path.induct)
  case (step a n b)
  then show ?case using unit_path.step[OF step.hyps(1) step.IH[OF step.prems]] by (simp add: add.assoc)
qed simp

end

definition go_units :: "string \<Rightarrow> nat \<times> int" where
  "go_units s = (snd (DecodeRune s), utf16_RuneLen (fst (DecodeRune s)))"

definition js_units :: "string \<Rightarrow> nat \<times> int" where
  "js_units s = (snd (DecodeJSStringRune s), if fst (DecodeJSStringRune s) \<ge> 0x10000 then 2 else 1)"

interpretation go: rune_decoder go_units
  by unfold_locales (auto simp: go_units_def DecodeRune_size_pos RuneLen_decoded)

interpretation js: rune_decoder js_units
  by unfold_locales (auto simp: js_units_def DecodeJSStringRune_size_pos)

lemma js_units_sel:
  "fst (js_units s) = snd (DecodeJSStringRune s)"
  "snd (js_units s) = (if fst (DecodeJSStringRune s) \<ge> 0x10000 then 2 else 1)"
  by (simp_all add: js_units_def)

lemma js_units_ascii:
  assumes "p < length t" "rune_of (t ! p) < 0x80" shows "js_units (drop p t) = (1, 1)"
proof -
  have "\<not> is_surrogate_sentinel (drop p t)" using assms by (simp add: is_surrogate_sentinel_def)
  then have "DecodeJSStringRune (drop p t) = (rune_of (t ! p), 1)"
    using assms by (simp add: DecodeJSStringRune_def Cons_nth_drop_Suc[symmetric])
  then show ?thesis using assms by (simp add: js_units_def)
qed

section \<open>Lines are made of runes\<close>

lemma go_units_ascii: "p < length t \<Longrightarrow> rune_of (t ! p) < 0x80 \<Longrightarrow> go_units (drop p t) = (1, 1)"
  by (simp add: go_units_def Cons_nth_drop_Suc[symmetric] utf16_RuneLen_def)

lemma go_ascii_path: "p < length t \<Longrightarrow> rune_of (t ! p) < 0x80 \<Longrightarrow> unit_path go_units t p 1 (Suc p)"
  using unit_path.step[of p t go_units 0 "Suc p"] by (simp add: go_units_ascii unit_path.here)

lemma line_starts_reached:
  "unit_path go_units t 0 n pos \<Longrightarrow> unit_path go_units t 0 k ls \<Longrightarrow> p \<in> set (lineStarts_from t pos ls) \<Longrightarrow>
   \<exists>m. unit_path go_units t 0 m p"
proof (induction t pos ls arbitrary: n k rule: lineStarts_from.induct)
  case (1 t pos ls)
  note IH = 1(1-5) and reach = 1(6) and ls = 1(7) and p = 1(8)
  show ?case
  proof (cases "pos < length t")
    case False
    then show ?thesis using p ls by (subst (asm) lineStarts_from.simps) auto
  next
    case lt: True
    note step = lineStarts_from.simps[of t pos ls, unfolded Let_def]
    show ?thesis
    proof (cases "rune_of (t ! pos) < 0x80")
      case ascii: True
      have r1: "unit_path go_units t 0 (n + 1) (Suc pos)"
        by (rule go.path_append[OF reach go_ascii_path[OF lt ascii]])
      show ?thesis
      proof (cases "t ! pos = CHR 0x0D \<and> Suc pos < length t \<and> t ! Suc pos = CHR 0x0A")
        case crlf: True
        then have "unit_path go_units t 0 (n + 1 + 1) (Suc (Suc pos))"
          by (intro go.path_append[OF r1] go_ascii_path) auto
        then show ?thesis using crlf lt ascii p ls IH(1)[OF lt refl _ _ refl] by (auto simp: step)
      next
        case False
        then show ?thesis
          using lt ascii p ls r1 IH(1)[OF lt refl _ _ refl] IH(2)[OF lt refl] IH(3)[OF lt refl]
          by (auto simp: step split: if_split_asm)
      qed
    next
      case high: False
      have "unit_path go_units t pos (snd (go_units (drop pos t)) + 0) (pos + fst (go_units (drop pos t)))"
        using lt go.size_le[of "drop pos t"] by (intro unit_path.step unit_path.here) auto
      then have r: "\<exists>m. unit_path go_units t 0 m (pos + snd (DecodeRune (drop pos t)))"
        using go.path_append[OF reach] by (auto simp: go_units_def)
      show ?thesis
      proof (cases "IsLineBreak (fst (DecodeRune (drop pos t)))")
        case True
        then have "p = ls \<or> p \<in> set (lineStarts_from t (pos + snd (DecodeRune (drop pos t))) (pos + snd (DecodeRune (drop pos t))))"
          using p lt high by (simp add: step)
        then show ?thesis using r ls IH(4)[OF lt refl high refl refl True] by blast
      next
        case False
        then have "p \<in> set (lineStarts_from t (pos + snd (DecodeRune (drop pos t))) ls)"
          using p lt high by (simp add: step)
        then show ?thesis using r ls IH(5)[OF lt refl high refl refl False] by blast
      qed
    qed
  qed
qed

lemma line_start_path:
  assumes "unit_path go_units t 0 n p" "ls \<in> set (ComputeECMALineStarts t)" "ls \<le> p"
  obtains m where "unit_path go_units t ls m p"
proof -
  obtain k where "unit_path go_units t 0 k ls"
    using line_starts_reached[of t 0 0 0 0 ls] assms(2)
    by (auto simp: ComputeECMALineStarts_def ComputeECMALineStartsSeq_def intro: unit_path.here)
  then show ?thesis using go.path_split[of t 0 k ls n p] assms(1,3) that by blast
qed

section \<open>Counting along a slice\<close>

lemma decode_take:
  "snd (decode2 b0 r) \<le> Suc n \<Longrightarrow> decode2 b0 (take n r) = decode2 b0 r"
  "snd (decode3 lo hi b0 r) \<le> Suc n \<Longrightarrow> decode3 lo hi b0 (take n r) = decode3 lo hi b0 r"
  "snd (decode4 lo hi b0 r) \<le> Suc n \<Longrightarrow> decode4 lo hi b0 (take n r) = decode4 lo hi b0 r"
  by (auto simp: decode2_def decode3_def decode4_def take_Cons' numeral_eq_Suc
      split: list.splits if_split_asm)

lemma DecodeRune_take:
  assumes "snd (DecodeRune s) \<le> n" shows "DecodeRune (take n s) = DecodeRune s"
proof (cases s)
  case (Cons c r)
  then obtain m where n: "n = Suc m" using assms DecodeRune_size_pos[of s] by (cases n) auto
  show ?thesis
    using assms unfolding Cons n DecodeRune_def Let_def
    by (auto simp: decode_take split: if_split_asm)
qed simp

lemma utf16_units_path: "unit_path go_units t a n b \<Longrightarrow> utf16_units (slc t a b) = n"
proof (induction rule: unit_path.induct)
  case (here a)
  then show ?case by (simp add: utf16_units.simps[of "[]"])
next
  case (step a n b)
  define d where "d = DecodeRune (drop a t)"
  have sz: "fst (go_units (drop a t)) = snd d" by (simp add: go_units_def d_def)
  have pos: "0 < snd d" using step.hyps(1) by (simp add: d_def DecodeRune_size_pos)
  have ab: "a + snd d \<le> b" "b \<le> length t" using go.path_bounds[OF step.hyps(2)] sz by auto
  then have "DecodeRune (slc t a b) = d" unfolding slc_def d_def by (intro DecodeRune_take) (simp add: d_def[symmetric])
  moreover have "slc t a b \<noteq> []" using ab pos step.hyps(1) by (simp add: slc_def)
  moreover have "drop (snd d) (slc t a b) = slc t (a + snd d) b"
    by (simp add: slc_def drop_take add.commute)
  ultimately show ?case using step.IH
    by (subst utf16_units.simps) (simp add: sz go_units_def d_def[symmetric])
qed

lemma utf16_units_ascii: "list_all (\<lambda>c. rune_of c < 0x80) s \<Longrightarrow> utf16_units s = int (length s)"
  by (induction s) (auto simp: utf16_units.simps[of "_ # _"] utf16_units.simps[of "[]"] utf16_RuneLen_def)

lemma utf16_units_ascii_append:
  "list_all (\<lambda>c. rune_of c < 0x80) s \<Longrightarrow> utf16_units (s @ r) = int (length s) + utf16_units r"
  by (induction s) (auto simp: utf16_units.simps[of "_ # _"] utf16_RuneLen_def)

text \<open>The ASCII fast path of \<open>UTF16Len\<close> changes nothing.\<close>

lemma UTF16Len_units: "UTF16Len s = utf16_units s"
proof -
  let ?i = "run_length (\<lambda>c. rune_of c < RuneSelf) s"
  have a: "list_all (\<lambda>c. rune_of c < 0x80) (take ?i s)"
    using run_length_prefix[of _ "\<lambda>c. rune_of c < RuneSelf" s] by (auto simp: list_all_length)
  have "utf16_units s = int ?i + utf16_units (drop ?i s)"
    using utf16_units_ascii_append[OF a, of "drop ?i s"] by (simp add: min_absorb2)
  moreover have "?i = length s" if "\<not> ?i < length s" using that run_length_le[of _ s] by (simp add: antisym)
  ultimately show ?thesis by (auto simp: UTF16Len_def Let_def utf16_units.simps[of "[]"])
qed

lemma utf16_scan_path:
  assumes "unit_path go_units t a n b" "b \<le> lineEnd"
  shows "utf16_scan t lineEnd (k + n) a k = Some (b, k + n)"
  using assms
proof (induction arbitrary: k rule: unit_path.induct)
  case (here a)
  show ?case by (subst utf16_scan.simps) simp
next
  case (step a n b)
  have d: "drop a t \<noteq> []" using step.hyps(1) by simp
  have n: "0 \<le> n" "a < b" using go.path_bounds[OF step.hyps(2)] go.size_pos[OF d] by auto
  have u: "1 \<le> snd (go_units (drop a t))" by (rule go.units_pos[OF d])
  show ?case
    using step.IH[of "k + snd (go_units (drop a t))"] step.prems step.hyps(1) n u
    by (subst utf16_scan.simps) (simp add: go_units_def add.assoc)
qed

section \<open>Lines and byte offsets\<close>

lemma line_starts_nonempty: "ComputeECMALineStarts t \<noteq> [] \<and> ComputeECMALineStarts t ! 0 = 0"
proof -
  have "ComputeECMALineStarts t = 0 # filter (starts_line t) [Suc 0..<Suc (length t)]"
    unfolding ECMA_line_starts_reference upt_conv_Cons[OF zero_less_Suc] by (simp add: starts_line_def)
  then show ?thesis by simp
qed

lemma line_of_position:
  fixes p :: nat and t :: string
  defines "L \<equiv> ComputeECMALineStarts t"
  obtains l where "ComputeLineOfPosition L (int p) = int l" "l < length L"
    "\<And>a. a < length L \<Longrightarrow> L ! a \<le> p \<longleftrightarrow> a \<le> l"
proof -
  let ?r = "lineOfPosition_loop L (int p) 0 (int (length L) - 1)"
  have r: "?r < int (length L) \<and> (\<forall>a < length L. int (L ! a) \<le> int p \<longleftrightarrow> int a \<le> ?r) \<and> - 1 \<le> ?r"
    by (rule lineOfPosition_spec) (auto simp: L_def line_starts_sorted)
  have "0 \<le> ?r" using r line_starts_nonempty[of t] by (auto simp: L_def)
  then obtain l where l: "?r = int l" using nonneg_int_cases by blast
  show ?thesis
    by (rule that[of l]) (use r l in \<open>auto simp: ComputeLineOfPosition_def\<close>)
qed

text \<open>C26: \<open>ComputeLineOfPosition\<close> on the line map of a text finds the line that contains a
  position: the starts up to that line are at most the position, all later ones are beyond it.
  \<open>PositionToLineAndByteOffset\<close>, which searches with the standard library, agrees with it, and
  \<open>GetECMAPositionOfLineAndByteOffset\<close> gives the position back; nothing panics.\<close>

theorem line_of_position_correct:
  "let L = ComputeECMALineStarts t; line = ComputeLineOfPosition L (int p) in
     0 \<le> line \<and> line < int (length L)
     \<and> list_all (\<lambda>s. s \<le> p) (take (nat line + 1) L) \<and> list_all (\<lambda>s. p < s) (drop (nat line + 1) L)
     \<and> PositionToLineAndByteOffset (int p) L = Some (nat line, int p - int (L ! nat line))
     \<and> GetECMALineAndByteOffsetOfPosition L (int p) = Some (line, int p - int (L ! nat line))
     \<and> GetECMAPositionOfLineAndByteOffset L line (int p - int (L ! nat line)) = Some (int p)"
proof -
  define L where "L = ComputeECMALineStarts t"
  obtain l where l: "ComputeLineOfPosition L (int p) = int l" "l < length L"
    and th: "\<And>a. a < length L \<Longrightarrow> L ! a \<le> p \<longleftrightarrow> a \<le> l"
    using line_of_position[of t p] unfolding L_def by blast
  have s: "sort_Search (length L) (\<lambda>i. int (L ! i) > int p) = length (filter (\<lambda>s. s \<le> p) L)"
    unfolding sort_Search_def using search_counts[of "\<lambda>s. s \<le> p" L]
    by (simp add: not_le sorted_wrt_mono_rel[OF _ line_starts_sorted] L_def)
  also have "\<dots> = Suc l" using l(2) th by (intro threshold_count(1)) (auto simp: less_Suc_eq_le)
  finally have s: "sort_Search (length L) (\<lambda>i. int (L ! i) > int p) = Suc l" .
  have "list_all (\<lambda>s. s \<le> p) (take (l + 1) L)" "list_all (\<lambda>s. p < s) (drop (l + 1) L)"
    using th l(2) by (auto simp: list_all_length not_le[symmetric])
  then show ?thesis using l s
    by (simp add: L_def[symmetric] Let_def PositionToLineAndByteOffset_def
        GetECMALineAndByteOffsetOfPosition_def GetECMAPositionOfLineAndByteOffset_def
        ComputePositionOfLineAndByteOffset_def)
qed

text \<open>C27: At every rune boundary the line and the UTF-16 offset that
  \<open>GetECMALineAndUTF16CharacterOfPosition\<close> reports lead back to the same position, in the strict
  mode and in the mode that allows edits: no panic, and never a neighbouring position.\<close>

theorem utf16_position_roundtrip:
  assumes "unit_path go_units t 0 u p"
  shows "\<exists>line ch. GetECMALineAndUTF16CharacterOfPosition t (ComputeECMALineStarts t) (int p) = Some (line, ch)
    \<and> 0 \<le> ch
    \<and> GetECMAPositionOfLineAndUTF16Character t (ComputeECMALineStarts t) line ch = Some (int p)
    \<and> ComputePositionOfLineAndUTF16Character (ComputeECMALineStarts t) line ch t True = Some (int p)"
proof -
  define L where "L = ComputeECMALineStarts t"
  obtain l where l: "ComputeLineOfPosition L (int p) = int l" "l < length L"
    and th: "\<And>a. a < length L \<Longrightarrow> L ! a \<le> p \<longleftrightarrow> a \<le> l"
    using line_of_position[of t p] unfolding L_def by blast
  have le: "L ! l \<le> p" "p \<le> length t" using th[OF l(2)] go.path_bounds[OF assms] by auto
  obtain n where n: "unit_path go_units t (L ! l) n p"
    by (rule line_start_path[OF assms _ le(1)]) (use l(2) in \<open>auto simp: L_def\<close>)
  have units: "UTF16Len (slc t (L ! l) p) = n" by (simp add: UTF16Len_units utf16_units_path[OF n])
  define lineEnd where "lineEnd = (if l + 1 < length L then L ! (l + 1) else length t)"
  have "p \<le> lineEnd" using th[of "l + 1"] le by (auto simp: lineEnd_def)
  then have scan: "utf16_scan t lineEnd n (L ! l) 0 = Some (p, n)"
    using utf16_scan_path[OF n, of lineEnd 0] by simp
  have b: "0 \<le> n" "n = 0 \<longleftrightarrow> L ! l = p" using go.path_bounds[OF n] by auto
  have "GetECMALineAndUTF16CharacterOfPosition t L (int p) = Some (int l, n)"
    using l le units by (simp add: GetECMALineAndUTF16CharacterOfPosition_def)
  moreover have "ComputePositionOfLineAndUTF16Character L (int l) n t e = Some (int p)" for e
    using l le b scan unfolding ComputePositionOfLineAndUTF16Character_def lineEnd_def
    by (auto simp: Let_def nat_add_distrib)
  ultimately show ?thesis using b unfolding GetECMAPositionOfLineAndUTF16Character_def L_def by blast
qed

lemma utf16_position_roundtrip_witness:
  "\<exists>line ch. GetECMALineAndUTF16CharacterOfPosition ''a\<newline>bc'' (ComputeECMALineStarts ''a\<newline>bc'') 3 = Some (line, ch)
    \<and> GetECMAPositionOfLineAndUTF16Character ''a\<newline>bc'' (ComputeECMALineStarts ''a\<newline>bc'') line ch = Some 3"
proof -
  have "unit_path go_units ''a\<newline>bc'' 0 1 1" "unit_path go_units ''a\<newline>bc'' 1 1 2"
    "unit_path go_units ''a\<newline>bc'' 2 1 3"
    using go_ascii_path[of 0 "''a\<newline>bc''"] go_ascii_path[of 1 "''a\<newline>bc''"]
      go_ascii_path[of 2 "''a\<newline>bc''"] by (simp_all add: numeral_2_eq_2 numeral_3_eq_3)
  then have "unit_path go_units ''a\<newline>bc'' 0 (1 + 1 + 1) 3" by (blast intro: go.path_append)
  then show ?thesis using utf16_position_roundtrip[of "''a\<newline>bc''" _ 3] by fastforce
qed

section \<open>Position maps\<close>

lemma positionMap_entries:
  "e \<in> set (positionMap_from t i dl) \<Longrightarrow>
   \<exists>n. unit_path js_units t i n (utf8Pos e) \<and> i < utf8Pos e \<and> int (utf8Pos e) - delta e = int i - dl + n"
proof (induction t i dl rule: positionMap_from.induct)
  case (1 t i dl)
  show ?case
  proof (cases "i < length t")
    case False
    then show ?thesis using 1(3) by (subst (asm) positionMap_from.simps) simp
  next
    case lt: True
    note step = positionMap_from.simps[of t i dl, unfolded Let_def]
    show ?thesis
    proof (cases "rune_of (t ! i) < RuneSelf")
      case True
      then obtain n where n: "unit_path js_units t (i + 1) n (utf8Pos e)" "i + 1 < utf8Pos e"
        "int (utf8Pos e) - delta e = int (i + 1) - dl + n"
        using 1(1,3) lt by (auto simp: step)
      have "unit_path js_units t i (1 + n) (utf8Pos e)"
        using unit_path.step[OF lt, of js_units n "utf8Pos e"] n(1) by (simp add: js_units_ascii[OF lt True])
      then show ?thesis using n by (intro exI[of _ "1 + n"]) simp
    next
      case False
      let ?u = "snd (js_units (drop i t))" and ?s = "fst (js_units (drop i t))"
      have s: "0 < ?s" "i + ?s \<le> length t" using lt js.size_pos[of "drop i t"] js.size_le[of "drop i t"] by auto
      have first: "unit_path js_units t i (?u + 0) (i + ?s)"
        using lt s by (intro unit_path.step unit_path.here) auto
      have "e = \<lparr>utf8Pos = i + ?s, delta = dl + (int ?s - ?u)\<rparr>
          \<or> e \<in> set (positionMap_from t (i + ?s) (dl + (int ?s - ?u)))"
        using 1(3) lt False by (simp add: step js_units_def)
      then show ?thesis
      proof
        assume "e = \<lparr>utf8Pos = i + ?s, delta = dl + (int ?s - ?u)\<rparr>"
        then show ?thesis using first s by (intro exI[of _ "?u + 0"]) simp
      next
        assume "e \<in> set (positionMap_from t (i + ?s) (dl + (int ?s - ?u)))"
        then obtain n where n: "unit_path js_units t (i + ?s) n (utf8Pos e)" "i + ?s < utf8Pos e"
          "int (utf8Pos e) - delta e = int (i + ?s) - (dl + (int ?s - ?u)) + n"
          using 1(2)[OF lt False refl refl refl] unfolding js_units_sel by blast
        then show ?thesis using unit_path.step[OF lt n(1)] by (intro exI[of _ "?u + n"]) simp
      qed
    qed
  qed
qed

lemma positionMap_sorted: "sorted_wrt (\<lambda>e e'. utf8Pos e < utf8Pos e') (positionMap_from t i dl)"
proof (induction t i dl rule: positionMap_from.induct)
  case (1 t i dl)
  note step = positionMap_from.simps[of t i dl, unfolded Let_def]
  show ?case
  proof (cases "i < length t \<and> \<not> rune_of (t ! i) < RuneSelf")
    case True
    then show ?thesis using 1(2)[OF _ _ refl refl refl] positionMap_entries
      by (subst positionMap_from.simps) (auto simp: Let_def)
  next
    case False
    then show ?thesis using 1(1) by (auto simp: step)
  qed
qed

text \<open>The last entry up to a boundary carries the whole difference between the two offsets.\<close>

lemma positionMap_delta:
  "unit_path js_units t i n p \<Longrightarrow>
   (let k = length (filter (\<lambda>e. utf8Pos e \<le> p) (positionMap_from t i dl)) in
     n = int p - int i + dl - (if k = 0 then dl else delta (positionMap_from t i dl ! (k - 1))))"
proof (induction arbitrary: dl rule: unit_path.induct)
  case (here i)
  have "filter (\<lambda>e. utf8Pos e \<le> i) (positionMap_from t i dl) = []"
    using positionMap_entries[of _ t i dl] by (fastforce simp: filter_empty_conv)
  then show ?case by simp
next
  case (step i n p)
  note lt = step.hyps(1)
  note unfold = positionMap_from.simps[of t i dl, unfolded Let_def]
  show ?case
  proof (cases "rune_of (t ! i) < RuneSelf")
    case True
    then have "positionMap_from t i dl = positionMap_from t (i + 1) dl" using lt by (simp add: unfold)
    then show ?thesis using step.IH[of dl] by (simp add: js_units_ascii[OF lt True] Let_def)
  next
    case False
    let ?u = "snd (js_units (drop i t))" and ?s = "fst (js_units (drop i t))"
    let ?es = "positionMap_from t (i + ?s) (dl + (int ?s - ?u))"
    have es: "positionMap_from t i dl = \<lparr>utf8Pos = i + ?s, delta = dl + (int ?s - ?u)\<rparr> # ?es"
      using lt False by (simp add: unfold js_units_sel)
    have "i + ?s \<le> p" using js.path_bounds[OF step.hyps(2)] by simp
    then show ?thesis using step.IH[of "dl + (int ?s - ?u)"] unfolding es
      by (auto simp: Let_def nth_Cons')
  qed
qed

lemma position_map_converts:
  assumes "unit_path js_units t 0 n p"
  shows "UTF8ToUTF16 (ComputePositionMap t) (int p) = n \<and> UTF16ToUTF8 (ComputePositionMap t) n = int p"
proof -
  let ?es = "positionMap_from t 0 0"
  let ?k = "length (filter (\<lambda>e. utf8Pos e \<le> p) ?es)"
  have delta: "n = int p - (if ?k = 0 then 0 else delta (?es ! (?k - 1)))"
    using positionMap_delta[OF assms, of 0] by (simp add: Let_def)
  have same: "int (utf8Pos e) - delta e \<le> n \<longleftrightarrow> utf8Pos e \<le> p" if "e \<in> set ?es" for e
    using positionMap_entries[OF that] js.path_mono[OF _ assms] by auto
  have anti: "sorted_wrt (\<lambda>x y. utf8Pos y \<le> p \<longrightarrow> utf8Pos x \<le> p) ?es"
    using positionMap_sorted[of t 0 0] by (rule sorted_wrt_mono_rel[rotated]) auto
  have s1: "search_loop (\<lambda>m. \<not> int (utf8Pos (?es ! m)) \<le> int p) 0 (length ?es) = ?k"
    using search_counts[OF anti] by simp
  have "sorted_wrt (\<lambda>x y. int (utf8Pos y) - delta y \<le> n \<longrightarrow> int (utf8Pos x) - delta x \<le> n) ?es"
    using anti by (rule sorted_wrt_mono_rel[rotated]) (simp add: same)
  then have "search_loop (\<lambda>m. \<not> int (utf8Pos (?es ! m)) - delta (?es ! m) \<le> n) 0 (length ?es)
      = length (filter (\<lambda>e. int (utf8Pos e) - delta e \<le> n) ?es)"
    by (rule search_counts)
  also have "\<dots> = ?k" using same by (metis (mono_tags, lifting) filter_cong)
  finally have s2: "search_loop (\<lambda>m. \<not> int (utf8Pos (?es ! m)) - delta (?es ! m) \<le> n) 0 (length ?es) = ?k" .
  show ?thesis
  proof (cases "?es = []")
    case True
    then show ?thesis using delta by (simp add: UTF8ToUTF16_def UTF16ToUTF8_def ComputePositionMap_def)
  next
    case False
    have "UTF8ToUTF16 (ComputePositionMap t) (int p) = (if ?k = 0 then int p else int p - delta (?es ! (?k - 1)))"
      using False unfolding UTF8ToUTF16_def ComputePositionMap_def Let_def
      by (simp only: PositionMap.select_convs s1 if_False)
    moreover have "UTF16ToUTF8 (ComputePositionMap t) n = (if ?k = 0 then n else n + delta (?es ! (?k - 1)))"
      using False unfolding UTF16ToUTF8_def ComputePositionMap_def Let_def
      by (simp only: PositionMap.select_convs s2 if_False)
    ultimately show ?thesis using delta by (cases "?k = 0") simp_all
  qed
qed

text \<open>C28: At every boundary of the decoder for JavaScript strings the position map converts the
  byte offset to the number of UTF-16 units before it, and that number back to the byte offset.\<close>

theorem position_map_roundtrip:
  assumes "unit_path js_units t 0 n p"
  shows "UTF8ToUTF16 (ComputePositionMap t) (int p) = n \<and> UTF16ToUTF8 (ComputePositionMap t) n = int p"
  by (rule position_map_converts [OF assms])

lemma position_map_roundtrip_witness:
  "UTF8ToUTF16 (ComputePositionMap [CHR 0xC3, CHR 0xA9, CHR ''x'']) 2 = 1
   \<and> UTF16ToUTF8 (ComputePositionMap [CHR 0xC3, CHR 0xA9, CHR ''x'']) 1 = 2"
proof -
  let ?t = "[CHR 0xC3, CHR 0xA9, CHR ''x'']"
  have "js_units ?t = (2, 1)" by code_simp
  then have "unit_path js_units ?t 0 (1 + 0) 2"
    using unit_path.step[of 0 ?t js_units 0 2] unit_path.here[of 2 ?t js_units]
    by (simp add: numeral_2_eq_2)
  then show ?thesis using position_map_roundtrip[of ?t 1 2] by simp
qed

section \<open>Lone surrogates\<close>

text \<open>The number of surrogates that a text keeps as three bytes.\<close>

fun kept_surrogates :: "string \<Rightarrow> nat" where
  "kept_surrogates [] = 0"
| "kept_surrogates (c # s) = (if is_surrogate_sentinel (c # s) then 1 else 0) + kept_surrogates s"

lemma kept_surrogates_skip:
  "n \<le> length s \<Longrightarrow> (\<And>i. i < n \<Longrightarrow> \<not> is_surrogate_sentinel (drop i s)) \<Longrightarrow>
     kept_surrogates (drop n s) = kept_surrogates s"
proof (induction n arbitrary: s)
  case (Suc n)
  then obtain c r where s: "s = c # r" by (cases s) auto
  have "kept_surrogates (drop n r) = kept_surrogates r"
    using Suc.prems(1) Suc.prems(2) [of "Suc i" for i] by (intro Suc.IH) (simp_all add: s)
  then show ?case using Suc.prems(2) [of 0] by (simp add: s)
qed simp

lemma sentinel_not_cont: "i < length s \<Longrightarrow> utf8_cont (s ! i) \<Longrightarrow> \<not> is_surrogate_sentinel (drop i s)"
  by (auto simp: is_surrogate_sentinel_def byte_in_def)

lemma DecodeRune_single_cont: "utf8_cont c \<Longrightarrow> DecodeRune (c # s) = (RuneError, 1)"
  by (simp add: DecodeRune_def byte_in_def)

lemma sentinel_decodes:
  assumes "is_surrogate_sentinel s"
  shows "js_units s = (3, 1)" "utf16_units s = 3 + utf16_units (drop 3 s)"
    "kept_surrogates s = Suc (kept_surrogates (drop 3 s))" "3 \<le> length s"
proof -
  obtain c0 c1 c2 r where s: "s = c0 # c1 # c2 # r"
    using assms unfolding is_surrogate_sentinel_def by (metis Suc_le_length_iff numeral_3_eq_3)
  have c: "rune_of c0 = 0xED" "0xA0 \<le> rune_of c1" "utf8_cont c1" "utf8_cont c2"
    using assms by (auto simp: s is_surrogate_sentinel_def byte_in_def numeral_2_eq_2)
  have "push_bit 6 (x AND 0x3F) < 2 ^ 16" "x AND 0x3F < 2 ^ 16" for x :: int
  proof -
    have "x AND 0x3F \<le> 0x3F" by simp
    then show "push_bit 6 (x AND 0x3F) < 2 ^ 16" "x AND 0x3F < 2 ^ 16" by (simp_all add: push_bit_eq_mult)
  qed
  then have "fst (DecodeJSStringRune s) < 2 ^ 16"
    using assms unfolding DecodeJSStringRune_def by (simp only: if_True fst_conv) (intro OR_upper; simp)
  then show "js_units s = (3, 1)" using assms by (simp add: js_units_def DecodeJSStringRune_def)
  have d0: "DecodeRune s = (RuneError, 1)"
    using c by (simp add: s DecodeRune_def decode3_def byte_in_def)
  have len: "utf16_RuneLen RuneError = 1" by (simp add: utf16_RuneLen_def)
  show "utf16_units s = 3 + utf16_units (drop 3 s)"
    using c d0 len DecodeRune_single_cont
    by (subst utf16_units.simps, simp add: s, subst utf16_units.simps, simp add: s, subst utf16_units.simps, simp add: s)
  show "kept_surrogates s = Suc (kept_surrogates (drop 3 s))"
    using assms c(3,4) sentinel_not_cont [of 1 s] sentinel_not_cont [of 2 s]
    by (simp add: s numeral_2_eq_2)
  show "3 \<le> length s" by (simp add: s)
qed

lemma js_path_units:
  "p \<le> length t \<Longrightarrow> \<exists>n. unit_path js_units t p n (length t)
     \<and> utf16_units (drop p t) = n + 2 * int (kept_surrogates (drop p t))"
proof (induction "length t - p" arbitrary: p rule: less_induct)
  case less
  show ?case
  proof (cases "p = length t")
    case True
    then show ?thesis using unit_path.here [of p t js_units] by (auto simp: utf16_units.simps [of "[]"])
  next
    case False
    let ?s = "drop p t"
    have lt: "p < length t" "?s \<noteq> []" using False less.prems by simp_all
    show ?thesis
    proof (cases "is_surrogate_sentinel ?s")
      case True
      note d = sentinel_decodes [OF True]
      have "p + 3 \<le> length t" "length t - (p + 3) < length t - p" using d(4) lt(1) unfolding length_drop by linarith+
      then obtain n where n: "unit_path js_units t (p + 3) n (length t)"
        "utf16_units (drop (p + 3) t) = n + 2 * int (kept_surrogates (drop (p + 3) t))"
        using less.hyps [of "p + 3"] by blast
      have "unit_path js_units t p (1 + n) (length t)"
        using unit_path.step [OF lt(1), of js_units n "length t"] n(1) d(1) by simp
      then show ?thesis using n(2) d(2,3) by (intro exI [of _ "1 + n"]) (simp add: add.commute)
    next
      case no: False
      define k where "k = snd (DecodeRune ?s)"
      have k: "0 < k" "p + k \<le> length t"
        using lt DecodeRune_size_le [of ?s] by (simp_all add: k_def DecodeRune_size_pos)
      have js: "js_units ?s = (k, utf16_RuneLen (fst (DecodeRune ?s)))"
        using no DecodeRune_valid [of ?s]
        by (auto simp: js_units_def DecodeJSStringRune_def k_def utf16_RuneLen_def ValidRune_def)
      have "\<not> is_surrogate_sentinel (drop i ?s)" if "i < k" for i
      proof (cases "i = 0")
        case False
        then have "utf8_cont (?s ! i)" using that DecodeRune_cont [of i ?s] by (simp add: k_def)
        then show ?thesis using sentinel_not_cont [of i ?s] that k by simp
      qed (use no in simp)
      then have kept: "kept_surrogates (drop (p + k) t) = kept_surrogates ?s"
        using kept_surrogates_skip [of k ?s] k(2) by (simp add: add.commute)
      have "length t - (p + k) < length t - p" using k(1) lt(1) by simp
      then obtain n where n: "unit_path js_units t (p + k) n (length t)"
        "utf16_units (drop (p + k) t) = n + 2 * int (kept_surrogates (drop (p + k) t))"
        using less.hyps [of "p + k"] k(2) by blast
      have "unit_path js_units t p (utf16_RuneLen (fst (DecodeRune ?s)) + n) (length t)"
        using unit_path.step [OF lt(1), of js_units n "length t"] n(1) js by simp
      moreover have "utf16_units ?s = utf16_RuneLen (fst (DecodeRune ?s)) + utf16_units (drop (p + k) t)"
        using lt(2) by (subst utf16_units.simps) (simp add: k_def add.commute)
      ultimately show ?thesis using n(2) kept by (intro exI) auto
    qed
  qed
qed

text \<open>C29: The two counts of UTF-16 units disagree on surrogates, which the compiler keeps as three bytes
  in its strings: for every text, the length that \<open>UTF16Len\<close> counts is that of the position map and
  two units more for each surrogate in it. So they agree exactly on the texts without a surrogate.\<close>

theorem lone_surrogate_lengths:
  "UTF16Len t = UTF8ToUTF16 (ComputePositionMap t) (int (length t)) + 2 * int (kept_surrogates t)"
proof -
  obtain n where "unit_path js_units t 0 n (length t)" "utf16_units t = n + 2 * int (kept_surrogates t)"
    using js_path_units [of 0 t] by auto
  then show ?thesis using position_map_converts [of t n "length t"] by (simp add: UTF16Len_units)
qed

text \<open>A lone surrogate has one unit, and \<open>UTF16Len\<close> counts three.\<close>

lemma lone_surrogate_example:
  "kept_surrogates (EncodeJSStringRune 0xD800) = 1 \<and> UTF16Len (EncodeJSStringRune 0xD800) = 3"
  by code_simp

end
