(* ===== verification/GoRegexp.thy ===== *)
theory GoRegexp
  imports GoStrings
begin

text \<open>
  What the packages use of Go's \<^verbatim>\<open>strings\<close>, \<^verbatim>\<open>unicode\<close>, \<^verbatim>\<open>strconv\<close> and \<^verbatim>\<open>regexp\<close>: trimming of space,
  unsigned decimal numbers, and runs of a character class. A class under \<^verbatim>\<open>(?i)\<close> is closed under
  simple case folding, so \<open>[a-z]\<close> also matches U+017F and U+212A.
\<close>

section \<open>Space\<close>

definition unicode_IsSpace :: "rune \<Rightarrow> bool" where
  "unicode_IsSpace r \<longleftrightarrow> 0x09 \<le> r \<and> r \<le> 0x0D \<or> r = 0x20 \<or> r = 0x85 \<or> r = 0xA0 \<or> r = 0x1680
    \<or> 0x2000 \<le> r \<and> r \<le> 0x200A \<or> r = 0x2028 \<or> r = 0x2029 \<or> r = 0x202F \<or> r = 0x205F \<or> r = 0x3000"

function (sequential) TrimLeftFunc :: "string \<Rightarrow> (rune \<Rightarrow> bool) \<Rightarrow> string" where
  "TrimLeftFunc s f =
    (let d = DecodeRune s in if s \<noteq> [] \<and> f (fst d) then TrimLeftFunc (drop (snd d) s) f else s)"
  by pat_completeness auto
termination by (relation "measure (\<lambda>(s, f). length s)") (auto simp: DecodeRune_size_pos)

declare TrimLeftFunc.simps [simp del]

lemma DecodeLastRune_size_pos: "s \<noteq> [] \<Longrightarrow> 0 < snd (DecodeLastRune s)"
proof -
  assume s: "s \<noteq> []"
  then have "last_rune_start s < length s" by (auto simp: last_rune_start_def Let_def)
  then have "0 < snd (DecodeRune (drop (last_rune_start s) s))" by (intro DecodeRune_size_pos) simp
  then show ?thesis using s by (auto simp: DecodeLastRune_def Let_def)
qed

function (sequential) TrimRightFunc :: "string \<Rightarrow> (rune \<Rightarrow> bool) \<Rightarrow> string" where
  "TrimRightFunc s f =
    (let d = DecodeLastRune s
     in if s \<noteq> [] \<and> f (fst d) then TrimRightFunc (take (length s - snd d) s) f else s)"
  by pat_completeness auto
termination by (relation "measure (\<lambda>(s, f). length s)") (auto simp: DecodeLastRune_size_pos)

declare TrimRightFunc.simps [simp del]

definition TrimSpace :: "string \<Rightarrow> string" where
  "TrimSpace s = TrimRightFunc (TrimLeftFunc s unicode_IsSpace) unicode_IsSpace"

section \<open>Classes\<close>

abbreviation (input) ascii_digit :: "char \<Rightarrow> bool" where "ascii_digit c \<equiv> byte_in 0x30 0x39 c"

definition class_letter :: "rune \<Rightarrow> bool" where
  "class_letter ch \<longleftrightarrow> 0x41 \<le> ch \<and> ch \<le> 0x5A \<or> 0x61 \<le> ch \<and> ch \<le> 0x7A \<or> ch = 0x17F \<or> ch = 0x212A"

definition class_digit :: "rune \<Rightarrow> bool" where
  "class_digit ch \<longleftrightarrow> 0x30 \<le> ch \<and> ch \<le> 0x39"

text \<open>The length in bytes of the longest prefix whose runes are in a class.\<close>

function (sequential) class_run :: "(rune \<Rightarrow> bool) \<Rightarrow> string \<Rightarrow> nat" where
  "class_run p s =
    (if s \<noteq> [] \<and> p (fst (DecodeRune s))
     then snd (DecodeRune s) + class_run p (drop (snd (DecodeRune s)) s) else 0)"
  by pat_completeness auto
termination by (relation "measure (\<lambda>(p, s). length s)") (auto simp: DecodeRune_size_pos)

declare class_run.simps [simp del]

definition all_class :: "(rune \<Rightarrow> bool) \<Rightarrow> string \<Rightarrow> bool" where
  "all_class p s \<longleftrightarrow> class_run p s = length s"

lemma class_run_le: "class_run p s \<le> length s"
proof (induction p s rule: class_run.induct)
  case (1 p s)
  then show ?case using DecodeRune_size_le[of s] unfolding class_run.simps[of p s] length_drop
    by (auto simp del: DecodeRune_size_le)
qed

text \<open>On ASCII text the runes are the bytes.\<close>

lemma class_run_ascii:
  assumes "list_all (\<lambda>c. rune_of c < 0x80 \<and> p (rune_of c)) s" "r = [] \<or> \<not> p (fst (DecodeRune r))"
  shows "class_run p (s @ r) = length s"
  using assms(1)
proof (induction s)
  case Nil
  then show ?case using assms(2) by (subst class_run.simps) auto
next
  case (Cons c s)
  then show ?case by (subst class_run.simps) simp
qed

lemma all_class_ascii: "list_all (\<lambda>c. rune_of c < 0x80 \<and> p (rune_of c)) s \<Longrightarrow> all_class p s"
  using class_run_ascii[of p s "[]"] by (simp add: all_class_def)

definition re_space :: "char \<Rightarrow> bool" where
  "re_space c \<longleftrightarrow> rune_of c \<in> {0x09, 0x0A, 0x0C, 0x0D, 0x20}"

text \<open>\<open>regexp.Split\<close> with \<^verbatim>\<open>\s+\<close> and with \<^verbatim>\<open>\|\|\<close>.\<close>

function (sequential) split_spaces :: "string \<Rightarrow> string list" where
  "split_spaces s =
    (let w = takeWhile (\<lambda>c. \<not> re_space c) s; r = dropWhile (\<lambda>c. \<not> re_space c) s
     in if r = [] then [w] else w # split_spaces (dropWhile re_space r))"
  by pat_completeness auto
termination
proof (relation "measure length")
  fix s w r :: string
  assume r: "r = dropWhile (\<lambda>c. \<not> re_space c) s" "r \<noteq> []"
  then have "re_space (hd r)" using hd_dropWhile[of "\<lambda>c. \<not> re_space c" s] by simp
  then have "length (dropWhile re_space r) < length r"
    using r(2) by (cases r) (auto simp: length_dropWhile_le le_imp_less_Suc)
  also have "\<dots> \<le> length s" unfolding r(1) by (rule length_dropWhile_le)
  finally show "(dropWhile re_space r, s) \<in> measure length" by simp
qed simp

declare split_spaces.simps [simp del]

fun split_bars :: "string \<Rightarrow> string list" where
  "split_bars [] = [[]]"
| "split_bars [c] = [[c]]"
| "split_bars (a # b # s) =
    (if a = CHR ''|'' \<and> b = CHR ''|'' then [] # split_bars s
     else (case split_bars (b # s) of [] \<Rightarrow> [[a]] | y # ys \<Rightarrow> (a # y) # ys))"

end
