(* ===== verification/Semver.thy ===== *)
theory Semver
  imports GoRegexp BigInt "HOL-Library.Word"
begin

text \<open>
  The package \<^verbatim>\<open>semver\<close>: versions (\<^verbatim>\<open>version.go\<close>) with their parser, printer and order, and version
  ranges (\<^verbatim>\<open>version_range.go\<close>) with theirs. Each regular expression is the function that matches
  it; the version numbers are 32 bits wide and their increments wrap around.
\<close>

section \<open>Versions\<close>

record Version =
  v_major :: "32 word"
  v_minor :: "32 word"
  v_patch :: "32 word"
  v_prerelease :: "string list"
  v_build :: "string list"

definition versionZero :: Version where
  "versionZero = \<lparr>v_major = 0, v_minor = 0, v_patch = 0, v_prerelease = [''0''], v_build = []\<rparr>"

definition incrementMajor :: "Version \<Rightarrow> Version" where
  "incrementMajor v = \<lparr>v_major = v_major v + 1, v_minor = 0, v_patch = 0, v_prerelease = [], v_build = []\<rparr>"

definition incrementMinor :: "Version \<Rightarrow> Version" where
  "incrementMinor v =
    \<lparr>v_major = v_major v, v_minor = v_minor v + 1, v_patch = 0, v_prerelease = [], v_build = []\<rparr>"

definition incrementPatch :: "Version \<Rightarrow> Version" where
  "incrementPatch v =
    \<lparr>v_major = v_major v, v_minor = v_minor v, v_patch = v_patch v + 1, v_prerelease = [], v_build = []\<rparr>"

text \<open>\<^verbatim>\<open>^(?:0|[1-9]\d*)$\<close>\<close>

definition numericIdentifier :: "string \<Rightarrow> bool" where
  "numericIdentifier s \<longleftrightarrow> s = ''0'' \<or> (case s of [] \<Rightarrow> False | c # r \<Rightarrow> byte_in 0x31 0x39 c \<and> list_all ascii_digit r)"

text \<open>\<open>strconv.ParseUint(text, 10, 32)\<close>: a syntax error or a range error, or the number.\<close>

datatype numError = ErrSyntax string | ErrRange string

definition dec_value :: "string \<Rightarrow> int" where
  "dec_value s = foldl (\<lambda>n c. 10 * n + (of_char c - 0x30)) 0 s"

definition getUintComponent :: "string \<Rightarrow> numError + 32 word" where
  "getUintComponent text' =
    (if text' = [] \<or> \<not> list_all ascii_digit text' then Inl (ErrSyntax text')
     else if dec_value text' \<ge> 2 ^ 32 then Inl (ErrRange text')
     else Inr (word_of_int (dec_value text')))"

definition word_compare :: "32 word \<Rightarrow> 32 word \<Rightarrow> int" where
  "word_compare a b = (if a < b then -1 else if b < a then 1 else 0)"

definition comparePreReleaseIdentifier :: "string \<Rightarrow> string \<Rightarrow> int" where
  "comparePreReleaseIdentifier left right =
    (let compareResult = strCompare left right in
     if compareResult = 0 then compareResult
     else
       let leftIsNumeric = numericIdentifier left; rightIsNumeric = numericIdentifier right in
       if leftIsNumeric \<or> rightIsNumeric then
         (if \<not> rightIsNumeric then -1
          else if \<not> leftIsNumeric then 1
          else (case (getUintComponent left, getUintComponent right) of
                  (Inr l, Inr r) \<Rightarrow> word_compare l r
                | _ \<Rightarrow>
                    let lenCompare = cmpCompare (int (length left)) (int (length right))
                    in if lenCompare = 0 then compareResult else lenCompare))
       else compareResult)"

text \<open>\<open>slices.CompareFunc\<close>.\<close>

fun slices_CompareFunc :: "('a \<Rightarrow> 'a \<Rightarrow> int) \<Rightarrow> 'a list \<Rightarrow> 'a list \<Rightarrow> int" where
  "slices_CompareFunc cmp [] [] = 0"
| "slices_CompareFunc cmp [] (y # ys) = -1"
| "slices_CompareFunc cmp (x # xs) [] = 1"
| "slices_CompareFunc cmp (x # xs) (y # ys) =
    (let c = cmp x y in if c \<noteq> 0 then c else slices_CompareFunc cmp xs ys)"

definition comparePreReleaseIdentifiers :: "string list \<Rightarrow> string list \<Rightarrow> int" where
  "comparePreReleaseIdentifiers left right =
    (if left = [] then (if right = [] then 0 else 1)
     else if right = [] then -1
     else slices_CompareFunc comparePreReleaseIdentifier left right)"

text \<open>The pointers may be nil; two equal pointers compare as their equal targets do.\<close>

definition Version_Compare :: "Version option \<Rightarrow> Version option \<Rightarrow> int" where
  "Version_Compare a b =
    (case (a, b) of
       (None, None) \<Rightarrow> 0
     | (None, Some _) \<Rightarrow> -1
     | (Some _, None) \<Rightarrow> 1
     | (Some a, Some b) \<Rightarrow>
         let r = word_compare (v_major a) (v_major b) in
         if r \<noteq> 0 then r else
         let r = word_compare (v_minor a) (v_minor b) in
         if r \<noteq> 0 then r else
         let r = word_compare (v_patch a) (v_patch b) in
         if r \<noteq> 0 then r else comparePreReleaseIdentifiers (v_prerelease a) (v_prerelease b))"

definition dec_word :: "32 word \<Rightarrow> string" where
  "dec_word w = dec_of_nat (unat w)"

definition Version_String :: "Version \<Rightarrow> string" where
  "Version_String v =
    dec_word (v_major v) @ ''.'' @ dec_word (v_minor v) @ ''.'' @ dec_word (v_patch v)
    @ (if v_prerelease v \<noteq> [] then ''-'' @ strJoin (v_prerelease v) ''.'' else [])
    @ (if v_build v \<noteq> [] then ''+'' @ strJoin (v_build v) ''.'' else [])"

section \<open>Matching\<close>

definition class_ident :: "rune \<Rightarrow> bool" where
  "class_ident ch \<longleftrightarrow> class_letter ch \<or> class_digit ch \<or> ch = 0x2D"

definition class_qualifier :: "rune \<Rightarrow> bool" where
  "class_qualifier ch \<longleftrightarrow> class_ident ch \<or> ch = 0x2E"

text \<open>A number without leading zeros, or one of the characters of \<open>first\<close> alone.\<close>

definition match_number :: "(char \<Rightarrow> bool) \<Rightarrow> string \<Rightarrow> (string \<times> string) option" where
  "match_number first s =
    (case s of
       [] \<Rightarrow> None
     | c # r \<Rightarrow>
         if first c then Some ([c], r)
         else if byte_in 0x31 0x39 c then
           let n = run_length ascii_digit r in Some (c # take n r, drop n r)
         else None)"

text \<open>\<^verbatim>\<open>(?:-([a-z0-9-.]+))?\<close> and its companion with a plus sign: the group, empty when absent, and
  the rest.\<close>

definition match_qualifier :: "char \<Rightarrow> string \<Rightarrow> string \<times> string" where
  "match_qualifier lead s =
    (case s of
       [] \<Rightarrow> ([], [])
     | c # r \<Rightarrow>
         let n = class_run class_qualifier r
         in if c = lead \<and> n > 0 then (take n r, drop n r) else ([], s))"

type_synonym version_match = "string \<times> string \<times> string \<times> string \<times> string"

definition match_version :: "(char \<Rightarrow> bool) \<Rightarrow> string \<Rightarrow> version_match option" where
  "match_version first s =
    (case match_number first s of
       None \<Rightarrow> None
     | Some (ma, []) \<Rightarrow> Some (ma, [], [], [], [])
     | Some (ma, c1 # r1) \<Rightarrow>
         if c1 \<noteq> CHR ''.'' then None
         else (case match_number first r1 of
             None \<Rightarrow> None
           | Some (mi, []) \<Rightarrow> Some (ma, mi, [], [], [])
           | Some (mi, c2 # r2) \<Rightarrow>
               if c2 \<noteq> CHR ''.'' then None
               else (case match_number first r2 of
                   None \<Rightarrow> None
                 | Some (pa, r3) \<Rightarrow>
                     let q = match_qualifier (CHR ''-'') r3; b = match_qualifier (CHR ''+'') (snd q)
                     in if snd b = [] then Some (ma, mi, pa, fst q, fst b) else None)))"

definition versionRegexp :: "string \<Rightarrow> version_match option" where
  "versionRegexp s = match_version (\<lambda>c. c = CHR ''0'') s"

definition partialRegExp :: "string \<Rightarrow> version_match option" where
  "partialRegExp s = match_version (\<lambda>c. c \<in> {CHR ''0'', CHR ''x'', CHR ''X'', CHR ''*''}) s"

text \<open>The alternatives of \<open>prereleaseRegexp\<close> do not contain a dot, so it matches part by part.\<close>

definition prereleasePart :: "string \<Rightarrow> bool" where
  "prereleasePart s \<longleftrightarrow> numericIdentifier s \<or>
    (s \<noteq> [] \<and> all_class class_ident s \<and> \<not> class_digit (fst (DecodeRune s)))"

definition prereleaseRegexp :: "string \<Rightarrow> bool" where
  "prereleaseRegexp s \<longleftrightarrow> list_all prereleasePart (splitByte (CHR ''.'') s)"

definition buildPart :: "string \<Rightarrow> bool" where
  "buildPart s \<longleftrightarrow> s \<noteq> [] \<and> all_class class_ident s"

definition buildRegExp :: "string \<Rightarrow> bool" where
  "buildRegExp s \<longleftrightarrow> list_all buildPart (splitByte (CHR ''.'') s)"

datatype parseError = SemverParseError string | NumError numError

definition optional_component :: "string \<Rightarrow> parseError + 32 word" where
  "optional_component s = (if s = [] then Inr 0 else map_sum NumError id (getUintComponent s))"

definition TryParseVersion :: "string \<Rightarrow> parseError + Version" where
  "TryParseVersion text' =
    (case versionRegexp text' of
       None \<Rightarrow> Inl (SemverParseError text')
     | Some (majorStr, minorStr, patchStr, prereleaseStr, buildStr) \<Rightarrow>
       (case map_sum NumError id (getUintComponent majorStr) of Inl e \<Rightarrow> Inl e | Inr ma \<Rightarrow>
       (case optional_component minorStr of Inl e \<Rightarrow> Inl e | Inr mi \<Rightarrow>
       (case optional_component patchStr of Inl e \<Rightarrow> Inl e | Inr pa \<Rightarrow>
         if prereleaseStr \<noteq> [] \<and> \<not> prereleaseRegexp prereleaseStr then Inl (SemverParseError text')
         else if buildStr \<noteq> [] \<and> \<not> buildRegExp buildStr then Inl (SemverParseError text')
         else Inr \<lparr>v_major = ma, v_minor = mi, v_patch = pa,
                v_prerelease = (if prereleaseStr = [] then [] else splitByte (CHR ''.'') prereleaseStr),
                v_build = (if buildStr = [] then [] else splitByte (CHR ''.'') buildStr)\<rparr>))))"

text \<open>\<open>None\<close> is the panic.\<close>

definition MustParse :: "string \<Rightarrow> Version option" where
  "MustParse text' = (case TryParseVersion text' of Inl _ \<Rightarrow> None | Inr v \<Rightarrow> Some v)"

section \<open>Ranges\<close>

record versionComparator =
  vc_operator :: string
  vc_operand :: Version

definition comparator :: "string \<Rightarrow> Version \<Rightarrow> versionComparator" where
  "comparator op v = \<lparr>vc_operator = op, vc_operand = v\<rparr>"

definition formatComparator :: "versionComparator \<Rightarrow> string" where
  "formatComparator c = vc_operator c @ Version_String (vc_operand c)"

definition formatAlternative :: "versionComparator list \<Rightarrow> string" where
  "formatAlternative cs = strJoin (map formatComparator cs) '' ''"

definition formatDisjunction :: "versionComparator list list \<Rightarrow> string" where
  "formatDisjunction as =
    (let s = strJoin (map formatAlternative as) '' || '' in if s = [] then ''*'' else s)"

text \<open>\<open>None\<close> is the panic on an unexpected operator.\<close>

definition testComparator :: "versionComparator \<Rightarrow> Version option \<Rightarrow> bool option" where
  "testComparator c version =
    (let cmp = Version_Compare version (Some (vc_operand c)); op = vc_operator c
     in if op = ''<'' then Some (cmp < 0)
        else if op = ''<='' then Some (cmp \<le> 0)
        else if op = ''='' then Some (cmp = 0)
        else if op = ''>='' then Some (cmp \<ge> 0)
        else if op = ''>'' then Some (cmp > 0)
        else None)"

fun testAlternative :: "versionComparator list \<Rightarrow> Version option \<Rightarrow> bool option" where
  "testAlternative [] version = Some True"
| "testAlternative (c # cs) version =
    (case testComparator c version of
       None \<Rightarrow> None | Some False \<Rightarrow> Some False | Some True \<Rightarrow> testAlternative cs version)"

fun test_alternatives :: "versionComparator list list \<Rightarrow> Version option \<Rightarrow> bool option" where
  "test_alternatives [] version = Some False"
| "test_alternatives (a # as) version =
    (case testAlternative a version of
       None \<Rightarrow> None | Some True \<Rightarrow> Some True | Some False \<Rightarrow> test_alternatives as version)"

definition testDisjunction :: "versionComparator list list \<Rightarrow> Version option \<Rightarrow> bool option" where
  "testDisjunction as version = (if as = [] then Some True else test_alternatives as version)"

definition isWildcard :: "string \<Rightarrow> bool" where
  "isWildcard s \<longleftrightarrow> s = ''*'' \<or> s = ''x'' \<or> s = ''X''"

record partialVersion =
  pv_version :: Version
  pv_majorStr :: string
  pv_minorStr :: string
  pv_patchStr :: string

text \<open>The three numbers of a partial version: a wildcard makes itself and what follows 0.\<close>

definition partial_numbers :: "string \<Rightarrow> string \<Rightarrow> string \<Rightarrow> (32 word \<times> 32 word \<times> 32 word) option" where
  "partial_numbers majorStr minorStr patchStr =
    (if isWildcard majorStr then Some (0, 0, 0)
     else (case getUintComponent majorStr of Inl _ \<Rightarrow> None | Inr ma \<Rightarrow>
       (if isWildcard minorStr then Some (ma, 0, 0)
        else (case getUintComponent minorStr of Inl _ \<Rightarrow> None | Inr mi \<Rightarrow>
          (if isWildcard patchStr then Some (ma, mi, 0)
           else (case getUintComponent patchStr of Inl _ \<Rightarrow> None | Inr pa \<Rightarrow> Some (ma, mi, pa)))))))"

definition parsePartial :: "string \<Rightarrow> partialVersion option" where
  "parsePartial text' =
    (case partialRegExp text' of
       None \<Rightarrow> None
     | Some (majorStr, minorStr0, patchStr0, prereleaseStr, buildStr) \<Rightarrow>
         let minorStr = (if minorStr0 = [] then ''*'' else minorStr0);
             patchStr = (if patchStr0 = [] then ''*'' else patchStr0)
         in (case partial_numbers majorStr minorStr patchStr of
           None \<Rightarrow> None
         | Some (ma, mi, pa) \<Rightarrow> Some
             \<lparr>pv_version = \<lparr>v_major = ma, v_minor = mi, v_patch = pa,
                 v_prerelease = (if prereleaseStr = [] then [] else splitByte (CHR ''.'') prereleaseStr),
                 v_build = (if buildStr = [] then [] else splitByte (CHR ''.'') buildStr)\<rparr>,
              pv_majorStr = majorStr, pv_minorStr = minorStr, pv_patchStr = patchStr\<rparr>))"

definition parseHyphen :: "string \<Rightarrow> string \<Rightarrow> versionComparator list option" where
  "parseHyphen left right =
    (case parsePartial left of None \<Rightarrow> None | Some l \<Rightarrow>
    (case parsePartial right of None \<Rightarrow> None | Some r \<Rightarrow>
      Some ((if \<not> isWildcard (pv_majorStr l) then [comparator ''>='' (pv_version l)] else []) @
        (if \<not> isWildcard (pv_majorStr r) then
           (if isWildcard (pv_minorStr r) then [comparator ''<'' (incrementMajor (pv_version r))]
            else if isWildcard (pv_patchStr r) then [comparator ''<'' (incrementMinor (pv_version r))]
            else [comparator ''<='' (pv_version r)])
         else []))))"

text \<open>How parsing can fail: the text is no range, or the operator is unexpected, a panic.\<close>

datatype rangeError = NotARange | UnexpectedOperator string

definition pre0 :: "Version \<Rightarrow> Version" where
  "pre0 v = v\<lparr>v_prerelease := [''0'']\<rparr>"

definition tilde_caret :: "bool \<Rightarrow> partialVersion \<Rightarrow> versionComparator list" where
  "tilde_caret tilde p =
    (let v = pv_version p;
         second =
           (if tilde then
              (if isWildcard (pv_minorStr p) then incrementMajor v else incrementMinor v)
            else if v_major v > 0 \<or> isWildcard (pv_minorStr p) then incrementMajor v
            else if v_minor v > 0 \<or> isWildcard (pv_patchStr p) then incrementMinor v
            else incrementPatch v)
     in [comparator ''>='' v, comparator ''<'' second])"

definition parseComparator :: "string \<Rightarrow> string \<Rightarrow> rangeError + versionComparator list" where
  "parseComparator op text' =
    (case parsePartial text' of
       None \<Rightarrow> Inl NotARange
     | Some p \<Rightarrow>
       let v = pv_version p; minorWild = isWildcard (pv_minorStr p); patchWild = isWildcard (pv_patchStr p) in
       if isWildcard (pv_majorStr p) then
         Inr (if op = ''<'' \<or> op = ''>'' then [comparator ''<'' versionZero] else [])
       else if op = ''~'' then Inr (tilde_caret True p)
       else if op = ''^'' then Inr (tilde_caret False p)
       else if op = ''<'' \<or> op = ''>='' then
         Inr [comparator op (if minorWild \<or> patchWild then pre0 v else v)]
       else if op = ''<='' \<or> op = ''>'' then
         Inr [if minorWild then
                comparator (if op = ''<='' then ''<'' else ''>='') (pre0 (incrementMajor v))
              else if patchWild then
                comparator (if op = ''<='' then ''<'' else ''>='') (pre0 (incrementMinor v))
              else comparator op v]
       else if op = ''='' \<or> op = '''' then
         Inr (if minorWild \<or> patchWild then
                [comparator ''>='' (pre0 v),
                 comparator ''<'' (pre0 (if minorWild then incrementMajor v else incrementMinor v))]
              else [comparator ''='' v])
       else Inl (UnexpectedOperator op))"

definition class_token :: "rune \<Rightarrow> bool" where
  "class_token ch \<longleftrightarrow> class_ident ch \<or> ch = 0x2B \<or> ch = 0x2E \<or> ch = 0x2A"

text \<open>\<open>hyphenRegExp\<close>: three words separated by space, the middle one a hyphen.\<close>

definition hyphenRegExp :: "string \<Rightarrow> (string \<times> string) option" where
  "hyphenRegExp r =
    (case filter (\<lambda>w. w \<noteq> []) (split_spaces r) of
       [a, h, b] \<Rightarrow>
         if h = ''-'' \<and> all_class class_token a \<and> all_class class_token b then Some (a, b) else None
     | _ \<Rightarrow> None)"

text \<open>\<open>rangeRegExp\<close>: an optional operator, space, and a word. No word starts with an operator's
  character, so the longer operator is taken where there is one.\<close>

definition range_operator :: "string \<Rightarrow> string" where
  "range_operator s =
    (if HasPrefix s ''<='' \<or> HasPrefix s ''>='' then take 2 s
     else case s of [] \<Rightarrow> [] | c # r \<Rightarrow> if c \<in> set ''~^<>='' then [c] else [])"

definition rangeRegExp :: "string \<Rightarrow> (string \<times> string) option" where
  "rangeRegExp s =
    (let op = range_operator s; w = dropWhile re_space (drop (length op) s)
     in if w \<noteq> [] \<and> all_class class_token w then Some (op, w) else None)"

fun parse_simples :: "string list \<Rightarrow> rangeError + versionComparator list" where
  "parse_simples [] = Inr []"
| "parse_simples (simple # rest) =
    (case rangeRegExp (TrimSpace simple) of
       None \<Rightarrow> Inl NotARange
     | Some (op, w) \<Rightarrow>
       (case parseComparator op w of
          Inl e \<Rightarrow> Inl e
        | Inr cs \<Rightarrow> (case parse_simples rest of Inl e \<Rightarrow> Inl e | Inr ds \<Rightarrow> Inr (cs @ ds))))"

definition parse_range :: "string \<Rightarrow> rangeError + versionComparator list" where
  "parse_range r =
    (case hyphenRegExp r of
       Some (l, h) \<Rightarrow> (case parseHyphen l h of None \<Rightarrow> Inl NotARange | Some cs \<Rightarrow> Inr cs)
     | None \<Rightarrow> parse_simples (split_spaces r))"

fun parse_ranges :: "string list \<Rightarrow> rangeError + versionComparator list list" where
  "parse_ranges [] = Inr []"
| "parse_ranges (r0 # rs) =
    (let r = TrimSpace r0 in
     if r = [] then parse_ranges rs
     else (case parse_range r of
       Inl e \<Rightarrow> Inl e
     | Inr cs \<Rightarrow> (case parse_ranges rs of Inl e \<Rightarrow> Inl e | Inr as \<Rightarrow> Inr (cs # as))))"

definition parseAlternatives :: "string \<Rightarrow> rangeError + versionComparator list list" where
  "parseAlternatives text' = parse_ranges (split_bars (TrimSpace text'))"

definition TryParseVersionRange :: "string \<Rightarrow> rangeError + versionComparator list list" where
  "TryParseVersionRange text' = parseAlternatives text'"

definition VersionRange_String :: "versionComparator list list \<Rightarrow> string" where
  "VersionRange_String alternatives = formatDisjunction alternatives"

definition VersionRange_Test :: "versionComparator list list \<Rightarrow> Version option \<Rightarrow> bool option" where
  "VersionRange_Test alternatives version = testDisjunction alternatives version"

end
