(* ===== verification/SemverOrder.thy ===== *)
theory SemverOrder
  imports Semver "HOL-Library.List_Lexorder" "HOL-Library.Product_Lexorder"
begin

text \<open>
  The order of versions. The comparison of the code, with its string shortcuts and its fallback
  on lengths when a number does not fit in 32 bits, is the linear order of the specification's
  precedence key; partial comparators compare the components that are given.
\<close>

section \<open>The precedence key\<close>

definition order_sign :: "'a::linorder \<Rightarrow> 'a \<Rightarrow> int" where
  "order_sign x y = (if x < y then -1 else if y < x then 1 else 0)"

lemma order_sign_simps [simp]:
  "order_sign x y = 0 \<longleftrightarrow> x = y" "order_sign x y < 0 \<longleftrightarrow> x < y" "0 < order_sign x y \<longleftrightarrow> y < x"
  "0 \<le> order_sign x y \<longleftrightarrow> y \<le> x" "order_sign x y \<le> 0 \<longleftrightarrow> x \<le> y"
  by (auto simp: order_sign_def)

lemma map_rune_of_inject: "map rune_of s = map rune_of t \<longleftrightarrow> s = t"
proof
  assume "map rune_of s = map rune_of t"
  then have "map byte_of (map rune_of s) = map byte_of (map rune_of t)" by (rule arg_cong)
  then show "s = t" by (simp add: comp_def)
qed simp

text \<open>A prerelease identifier: numbers come before texts.\<close>

datatype ident = NumId nat | TextId string

instantiation ident :: linorder
begin

fun less_eq_ident :: "ident \<Rightarrow> ident \<Rightarrow> bool" where
  "less_eq_ident (NumId m) (NumId n) \<longleftrightarrow> m \<le> n"
| "less_eq_ident (NumId m) (TextId t) \<longleftrightarrow> True"
| "less_eq_ident (TextId s) (NumId n) \<longleftrightarrow> False"
| "less_eq_ident (TextId s) (TextId t) \<longleftrightarrow> map rune_of s \<le> map rune_of t"

definition less_ident :: "ident \<Rightarrow> ident \<Rightarrow> bool" where
  "less_ident x y \<longleftrightarrow> x \<le> y \<and> \<not> y \<le> (x::ident)"

instance
proof
  fix x y z :: ident
  show "x < y \<longleftrightarrow> x \<le> y \<and> \<not> y \<le> x" by (rule less_ident_def)
  show "x \<le> x" by (cases x) auto
  show "x \<le> y \<Longrightarrow> y \<le> z \<Longrightarrow> x \<le> z" by (cases x; cases y; cases z) auto
  show "x \<le> y \<Longrightarrow> y \<le> x \<Longrightarrow> x = y"
    by (cases x; cases y) (auto simp flip: map_rune_of_inject)
  show "x \<le> y \<or> y \<le> x" by (cases x; cases y) auto
qed

end

lemma less_ident_simps [simp]:
  "NumId m < NumId n \<longleftrightarrow> m < n" "NumId m < TextId t" "\<not> TextId s < NumId n"
  "TextId s < TextId t \<longleftrightarrow> map rune_of s < map rune_of t"
  by (auto simp: less_ident_def)

definition ident_of :: "string \<Rightarrow> ident" where
  "ident_of s = (if numericIdentifier s then NumId (value_in_base 10 s) else TextId s)"

text \<open>A version without prerelease comes after all its prereleases.\<close>

definition version_key :: "Version \<Rightarrow> nat \<times> nat \<times> nat \<times> bool \<times> ident list" where
  "version_key v = (unat (v_major v), unat (v_minor v), unat (v_patch v),
     v_prerelease v = [], map ident_of (v_prerelease v))"

section \<open>The comparison computes the order of the keys\<close>

lemma strCompare_order: "strCompare s t = order_sign (map rune_of s) (map rune_of t)"
  by (induction s t rule: strCompare.induct) (auto simp: order_sign_def)

lemma strCompare_eq_0: "strCompare s t = 0 \<longleftrightarrow> s = t"
  by (simp add: strCompare_order map_rune_of_inject)

lemma digit_ascii: "byte_in 0x30 0x39 c \<longleftrightarrow> is_digit_of 10 c"
  by (simp add: byte_in_def digit10_iff)

lemma dec_value_nat: "decimal s \<Longrightarrow> dec_value s = int (value_in_base 10 s)"
proof -
  have fold: "decimal s \<Longrightarrow> foldl (\<lambda>n c. 10 * n + (of_char c - 0x30)) (int a) s = int (foldl (\<lambda>n c. 10 * n + val_of c) a s)" for a
  proof (induction s arbitrary: a)
    case (Cons c s)
    then show ?case using Cons.IH[of "10 * a + val_of c"] by (simp flip: val_digit10)
  qed simp
  then show "decimal s \<Longrightarrow> ?thesis" using fold[of 0] by (simp add: dec_value_def value_in_base_def)
qed

lemma numericIdentifier_decimal: "numericIdentifier s \<Longrightarrow> decimal s \<and> s \<noteq> [] \<and> (s = ''0'' \<or> hd s \<noteq> CHR ''0'')"
  by (auto simp: numericIdentifier_def digit_ascii byte_in_def digit10_iff list_all_iff split: list.splits)

lemma getUintComponent_value:
  "decimal s \<Longrightarrow> s \<noteq> [] \<Longrightarrow> getUintComponent s =
    (if value_in_base 10 s < 2 ^ 32 then Inr (word_of_nat (value_in_base 10 s)) else Inl (ErrRange s))"
  by (simp add: getUintComponent_def digit_ascii dec_value_nat)

lemma word_compare_unat: "word_compare a b = order_sign (unat a) (unat b)"
  by (simp add: word_compare_def order_sign_def word_less_nat_alt)

lemma numeral_length_less:
  assumes "numericIdentifier a" "numericIdentifier b" "length a < length b"
  shows "value_in_base 10 a < value_in_base 10 b"
proof (rule value_length_less)
  show "decimal a" "decimal b" "b \<noteq> []" using assms numericIdentifier_decimal by blast+
  show "hd b \<noteq> CHR ''0''" using assms numericIdentifier_decimal[of b] numericIdentifier_decimal[of a]
    by (cases a) auto
qed (rule assms(3))

lemma numeral_compare:
  assumes "numericIdentifier l" "numericIdentifier r"
  shows "(let lenCompare = cmpCompare (int (length l)) (int (length r))
      in if lenCompare = 0 then strCompare l r else lenCompare)
    = order_sign (value_in_base 10 l) (value_in_base 10 r)"
proof -
  consider "length l < length r" | "length r < length l" | "length l = length r" by linarith
  then show ?thesis
  proof cases
    case 3
    then show ?thesis using assms numericIdentifier_decimal strCompare_value[of l r]
      by (simp add: cmpCompare_def order_sign_def)
  qed (use assms in \<open>auto simp: cmpCompare_def order_sign_def dest: numeral_length_less\<close>)
qed

lemma comparePreReleaseIdentifier_order:
  "comparePreReleaseIdentifier l r = order_sign (ident_of l) (ident_of r)"
proof (cases "l = r")
  case False
  then have ne: "strCompare l r \<noteq> 0" by (simp add: strCompare_eq_0)
  show ?thesis
  proof (cases "numericIdentifier l \<and> numericIdentifier r")
    case True
    have dl: "decimal l" "l \<noteq> []" and dr: "decimal r" "r \<noteq> []"
      using True numericIdentifier_decimal by blast+
    have "(case (getUintComponent l, getUintComponent r) of (Inr a, Inr b) \<Rightarrow> word_compare a b
        | _ \<Rightarrow> let lenCompare = cmpCompare (int (length l)) (int (length r))
             in if lenCompare = 0 then strCompare l r else lenCompare)
      = order_sign (value_in_base 10 l) (value_in_base 10 r)"
      using True by (auto simp: getUintComponent_value[OF dl] getUintComponent_value[OF dr] numeral_compare
          word_compare_unat unat_of_nat take_bit_nat_eq_self)
    then show ?thesis using True ne
      by (simp add: comparePreReleaseIdentifier_def ident_of_def Let_def order_sign_def)
  next
    case False
    then show ?thesis using ne
      by (auto simp: comparePreReleaseIdentifier_def ident_of_def Let_def strCompare_order order_sign_def)
  qed
qed (simp add: comparePreReleaseIdentifier_def strCompare_eq_0[THEN iffD2] order_sign_def)

lemma slices_CompareFunc_order:
  "(\<And>x y. cmp x y = order_sign (f x) (f y)) \<Longrightarrow>
   slices_CompareFunc cmp xs ys = order_sign (map f xs) (map f ys)"
  by (induction cmp xs ys rule: slices_CompareFunc.induct) (auto simp: order_sign_def Let_def)

lemma comparePreReleaseIdentifiers_order:
  "comparePreReleaseIdentifiers l r = order_sign (l = [], map ident_of l) (r = [], map ident_of r)"
proof (cases "l = [] \<or> r = []")
  case True
  then show ?thesis by (cases "l = []"; cases "r = []") (simp_all add: comparePreReleaseIdentifiers_def order_sign_def)
next
  case False
  have "slices_CompareFunc comparePreReleaseIdentifier l r = order_sign (map ident_of l) (map ident_of r)"
    by (rule slices_CompareFunc_order) (rule comparePreReleaseIdentifier_order)
  then show ?thesis using False by (simp add: comparePreReleaseIdentifiers_def order_sign_def)
qed

lemma order_sign_lex:
  "order_sign (a, x) (b, y) = (if order_sign a b \<noteq> 0 then order_sign a b else order_sign x y)"
  by (auto simp: order_sign_def)

lemma Compare_order: "Version_Compare (Some a) (Some b) = order_sign (version_key a) (version_key b)"
  by (simp add: Version_Compare_def version_key_def order_sign_lex word_compare_unat
      comparePreReleaseIdentifiers_order Let_def)

text \<open>C34: \<open>Compare\<close> computes the precedence of the specification: it is the comparison of the keys
  (major, minor, patch, absence of a prerelease, prerelease identifiers), numeric identifiers by
  value whatever their length, and so a total preorder that ignores build metadata.\<close>

theorem Compare_is_precedence:
  "Version_Compare (Some a) (Some b) = order_sign (version_key a) (version_key b)
    \<and> (Version_Compare (Some a) (Some b) = 0 \<longleftrightarrow> version_key a = version_key b)
    \<and> Version_Compare None (Some b) < 0"
  by (simp add: Compare_order) (simp add: Version_Compare_def)

text \<open>A list of comparators is a conjunction.\<close>

lemma testAlternative_Cons:
  "testComparator c v = Some b \<Longrightarrow> testAlternative (c # cs) v = (if b then testAlternative cs v else Some False)"
  by simp

declare testAlternative.simps(2) [simp del]

section \<open>Partial comparators\<close>

definition version_numbers :: "Version \<Rightarrow> nat list" where
  "version_numbers v = [unat (v_major v), unat (v_minor v), unat (v_patch v)]"

text \<open>Against a bound with the least prerelease only the numbers count.\<close>

lemma least_prerelease: "xs \<noteq> [] \<Longrightarrow> [NumId 0] \<le> xs"
proof (cases xs)
  case (Cons x ys)
  have "x = NumId 0 \<or> NumId 0 < x" by (cases x) auto
  then show "[NumId 0] \<le> xs" using Cons by auto
qed simp

lemma Compare_pre0: "Version_Compare (Some v) (Some (pre0 w)) < 0 \<longleftrightarrow> version_numbers v < version_numbers w"
proof -
  have z: "ident_of ''0'' = NumId 0"
    by (simp add: ident_of_def numericIdentifier_def value_in_base_def val_of_def digit_val_def)
  have "\<not> (v_prerelease v = [], map ident_of (v_prerelease v)) < (False, [NumId 0])"
    using least_prerelease[of "map ident_of (v_prerelease v)"] by (cases "v_prerelease v") auto
  then show ?thesis
    by (auto simp: Compare_order version_key_def version_numbers_def pre0_def z)
qed

text \<open>How many components a partial version gives.\<close>

definition given_components :: "partialVersion \<Rightarrow> nat" where
  "given_components p = (if isWildcard (pv_minorStr p) then 1 else if isWildcard (pv_patchStr p) then 2 else 3)"

text \<open>The component that is incremented for an exclusive bound is not the greatest number.\<close>

definition no_wrap :: "partialVersion \<Rightarrow> bool" where
  "no_wrap p \<longleftrightarrow> (if isWildcard (pv_minorStr p) then v_major (pv_version p) \<noteq> -1
     else isWildcard (pv_patchStr p) \<longrightarrow> v_minor (pv_version p) \<noteq> -1)"

lemma partial_numbers_zeros:
  "partial_numbers ma mi pa = Some (a, b, c) \<Longrightarrow> \<not> isWildcard ma \<Longrightarrow>
    (isWildcard mi \<longrightarrow> b = 0 \<and> c = 0) \<and> (isWildcard pa \<longrightarrow> c = 0)"
  by (cases "getUintComponent ma"; cases "getUintComponent mi"; cases "getUintComponent pa")
    (simp_all add: partial_numbers_def split: if_split_asm)

lemma parsePartial_fields:
  assumes "parsePartial t = Some p"
  shows "partial_numbers (pv_majorStr p) (pv_minorStr p) (pv_patchStr p) =
    Some (v_major (pv_version p), v_minor (pv_version p), v_patch (pv_version p))"
  using assms unfolding parsePartial_def Let_def by (auto split: option.split_asm)

lemma parsePartial_zeros:
  assumes "parsePartial t = Some p" "\<not> isWildcard (pv_majorStr p)"
  shows "isWildcard (pv_minorStr p) \<Longrightarrow> v_minor (pv_version p) = 0 \<and> v_patch (pv_version p) = 0"
    and "isWildcard (pv_patchStr p) \<Longrightarrow> v_patch (pv_version p) = 0"
  using partial_numbers_zeros[OF parsePartial_fields[OF assms(1)] assms(2)] by blast+

lemma unat_succ: "(w :: 32 word) \<noteq> -1 \<Longrightarrow> unat (w + 1) = unat w + 1"
  using unatSuc[of w] by (metis add.commute add_eq_0_iff2 plus_1_eq_Suc)

text \<open>The bound just above the components that are given.\<close>

definition next_bound :: "partialVersion \<Rightarrow> Version" where
  "next_bound p = (if isWildcard (pv_minorStr p) then incrementMajor (pv_version p) else incrementMinor (pv_version p))"

lemma below_partial:
  assumes "parsePartial t = Some p" "\<not> isWildcard (pv_majorStr p)" "given_components p < 3"
  shows "version_numbers v < version_numbers (pv_version p) \<longleftrightarrow>
    take (given_components p) (version_numbers v) < take (given_components p) (version_numbers (pv_version p))"
  using parsePartial_zeros[OF assms(1,2)] assms(3)
  by (auto simp: given_components_def version_numbers_def numeral_2_eq_2)

lemma below_next:
  assumes "given_components p < 3" "no_wrap p"
  shows "version_numbers v < version_numbers (next_bound p) \<longleftrightarrow>
    take (given_components p) (version_numbers v) \<le> take (given_components p) (version_numbers (pv_version p))"
  using assms unat_succ
  by (auto simp: given_components_def no_wrap_def next_bound_def incrementMajor_def incrementMinor_def
      version_numbers_def numeral_2_eq_2 less_Suc_eq)

definition prefix_relation :: "string \<Rightarrow> nat list \<Rightarrow> nat list \<Rightarrow> bool" where
  "prefix_relation op x y =
    (if op = ''<'' then x < y else if op = ''<='' then x \<le> y
     else if op = ''>='' then y \<le> x else if op = ''>'' then y < x else x = y)"

lemma test_bound:
  "testComparator (comparator ''<'' (pre0 w)) (Some v) = Some (version_numbers v < version_numbers w)"
  "testComparator (comparator ''>='' (pre0 w)) (Some v) = Some (\<not> version_numbers v < version_numbers w)"
  using Compare_pre0[of v w] by (auto simp: testComparator_def comparator_def Let_def not_less[symmetric])

text \<open>A comparator on a partial version compares exactly the components that are given. For
  each of \<open><\<close>, \<open><=\<close>, \<open>>\<close>, \<open>>=\<close>, \<open>=\<close> and the empty operator, and every version, prereleases included,
  the comparators that \<open>parseComparator\<close> produces accept the version if and only if its prefix of
  major, or major and minor, stands in that relation to the one in the text.\<close>

theorem partial_comparator_compares_prefix:
  assumes "parsePartial t = Some p" "\<not> isWildcard (pv_majorStr p)" "given_components p < 3" "no_wrap p"
    and "op \<in> {''<'', ''<='', ''>'', ''>='', ''='', []}"
  shows "\<exists>cs. parseComparator op t = Inr cs \<and> testAlternative cs (Some v) =
    Some (prefix_relation op (take (given_components p) (version_numbers v))
      (take (given_components p) (version_numbers (pv_version p))))"
proof -
  have wild: "isWildcard (pv_minorStr p) \<or> isWildcard (pv_patchStr p)"
    using assms(3) by (auto simp: given_components_def split: if_split_asm)
  note b = below_partial[OF assms(1-3), of v] below_next[OF assms(3,4), of v]
  note parse = parseComparator_def assms(1) assms(2) Let_def
  consider "op = ''<''" | "op = ''>=''" | "op = ''<=''" | "op = ''>''" | "op = ''='' \<or> op = []"
    using assms(5) by auto
  then show ?thesis
  proof cases
    case 1
    then show ?thesis
      by (simp add: parse wild testAlternative_Cons[OF test_bound(1)] b prefix_relation_def)
  next
    case 2
    then show ?thesis
      by (simp add: parse wild testAlternative_Cons[OF test_bound(2)] b prefix_relation_def not_less)
  next
    case 3
    then have "parseComparator op t = Inr [comparator ''<'' (pre0 (next_bound p))]"
      using wild by (auto simp: parse next_bound_def)
    then show ?thesis using 3 by (simp add: testAlternative_Cons[OF test_bound(1)] b prefix_relation_def)
  next
    case 4
    then have "parseComparator op t = Inr [comparator ''>='' (pre0 (next_bound p))]"
      using wild by (auto simp: parse next_bound_def)
    then show ?thesis using 4 by (simp add: testAlternative_Cons[OF test_bound(2)] b prefix_relation_def not_le)
  next
    case 5
    then have "parseComparator op t = Inr [comparator ''>='' (pre0 (pv_version p)), comparator ''<'' (pre0 (next_bound p))]"
      using wild by (auto simp: parse next_bound_def)
    then show ?thesis using 5
      by (auto simp: testAlternative_Cons[OF test_bound(1)] testAlternative_Cons[OF test_bound(2)] b prefix_relation_def)
  qed
qed

lemma partial_comparator_compares_prefix_witness:
  "\<exists>cs. parseComparator ''<='' ''1.2'' = Inr cs \<and> testAlternative cs (Some versionZero) = Some True"
proof -
  have p: "parsePartial ''1.2'' = Some \<lparr>pv_version = \<lparr>v_major = 1, v_minor = 2, v_patch = 0,
      v_prerelease = [], v_build = []\<rparr>, pv_majorStr = ''1'', pv_minorStr = ''2'', pv_patchStr = ''*''\<rparr>"
    by code_simp
  let ?p = "\<lparr>pv_version = \<lparr>v_major = 1, v_minor = 2, v_patch = 0,
      v_prerelease = [], v_build = []\<rparr>, pv_majorStr = ''1'', pv_minorStr = ''2'', pv_patchStr = ''*''\<rparr>"
  have "\<not> isWildcard (pv_majorStr ?p)" "given_components ?p < 3" "no_wrap ?p" by code_simp+
  moreover have "prefix_relation ''<='' (take (given_components ?p) (version_numbers versionZero))
      (take (given_components ?p) (version_numbers (pv_version ?p)))"
    by (simp add: prefix_relation_def given_components_def isWildcard_def version_numbers_def versionZero_def
        numeral_2_eq_2)
  ultimately show ?thesis using partial_comparator_compares_prefix[OF p, of "''<=''" versionZero] by auto
qed

text \<open>C35: At the greatest major version the exclusive bound of a caret or tilde range wraps around
  to 0.0.0, so the range accepts no version at all, not even its own lower bound.\<close>

theorem greatest_major_range_is_empty:
  "\<exists>cs. parseComparator ''^'' ''4294967295.1.0'' = Inr cs \<and> testAlternative cs v = Some False"
proof -
  let ?lo = "\<lparr>v_major = 4294967295, v_minor = 1, v_patch = 0, v_prerelease = [], v_build = []\<rparr>"
  let ?hi = "\<lparr>v_major = 0, v_minor = 0, v_patch = 0, v_prerelease = [], v_build = []\<rparr>"
  have "parseComparator ''^'' ''4294967295.1.0'' = Inr [comparator ''>='' ?lo, comparator ''<'' ?hi]"
    by code_simp
  moreover have "testAlternative [comparator ''>='' ?lo, comparator ''<'' ?hi] v = Some False"
  proof (cases v)
    case None
    then show ?thesis by (simp add: testAlternative.simps(2) testComparator_def comparator_def Version_Compare_def)
  next
    case (Some w)
    have "version_key ?hi < version_key ?lo" by (simp add: version_key_def)
    then have "version_key w < version_key ?lo \<or> \<not> version_key w < version_key ?hi" by (meson not_less order.strict_trans)
    moreover have "testComparator (comparator ''>='' ?lo) (Some w) = Some (\<not> version_key w < version_key ?lo)"
      "testComparator (comparator ''<'' ?hi) (Some w) = Some (version_key w < version_key ?hi)"
      by (simp_all add: testComparator_def comparator_def Compare_order not_less)
    ultimately show ?thesis unfolding Some by (auto simp: testAlternative_Cons)
  qed
  ultimately show ?thesis by blast
qed

end
