(* ===== verification/Wtf8.thy ===== *)
theory Wtf8
  imports StringUtil
begin

text \<open>
  Encoding and decoding are inverse to each other on the bytes: what Go's decoder, or the decoder of
  JavaScript strings, reads as a character other than a replacement of a stray byte is the encoding
  of that character.
\<close>

section \<open>Bit fields\<close>

lemma mask6 [simp]: "(x::int) AND 63 = x mod 64"
  using take_bit_eq_mask [of 6 x] by (simp add: take_bit_eq_mod mask_eq_exp_minus_1)

lemma or_field:
  assumes "0 \<le> b" "b < 2 ^ n" shows "push_bit n a OR b = (a * 2 ^ n + b :: int)"
proof -
  have "take_bit n b = b" using assms by (simp add: take_bit_int_eq_self)
  then show ?thesis
    using concat_bit_eq [of n b a] concat_bit_def [of n b a] by (simp add: push_bit_eq_mult or.commute)
qed

lemma sentinel_value:
  "0xD000 OR push_bit 6 (a mod 64) OR (b mod 64) = 0xD000 + a mod 64 * 64 + (b mod 64 :: int)"
proof -
  have "push_bit 6 (a mod 64) OR (b mod 64) = a mod 64 * 64 + b mod 64"
    using or_field [of "b mod 64" 6 "a mod 64"] by simp
  moreover have "a mod 64 < 64" "b mod 64 < 64" by simp_all
  then have "0 \<le> a mod 64 * 64 + b mod 64" "a mod 64 * 64 + b mod 64 < 4096" by simp_all
  then have "push_bit 12 13 OR (a mod 64 * 64 + b mod 64) = 0xD000 + (a mod 64 * 64 + b mod 64)"
    using or_field [of "a mod 64 * 64 + b mod 64" 12 13] by simp
  ultimately show ?thesis by (simp add: or.assoc)
qed

lemma sentinel_decode:
  assumes "is_surrogate_sentinel s"
  shows "DecodeJSStringRune s = (0xD000 + (rune_of (s ! 1) - 0x80) * 64 + (rune_of (s ! 2) - 0x80), 3)"
proof -
  have *: "x mod 64 = x - 128" if "128 \<le> x" "x < 192" for x :: int
  proof -
    have "x mod 64 = (x - 128 + 2 * 64) mod 64" by simp
    also have "\<dots> = x - 128" using that by (simp only: mod_mult_self1) simp
    finally show ?thesis .
  qed
  have "rune_of (s ! 1) mod 64 = rune_of (s ! 1) - 128" "rune_of (s ! 2) mod 64 = rune_of (s ! 2) - 128"
    using assms by (auto simp: is_surrogate_sentinel_def intro!: *)
  moreover have "DecodeJSStringRune s
    = (0xD000 + rune_of (s ! 1) mod 64 * 64 + rune_of (s ! 2) mod 64, 3)"
    using assms by (simp only: DecodeJSStringRune_def sentinel_value mask6 if_True)
  ultimately show ?thesis by simp
qed

lemma sentinel_rune:
  assumes "is_surrogate_sentinel s"
  shows "0xD800 \<le> fst (DecodeJSStringRune s)" "fst (DecodeJSStringRune s) \<le> 0xDFFF"
    "snd (DecodeJSStringRune s) = 3"
  using assms by (auto simp: sentinel_decode is_surrogate_sentinel_def)

section \<open>Encoding what was decoded\<close>

lemma field2:
  assumes "0 \<le> y" "y < (64::int)" shows "(x * 64 + y) div 64 = x" "(x * 64 + y) mod 64 = y"
  using assms by (simp_all add: div_add1_eq)

lemma field3:
  assumes "0 \<le> y" "y < (64::int)" "0 \<le> z" "z < 64"
  shows "(x * 4096 + y * 64 + z) div 4096 = x" "(x * 4096 + y * 64 + z) div 64 = x * 64 + y"
    "(x * 4096 + y * 64 + z) mod 64 = z"
proof -
  have e: "x * 4096 + y * 64 + z = (x * 64 + y) * 64 + z" by simp
  show d: "(x * 4096 + y * 64 + z) div 64 = x * 64 + y" unfolding e by (rule field2 [OF assms(3,4)])
  show "(x * 4096 + y * 64 + z) mod 64 = z" unfolding e by (rule field2 [OF assms(3,4)])
  have "(x * 4096 + y * 64 + z) div 4096 = (x * 4096 + y * 64 + z) div 64 div 64"
    by (simp flip: zdiv_zmult2_eq)
  then show "(x * 4096 + y * 64 + z) div 4096 = x" unfolding d by (simp only: field2 [OF assms(1,2)])
qed

lemma field4:
  assumes "0 \<le> y" "y < (64::int)" "0 \<le> z" "z < 64" "0 \<le> w" "w < 64"
  shows "(x * 262144 + y * 4096 + z * 64 + w) div 262144 = x"
    "(x * 262144 + y * 4096 + z * 64 + w) div 4096 = x * 64 + y"
    "(x * 262144 + y * 4096 + z * 64 + w) div 64 = x * 4096 + y * 64 + z"
    "(x * 262144 + y * 4096 + z * 64 + w) mod 64 = w"
proof -
  have e: "x * 262144 + y * 4096 + z * 64 + w = (x * 64 + y) * 4096 + z * 64 + w" by simp
  note f = field3 [OF assms(3-6), of "x * 64 + y", folded e]
  show "(x * 262144 + y * 4096 + z * 64 + w) mod 64 = w" by (rule f)
  show d: "(x * 262144 + y * 4096 + z * 64 + w) div 4096 = x * 64 + y" by (rule f)
  show "(x * 262144 + y * 4096 + z * 64 + w) div 64 = x * 4096 + y * 64 + z" using f(2) by simp
  have "(x * 262144 + y * 4096 + z * 64 + w) div 262144 = (x * 262144 + y * 4096 + z * 64 + w) div 4096 div 64"
    by (simp flip: zdiv_zmult2_eq)
  then show "(x * 262144 + y * 4096 + z * 64 + w) div 262144 = x" unfolding d by (simp only: field2 [OF assms(1,2)])
qed

lemma EncodeRune_bytes2:
  assumes "2 \<le> x" "x < 32" "0 \<le> y" "y < 64"
  shows "EncodeRune (x * 64 + y) = [byte_of (0xC0 + x), byte_of (0x80 + y)]" "ValidRune (x * 64 + y)"
  using assms by (simp_all add: EncodeRune_def ValidRune_def field2)

lemma EncodeRune_bytes3:
  assumes "0 \<le> x" "x < 16" "0 \<le> y" "y < 64" "0 \<le> z" "z < 64" "x = 0 \<Longrightarrow> 32 \<le> y" "x = 13 \<Longrightarrow> y < 32"
  shows "EncodeRune (x * 4096 + y * 64 + z) = [byte_of (0xE0 + x), byte_of (0x80 + y), byte_of (0x80 + z)]"
    "ValidRune (x * 4096 + y * 64 + z)"
proof -
  let ?v = "x * 4096 + y * 64 + z"
  have b: "0x800 \<le> ?v" "?v < 0x10000" using assms by (cases "x = 0"; simp)+
  consider "x < 13" | "x = 13" | "13 < x" by linarith
  then show v: "ValidRune ?v" by cases (use assms in \<open>auto simp: ValidRune_def\<close>)
  show "EncodeRune ?v = [byte_of (0xE0 + x), byte_of (0x80 + y), byte_of (0x80 + z)]"
    using v b assms by (simp add: EncodeRune_def field3 field2)
qed

lemma EncodeRune_bytes4:
  assumes "0 \<le> x" "x \<le> 4" "0 \<le> y" "y < 64" "0 \<le> z" "z < 64" "0 \<le> w" "w < 64"
    "x = 0 \<Longrightarrow> 16 \<le> y" "x = 4 \<Longrightarrow> y < 16"
  shows "EncodeRune (x * 262144 + y * 4096 + z * 64 + w)
      = [byte_of (0xF0 + x), byte_of (0x80 + y), byte_of (0x80 + z), byte_of (0x80 + w)]"
    "ValidRune (x * 262144 + y * 4096 + z * 64 + w)"
proof -
  let ?v = "x * 262144 + y * 4096 + z * 64 + w"
  have b: "0x10000 \<le> ?v" using assms by (cases "x = 0"; simp)
  have "?v \<le> 0x10FFFF" using assms by (cases "x = 4"; simp)
  with b show v: "ValidRune ?v" by (simp add: ValidRune_def)
  have "(x * 4096 + y * 64 + z) mod 64 = z" "(x * 64 + y) mod 64 = y"
    using assms by (simp_all only: field3 field2)
  then show "EncodeRune ?v = [byte_of (0xF0 + x), byte_of (0x80 + y), byte_of (0x80 + z), byte_of (0x80 + w)]"
    using v b assms by (simp add: EncodeRune_def field4)
qed

lemma decode2_cases:
  assumes "decode2 b0 r = (v, n)" "\<not> (v = RuneError \<and> n \<le> 1)"
  obtains c1 t where "r = c1 # t" "utf8_cont c1" "v = (b0 - 0xC0) * 64 + (rune_of c1 - 0x80)" "n = 2"
  using assms by (auto simp: decode2_def split: list.splits if_splits)

lemma decode3_cases:
  assumes "decode3 lo hi b0 r = (v, n)" "\<not> (v = RuneError \<and> n \<le> 1)"
  obtains c1 c2 t where "r = c1 # c2 # t" "byte_in lo hi c1" "utf8_cont c2"
    "v = (b0 - 0xE0) * 4096 + (rune_of c1 - 0x80) * 64 + (rune_of c2 - 0x80)" "n = 3"
  using assms by (auto simp: decode3_def split: list.splits if_splits)

lemma decode4_cases:
  assumes "decode4 lo hi b0 r = (v, n)" "\<not> (v = RuneError \<and> n \<le> 1)"
  obtains c1 c2 c3 t where "r = c1 # c2 # c3 # t" "byte_in lo hi c1" "utf8_cont c2" "utf8_cont c3"
    "v = (b0 - 0xF0) * 262144 + (rune_of c1 - 0x80) * 4096 + (rune_of c2 - 0x80) * 64 + (rune_of c3 - 0x80)"
    "n = 4"
  using assms by (auto simp: decode4_def split: list.splits if_splits)

lemma encode_decode2:
  assumes "decode2 (rune_of c0) r = (v, n)" "\<not> (v = RuneError \<and> n \<le> 1)" "0xC2 \<le> rune_of c0" "rune_of c0 < 0xE0"
  shows "EncodeRune v = take n (c0 # r) \<and> ValidRune v"
proof -
  obtain c1 t where r: "r = c1 # t" "utf8_cont c1" "v = (rune_of c0 - 0xC0) * 64 + (rune_of c1 - 0x80)" "n = 2"
    using decode2_cases [OF assms(1,2)] .
  show ?thesis
    using EncodeRune_bytes2 [of "rune_of c0 - 0xC0" "rune_of c1 - 0x80"] assms(3,4) r(2)
    unfolding r by (simp add: byte_in_def)
qed

lemma encode_decode3:
  assumes "decode3 lo hi (rune_of c0) r = (v, n)" "\<not> (v = RuneError \<and> n \<le> 1)" "0xE0 \<le> rune_of c0" "rune_of c0 < 0xF0"
    "0x80 \<le> lo" "hi \<le> 0xBF" "rune_of c0 = 0xE0 \<Longrightarrow> 0xA0 \<le> lo" "rune_of c0 = 0xED \<Longrightarrow> hi \<le> 0x9F"
  shows "EncodeRune v = take n (c0 # r) \<and> ValidRune v"
proof -
  obtain c1 c2 t where r: "r = c1 # c2 # t" "byte_in lo hi c1" "utf8_cont c2"
    "v = (rune_of c0 - 0xE0) * 4096 + (rune_of c1 - 0x80) * 64 + (rune_of c2 - 0x80)" "n = 3"
    using decode3_cases [OF assms(1,2)] .
  have "rune_of c0 - 0xE0 = 0 \<Longrightarrow> 32 \<le> rune_of c1 - 0x80" "rune_of c0 - 0xE0 = 13 \<Longrightarrow> rune_of c1 - 0x80 < 32"
    using assms(7,8) r(2) by (auto simp: byte_in_def)
  then have "EncodeRune v = [byte_of (0xE0 + (rune_of c0 - 0xE0)), byte_of (0x80 + (rune_of c1 - 0x80)),
      byte_of (0x80 + (rune_of c2 - 0x80))]" "ValidRune v"
    unfolding r(4) using assms(3-6) r(2,3)
    by (intro EncodeRune_bytes3; simp add: byte_in_def)+
  then show ?thesis by (simp add: r)
qed

lemma encode_decode4:
  assumes "decode4 lo hi (rune_of c0) r = (v, n)" "\<not> (v = RuneError \<and> n \<le> 1)" "0xF0 \<le> rune_of c0" "rune_of c0 \<le> 0xF4"
    "0x80 \<le> lo" "hi \<le> 0xBF" "rune_of c0 = 0xF0 \<Longrightarrow> 0x90 \<le> lo" "rune_of c0 = 0xF4 \<Longrightarrow> hi \<le> 0x8F"
  shows "EncodeRune v = take n (c0 # r) \<and> ValidRune v"
proof -
  obtain c1 c2 c3 t where r: "r = c1 # c2 # c3 # t" "byte_in lo hi c1" "utf8_cont c2" "utf8_cont c3"
    "v = (rune_of c0 - 0xF0) * 262144 + (rune_of c1 - 0x80) * 4096 + (rune_of c2 - 0x80) * 64 + (rune_of c3 - 0x80)"
    "n = 4"
    using decode4_cases [OF assms(1,2)] .
  have "rune_of c0 - 0xF0 = 0 \<Longrightarrow> 16 \<le> rune_of c1 - 0x80" "rune_of c0 - 0xF0 = 4 \<Longrightarrow> rune_of c1 - 0x80 < 16"
    using assms(7,8) r(2) by (auto simp: byte_in_def)
  then have "EncodeRune v = [byte_of (0xF0 + (rune_of c0 - 0xF0)), byte_of (0x80 + (rune_of c1 - 0x80)),
      byte_of (0x80 + (rune_of c2 - 0x80)), byte_of (0x80 + (rune_of c3 - 0x80))]" "ValidRune v"
    unfolding r(5) using assms(3-6) r(2,3,4)
    by (intro EncodeRune_bytes4; simp add: byte_in_def)+
  then show ?thesis by (simp add: r)
qed

lemma EncodeRune_DecodeRune:
  assumes "DecodeRune s = (v, n)" "\<not> (v = RuneError \<and> n \<le> 1)"
  shows "EncodeRune v = take n s \<and> ValidRune v"
proof (cases s)
  case Nil
  with assms show ?thesis by simp
next
  case (Cons c0 r)
  let ?b = "rune_of c0"
  have b: "?b < 256" by simp
  have d: "DecodeRune (c0 # r) = (v, n)" using assms Cons by simp
  consider "?b < 0x80" | "0x80 \<le> ?b" "?b < 0xC2" | "0xC2 \<le> ?b" "?b < 0xE0" | "?b = 0xE0" | "?b = 0xED"
    | "0xE0 < ?b" "?b < 0xF0" "?b \<noteq> 0xED" | "?b = 0xF0" | "0xF0 < ?b" "?b < 0xF4" | "?b = 0xF4" | "0xF4 < ?b"
    by linarith
  then show ?thesis
  proof cases
    case 1
    then show ?thesis using d Cons by (auto simp: EncodeRune_ascii ValidRune_def)
  next
    case 2
    then show ?thesis using d assms(2) by (simp add: DecodeRune_def)
  next
    case 3
    then have "decode2 ?b r = (v, n)" using d by (simp add: DecodeRune_def)
    from encode_decode2 [OF this assms(2)] show ?thesis using 3 Cons by simp
  next
    case 4
    then have "decode3 0xA0 0xBF ?b r = (v, n)" using d by (simp add: DecodeRune_def)
    from encode_decode3 [OF this assms(2)] show ?thesis using 4 Cons by simp
  next
    case 5
    then have "decode3 0x80 0x9F ?b r = (v, n)" using d by (simp add: DecodeRune_def)
    from encode_decode3 [OF this assms(2)] show ?thesis using 5 Cons by simp
  next
    case 6
    then have "decode3 0x80 0xBF ?b r = (v, n)" using d by (simp add: DecodeRune_def)
    from encode_decode3 [OF this assms(2)] show ?thesis using 6 Cons by simp
  next
    case 7
    then have "decode4 0x90 0xBF ?b r = (v, n)" using d by (simp add: DecodeRune_def)
    from encode_decode4 [OF this assms(2)] show ?thesis using 7 Cons by simp
  next
    case 8
    then have "decode4 0x80 0xBF ?b r = (v, n)" using d by (simp add: DecodeRune_def)
    from encode_decode4 [OF this assms(2)] show ?thesis using 8 Cons by simp
  next
    case 9
    then have "decode4 0x80 0x8F ?b r = (v, n)" using d by (simp add: DecodeRune_def)
    from encode_decode4 [OF this assms(2)] show ?thesis using 9 Cons by simp
  next
    case 10
    then show ?thesis using d assms(2) by (simp add: DecodeRune_def)
  qed
qed

text \<open>The same for the decoder of JavaScript strings, which also reads lone surrogates.\<close>

lemma DecodeJSStringRune_ascii:
  assumes "fst (DecodeJSStringRune s) < 0x80"
  shows "\<exists>c r. s = c # r \<and> rune_of c = fst (DecodeJSStringRune s) \<and> snd (DecodeJSStringRune s) = 1"
proof -
  have "\<not> is_surrogate_sentinel s" using sentinel_rune(1) [of s] assms by linarith
  then have "DecodeJSStringRune s = DecodeRune s" by (simp add: DecodeJSStringRune_def)
  then show ?thesis using assms DecodeRune_is_ascii [of s] by metis
qed

lemma EncodeJSStringRune_sentinel:
  assumes "is_surrogate_sentinel s"
  shows "EncodeJSStringRune (fst (DecodeJSStringRune s)) = take 3 s"
proof -
  define y z where "y = rune_of (s ! 1) - 0x80" and "z = rune_of (s ! 2) - 0x80"
  have b: "0x20 \<le> y" "y < 64" "0 \<le> z" "z < 64"
    using assms by (auto simp: is_surrogate_sentinel_def y_def z_def)
  have v: "fst (DecodeJSStringRune s) = 13 * 4096 + y * 64 + z"
    by (simp add: sentinel_decode [OF assms] y_def z_def)
  have or: "0x80 OR x = 0x80 + x" if "0 \<le> x" "x < 64" for x :: int
    using or_field [of x 6 2] that by simp
  have drop: "drop_bit 6 x = x div 64" for x :: int by (simp add: drop_bit_eq_div)
  have "drop_bit 6 (13 * 4096 + y * 64 + z) mod 64 = y" "(13 * 4096 + y * 64 + z) mod 64 = z"
    using b by (simp_all only: drop field3 field2)
  moreover have "IsSurrogate (13 * 4096 + y * 64 + z)"
    using b by (simp add: IsSurrogate_def utf16_IsSurrogate_def)
  ultimately have "EncodeJSStringRune (fst (DecodeJSStringRune s)) = [byte_of 0xED, byte_of (0x80 + y), byte_of (0x80 + z)]"
    using b by (simp add: v EncodeJSStringRune_def or)
  also have "\<dots> = [s ! 0, s ! 1, s ! 2]"
    using assms by (simp add: y_def z_def is_surrogate_sentinel_def byte_of_eq_iff)
  also have "\<dots> = take 3 s"
    using assms by (intro nth_equalityI) (auto simp: is_surrogate_sentinel_def less_Suc_eq numeral_3_eq_3 numeral_2_eq_2)
  finally show ?thesis .
qed

lemma EncodeJSStringRune_DecodeJSStringRune:
  assumes "DecodeJSStringRune s = (v, n)" "\<not> (v = RuneError \<and> n \<le> 1)"
  shows "EncodeJSStringRune v = take n s"
proof (cases "is_surrogate_sentinel s")
  case True
  then show ?thesis using EncodeJSStringRune_sentinel [OF True] sentinel_rune(3) [OF True] assms by simp
next
  case False
  then have "DecodeRune s = (v, n)" using assms by (simp add: DecodeJSStringRune_def)
  from EncodeRune_DecodeRune [OF this assms(2)] show ?thesis
    by (auto simp: EncodeJSStringRune_def IsSurrogate_def utf16_IsSurrogate_def ValidRune_def)
qed

lemma DecodeJSStringRune_range:
  "0 \<le> fst (DecodeJSStringRune s)" "fst (DecodeJSStringRune s) \<le> 0x10FFFF"
  using sentinel_rune [of s] DecodeRune_max [of s]
  by (cases "is_surrogate_sentinel s"; simp add: DecodeJSStringRune_def)+

lemma EncodeRune_high:
  assumes "ValidRune v" "0x80 \<le> v" shows "list_all (\<lambda>c. 0x80 \<le> rune_of c) (EncodeRune v)"
proof -
  have b: "0x80 \<le> rune_of (byte_of (a + b))" if "0x80 \<le> a" "0 \<le> b" "a + b < 256" for a b :: int
    using that by (simp del: byte_of_of_char)
  have "v div 262144 \<le> 4" "0 \<le> v div 262144" using assms by (auto simp: ValidRune_def)
  moreover have "v < 0x10000 \<Longrightarrow> v div 4096 < 16" "v < 0x800 \<Longrightarrow> v div 64 < 32"
    "0 \<le> v div 4096" "0 \<le> v div 64" using assms(2) by auto
  moreover have "0 \<le> x mod 64" "x mod 64 < 64" for x :: int by auto
  ultimately show ?thesis
    using assms by (auto simp: EncodeRune_def intro!: b)
qed

end
