(* ===== verification/SemverText.thy ===== *)
theory SemverText
  imports SemverOrder Wtf8
begin

text \<open>
  The text of versions: which versions are read back from what \<open>String\<close> writes. The identifiers that are
  accepted are words of runes, two of which are not ASCII.
\<close>

section \<open>Identifiers\<close>

abbreviation encode_runes :: "rune list \<Rightarrow> string" where
  "encode_runes rs \<equiv> concat (map EncodeRune rs)"

text \<open>The letters, the digits and the hyphen, and the two runes that fold to \<open>s\<close> and \<open>k\<close>.\<close>

definition ident_rune :: "rune \<Rightarrow> bool" where
  "ident_rune ch \<longleftrightarrow> ch \<in> {0x30..0x39} \<union> {0x41..0x5A} \<union> {0x61..0x7A} \<union> {0x2D, 0x17F, 0x212A}"

definition build_identifier :: "string \<Rightarrow> bool" where
  "build_identifier s \<longleftrightarrow> (\<exists>rs. rs \<noteq> [] \<and> list_all ident_rune rs \<and> s = encode_runes rs)"

text \<open>Either a numeral without a leading zero, or a word that does not begin with a digit.\<close>

definition prerelease_identifier :: "string \<Rightarrow> bool" where
  "prerelease_identifier s \<longleftrightarrow>
    (\<exists>rs. rs \<noteq> [] \<and> list_all ident_rune rs \<and> s = encode_runes rs
      \<and> (hd rs \<notin> {0x30..0x39} \<or> list_all (\<lambda>ch. ch \<in> {0x30..0x39}) rs \<and> (hd rs = 0x30 \<longrightarrow> rs = [0x30])))"

lemma ident_rune_iff: "ident_rune ch \<longleftrightarrow> class_ident ch"
  by (auto simp: ident_rune_def class_ident_def class_letter_def class_digit_def)

lemma ident_rune_valid: "ident_rune ch \<Longrightarrow> ValidRune ch"
  by (auto simp: ident_rune_def ValidRune_def)

lemma ident_rune_bytes: "ident_rune ch \<Longrightarrow> c \<in> set (EncodeRune ch) \<Longrightarrow> c \<noteq> CHR ''.''"
proof -
  assume ch: "ident_rune ch" "c \<in> set (EncodeRune ch)"
  show "c \<noteq> CHR ''.''"
  proof (cases "ch < 0x80")
    case True
    then have "c = byte_of ch" "0 \<le> ch" "ch \<noteq> 0x2E" using ch by (auto simp: EncodeRune_ascii ident_rune_def)
    then have "rune_of c = ch" using True by simp
    then show ?thesis using \<open>ch \<noteq> 0x2E\<close> by auto
  next
    case False
    then have "ch = 0x17F \<or> ch = 0x212A" using ch(1) by (auto simp: ident_rune_def)
    moreover have "list_all (\<lambda>c. c \<noteq> CHR ''.'') (EncodeRune 0x17F)" "list_all (\<lambda>c. c \<noteq> CHR ''.'') (EncodeRune 0x212A)"
      by code_simp+
    ultimately show ?thesis using ch(2) by (auto simp: list_all_iff)
  qed
qed

lemma build_identifier_plain: "build_identifier s \<Longrightarrow> s \<noteq> [] \<and> CHR ''.'' \<notin> set s"
  using ident_rune_bytes by (force simp: build_identifier_def list_all_iff)

lemma prerelease_is_build_identifier: "prerelease_identifier s \<Longrightarrow> build_identifier s"
  by (auto simp: prerelease_identifier_def build_identifier_def)

text \<open>A run of a class is what its runes encode to, and conversely.\<close>

lemma class_run_encode:
  assumes "list_all (\<lambda>ch. ValidRune ch \<and> p ch) rs" "r = [] \<or> \<not> p (fst (DecodeRune r))"
  shows "class_run p (encode_runes rs @ r) = length (encode_runes rs)"
  using assms(1)
proof (induction rs)
  case Nil
  then show ?case using assms(2) by (subst class_run.simps) auto
next
  case (Cons ch rs)
  then show ?case by (subst class_run.simps) (simp add: DecodeRune_EncodeRune)
qed

lemma all_class_encode:
  assumes "all_class p s" "\<not> p RuneError"
  shows "\<exists>rs. list_all p rs \<and> s = encode_runes rs"
  using assms
proof (induction p s rule: class_run.induct)
  case (1 p s)
  let ?ch = "fst (DecodeRune s)" and ?n = "snd (DecodeRune s)"
  show ?case
  proof (cases "s = []")
    case False
    then have p: "p ?ch" using 1(2) by (auto simp: all_class_def class_run.simps [of p s] split: if_splits)
    then have "?n + class_run p (drop ?n s) = length s" using 1(2) False by (simp add: all_class_def class_run.simps [of p s])
    then have "all_class p (drop ?n s)" unfolding all_class_def by simp
    then obtain rs where rs: "list_all p rs" "drop ?n s = encode_runes rs" using 1(1) [OF conjI [OF False p]] 1(3) by blast
    have "\<not> (?ch = RuneError \<and> ?n \<le> 1)" using p 1(3) by auto
    then have "EncodeRune ?ch = take ?n s" using EncodeRune_DecodeRune [of s ?ch ?n] by simp
    then have "s = encode_runes (?ch # rs)" using append_take_drop_id [of ?n s] rs(2) by simp
    then show ?thesis using rs(1) p by (intro exI [of _ "?ch # rs"]) simp
  qed (simp add: exI [of _ "[]"])
qed

lemma all_class_ident_iff: "all_class class_ident s \<longleftrightarrow> (\<exists>rs. list_all ident_rune rs \<and> s = encode_runes rs)"
proof
  have "\<not> class_ident RuneError" by code_simp
  then show "\<exists>rs. list_all ident_rune rs \<and> s = encode_runes rs" if "all_class class_ident s"
    using all_class_encode [OF that] by (simp add: ident_rune_iff [abs_def])
  assume "\<exists>rs. list_all ident_rune rs \<and> s = encode_runes rs"
  then obtain rs where rs: "list_all ident_rune rs" "s = encode_runes rs" by blast
  then have "list_all (\<lambda>ch. ValidRune ch \<and> class_ident ch) rs"
    using ident_rune_valid ident_rune_iff by (simp add: list_all_iff)
  then show "all_class class_ident s" using class_run_encode [of class_ident rs "[]"] rs(2) by (simp add: all_class_def)
qed

lemma buildPart_iff: "buildPart s \<longleftrightarrow> build_identifier s"
  by (auto simp: buildPart_def build_identifier_def all_class_ident_iff)

text \<open>The digits of a numeral are its bytes.\<close>

lemma encode_ascii: "list_all (\<lambda>ch. 0 \<le> ch \<and> ch < 0x80) rs \<Longrightarrow> encode_runes rs = map byte_of rs"
  by (induction rs) (simp_all add: EncodeRune_ascii)

lemma numericIdentifier_iff:
  "numericIdentifier s \<longleftrightarrow>
    (\<exists>rs. rs \<noteq> [] \<and> list_all (\<lambda>ch. ch \<in> {0x30..0x39}) rs \<and> (hd rs = 0x30 \<longrightarrow> rs = [0x30]) \<and> s = encode_runes rs)"
proof
  let ?num = "\<lambda>rs :: rune list. rs \<noteq> [] \<and> list_all (\<lambda>ch. ch \<in> {0x30..0x39}) rs \<and> (hd rs = 0x30 \<longrightarrow> rs = [0x30])"
  assume s: "numericIdentifier s"
  have bytes: "map byte_of (map rune_of s) = s" by (induction s) simp_all
  have num: "?num (map rune_of s)"
  proof (cases "s = ''0''")
    case False
    then obtain c r where "s = c # r" "byte_in 0x31 0x39 c" "list_all ascii_digit r"
      using s by (auto simp: numericIdentifier_def split: list.splits)
    then show ?thesis by (auto simp: byte_in_def list_all_iff)
  qed simp
  have "list_all (\<lambda>ch. 0 \<le> ch \<and> ch < 0x80) (map rune_of s)"
    using num by (auto simp: list_all_iff)
  then have "encode_runes (map rune_of s) = map byte_of (map rune_of s)" by (rule encode_ascii)
  then show "\<exists>rs. rs \<noteq> [] \<and> list_all (\<lambda>ch. ch \<in> {0x30..0x39}) rs \<and> (hd rs = 0x30 \<longrightarrow> rs = [0x30]) \<and> s = encode_runes rs"
    using num bytes by metis
next
  assume "\<exists>rs. rs \<noteq> [] \<and> list_all (\<lambda>ch. ch \<in> {0x30..0x39}) rs \<and> (hd rs = 0x30 \<longrightarrow> rs = [0x30]) \<and> s = encode_runes rs"
  then obtain ch rs where rs: "list_all (\<lambda>ch. ch \<in> {0x30..0x39}) (ch # rs)" "ch = 0x30 \<longrightarrow> rs = []" "s = encode_runes (ch # rs)"
    by (metis list.sel(1) list.inject list.exhaust)
  have s: "s = map byte_of (ch # rs)" unfolding rs(3) by (rule encode_ascii) (use rs(1) in \<open>auto simp: list_all_iff\<close>)
  have "byte_of 0x30 = CHR ''0''" by code_simp
  then show "numericIdentifier s"
    unfolding numericIdentifier_def s using rs(1,2) by (cases "ch = 0x30") (auto simp: byte_in_def list_all_iff)
qed

lemma prereleasePart_iff: "prereleasePart s \<longleftrightarrow> prerelease_identifier s"
proof -
  have head: "fst (DecodeRune (encode_runes rs)) = hd rs" if "rs \<noteq> []" "list_all ident_rune rs" for rs
    using that by (cases rs) (simp_all add: DecodeRune_EncodeRune ident_rune_valid)
  have word: "s \<noteq> [] \<and> all_class class_ident s \<and> \<not> class_digit (fst (DecodeRune s))
    \<longleftrightarrow> (\<exists>rs. rs \<noteq> [] \<and> list_all ident_rune rs \<and> s = encode_runes rs \<and> hd rs \<notin> {0x30..0x39})"
    unfolding all_class_ident_iff using head by (force simp: class_digit_def)
  have digits: "list_all (\<lambda>ch. ch \<in> {0x30..0x39}) rs \<Longrightarrow> list_all ident_rune rs" for rs
    by (auto simp: list_all_iff ident_rune_def)
  show ?thesis
    unfolding prereleasePart_def numericIdentifier_iff word prerelease_identifier_def using digits by blast
qed

section \<open>Joins\<close>

lemma splitByte_plain: "c \<notin> set x \<Longrightarrow> splitByte c x = [x]"
  by (induction x) auto

lemma splitByte_append: "c \<notin> set x \<Longrightarrow> splitByte c (x @ c # r) = x # splitByte c r"
  by (induction x) auto

lemma splitByte_join:
  "xs \<noteq> [] \<Longrightarrow> list_all (\<lambda>x. c \<notin> set x) xs \<Longrightarrow> splitByte c (strJoin xs [c]) = xs"
  by (induction xs "[c]" rule: strJoin.induct) (simp_all add: splitByte_plain splitByte_append)

lemma strJoin_nonempty: "xs \<noteq> [] \<Longrightarrow> hd xs \<noteq> [] \<Longrightarrow> strJoin xs sep \<noteq> []"
  by (induction xs sep rule: strJoin.induct) auto

section \<open>Numbers\<close>

lemma numericIdentifier_dec: "numericIdentifier (dec_of_nat n)"
proof (induction n rule: dec_of_nat.induct)
  case (1 n)
  show ?case
  proof (cases "n < 10")
    case True
    have "dec_digit 0 = CHR ''0''" by code_simp
    moreover have "byte_in 0x31 0x39 (dec_digit n)" if "n \<noteq> 0" using that True by (simp add: dec_digit_def byte_in_def)
    ultimately show ?thesis using True
      by (subst dec_of_nat.simps) (cases "n = 0", auto simp: numericIdentifier_def)
  next
    case False
    then have "numericIdentifier (dec_of_nat (n div 10))" using 1 by simp
    moreover have "dec_of_nat (n div 10) \<noteq> ''0''"
    proof
      assume "dec_of_nat (n div 10) = ''0''"
      then have "n div 10 = value_in_base 10 ''0''" using dec_of_nat_value[of "n div 10"] by simp
      then show False using False by (simp add: value_Cons val_of_def digit_val_def)
    qed
    moreover have "byte_in 0x30 0x39 (dec_digit (n mod 10))" using dec_digit_props(1)[of "n mod 10"] by (simp add: digit_ascii)
    ultimately show ?thesis using False
      by (subst dec_of_nat.simps) (auto simp: numericIdentifier_def split: list.splits)
  qed
qed

lemma numericIdentifier_not_wild: "numericIdentifier s \<Longrightarrow> \<not> isWildcard s"
  by (auto simp: isWildcard_def numericIdentifier_def byte_in_def)

text \<open>The character class in front of a number: 0, and the wildcards in a range.\<close>

definition number_start :: "(char \<Rightarrow> bool) \<Rightarrow> bool" where
  "number_start first \<longleftrightarrow> first (CHR ''0'') \<and> (\<forall>c. byte_in 0x31 0x39 c \<longrightarrow> \<not> first c)"

lemma match_number_numeral:
  assumes "number_start first" "numericIdentifier s" "r = [] \<or> \<not> ascii_digit (hd r)"
  shows "match_number first (s @ r) = Some (s, r)"
proof (cases "s = ''0''")
  case True
  then show ?thesis using assms(1) by (simp add: match_number_def number_start_def)
next
  case False
  then obtain c ds where s: "s = c # ds" "byte_in 0x31 0x39 c" "list_all ascii_digit ds"
    using assms(2) by (auto simp: numericIdentifier_def split: list.splits)
  have "run_length ascii_digit (ds @ r) = length ds"
    using s(3) assms(3) by (induction ds) (cases r; auto)+
  then show ?thesis using s assms(1) by (auto simp: match_number_def number_start_def)
qed

lemma getUintComponent_dec_word: "getUintComponent (dec_word w) = Inr w"
proof -
  have "value_in_base 10 (dec_of_nat (unat w)) < 2 ^ 32"
    using unsigned_less[of w, where ?'a = nat] by simp
  then show ?thesis
    by (simp add: dec_word_def getUintComponent_value[OF dec_of_nat_decimal dec_of_nat_nonempty])
qed

section \<open>Qualifiers\<close>

definition qualifier_text :: "string list \<Rightarrow> string" where
  "qualifier_text xs = (if xs = [] then [] else strJoin xs ''.'')"

lemma qualifier_runes:
  "list_all build_identifier xs \<Longrightarrow> \<exists>rs. list_all class_qualifier rs \<and> list_all ValidRune rs \<and> strJoin xs ''.'' = encode_runes rs"
proof (induction xs "''.''" rule: strJoin.induct)
  case (2 x)
  then show ?case
    using ident_rune_valid ident_rune_iff by (force simp: build_identifier_def class_qualifier_def list_all_iff)
next
  case (3 x y ys)
  then obtain rs where rs: "list_all class_qualifier rs" "list_all ValidRune rs" "strJoin (y # ys) ''.'' = encode_runes rs" by auto
  obtain qs where qs: "list_all ident_rune qs" "x = encode_runes qs" using 3(2) by (auto simp: build_identifier_def)
  have "EncodeRune 0x2E = ''.''" by code_simp
  moreover have "list_all class_qualifier qs" "list_all ValidRune qs" "class_qualifier 0x2E" "ValidRune 0x2E"
    using qs(1) ident_rune_valid ident_rune_iff by (auto simp: list_all_iff class_qualifier_def ValidRune_def)
  ultimately show ?case using rs qs(2) by (intro exI [of _ "qs @ 0x2E # rs"]) simp
qed (simp add: exI [of _ "[]"])

lemma qualifier_text_all:
  assumes "list_all build_identifier xs"
  shows "qualifier_text xs = [] \<longleftrightarrow> xs = []" "xs \<noteq> [] \<Longrightarrow> splitByte (CHR ''.'') (qualifier_text xs) = xs"
proof -
  have x: "x \<noteq> []" "CHR ''.'' \<notin> set x" if "x \<in> set xs" for x
    using assms that build_identifier_plain by (auto simp: list_all_iff)
  show "qualifier_text xs = [] \<longleftrightarrow> xs = []"
    using x(1) strJoin_nonempty [of xs "''.''"] by (cases xs) (auto simp: qualifier_text_def)
  have "list_all (\<lambda>x. CHR ''.'' \<notin> set x) xs" using x(2) by (simp add: list_all_iff)
  then show "xs \<noteq> [] \<Longrightarrow> splitByte (CHR ''.'') (qualifier_text xs) = xs"
    by (simp add: qualifier_text_def splitByte_join)
qed

lemma match_qualifier_present:
  assumes "list_all build_identifier xs" "xs \<noteq> []" "r = [] \<or> hd r = CHR ''+''"
  shows "match_qualifier lead (lead # qualifier_text xs @ r) = (qualifier_text xs, r)"
proof -
  obtain rs where rs: "list_all class_qualifier rs" "list_all ValidRune rs" "qualifier_text xs = encode_runes rs"
    using qualifier_runes [OF assms(1)] assms(2) by (auto simp: qualifier_text_def)
  have "list_all (\<lambda>ch. ValidRune ch \<and> class_qualifier ch) rs" using rs(1,2) by (simp add: list_all_iff)
  moreover have "r = [] \<or> \<not> class_qualifier (fst (DecodeRune r))"
    using assms(3) by (cases r) (auto simp: class_qualifier_def class_ident_def class_letter_def class_digit_def)
  ultimately have "class_run class_qualifier (qualifier_text xs @ r) = length (qualifier_text xs)"
    unfolding rs(3) by (rule class_run_encode)
  then show ?thesis using assms(2) qualifier_text_all(1) [OF assms(1)] by (simp add: match_qualifier_def)
qed

lemma match_qualifier_absent: "s = [] \<or> hd s \<noteq> lead \<Longrightarrow> match_qualifier lead s = ([], s)"
  by (cases s) (auto simp: match_qualifier_def)

lemma match_version_String:
  assumes "number_start first" "list_all build_identifier (v_prerelease v)" "list_all build_identifier (v_build v)"
  shows "match_version first (Version_String v) =
    Some (dec_word (v_major v), dec_word (v_minor v), dec_word (v_patch v),
      qualifier_text (v_prerelease v), qualifier_text (v_build v))"
proof -
  define pre where "pre = (if v_prerelease v \<noteq> [] then CHR ''-'' # qualifier_text (v_prerelease v) else [])"
  define bld where "bld = (if v_build v \<noteq> [] then CHR ''+'' # qualifier_text (v_build v) else [])"
  have str: "Version_String v = dec_word (v_major v) @ CHR ''.'' # dec_word (v_minor v) @ CHR ''.'' # dec_word (v_patch v) @ pre @ bld"
    by (simp add: Version_String_def pre_def bld_def qualifier_text_def)
  have num: "numericIdentifier (dec_word w)" for w by (simp add: dec_word_def numericIdentifier_dec)
  have b: "bld = [] \<or> hd bld = CHR ''+''" by (simp add: bld_def)
  have "pre @ bld = [] \<or> \<not> ascii_digit (hd (pre @ bld))" by (auto simp: pre_def bld_def byte_in_def)
  then have m3: "match_number first (dec_word (v_patch v) @ pre @ bld) = Some (dec_word (v_patch v), pre @ bld)"
    by (intro match_number_numeral[OF assms(1) num])
  have m: "match_number first (dec_word w @ CHR ''.'' # r) = Some (dec_word w, CHR ''.'' # r)" for w r
    by (rule match_number_numeral[OF assms(1) num]) (simp add: byte_in_def)
  have q: "match_qualifier (CHR ''-'') (pre @ bld) = (qualifier_text (v_prerelease v), bld)"
    using match_qualifier_present[OF assms(2) _ b] match_qualifier_absent[of bld "CHR ''-''"] b
    by (auto simp: pre_def qualifier_text_def)
  have r: "match_qualifier (CHR ''+'') bld = (qualifier_text (v_build v), [])"
    using match_qualifier_present[OF assms(3), of "[]" "CHR ''+''"] match_qualifier_absent[of "[]" "CHR ''+''"]
    by (auto simp: bld_def qualifier_text_def)
  show ?thesis unfolding str match_version_def by (simp add: m m3 q r Let_def)
qed

lemma dec_word_nonempty [simp]: "dec_word w \<noteq> []"
  by (simp add: dec_word_def)

section \<open>The versions that are read back\<close>

text \<open>Whatever is accepted has well-formed identifiers.\<close>

lemma TryParseVersion_identifiers:
  assumes "TryParseVersion s = Inr v"
  shows "list_all prereleasePart (v_prerelease v)" "list_all buildPart (v_build v)"
  using assms unfolding TryParseVersion_def
  by (auto simp: prereleaseRegexp_def buildRegExp_def split: option.splits sum.splits if_split_asm)

lemma TryParseVersion_String:
  assumes "list_all prerelease_identifier (v_prerelease v)" "list_all build_identifier (v_build v)"
  shows "TryParseVersion (Version_String v) = Inr v"
proof -
  have wp: "list_all build_identifier (v_prerelease v)"
    using assms(1) prerelease_is_build_identifier by (auto simp: list_all_iff)
  have parts: "list_all prereleasePart (v_prerelease v)" "list_all buildPart (v_build v)"
    using assms by (simp_all add: list_all_iff prereleasePart_iff buildPart_iff)
  have "(if qualifier_text (v_prerelease v) = [] then [] else splitByte (CHR ''.'') (qualifier_text (v_prerelease v))) = v_prerelease v"
    "(if qualifier_text (v_build v) = [] then [] else splitByte (CHR ''.'') (qualifier_text (v_build v))) = v_build v"
    using qualifier_text_all[OF wp] qualifier_text_all[OF assms(2)] by auto
  moreover have "number_start (\<lambda>c. c = CHR ''0'')" by (auto simp: number_start_def byte_in_def)
  ultimately show ?thesis
    using parts unfolding TryParseVersion_def versionRegexp_def match_version_String[OF _ wp assms(2)]
    by (auto simp: optional_component_def getUintComponent_dec_word match_version_String[OF _ wp assms(2)]
        prereleaseRegexp_def buildRegExp_def split: if_split_asm)
qed

text \<open>C36: \<open>TryParseVersion\<close> reads back what \<open>String\<close> writes, whatever the three 32-bit numbers are, exactly for the
  versions whose prerelease identifiers are numerals without a leading zero or words that do not begin with a digit,
  and whose build identifiers are words. The words are of ASCII letters, digits and hyphens, and of two characters
  more: the expressions match without regard to case, and case folding relates the letters s and k to U+017F and
  U+212A. No other character outside ASCII is accepted.
\<close>

theorem versions_read_back:
  "TryParseVersion (Version_String v) = Inr v
    \<longleftrightarrow> list_all prerelease_identifier (v_prerelease v) \<and> list_all build_identifier (v_build v)"
  using TryParseVersion_identifiers [of "Version_String v" v] TryParseVersion_String [of v]
  by (simp add: list_all_iff prereleasePart_iff buildPart_iff) blast

text \<open>For example, with both characters, and a word that begins with a digit.\<close>

lemma non_ascii_prerelease:
  "(case TryParseVersion (''1.0.0-'' @ EncodeRune 0x212A @ EncodeRune 0x17F) of
      Inr v \<Rightarrow> v_prerelease v = [EncodeRune 0x212A @ EncodeRune 0x17F] | Inl _ \<Rightarrow> False)"
  "TryParseVersion ''1.0.0-1a'' = Inl (SemverParseError ''1.0.0-1a'')"
  by code_simp+

end
