(* ===== verification/PrinterEscape.thy ===== *)
theory PrinterEscape
  imports Wtf8
begin

text \<open>
  How the printer writes a string between quotes (\<^verbatim>\<open>printer/utilities.go\<close>): the escapes of string
  literals, templates and JSX attributes. The buffer is the text written so far.
\<close>

section \<open>Flags and tables\<close>

type_synonym getLiteralTextFlags = "32 word"

abbreviation (input) getLiteralTextFlagsNone :: getLiteralTextFlags where
  "getLiteralTextFlagsNone \<equiv> 0"
abbreviation (input) getLiteralTextFlagsNeverAsciiEscape :: getLiteralTextFlags where
  "getLiteralTextFlagsNeverAsciiEscape \<equiv> 1"
abbreviation (input) getLiteralTextFlagsJsxAttributeEscape :: getLiteralTextFlags where
  "getLiteralTextFlagsJsxAttributeEscape \<equiv> 2"

definition hasLiteralFlag :: "getLiteralTextFlags \<Rightarrow> getLiteralTextFlags \<Rightarrow> bool" where
  "hasLiteralFlag flags f \<longleftrightarrow> flags AND f \<noteq> 0"

abbreviation (input) QuoteCharSingleQuote :: rune where "QuoteCharSingleQuote \<equiv> 0x27"
abbreviation (input) QuoteCharDoubleQuote :: rune where "QuoteCharDoubleQuote \<equiv> 0x22"
abbreviation (input) QuoteCharBacktick :: rune where "QuoteCharBacktick \<equiv> 0x60"

definition jsxEscapedCharsMap :: "rune \<Rightarrow> string option" where
  "jsxEscapedCharsMap = map_of [(0x22, ''&quot;''), (0x27, ''&apos;'')]"

definition escapedCharsMap :: "rune \<Rightarrow> string option" where
  "escapedCharsMap = map_of
    [(0x09, [CHR 0x5C, CHR ''t'']), (0x0B, [CHR 0x5C, CHR ''v'']), (0x0C, [CHR 0x5C, CHR ''f'']),
     (0x08, [CHR 0x5C, CHR ''b'']), (0x0D, [CHR 0x5C, CHR ''r'']), (0x0A, [CHR 0x5C, CHR ''n'']),
     (0x5C, [CHR 0x5C, CHR 0x5C]), (0x22, [CHR 0x5C, CHR 0x22]), (0x27, [CHR 0x5C, CHR 0x27]),
     (0x60, [CHR 0x5C, CHR 0x60]), (0x24, [CHR 0x5C, CHR ''$'']),
     (0x2028, CHR 0x5C # ''u2028''), (0x2029, CHR 0x5C # ''u2029''), (0x85, CHR 0x5C # ''u0085'')]"

text \<open>\<open>strings.ToUpper(strconv.FormatUint(n, 16))\<close>\<close>

definition upper_digit :: "nat \<Rightarrow> char" where
  "upper_digit d = (if d < 10 then char_of (48 + d) else char_of (55 + d))"

fun hex_of_nat :: "nat \<Rightarrow> string" where
  "hex_of_nat n = (if n < 16 then [upper_digit n] else hex_of_nat (n div 16) @ [upper_digit (n mod 16)])"

declare hex_of_nat.simps [simp del]

definition encodeJsxCharacterEntity :: "rune \<Rightarrow> string" where
  "encodeJsxCharacterEntity charCode = ''&#x'' @ hex_of_nat (nat charCode) @ '';''"

definition encodeUtf16EscapeSequence :: "rune \<Rightarrow> string" where
  "encodeUtf16EscapeSequence charCode =
    (let hexCharCode = hex_of_nat (nat charCode)
     in [CHR 0x5C, CHR ''u''] @ replicate (4 - length hexCharCode) (CHR ''0'') @ hexCharCode)"

section \<open>The worker\<close>

text \<open>Whether the character \<open>ch\<close> of \<open>width\<close> bytes at the start of \<open>s\<close>, a suffix of the string, is escaped.\<close>

definition must_escape :: "rune \<Rightarrow> getLiteralTextFlags \<Rightarrow> string \<Rightarrow> rune \<Rightarrow> nat \<Rightarrow> bool" where
  "must_escape quoteChar flags s ch width \<longleftrightarrow>
    0xD800 \<le> ch \<and> ch \<le> 0xDFFF \<or> ch = RuneError \<and> width = 1 \<or>
    (if ch = 0x5C then \<not> hasLiteralFlag flags getLiteralTextFlagsJsxAttributeEscape
     else if ch = 0x24 then quoteChar = QuoteCharBacktick \<and> 1 < length s \<and> s ! 1 = CHR 0x7B
     else if ch = quoteChar \<or> ch = 0x2028 \<or> ch = 0x2029 \<or> ch = 0x85 \<or> ch = 0x0D then True
     else if ch = 0x0A then quoteChar \<noteq> QuoteCharBacktick
     else ch \<le> 0x1F \<or> \<not> hasLiteralFlag flags getLiteralTextFlagsNeverAsciiEscape \<and> 0x7F < ch)"

text \<open>What is written for it, and how many bytes of \<open>s\<close> that stands for.\<close>

definition escape_text :: "rune \<Rightarrow> getLiteralTextFlags \<Rightarrow> string \<Rightarrow> rune \<Rightarrow> nat \<Rightarrow> string \<times> nat" where
  "escape_text quoteChar flags s ch width =
    (if hasLiteralFlag flags getLiteralTextFlagsJsxAttributeEscape then
       (if ch = 0 then (''&#0;'', width)
        else (case jsxEscapedCharsMap ch of
            Some match \<Rightarrow> (match, width) | None \<Rightarrow> (encodeJsxCharacterEntity ch, width)))
     else if ch = 0x0D \<and> quoteChar = QuoteCharBacktick \<and> 1 < length s \<and> s ! 1 = CHR 0x0A then
       ([CHR 0x5C, CHR ''r'', CHR 0x5C, CHR ''n''], width + 1)
     else if 0xFFFF < ch then
       (encodeUtf16EscapeSequence (drop_bit 10 ((ch - 0x10000) AND 0xFFC00) + 0xD800)
        @ encodeUtf16EscapeSequence (((ch - 0x10000) AND 0x3FF) + 0xDC00), width)
     else if 0xD800 \<le> ch \<and> ch \<le> 0xDFFF then (encodeUtf16EscapeSequence ch, width)
     else if ch = 0 then
       (if 1 < length s \<and> IsDigit (rune_of (s ! 1)) then (CHR 0x5C # ''x00'', width)
        else ([CHR 0x5C, CHR ''0''], width))
     else (case escapedCharsMap ch of
         Some match \<Rightarrow> (match, width) | None \<Rightarrow> (encodeUtf16EscapeSequence ch, width)))"

lemma escape_text_size: "snd d \<le> snd (escape_text q flags s (fst d) (snd d))"
  by (auto simp: escape_text_def split: option.split)

text \<open>
  The loop of \<open>escapeStringWorker\<close>: \<open>pos\<close> is where the text not yet written to \<open>b\<close> begins.
\<close>

function (sequential) escape_loop ::
    "rune \<Rightarrow> getLiteralTextFlags \<Rightarrow> string \<Rightarrow> nat \<Rightarrow> nat \<Rightarrow> string \<Rightarrow> string" where
  "escape_loop quoteChar flags s pos i b =
    (if i < length s then
       let d = DecodeJSStringRune (drop i s) in
       if must_escape quoteChar flags (drop i s) (fst d) (snd d) then
         (let b = (if pos < i then b @ slc s pos i else b);
              e = escape_text quoteChar flags (drop i s) (fst d) (snd d);
              i' = i + snd e
          in escape_loop quoteChar flags s i' i' (b @ fst e))
       else escape_loop quoteChar flags s pos (i + snd d) b
     else if pos < i then b @ drop pos s else b)"
  by pat_completeness auto
termination
proof (relation "measure (\<lambda>(_, _, s, _, i, _). length s - i)", goal_cases)
  case (2 q flags s pos i b d)
  then have "0 < snd d" by (simp add: DecodeJSStringRune_size_pos)
  with 2 escape_text_size [of d q flags "drop i s"] show ?case by simp
next
  case (3 q flags s pos i b d)
  then have "0 < snd d" by (simp add: DecodeJSStringRune_size_pos)
  with 3 show ?case by simp
qed simp

declare escape_loop.simps [simp del]

definition escapeStringWorker :: "string \<Rightarrow> rune \<Rightarrow> getLiteralTextFlags \<Rightarrow> string \<Rightarrow> string" where
  "escapeStringWorker s quoteChar flags b = escape_loop quoteChar flags s 0 0 b"

definition EscapeString :: "string \<Rightarrow> rune \<Rightarrow> string" where
  "EscapeString s quoteChar = escapeStringWorker s quoteChar getLiteralTextFlagsNeverAsciiEscape []"

definition escapeNonAsciiString :: "string \<Rightarrow> rune \<Rightarrow> string" where
  "escapeNonAsciiString s quoteChar = escapeStringWorker s quoteChar getLiteralTextFlagsNone []"

definition escapeJsxAttributeString :: "string \<Rightarrow> rune \<Rightarrow> string" where
  "escapeJsxAttributeString s quoteChar =
    escapeStringWorker s quoteChar
      (getLiteralTextFlagsJsxAttributeEscape OR getLiteralTextFlagsNeverAsciiEscape) []"

section \<open>The text as a function of the rest\<close>

text \<open>The same text without the buffer and the positions.\<close>

function (sequential) escaped :: "rune \<Rightarrow> getLiteralTextFlags \<Rightarrow> string \<Rightarrow> string" where
  "escaped q flags s =
    (if s = [] then []
     else
       let d = DecodeJSStringRune s; e = escape_text q flags s (fst d) (snd d) in
       if must_escape q flags s (fst d) (snd d) then fst e @ escaped q flags (drop (snd e) s)
       else take (snd d) s @ escaped q flags (drop (snd d) s))"
  by pat_completeness auto
termination
proof (relation "measure (\<lambda>(_, _, s). length s)", goal_cases)
  case (2 q flags s d e)
  then have "0 < snd d" by (simp add: DecodeJSStringRune_size_pos)
  with 2 escape_text_size [of d q flags s] show ?case by simp
next
  case (3 q flags s d e)
  then show ?case by (simp add: DecodeJSStringRune_size_pos)
qed simp

declare escaped.simps [simp del]

lemma escape_text_bound:
  assumes d: "d = DecodeJSStringRune s"
  shows "snd (escape_text q flags s (fst d) (snd d)) \<le> length s"
proof (cases "fst d = 0x0D \<and> 1 < length s")
  case True
  then have "snd d = 1" using DecodeJSStringRune_ascii [of s] by (auto simp: d)
  then have "snd (escape_text q flags s (fst d) (snd d)) \<le> 2"
    by (auto simp: escape_text_def split: option.split)
  then show ?thesis using True by simp
next
  case False
  then have "snd (escape_text q flags s (fst d) (snd d)) = snd d"
    by (auto simp: escape_text_def split: option.split)
  then show ?thesis by (simp add: d)
qed

lemma escape_loop_escaped:
  assumes "pos \<le> i" "i \<le> length s"
  shows "escape_loop q flags s pos i b = b @ slc s pos i @ escaped q flags (drop i s)"
  using assms
proof (induction "length s - i" arbitrary: pos i b rule: less_induct)
  case less
  define d where "d = DecodeJSStringRune (drop i s)"
  define e where "e = escape_text q flags (drop i s) (fst d) (snd d)"
  show ?case
  proof (cases "i < length s")
    case False
    then show ?thesis using less.prems
      by (subst escape_loop.simps) (auto simp: escaped.simps slc_to_end)
  next
    case i: True
    have dle: "i + snd d \<le> length s" using DecodeJSStringRune_size_le [of "drop i s"] i by (simp add: d_def)
    have dpos: "0 < snd d" using DecodeJSStringRune_size_pos [of "drop i s"] i by (simp add: d_def)
    then have epos: "0 < snd e" using escape_text_size [of d q flags "drop i s"] by (simp add: e_def)
    have ele: "i + snd e \<le> length s"
      using escape_text_bound [OF d_def, of q flags] i by (simp add: e_def)
    have u: "escape_loop q flags s pos i b =
        (if must_escape q flags (drop i s) (fst d) (snd d)
         then escape_loop q flags s (i + snd e) (i + snd e) ((if pos < i then b @ slc s pos i else b) @ fst e)
         else escape_loop q flags s pos (i + snd d) b)"
      unfolding d_def e_def by (subst escape_loop.simps) (simp only: i if_True Let_def)
    have v: "escaped q flags (drop i s) =
        (if must_escape q flags (drop i s) (fst d) (snd d)
         then fst e @ escaped q flags (drop (i + snd e) s)
         else take (snd d) (drop i s) @ escaped q flags (drop (i + snd d) s))"
      using i by (subst escaped.simps) (simp add: d_def e_def Let_def add.commute)
    show ?thesis
    proof (cases "must_escape q flags (drop i s) (fst d) (snd d)")
      case True
      have "escape_loop q flags s (i + snd e) (i + snd e) ((if pos < i then b @ slc s pos i else b) @ fst e)
        = ((if pos < i then b @ slc s pos i else b) @ fst e) @ slc s (i + snd e) (i + snd e)
          @ escaped q flags (drop (i + snd e) s)"
        using less.hyps [of "i + snd e" "i + snd e"] i ele epos by simp
      then show ?thesis
        using True less.prems unfolding u v by simp
    next
      case False
      have "escape_loop q flags s pos (i + snd d) b
        = b @ slc s pos (i + snd d) @ escaped q flags (drop (i + snd d) s)"
        using less.hyps [of "i + snd d" pos b] i dle dpos less.prems by simp
      moreover have "slc s pos (i + snd d) = slc s pos i @ take (snd d) (drop i s)"
        using less.prems slc_append [of pos i "i + snd d" s] by (simp add: slc_def)
      ultimately show ?thesis
        using False unfolding u v by simp
    qed
  qed
qed

lemma worker_escaped: "escapeStringWorker s q flags b = b @ escaped q flags s"
  by (simp add: escapeStringWorker_def escape_loop_escaped)

end
