(* ===== verification/PrinterScan.thy ===== *)
theory PrinterScan
  imports PrinterEscape ScannerText
begin

text \<open>
  The escapes of the printer read by the scanner: \<open>scanString\<close> gives the string back that
  \<open>EscapeString\<close> or \<open>escapeNonAsciiString\<close> wrote between the quotes.
\<close>

declare advance_def [simp del]

section \<open>Reading a known text\<close>

definition reading :: "Scanner \<Rightarrow> string \<Rightarrow> bool" where
  "reading s xs \<longleftrightarrow> s_pos s \<le> s_end s \<and> s_end s = length (s_text s) \<and> drop (s_pos s) (s_text s) = xs"

definition hex_text :: "string \<Rightarrow> bool" where
  "hex_text ds \<longleftrightarrow> list_all (\<lambda>c. IsHexDigit (rune_of c)) ds"

text \<open>The cache of \<open>scanHexDigits\<close> holds nothing wrong.\<close>

definition hex_cache_ok :: "Scanner \<Rightarrow> bool" where
  "hex_cache_ok s \<longleftrightarrow> list_all (\<lambda>(d, l). hex_text d \<longrightarrow> l = ToLowerAscii d) (s_hexDigitCache s)"

text \<open>The scanner has moved by \<open>n\<close> bytes without an error.\<close>

definition moved :: "Scanner \<Rightarrow> nat \<Rightarrow> Scanner \<Rightarrow> bool" where
  "moved s n t \<longleftrightarrow> s_pos t = s_pos s + n \<and> s_text t = s_text s \<and> s_end t = s_end s
    \<and> s_errors t = s_errors s \<and> s_panicked t = s_panicked s
    \<and> hasFlag t TokenFlagsUnterminated = hasFlag s TokenFlagsUnterminated
    \<and> (hex_cache_ok s \<longrightarrow> hex_cache_ok t)"

lemma moved_refl [simp]: "moved s 0 s"
  by (simp add: moved_def)

lemma moved_trans: "moved s n t \<Longrightarrow> moved t m u \<Longrightarrow> moved s (n + m) u"
  by (simp add: moved_def)

lemma advance_fields [simp]:
  "s_pos (advance n s) = s_pos s + n" "s_text (advance n s) = s_text s" "s_end (advance n s) = s_end s"
  "s_hexDigitCache (advance n s) = s_hexDigitCache s"
  by (simp_all add: advance_def)

lemma advance_advance [simp]: "advance m (advance n s) = advance (n + m) s"
  by (simp add: advance_def add.assoc)

lemma moved_advance [simp]: "moved s n (advance n s)"
  by (simp add: moved_def hasFlag_def hex_cache_ok_def advance_def)

lemma moved_cache: "moved s n t \<Longrightarrow> hex_cache_ok s \<Longrightarrow> hex_cache_ok t"
  by (simp add: moved_def)

lemma reading_moved:
  assumes "reading s (xs @ ys)" "moved s (length xs) t"
  shows "reading t ys"
proof -
  have d: "drop (s_pos s) (s_text s) = xs @ ys" and e: "s_end s = length (s_text s)" "s_pos s \<le> s_end s"
    using assms(1) by (simp_all add: reading_def)
  then have "length xs \<le> length (s_text s) - s_pos s" by (simp flip: length_drop)
  moreover have "drop (s_pos s + length xs) (s_text s) = ys"
    using arg_cong [OF d, of "drop (length xs)"] by (simp add: add.commute)
  ultimately show ?thesis using assms(2) e by (simp add: reading_def moved_def)
qed

lemma reading_step: "reading s (c # xs) \<Longrightarrow> reading (advance (Suc 0) s) xs"
  using reading_moved [of s "[c]" xs "advance (Suc 0) s"] by simp

lemma reading_step2: "reading s (c # d # xs) \<Longrightarrow> reading (advance 2 s) xs"
  using reading_step [OF reading_step, of s c d xs] by (simp add: numeral_2_eq_2)

lemma reading_char: "reading s (c # xs) \<Longrightarrow> s_char s = rune_of c"
  by (auto simp: reading_def s_char_def nth_via_drop dest: arg_cong [of _ _ length])

lemma reading_charAt1: "reading s (c # d # xs) \<Longrightarrow> charAt s 1 = rune_of d"
  using reading_char [OF reading_step, of s c d xs] by (simp add: s_char_def charAt_def split: if_splits)

lemma reading_slc: "reading s (xs @ ys) \<Longrightarrow> slc (s_text s) (s_pos s) (s_pos s + length xs) = xs"
  by (auto simp: reading_def slc_def)

section \<open>Hexadecimal digits\<close>

lemma hexDigits_loop_text:
  assumes "hex_text ds" "reading s (ds @ rest)" "k + length ds = m"
  shows "hexDigits_loop m False False k False False s = (m, False, advance (length ds) s)"
  using assms
proof (induction ds arbitrary: k s)
  case Nil
  then show ?case by (subst hexDigits_loop.simps) (simp add: advance_def)
next
  case (Cons c ds)
  have "hexDigits_loop m False False (Suc k) False False (advance 1 s) = (m, False, advance (length ds) (advance 1 s))"
    using Cons.prems by (intro Cons.IH) (auto simp: hex_text_def intro: reading_step simp del: advance_advance)
  then show ?case
    using Cons.prems reading_char [of s c] by (subst hexDigits_loop.simps) (simp add: hex_text_def)
qed

lemma hex_text_no_separator: "hex_text ds \<Longrightarrow> strip_separators ds = ds"
  by (auto simp: strip_separators_def hex_text_def list_all_iff IsHexDigit_def intro!: filter_True)

lemma scanHexDigits_text:
  assumes "hex_text ds" "reading s (ds @ rest)" "hex_cache_ok s" "ds \<noteq> []"
  obtains t where "scanHexDigits (length ds) False False s = (ToLowerAscii ds, t)" "moved s (length ds) t"
proof -
  have l: "hexDigits_loop (length ds) False False 0 False False s = (length ds, False, advance (length ds) s)"
    using assms by (intro hexDigits_loop_text) auto
  note eq = reading_slc [OF assms(2)] hex_text_no_separator [OF assms(1)]
  show ?thesis
  proof (cases "map_of (s_hexDigitCache s) ds")
    case None
    let ?t = "advance (length ds) s"
    have "scanHexDigits (length ds) False False s =
        (ToLowerAscii ds, ?t\<lparr>s_hexDigitCache := (ds, ToLowerAscii ds) # s_hexDigitCache ?t\<rparr>)"
      using None by (simp add: scanHexDigits_def l eq Let_def)
    moreover have "moved s (length ds) (?t\<lparr>s_hexDigitCache := (ds, ToLowerAscii ds) # s_hexDigitCache ?t\<rparr>)"
      by (simp add: moved_def hasFlag_def hex_cache_ok_def advance_def)
    ultimately show ?thesis by (rule that)
  next
    case (Some l)
    then have "l = ToLowerAscii ds"
      using assms(1,3) map_of_SomeD [OF Some] by (auto simp: hex_cache_ok_def list_all_iff)
    then have "scanHexDigits (length ds) False False s = (ToLowerAscii ds, advance (length ds) s)"
      using Some by (simp add: scanHexDigits_def l eq)
    then show ?thesis using moved_advance by (rule that)
  qed
qed

lemma val_of_lower: "IsHexDigit (rune_of c) \<Longrightarrow> val_of (ascii_lower c) = val_of c"
proof (cases "65 \<le> rune_of c \<and> rune_of c \<le> 90")
  case True
  assume "IsHexDigit (rune_of c)"
  with True have "rune_of c \<le> 70" by (auto simp: IsHexDigit_def)
  moreover have "rune_of (byte_of (rune_of c + 32)) = rune_of c + 32" by (rule of_char_byte_of) (use True in auto)
  ultimately show ?thesis using True by (simp add: ascii_lower_def val_of_def digit_val_def del: of_char_byte_of)
next
  case False
  then have "ascii_lower c = c" unfolding ascii_lower_def by (rule if_not_P)
  then show ?thesis by simp
qed

lemma value_lower: "hex_text ds \<Longrightarrow> value_in_base 16 (ToLowerAscii ds) = value_in_base 16 ds"
proof (induction ds)
  case (Cons c ds)
  then have "IsHexDigit (rune_of c)" "value_in_base 16 (ToLowerAscii ds) = value_in_base 16 ds"
    by (simp_all add: hex_text_def)
  then show ?case using val_of_lower [of c]
    by (simp only: ToLowerAscii_def list.map value_Cons length_map)
qed (simp add: ToLowerAscii_def)

lemma of_char_char_of_nat: "n < 256 \<Longrightarrow> rune_of (char_of n) = int n"
  by (metis mod_less of_char_of of_nat_of_char)

lemma upper_digit_hex: "d < 16 \<Longrightarrow> IsHexDigit (rune_of (upper_digit d)) \<and> val_of (upper_digit d) = d"
  by (cases "d < 10") (auto simp: upper_digit_def val_of_def digit_val_def IsHexDigit_def Let_def of_char_char_of_nat)

lemma hex_of_nat_text: "hex_text (hex_of_nat n) \<and> value_in_base 16 (hex_of_nat n) = n"
proof (induction n rule: hex_of_nat.induct)
  case (1 n)
  then show ?case
    by (subst (1 2) hex_of_nat.simps) (auto simp: upper_digit_hex hex_text_def value_append value_Cons)
qed

lemma hex_of_nat_length: "n < 16 ^ k \<Longrightarrow> 0 < k \<Longrightarrow> length (hex_of_nat n) \<le> k"
proof (induction k arbitrary: n)
  case (Suc k)
  show ?case
  proof (cases "n < 16")
    case True
    then show ?thesis by (subst hex_of_nat.simps) simp
  next
    case False
    then have "0 < k" using Suc.prems by (cases k) auto
    then show ?thesis using False Suc.prems Suc.IH [of "n div 16"] by (subst hex_of_nat.simps) simp
  qed
qed simp

definition hex4 :: "rune \<Rightarrow> string" where
  "hex4 v = replicate (4 - length (hex_of_nat (nat v))) (CHR ''0'') @ hex_of_nat (nat v)"

lemma encode_hex4: "encodeUtf16EscapeSequence v = CHR 0x5C # CHR ''u'' # hex4 v"
  by (simp add: encodeUtf16EscapeSequence_def hex4_def Let_def)

lemma hex4:
  assumes "0 \<le> v" "v < 0x10000"
  shows "length (hex4 v) = 4" "hex_text (hex4 v)" "int (value_in_base 16 (hex4 v)) = v"
proof -
  have n: "nat v < 16 ^ 4" using assms by simp
  have l: "length (hex_of_nat (nat v)) \<le> 4" by (rule hex_of_nat_length [OF n]) simp
  then show "length (hex4 v) = 4" by (simp add: hex4_def)
  show "hex_text (hex4 v)"
    using hex_of_nat_text [of "nat v"] by (auto simp: hex4_def hex_text_def list_all_iff IsHexDigit_def)
  have "value_in_base 16 (replicate k (CHR ''0'')) = 0" for k
    by (induction k) (simp_all add: value_Cons val_of_def digit_val_def)
  then show "int (value_in_base 16 (hex4 v)) = v"
    using hex_of_nat_text [of "nat v"] assms by (simp add: hex4_def value_append)
qed

section \<open>Escape sequences\<close>

lemma moved_flag:
  assumes "f = TokenFlagsUnicodeEscape \<or> f = TokenFlagsHexEscape \<or> f = TokenFlagsSingleQuote"
  shows "moved s 0 (addFlag f s)"
  using assms by (auto simp: moved_def hasFlag_def hex_cache_ok_def bit.conj_disj_distrib2)

lemma reading_flag [simp]: "reading (s\<lparr>s_tokenFlags := f\<rparr>) xs = reading s xs"
  by (simp add: reading_def)

lemma cache_flag [simp]: "hex_cache_ok (s\<lparr>s_tokenFlags := f\<rparr>) = hex_cache_ok s" "hex_cache_ok (advance n s) = hex_cache_ok s"
  by (simp_all add: hex_cache_ok_def advance_def)

lemma hex_digit_not_brace: "IsHexDigit (rune_of c) \<Longrightarrow> rune_of c \<noteq> 0x7B"
  by (auto simp: IsHexDigit_def)

lemma scanUnicodeEscape_text:
  assumes v: "0 \<le> v" "v < 0x10000" and r: "reading s (encodeUtf16EscapeSequence v @ rest)" and c: "hex_cache_ok s"
  obtains t where "scanUnicodeEscape e s = (v, t)" "moved s 6 t"
proof -
  let ?a = "advance 2 s" and ?ds = "hex4 v"
  have r2: "reading ?a (?ds @ rest)"
    using r by (auto simp: encode_hex4 intro: reading_step2)
  obtain d ds where ds: "?ds = d # ds" using hex4(1) [OF v] by (cases ?ds) auto
  then have nb: "s_char ?a \<noteq> 0x7B"
    using reading_char [of ?a d "ds @ rest"] r2 hex4(2) [OF v] hex_digit_not_brace [of d] by (simp add: hex_text_def)
  let ?b = "addFlag TokenFlagsUnicodeEscape ?a"
  have "reading ?b (?ds @ rest)" "hex_cache_ok ?b" "?ds \<noteq> []" using r2 c ds by simp_all
  then obtain t where t: "scanHexDigits (length ?ds) False False ?b = (ToLowerAscii ?ds, t)" "moved ?b (length ?ds) t"
    by (rule scanHexDigits_text [OF hex4(2) [OF v]])
  have "ToLowerAscii ?ds \<noteq> []" by (simp add: ToLowerAscii_def ds)
  moreover have "parseHex32 (ToLowerAscii ?ds) = v"
    using value_lower [OF hex4(2) [OF v]] hex4(3) [OF v] v by (simp add: parseHex32_def)
  ultimately have "scanUnicodeEscape e s = (v, t)"
    using t(1) nb hex4(1) [OF v] by (simp add: scanUnicodeEscape_def unicodeEscape_digits_def Let_def)
  moreover have "moved s (2 + 0 + 4) t"
    using moved_trans [OF moved_trans [OF moved_advance [of s 2] moved_flag] t(2)] hex4(1) [OF v] by simp
  ultimately show ?thesis using that by simp
qed

text \<open>What follows a high surrogate: no escape of a low surrogate, or one.\<close>

definition no_low_escape :: "string \<Rightarrow> bool" where
  "no_low_escape xs \<longleftrightarrow> \<not> (take 2 xs = [CHR 0x5C, CHR ''u''])
    \<or> (\<exists>w rest. 0 \<le> w \<and> w < 0x10000 \<and> \<not> IsLowSurrogate w \<and> xs = encodeUtf16EscapeSequence w @ rest)"

lemma of_char_eq_iff: "0 \<le> n \<Longrightarrow> n < 256 \<Longrightarrow> (of_char c = (n::int)) = (c = byte_of n)"
  using byte_of_eq_iff by fastforce

lemma byte_constants: "byte_of 0x5C = CHR 0x5C" "byte_of 0x75 = CHR ''u''"
  by (simp_all add: byte_of_def char_of_def)

lemma scanLowSurrogateEscape_none:
  assumes "no_low_escape xs" "reading s xs" "xs \<noteq> []" "hex_cache_ok s"
  obtains t where "scanLowSurrogateEscape h s = (None, t)" "moved s 0 t"
proof (cases "take 2 xs = [CHR 0x5C, CHR ''u'']")
  case False
  have "s_char s \<noteq> 0x5C \<or> charAt s 1 \<noteq> 0x75"
  proof (cases xs)
    case (Cons a t)
    show ?thesis
    proof (cases t)
      case Nil
      then have "charAt s 1 = -1" using assms(2) Cons by (auto simp: charAt_def reading_def dest: arg_cong [of _ _ length])
      then show ?thesis by simp
    next
      case (Cons b u)
      then show ?thesis
        using reading_char [of s a t] reading_charAt1 [of s a b u] assms(2) \<open>xs = a # t\<close> False
        by (auto simp: of_char_eq_iff byte_constants)
    qed
  qed (use assms in simp)
  then have "scanLowSurrogateEscape h s = (None, s)" by (simp add: scanLowSurrogateEscape_def)
  then show ?thesis using moved_refl by (rule that)
next
  case True
  then obtain w rest where w: "0 \<le> w" "w < 0x10000" "\<not> IsLowSurrogate w" "xs = encodeUtf16EscapeSequence w @ rest"
    using assms(1) by (auto simp: no_low_escape_def)
  obtain t where t: "scanUnicodeEscape False s = (w, t)" "moved s 6 t"
    using scanUnicodeEscape_text [OF w(1,2) assms(2) [unfolded w(4)] assms(4)] .
  then have "scanLowSurrogateEscape h s = (None, s) \<or> scanLowSurrogateEscape h s = (None, restorePos s t)"
    using w(3) by (simp add: scanLowSurrogateEscape_def)
  moreover have "moved s 0 (restorePos s t)"
    using t(2) by (simp add: moved_def restorePos_def hasFlag_def hex_cache_ok_def)
  ultimately show ?thesis using that moved_refl by blast
qed

lemma reading_encode:
  assumes "reading s (encodeUtf16EscapeSequence v @ rest)"
  shows "s_char s = 0x5C" "charAt s 1 = 0x75"
  using assms reading_char [of s] reading_charAt1 [of s] by (auto simp: encode_hex4)

lemma scanLowSurrogateEscape_some:
  assumes "IsLowSurrogate w" "reading s (encodeUtf16EscapeSequence w @ rest)" "hex_cache_ok s"
  obtains t where "scanLowSurrogateEscape h s = (Some (SurrogatePairToCodePoint h w), t)" "moved s 6 t"
proof -
  have "0 \<le> w" "w < 0x10000" using assms(1) by (auto simp: IsLowSurrogate_def utf16_IsSurrogate_def)
  then obtain t where t: "scanUnicodeEscape False s = (w, t)" "moved s 6 t"
    using scanUnicodeEscape_text assms(2,3) by metis
  then have "scanLowSurrogateEscape h s = (Some (SurrogatePairToCodePoint h w), t)"
    using reading_encode [OF assms(2)] assms(1) by (simp add: scanLowSurrogateEscape_def)
  then show ?thesis using t(2) by (rule that)
qed

abbreviation (input) string_flags :: EscapeSequenceScanningFlags where
  "string_flags \<equiv> EscapeFlagsString OR EscapeFlagsReportErrors"

lemma scanEscapeSequence_u:
  assumes "s_char (advance 1 s) = 0x75"
  shows "scanEscapeSequence string_flags s = escape_u string_flags (s_pos s) (advance 2 s)"
  using assms by (simp add: scanEscapeSequence_def Let_def numeral_2_eq_2)

lemma escape_u_text:
  assumes "0 \<le> v" "v < 0x10000" "reading s (encodeUtf16EscapeSequence v @ rest)" "hex_cache_ok s"
  obtains t where "moved s 6 t" "scanEscapeSequence string_flags s =
    (if IsHighSurrogate v then escape_combine v t else (EncodeJSStringRune v, t))"
proof -
  obtain t where t: "scanUnicodeEscape (hasEsc string_flags EscapeFlagsReportInvalidEscapeErrors) s = (v, t)" "moved s 6 t"
    using scanUnicodeEscape_text [OF assms] .
  have bk: "(advance 2 s)\<lparr>s_pos := s_pos (advance 2 s) - 2\<rparr> = s" by (simp add: advance_def)
  have r1: "reading (advance 2 s) (hex4 v @ rest)"
    using assms(3) by (auto simp: encode_hex4 intro: reading_step2)
  obtain d ds where ds: "hex4 v = d # ds" using hex4(1) [OF assms(1,2)] by (cases "hex4 v") auto
  then have nb: "s_char (advance 2 s) \<noteq> 0x7B"
    using reading_char [of "advance 2 s" d "ds @ rest"] r1 hex4(2) [OF assms(1,2)] hex_digit_not_brace [of d]
    by (simp add: hex_text_def)
  have c: "s_char (advance 1 s) = 0x75"
    using reading_encode(2) [OF assms(3)] by (simp add: charAt_def s_char_def split: if_splits)
  have "escape_u string_flags (s_pos s) (advance 2 s) =
    (if IsHighSurrogate v then escape_combine v t else (EncodeJSStringRune v, t))"
    unfolding escape_u_def Let_def bk using t(1) nb assms(1) by (simp add: hasEsc_def)
  then show ?thesis using that t(2) unfolding scanEscapeSequence_u [OF c] by blast
qed

text \<open>The escapes of two characters, with what they stand for.\<close>

definition simple_escapes :: "(char \<times> rune) list" where
  "simple_escapes =
    [(CHR ''t'', 0x09), (CHR ''v'', 0x0B), (CHR ''f'', 0x0C), (CHR ''b'', 0x08), (CHR ''r'', 0x0D),
     (CHR ''n'', 0x0A), (CHR 0x5C, 0x5C), (CHR 0x22, 0x22), (CHR 0x27, 0x27), (CHR 0x60, 0x60),
     (CHR ''$'', 0x24)]"

lemma advance_Suc [simp]:
  "advance (Suc (Suc 0)) s = advance 2 s" "advance (Suc 2) s = advance 3 s" "advance (Suc 3) s = advance 4 s"
  by (simp_all add: eval_nat_numeral)

lemma EncodeJSStringRune_ascii: "0 \<le> v \<Longrightarrow> v < 0x80 \<Longrightarrow> EncodeJSStringRune v = [byte_of v]"
  by (simp add: EncodeJSStringRune_def IsSurrogate_def utf16_IsSurrogate_def EncodeRune_ascii)

lemma byte_simple:
  "byte_of 0 = CHR 0x00" "byte_of 9 = CHR 0x09" "byte_of 11 = CHR 0x0B" "byte_of 12 = CHR 0x0C" "byte_of 8 = CHR 0x08"
  "byte_of 13 = CHR 0x0D" "byte_of 10 = CHR 0x0A" "byte_of 34 = CHR 0x22" "byte_of 39 = CHR 0x27"
  "byte_of 96 = CHR 0x60" "byte_of 36 = CHR ''$''" "byte_of 92 = CHR 0x5C"
  by (simp_all add: byte_of_def char_of_def)

lemma scanEscapeSequence_other:
  assumes "s_char (advance (Suc 0) s) = v" "v \<in> {0x5C, 0x60, 0x24}"
  shows "scanEscapeSequence string_flags s = (EncodeRune v, advance 2 s)"
proof -
  have "\<not> hasEsc string_flags EscapeFlagsAnyUnicodeMode" "\<not> hasEsc string_flags EscapeFlagsRegularExpression"
    by (simp_all add: hasEsc_def)
  then show ?thesis
    using assms by (elim insertE) (simp_all add: scanEscapeSequence_def escape_other_def Let_def)
qed

lemma scanEscapeSequence_simple:
  assumes "reading s (CHR 0x5C # c # rest)" "(c, v) \<in> set simple_escapes"
  shows "scanEscapeSequence string_flags s = (EncodeJSStringRune v, advance 2 s)"
proof -
  have c: "s_char (advance (Suc 0) s) = rune_of c"
    using reading_char [OF reading_step [OF assms(1)]] .
  show ?thesis
  proof (cases "v \<in> {0x5C, 0x60, 0x24}")
    case True
    then have "rune_of c = v" using assms(2) by (auto simp: simple_escapes_def)
    with c True have "scanEscapeSequence string_flags s = (EncodeRune v, advance 2 s)"
      by (intro scanEscapeSequence_other) simp_all
    then show ?thesis using True by (auto simp: EncodeJSStringRune_def IsSurrogate_def utf16_IsSurrogate_def)
  next
    case False
    then have "(c, v) \<in> {(CHR ''t'', 0x09), (CHR ''v'', 0x0B), (CHR ''f'', 0x0C), (CHR ''b'', 0x08),
        (CHR ''r'', 0x0D), (CHR ''n'', 0x0A), (CHR 0x22, 0x22), (CHR 0x27, 0x27)}"
      using assms(2) by (auto simp: simple_escapes_def)
    then show ?thesis
      using c by (elim insertE) (simp_all add: scanEscapeSequence_def EncodeJSStringRune_ascii byte_simple Let_def)
  qed
qed

lemma scanEscapeSequence_null:
  assumes "reading s (CHR 0x5C # CHR ''0'' # c # rest)" "\<not> IsDigit (rune_of c)"
  shows "scanEscapeSequence string_flags s = (EncodeJSStringRune 0, advance 2 s)"
proof -
  have "s_char (advance (Suc 0) s) = 0x30"
    using reading_char [OF reading_step [OF assms(1)]] by simp
  moreover have "\<not> IsDigit (s_char (advance 2 s))"
    using reading_char [OF reading_step2 [OF assms(1)]] assms(2) by simp
  ultimately show ?thesis
    by (simp add: scanEscapeSequence_def Let_def EncodeJSStringRune_ascii byte_simple)
qed

lemma scanEscapeSequence_x00:
  assumes "reading s (CHR 0x5C # ''x00'' @ rest)"
  obtains t where "scanEscapeSequence string_flags s = (EncodeJSStringRune 0, t)" "moved s 4 t"
proof -
  have r: "reading s (CHR 0x5C # CHR ''x'' # CHR ''0'' # CHR ''0'' # rest)" using assms by simp
  have c1: "s_char (advance (Suc 0) s) = 0x78"
    using reading_char [OF reading_step [OF r]] by simp
  have r2: "reading (advance 2 s) (CHR ''0'' # CHR ''0'' # rest)" by (rule reading_step2 [OF r])
  have d: "s_char (advance 2 s) = 0x30" "s_char (advance 3 s) = 0x30"
    using reading_char [OF r2] reading_char [OF reading_step [OF r2]] by simp_all
  have l: "hexEscape_loop (s_pos s + 4 - s_pos (advance 2 s)) (advance 2 s) = (True, advance 4 s)"
  proof -
    have "s_pos s + 4 - s_pos (advance 2 s) = Suc (Suc 0)" by simp
    moreover have "advance (Suc 0) (advance 2 s) = advance 3 s" "advance (Suc 0) (advance 3 s) = advance 4 s" by simp_all
    ultimately show ?thesis using d by (simp add: IsHexDigit_def del: advance_advance advance_fields)
  qed
  have "slc (s_text s) (s_pos s + 2) (s_pos s + 4) = ''00''"
  proof -
    have "reading (advance 2 s) (''00'' @ rest)" using r2 by simp
    from reading_slc [OF this] show ?thesis by (simp add: eval_nat_numeral del: advance_Suc)
  qed
  then have "int (value_in_base 16 (slc (s_text (advance 4 s)) (s_pos s + 2) (s_pos (advance 4 s)))) = 0"
    by (simp add: value_Cons val_of_def digit_val_def)
  then have "scanEscapeSequence string_flags s = (EncodeRune 0, addFlag TokenFlagsHexEscape (advance 4 s))"
    using c1 l by (simp add: scanEscapeSequence_def escape_x_def Let_def)
  moreover have "EncodeRune 0 = EncodeJSStringRune 0" by (simp add: EncodeJSStringRune_def IsSurrogate_def utf16_IsSurrogate_def)
  moreover have "moved s 4 (addFlag TokenFlagsHexEscape (advance 4 s))"
    using moved_trans [OF moved_advance [of s 4] moved_flag [of TokenFlagsHexEscape "advance 4 s"]] by simp
  ultimately show ?thesis using that by simp
qed

section \<open>The shape of an escape\<close>

text \<open>What the worker writes for a character outside JSX attributes and templates.\<close>

datatype escape_shape = Simple char | Unit | Pair rune rune | Null | NullHex

fun shape_text :: "rune \<Rightarrow> escape_shape \<Rightarrow> string" where
  "shape_text ch (Simple c) = [CHR 0x5C, c]"
| "shape_text ch Unit = encodeUtf16EscapeSequence ch"
| "shape_text ch (Pair hi lo) = encodeUtf16EscapeSequence hi @ encodeUtf16EscapeSequence lo"
| "shape_text ch Null = [CHR 0x5C, CHR ''0'']"
| "shape_text ch NullHex = CHR 0x5C # ''x00''"

fun shape_fits :: "rune \<Rightarrow> string \<Rightarrow> escape_shape \<Rightarrow> bool" where
  "shape_fits ch s (Simple c) = ((c, ch) \<in> set simple_escapes)"
| "shape_fits ch s Unit = (0 \<le> ch \<and> ch < 0x10000)"
| "shape_fits ch s (Pair hi lo) = (IsHighSurrogate hi \<and> IsLowSurrogate lo \<and> SurrogatePairToCodePoint hi lo = ch)"
| "shape_fits ch s Null = (ch = 0 \<and> \<not> (1 < length s \<and> IsDigit (rune_of (s ! 1))))"
| "shape_fits ch s NullHex = (ch = 0)"

definition escape_kind :: "string \<Rightarrow> escape_shape" where
  "escape_kind m = (if length m = 2 then Simple (m ! 1) else Unit)"

lemma encode_separators:
  "encodeUtf16EscapeSequence 0x2028 = CHR 0x5C # ''u2028''" "encodeUtf16EscapeSequence 0x2029 = CHR 0x5C # ''u2029''"
  "encodeUtf16EscapeSequence 0x85 = CHR 0x5C # ''u0085''"
  by (simp_all add: encodeUtf16EscapeSequence_def hex_of_nat.simps upper_digit_def char_of_def bit_0)
    (simp add: numeral_2_eq_2)

lemma escapedCharsMap_shape:
  assumes "escapedCharsMap ch = Some m"
  shows "m = shape_text ch (escape_kind m) \<and> shape_fits ch s (escape_kind m)"
proof -
  let ?table = "[(0x09, [CHR 0x5C, CHR ''t'']), (0x0B, [CHR 0x5C, CHR ''v'']), (0x0C, [CHR 0x5C, CHR ''f'']),
     (0x08, [CHR 0x5C, CHR ''b'']), (0x0D, [CHR 0x5C, CHR ''r'']), (0x0A, [CHR 0x5C, CHR ''n'']),
     (0x5C, [CHR 0x5C, CHR 0x5C]), (0x22, [CHR 0x5C, CHR 0x22]), (0x27, [CHR 0x5C, CHR 0x27]),
     (0x60, [CHR 0x5C, CHR 0x60]), (0x24, [CHR 0x5C, CHR ''$'']),
     (0x2028, CHR 0x5C # ''u2028''), (0x2029, CHR 0x5C # ''u2029''), (0x85, CHR 0x5C # ''u0085'')] :: (rune \<times> string) list"
  have "list_all (\<lambda>(ch, m). m = shape_text ch (escape_kind m) \<and> shape_fits ch s (escape_kind m)) ?table"
    by (simp add: escape_kind_def encode_separators simple_escapes_def)
  moreover have "(ch, m) \<in> set ?table"
    using assms unfolding escapedCharsMap_def by (rule map_of_SomeD)
  ultimately show ?thesis unfolding list_all_iff by blast
qed

lemma surrogate_halves:
  assumes "0xFFFF < ch" "ch \<le> 0x10FFFF"
  shows "IsHighSurrogate (drop_bit 10 ((ch - 0x10000) AND 0xFFC00) + 0xD800)"
    "IsLowSurrogate (((ch - 0x10000) AND 0x3FF) + 0xDC00)"
    "SurrogatePairToCodePoint (drop_bit 10 ((ch - 0x10000) AND 0xFFC00) + 0xD800) (((ch - 0x10000) AND 0x3FF) + 0xDC00) = ch"
proof -
  define x where "x = ch - 0x10000"
  have x: "0 \<le> x" "x < 0x100000" using assms by (simp_all add: x_def)
  have m: "y AND 0x3FF = y mod 1024" for y :: int
    using take_bit_eq_mask [of 10 y] by (simp add: take_bit_eq_mod mask_eq_exp_minus_1)
  have d: "drop_bit 10 (x AND 0xFFC00) = x div 1024"
  proof -
    have "drop_bit 10 (x AND 0xFFC00) = drop_bit 10 x AND 0x3FF" by simp
    also have "\<dots> = x div 1024 mod 1024" by (simp add: m drop_bit_eq_div)
    also have "\<dots> = x div 1024" using x by simp
    finally show ?thesis .
  qed
  have r: "0 \<le> x div 1024" "x div 1024 < 1024" "0 \<le> x mod 1024" "x mod 1024 < 1024" using x by auto
  show "IsHighSurrogate (drop_bit 10 ((ch - 0x10000) AND 0xFFC00) + 0xD800)"
    "IsLowSurrogate (((ch - 0x10000) AND 0x3FF) + 0xDC00)"
    using r unfolding x_def [symmetric] d m by (simp_all add: IsHighSurrogate_def IsLowSurrogate_def utf16_IsSurrogate_def)
  have "x div 1024 * 1024 + x mod 1024 = x" by simp
  then show "SurrogatePairToCodePoint (drop_bit 10 ((ch - 0x10000) AND 0xFFC00) + 0xD800)
      (((ch - 0x10000) AND 0x3FF) + 0xDC00) = ch"
    using r unfolding x_def [symmetric] d m
    by (simp add: SurrogatePairToCodePoint_def utf16_DecodeRune_def x_def)
qed

lemma escape_text_shape:
  assumes "\<not> hasLiteralFlag flags getLiteralTextFlagsJsxAttributeEscape" "q \<noteq> QuoteCharBacktick" "0 \<le> ch" "ch \<le> 0x10FFFF"
  shows "\<exists>k. escape_text q flags s ch n = (shape_text ch k, n) \<and> shape_fits ch s k"
proof -
  consider "0xFFFF < ch" | "0xD800 \<le> ch" "ch \<le> 0xDFFF" | "ch = 0" | "ch \<le> 0xFFFF" "\<not> (0xD800 \<le> ch \<and> ch \<le> 0xDFFF)" "ch \<noteq> 0"
    by linarith
  then show ?thesis
  proof cases
    case 1
    then show ?thesis using assms surrogate_halves [of ch]
      by (intro exI [of _ "Pair (drop_bit 10 ((ch - 0x10000) AND 0xFFC00) + 0xD800) (((ch - 0x10000) AND 0x3FF) + 0xDC00)"])
        (simp add: escape_text_def)
  next
    case 2
    then show ?thesis using assms by (intro exI [of _ Unit]) (simp add: escape_text_def)
  next
    case 3
    then show ?thesis using assms
      by (intro exI [of _ "if 1 < length s \<and> IsDigit (rune_of (s ! 1)) then NullHex else Null"])
        (simp add: escape_text_def)
  next
    case 4
    show ?thesis
    proof (cases "escapedCharsMap ch")
      case None
      then show ?thesis using 4 assms by (intro exI [of _ Unit]) (simp add: escape_text_def)
    next
      case (Some m)
      then show ?thesis using 4 assms escapedCharsMap_shape [OF Some, of s]
        by (intro exI [of _ "escape_kind m"]) (auto simp: escape_text_def)
    qed
  qed
qed

section \<open>Reading the escaped text\<close>

text \<open>
  The string that the scanner makes of the text: the halves of a pair are joined, and a stray byte
  is the replacement character.
\<close>

function (sequential) js_canonical :: "string \<Rightarrow> string" where
  "js_canonical s =
    (if s = [] then []
     else
       let d = DecodeJSStringRune s; low = DecodeJSStringRune (drop (snd d) s) in
       if IsHighSurrogate (fst d) \<and> IsLowSurrogate (fst low)
       then EncodeRune (SurrogatePairToCodePoint (fst d) (fst low)) @ js_canonical (drop (snd d + snd low) s)
       else EncodeJSStringRune (fst d) @ js_canonical (drop (snd d) s))"
  by pat_completeness auto
termination
  by (relation "measure length") (auto simp: DecodeJSStringRune_size_pos trans_less_add1)

declare js_canonical.simps [simp del]

lemma scan_shape:
  assumes "shape_fits ch s k" "reading S (shape_text ch k @ c # rest)" "hex_cache_ok S"
    and "k = Null \<Longrightarrow> \<not> IsDigit (rune_of c)"
    and "k = Unit \<Longrightarrow> IsHighSurrogate ch \<Longrightarrow> no_low_escape (c # rest)"
  obtains T where "scanEscapeSequence string_flags S = (EncodeJSStringRune ch, T)"
    "moved S (length (shape_text ch k)) T"
proof (cases k)
  case (Simple x)
  then show ?thesis
    using that [OF scanEscapeSequence_simple [of S x "c # rest" ch]] assms(1,2) moved_advance [of S 2]
    by (simp add: numeral_2_eq_2 del: advance_Suc moved_advance)
next
  case Unit
  then have v: "0 \<le> ch" "ch < 0x10000" and r: "reading S (encodeUtf16EscapeSequence ch @ c # rest)"
    using assms(1,2) by simp_all
  obtain T where T: "moved S 6 T" "scanEscapeSequence string_flags S =
      (if IsHighSurrogate ch then escape_combine ch T else (EncodeJSStringRune ch, T))"
    using escape_u_text [OF v r assms(3)] .
  have l: "length (encodeUtf16EscapeSequence ch) = 6" using hex4(1) [OF v] by (simp add: encode_hex4)
  show ?thesis
  proof (cases "IsHighSurrogate ch")
    case True
    have "reading T (c # rest)" using reading_moved [OF r] T(1) l by simp
    then obtain U where U: "scanLowSurrogateEscape ch T = (None, U)" "moved T 0 U"
      using scanLowSurrogateEscape_none [OF assms(5) [OF Unit True]] moved_cache [OF T(1) assms(3)] by blast
    have "scanEscapeSequence string_flags S = (EncodeJSStringRune ch, U)"
      using T(2) True U(1) by (simp add: escape_combine_def)
    moreover have "moved S 6 U" using moved_trans [OF T(1) U(2)] by simp
    ultimately show ?thesis using that l Unit by simp
  next
    case False
    then show ?thesis using that [of T] T l Unit by simp
  qed
next
  case (Pair hi lo)
  then have p: "IsHighSurrogate hi" "IsLowSurrogate lo" "SurrogatePairToCodePoint hi lo = ch"
    and r: "reading S (encodeUtf16EscapeSequence hi @ encodeUtf16EscapeSequence lo @ c # rest)"
    using assms(1,2) by simp_all
  have v: "0 \<le> hi" "hi < 0x10000" "0 \<le> lo" "lo < 0x10000"
    using p by (auto simp: IsHighSurrogate_def IsLowSurrogate_def utf16_IsSurrogate_def)
  obtain T where T: "moved S 6 T" "scanEscapeSequence string_flags S = escape_combine hi T"
    using escape_u_text [OF v(1,2) r assms(3)] p(1) by auto
  have l: "length (encodeUtf16EscapeSequence hi) = 6" "length (encodeUtf16EscapeSequence lo) = 6"
    using hex4(1) [OF v(1,2)] hex4(1) [OF v(3,4)] by (simp_all add: encode_hex4)
  have "reading T (encodeUtf16EscapeSequence lo @ c # rest)" using reading_moved [OF r] T(1) l by simp
  then obtain U where U: "scanLowSurrogateEscape hi T = (Some (SurrogatePairToCodePoint hi lo), U)" "moved T 6 U"
    using scanLowSurrogateEscape_some [OF p(2)] moved_cache [OF T(1) assms(3)] by blast
  have "scanEscapeSequence string_flags S = (EncodeRune ch, U)"
    using T(2) U(1) p(3) by (simp add: escape_combine_def)
  moreover have "\<not> IsSurrogate ch"
    using p by (auto simp: IsHighSurrogate_def IsLowSurrogate_def utf16_IsSurrogate_def IsSurrogate_def
        SurrogatePairToCodePoint_def utf16_DecodeRune_def)
  then have "EncodeRune ch = EncodeJSStringRune ch" by (simp add: EncodeJSStringRune_def)
  moreover have "moved S 12 U" using moved_trans [OF T(1) U(2)] by simp
  ultimately show ?thesis using that l Pair by simp
next
  case Null
  then show ?thesis
    using that [of "advance 2 S"] scanEscapeSequence_null [of S c rest] assms(1,2,4) moved_advance [of S 2]
    by (simp add: numeral_2_eq_2 del: advance_Suc moved_advance)
next
  case NullHex
  then obtain T where "scanEscapeSequence string_flags S = (EncodeJSStringRune 0, T)" "moved S 4 T"
    using scanEscapeSequence_x00 [of S "c # rest"] assms(2) by auto
  then show ?thesis using that [of T] NullHex assms(1) by (simp add: eval_nat_numeral)
qed

subsection \<open>One step of the escaped text\<close>

definition plain_byte :: "rune \<Rightarrow> char \<Rightarrow> bool" where
  "plain_byte q c \<longleftrightarrow> rune_of c \<noteq> q \<and> rune_of c \<notin> {0x5C, 0x0A, 0x0D}"

definition string_quote :: "rune \<Rightarrow> bool" where
  "string_quote q \<longleftrightarrow> q = QuoteCharSingleQuote \<or> q = QuoteCharDoubleQuote"

lemma string_loop_plain:
  assumes "list_all (plain_byte q) xs" "reading S (xs @ ys)"
  shows "string_loop False q start sb S = string_loop False q start sb (advance (length xs) S)"
  using assms
proof (induction xs arbitrary: S)
  case Nil
  then show ?case by (simp add: advance_def)
next
  case (Cons c xs)
  have ch: "s_char S = rune_of c" using Cons.prems(2) reading_char by simp
  have "string_loop False q start sb S = string_loop False q start sb (advance (Suc 0) S)"
  proof -
    have "\<not> rune_of c < 0" by (simp add: not_less)
    then show ?thesis
      using Cons.prems(1) ch by (subst string_loop.simps) (simp add: plain_byte_def Let_def)
  qed
  also have "\<dots> = string_loop False q start sb (advance (length xs) (advance (Suc 0) S))"
    using Cons.prems reading_step by (intro Cons.IH) auto
  finally show ?case by simp
qed

text \<open>A character that is not escaped is made of plain bytes, and its bytes are its encoding.\<close>

lemma plain_character:
  assumes d: "DecodeJSStringRune s = (ch, n)" "s \<noteq> []" and m: "\<not> must_escape q flags s ch n"
    and f: "\<not> hasLiteralFlag flags getLiteralTextFlagsJsxAttributeEscape" "string_quote q"
  shows "take n s = EncodeJSStringRune ch" "list_all (plain_byte q) (take n s)" "\<not> IsSurrogate ch"
proof -
  have n: "0 < n" using DecodeJSStringRune_size_pos [OF d(2)] d(1) by simp
  have ns: "\<not> (0xD800 \<le> ch \<and> ch \<le> 0xDFFF)" "\<not> (ch = RuneError \<and> n = 1)"
    and c: "ch \<noteq> 0x5C" "ch \<noteq> q" "ch \<noteq> 0x0D" "ch \<noteq> 0x0A"
    using m f by (auto simp: must_escape_def string_quote_def split: if_splits)
  show s: "\<not> IsSurrogate ch" using ns(1) by (auto simp: IsSurrogate_def utf16_IsSurrogate_def)
  have "\<not> (ch = RuneError \<and> n \<le> 1)" using ns(2) n by auto
  then show e: "take n s = EncodeJSStringRune ch" using EncodeJSStringRune_DecodeJSStringRune [OF d(1)] by simp
  show "list_all (plain_byte q) (take n s)"
  proof (cases "ch < 0x80")
    case True
    then have "take n s = [byte_of ch]"
      using e DecodeJSStringRune_range [of s] d(1) by (simp add: EncodeJSStringRune_ascii)
    moreover have "rune_of (byte_of ch) = ch"
      using True DecodeJSStringRune_range [of s] d(1) by simp
    ultimately show ?thesis using c by (simp add: plain_byte_def)
  next
    case False
    have "ValidRune ch"
      using ns(1) DecodeJSStringRune_range [of s] d(1) by (auto simp: ValidRune_def)
    then have "list_all (\<lambda>c. 0x80 \<le> rune_of c) (take n s)"
      using False EncodeRune_high [of ch] s unfolding e by (simp add: EncodeJSStringRune_def)
    moreover have "0x80 \<le> rune_of x \<Longrightarrow> plain_byte q x" for x
      using f(2) by (auto simp: plain_byte_def string_quote_def)
    ultimately show ?thesis by (auto simp: list_all_iff)
  qed
qed

lemma escaped_step:
  assumes d: "DecodeJSStringRune s = (ch, n)" "s \<noteq> []"
    and f: "\<not> hasLiteralFlag flags getLiteralTextFlagsJsxAttributeEscape" "string_quote q"
  obtains (shape) k where "escaped q flags s = shape_text ch k @ escaped q flags (drop n s)" "shape_fits ch s k"
  | (plain) "escaped q flags s = take n s @ escaped q flags (drop n s)" "\<not> must_escape q flags s ch n"
proof (cases "must_escape q flags s ch n")
  case True
  have "q \<noteq> QuoteCharBacktick" using f(2) by (auto simp: string_quote_def)
  then obtain k where k: "escape_text q flags s ch n = (shape_text ch k, n)" "shape_fits ch s k"
    using escape_text_shape [OF f(1), of q ch s n] DecodeJSStringRune_range [of s] d(1) by auto
  have "escaped q flags s = shape_text ch k @ escaped q flags (drop n s)"
    using True d k(1) by (subst escaped.simps) simp
  then show ?thesis using k(2) by (rule shape)
next
  case False
  then have "escaped q flags s = take n s @ escaped q flags (drop n s)"
    using d by (subst escaped.simps) simp
  then show ?thesis using False by (rule plain)
qed

lemma shape_text_first: "\<exists>r. shape_text ch k = CHR 0x5C # r"
  by (cases k) (simp_all add: encode_hex4)

lemma escaped_first:
  assumes "s \<noteq> []" "\<not> hasLiteralFlag flags getLiteralTextFlagsJsxAttributeEscape" "string_quote q"
  shows "\<exists>c r. escaped q flags s = c # r \<and> (c = CHR 0x5C \<or> c = s ! 0)"
proof -
  obtain ch n where d: "DecodeJSStringRune s = (ch, n)" by fastforce
  have n: "0 < n" using DecodeJSStringRune_size_pos [OF assms(1)] d by simp
  show ?thesis
    using d assms
  proof (cases rule: escaped_step)
    case (shape k)
    then show ?thesis using shape_text_first [of ch k] by auto
  next
    case plain
    then show ?thesis using n assms(1) by (cases s) (auto simp: take_Cons')
  qed
qed

lemma take_2_prefix: "take 2 (c # r) = [a, b] \<Longrightarrow> c = a \<and> (\<exists>t. r = b # t)"
  by (cases r) auto

lemma no_low_start:
  assumes "s \<noteq> [] \<Longrightarrow> \<not> IsLowSurrogate (fst (DecodeJSStringRune s))"
    and f: "\<not> hasLiteralFlag flags getLiteralTextFlagsJsxAttributeEscape" "string_quote q"
  shows "no_low_escape (escaped q flags s @ byte_of q # post)"
proof (cases "s = []")
  case True
  then show ?thesis using f(2)
    by (auto simp: escaped.simps no_low_escape_def string_quote_def byte_simple dest: take_2_prefix)
next
  case False
  obtain ch n where d: "DecodeJSStringRune s = (ch, n)" by fastforce
  have nl: "\<not> IsLowSurrogate ch" using assms(1) [OF False] d by simp
  show ?thesis
    using d False f
  proof (cases rule: escaped_step)
    case (shape k)
    show ?thesis
    proof (cases k)
      case Unit
      then show ?thesis using shape nl unfolding no_low_escape_def by auto
    next
      case (Pair hi lo)
      then have "0 \<le> hi" "hi < 0x10000" "\<not> IsLowSurrogate hi"
        using shape(2) by (auto simp: IsHighSurrogate_def IsLowSurrogate_def utf16_IsSurrogate_def)
      then show ?thesis using shape Pair unfolding no_low_escape_def by auto
    qed (use shape in \<open>auto simp: no_low_escape_def simple_escapes_def\<close>)
  next
    case plain
    have "take n s \<noteq> []" using DecodeJSStringRune_size_pos [OF False] d False by simp
    then obtain c r where c: "take n s = c # r" by (cases "take n s") auto
    have "plain_byte q c" using plain_character(2) [OF d False plain(2) f] c by simp
    then have "c \<noteq> CHR 0x5C" by (auto simp: plain_byte_def)
    then show ?thesis unfolding plain(1) c no_low_escape_def by (auto dest: take_2_prefix)
  qed
qed

lemma js_canonical_step:
  assumes "DecodeJSStringRune s = (ch, n)" "s \<noteq> []"
    and "\<not> (IsHighSurrogate ch \<and> IsLowSurrogate (fst (DecodeJSStringRune (drop n s))))"
  shows "js_canonical s = EncodeJSStringRune ch @ js_canonical (drop n s)"
  using assms by (subst js_canonical.simps) (auto simp: Let_def)

lemma string_loop_escape:
  assumes "scanEscapeSequence string_flags S = (v, T)" "s_char S = 0x5C" "string_quote q"
  shows "string_loop False q start sb S = string_loop False q (s_pos T) (sb @ slc (s_text S) start (s_pos S) @ v) T"
  using assms by (subst string_loop.simps) (auto simp: Let_def string_quote_def)

lemma shape_unit:
  assumes "shape_fits ch s k" "IsSurrogate ch"
  shows "k = Unit"
  using assms by (cases k) (auto simp: simple_escapes_def IsSurrogate_def utf16_IsSurrogate_def
      SurrogatePairToCodePoint_def utf16_DecodeRune_def IsHighSurrogate_def IsLowSurrogate_def)

lemma null_not_digit:
  assumes "shape_fits ch s Null" "DecodeJSStringRune s = (ch, n)" "s \<noteq> []"
    and f: "\<not> hasLiteralFlag flags getLiteralTextFlagsJsxAttributeEscape" "string_quote q"
    and "escaped q flags (drop n s) @ byte_of q # post = c # rest"
  shows "\<not> IsDigit (rune_of c)"
proof -
  have n: "n = 1" and nd: "\<not> (1 < length s \<and> IsDigit (rune_of (s ! 1)))"
    using assms(1,2) DecodeJSStringRune_ascii [of s] by auto
  show ?thesis
  proof (cases "drop n s = []")
    case True
    then show ?thesis using assms(6) f(2)
      by (auto simp: escaped.simps string_quote_def IsDigit_def byte_simple)
  next
    case False
    then obtain x r where "escaped q flags (drop n s) = x # r" "x = CHR 0x5C \<or> x = drop n s ! 0"
      using escaped_first f by blast
    then show ?thesis using assms(6) nd n False by (auto simp: IsDigit_def)
  qed
qed

lemma string_loop_escaped:
  assumes f: "\<not> hasLiteralFlag flags getLiteralTextFlagsJsxAttributeEscape" "string_quote q"
    and "reading S (escaped q flags s @ byte_of q # post)" "hex_cache_ok S" "start \<le> s_pos S"
  shows "\<exists>T. string_loop False q start sb S = (sb @ slc (s_text S) start (s_pos S) @ js_canonical s, T)
    \<and> moved S (Suc (length (escaped q flags s))) T"
  using assms(3-)
proof (induction "length s" arbitrary: s S start sb rule: less_induct)
  case less
  show ?case
  proof (cases "s = []")
    case True
    have "s_char S = q" using less.prems(1) True f(2) reading_char [of S "byte_of q" post]
      by (auto simp: escaped.simps string_quote_def)
    then have "string_loop False q start sb S = (sb @ slc (s_text S) start (s_pos S), advance 1 S)"
      using f(2) by (subst string_loop.simps) (auto simp: Let_def string_quote_def)
    then show ?thesis using True moved_advance [of S "Suc 0"] by (auto simp: escaped.simps js_canonical.simps)
  next
    case False
    obtain ch n where d: "DecodeJSStringRune s = (ch, n)" by fastforce
    have n: "0 < n" "n \<le> length s"
      using DecodeJSStringRune_size_pos [OF False] DecodeJSStringRune_size_le [of s] d by simp_all
    show ?thesis
      using d False f
    proof (cases rule: escaped_step)
      case plain
      note p = plain_character [OF d False plain(2) f]
      let ?S = "advance n S"
      have l: "length (take n s) = n" using n by simp
      have r: "reading S (take n s @ escaped q flags (drop n s) @ byte_of q # post)"
        using less.prems(1) plain(1) by simp
      have r2: "reading ?S (escaped q flags (drop n s) @ byte_of q # post)"
        using reading_moved [OF r] l by simp
      obtain T where T: "string_loop False q start sb ?S =
          (sb @ slc (s_text ?S) start (s_pos ?S) @ js_canonical (drop n s), T)"
          "moved ?S (Suc (length (escaped q flags (drop n s)))) T"
        using less.hyps [of "drop n s" ?S start sb, OF _ r2] n False less.prems(2,3) by auto
      have "slc (s_text S) start (s_pos S + n) = slc (s_text S) start (s_pos S) @ take n s"
        using reading_slc [OF r] less.prems(3) slc_append [of start "s_pos S" "s_pos S + n" "s_text S"] l by simp
      moreover have "\<not> IsHighSurrogate ch" using p(3) by (simp add: IsHighSurrogate_def IsSurrogate_def)
      then have "js_canonical s = take n s @ js_canonical (drop n s)"
        using js_canonical_step [OF d False] p(1) by simp
      moreover have "string_loop False q start sb S = string_loop False q start sb ?S"
        using string_loop_plain [OF p(2) r] l by simp
      moreover have "moved S (Suc (length (escaped q flags s))) T"
        using moved_trans [OF moved_advance [of S n] T(2)] plain(1) l by simp
      ultimately show ?thesis using T(1) by simp
    next
      case (shape k)
      have slash: "s_char S = 0x5C" using shape_text_first [of ch k] less.prems(1) shape(1) reading_char [of S] by auto
      have step: ?thesis if e: "escaped q flags s = e @ escaped q flags s'" "length s' < length s"
        "scanEscapeSequence string_flags S = (v, T)" "moved S (length e) T" "js_canonical s = v @ js_canonical s'" for e s' v T
      proof -
        have "reading S (e @ escaped q flags s' @ byte_of q # post)" using less.prems(1) e(1) by simp
        then have "reading T (escaped q flags s' @ byte_of q # post)" by (rule reading_moved) (rule e(4))
        then obtain U where U: "string_loop False q (s_pos T) (sb @ slc (s_text S) start (s_pos S) @ v) T =
            ((sb @ slc (s_text S) start (s_pos S) @ v) @ slc (s_text T) (s_pos T) (s_pos T) @ js_canonical s', U)"
            "moved T (Suc (length (escaped q flags s'))) U"
          using less.hyps [OF e(2)] moved_cache [OF e(4) less.prems(2)] by blast
        have "moved S (Suc (length (escaped q flags s))) U" using moved_trans [OF e(4) U(2)] e(1) by simp
        moreover have "string_loop False q start sb S =
            (sb @ slc (s_text S) start (s_pos S) @ js_canonical s, U)"
          using string_loop_escape [OF e(3) slash f(2)] U(1) e(5) by simp
        ultimately show ?thesis by blast
      qed
      obtain c rest where cr: "escaped q flags (drop n s) @ byte_of q # post = c # rest"
        by (cases "escaped q flags (drop n s) @ byte_of q # post") auto
      obtain lo m where lo: "DecodeJSStringRune (drop n s) = (lo, m)" by fastforce
      show ?thesis
      proof (cases "IsHighSurrogate ch \<and> IsLowSurrogate lo")
        case True
        have s': "drop n s \<noteq> []" using True lo by (auto simp: DecodeJSStringRune_def is_surrogate_sentinel_def
              IsLowSurrogate_def utf16_IsSurrogate_def)
        have sur: "IsSurrogate ch" "IsSurrogate lo" using True by (auto simp: IsHighSurrogate_def IsLowSurrogate_def IsSurrogate_def)
        have u: "k = Unit" by (rule shape_unit [OF shape(2) sur(1)])
        have e2: "escaped q flags (drop n s) = encodeUtf16EscapeSequence lo @ escaped q flags (drop (n + m) s)"
          using lo s' f
        proof (cases rule: escaped_step)
          case (shape k')
          then show ?thesis using shape_unit [OF shape(2) sur(2)] by (simp add: add.commute)
        next
          case plain
          then show ?thesis using plain_character(3) [OF lo s' plain(2) f] sur(2) by simp
        qed
        let ?v = "SurrogatePairToCodePoint ch lo"
        have es: "escaped q flags s = shape_text ?v (Pair ch lo) @ escaped q flags (drop (n + m) s)"
          using shape(1) u e2 by simp
        have fits: "shape_fits ?v s (Pair ch lo)" using True by simp
        obtain c' rest' where cr': "escaped q flags (drop (n + m) s) @ byte_of q # post = c' # rest'"
          by (cases "escaped q flags (drop (n + m) s) @ byte_of q # post") auto
        have "reading S (shape_text ?v (Pair ch lo) @ c' # rest')" using less.prems(1) es cr' by simp
        then obtain T where T: "scanEscapeSequence string_flags S = (EncodeJSStringRune ?v, T)"
            "moved S (length (shape_text ?v (Pair ch lo))) T"
          using scan_shape [OF fits _ less.prems(2)] by blast
        have "\<not> IsSurrogate ?v"
          using True by (auto simp: IsHighSurrogate_def IsLowSurrogate_def utf16_IsSurrogate_def IsSurrogate_def
              SurrogatePairToCodePoint_def utf16_DecodeRune_def)
        then have "js_canonical s = EncodeJSStringRune ?v @ js_canonical (drop (n + m) s)"
          using True False d lo by (subst js_canonical.simps) (simp add: EncodeJSStringRune_def)
        then show ?thesis using step [OF es _ T] n by simp
      next
        case nopair: False
        have "reading S (shape_text ch k @ c # rest)" using less.prems(1) shape(1) cr by simp
        moreover have "k = Null \<Longrightarrow> \<not> IsDigit (rune_of c)"
          using null_not_digit [OF _ d False f cr] shape(2) by simp
        moreover have "IsHighSurrogate ch \<Longrightarrow> no_low_escape (c # rest)"
          using no_low_start [of "drop n s", OF _ f, of post] nopair lo cr by simp
        ultimately obtain T where T: "scanEscapeSequence string_flags S = (EncodeJSStringRune ch, T)"
            "moved S (length (shape_text ch k)) T"
          using scan_shape [OF shape(2) _ less.prems(2)] by blast
        have "js_canonical s = EncodeJSStringRune ch @ js_canonical (drop n s)"
          using js_canonical_step [OF d False] nopair lo by simp
        then show ?thesis using step [OF shape(1) _ T] n False by simp
      qed
    qed
  qed
qed

section \<open>The round trip\<close>

lemma IndexByte_split: "IndexByte t c = Some k \<Longrightarrow> t = take k t @ c # drop (Suc k) t \<and> c \<notin> set (take k t)"
  by (induction t arbitrary: k) (auto split: if_splits)

text \<open>The fast path of \<open>scanString\<close> does what its loop would do.\<close>

lemma scanString_loop:
  assumes "reading s0 (byte_of q # xs)" "string_quote q"
  defines "S \<equiv> advance 1 (if q = 0x27 then addFlag TokenFlagsSingleQuote s0 else s0)"
  shows "scanString False s0 = string_loop False q (s_pos S) [] S"
proof -
  have q: "s_char s0 = q" "byte_of (s_char s0) = byte_of q"
    using reading_char [OF assms(1)] assms(2) by (auto simp: string_quote_def)
  have r: "reading S xs"
    using reading_step [OF assms(1)] reading_step [of "addFlag TokenFlagsSingleQuote s0"] assms(1) by (simp add: S_def)
  have dr: "drop (s_pos S) (s_text S) = xs" using r by (simp add: reading_def)
  have loop: "string_loop False q (s_pos S) [] S = (slc (s_text S) (s_pos S) (s_pos S + k), advance (k + 1) S)"
    if k: "IndexByte (drop (s_pos S) (s_text S)) (byte_of q) = Some k"
      and p: "CHR 0x5C \<notin> set (take k xs)" "CHR 0x0D \<notin> set (take k xs)" "CHR 0x0A \<notin> set (take k xs)" for k
  proof -
    have xs: "xs = take k xs @ byte_of q # drop (Suc k) xs" "byte_of q \<notin> set (take k xs)"
      using IndexByte_split [OF k [unfolded dr]] by blast+
    have l: "length (take k xs) = k" using arg_cong [OF xs(1), of length] by (cases "k \<le> length xs") auto
    have "plain_byte q c" if "c \<in> set (take k xs)" for c
      using that xs(2) p by (auto simp: plain_byte_def of_char_eq_iff byte_simple dest: byte_of_eq_iff)
    then have "string_loop False q (s_pos S) [] S = string_loop False q (s_pos S) [] (advance k S)"
      using string_loop_plain [of q "take k xs" S "byte_of q # drop (Suc k) xs"] r xs(1) l by (simp add: list_all_iff)
    moreover have "reading (advance k S) (byte_of q # drop (Suc k) xs)"
      using reading_moved [of S "take k xs"] r xs(1) l by simp
    then have "s_char (advance k S) = q" using reading_char assms(2) by (fastforce simp: string_quote_def)
    then have "string_loop False q (s_pos S) [] (advance k S) = (slc (s_text S) (s_pos S) (s_pos S + k), advance (k + 1) S)"
      using assms(2) by (subst string_loop.simps) (auto simp: Let_def string_quote_def)
    ultimately show ?thesis by simp
  qed
  have sl: "slc (s_text S) (s_pos S) (s_pos S + k) = take k xs" for k using r by (simp add: slc_def reading_def)
  show ?thesis
    unfolding scanString_def Let_def q S_def [symmetric]
    using loop by (auto simp: sl split: option.split)
qed

lemma scanString_escaped:
  assumes f: "\<not> hasLiteralFlag flags getLiteralTextFlagsJsxAttributeEscape" "string_quote q"
    and r: "reading S (byte_of q # escaped q flags s @ byte_of q # post)" and c: "hex_cache_ok S"
  obtains T where "scanString False S = (js_canonical s, T)" "moved S (length (escaped q flags s) + 2) T"
proof -
  define S' where "S' = (if q = 0x27 then addFlag TokenFlagsSingleQuote S else S)"
  have m: "moved S 0 S'" using moved_flag [of TokenFlagsSingleQuote S] by (simp add: S'_def)
  then have m1: "moved S 1 (advance 1 S')" using moved_trans [OF m moved_advance [of S' 1]] by simp
  have "reading (advance 1 S') (escaped q flags s @ byte_of q # post)"
    using reading_moved [of S "[byte_of q]" "escaped q flags s @ byte_of q # post"] r m1 by simp
  then obtain T where T: "string_loop False q (s_pos (advance 1 S')) [] (advance 1 S') =
      ([] @ slc (s_text (advance 1 S')) (s_pos (advance 1 S')) (s_pos (advance 1 S')) @ js_canonical s, T)"
      "moved (advance 1 S') (Suc (length (escaped q flags s))) T"
    using string_loop_escaped [OF f _ moved_cache [OF m1 c], of s post "s_pos (advance 1 S')" "[]"] by auto
  have "scanString False S = (js_canonical s, T)"
    using scanString_loop [OF r f(2)] T(1) unfolding S'_def by simp
  moreover have "moved S (length (escaped q flags s) + 2) T" using moved_trans [OF m1 T(2)] by simp
  ultimately show ?thesis by (rule that)
qed

text \<open>A string without stray bytes in which no pair is written as two halves.\<close>

function (sequential) well_formed_js :: "string \<Rightarrow> bool" where
  "well_formed_js s =
    (if s = [] then True
     else
       let d = DecodeJSStringRune s; low = DecodeJSStringRune (drop (snd d) s) in
       \<not> (fst d = RuneError \<and> snd d = 1) \<and> \<not> (IsHighSurrogate (fst d) \<and> IsLowSurrogate (fst low))
       \<and> well_formed_js (drop (snd d) s))"
  by pat_completeness auto
termination
  by (relation "measure length") (auto simp: DecodeJSStringRune_size_pos)

declare well_formed_js.simps [simp del]

lemma js_canonical_well_formed: "well_formed_js s \<Longrightarrow> js_canonical s = s"
proof (induction "length s" arbitrary: s rule: less_induct)
  case less
  show ?case
  proof (cases "s = []")
    case False
    obtain ch n where d: "DecodeJSStringRune s = (ch, n)" by fastforce
    have n: "0 < n" using DecodeJSStringRune_size_pos [OF False] d by simp
    have w: "\<not> (ch = RuneError \<and> n = 1)" "\<not> (IsHighSurrogate ch \<and> IsLowSurrogate (fst (DecodeJSStringRune (drop n s))))"
      "well_formed_js (drop n s)"
      using less.prems False d by (subst (asm) well_formed_js.simps; simp add: Let_def)+
    have "\<not> (ch = RuneError \<and> n \<le> 1)" using w(1) n by auto
    then have "EncodeJSStringRune ch = take n s" using EncodeJSStringRune_DecodeJSStringRune [OF d] by simp
    then show ?thesis
      using js_canonical_step [OF d False w(2)] less.hyps [of "drop n s"] w(3) n False by simp
  qed (simp add: js_canonical.simps)
qed

text \<open>C37: Writing and reading agree: \<open>scanString\<close>, at a single or double quote followed by what
  \<open>escapeStringWorker\<close> writes for a string, with or without escaping of non-ASCII characters, and by
  the same quote, consumes both quotes and gives the string, with halves of pairs joined and stray
  bytes replaced; a well-formed string comes back as it was. No error is reported.\<close>

theorem escaped_string_scans_back:
  assumes "q = QuoteCharSingleQuote \<or> q = QuoteCharDoubleQuote"
    and "flags = getLiteralTextFlagsNone \<or> flags = getLiteralTextFlagsNeverAsciiEscape"
    and "s_text S = pre @ byte_of q # escapeStringWorker s q flags [] @ byte_of q # post"
    and "s_pos S = length pre" "s_end S = length (s_text S)" "hex_cache_ok S"
  shows "fst (scanString False S) = js_canonical s \<and> (well_formed_js s \<longrightarrow> js_canonical s = s)
    \<and> s_pos (snd (scanString False S)) = length pre + length (escapeStringWorker s q flags []) + 2
    \<and> s_errors (snd (scanString False S)) = s_errors S
    \<and> hasFlag (snd (scanString False S)) TokenFlagsUnterminated = hasFlag S TokenFlagsUnterminated"
proof -
  have "\<not> hasLiteralFlag flags getLiteralTextFlagsJsxAttributeEscape" "string_quote q"
    using assms(1,2) by (auto simp: hasLiteralFlag_def string_quote_def)
  moreover have "reading S (byte_of q # escaped q flags s @ byte_of q # post)"
    using assms(3-5) by (simp add: reading_def worker_escaped)
  ultimately obtain T where "scanString False S = (js_canonical s, T)" "moved S (length (escaped q flags s) + 2) T"
    using scanString_escaped assms(6) by metis
  then show ?thesis using assms(4) js_canonical_well_formed [of s] by (simp add: moved_def worker_escaped)
qed

lemma escaped_string_scans_back_witness:
  "let s = [CHR 0x00, CHR ''1'', CHR 0x22]; text = CHR 0x22 # EscapeString s 0x22 @ [CHR 0x22];
       r = scanString False (SetText text NewScanner)
   in fst r = js_canonical s \<and> s_pos (snd r) = length text"
proof -
  let ?s = "[CHR 0x00, CHR ''1'', CHR 0x22]"
  let ?text = "CHR 0x22 # EscapeString ?s 0x22 @ [CHR 0x22]"
  have b: "byte_of 0x22 = CHR 0x22" by (simp add: byte_simple)
  show ?thesis
    using escaped_string_scans_back [of "0x22" 1 "SetText ?text NewScanner" "[]" ?s "[]"]
    by (simp add: Let_def b EscapeString_def SetText_def Rewind_def zeroScannerState_def ScannerState.defs
        NewScanner_def defaultScanner_def Scanner.defs hex_cache_ok_def)
qed

end
