(* ===== verification/VfsGlob.thy ===== *)
theory VfsGlob
  imports TsPathProps
begin

text \<open>
  Glob patterns of \<^verbatim>\<open>vfs/vfsmatch/vfsmatch.go\<close>: compilation of an include or exclude spec to a list
  of components, and matching of a path, given in two parts, against it. \<open>equalFold\<close> and \<open>toLower\<close>
  are \<open>strings.EqualFold\<close> and \<open>strings.ToLower\<close>.
\<close>

section \<open>Compiled patterns\<close>

datatype Usage = UsageFiles | UsageDirectories | UsageExclude

datatype segmentKind = segLiteral | segStar | segQuestion

record segment =
  seg_kind :: segmentKind
  seg_literal :: string

datatype componentKind = kindLiteral | kindWildcard | kindDoubleAsterisk

record component =
  comp_kind :: componentKind
  comp_literal :: string
  comp_segments :: "segment list"
  skipPackageFolders :: bool

record globPattern =
  gp_components :: "component list"
  gp_isExclude :: bool
  gp_caseSensitive :: bool
  gp_excludeMinJs :: bool

definition ContainsAny :: "string \<Rightarrow> string \<Rightarrow> bool" where
  "ContainsAny s chars \<longleftrightarrow> list_ex (\<lambda>c. c \<in> set chars) s"

definition IsImplicitGlob :: "string \<Rightarrow> bool" where
  "IsImplicitGlob lastPathComponent \<longleftrightarrow> \<not> ContainsAny lastPathComponent ''.*?''"

text \<open>The loop of \<open>parseSegments\<close>; \<open>lit\<close> is \<open>s[start:i]\<close>.\<close>

definition literal_segment :: "string \<Rightarrow> segment list" where
  "literal_segment lit = (if lit \<noteq> [] then [\<lparr>seg_kind = segLiteral, seg_literal = lit\<rparr>] else [])"

fun parse_segments_from :: "string \<Rightarrow> string \<Rightarrow> segment list" where
  "parse_segments_from lit [] = literal_segment lit"
| "parse_segments_from lit (c # s) =
    (if c = CHR ''*'' \<or> c = CHR ''?'' then
       literal_segment lit
       @ \<lparr>seg_kind = (if c = CHR ''*'' then segStar else segQuestion), seg_literal = []\<rparr>
       # parse_segments_from [] s
     else parse_segments_from (lit @ [c]) s)"

definition parseSegments :: "string \<Rightarrow> segment list" where
  "parseSegments s = parse_segments_from [] s"

definition parseComponent :: "string \<Rightarrow> bool \<Rightarrow> component" where
  "parseComponent s isInclude =
    (if s = ''**'' then
       \<lparr>comp_kind = kindDoubleAsterisk, comp_literal = [], comp_segments = [], skipPackageFolders = False\<rparr>
     else if \<not> ContainsAny s ''*?'' then
       \<lparr>comp_kind = kindLiteral, comp_literal = s, comp_segments = [], skipPackageFolders = False\<rparr>
     else
       \<lparr>comp_kind = kindWildcard, comp_literal = [], comp_segments = parseSegments s,
        skipPackageFolders = isInclude\<rparr>)"

definition LastOrNil :: "string list \<Rightarrow> string" where
  "LastOrNil xs = (if xs = [] then [] else last xs)"

text \<open>The parts of the spec; \<open>GetNormalizedPathComponents\<close> returns at least the root.\<close>

definition compile_parts :: "string list \<Rightarrow> string list" where
  "compile_parts parts =
    (let root = RemoveTrailingDirectorySeparator (hd parts);
         parts' = (if IsEncodedDynamicFileName root then splitByte slash root @ tl parts else root # tl parts)
     in if IsImplicitGlob (LastOrNil parts') then parts' @ [''**'', ''*''] else parts')"

definition compileGlobPattern ::
    "(string \<Rightarrow> string \<Rightarrow> bool) \<Rightarrow> string \<Rightarrow> string \<Rightarrow> Usage \<Rightarrow> bool \<Rightarrow> globPattern option" where
  "compileGlobPattern equalFold spec basePath usage caseSensitive =
    (let parts = GetNormalizedPathComponents equalFold spec basePath in
     if usage \<noteq> UsageExclude \<and> LastOrNil parts = ''**'' then None
     else Some
       \<lparr>gp_components = map (\<lambda>part. parseComponent part (usage \<noteq> UsageExclude)) (compile_parts parts),
        gp_isExclude = (usage = UsageExclude),
        gp_caseSensitive = (IsEncodedDynamicFileName (hd parts) \<or> caseSensitive),
        gp_excludeMinJs = (usage = UsageFiles)\<rparr>)"

section \<open>Matching one component\<close>

definition isHiddenPath :: "string \<Rightarrow> bool" where
  "isHiddenPath name \<longleftrightarrow> name \<noteq> [] \<and> hd name = CHR ''.''"

definition isPackageFolder :: "(string \<Rightarrow> string \<Rightarrow> bool) \<Rightarrow> string \<Rightarrow> bool" where
  "isPackageFolder equalFold name \<longleftrightarrow>
    (if length name = length ''node_modules'' then equalFold name ''node_modules''
     else if length name = length ''jspm_packages'' then equalFold name ''jspm_packages''
     else if length name = length ''bower_components'' then equalFold name ''bower_components''
     else False)"

definition stringsEqual :: "(string \<Rightarrow> string \<Rightarrow> bool) \<Rightarrow> globPattern \<Rightarrow> string \<Rightarrow> string \<Rightarrow> bool" where
  "stringsEqual equalFold p a b \<longleftrightarrow> (if gp_caseSensitive p then a = b else equalFold a b)"

definition hasMinJsSuffix :: "(string \<Rightarrow> string \<Rightarrow> bool) \<Rightarrow> globPattern \<Rightarrow> string \<Rightarrow> bool" where
  "hasMinJsSuffix equalFold p filename \<longleftrightarrow>
    (if gp_caseSensitive p then HasSuffix filename ''.min.js''
     else length ''.min.js'' \<le> length filename
       \<and> equalFold (drop (length filename - length ''.min.js'') filename) ''.min.js'')"

definition strContains :: "string \<Rightarrow> string \<Rightarrow> bool" where
  "strContains s p \<longleftrightarrow> strIndex s p \<noteq> None"

definition patternMentionsMinSuffix :: "(string \<Rightarrow> string) \<Rightarrow> globPattern \<Rightarrow> segment list \<Rightarrow> bool" where
  "patternMentionsMinSuffix toLower p segs \<longleftrightarrow>
    list_ex (\<lambda>seg. seg_kind seg = segLiteral \<and>
      (let lit = (if \<not> gp_caseSensitive p then toLower (seg_literal seg) else seg_literal seg)
       in strContains lit ''.min.js'' \<or> strContains lit ''.min.'')) segs"

definition shouldIncludeMinJs ::
    "(string \<Rightarrow> string \<Rightarrow> bool) \<Rightarrow> (string \<Rightarrow> string) \<Rightarrow> globPattern \<Rightarrow> string \<Rightarrow> segment list \<Rightarrow> bool" where
  "shouldIncludeMinJs equalFold toLower p filename segs \<longleftrightarrow>
    (if \<not> gp_excludeMinJs p then True
     else if \<not> hasMinJsSuffix equalFold p filename then True
     else patternMentionsMinSuffix toLower p segs)"

text \<open>
  One iteration of the loop of \<open>matchSegments\<close> with the code's variables, \<open>segIdx\<close>, \<open>sIdx\<close> and the
  position of the last star (\<open>None\<close> while \<open>starSegIdx\<close> is \<open>-1\<close>): the result, or the new variables.
\<close>

type_synonym match_state = "nat \<times> nat \<times> (nat \<times> nat) option"

definition backtrack :: "string \<Rightarrow> (nat \<times> nat) option \<Rightarrow> bool + match_state" where
  "backtrack s star =
    (case star of
       None \<Rightarrow> Inl False
     | Some (starSegIdx, starSIdx) \<Rightarrow>
         if starSIdx < length s \<and> s ! starSIdx \<noteq> slash then
           (let starSIdx = starSIdx + snd (DecodeRune (drop starSIdx s))
            in Inr (starSegIdx + 1, starSIdx, Some (starSegIdx, starSIdx)))
         else Inl False)"

fun segments_step ::
    "(string \<Rightarrow> string \<Rightarrow> bool) \<Rightarrow> segment list \<Rightarrow> string \<Rightarrow> match_state \<Rightarrow> bool + match_state" where
  "segments_step eq segs s (segIdx, sIdx, star) =
    (if sIdx < length s then
       if segIdx < length segs then
         let seg = segs ! segIdx; lit = seg_literal seg in
         (case seg_kind seg of
            segLiteral \<Rightarrow>
              if sIdx + length lit \<le> length s \<and> eq lit (slc s sIdx (sIdx + length lit))
              then Inr (segIdx + 1, sIdx + length lit, star) else backtrack s star
          | segQuestion \<Rightarrow>
              if s ! sIdx \<noteq> slash
              then Inr (segIdx + 1, sIdx + snd (DecodeRune (drop sIdx s)), star) else backtrack s star
          | segStar \<Rightarrow> Inr (segIdx + 1, sIdx, Some (segIdx, sIdx)))
       else backtrack s star
     else Inl (list_all (\<lambda>seg. seg_kind seg = segStar) (drop segIdx segs)))"

text \<open>The loop; \<open>None\<close> would be a loop that does not end.\<close>

partial_function (option) segments_loop ::
    "(string \<Rightarrow> string \<Rightarrow> bool) \<Rightarrow> segment list \<Rightarrow> string \<Rightarrow> match_state \<Rightarrow> bool option" where
  "segments_loop eq segs s st =
    (case segments_step eq segs s st of Inl b \<Rightarrow> Some b | Inr st' \<Rightarrow> segments_loop eq segs s st')"

declare segments_loop.simps [code]

definition matchSegments :: "(string \<Rightarrow> string \<Rightarrow> bool) \<Rightarrow> segment list \<Rightarrow> string \<Rightarrow> bool" where
  "matchSegments eq segs s \<longleftrightarrow> segments_loop eq segs s (0, 0, None) = Some True"

definition matchWildcard ::
    "(string \<Rightarrow> string \<Rightarrow> bool) \<Rightarrow> (string \<Rightarrow> string) \<Rightarrow> globPattern \<Rightarrow> segment list \<Rightarrow> string \<Rightarrow> bool" where
  "matchWildcard equalFold toLower p segs s \<longleftrightarrow>
    (if \<not> gp_isExclude p \<and> segs \<noteq> [] \<and> isHiddenPath s
        \<and> (seg_kind (hd segs) = segStar \<or> seg_kind (hd segs) = segQuestion) then False
     else if length segs = 2 \<and> seg_kind (segs ! 0) = segStar \<and> seg_kind (segs ! 1) = segLiteral then
       (let suf = seg_literal (segs ! 1) in
        if length s < length suf \<or> \<not> stringsEqual equalFold p suf (drop (length s - length suf) s)
        then False else shouldIncludeMinJs equalFold toLower p s segs)
     else matchSegments (stringsEqual equalFold p) segs s \<and> shouldIncludeMinJs equalFold toLower p s segs)"

section \<open>Matching a path\<close>

text \<open>
  The next component from an offset, with the offset after it. The path is given as a prefix and a
  suffix; \<open>PartPanic\<close> is the slice out of range for a prefix that does not end in a slash.
\<close>

datatype path_part = NoPart | Part string nat | PartPanic

definition nextPathPartSingle :: "string \<Rightarrow> nat \<Rightarrow> path_part" where
  "nextPathPartSingle s offset =
    (if length s \<le> offset then NoPart
     else if offset = 0 \<and> s ! 0 = slash then Part [] 1
     else
       let offset = offset + run_length (\<lambda>c. c = slash) (drop offset s) in
       if length s \<le> offset then NoPart
       else (case IndexByte (drop offset s) slash of
           Some idx \<Rightarrow> Part (take idx (drop offset s)) (offset + idx)
         | None \<Rightarrow> Part (drop offset s) (length s)))"

definition nextPathPartParts :: "string \<Rightarrow> string \<Rightarrow> nat \<Rightarrow> path_part" where
  "nextPathPartParts pre suf offset =
    (if suf = [] then nextPathPartSingle pre offset
     else if pre = [] then nextPathPartSingle suf offset
     else
       let totalLen = length pre + length suf in
       if totalLen \<le> offset then NoPart
       else if offset = 0 \<and> pre ! 0 = slash then Part [] 1
       else
         let offset' = (if offset < length pre
                        then offset + run_length (\<lambda>c. c = slash) (drop offset pre) else offset) in
         if offset' < length pre then
           (case IndexByte (drop offset' pre) slash of
              Some idx \<Rightarrow> Part (take idx (drop offset' pre)) (offset' + idx)
            | None \<Rightarrow> PartPanic)
         else Part (drop (offset' - length pre) suf) totalLen)"

definition patternSatisfied :: "globPattern \<Rightarrow> nat \<Rightarrow> bool" where
  "patternSatisfied p compIdx \<longleftrightarrow>
    list_all (\<lambda>c. comp_kind c = kindDoubleAsterisk) (drop compIdx (gp_components p))"

text \<open>The test of a literal or wildcard component; \<open>None\<close> is its panic.\<close>

definition component_matches ::
    "(string \<Rightarrow> string \<Rightarrow> bool) \<Rightarrow> (string \<Rightarrow> string) \<Rightarrow> globPattern \<Rightarrow> component \<Rightarrow> string \<Rightarrow> bool option" where
  "component_matches equalFold toLower p c pathPart =
    (if comp_kind c = kindLiteral then
       if skipPackageFolders c \<and> isPackageFolder equalFold pathPart then None
       else Some (stringsEqual equalFold p (comp_literal c) pathPart)
     else Some (\<not> (skipPackageFolders c \<and> isPackageFolder equalFold pathPart)
       \<and> matchWildcard equalFold toLower p (comp_segments c) pathPart))"

lemma slash_run:
  fixes s :: string and offset :: nat
  defines "k \<equiv> offset + run_length (\<lambda>c. c = slash) (drop offset s)"
  assumes "k < length s"
  shows "s ! k \<noteq> slash" "IndexByte (drop k s) slash = Some i \<Longrightarrow> 0 < i \<and> k + i < length s"
proof -
  have "run_length (\<lambda>c. c = slash) (drop offset s) < length (drop offset s)"
    using assms by (simp add: k_def)
  from run_length_stop [OF this] show n: "s ! k \<noteq> slash" using assms by (simp add: k_def)
  assume i: "IndexByte (drop k s) slash = Some i"
  have "drop k s ! 0 = s ! k" using assms by simp
  then have "0 < i" using IndexByte_Some [OF i] n by (cases i) auto
  moreover have "i < length s - k" using IndexByte_Some [OF i] by simp
  ultimately show "0 < i \<and> k + i < length s" by linarith
qed

lemma scan_part_offset:
  fixes s :: string and offset :: nat
  defines "k \<equiv> offset + run_length (\<lambda>c. c = slash) (drop offset s)"
  assumes "(case IndexByte (drop k s) slash of Some idx \<Rightarrow> Part (take idx (drop k s)) (k + idx) | None \<Rightarrow> r) = Part part n"
    and "k < length s" "r = Part part n \<Longrightarrow> n = length s"
  shows "offset < n \<and> n \<le> length s"
proof (cases "IndexByte (drop k s) slash")
  case None
  then show ?thesis using assms by simp
next
  case (Some i)
  then have "0 < i \<and> k + i < length s" using slash_run(2) [of offset s] assms(3) unfolding k_def by blast
  then show ?thesis using assms(2) Some by (auto simp: k_def)
qed

lemma nextPathPartSingle_offset:
  assumes "nextPathPartSingle s offset = Part part n"
  shows "offset < n \<and> n \<le> length s"
proof (cases "length s \<le> offset \<or> offset = 0 \<and> s ! 0 = slash")
  case True
  then show ?thesis using assms by (cases s) (auto simp: nextPathPartSingle_def split: if_splits)
next
  case False
  define k where "k = offset + run_length (\<lambda>c. c = slash) (drop offset s)"
  have eq: "nextPathPartSingle s offset = (if length s \<le> k then NoPart
      else (case IndexByte (drop k s) slash of
          Some idx \<Rightarrow> Part (take idx (drop k s)) (k + idx) | None \<Rightarrow> Part (drop k s) (length s)))"
    using False unfolding nextPathPartSingle_def Let_def k_def by (simp only: if_False de_Morgan_disj)
  then have "k < length s" using assms by (simp split: if_splits)
  then show ?thesis
    using scan_part_offset [where s = s and offset = offset and r = "Part (drop k s) (length s)" and part = part and n = n]
      assms eq unfolding k_def [symmetric] by simp
qed

lemma nextPathPartParts_offset:
  assumes "nextPathPartParts pre suf offset = Part part n"
  shows "offset < n \<and> n \<le> length pre + length suf"
proof (cases "suf = [] \<or> pre = []")
  case True
  then show ?thesis using assms nextPathPartSingle_offset by (fastforce simp: nextPathPartParts_def split: if_splits)
next
  case ne: False
  let ?k = "offset + run_length (\<lambda>c. c = slash) (drop offset pre)"
  show ?thesis
  proof (cases "?k < length pre \<and> offset < length pre \<and> \<not> (offset = 0 \<and> pre ! 0 = slash)")
    case True
    then have "offset < n \<and> n \<le> length pre"
      using scan_part_offset [where s = pre and offset = offset and r = PartPanic and part = part and n = n] assms ne
      by (simp add: nextPathPartParts_def Let_def split: if_splits)
    then show ?thesis by simp
  next
    case False
    then show ?thesis using assms ne by (cases suf) (auto simp: nextPathPartParts_def Let_def split: if_splits)
  qed
qed

function (sequential) matchPathParts ::
    "(string \<Rightarrow> string \<Rightarrow> bool) \<Rightarrow> (string \<Rightarrow> string) \<Rightarrow> globPattern \<Rightarrow> string \<Rightarrow> string \<Rightarrow> nat \<Rightarrow> nat \<Rightarrow> bool
      \<Rightarrow> bool option" where
  "matchPathParts equalFold toLower p pre suf pathOffset compIdx prefixOnly =
    (case nextPathPartParts pre suf pathOffset of
       PartPanic \<Rightarrow> None
     | NoPart \<Rightarrow> Some (if prefixOnly then True else patternSatisfied p compIdx)
     | Part pathPart nextOffset \<Rightarrow>
         if length (gp_components p) \<le> compIdx then Some (gp_isExclude p \<and> \<not> prefixOnly)
         else
           let c = gp_components p ! compIdx in
           if comp_kind c = kindDoubleAsterisk then
             (case matchPathParts equalFold toLower p pre suf pathOffset (compIdx + 1) prefixOnly of
                None \<Rightarrow> None
              | Some True \<Rightarrow> Some True
              | Some False \<Rightarrow>
                  if \<not> gp_isExclude p \<and> (isHiddenPath pathPart \<or> isPackageFolder equalFold pathPart)
                  then Some False
                  else matchPathParts equalFold toLower p pre suf nextOffset compIdx prefixOnly)
           else
             (case component_matches equalFold toLower p c pathPart of
                None \<Rightarrow> None
              | Some False \<Rightarrow> Some False
              | Some True \<Rightarrow>
                  matchPathParts equalFold toLower p pre suf nextOffset (compIdx + 1) prefixOnly))"
  by pat_completeness auto
termination
  by (relation "measure (\<lambda>(_, _, p, pre, suf, offset, compIdx, _).
      (length pre + length suf - offset) + (length (gp_components p) - compIdx))")
    (auto dest: nextPathPartParts_offset)

declare matchPathParts.simps [simp del]

definition matches :: "(string \<Rightarrow> string \<Rightarrow> bool) \<Rightarrow> (string \<Rightarrow> string) \<Rightarrow> globPattern \<Rightarrow> string \<Rightarrow> bool option" where
  "matches equalFold toLower p path = matchPathParts equalFold toLower p path [] 0 0 False"

definition matchesParts ::
    "(string \<Rightarrow> string \<Rightarrow> bool) \<Rightarrow> (string \<Rightarrow> string) \<Rightarrow> globPattern \<Rightarrow> string \<Rightarrow> string \<Rightarrow> bool option" where
  "matchesParts equalFold toLower p pre suf = matchPathParts equalFold toLower p pre suf 0 0 False"

definition matchesPrefixParts ::
    "(string \<Rightarrow> string \<Rightarrow> bool) \<Rightarrow> (string \<Rightarrow> string) \<Rightarrow> globPattern \<Rightarrow> string \<Rightarrow> string \<Rightarrow> bool option" where
  "matchesPrefixParts equalFold toLower p pre suf = matchPathParts equalFold toLower p pre suf 0 0 True"

section \<open>Matchers\<close>

record globMatcher =
  gm_includes :: "globPattern list"
  gm_excludes :: "globPattern list"
  hadIncludes :: bool

definition compile_specs ::
    "(string \<Rightarrow> string \<Rightarrow> bool) \<Rightarrow> string list \<Rightarrow> string \<Rightarrow> Usage \<Rightarrow> bool \<Rightarrow> globPattern list" where
  "compile_specs equalFold specs basePath usage caseSensitive =
    List.map_filter (\<lambda>spec. compileGlobPattern equalFold spec basePath usage caseSensitive) specs"

definition newGlobMatcher ::
    "(string \<Rightarrow> string \<Rightarrow> bool) \<Rightarrow> string list \<Rightarrow> string list \<Rightarrow> string \<Rightarrow> bool \<Rightarrow> Usage \<Rightarrow> globMatcher" where
  "newGlobMatcher equalFold includeSpecs excludeSpecs basePath caseSensitive usage =
    \<lparr>gm_includes = compile_specs equalFold includeSpecs basePath usage caseSensitive,
     gm_excludes = compile_specs equalFold excludeSpecs basePath UsageExclude caseSensitive,
     hadIncludes = (0 < length includeSpecs)\<rparr>"

text \<open>The index of the first pattern that \<open>test\<close> accepts, from index \<open>i\<close> on; \<open>None\<close> is a panic of \<open>test\<close>.\<close>

fun first_match :: "(globPattern \<Rightarrow> bool option) \<Rightarrow> nat \<Rightarrow> globPattern list \<Rightarrow> nat option option" where
  "first_match test i [] = Some None"
| "first_match test i (p # ps) =
    (case test p of None \<Rightarrow> None | Some True \<Rightarrow> Some (Some i) | Some False \<Rightarrow> first_match test (i + 1) ps)"

definition matchesFileParts ::
    "(string \<Rightarrow> string \<Rightarrow> bool) \<Rightarrow> (string \<Rightarrow> string) \<Rightarrow> globMatcher \<Rightarrow> string \<Rightarrow> string \<Rightarrow> (nat \<times> bool) option" where
  "matchesFileParts equalFold toLower m pre suf =
    (case first_match (\<lambda>p. matchesParts equalFold toLower p pre suf) 0 (gm_excludes m) of
       None \<Rightarrow> None
     | Some (Some _) \<Rightarrow> Some (0, False)
     | Some None \<Rightarrow>
         if gm_includes m = [] then Some (0, \<not> hadIncludes m)
         else (case first_match (\<lambda>p. matchesParts equalFold toLower p pre suf) 0 (gm_includes m) of
             None \<Rightarrow> None | Some (Some i) \<Rightarrow> Some (i, True) | Some None \<Rightarrow> Some (0, False)))"

definition matchesDirectoryParts ::
    "(string \<Rightarrow> string \<Rightarrow> bool) \<Rightarrow> (string \<Rightarrow> string) \<Rightarrow> globMatcher \<Rightarrow> string \<Rightarrow> string \<Rightarrow> bool option" where
  "matchesDirectoryParts equalFold toLower m pre suf =
    (case first_match (\<lambda>p. matchesParts equalFold toLower p pre suf) 0 (gm_excludes m) of
       None \<Rightarrow> None
     | Some (Some _) \<Rightarrow> Some False
     | Some None \<Rightarrow>
         if gm_includes m = [] then Some (\<not> hadIncludes m)
         else map_option (\<lambda>r. r \<noteq> None)
           (first_match (\<lambda>p. matchesPrefixParts equalFold toLower p pre suf) 0 (gm_includes m)))"

text \<open>\<open>SpecMatcher\<close> is its list of patterns; \<open>NewSpecMatcher\<close> returns nil for none.\<close>

type_synonym SpecMatcher = "globPattern list"

definition MatchIndex ::
    "(string \<Rightarrow> string \<Rightarrow> bool) \<Rightarrow> (string \<Rightarrow> string) \<Rightarrow> SpecMatcher \<Rightarrow> string \<Rightarrow> int option" where
  "MatchIndex equalFold toLower m path =
    map_option (\<lambda>r. case r of None \<Rightarrow> -1 | Some i \<Rightarrow> int i) (first_match (\<lambda>p. matches equalFold toLower p path) 0 m)"

definition MatchString ::
    "(string \<Rightarrow> string \<Rightarrow> bool) \<Rightarrow> (string \<Rightarrow> string) \<Rightarrow> SpecMatcher \<Rightarrow> string \<Rightarrow> bool option" where
  "MatchString equalFold toLower m path =
    map_option (\<lambda>r. r \<noteq> None) (first_match (\<lambda>p. matches equalFold toLower p path) 0 m)"

definition NewSpecMatcher ::
    "(string \<Rightarrow> string \<Rightarrow> bool) \<Rightarrow> string list \<Rightarrow> string \<Rightarrow> Usage \<Rightarrow> bool \<Rightarrow> SpecMatcher option" where
  "NewSpecMatcher equalFold specs basePath usage caseSensitive =
    (let patterns = compile_specs equalFold specs basePath usage caseSensitive
     in if specs = [] then None else if patterns = [] then None else Some patterns)"

end
