(* ===== verification/VfsGlobProps.thy ===== *)
theory VfsGlobProps
  imports VfsGlob Wtf8
begin

text \<open>
  The iterative matcher of wildcard components agrees with backtracking, and the pruning of
  directories loses no file.
\<close>

section \<open>Rune boundaries\<close>

text \<open>The offset of the \<open>i\<close>-th rune of a string, its length from the end on.\<close>

fun rune_offset :: "string \<Rightarrow> nat \<Rightarrow> nat" where
  "rune_offset s 0 = 0"
| "rune_offset s (Suc i) = (let k = rune_offset s i in k + snd (DecodeRune (drop k s)))"

definition boundary :: "string \<Rightarrow> nat \<Rightarrow> bool" where
  "boundary s k \<longleftrightarrow> k \<in> set (map (rune_offset s) [0..<Suc (length s)])"

lemma rune_offset_le: "rune_offset s i \<le> length s"
proof (induction i)
  case (Suc i)
  then show ?case using DecodeRune_size_le [of "drop (rune_offset s i) s"] by (simp add: Let_def)
qed simp

lemma rune_offset_mono: "i \<le> j \<Longrightarrow> rune_offset s i \<le> rune_offset s j"
  by (rule lift_Suc_mono_le [of "rune_offset s"]) (simp_all add: Let_def)

lemma rune_offset_progress: "min i (length s) \<le> rune_offset s i"
proof (induction i)
  case (Suc i)
  show ?case
  proof (cases "rune_offset s i < length s")
    case True
    then have "0 < snd (DecodeRune (drop (rune_offset s i) s))" by (simp add: DecodeRune_size_pos)
    then show ?thesis using Suc by (simp add: Let_def)
  next
    case False
    then show ?thesis using Suc by (simp add: Let_def)
  qed
qed simp

lemma boundary_iff: "boundary s k \<longleftrightarrow> (\<exists>i. k = rune_offset s i)"
proof
  assume "\<exists>i. k = rune_offset s i"
  then obtain i where i: "k = rune_offset s i" by blast
  show "boundary s k"
  proof (cases "i \<le> length s")
    case True
    then have "i \<in> set [0..<Suc (length s)]" by auto
    then show ?thesis unfolding boundary_def set_map i by (rule imageI)
  next
    case False
    then have "k = length s" using i rune_offset_le [of s i] rune_offset_progress [of i s] by simp
    moreover have "rune_offset s (length s) = length s"
      using rune_offset_le [of s "length s"] rune_offset_progress [of "length s" s] by simp
    ultimately have "k = rune_offset s (length s)" by simp
    moreover have "length s \<in> set [0..<Suc (length s)]" by simp
    ultimately show ?thesis unfolding boundary_def set_map by (metis imageI)
  qed
qed (auto simp: boundary_def)

lemma boundary_0 [simp]: "boundary s 0"
  unfolding boundary_iff by (rule exI [of _ 0]) simp

lemma boundary_le: "boundary s k \<Longrightarrow> k \<le> length s"
  by (auto simp: boundary_iff rune_offset_le)

lemma boundary_step: "boundary s k \<Longrightarrow> boundary s (k + snd (DecodeRune (drop k s)))"
  unfolding boundary_iff by (metis rune_offset.simps(2))

lemma boundary_next:
  assumes "boundary s a" "boundary s b" "a < b"
  shows "a + snd (DecodeRune (drop a s)) \<le> b"
proof -
  obtain i j where ij: "a = rune_offset s i" "b = rune_offset s j" using assms by (auto simp: boundary_iff)
  then have "i < j" using assms(3) rune_offset_mono [of j i s] by (cases "i < j") auto
  then have "rune_offset s (Suc i) \<le> b" using ij rune_offset_mono [of "Suc i" j s] by simp
  then show ?thesis using ij by (simp add: Let_def)
qed

section \<open>Backtracking\<close>

function (sequential) glob_matches :: "(string \<Rightarrow> string \<Rightarrow> bool) \<Rightarrow> segment list \<Rightarrow> string \<Rightarrow> bool" where
  "glob_matches eq [] s = (s = [])"
| "glob_matches eq (seg # segs) s =
    (case seg_kind seg of
       segLiteral \<Rightarrow>
         let n = length (seg_literal seg)
         in n \<le> length s \<and> eq (seg_literal seg) (take n s) \<and> glob_matches eq segs (drop n s)
     | segQuestion \<Rightarrow> s \<noteq> [] \<and> glob_matches eq segs (drop (snd (DecodeRune s)) s)
     | segStar \<Rightarrow> glob_matches eq segs s
         \<or> (if s = [] then False else glob_matches eq (seg # segs) (drop (snd (DecodeRune s)) s)))"
  by pat_completeness auto
termination
  by (relation "measure (\<lambda>(_, segs, s). length segs + length s)") (auto simp: DecodeRune_size_pos)

declare glob_matches.simps [simp del]

text \<open>Where a literal matches at a boundary it ends at a boundary.\<close>

definition aligned :: "(string \<Rightarrow> string \<Rightarrow> bool) \<Rightarrow> segment list \<Rightarrow> string \<Rightarrow> bool" where
  "aligned eq segs s \<longleftrightarrow>
    list_all (\<lambda>seg. seg_kind seg = segLiteral \<longrightarrow>
      list_all (\<lambda>i. let k = rune_offset s i; n = length (seg_literal seg) in
        k + n \<le> length s \<and> eq (seg_literal seg) (slc s k (k + n)) \<longrightarrow> boundary s (k + n)) [0..<Suc (length s)]) segs"

lemma aligned_literal:
  assumes "aligned eq segs s" "seg \<in> set segs" "seg_kind seg = segLiteral" "boundary s k"
    "k + length (seg_literal seg) \<le> length s" "eq (seg_literal seg) (slc s k (k + length (seg_literal seg)))"
  shows "boundary s (k + length (seg_literal seg))"
  using assms by (auto simp: aligned_def list_all_iff Let_def boundary_def [of s k])

lemma glob_literal:
  assumes "seg_kind seg = segLiteral" "k \<le> length s"
  shows "glob_matches eq (seg # segs) (drop k s) \<longleftrightarrow>
    k + length (seg_literal seg) \<le> length s \<and> eq (seg_literal seg) (slc s k (k + length (seg_literal seg)))
    \<and> glob_matches eq segs (drop (k + length (seg_literal seg)) s)"
  using assms by (subst glob_matches.simps) (auto simp: Let_def slc_def add.commute)

lemma glob_question:
  assumes "seg_kind seg = segQuestion"
  shows "glob_matches eq (seg # segs) (drop k s) \<longleftrightarrow>
    k < length s \<and> glob_matches eq segs (drop (k + snd (DecodeRune (drop k s))) s)"
  using assms by (subst glob_matches.simps) (auto simp: add.commute)

lemma glob_star:
  assumes "seg_kind seg = segStar"
  shows "glob_matches eq (seg # segs) (drop k s) \<longleftrightarrow> glob_matches eq segs (drop k s) \<or>
    k < length s \<and> glob_matches eq (seg # segs) (drop (k + snd (DecodeRune (drop k s))) s)"
  using assms by (subst glob_matches.simps) (auto simp: add.commute)

text \<open>A star eats up to any later boundary, and only to boundaries.\<close>

lemma glob_star_later:
  assumes "seg_kind seg = segStar" "boundary s a" "boundary s b" "a \<le> b"
    and "glob_matches eq segs (drop b s)"
  shows "glob_matches eq (seg # segs) (drop a s)"
  using assms(2-4)
proof (induction "b - a" arbitrary: a rule: less_induct)
  case less
  show ?case
  proof (cases "a = b")
    case True
    then show ?thesis using assms(1,5) by (subst glob_star) auto
  next
    case False
    let ?n = "snd (DecodeRune (drop a s))"
    have lt: "a < b" "a < length s" using False less.prems boundary_le [of s b] by auto
    then have "0 < ?n" by (simp add: DecodeRune_size_pos)
    moreover have "a + ?n \<le> b" using boundary_next less.prems lt by blast
    ultimately have "glob_matches eq (seg # segs) (drop (a + ?n) s)"
      using less.hyps [of "a + ?n"] boundary_step less.prems by simp
    then show ?thesis using lt assms(1) by (subst glob_star) auto
  qed
qed

lemma glob_star_somewhere:
  assumes "seg_kind seg = segStar" "boundary s a" "glob_matches eq (seg # segs) (drop a s)"
  shows "\<exists>b. boundary s b \<and> a \<le> b \<and> glob_matches eq segs (drop b s)"
  using assms(2,3)
proof (induction "length s - a" arbitrary: a rule: less_induct)
  case less
  show ?case
  proof (cases "glob_matches eq segs (drop a s)")
    case True
    then show ?thesis using less.prems by auto
  next
    case False
    let ?n = "snd (DecodeRune (drop a s))"
    have lt: "a < length s" "glob_matches eq (seg # segs) (drop (a + ?n) s)"
      using iffD1 [OF glob_star [OF assms(1)] less.prems(2)] False by blast+
    then have "0 < ?n" by (simp add: DecodeRune_size_pos)
    then obtain b where "boundary s b" "a + ?n \<le> b" "glob_matches eq segs (drop b s)"
    proof -
      have "length s - (a + ?n) < length s - a" using lt(1) \<open>0 < ?n\<close> by linarith
      then show ?thesis using less.hyps [of "a + ?n", OF _ boundary_step [OF less.prems(1)] lt(2)] that by blast
    qed
    then show ?thesis by (intro exI [of _ b]) simp
  qed
qed

section \<open>The loop\<close>

text \<open>
  What holds before each iteration: the pattern matches from the start if it matches from the last
  star; and if the part after that star matches at some later boundary, then the part still to be
  matched does at or after the current position.
\<close>

fun loop_inv :: "(string \<Rightarrow> string \<Rightarrow> bool) \<Rightarrow> segment list \<Rightarrow> string \<Rightarrow> match_state \<Rightarrow> bool" where
  "loop_inv eq segs s (i, k, star) \<longleftrightarrow> i \<le> length segs \<and> boundary s k \<and>
    (case star of
       None \<Rightarrow> glob_matches eq segs s = glob_matches eq (drop i segs) (drop k s)
     | Some (j, u) \<Rightarrow> j < i \<and> boundary s u \<and> u \<le> k \<and> seg_kind (segs ! j) = segStar
         \<and> glob_matches eq segs s = glob_matches eq (drop j segs) (drop u s)
         \<and> (glob_matches eq (drop i segs) (drop k s) = glob_matches eq (drop (Suc j) segs) (drop u s))
         \<and> (\<forall>v. boundary s v \<and> u \<le> v \<and> glob_matches eq (drop (Suc j) segs) (drop v s)
             \<longrightarrow> (\<exists>w. boundary s w \<and> k \<le> w \<and> glob_matches eq (drop i segs) (drop w s))))"

fun loop_measures :: "segment list \<Rightarrow> string \<Rightarrow> match_state \<Rightarrow> nat \<times> nat \<times> nat" where
  "loop_measures segs s (i, k, star) =
    (case star of None \<Rightarrow> Suc (length segs) | Some (j, u) \<Rightarrow> length segs - j,
     case star of None \<Rightarrow> 0 | Some (j, u) \<Rightarrow> length s - u, length segs - i)"

definition loop_less :: "segment list \<Rightarrow> string \<Rightarrow> (match_state \<times> match_state) set" where
  "loop_less segs s = inv_image (less_than <*lex*> less_than <*lex*> less_than) (loop_measures segs s)"

lemma wf_loop_less: "wf (loop_less segs s)"
  by (auto simp: loop_less_def)

lemma drop_Cons_nth: "i < length xs \<Longrightarrow> drop i xs = xs ! i # drop (Suc i) xs"
  by (rule Cons_nth_drop_Suc [symmetric])

lemma glob_no_segment: "glob_matches eq [] (drop k s) = (length s \<le> k)"
  by (simp add: glob_matches.simps)

lemma glob_at_end:
  assumes "list_all (\<lambda>seg. seg_kind seg = segLiteral \<longrightarrow> seg_literal seg \<noteq> []) segs"
  shows "glob_matches eq segs [] \<longleftrightarrow> list_all (\<lambda>seg. seg_kind seg = segStar) segs"
  using assms by (induction segs) (auto simp: glob_matches.simps split: segmentKind.split)

text \<open>When the current segment does not match, the star takes one more rune.\<close>

lemma backtrack_inv:
  assumes inv: "loop_inv eq segs s (i, k, star)" and fail: "\<not> glob_matches eq (drop i segs) (drop k s)"
    and k: "k < length s" and ns: "slash \<notin> set s"
  shows "(\<exists>st. backtrack s star = Inr st \<and> loop_inv eq segs s st \<and> (st, (i, k, star)) \<in> loop_less segs s)
    \<or> (backtrack s star = Inl False \<and> \<not> glob_matches eq segs s)"
proof (cases star)
  case None
  then show ?thesis using inv fail by (simp add: backtrack_def)
next
  case (Some p)
  obtain j u where ju: "star = Some (j, u)" using Some by (cases p) auto
  have j: "j < i" "i \<le> length segs" and u: "boundary s u" "u \<le> k" "u < length s" and st: "seg_kind (segs ! j) = segStar"
    and whole: "glob_matches eq segs s = glob_matches eq (drop j segs) (drop u s)"
    using inv k unfolding ju by auto
  let ?n = "snd (DecodeRune (drop u s))"
  have dj: "drop j segs = segs ! j # drop (Suc j) segs" using j by (simp add: drop_Cons_nth)
  have "\<not> glob_matches eq (drop (Suc j) segs) (drop u s)" using inv fail unfolding ju by simp
  then have w: "glob_matches eq segs s = glob_matches eq (drop j segs) (drop (u + ?n) s)"
    using whole u(3) unfolding dj glob_star [OF st, of _ _ u] by simp
  have bt: "backtrack s star = Inr (Suc j, u + ?n, Some (j, u + ?n))"
    using u(3) ns by (auto simp: ju backtrack_def Let_def in_set_conv_nth)
  have "loop_inv eq segs s (Suc j, u + ?n, Some (j, u + ?n))"
    using w j u st boundary_step by auto
  moreover have "0 < ?n" using u(3) by (simp add: DecodeRune_size_pos)
  then have "length s - (u + ?n) < length s - u" using u(3) by linarith
  then have "((Suc j, u + ?n, Some (j, u + ?n)), (i, k, star)) \<in> loop_less segs s"
    by (simp add: loop_less_def ju)
  ultimately show ?thesis using bt by blast
qed

lemma star_inv:
  assumes inv: "loop_inv eq segs s (i, k, star)" and i: "i < length segs" "seg_kind (segs ! i) = segStar"
  shows "loop_inv eq segs s (Suc i, k, Some (i, k))"
proof -
  have b: "boundary s k" using inv by simp
  have di: "drop i segs = segs ! i # drop (Suc i) segs" using i by (simp add: drop_Cons_nth)
  have "glob_matches eq segs s = glob_matches eq (drop i segs) (drop k s)"
  proof (cases star)
    case None
    then show ?thesis using inv by simp
  next
    case (Some p)
    obtain j u where ju: "star = Some (j, u)" using Some by (cases p) auto
    have j: "j < i" and u: "boundary s u" and st: "seg_kind (segs ! j) = segStar"
      and whole: "glob_matches eq segs s = glob_matches eq (drop j segs) (drop u s)"
      and here: "glob_matches eq (drop i segs) (drop k s) = glob_matches eq (drop (Suc j) segs) (drop u s)"
      and later: "\<And>v. boundary s v \<Longrightarrow> u \<le> v \<Longrightarrow> glob_matches eq (drop (Suc j) segs) (drop v s)
        \<Longrightarrow> \<exists>w. boundary s w \<and> k \<le> w \<and> glob_matches eq (drop i segs) (drop w s)"
      using inv unfolding ju by auto
    have dj: "drop j segs = segs ! j # drop (Suc j) segs" using j i by (simp add: drop_Cons_nth)
    show ?thesis
    proof
      assume "glob_matches eq (drop i segs) (drop k s)"
      then show "glob_matches eq segs s"
        unfolding whole dj glob_star [OF st, of _ _ u] here by simp
    next
      assume "glob_matches eq segs s"
      then obtain v where "boundary s v" "u \<le> v" "glob_matches eq (drop (Suc j) segs) (drop v s)"
        using glob_star_somewhere [OF st u] unfolding whole dj by blast
      then obtain w where w: "boundary s w" "k \<le> w" "glob_matches eq (drop i segs) (drop w s)"
        using later by blast
      then obtain x where "boundary s x" "w \<le> x" "glob_matches eq (drop (Suc i) segs) (drop x s)"
        using glob_star_somewhere [OF i(2) w(1)] unfolding di by blast
      then show "glob_matches eq (drop i segs) (drop k s)"
        unfolding di using glob_star_later [OF i(2) b] w(2) by simp
    qed
  qed
  then show ?thesis using i b by auto
qed

text \<open>A literal or a question mark that matches moves on.\<close>

lemma advance_inv:
  assumes inv: "loop_inv eq segs s (i, k, star)" and i: "i < length segs"
    and b: "boundary s k'" and here: "glob_matches eq (drop i segs) (drop k s) = glob_matches eq (drop (Suc i) segs) (drop k' s)"
    and k: "k \<le> k'"
    and later: "\<And>w. boundary s w \<Longrightarrow> k \<le> w \<Longrightarrow> glob_matches eq (drop i segs) (drop w s)
      \<Longrightarrow> \<exists>x. boundary s x \<and> k' \<le> x \<and> glob_matches eq (drop (Suc i) segs) (drop x s)"
  shows "loop_inv eq segs s (Suc i, k', star)"
proof (cases star)
  case None
  then show ?thesis using inv i b here by simp
next
  case (Some p)
  obtain j u where ju: "star = Some (j, u)" using Some by (cases p) auto
  have "\<exists>x. boundary s x \<and> k' \<le> x \<and> glob_matches eq (drop (Suc i) segs) (drop x s)"
    if "boundary s v" "u \<le> v" "glob_matches eq (drop (Suc j) segs) (drop v s)" for v
    using inv that later unfolding ju by (simp only: loop_inv.simps option.case prod.case) blast
  then have "\<forall>v. boundary s v \<and> u \<le> v \<and> glob_matches eq (drop (Suc j) segs) (drop v s)
      \<longrightarrow> (\<exists>x. boundary s x \<and> k' \<le> x \<and> glob_matches eq (drop (Suc i) segs) (drop x s))"
    by blast
  then show ?thesis using inv i b here k unfolding ju loop_inv.simps option.case prod.case
    by (elim conjE, intro conjI) (assumption | simp)+
qed

lemma end_inv:
  assumes inv: "loop_inv eq segs s (i, k, star)" and k: "k = length s"
    and ne: "list_all (\<lambda>seg. seg_kind seg = segLiteral \<longrightarrow> seg_literal seg \<noteq> []) segs"
  shows "list_all (\<lambda>seg. seg_kind seg = segStar) (drop i segs) = glob_matches eq segs s"
proof -
  have "list_all (\<lambda>seg. seg_kind seg = segLiteral \<longrightarrow> seg_literal seg \<noteq> []) (drop i segs)"
    using ne by (auto simp: list_all_iff dest: in_set_dropD)
  from glob_at_end [OF this, of eq]
  have r: "list_all (\<lambda>seg. seg_kind seg = segStar) (drop i segs) = glob_matches eq (drop i segs) (drop k s)"
    by (simp add: k)
  show ?thesis
  proof (cases star)
    case None
    then show ?thesis using inv r by simp
  next
    case (Some p)
    obtain j u where ju: "star = Some (j, u)" using Some by (cases p) auto
    have j: "j < i" "i \<le> length segs" and u: "boundary s u" and st: "seg_kind (segs ! j) = segStar"
      and whole: "glob_matches eq segs s = glob_matches eq (drop j segs) (drop u s)"
      and here: "glob_matches eq (drop i segs) (drop k s) = glob_matches eq (drop (Suc j) segs) (drop u s)"
      and later: "\<And>v. boundary s v \<Longrightarrow> u \<le> v \<Longrightarrow> glob_matches eq (drop (Suc j) segs) (drop v s)
        \<Longrightarrow> \<exists>w. boundary s w \<and> k \<le> w \<and> glob_matches eq (drop i segs) (drop w s)"
      using inv unfolding ju by auto
    have dj: "drop j segs = segs ! j # drop (Suc j) segs" using j by (simp add: drop_Cons_nth)
    show ?thesis
      unfolding r
    proof
      assume "glob_matches eq (drop i segs) (drop k s)"
      then show "glob_matches eq segs s" unfolding whole dj glob_star [OF st, of _ _ u] here by simp
    next
      assume "glob_matches eq segs s"
      then obtain v where "boundary s v" "u \<le> v" "glob_matches eq (drop (Suc j) segs) (drop v s)"
        using glob_star_somewhere [OF st u] unfolding whole dj by blast
      then obtain w where "boundary s w" "k \<le> w" "glob_matches eq (drop i segs) (drop w s)" using later by blast
      moreover from this have "w = k" using boundary_le [of s w] k by simp
      ultimately show "glob_matches eq (drop i segs) (drop k s)" by simp
    qed
  qed
qed

lemma literal_inv:
  assumes inv: "loop_inv eq segs s (i, k, star)" and i: "i < length segs" "seg_kind (segs ! i) = segLiteral"
    and al: "aligned eq segs s" and n: "n = length (seg_literal (segs ! i))"
    and m: "k + n \<le> length s" "eq (seg_literal (segs ! i)) (slc s k (k + n))"
  shows "loop_inv eq segs s (Suc i, k + n, star)"
proof (rule advance_inv [OF inv i(1)])
  have di: "drop i segs = segs ! i # drop (Suc i) segs" using i by (simp add: drop_Cons_nth)
  note lit = aligned_literal [OF al nth_mem [OF i(1)] i(2), folded n]
  show "boundary s (k + n)" using lit inv m by simp
  show "glob_matches eq (drop i segs) (drop k s) = glob_matches eq (drop (Suc i) segs) (drop (k + n) s)"
    using m unfolding di by (subst glob_literal [OF i(2)]) (simp_all add: n)
  fix w assume w: "boundary s w" "k \<le> w" "glob_matches eq (drop i segs) (drop w s)"
  then have "w + n \<le> length s \<and> eq (seg_literal (segs ! i)) (slc s w (w + n)) \<and> glob_matches eq (drop (Suc i) segs) (drop (w + n) s)"
    using glob_literal [OF i(2) boundary_le [OF w(1)]] unfolding di n by blast
  then show "\<exists>x. boundary s x \<and> k + n \<le> x \<and> glob_matches eq (drop (Suc i) segs) (drop x s)"
    using lit w(1,2) by (intro exI [of _ "w + n"]) simp
qed simp

lemma question_inv:
  assumes inv: "loop_inv eq segs s (i, k, star)" and i: "i < length segs" "seg_kind (segs ! i) = segQuestion"
    and k: "k < length s"
  shows "loop_inv eq segs s (Suc i, k + snd (DecodeRune (drop k s)), star)"
proof (rule advance_inv [OF inv i(1)])
  have b: "boundary s k" using inv by simp
  have di: "drop i segs = segs ! i # drop (Suc i) segs" using i by (simp add: drop_Cons_nth)
  show "boundary s (k + snd (DecodeRune (drop k s)))" by (rule boundary_step [OF b])
  show "glob_matches eq (drop i segs) (drop k s)
      = glob_matches eq (drop (Suc i) segs) (drop (k + snd (DecodeRune (drop k s))) s)"
    using k unfolding di by (subst glob_question [OF i(2)]) simp
  fix w assume w: "boundary s w" "k \<le> w" "glob_matches eq (drop i segs) (drop w s)"
  let ?x = "w + snd (DecodeRune (drop w s))"
  have "glob_matches eq (drop (Suc i) segs) (drop ?x s)" using w(3) glob_question [OF i(2)] unfolding di by blast
  moreover have "k + snd (DecodeRune (drop k s)) \<le> ?x"
    using boundary_next [OF b w(1)] w(2) by (cases "k = w") auto
  ultimately show "\<exists>x. boundary s x \<and> k + snd (DecodeRune (drop k s)) \<le> x \<and> glob_matches eq (drop (Suc i) segs) (drop x s)"
    using boundary_step [OF w(1)] by blast
qed simp

lemma step_inv:
  assumes inv: "loop_inv eq segs s st" and ns: "slash \<notin> set s" and al: "aligned eq segs s"
    and ne: "list_all (\<lambda>seg. seg_kind seg = segLiteral \<longrightarrow> seg_literal seg \<noteq> []) segs"
  shows "(\<exists>st'. segments_step eq segs s st = Inr st' \<and> loop_inv eq segs s st' \<and> (st', st) \<in> loop_less segs s)
    \<or> segments_step eq segs s st = Inl (glob_matches eq segs s)"
proof -
  obtain i k star where st: "st = (i, k, star)" by (cases st) auto
  note inv = inv [unfolded st]
  have ik: "i \<le> length segs" "boundary s k" using inv by auto
  have less: "(case star of None \<Rightarrow> True | Some (j, u) \<Rightarrow> j < i)" using inv by (auto split: option.splits)
  have adv: "((Suc i, k', star), (i, k, star)) \<in> loop_less segs s" if "i < length segs" for k'
    using that by (simp add: loop_less_def diff_less_mono2)
  show ?thesis
  proof (cases "k < length s")
    case False
    then have "k = length s" using boundary_le [OF ik(2)] by simp
    then show ?thesis using end_inv [OF inv _ ne] False by (simp add: st)
  next
    case k: True
    note retry = backtrack_inv [OF inv _ k ns]
    show ?thesis
    proof (cases "i < length segs")
      case False
      then have "\<not> glob_matches eq (drop i segs) (drop k s)" using k by (simp add: glob_no_segment)
      from retry [OF this] show ?thesis using False k by (auto simp: st)
    next
      case i: True
      have di: "drop i segs = segs ! i # drop (Suc i) segs" using i by (simp add: drop_Cons_nth)
      have nsk: "s ! k \<noteq> slash" using ns k by (auto simp: in_set_conv_nth)
      show ?thesis
      proof (cases "seg_kind (segs ! i)")
        case segStar
        have "((Suc i, k, Some (i, k)), (i, k, star)) \<in> loop_less segs s"
          using less i by (auto simp: loop_less_def split: option.splits)
        then show ?thesis using star_inv [OF inv i segStar] k i segStar by (simp add: st)
      next
        case segQuestion
        then show ?thesis using question_inv [OF inv i segQuestion k] adv i k nsk by (simp add: st)
      next
        case segLiteral
        let ?l = "seg_literal (segs ! i)"
        show ?thesis
        proof (cases "k + length ?l \<le> length s \<and> eq ?l (slc s k (k + length ?l))")
          case True
          then show ?thesis using literal_inv [OF inv i segLiteral al refl] adv i k segLiteral by (simp add: st)
        next
          case False
          then have "\<not> glob_matches eq (drop i segs) (drop k s)"
            using k unfolding di by (subst glob_literal [OF segLiteral]) auto
          from retry [OF this] show ?thesis using False k i segLiteral by (auto simp: st)
        qed
      qed
    qed
  qed
qed

lemma segments_loop_glob:
  assumes "loop_inv eq segs s st" "slash \<notin> set s" "aligned eq segs s"
    and "list_all (\<lambda>seg. seg_kind seg = segLiteral \<longrightarrow> seg_literal seg \<noteq> []) segs"
  shows "segments_loop eq segs s st = Some (glob_matches eq segs s)"
  using assms(1)
proof (induction st rule: wf_induct_rule [OF wf_loop_less [of segs s]])
  case (1 st)
  then show ?case
    using step_inv [OF 1(2) assms(2-4)] by (subst segments_loop.simps) (auto split: sum.split)
qed

lemma parse_segments_nonempty:
  "list_all (\<lambda>seg. seg_kind seg = segLiteral \<longrightarrow> seg_literal seg \<noteq> []) (parse_segments_from lit p)"
  by (induction lit p rule: parse_segments_from.induct) (auto simp: literal_segment_def)

subsection \<open>Valid patterns compared exactly\<close>

definition utf8_text :: "string \<Rightarrow> bool" where
  "utf8_text l \<longleftrightarrow> (\<exists>rs. list_all ValidRune rs \<and> l = concat (map EncodeRune rs))"

lemma utf8_text_append: "utf8_text a \<Longrightarrow> utf8_text b \<Longrightarrow> utf8_text (a @ b)"
  unfolding utf8_text_def by (metis concat_append list_all_append map_append)

lemma boundary_text:
  assumes "list_all ValidRune rs" "boundary s k" "k \<le> length s" "take n (drop k s) = concat (map EncodeRune rs)"
    "n = length (concat (map EncodeRune rs))"
  shows "boundary s (k + n)"
  using assms
proof (induction rs arbitrary: k n)
  case (Cons r rs)
  let ?e = "EncodeRune r" and ?m = "length (concat (map EncodeRune rs))"
  have n: "n = length ?e + ?m" using Cons.prems by simp
  then have t: "take (length ?e) (drop k s) = ?e" "take ?m (drop (k + length ?e) s) = concat (map EncodeRune rs)"
    using arg_cong [OF Cons.prems(4), of "take (length ?e)"] arg_cong [OF Cons.prems(4), of "drop (length ?e)"]
    by (simp_all add: min_def drop_take add.commute)
  have len: "length ?e + ?m \<le> length s - k" using arg_cong [OF Cons.prems(4), of length] n by simp
  have "drop k s = ?e @ drop (k + length ?e) s"
    using append_take_drop_id [of "length ?e" "drop k s"] t(1) by (simp add: add.commute)
  then have "snd (DecodeRune (drop k s)) = length ?e"
    using Cons.prems(1) by (simp add: DecodeRune_EncodeRune)
  then have "boundary s (k + length ?e)" using boundary_step [OF Cons.prems(2)] by simp
  then have "boundary s (k + length ?e + ?m)"
    using Cons.IH [of "k + length ?e" ?m] Cons.prems(1,3) t(2) len by simp
  then show ?case by (simp add: n add.assoc)
qed simp

lemma utf8_aligned:
  assumes "list_all (\<lambda>seg. seg_kind seg = segLiteral \<longrightarrow> utf8_text (seg_literal seg)) segs"
  shows "aligned (=) segs s"
proof -
  have "boundary s (k + length l)" if "utf8_text l" "boundary s k" "k + length l \<le> length s" "l = slc s k (k + length l)" for k l
    using that boundary_text [of _ s k "length l"] by (auto simp: utf8_text_def slc_def)
  then show ?thesis
    using assms boundary_iff by (fastforce simp: aligned_def list_all_iff Let_def)
qed

lemma parse_plain:
  assumes "list_all (\<lambda>c. c \<noteq> CHR ''*'' \<and> c \<noteq> CHR ''?'') b"
  shows "parse_segments_from l (b @ p) = parse_segments_from (l @ b) p"
  using assms by (induction b arbitrary: l) auto

lemma EncodeRune_plain:
  assumes "ValidRune r" "r \<noteq> 0x2A" "r \<noteq> 0x3F"
  shows "list_all (\<lambda>c. c \<noteq> CHR ''*'' \<and> c \<noteq> CHR ''?'') (EncodeRune r)"
proof (cases "r < 0x80")
  case True
  then have "EncodeRune r = [byte_of r]" "rune_of (byte_of r) = r"
    using assms(1) by (auto simp: EncodeRune_ascii ValidRune_def)
  then show ?thesis using assms(2,3) by auto
next
  case False
  then have "list_all (\<lambda>c. 0x80 \<le> rune_of c) (EncodeRune r)" using EncodeRune_high assms(1) by simp
  then show ?thesis by (auto simp: list_all_iff)
qed

lemma parse_segments_utf8:
  assumes "list_all ValidRune rs" "utf8_text l"
  shows "list_all (\<lambda>seg. seg_kind seg = segLiteral \<longrightarrow> utf8_text (seg_literal seg))
    (parse_segments_from l (concat (map EncodeRune rs)))"
  using assms
proof (induction rs arbitrary: l)
  case Nil
  then show ?case by (simp add: literal_segment_def)
next
  case (Cons r rs)
  show ?case
  proof (cases "r = 0x2A \<or> r = 0x3F")
    case True
    then have "EncodeRune r = ''*'' \<or> EncodeRune r = ''?''"
      by (auto simp: EncodeRune_ascii byte_of_def char_of_def)
    moreover have "utf8_text []" unfolding utf8_text_def by (rule exI [of _ "[]"]) simp
    ultimately show ?thesis using Cons by (auto simp: literal_segment_def)
  next
    case False
    then have "parse_segments_from l (concat (map EncodeRune (r # rs)))
        = parse_segments_from (l @ EncodeRune r) (concat (map EncodeRune rs))"
      using Cons.prems(1) EncodeRune_plain [of r] by (simp add: parse_plain)
    moreover have "utf8_text (EncodeRune r)"
      unfolding utf8_text_def using Cons.prems(1) by (intro exI [of _ "[r]"]) simp
    ultimately show ?thesis using Cons utf8_text_append by simp
  qed
qed

lemma pattern_aligned:
  assumes "list_all ValidRune rs" "p = concat (map EncodeRune rs)"
  shows "aligned (=) (parseSegments p) s"
proof -
  have "utf8_text []" unfolding utf8_text_def by (rule exI [of _ "[]"]) simp
  then show ?thesis
    using utf8_aligned parse_segments_utf8 [OF assms(1)] by (simp add: parseSegments_def assms(2))
qed

text \<open>C38: The iterative matcher of a path component, which remembers only the last star, returns,
  and answers as backtracking over all stars does, for any pattern text whose literals match at
  rune boundaries only (by \<open>pattern_aligned\<close> every valid UTF-8 pattern compared exactly does).\<close>

theorem matchSegments_is_glob:
  assumes "slash \<notin> set s" "aligned eq (parseSegments p) s"
  shows "matchSegments eq (parseSegments p) s = glob_matches eq (parseSegments p) s
    \<and> segments_loop eq (parseSegments p) s (0, 0, None) \<noteq> None"
  using segments_loop_glob [OF _ assms parse_segments_nonempty [of "[]" p, folded parseSegments_def], of "(0, 0, None)"]
  by (simp add: matchSegments_def)

lemma matchSegments_is_glob_witness:
  "matchSegments (=) (parseSegments ''a*b?*'') ''aXbYb'' = glob_matches (=) (parseSegments ''a*b?*'') ''aXbYb''
    \<and> segments_loop (=) (parseSegments ''a*b?*'') ''aXbYb'' (0, 0, None) \<noteq> None"
  by (rule matchSegments_is_glob) (simp, code_simp)

end
