(* ===== verification/VfsPrune.thy ===== *)
theory VfsPrune
  imports VfsGlob
begin

text \<open>
  Matching as a function of the components of the path, and what follows for the traversal: a
  directory on the way to a matching file is never pruned.
\<close>

section \<open>The components of a path\<close>

definition path_words :: "string \<Rightarrow> string list" where
  "path_words s = filter (\<lambda>w. w \<noteq> []) (splitByte slash s)"

definition path_components :: "string \<Rightarrow> string list" where
  "path_components s = (if s \<noteq> [] \<and> hd s = slash then [] # path_words s else path_words s)"

lemma splitByte_nonempty: "splitByte c s \<noteq> []"
  by (induction s) (auto split: list.split)

lemma path_words_slash [simp]: "path_words (slash # s) = path_words s"
  by (simp add: path_words_def)

lemma splitByte_word: "c \<notin> set w \<Longrightarrow> splitByte c w = [w]"
  by (induction w) auto

lemma path_words_word: "slash \<notin> set w \<Longrightarrow> path_words w = (if w = [] then [] else [w])"
  by (simp add: path_words_def splitByte_word)

lemma path_words_Nil [simp]: "path_words [] = []"
  by (simp add: path_words_def)

lemma path_words_append: "path_words (a @ slash # b) = path_words a @ path_words b"
proof -
  have "splitByte c (a @ c # b) = splitByte c a @ splitByte c b" for c :: char
    by (induction a) (use splitByte_nonempty in \<open>auto split: list.split\<close>)
  then show ?thesis by (simp add: path_words_def)
qed

lemma path_words_slashes: "set a \<subseteq> {slash} \<Longrightarrow> path_words (a @ b) = path_words b"
  by (induction a) auto

text \<open>One step of either scanner, past the root.\<close>

lemma run_slashes: "set (take (run_length (\<lambda>c. c = slash) s) s) \<subseteq> {slash}"
  by (auto simp: run_length_def takeWhile_eq_take [symmetric] dest: set_takeWhileD)

lemma words_after_slashes:
  "path_words (drop off s) = path_words (drop (off + run_length (\<lambda>c. c = slash) (drop off s)) s)"
proof -
  let ?n = "run_length (\<lambda>c. c = slash) (drop off s)"
  have "path_words (drop off s) = path_words (take ?n (drop off s) @ drop ?n (drop off s))"
    by (simp only: append_take_drop_id)
  also have "\<dots> = path_words (drop ?n (drop off s))" by (rule path_words_slashes [OF run_slashes])
  finally show ?thesis by (simp add: add.commute)
qed

lemma words_at_word:
  assumes "IndexByte t slash = Some i" "0 < i"
  shows "path_words (t @ u) = take i t # path_words (drop i t @ u)"
proof -
  have i: "i < length t" "t ! i = slash" "slash \<notin> set (take i t)" using IndexByte_Some [OF assms(1)] by auto
  have "t = take i t @ slash # drop (Suc i) t" using id_take_nth_drop [OF i(1)] i(2) by simp
  then have "t @ u = take i t @ slash # (drop (Suc i) t @ u)" by (metis append.assoc append_Cons)
  then have "path_words (t @ u) = path_words (take i t) @ path_words (drop (Suc i) t @ u)"
    by (metis path_words_append)
  moreover have "drop i t @ u = slash # (drop (Suc i) t @ u)" using i Cons_nth_drop_Suc [of i t] by simp
  moreover have "t \<noteq> []" using i by auto
  ultimately show ?thesis using i assms(2) by (simp add: path_words_word)
qed

lemma single_words:
  assumes "0 < off \<or> s = [] \<or> hd s \<noteq> slash"
  shows "(case nextPathPartSingle s off of
      NoPart \<Rightarrow> path_words (drop off s) = []
    | Part w n \<Rightarrow> path_words (drop off s) = w # path_words (drop n s)
    | PartPanic \<Rightarrow> False)"
proof -
  define k where "k = off + run_length (\<lambda>c. c = slash) (drop off s)"
  have w: "path_words (drop off s) = path_words (drop k s)" unfolding k_def by (rule words_after_slashes)
  show ?thesis
  proof (cases "length s \<le> off \<or> length s \<le> k")
    case True
    then have "drop k s = []" by (auto simp: k_def)
    then show ?thesis using True w assms
      by (cases s) (auto simp: nextPathPartSingle_def Let_def k_def path_words_def)
  next
    case False
    then have np: "nextPathPartSingle s off = (case IndexByte (drop k s) slash of
          Some idx \<Rightarrow> Part (take idx (drop k s)) (k + idx) | None \<Rightarrow> Part (drop k s) (length s))"
      unfolding nextPathPartSingle_def Let_def k_def [symmetric] using assms by (cases s) auto
    have k: "k < length s" using False by simp
    show ?thesis
    proof (cases "IndexByte (drop k s) slash")
      case None
      then have "slash \<notin> set (drop k s)" by (simp add: IndexByte_None)
      then show ?thesis using np None w k by (simp add: path_words_word)
    next
      case (Some i)
      then have "0 < i" using slash_run(2) [of off s i] k by (simp add: k_def)
      then show ?thesis using np Some w words_at_word [of "drop k s" i "[]"] by (simp add: add.commute)
    qed
  qed
qed

lemma parts_words:
  assumes off: "0 < off \<or> hd (pre @ suf) \<noteq> slash \<or> pre @ suf = []"
    and suf: "suf = [] \<or> slash \<notin> set suf \<and> (pre = [] \<or> last pre = slash)"
  shows "(case nextPathPartParts pre suf off of
      NoPart \<Rightarrow> path_words (drop off (pre @ suf)) = []
    | Part w n \<Rightarrow> path_words (drop off (pre @ suf)) = w # path_words (drop n (pre @ suf))
    | PartPanic \<Rightarrow> False)"
proof (cases "suf = [] \<or> pre = []")
  case True
  then show ?thesis
  proof (cases "suf = []")
    case True
    then have "pre @ suf = pre" "nextPathPartParts pre suf off = nextPathPartSingle pre off"
      by (simp_all add: nextPathPartParts_def)
    moreover from this have "0 < off \<or> pre = [] \<or> hd pre \<noteq> slash" using off by auto
    ultimately show ?thesis using single_words [of off pre] by (simp only:)
  next
    case False
    then have "pre @ suf = suf" "nextPathPartParts pre suf off = nextPathPartSingle suf off"
      using \<open>suf = [] \<or> pre = []\<close> by (simp_all add: nextPathPartParts_def)
    moreover from this have "0 < off \<or> suf = [] \<or> hd suf \<noteq> slash" using off by auto
    ultimately show ?thesis using single_words [of off suf] by (simp only:)
  qed
next
  case False
  then have ne: "suf \<noteq> []" "pre \<noteq> []" "slash \<notin> set suf" "last pre = slash" using suf by auto
  define k where "k = off + run_length (\<lambda>c. c = slash) (drop off pre)"
  consider "length pre + length suf \<le> off" | "off < length pre" "k < length pre"
    | "off < length pre" "length pre \<le> k" | "length pre \<le> off" "off < length pre + length suf"
    by linarith
  then show ?thesis
  proof cases
    case 1
    then show ?thesis using ne by (simp add: nextPathPartParts_def)
  next
    case 2
    have "last (drop k pre) = slash" using ne 2 by simp
    then have "slash \<in> set (drop k pre)" using 2 by (metis drop_eq_Nil last_in_set not_le)
    then obtain i where i: "IndexByte (drop k pre) slash = Some i" using IndexByte_None by fastforce
    have "0 < i" using slash_run(2) [of off pre i] 2(2) i by (simp add: k_def)
    have "nextPathPartParts pre suf off = Part (take i (drop k pre)) (k + i)"
      using 2 ne off i by (auto simp: nextPathPartParts_def Let_def k_def [symmetric] hd_append hd_conv_nth)
    moreover have "path_words (drop off (pre @ suf)) = path_words (drop k pre @ suf)"
    proof -
      let ?a = "take (k - off) (drop off pre)"
      have k': "(k - off) + off = k" by (simp add: k_def)
      have "drop off (pre @ suf) = (?a @ drop (k - off) (drop off pre)) @ suf"
        using 2 by (simp only: append_take_drop_id drop_append) simp
      also have "\<dots> = ?a @ (drop k pre @ suf)" by (simp only: append.assoc drop_drop k')
      finally have "drop off (pre @ suf) = ?a @ (drop k pre @ suf)" .
      moreover have "set ?a \<subseteq> {slash}" using run_slashes by (simp add: k_def)
      ultimately show ?thesis using path_words_slashes by (simp only:)
    qed
    moreover have "drop (k + i) (pre @ suf) = drop i (drop k pre) @ suf"
    proof -
      have "i < length (drop k pre)" using IndexByte_Some [OF i] by simp
      then show ?thesis using 2 by (simp add: add.commute)
    qed
    ultimately show ?thesis using words_at_word [OF i \<open>0 < i\<close>] by simp
  next
    case 3
    have k: "k = length pre" using 3 run_length_le [of "\<lambda>c. c = slash" "drop off pre"] by (simp add: k_def)
    have "nextPathPartParts pre suf off = Part suf (length pre + length suf)"
      using 3 ne off k by (auto simp: nextPathPartParts_def Let_def k_def [symmetric] hd_append hd_conv_nth)
    moreover have "path_words (drop off (pre @ suf)) = path_words suf"
    proof -
      have "set (drop off pre) \<subseteq> {slash}" using run_slashes [of "drop off pre"] k 3 by (simp add: k_def)
      then show ?thesis using 3 path_words_slashes by simp
    qed
    ultimately show ?thesis using ne by (simp add: path_words_word)
  next
    case 4
    have "nextPathPartParts pre suf off = Part (drop (off - length pre) suf) (length pre + length suf)"
      using 4 ne by (auto simp: nextPathPartParts_def Let_def)
    moreover have "drop (off - length pre) suf \<noteq> []" "slash \<notin> set (drop (off - length pre) suf)"
      using 4 ne by (auto dest: in_set_dropD)
    ultimately show ?thesis using 4 by (simp add: path_words_word)
  qed
qed

section \<open>Matching the list of components\<close>

fun match_list ::
    "(component \<Rightarrow> string \<Rightarrow> bool) \<Rightarrow> (string \<Rightarrow> bool) \<Rightarrow> bool \<Rightarrow> bool \<Rightarrow> component list \<Rightarrow> string list \<Rightarrow> bool" where
  "match_list test skip exclude prefixOnly cs [] =
    (prefixOnly \<or> list_all (\<lambda>c. comp_kind c = kindDoubleAsterisk) cs)"
| "match_list test skip exclude prefixOnly [] (w # ws) = (exclude \<and> \<not> prefixOnly)"
| "match_list test skip exclude prefixOnly (c # cs) (w # ws) =
    (if comp_kind c = kindDoubleAsterisk then
       match_list test skip exclude prefixOnly cs (w # ws)
       \<or> (exclude \<or> \<not> skip w) \<and> match_list test skip exclude prefixOnly (c # cs) ws
     else test c w \<and> match_list test skip exclude prefixOnly cs ws)"

text \<open>For an exclude pattern, a match of a directory is a match of all below it.\<close>

lemma match_list_exclude_below:
  "match_list test skip True False cs ws \<Longrightarrow> match_list test skip True False cs (ws @ vs)"
proof (induction test skip "True" "False" cs ws rule: match_list.induct)
  case (1 test skip cs)
  then show ?case
  proof (induction cs)
    case Nil
    then show ?case by (cases vs) auto
  next
    case (Cons c cs)
    have d: "comp_kind c = kindDoubleAsterisk" "list_all (\<lambda>c. comp_kind c = kindDoubleAsterisk) cs" using Cons.prems by auto
    then have "match_list test skip True False cs vs" using Cons.IH by simp
    then show ?case using d by (cases vs) auto
  qed
qed (auto split: if_splits)

text \<open>For an include pattern, each directory on the way to a matching file may hold one.\<close>

lemma match_list_include_above:
  assumes "match_list test skip False False cs (ws @ vs)" "\<And>c w. test c w \<Longrightarrow> test' c w"
  shows "match_list test' skip False True cs ws"
  using assms(1)
proof (induction ws arbitrary: cs)
  case (Cons w ws)
  show ?case
    using Cons.prems
  proof (induction cs)
    case (Cons c cs)
    then show ?case using \<open>\<And>cs. match_list test skip False False cs (ws @ vs) \<Longrightarrow> _\<close> assms(2)
      by (auto split: if_splits)
  qed simp
qed simp

text \<open>Compiled literals never skip package folders, so no test panics.\<close>

definition no_panic :: "globPattern \<Rightarrow> bool" where
  "no_panic p \<longleftrightarrow> list_all (\<lambda>c. comp_kind c = kindLiteral \<longrightarrow> \<not> skipPackageFolders c) (gp_components p)"

definition component_test ::
    "(string \<Rightarrow> string \<Rightarrow> bool) \<Rightarrow> (string \<Rightarrow> string) \<Rightarrow> globPattern \<Rightarrow> component \<Rightarrow> string \<Rightarrow> bool" where
  "component_test equalFold toLower p c w \<longleftrightarrow> component_matches equalFold toLower p c w = Some True"

definition skipped :: "(string \<Rightarrow> string \<Rightarrow> bool) \<Rightarrow> string \<Rightarrow> bool" where
  "skipped equalFold w \<longleftrightarrow> isHiddenPath w \<or> isPackageFolder equalFold w"

lemma component_matches_test:
  assumes "no_panic p" "c \<in> set (gp_components p)"
  shows "component_matches equalFold toLower p c w = Some (component_test equalFold toLower p c w)"
  using assms by (auto simp: component_test_def component_matches_def no_panic_def list_all_iff)

text \<open>The components left at an offset; at offset 0 a leading slash is the empty root component.\<close>

definition words_from :: "string \<Rightarrow> nat \<Rightarrow> string list" where
  "words_from s off = (if off = 0 then path_components s else path_words (drop off s))"

lemma parts_words_from:
  assumes suf: "suf = [] \<or> slash \<notin> set suf \<and> (pre = [] \<or> last pre = slash)"
  shows "(case nextPathPartParts pre suf off of
      NoPart \<Rightarrow> words_from (pre @ suf) off = []
    | Part w n \<Rightarrow> words_from (pre @ suf) off = w # words_from (pre @ suf) n
    | PartPanic \<Rightarrow> False)"
proof (cases "off = 0 \<and> pre @ suf \<noteq> [] \<and> hd (pre @ suf) = slash")
  case True
  then have "nextPathPartParts pre suf off = Part [] 1"
    by (cases pre; cases suf) (auto simp: nextPathPartParts_def nextPathPartSingle_def)
  moreover obtain r where "pre @ suf = slash # r" using True by (cases "pre @ suf") auto
  from this have "words_from (pre @ suf) 0 = [] # words_from (pre @ suf) 1"
    by (simp add: words_from_def path_components_def)
  ultimately show ?thesis using True by simp
next
  case False
  then have off: "0 < off \<or> hd (pre @ suf) \<noteq> slash \<or> pre @ suf = []" by auto
  have "words_from (pre @ suf) off = path_words (drop off (pre @ suf))"
    using False by (auto simp: words_from_def path_components_def)
  then show ?thesis
    using parts_words [OF off suf] nextPathPartParts_offset [of pre suf off]
    by (auto simp: words_from_def split: path_part.splits)
qed

lemma matchPathParts_words:
  assumes "no_panic p" and suf: "suf = [] \<or> slash \<notin> set suf \<and> (pre = [] \<or> last pre = slash)"
  shows "matchPathParts equalFold toLower p pre suf off i po =
    Some (match_list (component_test equalFold toLower p) (skipped equalFold) (gp_isExclude p) po
      (drop i (gp_components p)) (words_from (pre @ suf) off))"
proof (induction "(length pre + length suf - off) + (length (gp_components p) - i)" arbitrary: off i rule: less_induct)
  case less
  note pw = parts_words_from [OF suf, of off]
  let ?t = "component_test equalFold toLower p" and ?s = "skipped equalFold"
  show ?case
  proof (cases "nextPathPartParts pre suf off")
    case NoPart
    then show ?thesis using pw by (subst matchPathParts.simps) (simp add: patternSatisfied_def)
  next
    case PartPanic
    then show ?thesis using pw by simp
  next
    case (Part w n)
    have n: "off < n" "n \<le> length pre + length suf" using nextPathPartParts_offset [OF Part] by auto
    have w: "words_from (pre @ suf) off = w # words_from (pre @ suf) n" using pw Part by simp
    show ?thesis
    proof (cases "i < length (gp_components p)")
      case False
      then show ?thesis using Part w by (subst matchPathParts.simps) simp
    next
      case i: True
      define c where "c = gp_components p ! i"
      have di: "drop i (gp_components p) = c # drop (Suc i) (gp_components p)" using i by (simp add: c_def Cons_nth_drop_Suc)
      have cm: "component_matches equalFold toLower p c w = Some (?t c w)"
        using component_matches_test [OF assms(1)] i by (simp add: c_def)
      have next1: "matchPathParts equalFold toLower p pre suf off (Suc i) po =
          Some (match_list ?t ?s (gp_isExclude p) po (drop (Suc i) (gp_components p)) (words_from (pre @ suf) off))"
        using less.hyps [of off "Suc i"] i n by simp
      have next2: "matchPathParts equalFold toLower p pre suf n j po =
          Some (match_list ?t ?s (gp_isExclude p) po (drop j (gp_components p)) (words_from (pre @ suf) n))"
        if "i \<le> j" for j
        using less.hyps [of n j] i n that by simp
      show ?thesis
      proof (cases "comp_kind c = kindDoubleAsterisk")
        case True
        then show ?thesis
          using Part i next1 next2 [of i] w unfolding di
          by (subst matchPathParts.simps) (auto simp: c_def [symmetric] skipped_def Let_def split: bool.split)
      next
        case False
        then show ?thesis
          using Part i next2 [of "Suc i"] w cm unfolding di
          by (subst matchPathParts.simps) (auto simp: c_def [symmetric] Let_def split: bool.split)
      qed
    qed
  qed
qed

lemmas match_path = matchPathParts_words [of _ _ _ _ _ 0 0, simplified words_from_def drop0 simp_thms if_True]

section \<open>Compiled patterns\<close>

lemma compileGlobPattern_no_panic:
  "compileGlobPattern equalFold spec basePath usage cs = Some p \<Longrightarrow> no_panic p"
  by (auto simp: compileGlobPattern_def no_panic_def Let_def parseComponent_def list_all_iff split: if_splits)

lemma compileGlobPattern_exclude:
  "compileGlobPattern equalFold spec basePath usage cs = Some p \<Longrightarrow> gp_isExclude p \<longleftrightarrow> usage = UsageExclude"
  by (auto simp: compileGlobPattern_def Let_def split: if_splits)

lemma compileGlobPattern_directories:
  "compileGlobPattern equalFold spec basePath UsageDirectories cs =
    map_option (\<lambda>p. p\<lparr>gp_excludeMinJs := False\<rparr>) (compileGlobPattern equalFold spec basePath UsageFiles cs)"
  by (simp add: compileGlobPattern_def Let_def)

lemma stringsEqual_directories: "stringsEqual equalFold (p\<lparr>gp_excludeMinJs := x\<rparr>) = stringsEqual equalFold p"
  by (intro ext) (simp add: stringsEqual_def)

lemma shouldIncludeMinJs_directories: "shouldIncludeMinJs equalFold toLower (p\<lparr>gp_excludeMinJs := False\<rparr>) w segs"
  by (simp add: shouldIncludeMinJs_def)

lemma matchWildcard_directories:
  "matchWildcard equalFold toLower p segs w \<Longrightarrow> matchWildcard equalFold toLower (p\<lparr>gp_excludeMinJs := False\<rparr>) segs w"
  unfolding matchWildcard_def Let_def stringsEqual_directories
  by (auto simp: shouldIncludeMinJs_directories split: if_splits)

lemma component_test_directories:
  "component_test equalFold toLower p c w \<Longrightarrow> component_test equalFold toLower (p\<lparr>gp_excludeMinJs := False\<rparr>) c w"
  unfolding component_test_def component_matches_def stringsEqual_directories
  by (auto split: if_splits intro: matchWildcard_directories)

lemma compile_specs_member:
  "p \<in> set (compile_specs equalFold specs basePath usage cs) \<Longrightarrow>
    \<exists>spec. compileGlobPattern equalFold spec basePath usage cs = Some p"
  by (induction specs) (auto simp: compile_specs_def split: option.splits)

lemma compile_specs_patterns:
  assumes "p \<in> set (compile_specs equalFold specs basePath usage cs)"
  shows "no_panic p" "gp_isExclude p \<longleftrightarrow> usage = UsageExclude"
  using compile_specs_member [OF assms] compileGlobPattern_no_panic compileGlobPattern_exclude by blast+

lemma compile_specs_directories:
  "compile_specs equalFold specs basePath UsageDirectories cs =
    map (\<lambda>p. p\<lparr>gp_excludeMinJs := False\<rparr>) (compile_specs equalFold specs basePath UsageFiles cs)"
  by (induction specs) (simp_all add: compile_specs_def compileGlobPattern_directories split: option.split)

lemma first_match_total:
  assumes "\<And>p. p \<in> set ps \<Longrightarrow> test p = Some (t p)"
  shows "\<exists>r. first_match test i ps = Some r \<and> (r = None \<longleftrightarrow> (\<forall>p\<in>set ps. \<not> t p))"
  using assms
proof (induction ps arbitrary: i)
  case (Cons p ps)
  then obtain r where "first_match test (i + 1) ps = Some r" "r = None \<longleftrightarrow> (\<forall>p\<in>set ps. \<not> t p)" by (metis list.set_intros(2))
  then show ?case using Cons.prems [of p] by (cases "t p") auto
qed simp

section \<open>Pruning\<close>

lemma path_components_below:
  assumes "d \<noteq> []"
  shows "path_components (d @ slash # b) = path_components d @ path_words b"
  using assms by (simp add: path_components_def path_words_append)

definition path_ok :: "string \<Rightarrow> string \<Rightarrow> bool" where
  "path_ok pre suf \<longleftrightarrow> suf \<noteq> [] \<and> slash \<notin> set suf \<and> (pre = [] \<or> last pre = slash)"

definition accepts ::
    "(string \<Rightarrow> string \<Rightarrow> bool) \<Rightarrow> (string \<Rightarrow> string) \<Rightarrow> bool \<Rightarrow> globPattern \<Rightarrow> string list \<Rightarrow> bool" where
  "accepts equalFold toLower po p ws \<longleftrightarrow>
    match_list (component_test equalFold toLower p) (skipped equalFold) (gp_isExclude p) po (gp_components p) ws"

lemma first_match_accepts:
  assumes "path_ok pre suf"
  shows "\<exists>r. first_match (\<lambda>p. matchPathParts equalFold toLower p pre suf 0 0 po) 0
        (compile_specs equalFold specs basePath usage cs) = Some r
      \<and> (r = None \<longleftrightarrow> (\<forall>p\<in>set (compile_specs equalFold specs basePath usage cs).
            \<not> accepts equalFold toLower po p (path_components (pre @ suf))))"
  by (rule first_match_total)
    (use assms in \<open>auto simp: matchPathParts_words [OF compile_specs_patterns(1)] accepts_def path_ok_def words_from_def\<close>)

text \<open>The two questions a matcher answers, over the components of the path.\<close>

lemma matchesFileParts_accepts:
  assumes "path_ok pre suf" "inc = compile_specs equalFold includeSpecs basePath UsageFiles cs"
    "exc = compile_specs equalFold excludeSpecs basePath UsageExclude cs"
  shows "\<exists>i b. matchesFileParts equalFold toLower (newGlobMatcher equalFold includeSpecs excludeSpecs basePath cs UsageFiles) pre suf = Some (i, b)
    \<and> (b \<longleftrightarrow> (\<forall>p\<in>set exc. \<not> accepts equalFold toLower False p (path_components (pre @ suf)))
      \<and> (if inc = [] then includeSpecs = [] else \<exists>p\<in>set inc. accepts equalFold toLower False p (path_components (pre @ suf))))"
  using first_match_accepts [OF assms(1), of equalFold toLower False includeSpecs basePath UsageFiles cs]
    first_match_accepts [OF assms(1), of equalFold toLower False excludeSpecs basePath UsageExclude cs]
  unfolding matchesFileParts_def newGlobMatcher_def matchesParts_def assms(2,3)
  by (auto split: option.split)

lemma matchesDirectoryParts_accepts:
  assumes "path_ok pre suf" "inc = compile_specs equalFold includeSpecs basePath UsageDirectories cs"
    "exc = compile_specs equalFold excludeSpecs basePath UsageExclude cs"
  shows "matchesDirectoryParts equalFold toLower (newGlobMatcher equalFold includeSpecs excludeSpecs basePath cs UsageDirectories) pre suf = Some
      ((\<forall>p\<in>set exc. \<not> accepts equalFold toLower False p (path_components (pre @ suf)))
      \<and> (if inc = [] then includeSpecs = [] else \<exists>p\<in>set inc. accepts equalFold toLower True p (path_components (pre @ suf))))"
  using first_match_accepts [OF assms(1), of equalFold toLower True includeSpecs basePath UsageDirectories cs]
    first_match_accepts [OF assms(1), of equalFold toLower False excludeSpecs basePath UsageExclude cs]
  unfolding matchesDirectoryParts_def newGlobMatcher_def matchesParts_def matchesPrefixParts_def assms(2,3)
  by (auto split: option.split)

text \<open>C39: pruning is safe. When the matcher for files accepts a file, the matcher for directories,
  built from the same specs, accepts every directory on the way to it (the traversal calls it with
  the path of the parent and the name of the entry), so the traversal does not prune the file away.\<close>

theorem pruning_keeps_matching_files:
  assumes accepted: "matchesFileParts equalFold toLower
      (newGlobMatcher equalFold includeSpecs excludeSpecs basePath cs UsageFiles) (parent @ dir @ slash # rest) file = Some (i, True)"
    and "dir \<noteq> []" "slash \<notin> set dir" "parent = [] \<or> last parent = slash"
    and "file \<noteq> []" "slash \<notin> set file" "rest = [] \<or> last rest = slash"
  shows "matchesDirectoryParts equalFold toLower
      (newGlobMatcher equalFold includeSpecs excludeSpecs basePath cs UsageDirectories) parent dir = Some True"
proof -
  define inc where "inc = compile_specs equalFold includeSpecs basePath UsageFiles cs"
  define exc where "exc = compile_specs equalFold excludeSpecs basePath UsageExclude cs"
  let ?acc = "accepts equalFold toLower" and ?up = "path_components (parent @ dir)"
  have ok: "path_ok parent dir" "path_ok (parent @ dir @ slash # rest) file" using assms by (auto simp: path_ok_def)
  have words: "path_components ((parent @ dir @ slash # rest) @ file) = ?up @ path_words (rest @ file)"
    using path_components_below [of "parent @ dir" "rest @ file"] assms(2) by simp
  have f: "\<forall>p\<in>set exc. \<not> ?acc False p (?up @ path_words (rest @ file))"
    "if inc = [] then includeSpecs = [] else \<exists>p\<in>set inc. ?acc False p (?up @ path_words (rest @ file))"
    using matchesFileParts_accepts [OF ok(2) inc_def exc_def, of toLower] accepted by (auto simp only: words)
  have "\<not> ?acc False p ?up" if "p \<in> set exc" for p
    using f(1) that match_list_exclude_below compile_specs_patterns(2) [of p] unfolding accepts_def exc_def by fastforce
  moreover have "?acc True (p\<lparr>gp_excludeMinJs := False\<rparr>) ?up" if "p \<in> set inc" "?acc False p (?up @ path_words (rest @ file))" for p
    using that match_list_include_above [OF _ component_test_directories] compile_specs_patterns(2)
    unfolding accepts_def inc_def by fastforce
  ultimately show ?thesis
    unfolding matchesDirectoryParts_accepts [OF ok(1) refl refl] compile_specs_directories
      inc_def [symmetric] exc_def [symmetric] using f(2) by (auto split: if_splits)
qed

lemma pruning_keeps_matching_files_witness:
  "matchesDirectoryParts (=) (\<lambda>s. s)
      (newGlobMatcher (=) [''src/*/x*.ts''] [''**/gen''] ''/p'' True UsageDirectories) ''/p/'' ''src'' = Some True"
proof -
  have "matchesFileParts (=) (\<lambda>s. s)
      (newGlobMatcher (=) [''src/*/x*.ts''] [''**/gen''] ''/p'' True UsageFiles) (''/p/'' @ ''src'' @ slash # ''a/'') ''xy.ts'' = Some (0, True)"
    by code_simp
  then show ?thesis by (rule pruning_keeps_matching_files) simp_all
qed

section \<open>Network roots\<close>

lemma splitByte_no_sep: "w \<in> set (splitByte c s) \<Longrightarrow> c \<notin> set w"
  by (induction s arbitrary: w) (auto split: list.splits if_splits)

lemma path_components_no_slash: "w \<in> set (path_components s) \<Longrightarrow> slash \<notin> set w"
  using splitByte_no_sep by (auto simp: path_components_def path_words_def split: if_splits)

lemma network_root_rejects:
  assumes "no_panic p" "gp_components p = c # cs" "comp_kind c = kindLiteral" "slash \<in> set (comp_literal c)"
    "gp_caseSensitive p" "\<not> gp_isExclude p"
  shows "matches equalFold toLower p path = Some False"
proof (cases "path_components path")
  case Nil
  then show ?thesis using assms by (simp add: matches_def matchPathParts_words words_from_def)
next
  case (Cons w ws)
  then have "slash \<notin> set w" using path_components_no_slash [of w path] by simp
  then have "\<not> component_test equalFold toLower p c w"
    using assms by (auto simp: component_test_def component_matches_def stringsEqual_def split: if_splits)
  then show ?thesis using assms Cons by (simp add: matches_def matchPathParts_words words_from_def)
qed

text \<open>C40: a base directory on a network share never matches. The parts of a spec begin with the root
  \<open>//server\<close>, while the parts of a path begin with an empty part followed by \<open>server\<close>, so the
  pattern for all files under the share rejects every path, the files of the share among them.\<close>

theorem network_share_never_matches:
  "map_option (\<lambda>m. MatchString equalFold toLower m path)
    (NewSpecMatcher equalFold [''**/*''] ''//server/share'' UsageFiles True) = Some (Some False)"
proof -
  let ?c = "\<lambda>k l segs b. \<lparr>comp_kind = k, comp_literal = l, comp_segments = segs, skipPackageFolders = b\<rparr>"
  let ?p = "\<lparr>gp_components = [?c kindLiteral ''//server'' [] False, ?c kindLiteral ''share'' [] False,
      ?c kindDoubleAsterisk [] [] False, ?c kindWildcard [] [\<lparr>seg_kind = segStar, seg_literal = []\<rparr>] True],
    gp_isExclude = False, gp_caseSensitive = True, gp_excludeMinJs = True\<rparr>"
  have "NewSpecMatcher equalFold [''**/*''] ''//server/share'' UsageFiles True = Some [?p]"
    by code_simp
  moreover have "matches equalFold toLower ?p path = Some False"
    by (rule network_root_rejects, simp add: no_panic_def, simp, simp_all)
  ultimately show ?thesis by (simp add: MatchString_def)
qed

end
