(* ===== verification/ScannerRescan.thy ===== *)
theory ScannerRescan
  imports ScannerMain
begin

text \<open>
  The entry points of \<^verbatim>\<open>scanner/scanner.go\<close> besides \<open>Scan\<close>: tokens that the parser scans again in
  another context, JSX text and attribute values, and the tokens of JSDoc comments.
\<close>

section \<open>Scanning a token again\<close>

definition result :: "Scanner \<Rightarrow> Kind \<times> Scanner" where
  "result s = (s_token s, s)"

definition ReScanLessThanToken :: "Scanner \<Rightarrow> Kind \<times> Scanner" where
  "ReScanLessThanToken s =
    (if s_token s = KindLessThanLessThanToken
     then result (s\<lparr>s_pos := s_tokenStart s + 1, s_token := KindLessThanToken\<rparr>) else result s)"

definition reScanGreaterThanTokenInner :: "Scanner \<Rightarrow> Scanner" where
  "reScanGreaterThanTokenInner s0 =
    (let s = s0\<lparr>s_pos := s_tokenStart s0 + 1\<rparr> in
     if s_char s = 0x3E then
       if charAt s 1 = 0x3E then
         (if charAt s 2 = 0x3D
          then (advance 3 s)\<lparr>s_token := KindGreaterThanGreaterThanGreaterThanEqualsToken\<rparr>
          else (advance 2 s)\<lparr>s_token := KindGreaterThanGreaterThanGreaterThanToken\<rparr>)
       else if charAt s 1 = 0x3D
       then (advance 2 s)\<lparr>s_token := KindGreaterThanGreaterThanEqualsToken\<rparr>
       else (advance 1 s)\<lparr>s_token := KindGreaterThanGreaterThanToken\<rparr>
     else if s_char s = 0x3D then (advance 1 s)\<lparr>s_token := KindGreaterThanEqualsToken\<rparr>
     else s)"

definition ReScanGreaterThanToken :: "Scanner \<Rightarrow> Kind \<times> Scanner" where
  "ReScanGreaterThanToken s =
    (if s_token s = KindGreaterThanToken then result (reScanGreaterThanTokenInner s) else result s)"

definition ReScanTemplateToken :: "bool \<Rightarrow> Scanner \<Rightarrow> Kind \<times> Scanner" where
  "ReScanTemplateToken isTaggedTemplate s =
    (let r = scanTemplateAndSetTokenValue (\<not> isTaggedTemplate) (s\<lparr>s_pos := s_tokenStart s\<rparr>)
     in result ((snd r)\<lparr>s_token := fst r\<rparr>))"

definition ReScanAsteriskEqualsToken :: "Scanner \<Rightarrow> Kind \<times> Scanner" where
  "ReScanAsteriskEqualsToken s =
    (if s_token s \<noteq> KindAsteriskEqualsToken then result (panic s)
     else result (s\<lparr>s_pos := s_tokenStart s + 1, s_token := KindEqualsToken\<rparr>))"

definition ReScanHashToken :: "Scanner \<Rightarrow> Kind \<times> Scanner" where
  "ReScanHashToken s =
    (if s_token s = KindPrivateIdentifier
     then result (s\<lparr>s_pos := s_tokenStart s + 1, s_token := KindHashToken\<rparr>) else result s)"

definition ReScanQuestionToken :: "Scanner \<Rightarrow> Kind \<times> Scanner" where
  "ReScanQuestionToken s =
    (if s_token s \<noteq> KindQuestionQuestionToken then result (panic s)
     else result (s\<lparr>s_pos := s_tokenStart s + 1, s_token := KindQuestionToken\<rparr>))"

section \<open>JSX\<close>

text \<open>
  The loop over JSX text, from the position of \<open>s\<close>; \<open>fnw\<close> is \<open>firstNonWhitespace\<close>. \<open>None\<close> is the
  early return at a conflict marker.
\<close>

definition jsxText_error :: "rune \<Rightarrow> Scanner \<Rightarrow> Scanner" where
  "jsxText_error ch s =
    (if ch = 0x3E then errorAt Unexpected_token_Did_you_mean_or_gt (int (s_pos s)) 1 s
     else if ch = 0x7D then errorAt Unexpected_token_Did_you_mean_or_rbrace (int (s_pos s)) 1 s
     else s)"

definition jsxText_fnw :: "rune \<Rightarrow> nat \<Rightarrow> int \<Rightarrow> int" where
  "jsxText_fnw ch pos fnw =
    (if IsLineBreak ch \<and> fnw = 0 then -1
     else if \<not> IsWhiteSpaceLike ch then int pos else fnw)"

definition jsxText_conflict :: "Scanner \<Rightarrow> Scanner" where
  "jsxText_conflict s =
    (case scanConflictMarkerTrivia (s_text s) (s_pos s) of
       None \<Rightarrow> panic s
     | Some p \<Rightarrow> (errorAt Merge_conflict_marker_encountered (int (s_pos s)) 7 s)
         \<lparr>s_pos := p, s_token := KindConflictMarkerTrivia\<rparr>)"

function jsxText_loop :: "bool \<Rightarrow> int \<Rightarrow> Scanner \<Rightarrow> int option \<times> Scanner" where
  "jsxText_loop allowMultilineJsxText fnw s =
    (let d = charAndSize s; ch = fst d in
     if snd d = 0 \<or> ch = 0x7B then (Some fnw, s)
     else if ch = 0x3C then
       if isConflictMarkerTrivia (s_text s) (s_pos s) then (None, jsxText_conflict s) else (Some fnw, s)
     else
       let s = jsxText_error ch s in
       if \<not> (IsLineBreak ch \<and> fnw = 0) \<and> \<not> allowMultilineJsxText \<and> IsLineBreak ch \<and> 0 < fnw
       then (Some fnw, s)
       else jsxText_loop allowMultilineJsxText (jsxText_fnw ch (s_pos s) fnw) (advance (snd d) s))"
  by pat_completeness auto
termination
proof (relation "measure (\<lambda>(_, _, s). scan_room s)", goal_cases)
  case (2 m fnw s d ch s')
  then show ?case
    using charAndSize_room [of s] by (auto simp: jsxText_error_def scan_room_def)
qed simp

declare jsxText_loop.simps [simp del]

definition scanJsxText :: "bool \<Rightarrow> Scanner \<Rightarrow> Scanner" where
  "scanJsxText allowMultilineJsxText s0 =
    (case jsxText_loop allowMultilineJsxText 0 s0 of
       (None, s) \<Rightarrow> s
     | (Some fnw, s) \<Rightarrow>
         s\<lparr>s_tokenValue := slc (s_text s) (s_fullStartPos s) (s_pos s),
           s_token := (if fnw = -1 then KindJsxTextAllWhiteSpaces else KindJsxText)\<rparr>)"

definition ScanJsxTokenEx :: "bool \<Rightarrow> Scanner \<Rightarrow> Kind \<times> Scanner" where
  "ScanJsxTokenEx allowMultilineJsxText s0 =
    (let s = s0\<lparr>s_fullStartPos := s_pos s0, s_tokenStart := s_pos s0\<rparr>; ch = s_char s
     in result
       (if ch < 0 then s\<lparr>s_token := KindEndOfFile\<rparr>
        else if ch = 0x3C then
          (if charAt s 1 = 0x2F then (advance 2 s)\<lparr>s_token := KindLessThanSlashToken\<rparr>
           else (advance 1 s)\<lparr>s_token := KindLessThanToken\<rparr>)
        else if ch = 0x7B then (advance 1 s)\<lparr>s_token := KindOpenBraceToken\<rparr>
        else scanJsxText allowMultilineJsxText s))"

definition ScanJsxToken :: "Scanner \<Rightarrow> Kind \<times> Scanner" where
  "ScanJsxToken s = ScanJsxTokenEx True s"

definition ReScanJsxToken :: "bool \<Rightarrow> Scanner \<Rightarrow> Kind \<times> Scanner" where
  "ReScanJsxToken allowMultilineJsxText s =
    ScanJsxTokenEx allowMultilineJsxText
      (s\<lparr>s_pos := s_fullStartPos s, s_tokenStart := s_fullStartPos s\<rparr>)"

definition ScanJsxIdentifier :: "Scanner \<Rightarrow> Kind \<times> Scanner" where
  "ScanJsxIdentifier s0 =
    (if tokenIsIdentifierOrKeyword (s_token s0) then
       (let r = scanIdentifierParts identifierVariantJSX s0;
            s = (snd r)\<lparr>s_tokenValue := s_tokenValue s0 @ fst r\<rparr>
        in result (s\<lparr>s_token := GetIdentifierToken (s_tokenValue s)\<rparr>))
     else result s0)"

definition ScanJsxAttributeValue :: "(string \<Rightarrow> string) \<Rightarrow> Scanner \<Rightarrow> Kind \<times> Scanner" where
  "ScanJsxAttributeValue canon s0 =
    (let s1 = scanRunesWhile IsWhiteSpaceLike (s0\<lparr>s_fullStartPos := s_pos s0\<rparr>);
         s = s1\<lparr>s_tokenStart := s_pos s1\<rparr>
     in if s_char s = 0x22 \<or> s_char s = 0x27 then
          (let r = scanString True s
           in result ((snd r)\<lparr>s_tokenValue := fst r, s_token := KindStringLiteral\<rparr>))
        else Scan canon s)"

definition ReScanJsxAttributeValue :: "(string \<Rightarrow> string) \<Rightarrow> Scanner \<Rightarrow> Kind \<times> Scanner" where
  "ReScanJsxAttributeValue canon s =
    ScanJsxAttributeValue canon (s\<lparr>s_pos := s_fullStartPos s, s_tokenStart := s_fullStartPos s\<rparr>)"

section \<open>JSDoc\<close>

text \<open>The loop over comment text, from the position of \<open>s\<close>.\<close>

definition jsdocText_stops :: "bool \<Rightarrow> Scanner \<Rightarrow> rune \<Rightarrow> nat \<Rightarrow> bool" where
  "jsdocText_stops inBackticks s ch sz \<longleftrightarrow>
    \<not> inBackticks \<and>
      (ch = 0x7B
       \<or> ch = 0x40 \<and> IsWhiteSpaceSingleLine (fst (DecodeLastRune (take (s_pos s) (s_text s))))
          \<and> IsIdentifierStart (fst (DecodeRune (drop (s_pos s + sz) (s_text s)))))"

function jsdocText_loop :: "bool \<Rightarrow> Scanner \<Rightarrow> Scanner" where
  "jsdocText_loop inBackticks s =
    (let d = charAndSize s; ch = fst d in
     if s_pos s < length (s_text s) \<and> \<not> IsLineBreak ch \<and> ch \<noteq> 0x60 then
       if jsdocText_stops inBackticks s ch (snd d) then s
       else jsdocText_loop inBackticks (advance (snd d) s)
     else s)"
  by pat_completeness auto
termination
proof (relation "measure (\<lambda>(_, s). scan_room s)", goal_cases)
  case (2 b s d ch)
  then have "0 < snd d" by (auto simp: charAndSize_def DecodeRune_size_pos)
  then show ?case using 2 by (auto simp: scan_room_def)
qed simp

declare jsdocText_loop.simps [simp del]

definition CanFollowJSDocAt :: "Scanner \<Rightarrow> bool" where
  "CanFollowJSDocAt s \<longleftrightarrow>
    (if length (s_text s) \<le> s_pos s then True
     else (let ch = fst (DecodeRune (drop (s_pos s) (s_text s)))
           in IsIdentifierStart ch \<or> IsWhiteSpaceSingleLine ch \<or> IsLineBreak ch))"

text \<open>The single characters that are tokens in JSDoc.\<close>

definition jsdoc_single :: "rune \<Rightarrow> Kind option" where
  "jsdoc_single ch = map_of
    [(0x40, KindAtToken), (0x2A, KindAsteriskToken), (0x7B, KindOpenBraceToken), (0x7D, KindCloseBraceToken),
     (0x5B, KindOpenBracketToken), (0x5D, KindCloseBracketToken), (0x28, KindOpenParenToken),
     (0x29, KindCloseParenToken), (0x3C, KindLessThanToken), (0x3E, KindGreaterThanToken),
     (0x3D, KindEqualsToken), (0x2C, KindCommaToken), (0x2E, KindDotToken), (0x60, KindBacktickToken),
     (0x23, KindHashToken)] ch"

definition jsdoc_identifier :: "nat \<Rightarrow> Scanner \<Rightarrow> Scanner" where
  "jsdoc_identifier sz s =
    (let r = scanIdentifier 0 identifierVariantJSX (s\<lparr>s_pos := s_tokenStart s\<rparr>)
     in if fst r then (snd r)\<lparr>s_token := GetIdentifierToken (s_tokenValue (snd r))\<rparr>
        else (snd r)\<lparr>s_pos := s_tokenStart (snd r) + sz, s_token := KindUnknown\<rparr>)"

definition ScanJSDocToken :: "Scanner \<Rightarrow> Kind \<times> Scanner" where
  "ScanJSDocToken s0 =
    (let s1 = s0\<lparr>s_fullStartPos := s_pos s0, s_tokenFlags := TokenFlagsNone\<rparr> in
     if length (s_text s1) \<le> s_pos s1 then result (s1\<lparr>s_token := KindEndOfFile\<rparr>)
     else
       let s2 = s1\<lparr>s_tokenStart := s_pos s1\<rparr>; d = charAndSize s2; ch = fst d; s = advance (snd d) s2
       in result
         (if ch = 0x09 \<or> ch = 0x0B \<or> ch = 0x0C \<or> ch = 0x20
          then (scanRunesWhile IsWhiteSpaceSingleLine s)\<lparr>s_token := KindWhitespaceTrivia\<rparr>
          else if ch = 0x0D \<or> ch = 0x0A then
            (let s = (if ch = 0x0D \<and> s_char s = 0x0A then advance 1 s else s)
             in (addFlag TokenFlagsPrecedingLineBreak s)\<lparr>s_token := KindNewLineTrivia\<rparr>)
          else (case jsdoc_single ch of
              Some kind \<Rightarrow> s\<lparr>s_token := kind\<rparr> | None \<Rightarrow> jsdoc_identifier (snd d) s)))"

definition ScanJSDocCommentTextToken :: "bool \<Rightarrow> Scanner \<Rightarrow> Kind \<times> Scanner" where
  "ScanJSDocCommentTextToken inBackticks s0 =
    (let s1 = s0\<lparr>s_fullStartPos := s_pos s0, s_tokenFlags := TokenFlagsNone\<rparr> in
     if length (s_text s1) \<le> s_pos s1 then result (s1\<lparr>s_token := KindEndOfFile\<rparr>)
     else
       let s2 = s1\<lparr>s_tokenStart := s_pos s1\<rparr>; s = jsdocText_loop inBackticks s2
       in if s_pos s = s_tokenStart s then ScanJSDocToken s
          else result (s\<lparr>s_tokenValue := slc (s_text s) (s_tokenStart s) (s_pos s),
                 s_token := KindJSDocCommentTextToken\<rparr>))"

section \<open>Frames\<close>

lemma jsxText_error_frame [simp]:
  "s_pos (jsxText_error ch s) = s_pos s" "s_text (jsxText_error ch s) = s_text s"
  "s_end (jsxText_error ch s) = s_end s" "scan_wf (jsxText_error ch s) = scan_wf s"
  "scan_moves t (jsxText_error ch s) = scan_moves t s" "same_input t (jsxText_error ch s) = same_input t s"
  "s_panicked (jsxText_error ch s) = s_panicked s"
  by (simp_all add: jsxText_error_def)

lemma jsxText_conflict_moves:
  assumes "isConflictMarkerTrivia (s_text s) (s_pos s)" "s_char s = 0x3C"
  shows "scan_moves (advance 1 s) (jsxText_conflict s)"
proof -
  have "jsxText_conflict s = (snd (scan_conflict (s\<lparr>s_skipTrivia := False\<rparr>)))\<lparr>s_skipTrivia := s_skipTrivia s\<rparr>"
    by (auto simp: jsxText_conflict_def scan_conflict_def panic_def errorAtWith_def split: option.split)
  moreover have "scan_moves (advance 1 (s\<lparr>s_skipTrivia := False\<rparr>)) (snd (scan_conflict (s\<lparr>s_skipTrivia := False\<rparr>)))"
    by (rule scan_conflict_moves) (use assms s_char_cong [of "s\<lparr>s_skipTrivia := False\<rparr>" s] in simp_all)
  ultimately show ?thesis by (simp add: scan_moves_def same_input_def scan_wf_def)
qed

lemma jsxText_loop_moves:
  "scan_wf s \<Longrightarrow> scan_moves s (snd (jsxText_loop m fnw s))"
proof (induction m fnw s rule: jsxText_loop.induct)
  case (1 m fnw s)
  define d where "d = charAndSize s"
  let ?t = "jsxText_error (fst d) s"
  have step: "scan_moves s (advance (snd d) ?t)" "scan_wf (advance (snd d) ?t)"
    using charAndSize_le [OF 1(2)] 1(2) by (simp_all add: d_def scan_moves_def scan_wf_def)
  have conflict: "scan_moves s (jsxText_conflict s)"
    if "fst d = 0x3C" "isConflictMarkerTrivia (s_text s) (s_pos s)"
  proof -
    have c: "s_char s = 0x3C" using charAndSize_char [OF 1(2)] that(1) by (simp add: d_def)
    show ?thesis
      by (rule scan_moves_trans [OF scan_moves_char [OF scan_moves_refl c] jsxText_conflict_moves [OF that(2) c]]) simp
  qed
  have IH: "scan_moves s (snd (jsxText_loop m (jsxText_fnw (fst d) (s_pos ?t) fnw) (advance (snd d) ?t)))"
    if "\<not> (snd d = 0 \<or> fst d = 0x7B)" "fst d \<noteq> 0x3C"
      "\<not> (\<not> (IsLineBreak (fst d) \<and> fnw = 0) \<and> \<not> m \<and> IsLineBreak (fst d) \<and> 0 < fnw)"
    by (rule scan_moves_trans [OF step(1) 1(1) [OF d_def refl that(1,2) refl that(3) step(2)]])
  show ?case using IH conflict
    by (subst jsxText_loop.simps) (auto simp: Let_def d_def [symmetric] simp del: advance_def)
qed

lemma jsdocText_loop_moves:
  "scan_wf s \<Longrightarrow> scan_moves s (jsdocText_loop b s)"
proof (induction b s rule: jsdocText_loop.induct)
  case (1 b s)
  define d where "d = charAndSize s"
  have step: "scan_moves s (advance (snd d) s)" "scan_wf (advance (snd d) s)"
    using charAndSize_le [OF 1(2)] 1(2) by (simp_all add: d_def scan_moves_def scan_wf_def)
  have IH: "scan_moves s (jsdocText_loop b (advance (snd d) s))"
    if "s_pos s < length (s_text s) \<and> \<not> IsLineBreak (fst d) \<and> fst d \<noteq> 0x60" "\<not> jsdocText_stops b s (fst d) (snd d)"
    by (rule scan_moves_trans [OF step(1) 1(1) [OF d_def refl that step(2)]])
  show ?case using IH
    by (subst jsdocText_loop.simps) (auto simp: Let_def d_def [symmetric] simp del: advance_def)
qed

section \<open>Tokens of JSX and JSDoc\<close>

text \<open>\<open>one_token s t\<close>: \<open>t\<close> is \<open>s\<close> after one token of positive length, from the position of \<open>s\<close>.\<close>

definition one_token :: "Scanner \<Rightarrow> Scanner \<Rightarrow> bool" where
  "one_token s t \<longleftrightarrow>
    s_text t = s_text s \<and> s_end t = s_end s \<and> s_panicked t = s_panicked s
    \<and> s_fullStartPos t = s_pos s \<and> s_tokenStart t = s_pos s
    \<and> s_pos s < s_pos t \<and> s_pos t \<le> s_end s"

definition starting :: "Scanner \<Rightarrow> Scanner" where
  "starting s = s\<lparr>s_fullStartPos := s_pos s, s_tokenStart := s_pos s\<rparr>"

lemma one_tokenI:
  assumes "scan_moves (advance n (starting s)) t" "0 < n" "scan_wf s" "s_pos s + n \<le> s_end s"
  shows "one_token s t"
  using assms by (auto simp: one_token_def starting_def scan_moves_def same_input_def scan_wf_def)

lemma one_token_token [simp]: "one_token s (t\<lparr>s_token := k\<rparr>) = one_token s t"
  "one_token s (t\<lparr>s_tokenValue := v\<rparr>) = one_token s t"
  by (simp_all add: one_token_def)

lemma scanJsxText_token:
  assumes "scan_wf s" "s_pos s < s_end s" "s_char s \<noteq> 0x3C" "s_char s \<noteq> 0x7B"
  shows "one_token s (scanJsxText m (starting s))"
proof -
  let ?s = "starting s"
  define d where "d = charAndSize ?s"
  have wf: "scan_wf ?s" using assms(1) by (simp add: starting_def scan_wf_def)
  have d: "0 < snd d" "fst d \<noteq> 0x3C" "fst d \<noteq> 0x7B" "s_pos s + snd d \<le> s_end s"
    using charAndSize_0 [OF wf] charAndSize_char [OF wf] charAndSize_le [OF wf] assms(2-4)
    by (auto simp: d_def starting_def s_char_def)
  let ?t = "advance (snd d) (jsxText_error (fst d) ?s)"
  have wft: "scan_wf ?t" using d(4) assms(1) by (simp add: starting_def scan_wf_def)
  have "jsxText_loop m 0 ?s = jsxText_loop m (jsxText_fnw (fst d) (s_pos ?s) 0) ?t"
    using d by (subst jsxText_loop.simps) (simp add: Let_def d_def [symmetric])
  then have "scan_moves (advance (snd d) ?s) (snd (jsxText_loop m 0 ?s))"
    using scan_moves_trans [OF _ jsxText_loop_moves [OF wft]] by (simp add: scan_wf_def)
  from one_tokenI [OF this d(1) assms(1) d(4)] show ?thesis
    by (auto simp: scanJsxText_def split: prod.splits option.splits)
qed

lemma ScanJsxTokenEx_token:
  assumes "scan_wf s"
  shows "if s_pos s = s_end s
    then snd (ScanJsxTokenEx m s) = (starting s)\<lparr>s_token := KindEndOfFile\<rparr>
    else one_token s (snd (ScanJsxTokenEx m s))"
proof (cases "s_pos s = s_end s")
  case True
  then show ?thesis by (simp add: ScanJsxTokenEx_def Let_def s_char_def result_def starting_def)
next
  case False
  then have lt: "s_pos s < s_end s" using assms by (simp add: scan_wf_def)
  have c: "s_char (starting s) = s_char s" "0 \<le> s_char s" "s_end (starting s) = s_end s" "s_pos (starting s) = s_pos s"
    using lt by (simp_all add: starting_def s_char_def)
  have one: "one_token s (advance 1 (starting s))" "charAt (starting s) 1 = 0x2F \<Longrightarrow> one_token s (advance 2 (starting s))"
    using lt charAt_pos [of "starting s" 1 "0x2F"] by (auto intro!: one_tokenI [OF scan_moves_refl] assms simp: c simp del: advance_def)
  show ?thesis using False c(2) one scanJsxText_token [OF assms lt]
    unfolding ScanJsxTokenEx_def Let_def starting_def [symmetric] c(1) result_def
    by (simp del: advance_def)
qed

lemma ScanJSDocToken_token:
  assumes "scan_wf s"
  shows "if s_pos s = s_end s
    then snd (ScanJSDocToken s) = s\<lparr>s_fullStartPos := s_pos s, s_tokenFlags := TokenFlagsNone, s_token := KindEndOfFile\<rparr>
    else one_token s (snd (ScanJSDocToken s))"
proof (cases "s_pos s = s_end s")
  case True
  then show ?thesis using assms by (simp add: ScanJSDocToken_def Let_def result_def scan_wf_def)
next
  case False
  then have lt: "s_pos s < s_end s" using assms by (simp add: scan_wf_def)
  define u where "u = (starting s)\<lparr>s_tokenFlags := TokenFlagsNone\<rparr>"
  define d where "d = charAndSize u"
  have wf: "scan_wf u" using assms by (simp add: u_def starting_def scan_wf_def)
  have d: "0 < snd d" "s_pos s + snd d \<le> s_end s"
    using charAndSize_0 [OF wf] charAndSize_le [OF wf] lt by (auto simp: d_def u_def starting_def)
  let ?t = "advance (snd d) u"
  have one: "one_token s v" if "scan_moves ?t v" for v
    using one_tokenI [OF _ d(1) assms d(2)] that by (simp add: u_def scan_moves_def same_input_def scan_wf_def)
  have pos: "s_pos u = s_pos s" "s_tokenStart u = s_pos s" "s_end u = s_end s" by (simp_all add: u_def starting_def)
  have newline: "one_token s (addFlag f (if fst d = 0x0D \<and> s_char ?t = 0x0A then advance 1 ?t else ?t))" for f
    using scan_moves_char [OF scan_moves_refl, of ?t] by (auto intro!: one simp del: advance_def)
  have blank: "one_token s (scanRunesWhile p ?t)" for p by (rule one) simp
  have ident: "one_token s (jsdoc_identifier (snd d) ?t)"
  proof -
    define r where "r = scanIdentifier 0 identifierVariantJSX u"
    have m: "scan_moves u (snd r)" unfolding r_def using scan_moves_scanIdentifier [of 0 u] by simp
    have "?t\<lparr>s_pos := s_tokenStart ?t\<rparr> = u" by (simp add: pos u_def starting_def)
    then have "jsdoc_identifier (snd d) ?t = (if fst r then (snd r)\<lparr>s_token := GetIdentifierToken (s_tokenValue (snd r))\<rparr>
        else (snd r)\<lparr>s_pos := s_tokenStart (snd r) + snd d, s_token := KindUnknown\<rparr>)"
      by (simp add: jsdoc_identifier_def r_def Let_def)
    moreover have "one_token s (snd r)" if "fst r"
      using m scanIdentifier_progress(1) [of 0 identifierVariantJSX u] that wf pos
      by (simp add: one_token_def scan_moves_def same_input_def r_def) (simp add: u_def starting_def)
    moreover have "one_token s ((snd r)\<lparr>s_pos := s_tokenStart (snd r) + snd d\<rparr>)"
      using m d pos by (simp add: one_token_def scan_moves_def same_input_def) (simp add: u_def starting_def)
    ultimately show ?thesis by simp
  qed
  have "s\<lparr>s_fullStartPos := s_pos s, s_tokenFlags := TokenFlagsNone, s_tokenStart := s_pos s\<rparr> = u"
    by (simp add: u_def starting_def)
  then have "snd (ScanJSDocToken s) =
      (if fst d = 0x09 \<or> fst d = 0x0B \<or> fst d = 0x0C \<or> fst d = 0x20
       then (scanRunesWhile IsWhiteSpaceSingleLine ?t)\<lparr>s_token := KindWhitespaceTrivia\<rparr>
       else if fst d = 0x0D \<or> fst d = 0x0A then
         (addFlag TokenFlagsPrecedingLineBreak (if fst d = 0x0D \<and> s_char ?t = 0x0A then advance 1 ?t else ?t))\<lparr>s_token := KindNewLineTrivia\<rparr>
       else (case jsdoc_single (fst d) of Some kind \<Rightarrow> ?t\<lparr>s_token := kind\<rparr> | None \<Rightarrow> jsdoc_identifier (snd d) ?t))"
    using lt assms by (simp add: ScanJSDocToken_def Let_def result_def scan_wf_def d_def split: option.split)
  then show ?thesis using False newline blank ident one [OF scan_moves_refl]
    by (simp del: advance_def addFlag_def split: option.split)
qed

lemma ScanJSDocCommentTextToken_token:
  assumes "scan_wf s"
  shows "if s_pos s = s_end s
    then snd (ScanJSDocCommentTextToken b s) = s\<lparr>s_fullStartPos := s_pos s, s_tokenFlags := TokenFlagsNone, s_token := KindEndOfFile\<rparr>
    else one_token s (snd (ScanJSDocCommentTextToken b s))"
proof (cases "s_pos s = s_end s")
  case True
  then show ?thesis using assms by (simp add: ScanJSDocCommentTextToken_def Let_def result_def scan_wf_def)
next
  case False
  then have lt: "s_pos s < s_end s" using assms by (simp add: scan_wf_def)
  define u where "u = (starting s)\<lparr>s_tokenFlags := TokenFlagsNone\<rparr>"
  define t where "t = jsdocText_loop b u"
  have wf: "scan_wf u" using assms by (simp add: u_def starting_def scan_wf_def)
  have m: "scan_moves u t" unfolding t_def by (rule jsdocText_loop_moves [OF wf])
  have pos: "s_pos u = s_pos s" "s_tokenStart u = s_pos s" "s_fullStartPos u = s_pos s" "s_text u = s_text s"
    "s_end u = s_end s" "s_panicked u = s_panicked s"
    by (simp_all add: u_def starting_def)
  have tstart: "s_tokenStart t = s_pos s" using m pos by (simp add: scan_moves_def same_input_def)
  have one: "one_token s t" if "s_pos t \<noteq> s_pos s"
    using m that pos wf lt by (auto simp: one_token_def scan_moves_def same_input_def)
  have jsdoc: "one_token s (snd (ScanJSDocToken t))" if "s_pos t = s_pos s"
    using ScanJSDocToken_token [OF scan_moves_wf [OF m wf]] that m pos lt
    by (simp add: one_token_def scan_moves_def same_input_def)
  have "s\<lparr>s_fullStartPos := s_pos s, s_tokenFlags := TokenFlagsNone, s_tokenStart := s_pos s\<rparr> = u"
    by (simp add: u_def starting_def)
  then have "snd (ScanJSDocCommentTextToken b s) =
      (if s_pos t = s_tokenStart t then snd (ScanJSDocToken t)
       else t\<lparr>s_tokenValue := slc (s_text t) (s_tokenStart t) (s_pos t), s_token := KindJSDocCommentTextToken\<rparr>)"
    using lt assms by (simp add: ScanJSDocCommentTextToken_def Let_def result_def scan_wf_def t_def)
  then show ?thesis using False one jsdoc tstart by simp
qed

text \<open>C4: The scanners of JSX and JSDoc tokens are total and safe: from a position inside the text each
  consumes at least one byte, stays in the text, does not panic, and records where the token began;
  at the end each reports the end of the file and does not move.\<close>

theorem jsx_and_jsdoc_tokens_progress:
  assumes "scan_wf s"
  shows "list_all (\<lambda>r.
      if s_pos s = s_end s then fst r = KindEndOfFile \<and> s_pos (snd r) = s_pos s \<and> s_panicked (snd r) = s_panicked s
      else one_token s (snd r))
    [ScanJsxTokenEx False s, ScanJsxTokenEx True s, ScanJSDocToken s, ScanJSDocCommentTextToken False s,
     ScanJSDocCommentTextToken True s]"
proof -
  have "fst (ScanJsxTokenEx b s) = s_token (snd (ScanJsxTokenEx b s))"
    "fst (ScanJSDocToken s) = s_token (snd (ScanJSDocToken s))"
    "fst (ScanJSDocCommentTextToken b s) = s_token (snd (ScanJSDocCommentTextToken b s))" for b
    by (simp_all add: ScanJsxTokenEx_def ScanJSDocToken_def ScanJSDocCommentTextToken_def result_def Let_def)
  then show ?thesis
    using ScanJsxTokenEx_token [OF assms] ScanJSDocToken_token [OF assms] ScanJSDocCommentTextToken_token [OF assms]
    by (simp add: starting_def)
qed

lemma jsx_and_jsdoc_tokens_progress_witness:
  "one_token (SetText ''@param x'' NewScanner) (snd (ScanJSDocToken (SetText ''@param x'' NewScanner)))"
proof -
  have wf: "scan_wf (SetText ''@param x'' NewScanner)"
    and lt: "(s_pos (SetText ''@param x'' NewScanner) = s_end (SetText ''@param x'' NewScanner)) = False" by code_simp+
  show ?thesis using jsx_and_jsdoc_tokens_progress [OF wf] unfolding list.pred_inject lt if_False by blast
qed

section \<open>White space in JSX text\<close>

function (sequential) runes_between :: "string \<Rightarrow> nat \<Rightarrow> nat \<Rightarrow> rune list" where
  "runes_between t a b =
    (if a < b \<and> a < length t
     then fst (DecodeRune (drop a t)) # runes_between t (a + snd (DecodeRune (drop a t))) b else [])"
  by pat_completeness auto
termination
  by (relation "measure (\<lambda>(t, a, b). length t - a)") (auto simp: DecodeRune_size_pos intro!: diff_less_mono2)

declare runes_between.simps [simp del]

definition jsx_blank :: "int \<Rightarrow> rune list \<Rightarrow> bool" where
  "jsx_blank fnw rs \<longleftrightarrow> list_all IsWhiteSpaceLike rs \<and> (fnw = -1 \<or> fnw = 0 \<and> list_ex IsLineBreak rs)"

lemma jsxText_loop_blank:
  assumes "scan_wf s" "0 < s_pos s" "-1 \<le> fnw" "jsxText_loop True fnw s = (Some fnw', t)"
  shows "fnw' = -1 \<longleftrightarrow> jsx_blank fnw (runes_between (s_text s) (s_pos s) (s_pos t))"
  using assms
proof (induction True fnw s rule: jsxText_loop.induct)
  case (1 fnw s)
  define d where "d = charAndSize s"
  let ?t = "advance (snd d) (jsxText_error (fst d) s)"
  show ?case
  proof (cases "snd d = 0 \<or> fst d = 0x7B \<or> fst d = 0x3C")
    case True
    then have "fnw' = fnw \<and> t = s" using 1(5)
      by (subst (asm) jsxText_loop.simps) (auto simp: Let_def d_def [symmetric] split: if_splits)
    then show ?thesis by (simp add: jsx_blank_def runes_between.simps)
  next
    case False
    have dec: "d = DecodeRune (drop (s_pos s) (s_text s))" using charAndSize_decode [OF 1(2)] by (simp add: d_def)
    have wf: "scan_wf ?t" using charAndSize_le [OF 1(2)] 1(2) by (simp add: d_def scan_wf_def)
    have lt: "s_pos s < length (s_text s)" using False charAndSize_0 [OF 1(2)] 1(2) by (auto simp: d_def scan_wf_def)
    have loop: "jsxText_loop True (jsxText_fnw (fst d) (s_pos s) fnw) ?t = (Some fnw', t)"
      using 1(5) False by (subst (asm) jsxText_loop.simps) (simp add: Let_def d_def [symmetric])
    have "scan_moves ?t t" using jsxText_loop_moves [OF wf, of True "jsxText_fnw (fst d) (s_pos s) fnw"] loop by simp
    then have "s_pos s < s_pos t" using scan_moves_le [of ?t t] False by simp
    then have rs: "runes_between (s_text s) (s_pos s) (s_pos t) =
        fst d # runes_between (s_text s) (s_pos s + snd d) (s_pos t)"
      using lt by (subst runes_between.simps) (simp add: dec)
    have "fnw' = -1 \<longleftrightarrow> jsx_blank (jsxText_fnw (fst d) (s_pos s) fnw) (runes_between (s_text s) (s_pos s + snd d) (s_pos t))"
    proof -
      have "-1 \<le> jsxText_fnw (fst d) (s_pos s) fnw" using 1(4) by (simp add: jsxText_fnw_def)
      then show ?thesis
        using 1(1) [OF d_def refl _ _ refl _ wf] False 1(3) loop by simp
    qed
    then show ?thesis
      using 1(3,4) by (auto simp: rs jsx_blank_def jsxText_fnw_def IsWhiteSpaceLike_def split: if_splits)
  qed
qed

text \<open>
  The characters that count: the position of the first character that is not white space is kept,
  and 0 means that there is none so far, so at the start of the text such a character is not noticed.
\<close>

definition counted_runes :: "string \<Rightarrow> nat \<Rightarrow> nat \<Rightarrow> rune list" where
  "counted_runes t a b =
    (case runes_between t a b of
       [] \<Rightarrow> []
     | r # rs \<Rightarrow> if a = 0 \<and> \<not> IsWhiteSpaceLike r then rs else r # rs)"

lemma jsxText_loop_counted:
  assumes "scan_wf s" "jsxText_loop True 0 s = (Some fnw, t)"
  shows "fnw = -1 \<longleftrightarrow> jsx_blank 0 (counted_runes (s_text s) (s_pos s) (s_pos t))"
proof (cases "s_pos s = 0")
  case False
  then show ?thesis
    using jsxText_loop_blank [OF assms(1) _ _ assms(2)] by (simp add: counted_runes_def split: list.split)
next
  case zero: True
  define d where "d = charAndSize s"
  let ?t = "advance (snd d) (jsxText_error (fst d) s)"
  show ?thesis
  proof (cases "snd d = 0 \<or> fst d = 0x7B \<or> fst d = 0x3C")
    case True
    then have "fnw = 0 \<and> t = s" using assms(2)
      by (subst (asm) jsxText_loop.simps) (auto simp: Let_def d_def [symmetric] split: if_splits)
    then show ?thesis by (simp add: jsx_blank_def counted_runes_def runes_between.simps)
  next
    case False
    have dec: "d = DecodeRune (drop (s_pos s) (s_text s))" using charAndSize_decode [OF assms(1)] by (simp add: d_def)
    have wf: "scan_wf ?t" using charAndSize_le [OF assms(1)] assms(1) by (simp add: d_def scan_wf_def)
    have lt: "s_pos s < length (s_text s)"
      using False charAndSize_0 [OF assms(1)] assms(1) by (auto simp: d_def scan_wf_def)
    have loop: "jsxText_loop True (jsxText_fnw (fst d) 0 0) ?t = (Some fnw, t)"
      using assms(2) False zero by (subst (asm) jsxText_loop.simps) (simp add: Let_def d_def [symmetric])
    have "scan_moves ?t t" using jsxText_loop_moves [OF wf, of True "jsxText_fnw (fst d) 0 0"] loop by simp
    then have "s_pos s < s_pos t" using scan_moves_le [of ?t t] False by simp
    then have "runes_between (s_text s) (s_pos s) (s_pos t) =
        fst d # runes_between (s_text s) (s_pos s + snd d) (s_pos t)"
      using lt by (subst runes_between.simps) (simp add: dec)
    then have rs: "runes_between (s_text s) 0 (s_pos t) = fst d # runes_between (s_text s) (snd d) (s_pos t)"
      using zero by simp
    have "fnw = -1 \<longleftrightarrow> jsx_blank (jsxText_fnw (fst d) 0 0) (runes_between (s_text s) (s_pos s + snd d) (s_pos t))"
      using jsxText_loop_blank [OF wf _ _ loop] False by (simp add: jsxText_fnw_def)
    then show ?thesis
      using zero by (auto simp: counted_runes_def rs jsx_blank_def jsxText_fnw_def IsWhiteSpaceLike_def)
  qed
qed

lemma jsxText_loop_conflict:
  "scan_wf s \<Longrightarrow> jsxText_loop m fnw s = (None, t) \<Longrightarrow> s_token t = KindConflictMarkerTrivia"
proof (induction m fnw s rule: jsxText_loop.induct)
  case (1 m fnw s)
  define d where "d = charAndSize s"
  let ?t = "advance (snd d) (jsxText_error (fst d) s)"
  have wf: "scan_wf ?t" using charAndSize_le [OF 1(2)] 1(2) by (simp add: d_def scan_wf_def)
  have "s_token (jsxText_conflict s) = KindConflictMarkerTrivia" if "fst d = 0x3C"
    using that charAndSize_decode [OF 1(2)]
    by (auto simp: d_def jsxText_conflict_def scanConflictMarkerTrivia_def Let_def)
  then show ?case
    using 1(1) [OF d_def refl _ _ refl _ wf] 1(3)
    by (subst (asm) jsxText_loop.simps) (auto simp: Let_def d_def [symmetric] split: if_splits)
qed

text \<open>C5: JSX text is classified by what it holds: the token of a text is \<open>JsxTextAllWhiteSpaces\<close>, which
  the printer drops, exactly when all its characters are white space and one of them is a line break.
  At position 0, where no JSX text begins in a program, a first character that is not white space
  does not count.\<close>

theorem jsx_text_classified:
  assumes "scan_wf s" "ScanJsxToken s = (k, t)" "k = KindJsxText \<or> k = KindJsxTextAllWhiteSpaces"
  shows "k = KindJsxTextAllWhiteSpaces \<longleftrightarrow>
    list_all IsWhiteSpaceLike (counted_runes (s_text s) (s_pos s) (s_pos t))
    \<and> list_ex IsLineBreak (counted_runes (s_text s) (s_pos s) (s_pos t))"
proof -
  let ?s = "starting s"
  have wf: "scan_wf ?s" using assms(1) by (simp add: starting_def scan_wf_def)
  obtain r u where loop: "jsxText_loop True 0 ?s = (r, u)" by fastforce
  have "t = scanJsxText True ?s" "s_token t = k"
    using assms(2,3) by (auto simp: ScanJsxToken_def ScanJsxTokenEx_def result_def Let_def starting_def split: if_splits)
  then obtain fnw where "r = Some fnw" "s_pos t = s_pos u" "k = KindJsxTextAllWhiteSpaces \<longleftrightarrow> fnw = -1"
    using jsxText_loop_conflict [OF wf, of True 0 u] loop assms(3)
    by (cases r) (auto simp: scanJsxText_def split: if_splits)
  then show ?thesis
    using jsxText_loop_counted [OF wf, of fnw u] loop by (simp add: jsx_blank_def starting_def)
qed

lemma jsx_text_classified_witness:
  "fst (ScanJsxToken ((SetText (CHR ''>'' # CHR 0x0A # '' <b>'') NewScanner)\<lparr>s_pos := 1\<rparr>)) = KindJsxTextAllWhiteSpaces"
proof -
  let ?s = "(SetText (CHR ''>'' # CHR 0x0A # '' <b>'') NewScanner)\<lparr>s_pos := 1\<rparr>"
  have wf: "scan_wf ?s" by code_simp
  have k: "fst (ScanJsxToken ?s) = KindJsxText \<or> fst (ScanJsxToken ?s) = KindJsxTextAllWhiteSpaces"
    and "list_all IsWhiteSpaceLike (counted_runes (s_text ?s) (s_pos ?s) (s_pos (snd (ScanJsxToken ?s))))"
    and "list_ex IsLineBreak (counted_runes (s_text ?s) (s_pos ?s) (s_pos (snd (ScanJsxToken ?s))))"
    by code_simp+
  then show ?thesis using jsx_text_classified [OF wf prod.collapse [symmetric] k] by blast
qed

end
