(* ===== verification/CommentRanges.thy ===== *)
theory CommentRanges
  imports ScannerTrivia ScannerLinesProps
begin

text \<open>
  What \<open>iterateCommentRanges\<close> of \<^verbatim>\<open>scanner/scanner.go\<close> yields, against a grammar of trivia that is
  stated on the bytes of the text: a comment of one line ends at the first line break, a block
  comment behind the first \<open>*/\<close>; the trivia at a position are a unique sequence of blanks, line
  breaks and comments, and the ranges are the comments of that sequence.
\<close>

section \<open>The grammar of trivia\<close>

definition line_break_at :: "string \<Rightarrow> nat \<Rightarrow> bool" where
  "line_break_at t i \<longleftrightarrow>
     i < length t \<and> (t ! i = CHR 0x0A \<or> t ! i = CHR 0x0D \<or> separator_bytes (drop i t))"

definition is_line_comment :: "string \<Rightarrow> nat \<Rightarrow> nat \<Rightarrow> bool" where
  "is_line_comment t p e \<longleftrightarrow>
     HasPrefix (drop p t) ''//'' \<and> p + 2 \<le> e \<and> e \<le> length t
     \<and> (\<forall>i. p + 2 \<le> i \<and> i < e \<longrightarrow> \<not> line_break_at t i)
     \<and> (e = length t \<or> line_break_at t e)"

definition is_block_comment :: "string \<Rightarrow> nat \<Rightarrow> nat \<Rightarrow> bool" where
  "is_block_comment t p e \<longleftrightarrow>
     HasPrefix (drop p t) ''/*''
     \<and> (p + 4 \<le> e \<and> HasPrefix (drop (e - 2) t) ''*/''
          \<and> (\<forall>i. p + 2 \<le> i \<and> i + 2 < e \<longrightarrow> \<not> HasPrefix (drop i t) ''*/'')
        \<or> e = length t \<and> (\<forall>i. p + 2 \<le> i \<longrightarrow> \<not> HasPrefix (drop i t) ''*/''))"

text \<open>
  The line separators of Unicode count as line breaks behind a comment, but they are no lines for
  the question which comments are leading and which are trailing.
\<close>

datatype trivium = Blank | Line | Separator | Comment CommentRange

inductive trivia_item :: "string \<Rightarrow> nat \<Rightarrow> trivium \<Rightarrow> nat \<Rightarrow> bool" for t where
  blank: "p < length t \<Longrightarrow> DecodeRune (drop p t) = (ch, n) \<Longrightarrow> IsWhiteSpaceSingleLine ch \<Longrightarrow>
    trivia_item t p Blank (p + n)"
| crlf: "HasPrefix (drop p t) [CHR 0x0D, CHR 0x0A] \<Longrightarrow> trivia_item t p Line (p + 2)"
| line: "p < length t \<Longrightarrow> t ! p = CHR 0x0A \<or> t ! p = CHR 0x0D \<Longrightarrow>
    \<not> HasPrefix (drop p t) [CHR 0x0D, CHR 0x0A] \<Longrightarrow> trivia_item t p Line (p + 1)"
| separator: "separator_bytes (drop p t) \<Longrightarrow> trivia_item t p Separator (p + 3)"
| line_comment: "is_line_comment t p e \<Longrightarrow>
    trivia_item t p (Comment \<lparr>cr_kind = KindSingleLineCommentTrivia, cr_pos = p, cr_end = e,
      cr_newline = e < length t\<rparr>) e"
| block_comment: "is_block_comment t p e \<Longrightarrow>
    trivia_item t p (Comment \<lparr>cr_kind = KindMultiLineCommentTrivia, cr_pos = p, cr_end = e,
      cr_newline = False\<rparr>) e"

inductive trivia_path :: "string \<Rightarrow> nat \<Rightarrow> trivium list \<Rightarrow> bool" for t where
  stop: "\<nexists>x q. trivia_item t p x q \<Longrightarrow> trivia_path t p []"
| item: "trivia_item t p x q \<Longrightarrow> trivia_path t q xs \<Longrightarrow> trivia_path t p (x # xs)"

section \<open>The ends of comments\<close>

lemma line_break_at_decode:
  assumes "i < length t"
  shows "line_break_at t i \<longleftrightarrow> IsLineBreak (fst (DecodeRune (drop i t)))"
proof -
  have d: "drop i t = t ! i # drop (Suc i) t" using assms by (simp add: Cons_nth_drop_Suc)
  show ?thesis
  proof (cases "rune_of (t ! i) < 0x80")
    case True
    then have "DecodeRune (drop i t) = (rune_of (t ! i), 1)" by (simp add: d)
    moreover have "\<not> separator_bytes (drop i t)" using True assms by (auto simp: separator_bytes_def)
    moreover have "rune_of (t ! i) = rune_of c \<longleftrightarrow> t ! i = c" for c by (rule of_char_eq_iff)
    from this [of "CHR 0x0A"] this [of "CHR 0x0D"]
    have "IsLineBreak (rune_of (t ! i)) \<longleftrightarrow> t ! i = CHR 0x0A \<or> t ! i = CHR 0x0D"
      using True by (simp add: IsLineBreak_def)
    ultimately show ?thesis using assms by (simp add: line_break_at_def)
  next
    case False
    then have "t ! i \<noteq> CHR 0x0A" "t ! i \<noteq> CHR 0x0D" by auto
    then have "line_break_at t i \<longleftrightarrow> separator_bytes (drop i t)" using assms by (simp add: line_break_at_def)
    also have "\<dots> \<longleftrightarrow> IsLineBreak (fst (DecodeRune (drop i t)))"
      using separator_decodes(1) break_is_separator [of "drop i t"] False assms by auto
    finally show ?thesis .
  qed
qed

lemma no_line_break_inside:
  assumes "0 < j" "j < snd (DecodeRune (drop i t))" "i < length t"
  shows "\<not> line_break_at t (i + j)"
proof -
  have "utf8_cont (drop i t ! j)" by (rule DecodeRune_cont [OF assms(2,1)])
  moreover have "i + j < length t" using assms(2) DecodeRune_size_le [of "drop i t"] by simp
  ultimately show ?thesis by (auto simp: line_break_at_def separator_bytes_def byte_in_def)
qed

lemma runes_end_line:
  "p \<le> length t \<Longrightarrow> e = p + runes_end (\<lambda>ch. \<not> IsLineBreak ch) (drop p t) \<Longrightarrow> p \<le> i \<Longrightarrow> i < e \<Longrightarrow>
     \<not> line_break_at t i"
proof (induction "length t - p" arbitrary: p rule: less_induct)
  case less
  define n where "n = snd (DecodeRune (drop p t))"
  have re: "runes_end (\<lambda>ch. \<not> IsLineBreak ch) (drop p t) =
      (if 0 < n \<and> \<not> IsLineBreak (fst (DecodeRune (drop p t)))
       then n + runes_end (\<lambda>ch. \<not> IsLineBreak ch) (drop (n + p) t) else 0)"
    by (subst runes_end.simps) (simp add: Let_def n_def)
  have n: "0 < n" "\<not> IsLineBreak (fst (DecodeRune (drop p t)))"
    and e: "e = p + n + runes_end (\<lambda>ch. \<not> IsLineBreak ch) (drop (p + n) t)"
    using less.prems(2-4) re by (auto simp: add.commute split: if_splits)
  have le: "p + n \<le> length t" using DecodeRune_size_le [of "drop p t"] less.prems(1) by (simp add: n_def)
  then have lt: "p < length t" using n(1) by simp
  consider "i = p" | "p < i" "i < p + n" | "p + n \<le> i" using less.prems(3) by linarith
  then show ?case
  proof cases
    case 1
    then show ?thesis using n(2) line_break_at_decode [OF lt] by simp
  next
    case 2
    then show ?thesis using no_line_break_inside [of "i - p" p t] lt by (simp add: n_def)
  next
    case 3
    show ?thesis using less.hyps [OF _ le e 3 less.prems(4)] n(1) lt by simp
  qed
qed

lemma line_end_spec:
  assumes "HasPrefix (drop p t) ''//''"
  shows "is_line_comment t p (line_end t (p + 2))"
proof -
  have p: "p + 2 \<le> length t" using HasPrefix_length [OF assms] by simp
  have "line_end t (p + 2) < length t \<Longrightarrow> line_break_at t (line_end t (p + 2))"
    using runes_end_stop [of "\<lambda>ch. \<not> IsLineBreak ch" "drop (p + 2) t"]
      line_break_at_decode [of "line_end t (p + 2)" t] by (simp add: line_end_def add.commute add.left_commute)
  moreover have "\<forall>i. p + 2 \<le> i \<and> i < line_end t (p + 2) \<longrightarrow> \<not> line_break_at t i"
    using runes_end_line [OF p] by (auto simp: line_end_def)
  ultimately show ?thesis
    using assms line_end_le [OF p] line_end_ge [of "p + 2" t] unfolding is_line_comment_def by fastforce
qed

lemma strIndex_first:
  "strIndex t w = Some i \<Longrightarrow> HasPrefix (drop i t) w \<and> (\<forall>j<i. \<not> HasPrefix (drop j t) w)"
proof (induction t arbitrary: i)
  case (Cons x t)
  show ?case
  proof (cases "HasPrefix (x # t) w")
    case False
    then obtain k where k: "i = Suc k" "strIndex t w = Some k" using Cons.prems by auto
    have "\<not> HasPrefix (drop j (x # t)) w" if "j < i" for j
      using that False Cons.IH [OF k(2)] k(1) by (cases j) auto
    then show ?thesis using Cons.IH [OF k(2)] k(1) by simp
  qed (use Cons.prems in simp)
qed (auto simp: HasPrefix_def split: if_splits)

lemma strIndex_none: "strIndex t w = None \<Longrightarrow> w \<noteq> [] \<Longrightarrow> \<not> HasPrefix (drop i t) w"
proof (induction t arbitrary: i)
  case (Cons x t)
  then show ?case by (cases i) (auto split: if_splits)
qed (simp add: HasPrefix_def)

lemma block_end_spec:
  assumes "HasPrefix (drop p t) ''/*''"
  shows "is_block_comment t p
    (case strIndex (drop (p + 2) t) ''*/'' of Some i \<Rightarrow> p + 2 + i + 2 | None \<Rightarrow> length t)"
proof (cases "strIndex (drop (p + 2) t) ''*/''")
  case None
  have "\<not> HasPrefix (drop i t) ''*/''" if "p + 2 \<le> i" for i
  proof -
    have "drop (i - (p + 2)) (drop (p + 2) t) = drop i t" using that by (simp only: drop_drop le_add_diff_inverse2)
    then show ?thesis using strIndex_none [OF None, of "i - (p + 2)"] by simp
  qed
  then show ?thesis using assms None by (simp add: is_block_comment_def)
next
  case (Some k)
  note f = strIndex_first [OF Some]
  have "\<not> HasPrefix (drop i t) ''*/''" if "p + 2 \<le> i" "i < p + 2 + k" for i
  proof -
    have "drop (i - (p + 2)) (drop (p + 2) t) = drop i t" using that by (simp only: drop_drop le_add_diff_inverse2)
    then show ?thesis using f that by (auto dest: spec [of _ "i - (p + 2)"])
  qed
  then show ?thesis using assms Some f by (simp add: is_block_comment_def add.commute add.left_commute)
qed

lemma HasPrefix_two: "HasPrefix (drop p t) [a, b] \<longleftrightarrow> p + 1 < length t \<and> t ! p = a \<and> t ! (p + 1) = b"
proof (cases "p + 1 < length t")
  case True
  then have "drop p t = t ! p # t ! (p + 1) # drop (p + 2) t" by (simp add: Cons_nth_drop_Suc)
  then have "take 2 (drop p t) = [t ! p, t ! (p + 1)]" by (simp add: numeral_2_eq_2)
  then show ?thesis using True by (auto simp: HasPrefix_def numeral_2_eq_2)
next
  case False
  then have "length (take 2 (drop p t)) \<noteq> 2" by simp
  then show ?thesis using False unfolding HasPrefix_def by (metis (no_types) One_nat_def list.size(3,4) one_add_one Suc_eq_plus1)
qed

lemma comment_at_item:
  assumes "t ! p = CHR ''/''" "comment_at t p = Some c"
  shows "trivia_item t p (Comment c) (cr_end c)"
proof (cases "t ! (p + 1) = CHR ''/''")
  case True
  then have "HasPrefix (drop p t) ''//''" using assms by (simp add: HasPrefix_two comment_at_def split: if_splits)
  then show ?thesis
    using trivia_item.line_comment [OF line_end_spec] assms(2) True
    by (auto simp: comment_at_def Let_def HasPrefix_two split: if_splits)
next
  case False
  then have "HasPrefix (drop p t) ''/*''" using assms by (simp add: HasPrefix_two comment_at_def split: if_splits)
  then show ?thesis
    using trivia_item.block_comment [OF block_end_spec] assms(2) False
    by (auto simp: comment_at_def Let_def HasPrefix_two split: if_splits)
qed

section \<open>The trivia at a position are unique\<close>

lemma block_comment_unique:
  assumes "is_block_comment t p e" "is_block_comment t p e'"
  shows "e \<le> e'"
proof (rule ccontr)
  assume "\<not> e \<le> e'"
  moreover have "e \<le> length t"
    using assms(1) HasPrefix_length [of "drop (e - 2) t" "''*/''"] by (auto simp: is_block_comment_def)
  ultimately have "e' < e" "e' < length t" by simp_all
  then have b: "HasPrefix (drop (e' - 2) t) ''*/''" "p + 2 \<le> e' - 2" "e' - 2 + 2 < e"
    using assms(2) by (auto simp: is_block_comment_def)
  then show False using assms(1) unfolding is_block_comment_def by blast
qed

lemma line_comment_unique:
  assumes "is_line_comment t p e" "is_line_comment t p e'"
  shows "e \<le> e'"
proof (rule ccontr)
  assume "\<not> e \<le> e'"
  then have "p + 2 \<le> e'" "e' < e" "e' \<noteq> length t" using assms by (auto simp: is_line_comment_def)
  then show False using assms by (auto simp: is_line_comment_def)
qed

lemma ascii_decode: "p < length t \<Longrightarrow> rune_of (t ! p) < 0x80 \<Longrightarrow> DecodeRune (drop p t) = (rune_of (t ! p), 1)"
  by (metis Cons_nth_drop_Suc DecodeRune_ascii)

lemma separator_decode:
  assumes "separator_bytes (drop p t)"
  shows "p < length t" "\<not> rune_of (t ! p) < 0x80" "snd (DecodeRune (drop p t)) = 3"
    "IsLineBreak (fst (DecodeRune (drop p t)))"
  using assms separator_decodes [of "drop p t"] by (auto simp: separator_bytes_def)

text \<open>What the first rune says of an item.\<close>

definition item_of_rune :: "string \<Rightarrow> nat \<Rightarrow> trivium \<Rightarrow> nat \<Rightarrow> bool" where
  "item_of_rune t p x q \<longleftrightarrow>
     (let ch = fst (DecodeRune (drop p t)) in
      case x of
        Blank \<Rightarrow> IsWhiteSpaceSingleLine ch \<and> q = p + snd (DecodeRune (drop p t))
      | Line \<Rightarrow> (ch = 0x0D \<or> ch = 0x0A)
          \<and> q = (if ch = 0x0D \<and> p + 1 < length t \<and> t ! (p + 1) = CHR 0x0A then p + 2 else p + 1)
      | Separator \<Rightarrow> 0x80 \<le> ch \<and> IsLineBreak ch \<and> q = p + snd (DecodeRune (drop p t))
      | Comment c \<Rightarrow> ch = 0x2F \<and> comment_at t p = Some c \<and> q = cr_end c)"

lemma comment_item:
  assumes "is_line_comment t p e \<or> is_block_comment t p e"
  shows "p < length t" "DecodeRune (drop p t) = (0x2F, 1)"
    "comment_at t p = Some \<lparr>cr_kind = if is_line_comment t p e then KindSingleLineCommentTrivia else KindMultiLineCommentTrivia,
      cr_pos = p, cr_end = e, cr_newline = is_line_comment t p e \<and> e < length t\<rparr>"
proof -
  show p: "p < length t" using assms by (auto simp: is_line_comment_def is_block_comment_def HasPrefix_two)
  have s: "t ! p = CHR ''/''" using assms by (auto simp: is_line_comment_def is_block_comment_def HasPrefix_two)
  show "DecodeRune (drop p t) = (0x2F, 1)" using ascii_decode [OF p] s by simp
  show "comment_at t p = Some \<lparr>cr_kind = if is_line_comment t p e then KindSingleLineCommentTrivia else KindMultiLineCommentTrivia,
      cr_pos = p, cr_end = e, cr_newline = is_line_comment t p e \<and> e < length t\<rparr>"
  proof (cases "is_line_comment t p e")
    case True
    then have h: "HasPrefix (drop p t) ''//''" by (simp add: is_line_comment_def)
    have "line_end t (p + 2) = e"
      using line_comment_unique [OF True line_end_spec [OF h]] line_comment_unique [OF line_end_spec [OF h] True] by simp
    then show ?thesis using h True by (simp add: comment_at_def HasPrefix_two)
  next
    case False
    then have b: "is_block_comment t p e" using assms by simp
    then have h: "HasPrefix (drop p t) ''/*''" by (simp add: is_block_comment_def)
    have "(case strIndex (drop (p + 2) t) ''*/'' of Some i \<Rightarrow> p + 2 + i + 2 | None \<Rightarrow> length t) = e"
      using block_comment_unique [OF b block_end_spec [OF h]] block_comment_unique [OF block_end_spec [OF h] b] by simp
    then show ?thesis using h False by (simp add: comment_at_def HasPrefix_two)
  qed
qed

lemma item_of_rune: "trivia_item t p x q \<Longrightarrow> p < length t \<and> item_of_rune t p x q"
proof (induction rule: trivia_item.cases)
  case (blank p ch n)
  then show ?case by (simp add: item_of_rune_def)
next
  case (crlf p)
  then show ?case using ascii_decode [of p t] by (auto simp: item_of_rune_def HasPrefix_two)
next
  case (line p)
  then show ?case using ascii_decode [of p t] by (auto simp: item_of_rune_def HasPrefix_two)
next
  case (separator p)
  note d = separator_decode [OF separator(4)]
  have "0x80 \<le> fst (DecodeRune (drop p t))" using DecodeRune_at_high [OF d(1,2)] .
  then show ?case using separator d by (simp add: item_of_rune_def)
next
  case (line_comment p e)
  then show ?case using comment_item [of t p e] by (simp add: item_of_rune_def)
next
  case (block_comment p e)
  then have "\<not> is_line_comment t p e"
    by (auto simp: is_line_comment_def is_block_comment_def HasPrefix_two)
  then show ?case using block_comment comment_item [of t p e] by (simp add: item_of_rune_def)
qed


lemma rune_classes:
  "IsWhiteSpaceSingleLine ch \<Longrightarrow> \<not> IsLineBreak ch \<and> ch \<noteq> 0x2F"
  "IsLineBreak ch \<Longrightarrow> ch \<noteq> 0x2F"
  "0x80 \<le> ch \<Longrightarrow> ch \<noteq> 0x0D \<and> ch \<noteq> 0x0A"
  by (auto simp: IsWhiteSpaceSingleLine_def IsLineBreak_def)

lemma trivia_item_unique:
  assumes "trivia_item t p x q" "trivia_item t p y r"
  shows "x = y \<and> q = r"
proof -
  have "item_of_rune t p x q" "item_of_rune t p y r" using assms item_of_rune by blast+
  then show ?thesis
    unfolding item_of_rune_def Let_def
    by (cases x; cases y) (auto simp: rune_classes IsLineBreak_def dest: rune_classes(1))
qed

lemma trivia_path_unique: "trivia_path t p xs \<Longrightarrow> trivia_path t p ys \<Longrightarrow> xs = ys"
proof (induction arbitrary: ys rule: trivia_path.induct)
  case (stop p)
  then show ?case by (auto elim: trivia_path.cases)
next
  case (item p x q xs)
  from item.prems show ?case
  proof cases
    case stop
    then show ?thesis using item.hyps(1) by blast
  next
    case (item y r zs)
    then show ?thesis using trivia_item_unique [OF item(2) item.hyps(1)] item.IH by auto
  qed
qed

lemma trivia_item_moves: "trivia_item t p x q \<Longrightarrow> p < q \<and> q \<le> length t"
proof (induction rule: trivia_item.cases)
  case (blank p ch n)
  then show ?case using DecodeRune_size_le [of "drop p t"] DecodeRune_size_pos [of "drop p t"] by simp
next
  case (block_comment p e)
  then show ?case using comment_at_bounds [OF comment_item(3)] by fastforce
qed (auto simp: HasPrefix_two separator_bytes_def is_line_comment_def)

lemma trivia_path_exists: "\<exists>xs. trivia_path t p xs"
proof (induction "length t - p" arbitrary: p rule: less_induct)
  case less
  show ?case
  proof (cases "\<exists>x q. trivia_item t p x q")
    case True
    then obtain x q where i: "trivia_item t p x q" by blast
    then have "length t - q < length t - p" using trivia_item_moves by fastforce
    then show ?thesis using less i trivia_path.item by blast
  qed (use trivia_path.stop in blast)
qed

section \<open>The ranges of a sequence of trivia\<close>

text \<open>
  A comment is followed by a new line if a line break or separator stands between it and the next
  comment; a comment of one line says so itself.
\<close>

fun breaks_next :: "trivium list \<Rightarrow> bool" where
  "breaks_next [] = False"
| "breaks_next (Blank # xs) = breaks_next xs"
| "breaks_next (Comment c # xs) = False"
| "breaks_next (x # xs) = True"

fun ranges_of :: "trivium list \<Rightarrow> CommentRange list" where
  "ranges_of [] = []"
| "ranges_of (Comment c # xs) = c\<lparr>cr_newline := cr_newline c \<or> breaks_next xs\<rparr> # ranges_of xs"
| "ranges_of (x # xs) = ranges_of xs"

text \<open>
  Trailing comments are those before the first line break; leading ones those after it, or all at
  the start of the text.
\<close>

definition selected :: "bool \<Rightarrow> bool \<Rightarrow> trivium list \<Rightarrow> trivium list" where
  "selected trailing collecting xs =
     (if trailing then takeWhile (\<lambda>x. x \<noteq> Line) xs
      else if collecting then xs else dropWhile (\<lambda>x. x \<noteq> Line) xs)"

definition step_at :: "trivium \<Rightarrow> nat \<Rightarrow> bool \<Rightarrow> bool \<Rightarrow> CommentRange option \<Rightarrow>
    CommentRange list \<times> (nat \<times> bool \<times> CommentRange option) option" where
  "step_at x q trailing collecting pending =
     (case x of
        Blank \<Rightarrow> ([], Some (q, collecting, pending))
      | Line \<Rightarrow> ([], if trailing then None else Some (q, True, pending_newline pending))
      | Separator \<Rightarrow> ([], Some (q, collecting, pending_newline pending))
      | Comment c \<Rightarrow>
          if collecting then (pending_list pending, Some (q, collecting, Some c))
          else ([], Some (q, collecting, pending)))"

lemma ranges_step_item:
  assumes "trivia_item t p x q"
  shows "p < length t" "ranges_step t tr p col pend = step_at x q tr col pend"
proof -
  have p: "p < length t" and i: "item_of_rune t p x q" using item_of_rune [OF assms] by simp_all
  show "p < length t" by (rule p)
  obtain ch n where d: "DecodeRune (drop p t) = (ch, n)" by fastforce
  have one: "ch < 0x80 \<Longrightarrow> n = 1" using DecodeRune_at_high [OF p] ascii_decode [OF p] d by (metis fst_conv not_less prod.inject)
  show "ranges_step t tr p col pend = step_at x q tr col pend"
  proof (cases x)
    case Blank
    then have ch: "IsWhiteSpaceSingleLine ch" "q = p + n" using i d by (simp_all add: item_of_rune_def)
    then have "\<not> IsLineBreak ch" "ch \<noteq> 0x2F" using rune_classes by auto
    moreover have "ch = 0x09 \<or> ch = 0x0B \<or> ch = 0x0C \<or> ch = 0x20 \<or> 0x7F < ch"
      using ch(1) by (auto simp: IsWhiteSpaceSingleLine_def)
    ultimately show ?thesis
      using ch one Blank by (auto simp: ranges_step_def d step_at_def IsWhiteSpaceLike_def IsLineBreak_def)
  next
    case Line
    then show ?thesis using i d
      by (auto simp: item_of_rune_def ranges_step_def step_at_def ranges_line_break_def)
  next
    case Separator
    then have "0x80 \<le> ch" "IsLineBreak ch" "q = p + n" using i d by (simp_all add: item_of_rune_def)
    then show ?thesis using Separator by (simp add: ranges_step_def d step_at_def IsWhiteSpaceLike_def)
  next
    case (Comment c)
    then show ?thesis using i d by (simp add: item_of_rune_def ranges_step_def step_at_def)
  qed
qed

lemma ranges_step_no_item:
  assumes "\<nexists>x q. trivia_item t p x q" "p < length t"
  shows "ranges_step t tr p col pend = ([], None)"
proof -
  obtain ch n where d: "DecodeRune (drop p t) = (ch, n)" by fastforce
  have ascii: "ch < 0x80 \<Longrightarrow> ch = rune_of (t ! p)"
    using DecodeRune_at_high [OF assms(2)] ascii_decode [OF assms(2)] d by (metis fst_conv not_less)
  have "ch \<noteq> 0x0D" "ch \<noteq> 0x0A"
    using assms trivia_item.line [of p t] trivia_item.crlf [of p t] ascii
      of_char_eq_iff [of "t ! p" "CHR 0x0D", where 'a = int] of_char_eq_iff [of "t ! p" "CHR 0x0A", where 'a = int]
    by auto
  moreover have "\<not> IsWhiteSpaceSingleLine ch" using assms trivia_item.blank [OF assms(2) d] by blast
  moreover have "ch = 0x2F \<Longrightarrow> comment_at t p = None"
    using assms(1) comment_at_item [of t p] ascii of_char_slash [of "t ! p"] by (cases "comment_at t p") auto
  moreover have "\<not> (0x7F < ch \<and> IsLineBreak ch)"
  proof
    assume h: "0x7F < ch \<and> IsLineBreak ch"
    then have "\<not> rune_of (t ! p) < 0x80" using ascii_decode [OF assms(2)] d by auto
    then have "separator_bytes (drop p t)"
      using h d assms(2) break_is_separator [of "drop p t"] by simp
    then show False using assms(1) trivia_item.separator by blast
  qed
  ultimately show ?thesis
    by (auto simp: ranges_step_def d IsWhiteSpaceLike_def IsWhiteSpaceSingleLine_def split: option.split)
qed

definition pending_ranges :: "CommentRange option \<Rightarrow> trivium list \<Rightarrow> CommentRange list" where
  "pending_ranges pending xs =
     (case pending of None \<Rightarrow> [] | Some c \<Rightarrow> [c\<lparr>cr_newline := cr_newline c \<or> breaks_next xs\<rparr>])"

lemma ranges_loop_path:
  assumes "trivia_path t p xs" "tr \<longrightarrow> col" "\<not> col \<longrightarrow> pend = None"
  shows "ranges_loop t tr p col pend =
    pending_ranges pend (selected tr col xs) @ ranges_of (selected tr col xs)"
  using assms
proof (induction arbitrary: col pend rule: trivia_path.induct)
  case (stop p)
  then have "ranges_loop t tr p col pend = pending_list pend"
    by (subst ranges_loop.simps) (simp add: ranges_step_no_item)
  then show ?case by (auto simp: pending_list_def pending_ranges_def selected_def split: option.split)
next
  case (item p x q xs)
  note s = ranges_step_item [OF item.hyps(1)]
  have "ranges_loop t tr p col pend =
      (case step_at x q tr col pend of
         (out, None) \<Rightarrow> out @ pending_list pend
       | (out, Some (p, c, q)) \<Rightarrow> out @ ranges_loop t tr p c q)"
    using s(1) by (subst ranges_loop.simps) (simp add: s(2))
  then show ?case
    using item.IH [of col pend] item.IH [of True "pending_newline pend"] item.IH [of col "pending_newline pend"]
      item.IH [of col] item.prems
    by (cases x; cases pend)
       (auto simp: step_at_def selected_def pending_list_def pending_newline_def pending_ranges_def)
qed

section \<open>The property\<close>

text \<open>Where the trivia begin: a shebang stands only at the start of the text.\<close>

definition trivia_start :: "string \<Rightarrow> int \<Rightarrow> nat" where
  "trivia_start t pos = (if pos = 0 \<and> isShebangTrivia t then scanShebangTrivia t 0 else nat pos)"

text \<open>C11: The ranges that \<open>GetLeadingCommentRanges\<close> and \<open>GetTrailingCommentRanges\<close> yield are exactly
  the comments of the trivia at the position: the trivia are a unique maximal sequence of blanks,
  line breaks and comments, in which a comment of one line ends at the first line break and a block
  comment behind the first \<open>*/\<close> (or at the end of the text); the trailing comments are those before
  the first line break, the leading ones those after it (at the start of the text all of them), in
  order and without overlap, and a range says whether a line break follows before the next
  comment. A negative position has none.\<close>

theorem comment_ranges_of_trivia:
  "\<exists>xs. {ys. trivia_path t (trivia_start t pos) ys} = {xs}
    \<and> iterateCommentRanges t pos trailing = (if pos < 0 then [] else ranges_of (selected trailing (pos = 0) xs))
    \<and> ordered_comments t (nat pos) (iterateCommentRanges t pos trailing)"
proof -
  obtain xs where xs: "trivia_path t (trivia_start t pos) xs" using trivia_path_exists by blast
  have "{ys. trivia_path t (trivia_start t pos) ys} = {xs}" using xs trivia_path_unique by blast
  moreover have "iterateCommentRanges t pos trailing =
      (if pos < 0 then [] else ranges_of (selected trailing (pos = 0) xs))"
  proof -
    have "ranges_loop t trailing (trivia_start t pos) (trailing \<or> pos = 0) None
        = ranges_of (selected trailing (trailing \<or> pos = 0) xs)"
      using ranges_loop_path [OF xs] by (simp add: pending_ranges_def)
    moreover have "selected trailing (trailing \<or> pos = 0) xs = selected trailing (pos = 0) xs"
      by (simp add: selected_def)
    ultimately show ?thesis by (auto simp: iterateCommentRanges_def trivia_start_def)
  qed
  moreover have "ordered_comments t lo (ranges_loop t trailing p c None)" if "lo \<le> p" for lo p c
    using that by (intro ranges_loop_ordered) (simp add: pending_ok_def)
  then have "ordered_comments t (nat pos) (iterateCommentRanges t pos trailing)"
    by (auto simp: iterateCommentRanges_def)
  ultimately show ?thesis by blast
qed

end
