(* ===== verification/RegExpScan.thy ===== *)
theory RegExpScan
  imports ScannerText RegExpTables
begin

text \<open>
  The checker of regular expression literals (\<^verbatim>\<open>scanner/regexp.go\<close>): a parser over the scanner that
  reports errors. The scanner it points to is a field of its state. Loops and recursive methods
  take fuel and return \<open>None\<close> when it is used up. The suggestion for a misspelled name
  (\<open>core.GetSpellingSuggestionForStrings\<close>, an edit distance in floating point) is the parameter
  \<open>suggest\<close>, which returns the empty string for none.
\<close>

section \<open>State\<close>

type_synonym regularExpressionFlags = "32 word"

abbreviation (input) regularExpressionFlagsNone :: regularExpressionFlags where "regularExpressionFlagsNone \<equiv> 0"
abbreviation (input) regularExpressionFlagsHasIndices :: regularExpressionFlags where "regularExpressionFlagsHasIndices \<equiv> 1"
abbreviation (input) regularExpressionFlagsGlobal :: regularExpressionFlags where "regularExpressionFlagsGlobal \<equiv> 2"
abbreviation (input) regularExpressionFlagsIgnoreCase :: regularExpressionFlags where "regularExpressionFlagsIgnoreCase \<equiv> 4"
abbreviation (input) regularExpressionFlagsMultiline :: regularExpressionFlags where "regularExpressionFlagsMultiline \<equiv> 8"
abbreviation (input) regularExpressionFlagsDotAll :: regularExpressionFlags where "regularExpressionFlagsDotAll \<equiv> 16"
abbreviation (input) regularExpressionFlagsUnicode :: regularExpressionFlags where "regularExpressionFlagsUnicode \<equiv> 32"
abbreviation (input) regularExpressionFlagsUnicodeSets :: regularExpressionFlags where "regularExpressionFlagsUnicodeSets \<equiv> 64"
abbreviation (input) regularExpressionFlagsSticky :: regularExpressionFlags where "regularExpressionFlagsSticky \<equiv> 128"
abbreviation (input) regularExpressionFlagsAnyUnicodeMode :: regularExpressionFlags where "regularExpressionFlagsAnyUnicodeMode \<equiv> 96"
abbreviation (input) regularExpressionFlagsModifiers :: regularExpressionFlags where "regularExpressionFlagsModifiers \<equiv> 28"

definition charCodeToRegExpFlag :: "rune \<Rightarrow> regularExpressionFlags option" where
  "charCodeToRegExpFlag ch = map_of
    [(0x64, regularExpressionFlagsHasIndices), (0x67, regularExpressionFlagsGlobal),
     (0x69, regularExpressionFlagsIgnoreCase), (0x6D, regularExpressionFlagsMultiline),
     (0x73, regularExpressionFlagsDotAll), (0x75, regularExpressionFlagsUnicode),
     (0x76, regularExpressionFlagsUnicodeSets), (0x79, regularExpressionFlagsSticky)] ch"

text \<open>The language versions are those of \<open>core.ScriptTarget\<close>; with each the text of its name in lower case.\<close>

abbreviation (input) ScriptTargetES2018 :: int where "ScriptTargetES2018 \<equiv> 5"
abbreviation (input) ScriptTargetES2022 :: int where "ScriptTargetES2022 \<equiv> 9"
abbreviation (input) ScriptTargetES2024 :: int where "ScriptTargetES2024 \<equiv> 11"
abbreviation (input) ScriptTargetES2025 :: int where "ScriptTargetES2025 \<equiv> 12"

definition regExpFlagToFirstAvailableLanguageVersion :: "regularExpressionFlags \<Rightarrow> (int \<times> string) option" where
  "regExpFlagToFirstAvailableLanguageVersion flag = map_of
    [(regularExpressionFlagsHasIndices, (ScriptTargetES2022, ''es2022'')),
     (regularExpressionFlagsDotAll, (ScriptTargetES2018, ''es2018'')),
     (regularExpressionFlagsUnicodeSets, (ScriptTargetES2024, ''es2024''))] flag"

definition checkRegularExpressionFlagAvailability :: "regularExpressionFlags \<Rightarrow> nat \<Rightarrow> nat \<Rightarrow> Scanner \<Rightarrow> Scanner" where
  "checkRegularExpressionFlagAvailability flag pos sz s =
    (case regExpFlagToFirstAvailableLanguageVersion flag of
       Some (availableFrom, name) \<Rightarrow>
         if languageVersion s < availableFrom
         then errorAtWith This_regular_expression_flag_is_only_available_when_targeting_0_or_later (int pos) (int sz) [name] s
         else s
     | None \<Rightarrow> s)"

datatype classSetExpressionType =
    classSetExpressionTypeUnknown | classSetExpressionTypeClassUnion
  | classSetExpressionTypeClassIntersection | classSetExpressionTypeClassSubtraction

record groupNameReference =
  gr_pos :: nat
  gr_end :: nat
  gr_name :: string

record decimalEscapeValue =
  de_pos :: nat
  de_end :: nat
  de_value :: int

text \<open>
  Sets of names are lists; the stack \<open>namedCapturingGroups\<close> has its top in front.
\<close>

record regExpParser =
  rx_scanner :: Scanner
  rx_end :: nat
  rx_regExpFlags :: regularExpressionFlags
  anyUnicodeMode :: bool
  unicodeSetsMode :: bool
  annexB :: bool
  anyUnicodeModeOrNonAnnexB :: bool
  namedCaptureGroups :: bool
  mayContainStrings :: bool
  numberOfCapturingGroups :: nat
  groupSpecifiers :: "string list"
  groupNameReferences :: "groupNameReference list"
  decimalEscapes :: "decimalEscapeValue list"
  namedCapturingGroups :: "string list list"
  pendingLowSurrogate :: rune

definition rx_pos :: "regExpParser \<Rightarrow> nat" where
  "rx_pos p = s_pos (rx_scanner p)"

definition on_scanner :: "(Scanner \<Rightarrow> Scanner) \<Rightarrow> regExpParser \<Rightarrow> regExpParser" where
  "on_scanner f p = p\<lparr>rx_scanner := f (rx_scanner p)\<rparr>"

definition setPos :: "nat \<Rightarrow> regExpParser \<Rightarrow> regExpParser" where
  "setPos v p = on_scanner (\<lambda>s. s\<lparr>s_pos := v\<rparr>) p"

definition incPos :: "nat \<Rightarrow> regExpParser \<Rightarrow> regExpParser" where
  "incPos n p = on_scanner (advance n) p"

text \<open>\<open>p.incPos(-1)\<close>, which the code does only behind a character it has consumed.\<close>

definition decPos :: "regExpParser \<Rightarrow> regExpParser" where
  "decPos p = on_scanner (\<lambda>s. s\<lparr>s_pos := s_pos s - 1\<rparr>) p"

definition rx_char :: "regExpParser \<Rightarrow> rune" where
  "rx_char p = s_char (rx_scanner p)"

text \<open>\<open>p.charAt(pos + n)\<close> with \<open>pos\<close> the position.\<close>

definition rx_charAt :: "nat \<Rightarrow> regExpParser \<Rightarrow> rune" where
  "rx_charAt n p = charAt (rx_scanner p) n"

definition rx_text :: "regExpParser \<Rightarrow> string" where
  "rx_text p = s_text (rx_scanner p)"

definition rx_errorWith :: "DiagnosticMessage \<Rightarrow> int \<Rightarrow> int \<Rightarrow> string list \<Rightarrow> regExpParser \<Rightarrow> regExpParser" where
  "rx_errorWith msg pos len args p = on_scanner (errorAtWith msg pos len args) p"

definition rx_error :: "DiagnosticMessage \<Rightarrow> int \<Rightarrow> int \<Rightarrow> regExpParser \<Rightarrow> regExpParser" where
  "rx_error msg pos len p = rx_errorWith msg pos len [] p"

text \<open>An error for what lies between \<open>start\<close> and the position.\<close>

definition rx_error_from :: "DiagnosticMessage \<Rightarrow> nat \<Rightarrow> regExpParser \<Rightarrow> regExpParser" where
  "rx_error_from msg start p = rx_error msg (int start) (int (rx_pos p) - int start) p"

text \<open>\<open>debug.Assert\<close>, and the assertion on the previous byte that most methods begin with.\<close>

definition rx_assert :: "bool \<Rightarrow> regExpParser \<Rightarrow> regExpParser" where
  "rx_assert b p = (if b then p else on_scanner panic p)"

definition assert_after :: "char \<Rightarrow> regExpParser \<Rightarrow> regExpParser" where
  "assert_after c p = rx_assert (0 < rx_pos p \<and> rx_text p ! (rx_pos p - 1) = c) p"

definition compareDecimalStrings :: "string \<Rightarrow> string \<Rightarrow> int" where
  "compareDecimalStrings a0 b0 =
    (let a1 = dropWhile (\<lambda>c. c = CHR ''0'') a0; b1 = dropWhile (\<lambda>c. c = CHR ''0'') b0;
         a = (if a1 = [] then ''0'' else a1); b = (if b1 = [] then ''0'' else b1)
     in if length a \<noteq> length b then (if length a < length b then -1 else 1) else strCompare a b)"

section \<open>Tokens\<close>

definition scanExpectedChar :: "rune \<Rightarrow> regExpParser \<Rightarrow> regExpParser" where
  "scanExpectedChar ch p =
    (if rx_char p = ch then incPos 1 p
     else rx_errorWith X_0_expected (int (rx_pos p)) 0 [EncodeRune ch] p)"

text \<open>The loops of \<open>scanDigits\<close> and \<open>scanWordCharacters\<close>.\<close>

function skip_while :: "(rune \<Rightarrow> bool) \<Rightarrow> regExpParser \<Rightarrow> regExpParser" where
  "skip_while test p =
    (if rx_pos p < rx_end p then (if test (rx_char p) then skip_while test (incPos 1 p) else p) else p)"
  by pat_completeness auto
termination
  by (relation "measure (\<lambda>(_, p). rx_end p - rx_pos p)") (auto simp: incPos_def on_scanner_def rx_pos_def)

declare skip_while.simps [simp del]

definition regExp_scanDigits :: "regExpParser \<Rightarrow> regExpParser" where
  "regExp_scanDigits p0 =
    (let p = skip_while IsDigit p0
     in on_scanner (\<lambda>s. s\<lparr>s_tokenValue := slc (rx_text p) (rx_pos p0) (rx_pos p)\<rparr>) p)"

definition scanWordCharacters :: "regExpParser \<Rightarrow> string \<times> regExpParser" where
  "scanWordCharacters p0 =
    (let p = skip_while isWordCharacter p0 in (slc (rx_text p) (rx_pos p0) (rx_pos p), p))"

definition scanSourceCharacter :: "regExpParser \<Rightarrow> string \<times> regExpParser" where
  "scanSourceCharacter p =
    (let d = DecodeRune (drop (rx_pos p) (rx_text p)); ch = fst d; sz = snd d in
     if rx_end p \<le> rx_pos p then ([], p)
     else if \<not> anyUnicodeMode p then
       if pendingLowSurrogate p \<noteq> 0 then
         (EncodeJSStringRune (pendingLowSurrogate p), (incPos sz p)\<lparr>pendingLowSurrogate := 0\<rparr>)
       else if sz = 0 then ([], p)
       else if ch = RuneError \<and> sz = 1 then (EncodeRune (rune_of (rx_text p ! rx_pos p)), incPos 1 p)
       else if 0x10000 \<le> ch \<and> ch \<le> 0x10FFFF then
         (EncodeJSStringRune (fst (CodePointToSurrogatePair ch)),
          p\<lparr>pendingLowSurrogate := snd (CodePointToSurrogatePair ch)\<rparr>)
       else (EncodeRune ch, incPos sz p)
     else if sz = 0 then ([], p)
     else if ch = RuneError \<and> sz = 1 then ([], incPos 1 p)
     else (EncodeRune ch, incPos sz p))"

section \<open>Groups and modifiers\<close>

definition modifier_flag :: "rune \<Rightarrow> nat \<Rightarrow> regularExpressionFlags \<Rightarrow> regExpParser \<Rightarrow> regularExpressionFlags \<times> regExpParser" where
  "modifier_flag ch sz currFlags p =
    (case charCodeToRegExpFlag ch of
       None \<Rightarrow> (currFlags, rx_error Unknown_regular_expression_flag (int (rx_pos p)) (int sz) p)
     | Some flag \<Rightarrow>
         if currFlags AND flag \<noteq> 0
         then (currFlags, rx_error Duplicate_regular_expression_flag (int (rx_pos p)) (int sz) p)
         else if flag AND regularExpressionFlagsModifiers = 0
         then (currFlags, rx_error This_regular_expression_flag_cannot_be_toggled_within_a_subpattern (int (rx_pos p)) (int sz) p)
         else (currFlags OR flag, p))"

lemma on_scanner_fields [simp]:
  "rx_end (on_scanner f p) = rx_end p" "rx_scanner (on_scanner f p) = f (rx_scanner p)"
  by (simp_all add: on_scanner_def)

lemma rx_error_fields [simp]:
  "rx_pos (rx_errorWith m q l a p) = rx_pos p" "rx_end (rx_errorWith m q l a p) = rx_end p"
  "rx_text (rx_errorWith m q l a p) = rx_text p" "rx_char (rx_errorWith m q l a p) = rx_char p"
  by (simp_all add: rx_errorWith_def rx_pos_def rx_text_def rx_char_def s_char_def)

lemma rx_error_eq [simp]: "rx_error m q l p = rx_errorWith m q l [] p"
  by (simp add: rx_error_def)

lemma modifier_flag_fields [simp]:
  "rx_pos (snd (modifier_flag ch sz fl p)) = rx_pos p" "rx_end (snd (modifier_flag ch sz fl p)) = rx_end p"
  by (simp_all add: modifier_flag_def split: option.split)

lemma incPos_fields [simp]: "rx_pos (incPos n p) = rx_pos p + n" "rx_end (incPos n p) = rx_end p"
  "rx_text (incPos n p) = rx_text p"
  by (simp_all add: incPos_def rx_pos_def rx_text_def)

function scanPatternModifiers :: "regularExpressionFlags \<Rightarrow> regExpParser \<Rightarrow> regularExpressionFlags \<times> regExpParser" where
  "scanPatternModifiers currFlags p =
    (let d = DecodeRune (drop (rx_pos p) (rx_text p)) in
     if rx_pos p < rx_end p then
       if fst d = RuneError \<or> \<not> IsIdentifierPart (fst d) then (currFlags, p)
       else
         let r = modifier_flag (fst d) (snd d) currFlags p
         in scanPatternModifiers (fst r) (incPos (snd d) (snd r))
     else (currFlags, p))"
  by pat_completeness auto
termination
proof (relation "measure (\<lambda>(_, p). rx_end p - rx_pos p)", goal_cases)
  case (2 fl p d r)
  then have "0 < snd d" by (cases "drop (rx_pos p) (rx_text p)") (auto simp: DecodeRune_size_pos)
  with 2 show ?case by simp
qed simp

declare scanPatternModifiers.simps [simp del]

definition namedCapturingGroupsContains :: "string \<Rightarrow> regExpParser \<Rightarrow> bool" where
  "namedCapturingGroupsContains name p \<longleftrightarrow> list_ex (\<lambda>group. name \<in> set group) (namedCapturingGroups p)"

text \<open>A definition of a name: it enters the innermost scope and the set of all names.\<close>

definition define_group :: "string \<Rightarrow> regExpParser \<Rightarrow> regExpParser" where
  "define_group name p =
    (let p = (if name \<in> set (groupSpecifiers p) \<and> ScriptTargetES2018 \<le> languageVersion (rx_scanner p)
                 \<and> languageVersion (rx_scanner p) < ScriptTargetES2025
              then rx_errorWith Duplicate_named_capturing_groups_are_only_available_when_targeting_0_or_later
                (int (s_tokenStart (rx_scanner p))) (int (rx_pos p) - int (s_tokenStart (rx_scanner p))) [''es2025''] p
              else p);
         p = (case namedCapturingGroups p of
                [] \<Rightarrow> p | scope # scopes \<Rightarrow> p\<lparr>namedCapturingGroups := List.insert name scope # scopes\<rparr>)
     in p\<lparr>groupSpecifiers := List.insert name (groupSpecifiers p)\<rparr>)"

definition scanGroupName :: "bool \<Rightarrow> regExpParser \<Rightarrow> regExpParser" where
  "scanGroupName isReference p0 =
    (let p1 = assert_after (CHR ''<'') p0;
         r = scanIdentifier 0 identifierVariantRegExpGroupName ((rx_scanner p1)\<lparr>s_tokenStart := rx_pos p1\<rparr>);
         p = p1\<lparr>rx_scanner := snd r\<rparr>; tokenStart = s_tokenStart (snd r); name = s_tokenValue (snd r)
     in if \<not> fst r then rx_error Expected_a_capturing_group_name (int (rx_pos p)) 0 p
        else if isReference then
          p\<lparr>groupNameReferences := groupNameReferences p
              @ [\<lparr>gr_pos = tokenStart, gr_end = rx_pos p, gr_name = name\<rparr>]\<rparr>
        else if namedCapturingGroupsContains name p then
          rx_error_from Named_capturing_groups_with_the_same_name_must_be_mutually_exclusive_to_each_other tokenStart p
        else define_group name p)"

section \<open>Escapes\<close>

definition maxInt :: int where
  "maxInt = 2 ^ 63 - 1"

text \<open>\<open>strconv.Atoi\<close> fails on the digits only when they are out of range.\<close>

definition scanDecimalEscape :: "regExpParser \<Rightarrow> bool \<times> regExpParser" where
  "scanDecimalEscape p0 =
    (let p1 = assert_after (CHR 0x5C) p0 in
     if 0x31 \<le> rx_char p1 \<and> rx_char p1 \<le> 0x39 then
       (let p = regExp_scanDigits p1;
            v = int (value_in_base 10 (s_tokenValue (rx_scanner p)))
        in (True, p\<lparr>decimalEscapes := decimalEscapes p
              @ [\<lparr>de_pos = rx_pos p1, de_end = rx_pos p, de_value = min v maxInt\<rparr>]\<rparr>))
     else (False, p1))"

definition escape_flags :: "bool \<Rightarrow> regExpParser \<Rightarrow> EscapeSequenceScanningFlags" where
  "escape_flags atomEscape p =
    EscapeFlagsRegularExpression OR (if annexB p then EscapeFlagsAnnexB else 0)
      OR (if anyUnicodeMode p then EscapeFlagsAnyUnicodeMode else 0)
      OR (if atomEscape then EscapeFlagsAtomEscape else 0)"

definition syntax_characters :: "rune list" where
  "syntax_characters =
    [0x5E, 0x24, 0x2F, 0x5C, 0x2E, 0x2A, 0x2B, 0x3F, 0x28, 0x29, 0x5B, 0x5D, 0x7B, 0x7D, 0x7C]"

definition scanCharacterEscape :: "bool \<Rightarrow> regExpParser \<Rightarrow> string \<times> regExpParser" where
  "scanCharacterEscape atomEscape p0 =
    (let p1 = assert_after (CHR 0x5C) p0; ch = rx_char p1 in
     if ch = -1 then ([CHR 0x5C], rx_error Undetermined_character_escape (int (rx_pos p1) - 1) 1 p1)
     else if ch = 0x63 then
       (let p = incPos 1 p1; ch = rx_char p in
        if IsASCIILetter ch then (EncodeRune (ch AND 0x1F), incPos 1 p)
        else if anyUnicodeModeOrNonAnnexB p then
          (EncodeRune ch, rx_error X_c_must_be_followed_by_an_ASCII_letter (int (rx_pos p) - 2) 2 p)
        else if atomEscape then ([CHR 0x5C], decPos p)
        else (EncodeRune ch, p))
     else if ch \<in> set syntax_characters then (EncodeRune ch, incPos 1 p1)
     else
       (let p = decPos p1; r = scanEscapeSequence (escape_flags atomEscape p) (rx_scanner p)
        in (fst r, p\<lparr>rx_scanner := snd r\<rparr>)))"

text \<open>The part of \<open>scanCharacterClassEscape\<close> between the braces of a property expression.\<close>

definition suggestion_error :: "string \<Rightarrow> nat \<Rightarrow> regExpParser \<Rightarrow> regExpParser" where
  "suggestion_error suggestion start p =
    (if suggestion \<noteq> [] then rx_errorWith Did_you_mean_0 (int start) (int (rx_pos p) - int start) [suggestion] p else p)"

definition scan_property_value ::
    "(string \<Rightarrow> string list \<Rightarrow> string) \<Rightarrow> string \<Rightarrow> nat \<Rightarrow> regExpParser \<Rightarrow> regExpParser" where
  "scan_property_value suggest propertyNameOrValue start p0 =
    (let propertyName = (case map_of nonBinaryUnicodeProperties propertyNameOrValue of Some n \<Rightarrow> n | None \<Rightarrow> []);
         p1 = (if rx_pos p0 = start then rx_error Expected_a_Unicode_property_name (int (rx_pos p0)) 0 p0
               else if propertyName = [] then
                 suggestion_error (suggest propertyNameOrValue (map fst nonBinaryUnicodeProperties)) start
                   (rx_error_from Unknown_Unicode_property_name start p0)
               else p0);
         p2 = incPos 1 p1; valueStart = rx_pos p2; r = scanWordCharacters p2; p3 = snd r
     in if rx_pos p3 = valueStart then rx_error Expected_a_Unicode_property_value (int (rx_pos p3)) 0 p3
        else if propertyName \<noteq> [] then
          (case valuesOfNonBinaryUnicodeProperties propertyName of
             None \<Rightarrow> p3
           | Some values \<Rightarrow>
               if fst r \<notin> set values then
                 suggestion_error (suggest (fst r) values) valueStart
                   (rx_error_from Unknown_Unicode_property_value valueStart p3)
               else p3)
        else p3)"

definition scan_lone_property ::
    "(string \<Rightarrow> string list \<Rightarrow> string) \<Rightarrow> bool \<Rightarrow> string \<Rightarrow> nat \<Rightarrow> regExpParser \<Rightarrow> regExpParser" where
  "scan_lone_property suggest isCharacterComplement name start p =
    (if rx_pos p = start then rx_error Expected_a_Unicode_property_name_or_value (int (rx_pos p)) 0 p
     else if name \<in> set binaryUnicodePropertiesOfStrings then
       if \<not> unicodeSetsMode p then
         rx_error_from Any_Unicode_property_that_would_possibly_match_more_than_a_single_character_is_only_available_when_the_Unicode_Sets_v_flag_is_set start p
       else if isCharacterComplement then
         rx_error_from Anything_that_would_possibly_match_more_than_a_single_character_is_invalid_inside_a_negated_character_class start p
       else p\<lparr>mayContainStrings := True\<rparr>
     else if name \<notin> set generalCategoryValues \<and> name \<notin> set binaryUnicodeProperties then
       suggestion_error
         (suggest name (generalCategoryValues @ binaryUnicodeProperties @ binaryUnicodePropertiesOfStrings)) start
         (rx_error_from Unknown_Unicode_property_name_or_value start p)
     else p)"

definition scanCharacterClassEscape :: "(string \<Rightarrow> string list \<Rightarrow> string) \<Rightarrow> regExpParser \<Rightarrow> bool \<times> regExpParser" where
  "scanCharacterClassEscape suggest p0 =
    (let p = assert_after (CHR 0x5C) p0; start = rx_pos p - 1; ch = rx_char p in
     if ch \<in> {0x64, 0x44, 0x73, 0x53, 0x77, 0x57} then (True, incPos 1 p)
     else if ch = 0x50 \<or> ch = 0x70 then
       let p1 = incPos 1 p in
       if rx_char p1 = 0x7B then
         (let p2 = incPos 1 p1; r = scanWordCharacters p2;
              p3 = (if rx_char (snd r) = 0x3D then scan_property_value suggest (fst r) (rx_pos p2) (snd r)
                    else scan_lone_property suggest (ch = 0x50) (fst r) (rx_pos p2) (snd r));
              p4 = scanExpectedChar 0x7D p3
          in (True,
              if \<not> anyUnicodeMode p4 then
                rx_error_from Unicode_property_value_expressions_are_only_available_when_the_Unicode_u_flag_or_the_Unicode_Sets_v_flag_is_set start p4
              else p4))
       else if anyUnicodeModeOrNonAnnexB p1 then
         (True, rx_errorWith X_0_must_be_followed_by_a_Unicode_property_value_expression_enclosed_in_braces
             (int (rx_pos p1) - 2) 2 [EncodeRune ch] p1)
       else (False, decPos p1)
     else (False, p))"

definition scanAtomEscape :: "(string \<Rightarrow> string list \<Rightarrow> string) \<Rightarrow> regExpParser \<Rightarrow> regExpParser" where
  "scanAtomEscape suggest p0 =
    (let p = assert_after (CHR 0x5C) p0 in
     if rx_char p = 0x6B then
       let p1 = incPos 1 p in
       if rx_char p1 = 0x3C then scanExpectedChar 0x3E (scanGroupName True (incPos 1 p1))
       else if anyUnicodeModeOrNonAnnexB p1 \<or> namedCaptureGroups p1 then
         rx_error X_k_must_be_followed_by_a_capturing_group_name_enclosed_in_angle_brackets (int (rx_pos p1) - 2) 2 p1
       else p1
     else if rx_char p = 0x71 \<and> unicodeSetsMode p then
       let p1 = incPos 1 p in rx_error X_q_is_only_available_inside_character_class (int (rx_pos p1) - 2) 2 p1
     else
       let r = scanCharacterClassEscape suggest p in
       if fst r then snd r
       else let d = scanDecimalEscape (snd r) in
       if fst d then snd d
       else let e = scanCharacterEscape True (snd d) in rx_assert (fst e \<noteq> []) (snd e))"

section \<open>Classes without the v flag\<close>

definition isClassContentExit :: "rune \<Rightarrow> regExpParser \<Rightarrow> bool" where
  "isClassContentExit ch p \<longleftrightarrow> ch = 0x5D \<or> rx_end p \<le> rx_pos p"

definition scanClassAtom :: "(string \<Rightarrow> string list \<Rightarrow> string) \<Rightarrow> regExpParser \<Rightarrow> string \<times> regExpParser" where
  "scanClassAtom suggest p0 =
    (if rx_char p0 = 0x5C then
       let p = incPos 1 p0; ch = rx_char p in
       if ch = 0x62 then ([CHR 0x08], incPos 1 p)
       else if ch = 0x2D then (EncodeRune ch, incPos 1 p)
       else let r = scanCharacterClassEscape suggest p in
         if fst r then ([], snd r) else scanCharacterEscape False (snd r)
     else scanSourceCharacter p0)"

text \<open>Both ends of a range are single characters, and the first is the greater one.\<close>

definition out_of_order :: "string \<Rightarrow> string \<Rightarrow> bool" where
  "out_of_order a b \<longleftrightarrow>
    length a = snd (DecodeJSStringRune a) \<and> length b = snd (DecodeJSStringRune b)
    \<and> fst (DecodeJSStringRune b) < fst (DecodeJSStringRune a)"

text \<open>One turn of the loop of \<open>scanClassRanges\<close>: whether it goes on, and the state.\<close>

definition class_range :: "string \<Rightarrow> nat \<Rightarrow> (string \<Rightarrow> string list \<Rightarrow> string) \<Rightarrow> regExpParser \<Rightarrow> regExpParser" where
  "class_range minCharacter minStart suggest p0 =
    (let p = (if minCharacter = [] \<and> anyUnicodeModeOrNonAnnexB p0 then
                rx_error A_character_class_range_must_not_be_bounded_by_another_character_class
                  (int minStart) (int (rx_pos p0) - 1 - int minStart) p0
              else p0);
         maxStart = rx_pos p; r = scanClassAtom suggest p; p = snd r
     in if fst r = [] \<and> anyUnicodeModeOrNonAnnexB p then
          rx_error_from A_character_class_range_must_not_be_bounded_by_another_character_class maxStart p
        else if minCharacter = [] then p
        else if out_of_order minCharacter (fst r)
        then rx_error_from Range_out_of_order_in_character_class minStart p
        else p)"

definition class_step :: "(string \<Rightarrow> string list \<Rightarrow> string) \<Rightarrow> regExpParser \<Rightarrow> bool \<times> regExpParser" where
  "class_step suggest p0 =
    (if isClassContentExit (rx_char p0) p0 then (False, p0)
     else
       let r = scanClassAtom suggest p0; p = snd r in
       if rx_char p = 0x2D then
         let p = incPos 1 p in
         if isClassContentExit (rx_char p) p then (False, p)
         else (True, class_range (fst r) (rx_pos p0) suggest p)
       else (True, p))"

fun classRanges_loop :: "nat \<Rightarrow> (string \<Rightarrow> string list \<Rightarrow> string) \<Rightarrow> regExpParser \<Rightarrow> regExpParser option" where
  "classRanges_loop 0 suggest p = None"
| "classRanges_loop (Suc fuel) suggest p =
    (if rx_pos p < rx_end p then
       let r = class_step suggest p in
       if fst r then classRanges_loop fuel suggest (snd r) else Some (snd r)
     else Some p)"

definition scanClassRanges :: "nat \<Rightarrow> (string \<Rightarrow> string list \<Rightarrow> string) \<Rightarrow> regExpParser \<Rightarrow> regExpParser option" where
  "scanClassRanges fuel suggest p0 =
    (let p = (assert_after (CHR ''['') p0)\<lparr>pendingLowSurrogate := 0\<rparr>
     in classRanges_loop fuel suggest (if rx_char p = 0x5E then incPos 1 p else p))"

section \<open>Classes with the v flag\<close>

definition reserved_punctuators :: "rune list" where
  "reserved_punctuators =
    [0x26, 0x2D, 0x21, 0x23, 0x25, 0x2C, 0x3A, 0x3B, 0x3C, 0x3D, 0x3E, 0x40, 0x60, 0x7E]"

definition double_punctuators :: "rune list" where
  "double_punctuators =
    [0x26, 0x21, 0x23, 0x25, 0x2A, 0x2B, 0x2C, 0x2E, 0x3A, 0x3B, 0x3C, 0x3D, 0x3E, 0x3F, 0x40, 0x60, 0x7E]"

definition class_syntax_characters :: "rune list" where
  "class_syntax_characters = [0x2F, 0x28, 0x29, 0x5B, 0x5D, 0x7B, 0x7D, 0x2D, 0x7C]"

definition scanClassSetCharacter :: "regExpParser \<Rightarrow> string \<times> regExpParser" where
  "scanClassSetCharacter p0 =
    (let ch = rx_char p0 in
     if ch = 0x5C then
       let p = incPos 1 p0; innerCh = rx_char p in
       if innerCh = 0x62 then ([CHR 0x08], incPos 1 p)
       else if innerCh \<in> set reserved_punctuators then (EncodeRune innerCh, incPos 1 p)
       else scanCharacterEscape False p
     else if rx_pos p0 + 1 < rx_end p0 \<and> ch = rx_charAt 1 p0 \<and> ch \<in> set double_punctuators then
       (let p = incPos 2 (rx_error A_character_class_must_not_contain_a_reserved_double_punctuator_Did_you_mean_to_escape_it_with_backslash
                  (int (rx_pos p0)) 2 p0)
        in (slc (rx_text p) (rx_pos p - 2) (rx_pos p), p))
     else if ch \<in> set class_syntax_characters then
       (EncodeRune ch,
        incPos 1 (rx_errorWith Unexpected_0_Did_you_mean_to_escape_it_with_backslash (int (rx_pos p0)) 1 [EncodeRune ch] p0))
     else scanSourceCharacter p0)"

definition may_be_string :: "nat \<Rightarrow> regExpParser \<Rightarrow> regExpParser" where
  "may_be_string characterCount p = (if characterCount \<noteq> 1 then p\<lparr>mayContainStrings := True\<rparr> else p)"

fun classStrings_loop :: "nat \<Rightarrow> nat \<Rightarrow> regExpParser \<Rightarrow> regExpParser option" where
  "classStrings_loop 0 characterCount p = None"
| "classStrings_loop (Suc fuel) characterCount p =
    (if rx_pos p < rx_end p then
       if rx_char p = 0x7D then Some (may_be_string characterCount p)
       else if rx_char p = 0x7C then classStrings_loop fuel 0 (incPos 1 (may_be_string characterCount p))
       else classStrings_loop fuel (characterCount + 1) (snd (scanClassSetCharacter p))
     else Some p)"

definition scanClassStringDisjunctionContents :: "nat \<Rightarrow> regExpParser \<Rightarrow> regExpParser option" where
  "scanClassStringDisjunctionContents fuel p = classStrings_loop fuel 0 (assert_after (CHR ''{'') p)"

text \<open>The text of the next two characters, empty when fewer are left.\<close>

definition two_chars :: "regExpParser \<Rightarrow> string" where
  "two_chars p = (if rx_pos p + 1 < rx_end p then slc (rx_text p) (rx_pos p) (rx_pos p + 2) else [])"

text \<open>The error about strings in a negated class, where it applies.\<close>

definition complement_error :: "bool \<Rightarrow> nat \<Rightarrow> regExpParser \<Rightarrow> regExpParser" where
  "complement_error isCharacterComplement start p =
    (if isCharacterComplement \<and> mayContainStrings p then
       rx_error_from Anything_that_would_possibly_match_more_than_a_single_character_is_invalid_inside_a_negated_character_class start p
     else p)"

definition finish_class :: "bool \<Rightarrow> bool \<Rightarrow> regExpParser \<Rightarrow> regExpParser" where
  "finish_class isCharacterComplement expressionMayContainStrings p =
    p\<lparr>mayContainStrings := \<not> isCharacterComplement \<and> expressionMayContainStrings\<rparr>"

abbreviation (input) mixed_operators :: DiagnosticMessage where
  "mixed_operators \<equiv> Operators_must_not_be_mixed_within_a_character_class_Wrap_it_in_a_nested_class_instead"

text \<open>The operator before an operand of an intersection or a subtraction.\<close>

definition sub_operator :: "classSetExpressionType \<Rightarrow> regExpParser \<Rightarrow> regExpParser" where
  "sub_operator expressionType p0 =
    (let ch = rx_char p0 in
     if ch = 0x2D then
       let p = incPos 1 p0 in
       if rx_char p = 0x2D then
         let p = incPos 1 p in
         if expressionType \<noteq> classSetExpressionTypeClassSubtraction
         then rx_error mixed_operators (int (rx_pos p) - 2) 2 p else p
       else rx_error mixed_operators (int (rx_pos p) - 1) 1 p
     else if ch = 0x26 then
       let p = incPos 1 p0 in
       if rx_char p = 0x26 then
         let p = incPos 1 p;
             p = (if expressionType \<noteq> classSetExpressionTypeClassIntersection
                  then rx_error mixed_operators (int (rx_pos p) - 2) 2 p else p)
         in if rx_char p = 0x26 then
              incPos 1 (rx_errorWith Unexpected_0_Did_you_mean_to_escape_it_with_backslash (int (rx_pos p)) 1 [EncodeRune ch] p)
            else p
       else rx_errorWith Unexpected_0_Did_you_mean_to_escape_it_with_backslash (int (rx_pos p) - 1) 1 [EncodeRune ch] p
     else if expressionType = classSetExpressionTypeClassSubtraction then rx_errorWith X_0_expected (int (rx_pos p0)) 0 [''--''] p0
     else if expressionType = classSetExpressionTypeClassIntersection then rx_errorWith X_0_expected (int (rx_pos p0)) 0 [''&&''] p0
     else p0)"

text \<open>
  The start of a turn of the main loop of \<open>scanClassSetExpression\<close>, up to the second operand of a
  range: the loop returns, goes on with another operand, or has a range to finish.
\<close>

datatype set_start =
    SetReturn regExpParser
  | SetContinue nat string regExpParser
  | SetRange regExpParser
  | SetOperand regExpParser

definition set_start_step :: "bool \<Rightarrow> bool \<Rightarrow> nat \<Rightarrow> string \<Rightarrow> regExpParser \<Rightarrow> set_start" where
  "set_start_step isCharacterComplement expressionMayContainStrings start operand p0 =
    (if rx_char p0 = 0x2D then
       let p = incPos 1 p0 in
       if isClassContentExit (rx_char p) p then SetReturn (finish_class isCharacterComplement expressionMayContainStrings p)
       else if rx_char p = 0x2D then
         (let p = incPos 1 p; start = rx_pos p - 2
          in SetContinue start (slc (rx_text p) start (rx_pos p)) (rx_error mixed_operators (int (rx_pos p) - 2) 2 p))
       else SetRange (if operand = [] then
           rx_error A_character_class_range_must_not_be_bounded_by_another_character_class (int start)
             (int (rx_pos p) - 1 - int start) p
         else p)
     else if rx_char p0 = 0x26 \<and> rx_pos p0 + 1 < rx_end p0 \<and> rx_charAt 1 p0 = 0x26 then
       (let start = rx_pos p0; p = incPos 2 p0; p = rx_error mixed_operators (int (rx_pos p) - 2) 2 p;
            p = (if rx_char p = 0x26
                 then incPos 1 (rx_errorWith Unexpected_0_Did_you_mean_to_escape_it_with_backslash (int (rx_pos p)) 1 [''&''] p)
                 else p)
        in SetContinue start (slc (rx_text p) start (rx_pos p)) p)
     else SetOperand p0)"

text \<open>The checks after the second operand of a range.\<close>

definition set_range :: "string \<Rightarrow> nat \<Rightarrow> string \<Rightarrow> nat \<Rightarrow> regExpParser \<Rightarrow> regExpParser" where
  "set_range operand start secondOperand secondStart p =
    (if secondOperand = [] then
       rx_error_from A_character_class_range_must_not_be_bounded_by_another_character_class secondStart p
     else if operand \<noteq> [] \<and> out_of_order operand secondOperand
     then rx_error_from Range_out_of_order_in_character_class start p
     else p)"

text \<open>
  The mutually recursive methods. Each is a definition over \<open>scan\<close>, the methods with less fuel, and
  \<open>class_scan\<close> ties the knot. \<open>ClassLoop\<close> is the main loop of \<open>scanClassSetExpression\<close>, with its
  variables, and \<open>ClassTail\<close> the end of a turn of it.
\<close>

datatype class_call =
    ClassExpression
  | ClassSub classSetExpressionType bool
  | ClassOperand
  | ClassLoop bool bool nat string
  | ClassTail bool bool

type_synonym class_scanner = "class_call \<Rightarrow> regExpParser \<Rightarrow> (string \<times> regExpParser) option"

definition scanClassSetExpression :: "class_scanner \<Rightarrow> regExpParser \<Rightarrow> (string \<times> regExpParser) option" where
  "scanClassSetExpression scan p0 =
    (let p1 = assert_after (CHR ''['') p0; isCharacterComplement = (rx_char p1 = 0x5E);
         p = (if isCharacterComplement then incPos 1 p1 else p1); start = rx_pos p
     in if isClassContentExit (rx_char p) p then Some ([], p)
        else
          (case (if two_chars p = ''--'' \<or> two_chars p = ''&&''
                 then Some ([], (rx_error Expected_a_class_set_operand (int (rx_pos p)) 0 p)\<lparr>mayContainStrings := False\<rparr>)
                 else scan ClassOperand p) of
             None \<Rightarrow> None
           | Some (operand, p) \<Rightarrow>
               if rx_char p = 0x2D then
                 (if rx_pos p + 1 < rx_end p \<and> rx_charAt 1 p = 0x2D then
                    let p = complement_error isCharacterComplement start p; strings = mayContainStrings p
                    in map_option (\<lambda>(_, p). ([], finish_class isCharacterComplement strings p))
                      (scan (ClassSub classSetExpressionTypeClassSubtraction (mayContainStrings p)) p)
                  else scan (ClassLoop isCharacterComplement False start operand) p)
               else if rx_char p = 0x26 then
                 (if rx_pos p + 1 < rx_end p \<and> rx_charAt 1 p = 0x26 then
                    map_option (\<lambda>(_, p).
                        let p = complement_error isCharacterComplement start p
                        in ([], finish_class isCharacterComplement (mayContainStrings p) p))
                      (scan (ClassSub classSetExpressionTypeClassIntersection (mayContainStrings p)) p)
                  else scan (ClassLoop isCharacterComplement False start operand) p)
               else
                 let p = complement_error isCharacterComplement start p
                 in scan (ClassLoop isCharacterComplement (mayContainStrings p) start operand) p))"

definition scanClassSetSubExpression ::
    "class_scanner \<Rightarrow> classSetExpressionType \<Rightarrow> bool \<Rightarrow> regExpParser \<Rightarrow> (string \<times> regExpParser) option" where
  "scanClassSetSubExpression scan expressionType strings p0 =
    (if \<not> rx_pos p0 < rx_end p0 \<or> isClassContentExit (rx_char p0) p0 then Some ([], p0\<lparr>mayContainStrings := strings\<rparr>)
     else
       let p = sub_operator expressionType p0 in
       if isClassContentExit (rx_char p) p
       then Some ([], (rx_error Expected_a_class_set_operand (int (rx_pos p)) 0 p)\<lparr>mayContainStrings := strings\<rparr>)
       else
         (case scan ClassOperand p of
            None \<Rightarrow> None
          | Some (_, p) \<Rightarrow>
              scan (ClassSub expressionType
                (if expressionType = classSetExpressionTypeClassIntersection then strings \<and> mayContainStrings p else strings)) p))"

definition scanClassSetOperand ::
    "nat \<Rightarrow> (string \<Rightarrow> string list \<Rightarrow> string) \<Rightarrow> class_scanner \<Rightarrow> regExpParser \<Rightarrow> (string \<times> regExpParser) option" where
  "scanClassSetOperand fuel suggest scan p0 =
    (let p = p0\<lparr>mayContainStrings := False\<rparr> in
     if rx_char p = 0x5B then
       map_option (\<lambda>(_, p). ([], scanExpectedChar 0x5D p)) (scan ClassExpression (incPos 1 p))
     else if rx_char p = 0x5C then
       let r = scanCharacterClassEscape suggest (incPos 1 p); p1 = snd r in
       if fst r then Some ([], p1)
       else if rx_char p1 = 0x71 then
         let p2 = incPos 1 p1 in
         if rx_char p2 = 0x7B then
           map_option (\<lambda>p. ([], scanExpectedChar 0x7D p)) (scanClassStringDisjunctionContents fuel (incPos 1 p2))
         else Some (''q'', rx_error X_q_must_be_followed_by_string_alternatives_enclosed_in_braces (int (rx_pos p2) - 2) 2 p2)
       else Some (scanClassSetCharacter (decPos p1))
     else Some (scanClassSetCharacter p))"

definition classSet_loop ::
    "class_scanner \<Rightarrow> bool \<Rightarrow> bool \<Rightarrow> nat \<Rightarrow> string \<Rightarrow> regExpParser \<Rightarrow> (string \<times> regExpParser) option" where
  "classSet_loop scan isCharacterComplement strings start operand p0 =
    (if rx_pos p0 < rx_end p0 then
       (case set_start_step isCharacterComplement strings start operand p0 of
          SetReturn p \<Rightarrow> Some ([], p)
        | SetContinue start operand p \<Rightarrow> scan (ClassLoop isCharacterComplement strings start operand) p
        | SetRange p \<Rightarrow>
            (case scan ClassOperand p of
               None \<Rightarrow> None
             | Some (secondOperand, q) \<Rightarrow>
                 let q = complement_error isCharacterComplement (rx_pos p) q
                 in scan (ClassTail isCharacterComplement (strings \<or> mayContainStrings q))
                   (set_range operand start secondOperand (rx_pos p) q))
        | SetOperand p \<Rightarrow> scan (ClassTail isCharacterComplement strings) p)
     else Some ([], finish_class isCharacterComplement strings p0))"

definition classSet_tail ::
    "class_scanner \<Rightarrow> bool \<Rightarrow> bool \<Rightarrow> regExpParser \<Rightarrow> (string \<times> regExpParser) option" where
  "classSet_tail scan isCharacterComplement strings p =
    (if isClassContentExit (rx_char p) p then Some ([], finish_class isCharacterComplement strings p)
     else
       let start = rx_pos p in
       if two_chars p = ''--'' \<or> two_chars p = ''&&'' then
         (let p = incPos 2 (rx_error mixed_operators (int (rx_pos p)) 2 p)
          in scan (ClassLoop isCharacterComplement strings start (slc (rx_text p) start (rx_pos p))) p)
       else
         (case scan ClassOperand p of
            None \<Rightarrow> None
          | Some (operand, p) \<Rightarrow>
              let p = complement_error isCharacterComplement start p
              in scan (ClassLoop isCharacterComplement (strings \<or> mayContainStrings p) start operand) p))"

primrec class_scan :: "(string \<Rightarrow> string list \<Rightarrow> string) \<Rightarrow> nat \<Rightarrow> class_scanner" where
  "class_scan suggest 0 = (\<lambda>call p. None)"
| "class_scan suggest (Suc fuel) =
    (\<lambda>call p. case call of
       ClassExpression \<Rightarrow> scanClassSetExpression (class_scan suggest fuel) p
     | ClassSub expressionType strings \<Rightarrow> scanClassSetSubExpression (class_scan suggest fuel) expressionType strings p
     | ClassOperand \<Rightarrow> scanClassSetOperand fuel suggest (class_scan suggest fuel) p
     | ClassLoop isCharacterComplement strings start operand \<Rightarrow>
         classSet_loop (class_scan suggest fuel) isCharacterComplement strings start operand p
     | ClassTail isCharacterComplement strings \<Rightarrow>
         classSet_tail (class_scan suggest fuel) isCharacterComplement strings p)"

section \<open>Alternatives\<close>

text \<open>What one turn of the loop of \<open>scanAlternative\<close> asks for next, with \<open>isPreviousTermQuantifiable\<close>.\<close>

datatype term_step =
    TermReturn regExpParser
  | TermNext bool regExpParser
  | TermGroup bool regExpParser
  | TermClass regExpParser

definition scan_quantifier :: "nat \<Rightarrow> bool \<Rightarrow> regExpParser \<Rightarrow> term_step" where
  "scan_quantifier start quantifiable p0 =
    (let p1 = incPos 1 p0; p = (if rx_char p1 = 0x3F then incPos 1 p1 else p1)
     in TermNext False (if \<not> quantifiable then rx_error_from There_is_nothing_available_for_repetition start p else p))"

definition unexpected_brace :: "nat \<Rightarrow> regExpParser \<Rightarrow> regExpParser" where
  "unexpected_brace start p =
    rx_errorWith Unexpected_0_Did_you_mean_to_escape_it_with_backslash (int start) 1 [''{''] p"

text \<open>The case of an opening brace after the bounds are read; the brace that closes it.\<close>

definition scan_brace_end :: "nat \<Rightarrow> bool \<Rightarrow> regExpParser \<Rightarrow> term_step" where
  "scan_brace_end start quantifiable p =
    (if rx_char p \<noteq> 0x7D then
       if anyUnicodeModeOrNonAnnexB p
       then scan_quantifier start quantifiable (decPos (rx_errorWith X_0_expected (int (rx_pos p)) 0 [''}''] p))
       else TermNext True p
     else scan_quantifier start quantifiable p)"

definition scan_brace :: "nat \<Rightarrow> bool \<Rightarrow> regExpParser \<Rightarrow> term_step" where
  "scan_brace start quantifiable p0 =
    (let p1 = incPos 1 p0; digitsStart = rx_pos p1; p = regExp_scanDigits p1; minStr = s_tokenValue (rx_scanner p) in
     if \<not> anyUnicodeModeOrNonAnnexB p \<and> minStr = [] then TermNext True p
     else if rx_char p = 0x2C then
       let p = regExp_scanDigits (incPos 1 p); maxStr = s_tokenValue (rx_scanner p) in
       if minStr = [] then
         (if maxStr \<noteq> [] \<or> rx_char p = 0x7D
          then scan_brace_end start quantifiable (rx_error Incomplete_quantifier_Digit_expected (int digitsStart) 0 p)
          else TermNext True (unexpected_brace start p))
       else if maxStr \<noteq> [] \<and> 0 < compareDecimalStrings minStr maxStr
           \<and> (anyUnicodeModeOrNonAnnexB p \<or> rx_char p = 0x7D)
       then scan_brace_end start quantifiable (rx_error_from Numbers_out_of_order_in_quantifier digitsStart p)
       else scan_brace_end start quantifiable p
     else if minStr = [] then
       TermNext True (if anyUnicodeModeOrNonAnnexB p then unexpected_brace start p else p)
     else scan_brace_end start quantifiable p)"

definition scan_named_group :: "nat \<Rightarrow> regExpParser \<Rightarrow> regExpParser" where
  "scan_named_group groupNameStart p0 =
    (let p1 = scanExpectedChar 0x3E (scanGroupName False p0);
         p = (if languageVersion (rx_scanner p1) < ScriptTargetES2018
              then rx_error_from Named_capturing_groups_are_only_available_when_targeting_ES2018_or_later groupNameStart p1
              else p1)
     in p\<lparr>numberOfCapturingGroups := numberOfCapturingGroups p + 1\<rparr>)"

definition scan_modifiers :: "regExpParser \<Rightarrow> regExpParser" where
  "scan_modifiers p0 =
    (let flagsStart = rx_pos p0; r = scanPatternModifiers regularExpressionFlagsNone p0;
         p1 = (if rx_char (snd r) = 0x2D then
                 let p = snd (scanPatternModifiers (fst r) (incPos 1 (snd r)))
                 in if rx_pos p = flagsStart + 1
                    then rx_error_from Subpattern_flags_must_be_present_when_there_is_a_minus_sign flagsStart p else p
               else snd r);
         p = (if rx_pos p1 \<noteq> flagsStart \<and> languageVersion (rx_scanner p1) < ScriptTargetES2025
              then rx_errorWith Regular_expression_pattern_modifiers_are_only_available_when_targeting_0_or_later
                (int flagsStart) (int (rx_pos p1) - int flagsStart) [''es2025''] p1
              else p1)
     in scanExpectedChar 0x3A p)"

definition scan_group :: "regExpParser \<Rightarrow> term_step" where
  "scan_group p0 =
    (let p = incPos 1 p0 in
     if rx_char p = 0x3F then
       let p = incPos 1 p in
       if rx_char p = 0x3D \<or> rx_char p = 0x21 then TermGroup (\<not> anyUnicodeModeOrNonAnnexB p) (incPos 1 p)
       else if rx_char p = 0x3C then
         let groupNameStart = rx_pos p; p = incPos 1 p in
         if rx_char p = 0x3D \<or> rx_char p = 0x21 then TermGroup False (incPos 1 p)
         else TermGroup True (scan_named_group groupNameStart p)
       else TermGroup True (scan_modifiers p)
     else TermGroup True (p\<lparr>numberOfCapturingGroups := numberOfCapturingGroups p + 1\<rparr>))"

definition term_step :: "(string \<Rightarrow> string list \<Rightarrow> string) \<Rightarrow> bool \<Rightarrow> bool \<Rightarrow> regExpParser \<Rightarrow> term_step" where
  "term_step suggest isInGroup quantifiable p =
    (let start = rx_pos p; ch = rx_char p in
     if ch = 0x5E \<or> ch = 0x24 then TermNext False (incPos 1 p)
     else if ch = 0x5C then
       (let p = incPos 1 p in
        if rx_char p = 0x62 \<or> rx_char p = 0x42 then TermNext False (incPos 1 p)
        else TermNext True (scanAtomEscape suggest p))
     else if ch = 0x28 then scan_group p
     else if ch = 0x7B then scan_brace start quantifiable p
     else if ch = 0x2A \<or> ch = 0x2B \<or> ch = 0x3F then scan_quantifier start quantifiable p
     else if ch = 0x2E then TermNext True (incPos 1 p)
     else if ch = 0x5B then TermClass (incPos 1 p)
     else if ch = 0x29 \<and> isInGroup then TermReturn p
     else if ch = 0x29 \<or> ch = 0x5D \<or> ch = 0x7D then
       TermNext True (incPos 1
         (if anyUnicodeModeOrNonAnnexB p \<or> ch = 0x29
          then rx_errorWith Unexpected_0_Did_you_mean_to_escape_it_with_backslash (int (rx_pos p)) 1 [EncodeRune ch] p
          else p))
     else if ch = 0x2F \<or> ch = 0x7C then TermReturn p
     else TermNext True (snd (scanSourceCharacter p)))"

definition scan_class :: "nat \<Rightarrow> (string \<Rightarrow> string list \<Rightarrow> string) \<Rightarrow> regExpParser \<Rightarrow> regExpParser option" where
  "scan_class fuel suggest p =
    map_option (scanExpectedChar 0x5D)
      (if unicodeSetsMode p then map_option snd (class_scan suggest fuel ClassExpression p)
       else map_option (\<lambda>p. p\<lparr>pendingLowSurrogate := 0\<rparr>) (scanClassRanges fuel suggest p))"

text \<open>
  \<open>Alternative\<close> is the loop of \<open>scanAlternative\<close>, \<open>Disjunction\<close> that of \<open>scanDisjunction\<close> with the names
  that its alternatives define.
\<close>

datatype pattern_call = Disjunction bool "string list" | Alternative bool bool

type_synonym pattern_scanner = "pattern_call \<Rightarrow> regExpParser \<Rightarrow> regExpParser option"

definition scanDisjunction :: "pattern_scanner \<Rightarrow> bool \<Rightarrow> string list \<Rightarrow> regExpParser \<Rightarrow> regExpParser option" where
  "scanDisjunction scan isInGroup disjunctionNames p0 =
    (case scan (Alternative isInGroup False) (p0\<lparr>namedCapturingGroups := [] # namedCapturingGroups p0\<rparr>) of
       None \<Rightarrow> None
     | Some p1 \<Rightarrow>
         let names = fold List.insert (hd (namedCapturingGroups p1)) disjunctionNames;
             p = p1\<lparr>namedCapturingGroups := tl (namedCapturingGroups p1)\<rparr>
         in if rx_char p = 0x7C then scan (Disjunction isInGroup names) (incPos 1 p)
            else Some
              (case namedCapturingGroups p of
                 scope # scopes \<Rightarrow>
                   if isInGroup then p\<lparr>namedCapturingGroups := fold List.insert names scope # scopes\<rparr> else p
               | [] \<Rightarrow> p))"

definition scanAlternative ::
    "nat \<Rightarrow> (string \<Rightarrow> string list \<Rightarrow> string) \<Rightarrow> pattern_scanner \<Rightarrow> bool \<Rightarrow> bool \<Rightarrow> regExpParser \<Rightarrow> regExpParser option" where
  "scanAlternative fuel suggest scan isInGroup quantifiable p =
    (if rx_pos p < rx_end p then
       (case term_step suggest isInGroup quantifiable p of
          TermReturn p \<Rightarrow> Some p
        | TermNext quantifiable p \<Rightarrow> scan (Alternative isInGroup quantifiable) p
        | TermGroup quantifiable p \<Rightarrow>
            (case scan (Disjunction True []) p of
               None \<Rightarrow> None | Some p \<Rightarrow> scan (Alternative isInGroup quantifiable) (scanExpectedChar 0x29 p))
        | TermClass p \<Rightarrow>
            (case scan_class fuel suggest p of
               None \<Rightarrow> None | Some p \<Rightarrow> scan (Alternative isInGroup True) p))
     else Some p)"

primrec pattern_scan :: "(string \<Rightarrow> string list \<Rightarrow> string) \<Rightarrow> nat \<Rightarrow> pattern_scanner" where
  "pattern_scan suggest 0 = (\<lambda>call p. None)"
| "pattern_scan suggest (Suc fuel) =
    (\<lambda>call p. case call of
       Disjunction isInGroup names \<Rightarrow> scanDisjunction (pattern_scan suggest fuel) isInGroup names p
     | Alternative isInGroup quantifiable \<Rightarrow>
         scanAlternative fuel suggest (pattern_scan suggest fuel) isInGroup quantifiable p)"

section \<open>The whole literal\<close>

definition check_reference :: "(string \<Rightarrow> string list \<Rightarrow> string) \<Rightarrow> groupNameReference \<Rightarrow> regExpParser \<Rightarrow> regExpParser" where
  "check_reference suggest reference p =
    (if gr_name reference \<notin> set (groupSpecifiers p) then
       let pos = int (gr_pos reference); len = int (gr_end reference) - int (gr_pos reference);
           p = rx_errorWith There_is_no_capturing_group_named_0_in_this_regular_expression pos len [gr_name reference] p;
           suggestion = suggest (gr_name reference) (groupSpecifiers p)
       in if groupSpecifiers p \<noteq> [] \<and> suggestion \<noteq> [] then rx_errorWith Did_you_mean_0 pos len [suggestion] p else p
     else p)"

definition check_decimal :: "decimalEscapeValue \<Rightarrow> regExpParser \<Rightarrow> regExpParser" where
  "check_decimal escape p =
    (let pos = int (de_pos escape); len = int (de_end escape) - int (de_pos escape) in
     if int (numberOfCapturingGroups p) < de_value escape then
       if 0 < numberOfCapturingGroups p then
         rx_errorWith This_backreference_refers_to_a_group_that_does_not_exist_There_are_only_0_capturing_groups_in_this_regular_expression
           pos len [format_nat 10 (numberOfCapturingGroups p)] p
       else
         rx_error This_backreference_refers_to_a_group_that_does_not_exist_There_are_no_capturing_groups_in_this_regular_expression
           pos len p
     else p)"

definition run :: "nat \<Rightarrow> (string \<Rightarrow> string list \<Rightarrow> string) \<Rightarrow> regExpParser \<Rightarrow> regExpParser option" where
  "run fuel suggest p0 =
    map_option
      (\<lambda>p. let p = fold (check_reference suggest) (groupNameReferences p) p
           in fold check_decimal (decimalEscapes p) p)
      (pattern_scan suggest fuel (Disjunction False [])
        (p0\<lparr>anyUnicodeModeOrNonAnnexB := anyUnicodeMode p0 \<or> \<not> annexB p0\<rparr>))"

end
