(* ===== verification/RegExpToken.thy ===== *)
theory RegExpToken
  imports RegExpScan ScannerTrivia
begin

text \<open>
  \<open>ReScanSlashToken\<close> of \<^verbatim>\<open>scanner/scanner.go\<close>: the end of a regular expression literal, its flags, and
  the check of its body when errors are to be reported. \<open>fuel\<close> is that of the checker.
\<close>

section \<open>The end of the literal\<close>

text \<open>Whether a named group begins at \<open>p\<close>; \<open>e\<close> is the end of the text.\<close>

definition named_group_at :: "string \<Rightarrow> nat \<Rightarrow> nat \<Rightarrow> bool" where
  "named_group_at t e p \<longleftrightarrow>
    p + 1 < e \<and> t ! (p + 1) = CHR ''?'' \<and> p + 2 < e \<and> t ! (p + 2) = CHR ''<''
    \<and> (e \<le> p + 3 \<or> t ! (p + 3) \<noteq> CHR ''='' \<and> t ! (p + 3) \<noteq> CHR ''!'')"

text \<open>The position, whether the literal is unterminated, and \<open>namedCaptureGroups\<close>.\<close>

function body_end :: "string \<Rightarrow> nat \<Rightarrow> nat \<Rightarrow> bool \<Rightarrow> bool \<Rightarrow> bool \<Rightarrow> nat \<times> bool \<times> bool" where
  "body_end t e p inEscape namedGroups inCharacterClass =
    (if e \<le> p then (p, True, namedGroups)
     else
       let c = t ! p in
       if IsLineBreak (rune_of c) then (p, True, namedGroups)
       else if inEscape then body_end t e (p + 1) False namedGroups inCharacterClass
       else if c = CHR ''/'' \<and> \<not> inCharacterClass then (p, False, namedGroups)
       else if c = CHR ''['' then body_end t e (p + 1) inEscape namedGroups True
       else if c = CHR 0x5C then body_end t e (p + 1) True namedGroups inCharacterClass
       else if c = CHR '']'' then body_end t e (p + 1) inEscape namedGroups False
       else body_end t e (p + 1) inEscape
         (namedGroups \<or> \<not> inCharacterClass \<and> c = CHR ''('' \<and> named_group_at t e p) inCharacterClass)"
  by pat_completeness auto
termination
  by (relation "measure (\<lambda>(t, e, p, _). e - p)") auto

declare body_end.simps [simp del]

text \<open>The recovery of an unterminated literal: the nearest unbalanced bracket before \<open>e\<close>.\<close>

function unbalanced :: "string \<Rightarrow> nat \<Rightarrow> nat \<Rightarrow> bool \<Rightarrow> nat \<Rightarrow> bool \<Rightarrow> nat \<Rightarrow> nat" where
  "unbalanced t e p inEscape classDepth inQuantifier groupDepth =
    (if e \<le> p then p
     else
       let c = t ! p in
       if inEscape then unbalanced t e (p + 1) False classDepth inQuantifier groupDepth
       else if c = CHR 0x5C then unbalanced t e (p + 1) True classDepth inQuantifier groupDepth
       else if c = CHR ''['' then unbalanced t e (p + 1) False (classDepth + 1) inQuantifier groupDepth
       else if c = CHR '']'' \<and> classDepth \<noteq> 0
       then unbalanced t e (p + 1) False (classDepth - 1) inQuantifier groupDepth
       else if classDepth \<noteq> 0 then unbalanced t e (p + 1) False classDepth inQuantifier groupDepth
       else if c = CHR ''{'' then unbalanced t e (p + 1) False classDepth True groupDepth
       else if c = CHR ''}'' \<and> inQuantifier then unbalanced t e (p + 1) False classDepth False groupDepth
       else if inQuantifier then unbalanced t e (p + 1) False classDepth inQuantifier groupDepth
       else if c = CHR ''('' then unbalanced t e (p + 1) False classDepth inQuantifier (groupDepth + 1)
       else if c = CHR '')'' \<and> groupDepth \<noteq> 0
       then unbalanced t e (p + 1) False classDepth inQuantifier (groupDepth - 1)
       else if c = CHR '')'' \<or> c = CHR '']'' \<or> c = CHR ''}'' then p
       else unbalanced t e (p + 1) False classDepth inQuantifier groupDepth)"
  by pat_completeness auto
termination
  by (relation "measure (\<lambda>(t, e, p, _). e - p)") auto

declare unbalanced.simps [simp del]

text \<open>White space and semicolons at the end are left out.\<close>

function trim_end :: "string \<Rightarrow> nat \<Rightarrow> nat \<Rightarrow> nat" where
  "trim_end t start p =
    (let d = DecodeLastRune (take p t) in
     if start < p \<and> (IsWhiteSpaceLike (fst d) \<or> fst d = 0x3B) \<and> 0 < snd d
     then trim_end t start (p - snd d) else p)"
  by pat_completeness auto
termination
  by (relation "measure (\<lambda>(t, start, p). p)") auto

declare trim_end.simps [simp del]

definition unterminated :: "nat \<Rightarrow> nat \<Rightarrow> Scanner \<Rightarrow> nat \<times> Scanner" where
  "unterminated startOfRegExpBody endOfRegExpBody s =
    (let p = trim_end (s_text s) startOfRegExpBody
           (unbalanced (s_text s) endOfRegExpBody startOfRegExpBody False 0 False 0)
     in (p, errorAt Unterminated_regular_expression_literal (int (s_tokenStart s)) (int p - int (s_tokenStart s)) s))"

section \<open>The flags\<close>

definition literal_flag ::
    "rune \<Rightarrow> nat \<Rightarrow> nat \<Rightarrow> regularExpressionFlags \<Rightarrow> Scanner \<Rightarrow> regularExpressionFlags \<times> Scanner" where
  "literal_flag ch p sz regExpFlags s =
    (case charCodeToRegExpFlag ch of
       None \<Rightarrow> (regExpFlags, errorAt Unknown_regular_expression_flag (int p) (int sz) s)
     | Some flag \<Rightarrow>
         if regExpFlags AND flag \<noteq> 0
         then (regExpFlags, errorAt Duplicate_regular_expression_flag (int p) (int sz) s)
         else if (regExpFlags OR flag) AND regularExpressionFlagsAnyUnicodeMode = regularExpressionFlagsAnyUnicodeMode
         then (regExpFlags,
           errorAt The_Unicode_u_flag_and_the_Unicode_Sets_v_flag_cannot_be_set_simultaneously (int p) (int sz) s)
         else (regExpFlags OR flag, checkRegularExpressionFlagAvailability flag p sz s))"

lemma literal_flag_fields [simp]:
  "s_end (snd (literal_flag ch p sz fl s)) = s_end s" "s_text (snd (literal_flag ch p sz fl s)) = s_text s"
  by (auto simp: literal_flag_def checkRegularExpressionFlagAvailability_def split: option.splits)

function literal_flags ::
    "bool \<Rightarrow> nat \<Rightarrow> regularExpressionFlags \<Rightarrow> Scanner \<Rightarrow> nat \<times> regularExpressionFlags \<times> Scanner" where
  "literal_flags report p regExpFlags s =
    (let d = DecodeRune (drop p (s_text s)) in
     if p < s_end s then
       if fst d = RuneError \<or> \<not> IsIdentifierPart (fst d) then (p, regExpFlags, s)
       else
         let r = (if report then literal_flag (fst d) p (snd d) regExpFlags s else (regExpFlags, s))
         in literal_flags report (p + snd d) (fst r) (snd r)
     else (p, regExpFlags, s))"
  by pat_completeness auto
termination
proof (relation "measure (\<lambda>(_, p, _, s). s_end s - p)", goal_cases)
  case (2 report p fl s d r)
  then have "0 < snd d" by (cases "drop p (s_text s)") (auto simp: DecodeRune_size_pos)
  moreover have "s_end (snd r) = s_end s" using 2(4) by simp
  moreover have "p < s_end s" using 2 by simp
  ultimately show ?case by (cases r) auto
qed simp

declare literal_flags.simps [simp del]

section \<open>The literal\<close>

definition new_parser :: "Scanner \<Rightarrow> nat \<Rightarrow> regularExpressionFlags \<Rightarrow> bool \<Rightarrow> regExpParser" where
  "new_parser s e flags namedGroups =
    \<lparr>rx_scanner = s, rx_end = e, rx_regExpFlags = flags,
     anyUnicodeMode = (flags AND regularExpressionFlagsAnyUnicodeMode \<noteq> 0),
     unicodeSetsMode = (flags AND regularExpressionFlagsUnicodeSets \<noteq> 0),
     annexB = True, anyUnicodeModeOrNonAnnexB = False, namedCaptureGroups = namedGroups,
     mayContainStrings = False, numberOfCapturingGroups = 0, groupSpecifiers = [], groupNameReferences = [],
     decimalEscapes = [], namedCapturingGroups = [], pendingLowSurrogate = 0\<rparr>"

text \<open>The check of the body, with the end of the scanner set to the end of the body meanwhile.\<close>

definition check_body ::
    "nat \<Rightarrow> (string \<Rightarrow> string list \<Rightarrow> string) \<Rightarrow> nat \<Rightarrow> nat \<Rightarrow> regularExpressionFlags \<Rightarrow> bool \<Rightarrow> Scanner \<Rightarrow> Scanner option" where
  "check_body fuel suggest startOfRegExpBody endOfRegExpBody flags namedGroups s =
    map_option
      (\<lambda>p. (rx_scanner p)\<lparr>s_end := s_end s, s_tokenStart := s_tokenStart s, s_tokenFlags := s_tokenFlags s\<rparr>)
      (run fuel suggest
        (new_parser (s\<lparr>s_pos := startOfRegExpBody, s_end := endOfRegExpBody\<rparr>) endOfRegExpBody flags namedGroups))"

definition terminated ::
    "nat \<Rightarrow> (string \<Rightarrow> string list \<Rightarrow> string) \<Rightarrow> bool \<Rightarrow> nat \<Rightarrow> nat \<Rightarrow> bool \<Rightarrow> Scanner \<Rightarrow> (nat \<times> Scanner) option" where
  "terminated fuel suggest report startOfRegExpBody endOfRegExpBody namedGroups s =
    (case literal_flags report (endOfRegExpBody + 1) regularExpressionFlagsNone s of
       (p, flags, s) \<Rightarrow>
         if report then map_option (Pair p) (check_body fuel suggest startOfRegExpBody endOfRegExpBody flags namedGroups s)
         else Some (p, s))"

definition ReScanSlashToken ::
    "nat \<Rightarrow> (string \<Rightarrow> string list \<Rightarrow> string) \<Rightarrow> bool \<Rightarrow> Scanner \<Rightarrow> (Kind \<times> Scanner) option" where
  "ReScanSlashToken fuel suggest report s =
    (if s_token s = KindSlashToken \<or> s_token s = KindSlashEqualsToken then
       (case body_end (s_text s) (s_end s) (s_tokenStart s + 1) False False False of
          (e, isUnterminated, namedGroups) \<Rightarrow>
            let s = (if isUnterminated then addFlag TokenFlagsUnterminated s else s);
                r = (if hasFlag s TokenFlagsUnterminated then Some (unterminated (s_tokenStart s + 1) e s)
                     else terminated fuel suggest report (s_tokenStart s + 1) e namedGroups s)
            in map_option
                 (\<lambda>(p, s). (KindRegularExpressionLiteral,
                   s\<lparr>s_pos := p, s_tokenValue := slc (s_text s) (s_tokenStart s) p,
                     s_token := KindRegularExpressionLiteral\<rparr>)) r)
     else Some (s_token s, s))"

end
