(* ===== verification/RegExpSafe.thy ===== *)
theory RegExpSafe
  imports RegExpToken
begin

text \<open>
  The checker of regular expressions stays in the body of the literal, which ends before a slash,
  and in the states the scanner may be left in.
\<close>

section \<open>The scanner inside a body\<close>

definition slash_end :: "Scanner \<Rightarrow> bool" where
  "slash_end s \<longleftrightarrow> s_end s < length (s_text s) \<and> s_text s ! s_end s = CHR ''/''"

definition stays :: "Scanner \<Rightarrow> Scanner \<Rightarrow> bool" where
  "stays s t \<longleftrightarrow> scan_moves s t \<and> (slash_end s \<and> s_pos s \<le> s_end s \<longrightarrow> s_pos t \<le> s_end s)"

lemma stays_refl [simp]: "stays s s"
  by (simp add: stays_def)

lemma stays_trans [trans]: "stays s t \<Longrightarrow> stays t u \<Longrightarrow> stays s u"
  unfolding stays_def using scan_moves_trans [of s t u] scan_moves_end [of s t] scan_moves_text [of s t]
  by (auto simp: slash_end_def)

lemma stays_moves: "stays s t \<Longrightarrow> scan_moves s t"
  by (simp add: stays_def)

lemma stays_simps [simp]:
  "stays s (t\<lparr>s_tokenFlags := f\<rparr>) = stays s t" "stays s (errorAtWith m p l a t) = stays s t"
  "stays s (t\<lparr>s_tokenValue := v\<rparr>) = stays s t" "stays s (t\<lparr>s_token := k\<rparr>) = stays s t"
  "stays s (t\<lparr>s_hexDigitCache := h\<rparr>) = stays s t"
  by (simp_all add: stays_def)

lemma stays_from_simps [simp]:
  "stays (s\<lparr>s_tokenFlags := f\<rparr>) t = stays s t" "stays (errorAtWith m p l a s) t = stays s t"
  by (simp_all add: stays_def slash_end_def)

lemma stays_step: "stays s t \<Longrightarrow> s_pos t < s_end t \<Longrightarrow> stays s (advance 1 t)"
  using scan_moves_step [of s t] scan_moves_end [of s t] by (auto simp: stays_def)

lemma stays_char: "stays s t \<Longrightarrow> s_char t = c \<Longrightarrow> 0 \<le> c \<Longrightarrow> stays s (advance 1 t)"
  using stays_step s_char_eq_imp by blast

lemma stays_back:
  "stays s t \<Longrightarrow> s_pos s \<le> q \<Longrightarrow> q \<le> s_pos t \<Longrightarrow> stays s (t\<lparr>s_pos := q\<rparr>)"
  unfolding stays_def using scan_moves_bound [of s t] by (auto simp: scan_moves_panicked)

lemma stays_restorePos: "stays s t \<Longrightarrow> stays s (restorePos s t)"
  using stays_back [of s t "s_pos s"] scan_moves_le [OF stays_moves, of s t] by (simp add: restorePos_def)

subsection \<open>Digits and escapes\<close>

lemma stays_hexDigits_loop: "stays s (snd (snd (hexDigits_loop m a c d as ps s)))"
proof (induction m a c d as ps s rule: hexDigits_loop.induct)
  case (1 m a c d as ps s)
  show ?case
  proof (cases "(d < m \<or> a) \<and> (IsHexDigit (s_char s) \<or> c \<and> s_char s = 0x5F)")
    case True
    then have step: "s_pos s < s_end s" by (auto simp: s_char_def IsHexDigit_def split: if_splits)
    have from_adv: "stays (advance 1 s) u \<Longrightarrow> stays s u" for u
      by (rule stays_trans [OF stays_step [OF stays_refl step]])
    have "stays (advance 1 (addFlag f s)) u \<Longrightarrow> stays s u" "stays (advance 1 (errorAtWith mm pp ll aa (addFlag f s))) u \<Longrightarrow> stays s u"
      for u f mm pp ll aa
      using stays_trans [OF stays_step [of s "addFlag f s"], of u]
        stays_trans [OF stays_step [of s "errorAtWith mm pp ll aa (addFlag f s)"], of u] step
      by simp_all
    then show ?thesis using 1 True from_adv
      by (subst hexDigits_loop.simps) (auto simp: Let_def)
  next
    case False
    then show ?thesis using 1 by (subst hexDigits_loop.simps) (auto simp: Let_def)
  qed
qed

lemma stays_scanHexDigits [simp]: "stays s (snd (scanHexDigits m a c s))"
  using stays_hexDigits_loop [of s m a c 0 False False]
  by (auto simp: scanHexDigits_def Let_def split: prod.splits option.splits)

lemma stays_unicodeEscape_digits:
  assumes ext: "ext = (s_char s = 0x7B)"
  shows "stays s (snd (unicodeEscape_digits ext s))"
proof (cases ext)
  case True
  then have "stays s (advance 1 s)" using ext by (intro stays_char [OF stays_refl]) auto
  then have "stays s (snd (scanHexDigits 1 True False (advance 1 s)))"
    by (rule stays_trans) (rule stays_scanHexDigits)
  with True show ?thesis by (simp add: unicodeEscape_digits_def)
next
  case False
  have "stays s (snd (scanHexDigits 4 False False (addFlag TokenFlagsUnicodeEscape s)))"
    by (rule stays_trans [OF _ stays_scanHexDigits]) simp
  with False show ?thesis by (simp add: unicodeEscape_digits_def)
qed

lemma stays_unicodeEscape_brace [simp]: "stays s (snd (unicodeEscape_brace e s))"
  using stays_char [of s s 125] by (simp add: unicodeEscape_brace_def del: advance_def)

lemma stays_scanUnicodeEscape: "stays (advance 2 s) (snd (scanUnicodeEscape e s))"
proof -
  define ext where "ext = (s_char (advance 2 s) = 0x7B)"
  define r where "r = unicodeEscape_digits ext (advance 2 s)"
  have m: "stays (advance 2 s) (snd r)" unfolding r_def ext_def by (rule stays_unicodeEscape_digits) simp
  have b: "stays (advance 2 s) t \<Longrightarrow> stays (advance 2 s) (snd (unicodeEscape_brace e t))" for t e
    using stays_trans stays_unicodeEscape_brace by blast
  show ?thesis
    using m b unfolding scanUnicodeEscape_def Let_def ext_def [symmetric] r_def [symmetric]
    by (simp del: advance_def)
qed

lemma stays_advance: "s_pos s + n \<le> s_end s \<Longrightarrow> stays s (advance n s)"
  by (simp add: stays_def)

lemma stays_escape: "s_pos s + 2 \<le> s_end s \<Longrightarrow> stays s (snd (scanUnicodeEscape e s))"
  by (rule stays_trans [OF stays_advance stays_scanUnicodeEscape])

lemma stays_peekUnicodeEscape [simp]: "stays s (snd (peekUnicodeEscape s))"
  using charAt_pos [of s 1 117]
  by (auto simp: peekUnicodeEscape_def Let_def intro!: stays_restorePos stays_escape)

lemma stays_scanLowSurrogateEscape [simp]: "stays s (snd (scanLowSurrogateEscape h s))"
  using charAt_pos [of s 1 117]
  by (auto simp: scanLowSurrogateEscape_def Let_def intro!: stays_restorePos stays_escape)

lemma stays_scanIdentifierEscape [simp]: "stays s (snd (scanIdentifierEscape v a s))"
proof -
  define p where "p = peekUnicodeEscape s"
  have p: "stays s (snd p)" and pos: "s_pos (snd p) = s_pos s" and e: "s_end (snd p) = s_end s"
    unfolding p_def by (simp_all add: scan_moves_end [OF scan_moves_peekUnicodeEscape])
  have u: "stays s (snd (scanUnicodeEscape x (snd p)))" if "0 \<le> fst p" for x
  proof -
    have "s_pos s + 1 < s_end s"
      using that charAt_pos [of s 1 117] peekUnicodeEscape_is_u unfolding p_def by auto
    then have "stays (snd p) (snd (scanUnicodeEscape x (snd p)))" by (intro stays_escape) (simp add: pos e)
    with p show ?thesis by (rule stays_trans)
  qed
  have l: "stays s (snd (scanLowSurrogateEscape h t))" if "stays s t" for h t
    using that stays_scanLowSurrogateEscape by (rule stays_trans)
  have r: "stays s (restorePos (snd p) t)" if "stays s t" for t
    using stays_back [OF that, of "s_pos s"] scan_moves_le [OF stays_moves [OF that]] pos by (simp add: restorePos_def)
  have high: "IsHighSurrogate x \<Longrightarrow> 0 \<le> x" for x by (simp add: IsHighSurrogate_def utf16_IsSurrogate_def)
  show ?thesis
    unfolding scanIdentifierEscape_def Let_def p_def [symmetric]
    by (auto simp: p intro: u l r high split: option.splits)
qed

subsection \<open>Identifiers\<close>

text \<open>A rune ends before an ASCII character, so runes other than the slash end in the body.\<close>

lemma rune_in_body:
  assumes "e < length t" "t ! e = CHR ''/''" "pos < e"
  shows "pos + snd (DecodeRune (drop pos t)) \<le> e"
proof (rule ccontr)
  assume "\<not> ?thesis"
  then have "0x80 \<le> rune_of (drop pos t ! (e - pos))" using assms by (intro DecodeRune_continuation) auto
  then show False using assms by simp
qed

lemma stays_charAndSize:
  assumes "fst (charAndSize s) \<noteq> 0x2F"
  shows "stays s (advance (snd (charAndSize s)) s)"
proof -
  have "s_pos s + snd (charAndSize s) \<le> s_end s" if "slash_end s" "s_pos s \<le> s_end s"
  proof (cases "s_pos s = s_end s")
    case True
    then have "drop (s_pos s) (s_text s) = CHR ''/'' # drop (Suc (s_pos s)) (s_text s)"
      using that(1) Cons_nth_drop_Suc [of "s_end s" "s_text s"] by (simp add: slash_end_def)
    then have "fst (charAndSize s) = 0x2F" using True by (simp add: charAndSize_def)
    with assms show ?thesis by simp
  next
    case False
    then show ?thesis
      using that rune_in_body [of "s_end s" "s_text s" "s_pos s"] by (auto simp: slash_end_def charAndSize_def)
  qed
  then show ?thesis using scan_moves_charAndSize [of s] by (simp add: stays_def)
qed

lemma runes_end_in_body:
  assumes "\<not> p 0x2F" "e < length t" "t ! e = CHR ''/''" "pos \<le> e"
  shows "pos + runes_end p (drop pos t) \<le> e"
  using assms(4)
proof (induction "e - pos" arbitrary: pos rule: less_induct)
  case less
  let ?d = "DecodeRune (drop pos t)"
  show ?case
  proof (cases "0 < snd ?d \<and> p (fst ?d)")
    case True
    have "pos \<noteq> e"
    proof
      assume "pos = e"
      then have "drop pos t = CHR ''/'' # drop (Suc pos) t" using assms Cons_nth_drop_Suc [of e t] by simp
      then show False using True assms(1) by simp
    qed
    then have le: "pos + snd ?d \<le> e" using rune_in_body [OF assms(2,3)] less.prems by simp
    have "pos + snd ?d + runes_end p (drop (pos + snd ?d) t) \<le> e"
      by (rule less.hyps) (use True le in auto)
    then show ?thesis using True by (subst runes_end.simps) (simp add: Let_def add.commute add.left_commute)
  next
    case False
    then show ?thesis using less.prems by (subst runes_end.simps) (auto simp: Let_def)
  qed
qed

lemma stays_scanRunesWhile: "\<not> p 0x2F \<Longrightarrow> stays s (scanRunesWhile p s)"
  using runes_end_in_body [of p "s_end s" "s_text s" "s_pos s"] scan_moves_scanRunesWhile [of s p]
  by (simp add: stays_def slash_end_def scanRunesWhile_def)

lemma slash_no_part: "\<not> IsIdentifierPartEx 0x2F (variant_language v)" if "v \<noteq> identifierVariantJSX"
  using that by (simp add: variant_language_def IsIdentifierPartEx_def isWordCharacter_def IsASCIILetter_def IsDigit_def)

lemma slash_no_start: "\<not> IsIdentifierStart 0x2F"
  by (simp add: IsIdentifierStart_def IsASCIILetter_def)

lemma stays_identifierParts_loop:
  "v \<noteq> identifierVariantJSX \<Longrightarrow> stays s (snd (snd (identifierParts_loop v st sb s)))"
proof (induction v st sb s rule: identifierParts_loop.induct)
  case (1 v st sb s0)
  define p where "p = (\<lambda>ch. IsIdentifierPartEx ch (variant_language v))"
  define s where "s = scanRunesWhile p s0"
  define r where "r = scanIdentifierEscape p (v = identifierVariantRegExpGroupName) s"
  have m: "stays s0 s" "stays s (snd r)"
    unfolding s_def r_def using stays_scanRunesWhile slash_no_part [OF 1(2)] by (simp_all add: p_def)
  then have m2: "stays s0 (snd r)" by (rule stays_trans)
  note IH = 1(1) [OF p_def s_def _ r_def _ 1(2)]
  show ?case
  proof (cases "s_char s = 0x5C")
    case True
    then show ?thesis using m m2 IH
      by (subst identifierParts_loop.simps)
         (auto simp: Let_def p_def [symmetric] s_def [symmetric] r_def [symmetric]
            intro: stays_trans split: option.split)
  next
    case False
    then show ?thesis using m
      by (subst identifierParts_loop.simps) (simp add: Let_def p_def [symmetric] s_def [symmetric])
  qed
qed

lemma stays_scanIdentifierParts: "v \<noteq> identifierVariantJSX \<Longrightarrow> stays s (snd (scanIdentifierParts v s))"
  using stays_identifierParts_loop [of v s "s_pos s" "[]"]
  by (auto simp: scanIdentifierParts_def split: prod.splits)

lemma stays_scanIdentifier_slow:
  assumes "v \<noteq> identifierVariantJSX"
  shows "stays s (snd (scanIdentifier_slow st v s))"
proof -
  define p where "p = (\<lambda>ch. IsIdentifierPartEx ch (variant_language v))"
  define a where "a = advance (snd (charAndSize s)) s"
  define t where "t = scanRunesWhile p a"
  define e where "e = scanIdentifierEscape IsIdentifierStart (v = identifierVariantRegExpGroupName) s"
  have m: "stays s t" if "IsIdentifierStart (fst (charAndSize s))"
  proof -
    have "stays s a" unfolding a_def using that slash_no_start by (intro stays_charAndSize) auto
    also have "stays a t" unfolding t_def using slash_no_part [OF assms] by (intro stays_scanRunesWhile) (simp add: p_def)
    finally show ?thesis .
  qed
  have m1: "stays s (snd e)" unfolding e_def by simp
  have m2: "stays s u \<Longrightarrow> stays s (snd (scanIdentifierParts v u))" for u
    by (rule stays_trans [OF _ stays_scanIdentifierParts [OF assms]])
  show ?thesis using m m1 m2
    unfolding scanIdentifier_slow_def Let_def p_def [symmetric] a_def [symmetric] t_def [symmetric]
      e_def [symmetric]
    by (auto split: option.split)
qed

lemma stays_scanASCIIWhile [simp]: "stays s (scanASCIIWhile p s)"
proof -
  let ?q = "\<lambda>b. rune_of b < RuneSelf \<and> p (rune_of b)"
  have "run_length ?q (slc (s_text s) (s_pos s) (s_end s)) \<le> s_end s - s_pos s" if "slash_end s"
    using run_length_le [of ?q "slc (s_text s) (s_pos s) (s_end s)"] by simp
  then show ?thesis using scan_moves_scanASCIIWhile [of s p] by (auto simp: stays_def scanASCIIWhile_def)
qed

lemma stays_scanIdentifier:
  assumes "v \<noteq> identifierVariantJSX"
  shows "stays s (snd (scanIdentifier 0 v s))"
proof -
  have "IsASCIILetter (s_char s) \<or> s_char s = 0x5F \<or> s_char s = 0x24 \<Longrightarrow> 0 \<le> s_char s"
    by (auto simp: IsASCIILetter_def)
  then have "IsASCIILetter (s_char s) \<or> s_char s = 0x5F \<or> s_char s = 0x24 \<Longrightarrow>
     stays s (scanASCIIWhile isASCIIIdentifierPart (advance 1 s))"
    by (intro stays_trans [OF stays_char [OF stays_refl refl] stays_scanASCIIWhile])
  then show ?thesis
    using stays_scanIdentifier_slow [OF assms] by (auto simp: scanIdentifier_def Let_def)
qed

subsection \<open>Escape sequences\<close>

lemma stays_skipOctal [simp]: "stays s (skipOctal s)"
  using stays_char [OF stays_refl refl IsOctalDigit_nonneg] by (simp add: skipOctal_def del: advance_def)

lemma stays_escape_octal [simp]: "stays s (snd (escape_octal f st ch s))"
proof -
  define t where "t = skipOctal (if ch \<le> 0x33 then skipOctal s else s)"
  have m: "stays s t" unfolding t_def by (simp add: stays_trans [OF stays_skipOctal stays_skipOctal])
  show ?thesis unfolding escape_octal_def Let_def t_def [symmetric] using m by simp
qed

lemma stays_escape_decimal [simp]: "stays s (snd (escape_decimal f st ch s))"
  by (simp add: escape_decimal_def Let_def)

lemma stays_escape_combine [simp]: "stays s (snd (escape_combine c s))"
  by (simp add: escape_combine_def Let_def split: option.split)

lemma stays_escape_u:
  assumes "2 \<le> s_pos s0"
  shows "stays s0 (snd (escape_u f st s0))"
proof -
  define report where "report = hasEsc f EscapeFlagsReportInvalidEscapeErrors"
  define r where "r = scanUnicodeEscape report (s0\<lparr>s_pos := s_pos s0 - 2\<rparr>)"
  have "advance 2 (s0\<lparr>s_pos := s_pos s0 - 2\<rparr>) = s0"
    using assms by (simp add: numeral_2_eq_2 Suc_diff_Suc del: One_nat_def)
  then have m: "stays s0 (snd r)"
    using stays_scanUnicodeEscape [of "s0\<lparr>s_pos := s_pos s0 - 2\<rparr>" report]
    unfolding r_def by (simp del: advance_def)
  have c: "stays s0 t \<Longrightarrow> stays s0 (snd (escape_combine x t))" for t x
    using stays_escape_combine by (rule stays_trans [rotated])
  have q: "stays s0 (snd (scanUnicodeEscape report (snd r)))" if "charAt (snd r) 1 = 0x75"
  proof -
    have "stays (snd r) (snd (scanUnicodeEscape report (snd r)))"
      using charAt_pos [OF that] by (intro stays_escape) simp
    with m show ?thesis by (rule stays_trans)
  qed
  have q2: "stays s0 ((snd (scanUnicodeEscape report (snd r)))\<lparr>s_pos := s_pos (snd r)\<rparr>)"
    if "charAt (snd r) 1 = 0x75"
    by (rule stays_back [OF q [OF that] scan_moves_le [OF stays_moves [OF m]]])
      (use scanUnicodeEscape_pos [of "snd r" report] in simp)
  show ?thesis
    unfolding escape_u_def Let_def report_def [symmetric] r_def [symmetric]
    using m by (auto intro!: c q q2 simp del: One_nat_def)
qed

lemma stays_hexEscape_loop [simp]: "stays s (snd (hexEscape_loop n s))"
proof (induction n arbitrary: s)
  case (Suc n)
  show ?case
    using stays_trans [OF stays_char [OF stays_refl refl IsHexDigit_nonneg] Suc] by (simp del: advance_def)
qed simp

lemma stays_escape_x [simp]: "stays s (snd (escape_x f st s))"
  by (simp add: escape_x_def Let_def)

lemma stays_escape_other:
  assumes "s_pos s < s_end s"
  shows "stays s (snd (escape_other f st ch (advance 1 s)))"
proof -
  have "slash_end s \<Longrightarrow> s_pos s + snd (DecodeRune (drop (s_pos s) (s_text s))) \<le> s_end s"
    using rune_in_body [of "s_end s" "s_text s"] assms by (simp add: slash_end_def)
  then show ?thesis
    using scan_moves_escape_other [OF assms, of f st ch] assms by (auto simp: stays_def escape_other_def Let_def)
qed

lemma stays_scanEscapeSequence:
  assumes "s_pos s < s_end s"
  shows "stays (advance 1 s) (snd (scanEscapeSequence f s))"
proof -
  define t where "t = advance 1 s"
  have "stays t (snd (scanEscapeSequence f s))"
  proof (cases "s_char t < 0")
    case True
    then show ?thesis by (simp add: scanEscapeSequence_def Let_def t_def)
  next
    case False
    have lt: "s_pos t < s_end t" using False s_char_pos by simp
    define u where "u = advance 1 t"
    have m: "stays t u" unfolding u_def using stays_step [OF stays_refl lt] .
    have p2: "2 \<le> s_pos u" by (simp add: u_def t_def)
    note steps = m [THEN stays_trans]
    have nl: "s_char u = 0x0A \<Longrightarrow> stays u (advance 1 u)"
      using stays_char [OF stays_refl, of u 10] by (simp del: advance_def)
    show ?thesis
      unfolding scanEscapeSequence_def Let_def t_def [symmetric] u_def [symmetric]
      using False m p2
      by (auto simp: t_def [symmetric] simp del: advance_def One_nat_def
          intro!: nl steps stays_escape_u stays_escape_other [OF lt, folded u_def])
  qed
  then show ?thesis by (simp only: t_def)
qed

end
