(* ===== verification/RegExpRun.thy ===== *)
theory RegExpRun
  imports RegExpSafe
begin

text \<open>
  The methods of the checker of regular expressions, one by one: each moves forward in the body,
  keeps the modes of the checker, does not panic, and makes room for the next smaller.
\<close>

section \<open>Moving in a body\<close>

definition unstart :: "Scanner \<Rightarrow> Scanner" where
  "unstart s = s\<lparr>s_tokenStart := 0\<rparr>"

definition modes :: "regExpParser \<Rightarrow> nat \<times> bool list" where
  "modes p = (rx_end p, [anyUnicodeMode p, unicodeSetsMode p, annexB p, anyUnicodeModeOrNonAnnexB p, namedCaptureGroups p])"

text \<open>\<open>rx_go n p q\<close>: \<open>q\<close> is \<open>p\<close> at least \<open>n\<close> bytes further.\<close>

definition rx_go :: "nat \<Rightarrow> regExpParser \<Rightarrow> regExpParser \<Rightarrow> bool" where
  "rx_go n p q \<longleftrightarrow> stays (unstart (rx_scanner p)) (unstart (rx_scanner q)) \<and> rx_pos p + n \<le> rx_pos q
    \<and> modes q = modes p \<and> length (namedCapturingGroups q) = length (namedCapturingGroups p)"

text \<open>In the body from \<open>a\<close> on, no line break stands behind a backslash.\<close>

definition in_body :: "nat \<Rightarrow> regExpParser \<Rightarrow> bool" where
  "in_body a p \<longleftrightarrow> slash_end (rx_scanner p) \<and> rx_end p = s_end (rx_scanner p)
    \<and> a \<le> rx_pos p \<and> rx_pos p \<le> rx_end p
    \<and> (\<forall>i. a < i \<and> i < rx_end p \<and> rx_text p ! (i - 1) = CHR 0x5C \<longrightarrow>
         \<not> IsLineBreak (fst (DecodeRune (drop i (rx_text p)))))"

lemma rx_go_refl [simp]: "rx_go 0 p p"
  by (simp add: rx_go_def)

lemma rx_go_trans: "rx_go n p q \<Longrightarrow> rx_go m q r \<Longrightarrow> rx_go (n + m) p r"
  unfolding rx_go_def using stays_trans by fastforce

lemma rx_go_weaken: "rx_go n p q \<Longrightarrow> m \<le> n \<Longrightarrow> rx_go m p q"
  by (simp add: rx_go_def)

lemma rx_go_1_0: "rx_go 1 p q \<Longrightarrow> rx_go 0 q r \<Longrightarrow> rx_go 1 p r" "rx_go 0 p q \<Longrightarrow> rx_go 1 q r \<Longrightarrow> rx_go 1 p r"
  "rx_go 0 p q \<Longrightarrow> rx_go 0 q r \<Longrightarrow> rx_go 0 p r" "rx_go 1 p q \<Longrightarrow> rx_go 0 p q"
  using rx_go_trans [of 1 p q 0 r] rx_go_trans [of 0 p q 1 r] rx_go_trans [of 0 p q 0 r] rx_go_weaken [of 1 p q 0] by simp_all

lemma unstart_fields [simp]: "s_pos (unstart s) = s_pos s" "s_end (unstart s) = s_end s" "s_text (unstart s) = s_text s"
  "s_panicked (unstart s) = s_panicked s" "s_char (unstart s) = s_char s" "slash_end (unstart s) = slash_end s"
  by (simp_all add: unstart_def s_char_def slash_end_def)

lemma stays_text: "stays s t \<Longrightarrow> s_text t = s_text s" "stays s t \<Longrightarrow> s_end t = s_end s"
  by (simp_all add: scan_moves_text scan_moves_end stays_moves)

lemma rx_go_text: "rx_go n p q \<Longrightarrow> rx_text q = rx_text p" "rx_go n p q \<Longrightarrow> rx_end q = rx_end p"
  using stays_text(1) [of "unstart (rx_scanner p)" "unstart (rx_scanner q)"]
  by (auto simp: rx_go_def rx_text_def modes_def)

lemma rx_go_in_body: "rx_go n p q \<Longrightarrow> in_body a p \<Longrightarrow> in_body a q"
  using stays_text [of "unstart (rx_scanner p)" "unstart (rx_scanner q)"] rx_go_text [of n p q]
  by (auto simp: rx_go_def in_body_def stays_def slash_end_def rx_pos_def)

lemma rx_go_scanner:
  "stays (rx_scanner p) s \<Longrightarrow> rx_pos p + n \<le> s_pos s \<Longrightarrow> rx_go n p (p\<lparr>rx_scanner := s\<rparr>)"
  by (auto simp: rx_go_def modes_def rx_pos_def stays_def scan_moves_def same_input_def unstart_def slash_end_def scan_wf_def)

text \<open>What does not concern the position.\<close>

lemma rx_go_simps [simp]:
  "rx_go n p (q\<lparr>rx_scanner := (rx_scanner q)\<lparr>s_tokenValue := v\<rparr>\<rparr>) = rx_go n p q"
  "rx_go n p (q\<lparr>rx_scanner := (rx_scanner q)\<lparr>s_tokenStart := k\<rparr>\<rparr>) = rx_go n p q"
  "rx_go n p (rx_errorWith m pp l args q) = rx_go n p q"
  "rx_go n p (q\<lparr>mayContainStrings := b\<rparr>) = rx_go n p q"
  "rx_go n p (q\<lparr>numberOfCapturingGroups := k\<rparr>) = rx_go n p q"
  "rx_go n p (q\<lparr>groupSpecifiers := gs\<rparr>) = rx_go n p q"
  "rx_go n p (q\<lparr>groupNameReferences := rs\<rparr>) = rx_go n p q"
  "rx_go n p (q\<lparr>decimalEscapes := ds\<rparr>) = rx_go n p q"
  "rx_go n p (q\<lparr>pendingLowSurrogate := ch\<rparr>) = rx_go n p q"
  by (simp_all add: rx_go_def modes_def rx_pos_def rx_errorWith_def on_scanner_def unstart_def
      stays_def scan_moves_def same_input_def errorAtWith_def)

lemma rx_go_from_simps [simp]:
  "rx_go n (p\<lparr>mayContainStrings := b\<rparr>) q = rx_go n p q"
  "rx_go n (p\<lparr>numberOfCapturingGroups := k\<rparr>) q = rx_go n p q"
  "rx_go n (p\<lparr>pendingLowSurrogate := ch\<rparr>) q = rx_go n p q"
  "rx_go n (rx_errorWith m pp l args p) q = rx_go n p q"
  by (simp_all add: rx_go_def modes_def rx_pos_def rx_errorWith_def on_scanner_def unstart_def
      stays_def scan_moves_def same_input_def errorAtWith_def slash_end_def scan_wf_def)

lemma rx_error_from_eq [simp]: "rx_error_from m st p = rx_errorWith m (int st) (int (rx_pos p) - int st) [] p"
  by (simp add: rx_error_from_def)

lemma rx_errorWith_end [simp]: "s_end (rx_scanner (rx_errorWith m pp l args p)) = s_end (rx_scanner p)"
  by (simp add: rx_errorWith_def)

lemma rx_field_simps [simp]:
  "rx_pos (p\<lparr>mayContainStrings := b\<rparr>) = rx_pos p" "rx_end (p\<lparr>mayContainStrings := b\<rparr>) = rx_end p"
  "rx_text (p\<lparr>mayContainStrings := b\<rparr>) = rx_text p" "rx_char (p\<lparr>mayContainStrings := b\<rparr>) = rx_char p"
  "rx_pos (p\<lparr>pendingLowSurrogate := ch\<rparr>) = rx_pos p" "rx_text (p\<lparr>pendingLowSurrogate := ch\<rparr>) = rx_text p"
  "rx_char (p\<lparr>pendingLowSurrogate := ch\<rparr>) = rx_char p"
  by (simp_all add: rx_pos_def rx_text_def rx_char_def)

lemma in_body_simps [simp]:
  "in_body a (rx_errorWith m pp l args p) = in_body a p" "in_body a (p\<lparr>mayContainStrings := b\<rparr>) = in_body a p"
  "in_body a (p\<lparr>pendingLowSurrogate := ch\<rparr>) = in_body a p" "in_body a (p\<lparr>namedCapturingGroups := g\<rparr>) = in_body a p"
  "in_body a (p\<lparr>numberOfCapturingGroups := k\<rparr>) = in_body a p"
  by (simp_all add: in_body_def rx_errorWith_def on_scanner_def rx_pos_def rx_text_def slash_end_def)

lemma incPos_error [simp]: "incPos n (rx_errorWith m pp l args p) = rx_errorWith m pp l args (incPos n p)"
  by (simp add: incPos_def rx_errorWith_def on_scanner_def errorAtWith_def)

lemma rx_char_inside: "rx_char p = c \<Longrightarrow> 0 \<le> c \<Longrightarrow> in_body a p \<Longrightarrow> rx_pos p < rx_end p"
  using s_char_eq_imp [of "rx_scanner p" c] by (auto simp: rx_char_def in_body_def rx_pos_def)

lemma rx_char_text: "rx_char p = rune_of c \<Longrightarrow> rx_text p ! rx_pos p = c"
proof -
  assume h: "rx_char p = rune_of c"
  moreover have "rx_char p \<noteq> -1" using of_char_nonneg_int [of c] unfolding h by linarith
  ultimately show ?thesis
    by (cases "s_pos (rx_scanner p) < s_end (rx_scanner p)") (simp_all add: rx_char_def s_char_def rx_text_def rx_pos_def)
qed

lemma incPos_go:
  assumes "rx_pos p < s_end (rx_scanner p)"
  shows "rx_go 1 p (incPos 1 p)"
proof -
  have "stays (rx_scanner p) (advance 1 (rx_scanner p))" using stays_step [OF stays_refl, of "rx_scanner p"] assms by (simp add: rx_pos_def)
  from rx_go_scanner [OF this] show ?thesis by (simp add: incPos_def on_scanner_def rx_pos_def)
qed

lemma incPos_char: "rx_char p = c \<Longrightarrow> 0 \<le> c \<Longrightarrow> rx_go 1 p (incPos 1 p)"
  using s_char_eq_imp [of "rx_scanner p" c] by (intro incPos_go) (simp add: rx_char_def rx_pos_def)

lemma incPos_many:
  assumes "rx_pos p + n \<le> s_end (rx_scanner p)"
  shows "rx_go n p (incPos n p)"
proof -
  have "stays (rx_scanner p) (advance n (rx_scanner p))" using stays_advance [of "rx_scanner p" n] assms by (simp add: rx_pos_def)
  from rx_go_scanner [OF this] show ?thesis by (simp add: incPos_def on_scanner_def rx_pos_def)
qed

lemma scanExpectedChar_go: "0 \<le> ch \<Longrightarrow> rx_go 0 p (scanExpectedChar ch p)"
  using rx_go_1_0(4) [OF incPos_char [of p ch]] by (simp add: scanExpectedChar_def)

lemma skip_while_go: "in_body a p \<Longrightarrow> rx_go 0 p (skip_while test p)"
proof (induction test p rule: skip_while.induct)
  case (1 test p)
  show ?case
  proof (cases "rx_pos p < rx_end p \<and> test (rx_char p)")
    case True
    then have step: "rx_go 1 p (incPos 1 p)" using 1(2) by (intro incPos_go) (simp add: in_body_def)
    have "rx_go 0 (incPos 1 p) (skip_while test (incPos 1 p))"
      using 1(1) True rx_go_in_body [OF step 1(2)] by simp
    then have "rx_go 0 p (skip_while test (incPos 1 p))" using rx_go_1_0(4) [OF rx_go_1_0(1) [OF step]] by simp
    then show ?thesis using True by (subst skip_while.simps) simp
  next
    case False
    then show ?thesis by (subst skip_while.simps) auto
  qed
qed

lemma regExp_scanDigits_go: "in_body a p \<Longrightarrow> rx_go 0 p (regExp_scanDigits p)"
  using skip_while_go [of a p IsDigit] by (simp add: regExp_scanDigits_def Let_def on_scanner_def)

lemma scanWordCharacters_go: "in_body a p \<Longrightarrow> rx_go 0 p (snd (scanWordCharacters p))"
  using skip_while_go [of a p isWordCharacter] by (simp add: scanWordCharacters_def Let_def)

section \<open>Room\<close>

text \<open>Each method that consumes a character leaves less room, also when the character is half of a pair.\<close>

definition room :: "regExpParser \<Rightarrow> nat" where
  "room p = 2 * (rx_end p - rx_pos p) + (if pendingLowSurrogate p = 0 then 1 else 0)"

definition reduces :: "regExpParser \<Rightarrow> regExpParser \<Rightarrow> bool" where
  "reduces p q \<longleftrightarrow> rx_go 0 p q \<and> room q < room p"

lemma room_fields [simp]: "room (rx_errorWith m pp l args p) = room p" "room (p\<lparr>mayContainStrings := b\<rparr>) = room p"
  by (simp_all add: room_def rx_errorWith_def on_scanner_def rx_pos_def)

lemma reduces_simps [simp]:
  "reduces p (rx_errorWith m pp l args q) = reduces p q" "reduces p (q\<lparr>mayContainStrings := b\<rparr>) = reduces p q"
  "reduces (rx_errorWith m pp l args p) q = reduces p q" "reduces (p\<lparr>mayContainStrings := b\<rparr>) q = reduces p q"
  by (simp_all add: reduces_def)

text \<open>\<open>rx_go\<close> that does not touch the pending surrogate.\<close>

definition rx_step :: "nat \<Rightarrow> regExpParser \<Rightarrow> regExpParser \<Rightarrow> bool" where
  "rx_step n p q \<longleftrightarrow> rx_go n p q \<and> pendingLowSurrogate q = pendingLowSurrogate p"

lemma rx_step_room: "rx_step n p q \<Longrightarrow> room q \<le> room p"
  by (auto simp: rx_step_def room_def rx_go_def modes_def)

lemma rx_go_1_reduces: "rx_go 1 p q \<Longrightarrow> in_body a p \<Longrightarrow> reduces p q"
  using rx_go_in_body [of 1 p q a] rx_go_1_0(4) [of p q]
  by (auto simp: reduces_def room_def rx_go_def in_body_def modes_def)

lemma rx_step_1_reduces: "rx_step 1 p q \<Longrightarrow> in_body a p \<Longrightarrow> reduces p q"
  using rx_go_1_reduces by (simp add: rx_step_def)

lemma reduces_trans: "reduces p q \<Longrightarrow> reduces q r \<Longrightarrow> reduces p r"
  using rx_go_1_0(3) by (auto simp: reduces_def)

lemma rx_step_reduces: "rx_step 0 p q \<Longrightarrow> reduces q r \<Longrightarrow> reduces p r"
  using rx_step_room [of 0 p q] rx_go_1_0(3) [of p q r] by (auto simp: reduces_def rx_step_def)

lemma reduces_step: "reduces p q \<Longrightarrow> rx_step 0 q r \<Longrightarrow> reduces p r"
  using rx_step_room [of 0 q r] rx_go_1_0(3) [of p q r] by (auto simp: reduces_def rx_step_def)

lemma reduces_go: "reduces p q \<Longrightarrow> rx_go 0 p q"
  by (simp add: reduces_def)

lemma reduces_in_body: "reduces p q \<Longrightarrow> in_body a p \<Longrightarrow> in_body a q"
  using rx_go_in_body reduces_go by blast

lemma rx_step_in_body: "rx_step n p q \<Longrightarrow> in_body a p \<Longrightarrow> in_body a q"
  using rx_go_in_body [of n p q a] by (simp add: rx_step_def)

lemma rx_step_refl [simp]: "rx_step 0 p p"
  by (simp add: rx_step_def)

lemma rx_step_trans: "rx_step n p q \<Longrightarrow> rx_step m q r \<Longrightarrow> rx_step (n + m) p r"
  using rx_go_trans [of n p q m r] by (simp add: rx_step_def)

lemma rx_step_1_0: "rx_step 1 p q \<Longrightarrow> rx_step 0 q r \<Longrightarrow> rx_step 1 p r" "rx_step 0 p q \<Longrightarrow> rx_step 1 q r \<Longrightarrow> rx_step 1 p r"
  "rx_step 0 p q \<Longrightarrow> rx_step 0 q r \<Longrightarrow> rx_step 0 p r" "rx_step 1 p q \<Longrightarrow> rx_step 0 p q"
  using rx_go_1_0(1-3) [of p q r] rx_go_1_0(4) [of p q] by (simp_all add: rx_step_def)

lemma pending_simps [simp]:
  "pendingLowSurrogate (on_scanner f p) = pendingLowSurrogate p" "pendingLowSurrogate (incPos n p) = pendingLowSurrogate p"
  "pendingLowSurrogate (decPos p) = pendingLowSurrogate p"
  "pendingLowSurrogate (rx_errorWith m pp l args p) = pendingLowSurrogate p"
  by (simp_all add: on_scanner_def incPos_def decPos_def rx_errorWith_def)

lemma rx_step_simps [simp]:
  "rx_step n p (rx_errorWith m pp l args q) = rx_step n p q" "rx_step n p (q\<lparr>mayContainStrings := b\<rparr>) = rx_step n p q"
  "rx_step n p (q\<lparr>numberOfCapturingGroups := k\<rparr>) = rx_step n p q"
  "rx_step n p (q\<lparr>groupSpecifiers := gs\<rparr>) = rx_step n p q"
  "rx_step n p (q\<lparr>groupNameReferences := rs\<rparr>) = rx_step n p q"
  "rx_step n p (q\<lparr>decimalEscapes := ds\<rparr>) = rx_step n p q"
  "rx_step n (rx_errorWith m pp l args p) q = rx_step n p q" "rx_step n (p\<lparr>mayContainStrings := b\<rparr>) q = rx_step n p q"
  by (simp_all add: rx_step_def)

lemma incPos_step: "rx_char p = c \<Longrightarrow> 0 \<le> c \<Longrightarrow> rx_step 1 p (incPos 1 p)"
  using incPos_char by (simp add: rx_step_def)

lemma scanExpectedChar_step: "0 \<le> ch \<Longrightarrow> rx_step 0 p (scanExpectedChar ch p)"
  using scanExpectedChar_go [of ch p] by (simp add: rx_step_def scanExpectedChar_def)

lemma skip_while_pending [simp]: "pendingLowSurrogate (skip_while test p) = pendingLowSurrogate p"
proof (induction test p rule: skip_while.induct)
  case (1 test p)
  then show ?case by (subst skip_while.simps) simp
qed

lemma regExp_scanDigits_step: "in_body a p \<Longrightarrow> rx_step 0 p (regExp_scanDigits p)"
  using regExp_scanDigits_go by (simp add: rx_step_def) (simp add: regExp_scanDigits_def Let_def)

lemma scanWordCharacters_step: "in_body a p \<Longrightarrow> rx_step 0 p (snd (scanWordCharacters p))"
  using scanWordCharacters_go by (simp add: rx_step_def) (simp add: scanWordCharacters_def Let_def)

section \<open>Characters and escapes\<close>

lemma low_surrogate_nonzero: "0x10000 \<le> ch \<Longrightarrow> ch \<le> 0x10FFFF \<Longrightarrow> snd (CodePointToSurrogatePair ch) \<noteq> 0"
  by (simp add: CodePointToSurrogatePair_def utf16_EncodeRune_def)

lemma scanSourceCharacter_reduces:
  assumes "in_body a p" "rx_pos p < rx_end p"
  shows "reduces p (snd (scanSourceCharacter p))"
proof -
  let ?sz = "snd (DecodeRune (drop (rx_pos p) (rx_text p)))"
  have body: "s_end (rx_scanner p) = rx_end p" "rx_end p < length (rx_text p)" "rx_text p ! rx_end p = CHR ''/''"
    using assms(1) by (auto simp: in_body_def slash_end_def rx_text_def)
  have sz: "rx_pos p + ?sz \<le> rx_end p" "0 < ?sz"
    using rune_in_body [OF body(2,3) assms(2)] body assms(2) by (auto simp: DecodeRune_size_pos)
  have go: "rx_go ?sz p (incPos ?sz p)" "rx_go 1 p (incPos 1 p)" "rx_go 1 p (incPos ?sz p)"
    using incPos_many [of p ?sz] incPos_go [of p] sz assms(2) body(1) rx_go_weaken [of ?sz p "incPos ?sz p" 1] by simp_all
  have r: "reduces p (incPos ?sz p)" "reduces p (incPos 1 p)" "reduces p ((incPos ?sz p)\<lparr>pendingLowSurrogate := 0\<rparr>)"
    using rx_go_1_reduces [OF _ assms(1)] go by simp_all
  have pend: "reduces p (p\<lparr>pendingLowSurrogate := x\<rparr>)" if "pendingLowSurrogate p = 0" "x \<noteq> 0" for x
    using that by (simp add: reduces_def room_def)
  show ?thesis
    using r pend sz low_surrogate_nonzero assms(2) unfolding scanSourceCharacter_def Let_def
    by (auto simp del: One_nat_def)
qed

lemma scanPatternModifiers_step: "in_body a p \<Longrightarrow> rx_step 0 p (snd (scanPatternModifiers fl p))"
proof (induction fl p rule: scanPatternModifiers.induct)
  case (1 fl p)
  define d where "d = DecodeRune (drop (rx_pos p) (rx_text p))"
  define r where "r = modifier_flag (fst d) (snd d) fl p"
  have r: "rx_step n p (snd r) = rx_step n p p" "rx_step 0 (snd r) q = rx_step 0 p q" "rx_pos (snd r) = rx_pos p"
      "s_end (rx_scanner (snd r)) = s_end (rx_scanner p)" for n q
    by (auto simp: r_def modifier_flag_def split: option.split)
  show ?case
  proof (cases "rx_pos p < rx_end p \<and> fst d \<noteq> RuneError \<and> IsIdentifierPart (fst d)")
    case True
    have sz: "rx_pos p + snd d \<le> s_end (rx_scanner p)"
      using rune_in_body [of "rx_end p" "rx_text p" "rx_pos p"] True 1(2)
      by (auto simp: d_def in_body_def slash_end_def rx_text_def)
    have "rx_step 0 (snd r) (incPos (snd d) (snd r))"
      using incPos_many [of "snd r" "snd d"] sz rx_go_weaken [of "snd d" "snd r" "incPos (snd d) (snd r)" 0] r(3,4)
      by (simp add: rx_step_def)
    then have step: "rx_step 0 p (incPos (snd d) (snd r))" unfolding r(2) .
    have "rx_step 0 (incPos (snd d) (snd r)) (snd (scanPatternModifiers (fst r) (incPos (snd d) (snd r))))"
      using 1(1) [OF d_def _ _ r_def] True rx_step_in_body [OF step 1(2)] by simp
    then show ?thesis using True rx_step_1_0(3) [OF step]
      by (subst scanPatternModifiers.simps) (simp add: Let_def d_def [symmetric] r_def [symmetric])
  next
    case False
    then show ?thesis by (subst scanPatternModifiers.simps) (auto simp: Let_def d_def [symmetric])
  qed
qed


text \<open>The assertions on the byte before the position.\<close>

definition behind :: "char \<Rightarrow> regExpParser \<Rightarrow> bool" where
  "behind c p \<longleftrightarrow> 0 < rx_pos p \<and> rx_text p ! (rx_pos p - 1) = c"

lemma assert_after_behind [simp]: "behind c p \<Longrightarrow> assert_after c p = p"
  by (simp add: behind_def assert_after_def rx_assert_def)

lemma behind_incPos: "rx_char p = rune_of c \<Longrightarrow> behind c (incPos 1 p)"
  using rx_char_text [of p c] by (simp add: behind_def)

lemma behind_simps [simp]: "behind c (p\<lparr>mayContainStrings := b\<rparr>) = behind c p"
  by (simp add: behind_def)

lemma decPos_incPos [simp]: "decPos (incPos (Suc 0) p) = p" "decPos (incPos 1 p) = p"
  by (simp_all add: decPos_def incPos_def on_scanner_def)

lemma incPos_decPos: "0 < rx_pos p \<Longrightarrow> incPos 1 (decPos p) = p"
  by (simp add: decPos_def incPos_def on_scanner_def rx_pos_def)

lemma define_group_step [simp]: "rx_step n p (define_group name q) = rx_step n p q"
  by (auto simp: define_group_def Let_def rx_step_def rx_go_def modes_def rx_pos_def rx_errorWith_def on_scanner_def
      unstart_def stays_def scan_moves_def same_input_def errorAtWith_def split: list.split)

lemma scanGroupName_step:
  assumes "behind (CHR ''<'') p"
  shows "rx_step 0 p (scanGroupName b p)"
proof -
  define r where "r = scanIdentifier 0 identifierVariantRegExpGroupName ((rx_scanner p)\<lparr>s_tokenStart := rx_pos p\<rparr>)"
  let ?p = "p\<lparr>rx_scanner := (rx_scanner p)\<lparr>s_tokenStart := rx_pos p\<rparr>\<rparr>"
  have m: "stays (rx_scanner ?p) (snd r)" unfolding r_def by (simp add: stays_scanIdentifier)
  then have "rx_go 0 ?p (p\<lparr>rx_scanner := snd r\<rparr>)"
    using rx_go_scanner [OF m, of 0] scan_moves_le [OF stays_moves [OF m]] by (simp add: rx_pos_def)
  then have "rx_step 0 p (p\<lparr>rx_scanner := snd r\<rparr>)"
    using rx_go_1_0(3) [of p ?p "p\<lparr>rx_scanner := snd r\<rparr>"] rx_go_simps(2) [where n = 0 and p = p and q = p and k = "rx_pos p"]
    by (simp add: rx_step_def)
  then show ?thesis
    using assms unfolding scanGroupName_def by (simp add: Let_def r_def [symmetric])
qed

lemma scanDecimalEscape_step:
  assumes "in_body a p" "behind (CHR 0x5C) p"
  shows "rx_step 0 p (snd (scanDecimalEscape p))" "\<not> fst (scanDecimalEscape p) \<Longrightarrow> snd (scanDecimalEscape p) = p"
  using regExp_scanDigits_step [OF assms(1)] assms(2) by (auto simp: scanDecimalEscape_def Let_def)

lemma scanCharacterEscape_step:
  assumes "in_body a p" "behind (CHR 0x5C) p"
  shows "rx_step 0 p (snd (scanCharacterEscape b p))"
proof -
  define r where "r = scanEscapeSequence (escape_flags b (decPos p)) (rx_scanner (decPos p))"
  have adv: "advance 1 (rx_scanner (decPos p)) = rx_scanner p" and lt: "s_pos (rx_scanner (decPos p)) < s_end (rx_scanner (decPos p))"
    using assms by (auto simp: decPos_def behind_def in_body_def rx_pos_def)
  have "stays (rx_scanner p) (snd r)" using stays_scanEscapeSequence [OF lt] unfolding r_def adv .
  then have "rx_go 0 p (p\<lparr>rx_scanner := snd r\<rparr>)"
    using scan_moves_le [OF stays_moves] by (intro rx_go_scanner) (auto simp: rx_pos_def)
  then have esc: "rx_step 0 p ((decPos p)\<lparr>rx_scanner := snd r\<rparr>)"
    by (simp add: rx_step_def decPos_def on_scanner_def)
  have one: "rx_char p = c \<Longrightarrow> 0 \<le> c \<Longrightarrow> rx_step 0 p (incPos 1 p)" for c
    using rx_step_1_0(4) [OF incPos_step] .
  have two: "rx_char p = 0x63 \<Longrightarrow> IsASCIILetter (rx_char (incPos 1 p)) \<Longrightarrow> rx_step 0 p (incPos 1 (incPos 1 p))"
    by (rule rx_step_1_0(3) [OF one rx_step_1_0(4) [OF incPos_step]]) (auto simp: IsASCIILetter_def)
  show ?thesis
    using assms(2) esc one two unfolding scanCharacterEscape_def
    by (auto simp: Let_def r_def [symmetric] syntax_characters_def)
qed


text \<open>Where no line terminator follows the backslash, an escape is not empty.\<close>

lemma slc_nonempty: "a < b \<Longrightarrow> a < length t \<Longrightarrow> slc t a b \<noteq> []"
  by (simp add: slc_def)

lemma EncodeJSStringRune_nonempty [simp]: "EncodeJSStringRune r \<noteq> []"
  by (simp add: EncodeJSStringRune_def Let_def)

lemma escape_helpers_nonempty:
  assumes "st < s_pos s" "st < length (s_text s)"
  shows "fst (escape_octal f st ch s) \<noteq> []" "fst (escape_decimal f st ch s) \<noteq> []" "fst (escape_x f st s) \<noteq> []"
    "2 \<le> s_pos s \<Longrightarrow> fst (escape_u f st s) \<noteq> []"
proof -
  let ?t = "skipOctal (if ch \<le> 0x33 then skipOctal s else s)"
  have "st < s_pos ?t" "s_text ?t = s_text s" using assms by (auto simp: skipOctal_def)
  then show "fst (escape_octal f st ch s) \<noteq> []"
    using assms(2) slc_nonempty [of st "s_pos ?t" "s_text s"] by (simp add: escape_octal_def Let_def)
  show "fst (escape_decimal f st ch s) \<noteq> []"
    using slc_nonempty [OF assms] by (simp add: escape_decimal_def Let_def)
  show "fst (escape_x f st s) \<noteq> []"
    using assms slc_nonempty [of st "s_pos (snd (hexEscape_loop n s))" "s_text s" for n]
      scan_moves_le [OF stays_moves [OF stays_hexEscape_loop]] stays_text(1) [OF stays_hexEscape_loop]
    by (auto simp: escape_x_def Let_def intro: le_less_trans less_le_trans)
  assume "2 \<le> s_pos s"
  then have adv: "advance 2 (s\<lparr>s_pos := s_pos s - 2\<rparr>) = s"
    by (simp add: numeral_2_eq_2 Suc_diff_Suc del: One_nat_def)
  define u where "u = scanUnicodeEscape (hasEsc f EscapeFlagsReportInvalidEscapeErrors) (s\<lparr>s_pos := s_pos s - 2\<rparr>)"
  have m: "stays s (snd u)"
    using stays_scanUnicodeEscape [of "s\<lparr>s_pos := s_pos s - 2\<rparr>"] unfolding adv u_def .
  have "slc (s_text s) st (s_pos (snd u)) \<noteq> []"
    using assms scan_moves_le [OF stays_moves [OF m]] by (intro slc_nonempty) auto
  then show "fst (escape_u f st s) \<noteq> []"
    using stays_text(1) [OF m] unfolding escape_u_def Let_def u_def [symmetric]
    by (simp add: escape_combine_def Let_def split: option.split)
qed

lemma scanEscapeSequence_nonempty:
  assumes "s_pos s < s_end s" "s_end s \<le> length (s_text s)" "0 \<le> s_char (advance 1 s)"
    "\<not> IsLineBreak (fst (DecodeRune (drop (s_pos s + 1) (s_text s))))"
  shows "fst (scanEscapeSequence f s) \<noteq> []"
proof -
  define t where "t = advance 1 s"
  have lt: "s_pos t < s_end t" "s_char t = rune_of (s_text t ! s_pos t)" "s_pos t < length (s_text t)"
    using assms by (auto simp: t_def s_char_def split: if_splits)
  have "drop (s_pos t) (s_text t) = s_text t ! s_pos t # drop (Suc (s_pos t)) (s_text t)"
    using lt(3) by (rule Cons_nth_drop_Suc [symmetric])
  then have "s_char t < 0x80 \<Longrightarrow> fst (DecodeRune (drop (s_pos t) (s_text t))) = s_char t"
    using lt(2) by (simp add: DecodeRune_def)
  then have nl: "s_char t \<noteq> 0x0A" "s_char t \<noteq> 0x0D" using assms(4) by (auto simp: t_def IsLineBreak_def)
  have other: "fst (escape_other f st (s_char t) (advance 1 t)) \<noteq> []" for st
    using assms(4) lt(2) by (auto simp: escape_other_def Let_def t_def IsLineBreak_def)
  show ?thesis
    using assms(3) nl other escape_helpers_nonempty [of "s_pos s" "advance 1 t"] assms
    unfolding scanEscapeSequence_def Let_def t_def [symmetric]
    by (auto simp: t_def)
qed


section \<open>Classes of characters and atoms\<close>

lemma rx_step_one: "rx_char p = c \<Longrightarrow> 0 \<le> c \<Longrightarrow> rx_step 0 p (incPos 1 p)"
  using rx_step_1_0(4) [OF incPos_step] .

lemma suggestion_error_step [simp]: "rx_step n p (suggestion_error sg st q) = rx_step n p q"
  by (simp add: suggestion_error_def)

lemma suggestion_error_from [simp]: "rx_step n (suggestion_error sg st p) q = rx_step n p q"
  by (simp add: suggestion_error_def)

lemma suggestion_error_fields [simp]: "rx_char (suggestion_error sg st p) = rx_char p"
  by (simp add: suggestion_error_def)

lemma scan_property_value_step:
  assumes "in_body a p" "rx_char p = 0x3D"
  shows "rx_step 0 p (scan_property_value suggest name st p)"
proof -
  have step: "rx_step 0 p (snd (scanWordCharacters (incPos 1 q)))" if "rx_step 0 p q" "rx_char q = 0x3D" for q
  proof -
    have m: "rx_step 0 p (incPos 1 q)" using rx_step_1_0(3) [OF that(1) rx_step_one [OF that(2)]] by simp
    show ?thesis by (rule rx_step_1_0(3) [OF m scanWordCharacters_step [OF rx_step_in_body [OF m assms(1)]]])
  qed
  show ?thesis unfolding scan_property_value_def Let_def
    using step assms(2) by (simp del: incPos_error split: option.split)
qed

lemma scan_lone_property_step [simp]: "rx_step n p (scan_lone_property suggest b name st q) = rx_step n p q"
  by (simp add: scan_lone_property_def)

lemma scanCharacterClassEscape_step:
  assumes "in_body a p" "behind (CHR 0x5C) p"
  shows "rx_step 0 p (snd (scanCharacterClassEscape suggest p))"
    "\<not> fst (scanCharacterClassEscape suggest p) \<Longrightarrow> snd (scanCharacterClassEscape suggest p) = p"
proof -
  define q where "q = snd (scanWordCharacters (incPos 1 (incPos 1 p)))"
  have one: "rx_char p \<in> {0x64, 0x44, 0x73, 0x53, 0x77, 0x57, 0x50, 0x70} \<Longrightarrow> rx_step 0 p (incPos 1 p)"
    using rx_step_one [of p "rx_char p"] by auto
  have q: "rx_step 0 p q" if "rx_char p = 0x50 \<or> rx_char p = 0x70" "rx_char (incPos 1 p) = 0x7B"
  proof -
    have m: "rx_step 0 p (incPos 1 (incPos 1 p))"
      using rx_step_1_0(3) [OF one rx_step_one [OF that(2)]] that(1) by auto
    show ?thesis unfolding q_def
      by (rule rx_step_1_0(3) [OF m scanWordCharacters_step [OF rx_step_in_body [OF m assms(1)]]])
  qed
  have close: "rx_step 0 p r \<Longrightarrow> rx_step 0 p (scanExpectedChar 0x7D r)" for r
    using rx_step_1_0(3) [OF _ scanExpectedChar_step] by simp
  have property_value: "rx_step 0 p q \<Longrightarrow> rx_char q = 0x3D \<Longrightarrow> rx_step 0 p (scan_property_value suggest name st q)" for name st
    using rx_step_1_0(3) [OF _ scan_property_value_step [OF rx_step_in_body [OF _ assms(1)]]] .
  show "rx_step 0 p (snd (scanCharacterClassEscape suggest p))"
    using assms(2) one q close property_value unfolding scanCharacterClassEscape_def
    by (auto simp: Let_def q_def [symmetric] simp del: One_nat_def)
  show "\<not> fst (scanCharacterClassEscape suggest p) \<Longrightarrow> snd (scanCharacterClassEscape suggest p) = p"
    using assms(2) unfolding scanCharacterClassEscape_def by (auto simp: Let_def split: if_splits)
qed


lemma behind_same: "rx_text q = rx_text p \<Longrightarrow> rx_pos q = rx_pos p \<Longrightarrow> behind c q = behind c p"
  by (simp add: behind_def)

lemma scanCharacterEscape_nonempty:
  assumes "in_body a p" "behind (CHR 0x5C) p" "a < rx_pos p"
  shows "fst (scanCharacterEscape b p) \<noteq> []"
proof -
  let ?s = "rx_scanner (decPos p)"
  have s: "s_pos ?s = rx_pos p - 1" "s_end ?s = rx_end p" "s_text ?s = rx_text p" "rx_end p < length (rx_text p)"
    "0 < rx_pos p" "advance 1 ?s = rx_scanner p"
    using assms by (auto simp: decPos_def behind_def in_body_def rx_pos_def rx_text_def slash_end_def)
  have "fst (scanEscapeSequence f ?s) \<noteq> []" if "rx_char p \<noteq> - 1" for f
  proof (rule scanEscapeSequence_nonempty)
    have c: "rx_pos p < rx_end p" "0 \<le> rx_char p"
      using that assms(1) by (auto simp: rx_char_def s_char_def in_body_def rx_pos_def split: if_splits)
    then show "s_pos ?s < s_end ?s" "s_end ?s \<le> length (s_text ?s)" "0 \<le> s_char (advance 1 ?s)"
      using s by (simp_all add: rx_char_def)
    show "\<not> IsLineBreak (fst (DecodeRune (drop (s_pos ?s + 1) (s_text ?s))))"
      using assms c s by (simp add: in_body_def behind_def)
  qed
  then show ?thesis using assms(2) unfolding scanCharacterEscape_def by (simp add: Let_def)
qed

lemma scanAtomEscape_step:
  assumes "in_body a p" "behind (CHR 0x5C) p" "a < rx_pos p"
  shows "rx_step 0 p (scanAtomEscape suggest p)"
proof -
  have one: "rx_char p = c \<Longrightarrow> 0 \<le> c \<Longrightarrow> rx_step 0 p (incPos 1 p)" for c by (rule rx_step_one)
  have reference: "rx_step 0 p (scanExpectedChar 0x3E (scanGroupName True (incPos 1 (incPos 1 p))))"
    if "rx_char p = 0x6B" "rx_char (incPos 1 p) = 0x3C"
  proof -
    have "behind (CHR ''<'') (incPos 1 (incPos 1 p))" by (rule behind_incPos) (use that(2) in simp)
    then have "rx_step 0 (incPos 1 (incPos 1 p)) (scanExpectedChar 0x3E (scanGroupName True (incPos 1 (incPos 1 p))))"
      by (intro rx_step_1_0(3) [OF scanGroupName_step scanExpectedChar_step]) simp_all
    moreover have "rx_step 0 p (incPos 1 (incPos 1 p))"
      using rx_step_1_0(3) [OF one rx_step_one] that by simp
    ultimately show ?thesis using rx_step_1_0(3) by blast
  qed
  have escape: "rx_step 0 p (snd (scanCharacterEscape True p))" "fst (scanCharacterEscape True p) \<noteq> []"
    using scanCharacterEscape_step [OF assms(1,2)] scanCharacterEscape_nonempty [OF assms] by auto
  note cls = scanCharacterClassEscape_step [OF assms(1,2), of suggest]
  note decimal = scanDecimalEscape_step [OF assms(1,2)]
  show ?thesis
    using assms(2) one reference escape cls decimal
    unfolding scanAtomEscape_def by (auto simp: Let_def rx_assert_def)
qed

lemma behind_backslash: "rx_char p = 0x5C \<Longrightarrow> behind (CHR 0x5C) (incPos 1 p)"
  by (rule behind_incPos) simp

lemma scanClassAtom_reduces:
  assumes "in_body a p" "rx_pos p < rx_end p"
  shows "reduces p (snd (scanClassAtom suggest p))"
proof (cases "rx_char p = 0x5C")
  case True
  let ?p = "incPos 1 p"
  have m: "rx_step 1 p ?p" using incPos_step [OF True] by simp
  have b: "in_body a ?p" "behind (CHR 0x5C) ?p" using rx_step_in_body [OF m assms(1)] behind_backslash [OF True] by auto
  have "rx_step 0 ?p (snd (scanClassAtom suggest p))"
    using True rx_step_one [of ?p] scanCharacterClassEscape_step [OF b, of suggest] scanCharacterEscape_step [OF b, of False]
    unfolding scanClassAtom_def by (auto simp: Let_def)
  with m have "rx_step 1 p (snd (scanClassAtom suggest p))" by (rule rx_step_1_0(1))
  then show ?thesis by (rule rx_step_1_reduces) (rule assms)
next
  case False
  then show ?thesis using scanSourceCharacter_reduces [OF assms] by (simp add: scanClassAtom_def)
qed

lemma class_range_reduces:
  assumes "in_body a p" "rx_pos p < rx_end p"
  shows "reduces p (class_range m st suggest p)"
proof -
  define q where "q = (if m = [] \<and> anyUnicodeModeOrNonAnnexB p
    then rx_errorWith A_character_class_range_must_not_be_bounded_by_another_character_class
      (int st) (int (rx_pos p) - 1 - int st) [] p else p)"
  have q: "in_body a q" "rx_pos q < rx_end q" "reduces q r = reduces p r" for r
    using assms by (simp_all add: q_def)
  have "reduces p (snd (scanClassAtom suggest q))"
    using scanClassAtom_reduces [OF q(1,2), of suggest] unfolding q(3) .
  then show ?thesis unfolding class_range_def rx_error_eq q_def [symmetric] by (simp add: Let_def)
qed

lemma class_step_reduces:
  assumes "in_body a p"
  shows "rx_go 0 p (snd (class_step suggest p))" "fst (class_step suggest p) \<Longrightarrow> reduces p (snd (class_step suggest p))"
proof -
  define q where "q = snd (scanClassAtom suggest p)"
  have q: "reduces p q" if "\<not> isClassContentExit (rx_char p) p"
    using scanClassAtom_reduces [OF assms] that by (simp add: isClassContentExit_def q_def)
  have minus: "reduces p (incPos 1 q)" if "reduces p q" "rx_char q = 0x2D"
    using reduces_step [OF that(1) rx_step_one] that by simp
  have range: "reduces p (class_range m st suggest (incPos 1 q))"
    if "reduces p (incPos 1 q)" "\<not> isClassContentExit (rx_char (incPos 1 q)) (incPos 1 q)" for m st
    by (rule reduces_trans [OF that(1) class_range_reduces [OF reduces_in_body [OF that(1) assms]]])
       (use that(2) in \<open>auto simp: isClassContentExit_def\<close>)
  show "rx_go 0 p (snd (class_step suggest p))"
    using q minus range reduces_go unfolding class_step_def by (auto simp: Let_def q_def [symmetric])
  show "fst (class_step suggest p) \<Longrightarrow> reduces p (snd (class_step suggest p))"
    using q minus range unfolding class_step_def by (auto simp: Let_def q_def [symmetric] split: if_splits)
qed

lemma classRanges_loop_returns:
  "in_body a p \<Longrightarrow> room p < fuel \<Longrightarrow> \<exists>q. classRanges_loop fuel suggest p = Some q \<and> rx_go 0 p q"
proof (induction fuel arbitrary: p)
  case (Suc fuel)
  note step = class_step_reduces [OF Suc(2), of suggest]
  show ?case
  proof (cases "rx_pos p < rx_end p \<and> fst (class_step suggest p)")
    case True
    then have r: "reduces p (snd (class_step suggest p))" using step(2) by simp
    then obtain q where "classRanges_loop fuel suggest (snd (class_step suggest p)) = Some q"
        "rx_go 0 (snd (class_step suggest p)) q"
      using Suc.IH [OF reduces_in_body [OF r Suc(2)]] Suc(3) by (auto simp: reduces_def)
    then show ?thesis using True rx_go_1_0(3) [OF step(1)] by (simp add: Let_def)
  next
    case False
    then show ?thesis using step(1) by (auto simp: Let_def)
  qed
qed simp

lemma scanClassRanges_returns:
  assumes "in_body a p" "behind (CHR ''['') p" "2 * (rx_end p - rx_pos p) + 1 < fuel"
  shows "\<exists>q. scanClassRanges fuel suggest p = Some q \<and> rx_go 0 p q"
proof -
  let ?p = "p\<lparr>pendingLowSurrogate := 0\<rparr>"
  let ?q = "if rx_char ?p = 0x5E then incPos 1 ?p else ?p"
  have go: "rx_go 0 p ?q" using rx_go_1_0(4) [OF incPos_char [of ?p 94]] by simp
  then have "in_body a ?q" "room ?q < fuel" using rx_go_in_body assms by (auto simp: room_def)
  then show ?thesis using classRanges_loop_returns [of a ?q fuel suggest] rx_go_1_0(3) [OF go] assms(2)
    by (auto simp: scanClassRanges_def Let_def)
qed


section \<open>Classes with the v flag\<close>

lemma scanClassSetCharacter_reduces:
  assumes "in_body a p" "rx_pos p < rx_end p"
  shows "reduces p (snd (scanClassSetCharacter p))"
proof -
  have one: "reduces p (incPos 1 q)" if "rx_go 0 p q" "rx_pos q < rx_end q" for q
    using rx_go_1_0(2) [OF that(1) incPos_go] rx_go_1_reduces [OF _ assms(1)] rx_go_in_body [OF that(1) assms(1)] that(2)
    by (simp add: in_body_def)
  have p1: "reduces p (incPos 1 p)" using one assms by simp
  have p2: "reduces p (incPos 2 p)" if "rx_pos p + 1 < rx_end p"
    using incPos_many [of p 2] rx_go_weaken [of 2 p _ 1] rx_go_1_reduces [OF _ assms(1)] assms(1) that by (simp add: in_body_def)
  have esc: "reduces p (snd (scanCharacterEscape False (incPos 1 p)))" if "rx_char p = 0x5C"
    by (rule reduces_step [OF p1 scanCharacterEscape_step [OF reduces_in_body [OF p1 assms(1)] behind_backslash [OF that]]])
  have two: "reduces p (incPos 1 (incPos 1 p))" if "rx_char (incPos 1 p) = c" "0 \<le> c" for c
    using reduces_step [OF p1 rx_step_one [OF that]] .
  have punct: "c \<in> set reserved_punctuators \<Longrightarrow> 0 \<le> c" for c by (auto simp: reserved_punctuators_def)
  show ?thesis
    using esc two [OF refl] two [of 98] punct p1 p2 scanSourceCharacter_reduces [OF assms] unfolding scanClassSetCharacter_def
    by (simp add: Let_def del: One_nat_def)
qed


lemma classStrings_loop_returns:
  "in_body a p \<Longrightarrow> room p < fuel \<Longrightarrow> \<exists>q. classStrings_loop fuel n p = Some q \<and> rx_go 0 p q"
proof (induction fuel arbitrary: p n)
  case (Suc fuel)
  have IH: "\<exists>q. classStrings_loop fuel k r = Some q \<and> rx_go 0 p q" if "reduces p r" for k r
    using Suc.IH [of r k] reduces_in_body [OF that Suc(2)] that Suc(3) rx_go_1_0(3) [OF reduces_go [OF that]]
    by (auto simp: reduces_def)
  have may: "reduces p (incPos 1 (may_be_string n p))" if "rx_char p = 0x7C"
    using rx_step_1_reduces [OF incPos_step, of "may_be_string n p" 124 a] that Suc(2)
    by (cases "n = 1") (simp_all add: may_be_string_def)
  show ?case
    using IH [OF may] IH [OF scanClassSetCharacter_reduces [OF Suc(2)]] by (auto simp: may_be_string_def)
qed simp

lemma sub_operator_step: "rx_step 0 p (sub_operator t p)"
proof -
  have one: "rx_step 0 p (incPos 1 q)" if "rx_step 0 p q" "rx_char q = c" "0 \<le> c" for c q
    using rx_step_1_0(3) [OF that(1) rx_step_one [OF that(2,3)]] .
  note two = one [OF one [OF rx_step_refl]] and three = one [OF one [OF one [OF rx_step_refl]]]
  show ?thesis
    using one [of p 45] one [of p 38] one [of "incPos 1 p" 45] one [of "incPos 1 p" 38] one [of "incPos 1 (incPos 1 p)" 38]
    unfolding sub_operator_def by (auto simp: Let_def simp del: One_nat_def)
qed

lemma set_start_step_reduces:
  assumes "in_body a p" "rx_pos p < rx_end p"
  shows "set_start_step b s st operand p = SetReturn q \<Longrightarrow> rx_go 0 p q"
    "set_start_step b s st operand p = SetContinue st' operand' q \<Longrightarrow> reduces p q"
    "set_start_step b s st operand p = SetRange q \<Longrightarrow> reduces p q \<and> rx_pos q < rx_end q"
    "set_start_step b s st operand p = SetOperand q \<Longrightarrow> q = p"
proof -
  have p1: "reduces p (incPos 1 p)" "rx_go 0 p (incPos 1 p)" if "rx_char p = c" "0 \<le> c" for c
    using rx_step_1_reduces [OF incPos_step [OF that] assms(1)] by (auto simp: reduces_def)
  have step: "reduces p (incPos 1 q)" if "reduces p q" "rx_char q = c" "0 \<le> c" for q c
    using reduces_step [OF that(1) rx_step_one [OF that(2,3)]] .
  have p2: "reduces p (incPos 2 p)" if "rx_pos p + 1 < rx_end p"
    using incPos_many [of p 2] rx_go_weaken [of 2 p _ 1] rx_go_1_reduces [OF _ assms(1)] assms(1) that by (simp add: in_body_def)
  show "set_start_step b s st operand p = SetReturn q \<Longrightarrow> rx_go 0 p q"
    using p1(2) [of 45] by (auto simp: set_start_step_def Let_def finish_class_def split: if_splits)
  show "set_start_step b s st operand p = SetContinue st' operand' q \<Longrightarrow> reduces p q"
    using step [OF p1(1) [of 45], of 45] p2 step [of "incPos 2 p" 38]
    by (auto simp: set_start_step_def Let_def split: if_splits simp del: One_nat_def)
  show "set_start_step b s st operand p = SetRange q \<Longrightarrow> reduces p q \<and> rx_pos q < rx_end q"
    using p1(1) [of 45] by (auto simp: set_start_step_def Let_def isClassContentExit_def split: if_splits)
  show "set_start_step b s st operand p = SetOperand q \<Longrightarrow> q = p"
    by (auto simp: set_start_step_def Let_def split: if_splits)
qed


lemma finish_class_go [simp]: "rx_go n p (finish_class b s q) = rx_go n p q" "room (finish_class b s q) = room q"
  "in_body a (finish_class b s q) = in_body a q"
  by (simp_all add: finish_class_def)

lemma complement_error_go [simp]: "rx_go n p (complement_error b st q) = rx_go n p q"
  "room (complement_error b st q) = room q" "in_body a (complement_error b st q) = in_body a q"
  "reduces p (complement_error b st q) = reduces p q"
  by (simp_all add: complement_error_def)

lemma set_range_go [simp]: "rx_go n p (set_range o1 st o2 st2 q) = rx_go n p q" "room (set_range o1 st o2 st2 q) = room q"
  "in_body a (set_range o1 st o2 st2 q) = in_body a q" "reduces p (set_range o1 st o2 st2 q) = reduces p q"
  by (simp_all add: set_range_def)

end
