(* ===== verification/RegExpCheck.thy ===== *)
theory RegExpCheck
  imports RegExpRun
begin

text \<open>
  The recursive methods of the checker of regular expressions return when the fuel exceeds a multiple
  of the length of the body, and \<open>ReScanSlashToken\<close> is safe.
\<close>

section \<open>Classes with the v flag\<close>

text \<open>The fuel that a call needs, and what it assumes of the state.\<close>

fun class_weight :: "class_call \<Rightarrow> nat" where
  "class_weight ClassExpression = 4"
| "class_weight (ClassSub _ _) = 2"
| "class_weight ClassOperand = 1"
| "class_weight (ClassLoop _ _ _ _) = 3"
| "class_weight (ClassTail _ _) = 2"

definition class_pre :: "nat \<Rightarrow> nat \<Rightarrow> class_call \<Rightarrow> regExpParser \<Rightarrow> bool" where
  "class_pre a fuel call p \<longleftrightarrow> in_body a p \<and> 5 * room p + class_weight call < fuel
    \<and> (call = ClassExpression \<longrightarrow> behind (CHR ''['') p) \<and> (call = ClassOperand \<longrightarrow> rx_pos p < rx_end p)"

definition class_returns :: "class_call \<Rightarrow> regExpParser \<Rightarrow> (string \<times> regExpParser) option \<Rightarrow> bool" where
  "class_returns call p r \<longleftrightarrow> (\<exists>v q. r = Some (v, q) \<and> rx_go 0 p q \<and> (call = ClassOperand \<longrightarrow> reduces p q))"

definition class_ok :: "nat \<Rightarrow> nat \<Rightarrow> class_scanner \<Rightarrow> bool" where
  "class_ok a fuel scan \<longleftrightarrow> (\<forall>call p. class_pre a fuel call p \<longrightarrow> class_returns call p (scan call p))"

lemma class_ok_step:
  assumes "class_ok a fuel scan" "class_pre a (Suc fuel) call p" "rx_go 0 p q"
    "reduces p q \<or> room q = room p \<and> class_weight call' < class_weight call"
    "call' = ClassExpression \<Longrightarrow> behind (CHR ''['') q" "call' = ClassOperand \<Longrightarrow> rx_pos q < rx_end q"
  shows "\<exists>v r. scan call' q = Some (v, r) \<and> rx_go 0 p r \<and> rx_go 0 q r \<and> (call' = ClassOperand \<longrightarrow> reduces q r \<and> reduces p r)"
proof -
  have w: "class_weight call' \<le> 4" by (cases call') simp_all
  have b: "in_body a q" using rx_go_in_body [OF assms(3)] assms(2) by (simp add: class_pre_def)
  have "class_pre a fuel call' q"
    using assms(2,4-6) b w by (auto simp: class_pre_def reduces_def)
  then obtain v r where r: "scan call' q = Some (v, r)" "rx_go 0 q r" "call' = ClassOperand \<longrightarrow> reduces q r"
    using assms(1) unfolding class_ok_def class_returns_def by blast
  have "reduces p r" if "reduces q r"
    using that assms(4) rx_go_1_0(3) [OF assms(3) r(2)] by (auto simp: reduces_def)
  then show ?thesis using r rx_go_1_0(3) [OF assms(3) r(2)] by blast
qed

lemma reduces_close:
  assumes "rx_go 1 p q" "rx_go 0 q r" "in_body a p" "0 \<le> ch"
  shows "reduces p (scanExpectedChar ch r)"
proof -
  have "reduces p r" using rx_go_1_reduces [OF rx_go_1_0(1) [OF assms(1,2)] assms(3)] .
  then show ?thesis using scanExpectedChar_step [OF assms(4)] by (rule reduces_step)
qed

lemma scanClassSetOperand_ok:
  assumes "class_ok a fuel scan" "class_pre a (Suc fuel) ClassOperand p0"
  shows "class_returns ClassOperand p0 (scanClassSetOperand fuel suggest scan p0)"
proof -
  define p where "p = p0\<lparr>mayContainStrings := False\<rparr>"
  have pre: "in_body a p" "rx_pos p < rx_end p" "5 * room p + 1 < Suc fuel" "class_pre a (Suc fuel) ClassOperand p"
    and same: "reduces p0 q = reduces p q" "rx_go 0 p0 q = rx_go 0 p q" for q
    using assms(2) by (simp_all add: p_def class_pre_def)
  let ?q = "incPos 1 p"
  have q: "rx_go 1 p ?q" "rx_go 0 p ?q" "reduces p ?q" "in_body a ?q"
  proof -
    show go: "rx_go 1 p ?q" using incPos_go pre by (simp add: in_body_def)
    show "rx_go 0 p ?q" "reduces p ?q" "in_body a ?q"
      using rx_go_1_0(4) [OF go] rx_go_1_reduces [OF go pre(1)] rx_go_in_body [OF go pre(1)] by simp_all
  qed
  have inner: "\<exists>v r. scan ClassExpression ?q = Some (v, r) \<and> reduces p (scanExpectedChar 0x5D r)" if "rx_char p = 0x5B"
  proof -
    have "behind (CHR ''['') ?q" by (rule behind_incPos) (use that in simp)
    then obtain v r where "scan ClassExpression ?q = Some (v, r)" "rx_go 0 ?q r"
      using class_ok_step [OF assms(1) pre(4) q(2) disjI1 [OF q(3)], of ClassExpression] by auto
    then show ?thesis using reduces_close [OF q(1) _ pre(1)] by simp
  qed
  have escape: "reduces p (snd (scanCharacterClassEscape suggest ?q))"
    "\<not> fst (scanCharacterClassEscape suggest ?q) \<Longrightarrow> snd (scanCharacterClassEscape suggest ?q) = ?q" if "rx_char p = 0x5C"
    using scanCharacterClassEscape_step [OF q(4) behind_backslash [OF that], of suggest] reduces_step [OF q(3)] by auto
  have strings: "\<exists>r. scanClassStringDisjunctionContents fuel (incPos 1 (incPos 1 ?q)) = Some r
      \<and> reduces p (scanExpectedChar 0x7D r)" if "rx_char ?q = 0x71" "rx_char (incPos 1 ?q) = 0x7B"
  proof -
    let ?r = "incPos 1 (incPos 1 ?q)"
    have "rx_step 0 ?q ?r" using rx_step_1_0(3) [OF rx_step_one [OF that(1)] rx_step_one [OF that(2)]] by simp
    then have r: "rx_go 1 p ?r" using rx_go_1_0(1) [OF q(1)] by (simp add: rx_step_def)
    have "behind (CHR ''{'') ?r" by (rule behind_incPos) (use that(2) in simp)
    moreover have "room ?r < fuel" using rx_go_1_reduces [OF r pre(1)] pre(3) by (simp add: reduces_def)
    ultimately show ?thesis
      using classStrings_loop_returns [OF rx_go_in_body [OF r pre(1)], of fuel 0] reduces_close [OF r _ pre(1)]
      by (auto simp: scanClassStringDisjunctionContents_def)
  qed
  have q2: "reduces p (incPos 1 ?q)" if "rx_char ?q = 0x71"
    using reduces_step [OF q(3) rx_step_one [OF that]] by simp
  have char: "\<exists>v q. scanClassSetCharacter p = (v, q) \<and> rx_go 0 p q \<and> reduces p q"
    using scanClassSetCharacter_reduces [OF pre(1,2)] reduces_go by (cases "scanClassSetCharacter p") auto
  show ?thesis
    using inner escape strings q2 char reduces_go
    unfolding scanClassSetOperand_def class_returns_def Let_def p_def [symmetric] same
    by (auto simp del: One_nat_def)
qed

lemma class_go_trans: "rx_go 0 p q \<Longrightarrow> rx_go 0 q r \<Longrightarrow> rx_go 0 p r"
  by (rule rx_go_1_0(3))

lemma scanClassSetSubExpression_ok:
  assumes "class_ok a fuel scan" "class_pre a (Suc fuel) (ClassSub t s) p"
  shows "class_returns (ClassSub t s) p (scanClassSetSubExpression scan t s p)"
proof (cases "isClassContentExit (rx_char (sub_operator t p)) (sub_operator t p) \<or> \<not> rx_pos p < rx_end p \<or> isClassContentExit (rx_char p) p")
  case True
  then show ?thesis using sub_operator_step [of p t]
    by (auto simp: scanClassSetSubExpression_def class_returns_def Let_def rx_step_def)
next
  case False
  let ?q = "sub_operator t p"
  have q: "rx_go 0 p ?q" "room ?q \<le> room p" using sub_operator_step [of p t] rx_step_room by (auto simp: rx_step_def)
  then have c: "reduces p ?q \<or> room ?q = room p \<and> class_weight ClassOperand < class_weight (ClassSub t s)"
    by (auto simp: reduces_def)
  obtain v r where r: "scan ClassOperand ?q = Some (v, r)" "rx_go 0 p r" "reduces p r"
    using class_ok_step [OF assms q(1) c] False by (auto simp: isClassContentExit_def)
  let ?s = "if t = classSetExpressionTypeClassIntersection then s \<and> mayContainStrings r else s"
  obtain v' r' where "scan (ClassSub t ?s) r = Some (v', r')"
      "rx_go 0 p r'"
    using class_ok_step [OF assms r(2) disjI1 [OF r(3)], of "ClassSub t ?s"] by auto
  then show ?thesis using r(1) False
    by (simp add: scanClassSetSubExpression_def class_returns_def Let_def)
qed


lemma class_ok_Loop:
  assumes "class_ok a fuel scan" "class_pre a (Suc fuel) call p" "rx_go 0 p q"
    "reduces p q \<or> room q = room p \<and> call = ClassExpression" "call' \<noteq> ClassOperand"
  shows "class_returns call' p (scan (ClassLoop b s st operand) q)"
  using class_ok_step [OF assms(1-3), of "ClassLoop b s st operand"] assms(4,5) by (auto simp: class_returns_def)

lemma class_ok_Tail:
  assumes "class_ok a fuel scan" "class_pre a (Suc fuel) call p" "rx_go 0 p q"
    "reduces p q \<or> room q = room p \<and> class_weight call = 3" "call' \<noteq> ClassOperand"
  shows "class_returns call' p (scan (ClassTail b s) q)"
  using class_ok_step [OF assms(1-3), of "ClassTail b s"] assms(4,5) by (auto simp: class_returns_def)

lemma classSet_loop_ok:
  assumes "class_ok a fuel scan" "class_pre a (Suc fuel) (ClassLoop b s st operand) p"
  shows "class_returns (ClassLoop b s st operand) p (classSet_loop scan b s st operand p)"
proof (cases "rx_pos p < rx_end p")
  case True
  have b: "in_body a p" using assms(2) by (simp add: class_pre_def)
  note step = set_start_step_reduces [OF b True, of b s st operand]
  show ?thesis
  proof (cases "set_start_step b s st operand p")
    case (SetReturn q)
    then show ?thesis using True step(1) by (simp add: classSet_loop_def class_returns_def)
  next
    case (SetContinue st' operand' q)
    then show ?thesis using True step(2) class_ok_Loop [OF assms] reduces_go by (simp add: classSet_loop_def)
  next
    case (SetRange q)
    then have q: "reduces p q" "rx_pos q < rx_end q" using step(3) by auto
    then obtain v r where r: "scan ClassOperand q = Some (v, r)" "rx_go 0 p r" "reduces p r"
      using class_ok_step [OF assms reduces_go [OF q(1)], of ClassOperand] by auto
    then show ?thesis using True SetRange class_ok_Tail [OF assms] by (simp add: classSet_loop_def Let_def)
  next
    case (SetOperand q)
    then show ?thesis using True step(4) class_ok_Tail [OF assms rx_go_refl] by (simp add: classSet_loop_def)
  qed
next
  case False
  then show ?thesis by (simp add: classSet_loop_def class_returns_def)
qed

lemma classSet_tail_ok:
  assumes "class_ok a fuel scan" "class_pre a (Suc fuel) (ClassTail b s) p"
  shows "class_returns (ClassTail b s) p (classSet_tail scan b s p)"
proof (cases "isClassContentExit (rx_char p) p")
  case True
  then show ?thesis by (simp add: classSet_tail_def class_returns_def)
next
  case False
  then have lt: "rx_pos p < rx_end p" by (simp add: isClassContentExit_def)
  have b: "in_body a p" using assms(2) by (simp add: class_pre_def)
  have two: "reduces p (incPos 2 p)" if "two_chars p \<noteq> []"
    using incPos_many [of p 2] rx_go_weaken [of 2 p _ 1] rx_go_1_reduces [OF _ b] b that
    by (simp add: in_body_def two_chars_def split: if_splits)
  obtain v r where r: "scan ClassOperand p = Some (v, r)" "rx_go 0 p r" "reduces p r"
    using class_ok_step [OF assms rx_go_refl, of ClassOperand] lt by auto
  show ?thesis
    using False two reduces_go [OF two] r class_ok_Loop [OF assms]
    by (auto simp: classSet_tail_def Let_def)
qed

lemma scanClassSetExpression_ok:
  assumes "class_ok a fuel scan" "class_pre a (Suc fuel) ClassExpression p0"
  shows "class_returns ClassExpression p0 (scanClassSetExpression scan p0)"
proof -
  have b: "in_body a p0" "assert_after (CHR ''['') p0 = p0" using assms(2) by (simp_all add: class_pre_def)
  define p where "p = (if rx_char p0 = 0x5E then incPos 1 p0 else p0)"
  have p: "rx_go 0 p0 p" "reduces p0 p \<or> room p = room p0"
    using rx_step_one [of p0 94] rx_step_1_reduces [OF incPos_step b(1), of 94] by (auto simp: p_def rx_step_def)
  define start where "start = (if two_chars p = ''--'' \<or> two_chars p = ''&&''
                 then Some ([], (rx_error Expected_a_class_set_operand (int (rx_pos p)) 0 p)\<lparr>mayContainStrings := False\<rparr>)
                 else scan ClassOperand p)"
  have start: "\<exists>v q. start = Some (v, q) \<and> rx_go 0 p0 q \<and> (reduces p0 q \<or> room q = room p0)"
    if "\<not> isClassContentExit (rx_char p) p"
    using class_ok_step [OF assms p(1), of ClassOperand] p that by (auto simp: start_def isClassContentExit_def)
  have sub: "\<exists>v r. scan (ClassSub t s) q = Some (v, r) \<and> rx_go 0 p0 r"
    if "rx_go 0 p0 q" "reduces p0 q \<or> room q = room p0" for t s q
    using class_ok_step [OF assms that(1), of "ClassSub t s"] that(2) by auto
  have loop: "class_returns ClassExpression p0 (scan (ClassLoop c s st operand) q)"
    if "rx_go 0 p0 q" "reduces p0 q \<or> room q = room p0" for c s st operand q
    using class_ok_Loop [OF assms that(1)] that(2) by auto
  show ?thesis
  proof (cases "isClassContentExit (rx_char p) p")
    case True
    then show ?thesis using b(2) p(1)
      by (simp add: scanClassSetExpression_def Let_def p_def [symmetric] class_returns_def)
  next
    case False
    then obtain v q where q: "start = Some (v, q)" "rx_go 0 p0 q" "reduces p0 q \<or> room q = room p0" using start by blast
    have c: "rx_go 0 p0 (complement_error cc st q)" "reduces p0 (complement_error cc st q) \<or> room (complement_error cc st q) = room p0"
      for cc st using q by simp_all
    have fin: "class_returns ClassExpression p0 (map_option f (scan (ClassSub t s) q'))"
      if "rx_go 0 p0 q'" "reduces p0 q' \<or> room q' = room p0" "\<And>v r. rx_go 0 p0 r \<Longrightarrow> rx_go 0 p0 (snd (f (v, r)))" for f t s q'
      using sub [OF that(1,2), of t s] that(3) by (auto simp: class_returns_def) (metis prod.collapse)
    show ?thesis
      using False loop [OF q(2,3)] loop [OF c]
      unfolding scanClassSetExpression_def b(2) Let_def p_def [symmetric] start_def [symmetric] q(1)
      by (auto intro!: fin c q(2,3) split: prod.splits)
  qed
qed

lemma class_scan_ok: "class_ok a fuel (class_scan suggest fuel)"
proof (induction fuel)
  case 0
  show ?case by (simp add: class_ok_def class_pre_def)
next
  case (Suc fuel)
  have "class_returns call p (class_scan suggest (Suc fuel) call p)" if pre: "class_pre a (Suc fuel) call p" for call p
  proof (cases call)
    case ClassExpression
    then show ?thesis using scanClassSetExpression_ok [OF Suc] pre by simp
  next
    case (ClassSub t s)
    then show ?thesis using scanClassSetSubExpression_ok [OF Suc] pre by simp
  next
    case ClassOperand
    then show ?thesis using scanClassSetOperand_ok [OF Suc] pre by simp
  next
    case (ClassLoop b s st operand)
    then show ?thesis using classSet_loop_ok [OF Suc] pre by simp
  next
    case (ClassTail b s)
    then show ?thesis using classSet_tail_ok [OF Suc] pre by simp
  qed
  then show ?case by (simp add: class_ok_def)
qed


lemma scan_class_ok:
  assumes "in_body a p" "behind (CHR ''['') p" "5 * room p + 4 < fuel"
  shows "\<exists>q. scan_class fuel suggest p = Some q \<and> rx_go 0 p q"
proof -
  have close: "rx_go 0 p q \<Longrightarrow> rx_go 0 p (scanExpectedChar 0x5D q)" for q
    using class_go_trans [OF _ scanExpectedChar_go] by simp
  have "class_pre a fuel ClassExpression p" using assms by (simp add: class_pre_def)
  then obtain v q where "class_scan suggest fuel ClassExpression p = Some (v, q)" "rx_go 0 p q"
    using class_scan_ok [of a fuel suggest] unfolding class_ok_def class_returns_def by blast
  moreover have "2 * (rx_end p - rx_pos p) + 1 < fuel" using assms(3) by (simp add: room_def split: if_splits)
  then obtain q' where "scanClassRanges fuel suggest p = Some q'" "rx_go 0 p q'"
    using scanClassRanges_returns [OF assms(1,2)] by blast
  ultimately show ?thesis using close by (auto simp: scan_class_def)
qed

section \<open>Alternatives\<close>

definition term_go :: "regExpParser \<Rightarrow> term_step \<Rightarrow> bool" where
  "term_go p t \<longleftrightarrow> (case t of
      TermReturn q \<Rightarrow> rx_go 0 p q | TermNext _ q \<Rightarrow> reduces p q
    | TermGroup _ q \<Rightarrow> rx_go 1 p q | TermClass q \<Rightarrow> rx_go 1 p q \<and> behind (CHR ''['') q)"

lemma term_go_simps [simp]:
  "term_go p (TermReturn q) = rx_go 0 p q" "term_go p (TermNext b q) = reduces p q"
  "term_go p (TermGroup b q) = rx_go 1 p q" "term_go p (TermClass q) = (rx_go 1 p q \<and> behind (CHR ''['') q)"
  by (simp_all add: term_go_def)

lemma scan_quantifier_go:
  assumes "rx_pos p < rx_end p" "in_body a p"
  shows "term_go p (scan_quantifier st b p)"
proof -
  have "rx_go 1 p (incPos 1 p)" using incPos_go assms by (simp add: in_body_def)
  then have "reduces p (incPos 1 p)" using assms(2) by (rule rx_go_1_reduces)
  then show ?thesis
    using reduces_step [OF _ rx_step_one, of p "incPos 1 p" 63] by (simp add: scan_quantifier_def Let_def)
qed

text \<open>The step begins with a brace that is consumed before \<open>p\<close>.\<close>

lemma scan_brace_end_go:
  assumes "rx_go 1 p0 p" "in_body a p0"
  shows "term_go p0 (scan_brace_end st b p)"
proof -
  have b: "in_body a p" by (rule rx_go_in_body [OF assms])
  have pos: "0 < rx_pos p" using assms(1) by (simp add: rx_go_def)
  let ?e = "rx_errorWith X_0_expected (int (rx_pos p)) 0 [''}''] p"
  have restored: "incPos 1 (decPos ?e) = ?e" using pos by (intro incPos_decPos) simp
  have r: "reduces p0 p" by (rule rx_go_1_reduces [OF assms])
  have one: "reduces p0 (incPos 1 p)" if "rx_char p = c" "0 \<le> c" for c
    by (rule reduces_step [OF r rx_step_one [OF that]])
  have two: "reduces p0 (incPos 1 (incPos 1 p))" if "rx_char p = 0x7D" "rx_char (incPos 1 p) = 0x3F"
    using reduces_step [OF one [OF that(1)] rx_step_one [OF that(2)]] by simp
  show ?thesis
    using r one two unfolding scan_brace_end_def scan_quantifier_def restored Let_def
    by (auto simp del: One_nat_def)
qed

lemma scan_brace_go:
  assumes "rx_char p = 0x7B" "in_body a p"
  shows "term_go p (scan_brace st b p)"
proof -
  define q where "q = regExp_scanDigits (incPos 1 p)"
  define r where "r = regExp_scanDigits (incPos 1 q)"
  have m: "rx_go 1 p (incPos 1 p)" using incPos_char [OF assms(1)] by simp
  then have q: "rx_go 1 p q"
    unfolding q_def by (rule rx_go_1_0(1)) (rule regExp_scanDigits_go [OF rx_go_in_body [OF m assms(2)]])
  have r: "rx_go 1 p r" if "rx_char q = 0x2C"
  proof -
    have i: "rx_go 1 p (incPos 1 q)" using rx_go_1_0(1) [OF q rx_go_1_0(4) [OF incPos_char [OF that]]] by simp
    then show ?thesis
      unfolding r_def by (rule rx_go_1_0(1)) (rule regExp_scanDigits_go [OF rx_go_in_body [OF i assms(2)]])
  qed
  note fin = scan_brace_end_go [OF _ assms(2)]
  show ?thesis
    using fin [OF q] fin [OF r] fin [of "rx_errorWith mm pp l args r" for mm pp l args] r
      rx_go_1_reduces [OF q assms(2)] rx_go_1_reduces [OF r assms(2)]
    unfolding scan_brace_def Let_def q_def [symmetric] r_def [symmetric]
    by (simp add: unexpected_brace_def)
qed


lemma scan_named_group_go:
  assumes "behind (CHR ''<'') p" "rx_go 1 p0 p"
  shows "rx_go 1 p0 (scan_named_group st p)"
proof -
  have "rx_step 0 p (scanExpectedChar 0x3E (scanGroupName False p))"
    by (rule rx_step_1_0(3) [OF scanGroupName_step [OF assms(1)] scanExpectedChar_step]) simp
  then have "rx_go 1 p0 (scanExpectedChar 0x3E (scanGroupName False p))"
    using rx_go_1_0(1) [OF assms(2)] by (simp add: rx_step_def)
  then show ?thesis by (simp add: scan_named_group_def Let_def)
qed

lemma scan_modifiers_go:
  assumes "rx_go 1 p0 p" "in_body a p0"
  shows "rx_go 1 p0 (scan_modifiers p)"
proof -
  define q where "q = snd (scanPatternModifiers regularExpressionFlagsNone p)"
  have go: "rx_go 1 p0 (snd (scanPatternModifiers fl r))" if "rx_go 1 p0 r" for fl r
    using rx_go_1_0(1) [OF that] scanPatternModifiers_step [OF rx_go_in_body [OF that assms(2)], of fl]
    by (simp add: rx_step_def)
  have q: "rx_go 1 p0 q" unfolding q_def by (rule go [OF assms(1)])
  have minus: "rx_go 1 p0 (incPos 1 q)" if "rx_char q = 0x2D"
    using rx_go_1_0(1) [OF q rx_go_1_0(4) [OF incPos_char [OF that]]] by simp
  have fin: "rx_go 1 p0 r \<Longrightarrow> rx_go 1 p0 (scanExpectedChar 0x3A r)" for r
    using rx_go_1_0(1) [OF _ scanExpectedChar_go] by simp
  show ?thesis
    using q go [OF minus] unfolding scan_modifiers_def Let_def q_def [symmetric]
    by (auto intro!: fin simp del: One_nat_def)
qed

lemma scan_group_go:
  assumes "rx_char p = 0x28" "in_body a p"
  shows "term_go p (scan_group p)"
proof -
  have p1: "rx_go 1 p (incPos 1 p)" using incPos_char [OF assms(1)] by simp
  have step: "rx_go 1 p (incPos 1 q)" if "rx_go 1 p q" "rx_char q = c" "0 \<le> c" for q c
    using rx_go_1_0(1) [OF that(1) rx_go_1_0(4) [OF incPos_char [OF that(2,3)]]] .
  have p2: "rx_go 1 p (incPos 1 (incPos 1 p))" if "rx_char (incPos 1 p) = 0x3F"
    using step [OF p1 that] by simp
  have named: "rx_go 1 p (scan_named_group st (incPos 1 q))" if "rx_go 1 p q" "rx_char q = 0x3C" for q st
    by (rule scan_named_group_go [OF behind_incPos step [OF that]]) (use that in simp_all)
  show ?thesis
    using p1 p2 step [OF p2, of 61] step [OF p2, of 33] step [OF step [OF p2], of 60 61] step [OF step [OF p2], of 60 33]
      named [OF p2] scan_modifiers_go [OF p2 assms(2)]
    unfolding scan_group_def by (auto simp: Let_def simp del: One_nat_def)
qed

lemma term_step_go:
  assumes "in_body a p" "rx_pos p < rx_end p"
  shows "term_go p (term_step suggest g b p)"
proof -
  have p1: "rx_go 1 p (incPos 1 p)" "reduces p (incPos 1 p)" "in_body a (incPos 1 p)"
  proof -
    show go: "rx_go 1 p (incPos 1 p)" using incPos_go assms by (simp add: in_body_def)
    show "reduces p (incPos 1 p)" "in_body a (incPos 1 p)"
      using rx_go_1_reduces [OF go assms(1)] rx_go_in_body [OF go assms(1)] by simp_all
  qed
  have two: "reduces p (incPos 1 (incPos 1 p))" if "rx_char (incPos 1 p) = c" "0 \<le> c" for c
    using reduces_step [OF p1(2) rx_step_one [OF that]] .
  have atom: "reduces p (scanAtomEscape suggest (incPos 1 p))" if "rx_char p = 0x5C"
    using reduces_step [OF p1(2) scanAtomEscape_step [OF p1(3) behind_backslash [OF that]]] assms(1)
    by (simp add: in_body_def)
  have behind_class: "behind (CHR ''['') (incPos 1 p)" if "rx_char p = 0x5B"
    by (rule behind_incPos) (use that in simp)
  show ?thesis
    using p1 two [of 98] two [of 66] atom behind_class scan_group_go [OF _ assms(1)] scan_brace_go [OF _ assms(1)]
      scan_quantifier_go [OF assms(2,1)] scanSourceCharacter_reduces [OF assms]
    unfolding term_step_def Let_def
    by (simp del: One_nat_def)
qed


fun pattern_weight :: "pattern_call \<Rightarrow> nat" where
  "pattern_weight (Alternative _ _) = 3"
| "pattern_weight (Disjunction _ _) = 4"

definition pattern_pre :: "nat \<Rightarrow> nat \<Rightarrow> pattern_call \<Rightarrow> regExpParser \<Rightarrow> bool" where
  "pattern_pre a fuel call p \<longleftrightarrow> in_body a p \<and> 6 * room p + pattern_weight call < fuel"

definition pattern_returns :: "regExpParser \<Rightarrow> regExpParser option \<Rightarrow> bool" where
  "pattern_returns p r \<longleftrightarrow> (\<exists>q. r = Some q \<and> rx_go 0 p q)"

definition pattern_ok :: "nat \<Rightarrow> nat \<Rightarrow> pattern_scanner \<Rightarrow> bool" where
  "pattern_ok a fuel scan \<longleftrightarrow> (\<forall>call p. pattern_pre a fuel call p \<longrightarrow> pattern_returns p (scan call p))"

lemma pattern_ok_reduces:
  assumes "pattern_ok a fuel scan" "pattern_pre a (Suc fuel) call p" "reduces p q"
  obtains r where "scan call' q = Some r" "rx_go 0 p r" "rx_go 0 q r"
proof -
  have "pattern_weight call' \<le> 4" "3 \<le> pattern_weight call" by (cases call'; simp) (cases call; simp)
  then have "pattern_pre a fuel call' q"
    using assms(2,3) reduces_in_body [OF assms(3)] by (auto simp: pattern_pre_def reduces_def)
  then obtain r where "scan call' q = Some r" "rx_go 0 q r"
    using assms(1) unfolding pattern_ok_def pattern_returns_def by blast
  then show ?thesis using that rx_go_1_0(3) [OF reduces_go [OF assms(3)]] by blast
qed

lemma scanAlternative_ok:
  assumes "pattern_ok a fuel scan" "pattern_pre a (Suc fuel) (Alternative g b) p"
  shows "pattern_returns p (scanAlternative fuel suggest scan g b p)"
proof (cases "rx_pos p < rx_end p")
  case True
  have body: "in_body a p" using assms(2) by (simp add: pattern_pre_def)
  have tail: "pattern_returns p (scan (Alternative g b') q)" if "reduces p q" for b' q
    using pattern_ok_reduces [OF assms that] unfolding pattern_returns_def by metis
  note step = term_step_go [OF body True, of suggest g b]
  show ?thesis
  proof (cases "term_step suggest g b p")
    case (TermReturn q)
    then show ?thesis using True step by (simp add: scanAlternative_def pattern_returns_def)
  next
    case (TermNext b' q)
    then show ?thesis using True step tail by (simp add: scanAlternative_def)
  next
    case (TermGroup b' q)
    then have q: "rx_go 1 p q" using step by simp
    obtain r where r: "scan (Disjunction True []) q = Some r" "rx_go 0 q r"
      using pattern_ok_reduces [OF assms rx_go_1_reduces [OF q body]] by metis
    then show ?thesis using True TermGroup tail reduces_close [OF q r(2) body, of 41] by (simp add: scanAlternative_def)
  next
    case (TermClass q)
    then have q: "rx_go 1 p q" "behind (CHR ''['') q" using step by simp_all
    have "5 * room q + 4 < fuel"
      using rx_go_1_reduces [OF q(1) body] assms(2) by (simp add: reduces_def pattern_pre_def)
    then obtain r where r: "scan_class fuel suggest q = Some r" "rx_go 0 q r"
      using scan_class_ok [OF rx_go_in_body [OF q(1) body] q(2)] by blast
    then show ?thesis using True TermClass tail rx_go_1_reduces [OF rx_go_1_0(1) [OF q(1) r(2)] body]
      by (simp add: scanAlternative_def)
  qed
next
  case False
  then show ?thesis by (simp add: scanAlternative_def pattern_returns_def)
qed

lemma rx_go_scope:
  "rx_go n (p\<lparr>namedCapturingGroups := g\<rparr>) q \<Longrightarrow> length (h q) + length g = length (namedCapturingGroups p) + length (namedCapturingGroups q)
    \<Longrightarrow> rx_go n p (q\<lparr>namedCapturingGroups := h q\<rparr>)"
  by (simp add: rx_go_def modes_def rx_pos_def)

lemma scanDisjunction_ok:
  assumes "pattern_ok a fuel scan" "pattern_pre a (Suc fuel) (Disjunction g names) p"
  shows "pattern_returns p (scanDisjunction scan g names p)"
proof -
  let ?p = "p\<lparr>namedCapturingGroups := [] # namedCapturingGroups p\<rparr>"
  have body: "in_body a p" using assms(2) by (simp add: pattern_pre_def)
  have "room ?p = room p" by (simp add: room_def rx_pos_def)
  then have "pattern_pre a fuel (Alternative g False) ?p" using assms(2) by (simp add: pattern_pre_def)
  then obtain q where q: "scan (Alternative g False) ?p = Some q" "rx_go 0 ?p q"
    using assms(1) unfolding pattern_ok_def pattern_returns_def by blast
  define r where "r = q\<lparr>namedCapturingGroups := tl (namedCapturingGroups q)\<rparr>"
  have len: "length (namedCapturingGroups q) = Suc (length (namedCapturingGroups p))"
    using q(2) by (simp add: rx_go_def)
  have r: "rx_go 0 p r" unfolding r_def by (rule rx_go_scope [OF q(2)]) (simp add: len)
  have scope: "rx_go 0 p (r\<lparr>namedCapturingGroups := s # ss\<rparr>)" if "namedCapturingGroups r = s' # ss" for s s' ss
    using r that by (simp add: rx_go_def modes_def rx_pos_def)
  have alt: "pattern_returns p (scan (Disjunction g ns) (incPos 1 r))" if "rx_char r = 0x7C" for ns
  proof -
    have "rx_go 1 p (incPos 1 r)" using rx_go_1_0(2) [OF r incPos_char [OF that]] by simp
    then show ?thesis using pattern_ok_reduces [OF assms rx_go_1_reduces [OF _ body]] unfolding pattern_returns_def by metis
  qed
  show ?thesis
    using q(1) r alt scope unfolding scanDisjunction_def
    by (auto simp: Let_def r_def [symmetric] pattern_returns_def split: list.split)
qed

lemma pattern_scan_ok: "pattern_ok a fuel (pattern_scan suggest fuel)"
proof (induction fuel)
  case 0
  show ?case by (simp add: pattern_ok_def pattern_pre_def)
next
  case (Suc fuel)
  have "pattern_returns p (pattern_scan suggest (Suc fuel) call p)" if pre: "pattern_pre a (Suc fuel) call p" for call p
    using scanAlternative_ok [OF Suc] scanDisjunction_ok [OF Suc] pre by (cases call) simp_all
  then show ?case by (simp add: pattern_ok_def)
qed

section \<open>The whole literal\<close>

lemma check_references_go [simp]: "rx_go n p (fold (check_reference suggest) rs q) = rx_go n p q"
  by (induction rs arbitrary: q) (simp_all add: check_reference_def Let_def)

lemma check_decimals_go [simp]: "rx_go n p (fold check_decimal ds q) = rx_go n p q"
  by (induction ds arbitrary: q) (simp_all add: check_decimal_def Let_def)

lemma run_returns:
  assumes "in_body a p" "6 * room p + 4 < fuel"
  shows "\<exists>q. run fuel suggest p = Some q \<and> stays (unstart (rx_scanner p)) (unstart (rx_scanner q))"
proof -
  let ?p = "p\<lparr>anyUnicodeModeOrNonAnnexB := anyUnicodeMode p \<or> \<not> annexB p\<rparr>"
  have "pattern_pre a fuel (Disjunction False []) ?p"
    using assms by (simp add: pattern_pre_def in_body_def rx_pos_def rx_text_def room_def slash_end_def)
  then obtain q where "pattern_scan suggest fuel (Disjunction False []) ?p = Some q" "rx_go 0 ?p q"
    using pattern_scan_ok [of a fuel suggest] unfolding pattern_ok_def pattern_returns_def by blast
  then have "\<exists>r. run fuel suggest p = Some r \<and> rx_go 0 ?p r" by (simp add: run_def Let_def)
  then show ?thesis by (auto simp: rx_go_def)
qed

end
