(* ===== verification/RegExpLiteral.thy ===== *)
theory RegExpLiteral
  imports RegExpCheck
begin

text \<open>
  Regular expression literals as a whole: where the body ends, that the check of the body returns,
  does not panic and changes nothing but the errors.
\<close>

section \<open>The body\<close>

lemma body_end_step:
  assumes "\<not> (e \<le> p \<or> IsLineBreak (rune_of (t ! p)) \<or> \<not> esc \<and> t ! p = CHR ''/'' \<and> \<not> cls)"
  shows "\<exists>esc' g' cls'. body_end t e p esc g cls = body_end t e (p + 1) esc' g' cls'"
  using assms by (subst body_end.simps) (simp add: Let_def, blast)

lemma body_end_stop:
  assumes "e \<le> p \<or> IsLineBreak (rune_of (t ! p)) \<or> \<not> esc \<and> t ! p = CHR ''/'' \<and> \<not> cls"
  shows "body_end t e p esc g cls = (p, e \<le> p \<or> IsLineBreak (rune_of (t ! p)), g)"
  using assms by (subst body_end.simps) (auto simp: Let_def)

lemma body_end_bounds:
  "body_end t e p esc g cls = (q, u, n) \<Longrightarrow> p \<le> e \<Longrightarrow>
    p \<le> q \<and> q \<le> e \<and> (\<forall>i. p \<le> i \<and> i < q \<longrightarrow> \<not> IsLineBreak (rune_of (t ! i)))
    \<and> (\<not> u \<longrightarrow> q < e \<and> t ! q = CHR ''/'')"
proof (induction "e - p" arbitrary: p esc g cls rule: less_induct)
  case less
  show ?case
  proof (cases "e \<le> p \<or> IsLineBreak (rune_of (t ! p)) \<or> \<not> esc \<and> t ! p = CHR ''/'' \<and> \<not> cls")
    case True
    then show ?thesis using less(2,3) body_end_stop [OF True, of g] by auto
  next
    case False
    then obtain esc' g' cls' where eq: "body_end t e (p + 1) esc' g' cls' = (q, u, n)"
      using body_end_step [OF False, of g] less(2) by metis
    have rest: "p + 1 \<le> q \<and> q \<le> e \<and> (\<forall>i. p + 1 \<le> i \<and> i < q \<longrightarrow> \<not> IsLineBreak (rune_of (t ! i)))
        \<and> (\<not> u \<longrightarrow> q < e \<and> t ! q = CHR ''/'')"
      by (rule less(1) [OF _ eq]) (use False in auto)
    have "i = p \<or> p + 1 \<le> i" if "p \<le> i" for i using that by auto
    then show ?thesis using False rest by auto
  qed
qed

lemma unbalanced_step:
  "unbalanced t e p esc d iq g = u \<Longrightarrow>
    u = p \<or> p < e \<and> (\<exists>esc' d' iq' g'. unbalanced t e (p + 1) esc' d' iq' g' = u)"
  by (subst (asm) unbalanced.simps) (simp add: Let_def split: if_split_asm, blast+)

lemma unbalanced_bounds: "p \<le> e \<Longrightarrow> unbalanced t e p esc d iq g = u \<Longrightarrow> p \<le> u \<and> u \<le> e"
proof (induction "e - p" arbitrary: p esc d iq g rule: less_induct)
  case less
  consider "u = p" | esc' d' iq' g' where "p < e" "unbalanced t e (p + 1) esc' d' iq' g' = u"
    using unbalanced_step [OF less(3)] by metis
  then show ?case
  proof cases
    case 2
    then have "p + 1 \<le> u \<and> u \<le> e" by (intro less(1) [OF _ _ 2(2)]) simp_all
    then show ?thesis by simp
  qed (use less(2) in simp)
qed

text \<open>A rune read backwards does not reach over an ASCII byte.\<close>

lemma last_rune_bytes:
  assumes "k < length s" "length s \<le> k + snd (DecodeLastRune s)" "rune_of (s ! k) < 0x80"
  shows "k = length s - 1"
proof -
  let ?n = "length s" and ?st = "last_rune_start s"
  let ?d = "DecodeRune (drop ?st s)"
  show ?thesis
  proof (cases "rune_of (s ! (?n - 1)) < RuneSelf \<or> ?st + snd ?d \<noteq> ?n")
    case True
    then have "snd (DecodeLastRune s) = 1" using assms(1) by (auto simp: DecodeLastRune_def Let_def)
    then show ?thesis using assms(1,2) by simp
  next
    case False
    then have d: "snd (DecodeLastRune s) = snd ?d" "?st + snd ?d = ?n" using assms(1) by (auto simp: DecodeLastRune_def Let_def)
    then have st: "?st \<le> k" "k - ?st < snd ?d" using assms(1,2) by auto
    have nth: "drop ?st s ! (k - ?st) = s ! k" using st assms(1) by simp
    show ?thesis
    proof (cases "k = ?st")
      case True
      then have "drop ?st s = s ! k # drop (Suc k) s" using assms(1) Cons_nth_drop_Suc [of k s] by simp
      then have "snd ?d = 1" using assms(3) by simp
      then show ?thesis using d(2) True by simp
    next
      case False
      then have "0x80 \<le> rune_of (drop ?st s ! (k - ?st))" using st by (intro DecodeRune_continuation) auto
      then show ?thesis using assms(3) nth by simp
    qed
  qed
qed

lemma trim_end_bounds:
  assumes "t ! (start - 1) = CHR ''/''" "0 < start"
  shows "start \<le> p \<Longrightarrow> p \<le> length t \<Longrightarrow> start \<le> trim_end t start p \<and> trim_end t start p \<le> p"
proof (induction "p" rule: less_induct)
  case (less p)
  define d where "d = DecodeLastRune (take p t)"
  show ?case
  proof (cases "start < p \<and> (IsWhiteSpaceLike (fst d) \<or> fst d = 0x3B) \<and> 0 < snd d")
    case True
    have "start \<le> p - snd d"
    proof (rule ccontr)
      assume "\<not> ?thesis"
      then have "start - 1 = length (take p t) - 1"
        using True less(3) assms by (intro last_rune_bytes) (auto simp: d_def)
      then show False using True less(3) assms(2) by auto
    qed
    then have "start \<le> trim_end t start (p - snd d) \<and> trim_end t start (p - snd d) \<le> p - snd d"
      using True less(3) by (intro less(1)) auto
    then have "start \<le> trim_end t start (p - snd d) \<and> trim_end t start (p - snd d) \<le> p" by auto
    then show ?thesis using True by (subst (1 2) trim_end.simps) (simp add: Let_def d_def [symmetric])
  next
    case False
    then have "trim_end t start p = p" by (subst trim_end.simps) (auto simp: Let_def d_def [symmetric])
    then show ?thesis using less(2) by simp
  qed
qed

section \<open>The flags\<close>

lemma literal_flags_same:
  "s_text s' = s_text s \<Longrightarrow> s_end s' = s_end s \<Longrightarrow> fst (literal_flags r' p fl' s') = fst (literal_flags r p fl s)"
proof (induction r p fl s arbitrary: fl' s' rule: literal_flags.induct)
  case (1 r p fl s)
  define d where "d = DecodeRune (drop p (s_text s))"
  define x where "x = (if r then literal_flag (fst d) p (snd d) fl s else (fl, s))"
  define x' where "x' = (if r' then literal_flag (fst d) p (snd d) fl' s' else (fl', s'))"
  have "s_text (snd x') = s_text (snd x)" "s_end (snd x') = s_end (snd x)"
    using 1(2,3) by (simp_all add: x_def x'_def)
  then show ?case
    using 1(1) [OF d_def _ _ x_def, of "snd x'" "fst x'"] 1(2,3)
    by (subst (1 2) literal_flags.simps) (simp add: Let_def d_def [symmetric] x_def [symmetric] x'_def [symmetric])
qed

lemma errorAtWith_errors: "\<exists>es. errorAtWith m p l args s = s\<lparr>s_errors := es\<rparr>"
  by (cases "s_onError s") (auto simp: errorAtWith_def intro: exI [of _ "s_errors s"])


lemma literal_flag_errors: "\<exists>es. snd (literal_flag ch p sz fl s) = s\<lparr>s_errors := es\<rparr>"
  using errorAtWith_errors [of _ _ _ _ s] exI [of "\<lambda>es. s = s\<lparr>s_errors := es\<rparr>" "s_errors s"]
  by (auto simp: literal_flag_def checkRegularExpressionFlagAvailability_def split: option.split)

lemma literal_flags_errors:
  "\<exists>es. snd (snd (literal_flags r p fl s)) = s\<lparr>s_errors := es\<rparr>"
proof (induction r p fl s rule: literal_flags.induct)
  case (1 r p fl s)
  define d where "d = DecodeRune (drop p (s_text s))"
  define x where "x = (if r then literal_flag (fst d) p (snd d) fl s else (fl, s))"
  have self: "\<exists>es. s = s\<lparr>s_errors := es\<rparr>" by (rule exI [of _ "s_errors s"]) simp
  have "\<exists>es. snd x = s\<lparr>s_errors := es\<rparr>" using literal_flag_errors self by (cases r) (simp_all add: x_def)
  then obtain es where x: "snd x = s\<lparr>s_errors := es\<rparr>" ..
  have IH: "\<exists>es. snd (snd (literal_flags r (p + snd d) (fst x) (snd x))) = s\<lparr>s_errors := es\<rparr>"
    if "p < s_end s" "\<not> (fst d = RuneError \<or> \<not> IsIdentifierPart (fst d))"
    using 1 [OF d_def that x_def] unfolding x by auto
  then show ?case using self
    by (subst literal_flags.simps) (auto simp: Let_def d_def [symmetric] x_def [symmetric])
qed

lemma literal_flags_bounds:
  "s_end s = length (s_text s) \<Longrightarrow> p \<le> s_end s \<Longrightarrow>
    p \<le> fst (literal_flags r p fl s) \<and> fst (literal_flags r p fl s) \<le> s_end s"
proof (induction r p fl s rule: literal_flags.induct)
  case (1 r p fl s)
  define d where "d = DecodeRune (drop p (s_text s))"
  define x where "x = (if r then literal_flag (fst d) p (snd d) fl s else (fl, s))"
  have "p + snd d \<le> s_end s" using 1(2,3) DecodeRune_size_le [of "drop p (s_text s)"] by (simp add: d_def)
  moreover have "s_text (snd x) = s_text s" "s_end (snd x) = s_end s" by (simp_all add: x_def)
  ultimately have IH: "p + snd d \<le> fst (literal_flags r (p + snd d) (fst x) (snd x))
      \<and> fst (literal_flags r (p + snd d) (fst x) (snd x)) \<le> s_end s"
    if "p < s_end s" "\<not> (fst d = RuneError \<or> \<not> IsIdentifierPart (fst d))"
    using 1(1) [OF d_def that x_def] 1(2) by simp
  show ?case using IH 1(3)
    by (subst (1 2) literal_flags.simps) (auto simp: Let_def d_def [symmetric] x_def [symmetric])
qed


section \<open>The literal\<close>

text \<open>
  The body ends before a line break, which is looked for byte by byte. What the check cannot stand
  is a line or paragraph separator directly behind a backslash of the body.
\<close>

definition separator_at :: "string \<Rightarrow> nat \<Rightarrow> bool" where
  "separator_at t i \<longleftrightarrow> fst (DecodeRune (drop i t)) = 0x2028 \<or> fst (DecodeRune (drop i t)) = 0x2029"

definition escaped_between :: "string \<Rightarrow> nat \<Rightarrow> nat \<Rightarrow> bool" where
  "escaped_between t a e \<longleftrightarrow> list_ex (\<lambda>i. t ! (i - 1) = CHR 0x5C \<and> separator_at t i) [Suc a..<e]"

definition escaped_separator :: "Scanner \<Rightarrow> bool" where
  "escaped_separator s \<longleftrightarrow>
    (let a = s_tokenStart s + 1
     in escaped_between (s_text s) a (fst (body_end (s_text s) (s_end s) a False False False)))"

lemma body_no_breaks:
  assumes "i < length t" "\<not> IsLineBreak (rune_of (t ! i))" "\<not> separator_at t i"
  shows "\<not> IsLineBreak (fst (DecodeRune (drop i t)))"
proof -
  have d: "drop i t = t ! i # drop (Suc i) t" using Cons_nth_drop_Suc [OF assms(1)] by simp
  have "fst (DecodeRune (drop i t)) = rune_of (t ! i)" if "fst (DecodeRune (drop i t)) < 0x80"
    using DecodeRune_is_ascii [OF that] d by (metis list.inject)
  then show ?thesis using assms(2,3) by (auto simp: IsLineBreak_def separator_at_def)
qed

lemma check_body_returns:
  assumes "s_end s = length (s_text s)" "start \<le> e" "e < s_end s" "s_text s ! e = CHR ''/''"
    "\<not> escaped_between (s_text s) start e" "\<And>i. start \<le> i \<Longrightarrow> i < e \<Longrightarrow> \<not> IsLineBreak (rune_of (s_text s ! i))"
    "12 * length (s_text s) < fuel"
  obtains t where "check_body fuel suggest start e fl n s = Some t" "s_text t = s_text s" "s_end t = s_end s"
    "s_tokenStart t = s_tokenStart s" "s_tokenFlags t = s_tokenFlags s" "s_panicked t = s_panicked s"
    "s_fullStartPos t = s_fullStartPos s"
proof -
  define p where "p = new_parser (s\<lparr>s_pos := start, s_end := e\<rparr>) e fl n"
  have "\<not> IsLineBreak (fst (DecodeRune (drop i (s_text s))))"
    if "start < i" "i < e" "s_text s ! (i - 1) = CHR 0x5C" for i
    using body_no_breaks [of i "s_text s"] assms(1,3,5,6) that by (auto simp: escaped_between_def list_ex_iff)
  then have body: "in_body start p"
    using assms(1-4) by (simp add: p_def in_body_def new_parser_def slash_end_def rx_pos_def rx_text_def)
  have "room p \<le> 2 * (e - start) + 1" by (simp add: p_def room_def new_parser_def rx_pos_def)
  then have "6 * room p + 4 < fuel" using assms(1,3,7) by linarith
  then obtain q where q: "run fuel suggest p = Some q" "stays (unstart (rx_scanner p)) (unstart (rx_scanner q))"
    using run_returns [OF body] by blast
  have "same_input (unstart (rx_scanner p)) (unstart (rx_scanner q))" "s_panicked (rx_scanner q) = s_panicked (rx_scanner p)"
    using stays_moves [OF q(2)] by (simp_all add: scan_moves_def)
  then show ?thesis
    using q(1) that unfolding check_body_def p_def [symmetric]
    by (simp add: same_input_def unstart_def p_def new_parser_def)
qed


text \<open>What the parser reads of a scanner after a token.\<close>

definition scanned :: "Scanner \<Rightarrow> string \<times> nat list \<times> Kind \<times> string \<times> TokenFlags \<times> bool" where
  "scanned s = (s_text s, [s_end s, s_pos s, s_fullStartPos s, s_tokenStart s], s_token s, s_tokenValue s, s_tokenFlags s,
    s_panicked s)"

text \<open>A scanner behind the first slash of a literal; \<open>fuel\<close> is enough for its check.\<close>

definition at_slash :: "nat \<Rightarrow> Scanner \<Rightarrow> bool" where
  "at_slash fuel s \<longleftrightarrow> s_end s = length (s_text s) \<and> s_tokenStart s < s_end s
    \<and> s_text s ! s_tokenStart s = CHR ''/'' \<and> s_token s \<in> {KindSlashToken, KindSlashEqualsToken}
    \<and> 12 * length (s_text s) < fuel"

lemma terminated_scanned:
  assumes "s_end s = length (s_text s)" "start \<le> e" "e < s_end s" "s_text s ! e = CHR ''/''"
    "report \<longrightarrow> \<not> escaped_between (s_text s) start e" "\<And>i. start \<le> i \<Longrightarrow> i < e \<Longrightarrow> \<not> IsLineBreak (rune_of (s_text s ! i))"
    "12 * length (s_text s) < fuel"
  obtains t where "terminated fuel suggest report start e n s = Some (fst (literal_flags False (e + 1) 0 s), t)"
    "s_text t = s_text s" "s_end t = s_end s" "s_tokenStart t = s_tokenStart s" "s_tokenFlags t = s_tokenFlags s"
    "s_panicked t = s_panicked s" "s_fullStartPos t = s_fullStartPos s"
proof -
  obtain p fl s' where f: "literal_flags report (e + 1) 0 s = (p, fl, s')" by (cases "literal_flags report (e + 1) 0 s") auto
  obtain es where s': "s' = s\<lparr>s_errors := es\<rparr>" using literal_flags_errors [of report "e + 1" 0 s] f by auto
  have p: "fst (literal_flags False (e + 1) 0 s) = p"
    using literal_flags_same [of s s False "e + 1" 0 report 0] f by simp
  show ?thesis
  proof (cases report)
    case False
    then show ?thesis using that unfolding terminated_def f p by (simp add: s')
  next
    case True
    obtain t where "check_body fuel suggest start e fl n s' = Some t" "s_text t = s_text s'" "s_end t = s_end s'"
      "s_tokenStart t = s_tokenStart s'" "s_tokenFlags t = s_tokenFlags s'" "s_panicked t = s_panicked s'"
      "s_fullStartPos t = s_fullStartPos s'"
      by (rule check_body_returns [of s' start e fuel suggest fl n]) (use assms True in \<open>simp_all add: s'\<close>)
    then show ?thesis using True that unfolding terminated_def f p by (simp add: s')
  qed
qed

lemma ReScanSlashToken_scanned:
  assumes "at_slash fuel s" "report \<longrightarrow> \<not> escaped_separator s"
  obtains p fl where "map_option (\<lambda>(k, t). (k, scanned t)) (ReScanSlashToken fuel suggest report s)
      = Some (KindRegularExpressionLiteral, scanned (s\<lparr>s_pos := p, s_token := KindRegularExpressionLiteral,
          s_tokenValue := slc (s_text s) (s_tokenStart s) p, s_tokenFlags := fl\<rparr>))"
    "s_tokenStart s < p" "p \<le> s_end s"
    "\<And>fuel' suggest' report'. at_slash fuel' s \<Longrightarrow> report' \<longrightarrow> \<not> escaped_separator s \<Longrightarrow>
      map_option (\<lambda>(k, t). (k, scanned t)) (ReScanSlashToken fuel' suggest' report' s)
      = map_option (\<lambda>(k, t). (k, scanned t)) (ReScanSlashToken fuel suggest report s)"
proof -
  let ?start = "s_tokenStart s + 1"
  obtain e u n where e: "body_end (s_text s) (s_end s) ?start False False False = (e, u, n)"
    by (cases "body_end (s_text s) (s_end s) ?start False False False") auto
  have s: "s_end s = length (s_text s)" "s_tokenStart s < s_end s" "s_text s ! s_tokenStart s = CHR ''/''"
    "s_token s = KindSlashToken \<or> s_token s = KindSlashEqualsToken"
    using assms by (auto simp: at_slash_def)
  have b: "?start \<le> e" "e \<le> s_end s" "\<And>i. ?start \<le> i \<Longrightarrow> i < e \<Longrightarrow> \<not> IsLineBreak (rune_of (s_text s ! i))"
    "\<not> u \<Longrightarrow> e < s_end s \<and> s_text s ! e = CHR ''/''"
    using body_end_bounds [OF e] s by auto
  define s1 where "s1 = (if u then addFlag TokenFlagsUnterminated s else s)"
  define p where "p = (if hasFlag s1 TokenFlagsUnterminated then fst (unterminated ?start e s1)
    else fst (literal_flags False (e + 1) 0 s1))"
  have all: "map_option (\<lambda>(k, t). (k, scanned t)) (ReScanSlashToken fuel' suggest' report' s)
      = Some (KindRegularExpressionLiteral, scanned (s\<lparr>s_pos := p, s_token := KindRegularExpressionLiteral,
          s_tokenValue := slc (s_text s) (s_tokenStart s) p, s_tokenFlags := s_tokenFlags s1\<rparr>))"
    if "at_slash fuel' s" "report' \<longrightarrow> \<not> escaped_separator s" for fuel' suggest' report'
  proof (cases "hasFlag s1 TokenFlagsUnterminated")
    case True
    obtain es where "snd (unterminated ?start e s1) = s1\<lparr>s_errors := es\<rparr>"
      using errorAtWith_errors unfolding unterminated_def errorAt_def Let_def snd_conv by blast
    then show ?thesis
      using True s(4) unfolding ReScanSlashToken_def e s1_def [symmetric] Let_def p_def
      by (auto simp: scanned_def s1_def split: prod.splits)
  next
    case False
    then have u: "\<not> u" by (auto simp: s1_def hasFlag_def)
    have s1: "s1 = s" using u by (simp add: s1_def)
    have h: "report' \<longrightarrow> \<not> escaped_between (s_text s) ?start e" "12 * length (s_text s) < fuel'"
      using that e by (simp_all add: at_slash_def escaped_separator_def)
    obtain t where "terminated fuel' suggest' report' ?start e n s = Some (fst (literal_flags False (e + 1) 0 s), t)"
      "s_text t = s_text s" "s_end t = s_end s" "s_tokenStart t = s_tokenStart s" "s_tokenFlags t = s_tokenFlags s"
      "s_panicked t = s_panicked s" "s_fullStartPos t = s_fullStartPos s"
      by (rule terminated_scanned [OF s(1) b(1) conjunct1 [OF b(4) [OF u]] conjunct2 [OF b(4) [OF u]] h(1) b(3) h(2)])
    then show ?thesis
      using False s(4) u unfolding ReScanSlashToken_def e s1_def [symmetric] s1 Let_def p_def
      by (auto simp: scanned_def)
  qed
  have bounds: "s_tokenStart s < p \<and> p \<le> s_end s"
  proof (cases "hasFlag s1 TokenFlagsUnterminated")
    case True
    define q where "q = unbalanced (s_text s) e ?start False 0 False 0"
    have q: "?start \<le> q \<and> q \<le> e" unfolding q_def by (rule unbalanced_bounds [OF b(1) refl])
    then have "?start \<le> trim_end (s_text s) ?start q \<and> trim_end (s_text s) ?start q \<le> q"
      using s b(2) by (intro trim_end_bounds) auto
    moreover have "p = trim_end (s_text s) ?start q"
      using True by (simp add: p_def unterminated_def Let_def s1_def q_def)
    ultimately show ?thesis using q b(2) by auto
  next
    case False
    then have u: "\<not> u" by (auto simp: s1_def hasFlag_def)
    show ?thesis
      using literal_flags_bounds [of s1 "e + 1" False 0] b u s False by (auto simp: p_def s1_def)
  qed
  show ?thesis using that [OF all conjunct1 [OF bounds] conjunct2 [OF bounds]] all assms by simp
qed


text \<open>C6: Scanning a regular expression literal is total and safe: it returns, does not panic, keeps the
  text, and the literal is not empty and ends in the text; its value is the text it covers. With
  the check of the body, this is so where no U+2028 or U+2029 stands directly behind a backslash of
  the body; without it, for every text. The check needs fuel linear in the length of the text.\<close>

theorem regexp_literal_safe:
  assumes "at_slash fuel s" "report \<longrightarrow> \<not> escaped_separator s"
  shows "\<exists>t. ReScanSlashToken fuel suggest report s = Some (KindRegularExpressionLiteral, t)
    \<and> s_panicked t = s_panicked s \<and> s_text t = s_text s \<and> s_end t = s_end s \<and> s_tokenStart t = s_tokenStart s
    \<and> s_tokenStart s < s_pos t \<and> s_pos t \<le> s_end s
    \<and> s_tokenValue t = slc (s_text s) (s_tokenStart s) (s_pos t)"
proof -
  obtain p fl where p: "map_option (\<lambda>(k, t). (k, scanned t)) (ReScanSlashToken fuel suggest report s)
      = Some (KindRegularExpressionLiteral, scanned (s\<lparr>s_pos := p, s_token := KindRegularExpressionLiteral,
          s_tokenValue := slc (s_text s) (s_tokenStart s) p, s_tokenFlags := fl\<rparr>))"
    "s_tokenStart s < p" "p \<le> s_end s"
    using ReScanSlashToken_scanned [OF assms] by metis
  obtain k t where "ReScanSlashToken fuel suggest report s = Some (k, t)" using p(1) by auto
  with p show ?thesis by (auto simp: scanned_def)
qed

text \<open>C8: The check of a body changes nothing that the parser reads: with and without it, the position, the
  start, the value, the flags and the kind of the token are the same, whatever the fuel and the
  suggestions, where no U+2028 or U+2029 stands directly behind a backslash of the body.\<close>

theorem check_keeps_the_literal:
  assumes "at_slash fuel s" "at_slash fuel' s" "\<not> escaped_separator s"
  shows "map_option (\<lambda>(k, t). (k, scanned t)) (ReScanSlashToken fuel suggest True s)
    = map_option (\<lambda>(k, t). (k, scanned t)) (ReScanSlashToken fuel' suggest' False s)"
  using ReScanSlashToken_scanned [OF assms(1), of True suggest] assms(2,3) by metis

text \<open>The scanner behind the first slash of a literal with a class, a named group and flags.\<close>

definition regexp_example :: Scanner where
  "regexp_example = (SetOnError True (SetText ''/[a-c]+(?<x>b)/gi'' NewScanner))\<lparr>s_pos := 1, s_token := KindSlashToken\<rparr>"

lemma regexp_example_at_slash: "at_slash 300 regexp_example" "at_slash 400 regexp_example"
  "\<not> escaped_separator regexp_example"
  by code_simp+

theorem regexp_literal_safe_witness:
  "\<exists>t. ReScanSlashToken 300 (\<lambda>_ _. []) True regexp_example = Some (KindRegularExpressionLiteral, t)
    \<and> \<not> s_panicked t \<and> 0 < s_pos t"
proof -
  have "\<not> s_panicked regexp_example" "s_tokenStart regexp_example = 0" by code_simp+
  then show ?thesis
    using regexp_literal_safe [OF regexp_example_at_slash(1), of True "\<lambda>_ _. []"] regexp_example_at_slash(3) by auto
qed

theorem check_keeps_the_literal_witness:
  "map_option (\<lambda>(k, t). (k, scanned t)) (ReScanSlashToken 300 (\<lambda>_ _. []) True regexp_example)
    = map_option (\<lambda>(k, t). (k, scanned t)) (ReScanSlashToken 400 (\<lambda>_ _. []) False regexp_example)"
  by (rule check_keeps_the_literal [OF regexp_example_at_slash])

end
