(* ===== verification/RegExpGrammar.thy ===== *)
theory RegExpGrammar
  imports RegExpLiteral ScannerLinesProps
begin

text \<open>
  The body that the scanner finds for a regular expression literal, against the grammar of
  ECMA-262. The grammar is one of characters; the scanner looks at bytes, and differs from the
  grammar exactly in the line and paragraph separators, which it does not see.
\<close>

section \<open>The grammar\<close>

text \<open>
  \<open>RegularExpressionClassChars\<close> and \<open>RegularExpressionChars\<close>, with their backslash sequences. The line
  terminators are U+000A, U+000D, U+2028 and U+2029.
\<close>

abbreviation nonTerminator :: "rune \<Rightarrow> bool" where
  "nonTerminator ch \<equiv> \<not> IsLineBreak ch"

inductive class_chars :: "rune list \<Rightarrow> bool" where
  class_nil: "class_chars []"
| class_char: "nonTerminator c \<Longrightarrow> c \<noteq> 0x5D \<Longrightarrow> c \<noteq> 0x5C \<Longrightarrow> class_chars w \<Longrightarrow> class_chars (c # w)"
| class_escape: "nonTerminator c \<Longrightarrow> class_chars w \<Longrightarrow> class_chars (0x5C # c # w)"

inductive body_chars :: "rune list \<Rightarrow> bool" where
  body_nil: "body_chars []"
| body_char: "nonTerminator c \<Longrightarrow> c \<noteq> 0x2F \<Longrightarrow> c \<noteq> 0x5B \<Longrightarrow> c \<noteq> 0x5C \<Longrightarrow> body_chars w \<Longrightarrow>
    body_chars (c # w)"
| body_escape: "nonTerminator c \<Longrightarrow> body_chars w \<Longrightarrow> body_chars (0x5C # c # w)"
| body_class: "class_chars v \<Longrightarrow> body_chars w \<Longrightarrow> body_chars (0x5B # v @ 0x5D # w)"

text \<open>\<open>RegularExpressionBody\<close>: not empty, and the first character is not an asterisk.\<close>

definition ecma_body :: "rune list \<Rightarrow> bool" where
  "ecma_body w \<longleftrightarrow> w \<noteq> [] \<and> hd w \<noteq> 0x2A \<and> body_chars w"

text \<open>The characters of a text.\<close>

function source_characters :: "string \<Rightarrow> rune list" where
  "source_characters t =
    (if t = [] then [] else fst (DecodeRune t) # source_characters (drop (snd (DecodeRune t)) t))"
  by pat_completeness auto
termination
  by (relation "measure length") (auto simp: DecodeRune_size_pos)

declare source_characters.simps [simp del]

inductive_simps class_chars_Cons: "class_chars (c # w)"
inductive_cases body_chars_ConsE: "body_chars (c # w)"

text \<open>What may follow in a state of the scanner: inside a class, and behind a backslash.\<close>

definition class_rest :: "rune list \<Rightarrow> bool" where
  "class_rest w \<longleftrightarrow> (\<exists>v u. w = v @ 0x5D # u \<and> class_chars v \<and> body_chars u)"

definition rest :: "bool \<Rightarrow> bool \<Rightarrow> rune list \<Rightarrow> bool" where
  "rest inEscape inCharacterClass w \<longleftrightarrow>
    (let after = (if inCharacterClass then class_rest else body_chars) in
     if inEscape then w \<noteq> [] \<and> nonTerminator (hd w) \<and> after (tl w) else after w)"

lemma class_rest_Nil [simp]: "\<not> class_rest []"
  by (simp add: class_rest_def)

lemma class_rest_Cons:
  "class_rest (c # w) \<longleftrightarrow>
    (if c = 0x5D then body_chars w
     else if c = 0x5C then w \<noteq> [] \<and> nonTerminator (hd w) \<and> class_rest (tl w)
     else nonTerminator c \<and> class_rest w)"
proof -
  have split: "c # w = v @ 0x5D # u \<longleftrightarrow> v = [] \<and> c = 0x5D \<and> u = w \<or> (\<exists>v'. v = c # v' \<and> w = v' @ 0x5D # u)" for v u
    by (cases v) auto
  have "class_rest (c # w) \<longleftrightarrow> c = 0x5D \<and> body_chars w
      \<or> (\<exists>v' u. class_chars (c # v') \<and> w = v' @ 0x5D # u \<and> body_chars u)"
    unfolding class_rest_def split using class_nil by auto
  also have "\<dots> \<longleftrightarrow> (if c = 0x5D then body_chars w
     else if c = 0x5C then w \<noteq> [] \<and> nonTerminator (hd w) \<and> class_rest (tl w)
     else nonTerminator c \<and> class_rest w)"
    by (cases w) (auto simp: class_chars_Cons class_rest_def Cons_eq_append_conv)
  finally show ?thesis .
qed

lemma body_chars_Cons:
  "body_chars (c # w) \<longleftrightarrow> nonTerminator c \<and>
    (if c = 0x2F then False else if c = 0x5B then class_rest w
     else if c = 0x5C then w \<noteq> [] \<and> nonTerminator (hd w) \<and> body_chars (tl w) else body_chars w)"
proof
  assume "body_chars (c # w)"
  then show "nonTerminator c \<and>
    (if c = 0x2F then False else if c = 0x5B then class_rest w
     else if c = 0x5C then w \<noteq> [] \<and> nonTerminator (hd w) \<and> body_chars (tl w) else body_chars w)"
    by (rule body_chars_ConsE) (auto simp: class_rest_def IsLineBreak_def)
next
  assume "nonTerminator c \<and>
    (if c = 0x2F then False else if c = 0x5B then class_rest w
     else if c = 0x5C then w \<noteq> [] \<and> nonTerminator (hd w) \<and> body_chars (tl w) else body_chars w)"
  then show "body_chars (c # w)"
    by (cases w) (auto simp: class_rest_def split: if_splits intro: body_chars.intros)
qed

lemma rest_Nil [simp]: "rest esc cls [] \<longleftrightarrow> \<not> esc \<and> \<not> cls"
  by (auto simp: rest_def body_nil)

lemma rest_Cons:
  "rest esc cls (c # w) \<longleftrightarrow> nonTerminator c \<and>
    (if esc then rest False cls w else if c = 0x2F \<and> \<not> cls then False
     else if c = 0x5B then rest False True w else if c = 0x5C then rest True cls w
     else if c = 0x5D then rest False False w else rest False cls w)"
  by (auto simp: rest_def class_rest_Cons body_chars_Cons IsLineBreak_def)

lemma rune_of_specials:
  "rune_of c = 0x2F \<longleftrightarrow> c = CHR ''/''" "rune_of c = 0x5B \<longleftrightarrow> c = CHR ''[''" "rune_of c = 0x5C \<longleftrightarrow> c = CHR 0x5C"
  "rune_of c = 0x5D \<longleftrightarrow> c = CHR '']''" "rune_of c = 0x2A \<longleftrightarrow> c = CHR ''*''"
  using of_char_eq_iff [of c "CHR ''/''", where 'a = int] of_char_eq_iff [of c "CHR ''[''", where 'a = int]
    of_char_eq_iff [of c "CHR 0x5C", where 'a = int] of_char_eq_iff [of c "CHR '']''", where 'a = int]
    of_char_eq_iff [of c "CHR ''*''", where 'a = int] by simp_all

lemma body_end_language:
  assumes "e \<le> length t"
  shows "(\<exists>n. body_end t e p esc g cls = (q, False, n)) \<longleftrightarrow> p \<le> q \<and> q < e \<and> t ! q = CHR ''/'' \<and> rest esc cls (map rune_of (slc t p q))"
proof (induction "e - p" arbitrary: p esc g cls rule: less_induct)
  case less
  show ?case
  proof (cases "p < e")
    case True
    have c: "rest esc cls (map rune_of (slc t p q)) \<longleftrightarrow> rest esc cls (rune_of (t ! p) # map rune_of (slc t (p + 1) q))" if lt: "p < q" for esc cls
    proof -
      obtain k where "q = Suc (p + k)" using less_imp_Suc_add [OF lt] by blast
      then have "slc t p q = t ! p # slc t (p + 1) q"
        using True assms Cons_nth_drop_Suc [of p t, symmetric] by (simp add: slc_def)
      then show ?thesis by simp
    qed
    have IH: "(\<exists>n. body_end t e (p + 1) esc g cls = (q, False, n)) \<longleftrightarrow>
        p < q \<and> q < e \<and> t ! q = CHR ''/'' \<and> rest esc cls (map rune_of (slc t (p + 1) q))" for esc g cls
      using less [of "p + 1" esc g cls] True by (simp add: Suc_le_eq)
    show ?thesis
    proof (cases "p < q")
      case True
      show ?thesis
        using \<open>p < e\<close> True IH unfolding c [OF True] rest_Cons rune_of_specials
        by (subst body_end.simps) (auto simp: Let_def)
    next
      case False
      then show ?thesis
        using \<open>p < e\<close> IH
        by (subst body_end.simps) (auto simp: Let_def IsLineBreak_def)
    qed
  next
    case False
    then show ?thesis using body_end_stop [of e p t esc cls g] by auto
  qed
qed


section \<open>Bytes and characters\<close>

definition no_separator :: "string \<Rightarrow> bool" where
  "no_separator w \<longleftrightarrow> (\<forall>i. \<not> separator_bytes (drop i w))"

lemma no_separator_ascii:
  assumes "rune_of c < 0x80"
  shows "no_separator (c # r) \<longleftrightarrow> no_separator r"
proof
  show "no_separator r" if "no_separator (c # r)"
    using that unfolding no_separator_def by (metis drop_Suc_Cons)
  assume r: "no_separator r"
  have "\<not> separator_bytes (drop i (c # r))" for i
    using r assms by (cases i) (auto simp: no_separator_def separator_bytes_def)
  then show "no_separator (c # r)" by (simp add: no_separator_def)
qed

lemma no_separator_rune:
  assumes "w \<noteq> []" "\<not> rune_of (w ! 0) < 0x80" "DecodeRune w = (ch, n)"
  shows "no_separator w \<longleftrightarrow> nonTerminator ch \<and> no_separator (drop n w)"
proof -
  have first: "separator_bytes w \<longleftrightarrow> IsLineBreak ch"
    using separator_decodes(1) [of w] break_is_separator [of w] assms by auto
  have inside: "\<not> separator_bytes (drop i w)" if "0 < i" "i < n" for i
  proof
    assume "separator_bytes (drop i w)"
    moreover have "utf8_cont (w ! i)" using DecodeRune_cont [of i w] that assms(3) by simp
    moreover have "i < length w" using that DecodeRune_size_le [of w] assms(3) by simp
    ultimately show False by (simp add: separator_bytes_def byte_in_def)
  qed
  show ?thesis
  proof
    assume w: "no_separator w"
    then have "\<not> separator_bytes (drop i (drop n w))" for i unfolding no_separator_def by (metis drop_drop)
    moreover have "\<not> separator_bytes w" using w unfolding no_separator_def by (metis drop0)
    ultimately show "nonTerminator ch \<and> no_separator (drop n w)" using first by (simp add: no_separator_def)
  next
    assume r: "nonTerminator ch \<and> no_separator (drop n w)"
    have "\<not> separator_bytes (drop i w)" for i
    proof (cases "i < n")
      case True
      then show ?thesis using first inside r by (cases i) auto
    next
      case False
      then have "drop i w = drop (i - n) (drop n w)" by simp
      then show ?thesis using r unfolding no_separator_def by metis
    qed
    then show "no_separator w" by (simp add: no_separator_def)
  qed
qed

lemma rest_high: "0x80 \<le> ch \<Longrightarrow> rest esc cls (ch # w) \<longleftrightarrow> nonTerminator ch \<and> rest False cls w"
  by (auto simp: rest_Cons)

lemma high_byte: "\<not> rune_of c < 0x80 \<Longrightarrow> nonTerminator (rune_of c)"
  using of_char_less_256_int [of c] unfolding IsLineBreak_def by linarith

lemma rest_high_bytes:
  "list_all (\<lambda>c. \<not> rune_of c < 0x80) u \<Longrightarrow> rest False cls (map rune_of u @ w) \<longleftrightarrow> rest False cls w"
proof (induction u)
  case (Cons c u)
  moreover have "nonTerminator (rune_of c)" if "\<not> rune_of c < 0x80"
    using that by (rule high_byte)
  ultimately show ?case by (simp add: rest_high)
qed simp

lemma rest_characters:
  "rest esc cls (source_characters w) \<longleftrightarrow> rest esc cls (map rune_of w) \<and> no_separator w"
proof (induction "length w" arbitrary: w esc cls rule: less_induct)
  case less
  show ?case
  proof (cases w)
    case Nil
    then show ?thesis by (simp add: source_characters.simps no_separator_def separator_bytes_def)
  next
    case (Cons c r)
    show ?thesis
    proof (cases "rune_of c < 0x80")
      case True
      then have "source_characters w = rune_of c # source_characters r"
        by (subst source_characters.simps) (simp add: Cons)
      then show ?thesis
        using less [of r] no_separator_ascii [OF True, of r] Cons by (simp add: rest_Cons)
    next
      case False
      obtain ch n where d: "DecodeRune w = (ch, n)" by fastforce
      have n: "0 < n" "n \<le> length w"
        using DecodeRune_size_pos [of w] DecodeRune_size_le [of w] d Cons by simp_all
      have ch: "0x80 \<le> ch" using DecodeRune_high [of c r] False d Cons by simp
      have runes: "source_characters w = ch # source_characters (drop n w)"
        using Cons by (subst source_characters.simps) (simp add: d [unfolded Cons])
      have high: "list_all (\<lambda>c. \<not> rune_of c < 0x80) (take n w)"
      proof -
        have "\<not> rune_of (w ! i) < 0x80" if "i < n" for i
          using DecodeRune_cont [of i w] that d False Cons by (cases i) (auto simp: byte_in_def)
        then show ?thesis by (auto simp: list_all_length)
      qed
      have "rest esc cls (map rune_of w) \<longleftrightarrow> rest False cls (map rune_of (drop n w))"
      proof -
        obtain u where u: "take n w = c # u" using n(1) Cons by (cases n) auto
        have "map rune_of w = rune_of c # map rune_of u @ map rune_of (drop n w)"
          using u append_take_drop_id [of n w] by (metis Cons_eq_appendI list.simps(9) map_append)
        moreover have "nonTerminator (rune_of c)" using False by (rule high_byte)
        ultimately show ?thesis
          using rest_high [of "rune_of c"] False rest_high_bytes [of u] high u by simp
      qed
      moreover have "rest esc cls (source_characters w) \<longleftrightarrow> nonTerminator ch \<and> rest False cls (map rune_of (drop n w)) \<and> no_separator (drop n w)"
        using less [of "drop n w"] n Cons runes rest_high [OF ch] by simp
      ultimately show ?thesis
        using no_separator_rune [OF _ _ d] False Cons by auto
    qed
  qed
qed

section \<open>The literal\<close>

text \<open>C7: The search for the end of the body is that of ECMA-262 but for two characters: behind the
  first slash, a text up to a slash is a \<open>RegularExpressionBody\<close> of ECMA-262 exactly when the
  scanner stops at that slash without the unterminated flag, the text is not empty and does not
  begin with an asterisk (both would be comments, which are never scanned again as a literal), and
  there is no U+2028 and no U+2029 in it. ECMA-262 excludes these two as line terminators; the
  scanner compares single bytes and takes them for characters of the body.\<close>

theorem regexp_body_is_grammar:
  "start < e \<and> e < length t \<and> t ! e = CHR ''/'' \<and> ecma_body (source_characters (slc t start e))
    \<longleftrightarrow> (\<exists>namedGroups. body_end t (length t) start False False False = (e, False, namedGroups))
        \<and> start < e \<and> t ! start \<noteq> CHR ''*'' \<and> no_separator (slc t start e)"
proof (cases "start < e \<and> e < length t")
  case True
  then have ne: "slc t start e \<noteq> []" "hd (slc t start e) = t ! start"
    by (simp_all add: slc_def hd_drop_conv_nth)
  have hd: "hd (source_characters (slc t start e)) = 0x2A \<longleftrightarrow> t ! start = CHR ''*''"
  proof -
    obtain c r where w: "slc t start e = c # r" using ne(1) by (cases "slc t start e") auto
    have "fst (DecodeRune (c # r)) = 0x2A \<longleftrightarrow> c = CHR ''*''"
      using DecodeRune_high [of c r] rune_of_specials(5) [of c]
      by (cases "rune_of c < 0x80") auto
    then show ?thesis using ne(2) by (subst source_characters.simps) (simp add: w)
  qed
  have "source_characters (slc t start e) \<noteq> []" using ne(1) by (subst source_characters.simps) simp
  then have "ecma_body (source_characters (slc t start e)) \<longleftrightarrow>
      t ! start \<noteq> CHR ''*'' \<and> rest False False (map rune_of (slc t start e)) \<and> no_separator (slc t start e)"
    using hd rest_characters [of False False "slc t start e"] by (simp add: ecma_body_def) (simp add: rest_def)
  then show ?thesis using body_end_language [of "length t" t start False False False e] True by auto
next
  case False
  then show ?thesis using body_end_language [of "length t" t start False False False e] by auto
qed

end
