(* ===== verification/RegExpSeparator.thy ===== *)
theory RegExpSeparator
  imports RegExpLiteral ScannerLinesProps
begin

text \<open>
  A line or paragraph separator behind a backslash in the body of a regular expression: the scanner
  of \<^verbatim>\<open>scanner/scanner.go\<close> takes it into the body, and the checker of \<^verbatim>\<open>scanner/regexp.go\<close> then
  fails an assertion.
\<close>

section \<open>Up to the backslash\<close>

text \<open>The characters that stand for themselves in a pattern.\<close>

definition plain_char :: "char \<Rightarrow> bool" where
  "plain_char c \<longleftrightarrow> rune_of c < 0x80 \<and> \<not> IsLineBreak (rune_of c)
    \<and> c \<notin> set [CHR ''^'', CHR ''$'', CHR 0x5C, CHR ''.'', CHR ''*'', CHR ''+'', CHR ''?'', CHR ''('', CHR '')'',
        CHR ''['', CHR '']'', CHR ''{'', CHR ''}'', CHR ''|'', CHR ''/'']"

lemma body_end_plain:
  "list_all (\<lambda>i. plain_char (t ! i)) [p..<q] \<Longrightarrow> p \<le> q \<Longrightarrow> q \<le> e \<Longrightarrow>
    body_end t e p False g False = body_end t e q False g False"
proof (induction "q - p" arbitrary: p)
  case (Suc n)
  then have "[p..<q] = p # [Suc p..<q]" by (simp add: upt_conv_Cons)
  then have c: "plain_char (t ! p)" "list_all (\<lambda>i. plain_char (t ! i)) [Suc p..<q]" using Suc.prems(1) by simp_all
  have "body_end t e p False g False = body_end t e (Suc p) False g False"
    using c(1) Suc.hyps(2) Suc.prems(2,3) by (subst body_end.simps) (auto simp: plain_char_def Let_def)
  then show ?case using Suc.hyps(1) [of "Suc p"] Suc.hyps(2) Suc.prems(2,3) c(2) by simp
qed simp

lemma separator_nth:
  assumes "separator_bytes (drop i t)"
  shows "i + 3 \<le> length t" "rune_of (t ! i) = 0xE2" "rune_of (t ! (i + 1)) = 0x80"
    "rune_of (t ! (i + 2)) = 0xA8 \<or> rune_of (t ! (i + 2)) = 0xA9"
proof -
  have "i \<le> length t" using assms unfolding separator_bytes_def length_drop by linarith
  then show "i + 3 \<le> length t" "rune_of (t ! i) = 0xE2" "rune_of (t ! (i + 1)) = 0x80"
    "rune_of (t ! (i + 2)) = 0xA8 \<or> rune_of (t ! (i + 2)) = 0xA9"
    using assms nth_drop [of i t 0] nth_drop [of i t 1] nth_drop [of i t 2] by (auto simp: separator_bytes_def)
qed

lemma body_end_separator:
  assumes "t ! p = CHR 0x5C" "separator_bytes (drop (p + 1) t)" "p + 4 \<le> e"
  shows "body_end t e p False g False = body_end t e (p + 4) False g False"
proof -
  have b: "rune_of (t ! (p + 1)) = 0xE2" "rune_of (t ! (p + 2)) = 0x80" "rune_of (t ! (p + 3)) = 0xA8 \<or> rune_of (t ! (p + 3)) = 0xA9"
    using separator_nth [OF assms(2)] by (simp_all add: numeral_3_eq_3)
  then have n: "t ! (p + 2) \<notin> {CHR ''/'', CHR ''['', CHR 0x5C, CHR '']'', CHR ''(''}"
    "t ! (p + 3) \<notin> {CHR ''/'', CHR ''['', CHR 0x5C, CHR '']'', CHR ''(''}" by auto
  have "body_end t e p False g False = body_end t e (p + 1) True g False"
    using assms by (subst body_end.simps) (simp add: Let_def IsLineBreak_def eval_nat_numeral)
  also have "\<dots> = body_end t e (p + 2) False g False"
    using assms(3) b(1) by (subst body_end.simps) (simp add: Let_def IsLineBreak_def eval_nat_numeral)
  also have "\<dots> = body_end t e (p + 3) False g False"
    using assms(3) b(2) n(1) by (subst body_end.simps) (simp add: Let_def IsLineBreak_def eval_nat_numeral)
  also have "\<dots> = body_end t e (p + 4) False g False"
    using assms(3) b(3) n(2) by (subst body_end.simps) (auto simp: Let_def IsLineBreak_def eval_nat_numeral)
  finally show ?thesis .
qed

section \<open>The check\<close>

lemma pattern_scan_returns:
  assumes "in_body a p" "6 * room p + 4 < fuel"
  shows "\<exists>q. pattern_scan suggest fuel call p = Some q \<and> rx_go 0 p q"
proof -
  have "pattern_weight call \<le> 4" by (cases call) simp_all
  then have "pattern_pre a fuel call p" using assms by (simp add: pattern_pre_def)
  then show ?thesis using pattern_scan_ok [of a fuel suggest] unfolding pattern_ok_def pattern_returns_def by blast
qed

lemma rx_go_panicked: "rx_go n p q \<Longrightarrow> s_panicked (rx_scanner q) = s_panicked (rx_scanner p)"
  using stays_moves [of "unstart (rx_scanner p)" "unstart (rx_scanner q)"] scan_moves_panicked
  by (fastforce simp: rx_go_def)

text \<open>A state of the checker in a text whose body ends at \<open>e\<close>.\<close>

definition check_at :: "string \<Rightarrow> nat \<Rightarrow> regExpParser \<Rightarrow> bool" where
  "check_at t e p \<longleftrightarrow> rx_text p = t \<and> rx_end p = e \<and> s_end (rx_scanner p) = e \<and> e < length t \<and> t ! e = CHR ''/''
    \<and> pendingLowSurrogate p = 0"

lemma check_at_incPos: "check_at t e p \<Longrightarrow> check_at t e (incPos n p)"
  by (simp add: check_at_def incPos_def on_scanner_def rx_text_def)

lemma check_at_char: "check_at t e p \<Longrightarrow> rx_pos p < e \<Longrightarrow> rx_char p = rune_of (t ! rx_pos p)"
  by (auto simp: check_at_def rx_char_def s_char_def rx_pos_def rx_text_def)

lemma plain_term:
  assumes "check_at t e p" "rx_pos p < e" "plain_char (t ! rx_pos p)"
  shows "term_step suggest g b p = TermNext True (incPos 1 p)"
proof -
  let ?c = "t ! rx_pos p"
  have ch: "rx_char p = rune_of ?c" by (rule check_at_char [OF assms(1,2)])
  have eq: "rune_of ?c = rune_of d \<longleftrightarrow> ?c = d" for d by (rule of_char_eq_iff)
  have special: "rx_char p \<notin> {0x5E, 0x24, 0x5C, 0x28, 0x7B, 0x2A, 0x2B, 0x3F, 0x2E, 0x5B, 0x29, 0x5D, 0x7D, 0x2F, 0x7C}"
    using assms(3) eq [of "CHR ''^''"] eq [of "CHR ''$''"] eq [of "CHR 0x5C"] eq [of "CHR ''(''"] eq [of "CHR ''{''"]
      eq [of "CHR ''*''"] eq [of "CHR ''+''"] eq [of "CHR ''?''"] eq [of "CHR ''.''"] eq [of "CHR ''[''"]
      eq [of "CHR '')''"] eq [of "CHR '']''"] eq [of "CHR ''}''"] eq [of "CHR ''/''"] eq [of "CHR ''|''"]
    by (simp add: plain_char_def ch)
  have lt: "rx_pos p < length (rx_text p)" using assms(1,2) by (simp add: check_at_def)
  have "DecodeRune (drop (rx_pos p) t) = (rune_of ?c, 1)"
    using lt assms(1,3) DecodeRune_ascii Cons_nth_drop_Suc unfolding plain_char_def check_at_def by metis
  then have "snd (scanSourceCharacter p) = incPos 1 p"
    using assms by (simp add: scanSourceCharacter_def check_at_def plain_char_def Let_def)
  then show ?thesis using special by (simp add: term_step_def Let_def)
qed

lemma plain_prefix:
  "check_at t e p \<Longrightarrow> rx_pos p + n \<le> e \<Longrightarrow> list_all (\<lambda>i. plain_char (t ! i)) [rx_pos p..<rx_pos p + n] \<Longrightarrow>
    \<exists>b'. pattern_scan suggest (n + fuel) (Alternative g b) p = pattern_scan suggest fuel (Alternative g b') (incPos n p)"
proof (induction n arbitrary: p b)
  case 0
  have "incPos 0 p = p" by (simp add: incPos_def on_scanner_def)
  then show ?case by auto
next
  case (Suc n)
  have "[rx_pos p..<rx_pos p + Suc n] = rx_pos p # [Suc (rx_pos p)..<Suc (rx_pos p) + n]" by (simp add: upt_conv_Cons)
  then have c: "plain_char (t ! rx_pos p)" "list_all (\<lambda>i. plain_char (t ! i)) [Suc (rx_pos p)..<Suc (rx_pos p) + n]"
    using Suc.prems(3) by simp_all
  have lt: "rx_pos p < e" "rx_end p = e" using Suc.prems by (simp_all add: check_at_def)
  have "pattern_scan suggest (Suc n + fuel) (Alternative g b) p
      = pattern_scan suggest (n + fuel) (Alternative g True) (incPos 1 p)"
    using lt plain_term [OF Suc.prems(1) lt(1) c(1), of suggest g b] by (simp add: scanAlternative_def)
  moreover obtain b' where "pattern_scan suggest (n + fuel) (Alternative g True) (incPos 1 p)
      = pattern_scan suggest fuel (Alternative g b') (incPos n (incPos 1 p))"
    using Suc.IH [of "incPos 1 p" True] check_at_incPos [OF Suc.prems(1)] Suc.prems(2) c(2) by auto
  moreover have "incPos n (incPos 1 p) = incPos (Suc n) p" by (simp add: incPos_def on_scanner_def)
  ultimately show ?case by auto
qed

lemma separator_escape:
  assumes "check_at t e p" "rx_pos p < e" "separator_bytes (drop (rx_pos p) t)" "behind (CHR 0x5C) p"
  shows "scanAtomEscape suggest p = on_scanner panic (snd (scanCharacterEscape True p))"
proof -
  have ch: "rx_char p = 0xE2" using check_at_char [OF assms(1,2)] separator_nth(2) [OF assms(3)] by simp
  have pos: "0 < rx_pos p" "t ! (rx_pos p - 1) = CHR 0x5C" using assms(1,4) by (simp_all add: behind_def check_at_def)
  let ?s = "rx_scanner (decPos p)"
  have s: "advance 1 ?s = rx_scanner p" "s_text ?s = t" "s_text (rx_scanner p) = t"
    using pos(1) assms(1) by (simp_all add: decPos_def on_scanner_def rx_pos_def check_at_def rx_text_def)
  have "fst (DecodeRune (drop (rx_pos p) t)) = 0x2028 \<or> fst (DecodeRune (drop (rx_pos p) t)) = 0x2029"
    using separator_decodes(1) [OF assms(3)] DecodeRune_high [of "t ! rx_pos p" "drop (Suc (rx_pos p)) t"] ch
      check_at_char [OF assms(1,2)] Cons_nth_drop_Suc [of "rx_pos p" t] assms(1,2)
    by (auto simp: IsLineBreak_def check_at_def)
  moreover have "s_pos (advance (Suc 0) x) = Suc (s_pos x)" "s_text (advance (Suc 0) x) = s_text x" for x by simp_all
  ultimately have "fst (scanEscapeSequence f ?s) = []" for f
    using ch s by (simp add: scanEscapeSequence_def Let_def escape_other_def rx_char_def rx_pos_def
        del: advance_def)
  then have "fst (scanCharacterEscape True p) = []"
    using ch assms(4) by (simp add: scanCharacterEscape_def Let_def syntax_characters_def)
  then show ?thesis
    using ch assms(4) by (simp add: scanAtomEscape_def scanCharacterClassEscape_def scanDecimalEscape_def Let_def rx_assert_def)
qed


lemma separator_check:
  assumes "check_at t e p" "rx_pos p < e" "t ! rx_pos p = CHR 0x5C" "rx_pos p + 4 \<le> e"
    and "separator_bytes (drop (rx_pos p + 1) t)" "\<not> escaped_between t (rx_pos p + 1) e"
    and "\<And>i. rx_pos p \<le> i \<Longrightarrow> i < e \<Longrightarrow> \<not> IsLineBreak (rune_of (t ! i))"
    and "12 * length t < fuel"
  shows "\<exists>q. pattern_scan suggest (Suc fuel) (Alternative g b) p
      = pattern_scan suggest fuel (Alternative g True) q
    \<and> in_body (rx_pos p + 1) q \<and> rx_end q = e \<and> 6 * room q + 4 < fuel \<and> s_panicked (rx_scanner q)"
proof -
  let ?p = "incPos 1 p"
  define r where "r = snd (scanCharacterEscape True ?p)"
  have at: "check_at t e ?p" by (rule check_at_incPos [OF assms(1)])
  have ch: "rx_char p = 0x5C" using check_at_char [OF assms(1,2)] assms(3) by simp
  have behind: "behind (CHR 0x5C) ?p" by (rule behind_backslash [OF ch])
  have ch1: "rx_char ?p = 0xE2"
    using check_at_char [OF at] separator_nth(2) [OF assms(5)] assms(4) by simp
  have len: "e < length t" using assms(1) by (simp add: check_at_def)
  have body: "in_body (rx_pos p + 1) ?p"
  proof -
    have "\<not> IsLineBreak (fst (DecodeRune (drop i t)))" if "rx_pos p + 1 < i" "i < e" "t ! (i - 1) = CHR 0x5C" for i
      using body_no_breaks [of i t] that assms(6,7) len by (auto simp: escaped_between_def list_ex_iff)
    then show ?thesis
      using at assms(4) by (auto simp: in_body_def check_at_def slash_end_def rx_pos_def rx_text_def incPos_def on_scanner_def)
  qed
  have step: "rx_step 0 ?p r" unfolding r_def by (rule scanCharacterEscape_step [OF body behind])
  have esc: "scanAtomEscape suggest ?p = on_scanner panic r"
    unfolding r_def using separator_escape [OF at _ _ behind] assms(4,5) by simp
  have same: "in_body (rx_pos p + 1) (on_scanner panic r) = in_body (rx_pos p + 1) r" "room (on_scanner panic r) = room r"
    by (simp_all add: in_body_def room_def on_scanner_def panic_def rx_pos_def rx_text_def slash_end_def)
  have "room r \<le> room ?p" by (rule rx_step_room [OF step])
  also have "\<dots> \<le> 2 * (e - rx_pos p)" using at assms(2) by (simp add: room_def check_at_def)
  finally have "6 * room r + 4 < fuel" using assms(8) len by linarith
  moreover have "pattern_scan suggest (Suc fuel) (Alternative g b) p
      = pattern_scan suggest fuel (Alternative g True) (on_scanner panic r)"
    using assms(1,2) ch ch1 esc by (simp add: scanAlternative_def term_step_def Let_def check_at_def)
  moreover have "in_body (rx_pos p + 1) r" by (rule rx_step_in_body [OF step body])
  moreover have "s_panicked (rx_scanner (on_scanner panic r))" "rx_end (on_scanner panic r) = e"
    using rx_go_text(2) [of 0 ?p r] step at by (simp_all add: on_scanner_def panic_def rx_step_def check_at_def)
  ultimately show ?thesis using same by metis
qed


lemma separator_run:
  assumes "check_at t e p" "list_all (\<lambda>i. plain_char (t ! i)) [rx_pos p..<k]" "rx_pos p \<le> k" "t ! k = CHR 0x5C" "k + 4 \<le> e"
    and "separator_bytes (drop (k + 1) t)" "\<not> escaped_between t (k + 1) e"
    and "\<And>i. rx_pos p \<le> i \<Longrightarrow> i < e \<Longrightarrow> \<not> IsLineBreak (rune_of (t ! i))"
    and "20 * length t < fuel"
  shows "\<exists>q. run fuel suggest p = Some q \<and> s_panicked (rx_scanner q)"
proof -
  define n where "n = k - rx_pos p"
  define p0 where "p0 = p\<lparr>anyUnicodeModeOrNonAnnexB := anyUnicodeMode p \<or> \<not> annexB p\<rparr>"
  define p1 where "p1 = p0\<lparr>namedCapturingGroups := [] # namedCapturingGroups p0\<rparr>"
  have len: "e < length t" using assms(1) by (simp add: check_at_def)
  have p1: "check_at t e p1" "rx_pos p1 = rx_pos p"
    using assms(1) by (simp_all add: p1_def p0_def check_at_def rx_pos_def rx_text_def)
  obtain f where f: "fuel = Suc (n + Suc f)" "12 * length t + 10 < f"
  proof
    show "fuel = Suc (n + Suc (fuel - n - 2))" "12 * length t + 10 < fuel - n - 2"
      using assms(3,5,9) len by (simp_all add: n_def)
  qed
  let ?k = "incPos n p1"
  have k: "check_at t e ?k" "rx_pos ?k = k" using check_at_incPos [OF p1(1)] p1(2) assms(3) by (simp_all add: n_def)
  obtain b' where b': "pattern_scan suggest (n + Suc f) (Alternative False False) p1
      = pattern_scan suggest (Suc f) (Alternative False b') ?k"
    using plain_prefix [OF p1(1), of n suggest "Suc f" False False] assms(2,3,5) p1(2) by (auto simp: n_def)
  obtain q where q: "pattern_scan suggest (Suc f) (Alternative False b') ?k = pattern_scan suggest f (Alternative False True) q"
    "in_body (k + 1) q" "6 * room q + 4 < f" "s_panicked (rx_scanner q)" "rx_end q = e"
    using separator_check [of t e ?k f suggest False b'] k assms(3-8) f(2) by auto
  obtain q1 where q1: "pattern_scan suggest f (Alternative False True) q = Some q1" "rx_go 0 q q1"
    using pattern_scan_returns [OF q(2,3)] by blast
  define p2 where "p2 = q1\<lparr>namedCapturingGroups := tl (namedCapturingGroups q1)\<rparr>"
  have p2: "in_body (k + 1) p2" "s_panicked (rx_scanner p2)" "rx_end p2 = e"
    using rx_go_in_body [OF q1(2) q(2)] rx_go_panicked [OF q1(2)] rx_go_text(2) [OF q1(2)] q(4,5) by (simp_all add: p2_def)
  have alt: "\<exists>r. pattern_scan suggest (n + Suc f) (Disjunction False names) (incPos 1 p2) = Some r
      \<and> s_panicked (rx_scanner r)" if "rx_char p2 = 0x7C" for names
  proof -
    have go: "rx_go 1 p2 (incPos 1 p2)" using incPos_char [OF that] by simp
    have "room (incPos 1 p2) \<le> 2 * e + 1"
      using rx_go_text(2) [OF go] p2(3) by (auto simp: room_def)
    then have "6 * room (incPos 1 p2) + 4 < n + Suc f" using f(2) len by linarith
    from pattern_scan_returns [OF rx_go_in_body [OF go p2(1)] this]
    show ?thesis using rx_go_panicked [OF go] rx_go_panicked p2(2) by metis
  qed
  have "\<exists>r. pattern_scan suggest fuel (Disjunction False []) p0 = Some r \<and> s_panicked (rx_scanner r)"
    using b' q(1) q1(1) alt p2(2) unfolding f(1)
    by (auto simp: scanDisjunction_def p1_def [symmetric] p2_def [symmetric] Let_def split: list.split)
  then obtain r where r: "pattern_scan suggest fuel (Disjunction False []) p0 = Some r" "s_panicked (rx_scanner r)" by blast
  have "rx_go 0 r (let p = fold (check_reference suggest) (groupNameReferences r) r in fold check_decimal (decimalEscapes p) p)"
    by (simp add: Let_def)
  from rx_go_panicked [OF this] r show ?thesis by (simp add: run_def p0_def)
qed

section \<open>The literal\<close>

text \<open>
  A scanner behind the first slash of a literal whose body has \<open>n\<close> plain characters, a backslash and
  a separator, and no other separator behind a backslash; the literal is closed.
\<close>

definition at_separator_literal :: "nat \<Rightarrow> Scanner \<Rightarrow> bool" where
  "at_separator_literal n s \<longleftrightarrow>
    (let t = s_text s; a = s_tokenStart s + 1; k = a + n; r = body_end t (s_end s) a False False False
     in list_all (\<lambda>i. plain_char (t ! i)) [a..<k] \<and> k + 4 \<le> length t \<and> t ! k = CHR 0x5C
       \<and> separator_bytes (drop (k + 1) t) \<and> \<not> fst (snd r) \<and> \<not> escaped_between t (k + 1) (fst r)
       \<and> \<not> hasFlag s TokenFlagsUnterminated)"

text \<open>C9: A body with a backslash before a line or paragraph separator crashes the check: the search for
  the end of the literal looks for line breaks byte by byte and does not see U+2028 and U+2029, so
  the body is accepted; the escape is then an empty line continuation, and the assertion that an
  escape consumes something fails. It does so behind any number of plain characters and for every
  rest of the literal that closes it and has no further such pair. Without the check the literal is
  scanned, and nothing panics.\<close>

theorem line_separator_panics:
  assumes "at_slash fuel s" "at_separator_literal n s" "20 * length (s_text s) < fuel"
  shows "(\<exists>t. ReScanSlashToken fuel suggest True s = Some (KindRegularExpressionLiteral, t) \<and> s_panicked t)
    \<and> (\<exists>t. ReScanSlashToken fuel suggest False s = Some (KindRegularExpressionLiteral, t)
         \<and> s_panicked t = s_panicked s)"
proof -
  define t a k where "t = s_text s" and "a = s_tokenStart s + 1" and "k = s_tokenStart s + 1 + n"
  obtain e u g where r: "body_end t (s_end s) a False False False = (e, u, g)"
    by (cases "body_end t (s_end s) a False False False") auto
  have s: "s_end s = length t" "s_token s = KindSlashToken \<or> s_token s = KindSlashEqualsToken"
    using assms(1) by (auto simp: at_slash_def t_def)
  have h: "list_all (\<lambda>i. plain_char (t ! i)) [a..<k]" "k + 4 \<le> length t" "t ! k = CHR 0x5C"
    "separator_bytes (drop (k + 1) t)" "\<not> u" "\<not> escaped_between t (k + 1) e" "\<not> hasFlag s TokenFlagsUnterminated"
    using assms(2) r by (simp_all add: at_separator_literal_def Let_def t_def a_def k_def)
  have "body_end t (s_end s) a False False False = body_end t (s_end s) (k + 4) False False False"
    using body_end_plain [OF h(1)] body_end_separator [OF h(3,4)] h(2) s(1) by (simp add: a_def k_def)
  then have "body_end t (s_end s) (k + 4) False False False = (e, u, g)" using r by simp
  from body_end_bounds [OF this] h(2) s(1) have ke: "k + 4 \<le> e" by simp
  have "a \<le> s_end s" using h(2) s(1) by (simp add: a_def k_def)
  from body_end_bounds [OF r this] h(5) s(1)
  have e: "e < length t" "t ! e = CHR ''/''" "\<And>i. a \<le> i \<Longrightarrow> i < e \<Longrightarrow> \<not> IsLineBreak (rune_of (t ! i))" by auto
  obtain p fl s' where f: "literal_flags True (e + 1) 0 s = (p, fl, s')" by (cases "literal_flags True (e + 1) 0 s") auto
  obtain es where s': "s' = s\<lparr>s_errors := es\<rparr>" using literal_flags_errors [of True "e + 1" 0 s] f by auto
  let ?P = "new_parser (s'\<lparr>s_pos := a, s_end := e\<rparr>) e fl g"
  have at: "check_at t e ?P" "rx_pos ?P = a"
    using e by (simp_all add: check_at_def new_parser_def rx_text_def rx_pos_def s' t_def)
  obtain q where q: "run fuel suggest ?P = Some q" "s_panicked (rx_scanner q)"
  proof -
    have "\<exists>q. run fuel suggest ?P = Some q \<and> s_panicked (rx_scanner q)"
      by (rule separator_run [OF at(1) _ _ h(3) ke h(4,6), unfolded at(2), OF h(1) _ e(3)])
         (use assms(3) in \<open>simp_all add: a_def k_def t_def\<close>)
    then show thesis using that by blast
  qed
  then have "\<exists>t. ReScanSlashToken fuel suggest True s = Some (KindRegularExpressionLiteral, t) \<and> s_panicked t"
    using s(2) r h(5,7) f
    by (auto simp: ReScanSlashToken_def t_def a_def terminated_def check_body_def)
  moreover obtain t' where "ReScanSlashToken fuel suggest False s = Some (KindRegularExpressionLiteral, t')"
    "s_panicked t' = s_panicked s"
  proof -
    obtain x fl' where x: "map_option (\<lambda>(k, t). (k, scanned t)) (ReScanSlashToken fuel suggest False s)
      = Some (KindRegularExpressionLiteral, scanned (s\<lparr>s_pos := x, s_token := KindRegularExpressionLiteral,
          s_tokenValue := slc (s_text s) (s_tokenStart s) x, s_tokenFlags := fl'\<rparr>))"
      using ReScanSlashToken_scanned [OF assms(1), of False suggest] by metis
    then obtain kind t' where "ReScanSlashToken fuel suggest False s = Some (kind, t')" by auto
    with x that show thesis by (auto simp: scanned_def)
  qed
  ultimately show ?thesis by blast
qed

text \<open>The literal \<open>/ab\\<LS>c/g\<close>, where \<open><LS>\<close> is U+2028.\<close>

definition separator_example :: Scanner where
  "separator_example = (SetOnError True
     (SetText (''/ab'' @ [CHR 0x5C, CHR 0xE2, CHR 0x80, CHR 0xA8] @ ''c/g'') NewScanner))
     \<lparr>s_pos := 1, s_token := KindSlashToken\<rparr>"

lemma line_separator_panics_witness:
  "(\<exists>t. ReScanSlashToken 300 (\<lambda>_ _. []) True separator_example = Some (KindRegularExpressionLiteral, t) \<and> s_panicked t)
    \<and> (\<exists>t. ReScanSlashToken 300 (\<lambda>_ _. []) False separator_example = Some (KindRegularExpressionLiteral, t)
         \<and> s_panicked t = s_panicked separator_example)"
proof (rule line_separator_panics)
  show "at_separator_literal 2 separator_example" by code_simp
qed code_simp+

end
