(* ===== verification/SpanMap.thy ===== *)
theory SpanMap
  imports ScannerLines ScannerText GoInt "HOL-Library.Multiset"
begin

text \<open>
  The span maps of content mappers (\<^verbatim>\<open>spanmap/spanmap.go\<close>): segments that relate a virtual text to the
  original one, the lookups in both directions, the interval index for the second of them, validation
  and the tuples a map is sent as. Positions are 32-bit integers; an operation that may leave the range is
  wrapped. A nil map is \<open>None\<close>. \<open>slices.SortFunc\<close> is not stable, so the order it gives to equal elements
  is a parameter: each operation that sorts takes the sorting functions it uses.
\<close>

section \<open>Segments\<close>

abbreviation (input) KindVerbatim :: int where "KindVerbatim \<equiv> 0"
abbreviation (input) KindAtom :: int where "KindAtom \<equiv> 1"
abbreviation (input) KindAlias :: int where "KindAlias \<equiv> 2"

type_synonym Feature = "32 word"

abbreviation (input) FeatureAll :: Feature where "FeatureAll \<equiv> 0xFFFFF"

datatype Fidelity = FidelityExact | FidelityAtom | FidelityApproximate | FidelityNone

definition IsExact :: "Fidelity \<Rightarrow> bool" where
  "IsExact f \<longleftrightarrow> f = FidelityExact"

definition IsSingleSegment :: "Fidelity \<Rightarrow> bool" where
  "IsSingleSegment f \<longleftrightarrow> f = FidelityExact \<or> f = FidelityAtom"

definition IsNone :: "Fidelity \<Rightarrow> bool" where
  "IsNone f \<longleftrightarrow> f = FidelityNone"

record Segment =
  VirtualStart :: int
  VirtualEnd :: int
  OriginalStart :: int
  OriginalEnd :: int
  seg_Kind :: int
  Features :: Feature

text \<open>\<open>core.TextRange\<close>.\<close>

type_synonym TextRange = "int \<times> int"

record MappedPosition =
  mp_Position :: int
  mp_Fidelity :: Fidelity

record MappedSpan =
  ms_Span :: TextRange
  ms_Fidelity :: Fidelity

type_synonym SpanMap = "Segment list option"

definition supportsFeature :: "Segment \<Rightarrow> Feature \<Rightarrow> bool" where
  "supportsFeature segment feature \<longleftrightarrow> Features segment AND feature \<noteq> 0"

definition clamp :: "int \<Rightarrow> int \<Rightarrow> int \<Rightarrow> int" where
  "clamp v lo hi = max lo (min v hi)"

section \<open>Validation\<close>

datatype MappingErrorKind =
    MappingErrorKindOverlap | MappingErrorKindOutOfBounds | MappingErrorKindVerbatimMismatch
  | MappingErrorKindKind | MappingErrorKindFeature

record MappingError =
  me_Kind :: MappingErrorKind
  VirtualPos :: int
  OriginalPos :: int

definition format_int :: "int \<Rightarrow> string" where
  "format_int i = (if i < 0 then CHR ''-'' # format_nat 10 (nat (- i)) else format_nat 10 (nat i))"

definition MappingError_Error :: "MappingError \<Rightarrow> string" where
  "MappingError_Error p =
    (case me_Kind p of
       MappingErrorKindOverlap \<Rightarrow>
         ''content mapper position mappings overlap or are out of order near virtual offset '' @ format_int (VirtualPos p)
     | MappingErrorKindOutOfBounds \<Rightarrow>
         ''content mapper position mapping points outside the original content at original offset '' @ format_int (OriginalPos p)
     | MappingErrorKindVerbatimMismatch \<Rightarrow>
         ''content mapper verbatim mapping does not match the original content at virtual offset '' @ format_int (VirtualPos p)
           @ '', original offset '' @ format_int (OriginalPos p)
     | MappingErrorKindKind \<Rightarrow>
         ''content mapper position mapping has an invalid kind at virtual offset '' @ format_int (VirtualPos p)
     | MappingErrorKindFeature \<Rightarrow>
         ''content mapper position mappings have invalid features near original offset '' @ format_int (OriginalPos p))"

text \<open>The checks of one segment; the position where the segment before it ends comes first.\<close>

definition validate_segment :: "string \<Rightarrow> string \<Rightarrow> int \<Rightarrow> Segment \<Rightarrow> MappingError option" where
  "validate_segment virtual original previousVirtualEnd s =
    (if VirtualStart s < previousVirtualEnd \<or> VirtualEnd s < VirtualStart s \<or> VirtualEnd s > goInt32 (int (length virtual))
     then Some \<lparr>me_Kind = MappingErrorKindOverlap, VirtualPos = VirtualStart s, OriginalPos = 0\<rparr>
     else if OriginalStart s < 0 \<or> OriginalEnd s < OriginalStart s \<or> OriginalEnd s > goInt32 (int (length original))
     then Some \<lparr>me_Kind = MappingErrorKindOutOfBounds, VirtualPos = VirtualStart s, OriginalPos = OriginalEnd s\<rparr>
     else if seg_Kind s \<noteq> KindVerbatim \<and> seg_Kind s \<noteq> KindAtom \<and> seg_Kind s \<noteq> KindAlias
     then Some \<lparr>me_Kind = MappingErrorKindKind, VirtualPos = VirtualStart s, OriginalPos = OriginalStart s\<rparr>
     else if seg_Kind s = KindVerbatim
       \<and> (goInt32 (VirtualEnd s - VirtualStart s) \<noteq> goInt32 (OriginalEnd s - OriginalStart s)
          \<or> slc virtual (nat (VirtualStart s)) (nat (VirtualEnd s)) \<noteq> slc original (nat (OriginalStart s)) (nat (OriginalEnd s)))
     then Some \<lparr>me_Kind = MappingErrorKindVerbatimMismatch, VirtualPos = VirtualStart s, OriginalPos = OriginalStart s\<rparr>
     else if Features s AND NOT FeatureAll \<noteq> 0
     then Some \<lparr>me_Kind = MappingErrorKindFeature, VirtualPos = VirtualStart s, OriginalPos = OriginalStart s\<rparr>
     else None)"

fun validate_loop :: "string \<Rightarrow> string \<Rightarrow> int \<Rightarrow> Segment list \<Rightarrow> MappingError option" where
  "validate_loop virtual original previousVirtualEnd [] = None"
| "validate_loop virtual original previousVirtualEnd (s # ss) =
    (case validate_segment virtual original previousVirtualEnd s of
       Some e \<Rightarrow> Some e | None \<Rightarrow> validate_loop virtual original (VirtualEnd s) ss)"

definition Validate :: "SpanMap \<Rightarrow> string \<Rightarrow> string \<Rightarrow> MappingError option" where
  "Validate m virtual original = (case m of None \<Rightarrow> None | Some segments \<Rightarrow> validate_loop virtual original 0 segments)"

section \<open>Sorting\<close>

text \<open>The calls of \<open>slices.SortFunc\<close> at the three types, and what they promise.\<close>

type_synonym 'a sorter = "('a \<Rightarrow> 'a \<Rightarrow> int) \<Rightarrow> 'a list \<Rightarrow> 'a list"

definition weak_order :: "('a \<Rightarrow> 'a \<Rightarrow> int) \<Rightarrow> 'a set \<Rightarrow> bool" where
  "weak_order cmp A \<longleftrightarrow>
    (\<forall>a\<in>A. \<forall>b\<in>A. cmp a b < 0 \<longleftrightarrow> 0 < cmp b a) \<and> (\<forall>a\<in>A. \<forall>b\<in>A. \<forall>c\<in>A. cmp a b \<le> 0 \<longrightarrow> cmp b c \<le> 0 \<longrightarrow> cmp a c \<le> 0)"

definition SortFunc_contract :: "'a sorter \<Rightarrow> bool" where
  "SortFunc_contract sortFunc \<longleftrightarrow> (\<forall>cmp xs. weak_order cmp (set xs) \<longrightarrow>
    mset (sortFunc cmp xs) = mset xs \<and> sorted_wrt (\<lambda>a b. cmp a b \<le> 0) (sortFunc cmp xs))"

record sorters =
  sort_segments :: "Segment sorter"
  sort_positions :: "MappedPosition sorter"
  sort_spans :: "MappedSpan sorter"

definition sorters_ok :: "sorters \<Rightarrow> bool" where
  "sorters_ok S \<longleftrightarrow> SortFunc_contract (sort_segments S) \<and> SortFunc_contract (sort_positions S) \<and> SortFunc_contract (sort_spans S)"

definition NewSpanMap :: "sorters \<Rightarrow> Segment list \<Rightarrow> SpanMap" where
  "NewSpanMap S segments = Some (sort_segments S (\<lambda>a b. goInt32 (VirtualStart a - VirtualStart b)) segments)"

definition Segments :: "SpanMap \<Rightarrow> Segment list" where
  "Segments m = (case m of None \<Rightarrow> [] | Some segments \<Rightarrow> segments)"

section \<open>From the virtual text to the original\<close>

text \<open>The segment that contains the position, or the one before it (\<open>-1\<close> for none).\<close>

definition segmentIndexAt :: "Segment list \<Rightarrow> int \<Rightarrow> int \<times> bool" where
  "segmentIndexAt segments pos =
    (let idx = sort_Search (length segments) (\<lambda>i. \<not> goInt32 (VirtualStart (segments ! i) - pos) < 0);
         prev = int idx - 1
     in if idx < length segments \<and> goInt32 (VirtualStart (segments ! idx) - pos) = 0 then (int idx, True)
        else if 0 \<le> prev \<and> (pos < VirtualEnd (segments ! nat prev)
               \<or> prev = int (length segments) - 1 \<and> pos = VirtualEnd (segments ! nat prev))
        then (prev, True) else (prev, False))"

definition insertionPoint :: "Segment list \<Rightarrow> int \<Rightarrow> int" where
  "insertionPoint segments prev = (if prev < 0 then 0 else OriginalEnd (segments ! nat prev))"

text \<open>The position in the original that corresponds to one in a verbatim segment.\<close>

definition verbatim_position :: "Segment \<Rightarrow> int \<Rightarrow> int" where
  "verbatim_position seg pos =
    clamp (goInt32 (OriginalStart seg + goInt32 (pos - VirtualStart seg))) (OriginalStart seg) (OriginalEnd seg)"

definition mapLow :: "Segment list \<Rightarrow> int \<Rightarrow> int \<Rightarrow> bool \<Rightarrow> int" where
  "mapLow segments pos idx inside =
    (if \<not> inside then insertionPoint segments idx
     else let seg = segments ! nat idx in
       if seg_Kind seg = KindVerbatim then verbatim_position seg pos else OriginalStart seg)"

definition mapHigh :: "Segment list \<Rightarrow> int \<Rightarrow> int \<Rightarrow> bool \<Rightarrow> int" where
  "mapHigh segments pos idx inside =
    (if \<not> inside then insertionPoint segments idx
     else let seg = segments ! nat idx in
       if seg_Kind seg = KindVerbatim then verbatim_position seg pos else OriginalEnd seg)"

definition VirtualToOriginalPosition :: "SpanMap \<Rightarrow> int \<Rightarrow> int \<times> Fidelity" where
  "VirtualToOriginalPosition m pos =
    (case m of
       None \<Rightarrow> (pos, FidelityExact)
     | Some segments \<Rightarrow>
         (case segmentIndexAt segments pos of
            (idx, inside) \<Rightarrow>
              if \<not> inside then (insertionPoint segments idx, FidelityNone)
              else let seg = segments ! nat idx in
                if seg_Kind seg = KindVerbatim then (verbatim_position seg pos, FidelityExact)
                else (OriginalStart seg, FidelityAtom)))"

definition VirtualToOriginalSpan :: "SpanMap \<Rightarrow> TextRange \<Rightarrow> TextRange \<times> Fidelity" where
  "VirtualToOriginalSpan m r =
    (case m of
       None \<Rightarrow> (r, FidelityExact)
     | Some segments \<Rightarrow>
         let virtualStart = fst r; virtualEnd = max (snd r) virtualStart in
         if virtualStart = virtualEnd then
           (case VirtualToOriginalPosition m virtualStart of (position, fidelity) \<Rightarrow> ((position, position), fidelity))
         else
           (case segmentIndexAt segments virtualStart of
              (startIdx, startIn) \<Rightarrow>
                (case segmentIndexAt segments (goInt32 (virtualEnd - 1)) of
                   (endIdx, endIn) \<Rightarrow>
                     if startIdx = endIdx \<and> startIn = endIn then
                       if startIn then
                         (let seg = segments ! nat startIdx in
                          if seg_Kind seg = KindVerbatim then
                            (let origStart = verbatim_position seg virtualStart;
                                 origEnd = clamp (goInt32 (OriginalStart seg + goInt32 (virtualEnd - VirtualStart seg)))
                                   origStart (OriginalEnd seg)
                             in ((origStart, origEnd), FidelityExact))
                          else ((OriginalStart seg, OriginalEnd seg), FidelityAtom))
                       else (let pos = insertionPoint segments startIdx in ((pos, pos), FidelityNone))
                     else
                       (let origStart = mapLow segments virtualStart startIdx startIn;
                            origEnd = max (mapHigh segments virtualEnd endIdx endIn) origStart
                        in ((origStart, origEnd), FidelityApproximate)))))"

text \<open>The loop of \<open>virtualSpanSupportsFeature\<close> over the segments from the first one on.\<close>

fun covers_loop :: "Segment list \<Rightarrow> int \<Rightarrow> int \<Rightarrow> Feature \<Rightarrow> bool" where
  "covers_loop [] coveredThrough e feature \<longleftrightarrow> e \<le> coveredThrough"
| "covers_loop (segment # segments) coveredThrough e feature \<longleftrightarrow>
    (if \<not> coveredThrough < e then True
     else if VirtualStart segment > coveredThrough \<or> VirtualEnd segment \<le> coveredThrough \<or> \<not> supportsFeature segment feature
     then False
     else covers_loop segments (VirtualEnd segment) e feature)"

definition virtualSpanSupportsFeature :: "Segment list \<Rightarrow> TextRange \<Rightarrow> Feature \<Rightarrow> bool" where
  "virtualSpanSupportsFeature segments r feature \<longleftrightarrow>
    (let start = fst r; e = max (snd r) start in
     case segmentIndexAt segments start of
       (index, inside) \<Rightarrow>
         inside \<and> (if start = e then supportsFeature (segments ! nat index) feature
           else covers_loop (drop (nat index) segments) start e feature))"

definition VirtualToOriginalSpanForFeature :: "SpanMap \<Rightarrow> TextRange \<Rightarrow> Feature \<Rightarrow> TextRange \<times> Fidelity" where
  "VirtualToOriginalSpanForFeature m r feature =
    (case VirtualToOriginalSpan m r of
       (mapped, fidelity) \<Rightarrow>
         (case m of
            None \<Rightarrow> (mapped, fidelity)
          | Some segments \<Rightarrow> if virtualSpanSupportsFeature segments r feature then (mapped, fidelity) else (mapped, FidelityNone)))"

definition VirtualToOriginalPositionExact :: "SpanMap \<Rightarrow> int \<Rightarrow> int \<times> bool" where
  "VirtualToOriginalPositionExact m pos =
    (case VirtualToOriginalPosition m pos of
       (mapped, fidelity) \<Rightarrow>
         (case m of
            None \<Rightarrow> (mapped, fidelity = FidelityExact)
          | Some segments \<Rightarrow>
              if fidelity \<noteq> FidelityExact then (mapped, fidelity = FidelityExact)
              else
                (case segmentIndexAt segments pos of
                   (index, inside) \<Rightarrow>
                     if \<not> inside \<or> seg_Kind (segments ! nat index) \<noteq> KindVerbatim then (mapped, False)
                     else if index > 0 then
                       (let previous = segments ! nat (index - 1) in
                        if VirtualEnd previous = pos
                          \<and> (seg_Kind previous \<noteq> KindVerbatim \<or> OriginalEnd previous \<noteq> OriginalStart (segments ! nat index))
                        then (mapped, False) else (mapped, True))
                     else (mapped, True))))"

definition VirtualToOriginalPositionForFeature :: "SpanMap \<Rightarrow> int \<Rightarrow> Feature \<Rightarrow> int \<times> Fidelity" where
  "VirtualToOriginalPositionForFeature m pos feature =
    (case VirtualToOriginalPosition m pos of
       (mapped, fidelity) \<Rightarrow>
         (case m of
            None \<Rightarrow> (mapped, fidelity)
          | Some segments \<Rightarrow>
              (case segmentIndexAt segments pos of
                 (index, inside) \<Rightarrow>
                   if \<not> inside \<or> \<not> supportsFeature (segments ! nat index) feature then (mapped, FidelityNone)
                   else (mapped, fidelity))))"

text \<open>\<open>None\<close> stands for the result \<open>false\<close> without a segment; the flag is that of the result with one.\<close>

definition AliasForVirtualSpan :: "SpanMap \<Rightarrow> TextRange \<Rightarrow> (Segment \<times> bool) option" where
  "AliasForVirtualSpan m r =
    (case m of
       None \<Rightarrow> None
     | Some segments \<Rightarrow>
         (case segmentIndexAt segments (fst r) of
            (index, inside) \<Rightarrow>
              if \<not> inside then None
              else let segment = segments ! nat index in
                Some (segment, seg_Kind segment = KindAlias \<and> fst r = VirtualStart segment \<and> snd r = VirtualEnd segment)))"


section \<open>The interval index of the original text\<close>

record originalIndex =
  oi_segments :: "Segment list"
  leafCount :: nat
  maxEnds :: "int list"

text \<open>The smallest power of two, from \<open>c\<close> on, that is not below \<open>n\<close>.\<close>

function (sequential) leaf_count :: "nat \<Rightarrow> nat \<Rightarrow> nat" where
  "leaf_count n c = (if 0 < c \<and> c < n then leaf_count n (2 * c) else c)"
  by pat_completeness auto
termination
  by (relation "measure (\<lambda>(n, c). n - c)") auto

declare leaf_count.simps [simp del]

text \<open>The tree is flat: the children of node \<open>i\<close> are \<open>2 * i\<close> and \<open>2 * i + 1\<close>, the leaves come last.\<close>

definition fill_leaves :: "Segment list \<Rightarrow> nat \<Rightarrow> int list" where
  "fill_leaves segments leaves =
    fold (\<lambda>i ends. ends[leaves + i := OriginalEnd (segments ! i)]) [0..<length segments] (replicate (2 * leaves) 0)"

definition fill_nodes :: "nat \<Rightarrow> int list \<Rightarrow> int list" where
  "fill_nodes leaves ends0 =
    fold (\<lambda>i ends. ends[i := max (ends ! (2 * i)) (ends ! (2 * i + 1))]) (rev [1..<leaves]) ends0"

definition compare_original :: "Segment \<Rightarrow> Segment \<Rightarrow> int" where
  "compare_original a b =
    (let c = goInt32 (OriginalStart a - OriginalStart b); d = goInt32 (OriginalEnd a - OriginalEnd b) in
     if c \<noteq> 0 then c else if d \<noteq> 0 then d else goInt32 (VirtualStart a - VirtualStart b))"

definition origIndex :: "sorters \<Rightarrow> Segment list \<Rightarrow> originalIndex" where
  "origIndex S segments0 =
    (let segments = sort_segments S compare_original segments0;
         leaves = leaf_count (length segments) 1
     in \<lparr>oi_segments = segments, leafCount = leaves, maxEnds = fill_nodes leaves (fill_leaves segments leaves)\<rparr>)"

text \<open>The subtree at \<open>node\<close> holds the leaves from \<open>start\<close> to \<open>e\<close>.\<close>

function (sequential) collectSegmentsEndingAtOrAfter ::
    "originalIndex \<Rightarrow> nat \<Rightarrow> nat \<Rightarrow> nat \<Rightarrow> nat \<Rightarrow> int \<Rightarrow> bool \<Rightarrow> Segment list" where
  "collectSegmentsEndingAtOrAfter ix node start e limit pos includeEnd =
    (if limit \<le> start \<or> maxEnds ix ! node < pos \<or> \<not> includeEnd \<and> maxEnds ix ! node = pos then []
     else if e - start \<le> 1 then [oi_segments ix ! start]
     else
       let middle = start + (e - start) div 2 in
       collectSegmentsEndingAtOrAfter ix (2 * node) start middle limit pos includeEnd
       @ collectSegmentsEndingAtOrAfter ix (2 * node + 1) middle e limit pos includeEnd)"
  by pat_completeness auto
termination
  by (relation "measure (\<lambda>(ix, node, start, e, _). e - start)") auto

declare collectSegmentsEndingAtOrAfter.simps [simp del]

definition segmentsEndingAfterPosition :: "originalIndex \<Rightarrow> nat \<Rightarrow> int \<Rightarrow> Segment list" where
  "segmentsEndingAfterPosition ix limit pos = collectSegmentsEndingAtOrAfter ix 1 0 (leafCount ix) limit pos False"

definition segmentsAtOriginalPosition :: "originalIndex \<Rightarrow> int \<Rightarrow> Segment list" where
  "segmentsAtOriginalPosition ix pos =
    (let segments = oi_segments ix;
         start = sort_Search (length segments) (\<lambda>i. OriginalStart (segments ! i) \<ge> pos);
         e = sort_Search (length segments) (\<lambda>i. OriginalStart (segments ! i) > pos)
     in segmentsEndingAfterPosition ix start pos @ slc segments start e)"

definition sameOriginalRange :: "Segment \<Rightarrow> Segment \<Rightarrow> bool" where
  "sameOriginalRange left right \<longleftrightarrow> OriginalStart left = OriginalStart right \<and> OriginalEnd left = OriginalEnd right"

text \<open>The groups of equal range, each with \<open>atEnd\<close>.\<close>

function segment_groups :: "int \<Rightarrow> Segment list \<Rightarrow> (Segment list \<times> bool) list" where
  "segment_groups pos [] = []"
| "segment_groups pos (segment # segments) =
    (let same = takeWhile (sameOriginalRange segment) segments;
         rest = segment_groups pos (dropWhile (sameOriginalRange segment) segments)
     in if pos \<le> OriginalEnd segment
        then (segment # same, pos = OriginalEnd segment \<and> pos \<noteq> OriginalStart segment) # rest else rest)"
  by pat_completeness auto
termination
  by (relation "measure (\<lambda>(_, segments). length segments)") (auto simp: le_imp_less_Suc length_dropWhile_le)

definition segmentGroupsAtOriginalPosition :: "originalIndex \<Rightarrow> int \<Rightarrow> (Segment list \<times> bool) list" where
  "segmentGroupsAtOriginalPosition ix pos =
    (let limit = sort_Search (length (oi_segments ix)) (\<lambda>i. OriginalStart (oi_segments ix ! i) > pos)
     in segment_groups pos (collectSegmentsEndingAtOrAfter ix 1 0 (leafCount ix) limit pos True))"

section \<open>From the original text to the virtual\<close>

text \<open>The position in the virtual text that corresponds to one in a verbatim segment.\<close>

definition virtual_position :: "Segment \<Rightarrow> int \<Rightarrow> int" where
  "virtual_position segment pos =
    clamp (goInt32 (VirtualStart segment + goInt32 (pos - OriginalStart segment))) (VirtualStart segment) (VirtualEnd segment)"

definition project_position :: "int \<Rightarrow> bool \<Rightarrow> Segment \<Rightarrow> MappedPosition" where
  "project_position pos atEnd segment =
    (if seg_Kind segment = KindVerbatim
     then \<lparr>mp_Position = virtual_position segment pos, mp_Fidelity = FidelityExact\<rparr>
     else \<lparr>mp_Position = (if atEnd then VirtualEnd segment else VirtualStart segment), mp_Fidelity = FidelityAtom\<rparr>)"

definition add_projection :: "int \<Rightarrow> Feature \<Rightarrow> bool \<Rightarrow> Segment \<Rightarrow> MappedPosition list \<Rightarrow> MappedPosition list" where
  "add_projection pos feature atEnd segment results =
    (if \<not> supportsFeature segment feature then results
     else let mapped = project_position pos atEnd segment in
       if mapped \<in> set results then results else results @ [mapped])"

definition OriginalToVirtualPositions :: "sorters \<Rightarrow> SpanMap \<Rightarrow> int \<Rightarrow> Feature \<Rightarrow> MappedPosition list" where
  "OriginalToVirtualPositions S m pos feature =
    (case m of
       None \<Rightarrow> [\<lparr>mp_Position = pos, mp_Fidelity = FidelityExact\<rparr>]
     | Some segments \<Rightarrow>
         let groups = segmentGroupsAtOriginalPosition (origIndex S segments) pos in
         if groups = [] then []
         else
           sort_positions S (\<lambda>a b. goInt32 (mp_Position a - mp_Position b))
             (fold (\<lambda>(group, atEnd). fold (add_projection pos feature atEnd) group) groups []))"

definition originalStartProjections :: "Segment list \<Rightarrow> int \<Rightarrow> Feature \<Rightarrow> int list" where
  "originalStartProjections segments start feature =
    map (\<lambda>segment. if seg_Kind segment = KindVerbatim then virtual_position segment start else VirtualStart segment)
      (filter (\<lambda>segment. supportsFeature segment feature) segments)"

definition originalEndProjections :: "Segment list \<Rightarrow> int \<Rightarrow> Feature \<Rightarrow> int list" where
  "originalEndProjections segments e feature =
    map (\<lambda>segment. if seg_Kind segment = KindVerbatim then virtual_position segment e else VirtualEnd segment)
      (filter (\<lambda>segment. supportsFeature segment feature) segments)"

definition project_span :: "int \<Rightarrow> int \<Rightarrow> Segment \<Rightarrow> MappedSpan" where
  "project_span start e segment =
    (if seg_Kind segment = KindVerbatim then
       (let virtualStart = virtual_position segment start;
            virtualEnd = clamp (goInt32 (VirtualStart segment + goInt32 (e - OriginalStart segment))) virtualStart (VirtualEnd segment)
        in \<lparr>ms_Span = (virtualStart, virtualEnd), ms_Fidelity = FidelityExact\<rparr>)
     else \<lparr>ms_Span = (VirtualStart segment, VirtualEnd segment), ms_Fidelity = FidelityAtom\<rparr>)"

definition originalToVirtualSpansInSegments :: "Segment list \<Rightarrow> int \<Rightarrow> int \<Rightarrow> Feature \<Rightarrow> MappedSpan list" where
  "originalToVirtualSpansInSegments segments start e feature =
    map (project_span start e) (filter (\<lambda>segment. supportsFeature segment feature) segments)"

text \<open>The smallest range around each start: the first end not before it, unless a later start fits.\<close>

fun pair_boundaries :: "int list \<Rightarrow> int list \<Rightarrow> MappedSpan list" where
  "pair_boundaries [] ends = []"
| "pair_boundaries (virtualStart # starts) ends =
    (let endIndex = sort_Search (length ends) (\<lambda>i. \<not> ends ! i < virtualStart) in
     if endIndex = length ends \<or> (starts \<noteq> [] \<and> hd starts \<le> ends ! endIndex) then pair_boundaries starts ends
     else \<lparr>ms_Span = (virtualStart, ends ! endIndex), ms_Fidelity = FidelityApproximate\<rparr> # pair_boundaries starts ends)"

definition OriginalToVirtualSpans :: "sorters \<Rightarrow> SpanMap \<Rightarrow> TextRange \<Rightarrow> Feature \<Rightarrow> MappedSpan list" where
  "OriginalToVirtualSpans S m r feature =
    (case m of
       None \<Rightarrow> [\<lparr>ms_Span = r, ms_Fidelity = FidelityExact\<rparr>]
     | Some segments \<Rightarrow>
         let start = fst r; e = max (snd r) start in
         if start = e then
           map (\<lambda>p. \<lparr>ms_Span = (mp_Position p, mp_Position p), ms_Fidelity = mp_Fidelity p\<rparr>)
             (OriginalToVirtualPositions S m start feature)
         else
           let ix = origIndex S segments;
               startSegments = segmentsAtOriginalPosition ix start;
               endSegments = segmentsAtOriginalPosition ix (goInt32 (e - 1));
               results = originalToVirtualSpansInSegments (filter (\<lambda>segment. e \<le> OriginalEnd segment) startSegments) start e feature
           in if startSegments = [] \<or> endSegments = [] then []
              else if results \<noteq> [] then sort_spans S (\<lambda>a b. fst (ms_Span a) - fst (ms_Span b)) results
              else
                let starts = originalStartProjections startSegments start feature;
                    ends = originalEndProjections endSegments e feature
                in if starts = [] \<or> ends = [] then [] else pair_boundaries (sort starts) (sort ends))"

definition intersect_segment :: "TextRange \<Rightarrow> Feature \<Rightarrow> Segment \<Rightarrow> MappedSpan list" where
  "intersect_segment r feature segment =
    (let start = max (fst r) (OriginalStart segment); e = min (snd r) (OriginalEnd segment) in
     if \<not> supportsFeature segment feature \<or> start \<ge> e then []
     else if seg_Kind segment = KindVerbatim then
       [\<lparr>ms_Span = (goInt32 (VirtualStart segment + goInt32 (start - OriginalStart segment)),
           goInt32 (VirtualStart segment + goInt32 (e - OriginalStart segment))), ms_Fidelity = FidelityExact\<rparr>]
     else [\<lparr>ms_Span = (VirtualStart segment, VirtualEnd segment), ms_Fidelity = FidelityAtom\<rparr>])"

definition OriginalToVirtualIntersectingSpans :: "sorters \<Rightarrow> SpanMap \<Rightarrow> TextRange \<Rightarrow> Feature \<Rightarrow> MappedSpan list" where
  "OriginalToVirtualIntersectingSpans S m r feature =
    (case m of
       None \<Rightarrow> [\<lparr>ms_Span = r, ms_Fidelity = FidelityExact\<rparr>]
     | Some segments \<Rightarrow>
         if fst r = snd r then OriginalToVirtualSpans S m r feature
         else concat (map (intersect_segment r feature) segments))"

section \<open>The tuples of a map\<close>

text \<open>
  The JSON text of the tuples is the library's. The error of a tuple of the wrong length is its index and its
  length; \<open>word\<close> reads a 32-bit integer as a mask.
\<close>

definition tuple_segment :: "int list \<Rightarrow> Segment" where
  "tuple_segment t =
    \<lparr>VirtualStart = t ! 0, VirtualEnd = goInt32 (t ! 0 + t ! 1), OriginalStart = t ! 2,
     OriginalEnd = goInt32 (t ! 2 + t ! 3), seg_Kind = t ! 4,
     Features = (if length t = 6 then word_of_int (t ! 5) else FeatureAll)\<rparr>"

fun unmarshal_loop :: "nat \<Rightarrow> int list list \<Rightarrow> (nat \<times> nat) + Segment list" where
  "unmarshal_loop i [] = Inr []"
| "unmarshal_loop i (t # ts) =
    (if length t \<noteq> 5 \<and> length t \<noteq> 6 then Inl (i, length t)
     else case unmarshal_loop (i + 1) ts of Inl e \<Rightarrow> Inl e | Inr segments \<Rightarrow> Inr (tuple_segment t # segments))"

definition Unmarshal :: "sorters \<Rightarrow> int list list \<Rightarrow> (nat \<times> nat) + SpanMap" where
  "Unmarshal S tuples =
    (case unmarshal_loop 0 tuples of Inl e \<Rightarrow> Inl e | Inr segments \<Rightarrow> Inr (NewSpanMap S segments))"

definition segment_tuple :: "Segment \<Rightarrow> int list" where
  "segment_tuple s =
    [VirtualStart s, goInt32 (VirtualEnd s - VirtualStart s), OriginalStart s,
     goInt32 (OriginalEnd s - OriginalStart s), seg_Kind s]
    @ (if Features s \<noteq> FeatureAll then [sint (Features s)] else [])"

definition Marshal :: "Segment list \<Rightarrow> int list list" where
  "Marshal segments = map segment_tuple segments"

end
