(* ===== verification/SpanMapProps.thy ===== *)
theory SpanMapProps
  imports SpanMap ScannerLinesProps
begin

text \<open>
  What a validated span map guarantees: lookups find the segment of a position, an exact mapping keeps
  the text, and the interval index finds the segments that contain a position of the original.
\<close>

section \<open>Validated maps\<close>

text \<open>The lengths of texts fit positions.\<close>

abbreviation (input) fits :: "string \<Rightarrow> bool" where "fits t \<equiv> length t < 2 ^ 31"

definition seg_ok :: "string \<Rightarrow> string \<Rightarrow> Segment \<Rightarrow> bool" where
  "seg_ok v t s \<longleftrightarrow> 0 \<le> VirtualStart s \<and> VirtualStart s \<le> VirtualEnd s \<and> VirtualEnd s \<le> int (length v)
    \<and> 0 \<le> OriginalStart s \<and> OriginalStart s \<le> OriginalEnd s \<and> OriginalEnd s \<le> int (length t)
    \<and> (seg_Kind s = KindVerbatim \<longrightarrow> VirtualEnd s - VirtualStart s = OriginalEnd s - OriginalStart s
        \<and> slc v (nat (VirtualStart s)) (nat (VirtualEnd s)) = slc t (nat (OriginalStart s)) (nat (OriginalEnd s)))"

lemma validate_segment_ok:
  assumes "validate_segment v t p s = None" "0 \<le> p" "fits v" "fits t"
  shows "seg_ok v t s \<and> p \<le> VirtualStart s"
proof -
  have "goInt32 (int (length v)) = int (length v)" "goInt32 (int (length t)) = int (length t)" using assms(3,4) by simp_all
  moreover have "goInt32 (VirtualEnd s - VirtualStart s) = VirtualEnd s - VirtualStart s"
    "goInt32 (OriginalEnd s - OriginalStart s) = OriginalEnd s - OriginalStart s"
    if "0 \<le> VirtualStart s" "VirtualStart s \<le> VirtualEnd s" "VirtualEnd s \<le> int (length v)"
      "0 \<le> OriginalStart s" "OriginalStart s \<le> OriginalEnd s" "OriginalEnd s \<le> int (length t)"
    using that assms(3,4) by simp_all
  ultimately show ?thesis
    using assms(1,2) unfolding validate_segment_def seg_ok_def by (auto split: if_splits)
qed

definition spans_ordered :: "Segment list \<Rightarrow> bool" where
  "spans_ordered segments \<longleftrightarrow> sorted_wrt (\<lambda>a b. VirtualEnd a \<le> VirtualStart b) segments"

lemma validate_loop_ok:
  "validate_loop v t p segments = None \<Longrightarrow> 0 \<le> p \<Longrightarrow> fits v \<Longrightarrow> fits t \<Longrightarrow>
    spans_ordered segments \<and> (\<forall>s \<in> set segments. seg_ok v t s \<and> p \<le> VirtualStart s)"
proof (induction segments arbitrary: p)
  case (Cons s ss)
  then have s: "validate_segment v t p s = None" and rest: "validate_loop v t (VirtualEnd s) ss = None"
    by (simp_all split: option.splits)
  have ok: "seg_ok v t s" "p \<le> VirtualStart s" using validate_segment_ok [OF s Cons.prems(2-4)] by simp_all
  then have "p \<le> VirtualEnd s" "0 \<le> VirtualEnd s" by (auto simp: seg_ok_def)
  then show ?case
    using Cons.IH [OF rest _ Cons.prems(3,4)] ok by (force simp: spans_ordered_def)
qed (simp add: spans_ordered_def)

lemma Validate_ok:
  assumes "Validate (Some segments) v t = None" "fits v" "fits t"
  shows "spans_ordered segments" "s \<in> set segments \<Longrightarrow> seg_ok v t s"
  using validate_loop_ok [of v t 0 segments] assms by (auto simp: Validate_def)

section \<open>The segment of a position\<close>

lemma search_first:
  assumes "\<forall>a b. a \<le> b \<longrightarrow> b < n \<longrightarrow> p a \<longrightarrow> p b"
  shows "sort_Search n p \<le> n" "a < n \<Longrightarrow> p a \<longleftrightarrow> sort_Search n p \<le> a"
  using search_loop_spec [of n p 0 n] assms by (auto simp: sort_Search_def)

lemma nat_pred: "nat (int k - 1) = k - 1"
  by (cases k) auto

text \<open>The starts are ascending, also where segments are empty.\<close>

lemma ordered_starts:
  assumes "spans_ordered segments" "\<And>s. s \<in> set segments \<Longrightarrow> seg_ok v t s" "i \<le> j" "j < length segments"
  shows "VirtualStart (segments ! i) \<le> VirtualStart (segments ! j)"
    "i < j \<Longrightarrow> VirtualEnd (segments ! i) \<le> VirtualStart (segments ! j)"
proof -
  have lt: "VirtualEnd (segments ! i) \<le> VirtualStart (segments ! j)" if "i < j"
    using sorted_wrt_nth_less [OF assms(1) [unfolded spans_ordered_def] that assms(4)] .
  moreover have "VirtualStart (segments ! i) \<le> VirtualEnd (segments ! i)" using assms(2) [of "segments ! i"] assms(3,4) by (simp add: seg_ok_def)
  ultimately show "VirtualStart (segments ! i) \<le> VirtualStart (segments ! j)" using assms(3) by (cases "i = j") auto
  show "i < j \<Longrightarrow> VirtualEnd (segments ! i) \<le> VirtualStart (segments ! j)" by (rule lt)
qed

definition segment_at :: "Segment list \<Rightarrow> int \<Rightarrow> nat \<Rightarrow> bool" where
  "segment_at segments pos i \<longleftrightarrow> i < length segments \<and> VirtualStart (segments ! i) \<le> pos
    \<and> (pos < VirtualEnd (segments ! i) \<or> VirtualStart (segments ! i) = pos
       \<or> i = length segments - 1 \<and> pos = VirtualEnd (segments ! i))"

lemma segmentIndexAt_spec:
  assumes "Validate (Some segments) v t = None" "fits v" "fits t" "0 \<le> pos" "pos < 2 ^ 31"
  shows "segmentIndexAt segments pos = (i, True) \<Longrightarrow> 0 \<le> i \<and> segment_at segments pos (nat i)"
    "segmentIndexAt segments pos = (i, False) \<Longrightarrow> \<not> segment_at segments pos j"
proof -
  let ?n = "length segments" and ?p = "\<lambda>i. \<not> goInt32 (VirtualStart (segments ! i) - pos) < 0"
  note ok = Validate_ok [OF assms(1-3)]
  have rng: "0 \<le> VirtualStart (segments ! a)" "VirtualStart (segments ! a) < 2 ^ 31"
    "VirtualStart (segments ! a) \<le> VirtualEnd (segments ! a)" if "a < ?n" for a
    using ok(2) [of "segments ! a"] that assms(2) by (auto simp: seg_ok_def)
  have diff: "goInt32 (VirtualStart (segments ! a) - pos) = VirtualStart (segments ! a) - pos" if "a < ?n" for a
    using rng [OF that] assms(4,5) by (intro goInt32_id) auto
  define idx where "idx = sort_Search ?n ?p"
  have "\<forall>a b. a \<le> b \<longrightarrow> b < ?n \<longrightarrow> ?p a \<longrightarrow> ?p b"
    using ordered_starts(1) [OF ok] diff by force
  note idx = search_first [OF this, folded idx_def]
  have idx_le: "pos \<le> VirtualStart (segments ! a) \<longleftrightarrow> idx \<le> a" if "a < ?n" for a
    using idx(2) [OF that] diff [OF that] by auto
  have found: "idx < ?n \<and> goInt32 (VirtualStart (segments ! idx) - pos) = 0 \<longleftrightarrow> idx < ?n \<and> VirtualStart (segments ! idx) = pos"
    using diff by auto
  have def: "segmentIndexAt segments pos =
      (if idx < ?n \<and> VirtualStart (segments ! idx) = pos then (int idx, True)
       else if 0 < idx \<and> (pos < VirtualEnd (segments ! (idx - 1)) \<or> idx = ?n \<and> pos = VirtualEnd (segments ! (idx - 1)))
       then (int idx - 1, True) else (int idx - 1, False))"
  proof -
    have "int idx - 1 = int ?n - 1 \<longleftrightarrow> idx = ?n" "nat (int idx - 1) = idx - 1" "0 \<le> int idx - 1 \<longleftrightarrow> 0 < idx"
      by (auto simp: nat_diff_distrib)
    then show ?thesis unfolding segmentIndexAt_def idx_def [symmetric] Let_def found by simp
  qed
  have before: "VirtualStart (segments ! (idx - 1)) < pos" if "0 < idx"
    using idx_le [of "idx - 1"] idx(1) that by (cases idx) auto
  show "segmentIndexAt segments pos = (i, True) \<Longrightarrow> 0 \<le> i \<and> segment_at segments pos (nat i)"
    using idx(1) before unfolding def segment_at_def by (auto simp: nat_pred split: if_splits)
  assume none: "segmentIndexAt segments pos = (i, False)"
  show "\<not> segment_at segments pos j"
  proof
    assume j: "segment_at segments pos j"
    show False
    proof (cases "VirtualStart (segments ! j) = pos")
      case True
      then have "idx \<le> j" using j idx_le [of j] by (simp add: segment_at_def)
      moreover from this have "VirtualStart (segments ! idx) = pos"
        using ordered_starts(1) [OF ok, of idx j] idx_le [of idx] j True by (auto simp: segment_at_def)
      ultimately show False using none j unfolding def by (auto simp: segment_at_def split: if_splits)
    next
      case False
      then have lt: "j < idx" using j idx_le [of j] by (auto simp: segment_at_def)
      show False
      proof (cases "j = idx - 1")
        case True
        then show False using none j False lt idx(1) unfolding def by (auto simp: segment_at_def split: if_splits)
      next
        case j': False
        then have "VirtualEnd (segments ! j) \<le> VirtualStart (segments ! (idx - 1))"
          using ordered_starts(2) [OF ok, of j "idx - 1"] lt idx(1) by auto
        then show False using before j False j' lt idx(1) by (auto simp: segment_at_def)
      qed
    qed
  qed
qed


section \<open>Exact mappings\<close>

text \<open>Inside a verbatim segment the offset is kept.\<close>

lemma verbatim_offset:
  assumes "seg_ok v t s" "seg_Kind s = KindVerbatim" "fits v" "fits t" "VirtualStart s \<le> pos" "pos \<le> VirtualEnd s"
  shows "verbatim_position s pos = OriginalStart s + (pos - VirtualStart s)"
    "goInt32 (OriginalStart s + goInt32 (pos - VirtualStart s)) = OriginalStart s + (pos - VirtualStart s)"
proof -
  have "goInt32 (pos - VirtualStart s) = pos - VirtualStart s"
    using assms by (intro goInt32_id) (auto simp: seg_ok_def)
  then show e: "goInt32 (OriginalStart s + goInt32 (pos - VirtualStart s)) = OriginalStart s + (pos - VirtualStart s)"
    using assms by (simp add: seg_ok_def)
  show "verbatim_position s pos = OriginalStart s + (pos - VirtualStart s)"
    unfolding verbatim_position_def e clamp_def using assms by (auto simp: seg_ok_def)
qed

text \<open>Parts at the same offsets of equal texts are equal.\<close>

lemma slc_inside:
  fixes v t :: string
  assumes "slc v a b = slc t c d" "a \<le> i" "i \<le> j" "j \<le> b" "b \<le> length v" "d \<le> length t" "b - a = d - c" "a \<le> b" "c \<le> d"
  shows "slc v i j = slc t (c + (i - a)) (c + (j - a))"
proof -
  have part: "slc w i' j' = take (j' - i') (drop (i' - x) (slc w x y))" if "x \<le> i'" "i' \<le> j'" "j' \<le> y" for w :: string and i' j' x y
    using that by (simp add: slc_def drop_take min_def)
  have "slc t (c + (i - a)) (c + (j - a)) = take (c + (j - a) - (c + (i - a))) (drop (c + (i - a) - c) (slc t c d))"
    by (rule part) (use assms in auto)
  also have "\<dots> = take (j - i) (drop (i - a) (slc v a b))" using assms(1-4) by simp
  also have "\<dots> = slc v i j" using part [of a i j b v] assms(2-4) by simp
  finally show ?thesis ..
qed

text \<open>C30: What a validated span map calls exact is exact: where no segment of the map is empty, a
  range that does not end behind the last segment maps with \<open>FidelityExact\<close> only to a range of the same
  length, inside the original, that holds the same text. So an edit of it can be written back.
\<close>

theorem exact_span_keeps_text:
  assumes "Validate (Some segments) v t = None" "fits v" "fits t"
    and "\<forall>s \<in> set segments. VirtualStart s < VirtualEnd s" "segments \<noteq> []" "b \<le> VirtualEnd (last segments)"
    and "0 \<le> a" "a \<le> b" "VirtualToOriginalSpan (Some segments) (a, b) = ((c, d), FidelityExact)"
  shows "0 \<le> c \<and> d \<le> int (length t) \<and> d - c = b - a \<and> slc v (nat a) (nat b) = slc t (nat c) (nat d)"
proof -
  note ok = Validate_ok [OF assms(1-3)]
  have last: "VirtualEnd (last segments) \<le> int (length v)" using ok(2) [of "last segments"] assms(5) by (simp add: seg_ok_def)
  then have "b < 2 ^ 31" using assms(2,6) by simp
  note at = segmentIndexAt_spec(1) [OF assms(1-3)]
  obtain i where i: "i < length segments" "seg_Kind (segments ! i) = KindVerbatim"
      "VirtualStart (segments ! i) \<le> a" "b \<le> VirtualEnd (segments ! i)"
    and cd: "c = OriginalStart (segments ! i) + (a - VirtualStart (segments ! i))"
      "d = OriginalStart (segments ! i) + (b - VirtualStart (segments ! i))"
  proof (cases "a = b")
    case True
    obtain idx inside where x: "segmentIndexAt segments a = (idx, inside)" by (cases "segmentIndexAt segments a")
    then have y: "inside" "seg_Kind (segments ! nat idx) = KindVerbatim" "c = verbatim_position (segments ! nat idx) a" "d = c"
      using assms(9) True by (auto simp: VirtualToOriginalSpan_def VirtualToOriginalPosition_def Let_def split: if_splits)
    then have z: "segment_at segments a (nat idx)" using at [OF assms(7)] x True \<open>b < 2 ^ 31\<close> by simp
    then have "nat idx < length segments" "VirtualStart (segments ! nat idx) \<le> a" "a \<le> VirtualEnd (segments ! nat idx)"
      using ok(2) [of "segments ! nat idx"] by (auto simp: segment_at_def seg_ok_def)
    then show ?thesis
      using that [of "nat idx"] verbatim_offset(1) [OF ok(2) y(2) assms(2,3)] y True by simp
  next
    case False
    obtain idx inside where x: "segmentIndexAt segments a = (idx, inside)" by (cases "segmentIndexAt segments a")
    obtain idx' inside' where x': "segmentIndexAt segments (b - 1) = (idx', inside')" by (cases "segmentIndexAt segments (b - 1)")
    have probe: "goInt32 (b - 1) = b - 1" using False assms(7,8) \<open>b < 2 ^ 31\<close> by simp
    let ?s = "segments ! nat idx"
    have y: "inside" "inside'" "idx' = idx" "seg_Kind ?s = KindVerbatim" "c = verbatim_position ?s a"
      "d = clamp (goInt32 (OriginalStart ?s + goInt32 (b - VirtualStart ?s))) c (OriginalEnd ?s)"
      using assms(8,9) False x x' by (auto simp: VirtualToOriginalSpan_def Let_def probe max_def split: if_splits)
    have z: "segment_at segments a (nat idx)" "segment_at segments (b - 1) (nat idx)"
      using at [OF assms(7), of idx] at [of "b - 1" idx] x x' y assms(7,8) False \<open>b < 2 ^ 31\<close> by auto
    then have n: "nat idx < length segments" "VirtualStart ?s \<le> a" by (auto simp: segment_at_def)
    have e: "b \<le> VirtualEnd ?s"
      using z(2) bspec [OF assms(4) nth_mem [OF n(1)]] assms(5,6) by (auto simp: segment_at_def last_conv_nth)
    note off = verbatim_offset [OF ok(2) y(4) assms(2,3)]
    have "d = OriginalStart ?s + (b - VirtualStart ?s)"
      unfolding y(6) y(5) off(2) [OF nth_mem [OF n(1)] order.trans [OF n(2) assms(8)] e]
        off(1) [OF nth_mem [OF n(1)] n(2) order.trans [OF assms(8) e]] clamp_def
      using ok(2) [OF nth_mem [OF n(1)]] y(4) e n(2) assms(8) by (auto simp: seg_ok_def)
    then show ?thesis
      using that [of "nat idx"] n e y off(1) [OF nth_mem [OF n(1)] n(2) order.trans [OF assms(8) e]] by simp
  qed
  let ?s = "segments ! i"
  have s: "seg_ok v t ?s" using ok(2) i(1) by simp
  have "slc v (nat (VirtualStart ?s)) (nat (VirtualEnd ?s)) = slc t (nat (OriginalStart ?s)) (nat (OriginalEnd ?s))"
    using s i(2) by (simp add: seg_ok_def)
  then have "slc v (nat a) (nat b) = slc t (nat (OriginalStart ?s) + (nat a - nat (VirtualStart ?s)))
      (nat (OriginalStart ?s) + (nat b - nat (VirtualStart ?s)))"
    by (rule slc_inside) (use s i assms(7,8) in \<open>auto simp: seg_ok_def nat_diff_distrib\<close>)
  moreover have "nat (OriginalStart ?s) + (nat a - nat (VirtualStart ?s)) = nat c"
    "nat (OriginalStart ?s) + (nat b - nat (VirtualStart ?s)) = nat d"
    using s i assms(7,8) by (auto simp: cd seg_ok_def)
  ultimately show ?thesis using s i assms(7,8) by (auto simp: cd seg_ok_def)
qed


section \<open>The interval index\<close>

text \<open>
  A node of the flat tree covers \<open>width\<close> leaves from \<open>start\<close>; the invariant is that its entry bounds their ends
  from above.
\<close>

definition leaf_end :: "Segment list \<Rightarrow> nat \<Rightarrow> int" where
  "leaf_end segments i = (if i < length segments then OriginalEnd (segments ! i) else 0)"

lemma leaf_count_spec: "0 < c \<Longrightarrow> n \<le> leaf_count n c \<and> (\<exists>k. leaf_count n c = c * 2 ^ k)"
proof (induction n c rule: leaf_count.induct)
  case (1 n c)
  show ?case
  proof (cases "c < n")
    case True
    then obtain k where "leaf_count n (2 * c) = 2 * c * 2 ^ k" "n \<le> leaf_count n (2 * c)" using 1 by auto
    then show ?thesis using True 1(2) by (subst (1 2) leaf_count.simps) (auto intro: exI [of _ "Suc k"])
  next
    case False
    then show ?thesis by (subst (1 2) leaf_count.simps) (auto intro: exI [of _ 0])
  qed
qed

lemma fill_leaves_nth:
  assumes "length segments \<le> leaves"
  shows "length (fill_leaves segments leaves) = 2 * leaves"
    "i < leaves \<Longrightarrow> fill_leaves segments leaves ! (leaves + i) = leaf_end segments i"
proof -
  let ?f = "\<lambda>i ends. ends[leaves + i := OriginalEnd (segments ! i)]"
  have gen: "length (fold ?f [0..<n] (replicate (2 * leaves) 0)) = 2 * leaves
      \<and> (\<forall>i < leaves. fold ?f [0..<n] (replicate (2 * leaves) 0) ! (leaves + i)
          = (if i < n then OriginalEnd (segments ! i) else 0))" if "n \<le> leaves" for n
    using that by (induction n) (auto simp: nth_list_update)
  show "length (fill_leaves segments leaves) = 2 * leaves"
    "i < leaves \<Longrightarrow> fill_leaves segments leaves ! (leaves + i) = leaf_end segments i"
    using gen [OF assms] by (simp_all add: fill_leaves_def leaf_end_def)
qed

text \<open>From the node \<open>k\<close> on, each entry is the maximum of its children's, and the leaves are kept.\<close>

lemma fill_nodes_nth:
  assumes "length ends = 2 * leaves"
  shows "length (fill_nodes leaves ends) = 2 * leaves"
    "leaves \<le> i \<Longrightarrow> fill_nodes leaves ends ! i = ends ! i"
    "0 < i \<Longrightarrow> i < leaves \<Longrightarrow>
      fill_nodes leaves ends ! i = max (fill_nodes leaves ends ! (2 * i)) (fill_nodes leaves ends ! (2 * i + 1))"
proof -
  let ?f = "\<lambda>i es :: int list. es[i := max (es ! (2 * i)) (es ! (2 * i + 1))]"
  define F where "F k = fold ?f (rev [k..<leaves]) ends" for k
  have gen: "length (F k) = 2 * leaves \<and> (\<forall>i. leaves \<le> i \<longrightarrow> F k ! i = ends ! i)
      \<and> (\<forall>i. k \<le> i \<and> i < leaves \<longrightarrow> F k ! i = max (F k ! (2 * i)) (F k ! (2 * i + 1)))" if "0 < k" "k \<le> leaves" for k
    using that
  proof (induction "leaves - k" arbitrary: k)
    case 0
    then show ?case using assms by (simp add: F_def)
  next
    case (Suc n)
    then have lt: "k < leaves" by simp
    have step: "F k = ?f k (F (Suc k))" unfolding F_def by (simp add: upt_conv_Cons [OF lt])
    have IH: "length (F (Suc k)) = 2 * leaves" "\<And>i. leaves \<le> i \<Longrightarrow> F (Suc k) ! i = ends ! i"
      "\<And>i. Suc k \<le> i \<Longrightarrow> i < leaves \<Longrightarrow> F (Suc k) ! i = max (F (Suc k) ! (2 * i)) (F (Suc k) ! (2 * i + 1))"
      using Suc(1) [of "Suc k"] Suc(2) lt by auto
    have other: "F k ! i = F (Suc k) ! i" if "i \<noteq> k" for i using that by (simp add: step)
    have "F k ! k = max (F (Suc k) ! (2 * k)) (F (Suc k) ! (2 * k + 1))" using IH(1) lt by (simp add: step)
    then have "F k ! i = max (F k ! (2 * i)) (F k ! (2 * i + 1))" if "k \<le> i" "i < leaves" for i
      using that other [of "2 * i"] other [of "2 * i + 1"] other [of i] IH(3) [of i] Suc(3) by (cases "i = k") auto
    then show ?case using IH(1,2) other lt by (auto simp: step)
  qed
  have F1: "fill_nodes leaves ends = F 1" by (simp add: fill_nodes_def F_def)
  show "length (fill_nodes leaves ends) = 2 * leaves" "leaves \<le> i \<Longrightarrow> fill_nodes leaves ends ! i = ends ! i"
    "0 < i \<Longrightarrow> i < leaves \<Longrightarrow>
      fill_nodes leaves ends ! i = max (fill_nodes leaves ends ! (2 * i)) (fill_nodes leaves ends ! (2 * i + 1))"
    using gen [of 1] assms unfolding F1 by (cases "leaves = 0"; simp add: F_def)+
qed


text \<open>The index of sorted segments, and its nodes by the leaves they cover.\<close>

definition index_of :: "Segment list \<Rightarrow> originalIndex" where
  "index_of segments =
    (let leaves = leaf_count (length segments) 1
     in \<lparr>oi_segments = segments, leafCount = leaves, maxEnds = fill_nodes leaves (fill_leaves segments leaves)\<rparr>)"

lemma index_of_nodes:
  fixes segments :: "Segment list"
  defines "ix \<equiv> index_of segments"
  shows "i < leafCount ix \<Longrightarrow> maxEnds ix ! (leafCount ix + i) = leaf_end segments i"
    "0 < i \<Longrightarrow> i < leafCount ix \<Longrightarrow> maxEnds ix ! i = max (maxEnds ix ! (2 * i)) (maxEnds ix ! (2 * i + 1))"
    "length segments \<le> leafCount ix" "\<exists>k. leafCount ix = 2 ^ k" "oi_segments ix = segments"
proof -
  have n: "length segments \<le> leafCount ix" "\<exists>k. leafCount ix = 2 ^ k"
    using leaf_count_spec [of 1 "length segments"] by (simp_all add: ix_def index_of_def Let_def)
  note leaves = fill_leaves_nth [OF n(1)]
  have m: "maxEnds ix = fill_nodes (leafCount ix) (fill_leaves segments (leafCount ix))"
    by (simp add: ix_def index_of_def Let_def)
  show "i < leafCount ix \<Longrightarrow> maxEnds ix ! (leafCount ix + i) = leaf_end segments i"
    unfolding m using fill_nodes_nth(2) [OF leaves(1)] leaves(2) by simp
  show "0 < i \<Longrightarrow> i < leafCount ix \<Longrightarrow> maxEnds ix ! i = max (maxEnds ix ! (2 * i)) (maxEnds ix ! (2 * i + 1))"
    unfolding m using fill_nodes_nth(3) [OF leaves(1)] by simp
  show "length segments \<le> leafCount ix" "\<exists>k. leafCount ix = 2 ^ k" by (rule n)+
  show "oi_segments ix = segments" by (simp add: ix_def index_of_def Let_def)
qed

lemma node_children:
  fixes node :: nat
  assumes "node * 2 ^ Suc d = leaves + start" "start + 2 ^ Suc d \<le> leaves"
  shows "0 < node" "node < leaves" "2 * node * 2 ^ d = leaves + start" "(2 * node + 1) * 2 ^ d = leaves + (start + 2 ^ d)"
    "start + 2 ^ d \<le> leaves" "start + 2 ^ d + 2 ^ d \<le> leaves"
proof -
  define w :: nat where "w = 2 ^ d"
  have w: "0 < w" "2 ^ Suc d = 2 * w" by (simp_all add: w_def)
  have e: "node * (2 * w) = leaves + start" "start + 2 * w \<le> leaves" using assms by (simp_all only: w)
  show n: "0 < node" using e w(1) by (cases node) auto
  have "2 * (node * w) < 2 * leaves" using e w(1) by (simp add: mult.assoc mult.left_commute)
  moreover have "node \<le> node * w" using w(1) by simp
  ultimately show "node < leaves" by linarith
  show "2 * node * 2 ^ d = leaves + start" using e(1) by (simp add: w_def mult.assoc mult.left_commute mult.commute)
  then show "(2 * node + 1) * 2 ^ d = leaves + (start + 2 ^ d)" by (simp add: algebra_simps)
  show "start + 2 ^ d \<le> leaves" "start + 2 ^ d + 2 ^ d \<le> leaves" using e(2) by (simp_all add: w_def)
qed

lemma node_bound:
  "node * 2 ^ d = leafCount (index_of segments) + start \<Longrightarrow> start + 2 ^ d \<le> leafCount (index_of segments) \<Longrightarrow>
    start \<le> i \<Longrightarrow> i < start + 2 ^ d \<Longrightarrow> leaf_end segments i \<le> maxEnds (index_of segments) ! node"
proof (induction d arbitrary: node start)
  case 0
  then have "i = start" by simp
  then show ?case using 0 index_of_nodes(1) [of start segments] by simp
next
  case (Suc d)
  note c = node_children [OF Suc.prems(1,2)]
  have "leaf_end segments i \<le> max (maxEnds (index_of segments) ! (2 * node)) (maxEnds (index_of segments) ! (2 * node + 1))"
  proof (cases "i < start + 2 ^ d")
    case True
    then show ?thesis using Suc.IH [OF c(3,5) Suc.prems(3)] by (simp add: le_max_iff_disj)
  next
    case False
    then show ?thesis using Suc.IH [OF c(4,6)] Suc.prems(4) by (simp add: le_max_iff_disj)
  qed
  then show ?case using index_of_nodes(2) [OF c(1,2)] by simp
qed

text \<open>The walk over the tree finds what a scan of the leaves finds.\<close>

definition ends_after :: "bool \<Rightarrow> int \<Rightarrow> int \<Rightarrow> bool" where
  "ends_after includeEnd pos e \<longleftrightarrow> pos < e \<or> includeEnd \<and> pos = e"

lemma collect_is_scan:
  "node * 2 ^ d = leafCount (index_of segments) + start \<Longrightarrow> start + 2 ^ d \<le> leafCount (index_of segments) \<Longrightarrow>
    limit \<le> length segments \<Longrightarrow>
    collectSegmentsEndingAtOrAfter (index_of segments) node start (start + 2 ^ d) limit pos incl
    = map ((!) segments) (filter (\<lambda>i. i < limit \<and> ends_after incl pos (OriginalEnd (segments ! i))) [start..<start + 2 ^ d])"
proof (induction d arbitrary: node start)
  let ?ix = "index_of segments"
  let ?pruned = "\<lambda>node start. limit \<le> start \<or> maxEnds ?ix ! node < pos \<or> \<not> incl \<and> maxEnds ?ix ! node = pos"
  let ?found = "\<lambda>i. i < limit \<and> ends_after incl pos (OriginalEnd (segments ! i))"
  have none: "filter ?found [start..<start + 2 ^ d] = []"
    if pr: "?pruned node start" and nd: "node * 2 ^ d = leafCount ?ix + start" "start + 2 ^ d \<le> leafCount ?ix"
      and lm: "limit \<le> length segments"
    for node start d
  proof -
    have "\<not> ?found i" if i: "start \<le> i" "i < start + 2 ^ d" for i
    proof
      assume f: "?found i"
      then have "OriginalEnd (segments ! i) \<le> maxEnds ?ix ! node"
        using node_bound [OF nd i] lm by (simp add: leaf_end_def)
      then show False using f pr i by (auto simp: ends_after_def)
    qed
    then show ?thesis by (auto simp: filter_empty_conv)
  qed
  {
    case 0
    show ?case
    proof (cases "?pruned node start")
      case True
      then show ?thesis using none [OF True 0(1-3)] by (subst collectSegmentsEndingAtOrAfter.simps) simp
    next
      case False
      have "maxEnds ?ix ! node = OriginalEnd (segments ! start)"
        using 0 False index_of_nodes(1) [of start segments] by (simp add: leaf_end_def)
      then show ?thesis using False
        by (subst collectSegmentsEndingAtOrAfter.simps) (auto simp: index_of_nodes(5) ends_after_def)
    qed
  next
    case (Suc d)
    note c = node_children [OF Suc.prems(1,2)]
    show ?case
    proof (cases "?pruned node start")
      case True
      then show ?thesis using none [OF True Suc.prems] by (subst collectSegmentsEndingAtOrAfter.simps) simp
    next
      case False
      have middle: "start + (start + 2 ^ Suc d - start) div 2 = start + 2 ^ d" "start + 2 ^ Suc d = start + 2 ^ d + 2 ^ d"
        by auto
      have wide: "\<not> start + 2 ^ Suc d - start \<le> 1"
        by (simp only: add_diff_cancel_left' not_le) (rule one_less_power; simp)
      have split: "[start..<start + 2 ^ Suc d] = [start..<start + 2 ^ d] @ [start + 2 ^ d..<start + 2 ^ d + 2 ^ d]"
        unfolding middle(2) by (rule upt_add_eq_append) simp
      have "collectSegmentsEndingAtOrAfter ?ix node start (start + 2 ^ Suc d) limit pos incl
          = collectSegmentsEndingAtOrAfter ?ix (2 * node) start (start + 2 ^ d) limit pos incl
          @ collectSegmentsEndingAtOrAfter ?ix (2 * node + 1) (start + 2 ^ d) (start + 2 ^ d + 2 ^ d) limit pos incl"
        using False wide middle by (subst collectSegmentsEndingAtOrAfter.simps) (simp only: Let_def if_False)
      then show ?thesis
        unfolding split Suc.IH [OF c(3,5) Suc.prems(3)] Suc.IH [OF c(4,6) Suc.prems(3)] by simp
    qed
  }
qed

lemma collect_all:
  assumes "limit \<le> length segments"
  shows "collectSegmentsEndingAtOrAfter (index_of segments) 1 0 (leafCount (index_of segments)) limit pos incl
    = filter (\<lambda>s. ends_after incl pos (OriginalEnd s)) (take limit segments)"
proof -
  obtain k where k: "leafCount (index_of segments) = 2 ^ k" using index_of_nodes(4) by blast
  have n: "length segments \<le> 2 ^ k" using index_of_nodes(3) [of segments] k by simp
  let ?e = "\<lambda>i. ends_after incl pos (OriginalEnd (segments ! i))"
  have "[0..<2 ^ k] = [0..<limit] @ [limit..<2 ^ k]"
    using upt_add_eq_append [of 0 limit "2 ^ k - limit"] assms n by simp
  then have f: "filter (\<lambda>i. i < limit \<and> ?e i) [0..<2 ^ k] = filter ?e [0..<limit]"
    by (auto intro: filter_cong simp: filter_empty_conv)
  have t: "map ((!) segments) [0..<limit] = take limit segments" using assms by (intro nth_equalityI) auto
  have "collectSegmentsEndingAtOrAfter (index_of segments) 1 0 (2 ^ k) limit pos incl
      = map ((!) segments) (filter ?e [0..<limit])"
    using collect_is_scan [of 1 k segments 0 limit pos incl] assms by (simp add: k f)
  also have "\<dots> = filter (\<lambda>s. ends_after incl pos (OriginalEnd s)) (take limit segments)"
    unfolding t [symmetric] by (simp add: filter_map comp_def)
  finally show ?thesis unfolding k .
qed


text \<open>The order of the index is total on the segments of a validated map, whose differences do not wrap.\<close>

lemma compare_original_key:
  assumes "seg_ok v t a" "seg_ok v t b" "fits v" "fits t"
  shows "compare_original a b < 0 \<longleftrightarrow> OriginalStart a < OriginalStart b
      \<or> OriginalStart a = OriginalStart b \<and> (OriginalEnd a < OriginalEnd b
        \<or> OriginalEnd a = OriginalEnd b \<and> VirtualStart a < VirtualStart b)"
    "0 < compare_original a b \<longleftrightarrow> OriginalStart b < OriginalStart a
      \<or> OriginalStart b = OriginalStart a \<and> (OriginalEnd b < OriginalEnd a
        \<or> OriginalEnd b = OriginalEnd a \<and> VirtualStart b < VirtualStart a)"
proof -
  have "goInt32 (OriginalStart a - OriginalStart b) = OriginalStart a - OriginalStart b"
    "goInt32 (OriginalEnd a - OriginalEnd b) = OriginalEnd a - OriginalEnd b"
    "goInt32 (VirtualStart a - VirtualStart b) = VirtualStart a - VirtualStart b"
    using assms by (auto simp: seg_ok_def intro!: goInt32_id)
  then show "compare_original a b < 0 \<longleftrightarrow> OriginalStart a < OriginalStart b
      \<or> OriginalStart a = OriginalStart b \<and> (OriginalEnd a < OriginalEnd b
        \<or> OriginalEnd a = OriginalEnd b \<and> VirtualStart a < VirtualStart b)"
    "0 < compare_original a b \<longleftrightarrow> OriginalStart b < OriginalStart a
      \<or> OriginalStart b = OriginalStart a \<and> (OriginalEnd b < OriginalEnd a
        \<or> OriginalEnd b = OriginalEnd a \<and> VirtualStart b < VirtualStart a)"
    by (auto simp: compare_original_def Let_def)
qed

lemma compare_original_weak_order:
  assumes "\<And>s. s \<in> A \<Longrightarrow> seg_ok v t s" "fits v" "fits t"
  shows "weak_order compare_original A"
proof -
  have le: "compare_original a b \<le> 0 \<longleftrightarrow> \<not> 0 < compare_original a b" for a b by auto
  note key = compare_original_key [OF assms(1) assms(1) assms(2,3)]
  show ?thesis unfolding weak_order_def le using key by (auto 4 4 simp: key)
qed

text \<open>So the index holds the segments of the map by their starts in the original.\<close>

lemma origIndex_sorted:
  assumes "\<forall>s \<in> set segments. seg_ok v t s" "fits v" "fits t" "sorters_ok S"
  shows "origIndex S segments = index_of (sort_segments S compare_original segments)"
    "mset (sort_segments S compare_original segments) = mset segments"
    "sorted_wrt (\<lambda>a b. OriginalStart a \<le> OriginalStart b) (sort_segments S compare_original segments)"
proof -
  let ?sg = "sort_segments S compare_original segments"
  have "SortFunc_contract (sort_segments S)" using assms(4) by (simp add: sorters_ok_def)
  moreover have "weak_order compare_original (set segments)" by (rule compare_original_weak_order [OF _ assms(2,3)]) (use assms(1) in blast)
  ultimately have m: "mset ?sg = mset segments" and o: "sorted_wrt (\<lambda>a b. compare_original a b \<le> 0) ?sg"
    unfolding SortFunc_contract_def by blast+
  show "mset ?sg = mset segments" by (rule m)
  then have "seg_ok v t s" if "s \<in> set ?sg" for s using assms(1) that mset_eq_setD by metis
  then show "sorted_wrt (\<lambda>a b. OriginalStart a \<le> OriginalStart b) ?sg"
    using compare_original_key(2) [OF _ _ assms(2,3)] by (intro sorted_wrt_mono_rel [OF _ o]) force
  show "origIndex S segments = index_of ?sg" by (simp add: origIndex_def index_of_def Let_def)
qed


text \<open>The binary searches split a sorted list.\<close>

lemma search_splits:
  fixes sg :: "Segment list" and pos :: int
  assumes "sorted_wrt (\<lambda>a b. OriginalStart a \<le> OriginalStart b) sg"
  defines "lo \<equiv> sort_Search (length sg) (\<lambda>i. OriginalStart (sg ! i) \<ge> pos)"
    and "hi \<equiv> sort_Search (length sg) (\<lambda>i. OriginalStart (sg ! i) > pos)"
  shows "lo \<le> length sg" "hi \<le> length sg" "take lo sg = filter (\<lambda>s. OriginalStart s < pos) sg"
    "take hi sg = filter (\<lambda>s. OriginalStart s \<le> pos) sg" "slc sg lo hi = filter (\<lambda>s. OriginalStart s = pos) sg"
proof -
  have mono: "OriginalStart (sg ! a) \<le> OriginalStart (sg ! b)" if "a \<le> b" "b < length sg" for a b
    using sorted_wrt_nth_less [OF assms(1), of a b] that by (cases "a = b") auto
  have l: "lo \<le> length sg" "\<And>a. a < length sg \<Longrightarrow> pos \<le> OriginalStart (sg ! a) \<longleftrightarrow> lo \<le> a"
    unfolding lo_def by (intro search_first, use mono in force)+
  have h: "hi \<le> length sg" "\<And>a. a < length sg \<Longrightarrow> pos < OriginalStart (sg ! a) \<longleftrightarrow> hi \<le> a"
    unfolding hi_def by (intro search_first, use mono in force)+
  show "lo \<le> length sg" "hi \<le> length sg" by (rule l h)+
  have cut: "filter P sg = take k sg" if "\<And>a. a < length sg \<Longrightarrow> P (sg ! a) \<longleftrightarrow> a < k" "k \<le> length sg" for P k
  proof -
    have "filter P (take k sg) = take k sg" using that by (auto simp: in_set_conv_nth intro!: filter_True)
    moreover have "filter P (drop k sg) = []" using that by (auto simp: filter_empty_conv in_set_conv_nth)
    ultimately show ?thesis using filter_append [of P "take k sg" "drop k sg"] by simp
  qed
  show lo: "take lo sg = filter (\<lambda>s. OriginalStart s < pos) sg"
    by (rule cut [symmetric]) (use l in force)+
  show hi: "take hi sg = filter (\<lambda>s. OriginalStart s \<le> pos) sg"
    by (rule cut [symmetric]) (use h in force)+
  have "lo \<le> hi" using l h by (metis le_less_linear less_imp_le order_less_le_trans)
  then have "slc sg lo hi = filter (\<lambda>s. \<not> OriginalStart s < pos) (take hi sg)"
  proof -
    have "filter (\<lambda>s. \<not> OriginalStart s < pos) (take lo sg) = []" unfolding lo by (simp add: filter_empty_conv)
    moreover have "take hi sg = take lo sg @ slc sg lo hi" using \<open>lo \<le> hi\<close> by (simp add: slc_def drop_take take_add [symmetric])
    moreover have "\<not> OriginalStart (sg ! (lo + i)) < pos" if "i < hi - lo" for i
    proof -
      have "lo + i < length sg" using h(1) that by linarith
      then show ?thesis using l(2) by (simp add: not_less)
    qed
    then have "filter (\<lambda>s. \<not> OriginalStart s < pos) (slc sg lo hi) = slc sg lo hi"
      using h(1) by (auto simp: slc_def in_set_conv_nth intro!: filter_True)
    ultimately show ?thesis by simp
  qed
  then show "slc sg lo hi = filter (\<lambda>s. OriginalStart s = pos) sg" unfolding hi by (auto intro: filter_cong)
qed

lemma segment_groups_concat:
  "\<forall>s \<in> set segments. pos \<le> OriginalEnd s \<Longrightarrow> concat (map fst (segment_groups pos segments)) = segments"
proof (induction pos segments rule: segment_groups.induct)
  case (2 pos segment segments)
  then have "\<forall>s \<in> set (dropWhile (sameOriginalRange segment) segments). pos \<le> OriginalEnd s" by (auto dest: set_dropWhileD)
  then show ?case using 2 by (simp add: Let_def)
qed simp

lemma segment_groups_flag:
  "(g, atEnd) \<in> set (segment_groups pos segments) \<Longrightarrow> s \<in> set g \<Longrightarrow> atEnd \<longleftrightarrow> pos = OriginalEnd s \<and> pos \<noteq> OriginalStart s"
proof (induction pos segments rule: segment_groups.induct)
  case (2 pos segment segments)
  show ?case
  proof (cases "(g, atEnd) \<in> set (segment_groups pos (dropWhile (sameOriginalRange segment) segments))")
    case False
    then show ?thesis using 2(2,3) by (auto simp: Let_def sameOriginalRange_def dest!: set_takeWhileD split: if_splits)
  qed (use 2 in simp)
qed simp

lemma lookups_found:
  assumes "Validate (Some segments) v t = None" "fits v" "fits t" "sorters_ok S"
  shows "mset (segmentsAtOriginalPosition (origIndex S segments) pos)
      = filter_mset (\<lambda>s. OriginalStart s = pos \<or> OriginalStart s < pos \<and> pos < OriginalEnd s) (mset segments)"
    "mset (concat (map fst (segmentGroupsAtOriginalPosition (origIndex S segments) pos)))
      = filter_mset (\<lambda>s. OriginalStart s \<le> pos \<and> pos \<le> OriginalEnd s) (mset segments)"
proof -
  have "\<forall>s \<in> set segments. seg_ok v t s" using Validate_ok(2) [OF assms(1-3)] by blast
  note ix = origIndex_sorted [OF this assms(2-4)]
  let ?sg = "sort_segments S compare_original segments"
  note cut = search_splits [OF ix(3), where pos = pos]
  have "segmentsAtOriginalPosition (index_of ?sg) pos
      = filter (\<lambda>s. pos < OriginalEnd s) (filter (\<lambda>s. OriginalStart s < pos) ?sg) @ filter (\<lambda>s. OriginalStart s = pos) ?sg"
    unfolding segmentsAtOriginalPosition_def segmentsEndingAfterPosition_def Let_def index_of_nodes(5)
    by (simp only: collect_all [OF cut(1)] cut(3,5) ends_after_def simp_thms)
  moreover have "mset (filter (\<lambda>s. pos < OriginalEnd s) (filter (\<lambda>s. OriginalStart s < pos) sg) @ filter (\<lambda>s. OriginalStart s = pos) sg)
      = filter_mset (\<lambda>s. OriginalStart s = pos \<or> OriginalStart s < pos \<and> pos < OriginalEnd s) (mset sg)" for sg :: "Segment list"
    by (rule multiset_eqI) auto
  ultimately have "mset (segmentsAtOriginalPosition (index_of ?sg) pos)
      = filter_mset (\<lambda>s. OriginalStart s = pos \<or> OriginalStart s < pos \<and> pos < OriginalEnd s) (mset ?sg)" by simp
  moreover have "segmentGroupsAtOriginalPosition (index_of ?sg) pos
      = segment_groups pos (filter (ends_after True pos \<circ> OriginalEnd) (filter (\<lambda>s. OriginalStart s \<le> pos) ?sg))"
    unfolding segmentGroupsAtOriginalPosition_def Let_def index_of_nodes(5)
    by (simp only: collect_all [OF cut(2)] cut(4) comp_def)
  then have "concat (map fst (segmentGroupsAtOriginalPosition (index_of ?sg) pos))
      = filter (\<lambda>s. OriginalStart s \<le> pos \<and> pos \<le> OriginalEnd s) ?sg"
    by (auto simp: segment_groups_concat ends_after_def le_less intro!: filter_cong)
  ultimately show "mset (segmentsAtOriginalPosition (origIndex S segments) pos)
      = filter_mset (\<lambda>s. OriginalStart s = pos \<or> OriginalStart s < pos \<and> pos < OriginalEnd s) (mset segments)"
    "mset (concat (map fst (segmentGroupsAtOriginalPosition (origIndex S segments) pos)))
      = filter_mset (\<lambda>s. OriginalStart s \<le> pos \<and> pos \<le> OriginalEnd s) (mset segments)"
    unfolding ix(1) by (simp_all add: ix(2))
qed


text \<open>C31: The interval index finds what a scan of the segments finds: on a validated map the lookup of
  a position in the original returns, up to order, the segments that start at it or contain it, and the groups of
  the other lookup, put together, are the segments that start before or at it and end at or behind it.
\<close>

theorem interval_index_is_scan:
  assumes "Validate (Some segments) v t = None" "fits v" "fits t" "sorters_ok S"
  shows "mset (segmentsAtOriginalPosition (origIndex S segments) pos)
      = filter_mset (\<lambda>s. OriginalStart s = pos \<or> OriginalStart s < pos \<and> pos < OriginalEnd s) (mset segments)
    \<and> mset (concat (map fst (segmentGroupsAtOriginalPosition (origIndex S segments) pos)))
      = filter_mset (\<lambda>s. OriginalStart s \<le> pos \<and> pos \<le> OriginalEnd s) (mset segments)"
  using lookups_found [OF assms] by blast

section \<open>A stable sort\<close>

definition isort :: "('a \<Rightarrow> 'a \<Rightarrow> int) \<Rightarrow> 'a list \<Rightarrow> 'a list" where
  "isort cmp xs = foldr (\<lambda>x ys. takeWhile (\<lambda>y. cmp y x < 0) ys @ x # dropWhile (\<lambda>y. cmp y x < 0) ys) xs []"

definition stable_sorters :: sorters where
  "stable_sorters = \<lparr>sort_segments = isort, sort_positions = isort, sort_spans = isort\<rparr>"

lemma weak_order_subset: "weak_order cmp A \<Longrightarrow> B \<subseteq> A \<Longrightarrow> weak_order cmp B"
  unfolding weak_order_def by blast

lemma isort_contract: "SortFunc_contract isort"
  unfolding SortFunc_contract_def
proof (intro allI impI)
  fix cmp :: "'a \<Rightarrow> 'a \<Rightarrow> int" and xs
  assume "weak_order cmp (set xs)"
  then show "mset (isort cmp xs) = mset xs \<and> sorted_wrt (\<lambda>a b. cmp a b \<le> 0) (isort cmp xs)"
  proof (induction xs)
    case (Cons x xs)
    let ?ys = "isort cmp xs" and ?P = "\<lambda>y. cmp y x < 0"
    have w: "cmp a b < 0 \<longleftrightarrow> 0 < cmp b a" if "a \<in> set (x # xs)" "b \<in> set (x # xs)" for a b
      using Cons.prems that unfolding weak_order_def by blast
    have tr: "cmp a c \<le> 0" if "a \<in> set (x # xs)" "b \<in> set (x # xs)" "c \<in> set (x # xs)" "cmp a b \<le> 0" "cmp b c \<le> 0" for a b c
      using Cons.prems that unfolding weak_order_def by blast
    have "weak_order cmp (set xs)" by (rule weak_order_subset [OF Cons.prems]) auto
    note IH = conjunct1 [OF Cons.IH [OF this]] conjunct2 [OF Cons.IH [OF this]]
    have sx: "set ?ys = set xs" using mset_eq_setD [OF IH(1)] .
    have step: "isort cmp (x # xs) = takeWhile ?P ?ys @ x # dropWhile ?P ?ys" by (simp add: isort_def)
    have "mset (takeWhile ?P ?ys) + mset (dropWhile ?P ?ys) = mset ?ys" 
      using mset_append [of "takeWhile ?P ?ys" "dropWhile ?P ?ys"] by simp
    then have "mset (isort cmp (x # xs)) = mset (x # xs)" using IH(1) by (simp add: step)
    moreover have so: "sorted_wrt (\<lambda>a b. cmp a b \<le> 0) (takeWhile ?P ?ys @ dropWhile ?P ?ys)" using IH(2) by simp
    have low: "cmp y x \<le> 0" if "y \<in> set (takeWhile ?P ?ys)" for y using set_takeWhileD [OF that] by simp
    have high: "cmp x y \<le> 0" if y: "y \<in> set (dropWhile ?P ?ys)" for y
    proof (cases "dropWhile ?P ?ys")
      case (Cons z zs)
      have "z \<in> set (dropWhile ?P ?ys)" by (simp add: Cons)
      then have z: "z \<in> set xs" "y \<in> set xs" using y set_dropWhileD [of _ ?P ?ys] sx by auto
      have "\<not> cmp z x < 0" using hd_dropWhile [of ?P ?ys] Cons by simp
      then have xz: "cmp x z \<le> 0" using w [of z x] z by force
      have "sorted_wrt (\<lambda>a b. cmp a b \<le> 0) (z # zs)" using so Cons by (simp add: sorted_wrt_append)
      then have "cmp z y \<le> 0 \<or> y = z" using y Cons by auto
      then show ?thesis using xz tr [of x z y] z by auto
    next
      case Nil
      then show ?thesis using y unfolding Nil by simp
    qed
    have "sorted_wrt (\<lambda>a b. cmp a b \<le> 0) (isort cmp (x # xs))"
      unfolding step using so [unfolded sorted_wrt_append] low high by (simp add: sorted_wrt_append)
    ultimately show ?case by simp
  qed (simp add: isort_def)
qed

lemma stable_sorters_ok: "sorters_ok stable_sorters"
  by (simp add: sorters_ok_def stable_sorters_def isort_contract)


text \<open>A map with a gap, an alias and a repeated part of the original.\<close>

definition example_seg :: "int \<Rightarrow> int \<Rightarrow> int \<Rightarrow> int \<Rightarrow> int \<Rightarrow> Segment" where
  "example_seg a b c d k =
    \<lparr>VirtualStart = a, VirtualEnd = b, OriginalStart = c, OriginalEnd = d, seg_Kind = k, Features = FeatureAll\<rparr>"

definition example_segments :: "Segment list" where
  "example_segments = [example_seg 0 3 2 5 KindVerbatim, example_seg 4 6 0 2 KindAlias, example_seg 6 8 3 5 KindVerbatim]"

lemma example_valid: "Validate (Some example_segments) ''cde_XXde'' ''abcde'' = None"
  by code_simp

theorem exact_span_keeps_text_witness:
  "slc ''cde_XXde'' (nat 1) (nat 3) = slc ''abcde'' (nat 3) (nat 5)"
proof -
  have "VirtualToOriginalSpan (Some example_segments) (1, 3) = ((3, 5), FidelityExact)"
    "\<forall>s \<in> set example_segments. VirtualStart s < VirtualEnd s" "example_segments \<noteq> []"
    "3 \<le> VirtualEnd (last example_segments)" by code_simp+
  then show ?thesis using exact_span_keeps_text [OF example_valid, of 3 1 3 5] by simp
qed

theorem interval_index_is_scan_witness:
  "mset (segmentsAtOriginalPosition (origIndex stable_sorters example_segments) 3)
    = filter_mset (\<lambda>s. OriginalStart s = 3 \<or> OriginalStart s < 3 \<and> 3 < OriginalEnd s) (mset example_segments)"
  using interval_index_is_scan [OF example_valid _ _ stable_sorters_ok, of 3] by simp

section \<open>There and back\<close>

lemma add_projection_keeps: "p \<in> set results \<Longrightarrow> p \<in> set (add_projection pos feature atEnd segment results)"
  by (simp add: add_projection_def Let_def)

lemma fold_add_projection:
  "set (fold (add_projection pos feature atEnd) segments results)
    = set results \<union> project_position pos atEnd ` {s \<in> set segments. supportsFeature s feature}"
  by (induction segments arbitrary: results) (auto simp: add_projection_def Let_def)

lemma fold_groups:
  "set (fold (\<lambda>(segments, atEnd). fold (add_projection pos feature atEnd) segments) groups results)
    = set results \<union> {project_position pos atEnd s | segments atEnd s.
        (segments, atEnd) \<in> set groups \<and> s \<in> set segments \<and> supportsFeature s feature}"
proof (induction groups arbitrary: results)
  case (Cons g groups)
  then show ?case by (cases g) (auto simp: fold_add_projection)
qed simp

lemma sorted_difference:
  assumes "SortFunc_contract f" "\<And>x. x \<in> set xs \<Longrightarrow> 0 \<le> key x \<and> key x < 2 ^ 31"
  shows "mset (f (\<lambda>a b. goInt32 (key a - key b)) xs) = mset xs"
    "sorted (map key (f (\<lambda>a b. goInt32 (key a - key b)) xs))"
proof -
  let ?cmp = "\<lambda>a b. goInt32 (key a - key b)"
  have d: "?cmp a b = key a - key b" if "a \<in> set xs" "b \<in> set xs" for a b
    using assms(2) [OF that(1)] assms(2) [OF that(2)] by (intro goInt32_id) auto
  have "weak_order ?cmp (set xs)" unfolding weak_order_def by (simp add: d)
  then have m: "mset (f ?cmp xs) = mset xs" and o: "sorted_wrt (\<lambda>a b. ?cmp a b \<le> 0) (f ?cmp xs)"
    using assms(1) unfolding SortFunc_contract_def by blast+
  show "mset (f ?cmp xs) = mset xs" by (rule m)
  have "set (f ?cmp xs) = set xs" using mset_eq_setD [OF m] .
  then have "sorted_wrt (\<lambda>a b. key a \<le> key b) (f ?cmp xs)" by (intro sorted_wrt_mono_rel [OF _ o]) (simp add: d)
  then show "sorted (map key (f ?cmp xs))" by (simp add: sorted_wrt_map)
qed

text \<open>The positions of the lookup are the projections of the segments at the position, ascending.\<close>

lemma projection_bounds:
  assumes "seg_ok v t s" "fits v"
  shows "0 \<le> mp_Position (project_position pos atEnd s) \<and> mp_Position (project_position pos atEnd s) < 2 ^ 31"
  using assms by (auto simp: seg_ok_def project_position_def virtual_position_def clamp_def)

lemma groups_of_map:
  assumes "Validate (Some segments) v t = None" "fits v" "fits t" "sorters_ok S"
  shows "(\<exists>sg atEnd. (sg, atEnd) \<in> set (segmentGroupsAtOriginalPosition (origIndex S segments) pos) \<and> s \<in> set sg)
      \<longleftrightarrow> s \<in> set segments \<and> OriginalStart s \<le> pos \<and> pos \<le> OriginalEnd s"
proof -
  have "set (concat (map fst (segmentGroupsAtOriginalPosition (origIndex S segments) pos)))
      = {s \<in> set segments. OriginalStart s \<le> pos \<and> pos \<le> OriginalEnd s}"
    using arg_cong [OF lookups_found(2) [OF assms, of pos], of set_mset] by simp
  then show ?thesis by fastforce
qed

lemma positions_of_map:
  fixes pos :: int and feature :: Feature
  assumes "Validate (Some segments) v t = None" "fits v" "fits t" "sorters_ok S"
  defines "ps \<equiv> OriginalToVirtualPositions S (Some segments) pos feature"
  shows "sorted (map mp_Position ps)" "p \<in> set ps \<longleftrightarrow> (\<exists>s \<in> set segments. OriginalStart s \<le> pos \<and> pos \<le> OriginalEnd s
      \<and> supportsFeature s feature \<and> p = project_position pos (pos = OriginalEnd s \<and> pos \<noteq> OriginalStart s) s)"
proof -
  note ok = Validate_ok(2) [OF assms(1-3)]
  note found = groups_of_map [OF assms(1-4), of pos]
  let ?groups = "segmentGroupsAtOriginalPosition (origIndex S segments) pos"
  let ?ps = "fold (\<lambda>(segments, atEnd). fold (add_projection pos feature atEnd) segments) ?groups []"
  have flag: "atEnd \<longleftrightarrow> pos = OriginalEnd s \<and> pos \<noteq> OriginalStart s" if "(sg, atEnd) \<in> set ?groups" "s \<in> set sg" for sg atEnd s
    using that segment_groups_flag by (simp only: segmentGroupsAtOriginalPosition_def Let_def)
  have bound: "0 \<le> mp_Position p \<and> mp_Position p < 2 ^ 31" if "p \<in> set ?ps" for p
    using that found projection_bounds [OF ok assms(2)] unfolding fold_groups by auto
  have c: "SortFunc_contract (sort_positions S)" using assms(4) by (simp add: sorters_ok_def)
  note so = sorted_difference [OF c bound]
  have ps: "ps = (if ?groups = [] then [] else sort_positions S (\<lambda>a b. goInt32 (mp_Position a - mp_Position b)) ?ps)"
    by (simp add: ps_def OriginalToVirtualPositions_def Let_def)
  show "sorted (map mp_Position ps)" unfolding ps using so(2) by simp
  have "set ps = set ?ps" unfolding ps using mset_eq_setD [OF so(1)] by simp
  then have "p \<in> set ps \<longleftrightarrow> (\<exists>s sg atEnd. (sg, atEnd) \<in> set ?groups \<and> s \<in> set sg \<and> supportsFeature s feature \<and> p = project_position pos atEnd s)"
    unfolding fold_groups by auto
  also have "\<dots> \<longleftrightarrow> (\<exists>s. (\<exists>sg atEnd. (sg, atEnd) \<in> set ?groups \<and> s \<in> set sg) \<and> supportsFeature s feature
      \<and> p = project_position pos (pos = OriginalEnd s \<and> pos \<noteq> OriginalStart s) s)"
  proof -
    let ?at = "\<lambda>s sg atEnd. (sg, atEnd) \<in> set ?groups \<and> s \<in> set sg"
    have "?at s sg atEnd \<and> supportsFeature s feature \<and> p = project_position pos atEnd s
        \<longleftrightarrow> ?at s sg atEnd \<and> supportsFeature s feature \<and> p = project_position pos (pos = OriginalEnd s \<and> pos \<noteq> OriginalStart s) s"
      for s sg atEnd using flag [of sg atEnd s] by (cases "?at s sg atEnd") (simp, blast)
    then show ?thesis unfolding conj_assoc by auto
  qed
  finally show "p \<in> set ps \<longleftrightarrow> (\<exists>s \<in> set segments. OriginalStart s \<le> pos \<and> pos \<le> OriginalEnd s
      \<and> supportsFeature s feature \<and> p = project_position pos (pos = OriginalEnd s \<and> pos \<noteq> OriginalStart s) s)"
    unfolding found by blast
qed


text \<open>C32: An exact position leads back: on a validated map, if a position of the virtual text maps for a
  feature to \<open>orig\<close> with \<open>FidelityExact\<close>, then it is one of the positions that \<open>orig\<close> maps to for that feature, with
  \<open>FidelityExact\<close> again; and these positions are ascending.
\<close>

theorem exact_position_roundtrip:
  assumes "Validate (Some segments) v t = None" "fits v" "fits t" "sorters_ok S" "0 \<le> pos" "pos < 2 ^ 31"
    and "VirtualToOriginalPositionForFeature (Some segments) pos feature = (orig, FidelityExact)"
  shows "\<lparr>mp_Position = pos, mp_Fidelity = FidelityExact\<rparr> \<in> set (OriginalToVirtualPositions S (Some segments) orig feature)
    \<and> sorted (map mp_Position (OriginalToVirtualPositions S (Some segments) orig feature))"
proof -
  obtain idx inside where x: "segmentIndexAt segments pos = (idx, inside)" by (cases "segmentIndexAt segments pos")
  let ?s = "segments ! nat idx"
  have y: "inside" "supportsFeature ?s feature" "seg_Kind ?s = KindVerbatim" "orig = verbatim_position ?s pos"
    using assms(7) x by (auto simp: VirtualToOriginalPositionForFeature_def VirtualToOriginalPosition_def Let_def split: if_splits)
  have "segment_at segments pos (nat idx)" using segmentIndexAt_spec(1) [OF assms(1-3,5,6)] x y(1) by simp
  then have s: "?s \<in> set segments" "VirtualStart ?s \<le> pos" "VirtualStart ?s \<le> VirtualEnd ?s \<Longrightarrow> pos \<le> VirtualEnd ?s"
    by (auto simp: segment_at_def)
  have ok: "seg_ok v t ?s" by (rule Validate_ok(2) [OF assms(1-3) s(1)])
  then have e: "pos \<le> VirtualEnd ?s" using s(3) by (simp add: seg_ok_def)
  have o: "orig = OriginalStart ?s + (pos - VirtualStart ?s)"
    using verbatim_offset(1) [OF ok y(3) assms(2,3) s(2) e] y(4) by simp
  have g: "goInt32 (orig - OriginalStart ?s) = orig - OriginalStart ?s" "goInt32 pos = pos"
    using ok e s(2) assms(2,3,5,6) by (simp_all add: o seg_ok_def)
  have "virtual_position ?s orig = pos"
    using s(2) e g unfolding virtual_position_def clamp_def by (simp add: o)
  moreover have "OriginalStart ?s \<le> orig" "orig \<le> OriginalEnd ?s" using ok y(3) s(2) e by (auto simp: o seg_ok_def)
  ultimately show ?thesis
    using s(1) y(2,3) positions_of_map [OF assms(1-4)] by (auto simp: project_position_def intro!: bexI [of _ ?s])
qed

theorem exact_position_roundtrip_witness:
  "\<lparr>mp_Position = 7, mp_Fidelity = FidelityExact\<rparr> \<in> set (OriginalToVirtualPositions stable_sorters (Some example_segments) 4 1)
    \<and> sorted (map mp_Position (OriginalToVirtualPositions stable_sorters (Some example_segments) 4 1))"
proof -
  have "VirtualToOriginalPositionForFeature (Some example_segments) 7 1 = (4, FidelityExact)" by code_simp
  then show ?thesis
    using exact_position_roundtrip [OF example_valid _ _ stable_sorters_ok, of 7 1 4] by simp
qed


section \<open>A synthesized end\<close>

text \<open>The last segment takes the position at its end in; behind that no segment holds a position.\<close>

lemma positions_of_the_last_segment:
  assumes "Validate (Some segments) v t = None" "fits v" "fits t" "segments \<noteq> []"
    and "list_all (\<lambda>s. VirtualStart s < VirtualEnd s) segments"
  shows "VirtualStart (last segments) \<le> pos \<Longrightarrow> pos \<le> VirtualEnd (last segments)
      \<Longrightarrow> segmentIndexAt segments pos = (int (length segments - 1), True)"
    "VirtualEnd (last segments) < pos \<Longrightarrow> pos < 2 ^ 31 \<Longrightarrow> \<not> snd (segmentIndexAt segments pos)"
proof -
  note ok = Validate_ok [OF assms(1-3)]
  let ?n = "length segments" and ?e = "VirtualEnd (last segments)"
  have n: "0 < ?n" "last segments = segments ! (?n - 1)" using assms(4) by (simp_all add: last_conv_nth)
  have l: "0 \<le> VirtualStart (last segments)" "VirtualStart (last segments) \<le> ?e" "?e < 2 ^ 31"
    using ok(2) [OF last_in_set [OF assms(4)]] assms(2) by (auto simp: seg_ok_def)
  have pos: "VirtualStart (segments ! j) < VirtualEnd (segments ! j)" if "j < ?n" for j
    using assms(5) that by (simp add: list_all_length)
  have before: "VirtualEnd (segments ! j) \<le> VirtualStart (last segments)" if "j < ?n - 1" for j
    using ordered_starts(2) [OF ok, of j "?n - 1"] that n by simp
  obtain i inside where x: "segmentIndexAt segments pos = (i, inside)" by (cases "segmentIndexAt segments pos")
  show "segmentIndexAt segments pos = (int (?n - 1), True)" if le: "VirtualStart (last segments) \<le> pos" "pos \<le> ?e"
  proof -
    have r: "0 \<le> pos" "pos < 2 ^ 31" using le l by linarith+
    note at = segmentIndexAt_spec [OF assms(1-3) r]
    have "segment_at segments pos (?n - 1)" using le n by (auto simp: segment_at_def)
    then have inside using at(2) x by (cases inside) auto
    then have i: "0 \<le> i" "segment_at segments pos (nat i)" using at(1) x by auto
    have "nat i = ?n - 1"
      using i(2) before [of "nat i"] pos [of "nat i"] le(1) by (fastforce simp: segment_at_def)
    then show ?thesis using x i(1) \<open>inside\<close> by auto
  qed
  show "\<not> snd (segmentIndexAt segments pos)" if lt: "?e < pos" "pos < 2 ^ 31"
  proof
    assume s: "snd (segmentIndexAt segments pos)"
    have "0 \<le> pos" using lt l by linarith
    then have i: "segment_at segments pos (nat i)" using segmentIndexAt_spec(1) [OF assms(1-3) _ lt(2)] x s by auto
    have "VirtualEnd (segments ! nat i) \<le> ?e"
      proof (cases "nat i = ?n - 1")
      case False
      moreover have "nat i < ?n" using i by (simp add: segment_at_def)
      ultimately have "nat i < ?n - 1" by linarith
      then show ?thesis using before [of "nat i"] l(2) by linarith
    qed (simp add: n(2))
    then show False using i pos [of "nat i"] lt(1) by (auto simp: segment_at_def)
  qed
qed

text \<open>C33: The hypothesis of the first property is needed. The map is valid, no segment is empty, and the last one is
  verbatim and ends at \<open>e\<close>, before the text does: what follows is synthesized. As the last segment takes the position
  at its end in, a range that starts in it and runs into the synthesized text by one byte still maps with
  \<open>FidelityExact\<close>, to a range of the original that is one byte shorter than itself: its last byte has no original.
  With more of the synthesized text the range is approximate.
\<close>

theorem synthesized_end_reported_exact:
  assumes "Validate (Some segments) v t = None" "fits v" "fits t" "segments \<noteq> []"
    and "list_all (\<lambda>s. VirtualStart s < VirtualEnd s) segments" "length t + 1 < 2 ^ 31"
    and "s = last segments" "seg_Kind s = KindVerbatim" "e = VirtualEnd s" "e < int (length v)"
    and "VirtualStart s \<le> a" "a \<le> e" "e + 1 < b" "b < 2 ^ 31"
  shows "(\<exists>c d. VirtualToOriginalSpan (Some segments) (a, e + 1) = ((c, d), FidelityExact) \<and> d - c = (e + 1 - a) - 1
      \<and> slc v (nat a) (nat e) = slc t (nat c) (nat d))
    \<and> snd (VirtualToOriginalSpan (Some segments) (a, b)) = FidelityApproximate"
proof -
  note ok = Validate_ok [OF assms(1-3)] and at = positions_of_the_last_segment [OF assms(1-5)]
  have s: "s \<in> set segments" "segments ! (length segments - 1) = s" using assms(4,7) by (simp_all add: last_conv_nth)
  have so: "seg_ok v t s" by (rule ok(2) [OF s(1)])
  have r: "0 \<le> a" "e + 1 < 2 ^ 31" using so assms(2,10,11) by (simp_all add: seg_ok_def)
  have ends: "segmentIndexAt segments a = (int (length segments - 1), True)" "segmentIndexAt segments e = (int (length segments - 1), True)"
    using at(1) [of a] at(1) [of e] assms(7,9,11,12) by auto
  have probe: "goInt32 e = e" using r assms(12) by simp
  have low: "verbatim_position s a = OriginalStart s + (a - VirtualStart s)"
    using verbatim_offset(1) [OF so assms(8,2,3)] assms(9,11,12) by simp
  have "goInt32 (e + 1 - VirtualStart s) = e + 1 - VirtualStart s"
    using r so assms(9) by (intro goInt32_id) (auto simp: seg_ok_def)
  moreover have "OriginalStart s + (e + 1 - VirtualStart s) = OriginalEnd s + 1" "OriginalEnd s + 1 < 2 ^ 31" "0 \<le> OriginalEnd s"
    "verbatim_position s a \<le> OriginalEnd s"
    using so low assms(6,8,9,12) by (auto simp: seg_ok_def)
  ultimately have "clamp (goInt32 (OriginalStart s + goInt32 (e + 1 - VirtualStart s))) (verbatim_position s a) (OriginalEnd s) = OriginalEnd s"
    by (simp add: clamp_def)
  then have span: "VirtualToOriginalSpan (Some segments) (a, e + 1)
      = ((OriginalStart s + (a - VirtualStart s), OriginalEnd s), FidelityExact)"
    using assms(8,12) low probe ends
    by (simp add: VirtualToOriginalSpan_def Let_def s(2) [unfolded One_nat_def] max_absorb1)
  have "slc v (nat (VirtualStart s)) (nat e) = slc t (nat (OriginalStart s)) (nat (OriginalEnd s))"
    using so assms(8,9) by (simp add: seg_ok_def)
  then have "slc v (nat a) (nat e) = slc t (nat (OriginalStart s) + (nat a - nat (VirtualStart s)))
      (nat (OriginalStart s) + (nat e - nat (VirtualStart s)))"
    by (rule slc_inside) (use so assms(8,9,11,12) in \<open>auto simp: seg_ok_def nat_diff_distrib\<close>)
  moreover have "nat (OriginalStart s) + (nat a - nat (VirtualStart s)) = nat (OriginalStart s + (a - VirtualStart s))"
    "nat (OriginalStart s) + (nat e - nat (VirtualStart s)) = nat (OriginalEnd s)"
    using so assms(8,9,11,12) by (auto simp: seg_ok_def)
  moreover have "OriginalEnd s - (OriginalStart s + (a - VirtualStart s)) = e + 1 - a - 1"
    using so assms(8,9) by (auto simp: seg_ok_def)
  ultimately have exact: "\<exists>c d. VirtualToOriginalSpan (Some segments) (a, e + 1) = ((c, d), FidelityExact)
      \<and> d - c = (e + 1 - a) - 1 \<and> slc v (nat a) (nat e) = slc t (nat c) (nat d)"
    using span by auto
  have "goInt32 (b - 1) = b - 1" using r assms(12-14) by simp
  moreover have "\<not> snd (segmentIndexAt segments (b - 1))" using at(2) [of "b - 1"] assms(7,9,13,14) by simp
  ultimately have "snd (VirtualToOriginalSpan (Some segments) (a, b)) = FidelityApproximate"
    using assms(12,13) ends(1) by (auto simp: VirtualToOriginalSpan_def Let_def split: prod.splits)
  with exact show ?thesis ..
qed

theorem synthesized_end_reported_exact_witness:
  "(\<exists>c d. VirtualToOriginalSpan (Some [example_seg 0 5 0 5 KindVerbatim]) (3, 6) = ((c, d), FidelityExact) \<and> d - c = 2)
    \<and> snd (VirtualToOriginalSpan (Some [example_seg 0 5 0 5 KindVerbatim]) (3, 7)) = FidelityApproximate"
proof -
  let ?m = "[example_seg 0 5 0 5 KindVerbatim]" and ?v = "''abcde'' @ [CHR 0x27, CHR 0x27]"
  have valid: "Validate (Some ?m) ?v ''abcde'' = None" by code_simp
  have s: "last ?m = example_seg 0 5 0 5 KindVerbatim" "list_all (\<lambda>s. VirtualStart s < VirtualEnd s) ?m"
    "seg_Kind (last ?m) = KindVerbatim" "5 = VirtualEnd (last ?m)" "VirtualStart (last ?m) = 0" by (simp_all add: example_seg_def)
  show ?thesis
    using synthesized_end_reported_exact [OF valid _ _ _ s(2) _ refl s(3,4), of 3 7] s(5) by force
qed

text \<open>An empty segment inside a range that other segments cover makes the range unsupported.\<close>

lemma empty_segment_interrupts_coverage:
  "let m = NewSpanMap stable_sorters
       [example_seg 0 5 0 5 KindVerbatim, example_seg 5 5 5 5 KindVerbatim, example_seg 5 9 5 9 KindVerbatim] in
    Validate m ''abcdefghi'' ''abcdefghi'' = None
    \<and> snd (VirtualToOriginalSpanForFeature m (1, 8) 1) = FidelityNone
    \<and> snd (VirtualToOriginalSpanForFeature m (1, 5) 1) \<noteq> FidelityNone
    \<and> snd (VirtualToOriginalSpanForFeature m (6, 8) 1) \<noteq> FidelityNone"
  by code_simp

section \<open>The tuples\<close>

lemma goInt32_add_diff: "goInt32 (a + goInt32 (b - a)) = goInt32 b"
proof -
  have "signed_take_bit 31 (a + signed_take_bit 31 (b - a)) = signed_take_bit 31 (a + (b - a))"
    using signed_take_bit_add [of 31 a "signed_take_bit 31 (b - a)"] signed_take_bit_add [of 31 a "b - a"] by simp
  then show ?thesis by (simp add: goInt32_def)
qed

lemma segment_tuple_length: "length (segment_tuple s) = 5 \<or> length (segment_tuple s) = 6"
  by (simp add: segment_tuple_def)

lemma tuple_segment_tuple:
  assumes "VirtualEnd s \<in> {- (2 ^ 31)..<2 ^ 31}" "OriginalEnd s \<in> {- (2 ^ 31)..<2 ^ 31}"
  shows "tuple_segment (segment_tuple s) = s"
  using assms by (simp add: tuple_segment_def segment_tuple_def goInt32_add_diff)

text \<open>So a map that was sent as tuples is read back as one with the same segments.\<close>

lemma Unmarshal_Marshal:
  assumes "\<forall>s \<in> set segments. VirtualEnd s \<in> {- (2 ^ 31)..<2 ^ 31} \<and> OriginalEnd s \<in> {- (2 ^ 31)..<2 ^ 31}"
  shows "Unmarshal S (Marshal segments) = Inr (NewSpanMap S segments)"
proof -
  have "unmarshal_loop i (map segment_tuple segments) = Inr segments" for i
    using assms by (induction segments arbitrary: i) (use segment_tuple_length in \<open>auto simp: tuple_segment_tuple\<close>)
  then show ?thesis by (simp add: Unmarshal_def Marshal_def)
qed

end
