(* ===== verification/TsExtension.thy ===== *)
theory TsExtension
  imports TsPath
begin

text \<open>
  File extensions (\<^verbatim>\<open>tspath/extension.go\<close>): the extensions a program may consist of, which of them a
  path has, and how one is removed or changed. \<open>equalFold\<close> stands for \<open>strings.EqualFold\<close>, as in \<open>TsPath\<close>.
\<close>

section \<open>The known extensions\<close>

abbreviation (input) ExtensionTs :: string where "ExtensionTs \<equiv> ''.ts''"
abbreviation (input) ExtensionTsx :: string where "ExtensionTsx \<equiv> ''.tsx''"
abbreviation (input) ExtensionDts :: string where "ExtensionDts \<equiv> ''.d.ts''"
abbreviation (input) ExtensionJs :: string where "ExtensionJs \<equiv> ''.js''"
abbreviation (input) ExtensionJsx :: string where "ExtensionJsx \<equiv> ''.jsx''"
abbreviation (input) ExtensionJson :: string where "ExtensionJson \<equiv> ''.json''"
abbreviation (input) ExtensionMjs :: string where "ExtensionMjs \<equiv> ''.mjs''"
abbreviation (input) ExtensionMts :: string where "ExtensionMts \<equiv> ''.mts''"
abbreviation (input) ExtensionDmts :: string where "ExtensionDmts \<equiv> ''.d.mts''"
abbreviation (input) ExtensionCjs :: string where "ExtensionCjs \<equiv> ''.cjs''"
abbreviation (input) ExtensionCts :: string where "ExtensionCts \<equiv> ''.cts''"
abbreviation (input) ExtensionDcts :: string where "ExtensionDcts \<equiv> ''.d.cts''"

definition SupportedDeclarationExtensions :: "string list" where
  "SupportedDeclarationExtensions = [ExtensionDts, ExtensionDcts, ExtensionDmts]"

definition SupportedTSImplementationExtensions :: "string list" where
  "SupportedTSImplementationExtensions = [ExtensionTs, ExtensionTsx, ExtensionMts, ExtensionCts]"

definition supportedTSExtensionsForExtractExtension :: "string list" where
  "supportedTSExtensionsForExtractExtension =
    [ExtensionDts, ExtensionDcts, ExtensionDmts, ExtensionTs, ExtensionTsx, ExtensionMts, ExtensionCts]"

definition SupportedTSExtensionsFlat :: "string list" where
  "SupportedTSExtensionsFlat =
    [ExtensionTs, ExtensionTsx, ExtensionDts, ExtensionCts, ExtensionDcts, ExtensionMts, ExtensionDmts]"

definition SupportedJSExtensionsFlat :: "string list" where
  "SupportedJSExtensionsFlat = [ExtensionJs, ExtensionJsx, ExtensionMjs, ExtensionCjs]"

definition extensionsToRemove :: "string list" where
  "extensionsToRemove =
    [ExtensionDts, ExtensionDmts, ExtensionDcts, ExtensionMjs, ExtensionMts, ExtensionCjs, ExtensionCts, ExtensionTs,
     ExtensionJs, ExtensionTsx, ExtensionJsx, ExtensionJson]"

section \<open>Which extension a path has\<close>

definition ExtensionIsTs :: "string \<Rightarrow> bool" where
  "ExtensionIsTs ext \<longleftrightarrow>
    ext = ExtensionTs \<or> ext = ExtensionTsx \<or> ext = ExtensionDts \<or> ext = ExtensionMts \<or> ext = ExtensionDmts
    \<or> ext = ExtensionCts \<or> ext = ExtensionDcts
    \<or> 7 \<le> length ext \<and> take 3 ext = ''.d.'' \<and> drop (length ext - 3) ext = ''.ts''"

fun first_extension :: "(string \<Rightarrow> bool) \<Rightarrow> string list \<Rightarrow> string" where
  "first_extension has [] = []"
| "first_extension has (ext # exts) = (if has ext then ext else first_extension has exts)"

definition TryGetExtensionFromPath :: "string \<Rightarrow> string" where
  "TryGetExtensionFromPath p = first_extension (FileExtensionIs p) extensionsToRemove"

definition TryExtractTSExtension :: "string \<Rightarrow> string" where
  "TryExtractTSExtension fileName = first_extension (FileExtensionIs fileName) supportedTSExtensionsForExtractExtension"

definition FileExtensionIsOneOf :: "string \<Rightarrow> string list \<Rightarrow> bool" where
  "FileExtensionIsOneOf path extensions \<longleftrightarrow> list_ex (FileExtensionIs path) extensions"

definition HasTSFileExtension :: "string \<Rightarrow> bool" where
  "HasTSFileExtension path \<longleftrightarrow> FileExtensionIsOneOf path SupportedTSExtensionsFlat"

definition HasJSFileExtension :: "string \<Rightarrow> bool" where
  "HasJSFileExtension path \<longleftrightarrow> FileExtensionIsOneOf path SupportedJSExtensionsFlat"

definition HasJSONFileExtension :: "string \<Rightarrow> bool" where
  "HasJSONFileExtension path \<longleftrightarrow> FileExtensionIs path ExtensionJson"

definition ExtensionIsOneOf :: "string \<Rightarrow> string list \<Rightarrow> bool" where
  "ExtensionIsOneOf ext extensions \<longleftrightarrow> ext \<in> set extensions"

text \<open>The extension of a declaration file, which may contain that of another file, as in \<open>.d.css.ts\<close>.\<close>

definition declaration_extension :: "string \<Rightarrow> string" where
  "declaration_extension base =
    (let known = first_extension (HasSuffix base) SupportedDeclarationExtensions in
     if known \<noteq> [] then known
     else if HasSuffix base ExtensionTs
     then (case strIndex base ''.d.'' of Some index \<Rightarrow> drop index base | None \<Rightarrow> [])
     else [])"

definition getDeclarationFileExtensionFromNormalized :: "(string \<Rightarrow> string \<Rightarrow> bool) \<Rightarrow> string \<Rightarrow> string" where
  "getDeclarationFileExtensionFromNormalized equalFold fileName =
    declaration_extension (getBaseFileNameFromNormalized equalFold fileName)"

definition GetDeclarationFileExtension :: "(string \<Rightarrow> string \<Rightarrow> bool) \<Rightarrow> string \<Rightarrow> string" where
  "GetDeclarationFileExtension equalFold fileName =
    getDeclarationFileExtensionFromNormalized equalFold (NormalizeSlashes fileName)"

definition IsDeclarationFileName :: "(string \<Rightarrow> string \<Rightarrow> bool) \<Rightarrow> string \<Rightarrow> bool" where
  "IsDeclarationFileName equalFold fileName \<longleftrightarrow> GetDeclarationFileExtension equalFold fileName \<noteq> []"

definition HasImplementationTSFileExtension :: "(string \<Rightarrow> string \<Rightarrow> bool) \<Rightarrow> string \<Rightarrow> bool" where
  "HasImplementationTSFileExtension equalFold path \<longleftrightarrow>
    FileExtensionIsOneOf path SupportedTSImplementationExtensions \<and> \<not> IsDeclarationFileName equalFold path"

section \<open>Removing and changing extensions\<close>

definition RemoveExtension :: "string \<Rightarrow> string \<Rightarrow> string" where
  "RemoveExtension path extension = take (length path - length extension) path"

definition RemoveFileExtension :: "string \<Rightarrow> string" where
  "RemoveFileExtension path = RemoveExtension path (first_extension (HasSuffix path) extensionsToRemove)"

definition RemoveAnyFileExtension :: "(string \<Rightarrow> string \<Rightarrow> bool) \<Rightarrow> string \<Rightarrow> string" where
  "RemoveAnyFileExtension equalFold path =
    (if RemoveFileExtension path \<noteq> path then RemoveFileExtension path
     else let extension = GetAnyExtensionFromPath equalFold path [] True in
       if extension \<noteq> [] then RemoveExtension path extension else path)"

definition GetDeclarationEmitExtensionForPath :: "(string \<Rightarrow> string \<Rightarrow> bool) \<Rightarrow> string \<Rightarrow> string" where
  "GetDeclarationEmitExtensionForPath equalFold path =
    (if FileExtensionIsOneOf path [ExtensionMjs, ExtensionMts] then ExtensionDmts
     else if FileExtensionIsOneOf path [ExtensionCjs, ExtensionCts] then ExtensionDcts
     else if FileExtensionIsOneOf path [ExtensionTs, ExtensionTsx, ExtensionJs, ExtensionJsx] then ExtensionDts
     else let ext = GetAnyExtensionFromPath equalFold path [] True in
       if ext \<noteq> [] then ''.d'' @ ext @ ''.ts'' else ExtensionDts)"

definition ChangeAnyExtension ::
    "(string \<Rightarrow> string \<Rightarrow> bool) \<Rightarrow> string \<Rightarrow> string \<Rightarrow> string list \<Rightarrow> bool \<Rightarrow> string" where
  "ChangeAnyExtension equalFold path ext extensions caseSensitive =
    (let pathext = GetAnyExtensionFromPath equalFold path extensions caseSensitive in
     if pathext \<noteq> [] then
       let result = take (length path - length pathext) path in
       if ext = [] then result else if HasPrefix ext ''.'' then result @ ext else result @ ''.'' @ ext
     else path)"

definition ChangeExtension :: "(string \<Rightarrow> string \<Rightarrow> bool) \<Rightarrow> string \<Rightarrow> string \<Rightarrow> string" where
  "ChangeExtension equalFold path newExtension =
    ChangeAnyExtension equalFold path newExtension extensionsToRemove True"

definition ChangeFullExtension :: "(string \<Rightarrow> string \<Rightarrow> bool) \<Rightarrow> string \<Rightarrow> string \<Rightarrow> string" where
  "ChangeFullExtension equalFold path newExtension =
    (let declarationExtension = GetDeclarationFileExtension equalFold path in
     if declarationExtension \<noteq> [] then
       let stem = take (length path - length declarationExtension) path in
       if newExtension = [] then stem
       else stem @ (if \<not> HasPrefix newExtension ''.'' then ''.'' @ newExtension else newExtension)
     else ChangeExtension equalFold path newExtension)"

definition GetPossibleOriginalInputExtensionForExtension ::
    "(string \<Rightarrow> string \<Rightarrow> bool) \<Rightarrow> string \<Rightarrow> string list" where
  "GetPossibleOriginalInputExtensionForExtension equalFold path =
    (if FileExtensionIsOneOf path [ExtensionDmts, ExtensionMjs, ExtensionMts] then [ExtensionMts, ExtensionMjs]
     else if FileExtensionIsOneOf path [ExtensionDcts, ExtensionCjs, ExtensionCts] then [ExtensionCts, ExtensionCjs]
     else let ext = GetDeclarationFileExtension equalFold path in
       if ext \<noteq> [] \<and> ext \<noteq> ExtensionDts then [''.'' @ take (length ext - 6) (drop 3 ext)]
       else [ExtensionTsx, ExtensionTs, ExtensionJsx, ExtensionJs])"

end
