(* ===== verification/DynamicUri.thy ===== *)
theory DynamicUri
  imports TsExtension
begin

text \<open>
  File names of documents that are not on disk (\<^verbatim>\<open>tspath/dynamic.go\<close>, \<^verbatim>\<open>lsp/lsproto/lsp.go\<close>): the URI
  \<open>scheme://authority/path?query\<close> becomes the rooted path \<open>^/~ts-uri~/scheme/authority/path\<close>. Segments that a
  path would normalize away, and the query, are encoded in hexadecimal; the extension stays readable.
  \<open>None\<close> is a panic, or the second result \<open>false\<close>. \<open>equalFold\<close> stands for \<open>strings.EqualFold\<close>.
\<close>

section \<open>strings, hex and utf8\<close>

definition strCut :: "string \<Rightarrow> char \<Rightarrow> (string \<times> string) option" where
  "strCut s sep = (case IndexByte s sep of None \<Rightarrow> None | Some i \<Rightarrow> Some (take i s, drop (i + 1) s))"

definition CutPrefix :: "string \<Rightarrow> string \<Rightarrow> string option" where
  "CutPrefix s p = (if HasPrefix s p then Some (drop (length p) s) else None)"

definition hex_digit_char :: "nat \<Rightarrow> char" where
  "hex_digit_char n = ''0123456789abcdef'' ! n"

definition hex_EncodeToString :: "string \<Rightarrow> string" where
  "hex_EncodeToString s = concat (map (\<lambda>c. [hex_digit_char (of_char c div 16), hex_digit_char (of_char c mod 16)]) s)"

definition fromHexChar :: "char \<Rightarrow> nat option" where
  "fromHexChar c =
    (let n = of_char c in
     if of_char CHR ''0'' \<le> n \<and> n \<le> of_char CHR ''9'' then Some (n - of_char CHR ''0'')
     else if of_char CHR ''a'' \<le> n \<and> n \<le> of_char CHR ''f'' then Some (n - of_char CHR ''a'' + 10)
     else if of_char CHR ''A'' \<le> n \<and> n \<le> of_char CHR ''F'' then Some (n - of_char CHR ''A'' + 10)
     else None)"

fun hex_DecodeString :: "string \<Rightarrow> string option" where
  "hex_DecodeString [] = Some []"
| "hex_DecodeString [a] = None"
| "hex_DecodeString (a # b # s) =
    (case (fromHexChar a, fromHexChar b, hex_DecodeString s) of
       (Some x, Some y, Some r) \<Rightarrow> Some (char_of (x * 16 + y) # r) | _ \<Rightarrow> None)"

function (sequential) utf8_Valid :: "string \<Rightarrow> bool" where
  "utf8_Valid s \<longleftrightarrow>
    (if s = [] then True
     else DecodeRune s \<noteq> (RuneError, 1) \<and> utf8_Valid (drop (snd (DecodeRune s)) s))"
  by pat_completeness auto
termination
  by (relation "measure length") (auto simp: DecodeRune_size_pos)

declare utf8_Valid.simps [simp del]

section \<open>Segments\<close>

abbreviation (input) segmentEscapePrefix :: string where "segmentEscapePrefix \<equiv> ''~ts-uri-escape~''"
abbreviation (input) specifierEscapePrefix :: string where "specifierEscapePrefix \<equiv> ''~ts-uri-spec~''"
abbreviation (input) noPathEscapePrefix :: string where "noPathEscapePrefix \<equiv> ''~ts-uri-no-path~''"
abbreviation (input) NUL :: char where "NUL \<equiv> CHR 0x00"
abbreviation (input) tilde :: char where "tilde \<equiv> CHR ''~''"

definition dynamicURIPathSegmentNeedsEncoding :: "string \<Rightarrow> bool" where
  "dynamicURIPathSegmentNeedsEncoding segment \<longleftrightarrow>
    segment = [] \<or> segment = ''.'' \<or> segment = ''..''
    \<or> HasPrefix segment segmentEscapePrefix \<or> HasPrefix segment specifierEscapePrefix
    \<or> HasPrefix segment noPathEscapePrefix \<or> IndexByte segment backslash \<noteq> None"

definition splitDynamicURIFileExtension :: "(string \<Rightarrow> string \<Rightarrow> bool) \<Rightarrow> string \<Rightarrow> string \<times> string" where
  "splitDynamicURIFileExtension equalFold segment =
    (let baseName = (case LastIndexByte segment backslash of None \<Rightarrow> segment | Some i \<Rightarrow> drop (i + 1) segment);
         declaration = GetDeclarationFileExtension equalFold baseName;
         extension = (if declaration = [] then GetAnyExtensionFromPath equalFold baseName [] True else declaration)
     in if extension \<noteq> [] then (take (length segment - length extension) segment, extension) else (segment, extension))"

definition forceEncodeDynamicURIPathSegment :: "(string \<Rightarrow> string \<Rightarrow> bool) \<Rightarrow> string \<Rightarrow> bool \<Rightarrow> string" where
  "forceEncodeDynamicURIPathSegment equalFold segment0 preserveExtension =
    (let (segment, extension) =
       (if preserveExtension \<and> segment0 \<noteq> ''.'' \<and> segment0 \<noteq> ''..'' then splitDynamicURIFileExtension equalFold segment0
        else (segment0, []))
     in segmentEscapePrefix @ hex_EncodeToString segment @ ''~'' @ extension)"

definition forceEncodeDynamicURIPathSegmentWithSuffix ::
    "(string \<Rightarrow> string \<Rightarrow> bool) \<Rightarrow> string \<Rightarrow> string \<Rightarrow> string" where
  "forceEncodeDynamicURIPathSegmentWithSuffix equalFold segment0 query =
    (let (segment, extension) = splitDynamicURIFileExtension equalFold segment0;
         payload = segment @ [NUL] @ query
     in segmentEscapePrefix @ hex_EncodeToString payload @ ''~'' @ extension)"

definition encodeDynamicURIPathSegment :: "(string \<Rightarrow> string \<Rightarrow> bool) \<Rightarrow> string \<Rightarrow> bool \<Rightarrow> string" where
  "encodeDynamicURIPathSegment equalFold segment preserveExtension =
    (if dynamicURIPathSegmentNeedsEncoding segment
     then forceEncodeDynamicURIPathSegment equalFold segment preserveExtension else segment)"

definition TryDecodeDynamicURIPathSegment :: "string \<Rightarrow> string option" where
  "TryDecodeDynamicURIPathSegment segment =
    (case CutPrefix segment segmentEscapePrefix of
       None \<Rightarrow> if dynamicURIPathSegmentNeedsEncoding segment then None else Some segment
     | Some encoded0 \<Rightarrow>
         (case strCut encoded0 tilde of
            None \<Rightarrow> None
          | Some (encoded, extension) \<Rightarrow>
              (case hex_DecodeString encoded of
                 None \<Rightarrow> None
               | Some decoded \<Rightarrow>
                   if \<not> utf8_Valid decoded then None
                   else (case strCut decoded NUL of
                           Some (base, query) \<Rightarrow> Some (base @ extension @ query)
                         | None \<Rightarrow> Some (decoded @ extension)))))"

definition DecodeDynamicURIPathSegment :: "string \<Rightarrow> string" where
  "DecodeDynamicURIPathSegment segment =
    (case TryDecodeDynamicURIPathSegment segment of None \<Rightarrow> segment | Some decoded \<Rightarrow> decoded)"

section \<open>Paths\<close>

lemma strCut_length:
  assumes "strCut path c = Some (segment, rest)"
  shows "length rest < length path"
proof -
  have "IndexByte s c = Some i \<Longrightarrow> i < length s" for s i by (induction s arbitrary: i) (auto split: if_splits)
  from this [of path] show ?thesis using assms by (fastforce simp: strCut_def split: option.splits)
qed

function (sequential) dynamicURIPathNeedsEncoding :: "string \<Rightarrow> bool" where
  "dynamicURIPathNeedsEncoding path \<longleftrightarrow>
    (case strCut path slash of
       None \<Rightarrow> dynamicURIPathSegmentNeedsEncoding path
     | Some (segment, rest) \<Rightarrow> dynamicURIPathSegmentNeedsEncoding segment \<or> dynamicURIPathNeedsEncoding rest)"
  by pat_completeness auto
termination
  by (relation "measure length") (auto dest: strCut_length)

declare dynamicURIPathNeedsEncoding.simps [simp del]

text \<open>The loop of \<open>encodeDynamicURIPath\<close>; the result is what it writes.\<close>

function (sequential) encode_segments :: "(string \<Rightarrow> string \<Rightarrow> bool) \<Rightarrow> string \<Rightarrow> bool \<Rightarrow> string" where
  "encode_segments equalFold path preserveFinalExtension =
    (case strCut path slash of
       None \<Rightarrow> encodeDynamicURIPathSegment equalFold path preserveFinalExtension
     | Some (segment, rest) \<Rightarrow>
         encodeDynamicURIPathSegment equalFold segment False @ ''/'' @ encode_segments equalFold rest preserveFinalExtension)"
  by pat_completeness auto
termination
  by (relation "measure (\<lambda>(_, path, _). length path)") (auto dest: strCut_length)

declare encode_segments.simps [simp del]

definition encodeDynamicURIPath :: "(string \<Rightarrow> string \<Rightarrow> bool) \<Rightarrow> string \<Rightarrow> bool \<Rightarrow> string" where
  "encodeDynamicURIPath equalFold path preserveFinalExtension =
    (if \<not> dynamicURIPathNeedsEncoding path then path else encode_segments equalFold path preserveFinalExtension)"

definition encodeDynamicURIPathRootAware :: "(string \<Rightarrow> string \<Rightarrow> bool) \<Rightarrow> string \<Rightarrow> bool \<Rightarrow> string" where
  "encodeDynamicURIPathRootAware equalFold path preserveFinalExtension =
    (let encoded = encodeDynamicURIPath equalFold path preserveFinalExtension in
     if \<not> PathIsAbsolute equalFold encoded then encoded
     else case strCut encoded slash of
       None \<Rightarrow> forceEncodeDynamicURIPathSegment equalFold encoded preserveFinalExtension
     | Some (first, rest) \<Rightarrow> forceEncodeDynamicURIPathSegment equalFold first False @ ''/'' @ rest)"

definition EncodeDynamicURIPath :: "(string \<Rightarrow> string \<Rightarrow> bool) \<Rightarrow> string \<Rightarrow> string" where
  "EncodeDynamicURIPath equalFold path = encodeDynamicURIPathRootAware equalFold path True"

definition EncodeDynamicURIDirectoryPath :: "(string \<Rightarrow> string \<Rightarrow> bool) \<Rightarrow> string \<Rightarrow> string" where
  "EncodeDynamicURIDirectoryPath equalFold path = encodeDynamicURIPathRootAware equalFold path False"

definition EncodeDynamicURIPathWithSuffix :: "(string \<Rightarrow> string \<Rightarrow> bool) \<Rightarrow> string \<Rightarrow> string \<Rightarrow> string" where
  "EncodeDynamicURIPathWithSuffix equalFold path query =
    (if query = [] then EncodeDynamicURIPath equalFold path
     else case LastIndexByte path slash of
       None \<Rightarrow> forceEncodeDynamicURIPathSegmentWithSuffix equalFold path query
     | Some i \<Rightarrow> EncodeDynamicURIDirectoryPath equalFold (take i path) @ ''/''
         @ forceEncodeDynamicURIPathSegmentWithSuffix equalFold (drop (i + 1) path) query)"

definition EncodeDynamicURINoPath :: "string \<Rightarrow> string" where
  "EncodeDynamicURINoPath query = noPathEscapePrefix @ hex_EncodeToString query @ ''~''"

definition DecodeDynamicURINoPath :: "string \<Rightarrow> string option" where
  "DecodeDynamicURINoPath path =
    (case CutPrefix path noPathEscapePrefix of
       None \<Rightarrow> None
     | Some encoded0 \<Rightarrow>
         (case strCut encoded0 tilde of
            None \<Rightarrow> None
          | Some (encoded, rest) \<Rightarrow>
              if rest \<noteq> [] then None
              else (case hex_DecodeString encoded of
                      None \<Rightarrow> None
                    | Some decoded \<Rightarrow> if utf8_Valid decoded then Some decoded else None)))"

definition DecodeDynamicURIPath :: "string \<Rightarrow> string" where
  "DecodeDynamicURIPath path =
    (if strIndex path segmentEscapePrefix = None then path
     else strJoin (map DecodeDynamicURIPathSegment (splitByte slash path)) ''/'')"

definition TryDecodeDynamicURIPath :: "string \<Rightarrow> string option" where
  "TryDecodeDynamicURIPath path =
    map_option (\<lambda>segments. strJoin segments ''/'') (those (map TryDecodeDynamicURIPathSegment (splitByte slash path)))"

text \<open>The check of \<open>DecodeDynamicURIPathForDisk\<close> on the decoded segments; only the last one may be empty.\<close>

fun disk_segments :: "string list \<Rightarrow> bool" where
  "disk_segments [] = True"
| "disk_segments (segment # rest) \<longleftrightarrow>
    (if segment = [] then rest = []
     else segment \<noteq> ''.'' \<and> segment \<noteq> ''..'' \<and> IndexByte segment backslash = None \<and> disk_segments rest)"

definition DecodeDynamicURIPathForDisk :: "(string \<Rightarrow> string \<Rightarrow> bool) \<Rightarrow> string \<Rightarrow> string option" where
  "DecodeDynamicURIPathForDisk equalFold path =
    (let decoded = DecodeDynamicURIPath path in
     if PathIsAbsolute equalFold decoded then None
     else if disk_segments (splitByte slash decoded) then Some decoded else None)"


section \<open>Module specifiers\<close>

text \<open>In a specifier an encoded segment is written with a prefix of its own, so that it is not decoded twice.\<close>

definition encodeDynamicModuleSpecifierSegment :: "(string \<Rightarrow> string \<Rightarrow> bool) \<Rightarrow> string \<Rightarrow> bool \<Rightarrow> string" where
  "encodeDynamicModuleSpecifierSegment equalFold segment preserveExtension =
    (let encode = (if HasPrefix segment segmentEscapePrefix
           then forceEncodeDynamicURIPathSegment equalFold segment preserveExtension else segment)
     in case CutPrefix segment specifierEscapePrefix of
          Some encoded \<Rightarrow>
            (let physical = segmentEscapePrefix @ encoded in
             if DecodeDynamicURIPathSegment physical \<noteq> physical then physical else encode)
        | None \<Rightarrow> encode)"

definition separator_index :: "string \<Rightarrow> nat option" where
  "separator_index s =
    (let i = run_length (\<lambda>c. c \<noteq> slash \<and> c \<noteq> backslash) s in if i < length s then Some i else None)"

function (sequential) encode_specifier :: "(string \<Rightarrow> string \<Rightarrow> bool) \<Rightarrow> string \<Rightarrow> bool \<Rightarrow> string" where
  "encode_specifier equalFold specifier preserveFinalExtension =
    (case separator_index specifier of
       None \<Rightarrow> encodeDynamicModuleSpecifierSegment equalFold specifier preserveFinalExtension
     | Some separator \<Rightarrow>
         encodeDynamicModuleSpecifierSegment equalFold (take separator specifier) False @ [specifier ! separator]
         @ encode_specifier equalFold (drop (separator + 1) specifier) preserveFinalExtension)"
  by pat_completeness auto
termination
  by (relation "measure (\<lambda>(_, specifier, _). length specifier)")
     (auto simp: separator_index_def Let_def split: if_splits)

declare encode_specifier.simps [simp del]

definition encodeDynamicModuleSpecifier :: "(string \<Rightarrow> string \<Rightarrow> bool) \<Rightarrow> string \<Rightarrow> bool \<Rightarrow> string" where
  "encodeDynamicModuleSpecifier equalFold specifier preserveFinalExtension =
    (if strIndex specifier segmentEscapePrefix = None \<and> strIndex specifier specifierEscapePrefix = None then specifier
     else encode_specifier equalFold specifier preserveFinalExtension)"

definition DynamicURIPathToModuleSpecifier :: "string \<Rightarrow> string" where
  "DynamicURIPathToModuleSpecifier path =
    (if strIndex path segmentEscapePrefix = None then path
     else strJoin (map (\<lambda>segment.
         if HasPrefix segment segmentEscapePrefix \<and> DecodeDynamicURIPathSegment segment \<noteq> segment
         then specifierEscapePrefix @ TrimPrefix segment segmentEscapePrefix else segment) (splitByte slash path)) ''/'')"

definition EncodeDynamicLogicalModuleSpecifier :: "(string \<Rightarrow> string \<Rightarrow> bool) \<Rightarrow> string \<Rightarrow> string" where
  "EncodeDynamicLogicalModuleSpecifier equalFold specifier =
    (if specifier = [] then []
     else
       let trailingSeparator = HasTrailingDirectorySeparator specifier;
           encoded = DynamicURIPathToModuleSpecifier (EncodeDynamicURIPath equalFold
             (if trailingSeparator then RemoveTrailingDirectorySeparator specifier else specifier))
       in if trailingSeparator then encoded @ ''/'' else encoded)"

section \<open>Rooted paths\<close>

definition canonicalDynamicURIPath :: "(string \<Rightarrow> string \<Rightarrow> bool) \<Rightarrow> string \<Rightarrow> string" where
  "canonicalDynamicURIPath equalFold path =
    (if IsEncodedDynamicFileName path \<and> GetRootLength equalFold path = length path \<and> \<not> HasTrailingDirectorySeparator path
     then path @ ''/'' else path)"

definition hasURLRoot :: "(string \<Rightarrow> string \<Rightarrow> bool) \<Rightarrow> string \<Rightarrow> bool" where
  "hasURLRoot equalFold path \<longleftrightarrow> GetEncodedRootLength equalFold path < 0 \<and> strIndex path ''://'' \<noteq> None"

definition hasRootedURLSuffix :: "(string \<Rightarrow> string \<Rightarrow> bool) \<Rightarrow> string \<Rightarrow> bool" where
  "hasRootedURLSuffix equalFold path \<longleftrightarrow>
    hasURLRoot equalFold path
    \<and> (case strIndex path ''://'' of None \<Rightarrow> False | Some i \<Rightarrow> list_ex (\<lambda>c. c = CHR ''?'' \<or> c = CHR ''#'') (drop (i + 3) path))"

definition TryRootedPathFromNormalized :: "(string \<Rightarrow> string \<Rightarrow> bool) \<Rightarrow> string \<Rightarrow> string option" where
  "TryRootedPathFromNormalized equalFold path =
    (if hasRootedURLSuffix equalFold path then None
     else let rootLength = GetRootLength equalFold path in
       if path = [] \<or> rootLength = 0 \<or> IndexByte path backslash \<noteq> None
         \<or> rootLength < length path \<and> path ! rootLength = slash
         \<or> hasRelativePathSegment (drop rootLength path)
         \<or> length path = rootLength \<and> \<not> HasTrailingDirectorySeparator path
         \<or> length path > rootLength \<and> HasTrailingDirectorySeparator path
       then None else Some path)"

text \<open>A panic where it is not rooted and normalized.\<close>

definition RootedPathFromNormalized :: "(string \<Rightarrow> string \<Rightarrow> bool) \<Rightarrow> string \<Rightarrow> string option" where
  "RootedPathFromNormalized = TryRootedPathFromNormalized"

section \<open>URIs\<close>

abbreviation (input) nul_authority :: string where "nul_authority \<equiv> ''ts-nul-authority''"

definition IsBundled :: "string \<Rightarrow> bool" where
  "IsBundled path \<longleftrightarrow> CutPrefix path ''bundled:///'' \<noteq> None"

definition query_index :: "string \<Rightarrow> nat" where
  "query_index path = run_length (\<lambda>c. c \<noteq> CHR ''?'' \<and> c \<noteq> CHR ''#'') path"

text \<open>The authority, unless there is none, and the path, unless there is none behind an authority.\<close>

definition uri_authority :: "string \<Rightarrow> string option \<times> string option" where
  "uri_authority path =
    (case CutPrefix path ''//'' of
       None \<Rightarrow> (None, Some path)
     | Some rest \<Rightarrow>
         (case strCut rest slash of
            None \<Rightarrow> (Some rest, None)
          | Some (authority, path) \<Rightarrow> (Some authority, Some path)))"

text \<open>The branch of \<open>DocumentUri.Path\<close> for the URIs that are neither bundled nor of files.\<close>

definition dynamic_uri_path :: "(string \<Rightarrow> string \<Rightarrow> bool) \<Rightarrow> string \<Rightarrow> string option" where
  "dynamic_uri_path equalFold uri =
    (case strCut uri CHR '':'' of
       None \<Rightarrow> None
     | Some (scheme, path0) \<Rightarrow>
         let path = take (query_index path0) path0; query = drop (query_index path0) path0;
             (authority, pathOnly) = uri_authority path;
             encodedAuthority = (case authority of
                 None \<Rightarrow> nul_authority
               | Some a \<Rightarrow> if a = nul_authority then forceEncodeDynamicURIPathSegment equalFold a False
                   else EncodeDynamicURIPath equalFold a);
             encodedPath = (case pathOnly of
                 Some p \<Rightarrow> EncodeDynamicURIPathWithSuffix equalFold p query
               | None \<Rightarrow> EncodeDynamicURINoPath query)
         in RootedPathFromNormalized equalFold
              (DynamicURIFileNamePrefix @ scheme @ ''/'' @ encodedAuthority @ ''/'' @ encodedPath))"

definition decode_strictly :: "bool \<Rightarrow> ('a \<Rightarrow> 'a option) \<Rightarrow> ('a \<Rightarrow> 'a) \<Rightarrow> 'a \<Rightarrow> 'a option" where
  "decode_strictly strict try decode x = (if strict then try x else Some (decode x))"

text \<open>The URI from the parts of the path, with the segments decoded where the path was \<open>encoded\<close>.\<close>

definition uri_of_parts :: "bool \<Rightarrow> bool \<Rightarrow> string \<Rightarrow> string \<Rightarrow> string \<Rightarrow> string option" where
  "uri_of_parts strict encoded scheme authority0 uriPath0 =
    (let hasAuthority = (authority0 \<noteq> nul_authority);
         decodedAuthority = (if encoded
           then decode_strictly strict TryDecodeDynamicURIPathSegment DecodeDynamicURIPathSegment authority0 else Some authority0);
         decodedPath = (if encoded
           then decode_strictly strict TryDecodeDynamicURIPath DecodeDynamicURIPath uriPath0 else Some uriPath0)
     in (case decodedAuthority of
           None \<Rightarrow> None
         | Some authority \<Rightarrow>
             (case (if encoded \<and> hasAuthority then DecodeDynamicURINoPath uriPath0 else None) of
                Some query \<Rightarrow> Some (scheme @ ''://'' @ authority @ query)
              | None \<Rightarrow>
                  (case decodedPath of
                     None \<Rightarrow> None
                   | Some uriPath \<Rightarrow>
                       Some (if \<not> hasAuthority then scheme @ '':'' @ uriPath
                             else scheme @ ''://'' @ authority @ ''/'' @ uriPath)))))"

definition dynamicFileNameToDocumentUri :: "string \<Rightarrow> bool \<Rightarrow> string option" where
  "dynamicFileNameToDocumentUri path strict =
    (let encoded = IsEncodedDynamicFileName path;
         start = (if encoded then length DynamicURIFileNamePrefix else 2)
     in if length path < start then None
        else (case strCut (drop start path) slash of
                None \<Rightarrow> None
              | Some (scheme, rest) \<Rightarrow>
                  if strict \<and> scheme = [] then None
                  else (case strCut rest slash of
                          None \<Rightarrow> None
                        | Some (authority, uriPath) \<Rightarrow> uri_of_parts strict encoded scheme authority uriPath)))"

definition DynamicFileNameToDocumentUri :: "string \<Rightarrow> string option" where
  "DynamicFileNameToDocumentUri fileName = dynamicFileNameToDocumentUri fileName False"

definition TryDynamicFileNameToDocumentUri :: "string \<Rightarrow> string option" where
  "TryDynamicFileNameToDocumentUri fileName = dynamicFileNameToDocumentUri fileName True"

end
