(* ===== verification/DynamicUriProps.thy ===== *)
theory DynamicUriProps
  imports DynamicUri TsPathProps ScannerOffsets
begin

text \<open>
  The names of documents that are not on disk lead back: every segment, path and URI is what decoding its
  encoding gives, and the encoding is a rooted and normalized path.
\<close>

section \<open>Cutting and coding\<close>

lemma strCut_at [simp]: "c \<notin> set a \<Longrightarrow> strCut (a @ c # b) c = Some (a, b)"
  by (induction a) (auto simp: strCut_def split: option.splits)

lemma IndexByte_at: "c \<notin> set a \<Longrightarrow> IndexByte (a @ c # b) c = Some (length a)"
  by (induction a) auto

lemma strCut_None [simp]: "c \<notin> set a \<Longrightarrow> strCut a c = None"
  by (simp add: strCut_def IndexByte_None [THEN iffD2])

lemma strCut_Some: "strCut s c = Some (a, b) \<Longrightarrow> s = a @ c # b \<and> c \<notin> set a"
  using IndexByte_Some [of s c] by (auto simp: strCut_def id_take_nth_drop split: option.splits)

lemma CutPrefix_append [simp]: "CutPrefix (p @ s) p = Some s"
  by (simp add: CutPrefix_def HasPrefix_def)

lemma CutPrefix_Some: "CutPrefix s p = Some r \<Longrightarrow> s = p @ r"
  by (auto simp: CutPrefix_def HasPrefix_def split: if_splits) (metis append_take_drop_id)

lemma CutPrefix_None: "CutPrefix s p = None \<longleftrightarrow> \<not> HasPrefix s p"
  by (simp add: CutPrefix_def)

text \<open>The digits of \<open>hex\<close> and their values.\<close>

definition hex_char :: "char \<Rightarrow> bool" where
  "hex_char c \<longleftrightarrow> c \<in> set ''0123456789abcdef''"

lemma fromHexChar_digit: "n < 16 \<Longrightarrow> fromHexChar (hex_digit_char n) = Some n \<and> hex_char (hex_digit_char n)"
proof -
  have "\<forall>n \<in> set [0..<16]. fromHexChar (hex_digit_char n) = Some n \<and> hex_char (hex_digit_char n)" by code_simp
  then show "n < 16 \<Longrightarrow> fromHexChar (hex_digit_char n) = Some n \<and> hex_char (hex_digit_char n)" by simp
qed

lemma hex_Encode_Cons:
  "hex_EncodeToString (c # s) = hex_digit_char (of_char c div 16) # hex_digit_char (of_char c mod 16) # hex_EncodeToString s"
  by (simp add: hex_EncodeToString_def)

lemma hex_Encode_chars: "list_all hex_char (hex_EncodeToString s)"
proof (induction s)
  case (Cons c s)
  have "of_char c div 16 < (16 :: nat)" by (simp add: less_mult_imp_div_less)
  then show ?case using Cons fromHexChar_digit by (simp add: hex_Encode_Cons)
qed (simp add: hex_EncodeToString_def)

lemma hex_roundtrip [simp]: "hex_DecodeString (hex_EncodeToString s) = Some s"
proof (induction s)
  case (Cons c s)
  have "of_char c div 16 < (16 :: nat)" by (simp add: less_mult_imp_div_less)
  then show ?case using Cons fromHexChar_digit [of "of_char c div 16"] fromHexChar_digit [of "of_char c mod 16"]
    by (simp add: hex_Encode_Cons)
qed (simp add: hex_EncodeToString_def)

lemma hex_no_tilde [simp]: "tilde \<notin> set (hex_EncodeToString s)" "slash \<notin> set (hex_EncodeToString s)"
  "backslash \<notin> set (hex_EncodeToString s)"
proof -
  have "\<not> hex_char tilde" "\<not> hex_char slash" "\<not> hex_char backslash" by (simp_all add: hex_char_def)
  then show "tilde \<notin> set (hex_EncodeToString s)" "slash \<notin> set (hex_EncodeToString s)" "backslash \<notin> set (hex_EncodeToString s)"
    using hex_Encode_chars [of s] unfolding list_all_iff by blast+
qed

text \<open>A valid text is valid on both sides of an ASCII byte.\<close>

lemma DecodeRune_front:
  assumes "a \<noteq> []" "rune_of c < 0x80"
  shows "snd (DecodeRune (a @ c # b)) \<le> length a" "DecodeRune (a @ c # b) = DecodeRune a"
proof -
  show le: "snd (DecodeRune (a @ c # b)) \<le> length a"
  proof (rule ccontr)
    assume "\<not> snd (DecodeRune (a @ c # b)) \<le> length a"
    then have "utf8_cont ((a @ c # b) ! length a)" using assms(1) by (intro DecodeRune_cont) auto
    then show False using assms(2) by (simp add: byte_in_def)
  qed
  show "DecodeRune (a @ c # b) = DecodeRune a" using DecodeRune_take [OF le] by simp
qed

lemma utf8_Valid_ascii:
  assumes "rune_of c < 0x80"
  shows "utf8_Valid (a @ c # b) \<longleftrightarrow> utf8_Valid a \<and> utf8_Valid b"
proof (induction "length a" arbitrary: a rule: less_induct)
  case less
  show ?case
  proof (cases "a = []")
    case True
    then show ?thesis using assms by (subst utf8_Valid.simps) (simp add: utf8_Valid.simps [of "[]"])
  next
    case False
    define n where "n = snd (DecodeRune a)"
    note front = DecodeRune_front [OF False assms, of b]
    have n: "0 < n" "n \<le> length a" using front DecodeRune_size_pos [OF False] by (simp_all add: n_def)
    then have "utf8_Valid (drop n a @ c # b) \<longleftrightarrow> utf8_Valid (drop n a) \<and> utf8_Valid b" by (intro less) simp
    then show ?thesis using False n(2)
      by (subst (1 2) utf8_Valid.simps) (simp add: front n_def [symmetric])
  qed
qed

lemma utf8_Valid_Nil [simp]: "utf8_Valid []"
  by (subst utf8_Valid.simps) simp


section \<open>Segments\<close>

lemma first_extension_mem: "first_extension has exts \<noteq> [] \<Longrightarrow> has (first_extension has exts) \<and> first_extension has exts \<in> set exts"
  by (induction exts) (auto split: if_splits)

lemma LastIndexByte_Some: "LastIndexByte s c = Some i \<Longrightarrow> i < length s \<and> s ! i = c \<and> c \<notin> set (drop (Suc i) s)"
proof (induction s arbitrary: i)
  case (Cons x s)
  then show ?case by (auto split: option.splits if_splits simp: LastIndexByte_None)
qed simp

lemma HasSuffix_split: "HasSuffix s e \<Longrightarrow> \<exists>b. s = b @ e"
  unfolding HasSuffix_def by (metis append_take_drop_id)

text \<open>An extension is a suffix that begins with a dot.\<close>

lemma declaration_extension_suffix:
  "\<exists>b. base = b @ declaration_extension base \<and> (declaration_extension base \<noteq> [] \<longrightarrow> hd (declaration_extension base) = dot)"
proof -
  let ?known = "first_extension (HasSuffix base) SupportedDeclarationExtensions"
  show ?thesis
  proof (cases "?known = []")
    case False
    then have "HasSuffix base ?known" "hd ?known = dot"
      using first_extension_mem [OF False] by (auto simp: SupportedDeclarationExtensions_def)
    then show ?thesis using False HasSuffix_split by (auto simp: declaration_extension_def)
  next
    case True
    show ?thesis
    proof (cases "HasSuffix base ''.ts'' \<and> strIndex base ''.d.'' \<noteq> None")
      case True
      then obtain i where i: "strIndex base ''.d.'' = Some i" by auto
      have "hd (drop i base) = dot" using strIndex_Some [OF i] by (metis append_take_drop_id hd_append list.distinct(1) list.sel(1))
      then show ?thesis using True i \<open>?known = []\<close>
        by (auto simp: declaration_extension_def intro: exI [of _ "take i base"])
    next
      case False
      then show ?thesis using \<open>?known = []\<close> by (auto simp: declaration_extension_def)
    qed
  qed
qed

lemma base_name_suffix:
  assumes "slash \<notin> set w" "backslash \<notin> set w"
  shows "\<exists>b. w = b @ getBaseFileNameFromNormalized equalFold w"
proof -
  have "\<not> HasTrailingDirectorySeparator w"
    using assms last_in_set [of w] unfolding HasTrailingDirectorySeparator_def isAnyDirectorySeparator_def by metis
  then have "RemoveTrailingDirectorySeparator w = w"
    by (auto simp: RemoveTrailingDirectorySeparator_def)
  then show ?thesis
    by (simp add: getBaseFileNameFromNormalized_def Let_def) (metis append_Nil2 append_take_drop_id)
qed

lemma NormalizeSlashes_plain: "backslash \<notin> set w \<Longrightarrow> NormalizeSlashes w = w"
  by (auto simp: NormalizeSlashes_def replaceByte_def intro!: map_idI)

lemma any_extension_suffix:
  fixes equalFold :: "string \<Rightarrow> string \<Rightarrow> bool"
  assumes "slash \<notin> set w" "backslash \<notin> set w"
  defines "e \<equiv> GetAnyExtensionFromPath equalFold w [] True"
  shows "\<exists>b. w = b @ e \<and> (e \<noteq> [] \<longrightarrow> hd e = dot)"
proof -
  let ?base = "getBaseFileNameFromNormalized equalFold w"
  obtain b where b: "w = b @ ?base" using base_name_suffix [OF assms(1,2)] by blast
  have e: "e = (case LastIndexByte ?base dot of Some i \<Rightarrow> drop i ?base | None \<Rightarrow> [])"
    by (simp add: e_def GetAnyExtensionFromPath_def NormalizeSlashes_plain [OF assms(2)] getAnyExtensionFromNormalizedPath_def Let_def)
  show ?thesis
  proof (cases "LastIndexByte ?base dot")
    case None
    then show ?thesis using e by simp
  next
    case (Some i)
    have "?base ! i = dot \<and> i < length ?base" using LastIndexByte_Some [OF Some] by simp
    then have "hd e = dot" using e Some by (simp add: hd_drop_conv_nth)
    moreover have "w = (b @ take i ?base) @ e" using e Some b by simp
    ultimately show ?thesis by blast
  qed
qed

lemma split_extension:
  assumes "slash \<notin> set seg"
  obtains b e where "splitDynamicURIFileExtension equalFold seg = (b, e)" "seg = b @ e" "e \<noteq> [] \<Longrightarrow> hd e = dot" "backslash \<notin> set e"
proof -
  define w where "w = (case LastIndexByte seg backslash of None \<Rightarrow> seg | Some i \<Rightarrow> drop (i + 1) seg)"
  have w: "\<exists>u. seg = u @ w" "backslash \<notin> set w"
  proof -
    show "\<exists>u. seg = u @ w" unfolding w_def by (cases "LastIndexByte seg backslash") (auto, metis append_take_drop_id)
    show "backslash \<notin> set w" unfolding w_def
      using LastIndexByte_None [of seg backslash] LastIndexByte_Some [of seg backslash] by (auto split: option.splits)
  qed
  then have sw: "slash \<notin> set w" using assms by auto
  define d where "d = GetDeclarationFileExtension equalFold w"
  define e where "e = (if d = [] then GetAnyExtensionFromPath equalFold w [] True else d)"
  have d: "d = declaration_extension (getBaseFileNameFromNormalized equalFold w)"
    by (simp add: d_def GetDeclarationFileExtension_def getDeclarationFileExtensionFromNormalized_def NormalizeSlashes_plain [OF w(2)])
  obtain x where x: "w = x @ e" "e \<noteq> [] \<longrightarrow> hd e = dot"
  proof (cases "d = []")
    case True
    then show ?thesis using any_extension_suffix [OF sw w(2)] that by (auto simp: e_def)
  next
    case False
    then show ?thesis
      using declaration_extension_suffix [of "getBaseFileNameFromNormalized equalFold w"] base_name_suffix [OF sw w(2), of equalFold] that
      by (metis append.assoc d e_def)
  qed
  obtain u where u: "seg = u @ w" using w(1) by blast
  have "splitDynamicURIFileExtension equalFold seg = (u @ x, e)"
    unfolding splitDynamicURIFileExtension_def w_def [symmetric] d_def [symmetric] Let_def e_def [symmetric]
    using u x(1) by auto
  then show ?thesis using that [of "u @ x" e] u x w(2) by auto
qed


text \<open>\<open>codes enc seg\<close>: \<open>enc\<close> is a normal segment of a path that stands for \<open>seg\<close>.\<close>

definition codes :: "string \<Rightarrow> string \<Rightarrow> bool" where
  "codes enc seg \<longleftrightarrow> enc \<noteq> [] \<and> enc \<noteq> ''.'' \<and> enc \<noteq> ''..'' \<and> slash \<notin> set enc \<and> backslash \<notin> set enc
    \<and> \<not> HasPrefix enc noPathEscapePrefix \<and> TryDecodeDynamicURIPathSegment enc = Some seg"

definition uri_text :: "string \<Rightarrow> bool" where
  "uri_text s \<longleftrightarrow> utf8_Valid s \<and> NUL \<notin> set s"

lemma uri_text_at: "rune_of c < 0x80 \<Longrightarrow> c \<noteq> NUL \<Longrightarrow> uri_text (a @ c # b) \<longleftrightarrow> uri_text a \<and> uri_text b"
  by (auto simp: uri_text_def utf8_Valid_ascii)

lemma uri_text_Nil [simp]: "uri_text []"
  by (simp add: uri_text_def)

lemma uri_text_base: "uri_text (b @ e) \<Longrightarrow> e \<noteq> [] \<longrightarrow> hd e = dot \<Longrightarrow> uri_text b"
  using uri_text_at [of dot b "tl e"] by (cases e) auto

lemma escaped_shape:
  fixes u :: string
  assumes "slash \<notin> set e" "backslash \<notin> set e"
  defines "enc \<equiv> segmentEscapePrefix @ hex_EncodeToString u @ ''~'' @ e"
  shows "enc \<noteq> [] \<and> enc \<noteq> ''.'' \<and> enc \<noteq> ''..'' \<and> slash \<notin> set enc \<and> backslash \<notin> set enc \<and> \<not> HasPrefix enc noPathEscapePrefix"
    "utf8_Valid u \<Longrightarrow> TryDecodeDynamicURIPathSegment enc
      = Some (case strCut u NUL of Some (base, query) \<Rightarrow> base @ e @ query | None \<Rightarrow> u @ e)"
proof -
  show "enc \<noteq> [] \<and> enc \<noteq> ''.'' \<and> enc \<noteq> ''..'' \<and> slash \<notin> set enc \<and> backslash \<notin> set enc \<and> \<not> HasPrefix enc noPathEscapePrefix"
    using assms(1,2) by (simp add: enc_def HasPrefix_def)
  have "CutPrefix enc segmentEscapePrefix = Some (hex_EncodeToString u @ tilde # e)"
    using CutPrefix_append [of segmentEscapePrefix "hex_EncodeToString u @ tilde # e"] by (simp add: enc_def)
  then show "utf8_Valid u \<Longrightarrow> TryDecodeDynamicURIPathSegment enc
      = Some (case strCut u NUL of Some (base, query) \<Rightarrow> base @ e @ query | None \<Rightarrow> u @ e)"
    by (simp add: TryDecodeDynamicURIPathSegment_def split: option.splits)
qed

lemma force_codes:
  assumes "slash \<notin> set seg" "uri_text seg"
  shows "codes (forceEncodeDynamicURIPathSegment equalFold seg preserve) seg"
proof -
  obtain b e where be: "(if preserve \<and> seg \<noteq> ''.'' \<and> seg \<noteq> ''..'' then splitDynamicURIFileExtension equalFold seg else (seg, [])) = (b, e)"
      "seg = b @ e" "e \<noteq> [] \<longrightarrow> hd e = dot" "backslash \<notin> set e"
  proof (cases "preserve \<and> seg \<noteq> ''.'' \<and> seg \<noteq> ''..''")
    case True
    obtain b e where "splitDynamicURIFileExtension equalFold seg = (b, e)" "seg = b @ e" "e \<noteq> [] \<longrightarrow> hd e = dot" "backslash \<notin> set e"
      using split_extension [OF assms(1), of equalFold] by metis
    then show ?thesis using that [of b e] True by simp
  next
    case False
    then show ?thesis using that [of seg "[]"] by auto
  qed
  have b: "uri_text b" using uri_text_base [of b e] be(2,3) assms(2) by simp
  have "slash \<notin> set e" using assms(1) be(2) by simp
  note shape = escaped_shape [OF this be(4), of b]
  have "forceEncodeDynamicURIPathSegment equalFold seg preserve = segmentEscapePrefix @ hex_EncodeToString b @ ''~'' @ e"
    unfolding forceEncodeDynamicURIPathSegment_def be(1) by simp
  then show ?thesis using shape b be(2) unfolding codes_def by (simp add: uri_text_def)
qed

lemma force_query_codes:
  assumes "slash \<notin> set seg" "uri_text seg" "uri_text query"
  shows "codes (forceEncodeDynamicURIPathSegmentWithSuffix equalFold seg query) (seg @ query)"
proof -
  obtain b e where be: "splitDynamicURIFileExtension equalFold seg = (b, e)" "seg = b @ e" "e \<noteq> [] \<longrightarrow> hd e = dot" "backslash \<notin> set e"
    using split_extension [OF assms(1), of equalFold] by metis
  have b: "uri_text b" using uri_text_base [of b e] be(2,3) assms(2) by simp
  have "slash \<notin> set e" using assms(1) be(2) by simp
  note shape = escaped_shape [OF this be(4), of "b @ [NUL] @ query"]
  have "utf8_Valid (b @ [NUL] @ query)" "strCut (b @ [NUL] @ query) NUL = Some (b, query)"
    using b assms(3) by (simp_all add: uri_text_def utf8_Valid_ascii)
  moreover have "forceEncodeDynamicURIPathSegmentWithSuffix equalFold seg query
      = segmentEscapePrefix @ hex_EncodeToString (b @ [NUL] @ query) @ ''~'' @ e"
    unfolding forceEncodeDynamicURIPathSegmentWithSuffix_def be(1) by simp
  ultimately show ?thesis using shape be(2) unfolding codes_def by simp
qed

lemma plain_codes:
  assumes "\<not> dynamicURIPathSegmentNeedsEncoding seg" "slash \<notin> set seg"
  shows "codes seg seg"
  using assms
  by (auto simp: codes_def dynamicURIPathSegmentNeedsEncoding_def TryDecodeDynamicURIPathSegment_def CutPrefix_def IndexByte_None)

lemma segment_codes:
  assumes "slash \<notin> set seg" "uri_text seg"
  shows "codes (encodeDynamicURIPathSegment equalFold seg preserve) seg"
  using force_codes [OF assms] plain_codes assms(1) by (simp add: encodeDynamicURIPathSegment_def)

section \<open>Paths\<close>

fun enc_list :: "(string \<Rightarrow> string \<Rightarrow> bool) \<Rightarrow> bool \<Rightarrow> string list \<Rightarrow> string list" where
  "enc_list equalFold preserve [] = []"
| "enc_list equalFold preserve [x] = [encodeDynamicURIPathSegment equalFold x preserve]"
| "enc_list equalFold preserve (x # y # xs) = encodeDynamicURIPathSegment equalFold x False # enc_list equalFold preserve (y # xs)"

lemma enc_list_nonempty: "enc_list equalFold preserve xs = [] \<longleftrightarrow> xs = []"
  by (cases "(equalFold, preserve, xs)" rule: enc_list.cases) auto

lemma encode_segments_list:
  "encode_segments equalFold path preserve = strJoin (enc_list equalFold preserve (split_from [] path)) ''/''"
proof (induction "length path" arbitrary: path rule: less_induct)
  case less
  show ?case
  proof (cases "strCut path slash")
    case None
    then have "slash \<notin> set path" by (auto simp: strCut_def IndexByte_None split: option.splits)
    then show ?thesis using None by (subst encode_segments.simps) (simp add: split_last_segment)
  next
    case (Some p)
    obtain seg rest where p: "p = (seg, rest)" by (cases p)
    have path: "path = seg @ slash # rest" "slash \<notin> set seg" using strCut_Some Some p by blast+
    obtain y ys where y: "split_from [] rest = y # ys" using split_from_Cons_ex by blast
    have "encode_segments equalFold rest preserve = strJoin (enc_list equalFold preserve (y # ys)) ''/''"
      using less [of rest] path(1) y by simp
    moreover have "split_from [] path = seg # y # ys" using path y by (simp add: split_segment)
    moreover have "enc_list equalFold preserve (y # ys) \<noteq> []" by (simp add: enc_list_nonempty)
    ultimately show ?thesis using Some p by (subst encode_segments.simps) (simp add: strJoin_Cons)
  qed
qed

lemma needs_encoding_list:
  "dynamicURIPathNeedsEncoding path \<longleftrightarrow> list_ex dynamicURIPathSegmentNeedsEncoding (split_from [] path)"
proof (induction "length path" arbitrary: path rule: less_induct)
  case less
  show ?case
  proof (cases "strCut path slash")
    case None
    then have "slash \<notin> set path" by (auto simp: strCut_def IndexByte_None split: option.splits)
    then show ?thesis using None by (subst dynamicURIPathNeedsEncoding.simps) (simp add: split_last_segment)
  next
    case (Some p)
    obtain seg rest where p: "p = (seg, rest)" by (cases p)
    have path: "path = seg @ slash # rest" "slash \<notin> set seg" using strCut_Some Some p by blast+
    then show ?thesis using less [of rest] Some p
      by (subst dynamicURIPathNeedsEncoding.simps) (simp add: split_segment)
  qed
qed

lemma enc_list_plain: "\<not> list_ex dynamicURIPathSegmentNeedsEncoding xs \<Longrightarrow> enc_list equalFold preserve xs = xs"
  by (induction equalFold preserve xs rule: enc_list.induct) (auto simp: encodeDynamicURIPathSegment_def)

text \<open>So the shortcut of \<open>encodeDynamicURIPath\<close> changes nothing.\<close>

lemma encodeDynamicURIPath_list:
  "encodeDynamicURIPath equalFold path preserve = strJoin (enc_list equalFold preserve (split_from [] path)) ''/''"
  using join_split [of "[]" path]
  by (simp add: encodeDynamicURIPath_def encode_segments_list needs_encoding_list enc_list_plain)


text \<open>\<open>codes_path enc path\<close>: \<open>enc\<close> joins codes of parts of \<open>path\<close>.\<close>

definition codes_path :: "string \<Rightarrow> string \<Rightarrow> bool" where
  "codes_path enc path \<longleftrightarrow>
    (\<exists>segs parts. enc = strJoin segs ''/'' \<and> list_all2 codes segs parts \<and> parts \<noteq> [] \<and> strJoin parts ''/'' = path)"

lemma codes_pathI:
  assumes "enc = strJoin segs ''/''" "list_all2 codes segs (split_from [] path)"
  shows "codes_path enc path"
  unfolding codes_path_def
  by (rule exI [of _ segs], rule exI [of _ "split_from [] path"]) (use assms in \<open>simp add: join_split, simp add: split_from_def\<close>)

lemma split_join:
  assumes "segs \<noteq> []" "list_all (\<lambda>x. slash \<notin> set x) segs"
  shows "split_from [] (strJoin segs ''/'') = segs"
  using assms
proof (induction segs rule: induct_list012)
  case (3 x y zs)
  then show ?case by (simp add: split_segment)
qed (simp_all add: split_last_segment)

lemma codes_split:
  assumes "list_all2 codes segs parts" "parts \<noteq> []"
  shows "split_from [] (strJoin segs ''/'') = segs" "segs \<noteq> []"
proof -
  show "segs \<noteq> []" using assms by auto
  moreover have "list_all (\<lambda>x. slash \<notin> set x) segs"
    using assms by (auto simp: list_all_length list_all2_conv_all_nth codes_def)
  ultimately show "split_from [] (strJoin segs ''/'') = segs" by (rule split_join)
qed

lemma enc_list_codes:
  assumes "list_all (\<lambda>x. slash \<notin> set x \<and> uri_text x) xs"
  shows "list_all2 codes (enc_list equalFold preserve xs) xs"
  using assms
  by (induction equalFold preserve xs rule: enc_list.induct) (auto simp: segment_codes)

lemma uri_text_segments: "uri_text path \<Longrightarrow> list_all (\<lambda>x. slash \<notin> set x \<and> uri_text x) (split_from [] path)"
proof (induction "length path" arbitrary: path rule: less_induct)
  case less
  show ?case
  proof (cases "strCut path slash")
    case None
    then have "slash \<notin> set path" by (auto simp: strCut_def IndexByte_None split: option.splits)
    then show ?thesis using less.prems by (simp add: split_last_segment)
  next
    case (Some p)
    obtain seg rest where p: "p = (seg, rest)" by (cases p)
    have path: "path = seg @ slash # rest" "slash \<notin> set seg" using strCut_Some Some p by blast+
    then show ?thesis using less by (simp add: split_segment uri_text_at)
  qed
qed

text \<open>A path of such segments that begins with \<open>~\<close> has no root.\<close>

lemma no_double_slash:
  assumes "list_all (\<lambda>x. x \<noteq> [] \<and> slash \<notin> set x) segs"
  shows "strIndex (strJoin segs ''/'') ''://'' = None"
proof (rule ccontr)
  assume "strIndex (strJoin segs ''/'') ''://'' \<noteq> None"
  then obtain i where "strIndex (strJoin segs ''/'') ''://'' = Some i" by auto
  from strIndex_Some [OF this] obtain a b where s: "strJoin segs ''/'' = (a @ '':'') @ slash # slash # b"
    by (metis append.assoc append_Cons append_Nil append_take_drop_id)
  show False
  proof (cases "segs = []")
    case False
    have "split_from [] (strJoin segs ''/'') = segs"
      using assms by (intro split_join [OF False]) (auto simp: list_all_iff)
    moreover have "[] \<in> set (split_from [] ((a @ '':'') @ slash # slash # b))"
      unfolding split_from_append_slash split_from_slash by simp
    ultimately show False using assms s by (auto simp: list_all_iff)
  qed (use s in simp)
qed

lemma tilde_not_absolute:
  assumes "list_all (\<lambda>x. x \<noteq> [] \<and> slash \<notin> set x) segs" "segs \<noteq> []" "hd (hd segs) = tilde"
  shows "\<not> PathIsAbsolute equalFold (strJoin segs ''/'')"
proof -
  obtain x xs where x: "segs = x # xs" "x \<noteq> []" "hd x = tilde" using assms by (cases segs) auto
  then have "strJoin segs ''/'' ! 0 = tilde" "strJoin segs ''/'' \<noteq> []"
    by (cases xs; cases x; auto)+
  moreover have "\<not> isAnyDirectorySeparator tilde" "\<not> IsVolumeCharacter tilde" by code_simp+
  ultimately show ?thesis
    using no_double_slash [OF assms(1)] by (simp add: PathIsAbsolute_def GetEncodedRootLength_def Let_def urlRootLength_def)
qed

lemma root_aware_codes:
  assumes "uri_text path"
  shows "codes_path (encodeDynamicURIPathRootAware equalFold path preserve) path"
proof -
  let ?xs = "split_from [] path" and ?segs = "enc_list equalFold preserve (split_from [] path)"
  let ?enc = "encodeDynamicURIPath equalFold path preserve"
  note enc = encodeDynamicURIPath_list [of equalFold path preserve]
  note xs = uri_text_segments [OF assms]
  have codes: "list_all2 codes ?segs ?xs" by (rule enc_list_codes [OF xs])
  obtain x rest where x: "?xs = x # rest" using split_from_Cons_ex by blast
  obtain y segs where y: "?segs = y # segs" using codes x by (cases ?segs) auto
  have clean: "list_all (\<lambda>x. x \<noteq> [] \<and> slash \<notin> set x) ?segs"
    using codes by (auto simp: list_all_length list_all2_conv_all_nth codes_def)
  show ?thesis
  proof (cases "PathIsAbsolute equalFold ?enc")
    case False
    then show ?thesis using codes enc by (intro codes_pathI) (auto simp: encodeDynamicURIPathRootAware_def)
  next
    case True
    have yx: "y = x \<and> slash \<notin> set y"
    proof -
      have "y = encodeDynamicURIPathSegment equalFold x (preserve \<and> rest = [])" using x y by (cases rest) auto
      moreover have "hd y \<noteq> tilde" using tilde_not_absolute [OF clean] True enc y by auto
      ultimately show ?thesis using xs x by (auto simp: encodeDynamicURIPathSegment_def forceEncodeDynamicURIPathSegment_def split: if_splits prod.splits)
    qed
    have x': "slash \<notin> set x" "uri_text x" using xs x by auto
    show ?thesis
    proof (cases segs)
      case Nil
      have "?enc = y" using enc y Nil by simp
      then have "encodeDynamicURIPathRootAware equalFold path preserve = strJoin [forceEncodeDynamicURIPathSegment equalFold x preserve] ''/''"
        using True yx by (auto simp: encodeDynamicURIPathRootAware_def)
      moreover have "list_all2 codes [forceEncodeDynamicURIPathSegment equalFold x preserve] ?xs"
        using force_codes [OF x'] codes x y Nil by simp
      ultimately show ?thesis by (rule codes_pathI)
    next
      case (Cons z zs)
      have "?enc = y @ slash # strJoin segs ''/''" using enc y Cons by (simp add: strJoin_Cons)
      then have "encodeDynamicURIPathRootAware equalFold path preserve
          = strJoin (forceEncodeDynamicURIPathSegment equalFold x False # segs) ''/''"
        using True yx Cons by (auto simp: encodeDynamicURIPathRootAware_def strJoin_Cons Let_def)
      moreover have "list_all2 codes (forceEncodeDynamicURIPathSegment equalFold x False # segs) ?xs"
        using force_codes [OF x'] codes x y by simp
      ultimately show ?thesis by (rule codes_pathI)
    qed
  qed
qed


text \<open>The query goes into the code of the last segment.\<close>

lemma last_segment:
  assumes "LastIndexByte path slash = Some i"
  shows "path = take i path @ slash # drop (i + 1) path" "slash \<notin> set (drop (i + 1) path)"
proof -
  show p: "path = take i path @ slash # drop (i + 1) path" "slash \<notin> set (drop (i + 1) path)"
    using LastIndexByte_Some [OF assms] id_take_nth_drop [of i path] by auto
qed

lemma query_codes:
  assumes "uri_text path" "uri_text query"
  shows "codes_path (EncodeDynamicURIPathWithSuffix equalFold path query) (path @ query)"
proof -
  consider "query = []" | "query \<noteq> []" "LastIndexByte path slash = None" | i where "query \<noteq> []" "LastIndexByte path slash = Some i"
    by (cases "query = []") auto
  then show ?thesis
  proof cases
    case 1
    then show ?thesis
      using root_aware_codes [OF assms(1)] by (simp add: EncodeDynamicURIPathWithSuffix_def EncodeDynamicURIPath_def)
  next
    case 2
    then have "codes (forceEncodeDynamicURIPathSegmentWithSuffix equalFold path query) (path @ query)"
      by (intro force_query_codes assms) (simp add: LastIndexByte_None)
    then show ?thesis unfolding codes_path_def using 2
      by (intro exI [of _ "[forceEncodeDynamicURIPathSegmentWithSuffix equalFold path query]"] exI [of _ "[path @ query]"])
         (simp add: EncodeDynamicURIPathWithSuffix_def)
  next
    case 3
    note last = last_segment [OF 3(2)]
    have t: "uri_text (take i path)" "uri_text (drop (i + 1) path)"
      using assms(1) last(1) uri_text_at [of slash "take i path" "drop (i + 1) path"] by simp_all
    obtain segs parts where d: "EncodeDynamicURIDirectoryPath equalFold (take i path) = strJoin segs ''/''"
        "list_all2 codes segs parts" "parts \<noteq> []" "strJoin parts ''/'' = take i path"
      using root_aware_codes [OF t(1)] unfolding codes_path_def EncodeDynamicURIDirectoryPath_def by metis
    let ?x = "forceEncodeDynamicURIPathSegmentWithSuffix equalFold (drop (i + 1) path) query"
    have ne: "segs \<noteq> []" using d(2,3) by auto
    have "EncodeDynamicURIPathWithSuffix equalFold path query = strJoin (segs @ [?x]) ''/''"
      using 3 d(1) by (simp add: EncodeDynamicURIPathWithSuffix_def strJoin_snoc [OF ne])
    moreover have "list_all2 codes (segs @ [?x]) (parts @ [drop (i + 1) path @ query])"
      using d(2) force_query_codes [OF last(2) t(2) assms(2)] by (simp add: list_all2_appendI)
    moreover have "strJoin (parts @ [drop (i + 1) path @ query]) ''/'' = path @ query"
      using d(4) last(1) unfolding strJoin_snoc [OF d(3)] by (metis append.assoc append_Cons append_Nil)
    ultimately show ?thesis unfolding codes_path_def by blast
  qed
qed

section \<open>Decoding\<close>

lemma strIndex_occurs: "strIndex (a @ p @ b) p \<noteq> None"
proof (induction a)
  case Nil
  have "HasPrefix (p @ b) p" by (simp add: HasPrefix_def)
  then show ?case by (cases "p @ b") auto
qed (simp add: HasPrefix_def)

lemma strJoin_member: "x \<in> set xs \<Longrightarrow> \<exists>a b. strJoin xs sep = a @ x @ b"
proof (induction xs sep rule: strJoin.induct)
  case (3 x' y ys sep)
  show ?case
  proof (cases "x = x'")
    case False
    then obtain a b where "strJoin (y # ys) sep = a @ x @ b" using 3 by auto
    then show ?thesis by (intro exI [of _ "x' @ sep @ a"] exI [of _ b]) simp
  qed (auto intro: exI [of _ "[]"])
qed (auto intro: exI [of _ "[]"])

lemma codes_path_decodes:
  assumes "codes_path enc path"
  shows "TryDecodeDynamicURIPath enc = Some path" "DecodeDynamicURIPath enc = path"
proof -
  obtain segs parts where s: "enc = strJoin segs ''/''" "list_all2 codes segs parts" "parts \<noteq> []" "strJoin parts ''/'' = path"
    using assms unfolding codes_path_def by blast
  note split = codes_split [OF s(2,3)]
  have "map TryDecodeDynamicURIPathSegment segs = map Some parts"
    using s(2) by (induction rule: list_all2_induct) (auto simp: codes_def)
  moreover have "those (map Some parts) = Some parts" by (induction parts) auto
  ultimately show t: "TryDecodeDynamicURIPath enc = Some path"
    using s(1,4) split(1) by (simp add: TryDecodeDynamicURIPath_def split_split_from)
  have "map DecodeDynamicURIPathSegment segs = parts"
    using s(2) by (induction rule: list_all2_induct) (auto simp: codes_def DecodeDynamicURIPathSegment_def)
  moreover have "segs = parts" if none: "strIndex enc segmentEscapePrefix = None"
  proof -
    have "CutPrefix x segmentEscapePrefix = None" if x: "x \<in> set segs" for x
    proof (rule ccontr)
      assume "CutPrefix x segmentEscapePrefix \<noteq> None"
      then obtain r where "x = segmentEscapePrefix @ r" using CutPrefix_Some by blast
      moreover obtain a b where "enc = a @ x @ b" using strJoin_member [OF x, of "''/''"] s(1) by blast
      ultimately show False using strIndex_occurs [of a segmentEscapePrefix "r @ b"] none by simp
    qed
    then have "x = y" if "x \<in> set segs" "codes x y" for x y
      using that by (simp add: codes_def TryDecodeDynamicURIPathSegment_def split: if_splits)
    then have "list_all2 (=) segs parts" using s(2) by (simp add: list_all2_conv_all_nth)
    then show ?thesis by (simp add: list.rel_eq)
  qed
  ultimately show "DecodeDynamicURIPath enc = path"
    using s(1,4) split(1) by (auto simp: DecodeDynamicURIPath_def split_split_from)
qed


section \<open>URIs\<close>

lemma authority_codes:
  assumes "slash \<notin> set a" "uri_text a"
  shows "codes (EncodeDynamicURIPath equalFold a) a"
proof -
  obtain segs parts where s: "EncodeDynamicURIPath equalFold a = strJoin segs ''/''" "list_all2 codes segs parts" "parts \<noteq> []"
      "strJoin parts ''/'' = a"
    using root_aware_codes [OF assms(2)] unfolding codes_path_def EncodeDynamicURIPath_def by metis
  obtain x xs where x: "parts = x # xs" using s(3) by (cases parts) auto
  have "xs = []" using s(4) assms(1) x by (cases xs) auto
  then show ?thesis using s x by (auto simp: list_all2_Cons2)
qed

text \<open>A path of normal segments below the root of a URI is rooted and normalized.\<close>

definition normal :: "string \<Rightarrow> bool" where
  "normal x \<longleftrightarrow> x \<noteq> [] \<and> x \<noteq> ''.'' \<and> x \<noteq> ''..'' \<and> slash \<notin> set x \<and> backslash \<notin> set x"

lemma codes_normal: "codes x y \<Longrightarrow> normal x"
  by (simp add: codes_def normal_def)

lemma codes_path_normal:
  assumes "codes_path enc p"
  obtains segs where "enc = strJoin segs ''/''" "segs \<noteq> []" "list_all normal segs"
proof -
  obtain segs parts where s: "enc = strJoin segs ''/''" "list_all2 codes segs parts" "parts \<noteq> []"
    using assms unfolding codes_path_def by blast
  have "list_all normal segs" using s(2) codes_normal by (auto simp: list_all2_conv_all_nth list_all_length)
  then show ?thesis using that [of segs] s by auto
qed

lemma dynamic_path_normalized:
  assumes "slash \<notin> set scheme" "backslash \<notin> set scheme" "normal auth" "enc = strJoin segs ''/''" "segs \<noteq> []" "list_all normal segs"
  defines "path \<equiv> DynamicURIFileNamePrefix @ scheme @ ''/'' @ auth @ ''/'' @ enc"
  shows "TryRootedPathFromNormalized equalFold path = Some path"
proof -
  note s = assms(4)
  have clean: "x \<noteq> [] \<and> x \<noteq> ''.'' \<and> x \<noteq> ''..'' \<and> slash \<notin> set x \<and> backslash \<notin> set x" if "x \<in> set segs" for x
    using that assms(6) by (simp add: list_all_iff normal_def)
  have split: "split_from [] (strJoin segs ''/'') = segs"
    by (rule split_join [OF assms(5)]) (use clean in \<open>simp add: list_all_iff\<close>)
  have bs: "backslash \<notin> set enc"
  proof -
    have "backslash \<notin> set (strJoin xs ''/'')" if "\<forall>x \<in> set xs. backslash \<notin> set x" for xs
      using that by (induction xs "''/''" rule: strJoin.induct) auto
    then show ?thesis using clean s by blast
  qed
  have ends: "enc \<noteq> []" "enc ! 0 \<noteq> slash" "last enc \<noteq> slash"
  proof -
    have ne: "[] \<notin> set (split_from [] enc)" using clean [of "[]"] split s by auto
    then show "enc \<noteq> []" by auto
    then show "enc ! 0 \<noteq> slash" using ne by (cases enc) auto
    show "last enc \<noteq> slash"
    proof
      assume "last enc = slash"
      then have "enc = butlast enc @ slash # []" using \<open>enc \<noteq> []\<close> append_butlast_last_id by metis
      then have "split_from [] enc = split_from [] (butlast enc) @ [[]]"
        using split_from_append_slash [of "[]" "butlast enc" "[]"] by simp
      then show False using ne by simp
    qed
  qed
  have "\<not> bad_segments False segs"
  proof -
    have "(\<forall>x \<in> set ss. x \<noteq> [] \<and> x \<noteq> ''.'' \<and> x \<noteq> ''..'') \<Longrightarrow> \<not> bad_segments prev ss" for prev ss
      by (induction prev ss rule: bad_segments.induct) auto
    then show ?thesis using clean by blast
  qed
  then have rel: "\<not> hasRelativePathSegment enc" using split s by (simp add: hasRelativePathSegment_bad)
  have a: "slash \<notin> set auth" "backslash \<notin> set auth" using assms(3) by (simp_all add: normal_def)
  define r where "r = length DynamicURIFileNamePrefix + length scheme + 1 + length auth + 1"
  have "dynamicRootLength path = int r" unfolding r_def
    using IndexByte_at [OF assms(1), of "auth @ slash # enc"] IndexByte_at [OF a(1), of enc]
    by (simp add: dynamicRootLength_def path_def HasPrefix_def)
  moreover have "\<not> isAnyDirectorySeparator CHR ''^''" "\<not> IsVolumeCharacter CHR ''^''" by code_simp+
  ultimately have root: "GetEncodedRootLength equalFold path = int r"
    by (simp add: GetEncodedRootLength_def Let_def) (simp add: path_def DynamicURIFileNamePrefix_def)
  have len: "r < length path" "drop r path = enc" using ends(1) by (simp_all add: path_def r_def)
  then have "path ! r = enc ! 0" using ends(1) by (metis drop_eq_Nil hd_conv_nth hd_drop_conv_nth)
  moreover have "backslash \<notin> set path" using assms(2) a(2) bs by (simp add: path_def DynamicURIFileNamePrefix_def)
  moreover have "last enc \<noteq> backslash" using bs last_in_set [OF ends(1)] by metis
  then have "\<not> HasTrailingDirectorySeparator path"
    using ends by (simp add: HasTrailingDirectorySeparator_def isAnyDirectorySeparator_def path_def)
  moreover have "path \<noteq> []" "0 < r" using len(1) by (auto simp: r_def)
  ultimately show ?thesis
    using root len ends(2) rel
    by (simp add: TryRootedPathFromNormalized_def hasRootedURLSuffix_def hasURLRoot_def GetRootLength_def Let_def IndexByte_None)
qed


lemma no_path_decodes: "uri_text query \<Longrightarrow> DecodeDynamicURINoPath (EncodeDynamicURINoPath query) = Some query"
proof -
  have "CutPrefix (EncodeDynamicURINoPath query) noPathEscapePrefix = Some (hex_EncodeToString query @ tilde # [])"
    using CutPrefix_append [of noPathEscapePrefix "hex_EncodeToString query @ tilde # []"] by (simp add: EncodeDynamicURINoPath_def)
  then show "uri_text query \<Longrightarrow> DecodeDynamicURINoPath (EncodeDynamicURINoPath query) = Some query"
    by (simp add: DecodeDynamicURINoPath_def uri_text_def del: strCut_at)
       (simp only: strCut_at hex_no_tilde(1) simp_thms, simp)
qed

lemma no_path_normal: "normal (EncodeDynamicURINoPath query)"
  by (simp add: normal_def EncodeDynamicURINoPath_def)

lemma HasPrefix_before_slash:
  assumes "HasPrefix (x @ slash # r) p" "slash \<notin> set p"
  shows "HasPrefix x p"
proof -
  have "\<not> length x < length p"
  proof
    assume "length x < length p"
    then have "take (length p) (x @ slash # r) ! length x = slash" by (simp add: nth_append)
    then have "p ! length x = slash" using assms(1) unfolding HasPrefix_def by metis
    then show False using assms(2) nth_mem [OF \<open>length x < length p\<close>] by metis
  qed
  then show ?thesis using assms(1) by (simp add: HasPrefix_def)
qed

lemma path_not_no_path:
  assumes "codes_path enc p"
  shows "DecodeDynamicURINoPath enc = None"
proof -
  obtain segs parts where s: "enc = strJoin segs ''/''" "list_all2 codes segs parts" "parts \<noteq> []"
    using assms unfolding codes_path_def by blast
  then obtain x xs where x: "segs = x # xs" by (cases segs) auto
  then have "\<not> HasPrefix x noPathEscapePrefix" using s(2) by (auto simp: codes_def list_all2_Cons1)
  then have "\<not> HasPrefix enc noPathEscapePrefix"
    using HasPrefix_before_slash [of x _ noPathEscapePrefix] s(1) x by (cases xs) auto
  then show ?thesis by (simp add: DecodeDynamicURINoPath_def CutPrefix_def)
qed

text \<open>The two readings of the name of a document, strict and not, both find the URI.\<close>

lemma dynamic_name_to_uri:
  assumes "slash \<notin> set scheme" "scheme \<noteq> []"
    and "slash \<notin> set auth" "TryDecodeDynamicURIPathSegment auth = Some a"
  shows "dynamicFileNameToDocumentUri (DynamicURIFileNamePrefix @ scheme @ ''/'' @ auth @ ''/'' @ enc) strict
    = uri_of_parts strict True scheme auth enc"
proof -
  have "IsEncodedDynamicFileName (DynamicURIFileNamePrefix @ r)" for r by (simp add: IsEncodedDynamicFileName_def HasPrefix_def)
  then show ?thesis using assms by (simp add: dynamicFileNameToDocumentUri_def)
qed

lemma uri_of_codes:
  assumes "auth = nul_authority \<and> a = nul_authority \<or> auth \<noteq> nul_authority \<and> codes auth a" "codes_path enc p"
  shows "uri_of_parts strict True scheme auth enc
    = Some (if auth = nul_authority then scheme @ '':'' @ p else scheme @ ''://'' @ a @ ''/'' @ p)"
proof -
  note decoded = codes_path_decodes [OF assms(2)] path_not_no_path [OF assms(2)]
  have nul: "TryDecodeDynamicURIPathSegment nul_authority = Some nul_authority" by code_simp
  show ?thesis
  proof (cases "auth = nul_authority")
    case True
    then show ?thesis using decoded nul by (simp add: uri_of_parts_def decode_strictly_def)
  next
    case False
    then have "TryDecodeDynamicURIPathSegment auth = Some a" using assms(1) by (simp add: codes_def)
    then show ?thesis
      using decoded False by (simp add: uri_of_parts_def decode_strictly_def DecodeDynamicURIPathSegment_def)
  qed
qed


lemma uri_of_no_path:
  assumes "auth \<noteq> nul_authority" "codes auth a" "uri_text query"
  shows "uri_of_parts strict True scheme auth (EncodeDynamicURINoPath query) = Some (scheme @ ''://'' @ a @ query)"
  using assms no_path_decodes [OF assms(3)]
  by (simp add: uri_of_parts_def decode_strictly_def DecodeDynamicURIPathSegment_def codes_def)

lemma query_split:
  fixes s :: string
  defines "p \<equiv> take (query_index s) s" and "q \<equiv> drop (query_index s) s"
  assumes "uri_text s"
  shows "s = p @ q" "uri_text p" "uri_text q"
proof -
  show s: "s = p @ q" by (simp add: p_def q_def)
  have "uri_text p \<and> uri_text q"
  proof (cases q)
    case Nil
    then show ?thesis using s assms(3) by simp
  next
    case (Cons c r)
    then have "query_index s < length s" "s ! query_index s = c"
      unfolding q_def by (metis drop_all list.distinct(1) not_le) (metis Cons drop_all hd_drop_conv_nth list.distinct(1) list.sel(1) not_le q_def)
    then have "c = CHR ''?'' \<or> c = CHR ''#''"
      using run_length_stop [of "\<lambda>c. c \<noteq> CHR ''?'' \<and> c \<noteq> CHR ''#''" s] unfolding query_index_def by metis
    then have "rune_of c < 0x80" "c \<noteq> NUL" by auto
    then have "uri_text p" "uri_text r" "uri_text ([] @ c # r)" using s Cons assms(3) uri_text_at [of c] uri_text_Nil by metis+
    then show ?thesis using Cons by simp
  qed
  then show "uri_text p" "uri_text q" by simp_all
qed

lemma if_both: "P x \<Longrightarrow> P y \<Longrightarrow> P (if b then x else y)"
  by simp

lemma name_leads_back:
  assumes "slash \<notin> set scheme" "backslash \<notin> set scheme" "scheme \<noteq> []"
    and "normal auth" "TryDecodeDynamicURIPathSegment auth = Some a"
    and "enc = strJoin segs ''/''" "segs \<noteq> []" "list_all normal segs"
    and "\<And>strict. uri_of_parts strict True scheme auth enc = Some uri"
  shows "\<exists>path. TryRootedPathFromNormalized equalFold (DynamicURIFileNamePrefix @ scheme @ ''/'' @ auth @ ''/'' @ enc) = Some path
    \<and> DynamicFileNameToDocumentUri path = Some uri \<and> TryDynamicFileNameToDocumentUri path = Some uri"
proof -
  have "slash \<notin> set auth" using assms(4) by (simp add: normal_def)
  note leads = dynamic_name_to_uri [OF assms(1,3) this assms(5), of enc, unfolded assms(9)]
  show ?thesis
    using dynamic_path_normalized [OF assms(1,2,4,6-8), of equalFold] leads
    unfolding DynamicFileNameToDocumentUri_def TryDynamicFileNameToDocumentUri_def by blast
qed

text \<open>C15: The name of a document leads leads to its URI: for a URI of valid UTF-8 without NUL bytes, whose
  scheme is neither empty nor contains a separator, \<open>DocumentUri.Path\<close> returns a rooted, normalized path
  (there is no panic), and both \<open>DynamicFileNameToDocumentUri\<close> and its strict variant return the URI itself. This
  covers URIs without authority or path, empty, dot and escaped segments, paths with a root of their own, and queries.
\<close>

theorem uri_of_dynamic_name:
  assumes "strCut uri CHR '':'' = Some (scheme, rest)" "scheme \<noteq> []" "slash \<notin> set scheme" "backslash \<notin> set scheme"
    and "utf8_Valid uri" "NUL \<notin> set uri"
  shows "\<exists>path. dynamic_uri_path equalFold uri = Some path \<and> DynamicFileNameToDocumentUri path = Some uri
    \<and> TryDynamicFileNameToDocumentUri path = Some uri"
proof -
  have uri: "uri = scheme @ CHR '':'' # rest" using strCut_Some [OF assms(1)] by simp
  then have "uri_text rest" using assms(5,6) uri_text_at [of "CHR '':''" scheme rest] by (simp add: uri_text_def)
  define p q where "p = take (query_index rest) rest" and "q = drop (query_index rest) rest"
  have pq: "rest = p @ q" "uri_text p" "uri_text q" using query_split [OF \<open>uri_text rest\<close>] by (simp_all add: p_def q_def)
  have path: "dynamic_uri_path equalFold uri = (let (authority, pathOnly) = uri_authority p;
      encodedAuthority = (case authority of None \<Rightarrow> nul_authority
        | Some a \<Rightarrow> if a = nul_authority then forceEncodeDynamicURIPathSegment equalFold a False else EncodeDynamicURIPath equalFold a);
      encodedPath = (case pathOnly of Some p \<Rightarrow> EncodeDynamicURIPathWithSuffix equalFold p q | None \<Rightarrow> EncodeDynamicURINoPath q)
    in TryRootedPathFromNormalized equalFold (DynamicURIFileNamePrefix @ scheme @ ''/'' @ encodedAuthority @ ''/'' @ encodedPath))"
    unfolding dynamic_uri_path_def assms(1) RootedPathFromNormalized_def Let_def p_def q_def by simp
  note scheme = assms(3,4,2)
  show ?thesis
  proof (cases "CutPrefix p ''//''")
    case None
    obtain segs where s: "EncodeDynamicURIPathWithSuffix equalFold p q = strJoin segs ''/''" "segs \<noteq> []" "list_all normal segs"
      using codes_path_normal [OF query_codes [OF pq(2,3)]] by metis
    have "normal nul_authority" "TryDecodeDynamicURIPathSegment nul_authority = Some nul_authority" by code_simp+
    note leads = name_leads_back [OF scheme this s]
    have "uri_of_parts strict True scheme nul_authority (EncodeDynamicURIPathWithSuffix equalFold p q) = Some uri" for strict
      using uri_of_codes [OF _ query_codes [OF pq(2,3)], of nul_authority nul_authority strict scheme] uri pq(1) by simp
    from leads [OF this, of equalFold] show ?thesis using path None by (simp add: uri_authority_def)
  next
    case (Some after)
    have after: "p = ''//'' @ after" using CutPrefix_Some [OF Some] .
    then have ta: "uri_text after"
      using pq(2) uri_text_at [of slash "[]" "slash # after"] uri_text_at [of slash "[]" after] by simp
    define auth where "auth a = (if a = nul_authority then forceEncodeDynamicURIPathSegment equalFold a False else EncodeDynamicURIPath equalFold a)" for a
    have auth: "codes (auth a) a" "auth a \<noteq> nul_authority" if a: "slash \<notin> set a" "uri_text a" for a
    proof -
      show c: "codes (auth a) a"
        unfolding auth_def by (rule if_both [where P = "\<lambda>x. codes x a", OF force_codes [OF a] authority_codes [OF a]])
      have "TryDecodeDynamicURIPathSegment nul_authority = Some nul_authority" by code_simp
      then have "auth a = nul_authority \<Longrightarrow> a = nul_authority" using c by (simp add: codes_def)
      moreover have "auth nul_authority \<noteq> nul_authority" by (simp add: auth_def forceEncodeDynamicURIPathSegment_def)
      ultimately show "auth a \<noteq> nul_authority" by metis
    qed
    show ?thesis
    proof (cases "strCut after slash")
      case None
      then have a: "slash \<notin> set after" by (auto simp: strCut_def IndexByte_None split: option.splits)
      note auth = auth [OF a ta]
      have "TryDecodeDynamicURIPathSegment (auth after) = Some after" using auth(1) by (simp add: codes_def)
      note leads = name_leads_back [OF scheme codes_normal [OF auth(1)] this, of "EncodeDynamicURINoPath q" "[EncodeDynamicURINoPath q]"]
      have "uri_of_parts strict True scheme (auth after) (EncodeDynamicURINoPath q) = Some uri" for strict
        using uri_of_no_path [OF auth(2,1) pq(3), of strict scheme] uri pq(1) after by simp
      then show ?thesis
        using leads [of uri equalFold] path Some None by (simp add: uri_authority_def auth_def no_path_normal)
    next
      case cut: (Some x)
      obtain a r where x: "x = (a, r)" by (cases x)
      have ar: "after = a @ slash # r" "slash \<notin> set a" using strCut_Some [of after slash a r] cut x by simp_all
      have t: "uri_text a" "uri_text r" using ta ar(1) uri_text_at [of slash a r] by simp_all
      note auth = auth [OF ar(2) t(1)]
      have dec: "TryDecodeDynamicURIPathSegment (auth a) = Some a" using auth(1) by (simp add: codes_def)
      obtain segs where s: "EncodeDynamicURIPathWithSuffix equalFold r q = strJoin segs ''/''" "segs \<noteq> []" "list_all normal segs"
        using codes_path_normal [OF query_codes [OF t(2) pq(3)]] by metis
      note leads = name_leads_back [OF scheme codes_normal [OF auth(1)] dec s]
      have "uri_of_parts strict True scheme (auth a) (EncodeDynamicURIPathWithSuffix equalFold r q) = Some uri" for strict
        using uri_of_codes [OF _ query_codes [OF t(2) pq(3)], of "auth a" a strict scheme] auth uri pq(1) after ar(1) by simp
      from leads [OF this, of equalFold] show ?thesis using path Some cut x by (simp add: uri_authority_def auth_def)
    qed
  qed
qed

theorem uri_of_dynamic_name_witness:
  "\<exists>path. dynamic_uri_path (=) ''git://host/a/../b.d.ts?q/x#c:'' = Some path
    \<and> DynamicFileNameToDocumentUri path = Some ''git://host/a/../b.d.ts?q/x#c:''
    \<and> TryDynamicFileNameToDocumentUri path = Some ''git://host/a/../b.d.ts?q/x#c:''"
proof -
  have s: "strCut ''git://host/a/../b.d.ts?q/x#c:'' CHR '':'' = Some (''git'', ''//host/a/../b.d.ts?q/x#c:'')"
    and v: "utf8_Valid ''git://host/a/../b.d.ts?q/x#c:''" by code_simp+
  show ?thesis by (rule uri_of_dynamic_name [OF s _ _ _ v]) simp_all
qed


text \<open>Without the hypothesis on NUL bytes it does not hold: NUL separates the segment from the query.\<close>

lemma nul_byte_moves_extension:
  "map_option DynamicFileNameToDocumentUri (dynamic_uri_path (=) (''x:a'' @ [NUL] @ ''b.ts?q''))
    = Some (Some (''x:a.tsb'' @ [NUL] @ ''?q''))"
  by code_simp

end
