(* ===== verification/Spec2Isabelle.thy ===== *)
theory Spec2Isabelle
  imports ScannerSync TsPathProps SourceMapTrip CollectionsProps CollSets ScannerOffsets SemverText SemverOrder
    PrinterScan VfsGlobProps VfsPrune ScannerRescan CommentRanges RegExpGrammar RegExpSeparator
    SpanMapProps DynamicUriProps
begin

text \<open>
  A verification development for the TypeScript compiler in Go (\<^verbatim>\<open>src/tsc/internal\<close>; paths below are
  relative to it). It models the packages whose behaviour is defined on texts, paths, positions and
  collections: the scanner and what it rests on, the paths, globs and versions that configuration is
  written in, the collections the other packages keep their state in, and source maps.

  \<^bold>\<open>Parts and theories.\<close>
  \<^item> Go itself. \<open>Prelude\<close>: slices and generic list facts. \<open>GoStrings\<close>: strings as bytes, runes,
    \<^verbatim>\<open>unicode/utf8\<close> and the functions of \<^verbatim>\<open>strings\<close> in use. \<open>GoInt\<close>: 64-bit integers. \<open>GoRegexp\<close>:
    trimming, number parsing and the regular expressions of \<^verbatim>\<open>semver\<close>, each as the function that
    matches it. \<open>Wtf8\<close>: encoding and decoding of runes are inverse.
  \<^item> Scanner (\<^verbatim>\<open>scanner/scanner.go\<close>, \<^verbatim>\<open>scanner/utilities.go\<close>, \<^verbatim>\<open>ast/kind_generated.go\<close>). \<open>Kinds\<close>: token
    kinds and flags. \<open>UnicodeTables\<close>, \<open>StringUtil\<close>: identifier tables, character classes, the coding
    of UTF-16 strings in bytes (\<^verbatim>\<open>stringutil\<close>). \<open>ScannerBase\<close>: the record \<open>Scanner\<close> with its accessors,
    the keyword table as a perfect hash. \<open>BigInt\<close>: \<^verbatim>\<open>jsnum/pseudobigint.go\<close>. \<open>ScannerLex\<close>,
    \<open>ScannerText\<close>: numbers, identifiers, escapes, strings, templates. \<open>ScannerTrivia\<close>: white space,
    comments, conflict markers. \<open>ScannerMain\<close>: \<open>Scan\<close>. \<open>ScannerRescan\<close>: tokens scanned again in
    another context, JSX and JSDoc. Each method is a function from the scanner to
    its result and the scanner after it; a Go panic sets \<open>s_panicked\<close>; an error callback appends to
    \<open>s_errors\<close>. \<open>ScannerProps\<close> shows that \<open>Scan\<close> is safe, makes progress and that its tokens tile
    the text; \<open>ScannerSync\<close> that \<open>Scan\<close> and \<open>SkipTrivia\<close> agree on trivia; \<open>CommentRanges\<close> that the comment ranges
    are those of the trivia, which a grammar on bytes describes; \<open>Keywords\<close> that the hash table is the list of
    keywords.
  \<^item> Regular expressions (\<^verbatim>\<open>scanner/regexp.go\<close>, \<^verbatim>\<open>scanner/unicodeproperties.go\<close>). \<open>RegExpTables\<close>: the
    names of Unicode properties; \<open>RegExpScan\<close>: the checker, a parser whose state holds the scanner;
    \<open>RegExpToken\<close>: \<open>ReScanSlashToken\<close>, which finds the end of a literal and runs the checker on its
    body. The mutually recursive methods are definitions over a callback, tied by recursion on fuel.
    \<open>RegExpSafe\<close>, \<open>RegExpRun\<close>, \<open>RegExpCheck\<close>: every method moves forward inside the body and does not
    panic, so fuel of twelve times the length of the text is enough; \<open>RegExpLiteral\<close>: the literal is
    safe and the same with and without the check, unless U+2028 or U+2029 stands behind a backslash of the body;
    \<open>RegExpSeparator\<close>: then the check fails an assertion; \<open>RegExpGrammar\<close>: the body is that of ECMA-262 but for
    these two characters, which the scanner does not take for line terminators.
  \<^item> Lines and offsets (\<^verbatim>\<open>core/core.go\<close>, \<^verbatim>\<open>scanner/scanner.go\<close>, \<^verbatim>\<open>ast/positionmap.go\<close>,
    \<^verbatim>\<open>sourcemap/lineinfo.go\<close>). \<open>ScannerLines\<close>: the operations; \<open>ScannerLinesProps\<close>, \<open>ScannerOffsets\<close>:
    the line map is the set of positions behind a line terminator, the searches find the line of a
    position, and the conversions between byte and UTF-16 offsets are inverse; \<open>UTF16Len\<close> counts two units more
    for every lone surrogate than they do. The laws of a decoder
    they need are the locale \<open>rune_decoder\<close>, interpreted on Go's decoder and on the one that keeps
    lone surrogates.
  \<^item> Span maps of content mappers (\<^verbatim>\<open>spanmap/spanmap.go\<close>). \<open>SpanMap\<close>: segments that relate a virtual text to
    the original, their validation, the lookups in both directions, the max-end tree that serves the
    second. \<open>SpanMapProps\<close>: on a validated map exact results keep the text and lead back, but for a range that
    ends behind the last segment; and the tree finds what a scan finds. \<open>slices.SortFunc\<close> is not stable, so each operation takes the sorting
    functions, with \<open>SortFunc_contract\<close> as what they promise; \<open>isort\<close> shows that it can hold.
  \<^item> Printer (\<^verbatim>\<open>printer/utilities.go\<close>). \<open>PrinterEscape\<close>: the escapes of string literals; \<open>PrinterScan\<close>:
    the scanner reads back what the printer wrote.
  \<^item> Source maps (\<^verbatim>\<open>sourcemap/generator.go\<close>, \<^verbatim>\<open>sourcemap/decoder.go\<close>). \<open>SourceMapVLQ\<close>: the numbers;
    \<open>SourceMap\<close>: the decoder; \<open>SourceMapGen\<close>: the generator and its pending mapping; \<open>SourceMapProps\<close>,
    \<open>SourceMapCommit\<close>: what is written is read back. \<open>SourceMapSpec\<close>: an abstract generator, a list of mappings and
    one pending mapping, which the events alone determine, and the simulation that relates the code to it;
    \<open>SourceMapTrip\<close>: the code refines it, and the decoder gives the added mappings back, neighbours at one position
    merged; a source that is left behind a mapping without one makes further calls write the mapping again.
  \<^item> Paths (\<^verbatim>\<open>tspath/path.go\<close>). \<open>TsPath\<close>: the operations; \<open>TsPathProps\<close>: the in-place normalizer is the
    reduction of components, and a relative path leads to its target.
  \<^item> Extensions and documents that are not on disk (\<^verbatim>\<open>tspath/extension.go\<close>, \<^verbatim>\<open>tspath/dynamic.go\<close>,
    \<^verbatim>\<open>lsp/lsproto/lsp.go\<close>). \<open>TsExtension\<close>: which extension a path has; \<open>DynamicUri\<close>: a URI as a rooted
    path, with the segments that normalizing would change in hexadecimal; \<open>DynamicUriProps\<close>: the path is
    normalized and leads back to the URI. The URIs of files, which \<^verbatim>\<open>net/url\<close> parses, are left out.
  \<^item> Globs (\<^verbatim>\<open>vfs/vfsmatch/vfsmatch.go\<close>). \<open>VfsGlob\<close>: compilation and matching; \<open>VfsGlobProps\<close>: the
    matcher with one remembered star is full backtracking; \<open>VfsPrune\<close>: directories on the way to a
    matching file are not pruned.
  \<^item> Versions (\<^verbatim>\<open>semver\<close>). \<open>Semver\<close>: parsing, printing, comparing, ranges; \<open>SemverText\<close>: exactly
    which versions are read back from their text; \<open>SemverOrder\<close>: the comparison is the linear order of the specification.
  \<^item> Collections (\<^verbatim>\<open>collections\<close>). \<open>MapInterface\<close>: the contracts of maps and sets as locales;
    \<open>Collections\<close>, \<open>CollSets\<close>: ordered map and set, multimap, set, copy-on-write map and set, with the
    contracts interpreted on them; \<open>CollectionsProps\<close>: refinement of association lists, patches,
    iteration under change.

  \<^bold>\<open>Bounds and fuel.\<close> Loops over a text are functions with a termination proof: each turn consumes a
  byte. Positions are natural numbers (a Go \<open>int\<close> of 64 bits holds every position of a file);
  integers whose wrap-around matters are at their width (\<open>GoInt\<close>, the 32-bit components of versions,
  the 8-bit hash of keywords). The loop of the glob matcher is a \<open>partial_function\<close>, and a theorem
  states that it returns.

  \<^bold>\<open>Parameters.\<close> Case folding of non-ASCII text (\<open>strings.EqualFold\<close>, \<open>strings.ToLower\<close>) is a parameter of
  the paths and globs, as is the body that an iteration over an ordered map runs, and the suggestion
  for a misspelled name in a regular expression (\<^verbatim>\<open>core.GetSpellingSuggestionForStrings\<close>, an edit distance
  in floating point).

  \<^bold>\<open>Not modelled.\<close> The parser, binder, checker, transformers and printer proper work on the generated
  syntax tree (\<^verbatim>\<open>ast/ast_generated.go\<close>), which is not modelled, nor is what is built on them: the
  language service, the API, incremental and watch builds, the project system. File system, processes,
  and protocols are input and output. JSON (\<^verbatim>\<open>json\<close>) and locks are libraries' work. Diagnostic texts
  and other tables are generated.
\<close>

end
